(* ===== verification/Js_Number.thy ===== *)
theory Js_Number
  imports Complex_Main "HOL-Library.Log_Nat" Js_Base
begin

text \<open>
  JavaScript numbers: IEEE 754 binary64 with round-to-nearest, ties to even.

  A finite number other than negative zero is \<open>Fin q\<close> for its exact rational value;
  the arithmetic operators compute the exact rational result and round it with
  \<open>to_double\<close>, so \<open>0.1 + 0.2\<close> is the double the browser computes and not 3/10.
  The lemmas show that rounding is exact on every representable value (in
  particular on the safe integers), idempotent, sign preserving and within half a
  unit in the last place.
\<close>

section \<open>Rounding to binary64\<close>

datatype jsnum = NaN | Infty bool | NegZero | Fin rat

text \<open>\<open>ilog b x\<close> is the exponent \<open>e\<close> with \<open>b powi e \<le> x < b powi (e + 1)\<close>, for positive \<open>x\<close>.\<close>

definition ilog :: "nat \<Rightarrow> rat \<Rightarrow> int" where
  "ilog b x =
     (let (p, q) = quotient_of x;
          e = int (floorlog b (nat p)) - int (floorlog b (nat q))
      in if of_nat b powi e \<le> x then e else e - 1)"

definition round_even :: "rat \<Rightarrow> int" where
  "round_even y =
     (let f = \<lfloor>y\<rfloor>; d = y - of_int f
      in if d < 1 / 2 then f
         else if 1 / 2 < d then f + 1
         else if even f then f else f + 1)"

text \<open>The exponent of the unit in the last place of the binade of \<open>x\<close>; subnormal
  numbers share the smallest one.\<close>

definition quantum :: "rat \<Rightarrow> int" where
  "quantum x = max (ilog 2 \<bar>x\<bar> - 52) (- 1074)"

definition overflow_bound :: rat where
  "overflow_bound = 2 ^ 1024"

definition to_double :: "rat \<Rightarrow> jsnum" where
  "to_double x =
     (if x = 0 then Fin 0
      else let k = quantum x; m = round_even (x / 2 powi k) in
        if m = 0 then (if x < 0 then NegZero else Fin 0)
        else let y = of_int m * 2 powi k in
          if overflow_bound \<le> \<bar>y\<bar> then Infty (x < 0) else Fin y)"

section \<open>Operators\<close>

fun is_finite :: "jsnum \<Rightarrow> bool" where
  "is_finite NaN = False"
| "is_finite (Infty _) = False"
| "is_finite NegZero = True"
| "is_finite (Fin _) = True"

fun num_val :: "jsnum \<Rightarrow> rat" where
  "num_val (Fin x) = x"
| "num_val _ = 0"

fun num_neg :: "jsnum \<Rightarrow> bool" where
  "num_neg NaN = False"
| "num_neg (Infty s) = s"
| "num_neg NegZero = True"
| "num_neg (Fin x) = (x < 0)"

definition signed_zero :: "bool \<Rightarrow> jsnum" where
  "signed_zero s = (if s then NegZero else Fin 0)"

fun uminus_num :: "jsnum \<Rightarrow> jsnum" where
  "uminus_num NaN = NaN"
| "uminus_num (Infty s) = Infty (\<not> s)"
| "uminus_num NegZero = Fin 0"
| "uminus_num (Fin x) = (if x = 0 then NegZero else Fin (- x))"

fun add_num :: "jsnum \<Rightarrow> jsnum \<Rightarrow> jsnum" where
  "add_num NaN _ = NaN"
| "add_num _ NaN = NaN"
| "add_num (Infty s) (Infty t) = (if s = t then Infty s else NaN)"
| "add_num (Infty s) _ = Infty s"
| "add_num _ (Infty t) = Infty t"
| "add_num NegZero NegZero = NegZero"
| "add_num a b = to_double (num_val a + num_val b)"

definition sub_num :: "jsnum \<Rightarrow> jsnum \<Rightarrow> jsnum" where
  "sub_num a b = add_num a (uminus_num b)"

definition is_zero :: "jsnum \<Rightarrow> bool" where
  "is_zero a \<longleftrightarrow> is_finite a \<and> num_val a = 0"

definition mul_num :: "jsnum \<Rightarrow> jsnum \<Rightarrow> jsnum" where
  "mul_num a b =
     (let s = (num_neg a \<noteq> num_neg b) in
      if a = NaN \<or> b = NaN then NaN
      else if \<not> is_finite a \<or> \<not> is_finite b then
        (if is_zero a \<or> is_zero b then NaN else Infty s)
      else if is_zero a \<or> is_zero b then signed_zero s
      else to_double (num_val a * num_val b))"

definition div_num :: "jsnum \<Rightarrow> jsnum \<Rightarrow> jsnum" where
  "div_num a b =
     (let s = (num_neg a \<noteq> num_neg b) in
      if a = NaN \<or> b = NaN then NaN
      else if \<not> is_finite a then (if is_finite b then Infty s else NaN)
      else if \<not> is_finite b then signed_zero s
      else if is_zero b then (if is_zero a then NaN else Infty s)
      else if is_zero a then signed_zero s
      else to_double (num_val a / num_val b))"

text \<open>\<open>a % b\<close>: the remainder of the division truncated towards zero; it is exact.\<close>

definition trunc_rat :: "rat \<Rightarrow> int" where
  "trunc_rat x = (if x < 0 then \<lceil>x\<rceil> else \<lfloor>x\<rfloor>)"

definition rem_num :: "jsnum \<Rightarrow> jsnum \<Rightarrow> jsnum" where
  "rem_num a b =
     (if a = NaN \<or> b = NaN \<or> \<not> is_finite a \<or> is_zero b then NaN
      else if \<not> is_finite b \<or> is_zero a then a
      else let x = num_val a; y = num_val b; r = x - y * of_int (trunc_rat (x / y)) in
        if r = 0 then signed_zero (x < 0) else Fin r)"

fun lt_num :: "jsnum \<Rightarrow> jsnum \<Rightarrow> bool" where
  "lt_num NaN _ = False"
| "lt_num _ NaN = False"
| "lt_num (Infty s) (Infty t) = (s \<and> \<not> t)"
| "lt_num (Infty s) _ = s"
| "lt_num _ (Infty t) = (\<not> t)"
| "lt_num a b = (num_val a < num_val b)"

text \<open>\<open>a === b\<close> on numbers: \<open>NaN\<close> is unequal to itself and the zeros are equal.\<close>

fun eq_num :: "jsnum \<Rightarrow> jsnum \<Rightarrow> bool" where
  "eq_num NaN _ = False"
| "eq_num _ NaN = False"
| "eq_num (Infty s) (Infty t) = (s = t)"
| "eq_num (Infty s) _ = False"
| "eq_num _ (Infty t) = False"
| "eq_num a b = (num_val a = num_val b)"

definition le_num :: "jsnum \<Rightarrow> jsnum \<Rightarrow> bool" where
  "le_num a b \<longleftrightarrow> lt_num a b \<or> eq_num a b"

definition min_num :: "jsnum \<Rightarrow> jsnum \<Rightarrow> jsnum" where
  "min_num a b =
     (if a = NaN \<or> b = NaN then NaN
      else if is_zero a \<and> is_zero b then signed_zero (a = NegZero \<or> b = NegZero)
      else if lt_num b a then b else a)"

definition max_num :: "jsnum \<Rightarrow> jsnum \<Rightarrow> jsnum" where
  "max_num a b =
     (if a = NaN \<or> b = NaN then NaN
      else if is_zero a \<and> is_zero b then signed_zero (a = NegZero \<and> b = NegZero)
      else if lt_num a b then b else a)"

fun abs_num :: "jsnum \<Rightarrow> jsnum" where
  "abs_num NaN = NaN"
| "abs_num (Infty _) = Infty False"
| "abs_num NegZero = Fin 0"
| "abs_num (Fin x) = Fin \<bar>x\<bar>"

fun floor_num :: "jsnum \<Rightarrow> jsnum" where
  "floor_num (Fin x) = Fin (of_int \<lfloor>x\<rfloor>)"
| "floor_num a = a"

fun ceil_num :: "jsnum \<Rightarrow> jsnum" where
  "ceil_num (Fin x) = (if \<lceil>x\<rceil> = 0 \<and> x < 0 then NegZero else Fin (of_int \<lceil>x\<rceil>))"
| "ceil_num a = a"

definition is_integer :: "jsnum \<Rightarrow> bool" where
  "is_integer a \<longleftrightarrow> is_finite a \<and> of_int \<lfloor>num_val a\<rfloor> = num_val a"

definition is_safe_integer :: "jsnum \<Rightarrow> bool" where
  "is_safe_integer a \<longleftrightarrow> is_integer a \<and> \<bar>num_val a\<bar> \<le> 2 ^ 53 - 1"

abbreviation num_of_int :: "int \<Rightarrow> jsnum" where
  "num_of_int i \<equiv> Fin (of_int i)"

text \<open>The value of a decimal numeral: mantissa digits, digits after the point and
  a power of ten, rounded once.\<close>

fun digits_val :: "nat \<Rightarrow> jsstr \<Rightarrow> nat" where
  "digits_val acc [] = acc"
| "digits_val acc (c # s) = digits_val (10 * acc + (c - 48)) s"

definition decimal_num :: "jsstr \<Rightarrow> jsstr \<Rightarrow> int \<Rightarrow> jsnum" where
  "decimal_num ip fp e =
     to_double (of_nat (digits_val 0 (ip @ fp)) * 10 powi (e - int (length fp)))"

section \<open>Rounding lemmas\<close>

lemma powi_2_pos [simp]: "(0::rat) < 2 powi k"
  by simp

lemma powi_mono: "i \<le> j \<Longrightarrow> (2::rat) powi i \<le> 2 powi j"
  by (rule power_int_increasing) auto

lemma powi_less_cancel: "(2::rat) powi i < 2 powi j \<Longrightarrow> i < j"
  by (meson linorder_not_less powi_mono)

lemma powi_int_mult: "k \<le> j \<Longrightarrow> \<exists>i. (2::rat) powi j / 2 powi k = of_int i"
proof -
  assume "k \<le> j"
  then have "(2::rat) powi (j - k) = of_int (2 ^ nat (j - k))"
    by (simp add: power_int_def)
  moreover have "(2::rat) powi j / 2 powi k = 2 powi (j - k)"
    by (simp add: power_int_diff)
  ultimately show ?thesis by metis
qed

lemma ilog_bounds:
  assumes b: "1 < b" and x: "0 < x"
  shows "of_nat b powi ilog b x \<le> x \<and> x < of_nat b powi (ilog b x + 1)"
proof -
  obtain p q where pq: "quotient_of x = (p, q)" by fastforce
  have q: "0 < q" using quotient_of_denom_pos [OF pq] .
  have xeq: "x = of_int p / of_int q" using quotient_of_div [OF pq] .
  have p: "0 < p" using x xeq q by (simp add: zero_less_divide_iff)
  let ?P = "floorlog b (nat p)" and ?Q = "floorlog b (nat q)"
  let ?b = "of_nat b :: rat"
  have b0: "0 < ?b" "1 < ?b" "?b \<noteq> 0" using b by auto
  have P1: "0 < ?P" "0 < ?Q" using p q b by (auto simp: floorlog_def)
  have nat_bounds: "?b powi (int (floorlog b (nat r)) - 1) \<le> of_int r \<and>
      of_int r < ?b powi int (floorlog b (nat r))" if r: "0 < r" for r
  proof -
    from floorlog_bounds [of "nat r" b] r b
    have lo: "b ^ (floorlog b (nat r) - 1) \<le> nat r" and hi: "nat r < b ^ floorlog b (nat r)"
      by auto
    have pos: "0 < floorlog b (nat r)" using r b by (auto simp: floorlog_def)
    have r_nat: "of_int r = (of_nat (nat r) :: rat)"
      using r by simp
    have "?b ^ (floorlog b (nat r) - 1) \<le> of_int r"
      unfolding r_nat of_nat_power [symmetric] of_nat_le_iff by (rule lo)
    moreover have "of_int r < ?b ^ floorlog b (nat r)"
      unfolding r_nat of_nat_power [symmetric] of_nat_less_iff by (rule hi)
    moreover have "?b powi (int (floorlog b (nat r)) - 1) = ?b ^ (floorlog b (nat r) - 1)"
      using pos by (simp add: power_int_def nat_diff_distrib)
    ultimately show ?thesis by simp
  qed
  let ?e = "int ?P - int ?Q"
  have lo: "?b powi (?e - 1) < x"
  proof -
    have "?b powi (?e - 1) = ?b powi (int ?P - 1) / ?b powi int ?Q"
      using b0 by (simp add: power_int_diff)
    also have "\<dots> \<le> of_int p / ?b powi int ?Q"
      using nat_bounds [OF p] b0 by (simp add: divide_right_mono)
    also have "\<dots> < of_int p / of_int q"
      using nat_bounds [OF q] p q b0 by (simp add: divide_strict_left_mono)
    finally show ?thesis using xeq by simp
  qed
  have hi: "x < ?b powi (?e + 1)"
  proof -
    have "of_int p / of_int q < ?b powi int ?P / of_int q"
      using nat_bounds [OF p] q by (simp add: divide_strict_right_mono)
    also have "\<dots> \<le> ?b powi int ?P / ?b powi (int ?Q - 1)"
      using nat_bounds [OF q] q b0 by (intro divide_left_mono) auto
    also have "\<dots> = ?b powi (?e + 1)"
      using b0 power_int_diff [of ?b "int ?P" "int ?Q - 1"] by (simp add: algebra_simps)
    finally show ?thesis using xeq by simp
  qed
  show ?thesis
    using lo hi pq by (auto simp: ilog_def Let_def)
qed

lemma ilog2_less: "0 < x \<Longrightarrow> x < 2 powi k \<Longrightarrow> ilog 2 x < k"
  using ilog_bounds [of 2 x] by (metis of_nat_numeral one_less_numeral_iff semiring_norm(76)
    order_le_less_trans powi_less_cancel)

lemma round_even_of_int [simp]: "round_even (of_int i) = i"
  by (simp add: round_even_def)

lemma round_even_zero [simp]: "round_even 0 = 0"
  using round_even_of_int [of 0] by simp

lemma round_even_near: "\<bar>of_int (round_even y) - y\<bar> \<le> 1 / 2"
proof -
  have f: "of_int \<lfloor>y\<rfloor> \<le> y" "y < of_int \<lfloor>y\<rfloor> + 1"
    using floor_correct [of y] by simp_all
  show ?thesis
    unfolding round_even_def Let_def
    by (cases "y - of_int \<lfloor>y\<rfloor> < 1 / 2"; cases "1 / 2 < y - of_int \<lfloor>y\<rfloor>")
       (use f in \<open>auto simp: abs_le_iff\<close>)
qed

lemma round_even_mono: "y \<le> z \<Longrightarrow> round_even y \<le> round_even z"
proof -
  assume yz: "y \<le> z"
  show ?thesis
  proof (cases "\<lfloor>y\<rfloor> = \<lfloor>z\<rfloor>")
    case True
    then show ?thesis using yz by (auto simp: round_even_def Let_def)
  next
    case False
    then have "\<lfloor>y\<rfloor> + 1 \<le> \<lfloor>z\<rfloor>" using floor_mono [OF yz] by simp
    moreover have "round_even y \<le> \<lfloor>y\<rfloor> + 1" "\<lfloor>z\<rfloor> \<le> round_even z"
      by (auto simp: round_even_def Let_def)
    ultimately show ?thesis by linarith
  qed
qed

lemma round_even_le_int: "y \<le> of_int i \<Longrightarrow> round_even y \<le> i"
  using round_even_mono [of y "of_int i"] by simp

lemma round_even_ge_int: "of_int i \<le> y \<Longrightarrow> i \<le> round_even y"
  using round_even_mono [of "of_int i" y] by simp

lemma quantum_bound: "x \<noteq> 0 \<Longrightarrow> \<bar>x / 2 powi quantum x\<bar> < 2 ^ 53"
proof -
  assume "x \<noteq> 0"
  then have "\<bar>x\<bar> < 2 powi (ilog 2 \<bar>x\<bar> + 1)"
    using ilog_bounds [of 2 "\<bar>x\<bar>"] by simp
  also have "\<dots> \<le> 2 powi (53 + quantum x)"
    by (rule powi_mono) (simp add: quantum_def)
  also have "\<dots> = 2 ^ 53 * 2 powi quantum x"
    by (simp add: power_int_add)
  finally show ?thesis
    by (simp add: abs_divide divide_less_eq)
qed

text \<open>Rounding is exact on every number of the binary64 format.\<close>

lemma to_double_exact:
  assumes m: "\<bar>m\<bar> < 2 ^ 53" and j: "- 1074 \<le> j"
    and x: "x = of_int m * 2 powi j" and big: "\<bar>x\<bar> < overflow_bound"
  shows "to_double x = Fin x"
proof (cases "x = 0")
  case True
  then show ?thesis by (simp add: to_double_def)
next
  case False
  have "\<bar>x\<bar> = of_int \<bar>m\<bar> * 2 powi j"
    using x by (simp add: abs_mult)
  also have "\<dots> < 2 ^ 53 * 2 powi j"
    using m by (metis (mono_tags, lifting) mult_strict_right_mono of_int_less_numeral_power_cancel_iff powi_2_pos)
  also have "\<dots> = 2 powi (53 + j)"
    by (simp add: power_int_add)
  finally have "ilog 2 \<bar>x\<bar> < 53 + j"
    using False by (intro ilog2_less) auto
  then have "quantum x \<le> j"
    using j by (simp add: quantum_def)
  then obtain i where i: "(2::rat) powi j / 2 powi quantum x = of_int i"
    using powi_int_mult by blast
  have div: "x / 2 powi quantum x = of_int (m * i)"
    using x i by (metis of_int_mult times_divide_eq_right)
  then have mi: "m * i \<noteq> 0"
    using False by (metis divide_eq_0_iff of_int_0_eq_iff power_int_eq_0_iff zero_neq_numeral)
  have "of_int (m * i) * 2 powi quantum x = x"
    using div by (simp add: divide_eq_eq)
  moreover have "round_even (x / 2 powi quantum x) = m * i"
    unfolding div by (rule round_even_of_int)
  ultimately show ?thesis
    using False mi big by (simp add: to_double_def Let_def del: of_int_mult)
qed

lemma to_double_of_int:
  assumes "\<bar>i\<bar> < 2 ^ 53"
  shows "to_double (of_int i) = Fin (of_int i)"
proof (rule to_double_exact [OF assms, of 0])
  have "\<bar>of_int i :: rat\<bar> = of_int \<bar>i\<bar>" by simp
  also have "\<dots> < of_int (2 ^ 53)" using assms by (simp only: of_int_less_iff)
  also have "\<dots> \<le> overflow_bound" by (simp add: overflow_bound_def)
  finally show "\<bar>of_int i :: rat\<bar> < overflow_bound" .
qed simp_all

lemma to_double_numeral:
  "(numeral k :: int) < 2 ^ 53 \<Longrightarrow> to_double (numeral k) = Fin (numeral k)"
  using to_double_of_int [of "numeral k"] by simp

lemma to_double_0 [simp]: "to_double 0 = Fin 0"
  by (simp add: to_double_def)

lemma to_double_1 [simp]: "to_double 1 = Fin 1"
  using to_double_of_int [of 1] by simp

text \<open>A rounded finite result is itself a double, and is within half a unit in the
  last place of the exact value.\<close>

lemma to_double_near:
  assumes "to_double x = Fin y"
  shows "\<bar>y - x\<bar> \<le> 2 powi quantum x / 2"
proof (cases "x = 0")
  case True
  then show ?thesis using assms by simp
next
  case False
  let ?k = "quantum x"
  have "y = of_int (round_even (x / 2 powi ?k)) * 2 powi ?k"
    using assms False by (auto simp: to_double_def Let_def split: if_splits)
  moreover have "x = (x / 2 powi ?k) * 2 powi ?k" by simp
  ultimately have "\<bar>y - x\<bar> = \<bar>of_int (round_even (x / 2 powi ?k)) - x / 2 powi ?k\<bar> * 2 powi ?k"
    by (metis abs_mult abs_of_pos left_diff_distrib powi_2_pos)
  also have "\<dots> \<le> 1 / 2 * 2 powi ?k"
    by (intro mult_right_mono round_even_near) simp
  finally show ?thesis by simp
qed

lemma to_double_idem:
  assumes "to_double x = Fin y"
  shows "to_double y = Fin y"
proof (cases "x = 0 \<or> y = 0")
  case True
  then show ?thesis using assms by auto
next
  case False
  let ?k = "quantum x" and ?m = "round_even (x / 2 powi quantum x)"
  have y: "y = of_int ?m * 2 powi ?k" and big: "\<bar>y\<bar> < overflow_bound"
    using assms False by (auto simp: to_double_def Let_def split: if_splits)
  have k: "- 1074 \<le> ?k" by (simp add: quantum_def)
  have "\<bar>x / 2 powi ?k\<bar> \<le> of_int (2 ^ 53)"
    using quantum_bound [of x] False by simp
  then have "x / 2 powi ?k \<le> of_int (2 ^ 53)" "of_int (- (2 ^ 53)) \<le> x / 2 powi ?k"
    unfolding of_int_minus abs_le_iff by linarith+
  then have m: "\<bar>?m\<bar> \<le> 2 ^ 53"
    using round_even_le_int round_even_ge_int by (metis abs_le_iff minus_le_iff)
  show ?thesis
  proof (cases "\<bar>?m\<bar> = 2 ^ 53")
    case False
    then show ?thesis using to_double_exact [OF _ k y big] m by simp
  next
    case True
    then have "?m = 1 * 2 ^ 53 \<or> ?m = - 1 * 2 ^ 53" by linarith
    then obtain s where s: "?m = s * 2 ^ 53" "\<bar>s\<bar> = 1"
      by (metis abs_1 abs_minus_cancel)
    then have "y = of_int (s * 2 ^ 52) * 2 powi (?k + 1)"
      using y by (simp add: power_int_add_1)
    then show ?thesis
      using to_double_exact [of "s * 2 ^ 52" "?k + 1" y] s k big by (simp add: abs_mult)
  qed
qed

lemma to_double_nonneg:
  assumes "0 \<le> x"
  shows "\<not> num_neg (to_double x) \<and> to_double x \<noteq> NaN"
proof -
  have "0 \<le> round_even (x / 2 powi quantum x)"
    using round_even_ge_int [of 0 "x / 2 powi quantum x"] assms by simp
  then show ?thesis
    using assms powi_2_pos [of "quantum x"]
    by (auto simp: to_double_def Let_def mult_less_0_iff simp del: powi_2_pos zero_less_power_int)
qed

lemma to_double_not_NaN [simp]: "to_double x \<noteq> NaN"
  by (auto simp: to_double_def Let_def)

text \<open>The values of number literals: non-negative doubles.\<close>

definition plain_double :: "jsnum \<Rightarrow> bool" where
  "plain_double n \<longleftrightarrow> (\<exists>x. n = Fin x \<and> 0 \<le> x \<and> to_double x = Fin x)"

lemma plain_double_finite: "plain_double n \<Longrightarrow> is_finite n"
  by (auto simp: plain_double_def)

lemma plain_double_nonneg: "plain_double n \<Longrightarrow> \<not> lt_num n (Fin 0) \<and> n \<noteq> NegZero \<and> le_num (Fin 0) n"
  by (auto simp: plain_double_def le_num_def)

lemma to_double_not_NegZero: "0 \<le> x \<Longrightarrow> to_double x \<noteq> NegZero"
  by (auto simp: to_double_def Let_def)

lemma decimal_num_plain:
  assumes "is_finite (decimal_num ip fp e)"
  shows "plain_double (decimal_num ip fp e)"
proof -
  let ?x = "of_nat (digits_val 0 (ip @ fp)) * (10::rat) powi (e - int (length fp))"
  have x: "0 \<le> ?x" by simp
  have "to_double ?x \<noteq> NegZero" using x by (rule to_double_not_NegZero)
  moreover have "is_finite (to_double ?x)" using assms by (simp add: decimal_num_def)
  ultimately obtain y where y: "to_double ?x = Fin y" by (cases "to_double ?x") auto
  then have "to_double y = Fin y" by (rule to_double_idem)
  moreover have "0 \<le> y" using to_double_nonneg [OF x] y by auto
  ultimately show ?thesis using y by (simp add: plain_double_def decimal_num_def)
qed

end
