(* ===== verification/Js_Value.thy ===== *)
theory Js_Value
  imports Js_Number
begin

text \<open>
  Dynamically typed JavaScript values, as the sources receive them from
  \<open>JSON.parse\<close>, from local storage or from a server response (\<open>unknown\<close> in
  TypeScript), with the operators the sources apply to them.  An object is the list
  of its own enumerable properties in enumeration order.
\<close>

datatype jsval =
    JUndef
  | JNull
  | JBool bool
  | JNum jsnum
  | JStr jsstr
  | JArr "jsval list"
  | JObj "(jsstr \<times> jsval) list"

text \<open>Property read \<open>v.k\<close> for a named own property (never \<open>length\<close>, never an inherited
  one); reading from a primitive gives \<open>undefined\<close>.\<close>

fun jget :: "jsval \<Rightarrow> jsstr \<Rightarrow> jsval" where
  "jget (JObj fs) k = (case map_of fs k of None \<Rightarrow> JUndef | Some v \<Rightarrow> v)"
| "jget _ _ = JUndef"

fun has_own :: "jsval \<Rightarrow> jsstr \<Rightarrow> bool" where
  "has_own (JObj fs) k = (map_of fs k \<noteq> None)"
| "has_own _ _ = False"

fun truthy :: "jsval \<Rightarrow> bool" where
  "truthy JUndef = False"
| "truthy JNull = False"
| "truthy (JBool b) = b"
| "truthy (JNum n) = (n \<noteq> NaN \<and> \<not> is_zero n)"
| "truthy (JStr s) = (s \<noteq> [])"
| "truthy (JArr _) = True"
| "truthy (JObj _) = True"

text \<open>\<open>typeof v === 'object'\<close>, which holds of \<open>null\<close> and of arrays too.\<close>

fun typeof_object :: "jsval \<Rightarrow> bool" where
  "typeof_object JNull = True"
| "typeof_object (JArr _) = True"
| "typeof_object (JObj _) = True"
| "typeof_object _ = False"

fun is_num :: "jsval \<Rightarrow> bool" where
  "is_num (JNum _) = True"
| "is_num _ = False"

fun is_str :: "jsval \<Rightarrow> bool" where
  "is_str (JStr _) = True"
| "is_str _ = False"

fun is_bool :: "jsval \<Rightarrow> bool" where
  "is_bool (JBool _) = True"
| "is_bool _ = False"

fun is_array :: "jsval \<Rightarrow> bool" where
  "is_array (JArr _) = True"
| "is_array _ = False"

definition nullish :: "jsval \<Rightarrow> bool" where
  "nullish v \<longleftrightarrow> v = JUndef \<or> v = JNull"

text \<open>\<open>a === b\<close> where at least one side is a primitive; two objects are compared by
  identity, which no modelled function does.\<close>

fun strict_eq :: "jsval \<Rightarrow> jsval \<Rightarrow> bool" where
  "strict_eq JUndef JUndef = True"
| "strict_eq JNull JNull = True"
| "strict_eq (JBool a) (JBool b) = (a = b)"
| "strict_eq (JNum a) (JNum b) = eq_num a b"
| "strict_eq (JStr a) (JStr b) = (a = b)"
| "strict_eq _ _ = False"

text \<open>Guarded projections: \<open>typeof v === 'string' ? v : undefined\<close> and its kin.\<close>

fun as_str :: "jsval \<Rightarrow> jsstr option" where
  "as_str (JStr s) = Some s"
| "as_str _ = None"

fun as_num :: "jsval \<Rightarrow> jsnum option" where
  "as_num (JNum n) = Some n"
| "as_num _ = None"

fun as_bool :: "jsval \<Rightarrow> bool option" where
  "as_bool (JBool b) = Some b"
| "as_bool _ = None"

fun as_arr :: "jsval \<Rightarrow> jsval list option" where
  "as_arr (JArr vs) = Some vs"
| "as_arr _ = None"

lemma as_str_Some [simp]: "as_str v = Some s \<longleftrightarrow> v = JStr s"
  by (cases v) auto

lemma as_num_Some [simp]: "as_num v = Some n \<longleftrightarrow> v = JNum n"
  by (cases v) auto

lemma as_bool_Some [simp]: "as_bool v = Some b \<longleftrightarrow> v = JBool b"
  by (cases v) auto

lemma as_arr_Some [simp]: "as_arr v = Some xs \<longleftrightarrow> v = JArr xs"
  by (cases v) auto

lemma is_num_iff: "is_num v \<longleftrightarrow> (\<exists>n. v = JNum n)"
  by (cases v) auto

lemma is_str_iff: "is_str v \<longleftrightarrow> (\<exists>s. v = JStr s)"
  by (cases v) auto

lemma is_bool_iff: "is_bool v \<longleftrightarrow> (\<exists>b. v = JBool b)"
  by (cases v) auto

definition plain_object :: "jsval \<Rightarrow> bool" where
  "plain_object v \<longleftrightarrow> truthy v \<and> typeof_object v \<and> \<not> is_array v"

text \<open>Reads of a field whose type was checked before.\<close>

definition text_of :: "jsval \<Rightarrow> jsstr" where
  "text_of v = (case v of JStr s \<Rightarrow> s | _ \<Rightarrow> [])"

definition number_of :: "jsval \<Rightarrow> jsnum" where
  "number_of v = (case v of JNum n \<Rightarrow> n | _ \<Rightarrow> NaN)"

definition flag_of :: "jsval \<Rightarrow> bool" where
  "flag_of v = (v = JBool True)"

definition nullable_number :: "jsval \<Rightarrow> jsnum option" where
  "nullable_number v = (case v of JNum n \<Rightarrow> Some n | _ \<Rightarrow> None)"

abbreviation field :: "jsval \<Rightarrow> string \<Rightarrow> jsval" where
  "field v k \<equiv> jget v (js k)"

section \<open>Insertion-ordered maps\<close>

text \<open>A JavaScript \<open>Map\<close> or record: setting an existing key keeps its position, a new
  key goes last.\<close>

fun omap_set :: "'k \<Rightarrow> 'v \<Rightarrow> ('k \<times> 'v) list \<Rightarrow> ('k \<times> 'v) list" where
  "omap_set k v [] = [(k, v)]"
| "omap_set k v ((k', v') # m) = (if k' = k then (k, v) # m else (k', v') # omap_set k v m)"

definition omap_delete :: "'k \<Rightarrow> ('k \<times> 'v) list \<Rightarrow> ('k \<times> 'v) list" where
  "omap_delete k m = filter (\<lambda>(k', _). k' \<noteq> k) m"

definition set_add :: "'a list \<Rightarrow> 'a \<Rightarrow> 'a list" where
  "set_add xs x = (if x \<in> set xs then xs else xs @ [x])"

lemma map_of_omap_set [simp]: "map_of (omap_set k v m) = (map_of m)(k \<mapsto> v)"
  by (induction m) (auto simp: fun_eq_iff)

lemma map_of_omap_delete [simp]: "map_of (omap_delete k m) = (map_of m)(k := None)"
  by (induction m) (auto simp: omap_delete_def fun_eq_iff)

lemma set_keys_omap_set: "fst ` set (omap_set k v m) = insert k (fst ` set m)"
  by (induction k v m rule: omap_set.induct) (simp, simp add: insert_commute)

lemma distinct_omap_set:
  "distinct (map fst m) \<Longrightarrow> distinct (map fst (omap_set k v m))"
proof (induction m)
  case Nil
  then show ?case by simp
next
  case (Cons a m)
  then show ?case
    using set_keys_omap_set [of k v m] by (cases a) (auto simp: image_iff)
qed

lemma length_omap_set:
  "length (omap_set k v m) = (if k \<in> fst ` set m then length m else Suc (length m))"
  by (induction k v m rule: omap_set.induct) simp_all

lemma omap_set_values: "(k', v') \<in> set (omap_set k v m) \<Longrightarrow> (k', v') = (k, v) \<or> (k', v') \<in> set m"
  by (induction m) (auto split: if_splits)

lemma omap_delete_values: "set (omap_delete k m) \<subseteq> set m"
  by (auto simp: omap_delete_def)

lemma set_set_add [simp]: "set (set_add xs x) = insert x (set xs)"
  by (auto simp: set_add_def)

lemma distinct_set_add: "distinct xs \<Longrightarrow> distinct (set_add xs x)"
  by (auto simp: set_add_def)

end
