(* ===== verification/Billing_Types.thy ===== *)
theory Billing_Types
  imports Js_Value
begin

text \<open>
  The data model of the billing expression language
  (\<open>web/src/features/pricing/lib/billing-expression/types.ts\<close>): the syntax tree, the
  diagnostics, the result types, and the bounded post-order traversal
  \<open>visitExpression\<close>, shown equal to the recursive post-order fold.
\<close>

section \<open>Vocabulary\<close>

definition TOKEN_VARIABLES :: "jsstr list" where
  "TOKEN_VARIABLES = map js [''p'', ''c'', ''len'', ''cr'', ''cc'', ''cc1h'', ''img'',
     ''img_cr'', ''img_o'', ''ai'', ''ao'']"

definition BILLING_VARIABLES :: "jsstr list" where
  "BILLING_VARIABLES = TOKEN_VARIABLES @ [js ''image_count'']"

definition TIME_FUNCTIONS :: "jsstr list" where
  "TIME_FUNCTIONS = map js [''hour'', ''minute'', ''weekday'', ''month'', ''day'']"

definition BILLING_FUNCTIONS :: "(jsstr \<times> nat) list" where
  "BILLING_FUNCTIONS = map (\<lambda>(n, a). (js n, a))
     [(''tier'', 2), (''fixed'', 1), (''param'', 1), (''header'', 1), (''has'', 2),
      (''u'', 1), (''hour'', 1), (''minute'', 1), (''weekday'', 1), (''month'', 1),
      (''day'', 1), (''min'', 2), (''max'', 2), (''abs'', 1), (''ceil'', 1), (''floor'', 1)]"

section \<open>Syntax tree\<close>

datatype lit = LNum jsnum | LStr jsstr | LBool bool | LNull

datatype expr =
    Literal lit "bool option" nat nat
  | Variable jsstr nat nat
  | Call jsstr "expr list" nat nat
  | Unary jsstr expr nat nat
  | Binary jsstr expr expr nat nat
  | Conditional expr expr expr nat nat

fun estart :: "expr \<Rightarrow> nat" where
  "estart (Literal _ _ s _) = s"
| "estart (Variable _ s _) = s"
| "estart (Call _ _ s _) = s"
| "estart (Unary _ _ s _) = s"
| "estart (Binary _ _ _ s _) = s"
| "estart (Conditional _ _ _ s _) = s"

fun eend :: "expr \<Rightarrow> nat" where
  "eend (Literal _ _ _ e) = e"
| "eend (Variable _ _ e) = e"
| "eend (Call _ _ _ e) = e"
| "eend (Unary _ _ _ e) = e"
| "eend (Binary _ _ _ _ e) = e"
| "eend (Conditional _ _ _ _ e) = e"

text \<open>The object spread \<open>{ ...expression, start, end }\<close>.\<close>

fun with_span :: "expr \<Rightarrow> nat \<Rightarrow> nat \<Rightarrow> expr" where
  "with_span (Literal l i _ _) s e = Literal l i s e"
| "with_span (Variable n _ _) s e = Variable n s e"
| "with_span (Call n as _ _) s e = Call n as s e"
| "with_span (Unary p x _ _) s e = Unary p x s e"
| "with_span (Binary p x y _ _) s e = Binary p x y s e"
| "with_span (Conditional c x y _ _) s e = Conditional c x y s e"

fun children :: "expr \<Rightarrow> expr list" where
  "children (Literal _ _ _ _) = []"
| "children (Variable _ _ _) = []"
| "children (Call _ as _ _) = as"
| "children (Unary _ x _ _) = [x]"
| "children (Binary _ x y _ _) = [x, y]"
| "children (Conditional c x y _ _) = [c, x, y]"

section \<open>Diagnostics and results\<close>

datatype diag_code = Syntax | Unsupported | Missing_context | Type_error | Number_error | Limit

record diagnostic =
  dcode :: diag_code
  detail :: jsstr
  dposition :: "nat option"

text \<open>What a call may throw: a \<open>BillingExpressionError\<close>, or another \<open>Error\<close> with its message.\<close>

datatype thrown = BillingExpressionError diagnostic | OtherError jsstr

definition bill_error :: "diag_code \<Rightarrow> jsstr \<Rightarrow> nat option \<Rightarrow> thrown + 'a" where
  "bill_error c d p = Inl (BillingExpressionError \<lparr>dcode = c, detail = d, dposition = p\<rparr>)"

datatype failure_status = Status_unsupported | Status_invalid | Status_missing_context

record expression_failure =
  status :: failure_status
  fdiagnostic :: diagnostic

definition expressionFailure :: "thrown \<Rightarrow> expression_failure" where
  "expressionFailure error =
     (let diagnostic =
        (case error of
           BillingExpressionError d \<Rightarrow> d
         | OtherError m \<Rightarrow> \<lparr>dcode = Syntax, detail = m, dposition = None\<rparr>);
        st = (if dcode diagnostic = Missing_context then Status_missing_context
              else Status_invalid);
        st' = (if dcode diagnostic = Unsupported \<or> dcode diagnostic = Limit
               then Status_unsupported else st)
      in \<lparr>status = st', fdiagnostic = diagnostic\<rparr>)"

record request_rule =
  rcond :: jsstr
  rmultiplier :: jsnum
  rmatched :: bool

record rule_site =
  rnode :: expr
  rcondition :: expr
  smultiplier :: jsnum
  scond :: jsstr

record compiled =
  csource :: jsstr
  cast :: expr
  cvariables :: "jsstr list"
  cfunctions :: "jsstr list"
  crules :: "rule_site list"

section \<open>Traversal\<close>

text \<open>\<open>nodes\<close> counts the nodes of a tree; it bounds the work of the explicit stack.\<close>

fun nodes :: "expr \<Rightarrow> nat" where
  "nodes (Literal _ _ _ _) = 1"
| "nodes (Variable _ _ _) = 1"
| "nodes (Call _ as _ _) = Suc (sum_list (map nodes as))"
| "nodes (Unary _ x _ _) = Suc (nodes x)"
| "nodes (Binary _ x y _ _) = Suc (nodes x + nodes y)"
| "nodes (Conditional c x y _ _) = Suc (nodes c + nodes x + nodes y)"

lemma nodes_children: "nodes e = Suc (sum_list (map nodes (children e)))"
  by (cases e) auto

fun entry_weight :: "expr \<times> bool \<times> nat \<Rightarrow> nat" where
  "entry_weight (n, visited, d) = (if visited then 1 else 2 * nodes n)"

lemma weight_children:
  "sum_list (map entry_weight (map (\<lambda>c. (c, False, d)) cs)) = 2 * sum_list (map nodes cs)"
  by (induction cs) auto

text \<open>The work stack of \<open>visitExpression\<close>, top first: an entry is a node, whether its
  children were pushed, and its depth.\<close>

function visit_loop ::
  "('s \<Rightarrow> expr \<Rightarrow> thrown + 's) \<Rightarrow> (expr \<times> bool \<times> nat) list \<Rightarrow> 's \<Rightarrow> thrown + 's" where
  "visit_loop visitor [] s = Inr s"
| "visit_loop visitor ((n, visited, d) # stack) s =
     (if 256 < d then bill_error Limit (js ''expression depth'') None
      else if visited then
        (case visitor s n of Inl err \<Rightarrow> Inl err | Inr s' \<Rightarrow> visit_loop visitor stack s')
      else visit_loop visitor (map (\<lambda>c. (c, False, d + 1)) (children n) @ (n, True, d) # stack) s)"
  by pat_completeness auto

termination
proof (relation "measure (\<lambda>(f, stack, s). sum_list (map entry_weight stack))", goal_cases)
  case 1
  show ?case by simp
next
  case (2 visitor n visited d stack s s')
  then show ?case by simp
next
  case (3 visitor n visited d stack s)
  then show ?case
    using nodes_children [of n] weight_children [of "d + 1" "children n"]
    by simp
qed

definition visitExpression ::
  "('s \<Rightarrow> expr \<Rightarrow> thrown + 's) \<Rightarrow> expr \<Rightarrow> 's \<Rightarrow> thrown + 's" where
  "visitExpression visitor node s = visit_loop visitor [(node, False, 0)] s"

definition dependency_visitor ::
  "jsstr list \<times> jsstr list \<Rightarrow> expr \<Rightarrow> thrown + (jsstr list \<times> jsstr list)" where
  "dependency_visitor s part =
     (case part of
        Variable n _ _ \<Rightarrow> Inr (set_add (fst s) n, snd s)
      | Call n _ _ _ \<Rightarrow> Inr (fst s, set_add (snd s) n)
      | _ \<Rightarrow> Inr s)"

definition expressionDependencies :: "expr \<Rightarrow> thrown + (jsstr list \<times> jsstr list)" where
  "expressionDependencies node = visitExpression dependency_visitor node ([], [])"

declare visit_loop.simps(2) [simp del]

section \<open>The traversal as a recursive fold\<close>

fun postorder :: "expr \<Rightarrow> expr list" where
  "postorder (Call n as s e) = concat (map postorder as) @ [Call n as s e]"
| "postorder (Unary p x s e) = postorder x @ [Unary p x s e]"
| "postorder (Binary p x y s e) = postorder x @ postorder y @ [Binary p x y s e]"
| "postorder (Conditional c x y s e) =
     postorder c @ postorder x @ postorder y @ [Conditional c x y s e]"
| "postorder e = [e]"

fun height :: "expr \<Rightarrow> nat" where
  "height (Call _ as _ _) = (if as = [] then 0 else Suc (Max (set (map height as))))"
| "height (Unary _ x _ _) = Suc (height x)"
| "height (Binary _ x y _ _) = Suc (max (height x) (height y))"
| "height (Conditional c x y _ _) = Suc (max (height c) (max (height x) (height y)))"
| "height _ = 0"

fun fold_res :: "('s \<Rightarrow> 'a \<Rightarrow> 'e + 's) \<Rightarrow> 'a list \<Rightarrow> 's \<Rightarrow> 'e + 's" where
  "fold_res f [] s = Inr s"
| "fold_res f (x # xs) s = res_bind (f s x) (fold_res f xs)"

definition subnodes :: "expr \<Rightarrow> expr set" where
  "subnodes e = set (postorder e)"

lemma postorder_children: "postorder e = concat (map postorder (children e)) @ [e]"
  by (cases e) auto

lemma children_nodes_less: "c \<in> set (children e) \<Longrightarrow> nodes c < nodes e"
  by (simp add: nodes_children [of e] member_le_sum_list less_Suc_eq_le)

lemma expr_children_induct [case_names node]:
  "(\<And>e. (\<And>c. c \<in> set (children e) \<Longrightarrow> P c) \<Longrightarrow> P e) \<Longrightarrow> P e"
  by (induction e rule: measure_induct_rule [of nodes]) (metis children_nodes_less)

lemma height_le_iff: "d + height e \<le> n \<longleftrightarrow> d \<le> n \<and> (\<forall>c\<in>set (children e). d + 1 + height c \<le> n)"
proof (cases e)
  case (Call f as s t)
  show ?thesis
  proof (cases "as = []")
    case False
    have "(d + 1 + Max (height ` set as) \<le> n) \<longleftrightarrow> Max (height ` set as) \<le> n - (d + 1) \<and> d + 1 \<le> n"
      by arith
    also have "\<dots> \<longleftrightarrow> (\<forall>c\<in>set as. height c \<le> n - (d + 1)) \<and> d + 1 \<le> n"
      using False by simp
    also have "\<dots> \<longleftrightarrow> (\<forall>c\<in>set as. d + 1 + height c \<le> n) \<and> d + 1 \<le> n"
      by auto
    also have "\<dots> \<longleftrightarrow> (\<forall>c\<in>set as. d + 1 + height c \<le> n) \<and> d \<le> n"
      using False by (cases as) auto
    finally show ?thesis using Call False by auto
  qed (use Call in simp)
qed auto

lemma fold_res_append:
  "fold_res f (xs @ ys) s = res_bind (fold_res f xs s) (fold_res f ys)"
  by (induction xs arbitrary: s) (auto simp: res_bind_def split: sum.splits)

lemma visit_loop_visited:
  "d \<le> 256 \<Longrightarrow> visit_loop f ((n, True, d) # stack) s = res_bind (f s n) (visit_loop f stack)"
  by (auto simp: visit_loop.simps(2) res_bind_def split: sum.splits)

lemma visit_loop_unvisited:
  "d \<le> 256 \<Longrightarrow> visit_loop f ((n, False, d) # stack) s =
     visit_loop f (map (\<lambda>c. (c, False, d + 1)) (children n) @ (n, True, d) # stack) s"
  by (simp add: visit_loop.simps(2))

lemma visit_loop_deep:
  "256 < d \<Longrightarrow> visit_loop f ((n, v, d) # stack) s = bill_error Limit (js ''expression depth'') None"
  by (simp add: visit_loop.simps(2))

lemma res_bind_assoc: "res_bind (res_bind m f) g = res_bind m (\<lambda>x. res_bind (f x) g)"
  by (auto simp: res_bind_def split: sum.splits)

text \<open>Within the depth bound an unvisited entry folds the visitor over the post-order of
  its node and then goes on with the stack.\<close>

lemma visit_loop_within:
  "d + height e \<le> 256 \<Longrightarrow>
   visit_loop f ((e, False, d) # stack) s = res_bind (fold_res f (postorder e) s) (visit_loop f stack)"
proof (induction e arbitrary: d stack s rule: expr_children_induct)
  case (node e)
  have d: "d \<le> 256" and cs: "\<forall>c\<in>set (children e). d + 1 + height c \<le> 256"
    using node.prems height_le_iff by blast+
  have many: "set xs \<subseteq> set (children e) \<Longrightarrow>
      visit_loop f (map (\<lambda>c. (c, False, d + 1)) xs @ rest) s' =
      res_bind (fold_res f (concat (map postorder xs)) s') (visit_loop f rest)" for xs rest s'
  proof (induction xs arbitrary: s')
    case Nil
    then show ?case by simp
  next
    case (Cons x xs)
    have x: "x \<in> set (children e)" using Cons.prems by simp
    have "visit_loop f (map (\<lambda>c. (c, False, d + 1)) (x # xs) @ rest) s' =
        res_bind (fold_res f (postorder x) s')
          (visit_loop f (map (\<lambda>c. (c, False, d + 1)) xs @ rest))"
      using node.IH [OF x] cs x by simp
    also have "\<dots> = res_bind (fold_res f (postorder x) s')
        (\<lambda>s''. res_bind (fold_res f (concat (map postorder xs)) s'') (visit_loop f rest))"
      using Cons by (auto intro: res_bind_cong)
    finally show ?case by (simp add: fold_res_append res_bind_assoc)
  qed
  have "visit_loop f ((e, False, d) # stack) s =
      visit_loop f (map (\<lambda>c. (c, False, d + 1)) (children e) @ (e, True, d) # stack) s"
    using d by (rule visit_loop_unvisited)
  also have "\<dots> = res_bind (fold_res f (concat (map postorder (children e))) s)
      (visit_loop f ((e, True, d) # stack))"
    by (rule many) simp
  also have "visit_loop f ((e, True, d) # stack) = (\<lambda>s'. res_bind (f s' e) (visit_loop f stack))"
    using visit_loop_visited [OF d] by (intro ext)
  also have "res_bind (fold_res f (concat (map postorder (children e))) s) \<dots> =
      res_bind (fold_res f (postorder e) s) (visit_loop f stack)"
    by (subst postorder_children) (simp add: fold_res_append res_bind_assoc)
  finally show ?case .
qed

text \<open>Beyond the bound the traversal never succeeds.\<close>

lemma visit_loop_beyond:
  "256 < d + height e \<Longrightarrow> \<exists>err. visit_loop f ((e, False, d) # stack) s = Inl err"
proof (induction e arbitrary: d stack s rule: expr_children_induct)
  case (node e)
  show ?case
  proof (cases "256 < d")
    case True
    then show ?thesis by (simp add: bill_error_def visit_loop_deep)
  next
    case False
    then obtain c where c: "c \<in> set (children e)" "256 < d + 1 + height c"
      using node.prems height_le_iff [of d e 256] by (auto simp: not_le)
    have many: "c \<in> set xs \<Longrightarrow> set xs \<subseteq> set (children e) \<Longrightarrow>
        \<exists>err. visit_loop f (map (\<lambda>c. (c, False, d + 1)) xs @ rest) s' = Inl err" for xs rest s'
    proof (induction xs arbitrary: s')
      case Nil
      then show ?case by simp
    next
      case (Cons x xs)
      show ?case
      proof (cases "256 < d + 1 + height x")
        case True
        then show ?thesis using node.IH [of x "d + 1"] Cons.prems by simp
      next
        case False
        then have "visit_loop f (map (\<lambda>c. (c, False, d + 1)) (x # xs) @ rest) s' =
            res_bind (fold_res f (postorder x) s')
              (visit_loop f (map (\<lambda>c. (c, False, d + 1)) xs @ rest))"
          using visit_loop_within [of "d + 1" x f] by simp
        moreover have "c \<in> set xs" using False c Cons.prems by auto
        ultimately show ?thesis
          using Cons by (cases "fold_res f (postorder x) s'") auto
      qed
    qed
    show ?thesis using many [OF c(1) subset_refl] False by (simp add: visit_loop_unvisited)
  qed
qed

lemma visitExpression_within:
  "height e \<le> 256 \<Longrightarrow> visitExpression f e s = fold_res f (postorder e) s"
  using visit_loop_within [of 0 e f "[]" s]
  by (simp add: visitExpression_def res_bind_def split: sum.splits)

lemma visitExpression_Inr:
  "visitExpression f e s = Inr s' \<longleftrightarrow> height e \<le> 256 \<and> fold_res f (postorder e) s = Inr s'"
  using visitExpression_within [of e f s] visit_loop_beyond [of 0 e f "[]" s]
  by (cases "height e \<le> 256") (auto simp: visitExpression_def)

end
