(* ===== verification/Billing_Lexer.thy ===== *)
theory Billing_Lexer
  imports Billing_Types
begin

text \<open>
  The lexer of the billing expression language: \<open>BillingParser.next\<close> of
  \<open>web/src/features/pricing/lib/billing-expression/parser.ts\<close>.  Each regular
  expression of the source is a function that returns the matched prefix.  The lemmas
  show that a lexeme lies inside the source, that it is the slice of the source
  between its positions and that every lexeme but the end marker consumes input.
\<close>

datatype lex_kind = K_number | K_string | K_symbol | K_name | K_end

datatype lex_value = VStr jsstr | VNum jsnum

record lexeme =
  lkind :: lex_kind
  ltext :: jsstr
  lstart :: nat
  lend :: nat
  lvalue :: "lex_value option"
  linteger :: "bool option"

section \<open>Regular expressions\<close>

text \<open>\<open>(?:[eE][+-]?\d+)?\<close>\<close>

definition match_exponent :: "jsstr \<Rightarrow> jsstr" where
  "match_exponent s =
     (case s of
        [] \<Rightarrow> []
      | c # t \<Rightarrow>
          if c = 101 \<or> c = 69 then
            (case t of
               [] \<Rightarrow> []
             | d # t' \<Rightarrow>
                 if d = 43 \<or> d = 45 then
                   (if takeWhile is_digit t' = [] then [] else c # d # takeWhile is_digit t')
                 else if takeWhile is_digit t = [] then [] else c # takeWhile is_digit t)
          else [])"

definition exponent_val :: "jsstr \<Rightarrow> int" where
  "exponent_val s =
     (case s of
        c # d # t \<Rightarrow>
          if d = 43 then int (digits_val 0 t)
          else if d = 45 then - int (digits_val 0 t)
          else int (digits_val 0 (d # t))
      | _ \<Rightarrow> 0)"

text \<open>\<open>^(?:\d+(?:\.\d*)?|\.\d+)(?:[eE][+-]?\d+)?\<close>, split into integer digits, the text of
  the fraction (with its point) and the text of the exponent.\<close>

definition match_number :: "jsstr \<Rightarrow> (jsstr \<times> jsstr \<times> jsstr) option" where
  "match_number s =
     (let ip = takeWhile is_digit s; r = dropWhile is_digit s in
      if ip \<noteq> [] then
        (case r of
           c # r' \<Rightarrow>
             if c = 46 then
               Some (ip, 46 # takeWhile is_digit r', match_exponent (dropWhile is_digit r'))
             else Some (ip, [], match_exponent r)
         | [] \<Rightarrow> Some (ip, [], []))
      else
        (case s of
           c # r' \<Rightarrow>
             if c = 46 \<and> takeWhile is_digit r' \<noteq> [] then
               Some ([], 46 # takeWhile is_digit r', match_exponent (dropWhile is_digit r'))
             else None
         | [] \<Rightarrow> None))"

definition number_text :: "jsstr \<times> jsstr \<times> jsstr \<Rightarrow> jsstr" where
  "number_text m = (case m of (ip, fp, ep) \<Rightarrow> ip @ fp @ ep)"

text \<open>\<open>Number(text)\<close> on such a text.\<close>

definition number_value :: "jsstr \<times> jsstr \<times> jsstr \<Rightarrow> jsnum" where
  "number_value m = (case m of (ip, fp, ep) \<Rightarrow> decimal_num ip (tl fp) (exponent_val ep))"

text \<open>\<open>!/[.eE]/.test(text)\<close>\<close>

definition number_is_integer :: "jsstr \<times> jsstr \<times> jsstr \<Rightarrow> bool" where
  "number_is_integer m = (case m of (ip, fp, ep) \<Rightarrow> fp = [] \<and> ep = [])"

text \<open>\<open>^[A-Za-z_][\w]*\<close>\<close>

definition match_name :: "jsstr \<Rightarrow> jsstr option" where
  "match_name s =
     (case s of
        [] \<Rightarrow> None
      | c # t \<Rightarrow> if is_alpha_us c then Some (c # takeWhile is_word t) else None)"

text \<open>\<open>^(?:&&|\|\||==|!=|<=|>=|[+\-*/%<>()!?:,])\<close>\<close>

definition two_char_operators :: "jsstr list" where
  "two_char_operators = map js [''&&'', ''||'', ''=='', ''!='', ''<='', ''>='']"

definition one_char_operators :: "jsstr" where
  "one_char_operators = js ''+-*/%<>()!?:,''"

definition match_operator :: "jsstr \<Rightarrow> jsstr option" where
  "match_operator s =
     (if take 2 s \<in> set two_char_operators then Some (take 2 s)
      else case s of [] \<Rightarrow> None
        | c # _ \<Rightarrow> if c \<in> set one_char_operators then Some [c] else None)"

text \<open>\<open>^\s*v(\d+):\<close>: the captured digits and the whole match.\<close>

definition match_version :: "jsstr \<Rightarrow> (jsstr \<times> jsstr) option" where
  "match_version s =
     (case dropWhile is_space s of
        c # r \<Rightarrow>
          if c = 118 \<and> takeWhile is_digit r \<noteq> [] then
            (case dropWhile is_digit r of
               d # _ \<Rightarrow>
                 if d = 58 then
                   Some (takeWhile is_digit r,
                     takeWhile is_space s @ [118] @ takeWhile is_digit r @ [58])
                 else None
             | [] \<Rightarrow> None)
          else None
      | [] \<Rightarrow> None)"

section \<open>Strings\<close>

definition simple_escapes :: "(code_unit \<times> code_unit) list" where
  "simple_escapes =
     [(110, 10), (114, 13), (116, 9), (98, 8), (102, 12), (118, 11), (92, 92), (34, 34),
      (39, 39), (47, 47)]"

definition hex_digit_val :: "code_unit \<Rightarrow> nat" where
  "hex_digit_val c = (if is_digit c then c - 48 else if 97 \<le> c then c - 87 else c - 55)"

fun hex_val :: "nat \<Rightarrow> jsstr \<Rightarrow> nat" where
  "hex_val acc [] = acc"
| "hex_val acc (c # s) = hex_val (16 * acc + hex_digit_val c) s"

definition unterminated :: "nat \<Rightarrow> thrown + 'a" where
  "unterminated start = bill_error Syntax (js ''unterminated string'') (Some start)"

text \<open>The loop of a string literal: the position after the characters read so far, the
  rest of the source and the value so far; the result is the value and the position
  after the closing quote.\<close>

function scan_string :: "code_unit \<Rightarrow> nat \<Rightarrow> nat \<Rightarrow> jsstr \<Rightarrow> jsstr \<Rightarrow> thrown + jsstr \<times> nat" where
  "scan_string quote start pos [] val = unterminated start"
| "scan_string quote start pos (ch # r) val =
     (if ch = quote then Inr (val, pos + 1)
      else if ch = 10 \<or> ch = 13 then unterminated start
      else if ch \<noteq> 92 then scan_string quote start (pos + 1) r (val @ [ch])
      else case r of
        [] \<Rightarrow> bill_error Unsupported (js ''string escape'') (Some (pos + 1))
      | escaped # r' \<Rightarrow>
          (case map_of simple_escapes escaped of
             Some v \<Rightarrow> scan_string quote start (pos + 2) r' (val @ [v])
           | None \<Rightarrow>
               if escaped = 117 \<or> escaped = 120 then
                 (let n = (if escaped = 117 then 4 else 2); hex = take n r' in
                  if length hex \<noteq> n \<or> \<not> list_all is_hex hex then unterminated start
                  else scan_string quote start (pos + 2 + n) (drop n r') (val @ [hex_val 0 hex]))
               else bill_error Unsupported (js ''string escape'') (Some (pos + 1))))"
  by pat_completeness auto
termination
  by (relation "measure (\<lambda>(q, st, p, r, v). length r)") auto

section \<open>The next lexeme\<close>

definition lex_token :: "jsstr \<Rightarrow> nat \<Rightarrow> thrown + lexeme" where
  "lex_token source start =
     (let rest = drop start source in
      case rest of
        [] \<Rightarrow> Inr \<lparr>lkind = K_end, ltext = [], lstart = start, lend = start,
                  lvalue = None, linteger = None\<rparr>
      | c # _ \<Rightarrow>
        (case match_number rest of
           Some m \<Rightarrow>
             (let text = number_text m; v = number_value m; integer = number_is_integer m in
              if \<not> is_finite v then bill_error Number_error text (Some start)
              else if integer \<and> \<not> is_safe_integer v then
                bill_error Unsupported (js ''integer precision'') (Some start)
              else Inr \<lparr>lkind = K_number, ltext = text, lstart = start,
                        lend = start + length text, lvalue = Some (VNum v),
                        linteger = Some integer\<rparr>)
         | None \<Rightarrow>
           if c = 34 \<or> c = 39 then
             res_bind (scan_string c start (start + 1) (tl rest) []) (\<lambda>(v, pos).
               Inr \<lparr>lkind = K_string, ltext = slice source start pos, lstart = start,
                    lend = pos, lvalue = Some (VStr v), linteger = None\<rparr>)
           else
             (case match_name rest of
                Some n \<Rightarrow> Inr \<lparr>lkind = K_name, ltext = n, lstart = start,
                              lend = start + length n, lvalue = None, linteger = None\<rparr>
              | None \<Rightarrow>
                (case match_operator rest of
                   Some p \<Rightarrow> Inr \<lparr>lkind = K_symbol, ltext = p, lstart = start,
                                 lend = start + length p, lvalue = None, linteger = None\<rparr>
                 | None \<Rightarrow> bill_error Unsupported [c] (Some start)))))"

text \<open>\<open>next()\<close>: counts the lexeme, skips white space, lexes; the new cursor is the end of
  the lexeme.\<close>

definition lex_next :: "jsstr \<Rightarrow> nat \<Rightarrow> nat \<Rightarrow> thrown + lexeme \<times> nat" where
  "lex_next source cursor count =
     (if 10000 < count + 1 then bill_error Limit (js ''expression tokens'') None
      else
        let start = cursor + length (takeWhile is_space (drop cursor source)) in
        res_bind (lex_token source start) (\<lambda>t. Inr (t, count + 1)))"

section \<open>A lexeme is a slice of the source\<close>

lemma match_exponent_prefix: "\<exists>u. s = match_exponent s @ u"
  by (auto simp: match_exponent_def split: list.splits if_splits)
     (metis takeWhile_dropWhile_id)+

lemma match_number_prefix: "match_number s = Some m \<Longrightarrow> \<exists>u. s = number_text m @ u"
proof -
  assume m: "match_number s = Some m"
  let ?ip = "takeWhile is_digit s" and ?r = "dropWhile is_digit s"
  have s: "s = ?ip @ ?r" by simp
  have frac: "\<exists>u. 46 # r' = (46 # takeWhile is_digit r') @ match_exponent (dropWhile is_digit r') @ u" for r'
    using match_exponent_prefix [of "dropWhile is_digit r'"] by (metis append_Cons takeWhile_dropWhile_id)
  show ?thesis
  proof (cases "?ip = []")
    case True
    then obtain r' where "s = 46 # r'" "m = ([], 46 # takeWhile is_digit r', match_exponent (dropWhile is_digit r'))"
      using m by (auto simp: match_number_def Let_def split: list.splits if_splits)
    then show ?thesis using frac [of r'] by (simp add: number_text_def)
  next
    case False
    show ?thesis
    proof (cases "?r \<noteq> [] \<and> hd ?r = 46")
      case True
      then obtain r' where r': "?r = 46 # r'" by (cases ?r) auto
      then have "m = (?ip, 46 # takeWhile is_digit r', match_exponent (dropWhile is_digit r'))"
        using m False by (auto simp: match_number_def Let_def)
      then show ?thesis using frac [of r'] r' s by (metis append.assoc number_text_def split_conv)
    next
      case no: False
      have "match_exponent [] = []" by (simp add: match_exponent_def)
      then have "m = (?ip, [], match_exponent ?r)"
        using m False no by (cases ?r) (simp_all add: match_number_def Let_def del: dropWhile_eq_Nil_conv)
      then show ?thesis using match_exponent_prefix [of ?r] s by (metis append.assoc append_Nil number_text_def split_conv)
    qed
  qed
qed

lemma match_number_nonempty: "match_number s = Some m \<Longrightarrow> number_text m \<noteq> []"
  by (auto simp: match_number_def number_text_def Let_def split: list.splits if_splits)

lemma match_name_prefix: "match_name s = Some n \<Longrightarrow> n \<noteq> [] \<and> (\<exists>u. s = n @ u)"
  by (auto simp: match_name_def split: list.splits if_splits) (metis takeWhile_dropWhile_id)

lemma match_operator_prefix: "match_operator s = Some p \<Longrightarrow> p \<noteq> [] \<and> (\<exists>u. s = p @ u)"
proof -
  assume p: "match_operator s = Some p"
  show ?thesis
  proof (cases "take 2 s \<in> set two_char_operators")
    case True
    moreover have "[] \<notin> set two_char_operators"
      by (simp add: two_char_operators_def)
    ultimately show ?thesis
      using p by (auto simp: match_operator_def) (metis append_take_drop_id)
  next
    case False
    then show ?thesis
      using p by (auto simp: match_operator_def split: list.splits if_splits)
  qed
qed

lemma match_version_prefix: "match_version s = Some (d, v) \<Longrightarrow> \<exists>u. s = v @ u"
proof -
  assume m: "match_version s = Some (d, v)"
  then obtain r e where r: "dropWhile is_space s = 118 # r" "dropWhile is_digit r = 58 # e"
    "v = takeWhile is_space s @ [118] @ takeWhile is_digit r @ [58]"
    by (auto simp: match_version_def split: list.splits if_splits)
  then have "s = v @ e"
    by (metis append.assoc append_Cons append_Nil takeWhile_dropWhile_id)
  then show ?thesis by blast
qed

lemma scan_string_pos:
  "scan_string quote start pos r val = Inr (v, pos') \<Longrightarrow> pos < pos' \<and> pos' \<le> pos + length r"
proof (induction quote start pos r val rule: scan_string.induct)
  case (1 quote start pos val)
  then show ?case by (simp add: unterminated_def bill_error_def)
next
  case (2 quote start pos ch r val)
  show ?case
  proof (cases "ch = quote \<or> ch = 10 \<or> ch = 13 \<or> ch \<noteq> 92")
    case True
    then show ?thesis
      using "2.prems" "2.IH"(1) by (auto simp: unterminated_def bill_error_def split: if_splits)
  next
    case False
    then obtain escaped r' where r: "r = escaped # r'"
      using "2.prems" by (cases r) (auto simp: bill_error_def)
    show ?thesis
    proof (cases "map_of simple_escapes escaped")
      case (Some w)
      then show ?thesis using "2.prems" "2.IH"(3) [OF _ _ _ r Some] False r by auto
    next
      case None
      then show ?thesis
        using "2.prems" "2.IH"(2) [OF _ _ _ r None] False r
        by (fastforce simp: unterminated_def bill_error_def Let_def split: if_splits)
    qed
  qed
qed

lemma lex_token_span:
  assumes "lex_token source start = Inr t" and "start \<le> length source"
  shows "lstart t = start \<and> lend t \<le> length source \<and> ltext t = slice source start (lend t) \<and>
    (lkind t \<noteq> K_end \<longrightarrow> start < lend t) \<and> (lkind t = K_end \<longrightarrow> start = length source)"
proof -
  let ?rest = "drop start source"
  have pre: "start < start + length p \<and> start + length p \<le> length source \<and>
      p = slice source start (start + length p)" if p: "p \<noteq> []" "\<exists>u. ?rest = p @ u" for p
  proof -
    from p obtain u where u: "?rest = p @ u" by blast
    then have "length p + length u = length source - start"
      by (metis length_append length_drop)
    moreover have "p = take (length p) ?rest" using u by simp
    ultimately show ?thesis
      using p assms(2) by (auto simp: slice_def drop_take)
  qed
  show ?thesis
  proof (cases ?rest)
    case Nil
    then show ?thesis using assms by (auto simp: lex_token_def slice_def)
  next
    case (Cons c cs)
    then have len: "start + Suc (length cs) = length source"
      using assms(2) by (metis add_diff_inverse_nat length_Cons length_drop linorder_not_less)
    show ?thesis
    proof (cases "match_number ?rest")
      case (Some m)
      then show ?thesis
        using assms(1) Cons pre [of "number_text m"] match_number_prefix [of ?rest m] match_number_nonempty [of ?rest m]
        by (auto simp: lex_token_def Let_def bill_error_def split: if_splits)
    next
      case num: None
      show ?thesis
      proof (cases "c = 34 \<or> c = 39")
        case True
        then obtain v pos where "scan_string c start (start + 1) cs [] = Inr (v, pos)"
          and t: "t = \<lparr>lkind = K_string, ltext = slice source start pos, lstart = start,
                    lend = pos, lvalue = Some (VStr v), linteger = None\<rparr>"
          using assms(1) Cons num by (auto simp: lex_token_def Let_def res_simps)
        then have "start + 1 < pos \<and> pos \<le> start + 1 + length cs"
          using scan_string_pos by blast
        then show ?thesis using t len by simp
      next
        case quote: False
        show ?thesis
        proof (cases "match_name ?rest")
          case (Some n)
          then show ?thesis
            using assms(1) Cons num quote pre [of n] match_name_prefix [of ?rest n]
            by (auto simp: lex_token_def Let_def)
        next
          case None
          then show ?thesis
            using assms(1) Cons num quote pre match_operator_prefix [of ?rest]
            by (auto simp: lex_token_def Let_def bill_error_def split: option.splits)
        qed
      qed
    qed
  qed
qed

lemma lex_token_ordered: "lex_token source start = Inr t \<Longrightarrow> lstart t \<le> lend t"
  using scan_string_pos
  by (fastforce simp: lex_token_def Let_def bill_error_def res_simps
      split: list.splits option.splits if_splits)

lemma skip_space_le:
  "cursor \<le> length source \<Longrightarrow> cursor + length (takeWhile is_space (drop cursor source)) \<le> length source"
  using length_takeWhile_le [of is_space "drop cursor source"] by simp

lemma lex_next_span:
  assumes "lex_next source cursor count = Inr (t, count')" and "cursor \<le> length source"
  shows "cursor \<le> lstart t \<and> lstart t \<le> lend t \<and> lend t \<le> length source \<and>
    ltext t = slice source (lstart t) (lend t) \<and> count' = count + 1 \<and>
    (lkind t \<noteq> K_end \<longrightarrow> lstart t < lend t) \<and> (lkind t = K_end \<longrightarrow> lstart t = length source)"
proof -
  let ?s = "cursor + length (takeWhile is_space (drop cursor source))"
  have t: "lex_token source ?s = Inr t" "count' = count + 1"
    using assms(1) by (auto simp: lex_next_def Let_def bill_error_def res_simps split: if_splits)
  then show ?thesis
    using lex_token_span [OF t(1) skip_space_le [OF assms(2)]] lex_token_ordered [OF t(1)] by auto
qed

text \<open>Number lexemes carry a non-negative double, a safe one when they are written as an
  integer.\<close>

lemma number_value_plain: "is_finite (number_value m) \<Longrightarrow> plain_double (number_value m)"
  by (auto simp: number_value_def decimal_num_plain split: prod.splits)

lemma lex_token_number:
  assumes "lex_token source start = Inr t" and "lkind t = K_number"
  shows "\<exists>n i. lvalue t = Some (VNum n) \<and> linteger t = Some i \<and> plain_double n \<and> (i \<longrightarrow> is_safe_integer n)"
  using assms
  by (auto intro!: number_value_plain simp: lex_token_def Let_def bill_error_def res_simps split: list.splits option.splits if_splits)

lemma lex_token_string:
  assumes "lex_token source start = Inr t" and "lkind t = K_string"
  shows "\<exists>s. lvalue t = Some (VStr s)"
  using assms
  by (auto simp: lex_token_def Let_def bill_error_def res_simps split: list.splits option.splits if_splits)

lemma lex_next_values:
  assumes "lex_next source cursor count = Inr (t, count')"
  shows "lkind t = K_number \<Longrightarrow> \<exists>n i. lvalue t = Some (VNum n) \<and> linteger t = Some i \<and>
      plain_double n \<and> (i \<longrightarrow> is_safe_integer n)"
    and "lkind t = K_string \<Longrightarrow> \<exists>s. lvalue t = Some (VStr s)"
  using assms lex_token_number lex_token_string
  by (auto simp: lex_next_def Let_def bill_error_def res_simps split: if_splits)

end
