(* ===== verification/Billing_Parser.thy ===== *)
theory Billing_Parser
  imports Billing_Lexer
begin

text \<open>
  The recursive-descent parser \<open>BillingParser\<close> of
  \<open>web/src/features/pricing/lib/billing-expression/parser.ts\<close>.  The private fields of
  the class are the record \<open>pstate\<close>, threaded through the methods; a thrown error
  aborts the parse.  The methods call each other while they consume lexemes, so the
  model carries fuel; \<open>parse_fuel\<close> is proved to be enough for every source, so that
  running out is never the outcome of a parse.
\<close>

section \<open>Parser state\<close>

definition PRECEDENCE :: "(jsstr \<times> nat) list" where
  "PRECEDENCE = map (\<lambda>(n, p). (js n, p))
     [(''||'', 1), (''&&'', 2), (''=='', 3), (''!='', 3), (''<'', 4), (''<='', 4),
      (''>'', 4), (''>='', 4), (''+'', 5), (''-'', 5), (''*'', 6), (''/'', 6), (''%'', 6)]"

record pstate =
  cursor :: nat
  lexcount :: nat
  pdepth :: nat
  current :: lexeme

datatype perr = Thrown thrown | Out_of_fuel

definition perror :: "diag_code \<Rightarrow> jsstr \<Rightarrow> nat option \<Rightarrow> perr + 'a" where
  "perror c d p = Inl (Thrown (BillingExpressionError \<lparr>dcode = c, detail = d, dposition = p\<rparr>))"

text \<open>\<open>take()\<close>: returns the current lexeme and advances.\<close>

definition ptake :: "jsstr \<Rightarrow> pstate \<Rightarrow> perr + lexeme \<times> pstate" where
  "ptake source st =
     (case lex_next source (cursor st) (lexcount st) of
        Inl e \<Rightarrow> Inl (Thrown e)
      | Inr (t, n) \<Rightarrow>
          Inr (current st, st\<lparr>cursor := lend t, lexcount := n, current := t\<rparr>))"

definition pis :: "pstate \<Rightarrow> string \<Rightarrow> bool" where
  "pis st text \<longleftrightarrow> ltext (current st) = js text"

definition pexpect :: "jsstr \<Rightarrow> string \<Rightarrow> pstate \<Rightarrow> perr + lexeme \<times> pstate" where
  "pexpect source text st =
     (if ltext (current st) \<noteq> js text then
        perror Syntax (js ''expected '' @ js text) (Some (lstart (current st)))
      else ptake source st)"

text \<open>The constructor: length limit, version prefix, first lexeme.\<close>

definition parser_init :: "jsstr \<Rightarrow> perr + pstate" where
  "parser_init source =
     (if 65536 < length source then perror Limit (js ''expression length'') None
      else
        let version = match_version source in
        case version of
          Some (digits, whole) \<Rightarrow>
            if digits \<noteq> js ''1'' then perror Unsupported whole None
            else
              (case lex_next source (length whole) 0 of
                 Inl e \<Rightarrow> Inl (Thrown e)
               | Inr (t, n) \<Rightarrow> Inr \<lparr>cursor = lend t, lexcount = n, pdepth = 0, current = t\<rparr>)
        | None \<Rightarrow>
            (case lex_next source 0 0 of
               Inl e \<Rightarrow> Inl (Thrown e)
             | Inr (t, n) \<Rightarrow> Inr \<lparr>cursor = lend t, lexcount = n, pdepth = 0, current = t\<rparr>))"

section \<open>Expressions\<close>

definition literal_value :: "lexeme \<Rightarrow> lit" where
  "literal_value t =
     (case lvalue t of Some (VNum n) \<Rightarrow> LNum n | Some (VStr s) \<Rightarrow> LStr s | None \<Rightarrow> LNull)"

text \<open>The two mutually recursive methods with their \<open>while\<close> loops, written over the
  record \<open>rec\<close> of the functions they call: \<open>p_loop\<close> is the loop of \<open>expression\<close> over
  binary operators and \<open>p_args\<close> the loop of \<open>primary\<close> over call arguments.\<close>

record parsers =
  p_expression :: "nat \<Rightarrow> pstate \<Rightarrow> perr + expr \<times> pstate"
  p_loop :: "nat \<Rightarrow> expr \<Rightarrow> pstate \<Rightarrow> perr + expr \<times> pstate"
  p_primary :: "pstate \<Rightarrow> perr + expr \<times> pstate"
  p_args :: "expr list \<Rightarrow> pstate \<Rightarrow> perr + expr list \<times> pstate"

definition expression_method :: "jsstr \<Rightarrow> parsers \<Rightarrow> nat \<Rightarrow> pstate \<Rightarrow> perr + expr \<times> pstate" where
  "expression_method source rec minimum st =
     (if 128 < pdepth st + 1 then perror Limit (js ''expression depth'') None
      else
        res_bind (p_primary rec (st\<lparr>pdepth := pdepth st + 1\<rparr>)) (\<lambda>(left, st).
        res_bind (p_loop rec minimum left st) (\<lambda>(left, st).
          if minimum = 0 \<and> pis st ''?'' then
            res_bind (ptake source st) (\<lambda>(_, st).
            res_bind (p_expression rec 0 st) (\<lambda>(yes, st).
            res_bind (pexpect source '':'' st) (\<lambda>(_, st).
            res_bind (p_expression rec 0 st) (\<lambda>(no, st).
              Inr (Conditional left yes no (estart left) (eend no),
                   st\<lparr>pdepth := pdepth st - 1\<rparr>)))))
          else Inr (left, st\<lparr>pdepth := pdepth st - 1\<rparr>))))"

definition binary_loop ::
  "jsstr \<Rightarrow> parsers \<Rightarrow> nat \<Rightarrow> expr \<Rightarrow> pstate \<Rightarrow> perr + expr \<times> pstate" where
  "binary_loop source rec minimum left st =
     (case map_of PRECEDENCE (ltext (current st)) of
        None \<Rightarrow> Inr (left, st)
      | Some p \<Rightarrow>
          if minimum \<le> p then
            res_bind (ptake source st) (\<lambda>(operator, st).
            res_bind (p_expression rec (p + 1) st) (\<lambda>(right, st).
              p_loop rec minimum
                (Binary (ltext operator) left right (estart left) (eend right)) st))
          else Inr (left, st))"

definition call_method ::
  "jsstr \<Rightarrow> parsers \<Rightarrow> lexeme \<Rightarrow> pstate \<Rightarrow> perr + expr \<times> pstate" where
  "call_method source rec token st =
     (case map_of BILLING_FUNCTIONS (ltext token) of
        None \<Rightarrow> perror Unsupported (ltext token) (Some (lstart token))
      | Some arity \<Rightarrow>
          res_bind (ptake source st) (\<lambda>(_, st).
          res_bind (p_args rec [] st) (\<lambda>(args, st).
          res_bind (pexpect source '')'' st) (\<lambda>(close, st).
            if length args \<noteq> arity then
              perror Type_error (ltext token) (Some (lstart token))
            else Inr (Call (ltext token) args (lstart token) (lend close), st)))))"

definition primary_method :: "jsstr \<Rightarrow> parsers \<Rightarrow> pstate \<Rightarrow> perr + expr \<times> pstate" where
  "primary_method source rec st =
     res_bind (ptake source st) (\<lambda>(token, st).
       if lkind token = K_number then
         Inr (Literal (literal_value token) (linteger token) (lstart token) (lend token), st)
       else if lkind token = K_string then
         Inr (Literal (literal_value token) None (lstart token) (lend token), st)
       else if ltext token = js ''('' then
         res_bind (p_expression rec 0 st) (\<lambda>(expression, st).
         res_bind (pexpect source '')'' st) (\<lambda>(close, st).
           Inr (with_span expression (lstart token) (lend close), st)))
       else if ltext token \<in> {js ''!'', js ''+'', js ''-''} then
         res_bind (p_expression rec 7 st) (\<lambda>(operand, st).
           Inr (Unary (ltext token) operand (lstart token) (eend operand), st))
       else if lkind token \<noteq> K_name then
         perror Syntax (ltext token) (Some (lstart token))
       else if ltext token = js ''nil'' then
         Inr (Literal LNull None (lstart token) (lend token), st)
       else if ltext token = js ''true'' \<or> ltext token = js ''false'' then
         Inr (Literal (LBool (ltext token = js ''true'')) None (lstart token) (lend token), st)
       else if \<not> pis st ''('' then
         (if ltext token \<notin> set BILLING_VARIABLES then
            perror Unsupported (ltext token) (Some (lstart token))
          else Inr (Variable (ltext token) (lstart token) (lend token), st))
       else call_method source rec token st)"

definition argument_loop ::
  "jsstr \<Rightarrow> parsers \<Rightarrow> expr list \<Rightarrow> pstate \<Rightarrow> perr + expr list \<times> pstate" where
  "argument_loop source rec args st =
     (if pis st '')'' then Inr (args, st)
      else
        res_bind (p_expression rec 0 st) (\<lambda>(arg, st).
          if \<not> pis st '','' then Inr (args @ [arg], st)
          else res_bind (ptake source st) (\<lambda>(_, st). p_args rec (args @ [arg]) st)))"

text \<open>The recursion: every call spends one unit of fuel.\<close>

primrec parser_methods :: "nat \<Rightarrow> jsstr \<Rightarrow> parsers" where
  "parser_methods 0 source =
     \<lparr>p_expression = (\<lambda>_ _. Inl Out_of_fuel), p_loop = (\<lambda>_ _ _. Inl Out_of_fuel),
      p_primary = (\<lambda>_. Inl Out_of_fuel), p_args = (\<lambda>_ _. Inl Out_of_fuel)\<rparr>"
| "parser_methods (Suc fuel) source =
     (let rec = parser_methods fuel source in
      \<lparr>p_expression = expression_method source rec, p_loop = binary_loop source rec,
       p_primary = primary_method source rec, p_args = argument_loop source rec\<rparr>)"

definition parse_fuel :: "jsstr \<Rightarrow> nat" where
  "parse_fuel source = 3 * length source + 2"

text \<open>\<open>new BillingParser(source).parse()\<close>.\<close>

definition parse_source :: "jsstr \<Rightarrow> perr + expr" where
  "parse_source source =
     res_bind (parser_init source) (\<lambda>st.
     res_bind (p_expression (parser_methods (parse_fuel source) source) 0 st) (\<lambda>(node, st).
       if lkind (current st) \<noteq> K_end then
         perror Unsupported (ltext (current st)) (Some (lstart (current st)))
       else Inr node))"

section \<open>Progress of the parser state\<close>

text \<open>The state agrees with the source: the current lexeme was produced by the lexer and
  the cursor stands at its end.\<close>

definition lexeme_ok :: "jsstr \<Rightarrow> lexeme \<Rightarrow> bool" where
  "lexeme_ok source t \<longleftrightarrow>
     lstart t \<le> lend t \<and> lend t \<le> length source \<and> ltext t = slice source (lstart t) (lend t) \<and>
     (lkind t \<noteq> K_end \<longrightarrow> lstart t < lend t) \<and> (lkind t = K_end \<longrightarrow> lstart t = length source) \<and>
     (lkind t = K_number \<longrightarrow> (\<exists>n i. lvalue t = Some (VNum n) \<and> linteger t = Some i \<and>
        plain_double n \<and> (i \<longrightarrow> is_safe_integer n))) \<and>
     (lkind t = K_string \<longrightarrow> (\<exists>s. lvalue t = Some (VStr s)))"

definition pst_ok :: "jsstr \<Rightarrow> pstate \<Rightarrow> bool" where
  "pst_ok source st \<longleftrightarrow> lexeme_ok source (current st) \<and> cursor st = lend (current st)"

abbreviation cstart :: "pstate \<Rightarrow> nat" where
  "cstart st \<equiv> lstart (current st)"

lemma lex_next_ok:
  "lex_next source c n = Inr (t, n') \<Longrightarrow> c \<le> length source \<Longrightarrow> lexeme_ok source t \<and> c \<le> lstart t"
  using lex_next_span [of source c n t n'] lex_next_values [of source c n t n']
  by (auto simp: lexeme_ok_def)

lemma ptake_ok:
  assumes "ptake source st = Inr (t, st')" and "pst_ok source st"
  shows "t = current st \<and> lexeme_ok source t \<and> pst_ok source st' \<and> lend t \<le> cstart st' \<and>
    pdepth st' = pdepth st"
proof -
  obtain t' n where "lex_next source (cursor st) (lexcount st) = Inr (t', n)"
    and st': "t = current st" "st' = st\<lparr>cursor := lend t', lexcount := n, current := t'\<rparr>"
    using assms(1) by (auto simp: ptake_def split: sum.splits)
  then have "lexeme_ok source t' \<and> cursor st \<le> lstart t'"
    using lex_next_ok assms(2) by (simp add: pst_ok_def lexeme_ok_def)
  then show ?thesis
    using st' assms(2) by (auto simp: pst_ok_def)
qed

lemma pexpect_ok:
  assumes "pexpect source x st = Inr (t, st')" and "pst_ok source st" and "x \<noteq> []"
  shows "t = current st \<and> lexeme_ok source t \<and> pst_ok source st' \<and> lend t \<le> cstart st' \<and>
    lstart t < lend t \<and> pdepth st' = pdepth st"
proof -
  have tk: "ptake source st = Inr (t, st')" and "ltext (current st) = js x"
    using assms(1) by (auto simp: pexpect_def perror_def split: if_splits)
  then have "lstart (current st) < lend (current st)"
    using assms(2,3) by (auto simp: pst_ok_def lexeme_ok_def slice_def)
  then show ?thesis
    using ptake_ok [OF tk assms(2)] by metis
qed

lemma ptake_not_fuel [simp]: "ptake source st \<noteq> Inl Out_of_fuel"
  by (auto simp: ptake_def split: sum.splits)

lemma pexpect_not_fuel [simp]: "pexpect source x st \<noteq> Inl Out_of_fuel"
  by (auto simp: pexpect_def perror_def)

lemma perror_simps [simp]: "perror c d p \<noteq> Inr x" "perror c d p \<noteq> Inl Out_of_fuel"
  by (auto simp: perror_def)

lemma parser_init_ok: "parser_init source = Inr st \<Longrightarrow> pst_ok source st"
proof -
  assume st: "parser_init source = Inr st"
  then obtain c t n where c: "lex_next source c 0 = Inr (t, n)" "c \<le> length source"
      "st = \<lparr>cursor = lend t, lexcount = n, pdepth = 0, current = t\<rparr>"
  proof (cases "match_version source")
    case None
    then show ?thesis
      using st that by (auto simp: parser_init_def split: sum.splits if_splits)
  next
    case (Some m)
    then obtain d v u where "m = (d, v)" "source = v @ u"
      using match_version_prefix by (metis surj_pair)
    then show ?thesis
      using st Some that by (auto simp: parser_init_def split: sum.splits if_splits)
  qed
  then show ?thesis
    using lex_next_ok [OF c(1,2)] by (simp add: pst_ok_def)
qed

section \<open>Well-formed trees\<close>

text \<open>Positions of a tree: every node spans at least one code unit, children lie inside
  their parent in source order without overlapping, and are narrower than it.\<close>

fun ordered_in :: "nat \<Rightarrow> expr list \<Rightarrow> nat \<Rightarrow> bool" where
  "ordered_in lo [] hi \<longleftrightarrow> lo \<le> hi"
| "ordered_in lo (c # cs) hi \<longleftrightarrow> lo \<le> estart c \<and> ordered_in (eend c) cs hi"

inductive well_spanned :: "expr \<Rightarrow> bool" where
  "estart e < eend e \<Longrightarrow> ordered_in (estart e) (children e) (eend e) \<Longrightarrow>
   (\<And>c. c \<in> set (children e) \<Longrightarrow> well_spanned c \<and> eend c - estart c < eend e - estart e) \<Longrightarrow>
   well_spanned e"

inductive_simps well_spanned_iff: "well_spanned e"

text \<open>Names, operators and arities are the known ones; number literals are finite, and
  safe when flagged as integers.\<close>

fun node_ok :: "expr \<Rightarrow> bool" where
  "node_ok (Literal l i _ _) =
     (case l of
        LNum n \<Rightarrow> plain_double n \<and> (i = Some True \<longrightarrow> is_safe_integer n) \<and> i \<noteq> None
      | _ \<Rightarrow> i = None)"
| "node_ok (Variable n _ _) = (n \<in> set BILLING_VARIABLES)"
| "node_ok (Call n as _ _) = (map_of BILLING_FUNCTIONS n = Some (length as))"
| "node_ok (Unary p _ _ _) = (p \<in> {js ''!'', js ''+'', js ''-''})"
| "node_ok (Binary p _ _ _ _) = (map_of PRECEDENCE p \<noteq> None)"
| "node_ok (Conditional _ _ _ _ _) = True"

definition tree_ok :: "expr \<Rightarrow> bool" where
  "tree_ok e \<longleftrightarrow> (\<forall>n\<in>set (postorder e). node_ok n)"

lemma tree_ok_iff: "tree_ok e \<longleftrightarrow> node_ok e \<and> (\<forall>c\<in>set (children e). tree_ok c)"
  by (subst tree_ok_def, subst postorder_children) (auto simp: tree_ok_def)

lemma children_with_span [simp]: "children (with_span e s t) = children e"
  by (cases e) auto

lemma span_with_span [simp]: "estart (with_span e s t) = s" "eend (with_span e s t) = t"
  by (cases e; simp)+

lemma node_ok_with_span [simp]: "node_ok (with_span e s t) = node_ok e"
  by (cases e) auto

lemma ordered_in_widen: "ordered_in lo cs hi \<Longrightarrow> lo' \<le> lo \<Longrightarrow> hi \<le> hi' \<Longrightarrow> ordered_in lo' cs hi'"
  by (induction cs arbitrary: lo lo') auto

lemma ordered_in_append:
  "ordered_in lo (cs @ [c]) hi \<longleftrightarrow> ordered_in lo cs (estart c) \<and> eend c \<le> hi"
  by (induction cs arbitrary: lo) auto

lemma well_spanned_widen:
  "well_spanned e \<Longrightarrow> s \<le> estart e \<Longrightarrow> eend e \<le> t \<Longrightarrow> well_spanned (with_span e s t)"
  by (subst (asm) well_spanned_iff, subst well_spanned_iff) (fastforce intro: ordered_in_widen)

lemma well_spanned_width: "well_spanned e \<Longrightarrow> estart e < eend e"
  by (subst (asm) well_spanned_iff) simp

definition good :: "expr \<Rightarrow> bool" where
  "good e \<longleftrightarrow> well_spanned e \<and> tree_ok e"

lemma good_binary:
  assumes "good l" "good r" "eend l \<le> estart r" "map_of PRECEDENCE p = Some q"
  shows "good (Binary p l r (estart l) (eend r))"
proof -
  have w: "estart l < eend l" "estart r < eend r"
    using assms(1,2) well_spanned_width by (auto simp: good_def)
  have "well_spanned (Binary p l r (estart l) (eend r))"
    by (rule well_spanned.intros) (use assms w in \<open>auto simp: good_def\<close>)
  then show ?thesis
    using assms tree_ok_iff [of "Binary p l r (estart l) (eend r)"] by (simp add: good_def)
qed

lemma good_conditional:
  assumes "good c" "good x" "good y" "eend c \<le> estart x" "eend x \<le> estart y"
  shows "good (Conditional c x y (estart c) (eend y))"
proof -
  have w: "estart c < eend c" "estart x < eend x" "estart y < eend y"
    using assms(1-3) well_spanned_width by (auto simp: good_def)
  have "well_spanned (Conditional c x y (estart c) (eend y))"
    by (rule well_spanned.intros) (use assms w in \<open>auto simp: good_def\<close>)
  then show ?thesis
    using assms tree_ok_iff [of "Conditional c x y (estart c) (eend y)"] by (simp add: good_def)
qed

lemma good_unary:
  assumes "good x" "s < estart x" "p \<in> {js ''!'', js ''+'', js ''-''}"
  shows "good (Unary p x s (eend x))"
proof -
  have w: "estart x < eend x"
    using assms(1) well_spanned_width by (auto simp: good_def)
  have "well_spanned (Unary p x s (eend x))"
    by (rule well_spanned.intros) (use assms w in \<open>auto simp: good_def\<close>)
  then show ?thesis
    using assms tree_ok_iff [of "Unary p x s (eend x)"] by (simp add: good_def)
qed

lemma ordered_in_le: "ordered_in lo cs hi \<Longrightarrow> \<forall>c\<in>set cs. estart c \<le> eend c \<Longrightarrow> lo \<le> hi"
  by (induction cs arbitrary: lo) (auto intro: le_trans)

lemma ordered_in_bounds:
  "ordered_in lo cs hi \<Longrightarrow> \<forall>c\<in>set cs. estart c \<le> eend c \<Longrightarrow> c \<in> set cs \<Longrightarrow> lo \<le> estart c \<and> eend c \<le> hi"
proof (induction cs arbitrary: lo)
  case Nil
  then show ?case by simp
next
  case (Cons x xs)
  have "eend x \<le> hi"
    using Cons.prems by (intro ordered_in_le [of "eend x" xs]) auto
  then show ?case
    using Cons.prems Cons.IH [of "eend x"] by (auto intro: le_trans)
qed

lemma good_call:
  assumes "\<forall>a\<in>set as. good a" "ordered_in lo as hi" "s < lo" "hi \<le> t"
    "map_of BILLING_FUNCTIONS n = Some (length as)" "lo \<le> hi"
  shows "good (Call n as s t)"
proof -
  have w: "\<forall>a\<in>set as. estart a < eend a"
    using assms(1) well_spanned_width by (auto simp: good_def)
  then have b: "lo \<le> estart a \<and> eend a \<le> hi" if "a \<in> set as" for a
    using ordered_in_bounds [OF assms(2)] that by (meson less_imp_le)
  have "well_spanned (Call n as s t)"
  proof (rule well_spanned.intros)
    show "estart (Call n as s t) < eend (Call n as s t)" using assms by simp
    show "ordered_in (estart (Call n as s t)) (children (Call n as s t)) (eend (Call n as s t))"
      using assms(2-4) by (auto intro: ordered_in_widen)
    show "well_spanned c \<and> eend c - estart c < eend (Call n as s t) - estart (Call n as s t)"
      if "c \<in> set (children (Call n as s t))" for c
      using that b [of c] assms w by (auto simp: good_def)
  qed
  then show ?thesis
    using assms tree_ok_iff [of "Call n as s t"] by (simp add: good_def)
qed

section \<open>The contract of the parsing methods\<close>

text \<open>What one call of a parsing method promises: the state stays consistent with the
  source and keeps its depth, the tree is well formed, starts at the lexeme the call
  started at and ends before the lexeme the call stopped at.\<close>

definition parsed :: "jsstr \<Rightarrow> pstate \<Rightarrow> nat \<Rightarrow> expr \<Rightarrow> pstate \<Rightarrow> bool" where
  "parsed source st from e st' \<longleftrightarrow>
     pst_ok source st' \<and> good e \<and> estart e = from \<and> eend e \<le> cstart st' \<and>
     pdepth st' = pdepth st \<and> cstart st \<le> cstart st'"

definition args_parsed :: "jsstr \<Rightarrow> nat \<Rightarrow> expr list \<Rightarrow> pstate \<Rightarrow> bool" where
  "args_parsed source lo args st \<longleftrightarrow>
     pst_ok source st \<and> (\<forall>a\<in>set args. good a) \<and> ordered_in lo args (cstart st)"

lemma parsed_progress: "parsed source st (cstart st) e st' \<Longrightarrow> cstart st < cstart st' \<and> cstart st' \<le> length source"
  using well_spanned_width by (fastforce simp: parsed_def good_def pst_ok_def lexeme_ok_def)

lemma pst_ok_depth [simp]: "pst_ok source (st\<lparr>pdepth := d\<rparr>) = pst_ok source st"
  by (simp add: pst_ok_def)

lemma lexeme_nonempty: "lexeme_ok source t \<Longrightarrow> ltext t = js (c # s) \<Longrightarrow> lstart t < lend t"
  by (cases "lkind t = K_end") (auto simp: lexeme_ok_def slice_def)

lemma precedence_nonempty: "map_of PRECEDENCE t = Some p \<Longrightarrow> t \<noteq> []"
  by (auto simp: PRECEDENCE_def)

lemma lexeme_nonempty': "lexeme_ok source t \<Longrightarrow> ltext t \<noteq> [] \<Longrightarrow> lstart t < lend t"
  by (cases "lkind t = K_end") (auto simp: lexeme_ok_def slice_def)

lemma good_leaf: "children e = [] \<Longrightarrow> node_ok e \<Longrightarrow> estart e < eend e \<Longrightarrow> good e"
  using tree_ok_iff [of e] by (auto simp: good_def intro: well_spanned.intros)

lemma good_with_span: "good e \<Longrightarrow> s \<le> estart e \<Longrightarrow> eend e \<le> t \<Longrightarrow> good (with_span e s t)"
  using tree_ok_iff [of e] tree_ok_iff [of "with_span e s t"] well_spanned_widen
  by (auto simp: good_def)

lemma literal_ok:
  "lexeme_ok source t \<Longrightarrow> lkind t = K_number \<Longrightarrow>
     good (Literal (literal_value t) (linteger t) (lstart t) (lend t))"
  "lexeme_ok source t \<Longrightarrow> lkind t = K_string \<Longrightarrow>
     good (Literal (literal_value t) None (lstart t) (lend t))"
  by (rule good_leaf; auto simp: lexeme_ok_def literal_value_def)+

locale parser_contract =
  fixes source :: jsstr and rec :: parsers
  assumes expression_ok:
    "pst_ok source st \<Longrightarrow> p_expression rec m st = Inr (e, st') \<Longrightarrow> parsed source st (cstart st) e st'"
  and primary_ok:
    "pst_ok source st \<Longrightarrow> p_primary rec st = Inr (e, st') \<Longrightarrow> parsed source st (cstart st) e st'"
  and loop_ok:
    "pst_ok source st \<Longrightarrow> good left \<Longrightarrow> eend left \<le> cstart st \<Longrightarrow>
     p_loop rec m left st = Inr (e, st') \<Longrightarrow> parsed source st (estart left) e st'"
  and args_ok:
    "args_parsed source lo args st \<Longrightarrow> p_args rec args st = Inr (args', st') \<Longrightarrow>
     args_parsed source lo args' st' \<and> pdepth st' = pdepth st \<and> cstart st \<le> cstart st'"
begin

lemma argument_loop_ok:
  assumes "args_parsed source lo args st" and "argument_loop source rec args st = Inr (args', st')"
  shows "args_parsed source lo args' st' \<and> pdepth st' = pdepth st \<and> cstart st \<le> cstart st'"
proof (cases "pis st '')''")
  case True
  then show ?thesis using assms by (simp add: argument_loop_def)
next
  case False
  then obtain arg st1 where e: "p_expression rec 0 st = Inr (arg, st1)"
    and rest: "(if \<not> pis st1 '','' then Inr (args @ [arg], st1)
       else res_bind (ptake source st1) (\<lambda>(_, st). p_args rec (args @ [arg]) st)) = Inr (args', st')"
    using assms(2) by (auto simp: argument_loop_def res_simps)
  have p: "parsed source st (cstart st) arg st1"
    using expression_ok [OF _ e] assms(1) by (simp add: args_parsed_def)
  then have ap: "args_parsed source lo (args @ [arg]) st1"
    using assms(1) by (auto simp: args_parsed_def parsed_def ordered_in_append)
  show ?thesis
  proof (cases "pis st1 '',''")
    case False
    then show ?thesis using rest ap p by (auto simp: parsed_def)
  next
    case True
    then obtain t st2 where t: "ptake source st1 = Inr (t, st2)"
      and a: "p_args rec (args @ [arg]) st2 = Inr (args', st')"
      using rest by (auto simp: res_simps)
    have tk: "pst_ok source st2" "cstart st1 \<le> cstart st2" "pdepth st2 = pdepth st1"
      using ptake_ok [OF t] p by (auto simp: parsed_def lexeme_ok_def)
    then have ap2: "args_parsed source lo (args @ [arg]) st2"
      using ap ordered_in_widen by (auto simp: args_parsed_def)
    show ?thesis
      using args_ok [OF ap2 a] p tk by (auto simp: parsed_def)
  qed
qed

lemma binary_loop_ok:
  assumes st: "pst_ok source st" and left: "good left" "eend left \<le> cstart st"
    and r: "binary_loop source rec m left st = Inr (e, st')"
  shows "parsed source st (estart left) e st'"
proof (cases "map_of PRECEDENCE (ltext (current st))")
  case None
  then show ?thesis using assms by (simp add: binary_loop_def parsed_def)
next
  case (Some p)
  show ?thesis
  proof (cases "m \<le> p")
    case False
    then show ?thesis using assms Some by (simp add: binary_loop_def parsed_def)
  next
    case True
    then obtain t st1 right st2 where t: "ptake source st = Inr (t, st1)"
      and right: "p_expression rec (p + 1) st1 = Inr (right, st2)"
      and l: "p_loop rec m (Binary (ltext t) left right (estart left) (eend right)) st2 = Inr (e, st')"
      using r Some by (auto simp: binary_loop_def res_simps)
    have tk: "pst_ok source st1" "t = current st" "lend t \<le> cstart st1" "pdepth st1 = pdepth st"
        "lstart t \<le> lend t"
      using ptake_ok [OF t st] by (auto simp: lexeme_ok_def)
    have pr: "parsed source st1 (cstart st1) right st2"
      using expression_ok [OF tk(1) right] .
    have b: "good (Binary (ltext t) left right (estart left) (eend right))"
      using good_binary [of left right "ltext t" p] left pr tk Some by (auto simp: parsed_def)
    have "parsed source st2 (estart left) e st'"
      using loop_ok [OF _ b _ l] pr by (simp add: parsed_def)
    then show ?thesis
      using pr tk by (auto simp: parsed_def)
  qed
qed

lemma call_method_ok:
  assumes st: "pst_ok source st" and token: "lexeme_ok source token" "lstart token < lend token"
      "lend token \<le> cstart st" and opn: "pis st ''(''"
    and r: "call_method source rec token st = Inr (e, st')"
  shows "parsed source st (lstart token) e st'"
proof -
  obtain t st1 args st2 close where t: "ptake source st = Inr (t, st1)"
      and a: "p_args rec [] st1 = Inr (args, st2)"
      and c: "pexpect source '')'' st2 = Inr (close, st')"
      and arity: "map_of BILLING_FUNCTIONS (ltext token) = Some (length args)"
      and e: "e = Call (ltext token) args (lstart token) (lend close)"
    using r by (auto simp: call_method_def res_simps split: option.splits if_splits)
  have tk: "pst_ok source st1" "t = current st" "lend t \<le> cstart st1" "pdepth st1 = pdepth st"
      "lstart t \<le> lend t"
    using ptake_ok [OF t st] by (auto simp: lexeme_ok_def)
  have ar: "args_parsed source (cstart st1) args st2" "pdepth st2 = pdepth st1" "cstart st1 \<le> cstart st2"
    using args_ok [OF _ a, of "cstart st1"] tk(1) by (auto simp: args_parsed_def)
  have cl: "close = current st2" "pst_ok source st'" "lend close \<le> cstart st'" "lstart close < lend close"
      "pdepth st' = pdepth st2"
    using pexpect_ok [OF c] ar(1) by (auto simp: args_parsed_def)
  have "good (Call (ltext token) args (lstart token) (lend close))"
    using ar cl tk token arity
    by (intro good_call [where lo = "cstart st1" and hi = "cstart st2"]) (auto simp: args_parsed_def)
  then show ?thesis
    using e ar cl tk token by (auto simp: parsed_def)
qed

lemma primary_method_ok:
  assumes st: "pst_ok source st" and r: "primary_method source rec st = Inr (e, st')"
  shows "parsed source st (cstart st) e st'"
proof -
  obtain token st1 where t: "ptake source st = Inr (token, st1)"
    using r by (auto simp: primary_method_def res_simps)
  have tk: "token = current st" "lexeme_ok source token" "pst_ok source st1" "lend token \<le> cstart st1"
      "pdepth st1 = pdepth st" "lstart token \<le> lend token"
    using ptake_ok [OF t st] by (auto simp: lexeme_ok_def)
  have leaf: "parsed source st (cstart st) x st1" if "good x" "estart x = lstart token" "eend x = lend token" for x
    using that tk by (auto simp: parsed_def)
  have name: "lstart token < lend token" if "lkind token = K_name"
    using tk(2) that by (auto simp: lexeme_ok_def)
  note r' = r [unfolded primary_method_def t res_bind_Inr split_conv]
  show ?thesis
  proof (cases "lkind token = K_number \<or> lkind token = K_string")
    case True
    then show ?thesis using r' literal_ok [OF tk(2)] leaf by auto
  next
    case lit: False
    show ?thesis
    proof (cases "ltext token = js ''(''")
      case True
      then obtain x st2 close where x: "p_expression rec 0 st1 = Inr (x, st2)"
          and c: "pexpect source '')'' st2 = Inr (close, st')"
          and e: "e = with_span x (lstart token) (lend close)"
        using r' lit by (auto simp: res_simps)
      have px: "parsed source st1 (cstart st1) x st2" using expression_ok [OF tk(3) x] .
      have cl: "close = current st2" "pst_ok source st'" "lend close \<le> cstart st'" "lstart close < lend close"
          "pdepth st' = pdepth st2"
        using pexpect_ok [OF c] px by (auto simp: parsed_def)
      have "good e"
        using e px cl tk by (auto simp: parsed_def intro: good_with_span)
      then show ?thesis using e px cl tk by (auto simp: parsed_def)
    next
      case paren: False
      show ?thesis
      proof (cases "ltext token \<in> {js ''!'', js ''+'', js ''-''}")
        case True
        then have lt: "lstart token < lend token"
          using lexeme_nonempty' [OF tk(2)] by auto
        from True obtain x where x: "p_expression rec 7 st1 = Inr (x, st')"
            and e: "e = Unary (ltext token) x (lstart token) (eend x)"
          using r' lit paren by (auto simp: res_simps split: if_splits)
        have px: "parsed source st1 (cstart st1) x st'" using expression_ok [OF tk(3) x] .
        then have "good e"
          using good_unary [of x "lstart token" "ltext token"] e True tk lt by (auto simp: parsed_def)
        then show ?thesis using e px tk by (auto simp: parsed_def)
      next
        case unary: False
        then have nm: "lkind token = K_name"
          using r' lit paren by (auto split: if_splits)
        show ?thesis
        proof (cases "ltext token \<in> {js ''nil'', js ''true'', js ''false''} \<or> \<not> pis st1 ''(''")
          case True
          then have st': "st' = st1" and sp: "estart e = lstart token" "eend e = lend token"
              and ok: "children e = [] \<and> node_ok e"
            using r' lit paren unary nm by (auto split: if_splits)
          then have "good e" using good_leaf [of e] name [OF nm] by simp
          then show ?thesis using leaf sp st' by simp
        next
          case False
          then have "call_method source rec token st1 = Inr (e, st')" "pis st1 ''(''"
            using r' lit paren unary nm by (auto split: if_splits)
          then have "parsed source st1 (lstart token) e st'"
            using call_method_ok [OF tk(3,2) name [OF nm] tk(4)] by simp
          then show ?thesis using tk by (auto simp: parsed_def)
        qed
      qed
    qed
  qed
qed

lemma expression_method_ok:
  assumes st: "pst_ok source st" and r: "expression_method source rec m st = Inr (e, st')"
  shows "parsed source st (cstart st) e st'"
proof -
  let ?st0 = "st\<lparr>pdepth := pdepth st + 1\<rparr>"
  obtain left st1 left2 st2 where p: "p_primary rec ?st0 = Inr (left, st1)"
      and l: "p_loop rec m left st1 = Inr (left2, st2)"
      and rest: "(if m = 0 \<and> pis st2 ''?'' then
            res_bind (ptake source st2) (\<lambda>(_, st).
            res_bind (p_expression rec 0 st) (\<lambda>(yes, st).
            res_bind (pexpect source '':'' st) (\<lambda>(_, st).
            res_bind (p_expression rec 0 st) (\<lambda>(no, st).
              Inr (Conditional left2 yes no (estart left2) (eend no),
                   st\<lparr>pdepth := pdepth st - 1\<rparr>)))))
          else Inr (left2, st2\<lparr>pdepth := pdepth st2 - 1\<rparr>)) = Inr (e, st')"
    using r by (auto simp: expression_method_def res_simps split: if_splits)
  have p1: "parsed source ?st0 (cstart st) left st1"
    using primary_ok [OF _ p] st by simp
  have p2: "parsed source st1 (cstart st) left2 st2"
    using loop_ok [OF _ _ _ l] p1 by (auto simp: parsed_def)
  show ?thesis
  proof (cases "m = 0 \<and> pis st2 ''?''")
    case False
    then have "e = left2" "st' = st2\<lparr>pdepth := pdepth st2 - 1\<rparr>"
      using rest by (auto split: if_splits)
    then show ?thesis using p1 p2 by (auto simp: parsed_def)
  next
    case True
    then obtain t st3 yes st4 c st5 no st6 where t: "ptake source st2 = Inr (t, st3)"
        and y: "p_expression rec 0 st3 = Inr (yes, st4)"
        and c: "pexpect source '':'' st4 = Inr (c, st5)"
        and n: "p_expression rec 0 st5 = Inr (no, st6)"
        and e: "e = Conditional left2 yes no (estart left2) (eend no)"
           "st' = st6\<lparr>pdepth := pdepth st6 - 1\<rparr>"
      using rest by (auto simp: res_simps)
    have tk: "pst_ok source st3" "cstart st2 \<le> cstart st3" "pdepth st3 = pdepth st2"
      using ptake_ok [OF t] p2 by (auto simp: parsed_def lexeme_ok_def)
    have py: "parsed source st3 (cstart st3) yes st4" using expression_ok [OF tk(1) y] .
    have cl: "pst_ok source st5" "cstart st4 \<le> cstart st5" "pdepth st5 = pdepth st4"
      using pexpect_ok [OF c] py by (auto simp: parsed_def)
    have pn: "parsed source st5 (cstart st5) no st6" using expression_ok [OF cl(1) n] .
    have "good e"
      using good_conditional [of left2 yes no] p2 tk py cl pn e by (auto simp: parsed_def)
    then show ?thesis
      using p1 p2 tk py cl pn e by (auto simp: parsed_def)
  qed
qed

end

lemma parser_contract_step:
  assumes "parser_contract source rec"
  shows "parser_contract source
    \<lparr>p_expression = expression_method source rec, p_loop = binary_loop source rec,
     p_primary = primary_method source rec, p_args = argument_loop source rec\<rparr>"
  (is "parser_contract source ?next")
proof (rule parser_contract.intro)
  note step = parser_contract.expression_method_ok [OF assms]
    parser_contract.primary_method_ok [OF assms] parser_contract.binary_loop_ok [OF assms]
    parser_contract.argument_loop_ok [OF assms]
  fix st m e st' left lo args args'
  show "parsed source st (cstart st) e st'"
    if "pst_ok source st" "p_expression ?next m st = Inr (e, st')"
    using step(1) that by (simp only: parsers.simps)
  show "parsed source st (cstart st) e st'"
    if "pst_ok source st" "p_primary ?next st = Inr (e, st')"
    using step(2) that by (simp only: parsers.simps)
  show "parsed source st (estart left) e st'"
    if "pst_ok source st" "good left" "eend left \<le> cstart st" "p_loop ?next m left st = Inr (e, st')"
    using step(3) that by (simp only: parsers.simps)
  show "args_parsed source lo args' st' \<and> pdepth st' = pdepth st \<and> cstart st \<le> cstart st'"
    if "args_parsed source lo args st" "p_args ?next args st = Inr (args', st')"
    using step(4) that by (simp only: parsers.simps)
qed

interpretation pm: parser_contract source "parser_methods fuel source" for fuel source
proof (induction fuel)
  case 0
  show ?case by unfold_locales simp_all
next
  case (Suc fuel)
  then show ?case using parser_contract_step by (simp add: Let_def)
qed

section \<open>Fuel\<close>

text \<open>With enough fuel for the text that is left no method runs out: every method either
  consumes a lexeme before it calls another one, or calls one with a smaller budget.\<close>

abbreviation left_of :: "jsstr \<Rightarrow> pstate \<Rightarrow> nat" where
  "left_of source st \<equiv> length source - cstart st"

locale parser_budget = parser_contract +
  fixes n :: nat
  assumes expression_fuel:
    "pst_ok source st \<Longrightarrow> 3 * left_of source st + 2 \<le> n \<Longrightarrow> p_expression rec m st \<noteq> Inl Out_of_fuel"
  and primary_fuel:
    "pst_ok source st \<Longrightarrow> 3 * left_of source st + 1 \<le> n \<Longrightarrow> p_primary rec st \<noteq> Inl Out_of_fuel"
  and loop_fuel:
    "pst_ok source st \<Longrightarrow> good left \<Longrightarrow> eend left \<le> cstart st \<Longrightarrow>
     3 * left_of source st + 1 \<le> n \<Longrightarrow> p_loop rec m left st \<noteq> Inl Out_of_fuel"
  and args_fuel:
    "args_parsed source lo args st \<Longrightarrow> 3 * left_of source st + 3 \<le> n \<Longrightarrow>
     p_args rec args st \<noteq> Inl Out_of_fuel"
begin

lemma argument_loop_fuel:
  assumes a: "args_parsed source lo args st" and n: "3 * left_of source st + 3 \<le> n + 1"
  shows "argument_loop source rec args st \<noteq> Inl Out_of_fuel"
proof
  assume r: "argument_loop source rec args st = Inl Out_of_fuel"
  have st: "pst_ok source st" using a by (simp add: args_parsed_def)
  have "p_expression rec 0 st \<noteq> Inl Out_of_fuel" using expression_fuel [OF st] n by simp
  then obtain arg st1 t st2 where e: "p_expression rec 0 st = Inr (arg, st1)"
      and t: "ptake source st1 = Inr (t, st2)" and ar: "p_args rec (args @ [arg]) st2 = Inl Out_of_fuel"
    using r by (auto simp: argument_loop_def res_simps split: if_splits)
  have p: "parsed source st (cstart st) arg st1" using expression_ok [OF st e] .
  have tk: "pst_ok source st2" "cstart st1 \<le> cstart st2"
    using ptake_ok [OF t] p by (auto simp: parsed_def lexeme_ok_def)
  have "args_parsed source lo (args @ [arg]) st2"
    using a p tk by (auto simp: args_parsed_def parsed_def ordered_in_append)
  moreover have "3 * left_of source st2 + 3 \<le> n"
    using n parsed_progress [OF p] tk(2) by linarith
  ultimately show False
    using args_fuel ar by blast
qed

lemma binary_loop_fuel:
  assumes st: "pst_ok source st" and left: "good left" "eend left \<le> cstart st"
    and n: "3 * left_of source st + 1 \<le> n + 1"
  shows "binary_loop source rec m left st \<noteq> Inl Out_of_fuel"
proof
  assume r: "binary_loop source rec m left st = Inl Out_of_fuel"
  then obtain p t st1 where q: "map_of PRECEDENCE (ltext (current st)) = Some p"
      and t: "ptake source st = Inr (t, st1)"
      and rest: "res_bind (p_expression rec (p + 1) st1) (\<lambda>(right, st).
        p_loop rec m (Binary (ltext t) left right (estart left) (eend right)) st) = Inl Out_of_fuel"
    by (auto simp: binary_loop_def res_simps split: option.splits if_splits)
  have tk: "pst_ok source st1" "t = current st" "lend t \<le> cstart st1" "lexeme_ok source t"
    using ptake_ok [OF t st] by auto
  have w: "lstart t < cstart st1" "cstart st1 \<le> length source"
    using lexeme_nonempty' [OF tk(4)] precedence_nonempty [OF q] tk
    by (auto simp: pst_ok_def lexeme_ok_def)
  have "p_expression rec (p + 1) st1 \<noteq> Inl Out_of_fuel"
    using expression_fuel [OF tk(1)] n w tk(2) by auto
  then obtain right st2 where right: "p_expression rec (p + 1) st1 = Inr (right, st2)"
      and l: "p_loop rec m (Binary (ltext t) left right (estart left) (eend right)) st2 = Inl Out_of_fuel"
    using rest by (auto simp: res_simps)
  have pr: "parsed source st1 (cstart st1) right st2" using expression_ok [OF tk(1) right] .
  have b: "good (Binary (ltext t) left right (estart left) (eend right))"
    using good_binary [of left right "ltext t" p] left pr tk q w by (auto simp: parsed_def)
  have "3 * left_of source st2 + 1 \<le> n"
    using parsed_progress [OF pr] n w unfolding tk(2) by linarith
  then show False
    using loop_fuel [OF _ b] l pr by (auto simp: parsed_def)
qed

lemma call_method_fuel:
  assumes st: "pst_ok source st" and n: "3 * left_of source st + 3 \<le> n + 1" and opn: "pis st ''(''"
  shows "call_method source rec token st \<noteq> Inl Out_of_fuel"
proof
  assume "call_method source rec token st = Inl Out_of_fuel"
  then obtain t st1 where t: "ptake source st = Inr (t, st1)" and a: "p_args rec [] st1 = Inl Out_of_fuel"
    by (auto simp: call_method_def res_simps split: option.splits if_splits)
  have tk: "pst_ok source st1" "t = current st" "lend t \<le> cstart st1" "lexeme_ok source t"
    using ptake_ok [OF t st] by auto
  have "lstart t < lend t"
    using lexeme_nonempty' [OF tk(4)] opn tk(2) by (simp add: pis_def)
  moreover have "cstart st1 \<le> length source"
    using tk(1) by (simp add: pst_ok_def lexeme_ok_def)
  ultimately have "3 * left_of source st1 + 3 \<le> n"
    using tk(3) n unfolding tk(2) by linarith
  then show False
    using args_fuel [of "cstart st1" "[]" st1] a tk(1) by (simp add: args_parsed_def)
qed

lemma primary_method_fuel:
  assumes st: "pst_ok source st" and n: "3 * left_of source st + 1 \<le> n + 1"
  shows "primary_method source rec st \<noteq> Inl Out_of_fuel"
proof
  assume r: "primary_method source rec st = Inl Out_of_fuel"
  then obtain token st1 where t: "ptake source st = Inr (token, st1)"
    by (auto simp: primary_method_def res_simps)
  have tk: "pst_ok source st1" "token = current st" "lend token \<le> cstart st1" "lexeme_ok source token"
    using ptake_ok [OF t st] by auto
  note r' = r [unfolded primary_method_def t res_bind_Inr split_conv]
  have w: "3 * left_of source st1 + 3 \<le> n + 1" if "lstart token < lend token"
    using that n tk by (auto simp: pst_ok_def lexeme_ok_def)
  have e: "p_expression rec k st1 \<noteq> Inl Out_of_fuel" if "lstart token < lend token" for k
    using expression_fuel [OF tk(1)] w [OF that] by simp
  have name: "lstart token < lend token" if "lkind token = K_name"
    using tk(4) that by (auto simp: lexeme_ok_def)
  have op: "lstart token < lend token" if "ltext token \<in> {js ''('', js ''!'', js ''+'', js ''-''}"
    using lexeme_nonempty' [OF tk(4)] that by auto
  have "lkind token \<noteq> K_number \<and> lkind token \<noteq> K_string"
    using r' by (auto split: if_splits)
  then have "lkind token = K_name \<and> pis st1 ''('' \<and> call_method source rec token st1 = Inl Out_of_fuel"
    using r' e op by (auto simp: res_simps split: if_splits)
  then show False
    using call_method_fuel [OF tk(1) w] name by blast
qed

lemma expression_method_fuel:
  assumes st: "pst_ok source st" and n: "3 * left_of source st + 2 \<le> n + 1"
  shows "expression_method source rec m st \<noteq> Inl Out_of_fuel"
proof
  assume r: "expression_method source rec m st = Inl Out_of_fuel"
  let ?st0 = "st\<lparr>pdepth := pdepth st + 1\<rparr>"
  have "p_primary rec ?st0 \<noteq> Inl Out_of_fuel" using primary_fuel [of ?st0] st n by simp
  then obtain left st1 where p: "p_primary rec ?st0 = Inr (left, st1)"
    using r by (auto simp: expression_method_def res_simps split: if_splits)
  have p1: "parsed source ?st0 (cstart st) left st1" using primary_ok [OF _ p] st by simp
  have w1: "cstart st < cstart st1" "cstart st1 \<le> length source"
    using parsed_progress [of source ?st0 left st1] p1 by auto
  have "p_loop rec m left st1 \<noteq> Inl Out_of_fuel"
    using loop_fuel [of st1 left m] p1 n w1 by (auto simp: parsed_def)
  then obtain left2 st2 t st3 where l: "p_loop rec m left st1 = Inr (left2, st2)"
      and t: "ptake source st2 = Inr (t, st3)"
      and rest: "res_bind (p_expression rec 0 st3) (\<lambda>(yes, st).
            res_bind (pexpect source '':'' st) (\<lambda>(_, st).
            res_bind (p_expression rec 0 st) (\<lambda>(no, st).
              Inr (Conditional left2 yes no (estart left2) (eend no),
                   st\<lparr>pdepth := pdepth st - 1\<rparr>)))) = Inl Out_of_fuel"
    using r p by (auto simp: expression_method_def res_simps split: if_splits)
  have p2: "parsed source st1 (cstart st) left2 st2"
    using loop_ok [OF _ _ _ l] p1 by (auto simp: parsed_def)
  have tk: "pst_ok source st3" "cstart st2 \<le> cstart st3"
    using ptake_ok [OF t] p2 by (auto simp: parsed_def lexeme_ok_def)
  have w3: "cstart st < cstart st3" "cstart st3 \<le> length source"
    using w1 p2 tk by (auto simp: parsed_def pst_ok_def lexeme_ok_def)
  have "p_expression rec 0 st3 \<noteq> Inl Out_of_fuel" using expression_fuel [OF tk(1)] w3 n by auto
  then obtain yes st4 c st5 where y: "p_expression rec 0 st3 = Inr (yes, st4)"
      and c: "pexpect source '':'' st4 = Inr (c, st5)"
      and no: "p_expression rec 0 st5 = Inl Out_of_fuel"
    using rest by (auto simp: res_simps)
  have py: "parsed source st3 (cstart st3) yes st4" using expression_ok [OF tk(1) y] .
  have cl: "pst_ok source st5" "cstart st4 \<le> cstart st5"
    using pexpect_ok [OF c] py by (auto simp: parsed_def)
  show False
    using expression_fuel [OF cl(1)] no n w3 parsed_progress [OF py] cl by auto
qed

end

lemma parser_budget_step:
  assumes "parser_budget source rec n"
  shows "parser_budget source
    \<lparr>p_expression = expression_method source rec, p_loop = binary_loop source rec,
     p_primary = primary_method source rec, p_args = argument_loop source rec\<rparr> (Suc n)"
  (is "parser_budget source ?next (Suc n)")
proof (rule parser_budget.intro [OF parser_contract_step parser_budget_axioms.intro])
  show "parser_contract source rec" using assms by (simp add: parser_budget_def)
  note step = parser_budget.expression_method_fuel [OF assms]
    parser_budget.primary_method_fuel [OF assms] parser_budget.binary_loop_fuel [OF assms]
    parser_budget.argument_loop_fuel [OF assms]
  fix st m left lo args
  show "p_expression ?next m st \<noteq> Inl Out_of_fuel"
    if "pst_ok source st" "3 * left_of source st + 2 \<le> Suc n"
    using step(1) that by (simp only: parsers.simps Suc_eq_plus1 not_False_eq_True)
  show "p_primary ?next st \<noteq> Inl Out_of_fuel"
    if "pst_ok source st" "3 * left_of source st + 1 \<le> Suc n"
    using step(2) that by (simp only: parsers.simps Suc_eq_plus1 not_False_eq_True)
  show "p_loop ?next m left st \<noteq> Inl Out_of_fuel"
    if "pst_ok source st" "good left" "eend left \<le> cstart st" "3 * left_of source st + 1 \<le> Suc n"
    using step(3) that by (simp only: parsers.simps Suc_eq_plus1 not_False_eq_True)
  show "p_args ?next args st \<noteq> Inl Out_of_fuel"
    if "args_parsed source lo args st" "3 * left_of source st + 3 \<le> Suc n"
    using step(4) that by (simp only: parsers.simps Suc_eq_plus1 not_False_eq_True)
qed

interpretation pb: parser_budget source "parser_methods fuel source" fuel for fuel source
proof (induction fuel)
  case 0
  show ?case by unfold_locales simp_all
next
  case (Suc fuel)
  then show ?case using parser_budget_step by (simp add: Let_def)
qed

section \<open>The parser as a whole\<close>

lemma parser_init_not_fuel [simp]: "parser_init source \<noteq> Inl Out_of_fuel"
  by (auto simp: parser_init_def Let_def split: option.splits sum.splits)

theorem parse_source_total: "parse_source source \<noteq> Inl Out_of_fuel"
proof
  assume r: "parse_source source = Inl Out_of_fuel"
  then obtain st where i: "parser_init source = Inr st"
      and e: "p_expression (parser_methods (parse_fuel source) source) 0 st = Inl Out_of_fuel"
    by (auto simp: parse_source_def res_simps split: if_splits)
  show False
    using pb.expression_fuel [OF parser_init_ok [OF i], of "parse_fuel source" 0] e
    by (simp add: parse_fuel_def del: parser_methods.simps)
qed

theorem parse_source_good:
  assumes "parse_source source = Inr e"
  shows "good e \<and> eend e \<le> length source"
proof -
  obtain st st' where i: "parser_init source = Inr st"
      and e: "p_expression (parser_methods (parse_fuel source) source) 0 st = Inr (e, st')"
    using assms by (auto simp: parse_source_def res_simps split: if_splits)
  have "parsed source st (cstart st) e st'"
    using pm.expression_ok [OF parser_init_ok [OF i] e] .
  then show ?thesis
    by (auto simp: parsed_def pst_ok_def lexeme_ok_def)
qed

end
