(* ===== verification/Billing_Compile.thy ===== *)
theory Billing_Compile
  imports Billing_Parser
begin

text \<open>
  Static checks and compilation of billing expressions
  (\<open>web/src/features/pricing/lib/billing-expression/parser.ts\<close>, from
  \<open>checkExpressionTypes\<close> to \<open>compileBillingExpression\<close>).  The type checker, a visitor
  that fills a map from nodes to types, is shown equivalent to a declarative typing
  judgement; the compile cache is shown to be bounded and transparent.
\<close>

section \<open>Type checking\<close>

datatype etype = TNumber | TString | TBoolean | TNil | TDynamic

primrec etype_name :: "etype \<Rightarrow> jsstr" where
  "etype_name TNumber = js ''number''"
| "etype_name TString = js ''string''"
| "etype_name TBoolean = js ''boolean''"
| "etype_name TNil = js ''nil''"
| "etype_name TDynamic = js ''dynamic''"

definition fits :: "etype \<Rightarrow> etype \<Rightarrow> bool" where
  "fits actual expected \<longleftrightarrow> actual = expected \<or> actual = TDynamic"

definition requireType :: "(expr \<Rightarrow> etype option) \<Rightarrow> expr \<Rightarrow> etype \<Rightarrow> thrown + unit" where
  "requireType types child expected =
     (let actual = types child in
      if actual \<noteq> Some expected \<and> actual \<noteq> Some TDynamic then
        bill_error Type_error (etype_name expected @ js '' operand'') (Some (estart child))
      else Inr ())"

text \<open>\<open>node.args[i]\<close> handed to \<open>requireType\<close>, which reads its position when it rejects it;
  a call node built by the parser always has the argument.\<close>

definition require_arg :: "(expr \<Rightarrow> etype option) \<Rightarrow> expr list \<Rightarrow> nat \<Rightarrow> etype \<Rightarrow> thrown + unit" where
  "require_arg types args i expected =
     (if i < length args then requireType types (args ! i) expected
      else Inl (OtherError (js ''Cannot read properties of undefined (reading start)'')))"

fun lit_type :: "lit \<Rightarrow> etype" where
  "lit_type LNull = TNil"
| "lit_type (LNum _) = TNumber"
| "lit_type (LStr _) = TString"
| "lit_type (LBool _) = TBoolean"

definition logical_operators :: "jsstr list" where
  "logical_operators = map js [''&&'', ''||'']"

definition comparison_operators :: "jsstr list" where
  "comparison_operators = map js [''=='', ''!='', ''<'', ''<='', ''>'', ''>='']"

definition string_key_functions :: "jsstr list" where
  "string_key_functions = map js [''param'', ''header'', ''u''] @ TIME_FUNCTIONS"

definition arithmetic_functions :: "jsstr list" where
  "arithmetic_functions = map js [''fixed'', ''min'', ''max'', ''abs'', ''ceil'', ''floor'']"

definition call_node_type ::
  "(expr \<Rightarrow> etype option) \<Rightarrow> jsstr \<Rightarrow> expr list \<Rightarrow> thrown + etype" where
  "call_node_type types name args =
     res_bind (if name \<in> set string_key_functions then require_arg types args 0 TString else Inr ())
       (\<lambda>_.
        if name = js ''header'' then Inr TString
        else if name = js ''has'' then
          res_bind (require_arg types args 1 TString) (\<lambda>_. Inr TBoolean)
        else if name = js ''tier'' then
          res_bind (require_arg types args 0 TString) (\<lambda>_.
          res_bind (require_arg types args 1 TNumber) (\<lambda>_. Inr TNumber))
        else if name \<in> set TIME_FUNCTIONS then Inr TNumber
        else if name \<in> set arithmetic_functions then
          res_bind (fold_res (\<lambda>_ arg. requireType types arg TNumber) args ()) (\<lambda>_. Inr TNumber)
        else Inr TDynamic)"

definition binary_node_type ::
  "(expr \<Rightarrow> etype option) \<Rightarrow> jsstr \<Rightarrow> expr \<Rightarrow> expr \<Rightarrow> thrown + etype" where
  "binary_node_type types operator left right =
     (if operator \<in> set logical_operators then
        res_bind (requireType types left TBoolean) (\<lambda>_.
        res_bind (requireType types right TBoolean) (\<lambda>_. Inr TBoolean))
      else if operator \<in> set comparison_operators then Inr TBoolean
      else if operator = js ''+'' \<and> types left = Some TString \<and> types right = Some TString then
        Inr TString
      else
        res_bind (requireType types left TNumber) (\<lambda>_.
        res_bind (requireType types right TNumber) (\<lambda>_. Inr TNumber)))"

definition node_type :: "(expr \<Rightarrow> etype option) \<Rightarrow> expr \<Rightarrow> thrown + etype" where
  "node_type types node =
     (case node of
        Literal v _ _ _ \<Rightarrow> Inr (lit_type v)
      | Variable _ _ _ \<Rightarrow> Inr TNumber
      | Unary operator operand _ _ \<Rightarrow>
          let result = (if operator = js ''!'' then TBoolean else TNumber)
          in res_bind (requireType types operand result) (\<lambda>_. Inr result)
      | Conditional condition yes no _ _ \<Rightarrow>
          res_bind (requireType types condition TBoolean) (\<lambda>_.
            Inr (if types yes = types no then
                   (case types yes of Some t \<Rightarrow> t | None \<Rightarrow> TDynamic)
                 else TDynamic))
      | Binary operator left right _ _ \<Rightarrow> binary_node_type types operator left right
      | Call name args _ _ \<Rightarrow> call_node_type types name args)"

definition type_visitor ::
  "(expr \<Rightarrow> etype option) \<Rightarrow> expr \<Rightarrow> thrown + (expr \<Rightarrow> etype option)" where
  "type_visitor types node = res_bind (node_type types node) (\<lambda>t. Inr (types(node \<mapsto> t)))"

definition checkExpressionTypes :: "expr \<Rightarrow> thrown + unit" where
  "checkExpressionTypes ast = res_bind (visitExpression type_visitor ast Map.empty) (\<lambda>_. Inr ())"

section \<open>The typing judgement\<close>

text \<open>The signatures of the functions, as a table from argument types to the result.\<close>

definition call_type :: "jsstr \<Rightarrow> etype list \<Rightarrow> etype option" where
  "call_type n ts =
     (if n \<in> {js ''param'', js ''u''} then (if fits (ts ! 0) TString then Some TDynamic else None)
      else if n = js ''header'' then (if fits (ts ! 0) TString then Some TString else None)
      else if n \<in> set TIME_FUNCTIONS then (if fits (ts ! 0) TString then Some TNumber else None)
      else if n = js ''has'' then (if fits (ts ! 1) TString then Some TBoolean else None)
      else if n = js ''tier'' then
        (if fits (ts ! 0) TString \<and> fits (ts ! 1) TNumber then Some TNumber else None)
      else (if \<forall>t\<in>set ts. fits t TNumber then Some TNumber else None))"

definition binary_type :: "jsstr \<Rightarrow> etype \<Rightarrow> etype \<Rightarrow> etype option" where
  "binary_type p a b =
     (if p \<in> set logical_operators then
        (if fits a TBoolean \<and> fits b TBoolean then Some TBoolean else None)
      else if p \<in> set comparison_operators then Some TBoolean
      else if p = js ''+'' \<and> a = TString \<and> b = TString then Some TString
      else if fits a TNumber \<and> fits b TNumber then Some TNumber else None)"

inductive typed :: "expr \<Rightarrow> etype \<Rightarrow> bool" where
  typed_literal: "typed (Literal l i s e) (lit_type l)"
| typed_variable: "typed (Variable n s e) TNumber"
| typed_not: "typed x t \<Longrightarrow> fits t TBoolean \<Longrightarrow> typed (Unary (js ''!'') x s e) TBoolean"
| typed_sign: "p \<noteq> js ''!'' \<Longrightarrow> typed x t \<Longrightarrow> fits t TNumber \<Longrightarrow> typed (Unary p x s e) TNumber"
| typed_conditional:
    "typed c t \<Longrightarrow> fits t TBoolean \<Longrightarrow> typed x a \<Longrightarrow> typed y b \<Longrightarrow>
     typed (Conditional c x y s e) (if a = b then a else TDynamic)"
| typed_binary:
    "typed x a \<Longrightarrow> typed y b \<Longrightarrow> binary_type p a b = Some t \<Longrightarrow> typed (Binary p x y s e) t"
| typed_call: "list_all2 typed as ts \<Longrightarrow> call_type n ts = Some t \<Longrightarrow> typed (Call n as s e) t"

inductive_simps typed_simps [simp]:
  "typed (Literal l i s e) t" "typed (Variable n s e) t" "typed (Unary p x s e) t"
  "typed (Conditional c x y s e) t" "typed (Binary p x y s e) t" "typed (Call n as s e) t"

lemma typed_determined: "typed e t \<Longrightarrow> typed e u \<Longrightarrow> t = u"
proof (induction arbitrary: u rule: typed.induct)
  case (typed_call as ts n t s e)
  then obtain us where us: "list_all2 typed as us" "call_type n us = Some u" by auto
  have "ts = us"
    using typed_call.IH us(1) by (auto simp: list_all2_conv_all_nth intro: nth_equalityI)
  then show ?case using typed_call us by simp
next
  case (typed_conditional c t x a y b s e)
  then show ?case by (metis typed_simps(4))
next
  case (typed_binary x a y b p t s e)
  then show ?case by (metis typed_simps(5) option.inject)
next
  case (typed_not x t s e)
  from typed_not.prems show ?case by simp
next
  case (typed_sign p x t s e)
  from typed_sign.prems typed_sign.hyps(1) show ?case by simp
qed simp_all

lemma typed_children: "typed e t \<Longrightarrow> c \<in> set (children e) \<Longrightarrow> \<exists>u. typed c u"
  by (cases e) (auto simp: list_all2_conv_all_nth in_set_conv_nth)

lemma typed_postorder: "typed e t \<Longrightarrow> n \<in> set (postorder e) \<Longrightarrow> \<exists>u. typed n u"
proof (induction e arbitrary: t rule: expr_children_induct)
  case (node e)
  show ?case
    using node.prems(2) by (subst (asm) postorder_children) (use node typed_children in force)
qed

text \<open>A table of types is right when every entry is derivable.\<close>

definition types_ok :: "(expr \<Rightarrow> etype option) \<Rightarrow> bool" where
  "types_ok types \<longleftrightarrow> (\<forall>n t. types n = Some t \<longrightarrow> typed n t)"

lemma requireType_Inr:
  "types c = Some t \<Longrightarrow> requireType types c u = Inr () \<longleftrightarrow> fits t u"
  by (auto simp: requireType_def fits_def bill_error_def)

lemma require_arg_Inr:
  "i < length args \<Longrightarrow> types (args ! i) = Some t \<Longrightarrow> require_arg types args i u = Inr () \<longleftrightarrow> fits t u"
  by (simp add: require_arg_def requireType_Inr)

lemma unit_bind_Inr: "res_bind (m :: thrown + unit) f = Inr x \<longleftrightarrow> m = Inr () \<and> f () = Inr x"
  by (auto simp: res_simps)

lemma require_all_Inr:
  "list_all2 (\<lambda>a t. types a = Some t) args ts \<Longrightarrow>
   fold_res (\<lambda>_ arg. requireType types arg u) args () = Inr () \<longleftrightarrow> (\<forall>t\<in>set ts. fits t u)"
  by (induction args arbitrary: ts) (auto simp: list_all2_Cons1 unit_bind_Inr requireType_Inr)

lemma call_arity:
  assumes "map_of BILLING_FUNCTIONS n = Some k"
  shows "k \<in> {1, 2} \<and> (n \<in> {js ''tier'', js ''has''} \<longrightarrow> k = 2)"
  using assms by (auto simp: BILLING_FUNCTIONS_def split: if_splits)

lemma call_names:
  assumes "map_of BILLING_FUNCTIONS n = Some k"
  shows "n \<in> {js ''tier'', js ''has'', js ''header'', js ''param'', js ''u''} \<union> set TIME_FUNCTIONS \<union>
    set arithmetic_functions"
  using assms by (auto simp: BILLING_FUNCTIONS_def TIME_FUNCTIONS_def arithmetic_functions_def split: if_splits)

lemma call_node_type_iff:
  assumes ts: "list_all2 (\<lambda>a t. types a = Some t) args ts"
    and arity: "map_of BILLING_FUNCTIONS n = Some (length args)"
  shows "call_node_type types n args = Inr t \<longleftrightarrow> call_type n ts = Some t"
proof -
  have a0: "require_arg types args 0 u = Inr () \<longleftrightarrow> fits (ts ! 0) u" for u
    using ts call_arity [OF arity] by (intro require_arg_Inr) (auto simp: list_all2_conv_all_nth)
  have a1: "require_arg types args 1 u = Inr () \<longleftrightarrow> fits (ts ! 1) u" if "n \<in> {js ''tier'', js ''has''}" for u
    using ts that call_arity [OF arity] by (intro require_arg_Inr) (auto simp: list_all2_conv_all_nth)
  consider "n \<in> {js ''tier'', js ''has''}" | "n \<in> {js ''header'', js ''param'', js ''u''}"
    | "n \<in> set TIME_FUNCTIONS" | "n \<in> set arithmetic_functions"
    using call_names [OF arity] by blast
  then show ?thesis
  proof cases
    case 1
    note a1' = a1 [OF 1]
    from 1 show ?thesis
      by (elim insertE emptyE)
         (simp_all add: a0 a1' [simplified] call_node_type_def call_type_def unit_bind_Inr
            string_key_functions_def TIME_FUNCTIONS_def arithmetic_functions_def, blast)
  next
    case 2
    then show ?thesis
      by (elim insertE emptyE)
         (simp_all add: a0 call_node_type_def call_type_def unit_bind_Inr
            string_key_functions_def TIME_FUNCTIONS_def arithmetic_functions_def)
  next
    case 3
    then have "n \<in> {js ''hour'', js ''minute'', js ''weekday'', js ''month'', js ''day''}"
      by (simp add: TIME_FUNCTIONS_def)
    then show ?thesis
      by (elim insertE emptyE)
         (simp_all add: a0 call_node_type_def call_type_def unit_bind_Inr
            string_key_functions_def TIME_FUNCTIONS_def arithmetic_functions_def)
  next
    case 4
    then have "n \<in> {js ''fixed'', js ''min'', js ''max'', js ''abs'', js ''ceil'', js ''floor''}"
      by (simp add: arithmetic_functions_def)
    then show ?thesis
      by (elim insertE emptyE)
         (simp_all add: require_all_Inr [OF ts, of TNumber] call_node_type_def call_type_def
            unit_bind_Inr string_key_functions_def TIME_FUNCTIONS_def arithmetic_functions_def)
  qed
qed

lemma node_type_iff:
  assumes ok: "types_ok types" and known: "\<forall>c\<in>set (children n). types c \<noteq> None" and "node_ok n"
  shows "node_type types n = Inr t \<longleftrightarrow> typed n t"
proof -
  have child: "(typed c u \<longleftrightarrow> types c = Some u)" if "c \<in> set (children n)" for c u
    using ok known that typed_determined by (fastforce simp: types_ok_def)
  have ex: "\<exists>u. types c = Some u" if "c \<in> set (children n)" for c
    using known that by auto
  show ?thesis
  proof (cases n)
    case (Unary p x s e)
    then show ?thesis
      using child ex [of x] by (auto simp: node_type_def unit_bind_Inr requireType_Inr)
  next
    case (Conditional c x y s e)
    then obtain a b d where "types c = Some a" "types x = Some b" "types y = Some d"
      using ex by (metis children.simps(6) list.set_intros)
    then show ?thesis
      using child Conditional by (auto simp: node_type_def unit_bind_Inr requireType_Inr)
  next
    case (Binary p x y s e)
    then obtain a b where "types x = Some a" "types y = Some b"
      using ex by (metis children.simps(5) list.set_intros)
    then show ?thesis
      using child Binary
      by (auto simp: node_type_def binary_node_type_def binary_type_def unit_bind_Inr requireType_Inr)
  next
    case (Call f args s e)
    let ?ts = "map (\<lambda>a. the (types a)) args"
    have ts: "list_all2 (\<lambda>a t. types a = Some t) args ?ts"
      using ex Call by (auto simp: list_all2_conv_all_nth)
    have "list_all2 typed args us \<longleftrightarrow> us = ?ts" for us
      using child ts Call by (fastforce simp: list_all2_conv_all_nth intro: nth_equalityI)
    then show ?thesis
      using call_node_type_iff [OF ts] Call assms(3) by (simp add: node_type_def)
  qed (auto simp: node_type_def)
qed

lemma types_ok_update: "types_ok types \<Longrightarrow> typed n t \<Longrightarrow> types_ok (types(n \<mapsto> t))"
  by (simp add: types_ok_def)

lemma type_visitor_children:
  assumes "types_ok types" and "\<forall>c\<in>set (children n). types c \<noteq> None" and "node_ok n"
  shows "type_visitor types n = Inr types' \<longleftrightarrow> (\<exists>t. typed n t \<and> types' = types(n \<mapsto> t))"
  using node_type_iff [OF assms] by (auto simp: type_visitor_def res_simps)

text \<open>A list in which every node comes after its children, the nodes of \<open>K\<close> apart.\<close>

fun children_first :: "expr set \<Rightarrow> expr list \<Rightarrow> bool" where
  "children_first K [] \<longleftrightarrow> True"
| "children_first K (n # ns) \<longleftrightarrow> set (children n) \<subseteq> K \<and> children_first (insert n K) ns"

lemma children_first_append:
  "children_first K (xs @ ys) \<longleftrightarrow> children_first K xs \<and> children_first (K \<union> set xs) ys"
  by (induction xs arbitrary: K) auto

lemma postorder_self: "e \<in> set (postorder e)"
  by (subst postorder_children) simp

lemma children_first_postorder: "children_first K (postorder e)"
proof (induction e arbitrary: K rule: expr_children_induct)
  case (node e)
  have many: "set xs \<subseteq> set (children e) \<Longrightarrow> children_first K' (concat (map postorder xs))" for xs K'
    by (induction xs arbitrary: K') (auto simp: children_first_append node.IH)
  have "set (children e) \<subseteq> set (concat (map postorder (children e)))"
    using postorder_self by auto
  then show ?case
    by (subst postorder_children) (simp add: children_first_append many le_supI2 del: set_concat)
qed

lemma type_visitor_fold:
  assumes "types_ok types" "children_first (dom types) ns" "\<forall>n\<in>set ns. node_ok n"
  shows "is_ok (fold_res type_visitor ns types) \<longleftrightarrow> (\<forall>n\<in>set ns. \<exists>t. typed n t)"
  using assms
proof (induction ns arbitrary: types)
  case Nil
  then show ?case by simp
next
  case (Cons n ns)
  have step: "type_visitor types n = Inr types' \<longleftrightarrow> (\<exists>t. typed n t \<and> types' = types(n \<mapsto> t))" for types'
    using Cons.prems by (intro type_visitor_children) auto
  show ?case
  proof (cases "\<exists>t. typed n t")
    case True
    then obtain t where t: "typed n t" by blast
    then have "type_visitor types n = Inr (types(n \<mapsto> t))"
      using step by blast
    then have "is_ok (fold_res type_visitor (n # ns) types) \<longleftrightarrow>
        is_ok (fold_res type_visitor ns (types(n \<mapsto> t)))"
      by simp
    also have "\<dots> \<longleftrightarrow> (\<forall>n\<in>set ns. \<exists>t. typed n t)"
    proof (rule Cons.IH [OF types_ok_update [OF Cons.prems(1) t]])
      show "children_first (dom (types(n \<mapsto> t))) ns" using Cons.prems(2) by simp
      show "\<forall>n\<in>set ns. node_ok n" using Cons.prems(3) by simp
    qed
    finally show ?thesis using True by simp
  next
    case False
    then have "\<nexists>types'. type_visitor types n = Inr types'" using step by blast
    then show ?thesis using False by (cases "type_visitor types n") auto
  qed
qed

text \<open>The checker accepts a tree exactly when the judgement types it.\<close>

theorem checkExpressionTypes_iff:
  assumes "tree_ok e"
  shows "checkExpressionTypes e = Inr () \<longleftrightarrow> height e \<le> 256 \<and> (\<exists>t. typed e t)"
proof -
  have "checkExpressionTypes e = Inr () \<longleftrightarrow>
      height e \<le> 256 \<and> is_ok (fold_res type_visitor (postorder e) Map.empty)"
    by (auto simp: checkExpressionTypes_def res_simps visitExpression_Inr is_ok_iff)
  also have "is_ok (fold_res type_visitor (postorder e) Map.empty) \<longleftrightarrow>
      (\<forall>n\<in>set (postorder e). \<exists>t. typed n t)"
    using assms children_first_postorder
    by (intro type_visitor_fold) (auto simp: types_ok_def tree_ok_def)
  also have "\<dots> \<longleftrightarrow> (\<exists>t. typed e t)"
    using typed_postorder postorder_self by blast
  finally show ?thesis .
qed

section \<open>Fixed-price trees\<close>

definition containsPricingMarker :: "expr \<Rightarrow> thrown + bool" where
  "containsPricingMarker node =
     res_bind (expressionDependencies node) (\<lambda>(_, calls).
       Inr (js ''tier'' \<in> set calls \<or> js ''fixed'' \<in> set calls))"

definition fixed_tree_error :: "nat \<Rightarrow> thrown + unit" where
  "fixed_tree_error position =
     bill_error Type_error
       (js ''Use tier(name, fixed(amount)) with a finite, non-negative numeric literal; '' @
        js ''combine pricing branches only with conditions and request multipliers.'')
       (Some position)"

text \<open>Whether a factor of a product may multiply a price: the image count, or a request
  rule found by node identity whose multiplier is not negative and whose condition holds
  no pricing marker.\<close>

definition is_image_count :: "expr \<Rightarrow> bool" where
  "is_image_count factor = (case factor of Variable n _ _ \<Rightarrow> n = js ''image_count'' | _ \<Rightarrow> False)"

definition factor_accepted :: "rule_site list \<Rightarrow> expr \<Rightarrow> thrown + bool" where
  "factor_accepted rules factor =
     (if is_image_count factor then Inr True
      else
        case find (\<lambda>candidate. rnode candidate = factor) rules of
          None \<Rightarrow> Inr False
        | Some rule \<Rightarrow>
            if le_num (Fin 0) (smultiplier rule) then
              res_bind (containsPricingMarker (rcondition rule)) (\<lambda>m. Inr (\<not> m))
            else Inr False)"

definition tier_leaf :: "expr list \<Rightarrow> nat \<Rightarrow> thrown + unit" where
  "tier_leaf args position =
     res_bind (containsPricingMarker (args ! 0)) (\<lambda>marked.
       if marked then fixed_tree_error position
       else
         case args ! 1 of
           Call n as _ _ \<Rightarrow>
             if n = js ''fixed'' then
               (case as ! 0 of
                  Literal (LNum amount) _ _ _ \<Rightarrow>
                    if le_num (Fin 0) amount \<and> is_finite (mul_num amount (Fin 1000000))
                    then Inr () else fixed_tree_error position
                | _ \<Rightarrow> fixed_tree_error position)
             else
               res_bind (containsPricingMarker (args ! 1)) (\<lambda>m.
                 if m then fixed_tree_error position else Inr ())
         | _ \<Rightarrow>
             res_bind (containsPricingMarker (args ! 1)) (\<lambda>m.
               if m then fixed_tree_error position else Inr ()))"

fun validateFixedPricingTree :: "rule_site list \<Rightarrow> expr \<Rightarrow> thrown + unit" where
  "validateFixedPricingTree rules (Conditional condition yes no s e) =
     res_bind (containsPricingMarker condition) (\<lambda>marked.
       if marked then fixed_tree_error s
       else
         res_bind (validateFixedPricingTree rules yes) (\<lambda>_.
           validateFixedPricingTree rules no))"
| "validateFixedPricingTree rules (Binary operator left right s e) =
     (if operator \<noteq> js ''*'' then fixed_tree_error s
      else
        res_bind (factor_accepted rules right) (\<lambda>accepted.
          if accepted then validateFixedPricingTree rules left
          else
            res_bind (factor_accepted rules left) (\<lambda>accepted.
              if accepted then validateFixedPricingTree rules right
              else fixed_tree_error s)))"
| "validateFixedPricingTree rules (Call name args s e) =
     (if name = js ''tier'' then tier_leaf args s else fixed_tree_error s)"
| "validateFixedPricingTree rules node = fixed_tree_error (estart node)"

section \<open>Compilation\<close>

definition parse_billing :: "jsstr \<Rightarrow> thrown + expr" where
  "parse_billing source =
     (case parse_source source of
        Inr ast \<Rightarrow> Inr ast
      | Inl (Thrown e) \<Rightarrow> Inl e
      | Inl Out_of_fuel \<Rightarrow> Inl (OtherError []))"

definition request_functions :: "jsstr list" where
  "request_functions = map js [''param'', ''header''] @ TIME_FUNCTIONS"

definition rule_visitor :: "jsstr \<Rightarrow> rule_site list \<Rightarrow> expr \<Rightarrow> thrown + rule_site list" where
  "rule_visitor source rules node =
     (case node of
        Conditional condition (Literal (LNum m) _ _ _) (Literal (LNum one) _ _ _) _ _ \<Rightarrow>
          if eq_num one (Fin 1) then
            res_bind (expressionDependencies condition) (\<lambda>(_, calls).
              if \<exists>name\<in>set calls. name \<in> set request_functions then
                Inr (rules @ [\<lparr>rnode = node, rcondition = condition, smultiplier = m,
                  scond = slice source (estart condition) (eend condition)\<rparr>])
              else Inr rules)
          else Inr rules
      | _ \<Rightarrow> Inr rules)"

definition compile_parsed :: "jsstr \<Rightarrow> thrown + compiled" where
  "compile_parsed source =
     res_bind (parse_billing source) (\<lambda>ast.
     res_bind (checkExpressionTypes ast) (\<lambda>_.
     res_bind (expressionDependencies ast) (\<lambda>(variables, functions).
     res_bind (visitExpression (rule_visitor source) ast []) (\<lambda>rules.
     res_bind (if js ''fixed'' \<in> set functions then validateFixedPricingTree rules ast else Inr ())
       (\<lambda>_.
       Inr \<lparr>csource = source, cast = ast, cvariables = variables, cfunctions = functions,
            crules = rules\<rparr>)))))"

type_synonym compilation_result = "expression_failure + compiled"

definition compile_fresh :: "jsstr \<Rightarrow> compilation_result" where
  "compile_fresh source =
     (case compile_parsed source of
        Inl error \<Rightarrow> Inl (expressionFailure error)
      | Inr compiled \<Rightarrow> Inr compiled)"

text \<open>The module-level cache, oldest entry first.\<close>

type_synonym compile_cache = "(jsstr \<times> compilation_result) list"

definition compileBillingExpression ::
  "jsstr \<Rightarrow> compile_cache \<Rightarrow> compilation_result \<times> compile_cache" where
  "compileBillingExpression source cache =
     (case map_of cache source of
        Some cached \<Rightarrow> (cached, cache)
      | None \<Rightarrow>
          let result = compile_fresh source;
              cache' =
                (if 128 \<le> length cache then
                   (case cache of (oldest, _) # _ \<Rightarrow> omap_delete oldest cache | [] \<Rightarrow> cache)
                 else cache)
          in (result, omap_set source result cache'))"

section \<open>Dependencies and request rules\<close>

definition vars_of :: "expr \<Rightarrow> jsstr set" where
  "vars_of e = {n. \<exists>s t. Variable n s t \<in> set (postorder e)}"

definition calls_of :: "expr \<Rightarrow> jsstr set" where
  "calls_of e = {n. \<exists>as s t. Call n as s t \<in> set (postorder e)}"

lemma dependency_fold:
  "\<exists>vs fs. fold_res dependency_visitor ns (vs0, fs0) = Inr (vs, fs) \<and>
     set vs = set vs0 \<union> {n. \<exists>s t. Variable n s t \<in> set ns} \<and>
     set fs = set fs0 \<union> {n. \<exists>as s t. Call n as s t \<in> set ns} \<and>
     (distinct vs0 \<longrightarrow> distinct vs) \<and> (distinct fs0 \<longrightarrow> distinct fs)"
proof (induction ns arbitrary: vs0 fs0)
  case Nil
  then show ?case by simp
next
  case (Cons x ns)
  obtain vs1 fs1 where d: "dependency_visitor (vs0, fs0) x = Inr (vs1, fs1)"
      and v: "set vs1 = set vs0 \<union> {n. \<exists>s t. x = Variable n s t}"
      and f: "set fs1 = set fs0 \<union> {n. \<exists>as s t. x = Call n as s t}"
      and dist: "distinct vs0 \<longrightarrow> distinct vs1" "distinct fs0 \<longrightarrow> distinct fs1"
    by (cases x) (auto simp: dependency_visitor_def distinct_set_add)
  obtain vs fs where r: "fold_res dependency_visitor ns (vs1, fs1) = Inr (vs, fs)"
      and vs: "set vs = set vs1 \<union> {n. \<exists>s t. Variable n s t \<in> set ns}"
      and fs: "set fs = set fs1 \<union> {n. \<exists>as s t. Call n as s t \<in> set ns}"
      and dist': "distinct vs1 \<longrightarrow> distinct vs" "distinct fs1 \<longrightarrow> distinct fs"
    using Cons.IH [of vs1 fs1] by blast
  have "set vs = set vs0 \<union> {n. \<exists>s t. Variable n s t \<in> set (x # ns)}"
    unfolding vs v by auto
  moreover have "set fs = set fs0 \<union> {n. \<exists>as s t. Call n as s t \<in> set (x # ns)}"
    unfolding fs f by auto
  moreover have "fold_res dependency_visitor (x # ns) (vs0, fs0) = Inr (vs, fs)"
    using d r by simp
  ultimately show ?case using dist dist' by blast
qed

lemma expressionDependencies_spec:
  assumes "height e \<le> 256"
  shows "\<exists>vs fs. expressionDependencies e = Inr (vs, fs) \<and> set vs = vars_of e \<and> set fs = calls_of e \<and>
    distinct vs \<and> distinct fs"
  using dependency_fold [of "postorder e" "[]" "[]"] assms
  by (auto simp: expressionDependencies_def visitExpression_within vars_of_def calls_of_def)

definition marked :: "expr \<Rightarrow> bool" where
  "marked e \<longleftrightarrow> js ''tier'' \<in> calls_of e \<or> js ''fixed'' \<in> calls_of e"

lemma containsPricingMarker_spec: "height e \<le> 256 \<Longrightarrow> containsPricingMarker e = Inr (marked e)"
  using expressionDependencies_spec [of e] by (auto simp: containsPricingMarker_def marked_def)

text \<open>The request rule a node stands for, if any.\<close>

definition rule_of :: "jsstr \<Rightarrow> expr \<Rightarrow> rule_site option" where
  "rule_of source node =
     (case node of
        Conditional c (Literal (LNum m) _ _ _) (Literal (LNum one) _ _ _) _ _ \<Rightarrow>
          if eq_num one (Fin 1) \<and> calls_of c \<inter> set request_functions \<noteq> {} then
            Some \<lparr>rnode = node, rcondition = c, smultiplier = m,
                  scond = slice source (estart c) (eend c)\<rparr>
          else None
      | _ \<Rightarrow> None)"

lemma height_child: "c \<in> set (children e) \<Longrightarrow> height c < height e"
  using height_le_iff [of 0 e "height e"] by auto

lemma postorder_cases:
  assumes "n \<in> set (postorder e)"
  obtains "n = e" | c where "c \<in> set (children e)" "n \<in> set (postorder c)"
  using assms by (subst (asm) postorder_children) auto

lemma height_postorder: "n \<in> set (postorder e) \<Longrightarrow> height n \<le> height e"
proof (induction e rule: expr_children_induct)
  case (node e)
  from node.prems show ?case
  proof (rule postorder_cases)
    fix c assume c: "c \<in> set (children e)" "n \<in> set (postorder c)"
    then show "height n \<le> height e" using node.IH [OF c] height_child [OF c(1)] by linarith
  qed simp
qed

lemma rule_visitor_spec:
  assumes "height n \<le> 256"
  shows "rule_visitor source rules n =
    Inr (rules @ (case rule_of source n of None \<Rightarrow> [] | Some r \<Rightarrow> [r]))"
proof (cases n)
  case (Conditional c x y s t)
  have "height c \<le> 256" using assms height_child [of c n] Conditional by simp
  then obtain vs fs where "expressionDependencies c = Inr (vs, fs)" "set fs = calls_of c"
    using expressionDependencies_spec by blast
  then show ?thesis
    using Conditional
    by (auto simp: rule_visitor_def rule_of_def split: expr.splits lit.splits)
qed (auto simp: rule_visitor_def rule_of_def)

lemma rule_visitor_fold:
  "\<forall>n\<in>set ns. height n \<le> 256 \<Longrightarrow>
   fold_res (rule_visitor source) ns rules = Inr (rules @ List.map_filter (rule_of source) ns)"
  by (induction ns arbitrary: rules)
     (auto simp: rule_visitor_spec map_filter_simps split: option.splits)

lemma rule_collection:
  "height e \<le> 256 \<Longrightarrow>
   visitExpression (rule_visitor source) e [] = Inr (List.map_filter (rule_of source) (postorder e))"
  using height_postorder [of _ e] rule_visitor_fold [of "postorder e" source "[]"]
  by (force simp: visitExpression_within)

section \<open>Node identity\<close>

text \<open>Positions identify nodes: two nodes of a parsed tree never have the same span.\<close>

definition node_span :: "expr \<Rightarrow> nat \<times> nat" where
  "node_span e = (estart e, eend e)"

lemma well_spanned_child:
  "well_spanned e \<Longrightarrow> c \<in> set (children e) \<Longrightarrow>
   well_spanned c \<and> estart e \<le> estart c \<and> eend c \<le> eend e \<and> eend c - estart c < eend e - estart e"
proof -
  assume e: "well_spanned e" and c: "c \<in> set (children e)"
  have w: "\<forall>c\<in>set (children e). estart c \<le> eend c" "ordered_in (estart e) (children e) (eend e)"
      "well_spanned c" "eend c - estart c < eend e - estart e"
    using e c well_spanned_width by (subst (asm) well_spanned_iff, force)+
  then show ?thesis using ordered_in_bounds [OF w(2,1) c] by simp
qed

lemma well_spanned_inside:
  "well_spanned e \<Longrightarrow> n \<in> set (postorder e) \<Longrightarrow>
   estart e \<le> estart n \<and> eend n \<le> eend e \<and> estart n < eend n \<and> eend n - estart n \<le> eend e - estart e"
proof (induction e rule: expr_children_induct)
  case (node e)
  from node.prems(2) show ?case
  proof (rule postorder_cases)
    assume "n = e"
    then show ?thesis using well_spanned_width [OF node.prems(1)] by simp
  next
    fix c assume c: "c \<in> set (children e)" "n \<in> set (postorder c)"
    then show ?thesis
      using node.IH [OF c(1)] well_spanned_child [OF node.prems(1) c(1)] by fastforce
  qed
qed

lemma distinct_spans_siblings:
  "ordered_in lo cs hi \<Longrightarrow> \<forall>c\<in>set cs. well_spanned c \<Longrightarrow> \<forall>c\<in>set cs. distinct (map node_span (postorder c)) \<Longrightarrow>
   distinct (map node_span (concat (map postorder cs))) \<and> (\<forall>n\<in>set (concat (map postorder cs)). lo \<le> estart n)"
proof (induction cs arbitrary: lo)
  case Nil
  then show ?case by simp
next
  case (Cons c cs)
  have c: "well_spanned c" "lo \<le> estart c" using Cons.prems by auto
  have rest: "distinct (map node_span (concat (map postorder cs)))"
      "\<forall>n\<in>set (concat (map postorder cs)). eend c \<le> estart n"
    using Cons by auto
  have here: "estart c \<le> estart n \<and> estart n < eend c" if "n \<in> set (postorder c)" for n
    using well_spanned_inside [OF c(1) that] by linarith
  have "node_span n \<noteq> node_span m" if "n \<in> set (postorder c)" "m \<in> set (concat (map postorder cs))" for n m
    using here [OF that(1)] rest(2) that(2) by (fastforce simp: node_span_def)
  then have "node_span ` set (postorder c) \<inter> node_span ` set (concat (map postorder cs)) = {}" by blast
  then show ?case
    using rest here c Cons.prems(3) well_spanned_width [OF c(1)] by fastforce
qed

lemma well_spanned_distinct: "well_spanned e \<Longrightarrow> distinct (map node_span (postorder e))"
proof (induction e rule: expr_children_induct)
  case (node e)
  have cs: "\<forall>c\<in>set (children e). well_spanned c" "ordered_in (estart e) (children e) (eend e)"
    using node.prems by (subst (asm) well_spanned_iff, blast)+
  have d: "distinct (map node_span (concat (map postorder (children e))))"
    using distinct_spans_siblings [OF cs(2,1)] node.IH cs(1) by blast
  have "node_span n \<noteq> node_span e" if "c \<in> set (children e)" "n \<in> set (postorder c)" for c n
    using well_spanned_inside [OF _ that(2)] well_spanned_child [OF node.prems that(1)]
    by (auto simp: node_span_def)
  then have "\<forall>n\<in>set (concat (map postorder (children e))). node_span n \<noteq> node_span e" by auto
  then have "node_span e \<notin> node_span ` set (concat (map postorder (children e)))" by (metis imageE)
  then show ?case using d by (subst postorder_children) simp
qed
section \<open>What a compiled expression guarantees\<close>

text \<open>The trees that may carry a fixed price: conditions without markers choose between
  them, the image count or a non-negative request rule multiplies them, and a leaf is a
  tier that either names one finite non-negative amount or holds no marker.\<close>

definition fixed_amount :: "expr \<Rightarrow> bool" where
  "fixed_amount e \<longleftrightarrow> (\<exists>n i s t. e = Literal (LNum n) i s t \<and> le_num (Fin 0) n \<and>
     is_finite (mul_num n (Fin 1000000)))"

definition price_factor :: "rule_site list \<Rightarrow> expr \<Rightarrow> bool" where
  "price_factor rules e \<longleftrightarrow> is_image_count e \<or>
     (\<exists>r. find (\<lambda>r. rnode r = e) rules = Some r \<and> le_num (Fin 0) (smultiplier r) \<and>
        \<not> marked (rcondition r))"

inductive fixed_tree :: "rule_site list \<Rightarrow> expr \<Rightarrow> bool" for rules where
  fixed_branch: "\<not> marked c \<Longrightarrow> fixed_tree rules x \<Longrightarrow> fixed_tree rules y \<Longrightarrow>
    fixed_tree rules (Conditional c x y s e)"
| fixed_right: "price_factor rules r \<Longrightarrow> fixed_tree rules l \<Longrightarrow>
    fixed_tree rules (Binary (js ''*'') l r s e)"
| fixed_left: "price_factor rules l \<Longrightarrow> fixed_tree rules r \<Longrightarrow>
    fixed_tree rules (Binary (js ''*'') l r s e)"
| fixed_price: "\<not> marked n \<Longrightarrow> fixed_amount a \<Longrightarrow>
    fixed_tree rules (Call (js ''tier'') [n, Call (js ''fixed'') [a] s' e'] s e)"
| fixed_token: "\<not> marked n \<Longrightarrow> \<not> marked p \<Longrightarrow> fixed_tree rules (Call (js ''tier'') [n, p] s e)"

lemma fixed_tree_error_not_ok [simp]: "fixed_tree_error p \<noteq> Inr ()"
  by (simp add: fixed_tree_error_def bill_error_def)

lemma factor_accepted_spec:
  assumes "\<forall>r\<in>set rules. height (rcondition r) \<le> 256"
  shows "factor_accepted rules f = Inr (price_factor rules f)"
proof -
  have "height (rcondition r) \<le> 256" if "find (\<lambda>r. rnode r = f) rules = Some r" for r
    using that assms by (auto simp: find_Some_iff)
  then show ?thesis
    by (auto simp: factor_accepted_def price_factor_def containsPricingMarker_spec split: option.splits)
qed

lemma arity_two: "node_ok (Call (js ''tier'') args s e) \<Longrightarrow> \<exists>n p. args = [n, p]"
  by (cases args; cases "tl args") (auto simp: BILLING_FUNCTIONS_def)

lemma arity_one: "node_ok (Call (js ''fixed'') args s e) \<Longrightarrow> \<exists>a. args = [a]"
  by (cases args) (auto simp: BILLING_FUNCTIONS_def)

lemma tier_leaf_spec:
  assumes h: "height (Call (js ''tier'') args s e) \<le> 256" and ok: "tree_ok (Call (js ''tier'') args s e)"
    and v: "tier_leaf args s = Inr ()"
  shows "fixed_tree rules (Call (js ''tier'') args s e)"
proof -
  obtain n p where args: "args = [n, p]"
    using ok arity_two tree_ok_iff by blast
  have hn: "containsPricingMarker n = Inr (marked n)" and hp: "containsPricingMarker p = Inr (marked p)"
    using h args by (auto intro!: containsPricingMarker_spec)
  have n: "\<not> marked n" using v args hn by (auto simp: tier_leaf_def split: if_splits)
  show ?thesis
  proof (cases "\<exists>as s' e'. p = Call (js ''fixed'') as s' e'")
    case True
    then obtain as s' e' where p: "p = Call (js ''fixed'') as s' e'" by blast
    have "tree_ok p" using ok args tree_ok_iff [of "Call (js ''tier'') args s e"] by simp
    then obtain a where a: "as = [a]"
      using p arity_one tree_ok_iff by blast
    have "fixed_amount a"
      using v args hn p a n
      by (auto simp: tier_leaf_def fixed_amount_def split: expr.splits lit.splits if_splits)
    then show ?thesis using n args p a by (auto intro: fixed_price)
  next
    case False
    then have "\<not> marked p"
      using v args hn hp n by (auto simp: tier_leaf_def split: expr.splits if_splits)
    then show ?thesis using n args by (auto intro: fixed_token)
  qed
qed

inductive_simps fixed_tree_simps:
  "fixed_tree rules (Literal l i s e)" "fixed_tree rules (Variable n s e)"
  "fixed_tree rules (Unary p x s e)" "fixed_tree rules (Binary p x y s e)"
  "fixed_tree rules (Conditional c x y s e)" "fixed_tree rules (Call n as s e)"

text \<open>Rules as the compiler collects them.\<close>

definition rules_ok :: "jsstr \<Rightarrow> rule_site list \<Rightarrow> bool" where
  "rules_ok source rules \<longleftrightarrow>
     (\<forall>r\<in>set rules. rule_of source (rnode r) = Some r \<and> height (rcondition r) \<le> 256)"

lemma price_factor_not_tree:
  assumes "rules_ok source rules" "price_factor rules f"
  shows "\<not> fixed_tree rules f"
proof (cases "is_image_count f")
  case True
  then show ?thesis by (auto simp: is_image_count_def fixed_tree_simps split: expr.splits)
next
  case False
  then obtain r where "r \<in> set rules" "rnode r = f"
    using assms(2) by (auto simp: price_factor_def find_Some_iff intro: nth_mem)
  then have "rule_of source f = Some r" using assms(1) by (auto simp: rules_ok_def)
  then show ?thesis by (auto simp: rule_of_def fixed_tree_simps split: expr.splits lit.splits)
qed

lemma tier_leaf_complete:
  assumes h: "height (Call (js ''tier'') args s e) \<le> 256"
    and v: "fixed_tree rules (Call (js ''tier'') args s e)"
  shows "tier_leaf args s = Inr ()"
proof -
  obtain n p where args: "args = [n, p]"
    using v by (auto simp: fixed_tree_simps)
  have m: "containsPricingMarker n = Inr (marked n)" "containsPricingMarker p = Inr (marked p)"
    using h args by (auto intro!: containsPricingMarker_spec)
  have "marked (Call (js ''fixed'') as s' e')" for as s' e'
    by (simp add: marked_def calls_of_def) blast
  then show ?thesis
    using v args m
    by (auto simp: fixed_tree_simps tier_leaf_def fixed_amount_def split: expr.splits)
qed

lemma validateFixedPricingTree_iff:
  "rules_ok source rules \<Longrightarrow> height e \<le> 256 \<Longrightarrow> tree_ok e \<Longrightarrow>
   validateFixedPricingTree rules e = Inr () \<longleftrightarrow> fixed_tree rules e"
proof (induction e)
  case (Conditional c x y s e)
  then show ?case
    using tree_ok_iff [of "Conditional c x y s e"] containsPricingMarker_spec [of c]
    by (simp add: unit_bind_Inr fixed_tree_simps)
next
  case (Binary p l r s e)
  have f: "factor_accepted rules q = Inr (price_factor rules q)" for q
    using Binary.prems by (intro factor_accepted_spec) (auto simp: rules_ok_def)
  have "tree_ok l" "tree_ok r"
    using Binary.prems(3) tree_ok_iff [of "Binary p l r s e"] by simp_all
  then show ?case
    using Binary price_factor_not_tree [OF Binary.prems(1)]
    by (auto simp: f fixed_tree_simps)
next
  case (Call n args s e)
  then show ?case
    using tier_leaf_spec [of args s e rules] tier_leaf_complete [of args s e rules]
    by (auto simp: fixed_tree_simps)
qed (simp_all add: fixed_tree_simps)

lemma map_filter_rules_ok:
  assumes "height e \<le> 256"
  shows "rules_ok source (List.map_filter (rule_of source) (postorder e))"
proof -
  have "rnode r = n \<and> rcondition r \<in> set (children n)" if "rule_of source n = Some r" for n r
    using that by (auto simp: rule_of_def split: expr.splits lit.splits if_splits)
  then show ?thesis
    using assms height_postorder [of _ e] height_child
    by (fastforce simp: rules_ok_def List.map_filter_def)
qed

text \<open>What \<open>compileBillingExpression\<close> promises of a ready expression.\<close>

definition compiled_ok :: "compiled \<Rightarrow> bool" where
  "compiled_ok c \<longleftrightarrow>
     parse_source (csource c) = Inr (cast c) \<and> good (cast c) \<and> height (cast c) \<le> 256 \<and>
     (\<exists>t. typed (cast c) t) \<and> set (cvariables c) = vars_of (cast c) \<and>
     set (cfunctions c) = calls_of (cast c) \<and>
     crules c = List.map_filter (rule_of (csource c)) (postorder (cast c)) \<and>
     (js ''fixed'' \<in> calls_of (cast c) \<longrightarrow> fixed_tree (crules c) (cast c))"

lemma compile_parsed_Inr:
  assumes "compile_parsed source = Inr c"
  shows "csource c = source \<and> compiled_ok c"
proof -
  obtain ast vs fs rules where p: "parse_source source = Inr ast" and t: "checkExpressionTypes ast = Inr ()"
      and d: "expressionDependencies ast = Inr (vs, fs)"
      and r: "visitExpression (rule_visitor source) ast [] = Inr rules"
      and f: "js ''fixed'' \<in> set fs \<longrightarrow> validateFixedPricingTree rules ast = Inr ()"
      and c: "c = \<lparr>csource = source, cast = ast, cvariables = vs, cfunctions = fs, crules = rules\<rparr>"
    using assms
    by (auto simp: compile_parsed_def parse_billing_def res_simps split: sum.splits perr.splits if_splits)
  have g: "good ast" using parse_source_good [OF p] by simp
  then have h: "height ast \<le> 256" and ty: "\<exists>u. typed ast u"
    using checkExpressionTypes_iff [of ast] t by (auto simp: good_def)
  have rules: "rules = List.map_filter (rule_of source) (postorder ast)"
    using rule_collection [OF h, of source] r by simp
  have "fixed_tree rules ast" if "js ''fixed'' \<in> set fs"
    using f that validateFixedPricingTree_iff [of source rules ast] g h map_filter_rules_ok [OF h] rules
    by (simp add: good_def)
  then show ?thesis
    using p g h ty rules c expressionDependencies_spec [OF h] d by (simp add: compiled_ok_def)
qed

section \<open>The compile cache\<close>

text \<open>A memoised operation: what a table of earlier results may change of an operation's
  outcome is nothing, whatever was called before.\<close>

locale memo_table =
  fixes compute :: "'k \<Rightarrow> 'v" and call :: "'k \<Rightarrow> 'c \<Rightarrow> 'v \<times> 'c" and table_ok :: "'c \<Rightarrow> bool"
  assumes call_result: "table_ok c \<Longrightarrow> fst (call k c) = compute k"
    and call_keeps: "table_ok c \<Longrightarrow> table_ok (snd (call k c))"
begin

primrec call_all :: "'k list \<Rightarrow> 'c \<Rightarrow> 'v list \<times> 'c" where
  "call_all [] c = ([], c)"
| "call_all (k # ks) c =
     (let (v, c') = call k c; (vs, c'') = call_all ks c' in (v # vs, c''))"

lemma call_all_results: "table_ok c \<Longrightarrow> fst (call_all ks c) = map compute ks \<and> table_ok (snd (call_all ks c))"
proof (induction ks arbitrary: c)
  case Nil
  then show ?case by simp
next
  case (Cons k ks)
  then show ?case
    using call_result [of c k] call_keeps [of c k] Cons.IH [of "snd (call k c)"]
    by (simp add: case_prod_beta Let_def)
qed

end

definition cache_ok :: "compile_cache \<Rightarrow> bool" where
  "cache_ok cache \<longleftrightarrow> length cache \<le> 128 \<and> distinct (map fst cache) \<and>
     (\<forall>(source, result)\<in>set cache. result = compile_fresh source)"

lemma omap_delete_hd:
  assumes "distinct (map fst ((k, v) # m))"
  shows "omap_delete k ((k, v) # m) = m"
proof -
  have "\<forall>p\<in>set m. fst p \<noteq> k" using assms by force
  then show ?thesis by (simp add: omap_delete_def filter_id_conv case_prod_beta)
qed

lemma omap_set_new: "k \<notin> fst ` set m \<Longrightarrow> omap_set k v m = m @ [(k, v)]"
  by (induction m) auto

lemma compile_step:
  assumes "cache_ok cache"
  shows "compileBillingExpression source cache =
    (compile_fresh source,
     if source \<in> fst ` set cache then cache
     else (if length cache = 128 then tl cache else cache) @ [(source, compile_fresh source)])"
proof (cases "map_of cache source")
  case None
  then have new: "source \<notin> fst ` set cache" by (simp add: map_of_eq_None_iff)
  show ?thesis
  proof (cases "length cache = 128")
    case True
    then obtain k v m where c: "cache = (k, v) # m" by (cases cache) auto
    then have "omap_delete k cache = m" using assms by (auto simp: cache_ok_def omap_delete_hd)
    then show ?thesis
      using None True new c by (auto simp: compileBillingExpression_def Let_def omap_set_new)
  next
    case False
    then show ?thesis
      using None new assms
      by (auto simp: compileBillingExpression_def Let_def omap_set_new cache_ok_def)
  qed
next
  case (Some r)
  then have "(source, r) \<in> set cache" by (rule map_of_SomeD)
  then have "r = compile_fresh source" "source \<in> fst ` set cache"
    using assms by (auto simp: cache_ok_def intro: rev_image_eqI)
  then show ?thesis using Some by (simp add: compileBillingExpression_def)
qed

interpretation compile_memo: memo_table compile_fresh compileBillingExpression cache_ok
proof
  fix c k
  assume ok: "cache_ok c"
  show "fst (compileBillingExpression k c) = compile_fresh k" using compile_step [OF ok] by simp
  show "cache_ok (snd (compileBillingExpression k c))"
    unfolding compile_step [OF ok] using ok by (cases c) (auto simp: cache_ok_def)
qed

end
