(* ===== verification/Js_Format.thy ===== *)
theory Js_Format
  imports Js_Number
begin

text \<open>
  \<open>Number.prototype.toString\<close> and \<open>toExponential\<close> without arguments: the shortest decimal
  digit string that reads back as the same binary64 number, and among those the one
  closest to it, laid out as ECMAScript prescribes.  The digits are proved to read back
  exactly.
\<close>

section \<open>Digits\<close>

fun nat_digits :: "nat \<Rightarrow> jsstr" where
  "nat_digits n = (if n < 10 then [48 + n] else nat_digits (n div 10) @ [48 + n mod 10])"

declare nat_digits.simps [simp del]

lemma digits_val_append: "digits_val a (s @ t) = digits_val (digits_val a s) t"
  by (induction s arbitrary: a) auto

lemma digits_val_nat_digits [simp]: "digits_val 0 (nat_digits n) = n"
proof (induction n rule: nat_digits.induct)
  case (1 n)
  then show ?case
    by (subst nat_digits.simps) (simp add: digits_val_append)
qed

lemma nat_digits_digits: "\<forall>c\<in>set (nat_digits n). is_digit c"
proof (induction n rule: nat_digits.induct)
  case (1 n)
  then show ?case
    by (subst nat_digits.simps) (auto simp: is_digit_def)
qed

lemma nat_digits_nonempty [simp]: "nat_digits n \<noteq> []"
  by (subst nat_digits.simps) simp

text \<open>\<open>point x\<close> is the \<open>n\<close> of the standard: \<open>10 powi (n - 1) \<le> x < 10 powi n\<close>.\<close>

definition point :: "rat \<Rightarrow> int" where
  "point x = ilog 10 x + 1"

definition digits_value :: "rat \<Rightarrow> nat \<Rightarrow> int \<Rightarrow> rat" where
  "digits_value x k s = of_int s * 10 powi (point x - int k)"

text \<open>The candidate with \<open>k\<close> digits.\<close>

definition candidate :: "rat \<Rightarrow> nat \<Rightarrow> int option" where
  "candidate x k =
     (let scaled = x * 10 powi (int k - point x);
          lo = \<lfloor>scaled\<rfloor>;
          lo_ok = (to_double (digits_value x k lo) = Fin x);
          hi_ok = (to_double (digits_value x k (lo + 1)) = Fin x)
      in if lo_ok \<and> hi_ok then Some (round_even scaled)
         else if lo_ok then Some lo
         else if hi_ok then Some (lo + 1)
         else None)"

primrec shortest_from :: "nat \<Rightarrow> nat \<Rightarrow> rat \<Rightarrow> int \<times> nat" where
  "shortest_from 0 k x = (\<lfloor>x * 10 powi (int k - point x)\<rfloor>, k)"
| "shortest_from (Suc n) k x =
     (case candidate x k of Some s \<Rightarrow> (s, k) | None \<Rightarrow> shortest_from n (Suc k) x)"

text \<open>The digits \<open>s\<close> and the exponent \<open>n\<close> of a positive number; a candidate that rounds up
  to \<open>10 ^ k\<close> has its point one place further.\<close>

definition shortest :: "rat \<Rightarrow> jsstr \<times> int" where
  "shortest x =
     (let (s, k) = shortest_from 1400 1 x in
      if s = 10 ^ k then (nat_digits (10 ^ (k - 1)), point x + 1)
      else (nat_digits (nat s), point x))"

section \<open>Layout\<close>

definition int_text :: "int \<Rightarrow> jsstr" where
  "int_text e = (if e < 0 then js ''-'' else js ''+'') @ nat_digits (nat \<bar>e\<bar>)"

definition exponential_text :: "jsstr \<Rightarrow> int \<Rightarrow> jsstr" where
  "exponential_text ds e =
     (case ds of
        [] \<Rightarrow> []
      | [d] \<Rightarrow> [d] @ js ''e'' @ int_text e
      | d # rest \<Rightarrow> [d] @ js ''.'' @ rest @ js ''e'' @ int_text e)"

definition positive_text :: "rat \<Rightarrow> jsstr" where
  "positive_text x =
     (let (ds, n) = shortest x; k = int (length ds) in
      if k \<le> n \<and> n \<le> 21 then ds @ replicate (nat (n - k)) 48
      else if 0 < n \<and> n \<le> 21 then take (nat n) ds @ js ''.'' @ drop (nat n) ds
      else if - 6 < n \<and> n \<le> 0 then js ''0.'' @ replicate (nat (- n)) 48 @ ds
      else exponential_text ds (n - 1))"

fun num_text :: "jsnum \<Rightarrow> jsstr" where
  "num_text NaN = js ''NaN''"
| "num_text (Infty s) = (if s then js ''-'' else []) @ js ''Infinity''"
| "num_text NegZero = js ''0''"
| "num_text (Fin x) =
     (if x = 0 then js ''0''
      else if x < 0 then js ''-'' @ positive_text (- x)
      else positive_text x)"

text \<open>\<open>toExponential()\<close> of a positive number: mantissa digits and exponent.\<close>

definition to_exponential :: "rat \<Rightarrow> jsstr \<times> int" where
  "to_exponential x = (let (ds, n) = shortest x in (ds, n - 1))"

section \<open>Reading numbers\<close>

text \<open>\<open>Number(text)\<close> (StringNumericLiteral): white space is stripped, the empty string is
  zero; \<open>Infinity\<close>, radix prefixes without a sign, and decimal literals.\<close>

definition decimal_literal :: "jsstr \<Rightarrow> jsnum option" where
  "decimal_literal s =
     (let ip = takeWhile is_digit s;
          r = dropWhile is_digit s;
          (fp, r') =
            (if r \<noteq> [] \<and> hd r = 46 then (takeWhile is_digit (tl r), dropWhile is_digit (tl r)) else ([], r))
      in if ip = [] \<and> fp = [] then None
         else if r' = [] then Some (decimal_num ip fp 0)
         else if hd r' = 101 \<or> hd r' = 69 then
           (let t = tl r';
                negative = (t \<noteq> [] \<and> hd t = 45);
                ds = (if t \<noteq> [] \<and> (hd t = 45 \<or> hd t = 43) then tl t else t)
            in if ds \<noteq> [] \<and> list_all is_digit ds then
                 Some (decimal_num ip fp
                   (if negative then - int (digits_val 0 ds) else int (digits_val 0 ds)))
               else None)
         else None)"

fun radix_digit :: "nat \<Rightarrow> code_unit \<Rightarrow> nat option" where
  "radix_digit b c =
     (let d = (if 48 \<le> c \<and> c \<le> 57 then c - 48
               else if 97 \<le> c \<and> c \<le> 102 then c - 87
               else if 65 \<le> c \<and> c \<le> 70 then c - 55 else b)
      in if d < b then Some d else None)"

fun radix_val :: "nat \<Rightarrow> nat \<Rightarrow> jsstr \<Rightarrow> nat option" where
  "radix_val b acc [] = Some acc"
| "radix_val b acc (c # s) =
     (case radix_digit b c of None \<Rightarrow> None | Some d \<Rightarrow> radix_val b (b * acc + d) s)"

definition radix_literal :: "jsstr \<Rightarrow> jsnum option" where
  "radix_literal s =
     (let p = take 2 s; ds = drop 2 s;
          b = (if p = js ''0x'' \<or> p = js ''0X'' then 16
               else if p = js ''0o'' \<or> p = js ''0O'' then 8
               else if p = js ''0b'' \<or> p = js ''0B'' then 2 else 0)
      in if b = 0 \<or> ds = [] then None else map_option (\<lambda>n. to_double (of_nat n)) (radix_val b 0 ds))"

definition string_number :: "jsstr \<Rightarrow> jsnum" where
  "string_number text =
     (let s = trim text in
      if s = [] then Fin 0
      else case radix_literal s of
        Some n \<Rightarrow> n
      | None \<Rightarrow>
          let negative = (hd s = 45);
              u = (if hd s = 45 \<or> hd s = 43 then tl s else s)
          in if u = js ''Infinity'' then Infty negative
             else case decimal_literal u of
               None \<Rightarrow> NaN
             | Some n \<Rightarrow> if negative then uminus_num n else n)"

section \<open>The digits read back\<close>

lemma powi_10_cancel: "(10::rat) powi (k - n) * 10 powi (n - k) = 1"
  by (simp add: power_int_add [symmetric])

lemma candidate_Some:
  assumes "candidate x k = Some s"
  shows "to_double (digits_value x k s) = Fin x"
proof -
  let ?y = "x * 10 powi (int k - point x)"
  have "round_even ?y = \<lfloor>?y\<rfloor> \<or> round_even ?y = \<lfloor>?y\<rfloor> + 1"
    by (simp add: round_even_def Let_def)
  then show ?thesis
    using assms by (auto simp: candidate_def Let_def split: if_splits)
qed

lemma candidate_exact:
  assumes "to_double x = Fin x" and "x * 10 powi (int k - point x) = of_int i"
  shows "candidate x k \<noteq> None"
proof -
  have "digits_value x k i = x * (10 powi (int k - point x) * 10 powi (point x - int k))"
    using assms(2) by (simp add: digits_value_def)
  then have "digits_value x k i = x"
    by (simp only: powi_10_cancel mult_1_right)
  then show ?thesis
    using assms by (simp add: candidate_def Let_def)
qed

lemma shortest_from_hit:
  "k \<le> j \<Longrightarrow> j < k + n \<Longrightarrow> candidate x j \<noteq> None \<Longrightarrow>
   candidate x (snd (shortest_from n k x)) = Some (fst (shortest_from n k x)) \<and>
   k \<le> snd (shortest_from n k x)"
proof (induction n arbitrary: k)
  case 0
  then show ?case by simp
next
  case (Suc n)
  show ?case
  proof (cases "candidate x k")
    case None
    then have "k \<noteq> j" using Suc.prems by auto
    then have "candidate x (snd (shortest_from n (Suc k) x)) = Some (fst (shortest_from n (Suc k) x)) \<and>
        Suc k \<le> snd (shortest_from n (Suc k) x)"
      using Suc.prems by (intro Suc.IH) auto
    then show ?thesis using None by auto
  qed simp
qed

lemma double_multiple:
  assumes "to_double x = Fin x"
  obtains m j where "x = of_int m * 2 powi j" "- 1074 \<le> j"
proof (cases "x = 0")
  case True
  then show ?thesis using that [of 0 0] by simp
next
  case False
  have "x = of_int (round_even (x / 2 powi quantum x)) * 2 powi quantum x"
    using assms False by (auto simp: to_double_def Let_def split: if_splits)
  then show ?thesis using that by (metis max.cobounded2 quantum_def)
qed

lemma double_times_power:
  assumes "to_double x = Fin x" and "1074 \<le> e"
  shows "\<exists>i. x * 10 powi e = of_int i"
proof -
  obtain m j where x: "x = of_int m * 2 powi j" and j: "- 1074 \<le> j"
    using double_multiple [OF assms(1)] .
  have "x * 10 powi e = of_int m * (2 powi (j + e) * 5 powi e)"
    using x power_int_mult_distrib [of "2::rat" 5 e] by (simp add: power_int_add)
  also have "\<dots> = of_int m * (2 ^ nat (j + e) * 5 ^ nat e)"
    using j assms(2) by (simp add: power_int_def)
  also have "\<dots> = of_int (m * (2 ^ nat (j + e) * 5 ^ nat e))"
    by simp
  finally show ?thesis by blast
qed

lemma double_less_overflow:
  assumes "to_double x = Fin x"
  shows "x < overflow_bound"
proof (cases "x = 0")
  case False
  have "\<bar>x\<bar> < overflow_bound"
    using assms False by (auto simp: to_double_def Let_def split: if_splits)
  then show ?thesis by linarith
qed (simp add: overflow_bound_def)

lemma point_bound:
  assumes "to_double x = Fin x" "0 < x"
  shows "point x \<le> 309"
proof (rule ccontr)
  assume "\<not> point x \<le> 309"
  then have e: "309 \<le> ilog 10 x" by (simp add: point_def)
  have "(10::rat) powi 309 \<le> 10 powi ilog 10 x"
    using e by (intro power_int_increasing) auto
  also have "\<dots> \<le> x" using ilog_bounds [of 10 x] assms(2) by simp
  also have "x < overflow_bound" using double_less_overflow [OF assms(1)] .
  finally have "(10::rat) ^ 309 < 2 ^ 1024"
    by (simp add: overflow_bound_def power_int_def)
  then have "(10::nat) ^ 309 < 2 ^ 1024"
    by (metis of_nat_less_iff of_nat_numeral of_nat_power)
  then show False by simp
qed

lemma candidate_1400:
  assumes "to_double x = Fin x" "0 < x"
  shows "candidate x 1400 \<noteq> None"
proof -
  obtain i where "x * 10 powi (int 1400 - point x) = of_int i"
    using double_times_power [OF assms(1), of "int 1400 - point x"] point_bound [OF assms] by auto
  then show ?thesis by (rule candidate_exact [OF assms(1)])
qed

lemma length_nat_digits:
  "10 ^ k \<le> n \<Longrightarrow> n < 10 ^ Suc k \<Longrightarrow> length (nat_digits n) = Suc k"
proof (induction k arbitrary: n)
  case 0
  then show ?case by (subst nat_digits.simps) simp
next
  case (Suc k)
  have "10 ^ k \<le> n div 10" "n div 10 < 10 ^ Suc k"
    using Suc.prems by (auto simp: less_mult_imp_div_less mult.commute)
  moreover have "\<not> n < 10" using Suc.prems(1) by (simp add: not_less) (metis le_trans le_add1 mult_le_mono2 mult.right_neutral one_le_numeral one_le_power)
  ultimately show ?case
    using Suc.IH [of "n div 10"] by (subst nat_digits.simps) simp
qed

lemma scaled_bounds:
  assumes "0 < x"
  shows "10 powi (int k - 1) \<le> x * 10 powi (int k - point x) \<and> x * 10 powi (int k - point x) < 10 ^ k"
proof -
  have b: "10 powi (point x - 1) \<le> x" "x < 10 powi point x"
    using ilog_bounds [of 10 x] assms by (auto simp: point_def)
  have "(10::rat) powi (point x - 1) * 10 powi (int k - point x) = 10 powi (int k - 1)"
    "(10::rat) powi point x * 10 powi (int k - point x) = 10 ^ k"
    by (simp_all add: power_int_add [symmetric])
  then show ?thesis
    using b mult_right_mono [OF b(1), of "10 powi (int k - point x)"]
      mult_strict_right_mono [OF b(2), of "10 powi (int k - point x)"] by simp
qed

lemma candidate_digits:
  assumes "0 < x" "1 \<le> k" "candidate x k = Some s"
  shows "10 ^ (k - 1) \<le> s \<and> s \<le> 10 ^ k"
proof -
  let ?y = "x * 10 powi (int k - point x)"
  have s: "s = \<lfloor>?y\<rfloor> \<or> s = \<lfloor>?y\<rfloor> + 1"
    using assms(3) by (auto simp: candidate_def Let_def round_even_def split: if_splits)
  have "(10::rat) powi (int k - 1) = of_int (10 ^ (k - 1))"
    using assms(2) by (simp add: power_int_def nat_diff_distrib)
  then have "10 ^ (k - 1) \<le> \<lfloor>?y\<rfloor>"
    using scaled_bounds [OF assms(1), of k] by (metis le_floor_iff)
  moreover have "\<lfloor>?y\<rfloor> < 10 ^ k"
    using scaled_bounds [OF assms(1), of k] by (simp add: floor_less_iff)
  ultimately show ?thesis using s by linarith
qed

theorem shortest_reads_back:
  assumes "to_double x = Fin x" "0 < x"
  shows "decimal_num (fst (shortest x)) [] (snd (shortest x) - int (length (fst (shortest x)))) = Fin x"
proof -
  obtain s k where sk: "shortest_from 1400 1 x = (s, k)" by force
  have c: "candidate x k = Some s" and k: "1 \<le> k"
    using shortest_from_hit [of 1 1400 1400 x] candidate_1400 [OF assms] sk by auto
  have b: "10 ^ (k - 1) \<le> s" "s \<le> 10 ^ k" using candidate_digits [OF assms(2) k c] by auto
  have r: "to_double (of_int s * 10 powi (point x - int k)) = Fin x"
    using candidate_Some [OF c] by (simp add: digits_value_def)
  obtain j where j: "k = Suc j" using k by (cases k) auto
  show ?thesis
  proof (cases "s = 10 ^ k")
    case True
    have "length (nat_digits (10 ^ j)) = k" using length_nat_digits [of j "10 ^ j"] j by simp
    moreover have "(10::rat) ^ j * 10 powi (point x + 1 - int k) = of_int s * 10 powi (point x - int k)"
      using True j by (simp add: power_int_add power_int_diff)
    ultimately show ?thesis
      using r True sk j by (simp add: shortest_def decimal_num_def mult.assoc mult.left_commute)
  next
    case False
    then have "length (nat_digits (nat s)) = k"
      using length_nat_digits [of j "nat s"] b j by (simp add: nat_le_iff le_nat_iff nat_less_iff)
    moreover have "of_nat (nat s) = (of_int s :: rat)" using b(1) by (simp add: order.trans [OF _ b(1)])
    ultimately show ?thesis
      using r False sk by (simp add: shortest_def decimal_num_def)
  qed
qed

end
