(* ===== verification/Js_Date.thy ===== *)
theory Js_Date
  imports Js_Base
begin

text \<open>
  The UTC fields of a JavaScript \<open>Date\<close>.  A date is its time value in milliseconds since
  the epoch; an invalid date is \<open>None\<close>.  The calendar is the proleptic Gregorian one of
  ECMAScript; its year search is shown to find the year whose days include the given one.
\<close>

type_synonym jsdate = "int option"

definition day_ms :: int where
  "day_ms = 86400000"

definition day_number :: "int \<Rightarrow> int" where
  "day_number t = t div day_ms"

definition utc_hours :: "int \<Rightarrow> int" where
  "utc_hours t = (t div 3600000) mod 24"

definition utc_minutes :: "int \<Rightarrow> int" where
  "utc_minutes t = (t div 60000) mod 60"

definition utc_day :: "int \<Rightarrow> int" where
  "utc_day t = (day_number t + 4) mod 7"

section \<open>Calendar\<close>

definition leap_year :: "int \<Rightarrow> bool" where
  "leap_year y \<longleftrightarrow> 4 dvd y \<and> \<not> 100 dvd y \<or> 400 dvd y"

text \<open>Days from the epoch to the first of January of a year.\<close>

definition day_from_year :: "int \<Rightarrow> int" where
  "day_from_year y =
     365 * (y - 1970) + (y - 1969) div 4 - (y - 1901) div 100 + (y - 1601) div 400"

definition year_length :: "int \<Rightarrow> int" where
  "year_length y = (if leap_year y then 366 else 365)"

text \<open>The year of a day: whole 400-, 100-, 4- and 1-year cycles since 1 January 0001.\<close>

definition year_from_day :: "int \<Rightarrow> int" where
  "year_from_day d =
     (let z = d + 719162;
          q400 = z div 146097; r400 = z mod 146097;
          q100 = min 3 (r400 div 36524); r100 = r400 - q100 * 36524;
          q4 = r100 div 1461; r4 = r100 mod 1461;
          q1 = min 3 (r4 div 365)
      in 400 * q400 + 100 * q100 + 4 * q4 + q1 + 1)"

definition month_lengths :: "bool \<Rightarrow> int list" where
  "month_lengths leap = [31, if leap then 29 else 28, 31, 30, 31, 30, 31, 31, 30, 31, 30, 31]"

text \<open>Month (from zero) and day of the month (from one) of a day within its year.\<close>

fun month_walk :: "int \<Rightarrow> int \<Rightarrow> int list \<Rightarrow> int \<times> int" where
  "month_walk m d [] = (m, d + 1)"
| "month_walk m d (l # ls) = (if d < l then (m, d + 1) else month_walk (m + 1) (d - l) ls)"

definition utc_month_date :: "int \<Rightarrow> int \<times> int" where
  "utc_month_date t =
     (let d = day_number t; y = year_from_day d
      in month_walk 0 (d - day_from_year y) (month_lengths (leap_year y)))"

definition utc_month :: "int \<Rightarrow> int" where
  "utc_month t = fst (utc_month_date t)"

definition utc_date :: "int \<Rightarrow> int" where
  "utc_date t = snd (utc_month_date t)"

section \<open>The calendar is right\<close>

lemma div_next: "0 < n \<Longrightarrow> ((x::int) + 1) div n = x div n + (if n dvd x + 1 then 1 else 0)"
proof -
  assume n: "0 < n"
  show ?thesis
  proof (cases "n dvd x + 1")
    case True
    then obtain k where "x + 1 = n * k" by blast
    then have "x = n * (k - 1) + (n - 1)" by (simp add: algebra_simps)
    then have "x div n = k - 1" using n by (intro int_div_pos_eq [where r = "n - 1"]) auto
    then show ?thesis using True n \<open>x + 1 = n * k\<close> by simp
  next
    case False
    have "x mod n + 1 \<noteq> n"
      using False by (metis add.commute dvd_mult_div_cancel dvd_triv_left mod_mult_div_eq mult.commute
          add.assoc distrib_left mult.right_neutral)
    then have "x mod n + 1 < n" using n by (smt (verit) pos_mod_bound)
    then have "(x + 1) div n = x div n"
      using n by (intro int_div_pos_eq [where r = "x mod n + 1"]) (auto simp: algebra_simps)
    then show ?thesis using False by simp
  qed
qed

lemma day_from_year_next: "day_from_year (y + 1) = day_from_year y + year_length y"
proof -
  have sh: "n dvd m - 1 \<Longrightarrow> n dvd y - m + 1 \<longleftrightarrow> n dvd y" for n m
    using dvd_add_left_iff [of n "1 - m" y]
    by (metis add.commute add_diff_eq diff_add_eq dvd_diff_commute)
  have dv: "4 dvd y - 1969 + 1 \<longleftrightarrow> 4 dvd y" "100 dvd y - 1901 + 1 \<longleftrightarrow> 100 dvd y"
      "400 dvd y - 1601 + 1 \<longleftrightarrow> 400 dvd y"
    by (rule sh, simp)+
  have sub: "400 dvd y \<Longrightarrow> 100 dvd y" "100 dvd y \<Longrightarrow> 4 dvd y"
    by (rule dvd_trans, simp_all)+
  have step: "y + 1 - k = y - k + 1" for k by simp
  have e: "(y + 1 - 1969) div 4 = (y - 1969) div 4 + (if 4 dvd y then 1 else 0)"
      "(y + 1 - 1901) div 100 = (y - 1901) div 100 + (if 100 dvd y then 1 else 0)"
      "(y + 1 - 1601) div 400 = (y - 1601) div 400 + (if 400 dvd y then 1 else 0)"
    unfolding step div_next [OF zero_less_numeral] dv by (rule refl)+
  show ?thesis
    unfolding day_from_year_def year_length_def leap_year_def e
    using sub by (cases "4 dvd y"; cases "100 dvd y"; cases "400 dvd y") simp_all
qed

lemma day_from_cycles:
  fixes q400 q100 q4 q1 :: int
  assumes "0 \<le> q100" "q100 \<le> 3" "0 \<le> q4" "q4 \<le> 24" "0 \<le> q1" "q1 \<le> 3"
  shows "day_from_year (400 * q400 + 100 * q100 + 4 * q4 + q1 + 1) =
    146097 * q400 + 36524 * q100 + 1461 * q4 + 365 * q1 - 719162" (is "day_from_year ?y = _")
proof -
  have "(?y - 1969) div 4 = 100 * q400 + 25 * q100 + q4 - 492"
    by (rule int_div_pos_eq [where r = q1]) (use assms in auto)
  moreover have "(?y - 1901) div 100 = 4 * q400 + q100 - 19"
    by (rule int_div_pos_eq [where r = "4 * q4 + q1"]) (use assms in auto)
  moreover have "(?y - 1601) div 400 = q400 - 4"
    by (rule int_div_pos_eq [where r = "100 * q100 + 4 * q4 + q1"]) (use assms in auto)
  ultimately show ?thesis by (simp add: day_from_year_def)
qed

lemma min_div_bounds:
  fixes r n :: int
  assumes "0 \<le> r" "r \<le> 4 * n" "0 < n"
  shows "0 \<le> min 3 (r div n)" "n * min 3 (r div n) \<le> r"
    "r < n * min 3 (r div n) + n \<or> min 3 (r div n) = 3 \<and> r = 4 * n"
proof -
  have q: "n * (r div n) \<le> r" "r < n * (r div n) + n" "0 \<le> r div n"
    using assms by (auto simp: pos_imp_zdiv_nonneg_iff) (smt (verit) mult_div_mod_eq pos_mod_bound pos_mod_sign)+
  show "0 \<le> min 3 (r div n)" using q by simp
  have "r div n \<le> 4"
    using assms by (metis div_mult_self1_is_m less_le zdiv_mono1 mult.commute nonzero_mult_div_cancel_left)
  then consider "r div n \<le> 3" | "r div n = 4" by linarith
  then show "n * min 3 (r div n) \<le> r"
    "r < n * min 3 (r div n) + n \<or> min 3 (r div n) = 3 \<and> r = 4 * n"
    using q assms by (cases; auto)+
qed

lemma year_from_day_bounds:
  "day_from_year (year_from_day d) \<le> d \<and> d < day_from_year (year_from_day d + 1)"
proof -
  define q400 r400 where q400: "q400 = (d + 719162) div 146097" and r400: "r400 = (d + 719162) mod 146097"
  define q100 where q100: "q100 = min 3 (r400 div 36524)"
  define r100 where r100: "r100 = r400 - q100 * 36524"
  define q4 r4 where q4: "q4 = r100 div 1461" and r4: "r4 = r100 mod 1461"
  define q1 where q1: "q1 = min 3 (r4 div 365)"
  let ?y = "400 * q400 + 100 * q100 + 4 * q4 + q1 + 1"
  have y: "year_from_day d = ?y"
    unfolding year_from_day_def Let_def q1 r4 q4 r100 q100 r400 q400 by (rule refl)
  have d: "d + 719162 = 146097 * q400 + r400" "0 \<le> r400" "r400 \<le> 4 * 36524"
    unfolding q400 r400 by simp_all
  have b100: "0 \<le> q100" "q100 \<le> 3" "36524 * q100 \<le> r400"
      "r400 < 36524 * q100 + 36524 \<or> q100 = 3 \<and> r400 = 4 * 36524"
    using min_div_bounds [OF d(2,3)] unfolding q100 by simp_all
  have b4: "r100 = 1461 * q4 + r4" "0 \<le> r4" "r4 \<le> 4 * 365"
    unfolding q4 r4 by simp_all
  have q4b: "0 \<le> q4" "q4 \<le> 24"
    using b4 b100 unfolding r100 by linarith+
  have b1: "0 \<le> q1" "q1 \<le> 3" "365 * q1 \<le> r4" "r4 < 365 * q1 + 365 \<or> q1 = 3 \<and> r4 = 4 * 365"
    using min_div_bounds [OF b4(2,3)] unfolding q1 by simp_all
  have dy: "day_from_year ?y = d - (r4 - 365 * q1)"
    using day_from_cycles [OF b100(1,2) q4b b1(1,2), of q400] d(1) b4(1) r100 by linarith
  have "r4 - 365 * q1 < year_length ?y"
  proof (cases "r4 < 365 * q1 + 365")
    case True
    then show ?thesis by (simp add: year_length_def)
  next
    case False
    then have f: "q1 = 3" "r4 = 4 * 365" using b1 by auto
    then have c: "q4 < 24 \<or> q4 = 24 \<and> q100 = 3" using q4b b100 b4 r100 by linarith
    have "leap_year ?y"
    proof (cases "q4 = 24")
      case True
      then have "?y = 400 * (q400 + 1)" using c f by simp
      then show ?thesis by (metis dvd_triv_left leap_year_def)
    next
      case False
      have y4: "?y = 4 * (100 * q400 + 25 * q100 + q4 + 1)" "?y = 100 * (4 * q400 + q100) + (4 * q4 + 4)"
        using f by simp_all
      have "\<not> 100 dvd 4 * q4 + 4" using zdvd_imp_le [of 100 "4 * q4 + 4"] False c q4b by auto
      then have "\<not> 100 dvd ?y" unfolding y4(2) by (simp add: dvd_add_right_iff)
      then show ?thesis using y4(1) by (metis dvd_triv_left leap_year_def)
    qed
    then show ?thesis using f by (simp add: year_length_def)
  qed
  then show ?thesis
    using dy b1(3) day_from_year_next [of ?y] y by simp
qed

lemma month_walk_range:
  "0 \<le> d \<Longrightarrow> d < sum_list ls \<Longrightarrow>
   m \<le> fst (month_walk m d ls) \<and> fst (month_walk m d ls) < m + int (length ls) \<and>
   1 \<le> snd (month_walk m d ls) \<and> snd (month_walk m d ls) \<le> Max (set ls)"
proof (induction m d ls rule: month_walk.induct)
  case (1 m d)
  then show ?case by simp
next
  case (2 m d l ls)
  show ?case
  proof (cases "d < l")
    case True
    then show ?thesis using 2 by (auto simp: Max_ge_iff)
  next
    case False
    then have "ls \<noteq> []" using 2 by auto
    then show ?thesis using 2 False by (auto simp del: Max_ge_iff intro: max.coboundedI2)
  qed
qed

theorem utc_fields_range:
  "0 \<le> utc_hours t \<and> utc_hours t \<le> 23 \<and> 0 \<le> utc_minutes t \<and> utc_minutes t \<le> 59 \<and>
   0 \<le> utc_day t \<and> utc_day t \<le> 6 \<and> 0 \<le> utc_month t \<and> utc_month t \<le> 11 \<and>
   1 \<le> utc_date t \<and> utc_date t \<le> 31"
proof -
  have d: "(x::int) mod 24 \<le> 23" "x mod 60 \<le> 59" "x mod 7 \<le> 6" for x
    by presburger+
  let ?y = "year_from_day (day_number t)"
  have "sum_list (month_lengths (leap_year ?y)) = year_length ?y"
    by (simp add: month_lengths_def year_length_def)
  then have r: "0 \<le> day_number t - day_from_year ?y"
      "day_number t - day_from_year ?y < sum_list (month_lengths (leap_year ?y))"
    using year_from_day_bounds [of "day_number t"] day_from_year_next [of ?y] by auto
  have "length (month_lengths (leap_year ?y)) = 12" "Max (set (month_lengths (leap_year ?y))) = 31"
    by (auto simp: month_lengths_def)
  then show ?thesis
    using month_walk_range [OF r, of 0] d
    by (simp add: utc_hours_def utc_minutes_def utc_day_def utc_month_def utc_date_def
        utc_month_date_def Let_def)
qed

end
