(* ===== verification/Billing_Runtime.thy ===== *)
theory Billing_Runtime
  imports Billing_Compile Js_Format Js_Date
begin

text \<open>
  The expression runtime
  (\<open>web/src/features/pricing/lib/billing-expression/runtime.ts\<close>): request paths, value
  formatting, time zones, and the class \<open>BillingRuntime\<close>.  The mutable fields of the
  class are the record \<open>rstate\<close>; the depth counter is the number of levels still allowed,
  which the recursion consumes.  Unicode lower casing and \<open>Intl.DateTimeFormat\<close> belong to
  the browser and are the fields of the record \<open>platform\<close>.
\<close>

section \<open>The platform\<close>

record zone_format =
  resolved_zone :: jsstr
  format_parts :: "int \<Rightarrow> (jsstr \<times> jsstr) list"

record platform =
  lower_case :: "jsstr \<Rightarrow> jsstr"
  date_format :: "jsstr \<Rightarrow> zone_format option"
  clock :: jsdate

section \<open>Request paths\<close>

definition path_unsupported :: "jsstr \<Rightarrow> thrown + 'a" where
  "path_unsupported path = bill_error Unsupported path None"

text \<open>The scan of a path into parts; \<open>part\<close> is the part being built.\<close>

fun scan_path :: "jsstr \<Rightarrow> jsstr \<Rightarrow> jsstr list \<Rightarrow> jsstr \<Rightarrow> thrown + jsstr list" where
  "scan_path path [] parts part = Inr (parts @ [part])"
| "scan_path path (c # cs) parts part =
     (if c = 92 then
        (case cs of
           [] \<Rightarrow> path_unsupported path
         | d # ds \<Rightarrow> scan_path path ds parts (part @ [d]))
      else if c = 46 then scan_path path cs (parts @ [part]) []
      else if c \<in> set (js ''*?[]()|@!'') then path_unsupported path
      else scan_path path cs parts (part @ [c]))"

fun walk_path :: "jsstr \<Rightarrow> jsval \<Rightarrow> jsstr list \<Rightarrow> thrown + jsval" where
  "walk_path path v [] = Inr (if nullish v then JNull else v)"
| "walk_path path v (key # rest) =
     (case v of
        JArr items \<Rightarrow>
          if key = js ''#'' \<and> rest = [] then Inr (JNum (Fin (of_nat (length items))))
          else if key = js ''#'' then path_unsupported path
          else if \<not> (key \<noteq> [] \<and> list_all is_digit key) then Inr JNull
          else
            let index = string_number key in
            walk_path path
              (if is_safe_integer index \<and> \<lfloor>num_val index\<rfloor> < int (length items)
               then items ! nat \<lfloor>num_val index\<rfloor> else JUndef) rest
      | JObj props \<Rightarrow>
          (case map_of props key of
             Some w \<Rightarrow> walk_path path w rest
           | None \<Rightarrow> Inr JNull)
      | _ \<Rightarrow> Inr JNull)"

definition readRequestPath :: "jsval \<Rightarrow> jsstr \<Rightarrow> thrown + jsval" where
  "readRequestPath body rawPath =
     (let path = trim rawPath in
      if path = [] then Inr JNull
      else res_bind (scan_path path path [] []) (walk_path path body))"

section \<open>Formatting request values\<close>

fun insert_entry :: "jsstr \<times> 'a \<Rightarrow> (jsstr \<times> 'a) list \<Rightarrow> (jsstr \<times> 'a) list" where
  "insert_entry e [] = [e]"
| "insert_entry e (f # fs) = (if str_lt (fst f) (fst e) then f # insert_entry e fs else e # f # fs)"

definition sort_entries :: "(jsstr \<times> 'a) list \<Rightarrow> (jsstr \<times> 'a) list" where
  "sort_entries es = foldr insert_entry es []"

definition pad_two :: "jsstr \<Rightarrow> jsstr" where
  "pad_two s = replicate (2 - length s) 48 @ s"

definition mantissa_text :: "jsstr \<Rightarrow> jsstr" where
  "mantissa_text ds = (case ds of d # e # r \<Rightarrow> d # js ''.'' @ e # r | _ \<Rightarrow> ds)"

definition go_number_text :: "jsnum \<Rightarrow> thrown + jsstr" where
  "go_number_text n =
     (case n of
        Fin x \<Rightarrow>
          if x = 0 then Inr (num_text n)
          else
            let (ds, e) = to_exponential \<bar>x\<bar> in
            if 6 \<le> e \<or> e < - 4 then
              Inr ((if x < 0 then js ''-'' else []) @ mantissa_text ds @ js ''e'' @
                   (if e < 0 then js ''-'' else js ''+'') @ pad_two (nat_digits (nat \<bar>e\<bar>)))
            else Inr (num_text n)
      | NegZero \<Rightarrow> Inr (js ''-0'')
      | _ \<Rightarrow> bill_error Number_error (js ''request number'') None)"

fun map_res :: "('a \<Rightarrow> 'e + 'b) \<Rightarrow> 'a list \<Rightarrow> 'e + 'b list" where
  "map_res f [] = Inr []"
| "map_res f (x # xs) = res_bind (f x) (\<lambda>y. res_bind (map_res f xs) (\<lambda>ys. Inr (y # ys)))"

text \<open>\<open>levels\<close> is the number of nesting levels still allowed, 129 at the root.\<close>

primrec billing_string_at :: "nat \<Rightarrow> jsval \<Rightarrow> thrown + jsstr" where
  "billing_string_at 0 v = bill_error Limit (js ''request value depth'') None"
| "billing_string_at (Suc levels) v =
     (case v of
        JUndef \<Rightarrow> Inr (js ''<nil>'')
      | JNull \<Rightarrow> Inr (js ''<nil>'')
      | JArr items \<Rightarrow>
          res_bind (map_res (billing_string_at levels) items) (\<lambda>texts.
            Inr (js ''['' @ join (js '' '') texts @ js '']''))
      | JObj props \<Rightarrow>
          res_bind (map_res (\<lambda>(key, item).
              res_bind (billing_string_at levels item) (\<lambda>t. Inr (key @ js '':'' @ t)))
              (sort_entries props)) (\<lambda>texts.
            Inr (js ''map['' @ join (js '' '') texts @ js '']''))
      | JNum n \<Rightarrow> go_number_text n
      | JStr s \<Rightarrow> Inr s
      | JBool b \<Rightarrow> Inr (if b then js ''true'' else js ''false''))"

definition billingString :: "jsval \<Rightarrow> thrown + jsstr" where
  "billingString v = billing_string_at 129 v"

section \<open>Time zones\<close>

record time_values =
  hour :: jsnum
  minute :: jsnum
  weekday :: jsnum
  month :: jsnum
  day :: jsnum

definition zone_segment :: "jsstr \<Rightarrow> bool" where
  "zone_segment s \<longleftrightarrow>
     (case s of
        [] \<Rightarrow> False
      | c # cs \<Rightarrow> 65 \<le> c \<and> c \<le> 90 \<and> list_all (\<lambda>d. is_word d \<or> d = 43 \<or> d = 45) cs)"

definition zone_pattern :: "jsstr \<Rightarrow> bool" where
  "zone_pattern timezone = list_all zone_segment (split_on 47 timezone)"

definition utc_values :: "int \<Rightarrow> time_values" where
  "utc_values t =
     \<lparr>hour = num_of_int (utc_hours t), minute = num_of_int (utc_minutes t),
      weekday = num_of_int (utc_day t), month = num_of_int (utc_month t + 1),
      day = num_of_int (utc_date t)\<rparr>"

text \<open>\<open>Number(parts[k])\<close>, where the last part of a type wins and a missing one is \<open>NaN\<close>.\<close>

definition part_number :: "(jsstr \<times> jsstr) list \<Rightarrow> string \<Rightarrow> jsnum" where
  "part_number parts k =
     (case map_of (rev parts) (js k) of None \<Rightarrow> NaN | Some v \<Rightarrow> string_number v)"

definition weekday_names :: "jsstr list" where
  "weekday_names = map js [''Sun'', ''Mon'', ''Tue'', ''Wed'', ''Thu'', ''Fri'', ''Sat'']"

fun list_index :: "'a \<Rightarrow> 'a list \<Rightarrow> int" where
  "list_index x [] = -1"
| "list_index x (y # ys) = (if x = y then 0 else let i = list_index x ys in if i < 0 then -1 else i + 1)"

definition parts_values :: "(jsstr \<times> jsstr) list \<Rightarrow> time_values" where
  "parts_values parts =
     \<lparr>hour = part_number parts ''hour'', minute = part_number parts ''minute'',
      weekday = num_of_int
        (case map_of (rev parts) (js ''weekday'') of
           None \<Rightarrow> -1 | Some w \<Rightarrow> list_index w weekday_names),
      month = part_number parts ''month'', day = part_number parts ''day''\<rparr>"

definition usable_format :: "platform \<Rightarrow> jsstr \<Rightarrow> zone_format option" where
  "usable_format host timezone =
     (if \<not> zone_pattern timezone then None
      else case date_format host timezone of
        None \<Rightarrow> None
      | Some f \<Rightarrow>
          if lower_case host (resolved_zone f) = lower_case host timezone \<and>
             resolved_zone f \<noteq> timezone
          then None else Some f)"

definition timeInBillingZone :: "platform \<Rightarrow> jsdate \<Rightarrow> jsstr \<Rightarrow> thrown + time_values" where
  "timeInBillingZone host now zone =
     (case now of
        None \<Rightarrow> bill_error Type_error (js ''simulation time'') None
      | Some t \<Rightarrow>
          let timezone = (if trim zone = [] then js ''UTC'' else trim zone) in
          if timezone = js ''Local'' then
            bill_error Unsupported (js ''server Local timezone'') None
          else
            (case usable_format host timezone of
               None \<Rightarrow> Inr (utc_values t)
             | Some f \<Rightarrow> Inr (parts_values (format_parts f t))))"

section \<open>The runtime\<close>

record request_context =
  body :: jsval
  headers :: "(jsstr \<times> jsval) list option"

record simulation_context =
  imageCount :: "jsnum option"
  tokens :: "(jsstr \<times> jsval) list option"
  request :: "request_context option"
  usage :: "(jsstr \<times> jsval) list option"
  now :: "jsdate option"

definition empty_context :: simulation_context where
  "empty_context = \<lparr>imageCount = None, tokens = None, request = None, usage = None, now = None\<rparr>"

datatype billing_unit = Unit_token | Unit_request

text \<open>The read-only fields of \<open>BillingRuntime\<close>, and the mutable ones.\<close>

record renv =
  host :: platform
  program :: compiled
  ctx :: simulation_context
  instant :: jsdate
  header_map :: "(jsstr \<times> jsstr) list"

record rstate =
  requestRules :: "request_rule list"
  matchedTier :: jsstr
  billingUnit :: billing_unit
  fixedPrice :: "jsnum option"
  timeValues :: "(jsstr \<times> time_values) list"

type_synonym rvalue = "jsval \<times> bool"
type_synonym 'a run = "rstate \<Rightarrow> thrown + 'a \<times> rstate"

definition throw_at :: "diag_code \<Rightarrow> jsstr \<Rightarrow> nat \<Rightarrow> 'a run" where
  "throw_at c d p = (\<lambda>_. bill_error c d (Some p))"

definition ret :: "'a \<Rightarrow> 'a run" where
  "ret v = (\<lambda>st. Inr (v, st))"

definition bind_run :: "'a run \<Rightarrow> ('a \<Rightarrow> 'b run) \<Rightarrow> 'b run" where
  "bind_run m f = (\<lambda>st. res_bind (m st) (\<lambda>(v, st'). f v st'))"

definition lift_res :: "thrown + 'a \<Rightarrow> 'a run" where
  "lift_res r = (\<lambda>st. res_bind r (\<lambda>v. Inr (v, st)))"

text \<open>The constructor.\<close>

definition add_header ::
  "platform \<Rightarrow> (jsstr \<times> jsstr) list \<Rightarrow> jsstr \<times> jsval \<Rightarrow> thrown + (jsstr \<times> jsstr) list" where
  "add_header h m entry =
     (case snd entry of
        JStr rawValue \<Rightarrow>
          let key = lower_case h (trim (fst entry)); value = trim rawValue in
          Inr (if key \<noteq> [] \<and> value \<noteq> [] then omap_set key value m else m)
      | _ \<Rightarrow> bill_error Type_error (js ''request header'') None)"

definition context_headers :: "simulation_context \<Rightarrow> (jsstr \<times> jsval) list" where
  "context_headers c =
     (case request c of
        None \<Rightarrow> []
      | Some r \<Rightarrow> (case headers r of None \<Rightarrow> [] | Some hs \<Rightarrow> hs))"

definition new_runtime ::
  "platform \<Rightarrow> compiled \<Rightarrow> simulation_context \<Rightarrow> thrown + renv \<times> rstate" where
  "new_runtime h c context =
     res_bind (fold_res (add_header h) (context_headers context) []) (\<lambda>hm.
       Inr (\<lparr>host = h, program = c, ctx = context,
             instant = (case now context of Some d \<Rightarrow> d | None \<Rightarrow> clock h),
             header_map = hm\<rparr>,
            \<lparr>requestRules =
               map (\<lambda>r. \<lparr>rcond = scond r, rmultiplier = smultiplier r, rmatched = False\<rparr>) (crules c),
             matchedTier = [], billingUnit = Unit_token, fixedPrice = None, timeValues = []\<rparr>))"

section \<open>Evaluation\<close>

text \<open>The helper methods, over \<open>rec\<close>, the evaluation of a subexpression.\<close>

definition run_boolean :: "(expr \<Rightarrow> rvalue run) \<Rightarrow> expr \<Rightarrow> bool run" where
  "run_boolean rec node =
     bind_run (rec node) (\<lambda>(v, _).
       case v of JBool b \<Rightarrow> ret b
       | _ \<Rightarrow> throw_at Type_error (js ''boolean condition'') (estart node))"

definition run_numeric :: "(expr \<Rightarrow> rvalue run) \<Rightarrow> expr \<Rightarrow> (jsnum \<times> bool) run" where
  "run_numeric rec node =
     bind_run (rec node) (\<lambda>(v, i).
       case v of JNum n \<Rightarrow> ret (n, i)
       | _ \<Rightarrow> throw_at Type_error (js ''numeric operand'') (estart node))"

definition run_string :: "(expr \<Rightarrow> rvalue run) \<Rightarrow> expr \<Rightarrow> jsstr run" where
  "run_string rec node =
     bind_run (rec node) (\<lambda>(v, _).
       case v of JStr s \<Rightarrow> ret s
       | _ \<Rightarrow> throw_at Type_error (js ''string argument'') (estart node))"

fun lit_val :: "lit \<Rightarrow> jsval" where
  "lit_val (LNum n) = JNum n"
| "lit_val (LStr s) = JStr s"
| "lit_val (LBool b) = JBool b"
| "lit_val LNull = JNull"

definition run_variable :: "renv \<Rightarrow> jsstr \<Rightarrow> nat \<Rightarrow> rvalue run" where
  "run_variable env name position =
     (if name = js ''image_count'' then
        let value = (case imageCount (ctx env) of None \<Rightarrow> Fin 1 | Some n \<Rightarrow> n) in
        if \<not> is_integer value \<or> lt_num value (Fin 1) \<or> lt_num (Fin 128) value then
          throw_at Number_error (js ''image_count must be between 1 and 128'') position
        else ret (JNum value, False)
      else
        let value = (case tokens (ctx env) of None \<Rightarrow> JUndef | Some ts \<Rightarrow> jget (JObj ts) name) in
        case value of
          JUndef \<Rightarrow> throw_at Missing_context name position
        | JNum n \<Rightarrow>
            if lt_num n (Fin 0) then throw_at Number_error name position else ret (JNum n, False)
        | _ \<Rightarrow> throw_at Number_error name position)"

definition find_index :: "('a \<Rightarrow> bool) \<Rightarrow> 'a list \<Rightarrow> nat option" where
  "find_index P xs = find (\<lambda>i. P (xs ! i)) [0..<length xs]"

text \<open>A conditional marks its request rule when it takes the first branch.\<close>

definition mark_rule :: "renv \<Rightarrow> expr \<Rightarrow> bool \<Rightarrow> unit run" where
  "mark_rule env node condition = (\<lambda>st.
     case find_index (\<lambda>rule. rnode rule = node) (crules (program env)) of
       Some i \<Rightarrow>
         if condition then
           Inr ((), st\<lparr>requestRules := (requestRules st)[i := (requestRules st ! i)\<lparr>rmatched := True\<rparr>]\<rparr>)
         else Inr ((), st)
     | None \<Rightarrow> Inr ((), st))"

text \<open>\<open>a < b\<close> and the other orderings on two numbers or two strings.\<close>

definition order_value :: "jsstr \<Rightarrow> jsval \<Rightarrow> jsval \<Rightarrow> bool option" where
  "order_value operator a b =
     (case (a, b) of
        (JNum x, JNum y) \<Rightarrow>
          if operator = js ''<'' then Some (lt_num x y)
          else if operator = js ''<='' then Some (le_num x y)
          else if operator = js ''>'' then Some (lt_num y x)
          else if operator = js ''>='' then Some (le_num y x)
          else None
      | (JStr x, JStr y) \<Rightarrow>
          if operator = js ''<'' then Some (str_lt x y)
          else if operator = js ''<='' then Some (\<not> str_lt y x)
          else if operator = js ''>'' then Some (str_lt y x)
          else if operator = js ''>='' then Some (\<not> str_lt x y)
          else None
      | _ \<Rightarrow> None)"

definition arithmetic :: "jsstr \<Rightarrow> jsnum \<Rightarrow> jsnum \<Rightarrow> bool \<Rightarrow> nat \<Rightarrow> rvalue run" where
  "arithmetic operator a b integer position =
     (if operator = js ''+'' then ret (JNum (add_num a b), integer)
      else if operator = js ''-'' then ret (JNum (sub_num a b), integer)
      else if operator = js ''*'' then ret (JNum (mul_num a b), integer)
      else if operator = js ''/'' then ret (JNum (div_num a b), False)
      else if operator = js ''%'' then
        (if \<not> integer then throw_at Type_error (js ''integer modulo'') position
         else ret (JNum (rem_num a b), True))
      else throw_at Unsupported operator position)"

definition run_operator :: "jsstr \<Rightarrow> rvalue \<Rightarrow> rvalue \<Rightarrow> nat \<Rightarrow> rvalue run" where
  "run_operator operator left right position =
     (let a = fst left; b = fst right in
      if operator = js ''=='' \<or> operator = js ''!='' then
        (if a \<noteq> JNull \<and> b \<noteq> JNull \<and> (typeof_object a \<or> typeof_object b) then
           throw_at Unsupported (js ''object comparison'') position
         else ret (JBool (if operator = js ''=='' then strict_eq a b else \<not> strict_eq a b), False))
      else
        case (a, b) of
          (JStr x, JStr y) \<Rightarrow>
            if operator = js ''+'' then ret (JStr (x @ y), False)
            else (case order_value operator a b of
                    Some r \<Rightarrow> ret (JBool r, False)
                  | None \<Rightarrow> throw_at Type_error operator position)
        | (JNum x, JNum y) \<Rightarrow>
            (case order_value operator a b of
               Some r \<Rightarrow> ret (JBool r, False)
             | None \<Rightarrow> arithmetic operator x y (snd left \<and> snd right) position)
        | _ \<Rightarrow> throw_at Type_error operator position)"

definition run_binary ::
  "(expr \<Rightarrow> rvalue run) \<Rightarrow> jsstr \<Rightarrow> expr \<Rightarrow> expr \<Rightarrow> nat \<Rightarrow> rvalue run" where
  "run_binary rec operator left right position =
     (if operator = js ''&&'' then
        bind_run (run_boolean rec left) (\<lambda>a.
          if a then bind_run (run_boolean rec right) (\<lambda>b. ret (JBool b, False))
          else ret (JBool False, False))
      else if operator = js ''||'' then
        bind_run (run_boolean rec left) (\<lambda>a.
          if a then ret (JBool True, False)
          else bind_run (run_boolean rec right) (\<lambda>b. ret (JBool b, False)))
      else
        bind_run (rec left) (\<lambda>l. bind_run (rec right) (\<lambda>r. run_operator operator l r position)))"

text \<open>\<open>args[i]\<close>; evaluating a missing argument would read a property of \<open>undefined\<close>.\<close>

definition with_arg :: "expr list \<Rightarrow> nat \<Rightarrow> (expr \<Rightarrow> 'a run) \<Rightarrow> 'a run" where
  "with_arg args i f =
     (if i < length args then f (args ! i)
      else (\<lambda>_. Inl (OtherError (js ''Cannot read properties of undefined (reading kind)''))))"

definition time_field :: "jsstr \<Rightarrow> time_values \<Rightarrow> jsnum" where
  "time_field name v =
     (if name = js ''hour'' then hour v
      else if name = js ''minute'' then minute v
      else if name = js ''weekday'' then weekday v
      else if name = js ''month'' then month v
      else day v)"

definition cached_time :: "renv \<Rightarrow> jsstr \<Rightarrow> time_values run" where
  "cached_time env zone = (\<lambda>st.
     case map_of (timeValues st) zone of
       Some v \<Rightarrow> Inr (v, st)
     | None \<Rightarrow>
         res_bind (timeInBillingZone (host env) (instant env) zone) (\<lambda>v.
           Inr (v, st\<lparr>timeValues := omap_set zone v (timeValues st)\<rparr>)))"

definition run_call ::
  "renv \<Rightarrow> (expr \<Rightarrow> rvalue run) \<Rightarrow> jsstr \<Rightarrow> expr list \<Rightarrow> nat \<Rightarrow> rvalue run" where
  "run_call env rec name args position =
     (let numeric_arg = (\<lambda>i. with_arg args i (run_numeric rec));
          string_arg = (\<lambda>i. with_arg args i (run_string rec)) in
      if name = js ''fixed'' then
        bind_run (numeric_arg 0) (\<lambda>(amount, _) st.
          Inr ((JNum (mul_num amount (Fin 1000000)), False),
               st\<lparr>billingUnit := Unit_request, fixedPrice := Some amount\<rparr>))
      else if name = js ''tier'' then
        bind_run (string_arg 0) (\<lambda>tier_name.
        bind_run (numeric_arg 1) (\<lambda>(value, _) st.
          Inr ((JNum value, False), st\<lparr>matchedTier := tier_name\<rparr>)))
      else if name = js ''param'' then
        bind_run (string_arg 0) (\<lambda>path.
          case request (ctx env) of
            None \<Rightarrow> throw_at Missing_context (js ''request body'') position
          | Some r \<Rightarrow> bind_run (lift_res (readRequestPath (body r) path)) (\<lambda>v. ret (v, False)))
      else if name = js ''header'' then
        bind_run (string_arg 0) (\<lambda>raw.
          case request (ctx env) of
            None \<Rightarrow> throw_at Missing_context (js ''request headers'') position
          | Some r \<Rightarrow>
              ret (JStr (case map_of (header_map env) (lower_case (host env) (trim raw)) of
                           Some v \<Rightarrow> v | None \<Rightarrow> []), False))
      else if name = js ''u'' then
        bind_run (string_arg 0) (\<lambda>key.
          case usage (ctx env) of
            None \<Rightarrow> throw_at Missing_context (js ''task usage'') position
          | Some us \<Rightarrow> ret (case map_of us key of Some v \<Rightarrow> v | None \<Rightarrow> JNull, False))
      else if name = js ''has'' then
        bind_run (with_arg args 0 rec) (\<lambda>(source, _).
        bind_run (string_arg 1) (\<lambda>substring.
          if nullish source \<or> substring = [] then ret (JBool False, False)
          else bind_run (lift_res (billingString source)) (\<lambda>t.
            ret (JBool (str_includes t substring), False))))
      else if name = js ''min'' then
        bind_run (numeric_arg 0) (\<lambda>(a, _). bind_run (numeric_arg 1) (\<lambda>(b, _).
          ret (JNum (min_num a b), False)))
      else if name = js ''max'' then
        bind_run (numeric_arg 0) (\<lambda>(a, _). bind_run (numeric_arg 1) (\<lambda>(b, _).
          ret (JNum (max_num a b), False)))
      else if name = js ''abs'' then
        bind_run (numeric_arg 0) (\<lambda>(a, _). ret (JNum (abs_num a), False))
      else if name = js ''floor'' then
        bind_run (numeric_arg 0) (\<lambda>(a, _). ret (JNum (floor_num a), False))
      else if name = js ''ceil'' then
        bind_run (numeric_arg 0) (\<lambda>(a, _). ret (JNum (ceil_num a), False))
      else if name \<notin> set TIME_FUNCTIONS then
        (\<lambda>_. bill_error Unsupported name None)
      else
        bind_run (string_arg 0) (\<lambda>raw.
        bind_run (cached_time env (trim raw)) (\<lambda>v.
          ret (JNum (time_field name v), True))))"

definition evaluate_node :: "renv \<Rightarrow> (expr \<Rightarrow> rvalue run) \<Rightarrow> expr \<Rightarrow> rvalue run" where
  "evaluate_node env rec node =
     (case node of
        Literal v i _ _ \<Rightarrow> ret (lit_val v, i = Some True)
      | Variable name s _ \<Rightarrow> run_variable env name s
      | Conditional condition yes no _ _ \<Rightarrow>
          bind_run (run_boolean rec condition) (\<lambda>b.
          bind_run (mark_rule env node b) (\<lambda>_.
            rec (if b then yes else no)))
      | Unary operator operand _ _ \<Rightarrow>
          if operator = js ''!'' then
            bind_run (run_boolean rec operand) (\<lambda>b. ret (JBool (\<not> b), False))
          else
            bind_run (run_numeric rec operand) (\<lambda>(v, i).
              ret (JNum (if operator = js ''-'' then uminus_num v else v), i))
      | Binary operator left right s _ \<Rightarrow> run_binary rec operator left right s
      | Call name args s _ \<Rightarrow> run_call env rec name args s)"

definition check_number :: "expr \<Rightarrow> rvalue \<Rightarrow> rvalue run" where
  "check_number node v =
     (case fst v of
        JNum n \<Rightarrow>
          if \<not> is_finite n then throw_at Number_error (js ''non-finite result'') (estart node)
          else if snd v \<and> \<not> is_safe_integer n then
            throw_at Unsupported (js ''integer precision'') (estart node)
          else ret v
      | _ \<Rightarrow> ret v)"

text \<open>\<open>evaluate\<close> with \<open>levels = 256 - depth\<close> levels left.\<close>

primrec evaluate_at :: "renv \<Rightarrow> nat \<Rightarrow> expr \<Rightarrow> rvalue run" where
  "evaluate_at env 0 node = (\<lambda>_. bill_error Limit (js ''evaluation depth'') None)"
| "evaluate_at env (Suc levels) node =
     bind_run (evaluate_node env (evaluate_at env levels) node) (check_number node)"

definition evaluate :: "renv \<Rightarrow> expr \<Rightarrow> rvalue run" where
  "evaluate env node = evaluate_at env 256 node"

section \<open>Entry points\<close>

definition evaluateBillingCondition :: "platform \<Rightarrow> compiled \<Rightarrow> expr \<Rightarrow> jsdate \<Rightarrow> bool option" where
  "evaluateBillingCondition h c node moment =
     (case res_bind (new_runtime h c (empty_context\<lparr>now := Some moment\<rparr>)) (\<lambda>(env, st). evaluate env node st) of
        Inr ((JBool b, _), _) \<Rightarrow> Some b
      | _ \<Rightarrow> None)"

record evaluation =
  cost :: jsnum
  eunit :: billing_unit
  eimageCount :: "jsnum option"
  efixedPrice :: "jsnum option"
  etier :: jsstr
  erules :: "request_rule list"

definition check_token :: "unit \<Rightarrow> jsstr \<times> jsval \<Rightarrow> thrown + unit" where
  "check_token _ entry =
     (case snd entry of
        JNum n \<Rightarrow>
          if \<not> is_finite n \<or> lt_num n (Fin 0) then bill_error Number_error (fst entry) None else Inr ()
      | _ \<Rightarrow> bill_error Number_error (fst entry) None)"

definition program_result ::
  "compiled \<Rightarrow> simulation_context \<Rightarrow> jsval \<Rightarrow> rstate \<Rightarrow> thrown + evaluation" where
  "program_result c context v st =
     (case v of
        JNum result \<Rightarrow>
          if \<not> is_finite result \<or> lt_num result (Fin 0) then
            bill_error Number_error (js ''billing result'') None
          else
            Inr \<lparr>cost = result, eunit = billingUnit st,
                 eimageCount =
                   (if js ''image_count'' \<in> set (cvariables c)
                    then Some (case imageCount context of None \<Rightarrow> Fin 1 | Some n \<Rightarrow> n) else None),
                 efixedPrice = fixedPrice st, etier = matchedTier st, erules = requestRules st\<rparr>
      | _ \<Rightarrow> bill_error Number_error (js ''billing result'') None)"

definition run_program ::
  "platform \<Rightarrow> compiled \<Rightarrow> simulation_context \<Rightarrow> thrown + evaluation" where
  "run_program h c context =
     res_bind (fold_res check_token (case tokens context of None \<Rightarrow> [] | Some ts \<Rightarrow> ts) ()) (\<lambda>_.
     res_bind (new_runtime h c context) (\<lambda>(env, st).
     res_bind (evaluate env (cast c) st) (\<lambda>(v, st). program_result c context (fst v) st)))"

text \<open>\<open>evaluateBillingExpression\<close> on a source string; the compile cache is threaded through.\<close>

definition evaluate_compiled ::
  "platform \<Rightarrow> compilation_result \<Rightarrow> simulation_context \<Rightarrow> expression_failure + evaluation" where
  "evaluate_compiled h r context =
     (case r of
        Inl failure \<Rightarrow> Inl failure
      | Inr c \<Rightarrow>
          (case run_program h c context of
             Inl error \<Rightarrow> Inl (expressionFailure error)
           | Inr result \<Rightarrow> Inr result))"

definition evaluateBillingExpression ::
  "platform \<Rightarrow> jsstr \<Rightarrow> simulation_context \<Rightarrow> compile_cache \<Rightarrow>
   (expression_failure + evaluation) \<times> compile_cache" where
  "evaluateBillingExpression h source context cache =
     (let (r, cache') = compileBillingExpression source cache
      in (evaluate_compiled h r context, cache'))"

section \<open>Reasoning about runs\<close>

text \<open>\<open>outcome E Q R m\<close>: whatever the state, \<open>m\<close> throws an error that satisfies \<open>E\<close>, or returns
  a value that satisfies \<open>Q\<close> in a state that \<open>R\<close> relates to the first one.\<close>

definition outcome ::
  "(thrown \<Rightarrow> bool) \<Rightarrow> ('a \<Rightarrow> bool) \<Rightarrow> (rstate \<Rightarrow> rstate \<Rightarrow> bool) \<Rightarrow> 'a run \<Rightarrow> bool" where
  "outcome E Q R m \<longleftrightarrow>
     (\<forall>st. case m st of Inl e \<Rightarrow> E e | Inr (v, st') \<Rightarrow> Q v \<and> R st st')"



lemma outcome_weaken:
  "outcome E Q R m \<Longrightarrow> (\<And>v. Q v \<Longrightarrow> Q' v) \<Longrightarrow> outcome E Q' R m"
  by (fastforce simp: outcome_def split: sum.splits)

lemma outcome_throw:
  "E (BillingExpressionError \<lparr>dcode = c, detail = d, dposition = Some p\<rparr>) \<Longrightarrow> outcome E Q R (throw_at c d p)"
  by (simp add: outcome_def throw_at_def bill_error_def)

lemma outcome_error: "E e \<Longrightarrow> outcome E Q R (\<lambda>_. Inl e)"
  by (simp add: outcome_def)

lemma outcome_InrD: "outcome E Q R m \<Longrightarrow> m st = Inr (v, st') \<Longrightarrow> Q v \<and> R st st'"
  by (auto simp: outcome_def dest: spec [of _ st])

lemma outcome_InlD: "outcome E Q R m \<Longrightarrow> m st = Inl e \<Longrightarrow> E e"
  by (auto simp: outcome_def dest: spec [of _ st])

text \<open>An evaluation environment together with what its evaluations may throw and how they may
  change the state.  The laws are one per primitive effect of the runtime.\<close>

locale evaluation_effects =
  fixes env :: renv and N :: "expr set" and E :: "thrown \<Rightarrow> bool" and R :: "rstate \<Rightarrow> rstate \<Rightarrow> bool"
  assumes N_closed: "e \<in> N \<Longrightarrow> set (children e) \<subseteq> N"
    and R_refl: "R st st"
    and R_trans: "R st st' \<Longrightarrow> R st' st'' \<Longrightarrow> R st st''"
    and R_mark: "find_index (\<lambda>rule. rnode rule = node) (crules (program env)) = Some i \<Longrightarrow>
      R st (st\<lparr>requestRules := (requestRules st)[i := (requestRules st ! i)\<lparr>rmatched := True\<rparr>]\<rparr>)"
    and R_fixed: "Call (js ''fixed'') args s t \<in> N \<Longrightarrow> R st (st\<lparr>billingUnit := Unit_request, fixedPrice := Some amount\<rparr>)"
    and R_tier: "Call (js ''tier'') args s t \<in> N \<Longrightarrow> R st (st\<lparr>matchedTier := tier_name\<rparr>)"
    and R_time: "timeInBillingZone (host env) (instant env) z = Inr v \<Longrightarrow> map_of (timeValues st) z = None \<Longrightarrow>
      R st (st\<lparr>timeValues := omap_set z v (timeValues st)\<rparr>)"
    and E_other: "E (OtherError m)"
    and E_billing: "dcode d \<noteq> Missing_context \<Longrightarrow> E (BillingExpressionError d)"
    and E_variable: "Variable name s t \<in> N \<Longrightarrow> name \<noteq> js ''image_count'' \<Longrightarrow>
      (case tokens (ctx env) of None \<Rightarrow> JUndef | Some ts \<Rightarrow> jget (JObj ts) name) = JUndef \<Longrightarrow>
      E (BillingExpressionError \<lparr>dcode = Missing_context, detail = text, dposition = Some s\<rparr>)"
    and E_request: "Call name args s t \<in> N \<Longrightarrow> name \<in> {js ''param'', js ''header''} \<Longrightarrow>
      request (ctx env) = None \<Longrightarrow>
      E (BillingExpressionError \<lparr>dcode = Missing_context, detail = text, dposition = Some s\<rparr>)"
    and E_usage: "Call (js ''u'') args s t \<in> N \<Longrightarrow> usage (ctx env) = None \<Longrightarrow>
      E (BillingExpressionError \<lparr>dcode = Missing_context, detail = text, dposition = Some s\<rparr>)"
begin

lemma outcome_ret: "Q v \<Longrightarrow> outcome E Q R (ret v)"
  by (simp add: outcome_def ret_def R_refl)

lemma outcome_bind:
  assumes "outcome E P R m" and "\<And>v. P v \<Longrightarrow> outcome E Q R (f v)"
  shows "outcome E Q R (bind_run m f)"
  unfolding outcome_def
proof
  fix st
  show "case bind_run m f st of Inl e \<Rightarrow> E e | Inr (v, st') \<Rightarrow> Q v \<and> R st st'"
  proof (cases "m st")
    case (Inl e)
    then show ?thesis using outcome_InlD [OF assms(1)] by (simp add: bind_run_def)
  next
    case (Inr p)
    then obtain v st1 where m: "m st = Inr (v, st1)" by (cases p) auto
    then have P: "P v" "R st st1" using outcome_InrD [OF assms(1)] by auto
    have "case f v st1 of Inl e \<Rightarrow> E e | Inr (w, st') \<Rightarrow> Q w \<and> R st1 st'"
      using assms(2) [OF P(1)] by (simp add: outcome_def)
    then show ?thesis
      using m P(2) R_trans by (auto simp: bind_run_def split: sum.splits)
  qed
qed

lemma outcome_bill_error: "c \<noteq> Missing_context \<Longrightarrow> outcome E Q R (throw_at c d p)"
  by (simp add: outcome_throw E_billing)

lemma outcome_boolean:
  assumes "outcome E (\<lambda>_. True) R (rec x)"
  shows "outcome E (\<lambda>_. True) R (run_boolean rec x)"
  unfolding run_boolean_def
  by (rule outcome_bind [OF assms]) (auto split: jsval.splits prod.splits intro!: outcome_ret outcome_bill_error)

lemma outcome_numeric:
  assumes "outcome E Q R (rec x)" and "\<And>n i. Q (JNum n, i) \<Longrightarrow> P (n, i)"
  shows "outcome E P R (run_numeric rec x)"
  unfolding run_numeric_def
  by (rule outcome_bind [OF assms(1)])
     (auto split: jsval.splits prod.splits intro!: outcome_ret outcome_bill_error assms(2))

lemma outcome_string:
  assumes "outcome E (\<lambda>_. True) R (rec x)"
  shows "outcome E (\<lambda>_. True) R (run_string rec x)"
  unfolding run_string_def
  by (rule outcome_bind [OF assms]) (auto split: jsval.splits prod.splits intro!: outcome_ret outcome_bill_error)

lemma outcome_with_arg:
  "(\<And>x. x \<in> set args \<Longrightarrow> outcome E Q R (f x)) \<Longrightarrow> outcome E Q R (with_arg args i f)"
  by (auto simp: with_arg_def intro: outcome_error E_other)

lemma outcome_mark: "outcome E (\<lambda>_. True) R (mark_rule env node b)"
  by (auto simp: outcome_def mark_rule_def R_refl R_mark split: option.splits)

lemma time_error:
  assumes "timeInBillingZone (host env) (instant env) z = Inl err"
  shows "E err"
  using assms
  by (auto simp: timeInBillingZone_def bill_error_def Let_def intro!: E_billing
      split: option.splits if_splits)

lemma outcome_time: "outcome E (\<lambda>_. True) R (cached_time env z)"
  using time_error
  by (auto simp: outcome_def cached_time_def R_refl R_time res_simps split: option.splits sum.splits)

end

lemma scan_path_error: "scan_path path cs parts part = Inl err \<Longrightarrow> \<exists>d. err = BillingExpressionError d \<and> dcode d = Unsupported"
  by (induction path cs parts part rule: scan_path.induct)
     (auto simp: path_unsupported_def bill_error_def split: if_splits list.splits)

lemma walk_path_error: "walk_path path v ks = Inl err \<Longrightarrow> \<exists>d. err = BillingExpressionError d \<and> dcode d = Unsupported"
  by (induction path v ks rule: walk_path.induct)
     (auto simp: path_unsupported_def bill_error_def Let_def split: if_splits jsval.splits option.splits)

lemma readRequestPath_error:
  "readRequestPath b p = Inl err \<Longrightarrow> \<exists>d. err = BillingExpressionError d \<and> dcode d = Unsupported"
  using scan_path_error walk_path_error
  by (fastforce simp: readRequestPath_def Let_def res_simps split: if_splits)

lemma map_res_error: "map_res f xs = Inl err \<Longrightarrow> \<exists>x\<in>set xs. f x = Inl err"
  by (induction xs) (auto simp: res_simps)

lemma set_insert_entry [simp]: "set (insert_entry e es) = insert e (set es)"
  by (induction es) auto

lemma set_sort_entries [simp]: "set (sort_entries es) = set es"
proof -
  have "set (foldr insert_entry es acc) = set es \<union> set acc" for acc
    by (induction es) auto
  then show ?thesis by (simp add: sort_entries_def)
qed

lemma billing_string_error:
  "billing_string_at n v = Inl err \<Longrightarrow>
   \<exists>d. err = BillingExpressionError d \<and> dcode d \<in> {Limit, Number_error}"
proof (induction n arbitrary: v)
  case 0
  then show ?case by (auto simp: bill_error_def)
next
  case (Suc n)
  then show ?case
    by (fastforce simp: res_simps go_number_text_def bill_error_def Let_def
        dest!: map_res_error split: jsval.splits jsnum.splits if_splits prod.splits)
qed

context evaluation_effects
begin

lemma outcome_lift: "(\<And>e. r = Inl e \<Longrightarrow> E e) \<Longrightarrow> outcome E (\<lambda>_. True) R (lift_res r)"
  by (cases r) (auto simp: outcome_def lift_res_def R_refl)

lemma outcome_path: "outcome E (\<lambda>_. True) R (lift_res (readRequestPath b p))"
  by (rule outcome_lift) (auto dest!: readRequestPath_error intro: E_billing)

lemma outcome_text: "outcome E (\<lambda>_. True) R (lift_res (billingString v))"
  by (rule outcome_lift) (auto simp: billingString_def dest!: billing_string_error intro!: E_billing)

lemma outcome_variable:
  assumes "Variable name s t \<in> N"
  shows "outcome E (\<lambda>_. True) R (run_variable env name s)"
  using E_variable [OF assms]
  by (auto simp: run_variable_def Let_def E_billing intro!: outcome_ret outcome_throw
      split: jsval.splits)

lemma outcome_operator: "outcome E (\<lambda>_. True) R (run_operator operator l r p)"
  by (auto simp: run_operator_def arithmetic_def Let_def intro!: outcome_ret outcome_bill_error
      split: jsval.splits option.splits)

lemma outcome_binary:
  assumes "\<And>x. x \<in> {l, r} \<Longrightarrow> outcome E (\<lambda>_. True) R (rec x)"
  shows "outcome E (\<lambda>_. True) R (run_binary rec operator l r p)"
  using assms unfolding run_binary_def
  by (auto intro!: outcome_bind [where P = "\<lambda>_. True"] outcome_boolean outcome_ret outcome_operator)

lemma outcome_if:
  "(b \<Longrightarrow> outcome E Q R m) \<Longrightarrow> (\<not> b \<Longrightarrow> outcome E Q R m') \<Longrightarrow> outcome E Q R (if b then m else m')"
  by simp

lemma outcome_fixed:
  "Call (js ''fixed'') args s t \<in> N \<Longrightarrow> outcome E (\<lambda>_. True) R (\<lambda>st. Inr (v, st\<lparr>billingUnit := Unit_request, fixedPrice := Some a\<rparr>))"
  by (simp add: outcome_def R_fixed)

lemma outcome_tier:
  "Call (js ''tier'') args s t \<in> N \<Longrightarrow> outcome E (\<lambda>_. True) R (\<lambda>st. Inr (v, st\<lparr>matchedTier := n\<rparr>))"
  by (simp add: outcome_def R_tier)

lemmas outcome_rules =
  outcome_bind [where P = "\<lambda>_. True"] outcome_ret outcome_bill_error outcome_with_arg outcome_string
  outcome_numeric [where Q = "\<lambda>_. True"] outcome_path outcome_text outcome_time

lemma outcome_call:
  assumes call: "Call name args s t \<in> N" and rec: "\<And>x. x \<in> set args \<Longrightarrow> outcome E (\<lambda>_. True) R (rec x)"
  shows "outcome E (\<lambda>_. True) R (run_call env rec name args s)"
proof -
  have req: "outcome E (\<lambda>_. True) R (case request (ctx env) of
      None \<Rightarrow> throw_at Missing_context d s | Some r \<Rightarrow> f r)"
    if "name \<in> {js ''param'', js ''header''}" "\<And>r. outcome E (\<lambda>_. True) R (f r)" for f :: "_ \<Rightarrow> rvalue run" and d
    using E_request [OF call that(1)] that(2) by (auto intro: outcome_throw split: option.splits)
  have usg: "outcome E (\<lambda>_. True) R (case usage (ctx env) of
      None \<Rightarrow> throw_at Missing_context d s | Some r \<Rightarrow> f r)"
    if "name = js ''u''" "\<And>r. outcome E (\<lambda>_. True) R (f r)" for f :: "_ \<Rightarrow> rvalue run" and d
    using E_usage [of args s t] call that by (auto intro: outcome_throw split: option.splits)
  have fx: "outcome E (\<lambda>_. True) R (\<lambda>st. Inr (v, st\<lparr>billingUnit := Unit_request, fixedPrice := Some a\<rparr>))"
    if "name = js ''fixed''" for v :: rvalue and a
    using outcome_fixed [of args s t] call that by simp
  have tr: "outcome E (\<lambda>_. True) R (\<lambda>st. Inr (v, st\<lparr>matchedTier := n\<rparr>))"
    if "name = js ''tier''" for v :: rvalue and n
    using outcome_tier [of args s t] call that by simp
  show ?thesis
    unfolding run_call_def Let_def case_prod_beta bill_error_def
    by (intro outcome_if; intro outcome_rules rec req usg fx tr outcome_error E_billing TrueI outcome_if;
        simp)
qed

lemma outcome_node:
  assumes N: "node \<in> N" and rec: "\<And>x. x \<in> set (children node) \<Longrightarrow> outcome E (\<lambda>_. True) R (rec x)"
  shows "outcome E (\<lambda>_. True) R (evaluate_node env rec node)"
proof (cases node)
  case (Call name args s t)
  then show ?thesis using outcome_call [of name args s t rec] assms by (simp add: evaluate_node_def)
next
  case (Variable name s t)
  then show ?thesis using outcome_variable assms by (simp add: evaluate_node_def)
next
  case (Binary p l r s t)
  then show ?thesis using outcome_binary [of l r rec] rec by (simp add: evaluate_node_def)
next
  case (Unary p x s t)
  show ?thesis
    unfolding evaluate_node_def Unary expr.case case_prod_beta
    by (intro outcome_if outcome_rules outcome_boolean rec TrueI) (simp_all add: Unary)
next
  case (Conditional c x y s t)
  show ?thesis
    unfolding evaluate_node_def Conditional expr.case
    by (intro outcome_rules outcome_boolean outcome_mark rec) (simp_all add: Conditional)
qed (simp add: evaluate_node_def outcome_ret)

lemma outcome_check: "Q v \<Longrightarrow> outcome E Q R (check_number node v)"
  by (auto simp: check_number_def intro!: outcome_ret outcome_bill_error split: jsval.splits)

lemma outcome_evaluate: "node \<in> N \<Longrightarrow> outcome E (\<lambda>_. True) R (evaluate_at env levels node)"
proof (induction levels arbitrary: node)
  case 0
  then show ?case by (simp add: bill_error_def outcome_error E_billing)
next
  case (Suc n)
  have "outcome E (\<lambda>_. True) R (evaluate_node env (evaluate_at env n) node)"
    using N_closed [OF Suc.prems] Suc by (intro outcome_node) auto
  then show ?case by (auto intro: outcome_bind outcome_check)
qed

end

end
