(* ===== verification/Billing_Evaluation.thy ===== *)
theory Billing_Evaluation
  imports Billing_Runtime
begin

text \<open>
  What an evaluation of a billing expression guarantees: the state changes it may make,
  the errors it may raise, the type of its result, and the meaning of a fixed price.
  The three groups of facts about effects are interpretations of the locale
  \<open>evaluation_effects\<close> on the runtime's own definitions.
\<close>

section \<open>Effects on the state\<close>

text \<open>Rules are only ever marked, never changed or unmarked; the unit becomes \<open>request\<close> exactly
  when a fixed price is set; the table of time values holds what it caches.\<close>

definition times_ok :: "renv \<Rightarrow> rstate \<Rightarrow> bool" where
  "times_ok env st \<longleftrightarrow>
     (\<forall>z v. map_of (timeValues st) z = Some v \<longrightarrow>
        timeInBillingZone (host env) (instant env) z = Inr v)"

definition unit_ok :: "rstate \<Rightarrow> bool" where
  "unit_ok st \<longleftrightarrow> (billingUnit st = Unit_request \<longleftrightarrow> fixedPrice st \<noteq> None)"

definition rule_marks :: "request_rule list \<Rightarrow> request_rule list \<Rightarrow> bool" where
  "rule_marks rs rs' \<longleftrightarrow>
     list_all2 (\<lambda>r r'. r' = r \<or> r' = r\<lparr>rmatched := True\<rparr>) rs rs'"

definition grows :: "renv \<Rightarrow> rstate \<Rightarrow> rstate \<Rightarrow> bool" where
  "grows env st st' \<longleftrightarrow>
     rule_marks (requestRules st) (requestRules st') \<and> (unit_ok st \<longrightarrow> unit_ok st') \<and>
     (times_ok env st \<longrightarrow> times_ok env st')"

lemma rule_marks_refl [simp]: "rule_marks rs rs"
  by (simp add: rule_marks_def list_all2_refl)

lemma rule_marks_trans: "rule_marks rs rs' \<Longrightarrow> rule_marks rs' rs'' \<Longrightarrow> rule_marks rs rs''"
  unfolding rule_marks_def
  by (rule list_all2_trans [where as = rs and bs = rs' and cs = rs'']) auto

lemma rule_marks_update:
  "rule_marks rs (rs[i := (rs ! i)\<lparr>rmatched := True\<rparr>])"
proof -
  have "(rs[i := (rs ! i)\<lparr>rmatched := True\<rparr>]) ! j = rs ! j \<or>
      (rs[i := (rs ! i)\<lparr>rmatched := True\<rparr>]) ! j = (rs ! j)\<lparr>rmatched := True\<rparr>" if "j < length rs" for j
    using that by (cases "i = j") auto
  then show ?thesis by (simp add: rule_marks_def list_all2_conv_all_nth)
qed

lemma grows_trans: "grows env a b \<Longrightarrow> grows env b c \<Longrightarrow> grows env a c"
  unfolding grows_def using rule_marks_trans by blast

interpretation eff: evaluation_effects env UNIV "\<lambda>_. True" "grows env" for env
proof (unfold_locales, goal_cases)
  case (3 a b c)
  then show ?case by (rule grows_trans)
next
  case (4 node i st)
  show ?case by (simp add: grows_def unit_ok_def times_ok_def rule_marks_update)
qed (simp_all add: grows_def unit_ok_def times_ok_def)

lemma evaluate_grows: "evaluate_at env n e st = Inr (v, st') \<Longrightarrow> grows env st st'"
  using outcome_InrD [OF eff.outcome_evaluate] by blast

text \<open>The table of time values is a memo table.\<close>

definition time_call :: "renv \<Rightarrow> jsstr \<Rightarrow> rstate \<Rightarrow> (thrown + time_values) \<times> rstate" where
  "time_call env zone st =
     (case cached_time env zone st of Inl e \<Rightarrow> (Inl e, st) | Inr (v, st') \<Rightarrow> (Inr v, st'))"

interpretation time_memo: memo_table
  "\<lambda>zone. timeInBillingZone (host env) (instant env) zone" "time_call env" "times_ok env" for env
  by unfold_locales
     (auto simp: time_call_def cached_time_def times_ok_def res_bind_def split: option.splits sum.splits)

section \<open>Missing context\<close>

text \<open>Everything the expression reads is supplied.\<close>

definition supplies :: "simulation_context \<Rightarrow> compiled \<Rightarrow> bool" where
  "supplies c p \<longleftrightarrow>
     (\<forall>v\<in>set (cvariables p). v = js ''image_count'' \<or>
        (case tokens c of None \<Rightarrow> False | Some ts \<Rightarrow> jget (JObj ts) v \<noteq> JUndef)) \<and>
     (js ''param'' \<in> set (cfunctions p) \<or> js ''header'' \<in> set (cfunctions p) \<longrightarrow> request c \<noteq> None) \<and>
     (js ''u'' \<in> set (cfunctions p) \<longrightarrow> usage c \<noteq> None)"

definition not_missing :: "thrown \<Rightarrow> bool" where
  "not_missing e \<longleftrightarrow> (\<forall>d. e = BillingExpressionError d \<longrightarrow> dcode d \<noteq> Missing_context)"

lemma postorder_subset: "c \<in> set (children e) \<Longrightarrow> set (postorder c) \<subseteq> set (postorder e)"
  by (subst (2) postorder_children) auto

lemma postorder_closed: "n \<in> set (postorder e) \<Longrightarrow> set (children n) \<subseteq> set (postorder e)"
proof (induction e rule: expr_children_induct)
  case (node e)
  note sub = postorder_subset [of _ e]
  from node.prems show ?case
  proof (rule postorder_cases)
    assume "n = e"
    then show ?thesis using sub postorder_self by blast
  next
    fix c assume "c \<in> set (children e)" "n \<in> set (postorder c)"
    then show ?thesis using node.IH sub by blast
  qed
qed

lemma supplied_effects:
  assumes "supplies (ctx env) (program env)" "compiled_ok (program env)"
  shows "evaluation_effects env (set (postorder (cast (program env)))) not_missing (\<lambda>_ _. True)"
proof -
  have v: "v \<in> set (cvariables (program env))" if "Variable v s t \<in> set (postorder (cast (program env)))" for v s t
    using that assms(2) by (auto simp: compiled_ok_def vars_of_def)
  have f: "f \<in> set (cfunctions (program env))" if "Call f as s t \<in> set (postorder (cast (program env)))" for f as s t
    using that assms(2) by (auto simp: compiled_ok_def calls_of_def)
  show ?thesis
    by unfold_locales
       (use assms(1) postorder_closed in \<open>auto simp: not_missing_def supplies_def split: option.splits dest!: v f\<close>)
qed

lemma new_runtime_ok:
  assumes "new_runtime h c context = Inr (env, st)"
  shows "program env = c \<and> ctx env = context \<and> host env = h \<and>
    requestRules st = map (\<lambda>r. \<lparr>rcond = scond r, rmultiplier = smultiplier r, rmatched = False\<rparr>) (crules c) \<and>
    matchedTier st = [] \<and> billingUnit st = Unit_token \<and> fixedPrice st = None \<and> times_ok env st"
  using assms by (auto simp: new_runtime_def res_simps times_ok_def)

lemma new_runtime_error:
  assumes "new_runtime h c context = Inl err"
  shows "not_missing err"
proof -
  have "not_missing err" if "fold_res (add_header h) hs m = Inl err" for hs m
    using that
    by (induction hs arbitrary: m)
       (auto simp: add_header_def bill_error_def not_missing_def Let_def res_simps split: jsval.splits)
  then show ?thesis using assms by (auto simp: new_runtime_def res_simps)
qed

lemma check_tokens_error: "fold_res check_token ts u = Inl err \<Longrightarrow> not_missing err"
  by (induction ts arbitrary: u)
     (auto simp: check_token_def bill_error_def not_missing_def res_simps split: jsval.splits if_splits)

lemma run_program_not_missing:
  assumes "compiled_ok c" "supplies context c" "run_program h c context = Inl err"
  shows "not_missing err"
proof -
  consider "\<exists>ts. fold_res check_token ts () = Inl err" | "new_runtime h c context = Inl err"
    | env st where "new_runtime h c context = Inr (env, st)" "evaluate env (cast c) st = Inl err"
    | v st where "program_result c context v st = Inl err"
    using assms(3) by (auto simp: run_program_def res_simps)
  then show ?thesis
  proof cases
    case 1
    then show ?thesis using check_tokens_error by blast
  next
    case 2
    then show ?thesis by (rule new_runtime_error)
  next
    case (3 env st)
    then have "program env = c" "ctx env = context" using new_runtime_ok by blast+
    then have "evaluation_effects env (set (postorder (cast c))) not_missing (\<lambda>_ _. True)"
      using supplied_effects [of env] assms(1,2) by simp
    then show ?thesis
      using 3 outcome_InlD evaluation_effects.outcome_evaluate postorder_self
      unfolding evaluate_def by blast
  next
    case (4 v st)
    then show ?thesis
      by (auto simp: not_missing_def program_result_def bill_error_def split: jsval.splits if_splits)
  qed
qed

lemma run_program_Inr:
  assumes "run_program h c context = Inr r"
  obtains env st i st' where "new_runtime h c context = Inr (env, st)"
    "evaluate env (cast c) st = Inr ((JNum (cost r), i), st')"
    "is_finite (cost r)" "\<not> lt_num (cost r) (Fin 0)" "eunit r = billingUnit st'"
    "efixedPrice r = fixedPrice st'" "etier r = matchedTier st'" "erules r = requestRules st'"
proof -
  obtain env st v i st' where e: "new_runtime h c context = Inr (env, st)"
      "evaluate env (cast c) st = Inr ((v, i), st')" "program_result c context v st' = Inr r"
    using assms by (auto simp: run_program_def res_simps)
  then obtain n where "v = JNum n" by (cases v) (auto simp: program_result_def bill_error_def)
  then show thesis
    using e that by (auto simp: program_result_def bill_error_def split: if_splits)
qed

section \<open>Values\<close>

text \<open>A number an evaluation returns is finite, and safe when it is flagged as an integer.\<close>

definition finite_value :: "rvalue \<Rightarrow> bool" where
  "finite_value v \<longleftrightarrow> (\<forall>n. fst v = JNum n \<longrightarrow> is_finite n \<and> (snd v \<longrightarrow> is_safe_integer n))"

lemma bind_run_Inr [res_simps]:
  "bind_run m f st = Inr r \<longleftrightarrow> (\<exists>w st1. m st = Inr (w, st1) \<and> f w st1 = Inr r)"
  by (auto simp: bind_run_def res_simps)

lemma ret_Inr [res_simps]: "ret v st = Inr r \<longleftrightarrow> r = (v, st)"
  by (auto simp: ret_def)

lemma throw_at_Inr [res_simps]: "throw_at c d p st = Inr r \<longleftrightarrow> False"
  by (simp add: throw_at_def bill_error_def)

lemma check_number_Inr [res_simps]:
  "check_number node v st = Inr r \<longleftrightarrow> r = (v, st) \<and> finite_value v"
  by (cases "fst v") (auto simp: check_number_def finite_value_def res_simps)

lemma evaluate_at_0 [res_simps]: "evaluate_at env 0 e st = Inr r \<longleftrightarrow> False"
  by (simp add: bill_error_def)

lemma evaluate_at_Suc [res_simps]:
  "evaluate_at env (Suc n) e st = Inr (v, st') \<longleftrightarrow>
   evaluate_node env (evaluate_at env n) e st = Inr (v, st') \<and> finite_value v"
  by (cases v) (auto simp: res_simps)

lemma evaluate_finite: "evaluate_at env n e st = Inr (v, st') \<Longrightarrow> finite_value v"
  by (cases n) (auto simp: res_simps simp del: evaluate_at.simps)

lemma run_boolean_Inr [res_simps]:
  "run_boolean rec x st = Inr (b, st') \<longleftrightarrow> (\<exists>i. rec x st = Inr ((JBool b, i), st'))"
  by (cases "rec x st")
     (auto simp: run_boolean_def bind_run_def ret_def throw_at_def bill_error_def split: jsval.splits)

lemma run_numeric_Inr [res_simps]:
  "run_numeric rec x st = Inr ((n, i), st') \<longleftrightarrow> rec x st = Inr ((JNum n, i), st')"
  by (cases "rec x st")
     (auto simp: run_numeric_def bind_run_def ret_def throw_at_def bill_error_def split: jsval.splits)

lemma run_string_Inr [res_simps]:
  "run_string rec x st = Inr (s, st') \<longleftrightarrow> (\<exists>i. rec x st = Inr ((JStr s, i), st'))"
  by (cases "rec x st")
     (auto simp: run_string_def bind_run_def ret_def throw_at_def bill_error_def split: jsval.splits)

lemma with_arg_Inr [res_simps]:
  "with_arg args i f st = Inr r \<longleftrightarrow> i < length args \<and> f (args ! i) st = Inr r"
  by (auto simp: with_arg_def)

section \<open>Type soundness\<close>

fun value_has :: "jsval \<Rightarrow> etype \<Rightarrow> bool" where
  "value_has v TNumber = is_num v"
| "value_has v TString = is_str v"
| "value_has v TBoolean = is_bool v"
| "value_has v TNil = (v = JNull)"
| "value_has v TDynamic = True"

text \<open>No sum has two operands of unknown type: such a sum is typed as a number, but
  concatenates when both turn out to be strings.\<close>

definition plain_sums :: "expr \<Rightarrow> bool" where
  "plain_sums e \<longleftrightarrow>
     (\<forall>l r s t. Binary (js ''+'') l r s t \<in> set (postorder e) \<longrightarrow> \<not> (typed l TDynamic \<and> typed r TDynamic))"

lemma plain_sums_children: "plain_sums e \<Longrightarrow> c \<in> set (children e) \<Longrightarrow> plain_sums c"
  unfolding plain_sums_def using postorder_subset by blast

lemma order_value_None: "p \<notin> set comparison_operators \<Longrightarrow> order_value p a b = None"
  by (auto simp: order_value_def comparison_operators_def split: jsval.splits)

lemma arithmetic_value: "arithmetic p x y i pos st = Inr ((v, j), st') \<Longrightarrow> is_num v"
  by (auto simp: arithmetic_def res_simps split: if_splits)

lemma operator_comparison:
  assumes "run_operator p l r pos st = Inr ((v, i), st')" "p \<in> set comparison_operators"
  shows "is_bool v"
proof -
  have np: "p \<noteq> js ''+''" "p \<noteq> js ''-''" "p \<noteq> js ''*''" "p \<noteq> js ''/''" "p \<noteq> js ''%''"
    using assms(2) by (auto simp: comparison_operators_def)
  show ?thesis
    using assms(1) np
    by (auto simp: run_operator_def arithmetic_def Let_def res_simps
        split: jsval.splits option.splits if_splits)
qed

lemma operator_arithmetic:
  assumes "run_operator p l r pos st = Inr ((v, i), st')" "p \<notin> set comparison_operators"
  shows "is_num v \<or> p = js ''+'' \<and> is_str (fst l) \<and> is_str (fst r)"
    "is_str (fst l) \<and> is_str (fst r) \<longrightarrow> is_str v"
proof -
  have np: "p \<noteq> js ''==''" "p \<noteq> js ''!=''"
    using assms(2) by (auto simp: comparison_operators_def)
  show "is_num v \<or> p = js ''+'' \<and> is_str (fst l) \<and> is_str (fst r)"
    "is_str (fst l) \<and> is_str (fst r) \<longrightarrow> is_str v"
    using assms np
    by (auto simp: run_operator_def Let_def res_simps order_value_None
        dest: arithmetic_value split: jsval.splits if_splits)
qed

lemma variable_value: "run_variable env n p st = Inr ((v, i), st') \<Longrightarrow> is_num v"
  by (auto simp: run_variable_def Let_def res_simps split: jsval.splits if_splits)

lemma call_value:
  assumes "run_call env rec n args p st = Inr ((v, i), st')" "call_type n ts = Some t"
  shows "value_has v t"
  using assms
  by (auto simp: run_call_def call_type_def Let_def res_simps TIME_FUNCTIONS_def bill_error_def
      split: if_splits option.splits)

lemma binary_value:
  assumes run: "run_binary rec p l r pos st = Inr ((v, i), st')" and t: "binary_type p a b = Some t"
    and rec: "\<And>x u st w st'. (x, u) \<in> {(l, a), (r, b)} \<Longrightarrow> rec x st = Inr (w, st') \<Longrightarrow> value_has (fst w) u"
    and sums: "p = js ''+'' \<longrightarrow> a \<noteq> TDynamic \<or> b \<noteq> TDynamic"
  shows "value_has v t"
proof (cases "p \<in> set logical_operators")
  case True
  then have "p = js ''&&'' \<or> p = js ''||''" by (auto simp: logical_operators_def)
  then have "is_bool v" using run by (auto simp: run_binary_def res_simps split: if_splits)
  then show ?thesis using t True by (auto simp: binary_type_def split: if_splits)
next
  case False
  then have "p \<noteq> js ''&&''" "p \<noteq> js ''||''" by (auto simp: logical_operators_def)
  then obtain x y st1 st2 where o: "rec l st = Inr (x, st1)" "rec r st1 = Inr (y, st2)"
      "run_operator p x y pos st2 = Inr ((v, i), st')"
    using run by (auto simp: run_binary_def res_simps)
  have xy: "value_has (fst x) a" "value_has (fst y) b"
    using rec [OF _ o(1)] rec [OF _ o(2)] by auto
  show ?thesis
  proof (cases "p \<in> set comparison_operators")
    case True
    then show ?thesis using operator_comparison [OF o(3)] t False by (simp add: binary_type_def)
  next
    case no: False
    show ?thesis
    proof (cases "p = js ''+'' \<and> a = TString \<and> b = TString")
      case True
      then show ?thesis using operator_arithmetic(2) [OF o(3) no] t xy False no by (simp add: binary_type_def)
    next
      case num: False
      then have "t = TNumber" "fits a TNumber" "fits b TNumber"
        using t False no by (auto simp: binary_type_def split: if_splits)
      moreover have "\<not> (is_num w \<and> is_str w)" for w by (cases w) auto
      ultimately show ?thesis
        using operator_arithmetic(1) [OF o(3) no] xy sums by (auto simp: fits_def)
    qed
  qed
qed

theorem evaluate_typed:
  "typed e t \<Longrightarrow> plain_sums e \<Longrightarrow> evaluate_at env n e st = Inr (v, st') \<Longrightarrow> value_has (fst v) t"
proof (induction n arbitrary: e t st v st')
  case 0
  then show ?case by (simp add: bill_error_def)
next
  case (Suc n)
  have run: "evaluate_node env (evaluate_at env n) e st = Inr (v, st')"
    using Suc.prems(3) by (simp add: res_simps del: evaluate_at.simps)
  have IH: "value_has (fst w) u" if "c \<in> set (children e)" "typed c u" "evaluate_at env n c s1 = Inr (w, s2)" for c u w s1 s2
    using Suc.IH that plain_sums_children [OF Suc.prems(2)] by blast
  show ?case
  proof (cases e)
    case (Literal l i s t)
    then show ?thesis using run Suc.prems(1) by (cases l) (auto simp: evaluate_node_def res_simps)
  next
    case (Variable x s t)
    then show ?thesis using run Suc.prems(1) variable_value by (cases v) (auto simp: evaluate_node_def)
  next
    case (Call f args s t)
    then show ?thesis using run Suc.prems(1) call_value by (cases v) (fastforce simp: evaluate_node_def)
  next
    case (Unary p x s t)
    then show ?thesis using run Suc.prems(1) by (auto simp: evaluate_node_def res_simps split: if_splits)
  next
    case (Binary p l r s q)
    then obtain a b where ab: "typed l a" "typed r b" "binary_type p a b = Some t"
      using Suc.prems(1) by auto
    have "run_binary (evaluate_at env n) p l r s st = Inr ((fst v, snd v), st')"
      using run Binary by (simp add: evaluate_node_def)
    then show ?thesis
    proof (rule binary_value [OF _ ab(3)])
      show "p = js ''+'' \<longrightarrow> a \<noteq> TDynamic \<or> b \<noteq> TDynamic"
        using Suc.prems(2) ab Binary postorder_self [of e] by (auto simp: plain_sums_def)
      show "value_has (fst w) u" if "(c, u) \<in> {(l, a), (r, b)}" "evaluate_at env n c s1 = Inr (w, s2)" for c u s1 w s2
        using that IH [of c u s1 w s2] ab Binary by auto
    qed
  next
    case (Conditional c x y s q)
    then obtain a b where ab: "typed x a" "typed y b" "t = (if a = b then a else TDynamic)"
      using Suc.prems(1) by auto
    obtain z st1 where "z \<in> {x, y}" "evaluate_at env n z st1 = Inr (v, st')"
      using run Conditional by (auto simp: evaluate_node_def res_simps split: if_splits)
    then show ?thesis using IH [of z _ st1 v st'] ab Conditional by auto
  qed
qed

section \<open>Fixed prices\<close>

text \<open>An expression without pricing markers leaves the tier, the unit and the price alone.\<close>

definition pricing_kept :: "rstate \<Rightarrow> rstate \<Rightarrow> bool" where
  "pricing_kept st st' \<longleftrightarrow>
     matchedTier st' = matchedTier st \<and> billingUnit st' = billingUnit st \<and> fixedPrice st' = fixedPrice st"

lemma unmarked_effects:
  "\<not> marked e \<Longrightarrow> evaluation_effects env (set (postorder e)) (\<lambda>_. True) pricing_kept"
  by unfold_locales (use postorder_closed in \<open>auto simp: pricing_kept_def marked_def calls_of_def\<close>)

lemma unmarked_keeps:
  "\<not> marked e \<Longrightarrow> evaluate_at env n e st = Inr (v, st') \<Longrightarrow> pricing_kept st st'"
  using outcome_InrD [OF evaluation_effects.outcome_evaluate [OF unmarked_effects postorder_self]] by blast

text \<open>The amounts a fixed-price tree can charge.\<close>

definition amounts :: "expr \<Rightarrow> jsnum set" where
  "amounts e = {a. \<exists>n i s t s' t' s'' t''.
     Call (js ''tier'') [n, Call (js ''fixed'') [Literal (LNum a) i s t] s' t'] s'' t'' \<in> set (postorder e)}"

lemma amounts_child: "c \<in> set (children e) \<Longrightarrow> amounts c \<subseteq> amounts e"
  using postorder_subset [of c e] unfolding amounts_def by blast

text \<open>The price is one of the tree's amounts and the unit is a request, or neither was touched.\<close>

definition priced :: "expr \<Rightarrow> rstate \<Rightarrow> rstate \<Rightarrow> bool" where
  "priced e st st' \<longleftrightarrow>
     (\<exists>a\<in>amounts e. fixedPrice st' = Some a \<and> billingUnit st' = Unit_request) \<or>
     (fixedPrice st' = fixedPrice st \<and> billingUnit st' = billingUnit st)"

lemma priced_kept: "pricing_kept st st1 \<Longrightarrow> priced c st1 st2 \<Longrightarrow> c \<in> set (children e) \<Longrightarrow> priced e st st2"
  using amounts_child [of c e] by (auto simp: priced_def pricing_kept_def)

lemma mark_rule_kept: "mark_rule env node b st = Inr (u, st') \<Longrightarrow> pricing_kept st st'"
  by (auto simp: mark_rule_def pricing_kept_def split: option.splits if_splits)

lemma pricing_kept_trans: "pricing_kept a b \<Longrightarrow> pricing_kept b c \<Longrightarrow> pricing_kept a c"
  by (simp add: pricing_kept_def)

text \<open>A factor of a price holds no marker: it is the image count or a request rule.\<close>

lemma literal_unmarked [simp]: "\<not> marked (Literal l i s t)"
  by (simp add: marked_def calls_of_def)

lemma variable_unmarked [simp]: "\<not> marked (Variable n s t)"
  by (simp add: marked_def calls_of_def)

lemma conditional_marked [simp]:
  "marked (Conditional c x y s t) \<longleftrightarrow> marked c \<or> marked x \<or> marked y"
  by (auto simp: marked_def calls_of_def)

lemma price_factor_unmarked:
  assumes "rules_ok source rules" "price_factor rules f"
  shows "\<not> marked f"
proof (cases "is_image_count f")
  case True
  then show ?thesis by (auto simp: is_image_count_def split: expr.splits)
next
  case False
  then obtain r where r: "r \<in> set rules" "rnode r = f" "\<not> marked (rcondition r)"
    using assms(2) by (auto simp: price_factor_def find_Some_iff intro: nth_mem)
  then have "rule_of source f = Some r" using assms(1) by (auto simp: rules_ok_def)
  then show ?thesis
    using r(3) by (auto simp: rule_of_def split: expr.splits lit.splits if_splits)
qed

lemma run_operator_state: "run_operator p l r pos st = Inr (v, st') \<Longrightarrow> st' = st"
  by (cases "fst l"; cases "fst r")
     (auto simp: run_operator_def arithmetic_def Let_def res_simps split: option.splits if_splits)

lemma evaluate_pos:
  assumes "evaluate_at env n e st = Inr (v, st')"
  obtains m where "n = Suc m" "evaluate_node env (evaluate_at env m) e st = Inr (v, st')"
  using assms by (cases n) (auto simp: evaluate_at_0 evaluate_at_Suc simp del: evaluate_at.simps)

lemma times_run:
  assumes "evaluate_node env rec (Binary (js ''*'') l r s t) st = Inr (v, st')"
  shows "\<exists>x st1 y. rec l st = Inr (x, st1) \<and> rec r st1 = Inr (y, st')"
  using assms by (fastforce simp: evaluate_node_def run_binary_def res_simps dest: run_operator_state)

lemma tier_run:
  assumes "evaluate_node env rec (Call (js ''tier'') [k, p] s t) st = Inr (v, st')"
  shows "\<exists>x st1 y st2 m. rec k st = Inr (x, st1) \<and> rec p st1 = Inr (y, st2) \<and>
    st' = st2\<lparr>matchedTier := m\<rparr>"
  using assms by (fastforce simp: evaluate_node_def run_call_def Let_def res_simps)

lemma fixed_run:
  assumes "evaluate_node env rec (Call (js ''fixed'') [a] s t) st = Inr (v, st')"
  shows "\<exists>x i st1. rec a st = Inr ((JNum x, i), st1) \<and>
    st' = st1\<lparr>billingUnit := Unit_request, fixedPrice := Some x\<rparr>"
  using assms by (fastforce simp: evaluate_node_def run_call_def Let_def res_simps)

text \<open>The price of a fixed-price tree is set by the one leaf its evaluation reaches.\<close>

theorem fixed_tree_priced:
  assumes "rules_ok source rules" "fixed_tree rules e"
  shows "evaluate_at env n e st = Inr (v, st') \<Longrightarrow> priced e st st'"
  using assms(2)
proof (induction arbitrary: n st v st' rule: fixed_tree.induct)
  case (fixed_branch c x y s t)
  obtain m b i st1 u st2 where r: "evaluate_at env m c st = Inr ((JBool b, i), st1)"
      "mark_rule env (Conditional c x y s t) b st1 = Inr (u, st2)"
      "evaluate_at env m (if b then x else y) st2 = Inr (v, st')"
    using fixed_branch.prems by (elim evaluate_pos) (auto simp: evaluate_node_def res_simps)
  have "pricing_kept st st2"
    using unmarked_keeps [OF fixed_branch.hyps(1) r(1)] mark_rule_kept [OF r(2)] pricing_kept_trans by blast
  moreover have "priced (if b then x else y) st2 st'"
    using r(3) fixed_branch.IH by (cases b) simp_all
  ultimately show ?case
    using priced_kept [of st st2 "if b then x else y" st' "Conditional c x y s t"] by auto
next
  case (fixed_right r l s t)
  obtain m x st1 y where e: "evaluate_at env m l st = Inr (x, st1)" "evaluate_at env m r st1 = Inr (y, st')"
    using fixed_right.prems by (elim evaluate_pos) (blast dest: times_run)
  have "priced l st st1" using fixed_right.IH e(1) .
  moreover have "pricing_kept st1 st'"
    using unmarked_keeps [OF price_factor_unmarked [OF assms(1) fixed_right.hyps(1)] e(2)] .
  ultimately show ?case
    using amounts_child [of l "Binary (js ''*'') l r s t"] by (auto simp: priced_def pricing_kept_def)
next
  case (fixed_left l r s t)
  obtain m x st1 y where e: "evaluate_at env m l st = Inr (x, st1)" "evaluate_at env m r st1 = Inr (y, st')"
    using fixed_left.prems by (elim evaluate_pos) (blast dest: times_run)
  show ?case
    using unmarked_keeps [OF price_factor_unmarked [OF assms(1) fixed_left.hyps(1)] e(1)]
      fixed_left.IH [OF e(2)] by (auto intro: priced_kept)
next
  case (fixed_price k a s' t' s t)
  obtain x i q1 q2 where a: "a = Literal (LNum x) i q1 q2"
    using fixed_price.hyps(2) by (auto simp: fixed_amount_def)
  obtain m st1 w st2 j where e: "evaluate_at env m (Call (js ''fixed'') [a] s' t') st1 = Inr (w, st2)"
      "st' = st2\<lparr>matchedTier := j\<rparr>"
    using fixed_price.prems by (elim evaluate_pos) (blast dest: tier_run)
  obtain m' z b st3 where f: "evaluate_at env m' a st1 = Inr ((JNum z, b), st3)"
      "st2 = st3\<lparr>billingUnit := Unit_request, fixedPrice := Some z\<rparr>"
    using e(1) by (elim evaluate_pos) (blast dest: fixed_run)
  have "z = x"
    using f(1) a by (elim evaluate_pos) (auto simp: evaluate_node_def res_simps)
  moreover have "x \<in> amounts (Call (js ''tier'') [k, Call (js ''fixed'') [a] s' t'] s t)"
    using a postorder_self unfolding amounts_def by blast
  ultimately show ?case using e f by (auto simp: priced_def)
next
  case (fixed_token k p s t)
  obtain m x st1 y st2 j where e: "evaluate_at env m k st = Inr (x, st1)" "evaluate_at env m p st1 = Inr (y, st2)"
      "st' = st2\<lparr>matchedTier := j\<rparr>"
    using fixed_token.prems by (elim evaluate_pos) (blast dest: tier_run)
  show ?case
    using unmarked_keeps [OF fixed_token.hyps(1) e(1)] unmarked_keeps [OF fixed_token.hyps(2) e(2)] e(3)
    by (simp add: priced_def pricing_kept_def)
qed

lemma amounts_unmarked: "\<not> marked e \<Longrightarrow> amounts e = {}"
  by (auto simp: amounts_def marked_def calls_of_def)

lemma amounts_children:
  "a \<in> amounts e \<Longrightarrow> (\<exists>c\<in>set (children e). a \<in> amounts c) \<or>
   (\<exists>n i s t s' t' s'' t''. e = Call (js ''tier'') [n, Call (js ''fixed'') [Literal (LNum a) i s t] s' t'] s'' t'')"
  unfolding amounts_def by (subst (asm) postorder_children) auto

lemma fixed_tree_amounts:
  assumes "rules_ok source rules" "fixed_tree rules e" "a \<in> amounts e"
  shows "le_num (Fin 0) a \<and> is_finite (mul_num a (Fin 1000000))"
  using assms(2,3)
proof (induction rule: fixed_tree.induct)
  case (fixed_price n x s' t' s t)
  have "\<not> marked x" using fixed_price.hyps(2) by (auto simp: fixed_amount_def)
  then have "amounts (Call (js ''fixed'') [x] s' t') = {}"
    using amounts_children [of _ "Call (js ''fixed'') [x] s' t'"] amounts_unmarked by auto
  then show ?case
    using amounts_children [OF fixed_price.prems] amounts_unmarked [OF fixed_price.hyps(1)] fixed_price.hyps(2)
    by (auto simp: fixed_amount_def)
next
  case (fixed_token n p s t)
  have "marked (Call (js ''fixed'') as s' t')" for as s' t'
    by (simp add: marked_def calls_of_def) blast
  then show ?case
    using amounts_children [OF fixed_token.prems] amounts_unmarked fixed_token.hyps by auto
next
  case (fixed_branch c x y s t)
  then show ?case using amounts_children [OF fixed_branch.prems] amounts_unmarked by auto
next
  case (fixed_right r l s t)
  then show ?case
    using amounts_children [OF fixed_right.prems] amounts_unmarked price_factor_unmarked [OF assms(1)] by auto
next
  case (fixed_left l r s t)
  then show ?case
    using amounts_children [OF fixed_left.prems] amounts_unmarked price_factor_unmarked [OF assms(1)] by auto
qed

lemma no_fixed_effects:
  "js ''fixed'' \<notin> calls_of e \<Longrightarrow>
   evaluation_effects env (set (postorder e)) (\<lambda>_. True) (\<lambda>st st'. fixedPrice st' = fixedPrice st)"
  by unfold_locales (use postorder_closed in \<open>auto simp: calls_of_def\<close>)

lemma no_fixed_kept:
  "js ''fixed'' \<notin> calls_of e \<Longrightarrow> evaluate_at env n e st = Inr (v, st') \<Longrightarrow> fixedPrice st' = fixedPrice st"
  using outcome_InrD [OF evaluation_effects.outcome_evaluate [OF no_fixed_effects postorder_self]] by blast

end
