(* ===== verification/Billing_Display.thy ===== *)
theory Billing_Display
  imports Billing_Evaluation
begin

text \<open>
  Price tables read from billing expressions
  (\<open>web/src/features/pricing/lib/billing-expression/display.ts\<close>): the ordered chain of token
  tiers, its branches by time, and the tiers of task pricing.  The readers accept a tree only
  when all of it has the shape of a table.
\<close>

section \<open>Tables\<close>

record token_condition =
  tc_var :: jsstr
  tc_op :: jsstr
  tc_value :: jsnum

record token_tier =
  conditionText :: "jsstr option"
  imageCountTier :: bool
  tierUnit :: "billing_unit option"
  tierFixed :: "jsnum option"
  label :: jsstr
  conditions :: "token_condition list"
  prices :: "(jsstr \<times> jsnum) list"

record time_token_tier =
  tt_tier :: token_tier
  timeConditions :: "(expr \<times> bool) list"

fun flattenBinary :: "jsstr \<Rightarrow> expr \<Rightarrow> expr list" where
  "flattenBinary operator (Binary p l r s e) =
     (if p = operator then flattenBinary operator l @ flattenBinary operator r else [Binary p l r s e])"
| "flattenBinary operator node = [node]"

definition ordering_operators :: "jsstr list" where
  "ordering_operators = [js ''<'', js ''<='', js ''>'', js ''>='']"

definition token_condition_of :: "expr \<Rightarrow> token_condition option" where
  "token_condition_of part =
     (case part of
        Binary p (Variable name _ _) (Literal (LNum v) _ _ _) _ _ \<Rightarrow>
          if p \<in> set ordering_operators \<and> name \<in> {js ''p'', js ''c'', js ''len''} \<and> \<not> lt_num v (Fin 0)
          then Some \<lparr>tc_var = name, tc_op = p, tc_value = v\<rparr> else None
      | _ \<Rightarrow> None)"

definition tokenConditions :: "expr \<Rightarrow> token_condition list option" where
  "tokenConditions node = those (map token_condition_of (flattenBinary (js ''&&'') node))"

definition nonnegativePriceLiteral :: "expr \<Rightarrow> jsnum option" where
  "nonnegativePriceLiteral node =
     (case node of
        Literal (LNum v) _ _ _ \<Rightarrow> if le_num (Fin 0) v then Some v else None
      | Unary p (Literal (LNum v) _ _ _) _ _ \<Rightarrow>
          if p = js ''-'' \<and> eq_num v (Fin 0) then Some NegZero else None
      | _ \<Rightarrow> None)"

definition literal_zero :: "expr \<Rightarrow> bool" where
  "literal_zero node = (case node of Literal (LNum v) _ _ _ \<Rightarrow> eq_num v (Fin 0) | _ \<Rightarrow> False)"

definition text_remainder :: "expr \<Rightarrow> bool" where
  "text_remainder node =
     (case node of
        Binary p (Variable l _ _) (Variable r _ _) _ _ \<Rightarrow> p = js ''-'' \<and> l = js ''len'' \<and> r = js ''ai''
      | _ \<Rightarrow> False)"

text \<open>The token variable a price applies to: a variable, or \<open>max(len - ai, 0)\<close> for the text part.\<close>

definition priced_variable :: "expr \<Rightarrow> jsstr option" where
  "priced_variable input =
     (case input of
        Variable name _ _ \<Rightarrow> if name \<noteq> js ''len'' \<and> name \<noteq> js ''image_count'' then Some name else None
      | Call name [a, b] _ _ \<Rightarrow>
          if name \<noteq> js ''max'' then None
          else if literal_zero a then (if text_remainder b then Some (js ''p'') else None)
          else if literal_zero b \<and> text_remainder a then Some (js ''p'') else None
      | _ \<Rightarrow> None)"

definition price_term :: "expr \<Rightarrow> (jsstr \<times> jsnum) option" where
  "price_term term =
     (case term of
        Binary p l r _ _ \<Rightarrow>
          if p \<noteq> js ''*'' then None
          else
            (case nonnegativePriceLiteral r of
               Some pr \<Rightarrow> map_option (\<lambda>v. (v, pr)) (priced_variable l)
             | None \<Rightarrow>
                 (case nonnegativePriceLiteral l of
                    Some pr \<Rightarrow> map_option (\<lambda>v. (v, pr)) (priced_variable r)
                  | None \<Rightarrow> None))
      | _ \<Rightarrow> None)"

fun collect_prices :: "expr list \<Rightarrow> (jsstr \<times> jsnum) list \<Rightarrow> (jsstr \<times> jsnum) list option" where
  "collect_prices [] acc = Some acc"
| "collect_prices (t # ts) acc =
     (case price_term t of
        None \<Rightarrow> None
      | Some (v, pr) \<Rightarrow>
          if v \<in> fst ` set acc then None else collect_prices ts (acc @ [(v, pr)]))"

definition plain_tier :: token_tier where
  "plain_tier = \<lparr>conditionText = None, imageCountTier = False, tierUnit = None, tierFixed = None,
     label = [], conditions = [], prices = []\<rparr>"

definition fixed_literal :: "expr \<Rightarrow> jsnum option" where
  "fixed_literal price =
     (case price of
        Call name (Literal (LNum v) _ _ _ # _) _ _ \<Rightarrow> if name = js ''fixed'' then Some v else None
      | _ \<Rightarrow> None)"

definition tokenTier :: "expr \<Rightarrow> token_condition list \<Rightarrow> token_tier option" where
  "tokenTier node conds =
     (case node of
        Call name (Literal (LStr text) _ _ _ # price # _) _ _ \<Rightarrow>
          if name \<noteq> js ''tier'' then None
          else
            (case fixed_literal price of
               Some amount \<Rightarrow> Some (plain_tier\<lparr>label := text, conditions := conds,
                 tierUnit := Some Unit_request, tierFixed := Some amount\<rparr>)
             | None \<Rightarrow>
                 (case collect_prices (flattenBinary (js ''+'') price) [] of
                    None \<Rightarrow> None
                  | Some [] \<Rightarrow> None
                  | Some ps \<Rightarrow> Some (plain_tier\<lparr>label := text, conditions := conds, prices := ps\<rparr>)))
      | _ \<Rightarrow> None)"

section \<open>Token tiers\<close>

definition audio_input :: "expr \<Rightarrow> jsstr option" where
  "audio_input part =
     (case part of
        Binary p (Variable name _ _) (Literal (LNum v) _ _ _) _ _ \<Rightarrow>
          if p = js ''>'' \<and> (name = js ''ai'' \<or> name = js ''ao'') \<and> eq_num v (Fin 0) then Some name else None
      | _ \<Rightarrow> None)"

definition audio_tiers :: "expr \<Rightarrow> token_tier list option" where
  "audio_tiers node =
     (case node of
        Conditional (Binary p l r _ _) yes no _ _ \<Rightarrow>
          if p = js ''||'' \<and> card (set (List.map_filter audio_input [l, r])) = 2 then
            (case (tokenTier yes [], tokenTier no []) of
               (Some audio, Some text_only) \<Rightarrow>
                 Some [audio\<lparr>conditionText := Some (js ''Audio requests'')\<rparr>,
                       text_only\<lparr>conditionText := Some (js ''Text-only requests'')\<rparr>]
             | _ \<Rightarrow> None)
          else None
      | _ \<Rightarrow> None)"

fun token_chain :: "expr \<Rightarrow> token_tier list option" where
  "token_chain (Conditional c yes no s e) =
     (case tokenConditions c of
        None \<Rightarrow> None
      | Some conds \<Rightarrow>
          (case tokenTier yes conds of
             None \<Rightarrow> None
           | Some t \<Rightarrow> map_option (\<lambda>ts. t # ts) (token_chain no)))"
| "token_chain node = map_option (\<lambda>t. [t]) (tokenTier node [])"

fun readTokenTierChain :: "expr \<Rightarrow> token_tier list option" where
  "readTokenTierChain (Binary p l r s e) =
     (if p = js ''*'' \<and> is_image_count l
      then map_option (map (\<lambda>t. t\<lparr>imageCountTier := True\<rparr>)) (readTokenTierChain r)
      else if p = js ''*'' \<and> is_image_count r
      then map_option (map (\<lambda>t. t\<lparr>imageCountTier := True\<rparr>)) (readTokenTierChain l)
      else token_chain (Binary p l r s e))"
| "readTokenTierChain node =
     (case audio_tiers node of Some ts \<Rightarrow> Some ts | None \<Rightarrow> token_chain node)"

section \<open>Branches by time\<close>

definition pure_functions :: "jsstr list" where
  "pure_functions = TIME_FUNCTIONS @ map js [''min'', ''max'', ''abs'', ''ceil'', ''floor'']"

definition isTimeCondition :: "expr \<Rightarrow> thrown + bool" where
  "isTimeCondition node =
     res_bind (expressionDependencies node) (\<lambda>(variables, functions).
       Inr (variables = [] \<and> list_ex (\<lambda>f. f \<in> set TIME_FUNCTIONS) functions \<and>
         list_all (\<lambda>f. f \<in> set pure_functions) functions))"

definition condition_source :: "jsstr \<Rightarrow> expr \<times> bool \<Rightarrow> jsstr" where
  "condition_source source c =
     (let text = js ''('' @ slice source (estart (fst c)) (eend (fst c)) @ js '')''
      in if snd c then text else js ''!'' @ text)"

definition condition_text :: "token_condition \<Rightarrow> jsstr" where
  "condition_text c = tc_var c @ js '' '' @ tc_op c @ js '' '' @ num_text (tc_value c)"

definition time_tier :: "jsstr \<Rightarrow> (expr \<times> bool) list \<Rightarrow> token_tier \<Rightarrow> time_token_tier" where
  "time_tier source path t =
     \<lparr>tt_tier = t\<lparr>conditionText := Some (join (js '' && '')
        (join (js '' && '') (map (condition_source source) path) # map condition_text (conditions t)))\<rparr>,
      timeConditions = path\<rparr>"

fun timeTierBranches ::
  "jsstr \<Rightarrow> expr \<Rightarrow> (expr \<times> bool) list \<Rightarrow> thrown + time_token_tier list option" where
  "timeTierBranches source (Conditional c yes no s e) path =
     res_bind (isTimeCondition c) (\<lambda>timed.
       if timed then
         res_bind (timeTierBranches source yes (path @ [(c, True)])) (\<lambda>y.
         res_bind (timeTierBranches source no (path @ [(c, False)])) (\<lambda>n.
           Inr (case (y, n) of (Some ys, Some ns) \<Rightarrow> Some (ys @ ns) | _ \<Rightarrow> None)))
       else Inr (if path = [] then None
         else map_option (map (time_tier source path)) (readTokenTierChain (Conditional c yes no s e))))"
| "timeTierBranches source node path =
     Inr (if path = [] then None else map_option (map (time_tier source path)) (readTokenTierChain node))"

definition current_tier :: "platform \<Rightarrow> compiled \<Rightarrow> jsdate \<Rightarrow> time_token_tier \<Rightarrow> bool" where
  "current_tier h c moment t =
     list_all (\<lambda>(condition, matches). evaluateBillingCondition h c condition moment = Some matches) (timeConditions t)"

definition readTimeTokenPricing ::
  "platform \<Rightarrow> jsstr \<Rightarrow> jsdate option \<Rightarrow> compile_cache \<Rightarrow>
   (thrown + (time_token_tier list \<times> time_token_tier list) option) \<times> compile_cache" where
  "readTimeTokenPricing h source moment cache =
     (let (r, cache') = compileBillingExpression source cache
      in ((case r of
             Inl _ \<Rightarrow> Inr None
           | Inr c \<Rightarrow>
               res_bind (timeTierBranches (csource c) (cast c) []) (\<lambda>branches.
                 Inr (map_option (\<lambda>tiers. (tiers,
                   (case moment of None \<Rightarrow> [] | Some m \<Rightarrow> filter (current_tier h c m) tiers))) branches))),
          cache'))"

section \<open>Task tiers\<close>

record usage_field =
  uf_type :: jsstr
  uf_enum :: "jsstr list option"
  uf_unit :: "jsstr option"

type_synonym usage_schema = "(jsstr \<times> usage_field) list"

record task_tier =
  taskLabel :: jsstr
  taskConditions :: "(jsstr \<times> jsstr) list"
  taskConstant :: jsnum
  unitPrices :: "(jsstr \<times> jsnum) list"

text \<open>\<open>u("field")\<close>.\<close>

definition usage_name :: "expr \<Rightarrow> jsstr option" where
  "usage_name node =
     (case node of
        Call name (Literal (LStr f) _ _ _ # _) _ _ \<Rightarrow> if name = js ''u'' then Some f else None
      | _ \<Rightarrow> None)"

definition task_condition :: "usage_schema \<Rightarrow> bool \<Rightarrow> expr \<Rightarrow> (jsstr \<times> jsstr) option" where
  "task_condition schema includeBoolean term =
     (case term of
        Binary p l (Literal v _ _ _) _ _ \<Rightarrow>
          if p \<noteq> js ''=='' then None
          else
            (case usage_name l of
               None \<Rightarrow> None
             | Some f \<Rightarrow>
                 (case map_of schema f of
                    None \<Rightarrow> None
                  | Some d \<Rightarrow>
                      if uf_type d = js ''boolean'' then
                        (case v of LBool b \<Rightarrow>
                           if includeBoolean then Some (f, if b then js ''true'' else js ''false'') else None
                         | _ \<Rightarrow> None)
                      else
                        (case v of LStr s \<Rightarrow>
                           if uf_enum d \<noteq> None \<and> s \<in> set (the (uf_enum d)) then Some (f, s) else None
                         | _ \<Rightarrow> None)))
      | _ \<Rightarrow> None)"

definition read_task_conditions :: "expr \<Rightarrow> usage_schema \<Rightarrow> bool \<Rightarrow> (jsstr \<times> jsstr) list option" where
  "read_task_conditions node schema includeBoolean =
     those (map (task_condition schema includeBoolean) (flattenBinary (js ''&&'') node))"

text \<open>\<open>u("field") * price\<close>, divided by a million when the field counts tokens.\<close>

definition task_unit_term :: "usage_schema \<Rightarrow> expr \<Rightarrow> (jsstr \<times> jsnum) option" where
  "task_unit_term schema t =
     (let (scaled, bad, core) =
        (case t of
           Binary p l r _ _ \<Rightarrow>
             if p = js ''/'' then
               (True, \<not> (case r of Literal (LNum v) _ _ _ \<Rightarrow> eq_num v (Fin 1000000) | _ \<Rightarrow> False), l)
             else (False, False, t)
         | _ \<Rightarrow> (False, False, t))
      in if bad then None
         else case core of
           Binary p l r _ _ \<Rightarrow>
             if p \<noteq> js ''*'' then None
             else
               (case (usage_name l, nonnegativePriceLiteral r) of
                  (Some f, Some amount) \<Rightarrow>
                    (case map_of schema f of
                       None \<Rightarrow> None
                     | Some d \<Rightarrow>
                         if uf_type d \<noteq> js ''number'' \<or> uf_unit d = None \<or> uf_unit d = Some [] then None
                         else if (uf_unit d = Some (js ''token'')) \<noteq> scaled then None
                         else Some (f, amount))
                | _ \<Rightarrow> None)
         | _ \<Rightarrow> None)"

fun collect_task_prices ::
  "usage_schema \<Rightarrow> expr list \<Rightarrow> jsnum option \<Rightarrow> (jsstr \<times> jsnum) list \<Rightarrow>
   (jsnum option \<times> (jsstr \<times> jsnum) list) option" where
  "collect_task_prices schema [] k acc = Some (k, acc)"
| "collect_task_prices schema (t # ts) k acc =
     (case nonnegativePriceLiteral t of
        Some v \<Rightarrow> if k \<noteq> None then None else collect_task_prices schema ts (Some v) acc
      | None \<Rightarrow>
          (case task_unit_term schema t of
             None \<Rightarrow> None
           | Some (f, amount) \<Rightarrow>
               if f \<in> fst ` set acc then None else collect_task_prices schema ts k (acc @ [(f, amount)])))"

definition taskTier :: "expr \<Rightarrow> (jsstr \<times> jsstr) list \<Rightarrow> usage_schema \<Rightarrow> task_tier option" where
  "taskTier node conds schema =
     (case node of
        Call name (Literal (LStr text) _ _ _ # price # _) _ _ \<Rightarrow>
          if name \<noteq> js ''tier'' then None
          else
            (case collect_task_prices schema (flattenBinary (js ''+'') price) None [] of
               None \<Rightarrow> None
             | Some (k, us) \<Rightarrow>
                 if us = [] then None
                 else Some \<lparr>taskLabel = text, taskConditions = conds,
                   taskConstant = (case k of None \<Rightarrow> Fin 0 | Some v \<Rightarrow> v), unitPrices = us\<rparr>)
      | _ \<Rightarrow> None)"

fun readTaskTierChain :: "usage_schema \<Rightarrow> bool \<Rightarrow> expr \<Rightarrow> task_tier list option" where
  "readTaskTierChain schema includeBoolean (Conditional c yes no s e) =
     (case read_task_conditions c schema includeBoolean of
        None \<Rightarrow> None
      | Some conds \<Rightarrow>
          (case taskTier yes conds schema of
             None \<Rightarrow> None
           | Some t \<Rightarrow> map_option (\<lambda>ts. t # ts) (readTaskTierChain schema includeBoolean no)))"
| "readTaskTierChain schema includeBoolean node = map_option (\<lambda>t. [t]) (taskTier node [] schema)"

end
