(* ===== verification/Js_Number_Text.thy ===== *)
theory Js_Number_Text
  imports Js_Format
begin

text \<open>
  Printing a non-negative binary64 number and reading it again: \<open>Number(String(x))\<close> is \<open>x\<close>,
  whatever layout the printer chooses.  Both the reader of numeric strings and the pattern
  for plain decimal numerals accept the printed text.
\<close>

section \<open>Numerals\<close>

text \<open>The three parts of a printed numeral: digits, digits after a point, a signed exponent.\<close>

definition numeral_text :: "jsstr \<Rightarrow> jsstr option \<Rightarrow> int option \<Rightarrow> jsstr" where
  "numeral_text ip fp e =
     ip @ (case fp of None \<Rightarrow> [] | Some f \<Rightarrow> 46 # f) @
     (case e of None \<Rightarrow> [] | Some n \<Rightarrow> 101 # int_text n)"

definition digits :: "jsstr \<Rightarrow> bool" where
  "digits s \<longleftrightarrow> s \<noteq> [] \<and> list_all is_digit s"

definition numeral_parts :: "jsstr \<Rightarrow> jsstr option \<Rightarrow> bool" where
  "numeral_parts ip fp \<longleftrightarrow> digits ip \<and> (\<forall>f. fp = Some f \<longrightarrow> digits f)"

lemma digits_takeWhile [simp]:
  "list_all is_digit s \<Longrightarrow> takeWhile is_digit (s @ t) = s @ takeWhile is_digit t"
  "list_all is_digit s \<Longrightarrow> dropWhile is_digit (s @ t) = dropWhile is_digit t"
  by (auto simp: list_all_iff)

lemma digits_all [simp]:
  "list_all is_digit s \<Longrightarrow> takeWhile is_digit s = s" "list_all is_digit s \<Longrightarrow> dropWhile is_digit s = []"
  by (auto simp: list_all_iff takeWhile_eq_all_conv)

lemma nat_digits_all [simp]: "list_all is_digit (nat_digits n)"
  using nat_digits_digits by (simp add: list_all_iff)

lemma not_digit [simp]: "\<not> is_digit 46" "\<not> is_digit 101" "\<not> is_digit 43" "\<not> is_digit 45"
  by (simp_all add: is_digit_def)

lemma int_text_parts:
  "int_text e = (if e < 0 then 45 else 43) # nat_digits (nat \<bar>e\<bar>)"
  by (simp add: int_text_def js_eval)

lemma decimal_literal_numeral:
  assumes "numeral_parts ip fp"
  shows "decimal_literal (numeral_text ip fp e) =
    Some (decimal_num ip (case fp of None \<Rightarrow> [] | Some f \<Rightarrow> f) (case e of None \<Rightarrow> 0 | Some n \<Rightarrow> n))"
  using assms
  by (cases fp; cases e)
     (auto simp: decimal_literal_def numeral_text_def numeral_parts_def digits_def int_text_parts Let_def)

lemma digit_not_space: "is_digit c \<Longrightarrow> \<not> is_space c"
  by (auto simp: is_digit_def is_space_def)

lemma trim_id: "s \<noteq> [] \<Longrightarrow> \<not> is_space (hd s) \<Longrightarrow> \<not> is_space (last s) \<Longrightarrow> trim s = s"
  by (simp add: trim_def dropWhile_id hd_rev)

lemma digits_last: "digits s \<Longrightarrow> is_digit (last s)"
  by (auto simp: digits_def list_all_iff)

lemma digits_hd: "digits s \<Longrightarrow> is_digit (hd s)"
  by (auto simp: digits_def list_all_iff)

lemma digits_nat_digits [simp]: "digits (nat_digits n)"
  by (simp add: digits_def)

lemma numeral_text_ends:
  assumes "numeral_parts ip fp"
  shows "numeral_text ip fp e \<noteq> []" "is_digit (hd (numeral_text ip fp e))" "is_digit (last (numeral_text ip fp e))"
proof -
  have ip: "digits ip" and fp: "\<And>f. fp = Some f \<Longrightarrow> digits f" using assms by (auto simp: numeral_parts_def)
  show "numeral_text ip fp e \<noteq> []" using ip by (simp add: numeral_text_def digits_def)
  show "is_digit (hd (numeral_text ip fp e))" using ip digits_hd [OF ip] by (simp add: numeral_text_def digits_def)
  show "is_digit (last (numeral_text ip fp e))"
    using ip digits_last [OF ip] digits_last [OF fp] digits_last [OF digits_nat_digits] fp
    by (cases fp; cases e) (auto simp: numeral_text_def int_text_parts digits_def)
qed

lemma numeral_text_trim: "numeral_parts ip fp \<Longrightarrow> trim (numeral_text ip fp e) = numeral_text ip fp e"
  using numeral_text_ends [of ip fp e] digit_not_space by (intro trim_id) auto

lemma numeral_text_not_radix:
  assumes "numeral_parts ip fp"
  shows "radix_literal (numeral_text ip fp e) = None"
proof -
  obtain d r where ip: "ip = d # r" "is_digit d" "list_all is_digit r"
    using assms by (cases ip) (auto simp: numeral_parts_def digits_def)
  have "x \<notin> {120, 88, 111, 79, 98, 66}" if "take 2 (numeral_text ip fp e) = [c, x]" for c x
    using that ip by (cases r; cases fp; cases e) (auto simp: numeral_text_def is_digit_def int_text_parts)
  then show ?thesis
    by (auto simp: radix_literal_def Let_def js_eval)
qed

lemma string_number_numeral:
  assumes "numeral_parts ip fp"
  shows "string_number (numeral_text ip fp e) =
    decimal_num ip (case fp of None \<Rightarrow> [] | Some f \<Rightarrow> f) (case e of None \<Rightarrow> 0 | Some n \<Rightarrow> n)"
proof -
  let ?s = "numeral_text ip fp e"
  have hd: "is_digit (hd ?s)" "?s \<noteq> []" using numeral_text_ends [OF assms] by auto
  then have "hd ?s \<noteq> 45" "hd ?s \<noteq> 43" "?s \<noteq> js ''Infinity''" by (auto simp: is_digit_def js_eval)
  then show ?thesis
    using hd numeral_text_trim [OF assms] numeral_text_not_radix [OF assms] decimal_literal_numeral [OF assms]
    by (simp add: string_number_def Let_def)
qed

section \<open>The printed text\<close>

lemma digits_val_zeros: "digits_val a (replicate z 48) = a * 10 ^ z"
  by (induction z arbitrary: a) simp_all

lemma digits_val_leading: "digits_val 0 (replicate z 48 @ s) = digits_val 0 s"
  by (simp add: digits_val_append digits_val_zeros)

lemma shortest_digits: "digits (fst (shortest x))"
  by (simp add: shortest_def Let_def split: prod.splits)

definition shown_as :: "jsstr \<Rightarrow> jsstr \<Rightarrow> int \<Rightarrow> bool" where
  "shown_as text ds n \<longleftrightarrow> (\<exists>ip fp e. text = numeral_text ip fp e \<and> numeral_parts ip fp \<and>
     decimal_num ip (case fp of None \<Rightarrow> [] | Some f \<Rightarrow> f) (case e of None \<Rightarrow> 0 | Some m \<Rightarrow> m) =
     decimal_num ds [] (n - int (length ds)))"

lemma shown_asI:
  assumes "text = numeral_text ip fp e" "numeral_parts ip fp"
    and "decimal_num ip (case fp of None \<Rightarrow> [] | Some f \<Rightarrow> f) (case e of None \<Rightarrow> 0 | Some m \<Rightarrow> m) =
     decimal_num ds [] (n - int (length ds))"
  shows "shown_as text ds n"
  using assms by (auto simp: shown_as_def)

lemma integer_layout:
  assumes "digits ds" "int (length ds) \<le> n"
  shows "shown_as (ds @ replicate (nat (n - int (length ds))) 48) ds n"
  using assms
  by (intro shown_asI [of _ "ds @ replicate (nat (n - int (length ds))) 48" None None])
     (auto simp: numeral_text_def numeral_parts_def digits_def list_all_iff is_digit_def decimal_num_def digits_val_append
       digits_val_zeros power_int_def)

lemma point_layout:
  assumes "digits ds" "0 < n" "n < int (length ds)"
  shows "shown_as (take (nat n) ds @ js ''.'' @ drop (nat n) ds) ds n"
  using assms
  by (intro shown_asI [of _ "take (nat n) ds" "Some (drop (nat n) ds)" None])
     (auto simp: numeral_text_def numeral_parts_def digits_def decimal_num_def js_eval list_all_iff
       dest: in_set_takeD in_set_dropD)

lemma zero_layout:
  assumes "digits ds" "n \<le> 0"
  shows "shown_as (js ''0.'' @ replicate (nat (- n)) 48 @ ds) ds n"
  using assms digits_val_leading [of "Suc (nat (- n))" ds]
  by (intro shown_asI [of _ "[48]" "Some (replicate (nat (- n)) 48 @ ds)" None])
     (auto simp: numeral_text_def numeral_parts_def digits_def decimal_num_def js_eval list_all_iff is_digit_def)

lemma exponent_layout:
  assumes "digits ds"
  shows "shown_as (exponential_text ds (n - 1)) ds n"
proof (cases ds)
  case (Cons d rest)
  show ?thesis
  proof (cases "rest = []")
    case True
    then show ?thesis
      using assms Cons
      by (intro shown_asI [of _ "[d]" None "Some (n - 1)"])
         (auto simp: exponential_text_def numeral_text_def numeral_parts_def js_eval)
  next
    case False
    then show ?thesis
      using assms Cons
      by (intro shown_asI [of _ "[d]" "Some rest" "Some (n - 1)"])
         (auto simp: exponential_text_def numeral_text_def numeral_parts_def digits_def decimal_num_def js_eval
           diff_diff_eq split: list.splits)
  qed
qed (use assms in \<open>simp add: digits_def\<close>)

lemma positive_text_shown: "shown_as (positive_text x) (fst (shortest x)) (snd (shortest x))"
  using shortest_digits [of x]
  by (auto simp: positive_text_def Let_def case_prod_beta integer_layout point_layout zero_layout exponent_layout)

lemma num_text_shown:
  assumes "plain_double v"
  shows "\<exists>ip fp e. num_text v = numeral_text ip fp e \<and> numeral_parts ip fp \<and>
    decimal_num ip (case fp of None \<Rightarrow> [] | Some f \<Rightarrow> f) (case e of None \<Rightarrow> 0 | Some m \<Rightarrow> m) = v"
proof -
  obtain x where x: "v = Fin x" "0 \<le> x" "to_double x = Fin x" using assms by (auto simp: plain_double_def)
  show ?thesis
  proof (cases "x = 0")
    case True
    then show ?thesis
      using x by (intro exI [of _ "[48]"] exI [of _ None])
        (simp add: numeral_text_def numeral_parts_def digits_def is_digit_def decimal_num_def js_eval)
  next
    case False
    then have "decimal_num (fst (shortest x)) [] (snd (shortest x) - int (length (fst (shortest x)))) = v"
      using shortest_reads_back x by simp
    moreover have "num_text v = positive_text x" using False x by simp
    ultimately show ?thesis using positive_text_shown [of x] by (simp add: shown_as_def)
  qed
qed

theorem num_text_reads_back:
  assumes "plain_double v"
  shows "string_number (num_text v) = v" "decimal_literal (trim (num_text v)) = Some v"
proof -
  obtain ip fp e where t: "num_text v = numeral_text ip fp e" "numeral_parts ip fp"
      "decimal_num ip (case fp of None \<Rightarrow> [] | Some f \<Rightarrow> f) (case e of None \<Rightarrow> 0 | Some m \<Rightarrow> m) = v"
    using num_text_shown [OF assms] by blast
  show "string_number (num_text v) = v" using string_number_numeral [OF t(2)] t by simp
  show "decimal_literal (trim (num_text v)) = Some v"
    using decimal_literal_numeral [OF t(2)] numeral_text_trim [OF t(2)] t by simp
qed

section \<open>Whole numbers\<close>

lemma shortest_from_early:
  "k \<le> j \<Longrightarrow> j < k + n \<Longrightarrow> candidate x j \<noteq> None \<Longrightarrow> snd (shortest_from n k x) \<le> j"
proof (induction n arbitrary: k)
  case (Suc n)
  show ?case
  proof (cases "candidate x k")
    case None
    then have "k \<noteq> j" using Suc.prems(3) by auto
    then have "snd (shortest_from n (Suc k) x) \<le> j" using Suc.prems by (intro Suc.IH) auto
    then show ?thesis using None by simp
  qed (use Suc.prems in simp)
qed simp

lemma whole_shortest:
  assumes "to_double x = Fin x" "x = of_int i" "1 \<le> x" "point x \<le> 20"
  shows "int (length (fst (shortest x))) \<le> snd (shortest x) \<and> snd (shortest x) \<le> 21"
proof -
  have pos: "0 < x" using assms(3) by simp
  have "x < 10 powi point x" using ilog_bounds [of 10 x] pos by (simp add: point_def)
  moreover have "10 powi point x \<le> (10::rat) powi 0" if "point x \<le> 0" using that by (intro power_int_increasing) auto
  ultimately have "1 \<le> point x" using assms(3) by force
  then obtain j where j: "point x = int j" "1 \<le> j" by (metis nat_0_le nat_le_iff of_nat_1 of_nat_le_iff order_trans zero_le_one int_nat_eq)
  have c: "candidate x j \<noteq> None" using candidate_exact [OF assms(1), of j i] j(1) assms(2) by simp
  obtain s k where sk: "shortest_from 1400 1 x = (s, k)" by force
  have "j < 1 + 1400" using j(1) assms(4) by simp
  then have k: "k \<le> j" "1 \<le> k" "candidate x k = Some s"
    using shortest_from_early [of 1 j 1400 x] shortest_from_hit [of 1 j 1400 x] c j(2) sk by auto
  have b: "10 ^ (k - 1) \<le> s" "s \<le> 10 ^ k" using candidate_digits [OF pos k(2,3)] by auto
  obtain m where m: "k = Suc m" using k(2) by (cases k) auto
  have "length (fst (shortest x)) = k"
  proof (cases "s = 10 ^ k")
    case True
    then show ?thesis using length_nat_digits [of m "10 ^ m"] sk m by (simp add: shortest_def)
  next
    case False
    then show ?thesis
      using length_nat_digits [of m "nat s"] b m sk by (simp add: shortest_def nat_le_iff le_nat_iff nat_less_iff)
  qed
  moreover have "snd (shortest x) = point x \<or> snd (shortest x) = point x + 1"
    using sk by (simp add: shortest_def)
  ultimately show ?thesis using k(1) j(1) assms(4) by auto
qed

lemma whole_text_digits:
  assumes "to_double x = Fin x" "x = of_int i" "1 \<le> x" "point x \<le> 20"
  shows "digits (num_text (Fin x))"
proof -
  have "num_text (Fin x) = positive_text x" using assms(3) by simp
  then show ?thesis
    using whole_shortest [OF assms] shortest_digits [of x]
    by (auto simp: positive_text_def Let_def case_prod_beta digits_def list_all_iff is_digit_def simp del: num_text.simps)
qed

lemma point_le:
  assumes "0 < x" "x < 10 ^ n"
  shows "point x \<le> int n"
proof -
  have "10 powi (point x - 1) \<le> x" using ilog_bounds [of 10 x] assms(1) by (simp add: point_def)
  also have "x < 10 powi int n" using assms(2) by simp
  finally have "(10::rat) powi (point x - 1) < 10 powi int n" .
  moreover have "(10::rat) powi int n \<le> 10 powi (point x - 1)" if "int n \<le> point x - 1"
    using that by (intro power_int_increasing) auto
  ultimately show ?thesis by force
qed

end
