(* ===== verification/Billing_Visual.thy ===== *)
theory Billing_Visual
  imports Billing_Display Js_Number_Text
begin

text \<open>
  The visual editor of billing expressions (\<open>billing-expression/visual.ts\<close>): a document is the
  source and a tree of branches, conditions and tiers, each of which remembers the syntax node
  it was read from.  Writing a document patches the source at the remembered nodes, so that
  what was not edited keeps its spelling.

  Two syntax nodes are the same object exactly when they are equal with their positions, since
  no two nodes of a parsed tree have the same position.
\<close>

section \<open>Documents\<close>

datatype visual_condition =
  V_comparison (vc_id: jsstr) (vc_origin: "expr option") jsstr jsstr jsstr jsstr
| V_all (vc_id: jsstr) (vc_origin: "expr option") "visual_condition list"
| V_any (vc_id: jsstr) (vc_origin: "expr option") "visual_condition list"
| V_not (vc_id: jsstr) (vc_origin: "expr option") visual_condition

record visual_price =
  vp_variable :: jsstr
  vp_value :: jsstr
  vp_origin :: "expr option"

record visual_tier =
  vt_label :: jsstr
  vt_prices :: "visual_price list"
  vt_unit :: billing_unit
  vt_fixed :: jsstr

datatype visual_pricing =
  V_tier (vn_id: jsstr) (vn_origin: "expr option") visual_tier
| V_branch (vn_id: jsstr) (vn_origin: "expr option") visual_condition visual_pricing visual_pricing

record visual_document =
  vd_source :: jsstr
  vd_root :: visual_pricing

type_synonym visual_issue = "jsstr \<times> jsstr"

definition COMPARISONS :: "jsstr list" where
  "COMPARISONS = map js [''<'', ''<='', ''>'', ''>='', ''=='', ''!='']"

definition TIME_DOMAINS :: "jsstr \<Rightarrow> nat \<times> nat" where
  "TIME_DOMAINS f =
     (if f = js ''hour'' then (0, 23)
      else if f = js ''minute'' then (0, 59)
      else if f = js ''weekday'' then (0, 6)
      else if f = js ''month'' then (1, 12)
      else (1, 31))"

text \<open>The counter of the module and the identifiers drawn from it.\<close>

definition visualNodeId :: "nat \<Rightarrow> jsstr \<times> nat" where
  "visualNodeId nextId = (js ''draft-'' @ nat_digits (Suc nextId), Suc nextId)"

definition createEmptyVisualCondition :: "nat \<Rightarrow> visual_condition \<times> nat" where
  "createEmptyVisualCondition nextId =
     (let (i, nextId') = visualNodeId nextId
      in (V_comparison i None (js ''hour'') (js ''Asia/Shanghai'') (js ''>='') [], nextId'))"

section \<open>Reading\<close>

definition node_id :: "string \<Rightarrow> expr \<Rightarrow> jsstr" where
  "node_id kind node = js kind @ js ''-'' @ nat_digits (estart node) @ js ''-'' @ nat_digits (eend node)"

text \<open>\<open>hour("zone")\<close>, a string literal as the first argument.\<close>

definition zone_call :: "expr \<Rightarrow> (jsstr \<times> jsstr) option" where
  "zone_call node =
     (case node of
        Call name (Literal (LStr zone) _ _ _ # _) _ _ \<Rightarrow> Some (name, zone)
      | _ \<Rightarrow> None)"

definition read_probe :: "expr \<Rightarrow> (jsstr \<times> jsstr) option" where
  "read_probe node =
     (case node of
        Variable name _ _ \<Rightarrow> if name \<in> set (map js [''p'', ''c'', ''len'']) then Some (name, []) else None
      | _ \<Rightarrow>
          (case zone_call node of
             Some (name, zone) \<Rightarrow> if name \<in> set TIME_FUNCTIONS then Some (name, zone) else None
           | None \<Rightarrow> None))"

definition read_comparison :: "expr \<Rightarrow> visual_condition option" where
  "read_comparison node =
     (case node of
        Binary p l (Literal (LNum v) _ _ _) _ _ \<Rightarrow>
          if p \<notin> set COMPARISONS then None
          else
            (case read_probe l of
               None \<Rightarrow> None
             | Some (probe, timezone) \<Rightarrow>
                 Some (V_comparison (node_id ''condition'' node) (Some node) probe timezone p (num_text v)))
      | _ \<Rightarrow> None)"

lemma flattenBinary_size: "c \<in> set (flattenBinary p e) \<Longrightarrow> size c \<le> size e"
  by (induction p e rule: flattenBinary.induct) (auto split: if_splits)

lemma flattenBinary_smaller: "c \<in> set (flattenBinary p (Binary p l r s t)) \<Longrightarrow> size c < size (Binary p l r s t)"
  using flattenBinary_size [of c p l] flattenBinary_size [of c p r] by auto

function readVisualCondition :: "expr \<Rightarrow> visual_condition option" where
  "readVisualCondition node =
     (case node of
        Unary p operand _ _ \<Rightarrow>
          if p = js ''!''
          then map_option (V_not (node_id ''condition'' node) (Some node)) (readVisualCondition operand)
          else None
      | Binary p _ _ _ _ \<Rightarrow>
          if p = js ''&&''
          then map_option (V_all (node_id ''condition'' node) (Some node))
            (those (map readVisualCondition (flattenBinary p node)))
          else if p = js ''||''
          then map_option (V_any (node_id ''condition'' node) (Some node))
            (those (map readVisualCondition (flattenBinary p node)))
          else read_comparison node
      | _ \<Rightarrow> None)"
  by pat_completeness auto
termination
  by (relation "measure size") (auto dest: flattenBinary_size split: if_splits)

declare readVisualCondition.simps [simp del]

definition read_price :: "expr \<Rightarrow> visual_price option" where
  "read_price term =
     (case term of
        Binary p (Variable name _ _) (Literal (LNum v) _ _ _) _ _ \<Rightarrow>
          if p \<noteq> js ''*'' \<or> name = js ''len'' \<or> name = js ''image_count'' \<or> lt_num v (Fin 0) then None
          else Some \<lparr>vp_variable = name, vp_value = num_text v, vp_origin = Some term\<rparr>
      | _ \<Rightarrow> None)"

fun read_prices :: "expr list \<Rightarrow> visual_price list \<Rightarrow> visual_price list option" where
  "read_prices [] acc = Some acc"
| "read_prices (t # ts) acc =
     (case read_price t of
        None \<Rightarrow> None
      | Some p \<Rightarrow>
          if list_ex (\<lambda>q. vp_variable q = vp_variable p) acc then None else read_prices ts (acc @ [p]))"

fun lit_text :: "lit \<Rightarrow> jsstr" where
  "lit_text (LNum v) = num_text v"
| "lit_text (LStr s) = s"
| "lit_text (LBool b) = (if b then js ''true'' else js ''false'')"
| "lit_text LNull = js ''null''"

text \<open>\<open>fixed(literal)\<close>.\<close>

definition fixed_literal_node :: "expr \<Rightarrow> expr option" where
  "fixed_literal_node node =
     (case node of
        Call name (Literal v i s t # _) _ _ \<Rightarrow>
          if name = js ''fixed'' then Some (Literal v i s t) else None
      | _ \<Rightarrow> None)"

definition read_tier :: "expr \<Rightarrow> visual_tier option" where
  "read_tier node =
     (case node of
        Call name (Literal (LStr text) _ _ _ # price # _) _ _ \<Rightarrow>
          if name \<noteq> js ''tier'' then None
          else
            (case fixed_literal_node price of
               Some (Literal v _ _ _) \<Rightarrow>
                 Some \<lparr>vt_label = text, vt_prices = [], vt_unit = Unit_request, vt_fixed = lit_text v\<rparr>
             | _ \<Rightarrow>
                 map_option (\<lambda>ps. \<lparr>vt_label = text, vt_prices = ps, vt_unit = Unit_token, vt_fixed = []\<rparr>)
                   (read_prices (flattenBinary (js ''+'') price) []))
      | _ \<Rightarrow> None)"

fun readVisualPricing :: "expr \<Rightarrow> visual_pricing option" where
  "readVisualPricing (Conditional c y n s t) =
     (case (readVisualCondition c, readVisualPricing y, readVisualPricing n) of
        (Some condition, Some yes, Some no) \<Rightarrow>
          Some (V_branch (node_id ''pricing'' (Conditional c y n s t)) (Some (Conditional c y n s t)) condition yes no)
      | _ \<Rightarrow> None)"
| "readVisualPricing node = map_option (V_tier (node_id ''pricing'' node) (Some node)) (read_tier node)"

section \<open>Strings of the output\<close>

definition hex_digit :: "nat \<Rightarrow> code_unit" where
  "hex_digit d = (if d < 10 then 48 + d else 87 + d)"

definition unicode_escape :: "code_unit \<Rightarrow> jsstr" where
  "unicode_escape c = [92, 117] @ map hex_digit [c div 4096 mod 16, c div 256 mod 16, c div 16 mod 16, c mod 16]"

definition quote_unit :: "code_unit \<Rightarrow> jsstr" where
  "quote_unit c =
     (if c = 8 then [92, 98] else if c = 9 then [92, 116] else if c = 10 then [92, 110]
      else if c = 12 then [92, 102] else if c = 13 then [92, 114]
      else if c = 34 then [92, 34] else if c = 92 then [92, 92]
      else if c < 32 then unicode_escape c else [c])"

text \<open>Surrogates are kept in pairs and escaped alone.\<close>

fun quote_units :: "jsstr \<Rightarrow> jsstr" where
  "quote_units [] = []"
| "quote_units (c # d # s) =
     (if 55296 \<le> c \<and> c \<le> 56319 \<and> 56320 \<le> d \<and> d \<le> 57343 then c # d # quote_units s
      else if 55296 \<le> c \<and> c \<le> 57343 then unicode_escape c @ quote_units (d # s)
      else quote_unit c @ quote_units (d # s))"
| "quote_units [c] = (if 55296 \<le> c \<and> c \<le> 57343 then unicode_escape c else quote_unit c)"

definition json_string :: "jsstr \<Rightarrow> jsstr" where
  "json_string s = [34] @ quote_units s @ [34]"

text \<open>The index a negative or too large argument of \<open>slice\<close> stands for.\<close>

definition slice_index :: "jsstr \<Rightarrow> int \<Rightarrow> nat" where
  "slice_index s i = nat (if i < 0 then int (length s) + i else i)"

type_synonym patch = "expr \<times> jsstr"

definition apply_patch :: "nat \<Rightarrow> jsstr \<Rightarrow> patch \<Rightarrow> jsstr" where
  "apply_patch base result p =
     take (slice_index result (int (estart (fst p)) - int base)) result @ snd p @
     drop (slice_index result (int (eend (fst p)) - int base)) result"

definition patchSource :: "jsstr \<Rightarrow> expr \<Rightarrow> patch list \<Rightarrow> jsstr" where
  "patchSource source origin patches =
     foldl (apply_patch (estart origin)) (slice source (estart origin) (eend origin))
       (sort_key (\<lambda>p. - int (estart (fst p))) patches)"

definition node_text :: "jsstr \<Rightarrow> expr \<Rightarrow> jsstr" where
  "node_text source node = slice source (estart node) (eend node)"

text \<open>The pattern of \<open>parseNonNegativeNumber\<close> accepts the decimal literals.\<close>

definition parseNonNegativeNumber :: "jsstr \<Rightarrow> jsnum option" where
  "parseNonNegativeNumber value =
     (if decimal_literal (trim value) = None then None
      else let number = string_number value
           in if is_finite number \<and> le_num (Fin 0) number then Some number else None)"

text \<open>\<open>value === literal.value\<close>, where \<open>value\<close> is a number or \<open>null\<close>.\<close>

definition same_value :: "jsnum option \<Rightarrow> lit \<Rightarrow> bool" where
  "same_value value l =
     (case (value, l) of
        (Some a, LNum b) \<Rightarrow> eq_num a b
      | (None, LNull) \<Rightarrow> True
      | _ \<Rightarrow> False)"

definition literal_text :: "jsstr \<Rightarrow> jsnum option \<Rightarrow> jsstr \<Rightarrow> expr \<Rightarrow> jsstr" where
  "literal_text source value text node =
     (case node of
        Literal l _ _ _ \<Rightarrow> if same_value value l then node_text source node else text
      | _ \<Rightarrow> text)"

section \<open>Writing conditions\<close>

definition comparison_valid :: "jsstr \<Rightarrow> jsstr \<Rightarrow> jsnum option \<Rightarrow> bool" where
  "comparison_valid probe operator value =
     (case value of
        None \<Rightarrow> False
      | Some n \<Rightarrow>
          if probe \<in> set TIME_FUNCTIONS then
            (let (lo, hi) = TIME_DOMAINS probe in
             is_integer n \<and> le_num (Fin (of_nat lo)) n \<and>
             le_num n (Fin (of_nat (hi + (if operator = js ''<'' then 1 else 0)))))
          else True)"

text \<open>A changed time zone must be known to the host.\<close>

definition zone_rejected :: "platform \<Rightarrow> expr option \<Rightarrow> jsstr \<Rightarrow> bool" where
  "zone_rejected h origin timezone =
     (let originalZone =
        (case origin of
           Some (Binary _ (Call _ (Literal (LStr z) _ _ _ # _) _ _) _ _ _) \<Rightarrow> Some z
         | _ \<Rightarrow> None)
      in originalZone \<noteq> Some timezone \<and> (trim timezone = [] \<or> date_format h (trim timezone) = None))"

definition probe_text :: "jsstr \<Rightarrow> jsstr \<Rightarrow> jsstr" where
  "probe_text probe timezone =
     (if probe \<in> set TIME_FUNCTIONS then probe @ js ''('' @ json_string timezone @ js '')'' else probe)"

definition kept_probe :: "jsstr \<Rightarrow> jsstr \<Rightarrow> jsstr \<Rightarrow> expr \<Rightarrow> jsstr" where
  "kept_probe source probe timezone old =
     (case old of
        Variable name _ _ \<Rightarrow> if name = probe then node_text source old else probe_text probe timezone
      | Call name (Literal (LStr z) _ _ _ # _) _ _ \<Rightarrow>
          if name = probe \<and> z = timezone then node_text source old else probe_text probe timezone
      | _ \<Rightarrow> probe_text probe timezone)"

definition write_comparison ::
  "platform \<Rightarrow> jsstr \<Rightarrow> jsstr \<Rightarrow> expr option \<Rightarrow> jsstr \<Rightarrow> jsstr \<Rightarrow> jsstr \<Rightarrow> jsstr \<Rightarrow> visual_issue list \<Rightarrow>
   jsstr \<times> visual_issue list" where
  "write_comparison h source i origin probe timezone operator value issues =
     (let number = parseNonNegativeNumber value;
          issues1 = (if comparison_valid probe operator number then issues
            else issues @ [(i, js ''Enter a valid condition value.'')]);
          issues2 = (if probe \<in> set TIME_FUNCTIONS \<and> zone_rejected h origin timezone
            then issues1 @ [(i, js ''Choose a valid IANA timezone.'')] else issues1);
          fresh = js ''('' @ probe_text probe timezone @ js '' '' @ operator @ js '' '' @ value @ js '')''
      in ((case origin of
             Some (Binary p l r s t) \<Rightarrow>
               if p = operator
               then patchSource source (Binary p l r s t)
                 [(l, kept_probe source probe timezone l), (r, literal_text source number value r)]
               else fresh
           | _ \<Rightarrow> fresh), issues2))"

definition write_group ::
  "jsstr \<Rightarrow> jsstr \<Rightarrow> expr option \<Rightarrow> visual_condition list \<Rightarrow> jsstr list \<Rightarrow> jsstr" where
  "write_group source operator origin members texts =
     (let fresh = js ''('' @ join (js '' '' @ operator @ js '' '') (map (\<lambda>c. js ''('' @ c @ js '')'') texts) @ js '')''
      in case origin of
        Some (Binary p l r s t) \<Rightarrow>
          let original = flattenBinary operator (Binary p l r s t) in
          if p = operator \<and> map Some original = map vc_origin members
          then patchSource source (Binary p l r s t) (zip original texts)
          else fresh
      | _ \<Rightarrow> fresh)"

definition empty_group :: "jsstr \<Rightarrow> visual_condition list \<Rightarrow> visual_issue list \<Rightarrow> visual_issue list" where
  "empty_group i members issues =
     (if members = [] then issues @ [(i, js ''Add at least one condition to this group.'')] else issues)"

fun writeVisualCondition ::
    "platform \<Rightarrow> jsstr \<Rightarrow> visual_condition \<Rightarrow> visual_issue list \<Rightarrow> jsstr \<times> visual_issue list"
  and write_conditions ::
    "platform \<Rightarrow> jsstr \<Rightarrow> visual_condition list \<Rightarrow> visual_issue list \<Rightarrow> jsstr list \<times> visual_issue list" where
  "writeVisualCondition h source (V_not i origin child) issues =
     (let (text, issues') = writeVisualCondition h source child issues
      in ((case origin of
             Some (Unary p operand s t) \<Rightarrow>
               if vc_origin child = Some operand
               then patchSource source (Unary p operand s t) [(operand, text)]
               else js ''!('' @ text @ js '')''
           | _ \<Rightarrow> js ''!('' @ text @ js '')''), issues'))"
| "writeVisualCondition h source (V_all i origin members) issues =
     (let (texts, issues') = write_conditions h source members (empty_group i members issues)
      in (write_group source (js ''&&'') origin members texts, issues'))"
| "writeVisualCondition h source (V_any i origin members) issues =
     (let (texts, issues') = write_conditions h source members (empty_group i members issues)
      in (write_group source (js ''||'') origin members texts, issues'))"
| "writeVisualCondition h source (V_comparison i origin probe timezone operator value) issues =
     write_comparison h source i origin probe timezone operator value issues"
| "write_conditions h source [] issues = ([], issues)"
| "write_conditions h source (c # cs) issues =
     (let (text, issues1) = writeVisualCondition h source c issues;
          (texts, issues2) = write_conditions h source cs issues1
      in (text # texts, issues2))"

definition visualConditionExpression :: "platform \<Rightarrow> visual_condition \<Rightarrow> jsstr \<Rightarrow> jsstr option" where
  "visualConditionExpression h node source =
     (let (text, issues) = writeVisualCondition h source node []
      in if issues = [] then Some text else None)"

section \<open>Writing prices\<close>

definition label_text :: "jsstr \<Rightarrow> jsstr \<Rightarrow> expr \<Rightarrow> jsstr" where
  "label_text source name node =
     (case node of
        Literal (LStr s) _ _ _ \<Rightarrow> if s = name then node_text source node else json_string name
      | _ \<Rightarrow> json_string name)"

definition price_issue :: "jsstr \<Rightarrow> visual_issue" where
  "price_issue i = (i, js ''Enter a finite, non-negative price.'')"

definition write_fixed ::
  "jsstr \<Rightarrow> jsstr \<Rightarrow> expr option \<Rightarrow> visual_tier \<Rightarrow> visual_issue list \<Rightarrow> jsstr \<times> visual_issue list" where
  "write_fixed source i origin t issues =
     (let value = parseNonNegativeNumber (vt_fixed t);
          good = (case value of None \<Rightarrow> False | Some n \<Rightarrow> is_finite (mul_num n (Fin 1000000)));
          issues' = (if good then issues else issues @ [price_issue (i @ js '':fixed'')]);
          fresh = js ''tier('' @ json_string (vt_label t) @ js '', fixed('' @ vt_fixed t @ js ''))''
      in ((case origin of
             Some (Call name (lab # price # rest) s e) \<Rightarrow>
               if name = js ''tier'' then
                 patchSource source (Call name (lab # price # rest) s e)
                   [(lab, label_text source (vt_label t) lab),
                    (price,
                      (case fixed_literal_node price of
                         Some amount \<Rightarrow> patchSource source price [(amount, literal_text source value (vt_fixed t) amount)]
                       | None \<Rightarrow> js ''fixed('' @ vt_fixed t @ js '')''))]
               else fresh
           | _ \<Rightarrow> fresh), issues'))"

text \<open>One price: its text as a term, and the patch of its value when it has an origin.\<close>

definition price_text :: "jsstr \<Rightarrow> visual_price \<Rightarrow> jsstr \<times> patch list" where
  "price_text source price =
     (let value = parseNonNegativeNumber (vp_value price);
          fresh = (vp_variable price @ js '' * '' @ vp_value price, [])
      in case vp_origin price of
        Some (Binary p l (Literal v k a b) s t) \<Rightarrow>
          let right = Literal v k a b;
              text = literal_text source value (vp_value price) right
          in (patchSource source (Binary p l right s t) [(right, text)], [(right, text)])
      | _ \<Rightarrow> fresh)"

definition price_issues :: "jsstr \<Rightarrow> visual_price list \<Rightarrow> visual_issue list" where
  "price_issues i items =
     map (\<lambda>p. price_issue (i @ js '':'' @ vp_variable p))
       (filter (\<lambda>p. parseNonNegativeNumber (vp_value p) = None) items)"

definition write_prices ::
  "jsstr \<Rightarrow> jsstr \<Rightarrow> expr option \<Rightarrow> visual_tier \<Rightarrow> visual_issue list \<Rightarrow> jsstr \<times> visual_issue list" where
  "write_prices source i origin t issues =
     (let items = vt_prices t;
          issues1 = (if items = [] then issues @ [(i, js ''Include at least one price variable.'')] else issues);
          issues2 = issues1 @ price_issues i items;
          terms = map (fst \<circ> price_text source) items;
          valuePatches = concat (map (snd \<circ> price_text source) items);
          sum = join (js '' + '') terms;
          fresh = js ''tier('' @ json_string (vt_label t) @ js '', '' @ sum @ js '')''
      in ((case origin of
             Some (Call name (lab # price # rest) s e) \<Rightarrow>
               if name = js ''tier'' then
                 let new_label = label_text source (vt_label t) lab;
                     original = flattenBinary (js ''+'') price
                 in if map Some original = map vp_origin items
                    then patchSource source (Call name (lab # price # rest) s e) ((lab, new_label) # valuePatches)
                    else patchSource source (Call name (lab # price # rest) s e) [(lab, new_label), (price, sum)]
               else fresh
           | _ \<Rightarrow> fresh), issues2))"

fun writeVisualPricing ::
  "platform \<Rightarrow> jsstr \<Rightarrow> visual_pricing \<Rightarrow> visual_issue list \<Rightarrow> jsstr \<times> visual_issue list" where
  "writeVisualPricing h source (V_branch i origin c y n) issues =
     (let (condition, issues1) = writeVisualCondition h source c issues;
          (yes, issues2) = writeVisualPricing h source y issues1;
          (no, issues3) = writeVisualPricing h source n issues2
      in ((case origin of
             Some (Conditional oc oy on s t) \<Rightarrow>
               patchSource source (Conditional oc oy on s t) [(oc, condition), (oy, yes), (on, no)]
           | _ \<Rightarrow> js ''('' @ condition @ js '') ? ('' @ yes @ js '') : ('' @ no @ js '')''), issues3))"
| "writeVisualPricing h source (V_tier i origin t) issues =
     (if vt_unit t = Unit_request then write_fixed source i origin t issues
      else write_prices source i origin t issues)"

section \<open>Documents and sources\<close>

definition serializeVisualBillingDocument ::
  "platform \<Rightarrow> visual_document \<Rightarrow> compile_cache \<Rightarrow> (visual_issue list + jsstr) \<times> compile_cache" where
  "serializeVisualBillingDocument h document cache =
     (let (new_text, issues) = writeVisualPricing h (vd_source document) (vd_root document) []
      in if issues \<noteq> [] then (Inl issues, cache)
         else
           let (original, cache1) = compileBillingExpression (vd_source document) cache
           in case original of
             Inl _ \<Rightarrow>
               (Inl [(vn_id (vd_root document),
                  js ''This expression cannot be edited visually without losing information.'')], cache1)
           | Inr c \<Rightarrow>
               let source = take (estart (cast c)) (vd_source document) @ new_text @
                     drop (eend (cast c)) (vd_source document);
                   (compiled, cache2) = compileBillingExpression source cache1
               in (if is_ok compiled then Inr source
                   else Inl [(vn_id (vd_root document), js ''Enter a valid condition value.'')], cache2))"

definition parseVisualBillingDocument ::
  "platform \<Rightarrow> jsstr \<Rightarrow> compile_cache \<Rightarrow> visual_document option \<times> compile_cache" where
  "parseVisualBillingDocument h source cache =
     (let (compiled, cache1) = compileBillingExpression source cache
      in case compiled of
        Inl _ \<Rightarrow> (None, cache1)
      | Inr c \<Rightarrow>
          (case readVisualPricing (cast c) of
             None \<Rightarrow> (None, cache1)
           | Some pricing \<Rightarrow>
               let document = \<lparr>vd_source = source, vd_root = pricing\<rparr>;
                   (written, cache2) = serializeVisualBillingDocument h document cache1
               in (if is_ok written then Some document else None, cache2)))"

end
