(* ===== verification/Billing_Properties.thy ===== *)
theory Billing_Properties
  imports Billing_Evaluation
begin

text \<open>
  The properties of the billing expression language: parser, type checker, compiler,
  cache and evaluation, each with an instance at a concrete expression.  The collection
  \<open>billing_eval\<close> evaluates the definitions on closed terms by rewriting.
\<close>

section \<open>Evaluation by rewriting\<close>

named_theorems billing_eval \<open>equations that run the billing definitions on closed terms\<close>

lemma parser_methods_Suc:
  "p_expression (parser_methods (Suc n) s) m st = expression_method s (parser_methods n s) m st"
  "p_loop (parser_methods (Suc n) s) m l st = binary_loop s (parser_methods n s) m l st"
  "p_primary (parser_methods (Suc n) s) st = primary_method s (parser_methods n s) st"
  "p_args (parser_methods (Suc n) s) as st = argument_loop s (parser_methods n s) as st"
  by (simp_all add: Let_def)

lemma parser_methods_numeral:
  "p_expression (parser_methods (numeral k) s) m st = expression_method s (parser_methods (pred_numeral k) s) m st"
  "p_loop (parser_methods (numeral k) s) m l st = binary_loop s (parser_methods (pred_numeral k) s) m l st"
  "p_primary (parser_methods (numeral k) s) st = primary_method s (parser_methods (pred_numeral k) s) st"
  "p_args (parser_methods (numeral k) s) as st = argument_loop s (parser_methods (pred_numeral k) s) as st"
  by (simp_all only: numeral_eq_Suc parser_methods_Suc)

lemma evaluate_at_numeral:
  "evaluate_at env (numeral k) node st =
     res_bind (evaluate_node env (evaluate_at env (pred_numeral k)) node st) (\<lambda>(v, st). check_number node v st)"
  by (simp add: numeral_eq_Suc bind_run_def)

lemma run_combinators:
  "bind_run m f st = res_bind (m st) (\<lambda>(v, st'). f v st')" "ret v st = Inr (v, st)"
  "throw_at c d p st = bill_error c d (Some p)"
  by (simp_all add: bind_run_def ret_def throw_at_def)

lemma bind_first_cong: "m = m' \<Longrightarrow> res_bind m f = res_bind m' f"
  by simp

lemma exponent_val_Nil: "exponent_val [] = 0"
  by (simp add: exponent_val_def)

lemma decimal_digit: "c \<le> 57 \<Longrightarrow> decimal_num [c] [] 0 = Fin (of_nat (c - 48))"
  using to_double_of_int [of "int (c - 48)"] by (simp add: decimal_num_def)

lemmas lexer_eval [billing_eval] =
  js_eval lex_next_def lex_token_def match_operator_def match_name_def match_number_def
  number_text_def number_value_def number_is_integer_def match_exponent_def is_digit_def
  is_word_def is_alpha_us_def is_space_def two_char_operators_def one_char_operators_def
  exponent_val_Nil decimal_digit is_safe_integer_def is_integer_def Let_def slice_def

lemmas parser_eval [billing_eval] =
  parse_source_def parse_fuel_def parser_methods_Suc parser_methods_numeral expression_method_def
  binary_loop_def call_method_def primary_method_def argument_loop_def ptake_def pexpect_def
  pis_def perror_def parser_init_def match_version_def PRECEDENCE_def BILLING_FUNCTIONS_def
  BILLING_VARIABLES_def TOKEN_VARIABLES_def literal_value_def

lemmas compile_eval [billing_eval] =
  compile_fresh_def compile_parsed_def parse_billing_def checkExpressionTypes_def
  visitExpression_def visit_loop.simps expressionDependencies_def dependency_visitor_def
  type_visitor_def node_type_def call_node_type_def binary_node_type_def requireType_def
  require_arg_def string_key_functions_def TIME_FUNCTIONS_def arithmetic_functions_def
  logical_operators_def comparison_operators_def rule_visitor_def request_functions_def
  bill_error_def set_add_def containsPricingMarker_def factor_accepted_def is_image_count_def
  tier_leaf_def fixed_tree_error_def mul_num_def is_zero_def le_num_def to_double_numeral

lemmas runtime_eval [billing_eval] =
  evaluate_def evaluate_at_numeral run_combinators evaluate_node_def check_number_def
  run_boolean_def run_numeric_def run_string_def run_variable_def run_call_def run_binary_def
  run_operator_def with_arg_def order_value_def arithmetic_def new_runtime_def
  context_headers_def add_header_def run_program_def program_result_def check_token_def
  evaluate_compiled_def empty_context_def mark_rule_def find_index_def lift_res_def
  readRequestPath_def nullish_def

section \<open>Sample expressions\<close>

definition token_source :: jsstr where
  "token_source = js ''tier(\"a\", p)''"

definition fixed_source :: jsstr where
  "fixed_source = js ''tier(\"a\", fixed(2))''"

definition plain_host :: platform where
  "plain_host = \<lparr>lower_case = id, date_format = (\<lambda>_. None), clock = Some 0\<rparr>"

definition token_context :: simulation_context where
  "token_context = empty_context\<lparr>tokens := Some [(js ''p'', JNum (Fin 3))]\<rparr>"

definition token_program :: compiled where
  "token_program =
     \<lparr>csource = token_source,
      cast = Call (js ''tier'') [Literal (LStr (js ''a'')) None 5 8, Variable (js ''p'') 10 11] 0 12,
      cvariables = [js ''p''], cfunctions = [js ''tier''], crules = []\<rparr>"

lemma token_compiles: "compile_fresh token_source = Inr token_program"
  by (simp add: token_source_def token_program_def billing_eval cong: bind_first_cong
      del: parser_methods.simps js_inject)

definition fixed_program :: compiled where
  "fixed_program =
     \<lparr>csource = fixed_source,
      cast = Call (js ''tier'') [Literal (LStr (js ''a'')) None 5 8,
        Call (js ''fixed'') [Literal (LNum (Fin 2)) (Some True) 16 17] 10 18] 0 19,
      cvariables = [], cfunctions = [js ''fixed'', js ''tier''], crules = []\<rparr>"

lemma fixed_compiles: "compile_fresh fixed_source = Inr fixed_program"
  by (simp add: fixed_source_def fixed_program_def billing_eval cong: bind_first_cong
      del: parser_methods.simps js_inject)

definition token_result :: evaluation where
  "token_result = \<lparr>cost = Fin 3, eunit = Unit_token, eimageCount = None, efixedPrice = None,
     etier = js ''a'', erules = []\<rparr>"

definition fixed_result :: evaluation where
  "fixed_result = \<lparr>cost = Fin 2000000, eunit = Unit_request, eimageCount = None,
     efixedPrice = Some (Fin 2), etier = js ''a'', erules = []\<rparr>"

lemma token_runs: "run_program plain_host token_program token_context = Inr token_result"
  by (simp add: token_program_def token_context_def token_result_def plain_host_def billing_eval
      cong: bind_first_cong del: js_inject evaluate_at.simps)

lemma fixed_runs: "run_program plain_host fixed_program empty_context = Inr fixed_result"
  by (simp add: fixed_program_def fixed_result_def plain_host_def billing_eval
      cong: bind_first_cong del: js_inject evaluate_at.simps)

lemma empty_cache_ok: "cache_ok []"
  by (simp add: cache_ok_def)

lemma evaluate_uncached:
  assumes "cache_ok cache"
  shows "fst (evaluateBillingExpression h source context cache) =
    evaluate_compiled h (compile_fresh source) context"
  using compile_step [OF assms, of source] by (simp add: evaluateBillingExpression_def case_prod_beta)

lemma evaluate_Inr:
  assumes "cache_ok cache" "fst (evaluateBillingExpression h source context cache) = Inr r"
  obtains c where "compile_fresh source = Inr c" "run_program h c context = Inr r"
  using assms(2) unfolding evaluate_uncached [OF assms(1)]
  by (auto simp: evaluate_compiled_def split: sum.splits)

lemma compile_fresh_ok: "compile_fresh source = Inr c \<Longrightarrow> csource c = source \<and> compiled_ok c"
  by (auto simp: compile_fresh_def dest: compile_parsed_Inr split: sum.splits)

section \<open>Evaluation\<close>

text \<open>C1: A successful evaluation, whatever the compile cache holds, has a finite cost that is
  not negative; its unit is a request exactly when a fixed price was set; and its trace
  lists the request rules of the compiled expression, in order, with their source
  conditions and multipliers.\<close>

theorem evaluation_success:
  assumes "cache_ok cache" "fst (evaluateBillingExpression h source context cache) = Inr r"
  shows "is_finite (cost r) \<and> le_num (Fin 0) (cost r) \<and>
    (eunit r = Unit_request \<longleftrightarrow> efixedPrice r \<noteq> None) \<and>
    (\<exists>c. compile_fresh source = Inr c \<and>
       map (\<lambda>x. (rcond x, rmultiplier x)) (erules r) = map (\<lambda>s. (scond s, smultiplier s)) (crules c))"
proof -
  obtain c where c: "compile_fresh source = Inr c" "run_program h c context = Inr r"
    using evaluate_Inr [OF assms] .
  obtain env st i st' where new: "new_runtime h c context = Inr (env, st)"
      and run: "evaluate env (cast c) st = Inr ((JNum (cost r), i), st')"
      and r: "is_finite (cost r)" "\<not> lt_num (cost r) (Fin 0)" "eunit r = billingUnit st'"
        "efixedPrice r = fixedPrice st'" "erules r = requestRules st'"
    using run_program_Inr [OF c(2)] by metis
  have g: "grows env st st'" using evaluate_grows run unfolding evaluate_def by blast
  have "le_num (Fin 0) (cost r)"
    using r(1,2) by (cases "cost r") (auto simp: le_num_def)
  moreover have "unit_ok st'"
    using g new_runtime_ok [OF new] by (simp add: grows_def unit_ok_def)
  moreover have "map (\<lambda>x. (rcond x, rmultiplier x)) (requestRules st') =
      map (\<lambda>x. (rcond x, rmultiplier x)) (requestRules st)"
    using g by (auto simp: grows_def rule_marks_def list_all2_conv_all_nth intro!: nth_equalityI)
  ultimately show ?thesis
    using c(1) r new_runtime_ok [OF new] by (auto simp: unit_ok_def comp_def)
qed

theorem evaluation_success_witness:
  "is_finite (cost token_result) \<and> le_num (Fin 0) (cost token_result) \<and>
   fst (evaluateBillingExpression plain_host token_source token_context []) = Inr token_result"
proof -
  have "fst (evaluateBillingExpression plain_host token_source token_context []) = Inr token_result"
    by (simp add: evaluate_uncached [OF empty_cache_ok] token_compiles token_runs evaluate_compiled_def)
  then show ?thesis using evaluation_success [OF empty_cache_ok] by blast
qed

text \<open>C29: A context that supplies every token variable, the request and the usage the
  expression reads never makes the evaluation fail for missing context.\<close>

theorem evaluation_not_missing:
  assumes "cache_ok cache" "compile_fresh source = Inr c" "supplies context c"
    and "fst (evaluateBillingExpression h source context cache) = Inl failure"
  shows "status failure \<noteq> Status_missing_context"
proof -
  obtain err where "run_program h c context = Inl err" "failure = expressionFailure err"
    using assms(4) unfolding evaluate_uncached [OF assms(1)]
    by (auto simp: evaluate_compiled_def assms(2) split: sum.splits)
  moreover have "not_missing err"
    using run_program_not_missing [OF _ assms(3)] compile_fresh_ok [OF assms(2)] calculation(1) by blast
  ultimately show ?thesis
    by (cases err) (auto simp: expressionFailure_def not_missing_def Let_def)
qed

definition negative_context :: simulation_context where
  "negative_context = empty_context\<lparr>tokens := Some [(js ''p'', JNum (Fin (- 1)))]\<rparr>"

theorem evaluation_not_missing_witness:
  "\<exists>failure. fst (evaluateBillingExpression plain_host token_source negative_context []) = Inl failure \<and>
     status failure \<noteq> Status_missing_context"
proof -
  have s: "supplies negative_context token_program"
    by (simp add: supplies_def negative_context_def token_program_def)
  have "\<exists>err. run_program plain_host token_program negative_context = Inl err"
    by (simp add: run_program_def check_token_def negative_context_def empty_context_def bill_error_def)
  then obtain failure where
      "fst (evaluateBillingExpression plain_host token_source negative_context []) = Inl failure"
    by (auto simp: evaluate_uncached [OF empty_cache_ok] token_compiles evaluate_compiled_def)
  then show ?thesis using evaluation_not_missing [OF empty_cache_ok token_compiles s] by blast
qed

text \<open>C21: Type soundness: when the checker gives the compiled expression a type and no sum has two
  operands of unknown type, every value the runtime returns for it has that type, and a
  number is finite and a safe integer when it is flagged as an integer.\<close>

theorem evaluation_type_sound:
  assumes "compile_fresh source = Inr c" "typed (cast c) t" "plain_sums (cast c)"
    and "new_runtime h c context = Inr (env, st)" "evaluate env (cast c) st = Inr (v, st')"
  shows "value_has (fst v) t \<and> finite_value v"
  using evaluate_typed [OF assms(2,3)] evaluate_finite assms(5) unfolding evaluate_def by blast

theorem evaluation_type_sound_witness:
  "\<exists>v. value_has (fst v) TNumber \<and> finite_value v \<and>
     (\<exists>env st st'. new_runtime plain_host token_program token_context = Inr (env, st) \<and>
        evaluate env (cast token_program) st = Inr (v, st'))"
proof -
  obtain env st i st' where r: "new_runtime plain_host token_program token_context = Inr (env, st)"
      "evaluate env (cast token_program) st = Inr ((JNum (cost token_result), i), st')"
    using run_program_Inr [OF token_runs] by metis
  have t: "typed (cast token_program) TNumber"
    by (auto simp: token_program_def call_type_def TIME_FUNCTIONS_def fits_def list_all2_Cons1)
  have p: "plain_sums (cast token_program)"
    by (simp add: plain_sums_def token_program_def)
  show ?thesis
    using evaluation_type_sound [OF token_compiles t p r] r by blast
qed

lemma fixed_price_amount:
  assumes "compile_fresh source = Inr c" "run_program h c context = Inr r" "efixedPrice r = Some a"
  shows "a \<in> amounts (cast c) \<and> eunit r = Unit_request \<and> le_num (Fin 0) a \<and>
    is_finite (mul_num a (Fin 1000000))"
proof -
  obtain env st i st' where new: "new_runtime h c context = Inr (env, st)"
      and run: "evaluate_at env 256 (cast c) st = Inr ((JNum (cost r), i), st')"
      and r: "eunit r = billingUnit st'" "efixedPrice r = fixedPrice st'"
    using run_program_Inr [OF assms(2)] unfolding evaluate_def by metis
  have ok: "compiled_ok c" using compile_fresh_ok [OF assms(1)] by simp
  have st: "fixedPrice st = None" using new_runtime_ok [OF new] by simp
  have "js ''fixed'' \<in> calls_of (cast c)"
    using no_fixed_kept [OF _ run] st r(2) assms(3) by (metis option.distinct(1))
  then have tree: "fixed_tree (crules c) (cast c)" and rules: "rules_ok (csource c) (crules c)"
    using ok map_filter_rules_ok [of "cast c" "csource c"] by (auto simp: compiled_ok_def)
  have "priced (cast c) st st'" using fixed_tree_priced [OF rules tree run] .
  then have "a \<in> amounts (cast c)" "eunit r = Unit_request"
    using st r assms(3) by (auto simp: priced_def)
  then show ?thesis using fixed_tree_amounts [OF rules tree] by blast
qed

text \<open>A fixed price that an evaluation reports is the amount of one of the tiers of the
  expression, is not negative, gives a finite cost per million, and makes the billing unit
  a request.\<close>

theorem fixed_price_charged:
  assumes "compile_fresh source = Inr c" "run_program h c context = Inr r" "efixedPrice r = Some a"
  shows "a \<in> amounts (cast c) \<and> eunit r = Unit_request \<and> le_num (Fin 0) a \<and>
    is_finite (mul_num a (Fin 1000000))"
  by (rule fixed_price_amount [OF assms])

theorem fixed_price_charged_witness:
  "Fin 2 \<in> amounts (cast fixed_program) \<and> eunit fixed_result = Unit_request"
  using fixed_price_charged [OF fixed_compiles fixed_runs, of "Fin 2"] by (simp add: fixed_result_def)

section \<open>Compilation\<close>

text \<open>C22: A ready expression keeps its source; its tree is the parsed tree of that source, well
  formed, typable and at most 256 levels deep; its variables and functions are exactly
  those of the tree; its request rules are exactly the rule conditionals of the tree in
  post-order; and a tree that mentions a fixed price has the shape of a fixed-price tree.\<close>

theorem compile_contract:
  assumes "cache_ok cache" "fst (compileBillingExpression source cache) = Inr c"
  shows "csource c = source \<and> compiled_ok c"
  using assms compile_step [OF assms(1), of source] compile_fresh_ok by simp

theorem compile_contract_witness: "csource fixed_program = fixed_source \<and> compiled_ok fixed_program"
  using compile_contract [OF empty_cache_ok, of fixed_source fixed_program]
    compile_step [OF empty_cache_ok, of fixed_source] fixed_compiles by simp

text \<open>The compile cache is transparent and bounded: any sequence of compilations, starting
  from an empty cache, gives every source the result of a fresh compilation and leaves at
  most 128 entries.\<close>

theorem compile_cache_transparent:
  "fst (compile_memo.call_all sources []) = map compile_fresh sources \<and>
   length (snd (compile_memo.call_all sources [])) \<le> 128"
  using compile_memo.call_all_results [OF empty_cache_ok, of sources] by (simp add: cache_ok_def)

text \<open>C30: The type checker, a visitor that fills a table in post-order, accepts a parsed tree
  exactly when the declarative typing rules give it a type and it is at most 256 deep.\<close>

theorem type_checker_decides:
  assumes "parse_source source = Inr e"
  shows "checkExpressionTypes e = Inr () \<longleftrightarrow> height e \<le> 256 \<and> (\<exists>t. typed e t)"
  using checkExpressionTypes_iff parse_source_good [OF assms] by (simp add: good_def)

theorem type_checker_decides_witness:
  "checkExpressionTypes (cast token_program) = Inr () \<longleftrightarrow> (\<exists>t. typed (cast token_program) t)"
proof -
  have "parse_source token_source = Inr (cast token_program)"
    using compile_fresh_ok [OF token_compiles] by (simp add: compiled_ok_def token_program_def)
  from type_checker_decides [OF this] show ?thesis
    using compile_fresh_ok [OF token_compiles] by (simp add: compiled_ok_def)
qed

section \<open>Parsing\<close>

text \<open>C31: The parser always returns: its recursion is bounded by the source, so the fuel of the
  model is never the reason for a result.\<close>

theorem parser_terminates: "parse_source source \<noteq> Inl Out_of_fuel"
  by (rule parse_source_total)

text \<open>A parsed tree uses only known names, operators and arities, its literals are finite
  and safe when flagged as integers, its nodes lie inside their parents in source order,
  and no two nodes have the same position, so that positions identify nodes.\<close>

theorem parsed_tree_well_formed:
  assumes "parse_source source = Inr e"
  shows "tree_ok e \<and> well_spanned e \<and> eend e \<le> length source \<and> distinct (map node_span (postorder e))"
  using parse_source_good [OF assms] well_spanned_distinct by (simp add: good_def)

theorem parsed_tree_well_formed_witness:
  "tree_ok (cast fixed_program) \<and> distinct (map node_span (postorder (cast fixed_program)))"
proof -
  have "parse_source fixed_source = Inr (cast fixed_program)"
    using compile_fresh_ok [OF fixed_compiles] by (simp add: compiled_ok_def fixed_program_def)
  from parsed_tree_well_formed [OF this] show ?thesis by simp
qed

text \<open>The explicit-stack traversal calls its visitor on the nodes in post-order, and stops
  with an error on every tree deeper than 256.\<close>

theorem traversal_is_postorder:
  "(height e \<le> 256 \<and> visitExpression f e s = fold_res f (postorder e) s) \<or>
   (256 < height e \<and> (\<exists>err. visitExpression f e s = Inl err))"
  using visitExpression_within [of e f s] visit_loop_beyond [of 0 e f "[]" s]
  by (cases "height e \<le> 256") (auto simp: visitExpression_def)

end
