(* ===== verification/Billing_Visual_Lossless.thy ===== *)
theory Billing_Visual_Lossless
  imports Billing_Visual Billing_Properties
begin

text \<open>
  A document that is written as it was read gives back the source, character by character:
  every patch puts the text of its node where that text already is.
\<close>

section \<open>Patches\<close>

text \<open>A node inside the span of another, within the source.\<close>

definition inside :: "jsstr \<Rightarrow> expr \<Rightarrow> expr \<Rightarrow> bool" where
  "inside source origin n \<longleftrightarrow>
     estart origin \<le> estart n \<and> estart n \<le> eend n \<and> eend n \<le> eend origin \<and> eend origin \<le> length source"

lemma take_slice: "a \<le> b \<Longrightarrow> b \<le> c \<Longrightarrow> take (b - a) (slice s a c) = slice s a b"
  by (simp add: slice_def take_drop min_absorb2)

lemma drop_slice: "a \<le> b \<Longrightarrow> drop (b - a) (slice s a c) = slice s b c"
  by (simp add: slice_def)

lemma slice_whole: "a \<le> b \<Longrightarrow> b \<le> length s \<Longrightarrow> take a s @ slice s a b @ drop b s = s"
  using slice_append_slice [of 0 a b s] by (simp add: slice_def) (metis append_assoc append_take_drop_id)

lemma apply_patch_kept:
  assumes "inside source origin n"
  shows "apply_patch (estart origin) (node_text source origin) (n, node_text source n) = node_text source origin"
proof -
  let ?s = "estart origin" and ?e = "eend origin" and ?a = "estart n" and ?b = "eend n"
  have b: "?s \<le> ?a" "?a \<le> ?b" "?b \<le> ?e" "?e \<le> length source" using assms by (auto simp: inside_def)
  then have "nat (int ?a - int ?s) = ?a - ?s" "nat (int ?b - int ?s) = ?b - ?s" by auto
  then have "apply_patch ?s (node_text source origin) (n, node_text source n) =
      slice source ?s ?a @ slice source ?a ?b @ slice source ?b ?e"
    using b take_slice [OF b(1), of ?e source] drop_slice [of ?s ?b source ?e]
    by (simp add: apply_patch_def slice_index_def node_text_def)
  also have "\<dots> = node_text source origin"
    using b by (simp add: slice_append_slice node_text_def)
  finally show ?thesis .
qed

lemma patch_kept:
  assumes "\<And>n t. (n, t) \<in> set patches \<Longrightarrow> inside source origin n \<and> t = node_text source n"
  shows "patchSource source origin patches = node_text source origin"
proof -
  have "foldl (apply_patch (estart origin)) (node_text source origin) ps = node_text source origin"
    if "\<And>n t. (n, t) \<in> set ps \<Longrightarrow> inside source origin n \<and> t = node_text source n" for ps
    using that
  proof (induction ps)
    case (Cons p ps)
    have "apply_patch (estart origin) (node_text source origin) p = node_text source origin"
      using apply_patch_kept [of source origin "fst p"] Cons.prems [of "fst p" "snd p"] by simp
    moreover have "foldl (apply_patch (estart origin)) (node_text source origin) ps = node_text source origin"
      by (rule Cons.IH, rule Cons.prems) simp
    ultimately show ?case by simp
  qed simp
  from this [of "sort_key (\<lambda>p. - int (estart (fst p))) patches"] show ?thesis
    using assms by (simp add: patchSource_def node_text_def)
qed

section \<open>Trees of a source\<close>

text \<open>The nodes the editor reads: of a parsed, typable tree within its source.\<close>

definition readable :: "jsstr \<Rightarrow> expr \<Rightarrow> bool" where
  "readable source e \<longleftrightarrow> good e \<and> eend e \<le> length source \<and> (\<exists>t. typed e t)"

lemma typed_parts: "typed e t \<Longrightarrow> c \<in> set (children e) \<Longrightarrow> \<exists>u. typed c u"
  by (cases e) (auto simp: list_all2_conv_all_nth in_set_conv_nth)

lemma readable_child:
  assumes "readable source e" "c \<in> set (children e)"
  shows "readable source c \<and> inside source e c"
proof -
  have e: "well_spanned e" "tree_ok e" "eend e \<le> length source" using assms(1) by (auto simp: readable_def good_def)
  have "well_spanned c" "estart e \<le> estart c" "eend c \<le> eend e" using well_spanned_child [OF e(1) assms(2)] by auto
  moreover have "tree_ok c" using e(2) assms(2) tree_ok_iff [of e] by blast
  moreover have "\<exists>u. typed c u" using assms typed_parts by (auto simp: readable_def)
  ultimately show ?thesis using e(3) well_spanned_width [of c] by (auto simp: readable_def good_def inside_def)
qed

lemma inside_trans: "inside source a b \<Longrightarrow> inside source b c \<Longrightarrow> inside source a c"
  by (auto simp: inside_def)

lemma inside_refl: "readable source e \<Longrightarrow> inside source e e"
  using well_spanned_width by (auto simp: readable_def good_def inside_def less_imp_le)

lemma readable_flatten:
  "readable source e \<Longrightarrow> c \<in> set (flattenBinary p e) \<Longrightarrow> readable source c \<and> inside source e c"
proof (induction p e rule: flattenBinary.induct)
  case (1 p q l r s t)
  have lr: "readable source l \<and> inside source (Binary q l r s t) l" "readable source r \<and> inside source (Binary q l r s t) r"
    using readable_child [OF 1(3)] by auto
  show ?case
  proof (cases "q = p")
    case True
    then consider "c \<in> set (flattenBinary p l)" | "c \<in> set (flattenBinary p r)" using 1(4) by auto
    then show ?thesis using 1(1,2) [OF True] lr inside_trans by cases blast+
  qed (use 1(3,4) inside_refl in auto)
qed (auto simp: inside_refl)

section \<open>Texts that are kept\<close>

lemma printed_number_read:
  assumes "plain_double v"
  shows "parseNonNegativeNumber (num_text v) = Some v"
  using num_text_reads_back [OF assms] plain_double_nonneg [OF assms] plain_double_finite [OF assms]
  by (simp add: parseNonNegativeNumber_def)

lemma literal_kept:
  assumes "readable source (Literal (LNum v) i s t)"
  shows "literal_text source (parseNonNegativeNumber (num_text v)) text (Literal (LNum v) i s t) =
    node_text source (Literal (LNum v) i s t)"
proof -
  have v: "plain_double v" using assms tree_ok_iff [of "Literal (LNum v) i s t"] by (auto simp: readable_def good_def)
  then have "eq_num v v" by (auto simp: plain_double_def)
  then show ?thesis using printed_number_read [OF v] by (simp add: literal_text_def same_value_def)
qed

lemma probe_kept:
  assumes "read_probe l = Some (probe, timezone)"
  shows "kept_probe source probe timezone l = node_text source l"
  using assms by (auto simp: read_probe_def kept_probe_def zone_call_def split: expr.splits if_splits list.splits lit.splits option.splits)

lemma comparison_kept:
  assumes "readable source e" "read_comparison e = Some c"
  shows "fst (writeVisualCondition h source c issues) = node_text source e \<and> vc_origin c = Some e"
proof -
  obtain p l v k a b s t probe timezone where e: "e = Binary p l (Literal (LNum v) k a b) s t" "read_probe l = Some (probe, timezone)"
      and c: "c = V_comparison (node_id ''condition'' e) (Some e) probe timezone p (num_text v)"
    using assms(2) by (auto simp: read_comparison_def split: expr.splits lit.splits if_splits option.splits)
  let ?r = "Literal (LNum v) k a b"
  have r: "readable source ?r" "inside source e ?r" "inside source e l"
    using readable_child [OF assms(1)] e by auto
  have "patchSource source e [(l, node_text source l), (?r, node_text source ?r)] = node_text source e"
    by (rule patch_kept) (use r in auto)
  then show ?thesis
    using c e probe_kept [OF e(2), of source] literal_kept [OF r(1)]
    by (simp add: write_comparison_def Let_def)
qed

section \<open>Conditions\<close>

lemma those_map_Cons:
  "those (map f (x # xs)) = Some ys \<longleftrightarrow> (\<exists>z zs. f x = Some z \<and> those (map f xs) = Some zs \<and> ys = z # zs)"
  by (auto split: option.splits)

lemma conditions_kept:
  assumes "those (map readVisualCondition xs) = Some cs"
    and "\<And>x c issues. x \<in> set xs \<Longrightarrow> readVisualCondition x = Some c \<Longrightarrow>
      fst (writeVisualCondition h source c issues) = node_text source x \<and> vc_origin c = Some x"
  shows "fst (write_conditions h source cs issues) = map (node_text source) xs \<and> map vc_origin cs = map Some xs"
  using assms
proof (induction xs arbitrary: cs issues)
  case (Cons x xs)
  then obtain c ds where c: "readVisualCondition x = Some c" "those (map readVisualCondition xs) = Some ds" "cs = c # ds"
    using those_map_Cons by metis
  have x: "fst (writeVisualCondition h source c i) = node_text source x" "vc_origin c = Some x" for i
    using Cons.prems(2) c(1) by auto
  have ds: "fst (write_conditions h source ds i) = map (node_text source) xs" "map vc_origin ds = map Some xs" for i
    using Cons.IH [OF c(2)] Cons.prems(2) by auto
  show ?case using x ds c(3) by (simp add: case_prod_beta Let_def)
qed simp

lemma group_kept:
  assumes "readable source e" "e = Binary p l r s t" "map vc_origin cs = map Some (flattenBinary p e)"
    and "texts = map (node_text source) (flattenBinary p e)"
  shows "write_group source p (Some e) cs texts = node_text source e"
proof -
  have "patchSource source e (zip (flattenBinary p e) texts) = node_text source e"
  proof (rule patch_kept)
    fix n t assume "(n, t) \<in> set (zip (flattenBinary p e) texts)"
    then have "n \<in> set (flattenBinary p e)" "t = node_text source n"
      using assms(4) by (auto simp: zip_map2 zip_same_conv_map dest: set_zip_leftD)
    then show "inside source e n \<and> t = node_text source n" using readable_flatten [OF assms(1)] by blast
  qed
  then show ?thesis using assms by (simp add: write_group_def Let_def)
qed

lemma condition_kept:
  "readable source e \<Longrightarrow> readVisualCondition e = Some c \<Longrightarrow>
   fst (writeVisualCondition h source c issues) = node_text source e \<and> vc_origin c = Some e"
proof (induction e arbitrary: c issues rule: readVisualCondition.induct)
  case (1 e)
  have read: "readVisualCondition e = Some c" by (fact 1)
  show ?case
  proof (cases e)
    case (Unary p x s t)
    obtain d where d: "p = js ''!''" "readVisualCondition x = Some d" "c = V_not (node_id ''condition'' e) (Some e) d"
      using read Unary by (subst (asm) readVisualCondition.simps) (auto split: if_splits)
    have x: "readable source x" "inside source e x" using readable_child [OF 1(4)] Unary by auto
    have k: "fst (writeVisualCondition h source d issues) = node_text source x" "vc_origin d = Some x"
      using 1(1) [OF Unary d(1) x(1) d(2)] by auto
    have "patchSource source e [(x, node_text source x)] = node_text source e"
      by (rule patch_kept) (use x in auto)
    then show ?thesis using d(3) k Unary by (simp add: case_prod_beta Let_def)
  next
    case (Binary p l r s t)
    note kept = group_kept [OF 1(4) Binary]
    consider (conj) cs where "p = js ''&&''" "those (map readVisualCondition (flattenBinary p e)) = Some cs"
        "c = V_all (node_id ''condition'' e) (Some e) cs"
      | (disj) cs where "p = js ''||''" "those (map readVisualCondition (flattenBinary p e)) = Some cs"
        "c = V_any (node_id ''condition'' e) (Some e) cs"
      | (comparison) "read_comparison e = Some c"
      using read Binary by (subst (asm) readVisualCondition.simps) (auto split: if_splits)
    then show ?thesis
    proof cases
      case conj
      have "fst (writeVisualCondition h source d i) = node_text source x \<and> vc_origin d = Some x"
        if "x \<in> set (flattenBinary p e)" "readVisualCondition x = Some d" for x d i
        using 1(2) [OF Binary conj(1) that(1) _ that(2)] readable_flatten [OF 1(4) that(1)] conj(1) by simp
      then have "fst (write_conditions h source cs i) = map (node_text source) (flattenBinary p e) \<and>
          map vc_origin cs = map Some (flattenBinary p e)" for i
        by (rule conditions_kept [OF conj(2)])
      then show ?thesis using kept conj(1,3) by (simp add: case_prod_beta Let_def)
    next
      case disj
      have "fst (writeVisualCondition h source d i) = node_text source x \<and> vc_origin d = Some x"
        if "x \<in> set (flattenBinary p e)" "readVisualCondition x = Some d" for x d i
        using 1(3) [OF Binary _ disj(1) that(1) _ that(2)] readable_flatten [OF 1(4) that(1)] disj(1) by simp
      then have "fst (write_conditions h source cs i) = map (node_text source) (flattenBinary p e) \<and>
          map vc_origin cs = map Some (flattenBinary p e)" for i
        by (rule conditions_kept [OF disj(2)])
      then show ?thesis using kept disj(1,3) by (simp add: case_prod_beta Let_def)
    next
      case comparison
      then show ?thesis using comparison_kept 1(4) by blast
    qed
  qed (use read in \<open>simp_all add: readVisualCondition.simps\<close>)
qed

section \<open>Tiers\<close>

lemma read_prices_those:
  "read_prices xs acc = Some ps \<Longrightarrow> \<exists>qs. ps = acc @ qs \<and> those (map read_price xs) = Some qs"
  by (induction xs acc rule: read_prices.induct) (fastforce split: option.splits if_splits)+

lemma price_kept:
  assumes "readable source e" "read_price e = Some p"
  shows "vp_origin p = Some e \<and> (\<exists>r. snd (price_text source p) = [(r, node_text source r)] \<and> inside source e r)"
proof -
  obtain m l v k a b s t where e: "e = Binary m l (Literal (LNum v) k a b) s t"
      and p: "vp_value p = num_text v" "vp_origin p = Some e"
    using assms(2) by (auto simp: read_price_def split: expr.splits lit.splits if_splits)
  let ?r = "Literal (LNum v) k a b"
  have r: "readable source ?r" "inside source e ?r" using readable_child [OF assms(1)] e by auto
  then show ?thesis using p e literal_kept [OF r(1)] by (simp add: price_text_def Let_def)
qed

lemma prices_kept:
  assumes "those (map read_price xs) = Some ps" "\<And>x. x \<in> set xs \<Longrightarrow> readable source x \<and> inside source e x"
    and "(n, t) \<in> set (concat (map (snd \<circ> price_text source) ps))"
  shows "inside source e n \<and> t = node_text source n"
  using assms
proof (induction xs arbitrary: ps)
  case (Cons x xs)
  obtain q qs where q: "read_price x = Some q" "those (map read_price xs) = Some qs" "ps = q # qs"
    using Cons.prems(1) those_map_Cons by metis
  have x: "readable source x" "inside source e x" using Cons.prems(2) by auto
  obtain r where "snd (price_text source q) = [(r, node_text source r)]" "inside source x r"
    using price_kept [OF x(1) q(1)] by auto
  then show ?case using Cons q inside_trans [OF x(2)] by auto
qed simp

lemma origins_kept:
  "those (map read_price xs) = Some ps \<Longrightarrow> map vp_origin ps = map Some xs"
proof (induction xs arbitrary: ps)
  case (Cons x xs)
  obtain q qs where q: "read_price x = Some q" "those (map read_price xs) = Some qs" "ps = q # qs"
    using Cons.prems those_map_Cons by metis
  then have "vp_origin q = Some x" by (auto simp: read_price_def split: expr.splits lit.splits if_splits)
  then show ?case using Cons.IH q by simp
qed simp

lemma label_kept: "label_text source text (Literal (LStr text) k a b) = node_text source (Literal (LStr text) k a b)"
  by (simp add: label_text_def)

lemma fixed_price_kept:
  assumes "readable source price" "fixed_literal_node price = Some (Literal v k a b)"
  shows "patchSource source price
    [(Literal v k a b, literal_text source (parseNonNegativeNumber (lit_text v)) text (Literal v k a b))] = node_text source price"
proof -
  let ?l = "Literal v k a b"
  obtain rest s t where price: "price = Call (js ''fixed'') (?l # rest) s t"
    using assms(2) by (auto simp: fixed_literal_node_def split: expr.splits list.splits if_splits)
  have l: "readable source ?l" "inside source price ?l" using readable_child [OF assms(1)] price by auto
  have "fits (lit_type v) TNumber"
    using assms(1) price by (auto simp: readable_def list_all2_Cons1 call_type_def TIME_FUNCTIONS_def split: if_splits)
  then obtain x where "v = LNum x" by (cases v) (auto simp: fits_def)
  then have "literal_text source (parseNonNegativeNumber (lit_text v)) text ?l = node_text source ?l"
    using literal_kept l(1) by simp
  then show ?thesis using l(2) by (intro patch_kept) auto
qed

lemma tier_kept:
  assumes "readable source e" "read_tier e = Some t"
  shows "fst (writeVisualPricing h source (V_tier i (Some e) t) issues) = node_text source e"
proof -
  obtain lab k a b price rest s u where e: "e = Call (js ''tier'') (Literal (LStr lab) k a b # price # rest) s u"
      and t: "case fixed_literal_node price of
        Some (Literal v _ _ _) \<Rightarrow> t = \<lparr>vt_label = lab, vt_prices = [], vt_unit = Unit_request, vt_fixed = lit_text v\<rparr>
      | _ \<Rightarrow> \<exists>ps. read_prices (flattenBinary (js ''+'') price) [] = Some ps \<and>
          t = \<lparr>vt_label = lab, vt_prices = ps, vt_unit = Unit_token, vt_fixed = []\<rparr>"
    using assms(2) by (auto simp: read_tier_def split: expr.splits list.splits lit.splits if_splits option.splits)
  let ?l = "Literal (LStr lab) k a b"
  have c: "inside source e ?l" "readable source price" "inside source e price"
    using readable_child [OF assms(1)] e by auto
  show ?thesis
  proof (cases "fixed_literal_node price")
    case (Some amount)
    then obtain v k2 a2 b2 where amount: "amount = Literal v k2 a2 b2"
      by (auto simp: fixed_literal_node_def split: expr.splits list.splits if_splits)
    have "patchSource source e [(?l, node_text source ?l), (price, node_text source price)] = node_text source e"
      by (rule patch_kept) (use c in auto)
    then show ?thesis
      using t Some amount e fixed_price_kept [OF c(2) Some [unfolded amount]] label_kept
      by (simp add: write_fixed_def Let_def)
  next
    case None
    then obtain ps where ps: "read_prices (flattenBinary (js ''+'') price) [] = Some ps"
        "t = \<lparr>vt_label = lab, vt_prices = ps, vt_unit = Unit_token, vt_fixed = []\<rparr>"
      using t by auto
    then have those: "those (map read_price (flattenBinary (js ''+'') price)) = Some ps" using read_prices_those by fastforce
    have "patchSource source e ((?l, node_text source ?l) # concat (map (snd \<circ> price_text source) ps)) = node_text source e"
    proof (rule patch_kept)
      fix n x assume "(n, x) \<in> set ((?l, node_text source ?l) # concat (map (snd \<circ> price_text source) ps))"
      moreover have "inside source e n \<and> x = node_text source n"
        if "(n, x) \<in> set (concat (map (snd \<circ> price_text source) ps))"
        by (rule prices_kept [OF those _ that]) (use readable_flatten [OF c(2)] inside_trans [OF c(3)] in blast)
      ultimately show "inside source e n \<and> x = node_text source n" using c(1) by auto
    qed
    then show ?thesis
      using ps(2) e label_kept origins_kept [OF those] by (simp add: write_prices_def Let_def)
  qed
qed

lemma pricing_kept_text:
  "readable source e \<Longrightarrow> readVisualPricing e = Some p \<Longrightarrow> fst (writeVisualPricing h source p issues) = node_text source e"
proof (induction e arbitrary: p issues rule: readVisualPricing.induct)
  case (1 c y n s t)
  let ?e = "Conditional c y n s t"
  obtain vc vy vn where v: "readVisualCondition c = Some vc" "readVisualPricing y = Some vy" "readVisualPricing n = Some vn"
      "p = V_branch (node_id ''pricing'' ?e) (Some ?e) vc vy vn"
    using 1(4) by (auto split: option.splits)
  have r: "readable source c" "readable source y" "readable source n"
      "inside source ?e c" "inside source ?e y" "inside source ?e n"
    using readable_child [OF 1(3)] by auto
  have "patchSource source ?e [(c, node_text source c), (y, node_text source y), (n, node_text source n)] = node_text source ?e"
    by (rule patch_kept) (use r in auto)
  then show ?case
    using v condition_kept [OF r(1) v(1)] 1(1) [OF r(2) v(2)] 1(2) [OF r(3) v(3)] by (simp add: case_prod_beta Let_def)
qed (auto dest!: tier_kept simp del: writeVisualPricing.simps)

section \<open>Documents\<close>

lemma compiled_readable:
  assumes "compile_fresh source = Inr c"
  shows "readable source (cast c)"
proof -
  have "compiled_ok c" "csource c = source" using compile_fresh_ok [OF assms] by auto
  then show ?thesis
    using parse_source_good [of source "cast c"] by (auto simp: compiled_ok_def readable_def)
qed

lemma serialize_result:
  assumes "cache_ok cache" "fst (serializeVisualBillingDocument h d cache) = Inr source"
  shows "\<exists>c c' text. compile_fresh (vd_source d) = Inr c \<and> compile_fresh source = Inr c' \<and>
    writeVisualPricing h (vd_source d) (vd_root d) [] = (text, []) \<and>
    source = take (estart (cast c)) (vd_source d) @ text @ drop (eend (cast c)) (vd_source d)"
proof -
  let ?r = "compileBillingExpression (vd_source d) cache"
  have s: "fst ?r = compile_fresh (vd_source d)" "cache_ok (snd ?r)"
    using compile_memo.call_result compile_memo.call_keeps assms(1) by auto
  have s2: "fst (compileBillingExpression x (snd ?r)) = compile_fresh x" for x
    using compile_memo.call_result s(2) by auto
  show ?thesis
    using assms(2) s s2
    by (auto simp: serializeVisualBillingDocument_def Let_def case_prod_beta is_ok_iff prod_eq_iff split: if_splits sum.splits)
qed

end
