(* ===== verification/Billing_Visual_Edits.thy ===== *)
theory Billing_Visual_Edits
  imports Billing_Visual_Lossless
begin

text \<open>
  Edits are local: when a part of the pricing tree is replaced, the written source differs from
  the original only in the span of the node that part was read from.  Patches are applied from
  right to left, so that a replaced text never moves the positions of the patches still to come.
\<close>

section \<open>One changed patch\<close>

lemma apply_patch_changed:
  assumes "inside source origin n"
  shows "apply_patch (estart origin) (node_text source origin) (n, new) =
    slice source (estart origin) (estart n) @ new @ slice source (eend n) (eend origin)"
proof -
  let ?s = "estart origin" and ?e = "eend origin" and ?a = "estart n" and ?b = "eend n"
  have b: "?s \<le> ?a" "?a \<le> ?b" "?b \<le> ?e" using assms by (auto simp: inside_def)
  then have "nat (int ?a - int ?s) = ?a - ?s" "nat (int ?b - int ?s) = ?b - ?s" by auto
  then show ?thesis
    using b take_slice [OF b(1), of ?e source] drop_slice [of ?s ?b source ?e]
    by (simp add: apply_patch_def slice_index_def node_text_def)
qed

lemma apply_patch_before:
  assumes "estart origin \<le> estart k" "estart k \<le> eend k" "eend k \<le> a" "a \<le> length source"
  shows "apply_patch (estart origin) (slice source (estart origin) a @ rest) (k, node_text source k) =
    slice source (estart origin) a @ rest"
proof -
  let ?s = "estart origin" and ?u = "estart k" and ?v = "eend k"
  have i: "nat (int ?u - int ?s) = ?u - ?s" "nat (int ?v - int ?s) = ?v - ?s" using assms by auto
  have l: "length (slice source ?s a) = a - ?s" using assms by simp
  have "take (?u - ?s) (slice source ?s a @ rest) = slice source ?s ?u"
    using assms take_slice [of ?s ?u a source] l by simp
  moreover have "drop (?v - ?s) (slice source ?s a @ rest) = slice source ?v a @ rest"
    using assms drop_slice [of ?s ?v source a] l by simp
  moreover have "slice source ?s ?u @ slice source ?u ?v @ slice source ?v a = slice source ?s a"
    using assms by (simp add: slice_append_slice)
  ultimately show ?thesis
    using assms i by (simp add: apply_patch_def slice_index_def node_text_def flip: append_assoc)
qed

text \<open>The spans of the three parts of a conditional, in source order.\<close>

lemma conditional_spans:
  assumes "readable source (Conditional c y n s t)"
  shows "s \<le> estart c \<and> estart c < eend c \<and> eend c \<le> estart y \<and> estart y < eend y \<and> eend y \<le> estart n \<and>
    estart n < eend n \<and> eend n \<le> t \<and> t \<le> length source"
proof -
  have w: "well_spanned (Conditional c y n s t)" "t \<le> length source" using assms by (auto simp: readable_def good_def)
  then have "ordered_in s [c, y, n] t" "well_spanned c" "well_spanned y" "well_spanned n"
    by (subst (asm) well_spanned_iff, auto)+
  then show ?thesis using w(2) well_spanned_width by auto
qed

lemma conditional_patches:
  assumes "readable source (Conditional c y n s t)"
  shows "patchSource source (Conditional c y n s t) [(c, tc), (y, ty), (n, tn)] =
    foldl (apply_patch s) (slice source s t) [(n, tn), (y, ty), (c, tc)]"
  using conditional_spans [OF assms] by (simp add: patchSource_def)

lemma conditional_yes_changed:
  assumes "readable source (Conditional c y n s t)"
  shows "patchSource source (Conditional c y n s t) [(c, node_text source c), (y, new), (n, node_text source n)] =
    slice source s (estart y) @ new @ slice source (eend y) t"
proof -
  let ?e = "Conditional c y n s t"
  note b = conditional_spans [OF assms]
  have k: "inside source ?e c" "inside source ?e y" "inside source ?e n" using readable_child [OF assms] by auto
  show ?thesis
    using b conditional_patches [OF assms] apply_patch_kept [OF k(3)] apply_patch_changed [OF k(2), of new]
      apply_patch_before [of ?e c "estart y" source]
    by (simp add: node_text_def)
qed

lemma conditional_no_changed:
  assumes "readable source (Conditional c y n s t)"
  shows "patchSource source (Conditional c y n s t) [(c, node_text source c), (y, node_text source y), (n, new)] =
    slice source s (estart n) @ new @ slice source (eend n) t"
proof -
  let ?e = "Conditional c y n s t"
  note b = conditional_spans [OF assms]
  have k: "inside source ?e c" "inside source ?e y" "inside source ?e n" using readable_child [OF assms] by auto
  show ?thesis
    using b conditional_patches [OF assms] apply_patch_changed [OF k(3), of new]
      apply_patch_before [of ?e c "estart n" source] apply_patch_before [of ?e y "estart n" source]
    by (simp add: node_text_def)
qed

section \<open>Texts do not depend on the issues\<close>

lemma condition_text_issues:
  "fst (writeVisualCondition h source c i) = fst (writeVisualCondition h source c j)"
  "fst (write_conditions h source cs i) = fst (write_conditions h source cs j)"
proof (induction h source c i and h source cs i arbitrary: j and j
    rule: writeVisualCondition_write_conditions.induct)
  case (1 h source i origin child issues)
  have "fst (writeVisualCondition h source child issues) = fst (writeVisualCondition h source child j)" by (rule 1)
  then show ?case by (simp add: case_prod_beta Let_def split: option.split expr.split)
next
  case (2 h source i origin members issues)
  have "fst (write_conditions h source members (empty_group i members issues)) =
      fst (write_conditions h source members (empty_group i members j))" by (rule 2)
  then show ?case by (simp add: case_prod_beta Let_def)
next
  case (3 h source i origin members issues)
  have "fst (write_conditions h source members (empty_group i members issues)) =
      fst (write_conditions h source members (empty_group i members j))" by (rule 3)
  then show ?case by (simp add: case_prod_beta Let_def)
next
  case (4 h source i origin probe timezone operator v issues)
  then show ?case by (simp add: write_comparison_def Let_def)
next
  case (6 h source c cs issues)
  have "fst (writeVisualCondition h source c issues) = fst (writeVisualCondition h source c j)" by (rule 6)
  moreover have "fst (write_conditions h source cs (snd (writeVisualCondition h source c issues))) =
      fst (write_conditions h source cs (snd (writeVisualCondition h source c j)))"
    by (rule 6(2) [OF refl]) (rule prod.collapse)
  ultimately show ?case by (simp add: case_prod_beta Let_def)
qed simp

lemma pricing_text_issues: "fst (writeVisualPricing h source p i) = fst (writeVisualPricing h source p j)"
proof (induction p arbitrary: i j)
  case (V_tier x o' t)
  then show ?case by (simp add: write_fixed_def write_prices_def Let_def)
next
  case (V_branch x o' c y n)
  let ?c = "\<lambda>i. snd (writeVisualCondition h source c i)"
  let ?y = "\<lambda>i. snd (writeVisualPricing h source y (?c i))"
  have "fst (writeVisualCondition h source c i) = fst (writeVisualCondition h source c j)" by (rule condition_text_issues)
  moreover have "fst (writeVisualPricing h source y (?c i)) = fst (writeVisualPricing h source y (?c j))"
    by (rule V_branch)
  moreover have "fst (writeVisualPricing h source n (?y i)) = fst (writeVisualPricing h source n (?y j))"
    by (rule V_branch)
  ultimately show ?case by (simp add: case_prod_beta Let_def split: option.split expr.split)
qed

section \<open>Replacing a part\<close>

text \<open>The part of a pricing tree at the end of a path of branches, and its replacement.\<close>

fun subtree :: "bool list \<Rightarrow> visual_pricing \<Rightarrow> visual_pricing option" where
  "subtree [] p = Some p"
| "subtree (b # bs) (V_branch i o' c y n) = subtree bs (if b then y else n)"
| "subtree (b # bs) (V_tier i o' t) = None"

fun replaced :: "bool list \<Rightarrow> visual_pricing \<Rightarrow> visual_pricing \<Rightarrow> visual_pricing" where
  "replaced [] new p = new"
| "replaced (b # bs) new (V_branch i o' c y n) =
     (if b then V_branch i o' c (replaced bs new y) n else V_branch i o' c y (replaced bs new n))"
| "replaced (b # bs) new (V_tier i o' t) = V_tier i o' t"

lemma read_origin: "readVisualPricing e = Some p \<Longrightarrow> vn_origin p = Some e"
  by (cases e) (auto split: option.splits)

definition spliced :: "jsstr \<Rightarrow> expr \<Rightarrow> expr \<Rightarrow> jsstr \<Rightarrow> jsstr" where
  "spliced source e n new = slice source (estart e) (estart n) @ new @ slice source (eend n) (eend e)"

lemma spliced_trans:
  assumes "inside source e m" "inside source m n"
  shows "spliced source e m (spliced source m n new) = spliced source e n new"
proof -
  have b: "estart e \<le> estart m" "estart m \<le> estart n" "eend n \<le> eend m" "eend m \<le> eend e"
    using assms by (auto simp: inside_def)
  have "slice source (estart e) (estart m) @ slice source (estart m) (estart n) = slice source (estart e) (estart n)"
    "slice source (eend n) (eend m) @ slice source (eend m) (eend e) = slice source (eend n) (eend e)"
    using b by (auto simp: slice_append_slice)
  then show ?thesis by (simp add: spliced_def)
qed

lemma replaced_text:
  assumes "readable source e" "readVisualPricing e = Some p" "subtree path p = Some q" "vn_origin q = Some n"
  shows "fst (writeVisualPricing h source (replaced path new p) issues) =
      spliced source e n (fst (writeVisualPricing h source new [])) \<and> inside source e n"
  using assms
proof (induction path arbitrary: e p issues)
  case Nil
  then have "n = e" using read_origin by auto
  then show ?case using Nil inside_refl [OF Nil(1)] pricing_text_issues [of h source new issues "[]"]
    by (simp add: spliced_def slice_def)
next
  case (Cons b path)
  obtain c y z s t vc vy vz where e: "e = Conditional c y z s t" "readVisualCondition c = Some vc"
      "readVisualPricing y = Some vy" "readVisualPricing z = Some vz"
      and p: "p = V_branch (node_id ''pricing'' e) (Some e) vc vy vz"
    using Cons.prems(2,3) by (cases e) (auto split: option.splits)
  have r: "readable source c" "readable source y" "readable source z" "inside source e y" "inside source e z"
    using readable_child [OF Cons.prems(1)] e(1) by auto
  note kept = condition_kept [OF r(1) e(2)] pricing_kept_text [OF r(2) e(3)] pricing_kept_text [OF r(3) e(4)]
  show ?case
  proof (cases b)
    case True
    then have "subtree path vy = Some q" using Cons.prems(3) p by simp
    note ih = Cons.IH [OF r(2) e(3) this Cons.prems(4)]
    have "fst (writeVisualPricing h source (replaced (b # path) new p) issues) =
        spliced source e y (spliced source y n (fst (writeVisualPricing h source new [])))"
      using True p e(1) kept ih conditional_yes_changed [of source c y z s t] Cons.prems(1)
      by (simp add: case_prod_beta Let_def spliced_def)
    then show ?thesis using ih r(4) spliced_trans inside_trans by metis
  next
    case False
    then have "subtree path vz = Some q" using Cons.prems(3) p by simp
    note ih = Cons.IH [OF r(3) e(4) this Cons.prems(4)]
    have "fst (writeVisualPricing h source (replaced (b # path) new p) issues) =
        spliced source e z (spliced source z n (fst (writeVisualPricing h source new [])))"
      using False p e(1) kept ih conditional_no_changed [of source c y z s t] Cons.prems(1)
      by (simp add: case_prod_beta Let_def spliced_def)
    then show ?thesis using ih r(5) spliced_trans inside_trans by metis
  qed
qed

end
