(* ===== verification/Billing_Tables.thy ===== *)
theory Billing_Tables
  imports Billing_Display
begin

text \<open>
  The price tables against the runtime: the tier a table selects for a request is the tier the
  evaluation of the expression charges, with its price; the branches by time cover every
  moment.
\<close>

section \<open>What a table says\<close>

definition token_reading :: "simulation_context \<Rightarrow> jsstr \<Rightarrow> jsnum option" where
  "token_reading context name =
     (case tokens context of
        None \<Rightarrow> None
      | Some ts \<Rightarrow> (case map_of ts name of Some (JNum n) \<Rightarrow> Some n | _ \<Rightarrow> None))"

definition condition_holds :: "simulation_context \<Rightarrow> token_condition \<Rightarrow> bool" where
  "condition_holds context c =
     (case token_reading context (tc_var c) of
        None \<Rightarrow> False
      | Some n \<Rightarrow> order_value (tc_op c) (JNum n) (JNum (tc_value c)) = Some True)"

definition positive_reading :: "simulation_context \<Rightarrow> jsstr \<Rightarrow> bool" where
  "positive_reading context name =
     (case token_reading context name of None \<Rightarrow> False | Some n \<Rightarrow> lt_num (Fin 0) n)"

definition tier_applies :: "simulation_context \<Rightarrow> token_tier \<Rightarrow> bool" where
  "tier_applies context t =
     (if conditionText t = Some (js ''Audio requests'')
      then positive_reading context (js ''ai'') \<or> positive_reading context (js ''ao'')
      else list_all (condition_holds context) (conditions t))"

text \<open>What a row is charged for: the reading of its variable, or the text part of the input.\<close>

definition quantity :: "simulation_context \<Rightarrow> jsstr \<Rightarrow> jsnum \<Rightarrow> bool" where
  "quantity context v q \<longleftrightarrow> token_reading context v = Some q \<or>
     v = js ''p'' \<and> (\<exists>l a z. token_reading context (js ''len'') = Some l \<and> token_reading context (js ''ai'') = Some a \<and>
       eq_num z (Fin 0) \<and> q \<in> {max_num (sub_num l a) z, max_num z (sub_num l a)})"

text \<open>A cost is a sum of quantity times price over the rows, in their order; floating-point sums
  depend on the brackets, which the table does not show.\<close>

inductive row_sum :: "simulation_context \<Rightarrow> (jsstr \<times> jsnum) list \<Rightarrow> jsnum \<Rightarrow> bool" for sc where
  row_one: "quantity sc v q \<Longrightarrow> n \<in> {mul_num q price, mul_num price q} \<Longrightarrow> row_sum sc [(v, price)] n"
| row_add: "row_sum sc xs a \<Longrightarrow> row_sum sc ys b \<Longrightarrow> row_sum sc (xs @ ys) (add_num a b)"

definition tier_cost :: "simulation_context \<Rightarrow> token_tier \<Rightarrow> jsnum \<Rightarrow> bool" where
  "tier_cost context t n =
     (case tierFixed t of
        Some amount \<Rightarrow> n = mul_num amount (Fin 1000000)
      | None \<Rightarrow> row_sum context (prices t) n)"

section \<open>Leaves of the evaluation\<close>

lemma those_append:
  "those (xs @ ys) = Some zs \<longleftrightarrow> (\<exists>as bs. those xs = Some as \<and> those ys = Some bs \<and> zs = as @ bs)"
proof -
  have "those (xs @ ys) = (case those xs of None \<Rightarrow> None | Some as \<Rightarrow> map_option ((@) as) (those ys))"
    by (cases "those ys"; induction xs) (auto split: option.splits)
  then show ?thesis by (auto split: option.splits)
qed

lemma literal_run: "evaluate_at env n (Literal l i s t) st = Inr ((v, j), st') \<Longrightarrow> v = lit_val l \<and> st' = st"
  by (elim evaluate_pos) (auto simp: evaluate_node_def res_simps)

lemma variable_run:
  assumes "evaluate_at env n (Variable name s t) st = Inr ((v, j), st')" "name \<noteq> js ''image_count''"
  shows "\<exists>q. token_reading (ctx env) name = Some q \<and> v = JNum q \<and> st' = st"
  using assms
  by (elim evaluate_pos)
     (auto simp: evaluate_node_def run_variable_def token_reading_def Let_def res_simps split: option.splits jsval.splits if_splits)

lemma binary_run:
  assumes "evaluate_at env n (Binary p l r s t) st = Inr ((v, j), st')" "p \<noteq> js ''&&''" "p \<noteq> js ''||''"
  shows "\<exists>m a st1 b. evaluate_at env m l st = Inr (a, st1) \<and> evaluate_at env m r st1 = Inr (b, st') \<and>
    run_operator p a b s st' = Inr ((v, j), st')"
proof -
  obtain m where "evaluate_node env (evaluate_at env m) (Binary p l r s t) st = Inr ((v, j), st')"
    using assms(1) by (rule evaluate_pos)
  then obtain a st1 b st2 where r: "evaluate_at env m l st = Inr (a, st1)" "evaluate_at env m r st1 = Inr (b, st2)"
      "run_operator p a b s st2 = Inr ((v, j), st')"
    using assms(2,3) by (auto simp: evaluate_node_def run_binary_def bind_run_Inr simp del: evaluate_at.simps)
  then show ?thesis using run_operator_state [OF r(3)] by blast
qed

lemma comparison_run:
  assumes "run_operator p (JNum x, i) (JNum y, k) s st = Inr ((v, j), st')" "p \<in> set ordering_operators"
  shows "\<exists>b. order_value p (JNum x) (JNum y) = Some b \<and> v = JBool b"
  using assms by (auto simp: run_operator_def ordering_operators_def order_value_def Let_def res_simps)

lemma condition_run:
  assumes "token_condition_of e = Some c" "evaluate_at env n e st = Inr ((JBool b, i), st')"
  shows "b = condition_holds (ctx env) c \<and> st' = st"
proof -
  obtain p name s1 t1 x k s2 t2 s t where e: "e = Binary p (Variable name s1 t1) (Literal (LNum x) k s2 t2) s t"
      and p: "p \<in> set ordering_operators" "name \<in> {js ''p'', js ''c'', js ''len''}" "c = \<lparr>tc_var = name, tc_op = p, tc_value = x\<rparr>"
    using assms(1) by (auto simp: token_condition_of_def split: expr.splits lit.splits if_splits)
  have op: "p \<noteq> js ''&&''" "p \<noteq> js ''||''" using p(1) by (auto simp: ordering_operators_def)
  obtain m a st1 d where r: "evaluate_at env m (Variable name s1 t1) st = Inr (a, st1)"
      "evaluate_at env m (Literal (LNum x) k s2 t2) st1 = Inr (d, st')" "run_operator p a d s st' = Inr ((JBool b, i), st')"
    using binary_run [OF assms(2) [unfolded e] op] by blast
  obtain q where q: "token_reading (ctx env) name = Some q" "fst a = JNum q" "st1 = st"
    using variable_run [of env m name s1 t1 st "fst a" "snd a" st1] r(1) p(2) by auto
  have d: "fst d = JNum x" "st' = st" using literal_run [of env m "LNum x" k s2 t2 st1 "fst d" "snd d" st'] r(2) q(3) by auto
  obtain b' where "order_value p (JNum q) (JNum x) = Some b'" "JBool b = JBool b'"
    using comparison_run [of p q "snd a" x "snd d" s st' "JBool b" i st'] r(3) p(1) q(2) d(1) by (metis prod.collapse)
  then show ?thesis using q d p(3) by (simp add: condition_holds_def)
qed

lemma and_run:
  assumes "evaluate_at env n (Binary (js ''&&'') l r s t) st = Inr ((JBool b, j), st')"
  shows "\<exists>m a i st1. evaluate_at env m l st = Inr ((JBool a, i), st1) \<and>
    (if a then \<exists>k. evaluate_at env m r st1 = Inr ((JBool b, k), st') else \<not> b \<and> st' = st1)"
  using assms by (elim evaluate_pos) (fastforce simp: evaluate_node_def run_binary_def res_simps split: if_splits)

text \<open>A reader of conjunctions: it reads every conjunct, and what it reads of a conjunct decides
  what the conjunct evaluates to.\<close>

locale condition_reader =
  fixes conjunct :: "expr \<Rightarrow> 'c option" and holds :: "simulation_context \<Rightarrow> 'c \<Rightarrow> bool"
  assumes conjunct_run: "conjunct e = Some c \<Longrightarrow> evaluate_at env n e st = Inr ((JBool b, i), st') \<Longrightarrow>
      b = holds (ctx env) c \<and> st' = st"
begin

lemma conjunction_run:
  "those (map conjunct (flattenBinary (js ''&&'') e)) = Some cs \<Longrightarrow> evaluate_at env n e st = Inr ((JBool b, i), st') \<Longrightarrow>
   b = list_all (holds (ctx env)) cs \<and> st' = st"
proof (induction "js ''&&''" e arbitrary: cs n st b i st' rule: flattenBinary.induct)
  case (1 p l r s t)
  show ?case
  proof (cases "p = js ''&&''")
    case True
    obtain as bs where c: "those (map conjunct (flattenBinary (js ''&&'') l)) = Some as"
        "those (map conjunct (flattenBinary (js ''&&'') r)) = Some bs" "cs = as @ bs"
      using 1(3) True by (auto simp: those_append)
    obtain m a k st1 where r: "evaluate_at env m l st = Inr ((JBool a, k), st1)"
        "if a then \<exists>k. evaluate_at env m r st1 = Inr ((JBool b, k), st') else \<not> b \<and> st' = st1"
      using and_run 1(4) True by blast
    have "a = list_all (holds (ctx env)) as \<and> st1 = st" using 1(1) [OF True c(1) r(1)] .
    moreover have "a \<Longrightarrow> b = list_all (holds (ctx env)) bs \<and> st' = st1"
      using r(2) 1(2) [OF True c(2)] by (metis (full_types))
    ultimately show ?thesis using r(2) c(3) by (cases a) auto
  next
    case False
    then show ?thesis using 1(3,4) conjunct_run by (auto simp: map_option_case split: option.splits)
  qed
qed (auto simp: map_option_case dest: conjunct_run simp del: evaluate_at.simps split: option.splits)

end

interpretation token_reader: condition_reader token_condition_of condition_holds
  by unfold_locales (rule condition_run)

section \<open>Prices\<close>

lemma price_literal_run:
  assumes "nonnegativePriceLiteral e = Some pr" "evaluate_at env n e st = Inr ((v, i), st')" "tree_ok e"
  shows "v = JNum pr \<and> st' = st"
proof (cases e)
  case (Literal l k s t)
  then show ?thesis
    using assms literal_run [of env n l k s t st v i st']
    by (auto simp: nonnegativePriceLiteral_def split: lit.splits if_splits)
next
  case (Unary p x s t)
  then obtain y k s1 t1 where x: "x = Literal (LNum y) k s1 t1" "p = js ''-''" "eq_num y (Fin 0)" "pr = NegZero"
    using assms(1) by (auto simp: nonnegativePriceLiteral_def split: expr.splits lit.splits if_splits)
  obtain m where "evaluate_node env (evaluate_at env m) e st = Inr ((v, i), st')" using assms(2) by (rule evaluate_pos)
  then have r: "\<exists>z. evaluate_at env m x st = Inr ((JNum z, i), st') \<and> v = JNum (uminus_num z)"
    using Unary x(2) by (auto simp: evaluate_node_def bind_run_Inr run_numeric_Inr ret_Inr simp del: evaluate_at.simps)
  then obtain z where z: "evaluate_at env m x st = Inr ((JNum z, i), st')" "v = JNum (uminus_num z)" by blast
  have "z = y" "st' = st" using literal_run z(1) x(1) by fastforce+
  moreover have "y \<noteq> NegZero"
    using assms(3) Unary x(1) plain_double_nonneg [of y] by (simp add: tree_ok_def)
  then have "uminus_num y = NegZero" using x(3) by (cases y) auto
  ultimately show ?thesis using z(2) x(4) by auto
qed (use assms(1) in \<open>auto simp: nonnegativePriceLiteral_def\<close>)

lemma zero_run:
  "literal_zero e \<Longrightarrow> evaluate_at env n e st = Inr ((JNum z, i), st') \<Longrightarrow> eq_num z (Fin 0) \<and> st' = st"
  by (auto simp: literal_zero_def dest!: literal_run simp del: evaluate_at.simps split: expr.splits lit.splits)

lemma arithmetic_run:
  assumes "evaluate_at env n (Binary p l r s t) st = Inr ((v, j), st')" "p \<in> {js ''+'', js ''-'', js ''*''}"
    and "\<And>m a i st st'. evaluate_at env m l st = Inr ((a, i), st') \<Longrightarrow> \<exists>x. a = JNum x \<and> P x \<and> st' = st"
    and "\<And>m a i st st'. evaluate_at env m r st = Inr ((a, i), st') \<Longrightarrow> \<exists>x. a = JNum x \<and> Q x \<and> st' = st"
  shows "\<exists>x y. P x \<and> Q y \<and> v = JNum (if p = js ''+'' then add_num x y else if p = js ''-'' then sub_num x y else mul_num x y) \<and>
    st' = st"
proof -
  have op: "p \<noteq> js ''&&''" "p \<noteq> js ''||''" using assms(2) by auto
  obtain m a st1 b where r: "evaluate_at env m l st = Inr (a, st1)" "evaluate_at env m r st1 = Inr (b, st')"
      "run_operator p a b s st' = Inr ((v, j), st')"
    using binary_run [OF assms(1) op] by blast
  obtain x where x: "fst a = JNum x" "P x" "st1 = st" using assms(3) [of m st "fst a" "snd a" st1] r(1) by auto
  obtain y where y: "fst b = JNum y" "Q y" "st' = st1" using assms(4) [of m st1 "fst b" "snd b" st'] r(2) by auto
  have "v = JNum (if p = js ''+'' then add_num x y else if p = js ''-'' then sub_num x y else mul_num x y)"
    using r(3) x(1) y(1) assms(2)
    by (auto simp: run_operator_def order_value_def arithmetic_def Let_def res_simps)
  then show ?thesis using x y by blast
qed

lemma remainder_run:
  assumes "text_remainder e" "evaluate_at env n e st = Inr ((v, i), st')"
  shows "\<exists>l a. token_reading (ctx env) (js ''len'') = Some l \<and> token_reading (ctx env) (js ''ai'') = Some a \<and>
    v = JNum (sub_num l a) \<and> st' = st"
proof -
  obtain s1 t1 s2 t2 s t where e: "e = Binary (js ''-'') (Variable (js ''len'') s1 t1) (Variable (js ''ai'') s2 t2) s t"
    using assms(1) by (auto simp: text_remainder_def split: expr.splits)
  have "\<exists>x y. token_reading (ctx env) (js ''len'') = Some x \<and> token_reading (ctx env) (js ''ai'') = Some y \<and>
      v = JNum (if js ''-'' = js ''+'' then add_num x y else if js ''-'' = js ''-'' then sub_num x y else mul_num x y) \<and> st' = st"
    by (rule arithmetic_run [OF assms(2) [unfolded e]]) (use variable_run in fastforce)+
  then show ?thesis by simp
qed

lemma max_run:
  assumes "evaluate_at env n (Call (js ''max'') [a, b] s t) st = Inr ((v, i), st')"
  shows "\<exists>m x j st1 y k. evaluate_at env m a st = Inr ((JNum x, j), st1) \<and>
    evaluate_at env m b st1 = Inr ((JNum y, k), st') \<and> v = JNum (max_num x y)"
proof -
  obtain m where "evaluate_node env (evaluate_at env m) (Call (js ''max'') [a, b] s t) st = Inr ((v, i), st')"
    using assms by (rule evaluate_pos)
  then show ?thesis
    by (fastforce simp: evaluate_node_def run_call_def Let_def bind_run_Inr with_arg_Inr run_numeric_Inr ret_Inr
        simp del: evaluate_at.simps)
qed

lemma priced_variable_run:
  assumes "priced_variable e = Some v" "evaluate_at env n e st = Inr ((w, i), st')"
  shows "\<exists>q. w = JNum q \<and> quantity (ctx env) v q \<and> st' = st"
proof (cases e)
  case (Variable name s t)
  then show ?thesis
    using assms variable_run [of env n name s t st w i st']
    by (auto simp: priced_variable_def quantity_def split: if_splits)
next
  case (Call name args s t)
  obtain a b where c: "name = js ''max''" "args = [a, b]" "v = js ''p''"
      "literal_zero a \<and> text_remainder b \<or> literal_zero b \<and> text_remainder a"
    using assms(1) Call by (auto simp: priced_variable_def split: list.splits if_splits)
  obtain m x j st1 y k where r: "evaluate_at env m a st = Inr ((JNum x, j), st1)"
      "evaluate_at env m b st1 = Inr ((JNum y, k), st')" "w = JNum (max_num x y)"
    using max_run [of env n a b s t st w i st'] assms(2) Call c(1,2) by auto
  from c(4) show ?thesis
  proof
    assume z: "literal_zero a \<and> text_remainder b"
    then have "eq_num x (Fin 0)" "st1 = st" using zero_run r(1) by auto
    then show ?thesis
      using remainder_run [OF conjunct2 [OF z] r(2)] r(3) c(3) by (auto simp: quantity_def)
  next
    assume z: "literal_zero b \<and> text_remainder a"
    then have "eq_num y (Fin 0)" "st' = st1" using zero_run r(2) by auto
    then show ?thesis
      using remainder_run [OF conjunct2 [OF z] r(1)] r(3) c(3) by (auto simp: quantity_def)
  qed
qed (use assms(1) in \<open>auto simp: priced_variable_def\<close>)

lemma price_term_run:
  assumes "price_term e = Some (v, pr)" "evaluate_at env n e st = Inr ((w, i), st')" "tree_ok e"
  shows "\<exists>q x. quantity (ctx env) v q \<and> w = JNum x \<and> x \<in> {mul_num q pr, mul_num pr q} \<and> st' = st"
proof -
  obtain l r s t where e: "e = Binary (js ''*'') l r s t"
      and c: "nonnegativePriceLiteral r = Some pr \<and> priced_variable l = Some v \<or>
        nonnegativePriceLiteral l = Some pr \<and> priced_variable r = Some v"
    using assms(1) by (auto simp: price_term_def split: expr.splits option.splits if_splits)
  have ok: "tree_ok l" "tree_ok r" using assms(3) e tree_ok_iff [of e] by auto
  from c show ?thesis
  proof
    assume a: "nonnegativePriceLiteral r = Some pr \<and> priced_variable l = Some v"
    have "\<exists>x y. quantity (ctx env) v x \<and> y = pr \<and> w = JNum (if js ''*'' = js ''+'' then add_num x y
        else if js ''*'' = js ''-'' then sub_num x y else mul_num x y) \<and> st' = st"
      by (rule arithmetic_run [OF assms(2) [unfolded e]])
         (use a ok price_literal_run [of r pr env] priced_variable_run [of l v env] in \<open>simp; blast\<close>)+
    then show ?thesis by auto
  next
    assume a: "nonnegativePriceLiteral l = Some pr \<and> priced_variable r = Some v"
    have "\<exists>x y. x = pr \<and> quantity (ctx env) v y \<and> w = JNum (if js ''*'' = js ''+'' then add_num x y
        else if js ''*'' = js ''-'' then sub_num x y else mul_num x y) \<and> st' = st"
      by (rule arithmetic_run [OF assms(2) [unfolded e]])
         (use a ok price_literal_run [of l pr env] priced_variable_run [of r v env] in \<open>simp; blast\<close>)+
    then show ?thesis by auto
  qed
qed

text \<open>A reader of sums: it reads every summand, and what it reads of a summand decides its value.\<close>

locale sum_reader =
  fixes summand :: "expr \<Rightarrow> 'r option" and total :: "simulation_context \<Rightarrow> 'r list \<Rightarrow> jsnum \<Rightarrow> bool"
  assumes summand_run: "summand e = Some r \<Longrightarrow> evaluate_at env n e st = Inr ((v, i), st') \<Longrightarrow> tree_ok e \<Longrightarrow>
      \<exists>x. v = JNum x \<and> total (ctx env) [r] x \<and> st' = st"
    and total_add: "total sc xs a \<Longrightarrow> total sc ys b \<Longrightarrow> total sc (xs @ ys) (add_num a b)"
begin

lemma sum_run:
  "those (map summand (flattenBinary (js ''+'') e)) = Some rows \<Longrightarrow> tree_ok e \<Longrightarrow>
   evaluate_at env n e st = Inr ((v, i), st') \<Longrightarrow> \<exists>x. v = JNum x \<and> total (ctx env) rows x \<and> st' = st"
proof (induction "js ''+''" e arbitrary: rows n st v i st' rule: flattenBinary.induct)
  case (1 p l r s t)
  show ?case
  proof (cases "p = js ''+''")
    case True
    obtain as bs where c: "those (map summand (flattenBinary (js ''+'') l)) = Some as"
        "those (map summand (flattenBinary (js ''+'') r)) = Some bs" "rows = as @ bs"
      using 1(3) True by (auto simp: those_append)
    have ok: "tree_ok l" "tree_ok r" using 1(4) tree_ok_iff [of "Binary p l r s t"] by auto
    have "\<exists>x y. total (ctx env) as x \<and> total (ctx env) bs y \<and> v = JNum (if p = js ''+'' then add_num x y
        else if p = js ''-'' then sub_num x y else mul_num x y) \<and> st' = st"
      by (rule arithmetic_run [OF 1(5)]) (use True 1(1) [OF True c(1) ok(1)] 1(2) [OF True c(2) ok(2)] in \<open>simp; blast\<close>)+
    then show ?thesis using True c(3) total_add by auto
  next
    case False
    then obtain row where "summand (Binary p l r s t) = Some row" "rows = [row]"
      using 1(3) by (auto split: option.splits)
    then show ?thesis using summand_run [OF _ 1(5,4)] by simp
  qed
qed (auto dest: summand_run simp del: evaluate_at.simps split: option.splits)

end

interpretation price_reader: sum_reader price_term row_sum
proof unfold_locales
  fix e r env n st v i st'
  assume "price_term e = Some r" "evaluate_at env n e st = Inr ((v, i), st')" "tree_ok e"
  then show "\<exists>x. v = JNum x \<and> row_sum (ctx env) [r] x \<and> st' = st"
    using price_term_run [of e "fst r" "snd r"] row_one by (cases r) fastforce
qed (rule row_add)

lemma collect_prices_those:
  "collect_prices ts acc = Some ps \<Longrightarrow> \<exists>xs. ps = acc @ xs \<and> those (map price_term ts) = Some xs"
  by (induction ts acc rule: collect_prices.induct) (fastforce split: option.splits if_splits)+

section \<open>Tiers\<close>

lemma tier_call_run:
  assumes "evaluate_at env n (Call (js ''tier'') (k # price # rest) s t) st = Inr ((v, i), st')"
  shows "\<exists>m name j st1 x l st2. evaluate_at env m k st = Inr ((JStr name, j), st1) \<and>
    evaluate_at env m price st1 = Inr ((JNum x, l), st2) \<and> v = JNum x \<and> st' = st2\<lparr>matchedTier := name\<rparr>"
proof -
  obtain m where "evaluate_node env (evaluate_at env m) (Call (js ''tier'') (k # price # rest) s t) st = Inr ((v, i), st')"
    using assms by (rule evaluate_pos)
  then show ?thesis
    by (fastforce simp: evaluate_node_def run_call_def Let_def bind_run_Inr with_arg_Inr run_numeric_Inr run_string_Inr
        simp del: evaluate_at.simps)
qed

lemma fixed_call_run:
  assumes "evaluate_at env n (Call (js ''fixed'') (Literal (LNum a) k s1 t1 # rest) s t) st = Inr ((v, i), st')"
  shows "v = JNum (mul_num a (Fin 1000000)) \<and> st' = st\<lparr>billingUnit := Unit_request, fixedPrice := Some a\<rparr>"
proof -
  obtain m where "evaluate_node env (evaluate_at env m) (Call (js ''fixed'') (Literal (LNum a) k s1 t1 # rest) s t) st =
      Inr ((v, i), st')"
    using assms by (rule evaluate_pos)
  then obtain x j st1 where "evaluate_at env m (Literal (LNum a) k s1 t1) st = Inr ((JNum x, j), st1)"
      "v = JNum (mul_num x (Fin 1000000))" "st' = st1\<lparr>billingUnit := Unit_request, fixedPrice := Some x\<rparr>"
    by (fastforce simp: evaluate_node_def run_call_def Let_def bind_run_Inr with_arg_Inr run_numeric_Inr
        simp del: evaluate_at.simps)
  then show ?thesis using literal_run by fastforce
qed

text \<open>The state after a tier was charged, from a state without a fixed price.\<close>

definition charged :: "simulation_context \<Rightarrow> token_tier \<Rightarrow> jsval \<Rightarrow> rstate \<Rightarrow> bool" where
  "charged sc t v st' \<longleftrightarrow> matchedTier st' = label t \<and> fixedPrice st' = tierFixed t \<and>
     (billingUnit st' = Unit_request \<longleftrightarrow> tierUnit t = Some Unit_request) \<and> (\<exists>x. v = JNum x \<and> tier_cost sc t x)"

definition uncharged :: "rstate \<Rightarrow> bool" where
  "uncharged st \<longleftrightarrow> fixedPrice st = None \<and> billingUnit st \<noteq> Unit_request"

lemma charged_flags [simp]:
  "charged sc (t\<lparr>conditionText := x\<rparr>) v st = charged sc t v st"
  "charged sc (t\<lparr>imageCountTier := f\<rparr>) v st = charged sc t v st"
  by (cases "tierFixed t"; simp add: charged_def tier_cost_def)+

lemma tier_charged:
  assumes "tokenTier e conds = Some tr" "evaluate_at env n e st = Inr ((v, i), st')" "tree_ok e" "uncharged st"
  shows "charged (ctx env) tr v st' \<and> conditionText tr = None \<and> conditions tr = conds"
proof -
  obtain lab k s1 t1 price rest s t where e: "e = Call (js ''tier'') (Literal (LStr lab) k s1 t1 # price # rest) s t"
    using assms(1) by (auto simp: tokenTier_def split: expr.splits list.splits lit.splits if_splits)
  obtain m name j st1 x l st2 where r: "evaluate_at env m (Literal (LStr lab) k s1 t1) st = Inr ((JStr name, j), st1)"
      "evaluate_at env m price st1 = Inr ((JNum x, l), st2)" "v = JNum x" "st' = st2\<lparr>matchedTier := name\<rparr>"
    using tier_call_run [OF assms(2) [unfolded e]] by blast
  have n: "name = lab" "st1 = st" using literal_run [OF r(1)] by auto
  have ok: "tree_ok price" using assms(3) e tree_ok_iff [of e] by auto
  show ?thesis
  proof (cases "fixed_literal price")
    case (Some a)
    then obtain k2 s2 t2 rest2 s3 t3 where p: "price = Call (js ''fixed'') (Literal (LNum a) k2 s2 t2 # rest2) s3 t3"
      by (auto simp: fixed_literal_def split: expr.splits list.splits lit.splits if_splits)
    have "tr = plain_tier\<lparr>label := lab, conditions := conds, tierUnit := Some Unit_request, tierFixed := Some a\<rparr>"
      using assms(1) e Some by (simp add: tokenTier_def)
    then show ?thesis
      using fixed_call_run [OF r(2) [unfolded p]] r(3,4) n by (simp add: charged_def tier_cost_def plain_tier_def)
  next
    case None
    then obtain ps where ps: "collect_prices (flattenBinary (js ''+'') price) [] = Some ps"
        "tr = plain_tier\<lparr>label := lab, conditions := conds, prices := ps\<rparr>"
      using assms(1) e by (auto simp: tokenTier_def split: option.splits list.splits)
    then have "those (map price_term (flattenBinary (js ''+'') price)) = Some ps"
      using collect_prices_those by fastforce
    then have "row_sum (ctx env) ps x \<and> st2 = st1" using price_reader.sum_run [OF _ ok r(2)] by blast
    then show ?thesis
      using ps(2) r(3,4) n assms(4) by (auto simp: charged_def tier_cost_def plain_tier_def uncharged_def)
  qed
qed

lemma conditional_run:
  assumes "evaluate_at env n (Conditional c yes no s t) st = Inr ((v, i), st')"
  shows "\<exists>m b j st1 st2. evaluate_at env m c st = Inr ((JBool b, j), st1) \<and> pricing_kept st1 st2 \<and>
    evaluate_at env m (if b then yes else no) st2 = Inr ((v, i), st')"
proof -
  obtain m where "evaluate_node env (evaluate_at env m) (Conditional c yes no s t) st = Inr ((v, i), st')"
    using assms by (rule evaluate_pos)
  then obtain b j st1 u st2 where "evaluate_at env m c st = Inr ((JBool b, j), st1)"
      "mark_rule env (Conditional c yes no s t) b st1 = Inr (u, st2)"
      "evaluate_at env m (if b then yes else no) st2 = Inr ((v, i), st')"
    by (auto simp: evaluate_node_def bind_run_Inr run_boolean_Inr simp del: evaluate_at.simps)
  then show ?thesis using mark_rule_kept by blast
qed

lemma uncharged_kept: "uncharged st \<Longrightarrow> pricing_kept st st' \<Longrightarrow> uncharged st'"
  by (simp add: uncharged_def pricing_kept_def)

text \<open>A chain of conditionals read as a list of tiers: the first tier that applies is charged.\<close>

locale tier_chain = condition_reader +
  fixes tier :: "expr \<Rightarrow> 'c list \<Rightarrow> 't option" and applies :: "simulation_context \<Rightarrow> 't \<Rightarrow> bool"
    and settles :: "simulation_context \<Rightarrow> 't \<Rightarrow> jsval \<Rightarrow> rstate \<Rightarrow> bool" and chain :: "expr \<Rightarrow> 't list option"
  assumes tier_run: "tier e cs = Some t \<Longrightarrow> evaluate_at env n e st = Inr ((v, i), st') \<Longrightarrow> tree_ok e \<Longrightarrow> uncharged st \<Longrightarrow>
      settles (ctx env) t v st'"
    and tier_conditions: "tier e cs = Some t \<Longrightarrow> applies sc t = list_all (holds sc) cs"
    and chain_branch: "chain (Conditional a y z p q) =
      (case those (map conjunct (flattenBinary (js ''&&'') a)) of
         None \<Rightarrow> None
       | Some cs \<Rightarrow> (case tier y cs of None \<Rightarrow> None | Some t \<Rightarrow> map_option (\<lambda>ts. t # ts) (chain z)))"
    and chain_leaf: "\<nexists>c y n s t. e = Conditional c y n s t \<Longrightarrow> chain e = map_option (\<lambda>t. [t]) (tier e [])"
begin

lemma chain_run:
  "chain e = Some ts \<Longrightarrow> evaluate_at env n e st = Inr ((v, i), st') \<Longrightarrow> tree_ok e \<Longrightarrow> uncharged st \<Longrightarrow>
   \<exists>t. find (applies (ctx env)) ts = Some t \<and> settles (ctx env) t v st'"
proof (induction "size e" arbitrary: e ts n st v i st' rule: less_induct)
  case less
  show ?case
  proof (cases "\<exists>c y n s t. e = Conditional c y n s t")
    case True
    then obtain c y z s t where e: "e = Conditional c y z s t" by blast
    obtain cs t1 ts1 where c: "those (map conjunct (flattenBinary (js ''&&'') c)) = Some cs" "tier y cs = Some t1"
        "chain z = Some ts1" "ts = t1 # ts1"
      using less.prems(1) e by (auto simp: chain_branch split: option.splits)
    obtain m b j st1 st2 where r: "evaluate_at env m c st = Inr ((JBool b, j), st1)" "pricing_kept st1 st2"
        "evaluate_at env m (if b then y else z) st2 = Inr ((v, i), st')"
      using conditional_run [OF less.prems(2) [unfolded e]] by blast
    have b: "b = list_all (holds (ctx env)) cs" "st1 = st" using conjunction_run [OF c(1) r(1)] by auto
    have u: "uncharged st2" using less.prems(4) b(2) r(2) uncharged_kept by blast
    have ok: "tree_ok y" "tree_ok z" using less.prems(3) e tree_ok_iff [of e] by auto
    have ap: "applies (ctx env) t1 = b" using tier_conditions [OF c(2)] b(1) by simp
    show ?thesis
    proof (cases b)
      case True
      then show ?thesis using tier_run [OF c(2) _ ok(1) u] r(3) ap c(4) by auto
    next
      case False
      then show ?thesis using less.hyps [OF _ c(3) _ ok(2) u] r(3) ap c(4) e by auto
    qed
  next
    case False
    then obtain t where t: "tier e [] = Some t" "ts = [t]" using less.prems(1) chain_leaf by auto
    then show ?thesis using tier_run [OF t(1) less.prems(2-4)] tier_conditions [OF t(1)] by simp
  qed
qed

end

lemma token_tier_conditions: "tokenTier e cs = Some t \<Longrightarrow> conditions t = cs \<and> conditionText t = None"
  by (auto simp: tokenTier_def plain_tier_def split: expr.splits list.splits lit.splits option.splits if_splits)

interpretation token_tiers: tier_chain token_condition_of condition_holds tokenTier tier_applies charged token_chain
proof unfold_locales
  show "tokenTier e cs = Some t \<Longrightarrow> evaluate_at env n e st = Inr ((v, i), st') \<Longrightarrow> tree_ok e \<Longrightarrow> uncharged st \<Longrightarrow>
      charged (ctx env) t v st'" for e cs t env n st v i st' using tier_charged by blast
  show "tokenTier e cs = Some t \<Longrightarrow> tier_applies sc t = list_all (condition_holds sc) cs" for e cs t sc
    using token_tier_conditions [of e cs t] by (simp add: tier_applies_def)
  show "token_chain e = map_option (\<lambda>t. [t]) (tokenTier e [])" if "\<nexists>c y n s t. e = Conditional c y n s t" for e
    using that by (cases e) auto
qed (simp add: tokenConditions_def)

section \<open>Audio and image requests\<close>

lemma zero_less: "eq_num z (Fin 0) \<Longrightarrow> lt_num z q = lt_num (Fin 0) q"
  by (cases z; cases q) auto

lemma audio_run:
  assumes "audio_input e = Some name" "evaluate_at env n e st = Inr ((JBool b, i), st')"
  shows "b = positive_reading (ctx env) name \<and> st' = st"
proof -
  obtain s1 t1 z k s2 t2 s t where e: "e = Binary (js ''>'') (Variable name s1 t1) (Literal (LNum z) k s2 t2) s t"
      and z: "eq_num z (Fin 0)" "name \<noteq> js ''image_count''"
    using assms(1) by (auto simp: audio_input_def split: expr.splits lit.splits if_splits)
  have op: "js ''>'' \<noteq> js ''&&''" "js ''>'' \<noteq> js ''||''" by simp_all
  obtain m a st1 d where r: "evaluate_at env m (Variable name s1 t1) st = Inr (a, st1)"
      "evaluate_at env m (Literal (LNum z) k s2 t2) st1 = Inr (d, st')"
      "run_operator (js ''>'') a d s st' = Inr ((JBool b, i), st')"
    using binary_run [OF assms(2) [unfolded e] op] by blast
  obtain q where q: "token_reading (ctx env) name = Some q" "fst a = JNum q" "st1 = st"
    using variable_run [of env m name s1 t1 st "fst a" "snd a" st1] r(1) z(2) by auto
  have d: "fst d = JNum z" "st' = st" using literal_run [of env m "LNum z" k s2 t2 st1 "fst d" "snd d" st'] r(2) q(3) by auto
  have "b = lt_num z q"
    using r(3) q(2) d(1) by (auto simp: run_operator_def order_value_def Let_def res_simps)
  then show ?thesis using q(1) d(2) zero_less [OF z(1)] by (simp add: positive_reading_def)
qed

lemma or_run:
  assumes "evaluate_at env n (Binary (js ''||'') l r s t) st = Inr ((JBool b, j), st')"
  shows "\<exists>m a i st1. evaluate_at env m l st = Inr ((JBool a, i), st1) \<and>
    (if a then b \<and> st' = st1 else \<exists>k. evaluate_at env m r st1 = Inr ((JBool b, k), st'))"
  using assms by (elim evaluate_pos) (fastforce simp: evaluate_node_def run_binary_def res_simps split: if_splits)

lemma audio_pair:
  assumes "card (set (List.map_filter audio_input [l, r])) = 2"
  shows "\<exists>x y. audio_input l = Some x \<and> audio_input r = Some y \<and> {x, y} = {js ''ai'', js ''ao''}"
proof -
  have range: "audio_input e = Some x \<Longrightarrow> x = js ''ai'' \<or> x = js ''ao''" for e x
    by (auto simp: audio_input_def split: expr.splits lit.splits if_splits)
  show ?thesis
    using assms range [of l] range [of r]
    by (cases "audio_input l"; cases "audio_input r") (auto simp: map_filter_simps card_insert_if split: if_splits)
qed

lemma audio_charged:
  assumes "audio_tiers e = Some ts" "evaluate_at env n e st = Inr ((v, i), st')" "tree_ok e" "uncharged st"
  shows "\<exists>tr. find (tier_applies (ctx env)) ts = Some tr \<and> charged (ctx env) tr v st'"
proof -
  obtain l r s1 t1 yes no s t ta tn where e: "e = Conditional (Binary (js ''||'') l r s1 t1) yes no s t"
      and c: "card (set (List.map_filter audio_input [l, r])) = 2" "tokenTier yes [] = Some ta" "tokenTier no [] = Some tn"
      and ts: "ts = [ta\<lparr>conditionText := Some (js ''Audio requests'')\<rparr>, tn\<lparr>conditionText := Some (js ''Text-only requests'')\<rparr>]"
    using assms(1) by (auto simp: audio_tiers_def split: expr.splits if_splits option.splits)
  obtain x y where xy: "audio_input l = Some x" "audio_input r = Some y" "{x, y} = {js ''ai'', js ''ao''}"
    using audio_pair [OF c(1)] by blast
  obtain m b j st1 st2 where run: "evaluate_at env m (Binary (js ''||'') l r s1 t1) st = Inr ((JBool b, j), st1)"
      "pricing_kept st1 st2" "evaluate_at env m (if b then yes else no) st2 = Inr ((v, i), st')"
    using conditional_run [OF assms(2) [unfolded e]] by blast
  obtain m' a k st3 where o: "evaluate_at env m' l st = Inr ((JBool a, k), st3)"
      "if a then b \<and> st1 = st3 else \<exists>k. evaluate_at env m' r st3 = Inr ((JBool b, k), st1)"
    using or_run [OF run(1)] by blast
  have "b = (positive_reading (ctx env) x \<or> positive_reading (ctx env) y) \<and> st1 = st"
    using audio_run [OF xy(1) o(1)] audio_run [OF xy(2)] o(2) by (cases a) auto
  moreover have "(positive_reading (ctx env) x \<or> positive_reading (ctx env) y) =
      (positive_reading (ctx env) (js ''ai'') \<or> positive_reading (ctx env) (js ''ao''))"
    using xy(3) by (auto simp: doubleton_eq_iff)
  ultimately have b: "b = (positive_reading (ctx env) (js ''ai'') \<or> positive_reading (ctx env) (js ''ao''))" "st1 = st"
    by auto
  have u: "uncharged st2" using assms(4) b(2) run(2) uncharged_kept by blast
  have ok: "tree_ok yes" "tree_ok no" using assms(3) e tree_ok_iff [of e] by auto
  have "conditions tn = []"
    using c(3) by (auto simp: tokenTier_def plain_tier_def split: expr.splits list.splits lit.splits option.splits if_splits)
  then show ?thesis
    using tier_charged [OF c(2) _ ok(1) u] tier_charged [OF c(3) _ ok(2) u] run(3) b(1) ts
    by (cases b) (auto simp: tier_applies_def)
qed

definition settled :: "simulation_context \<Rightarrow> token_tier \<Rightarrow> jsval \<Rightarrow> rstate \<Rightarrow> bool" where
  "settled sc t v st' \<longleftrightarrow> matchedTier st' = label t \<and> fixedPrice st' = tierFixed t \<and>
     (billingUnit st' = Unit_request \<longleftrightarrow> tierUnit t = Some Unit_request) \<and>
     (imageCountTier t \<or> (\<exists>x. v = JNum x \<and> tier_cost sc t x))"

lemma charged_settled: "charged sc t v st \<Longrightarrow> settled sc t v st"
  by (simp add: charged_def settled_def)

lemma find_image:
  "find (tier_applies sc) ts = Some tr \<Longrightarrow>
   find (tier_applies sc) (map (\<lambda>t. t\<lparr>imageCountTier := True\<rparr>) ts) = Some (tr\<lparr>imageCountTier := True\<rparr>)"
  by (induction ts) (auto simp: tier_applies_def split: if_splits)

lemma settled_image: "settled sc t v st \<Longrightarrow> pricing_kept st st' \<Longrightarrow> settled sc (t\<lparr>imageCountTier := True\<rparr>) w st'"
  by (simp add: settled_def pricing_kept_def)

lemma product_run:
  assumes "evaluate_at env n (Binary (js ''*'') l r s t) st = Inr ((v, j), st')"
  shows "\<exists>m a i st1 b k. evaluate_at env m l st = Inr ((a, i), st1) \<and> evaluate_at env m r st1 = Inr ((b, k), st')"
proof -
  obtain m a st1 b where "evaluate_at env m l st = Inr (a, st1)" "evaluate_at env m r st1 = Inr (b, st')"
    using binary_run [OF assms] by (auto simp del: evaluate_at.simps)
  then show ?thesis by (cases a; cases b) blast
qed

lemma image_kept: "is_image_count e \<Longrightarrow> evaluate_at env n e st = Inr (v, st') \<Longrightarrow> pricing_kept st st'"
  by (rule unmarked_keeps) (auto simp: is_image_count_def split: expr.splits)

lemma other_settled:
  assumes "(case audio_tiers e of Some us \<Rightarrow> Some us | None \<Rightarrow> token_chain e) = Some ts"
    "evaluate_at env n e st = Inr ((v, i), st')" "tree_ok e" "uncharged st"
  shows "\<exists>tr. find (tier_applies (ctx env)) ts = Some tr \<and> settled (ctx env) tr v st'"
proof (cases "audio_tiers e")
  case None
  then show ?thesis using token_tiers.chain_run [OF _ assms(2-4)] assms(1) charged_settled by auto
next
  case (Some us)
  then show ?thesis using audio_charged [OF _ assms(2-4)] assms(1) charged_settled by auto
qed

lemma table_settled:
  "readTokenTierChain e = Some ts \<Longrightarrow> evaluate_at env n e st = Inr ((v, i), st') \<Longrightarrow> tree_ok e \<Longrightarrow> uncharged st \<Longrightarrow>
   \<exists>tr. find (tier_applies (ctx env)) ts = Some tr \<and> settled (ctx env) tr v st'"
proof (induction e arbitrary: ts n st v i st' rule: readTokenTierChain.induct)
  case (1 p l r s t)
  have ok: "tree_ok l" "tree_ok r" using 1(5) tree_ok_iff [of "Binary p l r s t"] by auto
  consider (left) "p = js ''*''" "is_image_count l"
    | (right) "p = js ''*''" "is_image_count r" "\<not> is_image_count l"
    | (chain) "token_chain (Binary p l r s t) = Some ts"
    using 1(3) by (auto split: if_splits)
  then show ?case
  proof cases
    case left
    then obtain us where us: "readTokenTierChain r = Some us" "ts = map (\<lambda>t. t\<lparr>imageCountTier := True\<rparr>) us"
      using 1(3) by auto
    obtain m a k st1 b j where run: "evaluate_at env m l st = Inr ((a, k), st1)" "evaluate_at env m r st1 = Inr ((b, j), st')"
      using product_run [of env n l r s t st v i st'] 1(4) left(1) by auto
    have "uncharged st1" using image_kept [OF left(2) run(1)] 1(6) uncharged_kept by blast
    then obtain tr where "find (tier_applies (ctx env)) us = Some tr" "settled (ctx env) tr b st'"
      using 1(1) [OF conjI [OF left] us(1) run(2) ok(2)] by blast
    then show ?thesis
      using us(2) find_image settled_image [of "ctx env" tr b st' st' v] by (auto simp: pricing_kept_def)
  next
    case right
    then obtain us where us: "readTokenTierChain l = Some us" "ts = map (\<lambda>t. t\<lparr>imageCountTier := True\<rparr>) us"
      using 1(3) by auto
    obtain m a k st1 b j where run: "evaluate_at env m l st = Inr ((a, k), st1)" "evaluate_at env m r st1 = Inr ((b, j), st')"
      using product_run [of env n l r s t st v i st'] 1(4) right(1) by auto
    then obtain tr where "find (tier_applies (ctx env)) us = Some tr" "settled (ctx env) tr a st1"
      using 1(2) [OF _ _ us(1) run(1) ok(1) 1(6)] right by blast
    then show ?thesis
      using us(2) find_image settled_image [of "ctx env" tr a st1 st' v] image_kept [OF right(2) run(2)] by auto
  next
    case chain
    then show ?thesis using token_tiers.chain_run [OF _ 1(4,5,6)] charged_settled by blast
  qed
qed (rule other_settled; (assumption | simp only: readTokenTierChain.simps))+

section \<open>Branches by time\<close>

lemma token_chain_nonempty: "token_chain e = Some ts \<Longrightarrow> ts \<noteq> []"
  by (cases e) (auto split: option.splits)

lemma table_nonempty: "readTokenTierChain e = Some ts \<Longrightarrow> ts \<noteq> []"
proof (induction e arbitrary: ts rule: readTokenTierChain.induct)
  case (1 p l r s t)
  then show ?case using token_chain_nonempty by (auto split: if_splits)
qed (auto simp: audio_tiers_def dest: token_chain_nonempty split: option.splits expr.splits if_splits)

definition moment_decides :: "platform \<Rightarrow> compiled \<Rightarrow> jsdate \<Rightarrow> time_token_tier \<Rightarrow> bool" where
  "moment_decides h c m t = list_all (\<lambda>(e, _). evaluateBillingCondition h c e m \<noteq> None) (timeConditions t)"

abbreviation path_holds :: "platform \<Rightarrow> compiled \<Rightarrow> jsdate \<Rightarrow> (expr \<times> bool) list \<Rightarrow> bool" where
  "path_holds h c m path \<equiv> list_all (\<lambda>(e, b). evaluateBillingCondition h c e m = Some b) path"

lemma branch_prefix:
  "timeTierBranches src e path = Inr (Some ts) \<Longrightarrow> t \<in> set ts \<Longrightarrow> \<exists>rest. timeConditions t = path @ rest"
proof (induction src e path arbitrary: ts rule: timeTierBranches.induct)
  case (1 src c yes no s e path)
  then show ?case
    by (fastforce simp: res_simps time_tier_def split: if_splits option.splits)
qed (auto simp: time_tier_def split: if_splits)

lemma branch_nonempty: "timeTierBranches src e path = Inr (Some ts) \<Longrightarrow> ts \<noteq> []"
proof (induction src e path arbitrary: ts rule: timeTierBranches.induct)
  case (1 src c yes no s e path)
  then show ?case
    by (auto simp: res_simps simp del: readTokenTierChain.simps dest: table_nonempty split: if_splits option.splits)
qed (auto simp del: readTokenTierChain.simps dest: table_nonempty split: if_splits)

definition covered :: "platform \<Rightarrow> compiled \<Rightarrow> jsdate \<Rightarrow> time_token_tier list \<Rightarrow> bool" where
  "covered h c m ts \<longleftrightarrow> filter (current_tier h c m) ts \<noteq> [] \<and>
     (\<exists>q. \<forall>t\<in>set ts. current_tier h c m t \<longleftrightarrow> timeConditions t = q)"

lemma leaf_covers:
  assumes "readTokenTierChain e = Some us" "path_holds h c m path"
  shows "covered h c m (map (time_tier src path) us)"
proof -
  have "current_tier h c m (time_tier src path u)" "timeConditions (time_tier src path u) = path" for u
    using assms(2) by (simp_all add: current_tier_def time_tier_def)
  then show ?thesis using table_nonempty [OF assms(1)] by (auto simp: covered_def filter_empty_conv)
qed

lemma covered_append:
  assumes "covered h c m xs" "\<And>t. t \<in> set zs \<Longrightarrow> \<not> current_tier h c m t"
    and "\<And>t u. t \<in> set xs \<Longrightarrow> u \<in> set zs \<Longrightarrow> timeConditions t \<noteq> timeConditions u"
  shows "covered h c m (xs @ zs)"
proof -
  obtain q where q: "filter (current_tier h c m) xs \<noteq> []" "\<forall>t\<in>set xs. current_tier h c m t \<longleftrightarrow> timeConditions t = q"
    using assms(1) by (auto simp: covered_def)
  then obtain x where "x \<in> set xs" "timeConditions x = q" by (auto simp: filter_empty_conv)
  then have "\<forall>t\<in>set zs. timeConditions t \<noteq> q" using assms(3) by force
  then show ?thesis using q assms(2) by (auto simp: covered_def intro!: exI [of _ q])
qed

lemma covered_swap: "covered h c m (xs @ zs) \<Longrightarrow> covered h c m (zs @ xs)"
  by (auto simp: covered_def)

lemma branch_covers:
  "timeTierBranches src e path = Inr (Some ts) \<Longrightarrow> path_holds h c m path \<Longrightarrow> \<forall>t\<in>set ts. moment_decides h c m t \<Longrightarrow>
   covered h c m ts"
proof (induction src e path arbitrary: ts rule: timeTierBranches.induct)
  case (1 src cond yes no s e path)
  obtain timed where timed: "isTimeCondition cond = Inr timed" using 1(3) by (auto simp: res_simps)
  show ?case
  proof (cases timed)
    case False
    then obtain us where us: "readTokenTierChain (Conditional cond yes no s e) = Some us" "ts = map (time_tier src path) us"
      using 1(3) timed by (auto simp: res_simps split: if_splits)
    then show ?thesis using leaf_covers [OF us(1) 1(4)] by simp
  next
    case True
    obtain ys ns where b: "timeTierBranches src yes (path @ [(cond, True)]) = Inr (Some ys)"
        "timeTierBranches src no (path @ [(cond, False)]) = Inr (Some ns)" "ts = ys @ ns"
      using 1(3) timed True by (auto simp: res_simps split: option.splits)
    have yne: "ys \<noteq> [] \<Longrightarrow> evaluateBillingCondition h c cond m \<noteq> None"
      using branch_prefix [OF b(1)] 1(5) b(3) by (fastforce simp: moment_decides_def neq_Nil_conv)
    have no_y: "evaluateBillingCondition h c cond m = Some False \<Longrightarrow> t \<in> set ys \<Longrightarrow> \<not> current_tier h c m t" for t
      using branch_prefix [OF b(1)] by (fastforce simp: current_tier_def)
    have no_n: "evaluateBillingCondition h c cond m = Some True \<Longrightarrow> t \<in> set ns \<Longrightarrow> \<not> current_tier h c m t" for t
      using branch_prefix [OF b(2)] by (fastforce simp: current_tier_def)
    have ny: "t \<in> set ys \<Longrightarrow> u \<in> set ns \<Longrightarrow> timeConditions t \<noteq> timeConditions u" for t u
      using branch_prefix [OF b(1), of t] branch_prefix [OF b(2), of u] by auto
    obtain d where d: "evaluateBillingCondition h c cond m = Some d"
      using yne branch_nonempty [OF b(1)] by auto
    have dec: "\<forall>t\<in>set ys. moment_decides h c m t" "\<forall>t\<in>set ns. moment_decides h c m t" using 1(5) b(3) by auto
    show ?thesis
    proof (cases d)
      case True
      then have "path_holds h c m (path @ [(cond, True)])" using 1(4) d by simp
      then have "covered h c m ys" using 1(1) [OF _ b(1) _ dec(1)] \<open>timed\<close> by blast
      then show ?thesis unfolding b(3) using no_n d True ny by (intro covered_append) auto
    next
      case False
      then have "path_holds h c m (path @ [(cond, False)])" using 1(4) d by simp
      then have "covered h c m ns" using 1(2) [OF _ b(2) _ dec(2)] \<open>timed\<close> by blast
      then have "covered h c m (ns @ ys)" using no_y d False ny [THEN not_sym] by (intro covered_append) auto
      then show ?thesis unfolding b(3) by (rule covered_swap)
    qed
  qed
qed (auto simp del: readTokenTierChain.simps intro: leaf_covers split: if_splits)

end
