(* ===== verification/Billing_Task_Tables.thy ===== *)
theory Billing_Task_Tables
  imports Billing_Tables
begin

text \<open>
  The task price tables against the runtime: a task expression whose table can be read charges
  the first tier whose usage conditions hold, and its cost is the tier's constant plus the
  reported quantities at their unit prices.
\<close>

section \<open>What a task table says\<close>

definition usage_reading :: "simulation_context \<Rightarrow> jsstr \<Rightarrow> jsval" where
  "usage_reading sc f =
     (case usage sc of
        None \<Rightarrow> JNull
      | Some us \<Rightarrow> (case map_of us f of Some v \<Rightarrow> v | None \<Rightarrow> JNull))"

definition boolean_field :: "usage_schema \<Rightarrow> jsstr \<Rightarrow> bool" where
  "boolean_field schema f \<longleftrightarrow> (\<exists>d. map_of schema f = Some d \<and> uf_type d = js ''boolean'')"

definition token_field :: "usage_schema \<Rightarrow> jsstr \<Rightarrow> bool" where
  "token_field schema f \<longleftrightarrow> (\<exists>d. map_of schema f = Some d \<and> uf_unit d = Some (js ''token''))"

definition task_holds :: "usage_schema \<Rightarrow> simulation_context \<Rightarrow> jsstr \<times> jsstr \<Rightarrow> bool" where
  "task_holds schema sc = (\<lambda>(f, v).
     usage_reading sc f = (if boolean_field schema f then JBool (v = js ''true'') else JStr v))"

definition task_applies :: "usage_schema \<Rightarrow> simulation_context \<Rightarrow> task_tier \<Rightarrow> bool" where
  "task_applies schema sc t = list_all (task_holds schema sc) (taskConditions t)"

text \<open>The summands of a task price in source order: the constant and the priced fields.\<close>

datatype task_row = Row_constant jsnum | Row_field jsstr jsnum

inductive task_sum :: "usage_schema \<Rightarrow> simulation_context \<Rightarrow> task_row list \<Rightarrow> jsnum \<Rightarrow> bool"
  for schema sc where
  task_constant: "task_sum schema sc [Row_constant k] k"
| task_field: "usage_reading sc f = JNum q \<Longrightarrow>
    n = (if token_field schema f then div_num (mul_num q price) (Fin 1000000) else mul_num q price) \<Longrightarrow>
    task_sum schema sc [Row_field f price] n"
| task_add: "task_sum schema sc xs a \<Longrightarrow> task_sum schema sc ys b \<Longrightarrow> task_sum schema sc (xs @ ys) (add_num a b)"

fun row_price :: "task_row \<Rightarrow> (jsstr \<times> jsnum) option" where
  "row_price (Row_constant k) = None"
| "row_price (Row_field f price) = Some (f, price)"

fun row_constant :: "task_row \<Rightarrow> jsnum option" where
  "row_constant (Row_constant k) = Some k"
| "row_constant (Row_field f price) = None"

text \<open>The rows a tier shows: its unit prices in order, and at most one constant somewhere.\<close>

definition tier_rows :: "task_tier \<Rightarrow> task_row list \<Rightarrow> bool" where
  "tier_rows t rows \<longleftrightarrow> List.map_filter row_price rows = unitPrices t \<and>
     (List.map_filter row_constant rows = [] \<and> taskConstant t = Fin 0 \<or>
      List.map_filter row_constant rows = [taskConstant t])"

definition task_cost :: "usage_schema \<Rightarrow> simulation_context \<Rightarrow> task_tier \<Rightarrow> jsnum \<Rightarrow> bool" where
  "task_cost schema sc t n \<longleftrightarrow> (\<exists>rows. tier_rows t rows \<and> task_sum schema sc rows n)"

section \<open>Conditions\<close>

lemma usage_run:
  assumes "usage_name e = Some f" "evaluate_at env n e st = Inr ((v, i), st')"
  shows "v = usage_reading (ctx env) f \<and> st' = st"
proof -
  obtain k s1 t1 rest s t where e: "e = Call (js ''u'') (Literal (LStr f) k s1 t1 # rest) s t"
    using assms(1) by (auto simp: usage_name_def split: expr.splits list.splits lit.splits if_splits)
  obtain m where "evaluate_node env (evaluate_at env m) e st = Inr ((v, i), st')"
    using assms(2) by (rule evaluate_pos)
  then obtain key j where r: "evaluate_at env m (Literal (LStr f) k s1 t1) st = Inr ((JStr key, j), st')"
      "v = usage_reading (ctx env) key"
    unfolding e by (cases "usage (ctx env)") (auto simp: evaluate_node_def run_call_def Let_def bind_run_Inr with_arg_Inr
        run_string_Inr ret_Inr throw_at_def bill_error_def usage_reading_def simp del: evaluate_at.simps)
  then show ?thesis using literal_run [OF r(1)] by simp
qed

lemma task_condition_run:
  assumes "task_condition schema flag e = Some c" "evaluate_at env n e st = Inr ((JBool b, i), st')"
  shows "b = task_holds schema (ctx env) c \<and> st' = st"
proof -
  obtain l w k s1 t1 s t f d where e: "e = Binary (js ''=='') l (Literal w k s1 t1) s t" "usage_name l = Some f"
      "map_of schema f = Some d"
      and w: "uf_type d = js ''boolean'' \<and> (\<exists>x. w = LBool x \<and> c = (f, if x then js ''true'' else js ''false'')) \<or>
        uf_type d \<noteq> js ''boolean'' \<and> (\<exists>x. w = LStr x \<and> c = (f, x))"
    using assms(1) by (auto simp: task_condition_def split: expr.splits lit.splits if_splits option.splits)
  obtain m a st1 y where r: "evaluate_at env m l st = Inr (a, st1)"
      "evaluate_at env m (Literal w k s1 t1) st1 = Inr (y, st')" "run_operator (js ''=='') a y s st' = Inr ((JBool b, i), st')"
    using binary_run [OF assms(2) [unfolded e(1)]] by auto
  have a: "fst a = usage_reading (ctx env) f" "st1 = st"
    using usage_run [OF e(2), of env m st "fst a" "snd a" st1] r(1) by auto
  have y: "fst y = lit_val w" "st' = st"
    using literal_run [of env m w k s1 t1 st1 "fst y" "snd y" st'] r(2) a(2) by auto
  have "b = strict_eq (usage_reading (ctx env) f) (lit_val w)"
    using r(3) a(1) y(1) by (auto simp: run_operator_def Let_def res_simps split: if_splits)
  then show ?thesis
    using w y(2) e(3) by (cases "usage_reading (ctx env) f") (auto simp: task_holds_def boolean_field_def)
qed

interpretation task_reader: condition_reader "task_condition schema flag" "task_holds schema" for schema flag
  by unfold_locales (rule task_condition_run)

section \<open>Prices\<close>

lemma quotient_run:
  assumes "evaluate_at env n (Binary (js ''/'') l (Literal (LNum d) k s1 t1) s t) st = Inr ((v, j), st')"
  shows "\<exists>m x i. evaluate_at env m l st = Inr ((JNum x, i), st') \<and> v = JNum (div_num x d)"
proof -
  obtain m a st1 b where r: "evaluate_at env m l st = Inr (a, st1)"
      "evaluate_at env m (Literal (LNum d) k s1 t1) st1 = Inr (b, st')" "run_operator (js ''/'') a b s st' = Inr ((v, j), st')"
    using binary_run [OF assms] by auto
  have b: "fst b = JNum d" "st' = st1" using literal_run [of env m "LNum d" k s1 t1 st1 "fst b" "snd b" st'] r(2) by auto
  obtain x where "fst a = JNum x" "v = JNum (div_num x d)"
    using r(3) b(1)
    by (cases "fst a") (auto simp: run_operator_def order_value_def arithmetic_def Let_def res_simps)
  then show ?thesis using r(1) b(2) by (metis prod.collapse)
qed

lemma usage_price_run:
  assumes "usage_name l = Some f" "nonnegativePriceLiteral r = Some price" "tree_ok r"
    and "evaluate_at env n (Binary (js ''*'') l r s t) st = Inr ((v, i), st')"
  shows "\<exists>q. usage_reading (ctx env) f = JNum q \<and> v = JNum (mul_num q price) \<and> st' = st"
proof -
  obtain m a st1 b where e: "evaluate_at env m l st = Inr (a, st1)" "evaluate_at env m r st1 = Inr (b, st')"
      "run_operator (js ''*'') a b s st' = Inr ((v, i), st')"
    using binary_run [OF assms(4)] by auto
  have a: "fst a = usage_reading (ctx env) f" "st1 = st"
    using usage_run [OF assms(1), of env m st "fst a" "snd a" st1] e(1) by auto
  have b: "fst b = JNum price" "st' = st"
    using price_literal_run [OF assms(2) _ assms(3), of env m st1 "fst b" "snd b" st'] e(2) a(2) by auto
  obtain q where "fst a = JNum q" "v = JNum (mul_num q price)"
    using e(3) b(1)
    by (cases "fst a") (auto simp: run_operator_def order_value_def arithmetic_def Let_def res_simps)
  then show ?thesis using a b by auto
qed

lemma unit_term_shape:
  assumes "task_unit_term schema e = Some (f, price)"
  shows "\<exists>l r s t. usage_name l = Some f \<and> nonnegativePriceLiteral r = Some price \<and>
    (if token_field schema f
     then \<exists>d k s1 t1 s2 t2. eq_num d (Fin 1000000) \<and> e = Binary (js ''/'') (Binary (js ''*'') l r s t) (Literal (LNum d) k s1 t1) s2 t2
     else e = Binary (js ''*'') l r s t)"
  using assms
  by (auto simp: task_unit_term_def token_field_def Let_def split: expr.splits lit.splits option.splits if_splits)

lemma unit_term_run:
  assumes "task_unit_term schema e = Some (f, price)" "evaluate_at env n e st = Inr ((v, i), st')" "tree_ok e"
  shows "\<exists>x. v = JNum x \<and> task_sum schema (ctx env) [Row_field f price] x \<and> st' = st"
proof -
  obtain l r s t where u: "usage_name l = Some f" "nonnegativePriceLiteral r = Some price"
      and e: "if token_field schema f
        then \<exists>d k s1 t1 s2 t2. eq_num d (Fin 1000000) \<and> e = Binary (js ''/'') (Binary (js ''*'') l r s t) (Literal (LNum d) k s1 t1) s2 t2
        else e = Binary (js ''*'') l r s t"
    using unit_term_shape [OF assms(1)] by blast
  show ?thesis
  proof (cases "token_field schema f")
    case False
    then have "tree_ok r" using assms(3) e tree_ok_iff [of e] by auto
    then obtain q where "usage_reading (ctx env) f = JNum q" "v = JNum (mul_num q price)" "st' = st"
      using usage_price_run [OF u, of env n s t st v i st'] assms(2) e False by auto
    then show ?thesis using task_field [of "ctx env" f q "mul_num q price" schema price] False by simp
  next
    case True
    then obtain d k s1 t1 s2 t2 where d: "eq_num d (Fin 1000000)"
        "e = Binary (js ''/'') (Binary (js ''*'') l r s t) (Literal (LNum d) k s1 t1) s2 t2"
      using e by auto
    obtain m x j where x: "evaluate_at env m (Binary (js ''*'') l r s t) st = Inr ((JNum x, j), st')"
        "v = JNum (div_num x d)"
      using quotient_run [OF assms(2) [unfolded d(2)]] by blast
    have "tree_ok r" using assms(3) d tree_ok_iff [of e] tree_ok_iff [of "Binary (js ''*'') l r s t"] by auto
    moreover have "d = Fin 1000000" using d(1) by (cases d) auto
    ultimately obtain q where "usage_reading (ctx env) f = JNum q" "v = JNum (div_num (mul_num q price) (Fin 1000000))" "st' = st"
      using usage_price_run [OF u _ x(1)] x(2) by auto
    then show ?thesis using task_field [of "ctx env" f q _ schema price] True by simp
  qed
qed

definition task_row_of :: "usage_schema \<Rightarrow> expr \<Rightarrow> task_row option" where
  "task_row_of schema e =
     (case nonnegativePriceLiteral e of
        Some k \<Rightarrow> Some (Row_constant k)
      | None \<Rightarrow> map_option (\<lambda>(f, price). Row_field f price) (task_unit_term schema e))"

lemma task_row_run:
  assumes "task_row_of schema e = Some row" "evaluate_at env n e st = Inr ((v, i), st')" "tree_ok e"
  shows "\<exists>x. v = JNum x \<and> task_sum schema (ctx env) [row] x \<and> st' = st"
proof (cases "nonnegativePriceLiteral e")
  case (Some k)
  then show ?thesis using price_literal_run [OF Some assms(2,3)] assms(1) task_constant by (auto simp: task_row_of_def)
next
  case None
  then show ?thesis using unit_term_run [OF _ assms(2,3)] assms(1) by (auto simp: task_row_of_def)
qed

interpretation task_price_reader: sum_reader "task_row_of schema" "task_sum schema" for schema
  by unfold_locales (rule task_row_run task_add; assumption)+

lemma collected_rows:
  "collect_task_prices schema ts k acc = Some (k', us) \<Longrightarrow>
   \<exists>rows. those (map (task_row_of schema) ts) = Some rows \<and> us = acc @ List.map_filter row_price rows \<and>
     (case k of None \<Rightarrow> List.map_filter row_constant rows = (case k' of None \<Rightarrow> [] | Some x \<Rightarrow> [x])
      | Some x \<Rightarrow> k' = Some x \<and> List.map_filter row_constant rows = [])"
proof (induction schema ts k acc rule: collect_task_prices.induct)
  case (2 schema t ts k acc)
  show ?case
  proof (cases "nonnegativePriceLiteral t")
    case (Some v)
    then show ?thesis using 2(2) [OF Some] 2(3) by (auto simp: task_row_of_def map_filter_simps split: if_splits)
  next
    case None
    then obtain f price where u: "task_unit_term schema t = Some (f, price)" "f \<notin> fst ` set acc"
        "collect_task_prices schema ts k (acc @ [(f, price)]) = Some (k', us)"
      using 2(3) by (auto split: option.splits if_splits)
    then show ?thesis using 2(1) [OF None u(1) refl u(2,3)] None by (auto simp: task_row_of_def map_filter_simps split: option.splits)
  qed
qed (auto simp: map_filter_simps split: option.splits)

section \<open>Tiers\<close>

definition task_charged :: "usage_schema \<Rightarrow> simulation_context \<Rightarrow> task_tier \<Rightarrow> jsval \<Rightarrow> rstate \<Rightarrow> bool" where
  "task_charged schema sc t v st' \<longleftrightarrow> matchedTier st' = taskLabel t \<and> uncharged st' \<and>
     (\<exists>x. v = JNum x \<and> task_cost schema sc t x)"

lemma task_tier_charged:
  assumes "taskTier e conds schema = Some tr" "evaluate_at env n e st = Inr ((v, i), st')" "tree_ok e" "uncharged st"
  shows "task_charged schema (ctx env) tr v st' \<and> taskConditions tr = conds"
proof -
  obtain lab k s1 t1 price rest s t c us where e: "e = Call (js ''tier'') (Literal (LStr lab) k s1 t1 # price # rest) s t"
      and us: "collect_task_prices schema (flattenBinary (js ''+'') price) None [] = Some (c, us)"
      and tr: "tr = \<lparr>taskLabel = lab, taskConditions = conds, taskConstant = (case c of None \<Rightarrow> Fin 0 | Some v \<Rightarrow> v), unitPrices = us\<rparr>"
    using assms(1) by (auto simp: taskTier_def split: expr.splits list.splits lit.splits if_splits option.splits)
  obtain m name j st1 x l st2 where r: "evaluate_at env m (Literal (LStr lab) k s1 t1) st = Inr ((JStr name, j), st1)"
      "evaluate_at env m price st1 = Inr ((JNum x, l), st2)" "v = JNum x" "st' = st2\<lparr>matchedTier := name\<rparr>"
    using tier_call_run [OF assms(2) [unfolded e]] by blast
  have n: "name = lab" "st1 = st" using literal_run [OF r(1)] by auto
  have ok: "tree_ok price" using assms(3) e tree_ok_iff [of e] by auto
  obtain rows where rows: "those (map (task_row_of schema) (flattenBinary (js ''+'') price)) = Some rows"
      "us = List.map_filter row_price rows" "List.map_filter row_constant rows = (case c of None \<Rightarrow> [] | Some x \<Rightarrow> [x])"
    using collected_rows [OF us] by auto
  have "task_sum schema (ctx env) rows x" "st2 = st1" using task_price_reader.sum_run [OF rows(1) ok r(2)] by auto
  moreover have "tier_rows tr rows" using rows(2,3) tr by (simp add: tier_rows_def split: option.splits)
  ultimately show ?thesis using tr r(3,4) n assms(4) by (auto simp: task_charged_def task_cost_def uncharged_def)
qed

lemma task_tier_conditions: "taskTier e cs schema = Some t \<Longrightarrow> taskConditions t = cs"
  by (auto simp: taskTier_def split: expr.splits list.splits lit.splits option.splits if_splits)

interpretation task_tiers: tier_chain "task_condition schema flag" "task_holds schema" "\<lambda>e cs. taskTier e cs schema"
  "task_applies schema" "task_charged schema" "readTaskTierChain schema flag" for schema flag
proof unfold_locales
  show "taskTier e cs schema = Some t \<Longrightarrow> evaluate_at env n e st = Inr ((v, i), st') \<Longrightarrow> tree_ok e \<Longrightarrow> uncharged st \<Longrightarrow>
      task_charged schema (ctx env) t v st'" for e cs t env n st v i st' using task_tier_charged by blast
  show "taskTier e cs schema = Some t \<Longrightarrow> task_applies schema sc t = list_all (task_holds schema sc) cs" for e cs t sc
    using task_tier_conditions [of e cs schema t] by (simp add: task_applies_def)
  show "readTaskTierChain schema flag e = map_option (\<lambda>t. [t]) (taskTier e [] schema)"
    if "\<nexists>c y n s t. e = Conditional c y n s t" for e
    using that by (cases e) auto
qed (simp add: read_task_conditions_def)

end
