(* ===== verification/Billing_Display_Properties.thy ===== *)
theory Billing_Display_Properties
  imports Billing_Task_Tables Billing_Properties
begin

text \<open>
  The properties of the price tables: what a table shows is what the evaluation charges, the
  branches by time cover every moment exactly once, and task tables select the charged tier.
\<close>

section \<open>Successful evaluations\<close>

lemma evaluation_run:
  assumes "cache_ok cache" "compile_fresh source = Inr c"
    and "fst (evaluateBillingExpression h source context cache) = Inr r"
  obtains env st n i st' where "evaluate_at env n (cast c) st = Inr ((JNum (cost r), i), st')"
    "eunit r = billingUnit st'" "efixedPrice r = fixedPrice st'" "etier r = matchedTier st'"
    "tree_ok (cast c)" "uncharged st" "ctx env = context"
proof -
  obtain c' where c': "compile_fresh source = Inr c'" "run_program h c' context = Inr r"
    using evaluate_Inr [OF assms(1,3)] .
  then have run: "run_program h c context = Inr r" using assms(2) by simp
  obtain env st i st' where e: "new_runtime h c context = Inr (env, st)"
      "evaluate env (cast c) st = Inr ((JNum (cost r), i), st')"
      "eunit r = billingUnit st'" "efixedPrice r = fixedPrice st'" "etier r = matchedTier st'"
    using run_program_Inr [OF run] by metis
  have "tree_ok (cast c)"
    using compile_fresh_ok [OF assms(2)] parse_source_good by (auto simp: compiled_ok_def good_def)
  moreover have "uncharged st" "ctx env = context" using new_runtime_ok [OF e(1)] by (auto simp: uncharged_def)
  ultimately show thesis using that e(2-5) unfolding evaluate_def by blast
qed

section \<open>Token tables\<close>

text \<open>C2: The price table of an expression tells what is charged: whenever an evaluation succeeds,
  the first row whose conditions hold for the request is the tier that was charged, with its
  unit and its fixed price, and, unless the table is per image, the cost is the sum of
  quantity times price over that row.\<close>

theorem table_shows_charge:
  assumes "cache_ok cache" "compile_fresh source = Inr c" "readTokenTierChain (cast c) = Some tiers"
    and "fst (evaluateBillingExpression h source context cache) = Inr r"
  shows "\<exists>t. find (tier_applies context) tiers = Some t \<and> etier r = label t \<and> efixedPrice r = tierFixed t \<and>
    (eunit r = Unit_request \<longleftrightarrow> tierUnit t = Some Unit_request) \<and>
    (imageCountTier t \<or> tier_cost context t (cost r))"
proof -
  obtain env st n i st' where e: "evaluate_at env n (cast c) st = Inr ((JNum (cost r), i), st')"
      "eunit r = billingUnit st'" "efixedPrice r = fixedPrice st'" "etier r = matchedTier st'"
      "tree_ok (cast c)" "uncharged st" "ctx env = context"
    using evaluation_run [OF assms(1,2,4)] .
  from table_settled [OF assms(3) e(1,5,6)] show ?thesis unfolding settled_def using e(2,3,4,7) by fastforce
qed

definition chain_source :: jsstr where
  "chain_source = js ''p<9?tier(\"a\",p*2):tier(\"b\",p*3)''"

definition chain_program :: compiled where
  "chain_program =
     \<lparr>csource = chain_source,
      cast = Conditional (Binary (js ''<'') (Variable (js ''p'') 0 1) (Literal (LNum (Fin 9)) (Some True) 2 3) 0 3)
        (Call (js ''tier'') [Literal (LStr (js ''a'')) None 9 12,
          Binary (js ''*'') (Variable (js ''p'') 13 14) (Literal (LNum (Fin 2)) (Some True) 15 16) 13 16] 4 17)
        (Call (js ''tier'') [Literal (LStr (js ''b'')) None 23 26,
          Binary (js ''*'') (Variable (js ''p'') 27 28) (Literal (LNum (Fin 3)) (Some True) 29 30) 27 30] 18 31) 0 31,
      cvariables = [js ''p''], cfunctions = [js ''tier''], crules = []\<rparr>"

lemma chain_compiles: "compile_fresh chain_source = Inr chain_program"
  by (simp add: chain_source_def chain_program_def billing_eval cong: bind_first_cong
      del: parser_methods.simps js_inject)

definition chain_result :: evaluation where
  "chain_result = \<lparr>cost = Fin 6, eunit = Unit_token, eimageCount = None, efixedPrice = None,
     etier = js ''a'', erules = []\<rparr>"

lemma chain_runs: "run_program plain_host chain_program token_context = Inr chain_result"
  by (simp add: chain_program_def token_context_def chain_result_def plain_host_def billing_eval
      cong: bind_first_cong del: js_inject evaluate_at.simps)

lemma evaluate_fresh:
  "compile_fresh source = Inr c \<Longrightarrow> run_program h c context = Inr r \<Longrightarrow>
   fst (evaluateBillingExpression h source context []) = Inr r"
  using compile_step [OF empty_cache_ok, of source]
  by (simp add: evaluateBillingExpression_def evaluate_compiled_def Let_def case_prod_beta)

lemma chain_evaluates: "fst (evaluateBillingExpression plain_host chain_source token_context []) = Inr chain_result"
  using evaluate_fresh [OF chain_compiles chain_runs] .

lemma chain_table: "\<exists>tiers. readTokenTierChain (cast chain_program) = Some tiers"
  by (simp add: chain_program_def tokenConditions_def token_condition_of_def tokenTier_def fixed_literal_def
      price_term_def nonnegativePriceLiteral_def priced_variable_def audio_tiers_def ordering_operators_def le_num_def)

theorem table_shows_charge_witness:
  "\<exists>tiers t. readTokenTierChain (cast chain_program) = Some tiers \<and>
     find (tier_applies token_context) tiers = Some t \<and> label t = js ''a''"
proof -
  obtain tiers where "readTokenTierChain (cast chain_program) = Some tiers" using chain_table by blast
  with table_shows_charge [OF empty_cache_ok chain_compiles this chain_evaluates] show ?thesis
    by (auto simp: chain_result_def)
qed

section \<open>Branches by time\<close>

text \<open>A table with branches by time covers every moment: when the host can decide the time
  conditions of the table at a moment, some rows are current, and the current rows are
  exactly the rows of one branch, so that two branches are never current together.\<close>

theorem every_moment_priced:
  assumes "cache_ok cache" "compile_fresh source = Inr c"
    and "fst (readTimeTokenPricing h source (Some m) cache) = Inr (Some (tiers, shown))"
    and "\<forall>t\<in>set tiers. moment_decides h c m t"
  shows "shown \<noteq> [] \<and> (\<exists>path. shown = filter (\<lambda>t. timeConditions t = path) tiers)"
proof -
  have b: "timeTierBranches (csource c) (cast c) [] = Inr (Some tiers)" "shown = filter (current_tier h c m) tiers"
    using assms(3) compile_step [OF assms(1), of source] assms(2)
    by (auto simp: readTimeTokenPricing_def res_simps case_prod_beta Let_def)
  then obtain path where "shown \<noteq> []" "\<forall>t\<in>set tiers. current_tier h c m t \<longleftrightarrow> timeConditions t = path"
    using branch_covers [OF b(1) _ assms(4)] by (auto simp: covered_def)
  then show ?thesis using b(2) by (auto intro!: exI [of _ path] filter_cong)
qed

definition timed_source :: jsstr where
  "timed_source = js ''hour(\"UTC\")<9?tier(\"a\",p*2):tier(\"b\",p*3)''"

definition timed_program :: compiled where
  "timed_program =
     \<lparr>csource = timed_source,
      cast = Conditional (Binary (js ''<'') (Call (js ''hour'') [Literal (LStr (js ''UTC'')) None 5 10] 0 11)
          (Literal (LNum (Fin 9)) (Some True) 12 13) 0 13)
        (Call (js ''tier'') [Literal (LStr (js ''a'')) None 19 22,
          Binary (js ''*'') (Variable (js ''p'') 23 24) (Literal (LNum (Fin 2)) (Some True) 25 26) 23 26] 14 27)
        (Call (js ''tier'') [Literal (LStr (js ''b'')) None 33 36,
          Binary (js ''*'') (Variable (js ''p'') 37 38) (Literal (LNum (Fin 3)) (Some True) 39 40) 37 40] 28 41) 0 41,
      cvariables = [js ''p''], cfunctions = [js ''hour'', js ''tier''], crules = []\<rparr>"

lemma timed_compiles: "compile_fresh timed_source = Inr timed_program"
  by (simp add: timed_source_def timed_program_def billing_eval cong: bind_first_cong
      del: parser_methods.simps js_inject)

abbreviation early_hour :: expr where
  "early_hour \<equiv> Binary (js ''<'') (Call (js ''hour'') [Literal (LStr (js ''UTC'')) None 5 10] 0 11)
     (Literal (LNum (Fin 9)) (Some True) 12 13) 0 13"

lemma hour_decides: "evaluateBillingCondition plain_host timed_program early_hour (Some 0) = Some True"
  by (simp add: evaluateBillingCondition_def timed_program_def plain_host_def billing_eval cached_time_def
      timeInBillingZone_def time_field_def utc_values_def utc_hours_def usable_format_def trim_def
      cong: bind_first_cong del: js_inject evaluate_at.simps)

lemma hour_timed: "isTimeCondition early_hour = Inr True"
  by (simp add: isTimeCondition_def pure_functions_def billing_eval del: js_inject)

lemma timed_table:
  "\<exists>a b. timeTierBranches timed_source (cast timed_program) [] = Inr (Some [a, b]) \<and>
     timeConditions a = [(early_hour, True)] \<and> timeConditions b = [(early_hour, False)]"
  using hour_timed
  by (simp add: timed_program_def res_simps tokenConditions_def token_condition_of_def tokenTier_def fixed_literal_def
      price_term_def nonnegativePriceLiteral_def priced_variable_def audio_tiers_def ordering_operators_def le_num_def
      time_tier_def)

theorem every_moment_priced_witness:
  "\<exists>tiers shown path. fst (readTimeTokenPricing plain_host timed_source (Some (Some 0)) []) = Inr (Some (tiers, shown)) \<and>
     length tiers = 2 \<and> shown \<noteq> [] \<and> shown = filter (\<lambda>t. timeConditions t = path) tiers"
proof -
  obtain a b where t: "timeTierBranches timed_source (cast timed_program) [] = Inr (Some [a, b])"
      "timeConditions a = [(early_hour, True)]" "timeConditions b = [(early_hour, False)]"
    using timed_table by blast
  have r: "fst (readTimeTokenPricing plain_host timed_source (Some (Some 0)) []) =
      Inr (Some ([a, b], filter (current_tier plain_host timed_program (Some 0)) [a, b]))"
    using compile_step [OF empty_cache_ok, of timed_source] timed_compiles t(1)
    by (simp add: readTimeTokenPricing_def timed_program_def res_simps Let_def case_prod_beta)
  have d: "\<forall>x\<in>set [a, b]. moment_decides plain_host timed_program (Some 0) x"
    using t(2,3) hour_decides by (auto simp: moment_decides_def simp del: js_inject)
  show ?thesis using every_moment_priced [OF empty_cache_ok timed_compiles r d] r by auto
qed

section \<open>Task tables\<close>

text \<open>C28: The task table of an expression tells what a task is charged: whenever an evaluation
  succeeds, the first tier whose usage conditions hold for the reported usage is the charged
  tier, the charge is not per request, and the cost is the tier's constant plus the reported
  quantities at their unit prices, per million when the field counts tokens.\<close>

theorem task_table_shows_charge:
  assumes "cache_ok cache" "compile_fresh source = Inr c" "readTaskTierChain schema flag (cast c) = Some tiers"
    and "fst (evaluateBillingExpression h source context cache) = Inr r"
  shows "\<exists>t. find (task_applies schema context) tiers = Some t \<and> etier r = taskLabel t \<and>
    eunit r \<noteq> Unit_request \<and> efixedPrice r = None \<and> task_cost schema context t (cost r)"
proof -
  obtain env st n i st' where e: "evaluate_at env n (cast c) st = Inr ((JNum (cost r), i), st')"
      "eunit r = billingUnit st'" "efixedPrice r = fixedPrice st'" "etier r = matchedTier st'"
      "tree_ok (cast c)" "uncharged st" "ctx env = context"
    using evaluation_run [OF assms(1,2,4)] .
  from task_tiers.chain_run [OF assms(3) e(1,5,6)] show ?thesis
    using e(2,3,4,7) by (auto simp: task_charged_def uncharged_def)
qed

definition task_source :: jsstr where
  "task_source = js ''u(\"m\")==\"x\"?tier(\"a\",u(\"s\")*2):tier(\"b\",u(\"s\")*3)''"

definition task_program :: compiled where
  "task_program =
     \<lparr>csource = task_source,
      cast = Conditional (Binary (js ''=='') (Call (js ''u'') [Literal (LStr (js ''m'')) None 2 5] 0 6)
          (Literal (LStr (js ''x'')) None 8 11) 0 11)
        (Call (js ''tier'') [Literal (LStr (js ''a'')) None 17 20,
          Binary (js ''*'') (Call (js ''u'') [Literal (LStr (js ''s'')) None 23 26] 21 27)
            (Literal (LNum (Fin 2)) (Some True) 28 29) 21 29] 12 30)
        (Call (js ''tier'') [Literal (LStr (js ''b'')) None 36 39,
          Binary (js ''*'') (Call (js ''u'') [Literal (LStr (js ''s'')) None 42 45] 40 46)
            (Literal (LNum (Fin 3)) (Some True) 47 48) 40 48] 31 49) 0 49,
      cvariables = [], cfunctions = [js ''u'', js ''tier''], crules = []\<rparr>"

lemma task_compiles: "compile_fresh task_source = Inr task_program"
  by (simp add: task_source_def task_program_def billing_eval cong: bind_first_cong
      del: parser_methods.simps js_inject)

definition task_context :: simulation_context where
  "task_context = empty_context\<lparr>usage := Some [(js ''m'', JStr (js ''x'')), (js ''s'', JNum (Fin 5))]\<rparr>"

definition task_result :: evaluation where
  "task_result = \<lparr>cost = Fin 10, eunit = Unit_token, eimageCount = None, efixedPrice = None,
     etier = js ''a'', erules = []\<rparr>"

lemma task_runs: "run_program plain_host task_program task_context = Inr task_result"
  by (simp add: task_program_def task_context_def task_result_def plain_host_def billing_eval
      cong: bind_first_cong del: js_inject evaluate_at.simps)

definition task_schema :: usage_schema where
  "task_schema =
     [(js ''m'', \<lparr>uf_type = js ''string'', uf_enum = Some [js ''x''], uf_unit = None\<rparr>),
      (js ''s'', \<lparr>uf_type = js ''number'', uf_enum = None, uf_unit = Some (js ''second'')\<rparr>)]"

lemma task_table: "\<exists>tiers. readTaskTierChain task_schema False (cast task_program) = Some tiers"
  by (simp add: task_program_def task_schema_def read_task_conditions_def task_condition_def usage_name_def
      taskTier_def task_unit_term_def nonnegativePriceLiteral_def le_num_def)

lemma task_evaluates: "fst (evaluateBillingExpression plain_host task_source task_context []) = Inr task_result"
  using evaluate_fresh [OF task_compiles task_runs] .

theorem task_table_shows_charge_witness:
  "\<exists>tiers t. readTaskTierChain task_schema False (cast task_program) = Some tiers \<and>
     find (task_applies task_schema task_context) tiers = Some t \<and> taskLabel t = js ''a'' \<and>
     task_cost task_schema task_context t (Fin 10)"
proof -
  obtain tiers where "readTaskTierChain task_schema False (cast task_program) = Some tiers" using task_table by blast
  with task_table_shows_charge [OF empty_cache_ok task_compiles this task_evaluates] show ?thesis
    by (auto simp: task_result_def)
qed

end
