(* ===== verification/Billing_Visual_Properties.thy ===== *)
theory Billing_Visual_Properties
  imports Billing_Visual_Edits Billing_Display_Properties
begin

text \<open>
  The properties of the visual editor: a document that was not edited is written back as its
  source, and a replaced part changes the source only where that part stands.
\<close>

section \<open>Documents that were read\<close>

lemma parsed_document:
  assumes "cache_ok cache" "fst (parseVisualBillingDocument h source cache) = Some d"
  shows "\<exists>c p new. compile_fresh source = Inr c \<and> readVisualPricing (cast c) = Some p \<and>
    d = \<lparr>vd_source = source, vd_root = p\<rparr> \<and> writeVisualPricing h source p [] = (new, [])"
proof -
  let ?r = "compileBillingExpression source cache"
  have r: "fst ?r = compile_fresh source" "cache_ok (snd ?r)"
    using compile_memo.call_result compile_memo.call_keeps assms(1) by auto
  obtain c p written where c: "compile_fresh source = Inr c" "readVisualPricing (cast c) = Some p"
      "d = \<lparr>vd_source = source, vd_root = p\<rparr>" "fst (serializeVisualBillingDocument h d (snd ?r)) = Inr written"
    using assms(2) r(1)
    by (auto simp: parseVisualBillingDocument_def Let_def case_prod_beta is_ok_iff split: sum.splits option.splits if_splits)
  then show ?thesis using serialize_result [OF r(2) c(4)] by auto
qed

lemma spliced_whole:
  assumes "inside source e n"
  shows "take (estart e) source @ spliced source e n new @ drop (eend e) source =
    take (estart n) source @ new @ drop (eend n) source"
proof -
  have "estart e \<le> estart n" "eend n \<le> eend e" "eend e \<le> length source" using assms by (auto simp: inside_def)
  then have "take (estart e) source @ slice source (estart e) (estart n) = take (estart n) source"
    "slice source (eend n) (eend e) @ drop (eend e) source = drop (eend n) source"
    using slice_append_slice [of 0 "estart e" "estart n" source] slice_append_slice [of "eend n" "eend e" "length source" source]
    by (simp_all add: slice_def)
  then show ?thesis by (simp add: spliced_def)
qed

lemma unedited_written:
  assumes "compile_fresh source = Inr c" "readVisualPricing (cast c) = Some p"
    and "snd (writeVisualPricing h source p []) = []" "cache_ok cache"
  shows "fst (serializeVisualBillingDocument h \<lparr>vd_source = source, vd_root = p\<rparr> cache) = Inr source"
proof -
  have ok: "readable source (cast c)" using compiled_readable [OF assms(1)] .
  have "fst (writeVisualPricing h source p []) = node_text source (cast c)" using pricing_kept_text [OF ok assms(2)] .
  moreover have "estart (cast c) \<le> eend (cast c)" "eend (cast c) \<le> length source"
    using inside_refl [OF ok] by (auto simp: inside_def)
  ultimately have "take (estart (cast c)) source @ fst (writeVisualPricing h source p []) @ drop (eend (cast c)) source = source"
    by (simp add: node_text_def slice_whole)
  then show ?thesis
    using assms compile_memo.call_result compile_memo.call_keeps
    by (simp add: serializeVisualBillingDocument_def Let_def case_prod_beta)
qed

text \<open>C3: Opening an expression in the visual editor and saving it without an edit changes
  nothing: the document that was read is written back as exactly its source, with its white
  space, its parentheses, its quoting and its spelling of numbers, whatever the compile cache
  holds in between.\<close>

theorem unedited_document_lossless:
  assumes "cache_ok cache" "cache_ok cache'"
    and "fst (parseVisualBillingDocument h source cache) = Some d"
  shows "fst (serializeVisualBillingDocument h d cache') = Inr source"
proof -
  obtain c p new where c: "compile_fresh source = Inr c" "readVisualPricing (cast c) = Some p"
      "d = \<lparr>vd_source = source, vd_root = p\<rparr>" "writeVisualPricing h source p [] = (new, [])"
    using parsed_document [OF assms(1,3)] by blast
  then show ?thesis using unedited_written [OF c(1,2) _ assms(2)] by simp
qed

text \<open>C4: Edits are local: when a part of an opened document is replaced, whatever by, and the
  document can be written, the written source is the original with the text of the new part
  where the old part stood, and it can be compiled.\<close>

theorem edit_is_local:
  assumes "cache_ok cache" "cache_ok cache'" "fst (parseVisualBillingDocument h source cache) = Some d"
    and "subtree path (vd_root d) = Some q" "vn_origin q = Some n"
    and "fst (serializeVisualBillingDocument h (d\<lparr>vd_root := replaced path new (vd_root d)\<rparr>) cache') = Inr result"
  shows "result = take (estart n) source @ fst (writeVisualPricing h source new []) @ drop (eend n) source \<and>
    (\<exists>c. compile_fresh result = Inr c)"
proof -
  obtain c p where c: "compile_fresh source = Inr c" "readVisualPricing (cast c) = Some p"
      "d = \<lparr>vd_source = source, vd_root = p\<rparr>"
    using parsed_document [OF assms(1,3)] by blast
  obtain written c' where r: "compile_fresh result = Inr c'" "writeVisualPricing h source (replaced path new p) [] = (written, [])"
      "result = take (estart (cast c)) source @ written @ drop (eend (cast c)) source"
    using serialize_result [OF assms(2,6)] c by auto
  have "written = spliced source (cast c) n (fst (writeVisualPricing h source new [])) \<and> inside source (cast c) n"
    using replaced_text [OF compiled_readable [OF c(1)] c(2), of path q n h new "[]"] assms(4,5) c(3) r(2) by simp
  then show ?thesis using r(1,3) spliced_whole by auto
qed

section \<open>An example\<close>

definition chain_condition :: visual_condition where
  "chain_condition = V_comparison (js ''condition-0-3'')
     (Some (Binary (js ''<'') (Variable (js ''p'') 0 1) (Literal (LNum (Fin 9)) (Some True) 2 3) 0 3))
     (js ''p'') [] (js ''<'') (num_text (Fin 9))"

definition chain_root :: visual_pricing where
  "chain_root = V_branch (js ''pricing-0-31'') (Some (cast chain_program)) chain_condition
     (V_tier (js ''pricing-4-17'')
       (Some (Call (js ''tier'') [Literal (LStr (js ''a'')) None 9 12,
          Binary (js ''*'') (Variable (js ''p'') 13 14) (Literal (LNum (Fin 2)) (Some True) 15 16) 13 16] 4 17))
       \<lparr>vt_label = js ''a'', vt_prices = [\<lparr>vp_variable = js ''p'', vp_value = num_text (Fin 2), vp_origin =
          Some (Binary (js ''*'') (Variable (js ''p'') 13 14) (Literal (LNum (Fin 2)) (Some True) 15 16) 13 16)\<rparr>],
        vt_unit = Unit_token, vt_fixed = []\<rparr>)
     (V_tier (js ''pricing-18-31'')
       (Some (Call (js ''tier'') [Literal (LStr (js ''b'')) None 23 26,
          Binary (js ''*'') (Variable (js ''p'') 27 28) (Literal (LNum (Fin 3)) (Some True) 29 30) 27 30] 18 31))
       \<lparr>vt_label = js ''b'', vt_prices = [\<lparr>vp_variable = js ''p'', vp_value = num_text (Fin 3), vp_origin =
          Some (Binary (js ''*'') (Variable (js ''p'') 27 28) (Literal (LNum (Fin 3)) (Some True) 29 30) 27 30)\<rparr>],
        vt_unit = Unit_token, vt_fixed = []\<rparr>)"

lemma chain_read: "readVisualPricing (cast chain_program) = Some chain_root"
  by (simp add: chain_program_def chain_root_def chain_condition_def readVisualCondition.simps read_comparison_def
      COMPARISONS_def read_probe_def read_tier_def fixed_literal_node_def read_price_def node_id_def nat_digits.simps js_eval
      del: js_inject num_text.simps)

lemma small_read_back:
  "(numeral k :: int) < 2 ^ 53 \<Longrightarrow> parseNonNegativeNumber (num_text (Fin (numeral k))) = Some (Fin (numeral k))"
  by (rule printed_number_read) (simp add: plain_double_def to_double_numeral)

lemma chain_issues: "snd (writeVisualPricing h chain_source chain_root []) = []"
  by (simp add: chain_root_def chain_condition_def write_comparison_def comparison_valid_def write_prices_def price_issues_def
      small_read_back TIME_FUNCTIONS_def case_prod_beta Let_def del: num_text.simps)

lemma chain_document:
  "fst (parseVisualBillingDocument h chain_source []) = Some \<lparr>vd_source = chain_source, vd_root = chain_root\<rparr>"
  using chain_compiles chain_read unedited_written [OF chain_compiles chain_read chain_issues [of h]]
    compile_memo.call_result [OF empty_cache_ok, of chain_source] compile_memo.call_keeps [OF empty_cache_ok, of chain_source]
  by (simp add: parseVisualBillingDocument_def Let_def case_prod_beta)

theorem unedited_document_lossless_witness:
  "fst (serializeVisualBillingDocument plain_host \<lparr>vd_source = chain_source, vd_root = chain_root\<rparr> []) = Inr chain_source"
  using unedited_document_lossless [OF empty_cache_ok empty_cache_ok chain_document] .

definition drafted_tier :: visual_pricing where
  "drafted_tier = V_tier (js ''draft-1'') None
     \<lparr>vt_label = js ''c'', vt_prices = [\<lparr>vp_variable = js ''p'', vp_value = js ''7'', vp_origin = None\<rparr>],
      vt_unit = Unit_token, vt_fixed = []\<rparr>"

lemma seven_read: "parseNonNegativeNumber [55] = Some (Fin 7)"
  by (simp add: parseNonNegativeNumber_def decimal_literal_def string_number_def radix_literal_def trim_def is_space_def
      is_digit_def decimal_num_def to_double_numeral le_num_def js_eval)

lemma draft_written: "writeVisualPricing h source drafted_tier [] = (js ''tier(\"c\", p * 7)'', [])"
  by (simp add: drafted_tier_def write_prices_def price_issues_def price_text_def json_string_def quote_unit_def seven_read
      js_eval del: js_inject)

definition edited_source :: jsstr where
  "edited_source = js ''p<9?tier(\"c\", p * 7):tier(\"b\",p*3)''"

lemma edited_compiles: "\<exists>c. compile_fresh edited_source = Inr c"
  by (simp add: edited_source_def billing_eval cong: bind_first_cong del: parser_methods.simps js_inject)

abbreviation first_tier :: expr where
  "first_tier \<equiv> Call (js ''tier'') [Literal (LStr (js ''a'')) None 9 12,
     Binary (js ''*'') (Variable (js ''p'') 13 14) (Literal (LNum (Fin 2)) (Some True) 15 16) 13 16] 4 17"

lemma first_part: "\<exists>q. subtree [True] chain_root = Some q \<and> vn_origin q = Some first_tier"
  by (simp add: chain_root_def)

lemma edited_issues: "snd (writeVisualPricing h chain_source (replaced [True] drafted_tier chain_root) []) = []"
  by (simp add: chain_root_def chain_condition_def write_comparison_def comparison_valid_def write_prices_def price_issues_def
      small_read_back draft_written TIME_FUNCTIONS_def case_prod_beta Let_def del: num_text.simps)

lemma edited_written:
  "fst (serializeVisualBillingDocument h
     (\<lparr>vd_source = chain_source, vd_root = chain_root\<rparr>\<lparr>vd_root := replaced [True] drafted_tier chain_root\<rparr>) []) = Inr edited_source"
proof -
  let ?w = "writeVisualPricing h chain_source (replaced [True] drafted_tier chain_root) []"
  obtain q where q: "subtree [True] chain_root = Some q" "vn_origin q = Some first_tier" using first_part by blast
  have "fst ?w = spliced chain_source (cast chain_program) first_tier (js ''tier(\"c\", p * 7)'')"
    using replaced_text [OF compiled_readable [OF chain_compiles] chain_read q, of h drafted_tier "[]"] draft_written by simp
  then have "take (estart (cast chain_program)) chain_source @ fst ?w @ drop (eend (cast chain_program)) chain_source = edited_source"
    by (simp add: spliced_def slice_def chain_program_def chain_source_def edited_source_def js_eval)
  then show ?thesis
    using chain_compiles edited_compiles edited_issues [of h] compile_memo.call_result [OF empty_cache_ok, of chain_source]
      compile_memo.call_keeps [OF empty_cache_ok, of chain_source] compile_memo.call_result
    by (auto simp: serializeVisualBillingDocument_def Let_def case_prod_beta is_ok_iff simp del: replaced.simps)
qed

theorem edit_is_local_witness:
  "edited_source = take 4 chain_source @ fst (writeVisualPricing plain_host chain_source drafted_tier []) @ drop 17 chain_source \<and>
   (\<exists>c. compile_fresh edited_source = Inr c)"
proof -
  obtain q where q: "subtree [True] chain_root = Some q" "vn_origin q = Some first_tier" using first_part by blast
  show ?thesis
    using edit_is_local [OF empty_cache_ok empty_cache_ok chain_document, of "[True]" q first_tier plain_host drafted_tier edited_source]
      q edited_written [of plain_host] by simp
qed

end
