(* ===== verification/Billing_Conditions.thy ===== *)
theory Billing_Conditions
  imports Billing_Display
begin

text \<open>
  Descriptions of billing conditions (\<open>billing-expression/condition-display.ts\<close>): comparisons of
  the hour, weekday, month, day or minute are combined into ranges and put into words.  The
  translation function, the names of weekdays and the formatting of numbers for a locale are
  the fields of the record \<open>wording\<close>; the last two throw for an unknown locale.
\<close>

section \<open>Data\<close>

record wording =
  translate :: "jsstr \<Rightarrow> (string \<times> jsval) list \<Rightarrow> jsstr"
  weekday_format :: "jsstr \<Rightarrow> int \<Rightarrow> jsstr option"
  locale_number :: "jsstr \<Rightarrow> jsnum \<Rightarrow> jsstr option"

datatype description_kind = Calendar | Clock | Combined

record description =
  d_text :: jsstr
  d_kind :: description_kind
  d_timezone :: jsstr
  d_disjunction :: bool

record time_comparison =
  tm_name :: jsstr
  tm_timezone :: jsstr
  tm_operator :: jsstr
  tm_value :: jsnum

definition DOMAINS :: "jsstr \<Rightarrow> jsnum \<times> jsnum" where
  "DOMAINS f =
     (if f = js ''hour'' then (Fin 0, Fin 24)
      else if f = js ''minute'' then (Fin 0, Fin 60)
      else if f = js ''weekday'' then (Fin 0, Fin 7)
      else if f = js ''month'' then (Fin 1, Fin 13)
      else (Fin 1, Fin 32))"

definition timeComparison :: "expr \<Rightarrow> time_comparison option" where
  "timeComparison node =
     (case node of
        Binary p (Call name (Literal (LStr zone) _ _ _ # _) _ _) (Literal (LNum v) _ _ _) _ _ \<Rightarrow>
          if p \<notin> set (map js [''=='', ''>='', ''>'', ''<='', ''<'']) \<or> name \<notin> set TIME_FUNCTIONS \<or> \<not> is_integer v then None
          else Some \<lparr>tm_name = name, tm_timezone = (if trim zone = [] then js ''UTC'' else trim zone),
                     tm_operator = p, tm_value = v\<rparr>
      | _ \<Rightarrow> None)"

section \<open>Ranges\<close>

text \<open>One comparison narrows the half-open range.\<close>

definition narrow :: "jsnum \<times> jsnum \<Rightarrow> time_comparison \<Rightarrow> jsnum \<times> jsnum" where
  "narrow interval c =
     (let (start, stop) = interval; v = tm_value c; after = add_num v (Fin 1) in
      if tm_operator c = js ''>='' then (max_num start v, stop)
      else if tm_operator c = js ''>'' then (max_num start after, stop)
      else if tm_operator c = js ''<'' then (start, min_num stop v)
      else if tm_operator c = js ''<='' then (start, min_num stop after)
      else if tm_operator c = js ''=='' then (max_num start v, min_num stop after)
      else (start, stop))"

definition time_range :: "time_comparison list \<Rightarrow> jsnum \<times> jsnum" where
  "time_range comparisons = foldl narrow (DOMAINS (tm_name (hd comparisons))) comparisons"

definition pad_start_two :: "jsstr \<Rightarrow> jsstr" where
  "pad_start_two s = replicate (2 - length s) 48 @ s"

definition RANGE_KEY :: jsstr where
  "RANGE_KEY = js ''{{start}}'' @ [8211] @ js ''{{end}}''"

definition locale_name :: "jsstr \<Rightarrow> jsstr" where
  "locale_name l = (if l = js ''zhCN'' then js ''zh-CN'' else l)"

text \<open>2026-01-04 is a Sunday; the argument of the formatter is the day of that month.\<close>

definition weekday_text :: "wording \<Rightarrow> jsstr \<Rightarrow> jsnum \<Rightarrow> thrown + jsstr" where
  "weekday_text w l d =
     (case weekday_format w (locale_name l) (\<lfloor>num_val (add_num (Fin 4) d)\<rfloor>) of
        None \<Rightarrow> Inl (OtherError (js ''RangeError''))
      | Some t \<Rightarrow> Inr t)"

definition field_label :: "jsstr \<Rightarrow> jsstr" where
  "field_label f =
     (if f = js ''minute'' then js ''Minute'' else if f = js ''month'' then js ''Month'' else js ''Day'')"

definition range_text :: "wording \<Rightarrow> jsstr \<Rightarrow> jsstr \<Rightarrow> jsnum \<Rightarrow> jsnum \<Rightarrow> thrown + jsstr" where
  "range_text w l name start stop =
     (let lastv = sub_num stop (Fin 1) in
      if name = js ''hour'' then
        Inr (translate w RANGE_KEY [(''start'', JStr (pad_start_two (num_text start) @ js '':00'')),
          (''end'', JStr (pad_start_two (num_text stop) @ js '':00''))])
      else if name = js ''weekday'' then
        res_bind (weekday_text w l start) (\<lambda>from.
        res_bind (weekday_text w l lastv) (\<lambda>to.
          Inr (if eq_num start lastv then from
               else translate w RANGE_KEY [(''start'', JStr from), (''end'', JStr to)])))
      else
        Inr (translate w (field_label name) [] @ js '': '' @
          (if eq_num start lastv then num_text start
           else translate w RANGE_KEY [(''start'', JNum start), (''end'', JNum lastv)])))"

definition describeTimeRange ::
  "wording \<Rightarrow> jsstr \<Rightarrow> time_comparison list \<Rightarrow> thrown + description option" where
  "describeTimeRange w l comparisons =
     (let (start, stop) = time_range comparisons; name = tm_name (hd comparisons) in
      if le_num stop start then Inr None
      else res_bind (range_text w l name start stop) (\<lambda>t.
        Inr (Some \<lparr>d_text = t, d_kind = (if name = js ''hour'' then Clock else Calendar),
                   d_timezone = tm_timezone (hd comparisons), d_disjunction = False\<rparr>)))"

section \<open>Conditions\<close>

definition variable_label :: "jsstr \<Rightarrow> jsstr option" where
  "variable_label v =
     (if v = js ''p'' then Some (js ''Input'')
      else if v = js ''c'' then Some (js ''Output'')
      else if v = js ''len'' then Some (js ''Full input length'')
      else None)"

text \<open>The comparison of a variable with a number, when \<open>node\<close> is one.\<close>

definition variable_comparison :: "expr \<Rightarrow> (jsstr \<times> jsstr \<times> jsnum) option" where
  "variable_comparison node =
     (case node of
        Binary p (Variable name _ _) (Literal (LNum v) _ _ _) _ _ \<Rightarrow>
          if p \<in> set (map js [''<'', ''<='', ''>'', ''>='', ''=='', ''!='']) then Some (p, name, v) else None
      | _ \<Rightarrow> None)"

definition describe_variable :: "wording \<Rightarrow> jsstr \<Rightarrow> jsstr \<times> jsstr \<times> jsnum \<Rightarrow> thrown + description option" where
  "describe_variable w l = (\<lambda>(p, name, v).
     (case variable_label name of
        None \<Rightarrow> Inr None
      | Some lab \<Rightarrow>
          (case locale_number w (locale_name l) v of
             None \<Rightarrow> Inl (OtherError (js ''RangeError''))
           | Some n \<Rightarrow>
               Inr (Some \<lparr>d_text = translate w lab [] @ js '' '' @ p @ js '' '' @ n, d_kind = Combined,
                          d_timezone = [], d_disjunction = False\<rparr>))))"

type_synonym ranges = "(jsstr \<times> time_comparison list) list"

definition add_range :: "time_comparison \<Rightarrow> ranges \<Rightarrow> ranges" where
  "add_range c rs =
     (let key = tm_name c @ js '':'' @ tm_timezone c
      in omap_set key ((case map_of rs key of Some xs \<Rightarrow> xs | None \<Rightarrow> []) @ [c]) rs)"

text \<open>The descriptions of a list, up to the first that has none.\<close>

fun all_described :: "(thrown + description option) list \<Rightarrow> thrown + description list option" where
  "all_described [] = Inr (Some [])"
| "all_described (d # ds) =
     res_bind d (\<lambda>x. case x of
        None \<Rightarrow> Inr None
      | Some y \<Rightarrow> res_bind (all_described ds) (\<lambda>ys. Inr (map_option (\<lambda>zs. y # zs) ys)))"

text \<open>How the descriptions of the parts become one; \<open>both\<close> tells \<open>&&\<close> from \<open>||\<close>.\<close>

definition bracketed :: "bool \<Rightarrow> description \<Rightarrow> jsstr" where
  "bracketed both d = (if both \<and> d_disjunction d then js ''('' @ d_text d @ js '')'' else d_text d)"

definition combine_parts :: "wording \<Rightarrow> bool \<Rightarrow> description list \<Rightarrow> description option" where
  "combine_parts w both parts =
     (let zones = remdups (filter (\<lambda>z. z \<noteq> []) (map d_timezone parts));
          calendars = filter (\<lambda>d. d_kind d = Calendar) parts;
          clocks = filter (\<lambda>d. d_kind d = Clock) parts;
          separator = (if both then js ''{{first}} and {{second}}'' else js ''{{first}} or {{second}}'')
      in case parts of
           [] \<Rightarrow> None
         | d # ds \<Rightarrow>
             if 1 < length zones then None
             else if ds = [] then Some d
             else if both \<and> length parts = 2 \<and> length calendars = 1 \<and> length clocks = 1
             then Some \<lparr>d_text = d_text (hd calendars) @ js '' '' @ d_text (hd clocks), d_kind = Combined,
                        d_timezone = d_timezone d, d_disjunction = False\<rparr>
             else Some \<lparr>d_text = foldl (\<lambda>t p. translate w separator [(''first'', JStr t), (''second'', JStr (bracketed both p))])
                          (bracketed both d) ds,
                        d_kind = (if length clocks = length parts then Clock else Combined),
                        d_timezone = (case zones of [] \<Rightarrow> [] | z # _ \<Rightarrow> z), d_disjunction = \<not> both\<rparr>)"

definition describe_conjunction ::
  "wording \<Rightarrow> jsstr \<Rightarrow> (time_comparison + (thrown + description option)) list \<Rightarrow> thrown + description option" where
  "describe_conjunction w l members =
     res_bind (all_described (List.map_filter (\<lambda>m. case m of Inl _ \<Rightarrow> None | Inr d \<Rightarrow> Some d) members)) (\<lambda>plain.
     case plain of
       None \<Rightarrow> Inr None
     | Some ds \<Rightarrow>
         let rs = fold add_range (List.map_filter (\<lambda>m. case m of Inl c \<Rightarrow> Some c | Inr _ \<Rightarrow> None) members) []
         in res_bind (all_described (map (\<lambda>(_, cs). describeTimeRange w l cs) rs)) (\<lambda>ranged.
              Inr (case ranged of None \<Rightarrow> None | Some es \<Rightarrow> combine_parts w True (ds @ es))))"

lemma flattened_smaller:
  "c \<in> set (flattenBinary p (Binary p l r s t)) \<Longrightarrow> size c < size (Binary p l r s t)"
proof -
  have "size d \<le> size e" if "d \<in> set (flattenBinary q e)" for d q e
    using that by (induction q e rule: flattenBinary.induct) (auto split: if_splits)
  then show "c \<in> set (flattenBinary p (Binary p l r s t)) \<Longrightarrow> size c < size (Binary p l r s t)" by fastforce
qed

function describeBillingCondition :: "wording \<Rightarrow> jsstr \<Rightarrow> expr \<Rightarrow> thrown + description option" where
  "describeBillingCondition w l node =
     (case node of
        Unary p operand _ _ \<Rightarrow>
          if p = js ''!'' then
            res_bind (describeBillingCondition w l operand) (\<lambda>d.
              Inr (map_option (\<lambda>d. d\<lparr>d_text := translate w (js ''Outside these times: {{condition}}'')
                [(''condition'', JStr (d_text d))], d_kind := Combined\<rparr>) d))
          else Inr None
      | Binary p left right s t \<Rightarrow>
          (case variable_comparison node of
             Some c \<Rightarrow> describe_variable w l c
           | None \<Rightarrow>
               (case timeComparison node of
                  Some c \<Rightarrow> describeTimeRange w l [c]
                | None \<Rightarrow>
                    if p = js ''&&'' then
                      describe_conjunction w l (map (\<lambda>part. case timeComparison part of
                        Some c \<Rightarrow> Inl c | None \<Rightarrow> Inr (describeBillingCondition w l part))
                        (flattenBinary p (Binary p left right s t)))
                    else if p = js ''||'' then
                      res_bind (all_described (map (describeBillingCondition w l) (flattenBinary p (Binary p left right s t))))
                        (\<lambda>parts. Inr (case parts of None \<Rightarrow> None | Some ds \<Rightarrow> combine_parts w False ds))
                    else Inr None))
      | _ \<Rightarrow> Inr None)"
  by pat_completeness auto
termination
  by (relation "measure (\<lambda>(w, l, node). size node)") (use flattened_smaller in \<open>auto\<close>)

declare describeBillingCondition.simps [simp del]

definition formatBillingCondition ::
  "wording \<Rightarrow> jsstr \<Rightarrow> jsstr \<Rightarrow> compile_cache \<Rightarrow> jsstr option \<times> compile_cache" where
  "formatBillingCondition w l source cache =
     (let (r, cache') = compileBillingExpression source cache
      in ((case r of
             Inl _ \<Rightarrow> None
           | Inr c \<Rightarrow>
               (case describeBillingCondition w l (cast c) of
                  Inr (Some d) \<Rightarrow>
                    Some (if d_timezone d = [] then d_text d
                          else translate w (js ''{{condition}} ({{timezone}})'')
                            [(''condition'', JStr (d_text d)), (''timezone'', JStr (d_timezone d))])
                | _ \<Rightarrow> None)), cache'))"

end
