(* ===== verification/Billing_Conditions_Properties.thy ===== *)
theory Billing_Conditions_Properties
  imports Billing_Conditions Billing_Tables
begin

text \<open>
  Ranges in descriptions are exact: the half-open range that is put into words holds precisely
  the values of the domain that satisfy every comparison, also when a comparison is with a
  number so large that adding one to it is rounded.
\<close>

section \<open>One after a literal\<close>

lemma to_double_half:
  assumes "1 \<le> x" "to_double x = Fin y"
  shows "x / 2 \<le> y"
proof -
  have pos: "0 < x" using assms(1) by simp
  have il: "2 powi ilog 2 x \<le> x" "x < 2 powi (ilog 2 x + 1)" using ilog_bounds [of 2 x] pos by auto
  have "0 \<le> ilog 2 x"
  proof (rule ccontr)
    assume "\<not> 0 \<le> ilog 2 x"
    then have "(2::rat) powi (ilog 2 x + 1) \<le> 2 powi 0" by (intro powi_mono) simp
    then show False using il(2) assms(1) by simp
  qed
  then have "quantum x \<le> ilog 2 x" using pos by (simp add: quantum_def)
  then have "2 powi quantum x / 2 \<le> x / 2" using powi_mono [of "quantum x" "ilog 2 x"] il(1) by simp
  then show ?thesis using to_double_near [OF assms(2)] by linarith
qed

lemma after_cases:
  assumes "0 \<le> i"
  shows "add_num (Fin (of_int i)) (Fin 1) = Fin (of_int (i + 1)) \<or> 2 ^ 52 \<le> i \<and> lt_num (Fin 100) (add_num (Fin (of_int i)) (Fin 1))"
proof (cases "i + 1 < 2 ^ 53")
  case True
  then have "to_double (of_int (i + 1)) = Fin (of_int (i + 1))" using assms by (intro to_double_of_int) auto
  then show ?thesis by simp
next
  case False
  have x: "(1::rat) \<le> of_int (i + 1)" using assms by simp
  have n: "add_num (Fin (of_int i)) (Fin 1) = to_double (of_int (i + 1))" by simp
  have "lt_num (Fin 100) (to_double (of_int (i + 1)))"
  proof (cases "to_double (of_int (i + 1))")
    case (Fin y)
    have "(of_int (2 ^ 53) :: rat) \<le> of_int (i + 1)" using False by (simp only: of_int_le_iff)
    then show ?thesis using to_double_half [OF x Fin] Fin by simp
  qed (use x to_double_nonneg [of "of_int (i + 1)"] in auto)
  then show ?thesis using n False by simp
qed

section \<open>Narrowing\<close>

text \<open>The evaluator's comparison of the value \<open>x\<close> of the time function with the literal of \<open>c\<close>.\<close>

definition meets :: "jsnum \<Rightarrow> time_comparison \<Rightarrow> bool" where
  "meets x c \<longleftrightarrow>
     run_operator (tm_operator c) (JNum x, False) (JNum (tm_value c), False) 0 = ret (JBool True, False)"

definition literal_comparison :: "time_comparison \<Rightarrow> bool" where
  "literal_comparison c \<longleftrightarrow> (\<exists>i\<ge>0. tm_value c = Fin (of_int i)) \<and>
     tm_operator c \<in> set (map js [''=='', ''>='', ''>'', ''<='', ''<''])"

definition in_range :: "jsnum \<Rightarrow> jsnum \<times> jsnum \<Rightarrow> bool" where
  "in_range x r \<longleftrightarrow> le_num (fst r) x \<and> lt_num x (snd r)"

lemma ret_JBool: "ret (JBool b, False) = ret (JBool True, False) \<longleftrightarrow> b"
  by (auto simp: ret_def fun_eq_iff)

lemma meets_value:
  "meets x c =
     (if tm_operator c = js ''=='' then eq_num x (tm_value c)
      else order_value (tm_operator c) (JNum x) (JNum (tm_value c)) = Some True)"
  if "literal_comparison c"
  using that
  by (auto simp: meets_def run_operator_def ret_JBool literal_comparison_def order_value_def)

lemma le_max: "a \<noteq> NaN \<Longrightarrow> b \<noteq> NaN \<Longrightarrow> le_num (max_num a b) x \<longleftrightarrow> le_num a x \<and> le_num b x"
  by (cases a; cases b; cases x) (auto simp: max_num_def le_num_def is_zero_def signed_zero_def)

lemma lt_min: "a \<noteq> NaN \<Longrightarrow> b \<noteq> NaN \<Longrightarrow> lt_num x (min_num a b) \<longleftrightarrow> lt_num x a \<and> lt_num x b"
  by (cases a; cases b; cases x) (auto simp: min_num_def is_zero_def signed_zero_def)

lemma minmax_NaN [simp]: "max_num a b = NaN \<longleftrightarrow> a = NaN \<or> b = NaN" "min_num a b = NaN \<longleftrightarrow> a = NaN \<or> b = NaN"
  by (auto simp: max_num_def min_num_def signed_zero_def)

text \<open>One more than a literal separates the values up to it from those above it.\<close>

lemma after_literal:
  assumes "0 \<le> i" "k \<le> 100"
  shows "le_num (add_num (Fin (of_int i)) (Fin 1)) (Fin (of_int k)) \<longleftrightarrow> i < k"
    and "lt_num (Fin (of_int k)) (add_num (Fin (of_int i)) (Fin 1)) \<longleftrightarrow> k \<le> i"
    and "add_num (Fin (of_int i)) (Fin 1) \<noteq> NaN"
proof -
  consider (exact) "add_num (Fin (of_int i)) (Fin 1) = Fin (of_int (i + 1))"
    | (rounded) n where "add_num (Fin (of_int i)) (Fin 1) = n" "2 ^ 52 \<le> i" "lt_num (Fin 100) n"
    using after_cases [OF assms(1)] by blast
  then have "(le_num (add_num (Fin (of_int i)) (Fin 1)) (Fin (of_int k)) \<longleftrightarrow> i < k) \<and>
    (lt_num (Fin (of_int k)) (add_num (Fin (of_int i)) (Fin 1)) \<longleftrightarrow> k \<le> i) \<and>
    add_num (Fin (of_int i)) (Fin 1) \<noteq> NaN"
  proof cases
    case exact
    then show ?thesis by (simp only: exact) (auto simp: le_num_def simp del: of_int_add)
  next
    case rounded
    have k: "(of_int k :: rat) \<le> 100" using assms(2) by (metis of_int_le_iff of_int_numeral)
    show ?thesis unfolding rounded(1) using rounded(2,3) k assms
      by (cases n) (auto simp: le_num_def)
  qed
  then show "le_num (add_num (Fin (of_int i)) (Fin 1)) (Fin (of_int k)) \<longleftrightarrow> i < k"
    and "lt_num (Fin (of_int k)) (add_num (Fin (of_int i)) (Fin 1)) \<longleftrightarrow> k \<le> i"
    and "add_num (Fin (of_int i)) (Fin 1) \<noteq> NaN" by blast+
qed

text \<open>What each operator does to the range, and what it asks of a value.\<close>

lemma narrow_cases:
  "tm_operator c = js ''>='' \<Longrightarrow> narrow (a, b) c = (max_num a (tm_value c), b)"
  "tm_operator c = js ''>'' \<Longrightarrow> narrow (a, b) c = (max_num a (add_num (tm_value c) (Fin 1)), b)"
  "tm_operator c = js ''<'' \<Longrightarrow> narrow (a, b) c = (a, min_num b (tm_value c))"
  "tm_operator c = js ''<='' \<Longrightarrow> narrow (a, b) c = (a, min_num b (add_num (tm_value c) (Fin 1)))"
  "tm_operator c = js ''=='' \<Longrightarrow> narrow (a, b) c = (max_num a (tm_value c), min_num b (add_num (tm_value c) (Fin 1)))"
  by (simp_all add: narrow_def Let_def)

lemma meets_cases:
  assumes "literal_comparison c"
  shows "tm_operator c = js ''>='' \<Longrightarrow> meets x c \<longleftrightarrow> le_num (tm_value c) x"
    "tm_operator c = js ''>'' \<Longrightarrow> meets x c \<longleftrightarrow> lt_num (tm_value c) x"
    "tm_operator c = js ''<'' \<Longrightarrow> meets x c \<longleftrightarrow> lt_num x (tm_value c)"
    "tm_operator c = js ''<='' \<Longrightarrow> meets x c \<longleftrightarrow> le_num x (tm_value c)"
    "tm_operator c = js ''=='' \<Longrightarrow> meets x c \<longleftrightarrow> eq_num x (tm_value c)"
  by (simp_all add: meets_value [OF assms] order_value_def)

lemma narrow_meets:
  assumes c: "literal_comparison c" and ab: "a \<noteq> NaN" "b \<noteq> NaN" and k: "k \<le> 100"
  shows "in_range (Fin (of_int k)) (narrow (a, b) c) \<longleftrightarrow> in_range (Fin (of_int k)) (a, b) \<and> meets (Fin (of_int k)) c"
    and "fst (narrow (a, b) c) \<noteq> NaN" "snd (narrow (a, b) c) \<noteq> NaN"
proof -
  obtain i where i: "0 \<le> i" "tm_value c = Fin (of_int i)"
    using c by (auto simp: literal_comparison_def)
  consider "tm_operator c = js ''>=''" | "tm_operator c = js ''>''" | "tm_operator c = js ''<''"
    | "tm_operator c = js ''<=''" | "tm_operator c = js ''==''"
    using c by (auto simp: literal_comparison_def)
  note op = this
  note after = after_literal [OF i(1) k]
  have le: "le_num (Fin (of_int m)) (Fin (of_int n)) \<longleftrightarrow> m \<le> n" for m n by (auto simp: le_num_def)
  note facts = le narrow_cases meets_cases [OF c] in_range_def i(2) le_max lt_min ab after
  show "in_range (Fin (of_int k)) (narrow (a, b) c) \<longleftrightarrow> in_range (Fin (of_int k)) (a, b) \<and> meets (Fin (of_int k)) c"
    by (cases rule: op) (auto simp: facts simp del: add_num.simps)
  show "fst (narrow (a, b) c) \<noteq> NaN" "snd (narrow (a, b) c) \<noteq> NaN"
    by (cases rule: op; simp add: facts del: add_num.simps)+
qed

section \<open>Bounds\<close>

text \<open>The lower end of a range is a whole number or beyond every domain.\<close>

definition bound_ok :: "jsnum \<Rightarrow> bool" where
  "bound_ok n \<longleftrightarrow> (\<exists>k. n = Fin (of_int k)) \<or> lt_num (Fin 100) n"

lemma max_in: "max_num a b \<in> {a, b}" if "bound_ok a" "bound_ok b"
  using that by (cases a; cases b) (auto simp: max_num_def is_zero_def signed_zero_def bound_ok_def)

lemma min_in: "min_num a b \<in> {a, b}" if "bound_ok a" "bound_ok b"
  using that by (cases a; cases b) (auto simp: min_num_def is_zero_def signed_zero_def bound_ok_def)

lemma bound_ok_not_NaN: "bound_ok n \<Longrightarrow> n \<noteq> NaN"
  by (auto simp: bound_ok_def)

lemma bound_ok_literal:
  assumes "literal_comparison c"
  shows "bound_ok (tm_value c)" "bound_ok (add_num (tm_value c) (Fin 1))"
proof -
  obtain i where i: "0 \<le> i" "tm_value c = Fin (of_int i)"
    using assms by (auto simp: literal_comparison_def)
  show "bound_ok (tm_value c)" using i(2) by (auto simp: bound_ok_def)
  show "bound_ok (add_num (tm_value c) (Fin 1))" unfolding i(2) bound_ok_def using after_cases [OF i(1)] by metis
qed

lemma le_num_trans: "le_num a b \<Longrightarrow> le_num b c \<Longrightarrow> le_num a c"
  by (cases a; cases b; cases c) (auto simp: le_num_def)

text \<open>A range with good ends that lies between \<open>lo\<close> and \<open>hi\<close>.\<close>

definition range_ok :: "jsnum \<Rightarrow> jsnum \<Rightarrow> jsnum \<times> jsnum \<Rightarrow> bool" where
  "range_ok lo hi r \<longleftrightarrow> bound_ok (fst r) \<and> bound_ok (snd r) \<and> le_num lo (fst r) \<and> le_num (snd r) hi"

lemma narrow_bounds:
  assumes c: "literal_comparison c" and r: "range_ok lo hi (a, b)"
  shows "range_ok lo hi (narrow (a, b) c)"
proof -
  note ok = bound_ok_literal [OF c]
  have r': "bound_ok a" "bound_ok b" "le_num lo a" "le_num b hi" using r by (auto simp: range_ok_def)
  note nan = r'(1,2) [THEN bound_ok_not_NaN]
  have up: "le_num a (max_num a n)" if "bound_ok n" for n
    using nan(1) bound_ok_not_NaN [OF that] by (cases a; cases n) (auto simp: max_num_def is_zero_def signed_zero_def le_num_def)
  have down: "le_num (min_num b n) b" if "bound_ok n" for n
    using nan(2) bound_ok_not_NaN [OF that] by (cases b; cases n) (auto simp: min_num_def is_zero_def signed_zero_def le_num_def)
  have "bound_ok (max_num a n) \<and> le_num lo (max_num a n)" if "bound_ok n" for n
    using max_in [OF r'(1) that] r'(1) that up [OF that] le_num_trans [OF r'(3)] by auto
  moreover have "bound_ok (min_num b n) \<and> le_num (min_num b n) hi" if "bound_ok n" for n
    using min_in [OF r'(2) that] r'(2) that le_num_trans [OF down [OF that] r'(4)] by auto
  ultimately show ?thesis
    using ok r' by (simp add: range_ok_def narrow_def Let_def del: add_num.simps)
qed

lemma fold_narrow:
  assumes "\<forall>c \<in> set cs. literal_comparison c" "range_ok lo hi r"
  shows "range_ok lo hi (foldl narrow r cs) \<and>
    (\<forall>k\<le>100. in_range (Fin (of_int k)) (foldl narrow r cs) \<longleftrightarrow>
      in_range (Fin (of_int k)) r \<and> (\<forall>c \<in> set cs. meets (Fin (of_int k)) c))"
  using assms
proof (induction cs arbitrary: r)
  case Nil
  then show ?case by simp
next
  case (Cons c cs)
  obtain a b where r: "r = (a, b)" by fastforce
  have c: "literal_comparison c" using Cons.prems by simp
  have nan: "a \<noteq> NaN" "b \<noteq> NaN" using Cons.prems r bound_ok_not_NaN by (auto simp: range_ok_def)
  have "range_ok lo hi (narrow r c)" using narrow_bounds [OF c] Cons.prems r by simp
  from Cons.IH [OF _ this] show ?case using Cons.prems(1) narrow_meets(1) [OF c nan] r by auto
qed

text \<open>The values of a time function.\<close>

definition domain_value :: "jsstr \<Rightarrow> int \<Rightarrow> bool" where
  "domain_value f k \<longleftrightarrow> in_range (Fin (of_int k)) (DOMAINS f)"

lemma domain_bounds: "\<exists>lo hi. DOMAINS f = (Fin (of_int lo), Fin (of_int hi)) \<and> hi \<le> 100"
proof -
  have "\<exists>p \<in> {(0::int, 24::int), (0, 60), (0, 7), (1, 13), (1, 32)}.
      DOMAINS f = (Fin (of_int (fst p)), Fin (of_int (snd p)))" by (simp add: DOMAINS_def)
  then show ?thesis by auto
qed

lemma le_num_int [simp]: "le_num (Fin (of_int m)) (Fin (of_int n)) \<longleftrightarrow> m \<le> n"
  by (auto simp: le_num_def)

text \<open>The computed range is empty when no value meets the comparisons, and else it is exact.\<close>

lemma time_range_exact:
  assumes "\<forall>c \<in> set cs. literal_comparison c"
  defines "f \<equiv> tm_name (hd cs)"
  shows "le_num (snd (time_range cs)) (fst (time_range cs)) \<and>
        (\<nexists>k. domain_value f k \<and> (\<forall>c \<in> set cs. meets (Fin (of_int k)) c)) \<or>
      (\<exists>a b. time_range cs = (Fin (of_int a), Fin (of_int b)) \<and> a < b \<and>
        (\<forall>k. domain_value f k \<and> (\<forall>c \<in> set cs. meets (Fin (of_int k)) c) \<longleftrightarrow> a \<le> k \<and> k < b))"
proof -
  obtain lo hi where d: "DOMAINS f = (Fin (of_int lo), Fin (of_int hi))" "hi \<le> 100" using domain_bounds by blast
  obtain a b where ab: "time_range cs = (a, b)" by fastforce
  have "range_ok (Fin (of_int lo)) (Fin (of_int hi)) (DOMAINS f)"
    using d by (auto simp: range_ok_def bound_ok_def)
  note fold = fold_narrow [OF assms(1) this]
  have r: "bound_ok a" "bound_ok b" "le_num (Fin (of_int lo)) a" "le_num b (Fin (of_int hi))"
    using fold ab by (auto simp: time_range_def range_ok_def f_def)
  have ex: "in_range (Fin (of_int k)) (a, b) \<longleftrightarrow> domain_value f k \<and> (\<forall>c \<in> set cs. meets (Fin (of_int k)) c)" for k
  proof (cases "k \<le> 100")
    case True
    then show ?thesis using fold ab by (simp add: time_range_def f_def domain_value_def)
  next
    case False
    then have "lt_num (Fin (of_int hi)) (Fin (of_int k))" using d(2) by simp
    then show ?thesis using d r(4) by (cases b) (auto simp: domain_value_def in_range_def le_num_def)
  qed
  show ?thesis
  proof (cases "le_num b a")
    case True
    then have "\<not> in_range x (a, b)" for x by (cases a; cases b; cases x) (auto simp: in_range_def le_num_def)
    then show ?thesis using ex True ab by auto
  next
    case False
    then have lt: "lt_num a b" using r(1,2) [THEN bound_ok_not_NaN] by (cases a; cases b) (auto simp: le_num_def)
    then have "lt_num a (Fin (of_int hi))" using r(4) by (cases a; cases b) (auto simp: le_num_def)
    then have "\<not> lt_num (Fin 100) a" "\<not> lt_num (Fin 100) b"
      using d(2) r(4) by (cases a; cases b; auto simp: le_num_def)+
    then obtain m n where mn: "a = Fin (of_int m)" "b = Fin (of_int n)" using r(1,2) by (auto simp: bound_ok_def)
    then have "(m \<le> k \<and> k < n) \<longleftrightarrow> in_range (Fin (of_int k)) (a, b)" for k by (simp add: in_range_def)
    then show ?thesis using ex lt mn ab by auto
  qed
qed

text \<open>C34: What a description says of the time is exact.  For comparisons of one time function
  with whole numbers there is no description precisely when no value of the function meets them
  all, and else the text is made from the two ends of the half-open range of the values
  for which the evaluator finds every comparison true.\<close>

theorem described_range_exact:
  assumes "\<forall>c \<in> set cs. literal_comparison c"
  shows "describeTimeRange w l cs = Inr None \<and>
        (\<nexists>k. domain_value (tm_name (hd cs)) k \<and> (\<forall>c \<in> set cs. meets (Fin (of_int k)) c)) \<or>
      (\<exists>a b. map_sum id (map_option d_text) (describeTimeRange w l cs) =
          map_sum id Some (range_text w l (tm_name (hd cs)) (Fin (of_int a)) (Fin (of_int b))) \<and>
        a < b \<and> (\<forall>k. domain_value (tm_name (hd cs)) k \<and> (\<forall>c \<in> set cs. meets (Fin (of_int k)) c) \<longleftrightarrow> a \<le> k \<and> k < b))"
  using time_range_exact [OF assms]
proof (elim disjE exE conjE)
  fix a b
  assume r: "time_range cs = (Fin (of_int a), Fin (of_int b))" "a < b"
    and ex: "\<forall>k. domain_value (tm_name (hd cs)) k \<and> (\<forall>c \<in> set cs. meets (Fin (of_int k)) c) \<longleftrightarrow> a \<le> k \<and> k < b"
  have "map_sum id (map_option d_text) (describeTimeRange w l cs) =
      map_sum id Some (range_text w l (tm_name (hd cs)) (Fin (of_int a)) (Fin (of_int b)))"
    using r by (cases "range_text w l (tm_name (hd cs)) (Fin (of_int a)) (Fin (of_int b))")
      (simp_all add: describeTimeRange_def)
  then show ?thesis using r ex by blast
qed (auto simp: describeTimeRange_def split: prod.splits)

text \<open>A wording that shows the keys, and the conditions of \<open>hour("UTC") >= 9 && hour("UTC") < 18\<close>.\<close>

definition plain_wording :: wording where
  "plain_wording = \<lparr>translate = (\<lambda>key _. key), weekday_format = (\<lambda>_ _. None), locale_number = (\<lambda>_ _. None)\<rparr>"

definition hour_comparison :: "string \<Rightarrow> int \<Rightarrow> time_comparison" where
  "hour_comparison p v = \<lparr>tm_name = js ''hour'', tm_timezone = js ''UTC'', tm_operator = js p, tm_value = Fin (of_int v)\<rparr>"

lemma hour_comparison_literal:
  "0 \<le> v \<Longrightarrow> p \<in> {''>='', ''<''} \<Longrightarrow> literal_comparison (hour_comparison p v)"
  by (auto simp: literal_comparison_def hour_comparison_def)

theorem described_range_exact_witness:
  "\<exists>a b. map_sum id (map_option d_text) (describeTimeRange plain_wording (js ''en'') [hour_comparison ''>='' 9, hour_comparison ''<'' 18]) =
      map_sum id Some (range_text plain_wording (js ''en'') (js ''hour'') (Fin (of_int a)) (Fin (of_int b))) \<and> a < b \<and>
    (\<forall>k. domain_value (js ''hour'') k \<and> meets (Fin (of_int k)) (hour_comparison ''>='' 9) \<and>
       meets (Fin (of_int k)) (hour_comparison ''<'' 18) \<longleftrightarrow> a \<le> k \<and> k < b)"
proof -
  let ?cs = "[hour_comparison ''>='' 9, hour_comparison ''<'' 18]"
  have lit: "literal_comparison (hour_comparison ''>='' 9)" "literal_comparison (hour_comparison ''<'' 18)"
    by (simp_all add: hour_comparison_literal)
  have v: "domain_value (js ''hour'') 9" by (simp add: domain_value_def DOMAINS_def in_range_def le_num_def)
  have m: "meets (Fin (of_int 9)) (hour_comparison ''>='' 9)" "meets (Fin (of_int 9)) (hour_comparison ''<'' 18)"
    by (simp_all add: meets_value [OF lit(1)] meets_value [OF lit(2)], simp_all add: hour_comparison_def order_value_def le_num_def)
  have n: "tm_name (hd ?cs) = js ''hour''" by (simp add: hour_comparison_def)
  have all: "(\<forall>c \<in> set ?cs. P c) \<longleftrightarrow> P (hour_comparison ''>='' 9) \<and> P (hour_comparison ''<'' 18)" for P by simp
  have "\<exists>k. domain_value (js ''hour'') k \<and> meets (Fin (of_int k)) (hour_comparison ''>='' 9) \<and>
      meets (Fin (of_int k)) (hour_comparison ''<'' 18)" using v m by blast
  then show ?thesis
    using described_range_exact [of ?cs plain_wording "js ''en''"] lit unfolding all n by blast
qed

end
