(* ===== verification/Billing_Grammar.thy ===== *)
theory Billing_Grammar
  imports Billing_Parser
begin

text \<open>
  The grammar of billing expressions, stated without reference to the parser: which sequences of
  lexemes are an expression whose operators bind at least as tightly as a minimum, and with which
  tree.  The parser reads every sequence the grammar derives, with the tree of the derivation.
  Positions are left out on both sides.
\<close>

section \<open>Lexemes without positions\<close>

definition bare :: "lexeme \<Rightarrow> lexeme" where
  "bare t = t\<lparr>lstart := 0, lend := 0\<rparr>"

definition symbol :: "jsstr \<Rightarrow> lexeme" where
  "symbol p = \<lparr>lkind = K_symbol, ltext = p, lstart = 0, lend = 0, lvalue = None, linteger = None\<rparr>"

definition name :: "jsstr \<Rightarrow> lexeme" where
  "name n = \<lparr>lkind = K_name, ltext = n, lstart = 0, lend = 0, lvalue = None, linteger = None\<rparr>"

definition number :: "jsstr \<Rightarrow> jsnum \<Rightarrow> bool \<Rightarrow> lexeme" where
  "number s v i = \<lparr>lkind = K_number, ltext = s, lstart = 0, lend = 0, lvalue = Some (VNum v), linteger = Some i\<rparr>"

definition quoted :: "jsstr \<Rightarrow> jsstr \<Rightarrow> lexeme" where
  "quoted s v = \<lparr>lkind = K_string, ltext = s, lstart = 0, lend = 0, lvalue = Some (VStr v), linteger = None\<rparr>"

definition end_mark :: lexeme where
  "end_mark = \<lparr>lkind = K_end, ltext = [], lstart = 0, lend = 0, lvalue = None, linteger = None\<rparr>"

lemmas token_defs = symbol_def name_def number_def quoted_def end_mark_def

lemma bare_fields [simp]:
  "lkind (bare t) = lkind t" "ltext (bare t) = ltext t" "lvalue (bare t) = lvalue t" "linteger (bare t) = linteger t"
  by (simp_all add: bare_def)

lemma token_kinds [simp]:
  "lkind (symbol p) = K_symbol" "lkind (name n) = K_name" "lkind (number s v i) = K_number" "lkind (quoted s w) = K_string"
  "ltext (symbol p) = p" "ltext (name n) = n" "ltext (number s v i) = s" "ltext (quoted s w) = s"
  "lkind end_mark = K_end" "ltext end_mark = []"
  by (simp_all add: token_defs)

lemma bare_eqD:
  assumes "bare t = u"
  shows "lkind t = lkind u" "ltext t = ltext u" "lvalue t = lvalue u" "linteger t = linteger u"
  using assms by (auto simp: bare_def)

fun erase :: "expr \<Rightarrow> expr" where
  "erase (Literal l i _ _) = Literal l i 0 0"
| "erase (Variable n _ _) = Variable n 0 0"
| "erase (Call n as _ _) = Call n (map erase as) 0 0"
| "erase (Unary p x _ _) = Unary p (erase x) 0 0"
| "erase (Binary p x y _ _) = Binary p (erase x) (erase y) 0 0"
| "erase (Conditional c x y _ _) = Conditional (erase c) (erase x) (erase y) 0 0"

lemma erase_with_span [simp]: "erase (with_span e s t) = erase e"
  by (cases e) simp_all

section \<open>The lexemes of a source\<close>

fun tokens_at :: "jsstr \<Rightarrow> nat \<Rightarrow> lexeme list \<Rightarrow> bool" where
  "tokens_at source c [] \<longleftrightarrow> True"
| "tokens_at source c (t # ts) \<longleftrightarrow>
     (\<exists>l. lex_token source (c + length (takeWhile is_space (drop c source))) = Inr l \<and>
        bare l = t \<and> tokens_at source (lend l) ts)"

text \<open>A state of the parser before the lexemes \<open>ts\<close>.\<close>

definition reads :: "jsstr \<Rightarrow> pstate \<Rightarrow> lexeme list \<Rightarrow> bool" where
  "reads source st ts \<longleftrightarrow>
     ts \<noteq> [] \<and> bare (current st) = hd ts \<and> tokens_at source (cursor st) (tl ts) \<and>
     lexcount st + length (tl ts) \<le> 10000"

lemma reads_current: "reads source st (t # ts) \<Longrightarrow> bare (current st) = t"
  by (simp add: reads_def)

lemma reads_depth [simp]: "reads source (st\<lparr>pdepth := d\<rparr>) ts = reads source st ts"
  by (simp add: reads_def)

text \<open>What is known of a call that may still run out of fuel.\<close>

definition attains :: "perr + 'a \<Rightarrow> ('a \<Rightarrow> bool) \<Rightarrow> bool" where
  "attains r Q \<longleftrightarrow> r = Inl Out_of_fuel \<or> (\<exists>x. r = Inr x \<and> Q x)"

lemma attains_Inr: "Q x \<Longrightarrow> attains (Inr x) Q"
  by (simp add: attains_def)

lemma attains_bind: "attains r Q \<Longrightarrow> (\<And>x. Q x \<Longrightarrow> attains (f x) R) \<Longrightarrow> attains (res_bind r f) R"
  by (auto simp: attains_def res_simps)

lemma attains_mono: "attains r Q \<Longrightarrow> (\<And>x. Q x \<Longrightarrow> R x) \<Longrightarrow> attains r R"
  by (auto simp: attains_def)

lemma attains_fuel [simp]: "attains (Inl Out_of_fuel) Q"
  by (simp add: attains_def)

lemma take_attains:
  assumes "reads source st (t # u # ts)"
  shows "attains (ptake source st) (\<lambda>(l, st'). l = current st \<and> bare l = t \<and> reads source st' (u # ts) \<and> pdepth st' = pdepth st)"
proof -
  obtain l where l: "lex_token source (cursor st + length (takeWhile is_space (drop (cursor st) source))) = Inr l"
      "bare l = u" "tokens_at source (lend l) ts"
    and c: "lexcount st + Suc (length ts) \<le> 10000" and t: "bare (current st) = t"
    using assms by (auto simp: reads_def)
  then have "lex_next source (cursor st) (lexcount st) = Inr (l, lexcount st + 1)"
    by (simp add: lex_next_def Let_def res_simps)
  then show ?thesis using l c t by (simp add: attains_def ptake_def reads_def)
qed

lemma expect_attains:
  assumes "reads source st (symbol (js p) # u # ts)"
  shows "attains (pexpect source p st) (\<lambda>(l, st'). reads source st' (u # ts) \<and> pdepth st' = pdepth st)"
proof -
  have "ltext (current st) = js p" using bare_eqD(2) [OF reads_current [OF assms]] by simp
  then have "pexpect source p st = ptake source st" by (simp add: pexpect_def)
  then show ?thesis by (simp only:) (rule attains_mono [OF take_attains [OF assms]], auto)
qed

lemma pis_reads: "reads source st (t # ts) \<Longrightarrow> pis st p \<longleftrightarrow> ltext t = js p"
  using bare_eqD(2) [OF reads_current] by (simp add: pis_def)

section \<open>The grammar\<close>

text \<open>A lexeme at which an expression of a minimal precedence stops.\<close>

definition halts :: "nat \<Rightarrow> lexeme \<Rightarrow> bool" where
  "halts m t \<longleftrightarrow> ltext t \<noteq> js ''('' \<and> (case map_of PRECEDENCE (ltext t) of None \<Rightarrow> True | Some p \<Rightarrow> p < m)"

definition follows :: "nat \<Rightarrow> lexeme \<Rightarrow> bool" where
  "follows m t \<longleftrightarrow> halts m t \<and> (m = 0 \<longrightarrow> ltext t \<noteq> js ''?'')"

text \<open>The second argument is the nesting depth, at most 128.\<close>

inductive expression_of :: "nat \<Rightarrow> nat \<Rightarrow> lexeme list \<Rightarrow> expr \<Rightarrow> bool"
  and chain_of :: "nat \<Rightarrow> nat \<Rightarrow> expr \<Rightarrow> lexeme list \<Rightarrow> expr \<Rightarrow> bool"
  and primary_of :: "nat \<Rightarrow> lexeme list \<Rightarrow> expr \<Rightarrow> bool"
  and arguments_of :: "nat \<Rightarrow> lexeme list \<Rightarrow> expr list \<Rightarrow> bool"
where
  operation: "d \<le> 128 \<Longrightarrow> primary_of d ts l \<Longrightarrow> chain_of m d l us e \<Longrightarrow> expression_of m d (ts @ us) e"
| choice: "d \<le> 128 \<Longrightarrow> primary_of d ts l \<Longrightarrow> chain_of 0 d l us c \<Longrightarrow> expression_of 0 (Suc d) vs x \<Longrightarrow>
    expression_of 0 (Suc d) ws y \<Longrightarrow>
    expression_of 0 d (ts @ us @ symbol (js ''?'') # vs @ symbol (js '':'') # ws) (Conditional c x y 0 0)"
| chain_end: "chain_of m d l [] l"
| chain_step: "map_of PRECEDENCE p = Some k \<Longrightarrow> m \<le> k \<Longrightarrow> expression_of (Suc k) (Suc d) ts r \<Longrightarrow>
    chain_of m d (Binary p l r 0 0) us e \<Longrightarrow> us = [] \<or> halts (Suc k) (hd us) \<Longrightarrow>
    chain_of m d l (symbol p # ts @ us) e"
| number_primary: "s \<noteq> js '')'' \<Longrightarrow> primary_of d [number s v i] (Literal (LNum v) (Some i) 0 0)"
| string_primary: "s \<noteq> js '')'' \<Longrightarrow> primary_of d [quoted s v] (Literal (LStr v) None 0 0)"
| nil_primary: "primary_of d [name (js ''nil'')] (Literal LNull None 0 0)"
| true_primary: "primary_of d [name (js ''true'')] (Literal (LBool True) None 0 0)"
| false_primary: "primary_of d [name (js ''false'')] (Literal (LBool False) None 0 0)"
| variable_primary: "n \<in> set BILLING_VARIABLES \<Longrightarrow> primary_of d [name n] (Variable n 0 0)"
| group_primary: "expression_of 0 (Suc d) ts e \<Longrightarrow> primary_of d (symbol (js ''('') # ts @ [symbol (js '')'')]) e"
| sign_primary: "p \<in> {js ''!'', js ''+'', js ''-''} \<Longrightarrow> expression_of 7 (Suc d) ts x \<Longrightarrow> primary_of d (symbol p # ts) (Unary p x 0 0)"
| call_primary: "map_of BILLING_FUNCTIONS n = Some (length as) \<Longrightarrow> arguments_of (Suc d) ts as \<Longrightarrow>
    primary_of d (name n # symbol (js ''('') # ts @ [symbol (js '')'')]) (Call n as 0 0)"
| no_argument: "arguments_of d [] []"
| last_argument: "expression_of 0 d ts e \<Longrightarrow> arguments_of d ts [e]"
| next_argument: "expression_of 0 d ts e \<Longrightarrow> arguments_of d us as \<Longrightarrow> arguments_of d (ts @ symbol (js '','') # us) (e # as)"

lemma chain_head: "chain_of m d l us e \<Longrightarrow> us \<noteq> [] \<Longrightarrow> \<exists>p k vs. us = symbol p # vs \<and> map_of PRECEDENCE p = Some k \<and> m \<le> k"
  by (erule chain_of.cases) auto

text \<open>An expression does not begin with a closing parenthesis.\<close>

lemma primary_head:
  assumes "primary_of d ts e"
  shows "ts \<noteq> [] \<and> ltext (hd ts) \<noteq> js '')''"
proof -
  have "js '')'' \<notin> set BILLING_VARIABLES" "map_of BILLING_FUNCTIONS (js '')'') = None"
    by (simp_all add: BILLING_VARIABLES_def TOKEN_VARIABLES_def BILLING_FUNCTIONS_def)
  moreover have "js '')'' \<noteq> js ''nil''" "js '')'' \<noteq> js ''true''" "js '')'' \<noteq> js ''false''" by simp_all
  ultimately show ?thesis using assms by (elim primary_of.cases) auto
qed

lemma expression_head: "expression_of m d ts e \<Longrightarrow> ts \<noteq> [] \<and> ltext (hd ts) \<noteq> js '')''"
  by (erule expression_of.cases) (use primary_head in fastforce)+

section \<open>The parser reads what the grammar derives\<close>

lemma halts_mono: "halts m t \<Longrightarrow> m \<le> k \<Longrightarrow> follows (Suc k) t"
  by (auto simp: halts_def follows_def split: option.splits)

abbreviation reaches :: "jsstr \<Rightarrow> expr \<Rightarrow> nat \<Rightarrow> lexeme list \<Rightarrow> expr \<times> pstate \<Rightarrow> bool" where
  "reaches source e d ts r \<equiv> erase (fst r) = e \<and> pdepth (snd r) = d \<and> reads source (snd r) ts"

lemma operator_not_open: "map_of PRECEDENCE p = Some k \<Longrightarrow> p \<noteq> js ''('' \<and> p \<noteq> js ''?''"
  by (auto simp: PRECEDENCE_def split: if_splits)

lemma sign_read: "map_of PRECEDENCE p = Some k \<Longrightarrow> k < 7"
  by (auto simp: PRECEDENCE_def split: if_splits)

lemma follows_seven: "halts 7 t \<longleftrightarrow> ltext t \<noteq> js ''(''"
  using sign_read by (auto simp: halts_def split: option.splits)

text \<open>What it means that the methods of the parser read a part of a derivation, with any fuel.\<close>

definition reads_expression :: "jsstr \<Rightarrow> nat \<Rightarrow> nat \<Rightarrow> lexeme list \<Rightarrow> expr \<Rightarrow> bool" where
  "reads_expression source m d ts e \<longleftrightarrow>
     (\<forall>n st t rest. Suc (pdepth st) = d \<longrightarrow> reads source st (ts @ t # rest) \<longrightarrow> follows m t \<longrightarrow>
        attains (p_expression (parser_methods n source) m st) (reaches source e (pdepth st) (t # rest)))"

definition reads_chain :: "jsstr \<Rightarrow> nat \<Rightarrow> nat \<Rightarrow> expr \<Rightarrow> lexeme list \<Rightarrow> expr \<Rightarrow> bool" where
  "reads_chain source m d l us e \<longleftrightarrow>
     (\<forall>n st left t rest. pdepth st = d \<longrightarrow> erase left = l \<longrightarrow> reads source st (us @ t # rest) \<longrightarrow> halts m t \<longrightarrow>
        attains (p_loop (parser_methods n source) m left st) (reaches source e d (t # rest)))"

definition reads_primary :: "jsstr \<Rightarrow> nat \<Rightarrow> lexeme list \<Rightarrow> expr \<Rightarrow> bool" where
  "reads_primary source d ts e \<longleftrightarrow>
     (\<forall>n st t rest. pdepth st = d \<longrightarrow> reads source st (ts @ t # rest) \<longrightarrow> ltext t \<noteq> js ''('' \<longrightarrow>
        attains (p_primary (parser_methods n source) st) (reaches source e d (t # rest)))"

definition reads_arguments :: "jsstr \<Rightarrow> nat \<Rightarrow> lexeme list \<Rightarrow> expr list \<Rightarrow> bool" where
  "reads_arguments source d ts as \<longleftrightarrow>
     (\<forall>n st acc rest. Suc (pdepth st) = d \<longrightarrow> reads source st (ts @ symbol (js '')'') # rest) \<longrightarrow>
        attains (p_args (parser_methods n source) acc st)
          (\<lambda>(bs, st'). map erase bs = map erase acc @ as \<and> pdepth st' = pdepth st \<and> reads source st' (symbol (js '')'') # rest)))"

lemma methods_Suc [simp]:
  "p_expression (parser_methods (Suc n) source) = expression_method source (parser_methods n source)"
  "p_loop (parser_methods (Suc n) source) = binary_loop source (parser_methods n source)"
  "p_primary (parser_methods (Suc n) source) = primary_method source (parser_methods n source)"
  "p_args (parser_methods (Suc n) source) = argument_loop source (parser_methods n source)"
  by (simp_all add: Let_def)

lemma methods_0 [simp]:
  "p_expression (parser_methods 0 source) m st = Inl Out_of_fuel" "p_loop (parser_methods 0 source) m l st = Inl Out_of_fuel"
  "p_primary (parser_methods 0 source) st = Inl Out_of_fuel" "p_args (parser_methods 0 source) acc st = Inl Out_of_fuel"
  by simp_all

declare parser_methods.simps [simp del]

text \<open>A primary and the operators after it.\<close>

lemma operand_read:
  assumes "reads_primary source d ts l" "reads_chain source m d l us e"
    and "us = [] \<or> (\<exists>p k vs. us = symbol p # vs \<and> map_of PRECEDENCE p = Some k)"
    and "pdepth st = d" "reads source st (ts @ us @ t # rest)" "halts m t"
    and "\<And>x. reaches source e d (t # rest) x \<Longrightarrow> attains (f x) R"
  shows "attains (res_bind (p_primary (parser_methods n source) st)
    (\<lambda>(left, st). res_bind (p_loop (parser_methods n source) m left st) f)) R"
proof -
  obtain u rest' where u: "us @ t # rest = u # rest'" "ltext u \<noteq> js ''(''"
    using assms(3,6) operator_not_open by (cases us) (auto simp: halts_def)
  have "attains (p_primary (parser_methods n source) st) (reaches source l d (us @ t # rest))"
    using assms(1,4,5) u by (auto simp: reads_primary_def)
  then show ?thesis
  proof (rule attains_bind)
    fix x assume x: "reaches source l d (us @ t # rest) x"
    have "attains (p_loop (parser_methods n source) m (fst x) (snd x)) (reaches source e d (t # rest))"
      using assms(2,6) x by (auto simp: reads_chain_def)
    then show "attains (case x of (left, st) \<Rightarrow> res_bind (p_loop (parser_methods n source) m left st) f) R"
      using assms(7) by (auto simp: case_prod_beta intro: attains_bind)
  qed
qed

lemma operation_read:
  assumes "d \<le> 128" "reads_primary source d ts l" "reads_chain source m d l us e"
    and "us = [] \<or> (\<exists>p k vs. us = symbol p # vs \<and> map_of PRECEDENCE p = Some k)"
  shows "reads_expression source m d (ts @ us) e"
  unfolding reads_expression_def
proof (intro allI impI)
  fix n st t rest
  assume h: "Suc (pdepth st) = d" "reads source st ((ts @ us) @ t # rest)" "follows m t"
  show "attains (p_expression (parser_methods n source) m st) (reaches source e (pdepth st) (t # rest))"
  proof (cases n)
    case (Suc k)
    have "\<not> (m = 0 \<and> pis (snd x) ''?'')" if "reaches source e d (t # rest) x" for x
      using pis_reads that h(3) by (auto simp: follows_def)
    then show ?thesis unfolding Suc methods_Suc expression_method_def
      using assms(1) h by (auto simp: follows_def case_prod_beta intro!: attains_Inr operand_read [OF assms(2-4)])
  qed simp
qed

lemma expressionD:
  "reads_expression source m d ts e \<Longrightarrow> Suc (pdepth st) = d \<Longrightarrow> reads source st (ts @ t # rest) \<Longrightarrow> follows m t \<Longrightarrow>
   attains (p_expression (parser_methods n source) m st) (reaches source e (pdepth st) (t # rest))"
  by (simp add: reads_expression_def)

lemma follow_marks [simp]:
  "follows 0 (symbol (js '':''))" "follows 0 (symbol (js '')''))" "follows 0 (symbol (js '',''))" "follows 0 end_mark"
  "halts 0 (symbol (js ''?''))"
  by (simp_all add: follows_def halts_def PRECEDENCE_def)

text \<open>The calls of the methods, each with what follows.\<close>

lemma expression_then:
  assumes "reads_expression source m d ts e" "Suc (pdepth st) = d" "reads source st (ts @ t # rest)" "follows m t"
    and "\<And>x st'. erase x = e \<Longrightarrow> pdepth st' = pdepth st \<Longrightarrow> reads source st' (t # rest) \<Longrightarrow> attains (f x st') R"
  shows "attains (res_bind (p_expression (parser_methods n source) m st) (\<lambda>(x, st'). f x st')) R"
  by (rule attains_bind [OF expressionD [OF assms(1-4)]]) (use assms(5) in auto)

lemma take_then:
  assumes "reads source st (t # ts)" "ts \<noteq> []"
    and "\<And>st'. bare (current st) = t \<Longrightarrow> pdepth st' = pdepth st \<Longrightarrow> reads source st' ts \<Longrightarrow> attains (f (current st) st') R"
  shows "attains (res_bind (ptake source st) (\<lambda>(x, st'). f x st')) R"
proof (cases ts)
  case (Cons u us)
  show ?thesis by (rule attains_bind [OF take_attains [OF assms(1) [unfolded Cons]]]) (use assms(3) Cons in auto)
qed (use assms in simp)

lemma expect_then:
  assumes "reads source st (symbol (js p) # ts)" "ts \<noteq> []"
    and "\<And>x st'. pdepth st' = pdepth st \<Longrightarrow> reads source st' ts \<Longrightarrow> attains (f x st') R"
  shows "attains (res_bind (pexpect source p st) (\<lambda>(x, st'). f x st')) R"
proof (cases ts)
  case (Cons u us)
  show ?thesis by (rule attains_bind [OF expect_attains [OF assms(1) [unfolded Cons]]]) (use assms(3) Cons in auto)
qed (use assms in simp)

lemma branches_read:
  assumes "reads_expression source 0 (Suc d) vs x" "reads_expression source 0 (Suc d) ws y"
    and "pdepth st = d" "reads source st (symbol (js ''?'') # vs @ symbol (js '':'') # ws @ t # rest)" "follows 0 t"
    and "\<And>x' y' st'. erase x' = x \<Longrightarrow> erase y' = y \<Longrightarrow> pdepth st' = d \<Longrightarrow> reads source st' (t # rest) \<Longrightarrow> attains (f x' y' st') R"
  shows "attains (res_bind (ptake source st) (\<lambda>(_, st).
      res_bind (p_expression (parser_methods n source) 0 st) (\<lambda>(yes, st).
      res_bind (pexpect source '':'' st) (\<lambda>(_, st).
      res_bind (p_expression (parser_methods n source) 0 st) (\<lambda>(no, st). f yes no st))))) R"
  by (rule take_then [OF assms(4)], simp)
     (rule expression_then [OF assms(1)], use assms(3) in simp, assumption, simp,
      rule expect_then, assumption, simp,
      rule expression_then [OF assms(2) _ _ assms(5)], use assms(3) in simp, assumption,
      rule assms(6), use assms(3) in simp_all)

lemma choice_read:
  assumes "d \<le> 128" "reads_primary source d ts l" "reads_chain source 0 d l us c"
    and "us = [] \<or> (\<exists>p k vs. us = symbol p # vs \<and> map_of PRECEDENCE p = Some k)"
    and "reads_expression source 0 (Suc d) vs x" "reads_expression source 0 (Suc d) ws y"
  shows "reads_expression source 0 d (ts @ us @ symbol (js ''?'') # vs @ symbol (js '':'') # ws) (Conditional c x y 0 0)"
  unfolding reads_expression_def
proof (intro allI impI)
  fix n st t rest
  assume h: "Suc (pdepth st) = d" "reads source st ((ts @ us @ symbol (js ''?'') # vs @ symbol (js '':'') # ws) @ t # rest)" "follows 0 t"
  let ?rest = "symbol (js ''?'') # vs @ symbol (js '':'') # ws @ t # rest"
  show "attains (p_expression (parser_methods n source) 0 st) (reaches source (Conditional c x y 0 0) (pdepth st) (t # rest))"
  proof (cases n)
    case (Suc k)
    have "pis (snd z) ''?''" if "reaches source c d ?rest z" for z
      using pis_reads that by auto
    then show ?thesis unfolding Suc methods_Suc expression_method_def
      using assms(1) h
      by (auto intro!: operand_read [OF assms(2-4), of _ "symbol (js ''?'')" "vs @ symbol (js '':'') # ws @ t # rest"]
          branches_read [OF assms(5,6)] attains_Inr)
  qed simp
qed

lemma chain_end_read: "reads_chain source m d l [] l"
  unfolding reads_chain_def
proof (intro allI impI)
  fix n st left t rest
  assume h: "pdepth st = d" "erase left = l" "reads source st ([] @ t # rest)" "halts m t"
  then have "ltext (current st) = ltext t" using bare_eqD(2) [OF reads_current] by simp
  then show "attains (p_loop (parser_methods n source) m left st) (reaches source l d (t # rest))"
    using h by (cases n) (auto simp: binary_loop_def halts_def attains_def split: option.splits)
qed

lemma chain_step_read:
  assumes "map_of PRECEDENCE p = Some k" "m \<le> k" "reads_expression source (Suc k) (Suc d) ts r"
    and "reads_chain source m d (Binary p l r 0 0) us e" "us = [] \<or> halts (Suc k) (hd us)"
  shows "reads_chain source m d l (symbol p # ts @ us) e"
  unfolding reads_chain_def
proof (intro allI impI)
  fix n st left t rest
  assume h: "pdepth st = d" "erase left = l" "reads source st ((symbol p # ts @ us) @ t # rest)" "halts m t"
  have p: "ltext (current st) = p" using bare_eqD(2) [OF reads_current] h(3) by fastforce
  obtain u vs where u: "us @ t # rest = u # vs" "follows (Suc k) u"
    using halts_mono [OF h(4) assms(2)] assms(5) by (cases us) (auto simp: follows_def)
  obtain w ws where w: "ts @ u # vs = w # ws" by (cases ts) auto
  show "attains (p_loop (parser_methods n source) m left st) (reaches source e d (t # rest))"
  proof (cases n)
    case (Suc j)
    have r: "reads source st (symbol p # ts @ u # vs)" using h(3) u(1) by simp
    have "attains (res_bind (ptake source st) (\<lambda>(q, st). res_bind (p_expression (parser_methods j source) (Suc k) st) (\<lambda>(right, st).
        p_loop (parser_methods j source) m (Binary (ltext q) left right (estart left) (eend right)) st))) (reaches source e d (t # rest))"
      by (rule take_then [OF r], simp, rule expression_then [OF assms(3)], use h(1) in simp, assumption, rule u(2))
         (use assms(4) h u(1) p in \<open>auto simp: reads_chain_def\<close>)
    then show ?thesis unfolding Suc methods_Suc binary_loop_def p using assms(1,2) by simp
  qed simp
qed

text \<open>Primaries.\<close>

lemma primary_readI:
  assumes "\<And>n st t rest. pdepth st = d \<Longrightarrow> reads source st (ts @ t # rest) \<Longrightarrow> ltext t \<noteq> js ''('' \<Longrightarrow>
    attains (primary_method source (parser_methods n source) st) (reaches source e d (t # rest))"
  shows "reads_primary source d ts e"
  unfolding reads_primary_def
proof (intro allI impI)
  fix n st t rest
  assume "pdepth st = d" "reads source st (ts @ t # rest)" "ltext t \<noteq> js ''(''"
  then show "attains (p_primary (parser_methods n source) st) (reaches source e d (t # rest))"
    using assms by (cases n) simp_all
qed

definition leaf :: "lexeme \<Rightarrow> expr \<Rightarrow> bool" where
  "leaf l e \<longleftrightarrow>
     lkind l = K_number \<and> e = Literal (literal_value l) (linteger l) 0 0 \<or>
     lkind l = K_string \<and> e = Literal (literal_value l) None 0 0 \<or>
     lkind l = K_name \<and>
       (ltext l = js ''nil'' \<and> e = Literal LNull None 0 0 \<or>
        ltext l \<in> {js ''true'', js ''false''} \<and> e = Literal (LBool (ltext l = js ''true'')) None 0 0 \<or>
        ltext l \<in> set BILLING_VARIABLES \<and> e = Variable (ltext l) 0 0)"

lemma variable_names: "n \<in> set BILLING_VARIABLES \<Longrightarrow> n \<notin> {js ''('', js ''!'', js ''+'', js ''-'', js ''nil'', js ''true'', js ''false''}"
  by (auto simp: BILLING_VARIABLES_def TOKEN_VARIABLES_def)

lemma function_names:
  "map_of BILLING_FUNCTIONS n = Some k \<Longrightarrow> n \<notin> {js ''('', js ''!'', js ''+'', js ''-'', js ''nil'', js ''true'', js ''false''}"
  by (auto simp: BILLING_FUNCTIONS_def split: if_splits)

text \<open>The method \<open>primary\<close> after its first lexeme.\<close>

definition primary_after :: "jsstr \<Rightarrow> parsers \<Rightarrow> lexeme \<Rightarrow> pstate \<Rightarrow> perr + expr \<times> pstate" where
  "primary_after source rec token st =
     (if lkind token = K_number then
        Inr (Literal (literal_value token) (linteger token) (lstart token) (lend token), st)
      else if lkind token = K_string then
        Inr (Literal (literal_value token) None (lstart token) (lend token), st)
      else if ltext token = js ''('' then
        res_bind (p_expression rec 0 st) (\<lambda>(expression, st).
        res_bind (pexpect source '')'' st) (\<lambda>(close, st).
          Inr (with_span expression (lstart token) (lend close), st)))
      else if ltext token \<in> {js ''!'', js ''+'', js ''-''} then
        res_bind (p_expression rec 7 st) (\<lambda>(operand, st).
          Inr (Unary (ltext token) operand (lstart token) (eend operand), st))
      else if lkind token \<noteq> K_name then
        perror Syntax (ltext token) (Some (lstart token))
      else if ltext token = js ''nil'' then
        Inr (Literal LNull None (lstart token) (lend token), st)
      else if ltext token = js ''true'' \<or> ltext token = js ''false'' then
        Inr (Literal (LBool (ltext token = js ''true'')) None (lstart token) (lend token), st)
      else if \<not> pis st ''('' then
        (if ltext token \<notin> set BILLING_VARIABLES then
           perror Unsupported (ltext token) (Some (lstart token))
         else Inr (Variable (ltext token) (lstart token) (lend token), st))
      else call_method source rec token st)"

lemma primary_method_after:
  "primary_method source rec st = res_bind (ptake source st) (\<lambda>(token, st'). primary_after source rec token st')"
  by (simp add: primary_method_def primary_after_def)

lemma primary_read:
  assumes "\<And>n token st' t rest. bare token = l \<Longrightarrow> pdepth st' = d \<Longrightarrow> reads source st' (ts @ t # rest) \<Longrightarrow> ltext t \<noteq> js ''('' \<Longrightarrow>
    attains (primary_after source (parser_methods n source) token st') (reaches source e d (t # rest))"
  shows "reads_primary source d (l # ts) e"
proof (rule primary_readI)
  fix n st t rest
  assume h: "pdepth st = d" "reads source st ((l # ts) @ t # rest)" "ltext t \<noteq> js ''(''"
  then have r: "reads source st (l # ts @ t # rest)" by simp
  show "attains (primary_method source (parser_methods n source) st) (reaches source e d (t # rest))"
    unfolding primary_method_after by (rule take_then [OF r], simp, rule assms) (use h in simp_all)
qed

lemma leaf_read:
  assumes "leaf l e"
  shows "reads_primary source d [l] e"
proof (rule primary_read)
  fix n token st t rest
  assume h: "bare token = l" "pdepth st = d" "reads source st ([] @ t # rest)" "ltext t \<noteq> js ''(''"
  have b: "lkind token = lkind l" "ltext token = ltext l" "literal_value token = literal_value l" "linteger token = linteger l"
    using bare_eqD [OF h(1)] by (simp_all add: literal_value_def)
  have "\<not> pis st ''(''" using pis_reads h(3,4) by simp
  then show "attains (primary_after source (parser_methods n source) token st) (reaches source e d (t # rest))"
    using assms h(2,3) variable_names [of "ltext l"] by (auto simp: primary_after_def leaf_def b intro!: attains_Inr)
qed

lemma group_parsed:
  assumes "reads_expression source 0 (Suc d) ts e"
  shows "reads_primary source d (symbol (js ''('') # ts @ [symbol (js '')'')]) e"
proof (rule primary_read)
  fix n token st t rest
  assume h: "bare token = symbol (js ''('')" "pdepth st = d" "reads source st ((ts @ [symbol (js '')'')]) @ t # rest)"
  have "attains (res_bind (p_expression (parser_methods n source) 0 st) (\<lambda>(x, st). res_bind (pexpect source '')'' st)
      (\<lambda>(close, st). Inr (with_span x (lstart token) (lend close), st)))) (reaches source e d (t # rest))"
    by (rule expression_then [OF assms, of _ "symbol (js '')'')" "t # rest"], use h(2,3) in simp_all)
       (rule expect_then, assumption, simp, rule attains_Inr, simp)
  then show "attains (primary_after source (parser_methods n source) token st) (reaches source e d (t # rest))"
    using bare_eqD [OF h(1)] by (simp add: primary_after_def)
qed

lemma sign_primary_read:
  assumes "p \<in> {js ''!'', js ''+'', js ''-''}" "reads_expression source 7 (Suc d) ts x"
  shows "reads_primary source d (symbol p # ts) (Unary p x 0 0)"
proof (rule primary_read)
  fix n token st t rest
  assume h: "bare token = symbol p" "pdepth st = d" "reads source st (ts @ t # rest)" "ltext t \<noteq> js ''(''"
  have "attains (res_bind (p_expression (parser_methods n source) 7 st) (\<lambda>(operand, st).
      Inr (Unary p operand (lstart token) (eend operand), st))) (reaches source (Unary p x 0 0) d (t # rest))"
    by (rule expression_then [OF assms(2) _ h(3)]) (use h follows_seven in \<open>auto simp: follows_def intro!: attains_Inr\<close>)
  moreover have "p \<noteq> js ''(''" using assms(1) by auto
  ultimately show "attains (primary_after source (parser_methods n source) token st) (reaches source (Unary p x 0 0) d (t # rest))"
    using bare_eqD [OF h(1)] assms(1) by (simp add: primary_after_def)
qed

lemma argumentsD:
  "reads_arguments source d ts as \<Longrightarrow> Suc (pdepth st) = d \<Longrightarrow> reads source st (ts @ symbol (js '')'') # rest) \<Longrightarrow>
   attains (p_args (parser_methods n source) acc st)
     (\<lambda>(bs, st'). map erase bs = map erase acc @ as \<and> pdepth st' = pdepth st \<and> reads source st' (symbol (js '')'') # rest))"
  by (simp add: reads_arguments_def)

lemma call_read:
  assumes "map_of BILLING_FUNCTIONS f = Some (length as)" "reads_arguments source (Suc d) ts as"
  shows "reads_primary source d (name f # symbol (js ''('') # ts @ [symbol (js '')'')]) (Call f as 0 0)"
proof (rule primary_read)
  fix n token st t rest
  assume h: "bare token = name f" "pdepth st = d" "reads source st ((symbol (js ''('') # ts @ [symbol (js '')'')]) @ t # rest)"
  have f: "ltext token = f" "lkind token = K_name" using bare_eqD [OF h(1)] by simp_all
  have "attains (call_method source (parser_methods n source) token st) (reaches source (Call f as 0 0) d (t # rest))"
    unfolding call_method_def f assms(1) option.case
  proof (rule take_then [OF h(3) [unfolded append_Cons]], simp)
    fix st' assume st': "pdepth st' = pdepth st" "reads source st' ((ts @ [symbol (js '')'')]) @ t # rest)"
    have "attains (p_args (parser_methods n source) [] st')
        (\<lambda>(bs, st''). map erase bs = as \<and> pdepth st'' = d \<and> reads source st'' (symbol (js '')'') # t # rest))"
      using argumentsD [OF assms(2), of st' "t # rest" n "[]"] st' h(2) by simp
    then show "attains (res_bind (p_args (parser_methods n source) [] st') (\<lambda>(args, st). res_bind (pexpect source '')'' st) (\<lambda>(close, st).
        if length args \<noteq> length as then perror Type_error f (Some (lstart token))
        else Inr (Call f args (lstart token) (lend close), st)))) (reaches source (Call f as 0 0) d (t # rest))"
      by (rule attains_bind) (auto intro!: expect_then attains_Inr)
  qed
  moreover have "pis st ''(''" using pis_reads h(3) by simp
  ultimately show "attains (primary_after source (parser_methods n source) token st) (reaches source (Call f as 0 0) d (t # rest))"
    using function_names [OF assms(1)] f by (simp add: primary_after_def)
qed

text \<open>Arguments.\<close>

lemma argumentsI:
  assumes "\<And>n st acc rest. Suc (pdepth st) = d \<Longrightarrow> reads source st (ts @ symbol (js '')'') # rest) \<Longrightarrow>
    attains (argument_loop source (parser_methods n source) acc st)
      (\<lambda>(bs, st'). map erase bs = map erase acc @ as \<and> pdepth st' = pdepth st \<and> reads source st' (symbol (js '')'') # rest))"
  shows "reads_arguments source d ts as"
  unfolding reads_arguments_def
proof (intro allI impI)
  fix n st acc rest
  assume "Suc (pdepth st) = d" "reads source st (ts @ symbol (js '')'') # rest)"
  then show "attains (p_args (parser_methods n source) acc st)
      (\<lambda>(bs, st'). map erase bs = map erase acc @ as \<and> pdepth st' = pdepth st \<and> reads source st' (symbol (js '')'') # rest))"
    using assms by (cases n) simp_all
qed

lemma no_argument_read: "reads_arguments source d [] []"
  by (rule argumentsI) (auto simp: argument_loop_def pis_reads intro!: attains_Inr)

lemma argument_open:
  assumes "ts \<noteq> [] \<and> ltext (hd ts) \<noteq> js '')''" "reads source st (ts @ us)"
  shows "\<not> pis st '')''"
  using assms pis_reads [of source st "hd ts" "tl ts @ us"] by (cases ts) auto

lemma last_argument_read:
  assumes "reads_expression source 0 d ts e" "ts \<noteq> [] \<and> ltext (hd ts) \<noteq> js '')''"
  shows "reads_arguments source d ts [e]"
proof (rule argumentsI)
  fix n st acc rest
  assume h: "Suc (pdepth st) = d" "reads source st (ts @ symbol (js '')'') # rest)"
  have "attains (res_bind (p_expression (parser_methods n source) 0 st) (\<lambda>(arg, st).
      if \<not> pis st '','' then Inr (acc @ [arg], st)
      else res_bind (ptake source st) (\<lambda>(_, st). p_args (parser_methods n source) (acc @ [arg]) st)))
      (\<lambda>(bs, st'). map erase bs = map erase acc @ [e] \<and> pdepth st' = pdepth st \<and> reads source st' (symbol (js '')'') # rest))"
    by (rule expression_then [OF assms(1) h]) (auto simp: pis_reads intro!: attains_Inr)
  then show "attains (argument_loop source (parser_methods n source) acc st)
      (\<lambda>(bs, st'). map erase bs = map erase acc @ [e] \<and> pdepth st' = pdepth st \<and> reads source st' (symbol (js '')'') # rest))"
    using argument_open [OF assms(2) h(2)] by (simp add: argument_loop_def)
qed

lemma next_argument_read:
  assumes "reads_expression source 0 d ts e" "ts \<noteq> [] \<and> ltext (hd ts) \<noteq> js '')''" "reads_arguments source d us as"
  shows "reads_arguments source d (ts @ symbol (js '','') # us) (e # as)"
proof (rule argumentsI)
  fix n acc rest and st :: pstate
  let ?R = "\<lambda>(bs, st'). map erase bs = map erase acc @ e # as \<and> pdepth st' = pdepth st \<and> reads source st' (symbol (js '')'') # rest)"
  assume h: "Suc (pdepth st) = d" "reads source st ((ts @ symbol (js '','') # us) @ symbol (js '')'') # rest)"
  then have r: "reads source st (ts @ symbol (js '','') # us @ symbol (js '')'') # rest)" by simp
  have "attains (res_bind (p_expression (parser_methods n source) 0 st) (\<lambda>(arg, st).
      if \<not> pis st '','' then Inr (acc @ [arg], st)
      else res_bind (ptake source st) (\<lambda>(_, st). p_args (parser_methods n source) (acc @ [arg]) st))) ?R"
  proof (rule expression_then [OF assms(1) h(1) r])
    fix x st'
    assume x: "erase x = e" "pdepth st' = pdepth st" "reads source st' (symbol (js '','') # us @ symbol (js '')'') # rest)"
    have "attains (res_bind (ptake source st') (\<lambda>(_, st). p_args (parser_methods n source) (acc @ [x]) st)) ?R"
      by (rule take_then [OF x(3)], simp, rule attains_mono [OF argumentsD [OF assms(3)]]) (use x h in auto)
    then show "attains (if \<not> pis st' '','' then Inr (acc @ [x], st')
      else res_bind (ptake source st') (\<lambda>(_, st). p_args (parser_methods n source) (acc @ [x]) st)) ?R"
      using x(3) by (simp add: pis_reads)
  qed simp
  then show "attains (argument_loop source (parser_methods n source) acc st) ?R"
    using argument_open [OF assms(2)] h(2) by (simp add: argument_loop_def)
qed

text \<open>Every derivation.\<close>

lemma grammar_read:
  "expression_of m d ts e \<Longrightarrow> reads_expression source m d ts e"
  "chain_of m d l us e \<Longrightarrow> reads_chain source m d l us e"
  "primary_of d ts e \<Longrightarrow> reads_primary source d ts e"
  "arguments_of d ts as \<Longrightarrow> reads_arguments source d ts as"
proof (induction rule: expression_of_chain_of_primary_of_arguments_of.inducts)
  case (operation d ts l m us e)
  then show ?case using operation_read chain_head by (metis (no_types, lifting))
next
  case (choice d ts l us c vs x ws y)
  then show ?case using choice_read chain_head by (metis (no_types, lifting))
next
  case (chain_end m d l)
  show ?case by (rule chain_end_read)
next
  case (chain_step p k m d ts r l us e)
  then show ?case using chain_step_read by blast
next
  case (call_primary f as d ts)
  then show ?case using call_read by blast
next
  case (group_primary d ts e)
  then show ?case using group_parsed by blast
next
  case (sign_primary p d ts x)
  then show ?case using sign_primary_read by blast
next
  case no_argument
  show ?case by (rule no_argument_read)
next
  case (last_argument d ts e)
  then show ?case using last_argument_read expression_head by blast
next
  case (next_argument d ts e us as)
  then show ?case using next_argument_read expression_head by blast
qed (rule leaf_read; simp add: leaf_def; simp add: number_def quoted_def literal_value_def)+

text \<open>A source whose lexemes the grammar derives is parsed as the tree of the derivation.\<close>

theorem parser_complete:
  assumes "tokens_at source 0 (ts @ [end_mark])" "expression_of 0 1 ts e"
    and "length source \<le> 65536" "match_version source = None" "length ts < 10000"
  shows "\<exists>x. parse_source source = Inr x \<and> erase x = e"
proof -
  obtain l us where l: "lex_token source (length (takeWhile is_space source)) = Inr l" "ts @ [end_mark] = bare l # us"
      "tokens_at source (lend l) us"
    using assms(1) expression_head [OF assms(2)] by (cases ts) auto
  let ?st = "\<lparr>cursor = lend l, lexcount = 1, pdepth = 0, current = l\<rparr>"
  have init: "parser_init source = Inr ?st"
    using assms(3,4) l(1) by (simp add: parser_init_def lex_next_def Let_def res_simps)
  have "length us = length ts" using l(2) by (metis length_append_singleton length_Cons Suc_inject)
  then have "reads source ?st (ts @ [end_mark])" using l(2,3) assms(5) by (simp add: reads_def)
  then have "attains (p_expression (parser_methods (parse_fuel source) source) 0 ?st) (reaches source e 0 [end_mark])"
    using expressionD [OF grammar_read(1) [OF assms(2)], where st = ?st and t = end_mark and rest = "[]"] by simp
  then consider "parse_source source = Inl Out_of_fuel" | x st where
      "p_expression (parser_methods (parse_fuel source) source) 0 ?st = Inr (x, st)" "erase x = e" "reads source st [end_mark]"
    by (auto simp: attains_def parse_source_def init res_simps)
  then show ?thesis
  proof cases
    case (2 x st)
    then show ?thesis using bare_eqD(1) [OF reads_current] by (simp add: parse_source_def init res_simps)
  qed (use parse_source_total in blast)
qed

end
