(* ===== verification/Billing_Spelling.thy ===== *)
theory Billing_Spelling
  imports Billing_Grammar Js_Number_Text Billing_Visual
begin

text \<open>
  Which texts the lexer reads as which lexemes: names, operators, printed numbers and quoted
  strings with any white space between them, as long as a lexeme does not run into the next one.
\<close>

section \<open>Texts and their lexemes\<close>

text \<open>Before \<open>rest\<close>, the text \<open>x\<close> is the lexeme \<open>t\<close>.\<close>

definition lexed :: "jsstr \<Rightarrow> jsstr \<Rightarrow> lexeme \<Rightarrow> bool" where
  "lexed x rest t \<longleftrightarrow>
     x \<noteq> [] \<and> \<not> is_space (hd x) \<and>
     (\<forall>source start. drop start source = x @ rest \<longrightarrow>
        (\<exists>l. lex_token source start = Inr l \<and> bare l = t \<and> lend l = start + length x))"

inductive spells :: "jsstr \<Rightarrow> lexeme list \<Rightarrow> bool" where
  spells_end: "list_all is_space w \<Longrightarrow> spells w [end_mark]"
| spells_step: "list_all is_space w \<Longrightarrow> lexed x rest t \<Longrightarrow> spells rest ts \<Longrightarrow> spells (w @ x @ rest) (t # ts)"

lemma takeWhile_spaces: "list_all is_space w \<Longrightarrow> rest = [] \<or> \<not> is_space (hd rest) \<Longrightarrow> takeWhile is_space (w @ rest) = w"
  by (cases rest) (auto simp: list_all_iff takeWhile_append)

lemma spells_tokens: "spells s ts \<Longrightarrow> drop c source = s \<Longrightarrow> tokens_at source c ts"
proof (induction s ts arbitrary: c rule: spells.induct)
  case (spells_end w)
  have w: "takeWhile is_space (drop c source) = w" using takeWhile_spaces [OF spells_end(1), of "[]"] spells_end(2) by simp
  have "drop (c + length w) source = []" using spells_end(2) by (metis add.commute drop_drop drop_all order_refl)
  then have "lex_token source (c + length w) = Inr (end_mark\<lparr>lstart := c + length w, lend := c + length w\<rparr>)"
    by (simp add: lex_token_def end_mark_def del: drop_eq_Nil)
  then show ?case unfolding tokens_at.simps w by (simp add: bare_def end_mark_def)
next
  case (spells_step w x rest t ts)
  have w: "takeWhile is_space (w @ x @ rest) = w"
    using takeWhile_spaces [OF spells_step(1), of "x @ rest"] spells_step(2) by (auto simp: lexed_def)
  have d: "drop (c + length w) source = x @ rest"
    using spells_step.prems by (metis add.commute append_eq_conv_conj drop_drop)
  obtain l where l: "lex_token source (c + length w) = Inr l" "bare l = t" "lend l = c + length w + length x"
    using spells_step(2) d by (auto simp: lexed_def)
  have "drop (lend l) source = rest" using d l(3) by (metis add.commute append_eq_conv_conj drop_drop)
  then show ?case using spells_step.IH l w spells_step.prems by simp
qed

section \<open>Names and operators\<close>

lemma lexed_name:
  assumes "n \<noteq> []" "is_alpha_us (hd n)" "list_all is_word (tl n)" "rest = [] \<or> \<not> is_word (hd rest)"
  shows "lexed n rest (name n)"
proof -
  obtain c m where n: "n = c # m" "is_alpha_us c" "list_all is_word m" using assms(1-3) by (cases n) auto
  have c: "\<not> is_space c" "\<not> is_digit c" "c \<noteq> 46" "c \<noteq> 34" "c \<noteq> 39"
    using n(2) by (auto simp: is_alpha_us_def is_space_def is_digit_def)
  have "takeWhile is_word (m @ rest) = m"
    using n(3) assms(4) by (cases rest) (auto simp: list_all_iff takeWhile_append)
  then show ?thesis
    using n c by (simp add: lexed_def lex_token_def match_number_def match_name_def name_def bare_def)
qed

lemma lexed_pair:
  assumes "p \<in> set two_char_operators"
  shows "lexed p rest (symbol p)"
proof -
  obtain a b where p: "p = [a, b]" "a \<in> {38, 124, 61, 33, 60, 62}"
    using assms by (auto simp: two_char_operators_def js_eval)
  then have a: "\<not> is_space a" "\<not> is_digit a" "a \<noteq> 46" "a \<noteq> 34" "a \<noteq> 39" "\<not> is_alpha_us a"
    by (auto simp: is_alpha_us_def is_space_def is_digit_def)
  then show ?thesis using assms p(1)
    by (simp add: lexed_def lex_token_def match_number_def match_name_def match_operator_def symbol_def bare_def)
qed

lemma lexed_single:
  assumes "c \<in> set one_char_operators" "take 2 (c # rest) \<notin> set two_char_operators"
  shows "lexed [c] rest (symbol [c])"
proof -
  have a: "\<not> is_space c" "\<not> is_digit c" "c \<noteq> 46" "c \<noteq> 34" "c \<noteq> 39" "\<not> is_alpha_us c"
    using assms(1) by (auto simp: one_char_operators_def is_alpha_us_def is_space_def is_digit_def js_eval)
  then show ?thesis using assms
    by (simp add: lexed_def lex_token_def match_number_def match_name_def match_operator_def symbol_def bare_def)
qed

text \<open>An operator of one character before a space, and brackets and commas before anything.\<close>

lemma two_chars: "[a, b] \<in> set two_char_operators \<Longrightarrow> b \<in> {38, 124, 61} \<and> a \<in> {38, 124, 61, 33, 60, 62}"
  by (auto simp: two_char_operators_def js_eval)

lemma one_char_not_pair: "[c] \<notin> set two_char_operators"
  by (simp add: two_char_operators_def js_eval)

lemma lexed_operator:
  assumes "p \<in> set two_char_operators \<or> (\<exists>c \<in> set one_char_operators. p = [c])"
  shows "lexed p (32 # rest) (symbol p)"
  using assms
proof
  assume "\<exists>c \<in> set one_char_operators. p = [c]"
  then obtain c where c: "c \<in> set one_char_operators" "p = [c]" by blast
  moreover have "take 2 (c # 32 # rest) \<notin> set two_char_operators" using two_chars [of c 32] by auto
  ultimately show ?thesis using lexed_single by blast
qed (rule lexed_pair)

lemma lexed_bracket:
  assumes "c \<in> {40, 41, 44, 43, 45, 42, 47, 37, 63, 58}"
  shows "lexed [c] rest (symbol [c])"
proof (rule lexed_single)
  show "c \<in> set one_char_operators" using assms by (auto simp: one_char_operators_def js_eval)
  have "[c, b] \<notin> set two_char_operators" for b using assms two_chars [of c b] by auto
  then show "take 2 (c # rest) \<notin> set two_char_operators" using one_char_not_pair by (cases rest) simp_all
qed

section \<open>Strings\<close>

lemma hex_digit_read: "d < 16 \<Longrightarrow> is_hex (hex_digit d) \<and> hex_digit_val (hex_digit d) = d"
  by (auto simp: hex_digit_def is_hex_def hex_digit_val_def is_digit_def)

lemma unicode_escape_digits:
  assumes "c < 65536"
  obtains h where "unicode_escape c = 92 # 117 # h" "list_all is_hex h" "length h = 4" "hex_val 0 h = c"
proof -
  let ?h = "map hex_digit [c div 4096 mod 16, c div 256 mod 16, c div 16 mod 16, c mod 16]"
  have "c div 4096 mod 16 = c div 4096" using assms by simp
  moreover have "c div 256 = 16 * (c div 4096) + c div 256 mod 16" using div_mult_mod_eq [of "c div 256" 16] by (simp add: div_mult2_eq [symmetric])
  moreover have "c div 16 = 16 * (c div 256) + c div 16 mod 16" using div_mult_mod_eq [of "c div 16" 16] by (simp add: div_mult2_eq [symmetric])
  moreover have "c = 16 * (c div 16) + c mod 16" by simp
  moreover have "hex_digit_val (hex_digit (c div 4096)) = c div 4096" using hex_digit_read assms by simp
  ultimately have "hex_val 0 ?h = c" using hex_digit_read by simp
  moreover have "list_all is_hex ?h" "length ?h = 4" using hex_digit_read by simp_all
  moreover have "unicode_escape c = 92 # 117 # ?h" by (simp add: unicode_escape_def)
  ultimately show thesis using that by blast
qed

lemma unicode_escape_scanned:
  assumes "c < 65536"
  shows "scan_string 34 start pos (unicode_escape c @ r) v = scan_string 34 start (pos + 6) r (v @ [c])"
proof -
  obtain h where "unicode_escape c = 92 # 117 # h" "list_all is_hex h" "length h = 4" "hex_val 0 h = c"
    using assms by (rule unicode_escape_digits)
  then show ?thesis by (simp add: simple_escapes_def Let_def add.commute)
qed

lemma quote_unit_scanned:
  "scan_string 34 start pos (quote_unit c @ r) v = scan_string 34 start (pos + length (quote_unit c)) r (v @ [c])"
proof -
  have "length (unicode_escape c) = 6" by (simp add: unicode_escape_def)
  then show ?thesis using unicode_escape_scanned [of c]
    by (auto simp: quote_unit_def simple_escapes_def)
qed

lemma quote_units_scanned:
  "scan_string 34 start pos (quote_units s @ r) v = scan_string 34 start (pos + length (quote_units s)) r (v @ s)"
proof (induction s arbitrary: pos v rule: quote_units.induct)
  case (2 c d s)
  consider (pair) "55296 \<le> c \<and> c \<le> 56319 \<and> 56320 \<le> d \<and> d \<le> 57343"
    | (lone) "55296 \<le> c \<and> c \<le> 57343" "\<not> (55296 \<le> c \<and> c \<le> 56319 \<and> 56320 \<le> d \<and> d \<le> 57343)"
    | (plain) "\<not> (55296 \<le> c \<and> c \<le> 57343)" by blast
  then show ?case
  proof cases
    case pair
    then show ?thesis using 2 by simp
  next
    case lone
    then have q: "quote_units (c # d # s) = unicode_escape c @ quote_units (d # s)" by auto
    have "length (unicode_escape c) = 6" "c < 65536" using lone by (auto simp: unicode_escape_def)
    then show ?thesis using 2(2) [OF lone(2,1)] unicode_escape_scanned unfolding q by (simp add: add.assoc)
  next
    case plain
    then have q: "quote_units (c # d # s) = quote_unit c @ quote_units (d # s)" by auto
    show ?thesis using 2(3) plain quote_unit_scanned unfolding q by (auto simp: add.assoc)
  qed
next
  case (3 c)
  have "length (unicode_escape c) = 6" by (simp add: unicode_escape_def)
  then show ?case using unicode_escape_scanned [of c] quote_unit_scanned by simp
qed simp

lemma lexed_string: "lexed (json_string s) rest (quoted (json_string s) s)"
proof -
  have "\<exists>l. lex_token source start = Inr l \<and> bare l = quoted (json_string s) s \<and> lend l = start + length (json_string s)"
    if d: "drop start source = json_string s @ rest" for source start
  proof -
    let ?n = "length (quote_units s)"
    have r: "drop start source = 34 # quote_units s @ 34 # rest" using d by (simp add: json_string_def)
    have n: "match_number (34 # quote_units s @ 34 # rest) = None" by (simp add: match_number_def is_digit_def)
    have s: "scan_string 34 start (Suc start) (quote_units s @ 34 # rest) [] = Inr (s, start + ?n + 2)"
      using quote_units_scanned [of start "Suc start" s "34 # rest" "[]"] by simp
    have "slice source start (start + ?n + 2) = json_string s"
      using r by (simp add: slice_def drop_take json_string_def)
    then show ?thesis using r n s
      by (simp add: lex_token_def quoted_def bare_def res_simps json_string_def)
  qed
  then show ?thesis by (simp add: lexed_def json_string_def is_space_def)
qed

section \<open>Numbers\<close>

text \<open>A number whose printed text the lexer accepts: a whole one has to be safe.\<close>

definition printable :: "jsnum \<Rightarrow> bool" where
  "printable v \<longleftrightarrow> plain_double v \<and> (list_all is_digit (num_text v) \<longrightarrow> is_safe_integer v)"

abbreviation number_token :: "jsnum \<Rightarrow> lexeme" where
  "number_token v \<equiv> number (num_text v) v (list_all is_digit (num_text v))"

lemma numeral_matched:
  assumes "numeral_parts ip fp" "rest = [] \<or> \<not> is_word (hd rest) \<and> hd rest \<noteq> 46"
  shows "match_number (numeral_text ip fp e @ rest) =
    Some (ip, (case fp of None \<Rightarrow> [] | Some f \<Rightarrow> 46 # f), (case e of None \<Rightarrow> [] | Some n \<Rightarrow> 101 # int_text n))"
proof -
  have ip: "ip \<noteq> []" "list_all is_digit ip" and fp: "\<And>f. fp = Some f \<Longrightarrow> list_all is_digit f"
    using assms(1) by (auto simp: numeral_parts_def digits_def)
  have r: "takeWhile is_digit rest = []" "dropWhile is_digit rest = rest" "match_exponent rest = []"
    "\<And>c s. rest = c # s \<Longrightarrow> c \<noteq> 46"
    using assms(2) by (cases rest; auto simp: is_word_def is_alpha_us_def match_exponent_def)+
  have ex: "match_exponent ((case e of None \<Rightarrow> [] | Some n \<Rightarrow> 101 # int_text n) @ rest) =
      (case e of None \<Rightarrow> [] | Some n \<Rightarrow> 101 # int_text n)"
    using r by (cases e) (auto simp: match_exponent_def int_text_parts)
  have t: "takeWhile is_digit ((case e of None \<Rightarrow> [] | Some n \<Rightarrow> 101 # int_text n) @ rest) = []"
    "dropWhile is_digit ((case e of None \<Rightarrow> [] | Some n \<Rightarrow> 101 # int_text n) @ rest) = (case e of None \<Rightarrow> [] | Some n \<Rightarrow> 101 # int_text n) @ rest"
    using r by (cases e; simp)+
  show ?thesis
  proof (cases fp)
    case None
    then show ?thesis using ip r ex t
      by (cases e; cases rest) (auto simp: match_number_def numeral_text_def)
  next
    case (Some f)
    then show ?thesis using ip fp [OF Some] ex t by (simp add: match_number_def numeral_text_def)
  qed
qed

lemma lexed_number:
  assumes "printable v" "rest = [] \<or> \<not> is_word (hd rest) \<and> hd rest \<noteq> 46"
  shows "lexed (num_text v) rest (number_token v)"
proof -
  have pd: "plain_double v" using assms(1) by (simp add: printable_def)
  obtain ip fp e where t: "num_text v = numeral_text ip fp e" "numeral_parts ip fp"
      "decimal_num ip (case fp of None \<Rightarrow> [] | Some f \<Rightarrow> f) (case e of None \<Rightarrow> 0 | Some m \<Rightarrow> m) = v"
    using num_text_shown [OF pd] by blast
  let ?m = "(ip, (case fp of None \<Rightarrow> [] | Some f \<Rightarrow> 46 # f), (case e of None \<Rightarrow> [] | Some n \<Rightarrow> 101 # int_text n))"
  have m: "match_number (num_text v @ rest) = Some ?m" using numeral_matched [OF t(2) assms(2)] t(1) by simp
  have ex: "exponent_val (case e of None \<Rightarrow> [] | Some n \<Rightarrow> 101 # int_text n) = (case e of None \<Rightarrow> 0 | Some m \<Rightarrow> m)"
    by (cases e) (auto simp: exponent_val_def int_text_parts digits_val_nat_digits)
  have v: "number_value ?m = v" "number_text ?m = num_text v"
    using t ex by (cases fp; simp add: number_value_def number_text_def numeral_text_def)+
  have i: "number_is_integer ?m = list_all is_digit (num_text v)"
    using t(1,2) by (cases fp; cases e) (auto simp: number_is_integer_def numeral_text_def numeral_parts_def digits_def)
  have "num_text v \<noteq> []" "\<not> is_space (hd (num_text v))" "num_text v @ rest \<noteq> []"
    using numeral_text_ends [OF t(2)] digit_not_space t(1) by auto
  then show ?thesis
    using m v i plain_double_finite [OF pd] assms(1)
    by (auto simp: lexed_def lex_token_def Let_def number_def bare_def printable_def split: list.splits)
qed

end
