(* ===== verification/Billing_Print.thy ===== *)
theory Billing_Print
  imports Billing_Spelling
begin

text \<open>
  A reference printer for syntax trees: it writes the parentheses that the precedences of the
  operators need and no others.  The parser reads the printed text as the tree.
\<close>

section \<open>Printing\<close>

definition precedence :: "jsstr \<Rightarrow> nat" where
  "precedence p = (case map_of PRECEDENCE p of None \<Rightarrow> 0 | Some k \<Rightarrow> k)"

fun literal_token :: "lit \<Rightarrow> lexeme" where
  "literal_token (LNum v) = number_token v"
| "literal_token (LStr s) = quoted (json_string s) s"
| "literal_token (LBool b) = name (if b then js ''true'' else js ''false'')"
| "literal_token LNull = name (js ''nil'')"

definition grouped :: "bool \<Rightarrow> lexeme list \<Rightarrow> lexeme list" where
  "grouped b ts = (if b then symbol (js ''('') # ts @ [symbol (js '')'')] else ts)"

text \<open>The lexemes of a tree where the operators of the context bind with the given minimum.\<close>

fun tokens_of :: "nat \<Rightarrow> expr \<Rightarrow> lexeme list"
  and argument_tokens :: "expr list \<Rightarrow> lexeme list"
where
  "tokens_of m (Literal l i _ _) = [literal_token l]"
| "tokens_of m (Variable n _ _) = [name n]"
| "tokens_of m (Call f as _ _) = name f # symbol (js ''('') # argument_tokens as @ [symbol (js '')'')]"
| "tokens_of m (Unary p x _ _) = symbol p # tokens_of 7 x"
| "tokens_of m (Binary p x y _ _) =
     grouped (precedence p < m) (tokens_of (precedence p) x @ symbol p # tokens_of (Suc (precedence p)) y)"
| "tokens_of m (Conditional c x y _ _) =
     grouped (0 < m) (tokens_of 1 c @ symbol (js ''?'') # tokens_of 0 x @ symbol (js '':'') # tokens_of 0 y)"
| "argument_tokens [] = []"
| "argument_tokens [a] = tokens_of 0 a"
| "argument_tokens (a # b # as) = tokens_of 0 a @ symbol (js '','') # argument_tokens (b # as)"

definition print_tokens :: "lexeme list \<Rightarrow> jsstr" where
  "print_tokens ts = concat (map (\<lambda>t. 32 # ltext t) ts) @ [32]"

text \<open>The nesting of the parser that a printed tree needs.\<close>

fun reach :: "nat \<Rightarrow> expr \<Rightarrow> nat" where
  "reach m (Literal l i _ _) = 0"
| "reach m (Variable n _ _) = 0"
| "reach m (Call f as _ _) = Suc (foldr max (map (reach 0) as) 0)"
| "reach m (Unary p x _ _) = Suc (reach 7 x)"
| "reach m (Binary p x y _ _) =
     max (reach (precedence p) x) (Suc (reach (Suc (precedence p)) y)) + (if precedence p < m then 1 else 0)"
| "reach m (Conditional c x y _ _) =
     max (reach 1 c) (Suc (max (reach 0 x) (reach 0 y))) + (if 0 < m then 1 else 0)"

text \<open>Trees that a source can have: known names, matching arities, printable numbers.\<close>

fun writable :: "expr \<Rightarrow> bool" where
  "writable (Literal l i _ _) \<longleftrightarrow>
     (case l of LNum v \<Rightarrow> printable v \<and> i = Some (list_all is_digit (num_text v)) | _ \<Rightarrow> i = None)"
| "writable (Variable n _ _) \<longleftrightarrow> n \<in> set BILLING_VARIABLES"
| "writable (Call f as _ _) \<longleftrightarrow> map_of BILLING_FUNCTIONS f = Some (length as) \<and> list_all writable as"
| "writable (Unary p x _ _) \<longleftrightarrow> p \<in> {js ''!'', js ''+'', js ''-''} \<and> writable x"
| "writable (Binary p x y _ _) \<longleftrightarrow> map_of PRECEDENCE p \<noteq> None \<and> writable x \<and> writable y"
| "writable (Conditional c x y _ _) \<longleftrightarrow> writable c \<and> writable x \<and> writable y"

section \<open>The grammar derives printed trees\<close>

lemma chain_mono: "chain_of k d l us e \<Longrightarrow> m \<le> k \<Longrightarrow> chain_of m d l us e"
proof (induction us arbitrary: l rule: measure_induct_rule [of length])
  case (less us)
  from less.prems(1) show ?case
  proof cases
    case chain_end
    then show ?thesis by (simp add: expression_of_chain_of_primary_of_arguments_of.chain_end)
  next
    case (chain_step p j ts r vs)
    then have "chain_of m d (Binary p l r 0 0) vs e" using less.IH [of vs] less.prems(2) by simp
    then show ?thesis using chain_step less.prems(2)
      by (simp add: expression_of_chain_of_primary_of_arguments_of.chain_step)
  qed
qed

lemma chain_snoc:
  assumes "map_of PRECEDENCE p = Some k" "expression_of (Suc k) (Suc d) ts r"
  shows "chain_of k d l us e \<Longrightarrow> chain_of k d l (us @ symbol p # ts) (Binary p e r 0 0)"
proof (induction us arbitrary: l rule: measure_induct_rule [of length])
  case (less us)
  from less.prems(1) show ?case
  proof cases
    case chain_end
    have "chain_of k d (Binary p l r 0 0) [] (Binary p l r 0 0)"
      by (rule expression_of_chain_of_primary_of_arguments_of.chain_end)
    then have "chain_of k d l (symbol p # ts @ []) (Binary p l r 0 0)"
      by (intro expression_of_chain_of_primary_of_arguments_of.chain_step [OF assms(1) _ assms(2)]) simp_all
    then show ?thesis using chain_end by simp
  next
    case (chain_step q j vs s ws)
    have "chain_of k d (Binary q l s 0 0) (ws @ symbol p # ts) (Binary p e r 0 0)" using less.IH [of ws] chain_step by simp
    moreover have "halts (Suc j) (symbol p)"
      using assms(1) chain_step(3) operator_not_open [OF assms(1)] by (simp add: halts_def)
    then have "ws @ symbol p # ts = [] \<or> halts (Suc j) (hd (ws @ symbol p # ts))"
      using chain_step(6) by (cases ws) auto
    ultimately have "chain_of k d l (symbol q # vs @ ws @ symbol p # ts) (Binary p e r 0 0)"
      using chain_step(2-4) by (intro expression_of_chain_of_primary_of_arguments_of.chain_step) auto
    then show ?thesis using chain_step by simp
  qed
qed

text \<open>A primary with its operators, that is, an expression without a choice.\<close>

definition operand_of :: "nat \<Rightarrow> nat \<Rightarrow> lexeme list \<Rightarrow> expr \<Rightarrow> bool" where
  "operand_of m d ts e \<longleftrightarrow> (\<exists>us vs l. ts = us @ vs \<and> primary_of d us l \<and> chain_of m d l vs e)"

lemma operand_expression: "operand_of m d ts e \<Longrightarrow> d \<le> 128 \<Longrightarrow> expression_of m d ts e"
  by (auto simp: operand_of_def intro: operation)

lemma operand_primary: "primary_of d ts e \<Longrightarrow> operand_of m d ts e"
  unfolding operand_of_def by (metis append_Nil2 chain_end)

lemma operand_mono: "operand_of k d ts e \<Longrightarrow> m \<le> k \<Longrightarrow> operand_of m d ts e"
  unfolding operand_of_def using chain_mono by blast

lemma operand_binary:
  assumes "map_of PRECEDENCE p = Some k" "operand_of k d ts x" "expression_of (Suc k) (Suc d) us y"
  shows "operand_of k d (ts @ symbol p # us) (Binary p x y 0 0)"
proof -
  obtain as bs l where "ts = as @ bs" "primary_of d as l" "chain_of k d l bs x"
    using assms(2) by (auto simp: operand_of_def)
  then show ?thesis using chain_snoc [OF assms(1,3)] unfolding operand_of_def by (metis append.assoc)
qed

lemma operand_choice:
  assumes "operand_of 0 d ts c" "expression_of 0 (Suc d) us x" "expression_of 0 (Suc d) vs y" "d \<le> 128"
  shows "expression_of 0 d (ts @ symbol (js ''?'') # us @ symbol (js '':'') # vs) (Conditional c x y 0 0)"
proof -
  obtain as bs l where "ts = as @ bs" "primary_of d as l" "chain_of 0 d l bs c"
    using assms(1) by (auto simp: operand_of_def)
  then show ?thesis using choice [OF assms(4) _ _ assms(2,3), of as l bs c] by simp
qed

lemma foldr_max_le: "a \<in> set xs \<Longrightarrow> (a :: nat) \<le> foldr max xs 0"
  by (induction xs) auto

lemma precedence_bounds: "map_of PRECEDENCE p = Some k \<Longrightarrow> 1 \<le> k"
  by (auto simp: PRECEDENCE_def split: if_splits)

definition printed :: "nat \<Rightarrow> expr \<Rightarrow> bool" where
  "printed m e \<longleftrightarrow> (\<forall>d. d + reach m e \<le> 128 \<longrightarrow> expression_of m d (tokens_of m e) (erase e) \<and>
     (0 < m \<longrightarrow> operand_of m d (tokens_of m e) (erase e)))"

lemma printedI: "(\<And>d. d + reach m e \<le> 128 \<Longrightarrow> operand_of m d (tokens_of m e) (erase e)) \<Longrightarrow> printed m e"
  using operand_expression by (simp add: printed_def)

lemma operand_group: "expression_of 0 (Suc d) ts e \<Longrightarrow> operand_of m d (symbol (js ''('') # ts @ [symbol (js '')'')]) e"
  by (intro operand_primary group_primary)

lemma number_text_head: "plain_double v \<Longrightarrow> num_text v \<noteq> [] \<and> is_digit (hd (num_text v))"
  using num_text_shown numeral_text_ends(1,2) by metis

lemma literal_not_close: "plain_double v \<Longrightarrow> num_text v \<noteq> js '')''" "json_string s \<noteq> js '')''"
  using number_text_head [of v] by (auto simp: js_eval json_string_def is_digit_def)

lemma literal_printed: "writable (Literal l i s t) \<Longrightarrow> printed m (Literal l i s t)"
proof (rule printedI)
  fix d assume w: "writable (Literal l i s t)"
  have "primary_of d [literal_token l] (Literal l i 0 0)"
  proof (cases l)
    case (LNum v)
    then show ?thesis using w literal_not_close(1) by (auto simp: printable_def intro: number_primary)
  next
    case (LBool b)
    then show ?thesis using w by (cases b) (auto intro: true_primary false_primary)
  qed (use w literal_not_close(2) in \<open>auto intro: string_primary nil_primary\<close>)
  then show "operand_of m d (tokens_of m (Literal l i s t)) (erase (Literal l i s t))"
    by (auto intro: operand_primary)
qed

lemma arguments_printed:
  "\<forall>a \<in> set as. printed 0 a \<and> d + reach 0 a \<le> 128 \<Longrightarrow> arguments_of d (argument_tokens as) (map erase as)"
proof (induction as rule: induct_list012)
  case (3 a b as)
  then show ?case by (auto simp: printed_def intro: next_argument)
qed (auto simp: printed_def intro: no_argument last_argument)

lemma call_printed:
  assumes "writable (Call f as s t)" "\<forall>a \<in> set as. printed 0 a"
  shows "printed m (Call f as s t)"
proof (rule printedI)
  fix d assume d: "d + reach m (Call f as s t) \<le> 128"
  have "Suc d + reach 0 a \<le> 128" if "a \<in> set as" for a
    using d foldr_max_le [of "reach 0 a" "map (reach 0) as"] that by simp
  then have "arguments_of (Suc d) (argument_tokens as) (map erase as)" using assms(2) by (intro arguments_printed) auto
  then show "operand_of m d (tokens_of m (Call f as s t)) (erase (Call f as s t))"
    using assms(1) by (auto intro!: operand_primary call_primary)
qed

lemma unary_printed: "writable (Unary p x s t) \<Longrightarrow> printed 7 x \<Longrightarrow> printed m (Unary p x s t)"
  by (rule printedI) (auto simp: printed_def intro!: operand_primary sign_primary)

lemma binary_printed:
  assumes "writable (Binary p x y s t)" "printed (precedence p) x" "printed (Suc (precedence p)) y"
  shows "printed m (Binary p x y s t)"
proof (rule printedI)
  fix d assume d: "d + reach m (Binary p x y s t) \<le> 128"
  let ?k = "precedence p"
  let ?ts = "tokens_of ?k x @ symbol p # tokens_of (Suc ?k) y"
  have k: "map_of PRECEDENCE p = Some ?k" using assms(1) by (auto simp: precedence_def)
  have op: "operand_of ?k b ?ts (erase (Binary p x y s t))" if "b + max (reach ?k x) (Suc (reach (Suc ?k) y)) \<le> 128" for b
    using assms(2,3) that precedence_bounds [OF k] by (auto simp: printed_def intro!: operand_binary [OF k])
  show "operand_of m d (tokens_of m (Binary p x y s t)) (erase (Binary p x y s t))"
  proof (cases "?k < m")
    case True
    then have "operand_of ?k (Suc d) ?ts (erase (Binary p x y s t))" using op [of "Suc d"] d by simp
    then have "expression_of 0 (Suc d) ?ts (erase (Binary p x y s t))"
      using operand_mono [of ?k] operand_expression d True by simp
    then show ?thesis using True operand_group [of d ?ts] by (simp add: grouped_def)
  next
    case False
    then show ?thesis using op [of d] operand_mono [of ?k] d by (simp add: grouped_def)
  qed
qed

lemma choice_printed:
  assumes "printed 1 c" "printed 0 x" "printed 0 y"
  shows "printed m (Conditional c x y s t)"
proof -
  let ?ts = "tokens_of 1 c @ symbol (js ''?'') # tokens_of 0 x @ symbol (js '':'') # tokens_of 0 y"
  have e: "expression_of 0 b ?ts (erase (Conditional c x y s t))"
    if "b + max (reach 1 c) (Suc (max (reach 0 x) (reach 0 y))) \<le> 128" for b
    using assms that operand_mono [of 1 b "tokens_of 1 c" "erase c" 0]
    by (auto simp: printed_def intro!: operand_choice)
  show ?thesis
  proof (cases "m = 0")
    case True
    then show ?thesis using e by (simp add: printed_def grouped_def)
  next
    case False
    then show ?thesis using e operand_group [of _ ?ts] by (intro printedI) (simp add: grouped_def)
  qed
qed

lemma tree_printed: "writable e \<Longrightarrow> printed m e"
proof (induction e arbitrary: m)
  case (Call f as s t)
  then show ?case by (intro call_printed) (auto simp: list_all_iff)
next
  case (Variable n s t)
  then show ?case by (intro printedI) (auto intro!: operand_primary variable_primary)
qed (auto intro: literal_printed unary_printed binary_printed choice_printed)

section \<open>The printed text\<close>

definition token_ok :: "lexeme \<Rightarrow> bool" where
  "token_ok t \<longleftrightarrow> (\<forall>rest. lexed (ltext t) (32 # rest) t) \<and> hd (ltext t) \<noteq> 118"

lemma name_ok:
  assumes "n \<in> set BILLING_VARIABLES \<or> map_of BILLING_FUNCTIONS n \<noteq> None \<or> n \<in> {js ''nil'', js ''true'', js ''false''}"
  shows "token_ok (name n)"
proof -
  have "list_all (\<lambda>n. n \<noteq> [] \<and> is_alpha_us (hd n) \<and> list_all is_word (tl n) \<and> hd n \<noteq> 118)
      (BILLING_VARIABLES @ map fst BILLING_FUNCTIONS @ [js ''nil'', js ''true'', js ''false''])"
    by (simp add: BILLING_VARIABLES_def TOKEN_VARIABLES_def BILLING_FUNCTIONS_def js_eval is_word_def is_alpha_us_def is_digit_def)
  moreover have "n \<in> set (BILLING_VARIABLES @ map fst BILLING_FUNCTIONS @ [js ''nil'', js ''true'', js ''false''])"
    using assms map_of_SomeD by (fastforce simp: image_iff)
  ultimately have "n \<noteq> [] \<and> is_alpha_us (hd n) \<and> list_all is_word (tl n) \<and> hd n \<noteq> 118"
    unfolding list_all_iff by blast
  moreover have "\<not> is_word 32" by (simp add: is_word_def is_alpha_us_def is_digit_def)
  ultimately show ?thesis using lexed_name by (simp add: token_ok_def)
qed

lemma operator_ok:
  assumes "map_of PRECEDENCE p \<noteq> None \<or> p \<in> {js ''!'', js ''('', js '')'', js '','', js ''?'', js '':''}"
  shows "token_ok (symbol p)"
proof -
  have "p \<in> set two_char_operators \<or> (\<exists>c \<in> set one_char_operators. p = [c])" "hd p \<noteq> 118"
    using assms by (auto simp: PRECEDENCE_def two_char_operators_def one_char_operators_def js_eval split: if_splits)
  then show ?thesis using lexed_operator by (simp add: token_ok_def)
qed

lemma literal_token_ok: "writable (Literal l i s t) \<Longrightarrow> token_ok (literal_token l)"
proof (cases l)
  case (LNum v)
  assume w: "writable (Literal l i s t)"
  have "is_digit (hd (num_text v))" using w LNum number_text_head by (simp add: printable_def)
  then have "hd (num_text v) \<noteq> 118" by (auto simp: is_digit_def)
  moreover have "\<not> is_word 32" by (simp add: is_word_def is_alpha_us_def is_digit_def)
  ultimately show ?thesis using w LNum lexed_number by (simp add: token_ok_def)
next
  case (LStr v)
  then show ?thesis using lexed_string by (simp add: token_ok_def) (simp add: json_string_def)
qed (simp_all add: name_ok)

lemma operator_marks [simp]:
  "token_ok (symbol (js ''(''))" "token_ok (symbol (js '')''))" "token_ok (symbol (js '',''))"
  "token_ok (symbol (js ''?''))" "token_ok (symbol (js '':''))"
  by (rule operator_ok, simp)+

lemma tokens_ok:
  "writable e \<Longrightarrow> \<forall>t \<in> set (tokens_of m e). token_ok t"
  "list_all writable as \<Longrightarrow> \<forall>t \<in> set (argument_tokens as). token_ok t"
proof (induction m e and as rule: tokens_of_argument_tokens.induct)
  case (1 m l i s t)
  then show ?case using literal_token_ok by simp
next
  case (2 m n s t)
  then show ?case by (auto intro: name_ok)
next
  case (3 m f as s t)
  then show ?case by (auto intro: name_ok)
next
  case (4 m p x s t)
  moreover have "token_ok (symbol p)" if "p \<in> {js ''!'', js ''+'', js ''-''}"
    using that by (intro operator_ok) (auto simp: PRECEDENCE_def)
  ultimately show ?case by auto
next
  case (5 m p x y s t)
  then show ?case by (auto simp: grouped_def intro: operator_ok)
qed (auto simp: grouped_def)

lemma spells_printed: "\<forall>t \<in> set ts. token_ok t \<Longrightarrow> spells (print_tokens ts) (ts @ [end_mark])"
proof (induction ts)
  case Nil
  have "is_space 32" by (simp add: is_space_def)
  then show ?case using spells_end [of "[32]"] by (simp add: print_tokens_def)
next
  case (Cons t ts)
  obtain rest where rest: "print_tokens ts = 32 # rest" by (cases ts) (simp_all add: print_tokens_def)
  have "spells ([32] @ ltext t @ print_tokens ts) (t # ts @ [end_mark])"
    using Cons rest by (intro spells_step) (auto simp: token_ok_def is_space_def)
  then show ?case by (simp add: print_tokens_def)
qed

lemma no_version:
  assumes "ts \<noteq> []" "token_ok (hd ts)"
  shows "match_version (print_tokens ts) = None"
proof -
  have t: "ltext (hd ts) \<noteq> []" "\<not> is_space (hd (ltext (hd ts)))" "hd (ltext (hd ts)) \<noteq> 118"
    using assms(2) by (auto simp: token_ok_def lexed_def)
  have space: "is_space 32" by (simp add: is_space_def)
  have "print_tokens ts = 32 # ltext (hd ts) @ print_tokens (tl ts)" using assms(1) by (cases ts) (simp_all add: print_tokens_def)
  then have "dropWhile is_space (print_tokens ts) = ltext (hd ts) @ print_tokens (tl ts)"
    using t space by (cases "ltext (hd ts)") simp_all
  then show ?thesis using t by (cases "ltext (hd ts)") (simp_all add: match_version_def)
qed

lemma parse_printed:
  assumes "writable e" "reach 0 e < 128" "length (print_tokens (tokens_of 0 e)) \<le> 65536" "length (tokens_of 0 e) < 10000"
  shows "\<exists>x. parse_source (print_tokens (tokens_of 0 e)) = Inr x \<and> erase x = erase e"
proof (rule parser_complete [OF _ _ assms(3) _ assms(4)])
  show g: "expression_of 0 1 (tokens_of 0 e) (erase e)" using tree_printed [OF assms(1), of 0] assms(2) by (simp add: printed_def)
  show "tokens_at (print_tokens (tokens_of 0 e)) 0 (tokens_of 0 e @ [end_mark])"
    using spells_tokens [OF spells_printed [OF tokens_ok(1) [OF assms(1)]]] by simp
  show "match_version (print_tokens (tokens_of 0 e)) = None"
    using expression_head [OF g] tokens_ok(1) [OF assms(1), of 0] hd_in_set by (intro no_version) blast+
qed

text \<open>C5: The parser implements the precedences of the operators.  A tree that is written with the
  parentheses its operators need, and no others, is read back as the same tree, for every tree
  with known names, matching arities and numbers the lexer accepts, within the limits of the parser.\<close>

theorem parse_print:
  assumes "writable e" "reach 0 e < 128" "length (print_tokens (tokens_of 0 e)) \<le> 65536" "length (tokens_of 0 e) < 10000"
  shows "\<exists>x. parse_source (print_tokens (tokens_of 0 e)) = Inr x \<and> erase x = erase e"
  by (rule parse_printed [OF assms])

definition product_tree :: expr where
  "product_tree = Binary (js ''*'') (Binary (js ''+'') (Variable (js ''p'') 0 0) (Variable (js ''c'') 0 0) 0 0) (Variable (js ''len'') 0 0) 0 0"

lemma product_tree_printed: "tokens_of 0 product_tree =
    [symbol (js ''(''), name (js ''p''), symbol (js ''+''), name (js ''c''), symbol (js '')''), symbol (js ''*''), name (js ''len'')]"
  by (simp add: product_tree_def precedence_def PRECEDENCE_def grouped_def)

theorem parse_print_witness:
  "\<exists>x. parse_source (js '' ( p + c ) * len '') = Inr x \<and> erase x = product_tree"
proof -
  have w: "writable product_tree" "reach 0 product_tree < 128"
    by (simp_all add: product_tree_def BILLING_VARIABLES_def TOKEN_VARIABLES_def PRECEDENCE_def precedence_def)
  have t: "print_tokens (tokens_of 0 product_tree) = js '' ( p + c ) * len ''"
    by (simp add: product_tree_printed print_tokens_def js_eval)
  have "erase product_tree = product_tree" by (simp add: product_tree_def)
  then show ?thesis
    using parse_print [OF w] unfolding t by (simp add: product_tree_printed js_eval)
qed

end
