(* ===== verification/Billing_Written.thy ===== *)
theory Billing_Written
  imports Billing_Print Billing_Compile Billing_Display
begin

text \<open>
  Texts that other parts of the program write: how the lexemes of a text are composed from the
  lexemes of its pieces, and that a text with the lexemes of a well-typed tree compiles to it.
\<close>

section \<open>Positions do not matter\<close>

lemma erase_idem [simp]: "erase (erase e) = erase e"
  by (induction e) auto

lemma erase_case_simps [simp]:
  "erase e = Literal l i 0 0 \<longleftrightarrow> (\<exists>s t. e = Literal l i s t)" "erase e = Variable n 0 0 \<longleftrightarrow> (\<exists>s t. e = Variable n s t)"
  by (cases e; auto)+

lemma height_erase [simp]: "height (erase e) = height e"
proof (induction e)
  case (Call n as s t)
  then have "map height (map erase as) = map height as" by simp
  then have "height ` erase ` set as = height ` set as" by (metis list.set_map)
  then show ?case by (simp add: image_image)
qed simp_all

lemma typed_erase [simp]: "typed (erase e) t \<longleftrightarrow> typed e t"
proof (induction e arbitrary: t)
  case (Call n as s u)
  have "list_all2 typed (map erase as) ts \<longleftrightarrow> list_all2 typed as ts" for ts
    using Call by (auto simp: list_all2_conv_all_nth)
  then show ?case by simp
qed simp_all

lemma calls_of_children: "calls_of e = (case e of Call n _ _ _ \<Rightarrow> {n} | _ \<Rightarrow> {}) \<union> (\<Union>c \<in> set (children e). calls_of c)"
  unfolding calls_of_def by (subst postorder_children) (auto split: expr.splits)

lemma calls_of_leaf [simp]: "calls_of (Literal l i s t) = {}" "calls_of (Variable n s t) = {}"
  using calls_of_children [of "Literal l i s t"] calls_of_children [of "Variable n s t"] by simp_all

lemma calls_of_node [simp]:
  "calls_of (Call n as s t) = insert n (\<Union>a \<in> set as. calls_of a)" "calls_of (Unary p x s t) = calls_of x"
  "calls_of (Binary p x y s t) = calls_of x \<union> calls_of y" "calls_of (Conditional c x y s t) = calls_of c \<union> calls_of x \<union> calls_of y"
  using calls_of_children [of "Call n as s t"] calls_of_children [of "Unary p x s t"]
    calls_of_children [of "Binary p x y s t"] calls_of_children [of "Conditional c x y s t"] by auto

lemma calls_of_erase [simp]: "calls_of (erase e) = calls_of e"
  by (induction e) auto

lemma compiles:
  assumes "parse_source source = Inr x" "height x \<le> 256" "typed x t" "js ''fixed'' \<notin> calls_of x"
  shows "\<exists>c. compile_fresh source = Inr c \<and> cast c = x"
proof -
  have "tree_ok x" using parse_source_good [OF assms(1)] by (simp add: good_def)
  then have "checkExpressionTypes x = Inr ()" using checkExpressionTypes_iff assms(2,3) by blast
  then show ?thesis
    using assms(1,4) expressionDependencies_spec [OF assms(2)] rule_collection [OF assms(2), of source]
    by (auto simp: compile_fresh_def compile_parsed_def parse_billing_def res_simps)
qed

section \<open>Spelling by pieces\<close>

text \<open>A text after which a number or a name ends.\<close>

definition breaks :: "jsstr \<Rightarrow> bool" where
  "breaks rest \<longleftrightarrow> rest = [] \<or> \<not> is_word (hd rest) \<and> hd rest \<noteq> 46"

text \<open>The text \<open>u\<close> has the lexemes \<open>ts\<close>, before every text, or before those that break.\<close>

definition spelt :: "bool \<Rightarrow> jsstr \<Rightarrow> lexeme list \<Rightarrow> bool" where
  "spelt b u ts \<longleftrightarrow> (\<forall>rest us. (b \<longrightarrow> breaks rest) \<longrightarrow> spells rest us \<longrightarrow> spells (u @ rest) (ts @ us))"

lemma spelt_Nil: "spelt False [] []"
  by (simp add: spelt_def)

lemma spelt_weaken: "spelt False u ts \<Longrightarrow> spelt b u ts"
  by (simp add: spelt_def)

lemma spelt_append:
  assumes "spelt b u ts" "spelt c v us" "b \<Longrightarrow> v \<noteq> [] \<and> breaks v"
  shows "spelt c (u @ v) (ts @ us)"
proof -
  have "breaks (v @ rest)" if b for rest using assms(3) [OF that] by (auto simp: breaks_def)
  then show ?thesis using assms(1,2) by (auto simp: spelt_def)
qed

lemma spells_space: "spells s ts \<Longrightarrow> spells (32 # s) ts"
proof (induction rule: spells.cases)
  case (spells_end w)
  then show ?thesis using spells.spells_end [of "32 # w"] by (simp add: is_space_def)
next
  case (spells_step w x rest t us)
  then show ?thesis using spells.spells_step [of "32 # w" x rest t us] by (simp add: is_space_def)
qed

lemma spelt_token:
  assumes "\<And>rest. (b \<Longrightarrow> breaks rest) \<Longrightarrow> lexed x rest t"
  shows "spelt b x [t]"
  unfolding spelt_def using assms spells_step [of "[]" x] by simp

lemma spelt_spaced: "spelt b u ts \<Longrightarrow> spelt b (32 # u) ts"
  by (simp add: spelt_def spells_space)

lemma spelt_string: "spelt False (json_string s) [quoted (json_string s) s]"
  by (rule spelt_token) (rule lexed_string)

lemma spelt_number: "printable v \<Longrightarrow> spelt True (num_text v) [number_token v]"
  by (rule spelt_token) (auto simp: breaks_def intro: lexed_number)

lemma spelt_name:
  assumes "n \<noteq> []" "is_alpha_us (hd n)" "list_all is_word (tl n)"
  shows "spelt True n [name n]"
  by (rule spelt_token) (use assms in \<open>auto simp: breaks_def intro: lexed_name\<close>)

lemma spelt_bracket: "c \<in> {40, 41, 44, 43, 45, 42, 47, 37, 63, 58} \<Longrightarrow> spelt False [c] [symbol [c]]"
  by (rule spelt_token) (rule lexed_bracket)

lemma spelt_pair: "p \<in> set two_char_operators \<Longrightarrow> spelt False p [symbol p]"
  by (rule spelt_token) (rule lexed_pair)

lemma breaks_space [simp]: "breaks (32 # s)" "breaks (41 # s)" "breaks (40 # s)" "breaks (44 # s)"
  by (simp_all add: breaks_def is_word_def is_alpha_us_def is_digit_def)

text \<open>Pieces with an operator between spaces, and a list of pieces joined with one.\<close>

lemma spelt_infix:
  assumes "spelt b u ts" "spelt False p [symbol p]" "spelt c v us"
  shows "spelt c (u @ 32 # p @ 32 # v) (ts @ symbol p # us)"
proof -
  have "spelt c (p @ 32 # v) ([symbol p] @ us)" by (rule spelt_append [OF assms(2) spelt_spaced [OF assms(3)]]) simp
  then show ?thesis using spelt_append [OF assms(1) spelt_spaced] by simp
qed

lemma spelt_join:
  assumes "spelt False p [symbol p]"
  shows "xs \<noteq> [] \<Longrightarrow> \<forall>x \<in> set xs. spelt True (f x) (g x) \<Longrightarrow>
    spelt True (join (32 # p @ [32]) (map f xs)) (g (hd xs) @ concat (map (\<lambda>x. symbol p # g x) (tl xs)))"
proof (induction xs rule: induct_list012)
  case (3 x y xs)
  then show ?case using spelt_infix [OF _ assms, of True "f x" "g x" True] by simp
qed simp_all

section \<open>Compiling a written tree\<close>

lemma written_compiles:
  assumes "spelt b text (tokens_of 0 e)" "writable e" "typed e t" "js ''fixed'' \<notin> calls_of e"
    and "reach 0 e < 128" "height e \<le> 256" "length (tokens_of 0 e) < 10000" "length text \<le> 65536" "match_version text = None"
  shows "\<exists>c. compile_fresh text = Inr c \<and> erase (cast c) = erase e"
proof -
  have "spells [] [end_mark]" using spells_end [of "[]"] by simp
  then have "spells text (tokens_of 0 e @ [end_mark])" using assms(1) by (force simp: spelt_def breaks_def)
  then have "tokens_at text 0 (tokens_of 0 e @ [end_mark])" using spells_tokens by simp
  moreover have "expression_of 0 1 (tokens_of 0 e) (erase e)"
    using tree_printed [OF assms(2), of 0] assms(5) by (simp add: printed_def)
  ultimately obtain x where x: "parse_source text = Inr x" "erase x = erase e"
    using parser_complete assms(7-9) by blast
  then have "height x = height e" "typed x t" "calls_of x = calls_of e"
    using assms(3) by (metis height_erase, metis typed_erase, metis calls_of_erase)
  then show ?thesis using compiles [OF x(1), of t] x(2) assms(4,6) by auto
qed

section \<open>Trees without positions\<close>

abbreviation number_lit :: "jsnum \<Rightarrow> expr" where
  "number_lit v \<equiv> Literal (LNum v) (Some (list_all is_digit (num_text v))) 0 0"

abbreviation string_lit :: "jsstr \<Rightarrow> expr" where
  "string_lit s \<equiv> Literal (LStr s) None 0 0"

abbreviation binary :: "char list \<Rightarrow> expr \<Rightarrow> expr \<Rightarrow> expr" where
  "binary p x y \<equiv> Binary (js p) x y 0 0"

definition op_chain :: "char list \<Rightarrow> expr list \<Rightarrow> expr" where
  "op_chain p xs = foldl (binary p) (hd xs) (tl xs)"

section \<open>Chains of an operator\<close>

lemma op_chain_induct [consumes 1, case_names single snoc]:
  assumes "xs \<noteq> []" "\<And>x. x \<in> set xs \<Longrightarrow> P [x]"
    and "\<And>ys y. ys \<noteq> [] \<Longrightarrow> set (ys @ [y]) \<subseteq> set xs \<Longrightarrow> P ys \<Longrightarrow> P (ys @ [y])"
  shows "P xs"
proof -
  have "zs \<noteq> [] \<Longrightarrow> set zs \<subseteq> set xs \<Longrightarrow> P zs" for zs
  proof (induction zs rule: rev_induct)
    case (snoc y ys)
    then show ?case using assms(2) [of y] assms(3) [of ys y] by (cases "ys = []") auto
  qed simp
  then show ?thesis using assms(1) by blast
qed

lemma op_chain_simps [simp]:
  "op_chain p [x] = x" "ys \<noteq> [] \<Longrightarrow> op_chain p (ys @ [y]) = binary p (op_chain p ys) y"
  by (cases ys; simp add: op_chain_def)+

text \<open>A tree that is written without parentheses up to a minimum.\<close>

definition bare_until :: "nat \<Rightarrow> expr \<Rightarrow> bool" where
  "bare_until k x \<longleftrightarrow> (\<forall>m \<le> k. tokens_of m x = tokens_of 0 x)"

lemma chain_tokens:
  assumes "xs \<noteq> []" "map_of PRECEDENCE (js p) = Some k" "\<forall>x \<in> set xs. bare_until (Suc k) x"
  shows "m \<le> k \<Longrightarrow> tokens_of m (op_chain p xs) = tokens_of 0 (hd xs) @ concat (map (\<lambda>x. symbol (js p) # tokens_of 0 x) (tl xs))"
  using assms(1)
proof (induction xs arbitrary: m rule: op_chain_induct)
  case (single x)
  then have "tokens_of m x = tokens_of 0 x" using assms(3) le_SucI unfolding bare_until_def by blast
  then show ?case by simp
next
  case (snoc ys y)
  have "precedence (js p) = k" using assms(2) by (simp add: precedence_def)
  moreover have "y \<in> set xs" using snoc(2) by simp
  then have "tokens_of (Suc k) y = tokens_of 0 y" using assms(3) unfolding bare_until_def by blast
  ultimately show ?case using snoc by (simp add: grouped_def)
qed

lemma chain_writable:
  assumes "xs \<noteq> []" "map_of PRECEDENCE (js p) \<noteq> None" "\<forall>x \<in> set xs. writable x"
  shows "writable (op_chain p xs)"
  using assms(1) by (induction xs rule: op_chain_induct) (use assms(2,3) in auto)

lemma chain_flatten:
  assumes "xs \<noteq> []" "\<forall>x \<in> set xs. flattenBinary (js p) x = [x]"
  shows "flattenBinary (js p) (op_chain p xs) = xs"
  using assms(1) by (induction xs rule: op_chain_induct) (use assms(2) in auto)

lemma chain_typed:
  assumes "xs \<noteq> []" "\<forall>x \<in> set xs. typed x t" "binary_type (js p) t t = Some t"
  shows "typed (op_chain p xs) t"
  using assms(1) by (induction xs rule: op_chain_induct) (use assms(2,3) in auto)

lemma chain_calls:
  assumes "xs \<noteq> []"
  shows "calls_of (op_chain p xs) = (\<Union>x \<in> set xs. calls_of x)"
  using assms by (induction xs rule: op_chain_induct) auto

lemma precedences [simp]:
  "precedence (js ''*'') = 6" "precedence (js ''/'') = 6" "precedence (js ''+'') = 5" "precedence (js ''=='') = 3" "precedence (js ''&&'') = 2"
  "map_of PRECEDENCE (js ''*'') = Some 6" "map_of PRECEDENCE (js ''/'') = Some 6" "map_of PRECEDENCE (js ''+'') = Some 5"
  "map_of PRECEDENCE (js ''=='') = Some 3" "map_of PRECEDENCE (js ''&&'') = Some 2"
  by (simp_all add: precedence_def PRECEDENCE_def)

lemma precedence_units [simp]:
  "precedence [42] = 6" "precedence [47] = 6" "precedence [43] = 5" "precedence [61, 61] = 3" "precedence [38, 38] = 2"
  by (simp_all add: precedence_def PRECEDENCE_def js_eval)

lemma literal_bare: "bare_until k (Literal l i s u)"
  by (simp add: bare_until_def)

text \<open>Small whole numbers have short texts.\<close>

lemma small_number: "1 \<le> i \<Longrightarrow> i < 10 \<Longrightarrow> printable (Fin (of_int i)) \<and> length (num_text (Fin (of_int i))) \<le> 21"
proof -
  assume i: "1 \<le> i" "i < 10"
  have d: "to_double (of_int i) = Fin (of_int i)" using i by (intro to_double_of_int) simp
  have "of_int i < (10 :: rat) ^ 1" using i by (metis of_int_less_iff of_int_numeral power_one_right)
  then have p: "point (of_int i :: rat) \<le> 20" using point_le [of "of_int i" 1] i by simp
  have one: "(1 :: rat) \<le> of_int i" using i by simp
  have "is_safe_integer (Fin (of_int i))" using i by (simp add: is_safe_integer_def is_integer_def)
  then have "printable (Fin (of_int i))" using d one by (auto simp: printable_def plain_double_def)
  moreover have "length (num_text (Fin (of_int i))) \<le> 21"
    using whole_shortest [OF d refl one p] one by (auto simp: positive_text_def Let_def case_prod_beta)
  ultimately show ?thesis by blast
qed

section \<open>Readers of tables\<close>

lemma flattenBinary_erase: "flattenBinary p (erase e) = map erase (flattenBinary p e)"
  by (induction p e rule: flattenBinary.induct) auto

lemma price_literal_erase [simp]: "nonnegativePriceLiteral (erase e) = nonnegativePriceLiteral e"
proof (cases e)
  case (Unary p x s t)
  then show ?thesis by (cases x) (auto simp: nonnegativePriceLiteral_def)
qed (auto simp: nonnegativePriceLiteral_def)

lemma usage_name_erase [simp]: "usage_name (erase e) = usage_name e"
proof (cases e)
  case (Call n as s t)
  then show ?thesis
  proof (cases as)
    case (Cons a bs)
    then show ?thesis using Call by (cases a) (auto simp: usage_name_def)
  qed (simp add: usage_name_def)
qed (auto simp: usage_name_def)

lemma task_condition_erase [simp]: "task_condition schema b (erase e) = task_condition schema b e"
proof (cases e)
  case (Binary p x y s t)
  then show ?thesis by (cases y) (simp_all add: task_condition_def)
qed (simp_all add: task_condition_def)

lemma read_task_conditions_erase [simp]: "read_task_conditions (erase e) schema b = read_task_conditions e schema b"
  by (simp add: read_task_conditions_def flattenBinary_erase o_def)

lemma million_erase: "(case erase e of Literal (LNum v) _ _ _ \<Rightarrow> eq_num v (Fin 1000000) | _ \<Rightarrow> False) =
    (case e of Literal (LNum v) _ _ _ \<Rightarrow> eq_num v (Fin 1000000) | _ \<Rightarrow> False)"
  by (cases e) simp_all

lemma task_core_erase:
  "(case erase e of Binary p l r _ _ \<Rightarrow> if p \<noteq> q then None else F (usage_name l) (nonnegativePriceLiteral r) | _ \<Rightarrow> None) =
   (case e of Binary p l r _ _ \<Rightarrow> if p \<noteq> q then None else F (usage_name l) (nonnegativePriceLiteral r) | _ \<Rightarrow> None)"
  by (cases e) simp_all

lemma task_unit_term_erase [simp]: "task_unit_term schema (erase e) = task_unit_term schema e"
proof (cases e)
  case (Binary p x y s t)
  show ?thesis
    unfolding task_unit_term_def Binary erase.simps expr.case million_erase
    using task_core_erase [where e = x and q = "js ''*''"] by (auto simp: Let_def)
qed (simp_all add: task_unit_term_def)

lemma collect_task_prices_erase: "collect_task_prices schema (map erase ts) k acc = collect_task_prices schema ts k acc"
  by (induction schema ts k acc rule: collect_task_prices.induct) (auto split: option.splits)

lemma taskTier_erase [simp]: "taskTier (erase e) conds schema = taskTier e conds schema"
proof (cases e)
  case (Call n as s t)
  show ?thesis
  proof (cases as)
    case (Cons a bs)
    show ?thesis
    proof (cases a)
      case (Literal l i u v)
      then show ?thesis using Call Cons
        by (cases l; cases bs) (simp_all add: taskTier_def flattenBinary_erase collect_task_prices_erase)
    qed (simp_all add: Call Cons taskTier_def)
  qed (simp add: Call taskTier_def)
qed (simp_all add: taskTier_def)

lemma readTaskTierChain_erase [simp]: "readTaskTierChain schema b (erase e) = readTaskTierChain schema b e"
proof (induction e)
  case (Conditional c x y s t)
  then show ?case by (simp cong: option.case_cong)
next
  case (Call n as s t)
  show ?case using taskTier_erase [of "Call n as s t" "[]" schema] by simp
qed (simp_all add: taskTier_def)

end
