(* ===== verification/Pricing_Structure.thy ===== *)
theory Pricing_Structure
  imports Js_Base
begin

text \<open>
  Structural helpers on the source of expressions
  (\<open>features/pricing/lib/billing-expression/structure.ts\<close>): splitting at an operator outside of
  brackets and strings, and removal of outer parentheses.  They work on any text, also on one
  outside the grammar, and lose nothing of it but white space.
\<close>

section \<open>Splitting\<close>

definition is_quote :: "code_unit \<Rightarrow> bool" where
  "is_quote c \<longleftrightarrow> c = 34 \<or> c = 39"

text \<open>The depth after a character outside of strings.\<close>

definition bracket_depth :: "int \<Rightarrow> code_unit \<Rightarrow> int" where
  "bracket_depth d c =
     (if c \<in> {40, 91, 123} then d + 1 else if c \<in> {41, 93, 125} then d - 1 else d)"

text \<open>The loop of \<open>splitExpressionAtTopLevel\<close>: the depth, the open quote, the characters since the
  last operator and the parts before it.  \<open>None\<close> is the early return at a question mark.  The
  callers pass operators that are not empty.\<close>

function split_scan ::
  "jsstr \<Rightarrow> int \<Rightarrow> code_unit option \<Rightarrow> jsstr \<Rightarrow> jsstr list \<Rightarrow> jsstr \<Rightarrow> jsstr list option" where
  "split_scan operator depth quote cur parts [] = Some (parts @ [cur])"
| "split_scan operator depth quote cur parts (c # s) =
     (case quote of
        Some q \<Rightarrow>
          if c = 92 then split_scan operator depth quote (cur @ c # take 1 s) parts (drop 1 s)
          else split_scan operator depth (if c = q then None else quote) (cur @ [c]) parts s
      | None \<Rightarrow>
          if is_quote c then split_scan operator depth (Some c) (cur @ [c]) parts s
          else
            (let d = bracket_depth depth c in
             if d \<noteq> 0 then split_scan operator d None (cur @ [c]) parts s
             else if c = 63 then None
             else if starts_with (c # s) operator
             then split_scan operator d None [] (parts @ [cur]) (drop (length operator - 1) s)
             else split_scan operator d None (cur @ [c]) parts s))"
  by pat_completeness auto
termination
  by (relation "measure (\<lambda>(p, d, q, cur, parts, s). length s)") auto

definition splitExpressionAtTopLevel :: "jsstr \<Rightarrow> jsstr \<Rightarrow> jsstr list" where
  "splitExpressionAtTopLevel source operator =
     (case split_scan operator 0 None [] [] source of
        None \<Rightarrow> [trim source]
      | Some parts \<Rightarrow> filter (\<lambda>p. p \<noteq> []) (map trim parts))"

section \<open>Outer parentheses\<close>

text \<open>Whether the first return to depth zero is at the last character.\<close>

function closes_at_end :: "int \<Rightarrow> code_unit option \<Rightarrow> jsstr \<Rightarrow> bool" where
  "closes_at_end depth quote [] = False"
| "closes_at_end depth quote (c # s) =
     (case quote of
        Some q \<Rightarrow>
          if c = 92 then closes_at_end depth quote (drop 1 s)
          else closes_at_end depth (if c = q then None else quote) s
      | None \<Rightarrow>
          if is_quote c then closes_at_end depth (Some c) s
          else
            (let d = (if c = 40 then depth + 1 else if c = 41 then depth - 1 else depth)
             in if d = 0 then s = [] else closes_at_end d None s))"
  by pat_completeness auto
termination
  by (relation "measure (\<lambda>(d, q, s). length s)") auto

lemma length_trim_le: "length (trim s) \<le> length s"
  by (metis (no_types, lifting) trim_def length_rev length_dropWhile_le order_trans)

function unwrap_loop :: "jsstr \<Rightarrow> jsstr" where
  "unwrap_loop e =
     (if starts_with e [40] \<and> ends_with e [41] \<and> closes_at_end 0 None e
      then unwrap_loop (trim (slice e 1 (length e - 1))) else e)"
  by pat_completeness auto
termination
proof (relation "measure length", goal_cases)
  case (2 e)
  then have "e \<noteq> []" by auto
  then have "length (slice e 1 (length e - 1)) < length e" by (cases e) auto
  then show ?case using length_trim_le [of "slice e 1 (length e - 1)"] by simp
qed simp

declare unwrap_loop.simps [simp del]

definition unwrapExpressionParens :: "jsstr \<Rightarrow> jsstr" where
  "unwrapExpressionParens source = unwrap_loop (trim source)"

section \<open>Nothing is lost\<close>

lemma join_snoc: "xs \<noteq> [] \<Longrightarrow> join p (xs @ [x]) = join p xs @ p @ x"
  by (induction p xs rule: join.induct) auto

lemma join_last: "join p (xs @ [x @ y]) = join p (xs @ [x]) @ y"
  by (cases "xs = []") (simp_all add: join_snoc)

lemma operator_rest:
  assumes "starts_with (c # s) operator" "operator \<noteq> []"
  shows "c # s = operator @ drop (length operator - 1) s"
proof -
  obtain a w where w: "operator = a # w" using assms(2) by (cases operator) auto
  then have "c = a" "take (length w) s = w" using assms(1) by (auto simp: starts_with_def)
  then show ?thesis using w by (metis append_Cons append_take_drop_id diff_Suc_1 length_Cons)
qed

lemma split_scan_joins:
  assumes "operator \<noteq> []"
  shows "split_scan operator depth quote cur parts s = Some raw \<Longrightarrow> join operator raw = join operator (parts @ [cur]) @ s"
proof (induction s arbitrary: depth quote cur parts rule: measure_induct_rule [of length])
  case (less s)
  show ?case
  proof (cases s)
    case (Cons c t)
    have next_char: "join operator raw = join operator (parts @ [cur]) @ s"
      if "split_scan operator d q (cur @ [c]) parts t = Some raw" for d q
      using less.IH [OF _ that] Cons by (simp add: join_last)
    show ?thesis
    proof (cases quote)
      case (Some q)
      show ?thesis
      proof (cases "c = 92 \<and> t \<noteq> []")
        case True
        then obtain e u where u: "t = e # u" by (cases t) auto
        have "split_scan operator depth quote (cur @ [c, e]) parts u = Some raw"
          using less.prems Cons Some True u by simp
        then show ?thesis using less.IH [of u] Cons u by (simp add: join_last)
      next
        case False
        then show ?thesis using less.prems Cons Some next_char by (cases "c = 92") auto
      qed
    next
      case None
      show ?thesis
      proof (cases "\<not> is_quote c \<and> bracket_depth depth c = 0 \<and> starts_with (c # t) operator")
        case True
        then have r: "split_scan operator 0 None [] (parts @ [cur]) (drop (length operator - 1) t) = Some raw"
          using less.prems Cons None by (auto simp: Let_def split: if_splits)
        have "length (drop (length operator - 1) t) < length s" using Cons by simp
        from less.IH [OF this r] show ?thesis
          using operator_rest [of c t operator] True assms Cons join_snoc [of "parts @ [cur]" operator "[]"] by simp
      next
        case False
        then show ?thesis using less.prems Cons None next_char by (auto simp: Let_def split: if_splits)
      qed
    qed
  qed (use less.prems in simp)
qed

lemma split_scan_stops: "split_scan operator depth quote cur parts s = None \<Longrightarrow> 63 \<in> set s"
proof (induction s arbitrary: depth quote cur parts rule: measure_induct_rule [of length])
  case (less s)
  have "63 \<in> set t" if "split_scan operator d q e ps (drop n t) = None" "length t < length s" for d q e ps n t
    using less.IH [OF _ that(1)] that(2) in_set_dropD [of 63 n t] by auto
  from this [of _ _ _ _ 0] this [of _ _ _ _ 1] this show ?case
    using less.prems by (cases s) (auto simp: Let_def split: if_splits option.splits)
qed

text \<open>The parts are the pieces between the operators without the white space around them.\<close>

lemma split_lossless:
  assumes "operator \<noteq> []"
  shows "\<exists>raw. join operator raw = source \<and>
    splitExpressionAtTopLevel source operator = filter (\<lambda>p. p \<noteq> []) (map trim raw)"
proof (cases "split_scan operator 0 None [] [] source")
  case None
  have "63 \<in> set source" using split_scan_stops [OF None] .
  moreover have "\<not> is_space 63" by (simp add: is_space_def)
  ultimately have "trim source \<noteq> []" by (auto simp: trim_eq_Nil_iff)
  then show ?thesis using None by (intro exI [of _ "[source]"]) (simp add: splitExpressionAtTopLevel_def)
next
  case (Some raw)
  then show ?thesis using split_scan_joins [OF assms Some]
    by (intro exI [of _ raw]) (simp add: splitExpressionAtTopLevel_def)
qed

section \<open>Texts without a top-level operator\<close>

text \<open>The state of the scan after a text that has neither a question mark nor the character
  \<open>h\<close> outside of brackets and strings.\<close>

fun walk :: "code_unit \<Rightarrow> int \<times> code_unit option \<Rightarrow> jsstr \<Rightarrow> (int \<times> code_unit option) option" where
  "walk h st [] = Some st"
| "walk h (d, Some q) (c # s) =
     (if c = 92 then (case s of [] \<Rightarrow> None | e # t \<Rightarrow> walk h (d, Some q) t)
      else walk h (d, if c = q then None else Some q) s)"
| "walk h (d, None) (c # s) =
     (if is_quote c then walk h (d, Some c) s
      else
        let e = bracket_depth d c
        in if e = 0 \<and> (c = 63 \<or> c = h) then None else walk h (e, None) s)"

lemma split_scan_walk:
  "walk h (d, q) w = Some (d', q') \<Longrightarrow>
   split_scan (h # operator) d q cur parts (w @ s) = split_scan (h # operator) d' q' (cur @ w) parts s"
proof (induction w arbitrary: d q cur rule: measure_induct_rule [of length])
  case (less w)
  show ?case
  proof (cases w)
    case (Cons c t)
    have ih: "split_scan (h # operator) d1 q1 cur1 parts (t @ s) = split_scan (h # operator) d' q' (cur1 @ t) parts s"
      if "walk h (d1, q1) t = Some (d', q')" for d1 q1 cur1
      using less.IH [OF _ that] Cons by simp
    show ?thesis
    proof (cases q)
      case None
      then show ?thesis using less.prems Cons ih
        by (auto simp: Let_def starts_with_def split: if_splits)
    next
      case (Some p)
      show ?thesis
      proof (cases "c = 92")
        case True
        then obtain e u where u: "t = e # u" "walk h (d, Some p) u = Some (d', q')"
          using less.prems Cons Some by (cases t) auto
        then show ?thesis using less.IH [OF _ u(2)] Cons Some True by simp
      next
        case False
        then show ?thesis using less.prems Cons Some ih by auto
      qed
    qed
  qed (use less.prems in simp)
qed

lemma walk_append: "walk h st u = Some st' \<Longrightarrow> walk h st (u @ v) = walk h st' v"
proof (induction u arbitrary: st rule: measure_induct_rule [of length])
  case (less u)
  show ?case
  proof (cases u)
    case (Cons c t)
    have ih: "walk h st1 (t @ v) = walk h st' v" if "walk h st1 t = Some st'" for st1
      using less.IH [OF _ that] Cons by simp
    obtain d q where st: "st = (d, q)" by fastforce
    show ?thesis
    proof (cases "q \<noteq> None \<and> c = 92")
      case True
      then obtain e r p where r: "q = Some p" "t = e # r" "walk h (d, Some p) r = Some st'"
        using less.prems Cons st by (cases t) auto
      then show ?thesis using less.IH [OF _ r(3)] Cons st True by simp
    next
      case False
      then show ?thesis using less.prems Cons st ih by (cases q) (auto simp: Let_def split: if_splits)
    qed
  qed (use less.prems in simp)
qed

lemma walk_quoted: "q \<notin> set u \<Longrightarrow> 92 \<notin> set u \<Longrightarrow> walk h (d, Some q) u = Some (d, Some q)"
  by (induction u) auto

text \<open>A text without quotes, brackets, question marks and \<open>h\<close> leaves the state as it is.\<close>

definition quiet :: "code_unit \<Rightarrow> code_unit \<Rightarrow> bool" where
  "quiet h c \<longleftrightarrow> \<not> is_quote c \<and> c \<notin> {40, 91, 123, 41, 93, 125, 63, h}"

lemma walk_quiet: "\<forall>c \<in> set u. quiet h c \<Longrightarrow> walk h (d, None) u = Some (d, None)"
  by (induction u) (auto simp: quiet_def bracket_depth_def Let_def)

text \<open>Splitting a list of such texts that are joined with the operator between spaces.\<close>

lemma trim_spaces:
  assumes "\<forall>c \<in> set u. is_space c" "\<forall>c \<in> set v. is_space c"
  shows "trim (u @ w @ v) = trim w"
proof (cases "\<forall>c \<in> set w. is_space c")
  case True
  then show ?thesis using assms by (metis Un_iff set_append trim_eq_Nil_iff)
next
  case False
  have "dropWhile is_space (u @ w @ v) = dropWhile is_space w @ v"
    using assms(1) False by (auto simp: dropWhile_append)
  moreover have "\<not> (\<forall>c \<in> set (dropWhile is_space w). is_space c)" using False by (simp add: all_dropWhile)
  ultimately show ?thesis using assms(2) by (simp add: trim_def dropWhile_append)
qed

definition calm :: "code_unit \<Rightarrow> jsstr \<Rightarrow> bool" where
  "calm h w \<longleftrightarrow> walk h (0, None) w = Some (0, None) \<and> trim w = w"

definition plain_operator :: "code_unit \<Rightarrow> bool" where
  "plain_operator h \<longleftrightarrow> h \<notin> {32, 40, 91, 123, 41, 93, 125, 63, 34, 39}"

lemma split_scan_spaced:
  assumes "plain_operator h"
  shows "\<forall>w \<in> set ws. calm h w \<Longrightarrow> ws \<noteq> [] \<Longrightarrow> \<forall>c \<in> set cur. is_space c \<Longrightarrow>
    \<exists>raw. split_scan (h # operator) 0 None cur parts (join (32 # h # operator @ [32]) ws) = Some (parts @ raw) \<and> map trim raw = ws"
proof (induction ws arbitrary: cur parts rule: induct_list012)
  case (2 w)
  have "split_scan (h # operator) 0 None cur parts (w @ []) = Some (parts @ [cur @ w])"
    using 2 by (subst split_scan_walk) (auto simp: calm_def)
  moreover have "trim (cur @ w) = w" using trim_spaces [of cur "[]" w] 2 by (simp add: calm_def)
  ultimately show ?case by (intro exI [of _ "[cur @ w]"]) simp
next
  case (3 w v ws)
  let ?rest = "join (32 # h # operator @ [32]) (v # ws)"
  have space: "is_space 32" by (simp add: is_space_def)
  have w: "walk h (0, None) (w @ [32]) = Some (0, None)" using 3 assms
    by (subst walk_append [of _ _ _ "(0, None)"]) (auto simp: calm_def plain_operator_def is_quote_def bracket_depth_def)
  have op: "split_scan (h # operator) 0 None e ps (h # operator @ r) = split_scan (h # operator) 0 None [] (ps @ [e]) r" for e ps r
    using assms by (simp add: plain_operator_def is_quote_def bracket_depth_def starts_with_def)
  have sp: "split_scan (h # operator) 0 None [] ps (32 # r) = split_scan (h # operator) 0 None [32] ps r" for ps r
    using assms by (simp add: plain_operator_def is_quote_def bracket_depth_def starts_with_def)
  obtain raw where raw: "split_scan (h # operator) 0 None [32] (parts @ [cur @ w @ [32]]) ?rest = Some ((parts @ [cur @ w @ [32]]) @ raw)"
    "map trim raw = v # ws"
    using "3.IH"(2) [of "[32]" "parts @ [cur @ w @ [32]]"] "3.prems" space by auto
  have "split_scan (h # operator) 0 None cur parts ((w @ [32]) @ h # operator @ 32 # ?rest) =
      Some (parts @ (cur @ w @ [32]) # raw)"
    using raw(1) by (subst split_scan_walk [OF w]) (simp add: op sp del: split_scan.simps)
  moreover have "trim (cur @ w @ [32]) = w" using trim_spaces [of cur "[32]" w] 3 by (simp add: calm_def is_space_def)
  ultimately show ?case using raw(2) by (intro exI [of _ "(cur @ w @ [32]) # raw"]) simp
qed simp

lemma split_spaced:
  assumes "plain_operator h" "\<forall>w \<in> set ws. calm h w \<and> w \<noteq> []" "ws \<noteq> []"
  shows "splitExpressionAtTopLevel (join (32 # h # operator @ [32]) ws) (h # operator) = ws"
proof -
  obtain raw where "split_scan (h # operator) 0 None [] [] (join (32 # h # operator @ [32]) ws) = Some raw" "map trim raw = ws"
    using split_scan_spaced [OF assms(1), of ws "[]" operator "[]"] assms by auto
  then show ?thesis using assms(2) by (simp add: splitExpressionAtTopLevel_def)
qed

end
