(* ===== verification/Js_Regexp.thy ===== *)
theory Js_Regexp
  imports Js_Base
begin

text \<open>
  Regular expressions of JavaScript, as far as the sources use them: character classes, greedy
  quantifiers, alternatives, numbered groups, back references and the end of the input.  A
  matcher returns the list of all ways to match at the start of the input in the order in which
  the backtracking of ECMAScript tries them; the first one is the result of the engine.  The
  last section rewrites the patterns of the sources into deterministic readers.
\<close>

section \<open>Patterns\<close>

datatype rexp =
    Cls "code_unit \<Rightarrow> bool"
  | Lit jsstr
  | Seq rexp rexp
  | Alt rexp rexp
  | Opt rexp
  | Star rexp
  | Cap nat rexp
  | Ref nat
  | At_end

text \<open>The input that is left and the captured groups, the latest first.\<close>

type_synonym rstep = "jsstr \<times> (nat \<times> jsstr) list"

definition consumes :: "rstep \<Rightarrow> rstep \<Rightarrow> bool" where
  "consumes st st' \<longleftrightarrow> length (fst st') < length (fst st)"

text \<open>Iterations of a quantifier; one that consumes nothing is not taken.  Every iteration
  shortens the input, so its length bounds their number.\<close>

fun star_runs :: "nat \<Rightarrow> (rstep \<Rightarrow> rstep list) \<Rightarrow> rstep \<Rightarrow> rstep list" where
  "star_runs 0 f st = [st]"
| "star_runs (Suc n) f st = concat (map (star_runs n f) (filter (consumes st) (f st))) @ [st]"

definition lit_runs :: "jsstr \<Rightarrow> rstep \<Rightarrow> rstep list" where
  "lit_runs w st = (if starts_with (fst st) w then [(drop (length w) (fst st), snd st)] else [])"

primrec runs :: "rexp \<Rightarrow> rstep \<Rightarrow> rstep list" where
  "runs (Cls p) st = (case fst st of [] \<Rightarrow> [] | c # s \<Rightarrow> if p c then [(s, snd st)] else [])"
| "runs (Lit w) st = lit_runs w st"
| "runs (Seq r q) st = concat (map (runs q) (runs r st))"
| "runs (Alt r q) st = runs r st @ runs q st"
| "runs (Opt r) st = filter (consumes st) (runs r st) @ [st]"
| "runs (Star r) st = star_runs (length (fst st)) (runs r) st"
| "runs (Cap n r) st =
     map (\<lambda>st'. (fst st', (n, take (length (fst st) - length (fst st')) (fst st)) # snd st')) (runs r st)"
| "runs (Ref n) st = (case map_of (snd st) n of None \<Rightarrow> [st] | Some w \<Rightarrow> lit_runs w st)"
| "runs At_end st = (if fst st = [] then [st] else [])"

definition Plus :: "rexp \<Rightarrow> rexp" where
  "Plus r = Seq r (Star r)"

fun Seqs :: "rexp list \<Rightarrow> rexp" where
  "Seqs [] = Lit []"
| "Seqs [r] = r"
| "Seqs (r # q # rs) = Seq r (Seqs (q # rs))"

fun Alts :: "rexp list \<Rightarrow> rexp" where
  "Alts [] = Cls (\<lambda>_. False)"
| "Alts [r] = r"
| "Alts (r # q # rs) = Alt r (Alts (q # rs))"

text \<open>\<open>s.match(/^...$/)\<close>: the groups of the first way to match the whole input.\<close>

definition match_all :: "rexp list \<Rightarrow> jsstr \<Rightarrow> (nat \<Rightarrow> jsstr) option" where
  "match_all rs s =
     (case runs (Seqs (rs @ [At_end])) (s, []) of
        [] \<Rightarrow> None
      | st # _ \<Rightarrow> Some (\<lambda>n. case map_of (snd st) n of None \<Rightarrow> [] | Some w \<Rightarrow> w))"

text \<open>\<open>/^...$/.test(s)\<close>\<close>

definition test_all :: "rexp list \<Rightarrow> jsstr \<Rightarrow> bool" where
  "test_all rs s \<longleftrightarrow> match_all rs s \<noteq> None"

text \<open>Character classes: \<open>\d\<close>, \<open>.\<close> and \<open>[\d.eE+-]\<close>.\<close>

definition not_newline :: "code_unit \<Rightarrow> bool" where
  "not_newline c \<longleftrightarrow> c \<noteq> 10 \<and> c \<noteq> 13 \<and> c \<noteq> 8232 \<and> c \<noteq> 8233"

definition number_unit :: "code_unit \<Rightarrow> bool" where
  "number_unit c \<longleftrightarrow> is_digit c \<or> c \<in> {46, 101, 69, 43, 45}"

section \<open>Reading deterministically\<close>

fun strip :: "jsstr \<Rightarrow> jsstr \<Rightarrow> jsstr option" where
  "strip [] s = Some s"
| "strip (a # w) [] = None"
| "strip (a # w) (b # s) = (if a = b then strip w s else None)"

lemma strip_append [simp]: "strip w (w @ s) = Some s"
  by (induction w) auto

lemma lit_runs_append [simp]: "lit_runs w (w @ s, cs) = [(s, cs)]"
  by (simp add: lit_runs_def starts_with_def)

lemma strip_starts: "strip w s = (if starts_with s w then Some (drop (length w) s) else None)"
  by (induction w s rule: strip.induct) (auto simp: starts_with_def)

lemma runs_lit: "runs (Lit w) (s, cs) = (case strip w s of None \<Rightarrow> [] | Some t \<Rightarrow> [(t, cs)])"
  by (simp add: lit_runs_def strip_starts)

lemma runs_seq_lit:
  "runs (Seq (Lit w) k) (s, cs) = (case strip w s of None \<Rightarrow> [] | Some t \<Rightarrow> runs k (t, cs))"
  by (simp add: lit_runs_def strip_starts)

lemma runs_seq_ref:
  "map_of cs n = Some w \<Longrightarrow>
   runs (Seq (Ref n) k) (s, cs) = (case strip w s of None \<Rightarrow> [] | Some t \<Rightarrow> runs k (t, cs))"
  by (simp add: lit_runs_def strip_starts)

lemma runs_seq_alt: "runs (Seq (Alt r q) k) st = runs (Seq r k) st @ runs (Seq q k) st"
  by simp

lemma runs_cap_alt: "runs (Cap n (Alt r q)) st = runs (Cap n r) st @ runs (Cap n q) st"
  by simp

lemma runs_seq_cap_alt:
  "runs (Seq (Cap n (Alt r q)) k) st = runs (Seq (Cap n r) k) st @ runs (Seq (Cap n q) k) st"
  by simp

lemma runs_seq_cap_lit:
  "runs (Seq (Cap n (Lit w)) k) (s, cs) = (case strip w s of None \<Rightarrow> [] | Some t \<Rightarrow> runs k (t, (n, w) # cs))"
proof (cases "starts_with s w")
  case True
  then obtain z where "s = w @ z" by (metis append_take_drop_id starts_with_def)
  then show ?thesis by simp
qed (simp add: lit_runs_def strip_starts)

text \<open>The ways of a greedy class: all prefixes of the longest run of its characters, the
  longest first.\<close>

lemma star_class: "runs (Star (Cls p)) (s, cs) = map (\<lambda>u. (drop (length u) s, cs)) (rev (prefixes (takeWhile p s)))"
proof -
  have "star_runs n (runs (Cls p)) (s, cs) = map (\<lambda>u. (drop (length u) s, cs)) (rev (prefixes (takeWhile p s)))"
    if "length s \<le> n" for n
    using that
  proof (induction s arbitrary: n)
    case Nil
    then show ?case by (cases n) auto
  next
    case (Cons c s)
    then obtain m where m: "n = Suc m" "length s \<le> m" by (cases n) auto
    show ?case using Cons.IH [OF m(2)] m(1) by (simp add: consumes_def rev_map o_def)
  qed
  then show ?thesis by simp
qed

lemma plus_cap:
  "runs (Cap n (Plus (Cls p))) (s, cs) =
     (case s of [] \<Rightarrow> []
      | c # t \<Rightarrow> if p c then map (\<lambda>u. (drop (length u) t, (n, c # u) # cs)) (rev (prefixes (takeWhile p t))) else [])"
proof -
  have "take (Suc (length t) - length (drop (length u) t)) (c # t) = c # u"
    if "u \<in> set (prefixes (takeWhile p t))" for u c and t :: jsstr
  proof -
    have "prefix u t" using that takeWhile_is_prefix prefix_order.trans by (metis in_set_prefixes)
    then obtain z where "t = u @ z" by (auto simp: prefix_def)
    then show ?thesis by simp
  qed
  then show ?thesis by (cases s) (simp_all add: Plus_def star_class del: runs.simps(6))
qed

text \<open>Where the pattern that follows cannot start with a character of the class, only the
  longest run can succeed.\<close>

definition fails :: "(code_unit \<Rightarrow> bool) \<Rightarrow> rexp \<Rightarrow> bool" where
  "fails p k \<longleftrightarrow> (\<forall>c t cs. p c \<longrightarrow> runs k (c # t, cs) = [])"

lemma fails_simps [simp]:
  "\<not> p q \<Longrightarrow> fails p (Lit (q # w))"
  "fails p At_end"
  "fails p r \<Longrightarrow> fails p (Seq r k)"
  "fails p r \<Longrightarrow> fails p k \<Longrightarrow> fails p (Alt r k)"
  by (auto simp: fails_def lit_runs_def starts_with_def)

lemma concat_longest:
  assumes "\<And>u. u \<in> set (prefixes w) \<Longrightarrow> u \<noteq> w \<Longrightarrow> f u = []"
  shows "concat (map f (rev (prefixes w))) = f w"
proof (cases w rule: rev_cases)
  case (snoc v x)
  have "f u = []" if "u \<in> set (prefixes v)" for u
    using that assms [of u] snoc by (auto simp: prefix_def)
  then have "concat (map f (rev (prefixes v))) = []" by auto
  then show ?thesis by (simp add: snoc)
qed simp

lemma runs_span:
  assumes "fails p k"
  shows "runs (Seq (Cap n (Plus (Cls p))) k) (s, cs) =
    (if takeWhile p s = [] then [] else runs k (dropWhile p s, (n, takeWhile p s) # cs))"
proof (cases s)
  case (Cons c t)
  have f: "runs k (drop (length u) t, (n, c # u) # cs) = []"
    if u: "u \<in> set (prefixes (takeWhile p t))" "u \<noteq> takeWhile p t" for u
  proof -
    obtain z where z: "takeWhile p t = u @ z" "z \<noteq> []" using u by (auto simp: prefix_def)
    then obtain d z' where d: "z = d # z'" by (cases z) auto
    have "p d" using z d by (metis in_set_conv_decomp set_takeWhileD)
    moreover have "drop (length u) t = d # (z' @ dropWhile p t)"
      using z d by (metis append_Cons append_assoc append_eq_conv_conj takeWhile_dropWhile_id)
    ultimately show ?thesis using assms by (simp add: fails_def)
  qed
  have "drop (length (takeWhile p t)) t = dropWhile p t" by (simp add: dropWhile_eq_drop)
  then show ?thesis
    using concat_longest [of "takeWhile p t" "\<lambda>u. runs k (drop (length u) t, (n, c # u) # cs)"] f Cons
    by (simp add: plus_cap o_def del: runs.simps(6,7))
qed (simp add: Plus_def)

text \<open>Where only one prefix lets the rest match, it is the one that is taken.\<close>

lemma concat_only:
  assumes "x \<in> set xs" "distinct xs" "\<And>y. y \<in> set xs \<Longrightarrow> y \<noteq> x \<Longrightarrow> f y = []"
  shows "concat (map f xs) = f x"
  using assms
proof (induction xs)
  case (Cons a xs)
  show ?case
  proof (cases "a = x")
    case True
    then have "concat (map f xs) = []" using Cons.prems by auto
    then show ?thesis using True by simp
  next
    case False
    then show ?thesis using Cons by auto
  qed
qed simp

lemma runs_only:
  assumes s: "s = u @ v" "u \<noteq> []" "\<forall>x \<in> set u. p x"
    and only: "\<And>w z. s = w @ z \<Longrightarrow> w \<noteq> u \<Longrightarrow> runs k (z, (n, w) # cs) = []"
  shows "runs (Seq (Cap n (Plus (Cls p))) k) (s, cs) = runs k (v, (n, u) # cs)"
proof -
  obtain c t where ct: "u = c # t" using s(2) by (cases u) auto
  let ?r = "t @ v"
  let ?f = "\<lambda>w. runs k (drop (length w) ?r, (n, c # w) # cs)"
  have "?f w = []" if "w \<in> set (rev (prefixes (takeWhile p ?r)))" "w \<noteq> t" for w
  proof -
    have "prefix w (takeWhile p ?r)" using that by simp
    then have "prefix w ?r" using takeWhile_is_prefix prefix_order.trans by metis
    then obtain z where "?r = w @ z" by (auto simp: prefix_def)
    then show ?thesis using only [of "c # w" z] that s ct by simp
  qed
  moreover have "t \<in> set (rev (prefixes (takeWhile p ?r)))" using s ct by simp
  moreover have "distinct (rev (prefixes (takeWhile p ?r)))" by (simp add: distinct_prefixes)
  ultimately have "concat (map ?f (rev (prefixes (takeWhile p ?r)))) = ?f t" by (intro concat_only)
  then show ?thesis using s ct by (simp add: plus_cap o_def del: runs.simps(6,7))
qed

text \<open>Every way consumes a text of characters that occur in the pattern.\<close>

primrec allowed :: "rexp \<Rightarrow> code_unit \<Rightarrow> bool" where
  "allowed (Cls p) c = p c"
| "allowed (Lit w) c = (c \<in> set w)"
| "allowed (Seq r q) c = (allowed r c \<or> allowed q c)"
| "allowed (Alt r q) c = (allowed r c \<or> allowed q c)"
| "allowed (Opt r) c = allowed r c"
| "allowed (Star r) c = allowed r c"
| "allowed (Cap n r) c = allowed r c"
| "allowed (Ref n) c = True"
| "allowed At_end c = False"

definition consumed :: "(code_unit \<Rightarrow> bool) \<Rightarrow> rstep \<Rightarrow> rstep \<Rightarrow> bool" where
  "consumed p st st' \<longleftrightarrow> (\<exists>w. fst st = w @ fst st' \<and> (\<forall>c \<in> set w. p c))"

lemma consumed_refl [simp]: "consumed p st st"
  by (simp add: consumed_def)

lemma consumed_trans:
  assumes "consumed p st st'" "consumed q st' st''"
  shows "consumed (\<lambda>c. p c \<or> q c) st st''"
proof -
  obtain w v where "fst st = w @ fst st'" "\<forall>c \<in> set w. p c" "fst st' = v @ fst st''" "\<forall>c \<in> set v. q c"
    using assms by (auto simp: consumed_def)
  then show ?thesis unfolding consumed_def by (intro exI [of _ "w @ v"]) auto
qed

lemma consumed_mono: "consumed p st st' \<Longrightarrow> (\<And>c. p c \<Longrightarrow> q c) \<Longrightarrow> consumed q st st'"
  unfolding consumed_def by blast

lemma lit_consumed:
  assumes "st' \<in> set (lit_runs w st)"
  shows "consumed (\<lambda>c. c \<in> set w) st st'"
proof -
  have "fst st' = drop (length w) (fst st)" "take (length w) (fst st) = w"
    using assms by (auto simp: lit_runs_def starts_with_def split: if_splits)
  then have "fst st = w @ fst st'" by (metis append_take_drop_id)
  then show ?thesis unfolding consumed_def by blast
qed

lemma star_consumed:
  assumes "\<And>st st'. st' \<in> set (f st) \<Longrightarrow> consumed p st st'"
  shows "st' \<in> set (star_runs n f st) \<Longrightarrow> consumed p st st'"
proof (induction n arbitrary: st st')
  case (Suc n)
  then have "st' = st \<or> (\<exists>s \<in> set (f st). st' \<in> set (star_runs n f s))" by auto
  then show ?case
  proof
    assume "\<exists>s \<in> set (f st). st' \<in> set (star_runs n f s)"
    then obtain s where "s \<in> set (f st)" "st' \<in> set (star_runs n f s)" by blast
    with assms Suc.IH have "consumed p st s" "consumed p s st'" by blast+
    then show ?thesis using consumed_trans by fastforce
  qed simp
qed simp

lemma runs_consumed: "st' \<in> set (runs r st) \<Longrightarrow> consumed (allowed r) st st'"
proof (induction r arbitrary: st st')
  case (Cls p)
  then show ?case by (cases "fst st") (auto simp: consumed_def split: if_splits)
next
  case (Lit w)
  then show ?case using lit_consumed [of st' w st] by (auto elim: consumed_mono)
next
  case (Seq r q)
  then obtain s where "s \<in> set (runs r st)" "st' \<in> set (runs q s)" by auto
  with Seq.IH have "consumed (allowed r) st s" "consumed (allowed q) s st'" by blast+
  from consumed_mono [OF consumed_trans [OF this]] show ?case by simp
next
  case (Alt r q)
  have "st' \<in> set (runs r st) \<or> st' \<in> set (runs q st)" using Alt.prems by simp
  then have "consumed (allowed r) st st' \<or> consumed (allowed q) st st'" using Alt.IH by blast
  then show ?case by (elim disjE) (erule consumed_mono, simp)+
next
  case (Opt r)
  have "st' = st \<or> st' \<in> set (runs r st)" using Opt.prems by auto
  then have "consumed (allowed r) st st'" using Opt.IH consumed_refl by blast
  then show ?case by (rule consumed_mono) simp
next
  case (Star r)
  have "consumed (allowed r) st st'" using star_consumed [OF Star.IH] Star.prems by simp
  then show ?case by (rule consumed_mono) simp
next
  case (Cap n r)
  then obtain s where "s \<in> set (runs r st)" "fst st' = fst s" by auto
  then show ?case using Cap.IH [of s st] by (auto simp: consumed_def)
next
  case (Ref n)
  then have "st' = st \<or> (\<exists>w. st' \<in> set (lit_runs w st))" by (auto split: option.splits)
  then show ?case using consumed_mono [OF lit_consumed] by fastforce
next
  case At_end
  then show ?case by (auto split: if_splits)
qed

lemma test_all_units:
  assumes "test_all rs s"
  shows "\<forall>c \<in> set s. allowed (Seqs (rs @ [At_end])) c"
proof -
  have ends: "fst st' = []" if "st' \<in> set (runs (Seqs (rs @ [At_end])) st)" for st st'
    using that by (induction rs arbitrary: st rule: Seqs.induct) (auto split: if_splits)
  obtain st where st: "st \<in> set (runs (Seqs (rs @ [At_end])) (s, []))"
    using assms by (cases "runs (Seqs (rs @ [At_end])) (s, [])") (auto simp: test_all_def match_all_def)
  show ?thesis using runs_consumed [OF st] ends [OF st] by (auto simp: consumed_def)
qed

text \<open>From here on patterns are read by the equations above.\<close>

lemma runs_end: "runs At_end (s, cs) = (if s = [] then [(s, cs)] else [])"
  by simp

declare runs.simps [simp del]

lemmas regex_simps = runs_lit runs_seq_lit runs_seq_ref runs_seq_alt runs_seq_cap_alt runs_seq_cap_lit runs_span runs_end

end
