(* ===== verification/Json_Text.thy ===== *)
theory Json_Text
  imports Billing_Lexer Js_Format
begin

text \<open>
  \<open>JSON.parse\<close> on texts and \<open>String(value)\<close> on its results.  The reader keeps the open arrays and
  objects on a stack and consumes a character with every step, so it ends on every text.
\<close>

section \<open>Strings and numbers\<close>

text \<open>The characters after the opening quote: the value and the text after the closing quote.\<close>

definition json_escape :: "code_unit \<Rightarrow> code_unit option" where
  "json_escape c =
     (if c = 34 \<or> c = 92 \<or> c = 47 then Some c
      else if c = 98 then Some 8 else if c = 102 then Some 12 else if c = 110 then Some 10
      else if c = 114 then Some 13 else if c = 116 then Some 9 else None)"

function json_chars :: "jsstr \<Rightarrow> jsstr \<Rightarrow> (jsstr \<times> jsstr) option" where
  "json_chars acc [] = None"
| "json_chars acc (c # s) =
     (if c = 34 then Some (acc, s)
      else if c < 32 then None
      else if c \<noteq> 92 then json_chars (acc @ [c]) s
      else case s of
             [] \<Rightarrow> None
           | d # t \<Rightarrow>
               if d = 117 then
                 (if length (take 4 t) \<noteq> 4 \<or> \<not> list_all is_hex (take 4 t) then None
                  else json_chars (acc @ [hex_val 0 (take 4 t)]) (drop 4 t))
               else (case json_escape d of None \<Rightarrow> None | Some v \<Rightarrow> json_chars (acc @ [v]) t))"
  by pat_completeness auto
termination
  by (relation "measure (\<lambda>(acc, s). length s)") auto

lemma json_chars_shorter: "json_chars acc s = Some (v, r) \<Longrightarrow> length r < length s"
proof (induction acc s rule: json_chars.induct)
  case (2 acc c s)
  show ?case
  proof (cases "c \<noteq> 34 \<and> \<not> c < 32 \<and> c = 92")
    case True
    show ?thesis
    proof (cases s)
      case (Cons d t)
      then show ?thesis using 2 True by (cases "d = 117"; cases "json_escape d") (auto split: if_splits intro: less_SucI)
    qed (use 2 True in auto)
  next
    case False
    then show ?thesis using 2 by (auto split: if_splits)
  qed
qed simp

text \<open>The longest number at the start of the text.\<close>

definition json_fraction :: "jsstr \<Rightarrow> jsstr" where
  "json_fraction s = (case s of c # t \<Rightarrow> if c = 46 then takeWhile is_digit t else [] | [] \<Rightarrow> [])"

definition json_exponent :: "jsstr \<Rightarrow> (int \<times> nat)" where
  "json_exponent s =
     (case s of
        c # t \<Rightarrow>
          if c = 101 \<or> c = 69 then
            (let signed = (case t of d # _ \<Rightarrow> d = 43 \<or> d = 45 | [] \<Rightarrow> False);
                 ds = takeWhile is_digit (if signed then tl t else t)
             in if ds = [] then (0, 0)
                else ((if signed \<and> hd t = 45 then - 1 else 1) * int (digits_val 0 ds),
                      1 + (if signed then 1 else 0) + length ds))
          else (0, 0)
      | [] \<Rightarrow> (0, 0))"

definition json_number :: "jsstr \<Rightarrow> (jsnum \<times> jsstr) option" where
  "json_number s =
     (let neg = (case s of c # _ \<Rightarrow> c = 45 | [] \<Rightarrow> False);
          u = (if neg then tl s else s);
          ip = (if u \<noteq> [] \<and> hd u = 48 then [48] else takeWhile is_digit u);
          fp = json_fraction (drop (length ip) u);
          rest = drop (if fp = [] then 0 else Suc (length fp)) (drop (length ip) u);
          (e, n) = json_exponent rest;
          v = decimal_num ip fp e
      in if ip = [] then None
         else Some (if neg then uminus_num v else v, drop n rest))"

lemma json_number_shorter: "json_number s = Some (v, r) \<Longrightarrow> length r < length s"
proof -
  assume a: "json_number s = Some (v, r)"
  define neg where "neg = (case s of c # _ \<Rightarrow> c = 45 | [] \<Rightarrow> False)"
  define u where "u = (if neg then tl s else s)"
  define ip where "ip = (if u \<noteq> [] \<and> hd u = 48 then [48] else takeWhile is_digit u)"
  have ip: "ip \<noteq> []" using a by (auto simp: json_number_def Let_def ip_def u_def neg_def split: if_splits prod.splits)
  have u: "length u \<le> length s" by (simp add: u_def)
  have "u \<noteq> []" using ip by (cases u) (auto simp: ip_def)
  moreover have "length r \<le> length (drop (length ip) u)"
    using a ip by (auto simp: json_number_def Let_def ip_def u_def neg_def split: prod.splits)
  moreover have "0 < length u" "0 < length ip" using calculation(1) ip by auto
  ultimately show ?thesis using u by (simp del: length_greater_0_conv)
qed

section \<open>Values\<close>

datatype json_frame = In_array "jsval list" | In_object "(jsstr \<times> jsval) list" jsstr

datatype json_mode = Want_value | Want_first | Want_key "(jsstr \<times> jsval) list" bool | Have jsval

definition json_space :: "code_unit \<Rightarrow> bool" where
  "json_space c \<longleftrightarrow> c \<in> {9, 10, 13, 32}"

text \<open>A step of the reader consumes one token; \<open>Want_key fs first\<close> is inside an object before a
  key, where a closing brace may come only first.\<close>

definition json_word :: "jsstr \<Rightarrow> (jsval \<times> jsstr) option" where
  "json_word s =
     (if starts_with s (js ''true'') then Some (JBool True, drop 4 s)
      else if starts_with s (js ''false'') then Some (JBool False, drop 5 s)
      else if starts_with s (js ''null'') then Some (JNull, drop 4 s)
      else map_option (\<lambda>(n, r). (JNum n, r)) (json_number s))"

definition json_begin :: "json_frame list \<Rightarrow> code_unit \<Rightarrow> jsstr \<Rightarrow> (json_frame list \<times> json_mode \<times> jsstr) option" where
  "json_begin st c s =
     (if c = 34 then map_option (\<lambda>(t, r). (st, Have (JStr t), r)) (json_chars [] s)
      else if c = 91 then Some (In_array [] # st, Want_first, s)
      else if c = 123 then Some (st, Want_key [] True, s)
      else map_option (\<lambda>(v, r). (st, Have v, r)) (json_word (c # s)))"

definition json_key :: "(jsstr \<times> jsval) list \<Rightarrow> json_frame list \<Rightarrow> jsstr \<Rightarrow> (json_frame list \<times> json_mode \<times> jsstr) option" where
  "json_key fs st s =
     (case json_chars [] s of
        None \<Rightarrow> None
      | Some (k, r) \<Rightarrow>
          (case dropWhile json_space r of
             d # t \<Rightarrow> if d = 58 then Some (In_object fs k # st, Want_value, t) else None
           | [] \<Rightarrow> None))"

definition json_after :: "jsval \<Rightarrow> json_frame list \<Rightarrow> code_unit \<Rightarrow> jsstr \<Rightarrow> (json_frame list \<times> json_mode \<times> jsstr) option" where
  "json_after v st c s =
     (case st of
        In_array vs # st' \<Rightarrow>
          if c = 44 then Some (In_array (vs @ [v]) # st', Want_value, s)
          else if c = 93 then Some (st', Have (JArr (vs @ [v])), s) else None
      | In_object fs k # st' \<Rightarrow>
          if c = 44 then Some (st', Want_key (omap_set k v fs) False, s)
          else if c = 125 then Some (st', Have (JObj (omap_set k v fs)), s) else None
      | [] \<Rightarrow> None)"

definition json_step :: "json_frame list \<Rightarrow> json_mode \<Rightarrow> code_unit \<Rightarrow> jsstr \<Rightarrow> (json_frame list \<times> json_mode \<times> jsstr) option" where
  "json_step st m c s =
     (case m of
        Want_value \<Rightarrow> json_begin st c s
      | Want_first \<Rightarrow> if c = 93 then Some (tl st, Have (JArr []), s) else json_begin st c s
      | Want_key fs first \<Rightarrow>
          if c = 125 \<and> first then Some (st, Have (JObj fs), s)
          else if c = 34 then json_key fs st s else None
      | Have v \<Rightarrow> json_after v st c s)"

lemma json_begin_shorter: "json_begin st c s = Some (st', m, r) \<Longrightarrow> length r \<le> length s"
  using json_number_shorter [of "c # s"]
  by (auto simp: json_begin_def json_word_def split: if_splits dest!: json_chars_shorter)

lemma json_step_shorter: "json_step st m c s = Some (st', m', r) \<Longrightarrow> length r \<le> length s"
proof -
  have "length t \<le> length s" if "json_chars [] s = Some (k, u)" "dropWhile json_space u = d # t" for k u d t
    using json_chars_shorter [OF that(1)] that(2) length_dropWhile_le [of json_space u] by simp
  then show "json_step st m c s = Some (st', m', r) \<Longrightarrow> length r \<le> length s"
    by (auto simp: json_step_def json_key_def json_after_def dest: json_begin_shorter
        split: json_mode.splits if_splits option.splits list.splits json_frame.splits prod.splits)
qed

function json_run :: "json_frame list \<Rightarrow> json_mode \<Rightarrow> jsstr \<Rightarrow> jsval option" where
  "json_run st m [] = (case (st, m) of ([], Have v) \<Rightarrow> Some v | _ \<Rightarrow> None)"
| "json_run st m (c # s) =
     (if json_space c then json_run st m s
      else case json_step st m c s of
             None \<Rightarrow> None
           | Some (st', m', r) \<Rightarrow> json_run st' m' r)"
  by pat_completeness auto
termination
  by (relation "measure (\<lambda>(st, m, s). length s)") (auto dest: json_step_shorter)

text \<open>\<open>JSON.parse(text)\<close>; a \<open>SyntaxError\<close> is \<open>None\<close>.\<close>

definition json_parse :: "jsstr \<Rightarrow> jsval option" where
  "json_parse s = json_run [] Want_value s"

text \<open>\<open>String(value)\<close> for a value that came from JSON.  An object with a property \<open>toString\<close>
  cannot be converted and throws.\<close>

fun json_string_of :: "jsval \<Rightarrow> jsstr option" where
  "json_string_of JUndef = Some (js ''undefined'')"
| "json_string_of JNull = Some (js ''null'')"
| "json_string_of (JBool b) = Some (if b then js ''true'' else js ''false'')"
| "json_string_of (JNum n) = Some (num_text n)"
| "json_string_of (JStr s) = Some s"
| "json_string_of (JArr vs) =
     map_option (join (js '',''))
       (those (map (\<lambda>v. if nullish v then Some [] else json_string_of v) vs))"
| "json_string_of (JObj fs) =
     (if js ''toString'' \<in> fst ` set fs then None else Some (js ''[object Object]''))"

text \<open>A plain text between quotes reads as itself.\<close>

definition plain_unit :: "code_unit \<Rightarrow> bool" where
  "plain_unit c \<longleftrightarrow> 32 \<le> c \<and> c \<notin> {34, 92, 124, 8232, 8233} \<and> \<not> (55296 \<le> c \<and> c \<le> 57343)"

lemma json_chars_plain: "\<forall>c \<in> set u. plain_unit c \<Longrightarrow> json_chars acc (u @ 34 # s) = Some (acc @ u, s)"
  by (induction u arbitrary: acc) (auto simp: plain_unit_def)

lemma json_parse_plain: "\<forall>c \<in> set u. plain_unit c \<Longrightarrow> json_parse (34 # u @ [34]) = Some (JStr u)"
  by (simp add: json_parse_def json_space_def json_step_def json_begin_def json_chars_plain del: json_chars.simps)

end
