(* ===== verification/Pricing_Rules.thy ===== *)
theory Pricing_Rules
  imports Pricing_Structure Js_Regexp Json_Text Billing_Visual
begin

text \<open>
  Request rules of prices (\<open>features/pricing/lib/billing-expr.ts\<close>): factors such as
  \<open>(hour("UTC") >= 21 || hour("UTC") < 6 ? 0.5 : 1)\<close> that multiply a price when the request or the
  time meets conditions.  The editor builds them from rows and reads the rows back from the text.
  The regular expressions of the source are patterns of \<open>Js_Regexp\<close>; \<open>JSON.parse\<close> of a value may
  throw, which is \<open>Inl\<close>.
\<close>

section \<open>Data\<close>

record time_rule =
  tr_func :: jsstr
  tr_zone :: jsstr
  tr_mode :: jsstr
  tr_value :: jsstr
  tr_start :: jsstr
  tr_end :: jsstr

record request_match =
  rm_source :: jsstr
  rm_path :: jsstr
  rm_mode :: jsstr
  rm_value :: jsstr

datatype request_condition = Time_rule time_rule | Request_match request_match

record rule_group =
  g_conditions :: "request_condition list"
  g_multiplier :: jsstr
  g_conditionText :: "jsstr option"
  g_matched :: "bool option"

record parsed_group = rule_group +
  sourceOffset :: nat

definition MATCH_EQ :: jsstr where "MATCH_EQ = js ''eq''"
definition MATCH_CONTAINS :: jsstr where "MATCH_CONTAINS = js ''contains''"
definition MATCH_GT :: jsstr where "MATCH_GT = js ''gt''"
definition MATCH_GTE :: jsstr where "MATCH_GTE = js ''gte''"
definition MATCH_LT :: jsstr where "MATCH_LT = js ''lt''"
definition MATCH_LTE :: jsstr where "MATCH_LTE = js ''lte''"
definition MATCH_EXISTS :: jsstr where "MATCH_EXISTS = js ''exists''"
definition MATCH_RANGE :: jsstr where "MATCH_RANGE = js ''range''"

lemmas match_defs = MATCH_EQ_def MATCH_CONTAINS_def MATCH_GT_def MATCH_GTE_def MATCH_LT_def
  MATCH_LTE_def MATCH_EXISTS_def MATCH_RANGE_def

definition TIME_FUNCS :: "jsstr list" where
  "TIME_FUNCS = [js ''hour'', js ''minute'', js ''weekday'', js ''month'', js ''day'']"

section \<open>Literals\<close>

text \<open>\<open>/^-?(?:\d+\.?\d*|\.\d+)(?:[eE][+-]?\d+)?$/\<close>\<close>

definition NUMERIC_LITERAL_REGEX :: "rexp list" where
  "NUMERIC_LITERAL_REGEX =
     [Opt (Lit [45]),
      Alt (Seqs [Plus (Cls is_digit), Opt (Lit [46]), Star (Cls is_digit)]) (Seqs [Lit [46], Plus (Cls is_digit)]),
      Opt (Seqs [Cls (\<lambda>c. c = 101 \<or> c = 69), Opt (Cls (\<lambda>c. c = 43 \<or> c = 45)), Plus (Cls is_digit)])]"

abbreviation numeric_text :: "jsstr \<Rightarrow> bool" where
  "numeric_text \<equiv> test_all NUMERIC_LITERAL_REGEX"

text \<open>The value of a literal; \<open>None\<close> is \<open>null\<close>, also for the literal \<open>null\<close>.\<close>

definition parseExprLiteral :: "jsstr \<Rightarrow> jsval option" where
  "parseExprLiteral raw =
     (let text = trim raw in
      if text = js ''true'' \<or> text = js ''false'' \<or> numeric_text text then Some (JStr text)
      else case json_parse text of None \<Rightarrow> None | Some v \<Rightarrow> if v = JNull then None else Some v)"

definition TIME_FUNC_RANGES :: "jsstr \<Rightarrow> jsnum \<times> jsnum" where
  "TIME_FUNC_RANGES f =
     (if f = js ''hour'' then (Fin 0, Fin 23)
      else if f = js ''minute'' then (Fin 0, Fin 59)
      else if f = js ''weekday'' then (Fin 0, Fin 6)
      else if f = js ''month'' then (Fin 1, Fin 12)
      else (Fin 1, Fin 31))"

definition isTimeValueInRange :: "jsstr \<Rightarrow> jsstr \<Rightarrow> bool" where
  "isTimeValueInRange f text \<longleftrightarrow>
     numeric_text text \<and>
     (let v = string_number text; (lo, hi) = TIME_FUNC_RANGES f
      in is_integer v \<and> le_num lo v \<and> le_num v hi)"

section \<open>Reading conditions\<close>

abbreviation not_dquote :: "code_unit \<Rightarrow> bool" where
  "not_dquote \<equiv> \<lambda>c. c \<noteq> 34"

abbreviation time_name :: rexp where
  "time_name \<equiv> Cap 1 (Alts (map Lit TIME_FUNCS))"

abbreviation number_text :: "nat \<Rightarrow> rexp" where
  "number_text n \<equiv> Cap n (Plus (Cls number_unit))"

text \<open>\<open>fn("tz") >= a && fn("tz") < b\<close>, also with \<open>||\<close>, in which \<open>\1\<close> and \<open>\2\<close> repeat the function and
  the zone.\<close>

definition range_pattern :: "rexp list" where
  "range_pattern =
     [time_name, Lit (js ''(\"''), Cap 2 (Plus (Cls not_dquote)), Lit (js ''\") >= ''), number_text 3, Lit (js '' ''),
      Alt (Lit (js ''&&'')) (Lit (js ''||'')), Lit (js '' ''), Ref 1, Lit (js ''(\"''), Ref 2, Lit (js ''\") < ''),
      number_text 4]"

definition scalar_pattern :: "rexp list" where
  "scalar_pattern =
     [time_name, Lit (js ''(\"''), Cap 2 (Plus (Cls not_dquote)), Lit (js ''\") ''),
      Cap 3 (Alts (map Lit [js ''=='', js ''>='', js ''<''])), Lit (js '' ''), number_text 4]"

definition range_match :: "jsstr \<Rightarrow> (nat \<Rightarrow> jsstr) option" where
  "range_match expr =
     (case match_all range_pattern expr of
        Some m \<Rightarrow> Some m
      | None \<Rightarrow> match_all ([Lit (js ''('')] @ range_pattern @ [Lit (js '')'')]) expr)"

definition tryParseTimeCondition :: "jsstr \<Rightarrow> time_rule option" where
  "tryParseTimeCondition expr =
     (case range_match expr of
        Some m \<Rightarrow>
          if isTimeValueInRange (m 1) (m 3) \<and> isTimeValueInRange (m 1) (m 4)
          then Some \<lparr>tr_func = m 1, tr_zone = m 2, tr_mode = MATCH_RANGE, tr_value = [], tr_start = m 3, tr_end = m 4\<rparr>
          else None
      | None \<Rightarrow>
          (case match_all scalar_pattern expr of
             None \<Rightarrow> None
           | Some m \<Rightarrow>
               if isTimeValueInRange (m 1) (m 4)
               then Some \<lparr>tr_func = m 1, tr_zone = m 2,
                          tr_mode = (if m 3 = js ''>='' then MATCH_GTE else if m 3 = js ''<'' then MATCH_LT else MATCH_EQ),
                          tr_value = m 4, tr_start = [], tr_end = []\<rparr>
               else None))"

abbreviation quoted_path :: "nat \<Rightarrow> rexp" where
  "quoted_path n \<equiv> Cap n (Plus (Cls not_dquote))"

text \<open>\<open>"(?:[^"\\]|\\.)*"\<close>\<close>

definition string_pattern :: rexp where
  "string_pattern =
     Seqs [Lit [34], Star (Alt (Cls (\<lambda>c. c \<noteq> 34 \<and> c \<noteq> 92)) (Seq (Lit [92]) (Cls not_newline))), Lit [34]]"

definition header_exists_pattern :: "rexp list" where
  "header_exists_pattern = [Lit (js ''header(\"''), quoted_path 1, Lit (js ''\") != \"\"'')]"

definition param_exists_pattern :: "rexp list" where
  "param_exists_pattern = [Lit (js ''param(\"''), quoted_path 1, Lit (js ''\") != nil'')]"

definition header_contains_pattern :: "rexp list" where
  "header_contains_pattern =
     [Lit (js ''has(header(\"''), quoted_path 1, Lit (js ''\"), ''), Cap 2 string_pattern, Lit (js '')'')]"

definition param_contains_pattern :: "rexp list" where
  "param_contains_pattern =
     [Lit (js ''param(\"''), quoted_path 1, Lit (js ''\") != nil && has(param(\"''), quoted_path 2, Lit (js ''\"), ''),
      Cap 3 string_pattern, Lit (js '')'')]"

definition param_order_pattern :: "rexp list" where
  "param_order_pattern =
     [Lit (js ''param(\"''), quoted_path 1, Lit (js ''\") != nil && param(\"''), quoted_path 2, Lit (js ''\") ''),
      Cap 3 (Alts (map Lit [js ''>'', js ''>='', js ''<'', js ''<=''])), Lit (js '' ''), number_text 4]"

definition equals_pattern :: "rexp list" where
  "equals_pattern =
     [Cap 1 (Alts (map Lit [js ''param'', js ''header''])), Lit (js ''(\"''), quoted_path 2, Lit (js ''\") == ''),
      Cap 3 (Plus (Cls not_newline))]"

text \<open>\<open>JSON.parse\<close> of a quoted text, which throws for an escape JSON does not have.\<close>

definition json_text :: "jsstr \<Rightarrow> thrown + jsstr" where
  "json_text s =
     (case json_parse s of
        Some (JStr t) \<Rightarrow> Inr t
      | _ \<Rightarrow> Inl (OtherError (js ''SyntaxError'')))"

definition order_mode :: "jsstr \<Rightarrow> jsstr" where
  "order_mode p =
     (if p = js ''>'' then MATCH_GT else if p = js ''>='' then MATCH_GTE
      else if p = js ''<'' then MATCH_LT else MATCH_LTE)"

definition equals_condition :: "jsstr \<Rightarrow> thrown + request_condition option" where
  "equals_condition expr =
     (case match_all equals_pattern expr of
        None \<Rightarrow> Inr None
      | Some m \<Rightarrow>
          (case parseExprLiteral (m 3) of
             None \<Rightarrow> Inr None
           | Some v \<Rightarrow>
               (case json_string_of v of
                  None \<Rightarrow> Inl (OtherError (js ''TypeError''))
                | Some t \<Rightarrow> Inr (Some (Request_match
                    \<lparr>rm_source = m 1, rm_path = m 2, rm_mode = MATCH_EQ, rm_value = t\<rparr>)))))"

definition order_condition :: "jsstr \<Rightarrow> thrown + request_condition option" where
  "order_condition expr =
     (case match_all param_order_pattern expr of
        Some m \<Rightarrow>
          if m 1 = m 2
          then Inr (Some (Request_match
            \<lparr>rm_source = js ''param'', rm_path = m 1, rm_mode = order_mode (m 3), rm_value = m 4\<rparr>))
          else equals_condition expr
      | None \<Rightarrow> equals_condition expr)"

definition param_contains :: "jsstr \<Rightarrow> thrown + request_condition option" where
  "param_contains expr =
     (case match_all param_contains_pattern expr of
        Some m \<Rightarrow>
          if m 1 = m 2
          then res_bind (json_text (m 3)) (\<lambda>v. Inr (Some (Request_match
            \<lparr>rm_source = js ''param'', rm_path = m 1, rm_mode = MATCH_CONTAINS, rm_value = v\<rparr>)))
          else order_condition expr
      | None \<Rightarrow> order_condition expr)"

definition tryParseRequestCondition :: "jsstr \<Rightarrow> thrown + request_condition option" where
  "tryParseRequestCondition expr =
     (case tryParseTimeCondition expr of
        Some c \<Rightarrow> Inr (Some (Time_rule c))
      | None \<Rightarrow>
     (case match_all header_exists_pattern expr of
        Some m \<Rightarrow> Inr (Some (Request_match
          \<lparr>rm_source = js ''header'', rm_path = m 1, rm_mode = MATCH_EXISTS, rm_value = []\<rparr>))
      | None \<Rightarrow>
     (case match_all param_exists_pattern expr of
        Some m \<Rightarrow> Inr (Some (Request_match
          \<lparr>rm_source = js ''param'', rm_path = m 1, rm_mode = MATCH_EXISTS, rm_value = []\<rparr>))
      | None \<Rightarrow>
     (case match_all header_contains_pattern expr of
        Some m \<Rightarrow> res_bind (json_text (m 2)) (\<lambda>v. Inr (Some (Request_match
          \<lparr>rm_source = js ''header'', rm_path = m 1, rm_mode = MATCH_CONTAINS, rm_value = v\<rparr>)))
      | None \<Rightarrow> param_contains expr))))"

definition tryParseTimeRangePair :: "jsstr \<Rightarrow> jsstr \<Rightarrow> request_condition option" where
  "tryParseTimeRangePair lower upper =
     (case (tryParseTimeCondition lower, tryParseTimeCondition upper) of
        (Some a, Some b) \<Rightarrow>
          if tr_func a = tr_func b \<and> tr_zone a = tr_zone b \<and> tr_mode a = MATCH_GTE \<and> tr_mode b = MATCH_LT
          then Some (Time_rule \<lparr>tr_func = tr_func a, tr_zone = tr_zone a, tr_mode = MATCH_RANGE, tr_value = [],
                                tr_start = tr_value a, tr_end = tr_value b\<rparr>)
          else None
      | _ \<Rightarrow> None)"

section \<open>Reading rules\<close>

fun read_condition_parts :: "jsstr list \<Rightarrow> thrown + request_condition list option" where
  "read_condition_parts [] = Inr (Some [])"
| "read_condition_parts [p] =
     res_bind (tryParseRequestCondition (trim p)) (\<lambda>c. Inr (map_option (\<lambda>x. [x]) c))"
| "read_condition_parts (p # n # ps) =
     (case (if trim n = [] then None else tryParseTimeRangePair (trim p) (trim n)) of
        Some c \<Rightarrow> res_bind (read_condition_parts ps) (\<lambda>cs. Inr (map_option (\<lambda>xs. c # xs) cs))
      | None \<Rightarrow>
          res_bind (tryParseRequestCondition (trim p)) (\<lambda>c.
            case c of
              None \<Rightarrow> Inr None
            | Some x \<Rightarrow> res_bind (read_condition_parts (n # ps)) (\<lambda>cs. Inr (map_option (\<lambda>xs. x # xs) cs))))"

definition tryParseRequestConditions :: "jsstr \<Rightarrow> thrown + request_condition list option" where
  "tryParseRequestConditions s =
     (case tryParseTimeCondition (trim s) of
        Some c \<Rightarrow> Inr (Some [Time_rule c])
      | None \<Rightarrow>
          res_bind (read_condition_parts (splitExpressionAtTopLevel s (js ''&&''))) (\<lambda>cs.
            Inr (if cs = Some [] then None else cs)))"

text \<open>\<open>/^\((.+) \? ([\d.eE+-]+) : 1\)$/s\<close>\<close>

definition factor_pattern :: "rexp list" where
  "factor_pattern =
     [Lit (js ''(''), Cap 1 (Plus (Cls (\<lambda>_. True))), Lit (js '' ? ''), number_text 2, Lit (js '' : 1)'')]"

definition tryParseRuleGroupFactor :: "jsstr \<Rightarrow> thrown + rule_group option" where
  "tryParseRuleGroupFactor part =
     (case match_all factor_pattern part of
        None \<Rightarrow> Inr None
      | Some m \<Rightarrow>
          res_bind (tryParseRequestConditions (m 1)) (\<lambda>cs.
            Inr (map_option (\<lambda>xs. \<lparr>g_conditions = xs, g_multiplier = m 2, g_conditionText = None, g_matched = None\<rparr>) cs)))"

definition requestRuleGroupsFromTrace :: "request_rule list \<Rightarrow> thrown + rule_group list" where
  "requestRuleGroupsFromTrace rules =
     map_res (\<lambda>rule.
       res_bind (tryParseRequestConditions (trim (rcond rule))) (\<lambda>cs.
         Inr \<lparr>g_conditions = (case cs of None \<Rightarrow> [] | Some xs \<Rightarrow> xs), g_multiplier = num_text (rmultiplier rule),
              g_conditionText = Some (trim (rcond rule)), g_matched = Some (rmatched rule)\<rparr>)) rules"

text \<open>\<open>s.indexOf(part)\<close>\<close>

fun find_text :: "jsstr \<Rightarrow> jsstr \<Rightarrow> nat option" where
  "find_text part [] = (if part = [] then Some 0 else None)"
| "find_text part (c # s) = (if starts_with (c # s) part then Some 0 else map_option Suc (find_text part s))"

fun read_factors :: "jsstr \<Rightarrow> nat \<Rightarrow> jsstr list \<Rightarrow> thrown + parsed_group list option" where
  "read_factors trimmed position [] = Inr (Some [])"
| "read_factors trimmed position (part # parts) =
     (case find_text part (drop position trimmed) of
        None \<Rightarrow> Inr None
      | Some n \<Rightarrow>
          res_bind (tryParseRuleGroupFactor part) (\<lambda>g.
            case g of
              None \<Rightarrow> Inr None
            | Some x \<Rightarrow>
                res_bind (read_factors trimmed (position + n + length part) parts) (\<lambda>gs.
                  Inr (map_option (\<lambda>xs. rule_group.extend x \<lparr>sourceOffset = position + n\<rparr> # xs) gs))))"

definition tryParseRequestRuleExpr :: "jsstr \<Rightarrow> thrown + parsed_group list option" where
  "tryParseRequestRuleExpr expr =
     (let trimmed = trim expr in
      if trimmed = [] then Inr (Some [])
      else read_factors trimmed 0 (splitExpressionAtTopLevel trimmed (js ''*'')))"

section \<open>Rows of the editor\<close>

definition createEmptyCondition :: request_match where
  "createEmptyCondition = \<lparr>rm_source = js ''param'', rm_path = [], rm_mode = MATCH_EQ, rm_value = []\<rparr>"

definition createEmptyTimeCondition :: time_rule where
  "createEmptyTimeCondition =
     \<lparr>tr_func = js ''hour'', tr_zone = js ''Asia/Shanghai'', tr_mode = MATCH_GTE, tr_value = [], tr_start = [], tr_end = []\<rparr>"

definition createEmptyRuleGroup :: rule_group where
  "createEmptyRuleGroup =
     \<lparr>g_conditions = [Request_match createEmptyCondition], g_multiplier = [], g_conditionText = None, g_matched = None\<rparr>"

definition createEmptyTimeRuleGroup :: rule_group where
  "createEmptyTimeRuleGroup =
     \<lparr>g_conditions = [Time_rule createEmptyTimeCondition], g_multiplier = [], g_conditionText = None, g_matched = None\<rparr>"

text \<open>The modes a source offers; their labels are for the translation only.\<close>

definition getRequestRuleMatchOptions :: "jsstr \<Rightarrow> jsstr list" where
  "getRequestRuleMatchOptions source =
     (if source = js ''time'' then [MATCH_EQ, MATCH_GTE, MATCH_LT, MATCH_RANGE]
      else if source = js ''header'' then [MATCH_EQ, MATCH_CONTAINS, MATCH_EXISTS]
      else [MATCH_EQ, MATCH_CONTAINS, MATCH_EXISTS, MATCH_GT, MATCH_GTE, MATCH_LT, MATCH_LTE])"

text \<open>A condition of which any field may be missing.\<close>

record partial_condition =
  pc_source :: "jsstr option"
  pc_func :: "jsstr option"
  pc_zone :: "jsstr option"
  pc_mode :: "jsstr option"
  pc_value :: "jsstr option"
  pc_start :: "jsstr option"
  pc_end :: "jsstr option"
  pc_path :: "jsstr option"

definition some_text :: "jsstr option \<Rightarrow> jsstr \<Rightarrow> jsstr" where
  "some_text v d = (case v of None \<Rightarrow> d | Some s \<Rightarrow> if s = [] then d else s)"

definition offered_mode :: "jsstr option \<Rightarrow> jsstr \<Rightarrow> jsstr \<Rightarrow> jsstr" where
  "offered_mode v source d = (case v of None \<Rightarrow> d | Some m \<Rightarrow> if m \<in> set (getRequestRuleMatchOptions source) then m else d)"

definition absent_condition :: partial_condition where
  "absent_condition = \<lparr>pc_source = None, pc_func = None, pc_zone = None, pc_mode = None, pc_value = None,
     pc_start = None, pc_end = None, pc_path = None\<rparr>"

definition normalizeCondition :: "partial_condition option \<Rightarrow> request_condition" where
  "normalizeCondition cond =
     (let c = (case cond of None \<Rightarrow> absent_condition | Some c \<Rightarrow> c) in
      if pc_source c = Some (js ''time'') then
        Time_rule \<lparr>tr_func = (case pc_func c of None \<Rightarrow> js ''hour'' | Some f \<Rightarrow> if f \<in> set TIME_FUNCS then f else js ''hour''),
          tr_zone = some_text (pc_zone c) (js ''Asia/Shanghai''), tr_mode = offered_mode (pc_mode c) (js ''time'') MATCH_GTE,
          tr_value = some_text (pc_value c) [], tr_start = some_text (pc_start c) [], tr_end = some_text (pc_end c) []\<rparr>
      else
        let source = (if pc_source c = Some (js ''header'') then js ''header'' else js ''param'') in
        Request_match \<lparr>rm_source = source, rm_path = some_text (pc_path c) [],
          rm_mode = offered_mode (pc_mode c) source MATCH_EQ, rm_value = some_text (pc_value c) []\<rparr>)"

definition partial_of :: "request_condition \<Rightarrow> partial_condition" where
  "partial_of c =
     (case c of
        Time_rule t \<Rightarrow> \<lparr>pc_source = Some (js ''time''), pc_func = Some (tr_func t), pc_zone = Some (tr_zone t),
          pc_mode = Some (tr_mode t), pc_value = Some (tr_value t), pc_start = Some (tr_start t),
          pc_end = Some (tr_end t), pc_path = None\<rparr>
      | Request_match r \<Rightarrow> absent_condition\<lparr>pc_source := Some (rm_source r), pc_mode := Some (rm_mode r),
          pc_value := Some (rm_value r), pc_path := Some (rm_path r)\<rparr>)"

section \<open>Building rules\<close>

definition buildExprLiteral :: "jsstr \<Rightarrow> jsstr \<Rightarrow> jsstr" where
  "buildExprLiteral mode v =
     (let text = trim v in
      if mode = MATCH_CONTAINS then json_string text
      else if text = js ''true'' \<or> text = js ''false'' \<or> numeric_text text then text
      else json_string text)"

definition time_rule_text :: "time_rule \<Rightarrow> jsstr" where
  "time_rule_text t =
     (let fn = tr_func t @ js ''('' @ json_string (tr_zone t) @ js '')'' in
      if tr_mode t = MATCH_RANGE then
        (let s = trim (tr_start t); e = trim (tr_end t) in
         if \<not> isTimeValueInRange (tr_func t) s \<or> \<not> isTimeValueInRange (tr_func t) e then []
         else fn @ js '' >= '' @ s @ (if lt_num (string_number e) (string_number s) then js '' || '' else js '' && '') @
           fn @ js '' < '' @ e)
      else
        (let v = trim (tr_value t) in
         if \<not> isTimeValueInRange (tr_func t) v then []
         else fn @ js '' '' @ (if tr_mode t = MATCH_GTE then js ''>='' else if tr_mode t = MATCH_LT then js ''<'' else js ''=='') @
           js '' '' @ v))"

definition buildTimeConditionExpr :: "time_rule \<Rightarrow> jsstr" where
  "buildTimeConditionExpr cond =
     (case normalizeCondition (Some (partial_of (Time_rule cond))) of
        Time_rule t \<Rightarrow> time_rule_text t
      | Request_match _ \<Rightarrow> [])"

definition order_sign :: "jsstr \<Rightarrow> jsstr" where
  "order_sign mode =
     (if mode = MATCH_GT then js ''>'' else if mode = MATCH_GTE then js ''>=''
      else if mode = MATCH_LT then js ''<'' else js ''<='')"

definition request_match_text :: "request_match \<Rightarrow> jsstr" where
  "request_match_text r =
     (let path = trim (rm_path r);
          header = (rm_source r = js ''header'');
          sourceExpr = (if header then js ''header('' else js ''param('') @ json_string path @ js '')''
      in if path = [] then []
         else if rm_mode r = MATCH_EXISTS then sourceExpr @ (if header then js '' != \"\"'' else js '' != nil'')
         else if rm_mode r = MATCH_CONTAINS then
           (if header then [] else sourceExpr @ js '' != nil && '') @
           js ''has('' @ sourceExpr @ js '', '' @ buildExprLiteral (rm_mode r) (rm_value r) @ js '')''
         else if rm_mode r \<in> {MATCH_GT, MATCH_GTE, MATCH_LT, MATCH_LTE} then
           (if numeric_text (trim (rm_value r))
            then sourceExpr @ js '' != nil && '' @ sourceExpr @ js '' '' @ order_sign (rm_mode r) @ js '' '' @ trim (rm_value r)
            else [])
         else sourceExpr @ js '' == '' @ buildExprLiteral (rm_mode r) (rm_value r))"

definition buildRequestConditionExpr :: "request_condition \<Rightarrow> jsstr" where
  "buildRequestConditionExpr cond =
     (case cond of
        Time_rule t \<Rightarrow> buildTimeConditionExpr t
      | Request_match r \<Rightarrow>
          (case normalizeCondition (Some (partial_of cond)) of
             Request_match n \<Rightarrow> request_match_text n
           | Time_rule _ \<Rightarrow> []))"

definition combine_conditions :: "jsstr list \<Rightarrow> jsstr" where
  "combine_conditions texts =
     (case texts of
        [t] \<Rightarrow> t
      | _ \<Rightarrow> join (js '' && '') (map (\<lambda>e. if str_includes e (js '' || '') then js ''('' @ e @ js '')'' else e) texts))"

definition buildRuleGroupFactor :: "'a rule_group_scheme \<Rightarrow> jsstr" where
  "buildRuleGroupFactor g =
     (let multiplier = trim (g_multiplier g);
          texts = filter (\<lambda>t. t \<noteq> []) (map buildRequestConditionExpr (g_conditions g))
      in if \<not> numeric_text multiplier \<or> texts = [] then []
         else js ''('' @ combine_conditions texts @ js '' ? '' @ multiplier @ js '' : 1)'')"

definition buildRequestRuleExpr :: "'a rule_group_scheme list \<Rightarrow> jsstr" where
  "buildRequestRuleExpr groups = join (js '' * '') (filter (\<lambda>t. t \<noteq> []) (map buildRuleGroupFactor groups))"

end
