(* ===== verification/Pricing_Expr.thy ===== *)
theory Pricing_Expr
  imports Pricing_Rules Billing_Display
begin

text \<open>
  The rest of \<open>features/pricing/lib/billing-expr.ts\<close>, with \<open>breakdown-tier-match.ts\<close> and
  \<open>plugin-pricing.ts\<close>: the registry of billing variables, the rows of price tables, the separation
  of a price from its request rules, and the rows that are marked as charged.  Compilation goes
  through the cache of the compiler, which the operations pass on.
\<close>

section \<open>Variables\<close>

record billing_var =
  bv_key :: jsstr
  bv_field :: "jsstr option"
  bv_tierField :: "jsstr option"
  bv_label :: jsstr
  bv_shortLabel :: jsstr
  bv_side :: jsstr
  bv_base :: bool
  bv_conditionOnly :: bool
  bv_group :: "jsstr option"

definition extra_var :: "char list \<Rightarrow> char list \<Rightarrow> char list \<Rightarrow> char list \<Rightarrow> char list \<Rightarrow> char list \<Rightarrow> char list \<Rightarrow> billing_var" where
  "extra_var k f t l s d g =
     \<lparr>bv_key = js k, bv_field = Some (js f), bv_tierField = Some (js t), bv_label = js l, bv_shortLabel = js s,
      bv_side = js d, bv_base = False, bv_conditionOnly = False, bv_group = Some (js g)\<rparr>"

definition BILLING_VARS :: "billing_var list" where
  "BILLING_VARS =
     [(extra_var ''p'' ''inputPrice'' ''input_unit_cost'' ''Input price'' ''Input'' ''input'' '''')\<lparr>bv_base := True, bv_group := None\<rparr>,
      (extra_var ''c'' ''outputPrice'' ''output_unit_cost'' ''Completion price'' ''Output'' ''output'' '''')\<lparr>bv_base := True, bv_group := None\<rparr>,
      (extra_var ''len'' '''' '''' ''Input length'' ''Length'' ''condition'' '''')
        \<lparr>bv_field := None, bv_tierField := None, bv_conditionOnly := True, bv_group := None\<rparr>,
      extra_var ''cr'' ''cacheReadPrice'' ''cache_read_unit_cost'' ''Cache read price'' ''Cache Read'' ''input'' ''cache'',
      extra_var ''cc'' ''cacheCreatePrice'' ''cache_create_unit_cost'' ''Cache create price'' ''Cache Write'' ''input'' ''cache'',
      extra_var ''img_cr'' ''imageCachePrice'' ''image_cache_unit_cost'' ''Image cache input price'' ''Image Cache'' ''input'' ''cache'',
      extra_var ''cc1h'' ''cacheCreate1hPrice'' ''cache_create_1h_unit_cost'' ''Cache create (1h) price'' ''Cache Write (1h)'' ''input'' ''cache'',
      extra_var ''img'' ''imagePrice'' ''image_unit_cost'' ''Image input price'' ''Image In'' ''input'' ''media'',
      extra_var ''img_o'' ''imageOutputPrice'' ''image_output_unit_cost'' ''Image output price'' ''Image Out'' ''output'' ''media'',
      extra_var ''ai'' ''audioInputPrice'' ''audio_input_unit_cost'' ''Audio input price'' ''Audio In'' ''input'' ''media'',
      extra_var ''ao'' ''audioOutputPrice'' ''audio_output_unit_cost'' ''Audio output price'' ''Audio Out'' ''output'' ''media'']"

definition BILLING_PRICING_VARS :: "billing_var list" where
  "BILLING_PRICING_VARS = filter (\<lambda>v. \<not> bv_conditionOnly v) BILLING_VARS"

definition BILLING_CONDITION_VARS :: "jsstr list" where
  "BILLING_CONDITION_VARS = map bv_key (filter (\<lambda>v. bv_base v \<or> bv_conditionOnly v) BILLING_VARS)"

text \<open>\<open>v.field as string\<close>; the pricing variables have a field.\<close>

definition BILLING_VAR_KEY_TO_FIELD :: "(jsstr \<times> jsstr) list" where
  "BILLING_VAR_KEY_TO_FIELD = map (\<lambda>v. (bv_key v, the (bv_field v))) BILLING_PRICING_VARS"

definition BILLING_EXTRA_VARS :: "billing_var list" where
  "BILLING_EXTRA_VARS = filter (\<lambda>v. \<not> bv_base v \<and> \<not> bv_conditionOnly v) BILLING_VARS"

definition BILLING_CACHE_VAR_MAP :: "(jsstr \<times> jsstr) list" where
  "BILLING_CACHE_VAR_MAP = map (\<lambda>v. (the (bv_tierField v), bv_key v)) BILLING_EXTRA_VARS"

section \<open>Rows of tables\<close>

record parsed_tier =
  pd_label :: jsstr
  pd_imageCount :: bool
  pd_conditions :: "token_condition list"
  pd_billingUnit :: "billing_unit option"
  pd_fixedPrice :: "jsnum option"
  pd_conditionText :: "jsstr option"
  pd_prices :: "(jsstr \<times> jsnum) list"

text \<open>The name of a property that is read from the registry; a missing one is \<open>undefined\<close>.\<close>

definition price_field :: "jsstr \<Rightarrow> jsstr" where
  "price_field k = (case map_of BILLING_VAR_KEY_TO_FIELD k of None \<Rightarrow> js ''undefined'' | Some f \<Rightarrow> f)"

definition mapTokenTier :: "token_tier \<Rightarrow> parsed_tier" where
  "mapTokenTier t =
     \<lparr>pd_label = label t, pd_imageCount = imageCountTier t, pd_conditions = conditions t,
      pd_billingUnit = (if tierUnit t = Some Unit_request then Some Unit_request else None),
      pd_fixedPrice = (if tierUnit t = Some Unit_request then tierFixed t else None),
      pd_conditionText = (case conditionText t of None \<Rightarrow> None | Some s \<Rightarrow> if s = [] then None else Some s),
      pd_prices = fold (\<lambda>(k, v). omap_set (price_field k) v) (prices t) []\<rparr>"

definition parseTiersFromExpr :: "platform \<Rightarrow> jsstr \<Rightarrow> compile_cache \<Rightarrow> (thrown + parsed_tier list) \<times> compile_cache" where
  "parseTiersFromExpr h exprStr cache =
     (if exprStr = [] then (Inr [], cache)
      else
        let (r, cache1) = compileBillingExpression exprStr cache
        in case r of
             Inl _ \<Rightarrow> (Inr [], cache1)
           | Inr c \<Rightarrow>
               (case readTokenTierChain (cast c) of
                  Some tiers \<Rightarrow> (Inr (map mapTokenTier tiers), cache1)
                | None \<Rightarrow>
                    let (t, cache2) = readTimeTokenPricing h exprStr None cache1
                    in (res_bind t (\<lambda>p. Inr (case p of None \<Rightarrow> [] | Some (tiers, _) \<Rightarrow> map (mapTokenTier \<circ> tt_tier) tiers)), cache2)))"

definition getCurrentTimePricingTiers ::
  "platform \<Rightarrow> jsstr \<Rightarrow> jsdate \<Rightarrow> compile_cache \<Rightarrow> (thrown + parsed_tier list option) \<times> compile_cache" where
  "getCurrentTimePricingTiers h exprStr moment cache =
     (let (t, cache1) = readTimeTokenPricing h exprStr (Some moment) cache
      in (res_bind t (\<lambda>p. Inr (map_option (\<lambda>(_, shown). map (mapTokenTier \<circ> tt_tier) shown) p)), cache1))"

section \<open>Prices and request rules\<close>

text \<open>A part that is a request rule for the reader of rules or for the compiler.\<close>

definition traced_rule :: "compilation_result \<Rightarrow> bool" where
  "traced_rule r = (case r of Inl _ \<Rightarrow> False | Inr c \<Rightarrow> list_ex (\<lambda>rule. rnode rule = cast c) (crules c))"

definition read_part :: "jsstr \<Rightarrow> compile_cache \<Rightarrow> (thrown + bool) \<times> compile_cache" where
  "read_part part cache =
     (case tryParseRequestRuleExpr part of
        Inl e \<Rightarrow> (Inl e, cache)
      | Inr groups \<Rightarrow>
          let (r, cache1) = compileBillingExpression part cache
          in (Inr ((groups \<noteq> None \<and> groups \<noteq> Some []) \<or> traced_rule r), cache1))"

fun read_parts_loop :: "jsstr list \<Rightarrow> compile_cache \<Rightarrow> (thrown + (jsstr \<times> bool) list) \<times> compile_cache" where
  "read_parts_loop [] cache = (Inr [], cache)"
| "read_parts_loop (part # parts) cache =
     (let (r, cache1) = read_part part cache
      in case r of
           Inl e \<Rightarrow> (Inl e, cache1)
         | Inr b \<Rightarrow>
             let (rs, cache2) = read_parts_loop parts cache1
             in (res_bind rs (\<lambda>xs. Inr ((part, b) # xs)), cache2))"

definition separate_parts :: "jsstr \<Rightarrow> (jsstr \<times> bool) list \<Rightarrow> jsstr \<times> jsstr" where
  "separate_parts trimmed ps =
     (let ruleParts = map fst (filter snd ps);
          baseParts = map fst (filter (\<lambda>p. \<not> snd p) ps);
          quantityParts = filter (\<lambda>p. unwrapExpressionParens p = js ''image_count'') baseParts
      in if ruleParts = [] \<or> length baseParts - length quantityParts \<noteq> 1 then (trimmed, [])
         else (join (js '' * '') (map unwrapExpressionParens baseParts), join (js '' * '') ruleParts))"

text \<open>The price, and the rules as text.\<close>

definition splitBillingExprAndRequestRules ::
  "jsstr \<Rightarrow> compile_cache \<Rightarrow> (thrown + jsstr \<times> jsstr) \<times> compile_cache" where
  "splitBillingExprAndRequestRules expr cache =
     (let trimmed = trim expr; parts = splitExpressionAtTopLevel trimmed (js ''*'')
      in if trimmed = [] then (Inr ([], []), cache)
         else if length parts \<le> 1 then (Inr (trimmed, []), cache)
         else
           let (r, cache1) = read_parts_loop parts cache
           in (res_bind r (\<lambda>ps. Inr (separate_parts trimmed ps)), cache1))"

definition combineBillingExpr :: "jsstr \<Rightarrow> jsstr \<Rightarrow> jsstr" where
  "combineBillingExpr baseExpr requestRuleExpr =
     (let base = trim baseExpr; rules = trim requestRuleExpr
      in if base = [] then [] else if rules = [] then base
         else js ''('' @ base @ js '') * '' @ rules)"

definition parseTaskTiersFromExpr ::
  "jsstr \<Rightarrow> usage_schema option \<Rightarrow> bool \<Rightarrow> compile_cache \<Rightarrow> (thrown + task_tier list) \<times> compile_cache" where
  "parseTaskTiersFromExpr exprStr schema includeBooleanConditions cache =
     (case schema of
        None \<Rightarrow> (Inr [], cache)
      | Some s \<Rightarrow>
          if exprStr = [] \<or> s = [] then (Inr [], cache)
          else
            let (r, cache1) = splitBillingExprAndRequestRules exprStr cache
            in case r of
                 Inl e \<Rightarrow> (Inl e, cache1)
               | Inr (billingExpr, _) \<Rightarrow>
                   let (c, cache2) = compileBillingExpression billingExpr cache1
                   in (Inr (case c of
                         Inl _ \<Rightarrow> []
                       | Inr q \<Rightarrow>
                           (case readTaskTierChain s includeBooleanConditions (cast q) of
                              None \<Rightarrow> [] | Some tiers \<Rightarrow> tiers)), cache2))"

section \<open>Labels\<close>

text \<open>The signs for less and less-or-equal, also wide or followed by a wide equals sign, become the
  plain sign for less; the signs for greater are treated in the same way.\<close>

definition drop_equals :: "jsstr \<Rightarrow> jsstr" where
  "drop_equals s = (case s of c # t \<Rightarrow> if c = 61 \<or> c = 65309 then t else s | [] \<Rightarrow> [])"

function replace_sign :: "code_unit \<Rightarrow> code_unit \<Rightarrow> code_unit \<Rightarrow> jsstr \<Rightarrow> jsstr" where
  "replace_sign sign wide joint [] = []"
| "replace_sign sign wide joint (c # s) =
     (if c = sign \<or> c = wide then sign # replace_sign sign wide joint (drop_equals s)
      else if c = joint then sign # replace_sign sign wide joint s
      else c # replace_sign sign wide joint s)"
  by pat_completeness auto
termination
  by (relation "measure (\<lambda>(_, _, _, s). length s)") (auto simp: drop_equals_def split: list.splits)

definition normalizeTierLabel :: "platform \<Rightarrow> jsstr option \<Rightarrow> jsstr" where
  "normalizeTierLabel h text =
     (case text of
        None \<Rightarrow> []
      | Some s \<Rightarrow>
          if s = [] then []
          else lower_case h (filter (\<lambda>c. \<not> is_space c)
            (replace_sign 62 65310 8805 (replace_sign 60 65308 8804 s))))"

section \<open>The charged row\<close>

datatype breakdown_tier = Token_row parsed_tier | Task_row task_tier

datatype usage_fact = Text_fact jsstr | Number_fact jsnum

fun fact_text :: "usage_fact \<Rightarrow> jsstr" where
  "fact_text (Text_fact s) = s"
| "fact_text (Number_fact n) = num_text n"

fun row_label :: "breakdown_tier \<Rightarrow> jsstr" where
  "row_label (Token_row t) = pd_label t"
| "row_label (Task_row t) = taskLabel t"

definition tierMatchesNormalizedLabel :: "platform \<Rightarrow> breakdown_tier \<Rightarrow> jsstr \<Rightarrow> bool" where
  "tierMatchesNormalizedLabel h tier normalized \<longleftrightarrow>
     normalized \<noteq> [] \<and> normalizeTierLabel h (Some (row_label tier)) = normalized"

text \<open>A row of token prices whose unit or fixed price differs from the charge.\<close>

fun wrong_unit :: "breakdown_tier \<Rightarrow> billing_unit option \<Rightarrow> jsnum option \<Rightarrow> bool" where
  "wrong_unit (Task_row t) u fixed = False"
| "wrong_unit (Token_row t) None fixed = False"
| "wrong_unit (Token_row t) (Some u) fixed \<longleftrightarrow>
     (case pd_billingUnit t of None \<Rightarrow> Unit_token | Some v \<Rightarrow> v) \<noteq> u \<or>
     (u = Unit_request \<and>
      (case fixed of
         None \<Rightarrow> False
       | Some v \<Rightarrow> (case pd_fixedPrice t of None \<Rightarrow> True | Some w \<Rightarrow> \<not> eq_num w v)))"

fun facts_match :: "breakdown_tier \<Rightarrow> (jsstr \<times> usage_fact) list \<Rightarrow> bool" where
  "facts_match (Token_row t) facts = False"
| "facts_match (Task_row t) facts \<longleftrightarrow>
     taskConditions t \<noteq> [] \<and>
     list_all (\<lambda>(field, expected). case map_of facts field of None \<Rightarrow> False | Some f \<Rightarrow> fact_text f = expected) (taskConditions t)"

definition isBreakdownTierMatched ::
  "platform \<Rightarrow> breakdown_tier \<Rightarrow> breakdown_tier list \<Rightarrow> jsstr option \<Rightarrow> (jsstr \<times> usage_fact) list option \<Rightarrow>
   billing_unit option \<Rightarrow> jsnum option \<Rightarrow> bool" where
  "isBreakdownTierMatched h tier tiers matchedTierLabel usageFacts billing fixed =
     (let normalized = normalizeTierLabel h matchedTierLabel
      in if wrong_unit tier billing fixed then False
         else if tierMatchesNormalizedLabel h tier normalized then True
         else if list_ex (\<lambda>t. tierMatchesNormalizedLabel h t normalized) tiers then False
         else case usageFacts of None \<Rightarrow> False | Some facts \<Rightarrow> facts_match tier facts)"

section \<open>Plugin prices\<close>

text \<open>\<open>/^[a-z0-9][a-z0-9_-]{0,29}$/\<close>\<close>

definition plugin_unit :: "code_unit \<Rightarrow> bool" where
  "plugin_unit c \<longleftrightarrow> (97 \<le> c \<and> c \<le> 122) \<or> is_digit c"

definition plugin_key :: "jsstr \<Rightarrow> bool" where
  "plugin_key s \<longleftrightarrow>
     (case s of [] \<Rightarrow> False
      | c # t \<Rightarrow> plugin_unit c \<and> length t \<le> 29 \<and> list_all (\<lambda>d. plugin_unit d \<or> d = 95 \<or> d = 45) t)"

definition splitPluginBillingExprKey :: "jsstr \<Rightarrow> (jsstr \<times> jsstr) option" where
  "splitPluginBillingExprKey key =
     (case find_text (js ''::'') key of
        None \<Rightarrow> None
      | Some n \<Rightarrow>
          if n < 1 then None
          else
            let plugin = slice key 0 n; model = drop (n + 2) key
            in if \<not> plugin_key plugin \<or> trim model = [] then None else Some (plugin, model))"

definition usage_visitor :: "usage_schema \<Rightarrow> bool \<Rightarrow> expr \<Rightarrow> thrown + bool" where
  "usage_visitor schema compatible node =
     Inr (case node of
       Call name args _ _ \<Rightarrow>
         if name = js ''u'' then
           (case args of
              Literal (LStr k) _ _ _ # _ \<Rightarrow> if k \<in> fst ` set schema then compatible else False
            | _ \<Rightarrow> compatible)
         else compatible
     | _ \<Rightarrow> compatible)"

text \<open>\<open>None\<close> is \<open>undefined\<close>: the client cannot check the expression.\<close>

definition taskExpressionCompatible ::
  "jsstr \<Rightarrow> usage_schema \<Rightarrow> compile_cache \<Rightarrow> (thrown + bool option) \<times> compile_cache" where
  "taskExpressionCompatible expression schema cache =
     (if trim expression = [] then (Inr (Some False), cache)
      else
        let (r, cache1) = compileBillingExpression expression cache
        in (case r of
              Inl _ \<Rightarrow> Inr None
            | Inr c \<Rightarrow>
                res_bind (visitExpression (usage_visitor schema) (cast c) (js ''fixed'' \<notin> set (cfunctions c))) (\<lambda>b. Inr (Some b)),
            cache1))"

definition pluginExpressionsEqual :: "(jsstr \<times> jsstr) list \<Rightarrow> (jsstr \<times> jsstr) list \<Rightarrow> bool" where
  "pluginExpressionsEqual left right \<longleftrightarrow>
     length left = length right \<and> list_all (\<lambda>(k, v). map_of right k = Some v) left"

end
