(* ===== verification/Pricing_Tasks.thy ===== *)
theory Pricing_Tasks
  imports Pricing_Expr
begin

text \<open>
  The editor of task prices (\<open>features/pricing/lib/task-expr.ts\<close>): a configuration is a list of
  tiers with conditions on usage fields, a constant and a price per unit; it is written as an
  expression and read back from one.  A matrix is a configuration with one row for every
  combination of the values of the enumerated fields.  Names are compared by the locale of the
  browser, which is the parameter \<open>le\<close>: \<open>le a b\<close> stands for \<open>a.localeCompare(b) <= 0\<close>.  Objects are
  insertion-ordered lists of entries; field names are not array indices.
\<close>

section \<open>Fields of a schema\<close>

definition TASK_TOKEN_PRICE_SCALE :: jsnum where
  "TASK_TOKEN_PRICE_SCALE = Fin 1000000"

type_synonym name_order = "jsstr \<Rightarrow> jsstr \<Rightarrow> bool"

fun insert_named :: "name_order \<Rightarrow> jsstr \<times> 'a \<Rightarrow> (jsstr \<times> 'a) list \<Rightarrow> (jsstr \<times> 'a) list" where
  "insert_named le x [] = [x]"
| "insert_named le x (y # ys) = (if le (fst x) (fst y) then x # y # ys else y # insert_named le x ys)"

definition sort_named :: "name_order \<Rightarrow> (jsstr \<times> 'a) list \<Rightarrow> (jsstr \<times> 'a) list" where
  "sort_named le xs = foldr (insert_named le) xs []"

definition has_unit :: "usage_field \<Rightarrow> bool" where
  "has_unit d \<longleftrightarrow> (case uf_unit d of None \<Rightarrow> False | Some u \<Rightarrow> u \<noteq> [])"

definition getTaskNumberFields :: "name_order \<Rightarrow> usage_schema option \<Rightarrow> (jsstr \<times> usage_field) list" where
  "getTaskNumberFields le schema =
     (case schema of
        None \<Rightarrow> []
      | Some s \<Rightarrow> sort_named le (filter (\<lambda>(_, d). uf_type d = js ''number'' \<and> has_unit d) s))"

definition getTaskEnumFields :: "name_order \<Rightarrow> usage_schema option \<Rightarrow> (jsstr \<times> usage_field) list" where
  "getTaskEnumFields le schema =
     (case schema of
        None \<Rightarrow> []
      | Some s \<Rightarrow> sort_named le (filter (\<lambda>(_, d). case uf_enum d of None \<Rightarrow> False | Some vs \<Rightarrow> vs \<noteq> []) s))"

definition enum_values :: "usage_field \<Rightarrow> jsstr list" where
  "enum_values d = (case uf_enum d of None \<Rightarrow> [] | Some vs \<Rightarrow> vs)"

type_synonym combination = "(jsstr \<times> jsstr) list"

fun combine_fields :: "(jsstr \<times> usage_field) list \<Rightarrow> combination list \<Rightarrow> combination list" where
  "combine_fields [] combinations = combinations"
| "combine_fields ((f, d) # nf) combinations =
     combine_fields nf
       (concat (map (\<lambda>c. map (\<lambda>v. omap_set f v c) (enum_values d)) combinations))"

definition getTaskEnumCombinations :: "name_order \<Rightarrow> usage_schema option \<Rightarrow> combination list" where
  "getTaskEnumCombinations le schema = combine_fields (getTaskEnumFields le schema) [[]]"

section \<open>Configurations\<close>

record matrix_row =
  mr_combination :: combination
  mr_constant :: jsnum
  mr_unitPrices :: "(jsstr \<times> jsnum) list"

text \<open>\<open>Object.fromEntries(fields.map(([field]) => [field, value]))\<close>\<close>

definition price_entries :: "(jsstr \<Rightarrow> jsnum) \<Rightarrow> (jsstr \<times> usage_field) list \<Rightarrow> (jsstr \<times> jsnum) list" where
  "price_entries g nf = fold (\<lambda>(f, _). omap_set f (g f)) nf []"

text \<open>\<open>us[f] ?? 0\<close>\<close>

definition price_or_zero :: "(jsstr \<times> jsnum) list \<Rightarrow> jsstr \<Rightarrow> jsnum" where
  "price_or_zero us f = (case map_of us f of None \<Rightarrow> Fin 0 | Some v \<Rightarrow> v)"

definition base_tier :: "jsnum \<Rightarrow> (jsstr \<times> jsnum) list \<Rightarrow> task_tier" where
  "base_tier k us = \<lparr>taskLabel = js ''base'', taskConditions = [], taskConstant = k, unitPrices = us\<rparr>"

definition createDefaultTaskVisualConfig :: "name_order \<Rightarrow> usage_schema \<Rightarrow> task_tier list" where
  "createDefaultTaskVisualConfig le schema =
     [base_tier (Fin 0) (price_entries (\<lambda>_. Fin 0) (getTaskNumberFields le (Some schema)))]"

definition createDefaultTaskMatrixConfig :: "name_order \<Rightarrow> usage_schema \<Rightarrow> matrix_row list" where
  "createDefaultTaskMatrixConfig le schema =
     (let us = price_entries (\<lambda>_. Fin 0) (getTaskNumberFields le (Some schema))
      in map (\<lambda>c. \<lparr>mr_combination = c, mr_constant = Fin 0, mr_unitPrices = us\<rparr>)
           (getTaskEnumCombinations le (Some schema)))"

definition taskMatrixRowLabel :: "name_order \<Rightarrow> combination \<Rightarrow> jsstr" where
  "taskMatrixRowLabel le combination =
     (let values = map snd (sort_named le combination)
      in if values \<noteq> [] then join [183] values else js ''base'')"

section \<open>Matrices\<close>

text \<open>\<open>a[f] === b[f]\<close> of two price objects.\<close>

definition same_price :: "(jsstr \<times> jsnum) list \<Rightarrow> (jsstr \<times> jsnum) list \<Rightarrow> jsstr \<Rightarrow> bool" where
  "same_price a b f =
     (case (map_of a f, map_of b f) of
        (None, None) \<Rightarrow> True
      | (Some x, Some y) \<Rightarrow> eq_num x y
      | _ \<Rightarrow> False)"

definition uniform_rows :: "(jsstr \<times> usage_field) list \<Rightarrow> matrix_row \<Rightarrow> matrix_row list \<Rightarrow> bool" where
  "uniform_rows nf first rows \<longleftrightarrow>
     list_all (\<lambda>row. eq_num (mr_constant row) (mr_constant first) \<and>
       list_all (\<lambda>(f, _). same_price (mr_unitPrices row) (mr_unitPrices first) f) nf) rows"

definition row_tier :: "name_order \<Rightarrow> (jsstr \<times> usage_field) list \<Rightarrow> bool \<Rightarrow> matrix_row \<Rightarrow> task_tier" where
  "row_tier le nf final row =
     \<lparr>taskLabel = taskMatrixRowLabel le (mr_combination row),
      taskConditions = (if final then [] else sort_named le (mr_combination row)),
      taskConstant = mr_constant row,
      unitPrices = price_entries (price_or_zero (mr_unitPrices row)) nf\<rparr>"

definition taskMatrixToTiers :: "name_order \<Rightarrow> matrix_row list \<Rightarrow> usage_schema \<Rightarrow> task_tier list" where
  "taskMatrixToTiers le rows schema =
     (let nf = getTaskNumberFields le (Some schema)
      in case rows of
           [] \<Rightarrow> []
         | first # _ \<Rightarrow>
             if nf = [] then []
             else if uniform_rows nf first rows
             then [base_tier (mr_constant first) (price_entries (price_or_zero (mr_unitPrices first)) nf)]
             else map (\<lambda>(i, row). row_tier le nf (i = length rows - 1) row) (enumerate 0 rows))"

definition tier_covers :: "combination \<Rightarrow> task_tier \<Rightarrow> bool" where
  "tier_covers combination t = list_all (\<lambda>(f, v). map_of combination f = Some v) (taskConditions t)"

definition covering_row :: "(jsstr \<times> usage_field) list \<Rightarrow> task_tier list \<Rightarrow> combination \<Rightarrow> matrix_row" where
  "covering_row nf tiers combination =
     (let t = (case find (tier_covers combination) tiers of None \<Rightarrow> last tiers | Some t \<Rightarrow> t)
      in \<lparr>mr_combination = combination, mr_constant = taskConstant t,
          mr_unitPrices = price_entries (price_or_zero (unitPrices t)) nf\<rparr>)"

text \<open>The rows of a list of tiers; \<open>None\<close> when the tiers do not form a matrix.\<close>

definition matrix_of_tiers :: "name_order \<Rightarrow> usage_schema \<Rightarrow> task_tier list \<Rightarrow> matrix_row list option" where
  "matrix_of_tiers le schema tiers =
     (if tiers = [] \<or> taskConditions (last tiers) \<noteq> [] \<or> \<not> list_all (\<lambda>t. distinct (map fst (taskConditions t))) tiers
      then None
      else Some (map (covering_row (getTaskNumberFields le (Some schema)) tiers)
             (getTaskEnumCombinations le (Some schema))))"

definition tryParseTaskMatrixConfig ::
  "name_order \<Rightarrow> jsstr option \<Rightarrow> usage_schema \<Rightarrow> compile_cache \<Rightarrow> (thrown + matrix_row list option) \<times> compile_cache" where
  "tryParseTaskMatrixConfig le expression schema cache =
     (case expression of
        None \<Rightarrow> (Inr None, cache)
      | Some s \<Rightarrow>
          if s = [] then (Inr None, cache)
          else
            let (r, cache1) = parseTaskTiersFromExpr s (Some schema) False cache
            in (res_bind r (\<lambda>tiers. Inr (matrix_of_tiers le schema tiers)), cache1))"

section \<open>Writing a configuration\<close>

definition usable_price :: "jsnum \<Rightarrow> jsnum" where
  "usable_price v = (if is_finite v \<and> le_num (Fin 0) v then v else Fin 0)"

definition normalize_tier :: "name_order \<Rightarrow> usage_schema \<Rightarrow> nat \<times> task_tier \<Rightarrow> task_tier" where
  "normalize_tier le schema p =
     (let (i, t) = p
      in \<lparr>taskLabel = (if taskLabel t \<noteq> [] then taskLabel t
            else if i = 0 then js ''base'' else js ''tier_'' @ num_text (num_of_int (int i + 1))),
          taskConditions = filter (\<lambda>(f, v).
            case map_of (getTaskEnumFields le (Some schema)) f of None \<Rightarrow> False | Some d \<Rightarrow> v \<in> set (enum_values d))
            (taskConditions t),
          taskConstant = usable_price (taskConstant t),
          unitPrices = price_entries (\<lambda>f. case map_of (unitPrices t) f of None \<Rightarrow> Fin 0 | Some v \<Rightarrow> usable_price v)
            (getTaskNumberFields le (Some schema))\<rparr>)"

definition normalizeTaskVisualConfig :: "name_order \<Rightarrow> task_tier list option \<Rightarrow> usage_schema \<Rightarrow> task_tier list" where
  "normalizeTaskVisualConfig le config schema =
     (case config of
        None \<Rightarrow> createDefaultTaskVisualConfig le schema
      | Some tiers \<Rightarrow>
          if tiers = [] then createDefaultTaskVisualConfig le schema
          else map (normalize_tier le schema) (enumerate 0 tiers))"

definition unit_term_text :: "task_tier \<Rightarrow> jsstr \<times> usage_field \<Rightarrow> jsstr" where
  "unit_term_text t fd =
     js ''u('' @ json_string (fst fd) @ js '') * '' @ num_text (price_or_zero (unitPrices t) (fst fd)) @
     (if uf_unit (snd fd) = Some (js ''token'') then js '' / '' @ num_text TASK_TOKEN_PRICE_SCALE else [])"

definition generateTaskTierBody :: "task_tier \<Rightarrow> (jsstr \<times> usage_field) list \<Rightarrow> jsstr" where
  "generateTaskTierBody t nf =
     join (js '' + '')
       ((if lt_num (Fin 0) (taskConstant t) then [num_text (taskConstant t)] else []) @ map (unit_term_text t) nf)"

definition generateTaskTierCall :: "task_tier \<Rightarrow> (jsstr \<times> usage_field) list \<Rightarrow> jsstr" where
  "generateTaskTierCall t nf =
     js ''tier('' @ json_string (taskLabel t) @ js '', '' @ generateTaskTierBody t nf @ js '')''"

definition task_condition_text :: "jsstr \<times> jsstr \<Rightarrow> jsstr" where
  "task_condition_text c = js ''u('' @ json_string (fst c) @ js '') == '' @ json_string (snd c)"

definition generateTaskCondition :: "(jsstr \<times> jsstr) list \<Rightarrow> jsstr" where
  "generateTaskCondition cs = join (js '' && '') (map task_condition_text cs)"

text \<open>The loop over the tiers; \<open>None\<close> is the early return when a tier before the last has no condition.\<close>

fun generate_parts :: "(jsstr \<times> usage_field) list \<Rightarrow> task_tier list \<Rightarrow> jsstr list option" where
  "generate_parts nf [] = Some []"
| "generate_parts nf [t] = Some [generateTaskTierCall t nf]"
| "generate_parts nf (t # u # ts) =
     (if generateTaskCondition (taskConditions t) = [] then None
      else map_option (\<lambda>ps. (generateTaskCondition (taskConditions t) @ js '' ? '' @ generateTaskTierCall t nf) # ps)
        (generate_parts nf (u # ts)))"

definition generateTaskExprFromConfig :: "name_order \<Rightarrow> task_tier list option \<Rightarrow> usage_schema \<Rightarrow> jsstr" where
  "generateTaskExprFromConfig le config schema =
     (let nf = getTaskNumberFields le (Some schema)
      in if nf = [] then []
         else case generate_parts nf (normalizeTaskVisualConfig le config schema) of
           None \<Rightarrow> []
         | Some parts \<Rightarrow> join (js '' : '') parts)"

definition tryParseTaskVisualConfig ::
  "name_order \<Rightarrow> jsstr option \<Rightarrow> usage_schema \<Rightarrow> compile_cache \<Rightarrow> (thrown + task_tier list option) \<times> compile_cache" where
  "tryParseTaskVisualConfig le expression schema cache =
     (case expression of
        None \<Rightarrow> (Inr None, cache)
      | Some s \<Rightarrow>
          if s = [] then (Inr None, cache)
          else
            let (r, cache1) = parseTaskTiersFromExpr s (Some schema) False cache
            in (res_bind r (\<lambda>tiers.
                  Inr (if tiers = [] then None else Some (normalizeTaskVisualConfig le (Some tiers) schema))), cache1))"

section \<open>The preview\<close>

datatype preview_part = Constant_part jsnum | Usage_part jsstr jsnum jsnum jsnum

record preview =
  pv_tier :: task_tier
  pv_total :: jsnum
  pv_parts :: "preview_part list"

type_synonym task_sample = "(jsstr \<times> usage_fact) list"

definition sample_text :: "task_sample \<Rightarrow> jsstr \<Rightarrow> jsstr option" where
  "sample_text sample f = (case map_of sample f of Some (Text_fact s) \<Rightarrow> Some s | _ \<Rightarrow> None)"

definition sample_number :: "task_sample \<Rightarrow> jsstr \<Rightarrow> jsnum" where
  "sample_number sample f =
     (case map_of sample f of
        None \<Rightarrow> NaN
      | Some (Text_fact s) \<Rightarrow> string_number s
      | Some (Number_fact n) \<Rightarrow> n)"

definition matching_tier :: "task_tier list \<Rightarrow> task_sample \<Rightarrow> task_tier" where
  "matching_tier tiers sample =
     (case find (\<lambda>t. list_all (\<lambda>(f, v). sample_text sample f = Some v) (taskConditions t)) (butlast tiers) of
        None \<Rightarrow> last tiers
      | Some t \<Rightarrow> t)"

definition priced_per_token :: "usage_schema option \<Rightarrow> jsstr \<Rightarrow> bool" where
  "priced_per_token schema f =
     (case schema of
        None \<Rightarrow> False
      | Some s \<Rightarrow> (case map_of s f of None \<Rightarrow> False | Some d \<Rightarrow> uf_unit d = Some (js ''token'')))"

text \<open>The loop over the unit prices; \<open>None\<close> is the early return of \<open>null\<close>.\<close>

fun usage_parts :: "task_sample \<Rightarrow> usage_schema option \<Rightarrow> (jsstr \<times> jsnum) list \<Rightarrow> preview_part list option" where
  "usage_parts sample schema [] = Some []"
| "usage_parts sample schema ((f, price) # us) =
     (if \<not> is_finite price \<or> lt_num price (Fin 0) then None
      else if eq_num price (Fin 0) then usage_parts sample schema us
      else
        let quantity = sample_number sample f;
            amount = (if priced_per_token schema f
              then div_num (mul_num quantity price) TASK_TOKEN_PRICE_SCALE else mul_num quantity price)
        in if \<not> is_finite quantity \<or> lt_num quantity (Fin 0) \<or> \<not> is_finite amount then None
           else map_option (\<lambda>ps. Usage_part f amount quantity price # ps) (usage_parts sample schema us))"

definition part_term :: "usage_schema option \<Rightarrow> preview_part \<Rightarrow> jsstr list" where
  "part_term schema p =
     (case p of
        Constant_part _ \<Rightarrow> []
      | Usage_part f _ _ price \<Rightarrow>
          if f = [] then []
          else [js ''u('' @ json_string f @ js '') * '' @ num_text price @
            (if priced_per_token schema f then js '' / 1000000'' else [])])"

definition fact_value :: "usage_fact \<Rightarrow> jsval" where
  "fact_value f = (case f of Text_fact s \<Rightarrow> JStr s | Number_fact n \<Rightarrow> JNum n)"

definition normalized_usage :: "task_sample \<Rightarrow> preview_part list \<Rightarrow> (jsstr \<times> jsval) list" where
  "normalized_usage sample ps =
     fold (\<lambda>p us. case p of Usage_part f _ quantity _ \<Rightarrow> if f = [] then us else omap_set f (JNum quantity) us
        | Constant_part _ \<Rightarrow> us) ps (map (\<lambda>(k, f). (k, fact_value f)) sample)"

definition evaluateTaskVisualConfig ::
  "platform \<Rightarrow> task_tier list \<Rightarrow> task_sample \<Rightarrow> usage_schema option \<Rightarrow> compile_cache \<Rightarrow> preview option \<times> compile_cache" where
  "evaluateTaskVisualConfig h tiers sample schema cache =
     (if tiers = [] then (None, cache)
      else
        let t = matching_tier tiers sample; k = taskConstant t
        in if \<not> is_finite k \<or> lt_num k (Fin 0) then (None, cache)
           else case usage_parts sample schema (unitPrices t) of
             None \<Rightarrow> (None, cache)
           | Some us \<Rightarrow>
               let parts = (if lt_num (Fin 0) k then [Constant_part k] else []) @ us;
                   terms = num_text k # concat (map (part_term schema) parts);
                   (r, cache1) = evaluateBillingExpression h
                     (js ''tier('' @ json_string (taskLabel t) @ js '', '' @ join (js '' + '') terms @ js '')'')
                     (empty_context\<lparr>usage := Some (normalized_usage sample parts)\<rparr>) cache
               in (case r of
                     Inl _ \<Rightarrow> None
                   | Inr e \<Rightarrow> Some \<lparr>pv_tier = t, pv_total = cost e, pv_parts = parts\<rparr>, cache1))"

record usage_example =
  ex_label :: jsstr
  ex_facts :: task_sample

fun evaluate_examples ::
  "platform \<Rightarrow> task_tier list \<Rightarrow> usage_schema \<Rightarrow> usage_example list \<Rightarrow> compile_cache \<Rightarrow> (jsstr \<times> jsnum) list \<times> compile_cache" where
  "evaluate_examples h tiers schema [] cache = ([], cache)"
| "evaluate_examples h tiers schema (x # xs) cache =
     (let (r, cache1) = evaluateTaskVisualConfig h tiers (ex_facts x) (Some schema) cache;
          (rows, cache2) = evaluate_examples h tiers schema xs cache1
      in ((case r of None \<Rightarrow> [] | Some p \<Rightarrow> [(ex_label x, pv_total p)]) @ rows, cache2))"

definition evaluateTaskUsageExamples ::
  "platform \<Rightarrow> name_order \<Rightarrow> jsstr option \<Rightarrow> usage_schema option \<Rightarrow> usage_example list option \<Rightarrow> compile_cache \<Rightarrow>
   (thrown + (jsstr \<times> jsnum) list) \<times> compile_cache" where
  "evaluateTaskUsageExamples h le expression schema examples cache =
     (case (expression, schema, examples) of
        (Some e, Some s, Some xs) \<Rightarrow>
          if e = [] \<or> xs = [] then (Inr [], cache)
          else
            let (r, cache1) = splitBillingExprAndRequestRules e cache
            in (case r of
                  Inl err \<Rightarrow> (Inl err, cache1)
                | Inr (billingExpr, _) \<Rightarrow>
                    let (c, cache2) = tryParseTaskVisualConfig le (Some billingExpr) s cache1
                    in (case c of
                          Inl err \<Rightarrow> (Inl err, cache2)
                        | Inr None \<Rightarrow> (Inr [], cache2)
                        | Inr (Some tiers) \<Rightarrow>
                            let (rows, cache3) = evaluate_examples h tiers s xs cache2 in (Inr rows, cache3)))
      | _ \<Rightarrow> (Inr [], cache))"

end
