(* ===== verification/Pricing_Tasks_Text.thy ===== *)
theory Pricing_Tasks_Text
  imports Pricing_Tasks Billing_Written
begin

text \<open>
  The expression that the task editor writes for a configuration, as a tree: the written text has
  the lexemes of the tree, the tree is well typed, and reading it gives the configuration.
\<close>

section \<open>Trees\<close>

abbreviation usage_call :: "jsstr \<Rightarrow> expr" where
  "usage_call f \<equiv> Call (js ''u'') [string_lit f] 0 0"

definition unit_tree :: "task_tier \<Rightarrow> jsstr \<times> usage_field \<Rightarrow> expr" where
  "unit_tree t fd =
     (let m = binary ''*'' (usage_call (fst fd)) (number_lit (price_or_zero (unitPrices t) (fst fd)))
      in if uf_unit (snd fd) = Some (js ''token'') then binary ''/'' m (number_lit TASK_TOKEN_PRICE_SCALE) else m)"

definition body_terms :: "task_tier \<Rightarrow> (jsstr \<times> usage_field) list \<Rightarrow> expr list" where
  "body_terms t nf =
     (if lt_num (Fin 0) (taskConstant t) then [number_lit (taskConstant t)] else []) @ map (unit_tree t) nf"

definition call_tree :: "task_tier \<Rightarrow> (jsstr \<times> usage_field) list \<Rightarrow> expr" where
  "call_tree t nf = Call (js ''tier'') [string_lit (taskLabel t), op_chain ''+'' (body_terms t nf)] 0 0"

definition condition_tree :: "jsstr \<times> jsstr \<Rightarrow> expr" where
  "condition_tree c = binary ''=='' (usage_call (fst c)) (string_lit (snd c))"

fun config_tree :: "(jsstr \<times> usage_field) list \<Rightarrow> task_tier list \<Rightarrow> expr" where
  "config_tree nf [] = undefined"
| "config_tree nf [t] = call_tree t nf"
| "config_tree nf (t # u # ts) =
     Conditional (op_chain ''&&'' (map condition_tree (taskConditions t))) (call_tree t nf) (config_tree nf (u # ts)) 0 0"

section \<open>Pieces of the text\<close>

lemma spelt_usage_call: "spelt False (js ''u('' @ json_string f @ js '')'') (tokens_of m (usage_call f))"
proof -
  have u: "spelt True (js ''u'') [name (js ''u'')]" by (rule spelt_name) (simp_all add: js_eval is_alpha_us_def)
  have "spelt False (json_string f @ [41]) ([quoted (json_string f) f] @ [symbol [41]])"
    by (rule spelt_append [OF spelt_string spelt_bracket]) simp_all
  then have "spelt False ([40] @ json_string f @ [41]) ([symbol [40]] @ [quoted (json_string f) f] @ [symbol [41]])"
    by (intro spelt_append [OF spelt_bracket]) simp_all
  then have "spelt False (js ''u'' @ [40] @ json_string f @ [41]) ([name (js ''u'')] @ [symbol [40]] @ [quoted (json_string f) f] @ [symbol [41]])"
    by (rule spelt_append [OF u]) simp
  then show ?thesis by (simp add: js_eval)
qed

lemma scale_printable: "printable TASK_TOKEN_PRICE_SCALE"
  by (simp add: printable_def TASK_TOKEN_PRICE_SCALE_def plain_double_def is_safe_integer_def is_integer_def to_double_of_int [of 1000000, simplified])

text \<open>The configurations whose numbers can be written.\<close>

definition prices_ok :: "(jsstr \<times> usage_field) list \<Rightarrow> task_tier \<Rightarrow> bool" where
  "prices_ok nf t \<longleftrightarrow> printable (taskConstant t) \<and> (\<forall>fd \<in> set nf. printable (price_or_zero (unitPrices t) (fst fd)))"

lemma unit_tree_tokens: "bare_until 6 (unit_tree t fd)"
  by (simp add: bare_until_def unit_tree_def Let_def grouped_def)

lemma spelt_unit_term:
  assumes "printable (price_or_zero (unitPrices t) (fst fd))"
  shows "spelt True (unit_term_text t fd) (tokens_of 0 (unit_tree t fd))"
proof -
  let ?p = "price_or_zero (unitPrices t) (fst fd)"
  let ?u = "js ''u('' @ json_string (fst fd) @ js '')''"
  have star: "spelt False [42] [symbol [42]]" and slash: "spelt False [47] [symbol [47]]" by (rule spelt_bracket, simp)+
  have m: "spelt True (?u @ 32 # [42] @ 32 # num_text ?p) (tokens_of 6 (usage_call (fst fd)) @ symbol [42] # [number_token ?p])"
    by (rule spelt_infix [OF spelt_usage_call star spelt_number [OF assms]])
  show ?thesis
  proof (cases "uf_unit (snd fd) = Some (js ''token'')")
    case True
    then show ?thesis using spelt_infix [OF m slash spelt_number [OF scale_printable]]
      by (simp add: unit_term_text_def unit_tree_def Let_def grouped_def js_eval)
  next
    case False
    then show ?thesis using m by (simp add: unit_term_text_def unit_tree_def Let_def grouped_def js_eval)
  qed
qed

lemma spelt_body:
  assumes "prices_ok nf t" "nf \<noteq> []"
  shows "spelt True (generateTaskTierBody t nf) (tokens_of 0 (op_chain ''+'' (body_terms t nf)))"
proof -
  define ps where "ps = (if lt_num (Fin 0) (taskConstant t) then [(num_text (taskConstant t), number_lit (taskConstant t))] else []) @
    map (\<lambda>fd. (unit_term_text t fd, unit_tree t fd)) nf"
  have ps: "map snd ps = body_terms t nf" "map fst ps = (if lt_num (Fin 0) (taskConstant t) then [num_text (taskConstant t)] else []) @
      map (unit_term_text t) nf" "ps \<noteq> []"
    using assms(2) by (simp_all add: ps_def body_terms_def)
  have units: "\<forall>fd \<in> set nf. spelt True (unit_term_text t fd) (tokens_of 0 (unit_tree t fd))"
    using assms(1) spelt_unit_term by (simp add: prices_ok_def)
  have x: "\<forall>x \<in> set ps. spelt True (fst x) (tokens_of 0 (snd x))" "\<forall>x \<in> set (map snd ps). bare_until (Suc 5) x"
    using assms(1) units unit_tree_tokens literal_bare by (auto simp: ps_def prices_ok_def intro: spelt_number)
  have "spelt False (js ''+'') [symbol (js ''+'')]" using spelt_bracket [of 43] by (simp add: js_eval)
  then have "spelt True (join (32 # js ''+'' @ [32]) (map fst ps))
      (tokens_of 0 (snd (hd ps)) @ concat (map (\<lambda>x. symbol (js ''+'') # tokens_of 0 (snd x)) (tl ps)))"
    using spelt_join [of "js ''+''" ps fst "\<lambda>x. tokens_of 0 (snd x)"] ps(3) x(1) by blast
  moreover have "tokens_of 0 (op_chain ''+'' (map snd ps)) =
      tokens_of 0 (snd (hd ps)) @ concat (map (\<lambda>x. symbol (js ''+'') # tokens_of 0 (snd x)) (tl ps))"
    using chain_tokens [of "map snd ps" "''+''" 5 0] ps(3) x(2) by (cases ps) (simp_all add: o_def)
  ultimately show ?thesis unfolding generateTaskTierBody_def ps(1) [symmetric] ps(2) [symmetric] by (simp add: js_eval)
qed

lemma spelt_call:
  assumes "prices_ok nf t" "nf \<noteq> []"
  shows "spelt False (generateTaskTierCall t nf) (tokens_of 0 (call_tree t nf))"
proof -
  have n: "spelt True (js ''tier'') [name (js ''tier'')]" by (rule spelt_name) (simp_all add: js_eval is_alpha_us_def is_word_def)
  have "spelt False (generateTaskTierBody t nf @ [41]) (tokens_of 0 (op_chain ''+'' (body_terms t nf)) @ [symbol [41]])"
    by (rule spelt_append [OF spelt_body [OF assms] spelt_bracket]) simp_all
  then have "spelt False ([44] @ 32 # generateTaskTierBody t nf @ [41]) ([symbol [44]] @ tokens_of 0 (op_chain ''+'' (body_terms t nf)) @ [symbol [41]])"
    by (intro spelt_append [OF spelt_bracket] spelt_spaced) simp_all
  then have "spelt False (json_string (taskLabel t) @ [44] @ 32 # generateTaskTierBody t nf @ [41])
      ([quoted (json_string (taskLabel t)) (taskLabel t)] @ [symbol [44]] @ tokens_of 0 (op_chain ''+'' (body_terms t nf)) @ [symbol [41]])"
    by (rule spelt_append [OF spelt_string]) simp
  then have "spelt False ([40] @ json_string (taskLabel t) @ [44] @ 32 # generateTaskTierBody t nf @ [41])
      ([symbol [40]] @ [quoted (json_string (taskLabel t)) (taskLabel t)] @ [symbol [44]] @ tokens_of 0 (op_chain ''+'' (body_terms t nf)) @ [symbol [41]])"
    by (intro spelt_append [OF spelt_bracket]) simp_all
  from spelt_append [OF n this] show ?thesis
    by (simp add: generateTaskTierCall_def call_tree_def js_eval)
qed

lemma condition_tokens: "bare_until 3 (condition_tree c)"
  by (simp add: bare_until_def condition_tree_def grouped_def)

lemma spelt_condition: "spelt True (task_condition_text c) (tokens_of 0 (condition_tree c))"
proof -
  have "spelt False (js ''=='') [symbol (js ''=='')]" by (rule spelt_pair) (simp add: two_char_operators_def)
  from spelt_infix [OF spelt_usage_call this spelt_weaken [OF spelt_string]] show ?thesis
    by (simp add: task_condition_text_def condition_tree_def grouped_def js_eval)
qed

lemma spelt_conditions:
  assumes "cs \<noteq> []"
  shows "spelt True (generateTaskCondition cs) (tokens_of 1 (op_chain ''&&'' (map condition_tree cs)))"
proof -
  have "spelt False (js ''&&'') [symbol (js ''&&'')]" by (rule spelt_pair) (simp add: two_char_operators_def)
  then have "spelt True (join (32 # js ''&&'' @ [32]) (map task_condition_text cs))
      (tokens_of 0 (condition_tree (hd cs)) @ concat (map (\<lambda>x. symbol (js ''&&'') # tokens_of 0 (condition_tree x)) (tl cs)))"
    using spelt_join [of "js ''&&''" cs task_condition_text "\<lambda>c. tokens_of 0 (condition_tree c)"] assms spelt_condition by blast
  moreover have "tokens_of 1 (op_chain ''&&'' (map condition_tree cs)) =
      tokens_of 0 (condition_tree (hd cs)) @ concat (map (\<lambda>x. symbol (js ''&&'') # tokens_of 0 (condition_tree x)) (tl cs))"
    using chain_tokens [of "map condition_tree cs" "''&&''" 2 1] assms condition_tokens
    by (cases cs) (simp_all add: o_def numeral_3_eq_3 [symmetric])
  ultimately show ?thesis by (simp add: generateTaskCondition_def js_eval)
qed

text \<open>The whole text.\<close>

definition config_text :: "(jsstr \<times> usage_field) list \<Rightarrow> task_tier list \<Rightarrow> jsstr" where
  "config_text nf ts = (case generate_parts nf ts of None \<Rightarrow> [] | Some ps \<Rightarrow> join (js '' : '') ps)"

text \<open>Every tier but the last has a condition.\<close>

definition conditional_tiers :: "task_tier list \<Rightarrow> bool" where
  "conditional_tiers ts \<longleftrightarrow> (\<forall>t \<in> set (butlast ts). taskConditions t \<noteq> [])"

lemma condition_text_Nil: "generateTaskCondition cs = [] \<longleftrightarrow> cs = []"
  by (cases cs; cases "tl cs") (auto simp: generateTaskCondition_def task_condition_text_def js_eval)

lemma generated_parts:
  "conditional_tiers ts \<Longrightarrow> ts \<noteq> [] \<Longrightarrow> \<exists>p ps. generate_parts nf ts = Some (p # ps)"
proof (induction ts rule: induct_list012)
  case (3 t u ts)
  then show ?case by (fastforce simp: conditional_tiers_def condition_text_Nil)
qed simp_all

lemma config_text_simps:
  "config_text nf [t] = generateTaskTierCall t nf"
  "conditional_tiers (t # u # ts) \<Longrightarrow> config_text nf (t # u # ts) =
     generateTaskCondition (taskConditions t) @ js '' ? '' @ generateTaskTierCall t nf @ js '' : '' @ config_text nf (u # ts)"
proof -
  assume c: "conditional_tiers (t # u # ts)"
  then have "conditional_tiers (u # ts)" "taskConditions t \<noteq> []" by (simp_all add: conditional_tiers_def)
  moreover from this obtain p ps where "generate_parts nf (u # ts) = Some (p # ps)" using generated_parts by blast
  ultimately show "config_text nf (t # u # ts) =
     generateTaskCondition (taskConditions t) @ js '' ? '' @ generateTaskTierCall t nf @ js '' : '' @ config_text nf (u # ts)"
    by (simp add: config_text_def condition_text_Nil)
qed (simp add: config_text_def)

lemma spelt_config:
  assumes "nf \<noteq> []"
  shows "ts \<noteq> [] \<Longrightarrow> conditional_tiers ts \<Longrightarrow> \<forall>t \<in> set ts. prices_ok nf t \<Longrightarrow>
    spelt False (config_text nf ts) (tokens_of 0 (config_tree nf ts))"
proof (induction ts rule: induct_list012)
  case (2 t)
  then show ?case using spelt_call [OF _ assms] by (simp add: config_text_simps)
next
  case (3 t u ts)
  have c: "taskConditions t \<noteq> []" "conditional_tiers (u # ts)" using 3(4) by (simp_all add: conditional_tiers_def)
  have q: "spelt False [63] [symbol [63]]" and s: "spelt False [58] [symbol [58]]" by (rule spelt_bracket, simp)+
  have "spelt False (generateTaskTierCall t nf @ 32 # [58] @ 32 # config_text nf (u # ts))
      (tokens_of 0 (call_tree t nf) @ symbol [58] # tokens_of 0 (config_tree nf (u # ts)))"
    using 3 c(2) by (intro spelt_infix [OF spelt_call [OF _ assms] s]) auto
  from spelt_infix [OF spelt_conditions [OF c(1)] q this] show ?case
    by (simp add: config_text_simps(2) [OF 3(4)] grouped_def js_eval)
qed simp

section \<open>The tree is well formed\<close>

lemma unit_tree_ok:
  assumes "printable (price_or_zero (unitPrices t) (fst fd))"
  shows "writable (unit_tree t fd)" "typed (unit_tree t fd) TNumber" "calls_of (unit_tree t fd) = {js ''u''}"
    "flattenBinary (js ''+'') (unit_tree t fd) = [unit_tree t fd]" "erase (unit_tree t fd) = unit_tree t fd"
  using assms scale_printable
  by (auto simp: unit_tree_def Let_def BILLING_FUNCTIONS_def call_type_def fits_def binary_type_def logical_operators_def
      comparison_operators_def list_all2_Cons1)

lemma body_terms_ok:
  assumes "prices_ok nf t" "x \<in> set (body_terms t nf)"
  shows "writable x" "typed x TNumber" "calls_of x \<subseteq> {js ''u''}" "flattenBinary (js ''+'') x = [x]"
  using assms unit_tree_ok [of t]
  by (auto simp: body_terms_def prices_ok_def split: if_splits)

lemma body_terms_nonempty: "nf \<noteq> [] \<Longrightarrow> body_terms t nf \<noteq> []"
  by (simp add: body_terms_def)

lemma call_tree_ok:
  assumes "prices_ok nf t" "nf \<noteq> []"
  shows "writable (call_tree t nf)" "typed (call_tree t nf) TNumber" "js ''fixed'' \<notin> calls_of (call_tree t nf)"
proof -
  note b = body_terms_nonempty [OF assms(2)] and x = body_terms_ok [OF assms(1)]
  have "writable (op_chain ''+'' (body_terms t nf))" using chain_writable [OF b] x(1) by simp
  then show "writable (call_tree t nf)" by (simp add: call_tree_def BILLING_FUNCTIONS_def)
  have "typed (op_chain ''+'' (body_terms t nf)) TNumber"
    by (rule chain_typed [OF b]) (use x(2) in \<open>simp_all add: binary_type_def logical_operators_def comparison_operators_def fits_def\<close>)
  then show "typed (call_tree t nf) TNumber"
    by (auto simp: call_tree_def call_type_def fits_def TIME_FUNCTIONS_def intro!: exI [of _ "[TString, TNumber]"])
  show "js ''fixed'' \<notin> calls_of (call_tree t nf)"
    using x(3) by (fastforce simp: call_tree_def chain_calls [OF b])
qed

lemma conditions_tree_ok:
  assumes "cs \<noteq> []"
  shows "writable (op_chain ''&&'' (map condition_tree cs))" "typed (op_chain ''&&'' (map condition_tree cs)) TBoolean"
    "js ''fixed'' \<notin> calls_of (op_chain ''&&'' (map condition_tree cs))"
proof -
  have b: "map condition_tree cs \<noteq> []" using assms by simp
  have x: "writable (condition_tree c)" "typed (condition_tree c) TBoolean" "calls_of (condition_tree c) = {js ''u''}" for c
    by (auto simp: condition_tree_def BILLING_FUNCTIONS_def call_type_def fits_def binary_type_def logical_operators_def
        comparison_operators_def list_all2_Cons1)
  show "writable (op_chain ''&&'' (map condition_tree cs))" using chain_writable [OF b] x(1) by auto
  show "typed (op_chain ''&&'' (map condition_tree cs)) TBoolean"
    by (rule chain_typed [OF b]) (use x(2) in \<open>auto simp: binary_type_def logical_operators_def fits_def\<close>)
  show "js ''fixed'' \<notin> calls_of (op_chain ''&&'' (map condition_tree cs))"
    using x(3) by (auto simp: chain_calls [OF b])
qed

lemma config_tree_ok:
  assumes "nf \<noteq> []"
  shows "ts \<noteq> [] \<Longrightarrow> conditional_tiers ts \<Longrightarrow> \<forall>t \<in> set ts. prices_ok nf t \<Longrightarrow>
    writable (config_tree nf ts) \<and> typed (config_tree nf ts) TNumber \<and> js ''fixed'' \<notin> calls_of (config_tree nf ts)"
proof (induction ts rule: induct_list012)
  case (2 t)
  then show ?case using call_tree_ok [OF _ assms] by simp
next
  case (3 t u ts)
  have c: "taskConditions t \<noteq> []" "conditional_tiers (u # ts)" using 3(4) by (simp_all add: conditional_tiers_def)
  have t: "prices_ok nf t" using 3(5) by simp
  show ?case using 3 c conditions_tree_ok [OF c(1)] call_tree_ok [OF t assms] by (auto simp: fits_def intro!: exI [of _ TBoolean])
qed simp

section \<open>Reading the tree\<close>

text \<open>A schema with every field once, in which enumerated fields are not boolean.\<close>

definition schema_ok :: "usage_schema \<Rightarrow> bool" where
  "schema_ok s \<longleftrightarrow> distinct (map fst s) \<and> (\<forall>(f, d) \<in> set s. enum_values d \<noteq> [] \<longrightarrow> uf_type d \<noteq> js ''boolean'')"

lemma set_insert_named [simp]: "set (insert_named le x ys) = insert x (set ys)"
  by (induction ys) auto

lemma set_sort_named [simp]: "set (sort_named le xs) = set xs"
  by (induction xs) (auto simp: sort_named_def)

lemma distinct_insert_named: "distinct (map fst (insert_named le x ys)) \<longleftrightarrow> distinct (map fst (x # ys))"
  by (induction ys) (auto simp: image_iff)

lemma distinct_sort_named: "distinct (map fst (sort_named le xs)) \<longleftrightarrow> distinct (map fst xs)"
proof (induction xs)
  case (Cons x xs)
  then show ?case using distinct_insert_named [of le x "sort_named le xs"] by (simp add: sort_named_def)
     (metis image_set list.set_map set_sort_named sort_named_def)
qed (simp add: sort_named_def)

lemma number_fields:
  assumes "schema_ok s" "fd \<in> set (getTaskNumberFields le (Some s))"
  shows "map_of s (fst fd) = Some (snd fd)" "uf_type (snd fd) = js ''number''" "has_unit (snd fd)"
  using assms by (auto simp: getTaskNumberFields_def schema_ok_def split: prod.splits intro!: map_of_is_SomeI)

lemma distinct_fields:
  assumes "schema_ok s"
  shows "distinct (map fst (getTaskNumberFields le (Some s)))" "distinct (map fst (getTaskEnumFields le (Some s)))"
  using assms by (auto simp: getTaskNumberFields_def getTaskEnumFields_def distinct_sort_named schema_ok_def intro: distinct_map_filter)

lemma printable_nonneg: "printable v \<Longrightarrow> le_num (Fin 0) v"
  using plain_double_nonneg by (simp add: printable_def)

lemma printable_zero: "printable v \<Longrightarrow> \<not> lt_num (Fin 0) v \<Longrightarrow> v = Fin 0"
  by (auto simp: printable_def plain_double_def)

abbreviation field_price :: "task_tier \<Rightarrow> jsstr \<times> usage_field \<Rightarrow> jsstr \<times> jsnum" where
  "field_price t fd \<equiv> (fst fd, price_or_zero (unitPrices t) (fst fd))"

lemma unit_term_read:
  assumes "map_of s (fst fd) = Some (snd fd)" "uf_type (snd fd) = js ''number''" "has_unit (snd fd)"
    and "printable (price_or_zero (unitPrices t) (fst fd))"
  shows "task_unit_term s (unit_tree t fd) = Some (field_price t fd)" "nonnegativePriceLiteral (unit_tree t fd) = None"
proof -
  have "eq_num TASK_TOKEN_PRICE_SCALE (Fin 1000000)" by (simp add: TASK_TOKEN_PRICE_SCALE_def)
  then show "task_unit_term s (unit_tree t fd) = Some (field_price t fd)"
    using assms printable_nonneg [OF assms(4)]
    by (auto simp: task_unit_term_def unit_tree_def Let_def usage_name_def nonnegativePriceLiteral_def has_unit_def split: option.splits)
  show "nonnegativePriceLiteral (unit_tree t fd) = None" by (simp add: unit_tree_def Let_def nonnegativePriceLiteral_def)
qed

lemma units_read:
  assumes "schema_ok s"
  shows "set nf \<subseteq> set (getTaskNumberFields le (Some s)) \<Longrightarrow> distinct (map fst nf) \<Longrightarrow>
    \<forall>fd \<in> set nf. printable (price_or_zero (unitPrices t) (fst fd)) \<Longrightarrow> fst ` set nf \<inter> fst ` set acc = {} \<Longrightarrow>
    collect_task_prices s (map (unit_tree t) nf) k acc = Some (k, acc @ map (field_price t) nf)"
proof (induction nf arbitrary: acc)
  case (Cons fd nf)
  have "fd \<in> set (getTaskNumberFields le (Some s))" using Cons.prems(1) by simp
  note u = unit_term_read [OF number_fields [OF assms this], of t]
  have "fst fd \<notin> fst ` set acc" "printable (price_or_zero (unitPrices t) (fst fd))" using Cons.prems by auto
  moreover have "fst ` set nf \<inter> fst ` set (acc @ [field_price t fd]) = {}" using Cons.prems by auto
  ultimately show ?case using u Cons by simp
qed simp

lemma call_read_back:
  assumes "schema_ok s" "prices_ok (getTaskNumberFields le (Some s)) t" "getTaskNumberFields le (Some s) \<noteq> []"
  shows "taskTier (call_tree t (getTaskNumberFields le (Some s))) conds s =
    Some \<lparr>taskLabel = taskLabel t, taskConditions = conds, taskConstant = taskConstant t,
      unitPrices = map (field_price t) (getTaskNumberFields le (Some s))\<rparr>"
proof -
  let ?nf = "getTaskNumberFields le (Some s)"
  have p: "printable (taskConstant t)" "\<forall>fd \<in> set ?nf. printable (price_or_zero (unitPrices t) (fst fd))"
    using assms(2) by (simp_all add: prices_ok_def)
  have "flattenBinary (js ''+'') (op_chain ''+'' (body_terms t ?nf)) = body_terms t ?nf"
    using chain_flatten [OF body_terms_nonempty [OF assms(3)]] body_terms_ok(4) [OF assms(2)] by blast
  moreover have "nonnegativePriceLiteral (number_lit (taskConstant t)) = Some (taskConstant t)"
    using printable_nonneg [OF p(1)] by (simp add: nonnegativePriceLiteral_def)
  ultimately show ?thesis
    using units_read [OF assms(1) order_refl distinct_fields(1) [OF assms(1)] p(2), of "[]"] assms(3) printable_zero [OF p(1)]
    by (auto simp: call_tree_def taskTier_def body_terms_def)
qed

definition conditions_ok :: "usage_schema \<Rightarrow> (jsstr \<times> jsstr) list \<Rightarrow> bool" where
  "conditions_ok s cs \<longleftrightarrow> (\<forall>(f, v) \<in> set cs. \<exists>d. map_of s f = Some d \<and> v \<in> set (enum_values d))"

lemma conditions_read_back:
  assumes "schema_ok s" "conditions_ok s cs" "cs \<noteq> []"
  shows "read_task_conditions (op_chain ''&&'' (map condition_tree cs)) s b = Some cs"
proof -
  have "flattenBinary (js ''&&'') (op_chain ''&&'' (map condition_tree cs)) = map condition_tree cs"
    using chain_flatten [of "map condition_tree cs" "''&&''"] assms(3) by (auto simp: condition_tree_def)
  moreover have "task_condition s b (condition_tree c) = Some c" if c: "c \<in> set cs" for c
  proof -
    obtain d where d: "map_of s (fst c) = Some d" "snd c \<in> set (enum_values d)"
      using assms(2) c by (auto simp: conditions_ok_def)
    then have "(fst c, d) \<in> set s" "enum_values d \<noteq> []" by (auto dest: map_of_SomeD)
    then have "uf_type d \<noteq> js ''boolean''" using assms(1) by (auto simp: schema_ok_def)
    then show ?thesis using d by (cases "uf_enum d") (auto simp: task_condition_def condition_tree_def usage_name_def enum_values_def)
  qed
  then have "those (map (task_condition s b \<circ> condition_tree) cs) = Some cs" by (induction cs) auto
  ultimately show ?thesis by (simp add: read_task_conditions_def)
qed

text \<open>A tier as the editor keeps it: labelled, with a price for every numeric field in their order.\<close>

definition tier_ready :: "name_order \<Rightarrow> usage_schema \<Rightarrow> task_tier \<Rightarrow> bool" where
  "tier_ready le s t \<longleftrightarrow>
     taskLabel t \<noteq> [] \<and> conditions_ok s (taskConditions t) \<and> prices_ok (getTaskNumberFields le (Some s)) t \<and>
     unitPrices t = map (field_price t) (getTaskNumberFields le (Some s))"

lemma config_read_back:
  assumes "schema_ok s" "getTaskNumberFields le (Some s) \<noteq> []"
  shows "ts \<noteq> [] \<Longrightarrow> conditional_tiers ts \<Longrightarrow> \<forall>t \<in> set ts. tier_ready le s t \<Longrightarrow> taskConditions (last ts) = [] \<Longrightarrow>
    readTaskTierChain s b (config_tree (getTaskNumberFields le (Some s)) ts) = Some ts"
proof (induction ts rule: induct_list012)
  case (2 t)
  then have t: "prices_ok (getTaskNumberFields le (Some s)) t" "unitPrices t = map (field_price t) (getTaskNumberFields le (Some s))"
    by (simp_all add: tier_ready_def)
  have "taskTier (call_tree t (getTaskNumberFields le (Some s))) [] s = Some t"
    unfolding call_read_back [OF assms(1) t(1) assms(2)] t(2) [symmetric] using 2 by simp
  then show ?case by (simp add: call_tree_def)
next
  case (3 t u ts)
  have c: "taskConditions t \<noteq> []" "conditional_tiers (u # ts)" using 3(4) by (simp_all add: conditional_tiers_def)
  have t: "prices_ok (getTaskNumberFields le (Some s)) t" "unitPrices t = map (field_price t) (getTaskNumberFields le (Some s))"
    "conditions_ok s (taskConditions t)" using 3(5) by (simp_all add: tier_ready_def)
  have "taskTier (call_tree t (getTaskNumberFields le (Some s))) (taskConditions t) s = Some t"
    unfolding call_read_back [OF assms(1) t(1) assms(2)] t(2) [symmetric] by simp
  then show ?case using 3 c conditions_read_back [OF assms(1) t(3) c(1)] by simp
qed simp

section \<open>Normalisation keeps a ready configuration\<close>

lemma price_entries_map: "distinct (map fst nf) \<Longrightarrow> price_entries g nf = map (\<lambda>fd. (fst fd, g (fst fd))) nf"
proof -
  have "fst ` set nf \<inter> fst ` set acc = {} \<Longrightarrow> distinct (map fst nf) \<Longrightarrow>
      fold (\<lambda>(f, _). omap_set f (g f)) nf acc = acc @ map (\<lambda>fd. (fst fd, g (fst fd))) nf" for acc
  proof (induction nf arbitrary: acc)
    case (Cons fd nf)
    have "omap_set (fst fd) (g (fst fd)) acc = acc @ [(fst fd, g (fst fd))]"
      using Cons.prems(1) by (intro omap_set_new) auto
    then show ?case using Cons.IH [of "acc @ [(fst fd, g (fst fd))]"] Cons.prems by (cases fd) auto
  qed simp
  then show "distinct (map fst nf) \<Longrightarrow> ?thesis" by (simp add: price_entries_def)
qed

lemma usable_printable: "printable v \<Longrightarrow> usable_price v = v"
  using printable_nonneg plain_double_finite by (simp add: usable_price_def printable_def)

lemma enum_field:
  assumes "schema_ok s" "map_of s f = Some d" "enum_values d \<noteq> []"
  shows "map_of (getTaskEnumFields le (Some s)) f = Some d"
proof -
  have "(f, d) \<in> set (getTaskEnumFields le (Some s))"
    using assms(2,3) map_of_SomeD by (fastforce simp: getTaskEnumFields_def enum_values_def split: option.splits)
  then show ?thesis using distinct_fields(2) [OF assms(1)] by (intro map_of_is_SomeI)
qed

lemma ready_normalized:
  assumes "schema_ok s" "tier_ready le s t"
  shows "normalize_tier le s (i, t) = t"
proof -
  let ?nf = "getTaskNumberFields le (Some s)"
  have t: "taskLabel t \<noteq> []" "conditions_ok s (taskConditions t)" "prices_ok ?nf t" "unitPrices t = map (field_price t) ?nf"
    using assms(2) by (auto simp: tier_ready_def)
  have "case map_of (getTaskEnumFields le (Some s)) f of None \<Rightarrow> False | Some d \<Rightarrow> v \<in> set (enum_values d)"
    if "(f, v) \<in> set (taskConditions t)" for f v
    using t(2) that enum_field [OF assms(1)] by (fastforce simp: conditions_ok_def)
  then have "filter (\<lambda>(f, v). case map_of (getTaskEnumFields le (Some s)) f of None \<Rightarrow> False | Some d \<Rightarrow> v \<in> set (enum_values d))
      (taskConditions t) = taskConditions t"
    by (auto simp: filter_id_conv)
  moreover have "usable_price (taskConstant t) = taskConstant t" using t(3) usable_printable by (simp add: prices_ok_def)
  moreover have "(case map_of (unitPrices t) (fst fd) of None \<Rightarrow> Fin 0 | Some v \<Rightarrow> usable_price v) = price_or_zero (unitPrices t) (fst fd)"
    if "fd \<in> set ?nf" for fd
    using that t(3) usable_printable by (auto simp: prices_ok_def price_or_zero_def split: option.splits)
  then have "price_entries (\<lambda>f. case map_of (unitPrices t) f of None \<Rightarrow> Fin 0 | Some v \<Rightarrow> usable_price v) ?nf = unitPrices t"
    unfolding price_entries_map [OF distinct_fields(1) [OF assms(1)]] by (subst (2) t(4)) simp
  ultimately show ?thesis using t(1) by (simp add: normalize_tier_def)
qed

section \<open>The text has no request rules\<close>

lemma walk_unicode_escape:
  assumes "c < 65536"
  shows "walk h (d, Some 34) (unicode_escape c @ r) = walk h (d, Some 34) r"
proof -
  have "hex_digit n \<noteq> 34 \<and> hex_digit n \<noteq> 92" if "n < 16" for n using that by (auto simp: hex_digit_def)
  then show ?thesis by (simp add: unicode_escape_def)
qed

lemma walk_quote_unit: "walk h (d, Some 34) (quote_unit c @ r) = walk h (d, Some 34) r"
  using walk_unicode_escape [of c] by (auto simp: quote_unit_def)

lemma walk_quote_units: "walk h (d, Some 34) (quote_units s @ r) = walk h (d, Some 34) r"
proof (induction s rule: quote_units.induct)
  case (2 c d' s)
  then show ?case using walk_unicode_escape [of c] walk_quote_unit by auto
next
  case (3 c)
  then show ?case using walk_unicode_escape [of c] walk_quote_unit by auto
qed simp

lemma walk_json: "walk h (d, None) (json_string s @ r) = walk h (d, None) r"
  using walk_quote_units [of h d s "34 # r"] by (simp add: json_string_def is_quote_def)

lemma num_text_units: "printable v \<Longrightarrow> \<forall>c \<in> set (num_text v). is_digit c \<or> c \<in> {46, 101, 43, 45}"
proof -
  assume "printable v"
  then obtain ip fp e where t: "num_text v = numeral_text ip fp e" "numeral_parts ip fp"
    using num_text_shown [of v] by (auto simp: printable_def)
  have "\<forall>c \<in> set (nat_digits n). is_digit c" for n using nat_digits_all by (simp add: list_all_iff)
  then show ?thesis using t by (auto simp: numeral_text_def numeral_parts_def digits_def list_all_iff int_text_parts split: option.splits)
qed

lemma walk_number: "printable v \<Longrightarrow> walk 42 (d, None) (num_text v @ r) = walk 42 (d, None) r"
proof -
  assume "printable v"
  then have "\<forall>c \<in> set (num_text v). quiet 42 c" using num_text_units by (fastforce simp: quiet_def is_quote_def is_digit_def)
  then show ?thesis using walk_append walk_quiet by blast
qed

text \<open>Inside of parentheses, and at the top where there is neither a product nor a choice.\<close>

lemma walk_usage_call: "0 \<le> d \<Longrightarrow> walk 42 (d, None) (js ''u('' @ json_string f @ js '')'' @ r) = walk 42 (d, None) r"
  using walk_json [of 42 "d + 1" f "js '')'' @ r"] by (simp add: js_eval is_quote_def bracket_depth_def)

lemma walk_unit_term:
  assumes "printable (price_or_zero (unitPrices t) (fst fd))" "0 < d"
  shows "walk 42 (d, None) (unit_term_text t fd @ r) = walk 42 (d, None) r"
  using walk_usage_call [of d "fst fd"] walk_number [OF assms(1)] walk_number [OF scale_printable] assms(2)
  by (simp add: unit_term_text_def js_eval is_quote_def bracket_depth_def)

lemma walk_join:
  assumes "\<forall>x \<in> set xs. \<forall>r. walk 42 (d, None) (x @ r) = walk 42 (d, None) r" "\<forall>r. walk 42 (d, None) (p @ r) = walk 42 (d, None) r"
  shows "walk 42 (d, None) (join p xs @ r) = walk 42 (d, None) r"
  using assms by (induction p xs rule: join.induct) auto

lemma walk_call:
  assumes "prices_ok nf t" "0 \<le> d"
  shows "walk 42 (d, None) (generateTaskTierCall t nf @ r) = walk 42 (d, None) r"
proof -
  have "walk 42 (d + 1, None) (generateTaskTierBody t nf @ js '')'' @ r) = walk 42 (d + 1, None) (js '')'' @ r)"
    unfolding generateTaskTierBody_def
    using assms walk_unit_term [of t _ "d + 1"] walk_number [of _ "d + 1"]
    by (intro walk_join) (auto simp: prices_ok_def js_eval is_quote_def bracket_depth_def)
  then show ?thesis
    using assms(2) walk_json [of 42 "d + 1" "taskLabel t"]
    by (simp add: generateTaskTierCall_def js_eval is_quote_def bracket_depth_def)
qed

lemma walk_conditions: "0 \<le> d \<Longrightarrow> walk 42 (d, None) (generateTaskCondition cs @ r) = walk 42 (d, None) r"
  unfolding generateTaskCondition_def
  using walk_usage_call [of d] walk_json [of 42 d]
  by (intro walk_join) (auto simp: task_condition_text_def js_eval is_quote_def bracket_depth_def)

end
