(* ===== verification/Pricing_Rules_Text.thy ===== *)
theory Pricing_Rules_Text
  imports Pricing_Rules
begin

text \<open>
  The texts of conditions and what the patterns of the reader make of them.  A condition is
  written as one piece, or as the two bounds of a range within a day; pieces are joined with
  \<open>&&\<close>.
\<close>

section \<open>Numbers and plain texts\<close>

lemma numeric_units: "numeric_text s \<Longrightarrow> \<forall>c \<in> set s. number_unit c"
  using test_all_units [of NUMERIC_LITERAL_REGEX s]
  by (auto simp: NUMERIC_LITERAL_REGEX_def Plus_def number_unit_def)

lemma numeric_nonempty: "numeric_text s \<Longrightarrow> s \<noteq> []"
proof
  assume "numeric_text s" "s = []"
  moreover have "runs (Seqs (NUMERIC_LITERAL_REGEX @ [At_end])) ([], []) = []"
    by (simp add: NUMERIC_LITERAL_REGEX_def Plus_def runs.simps lit_runs_def starts_with_def consumes_def)
  ultimately show False by (simp add: test_all_def match_all_def)
qed

lemma number_unit_not_space: "number_unit c \<Longrightarrow> \<not> is_space c"
  by (auto simp: number_unit_def is_digit_def is_space_def)

lemma numeric_trim: "numeric_text s \<Longrightarrow> trim s = s"
  using numeric_units numeric_nonempty by (intro trim_id) (auto intro!: number_unit_not_space)

definition plain_value :: "jsstr \<Rightarrow> bool" where
  "plain_value s \<longleftrightarrow> (\<forall>c \<in> set s. plain_unit c) \<and> trim s = s"

definition plain_text :: "jsstr \<Rightarrow> bool" where
  "plain_text s \<longleftrightarrow> s \<noteq> [] \<and> plain_value s"

lemma quote_units_plain: "\<forall>c \<in> set s. plain_unit c \<Longrightarrow> quote_units s = s"
  by (induction s rule: quote_units.induct) (auto simp: plain_unit_def quote_unit_def)

lemma json_string_plain: "plain_value s \<Longrightarrow> json_string s = 34 # s @ [34]"
  by (simp add: json_string_def plain_value_def quote_units_plain)

lemma plain_not_quote: "plain_value s \<Longrightarrow> \<forall>c \<in> set s. c \<noteq> 34"
  by (auto simp: plain_value_def plain_unit_def)

section \<open>Pieces\<close>

datatype piece =
    Bound jsstr jsstr jsstr jsstr
  | Night jsstr jsstr jsstr jsstr
  | Match request_match

definition bound_text :: "jsstr \<Rightarrow> jsstr \<Rightarrow> jsstr \<Rightarrow> jsstr \<Rightarrow> jsstr" where
  "bound_text p f z v = f @ js ''(\"'' @ z @ js ''\") '' @ p @ js '' '' @ v"

fun piece_text :: "piece \<Rightarrow> jsstr" where
  "piece_text (Bound p f z v) = bound_text p f z v"
| "piece_text (Night f z s e) =
     js ''('' @ bound_text (js ''>='') f z s @ js '' || '' @ bound_text (js ''<'') f z e @ js '')''"
| "piece_text (Match r) = request_match_text r"

definition time_text :: "jsstr \<Rightarrow> jsstr \<Rightarrow> jsstr \<Rightarrow> bool" where
  "time_text f z v \<longleftrightarrow> f \<in> set TIME_FUNCS \<and> plain_text z \<and> isTimeValueInRange f v"

definition match_ok :: "request_match \<Rightarrow> bool" where
  "match_ok r \<longleftrightarrow> plain_text (rm_path r) \<and> plain_value (rm_value r) \<and>
     (rm_source r = js ''header'' \<and> rm_mode r \<in> {MATCH_EXISTS, MATCH_CONTAINS, MATCH_EQ} \<or>
      rm_source r = js ''param'' \<and> rm_mode r \<in> {MATCH_EXISTS, MATCH_EQ}) \<and>
     (rm_mode r = MATCH_EXISTS \<longrightarrow> rm_value r = [])"

fun piece_ok :: "piece \<Rightarrow> bool" where
  "piece_ok (Bound p f z v) \<longleftrightarrow> p \<in> set [js ''=='', js ''>='', js ''<''] \<and> time_text f z v"
| "piece_ok (Night f z s e) \<longleftrightarrow> time_text f z s \<and> time_text f z e"
| "piece_ok (Match r) \<longleftrightarrow> match_ok r"

section \<open>Reading a bound\<close>

lemma time_name_read:
  assumes "f \<in> set TIME_FUNCS"
  shows "runs (Seq time_name k) (f @ 40 # s, cs) = runs k (40 # s, (1, f) # cs)"
  using assms by (auto simp: TIME_FUNCS_def regex_simps js_eval)

lemma time_name_other:
  "runs (Seq time_name k) (40 # s, cs) = []"
  "runs (Seq time_name k) (js ''header'' @ s, cs) = []"
  "runs (Seq time_name k) (js ''param'' @ s, cs) = []"
  "runs (Seq time_name k) (js ''has'' @ s, cs) = []"
  by (simp_all add: TIME_FUNCS_def regex_simps js_eval)

lemma time_value_number: "isTimeValueInRange f v \<Longrightarrow> v \<noteq> [] \<and> (\<forall>c \<in> set v. number_unit c)"
  using numeric_units numeric_nonempty by (auto simp: isTimeValueInRange_def)

lemma number_span:
  assumes "\<forall>c \<in> set v. number_unit c" "s = [] \<or> \<not> number_unit (hd s)"
  shows "takeWhile number_unit (v @ s) = v" "dropWhile number_unit (v @ s) = s"
  using assms by (cases s; auto)+

lemma quoted_span:
  assumes "plain_value z"
  shows "takeWhile not_dquote (z @ 34 # s) = z" "dropWhile not_dquote (z @ 34 # s) = 34 # s"
  using plain_not_quote [OF assms] by auto

text \<open>What follows the first bound in the pattern of a range.\<close>

definition range_rest :: "rexp list" where
  "range_rest =
     [Lit (js '' ''), Alt (Lit (js ''&&'')) (Lit (js ''||'')), Lit (js '' ''), Ref 1, Lit (js ''(\"''), Ref 2,
      Lit (js ''\") < ''), number_text 4]"

lemma range_head:
  assumes "time_text f z v" "t = [] \<or> \<not> number_unit (hd t)" "p \<in> set [js ''=='', js ''>='', js ''<'']"
  shows "runs (Seqs (range_pattern @ k # ks)) (bound_text p f z v @ t, cs) =
    (if p = js ''>='' then runs (Seqs (range_rest @ k # ks)) (t, (3, v) # (2, z) # (1, f) # cs) else [])"
proof -
  have z: "plain_value z" "z \<noteq> []" and f: "f \<in> set TIME_FUNCS" using assms(1) by (auto simp: time_text_def plain_text_def)
  have v: "v \<noteq> []" "\<forall>c \<in> set v. number_unit c" using assms(1) time_value_number by (auto simp: time_text_def)
  have n: "\<not> number_unit 32" by (simp add: number_unit_def is_digit_def)
  show ?thesis
    using assms(3) v(1) z(2) n
    by (auto simp: range_pattern_def range_rest_def bound_text_def time_name_read [OF f] js_eval
        regex_simps quoted_span [OF z(1)] number_span [OF v(2) assms(2)] simp del: One_nat_def)
qed

lemma scalar_read:
  assumes "time_text f z v" "t = [] \<or> \<not> number_unit (hd t)" "p \<in> set [js ''=='', js ''>='', js ''<'']"
  shows "runs (Seqs (scalar_pattern @ [At_end])) (bound_text p f z v @ t, cs) =
    (if t = [] then [([], (4, v) # (3, p) # (2, z) # (1, f) # cs)] else [])"
proof -
  have z: "plain_value z" "z \<noteq> []" and f: "f \<in> set TIME_FUNCS" using assms(1) by (auto simp: time_text_def plain_text_def)
  have v: "v \<noteq> []" "\<forall>c \<in> set v. number_unit c" using assms(1) time_value_number by (auto simp: time_text_def)
  have e: "takeWhile number_unit v = v" "dropWhile number_unit v = []" using v(2) by auto
  show ?thesis
    using assms(3) v(1) z(2)
    by (auto simp: e scalar_pattern_def bound_text_def time_name_read [OF f] js_eval
        regex_simps quoted_span [OF z(1)] number_span [OF v(2) assms(2)] simp del: One_nat_def)
qed

lemma strip_func:
  assumes "f \<in> set TIME_FUNCS"
  shows "g \<in> set TIME_FUNCS \<Longrightarrow> strip f (g @ 40 # s) = (if f = g then Some (40 # s) else None)"
    and "strip f (40 # s) = None" "strip f (js ''header'' @ s) = None" "strip f (js ''param'' @ s) = None"
    "strip f (js ''has'' @ s) = None"
  using assms by (auto simp: TIME_FUNCS_def js_eval)

lemma strip_quoted:
  assumes "\<forall>c \<in> set z. c \<noteq> 34" "\<forall>c \<in> set y. c \<noteq> 34"
  shows "(case strip z (y @ 34 # s) of None \<Rightarrow> [] | Some u \<Rightarrow> runs (Seq (Lit (34 # w)) k) (u, cs)) =
    (if z = y then (case strip w s of None \<Rightarrow> [] | Some x \<Rightarrow> runs k (x, cs)) else [])"
  using assms
proof (induction z arbitrary: y)
  case Nil
  then show ?case by (cases y) (auto simp: runs_seq_lit)
next
  case (Cons c z)
  then show ?case by (cases y) (auto simp: runs_seq_lit)
qed

lemma range_next:
  assumes "time_text f z v" "time_text g y w" "t = [] \<or> \<not> number_unit (hd t)" "q \<in> set [js ''=='', js ''>='', js ''<'']"
    and "sep = js '' && '' \<or> sep = js '' || ''" and "fails number_unit (Seqs (k # ks))"
  shows "runs (Seqs (range_rest @ k # ks)) (sep @ bound_text q g y w @ t, (3, v) # (2, z) # (1, f) # cs) =
    (if f = g \<and> z = y \<and> q = js ''<'' then runs (Seqs (k # ks)) (t, (4, w) # (3, v) # (2, z) # (1, f) # cs) else [])"
proof -
  have z: "plain_value z" "plain_value y" "z \<noteq> []" and f: "f \<in> set TIME_FUNCS" "g \<in> set TIME_FUNCS"
    using assms(1,2) by (auto simp: time_text_def plain_text_def)
  have v: "w \<noteq> []" "\<forall>c \<in> set w. number_unit c" using assms(2) time_value_number by (auto simp: time_text_def)
  note plain = strip_quoted [OF plain_not_quote [OF z(1)] plain_not_quote [OF z(2)]]
  show ?thesis
    using assms(4,5,6) v(1)
    by (elim disjE) (auto simp: range_rest_def bound_text_def js_eval regex_simps strip_func [OF f(1)] f(2)
        plain number_span [OF v(2) assms(3)] simp del: One_nat_def)
qed

section \<open>Time conditions\<close>

definition scalar_rule :: "jsstr \<Rightarrow> jsstr \<Rightarrow> jsstr \<Rightarrow> jsstr \<Rightarrow> time_rule" where
  "scalar_rule p f z v =
     \<lparr>tr_func = f, tr_zone = z,
      tr_mode = (if p = js ''>='' then MATCH_GTE else if p = js ''<'' then MATCH_LT else MATCH_EQ),
      tr_value = v, tr_start = [], tr_end = []\<rparr>"

definition range_rule :: "jsstr \<Rightarrow> jsstr \<Rightarrow> jsstr \<Rightarrow> jsstr \<Rightarrow> time_rule" where
  "range_rule f z s e =
     \<lparr>tr_func = f, tr_zone = z, tr_mode = MATCH_RANGE, tr_value = [], tr_start = s, tr_end = e\<rparr>"

lemma open_paren: "f \<in> set TIME_FUNCS \<Longrightarrow> strip (js ''('') (f @ s) = None"
  by (auto simp: TIME_FUNCS_def js_eval)

lemma paren_pattern_fails:
  "f \<in> set TIME_FUNCS \<Longrightarrow> match_all ([Lit (js ''('')] @ range_pattern @ [Lit (js '')'')]) (f @ s) = None"
  by (simp add: match_all_def range_pattern_def runs_seq_lit open_paren)

lemma range_rest_end: "runs (Seqs (range_rest @ k # ks)) ([], cs) = []"
  by (simp add: range_rest_def runs_seq_lit js_eval)

lemma not_number [simp]: "\<not> number_unit 32" "\<not> number_unit 41"
  by (simp_all add: number_unit_def is_digit_def)

lemma bound_rule:
  assumes "piece_ok (Bound p f z v)"
  shows "tryParseTimeCondition (bound_text p f z v) = Some (scalar_rule p f z v)"
proof -
  have t: "time_text f z v" and p: "p \<in> set [js ''=='', js ''>='', js ''<'']" using assms by simp_all
  have f: "f \<in> set TIME_FUNCS" "isTimeValueInRange f v" using t by (simp_all add: time_text_def)
  have "match_all range_pattern (bound_text p f z v) = None"
    using range_head [OF t, of "[]" p At_end "[]" "[]"] p by (simp add: match_all_def range_rest_end)
  moreover have "match_all ([Lit (js ''('')] @ range_pattern @ [Lit (js '')'')]) (bound_text p f z v) = None"
    unfolding bound_text_def by (rule paren_pattern_fails [OF f(1)])
  ultimately show ?thesis
    using scalar_read [OF t, of "[]" p "[]"] p f(2)
    by (auto simp: tryParseTimeCondition_def range_match_def match_all_def scalar_rule_def)
qed

lemma range_text_rule:
  assumes "time_text f z s" "time_text f z e" "sep = js '' && '' \<or> sep = js '' || ''"
  shows "tryParseTimeCondition (bound_text (js ''>='') f z s @ sep @ bound_text (js ''<'') f z e) = Some (range_rule f z s e)"
proof -
  have sep: "\<not> number_unit (hd (sep @ u))" for u using assms(3) by (auto simp: js_eval)
  have "runs (Seqs (range_pattern @ [At_end])) (bound_text (js ''>='') f z s @ sep @ bound_text (js ''<'') f z e, []) =
      [([], [(4, e), (3, s), (2, z), (1, f)])]"
    using range_head [OF assms(1), of "sep @ bound_text (js ''<'') f z e" "js ''>=''" At_end "[]" "[]"] sep
      range_next [OF assms(1,2) _ _ assms(3), of "[]" "js ''<''" At_end "[]" "[]"]
    by (simp add: runs_end)
  then show ?thesis using assms(1,2)
    by (simp add: tryParseTimeCondition_def range_match_def match_all_def range_rule_def time_text_def)
qed

lemma night_rule:
  assumes "piece_ok (Night f z s e)"
  shows "tryParseTimeCondition (piece_text (Night f z s e)) = Some (range_rule f z s e)"
proof -
  have t: "time_text f z s" "time_text f z e" using assms by simp_all
  let ?t = "bound_text (js ''>='') f z s @ js '' || '' @ bound_text (js ''<'') f z e @ js '')''"
  have "match_all range_pattern (js ''('' @ ?t) = None"
    by (simp add: match_all_def range_pattern_def time_name_other js_eval del: One_nat_def)
  moreover have "runs (Seqs (range_pattern @ [Lit (js '')''), At_end])) (?t, []) = [([], [(4, e), (3, s), (2, z), (1, f)])]"
    using range_head [OF t(1), of "js '' || '' @ bound_text (js ''<'') f z e @ js '')''" "js ''>=''" "Lit (js '')'')" "[At_end]" "[]"]
      range_next [OF t, of "js '')''" "js ''<''" "js '' || ''" "Lit (js '')'')" "[At_end]" "[]"]
    by (simp add: regex_simps js_eval)
  then have "match_all ([Lit (js ''('')] @ range_pattern @ [Lit (js '')'')]) (js ''('' @ ?t) =
      Some (\<lambda>n. case map_of [(4, e), (3, s), (2, z), (1, f)] n of None \<Rightarrow> [] | Some w \<Rightarrow> w)"
    by (simp add: match_all_def range_pattern_def runs_seq_lit)
  ultimately show ?thesis using t
    by (simp add: tryParseTimeCondition_def range_match_def range_rule_def time_text_def)
qed

text \<open>Texts of request conditions start with a name that is not a time function.\<close>

lemma match_head:
  "match_ok r \<Longrightarrow> \<exists>h \<in> {''header'', ''param'', ''has''}. \<exists>s. request_match_text r = js h @ s"
  by (auto simp: match_ok_def request_match_text_def Let_def plain_text_def plain_value_def js_eval match_defs)

lemma other_text_rule:
  assumes "h \<in> {''header'', ''param'', ''has''}"
  shows "tryParseTimeCondition (js h @ s) = None"
proof -
  have "match_all range_pattern (js h @ s) = None" "match_all scalar_pattern (js h @ s) = None"
    using assms
    by (auto simp: match_all_def range_pattern_def scalar_pattern_def time_name_other simp del: One_nat_def)
  moreover have "strip (js ''('') (js h @ s) = None" using assms by (auto simp: js_eval)
  then have "match_all ([Lit (js ''('')] @ range_pattern @ [Lit (js '')'')]) (js h @ s) = None"
    by (simp add: match_all_def range_pattern_def runs_seq_lit)
  ultimately show ?thesis by (simp add: tryParseTimeCondition_def range_match_def)
qed

text \<open>A piece in front of other pieces is no time condition as a whole, but for the two bounds
  of a range.\<close>

definition bounds_of_range :: "piece \<Rightarrow> piece \<Rightarrow> bool" where
  "bounds_of_range a b \<longleftrightarrow> (\<exists>f z v w. a = Bound (js ''>='') f z v \<and> b = Bound (js ''<'') f z w)"

lemma and_unit: "hd (js '' && '' @ s) = 32" "js '' && '' @ s \<noteq> []"
  by (simp_all add: js_eval)

lemma range_rest_other:
  "strip f r = None \<Longrightarrow> runs (Seqs (range_rest @ [At_end])) (js '' && '' @ r, (3, v) # (2, z) # (1, f) # cs) = []"
  by (simp add: range_rest_def regex_simps js_eval del: One_nat_def)

lemma range_rest_piece:
  assumes "time_text f z v" "piece_ok b" "u = [] \<or> (\<exists>y. u = js '' && '' @ y)"
    and "\<not> (u = [] \<and> bounds_of_range (Bound (js ''>='') f z v) b)"
  shows "runs (Seqs (range_rest @ [At_end])) (js '' && '' @ piece_text b @ u, (3, v) # (2, z) # (1, f) # cs) = []"
proof (cases b)
  case (Bound q g y w)
  have "u = [] \<or> \<not> number_unit (hd u)" using assms(3) and_unit by auto
  then show ?thesis
    using range_next [OF assms(1), of g y w u q "js '' && ''" At_end "[]"] assms Bound
    by (auto simp: runs_end bounds_of_range_def)
next
  case (Night g y a e)
  have "f \<in> set TIME_FUNCS" using assms(1) by (simp add: time_text_def)
  then have "strip f (piece_text b @ u) = None" using Night by (simp add: strip_func js_eval)
  then show ?thesis by (rule range_rest_other)
next
  case (Match r)
  have "f \<in> set TIME_FUNCS" using assms(1) by (simp add: time_text_def)
  moreover obtain h s where "h \<in> {''header'', ''param'', ''has''}" "request_match_text r = js h @ s"
    using match_head [of r] assms(2) Match by auto
  ultimately have "strip f (piece_text b @ u) = None" using Match strip_func(3-5) by auto
  then show ?thesis by (rule range_rest_other)
qed

lemma joined_rule:
  assumes a: "piece_ok a" and b: "piece_ok b" and u: "u = [] \<or> (\<exists>y. u = js '' && '' @ y)"
    and no: "\<not> (u = [] \<and> bounds_of_range a b)"
  shows "tryParseTimeCondition (piece_text a @ js '' && '' @ piece_text b @ u) = None"
proof (cases a)
  case (Bound p f z v)
  have t: "time_text f z v" and p: "p \<in> set [js ''=='', js ''>='', js ''<'']" using a Bound by simp_all
  have f: "f \<in> set TIME_FUNCS" using t by (simp add: time_text_def)
  let ?t = "js '' && '' @ piece_text b @ u"
  have n: "?t = [] \<or> \<not> number_unit (hd ?t)" by (simp add: and_unit)
  have "runs (Seqs (range_pattern @ [At_end])) (bound_text p f z v @ ?t, []) = []"
    using range_head [OF t n p, of At_end "[]" "[]"] range_rest_piece [OF t b u, of "[]"] no Bound by auto
  moreover have "match_all ([Lit (js ''('')] @ range_pattern @ [Lit (js '')'')]) (bound_text p f z v @ ?t) = None"
    unfolding bound_text_def append_assoc by (rule paren_pattern_fails [OF f])
  moreover have "runs (Seqs (scalar_pattern @ [At_end])) (bound_text p f z v @ ?t, []) = []"
    using scalar_read [OF t n p] and_unit by simp
  ultimately show ?thesis using Bound
    by (simp add: tryParseTimeCondition_def range_match_def match_all_def)
next
  case (Night f z s e)
  have t: "time_text f z s" "time_text f z e" using a Night by simp_all
  let ?x = "js '' && '' @ piece_text b @ u"
  let ?t = "bound_text (js ''>='') f z s @ js '' || '' @ bound_text (js ''<'') f z e @ js '')'' @ ?x"
  have "match_all range_pattern (js ''('' @ ?t) = None" "match_all scalar_pattern (js ''('' @ ?t) = None"
    by (simp_all add: match_all_def range_pattern_def scalar_pattern_def time_name_other js_eval del: One_nat_def)
  moreover have "runs (Seqs (range_pattern @ [Lit (js '')''), At_end])) (?t, []) = []"
    using range_head [OF t(1), of "js '' || '' @ bound_text (js ''<'') f z e @ js '')'' @ ?x" "js ''>=''" "Lit (js '')'')" "[At_end]" "[]"]
      range_next [OF t, of "js '')'' @ ?x" "js ''<''" "js '' || ''" "Lit (js '')'')" "[At_end]" "[]"]
    by (simp add: regex_simps js_eval)
  then have "match_all ([Lit (js ''('')] @ range_pattern @ [Lit (js '')'')]) (js ''('' @ ?t) = None"
    by (simp add: match_all_def range_pattern_def runs_seq_lit)
  ultimately show ?thesis using Night by (simp add: tryParseTimeCondition_def range_match_def)
next
  case (Match r)
  then show ?thesis using match_head [of r] a other_text_rule by auto
qed

section \<open>Request conditions\<close>

lemma string_star:
  assumes "\<forall>c \<in> set v. c \<noteq> 34 \<and> c \<noteq> 92"
  shows "runs (Star (Alt (Cls (\<lambda>c. c \<noteq> 34 \<and> c \<noteq> 92)) (Seq (Lit [92]) (Cls not_newline)))) (v @ 34 # s, cs) =
    map (\<lambda>u. (drop (length u) v @ 34 # s, cs)) (rev (prefixes v))"
proof -
  let ?body = "runs (Alt (Cls (\<lambda>c. c \<noteq> 34 \<and> c \<noteq> 92)) (Seq (Lit [92]) (Cls not_newline)))"
  have "star_runs n ?body (v @ 34 # s, cs) = map (\<lambda>u. (drop (length u) v @ 34 # s, cs)) (rev (prefixes v))"
    if "length v < n" for n
    using assms that
  proof (induction v arbitrary: n)
    case Nil
    then obtain m where "n = Suc m" by (cases n) auto
    then show ?case by (simp add: runs.simps lit_runs_def starts_with_def)
  next
    case (Cons c v)
    then obtain m where m: "n = Suc m" "length v < m" by (cases n) auto
    have "?body (c # v @ 34 # s, cs) = [(v @ 34 # s, cs)]"
      using Cons.prems by (simp add: runs.simps lit_runs_def starts_with_def)
    moreover have "star_runs m ?body (v @ 34 # s, cs) = map (\<lambda>u. (drop (length u) v @ 34 # s, cs)) (rev (prefixes v))"
      using Cons.IH [OF _ m(2)] Cons.prems by simp
    ultimately show ?case using m(1) by (simp add: consumes_def rev_map o_def)
  qed
  from this [of "length (v @ 34 # s)"] show ?thesis by (simp add: runs.simps(6) del: star_runs.simps)
qed

lemma string_read:
  assumes "plain_value v"
  shows "runs (Seq (Cap n string_pattern) k) (34 # v @ 34 # s, cs) = runs k (s, (n, 34 # v @ [34]) # cs)"
proof -
  have v: "\<forall>c \<in> set v. c \<noteq> 34 \<and> c \<noteq> 92" using assms by (auto simp: plain_value_def plain_unit_def)
  have "lit_runs [34] (drop (length u) v @ 34 # s, cs) = []" if u: "u \<in> set (prefixes v)" "u \<noteq> v" for u
  proof -
    obtain y where y: "v = u @ y" using u(1) unfolding in_set_prefixes prefix_def by blast
    then obtain d z where "v = u @ d # z" using u(2) by (cases y) auto
    then show ?thesis using v by (auto simp: lit_runs_def starts_with_def)
  qed
  then have "concat (map (\<lambda>u. lit_runs [34] (drop (length u) v @ 34 # s, cs)) (rev (prefixes v))) =
      [(s, cs)]"
    using lit_runs_append [of "[34]" s cs] concat_longest [of v "\<lambda>u. lit_runs [34] (drop (length u) v @ 34 # s, cs)"] by simp
  then have "runs string_pattern (34 # v @ 34 # s, cs) = [(s, cs)]"
    unfolding string_pattern_def Seqs.simps runs_seq_lit by (simp add: runs.simps(2,3) string_star [OF v] o_def)
  then show ?thesis by (simp add: runs.simps(3,7))
qed

lemma plain_newline: "plain_value v \<Longrightarrow> \<forall>c \<in> set v. not_newline c"
proof -
  have "plain_unit c \<Longrightarrow> not_newline c" for c by (auto simp: plain_unit_def not_newline_def)
  then show "plain_value v \<Longrightarrow> \<forall>c \<in> set v. not_newline c" unfolding plain_value_def by blast
qed

lemma trim_quoted: "trim (34 # v @ [34]) = 34 # v @ [34]"
  by (rule trim_id) (simp_all add: is_space_def)

lemma literal_read:
  assumes "plain_value v"
  shows "parseExprLiteral (buildExprLiteral MATCH_EQ v) = Some (JStr v)"
    and "\<forall>c \<in> set (buildExprLiteral MATCH_EQ v). not_newline c" "buildExprLiteral MATCH_EQ v \<noteq> []"
proof -
  have t: "trim v = v" using assms by (simp add: plain_value_def)
  have n: "\<not> numeric_text (34 # v @ [34])" using numeric_units [of "34 # v @ [34]"] by (auto simp: number_unit_def is_digit_def)
  have b: "34 # v @ [34] \<noteq> js ''true''" "34 # v @ [34] \<noteq> js ''false''" by (simp_all add: js_eval)
  have j: "json_parse (34 # v @ [34]) = Some (JStr v)" using assms by (intro json_parse_plain) (simp add: plain_value_def)
  show "parseExprLiteral (buildExprLiteral MATCH_EQ v) = Some (JStr v)"
    using t n b j by (simp add: buildExprLiteral_def parseExprLiteral_def match_defs trim_quoted json_string_plain [OF assms])
  show "\<forall>c \<in> set (buildExprLiteral MATCH_EQ v). not_newline c" "buildExprLiteral MATCH_EQ v \<noteq> []"
    using t plain_newline [OF assms] numeric_nonempty [of v]
    by (auto simp: buildExprLiteral_def match_defs json_string_plain [OF assms] not_newline_def)
qed

lemma match_text_cases:
  assumes "match_ok r"
  obtains "r = \<lparr>rm_source = js ''header'', rm_path = rm_path r, rm_mode = MATCH_EXISTS, rm_value = []\<rparr>"
      "request_match_text r = js ''header(\"'' @ rm_path r @ js ''\") != \"\"''"
    | "r = \<lparr>rm_source = js ''param'', rm_path = rm_path r, rm_mode = MATCH_EXISTS, rm_value = []\<rparr>"
      "request_match_text r = js ''param(\"'' @ rm_path r @ js ''\") != nil''"
    | "r = \<lparr>rm_source = js ''header'', rm_path = rm_path r, rm_mode = MATCH_CONTAINS, rm_value = rm_value r\<rparr>"
      "request_match_text r = js ''has(header(\"'' @ rm_path r @ js ''\"), \"'' @ rm_value r @ js ''\")''"
    | h where "h \<in> {''header'', ''param''}"
      "r = \<lparr>rm_source = js h, rm_path = rm_path r, rm_mode = MATCH_EQ, rm_value = rm_value r\<rparr>"
      "request_match_text r = js h @ js ''(\"'' @ rm_path r @ js ''\") == '' @ buildExprLiteral MATCH_EQ (rm_value r)"
proof -
  have p: "trim (rm_path r) = rm_path r" "rm_path r \<noteq> []" "json_string (rm_path r) = 34 # rm_path r @ [34]"
    using assms json_string_plain by (auto simp: match_ok_def plain_text_def plain_value_def)
  have v: "trim (rm_value r) = rm_value r" "json_string (rm_value r) = 34 # rm_value r @ [34]"
    using assms json_string_plain by (auto simp: match_ok_def plain_value_def)
  have eta: "r = \<lparr>rm_source = rm_source r, rm_path = rm_path r, rm_mode = rm_mode r, rm_value = rm_value r\<rparr>" by simp
  consider (hx) "rm_source r = js ''header''" "rm_mode r = MATCH_EXISTS" "rm_value r = []"
    | (px) "rm_source r = js ''param''" "rm_mode r = MATCH_EXISTS" "rm_value r = []"
    | (hc) "rm_source r = js ''header''" "rm_mode r = MATCH_CONTAINS"
    | (eq) h where "h \<in> {''header'', ''param''}" "rm_source r = js h" "rm_mode r = MATCH_EQ"
    using assms unfolding match_ok_def by blast
  then show ?thesis
  proof cases
    case hx
    moreover have "request_match_text r = js ''header(\"'' @ rm_path r @ js ''\") != \"\"''"
      using hx p by (simp add: request_match_text_def js_eval)
    ultimately show ?thesis using eta that(1) by metis
  next
    case px
    moreover have "request_match_text r = js ''param(\"'' @ rm_path r @ js ''\") != nil''"
      using px p by (simp add: request_match_text_def js_eval)
    ultimately show ?thesis using eta that(2) by metis
  next
    case hc
    moreover have "request_match_text r = js ''has(header(\"'' @ rm_path r @ js ''\"), \"'' @ rm_value r @ js ''\")''"
      using hc p v by (simp add: request_match_text_def buildExprLiteral_def match_defs js_eval)
    ultimately show ?thesis using eta that(3) by metis
  next
    case eq
    moreover have "request_match_text r = js h @ js ''(\"'' @ rm_path r @ js ''\") == '' @ buildExprLiteral MATCH_EQ (rm_value r)"
      using eq p by (auto simp: request_match_text_def match_defs js_eval)
    ultimately show ?thesis using eta that(4) by metis
  qed
qed

lemma match_read:
  assumes "match_ok r"
  shows "tryParseRequestCondition (request_match_text r) = Inr (Some (Request_match r))"
proof -
  have p: "plain_value (rm_path r)" "rm_path r \<noteq> []" and v: "plain_value (rm_value r)"
    using assms by (auto simp: match_ok_def plain_text_def)
  have time: "tryParseTimeCondition (request_match_text r) = None"
    using match_head [OF assms] other_text_rule by auto
  have q: "\<not> not_dquote 34" by simp
  note facts = match_all_def regex_simps js_eval quoted_span [OF p(1)] p(2) string_read [OF v]
  show ?thesis
    using assms
  proof (cases rule: match_text_cases)
    case 1
    then have "match_all header_exists_pattern (request_match_text r) = Some (\<lambda>n. case map_of [(1, rm_path r)] n of None \<Rightarrow> [] | Some w \<Rightarrow> w)"
      by (simp add: header_exists_pattern_def facts)
    then show ?thesis using time 1(1) by (simp add: tryParseRequestCondition_def)
  next
    case 2
    then have "match_all header_exists_pattern (request_match_text r) = None"
      "match_all param_exists_pattern (request_match_text r) = Some (\<lambda>n. case map_of [(1, rm_path r)] n of None \<Rightarrow> [] | Some w \<Rightarrow> w)"
      by (simp_all add: header_exists_pattern_def param_exists_pattern_def facts)
    then show ?thesis using time 2(1) by (simp add: tryParseRequestCondition_def)
  next
    case 3
    then have "match_all header_exists_pattern (request_match_text r) = None"
      "match_all param_exists_pattern (request_match_text r) = None"
      "match_all header_contains_pattern (request_match_text r) =
        Some (\<lambda>n. case map_of [(2, 34 # rm_value r @ [34]), (1, rm_path r)] n of None \<Rightarrow> [] | Some w \<Rightarrow> w)"
      by (simp_all add: header_exists_pattern_def param_exists_pattern_def header_contains_pattern_def facts)
    moreover have "json_text (34 # rm_value r @ [34]) = Inr (rm_value r)"
      using v json_parse_plain [of "rm_value r"] by (simp add: json_text_def plain_value_def)
    ultimately show ?thesis using time 3(1) by (simp add: tryParseRequestCondition_def)
  next
    case (4 h)
    let ?l = "buildExprLiteral MATCH_EQ (rm_value r)"
    note lit = literal_read [OF v]
    have l: "takeWhile not_newline ?l = ?l" "dropWhile not_newline ?l = []" using lit(2) by auto
    have "match_all header_exists_pattern (request_match_text r) = None"
      "match_all param_exists_pattern (request_match_text r) = None"
      "match_all header_contains_pattern (request_match_text r) = None"
      "match_all param_contains_pattern (request_match_text r) = None"
      "match_all param_order_pattern (request_match_text r) = None"
      using 4(1,3) by (auto simp: header_exists_pattern_def param_exists_pattern_def header_contains_pattern_def
          param_contains_pattern_def param_order_pattern_def facts)
    moreover have "runs (Seqs (equals_pattern @ [At_end])) (request_match_text r, []) =
        [([], [(3, ?l), (2, rm_path r), (1, js h)])]"
      using 4(1,3) lit(3) by (auto simp: equals_pattern_def facts l)
    then have "match_all equals_pattern (request_match_text r) =
        Some (\<lambda>n. case map_of [(3, ?l), (2, rm_path r), (1, js h)] n of None \<Rightarrow> [] | Some w \<Rightarrow> w)"
      by (simp only: match_all_def list.case snd_conv)
    ultimately have "tryParseRequestCondition (request_match_text r) =
        Inr (Some (Request_match \<lparr>rm_source = js h, rm_path = rm_path r, rm_mode = MATCH_EQ, rm_value = rm_value r\<rparr>))"
      using time lit(1)
      by (simp add: tryParseRequestCondition_def param_contains_def order_condition_def equals_condition_def)
    then show ?thesis using 4(2) by simp
  qed
qed

section \<open>Pieces are not split\<close>

lemma walk_quiet_app: "\<forall>c \<in> set u. quiet h c \<Longrightarrow> walk h (d, None) (u @ v) = walk h (d, None) v"
  using walk_append [OF walk_quiet] by blast

lemma walk_quoted_app: "\<forall>c \<in> set u. plain_unit c \<Longrightarrow> walk h (d, Some 34) (u @ v) = walk h (d, Some 34) v"
  using walk_append [OF walk_quoted, of 34 u h d v] by (auto simp: plain_unit_def)

definition split_unit :: "code_unit \<Rightarrow> bool" where
  "split_unit h \<longleftrightarrow> h = 38 \<or> h = 42"

lemma number_quiet: "split_unit h \<Longrightarrow> \<forall>c \<in> set v. number_unit c \<Longrightarrow> \<forall>c \<in> set v. quiet h c"
  by (auto simp: split_unit_def number_unit_def quiet_def is_digit_def is_quote_def)

lemma func_quiet: "split_unit h \<Longrightarrow> f \<in> set TIME_FUNCS \<Longrightarrow> \<forall>c \<in> set f. quiet h c"
  by (auto simp: split_unit_def TIME_FUNCS_def js_eval quiet_def is_quote_def)

lemma number_walk:
  "\<forall>c \<in> set v. number_unit c \<Longrightarrow> split_unit h \<Longrightarrow> walk h (d, None) (v @ t) = walk h (d, None) t"
  by (rule walk_quiet_app [OF number_quiet])

lemma bound_walk:
  assumes "time_text f z v" "split_unit h" "p \<in> set [js ''=='', js ''>='', js ''<'']" "0 \<le> d"
  shows "walk h (d, None) (bound_text p f z v @ t) = walk h (d, None) t"
proof -
  have z: "\<forall>c \<in> set z. plain_unit c" and f: "\<forall>c \<in> set f. quiet h c" and v: "\<forall>c \<in> set v. number_unit c"
    using assms(1) func_quiet [OF assms(2)] time_value_number [of f v]
    unfolding time_text_def plain_text_def plain_value_def by blast+
  show ?thesis
    using assms(2-4) z
    by (auto simp: bound_text_def walk_quiet_app [OF f] js_eval is_quote_def bracket_depth_def split_unit_def
        walk_quoted_app number_walk [OF v])
qed

lemma literal_walk:
  assumes "plain_value v" "split_unit h" "0 \<le> d"
  shows "walk h (d, None) (buildExprLiteral MATCH_EQ v @ t) = walk h (d, None) t"
proof -
  have u: "\<forall>c \<in> set v. plain_unit c" "trim v = v" using assms(1) by (auto simp: plain_value_def)
  have "buildExprLiteral MATCH_EQ v =
      (if v = js ''true'' \<or> v = js ''false'' \<or> numeric_text v then v else 34 # v @ [34])"
    using u(2) by (simp add: buildExprLiteral_def match_defs json_string_plain [OF assms(1)])
  then consider "v = js ''true''" | "v = js ''false''" | "numeric_text v"
    | "buildExprLiteral MATCH_EQ v = 34 # v @ [34]" by presburger
  then show ?thesis
  proof cases
    case 3
    then show ?thesis
      using walk_quiet_app [OF number_quiet [OF assms(2) numeric_units [OF 3]]] u(2)
      by (simp add: buildExprLiteral_def match_defs)
  next
    case 4
    then show ?thesis using walk_quoted_app [OF u(1)] by (simp add: is_quote_def)
  qed (use assms(2,3) in \<open>auto simp: buildExprLiteral_def match_defs u(2) js_eval is_quote_def bracket_depth_def split_unit_def trim_def is_space_def\<close>)
qed

lemma piece_walk:
  assumes "piece_ok a" "split_unit h" "0 \<le> d"
  shows "walk h (d, None) (piece_text a @ t) = walk h (d, None) t"
proof (cases a)
  case (Bound p f z v)
  then show ?thesis using assms bound_walk by auto
next
  case (Night f z s e)
  then show ?thesis
    using assms bound_walk [of f z s h "js ''>=''" "d + 1"] bound_walk [of f z e h "js ''<''" "d + 1"]
    by (auto simp: js_eval is_quote_def bracket_depth_def split_unit_def)
next
  case (Match r)
  then have r: "match_ok r" using assms by simp
  have p: "\<forall>c \<in> set (rm_path r). plain_unit c" and v: "plain_value (rm_value r)" "\<forall>c \<in> set (rm_value r). plain_unit c"
    using r by (auto simp: match_ok_def plain_text_def plain_value_def)
  show ?thesis
    using r
  proof (cases rule: match_text_cases)
    case (4 h')
    then show ?thesis using Match assms(2,3)
      by (auto simp: js_eval is_quote_def bracket_depth_def split_unit_def walk_quoted_app [OF p]
          literal_walk [OF v(1), of 38] literal_walk [OF v(1), of 42])
  qed (use Match assms(2,3) in \<open>auto simp: js_eval is_quote_def bracket_depth_def split_unit_def walk_quoted_app [OF p] walk_quoted_app [OF v(2)]\<close>)
qed

lemma literal_last:
  assumes "plain_value v"
  shows "\<not> is_space (last (buildExprLiteral MATCH_EQ v))"
proof -
  have u: "trim v = v" using assms by (auto simp: plain_value_def)
  have "\<not> is_space 34" "\<not> is_space 101" by (simp_all add: is_space_def)
  moreover have "\<not> is_space (last v)" if "numeric_text v"
    using numeric_units [OF that] numeric_nonempty [OF that] number_unit_not_space by simp
  ultimately show ?thesis
    by (auto simp: buildExprLiteral_def match_defs json_string_plain [OF assms] u js_eval)
qed

definition firm :: "jsstr \<Rightarrow> bool" where
  "firm s \<longleftrightarrow> s \<noteq> [] \<and> \<not> is_space (hd s) \<and> \<not> is_space (last s)"

lemma firm_trim: "firm s \<Longrightarrow> trim s = s"
  by (simp add: firm_def trim_id)

lemma piece_firm:
  assumes "piece_ok a"
  shows "firm (piece_text a)"
proof -
  have func: "f \<noteq> [] \<and> \<not> is_space (hd f)" if "f \<in> set TIME_FUNCS" for f
    using that by (auto simp: TIME_FUNCS_def js_eval is_space_def)
  have num: "\<not> is_space (last v)" if "time_text f z v" for f z v
    using that time_value_number [of f v] number_unit_not_space by (auto simp: time_text_def)
  have "piece_text a \<noteq> [] \<and> \<not> is_space (hd (piece_text a)) \<and> \<not> is_space (last (piece_text a))"
  proof (cases a)
    case (Bound p f z v)
    then show ?thesis using assms func [of f] num [of f z v] time_value_number [of f v]
      by (auto simp: bound_text_def time_text_def hd_append)
  next
    case (Night f z s e)
    then show ?thesis by (simp add: js_eval is_space_def)
  next
    case (Match r)
    then have r: "match_ok r" using assms by simp
    then have v: "plain_value (rm_value r)" by (simp add: match_ok_def)
    show ?thesis
      using r
    proof (cases rule: match_text_cases)
      case (4 h')
      have "\<not> is_space 104" "\<not> is_space 112" by (simp_all add: is_space_def)
      then show ?thesis using 4(1,3) Match literal_last [OF v] literal_read(3) [OF v] by (auto simp: js_eval)
    qed (use Match in \<open>auto simp: js_eval is_space_def\<close>)
  qed
  then show ?thesis by (simp add: firm_def)
qed

lemma piece_calm: "piece_ok a \<Longrightarrow> split_unit h \<Longrightarrow> calm h (piece_text a)"
  using piece_walk [of a h 0 "[]"] firm_trim [OF piece_firm] by (simp add: calm_def)

end
