(* ===== verification/Pricing_Rules_Properties.thy ===== *)
theory Pricing_Rules_Properties
  imports Pricing_Rules_Text
begin

text \<open>
  The editor of request rules reads back what it builds: rows become factors, factors become text,
  and the reader returns the same rows.  The last section has the rows for which this fails.
\<close>

section \<open>Readable rows\<close>

definition rule_ok :: "time_rule \<Rightarrow> bool" where
  "rule_ok t \<longleftrightarrow> tr_func t \<in> set TIME_FUNCS \<and> plain_text (tr_zone t) \<and>
     (if tr_mode t = MATCH_RANGE
      then tr_value t = [] \<and> isTimeValueInRange (tr_func t) (tr_start t) \<and> isTimeValueInRange (tr_func t) (tr_end t)
      else tr_mode t \<in> {MATCH_EQ, MATCH_GTE, MATCH_LT} \<and> isTimeValueInRange (tr_func t) (tr_value t) \<and>
        tr_start t = [] \<and> tr_end t = [])"

fun condition_ok :: "request_condition \<Rightarrow> bool" where
  "condition_ok (Time_rule t) \<longleftrightarrow> rule_ok t"
| "condition_ok (Request_match r) \<longleftrightarrow> match_ok r"

text \<open>A lower and an upper bound of the same clock that stand side by side are read as a range.\<close>

fun mergeable :: "request_condition \<Rightarrow> request_condition \<Rightarrow> bool" where
  "mergeable (Time_rule t) (Time_rule u) \<longleftrightarrow>
     tr_mode t = MATCH_GTE \<and> tr_mode u = MATCH_LT \<and> tr_func t = tr_func u \<and> tr_zone t = tr_zone u"
| "mergeable _ _ \<longleftrightarrow> False"

fun unmerged :: "request_condition list \<Rightarrow> bool" where
  "unmerged (a # b # cs) \<longleftrightarrow> \<not> mergeable a b \<and> unmerged (b # cs)"
| "unmerged _ \<longleftrightarrow> True"

definition group_ok :: "rule_group \<Rightarrow> bool" where
  "group_ok g \<longleftrightarrow> g_conditions g \<noteq> [] \<and> list_all condition_ok (g_conditions g) \<and> unmerged (g_conditions g) \<and>
     numeric_text (g_multiplier g) \<and> g_conditionText g = None \<and> g_matched g = None"

section \<open>The pieces of a condition\<close>

definition overnight :: "time_rule \<Rightarrow> bool" where
  "overnight t \<longleftrightarrow> lt_num (string_number (tr_end t)) (string_number (tr_start t))"

definition mode_sign :: "jsstr \<Rightarrow> jsstr" where
  "mode_sign m = (if m = MATCH_GTE then js ''>='' else if m = MATCH_LT then js ''<'' else js ''=='')"

fun pieces_of :: "request_condition \<Rightarrow> piece list" where
  "pieces_of (Time_rule t) =
     (if tr_mode t \<noteq> MATCH_RANGE then [Bound (mode_sign (tr_mode t)) (tr_func t) (tr_zone t) (tr_value t)]
      else if overnight t then [Night (tr_func t) (tr_zone t) (tr_start t) (tr_end t)]
      else [Bound (js ''>='') (tr_func t) (tr_zone t) (tr_start t), Bound (js ''<'') (tr_func t) (tr_zone t) (tr_end t)])"
| "pieces_of (Request_match r) = [Match r]"

lemma pieces_ok: "condition_ok c \<Longrightarrow> a \<in> set (pieces_of c) \<Longrightarrow> piece_ok a"
  by (cases c) (auto simp: rule_ok_def time_text_def mode_sign_def split: if_splits)

lemma pieces_nonempty [simp]: "pieces_of c \<noteq> []"
  by (cases c) auto

text \<open>The text of one condition, in which an overnight range has no parentheses.\<close>

definition night_text :: "time_rule \<Rightarrow> jsstr" where
  "night_text t = bound_text (js ''>='') (tr_func t) (tr_zone t) (tr_start t) @ js '' || '' @
     bound_text (js ''<'') (tr_func t) (tr_zone t) (tr_end t)"

definition pieces_text :: "piece list \<Rightarrow> jsstr" where
  "pieces_text ps = join (js '' && '') (map piece_text ps)"

fun night :: "request_condition \<Rightarrow> bool" where
  "night (Time_rule t) \<longleftrightarrow> tr_mode t = MATCH_RANGE \<and> overnight t"
| "night _ \<longleftrightarrow> False"

lemma time_value_trim: "isTimeValueInRange f v \<Longrightarrow> trim v = v"
  using numeric_trim by (simp add: isTimeValueInRange_def)

lemma time_rule_built:
  assumes "rule_ok t"
  shows "buildTimeConditionExpr t = (if night (Time_rule t) then night_text t else pieces_text (pieces_of (Time_rule t)))"
proof -
  have z: "plain_value (tr_zone t)" "tr_zone t \<noteq> []" and f: "tr_func t \<in> set TIME_FUNCS"
    using assms by (auto simp: rule_ok_def plain_text_def)
  have m: "tr_mode t \<in> set (getRequestRuleMatchOptions (js ''time''))"
    using assms by (auto simp: rule_ok_def getRequestRuleMatchOptions_def split: if_splits)
  have n: "normalizeCondition (Some (partial_of (Time_rule t))) = Time_rule t"
    using z f m by (simp add: normalizeCondition_def partial_of_def some_text_def offered_mode_def)
  have b: "bound_text p f z v = f @ js ''('' @ (34 # z @ [34]) @ js '')'' @ js '' '' @ p @ js '' '' @ v" for p f z v
    by (simp add: bound_text_def js_eval)
  show ?thesis
  proof (cases "tr_mode t = MATCH_RANGE")
    case True
    then have v: "isTimeValueInRange (tr_func t) (tr_start t)" "isTimeValueInRange (tr_func t) (tr_end t)"
      using assms by (simp_all add: rule_ok_def)
    then show ?thesis
      using True
      by (simp add: buildTimeConditionExpr_def n time_rule_text_def json_string_plain [OF z(1)] night_text_def Let_def
          v [THEN time_value_trim] pieces_text_def overnight_def b) (simp add: js_eval)
  next
    case False
    then have v: "isTimeValueInRange (tr_func t) (tr_value t)" using assms by (simp add: rule_ok_def)
    then show ?thesis
      using False
      by (simp add: buildTimeConditionExpr_def n time_rule_text_def json_string_plain [OF z(1)] Let_def
          time_value_trim [OF v] pieces_text_def mode_sign_def b)
  qed
qed

lemma match_built:
  assumes "match_ok r"
  shows "buildRequestConditionExpr (Request_match r) = request_match_text r"
proof -
  have "rm_mode r \<in> set (getRequestRuleMatchOptions (rm_source r))" "rm_source r \<in> {js ''header'', js ''param''}"
    using assms by (auto simp: match_ok_def getRequestRuleMatchOptions_def)
  then have "normalizeCondition (Some (partial_of (Request_match r))) = Request_match r"
    by (auto simp: normalizeCondition_def partial_of_def absent_condition_def some_text_def offered_mode_def)
  then show ?thesis by (simp add: buildRequestConditionExpr_def)
qed

lemma condition_built:
  assumes "condition_ok c"
  shows "buildRequestConditionExpr c =
    (case c of Time_rule t \<Rightarrow> if night c then night_text t else pieces_text (pieces_of c) | _ \<Rightarrow> pieces_text (pieces_of c))"
  using assms match_built time_rule_built
  by (cases c) (simp_all add: buildRequestConditionExpr_def pieces_text_def)

section \<open>Joined conditions\<close>

lemma no_bar_bound: "time_text f z v \<Longrightarrow> p \<in> set [js ''=='', js ''>='', js ''<''] \<Longrightarrow> 124 \<notin> set (bound_text p f z v)"
proof
  assume a: "time_text f z v" "p \<in> set [js ''=='', js ''>='', js ''<'']" "124 \<in> set (bound_text p f z v)"
  have "124 \<notin> set f" using a(1) by (auto simp: time_text_def TIME_FUNCS_def js_eval)
  moreover have "124 \<notin> set z" using a(1) unfolding time_text_def plain_text_def plain_value_def
    by (metis plain_unit_def insertCI)
  moreover have "124 \<notin> set v" using a(1) time_value_number [of f v] by (auto simp: time_text_def number_unit_def is_digit_def)
  moreover have "124 \<notin> set p" using a(2) by (auto simp: js_eval)
  ultimately show False using a(3) by (auto simp: bound_text_def js_eval)
qed

lemma no_bar_match: "match_ok r \<Longrightarrow> 124 \<notin> set (request_match_text r)"
proof -
  assume r: "match_ok r"
  have plain: "124 \<notin> set u" if "plain_value u" for u using that unfolding plain_value_def by (metis plain_unit_def insertCI)
  have p: "124 \<notin> set (rm_path r)" "124 \<notin> set (rm_value r)" and v: "plain_value (rm_value r)"
    using r plain by (auto simp: match_ok_def plain_text_def)
  have "124 \<notin> set (buildExprLiteral MATCH_EQ (rm_value r))"
    using p(2) json_string_plain [OF v] v by (simp add: buildExprLiteral_def Let_def match_defs plain_value_def)
  with r p show "124 \<notin> set (request_match_text r)"
    by (cases rule: match_text_cases) (auto simp: js_eval)
qed

lemma includes_bar: "str_includes s (js '' || '') \<Longrightarrow> 124 \<in> set s"
  by (auto simp: str_includes_iff js_eval)

lemma set_join: "set (join sep ws) \<subseteq> set sep \<union> \<Union> (set ` set ws)"
  by (induction sep ws rule: join.induct) auto

text \<open>The condition as it stands in a group of several.\<close>

lemma condition_bracketed:
  assumes "condition_ok c"
  defines "e \<equiv> buildRequestConditionExpr c"
  shows "(if str_includes e (js '' || '') then js ''('' @ e @ js '')'' else e) = pieces_text (pieces_of c)"
proof (cases "night c")
  case True
  then obtain t where t: "c = Time_rule t" "e = night_text t" "tr_mode t = MATCH_RANGE" "overnight t"
    using assms condition_built by (cases c) auto
  then have "str_includes e (js '' || '')" unfolding str_includes_iff night_text_def by blast
  then show ?thesis using t by (simp add: night_text_def pieces_text_def)
next
  case False
  then have e: "e = pieces_text (pieces_of c)" using assms condition_built by (cases c) auto
  have "124 \<notin> set (piece_text a)" if "a \<in> set (pieces_of c)" for a
    using pieces_ok [OF assms(1) that] that no_bar_bound no_bar_match False by (cases a; cases c) (auto split: if_splits)
  moreover have "124 \<notin> set (js '' && '')" by (simp add: js_eval)
  ultimately have "124 \<notin> set e" unfolding e pieces_text_def using set_join by fastforce
  then show ?thesis using e includes_bar by auto
qed

lemma join_concat:
  assumes "\<forall>xs \<in> set xss. xs \<noteq> []"
  shows "join sep (map (join sep) xss) = join sep (concat xss)"
proof -
  have app: "join sep (xs @ ys) = join sep xs @ sep @ join sep ys" if "xs \<noteq> []" "ys \<noteq> []" for xs ys
    using that by (induction sep xs rule: join.induct) (auto simp: neq_Nil_conv)
  show ?thesis
    using assms
  proof (induction xss rule: induct_list012)
    case (3 xs ys xss)
    have "concat (ys # xss) \<noteq> []" using 3 by simp
    then show ?case using 3 app [of xs "concat (ys # xss)"] by simp
  qed simp_all
qed

lemma combine_many:
  "2 \<le> length ts \<Longrightarrow> combine_conditions ts =
   join (js '' && '') (map (\<lambda>e. if str_includes e (js '' || '') then js ''('' @ e @ js '')'' else e) ts)"
  by (cases ts; cases "tl ts") (auto simp: combine_conditions_def)

lemma combined_text:
  assumes "\<forall>c \<in> set cs. condition_ok c" "2 \<le> length cs"
  shows "combine_conditions (map buildRequestConditionExpr cs) = pieces_text (concat (map pieces_of cs))"
proof -
  have "combine_conditions (map buildRequestConditionExpr cs) = join (js '' && '') (map (\<lambda>c. pieces_text (pieces_of c)) cs)"
  proof -
    have "map (\<lambda>e. if str_includes e (js '' || '') then js ''('' @ e @ js '')'' else e) (map buildRequestConditionExpr cs) =
        map (\<lambda>c. pieces_text (pieces_of c)) cs"
      using assms(1) condition_bracketed by simp
    then show ?thesis using combine_many [of "map buildRequestConditionExpr cs"] assms(2)
      by (simp del: list.map_comp map_map)
  qed
  also have "\<dots> = join (js '' && '') (map (join (js '' && '')) (map (\<lambda>c. map piece_text (pieces_of c)) cs))"
    by (simp add: pieces_text_def o_def)
  also have "\<dots> = pieces_text (concat (map pieces_of cs))"
    by (subst join_concat) (auto simp: pieces_text_def map_concat o_def)
  finally show ?thesis .
qed

section \<open>Reading the pieces\<close>

fun piece_rule :: "piece \<Rightarrow> time_rule option" where
  "piece_rule (Bound p f z v) = Some (scalar_rule p f z v)"
| "piece_rule (Night f z s e) = Some (range_rule f z s e)"
| "piece_rule (Match r) = None"

lemma piece_time: "piece_ok a \<Longrightarrow> tryParseTimeCondition (piece_text a) = piece_rule a"
proof (cases a)
  case (Match r)
  then show "piece_ok a \<Longrightarrow> ?thesis" using match_head [of r] other_text_rule by auto
qed (use bound_rule night_rule in auto)

lemma pair_read:
  assumes "piece_ok a" "piece_ok b" "\<not> bounds_of_range a b"
  shows "tryParseTimeRangePair (piece_text a) (piece_text b) = None"
  using assms
  by (cases a; cases b)
    (auto simp: tryParseTimeRangePair_def piece_time scalar_rule_def range_rule_def bounds_of_range_def match_defs
      simp del: piece_text.simps)

lemma pair_range:
  assumes "piece_ok (Bound (js ''>='') f z s)" "piece_ok (Bound (js ''<'') f z e)"
  shows "tryParseTimeRangePair (bound_text (js ''>='') f z s) (bound_text (js ''<'') f z e) = Some (Time_rule (range_rule f z s e))"
  using bound_rule [OF assms(1)] bound_rule [OF assms(2)]
  by (simp add: tryParseTimeRangePair_def scalar_rule_def range_rule_def match_defs)

lemma sole_piece:
  assumes "condition_ok c" "pieces_of c = [a]"
  shows "tryParseRequestCondition (piece_text a) = Inr (Some c)"
proof (cases c)
  case (Request_match r)
  then show ?thesis using assms match_read by auto
next
  case (Time_rule t)
  have a: "piece_ok a" using pieces_ok assms by simp
  have "piece_rule a = Some t"
    using assms Time_rule
    by (cases t) (auto simp: rule_ok_def scalar_rule_def range_rule_def mode_sign_def match_defs split: if_splits)
  then show ?thesis using piece_time [OF a] Time_rule by (simp add: tryParseRequestCondition_def)
qed

lemma two_pieces:
  assumes "condition_ok c" "pieces_of c = a # b # ps"
  obtains f z s e where "c = Time_rule (range_rule f z s e)" "a = Bound (js ''>='') f z s" "b = Bound (js ''<'') f z e" "ps = []"
proof (cases c)
  case (Time_rule t)
  then have "t = range_rule (tr_func t) (tr_zone t) (tr_start t) (tr_end t)"
    using assms by (cases t) (auto simp: rule_ok_def range_rule_def split: if_splits)
  then show ?thesis using assms Time_rule that by (auto split: if_splits)
qed (use assms in auto)

lemma first_piece_upper:
  assumes "condition_ok d" "hd (pieces_of d) = Bound (js ''<'') f z w"
  shows "\<exists>u. d = Time_rule u \<and> tr_mode u = MATCH_LT \<and> tr_func u = f \<and> tr_zone u = z"
  using assms by (cases d) (auto simp: rule_ok_def mode_sign_def split: if_splits)

lemma sole_piece_lower:
  assumes "condition_ok c" "pieces_of c = [Bound (js ''>='') f z v]"
  shows "\<exists>t. c = Time_rule t \<and> tr_mode t = MATCH_GTE \<and> tr_func t = f \<and> tr_zone t = z"
  using assms by (cases c) (auto simp: rule_ok_def mode_sign_def split: if_splits)

lemma unmerged_pieces:
  assumes "condition_ok c" "condition_ok d" "\<not> mergeable c d" "pieces_of c = [a]"
  shows "\<not> bounds_of_range a (hd (pieces_of d))"
  using assms sole_piece_lower [OF assms(1)] first_piece_upper [OF assms(2)]
  by (fastforce simp: bounds_of_range_def)

lemma parts_read:
  assumes "\<forall>c \<in> set cs. condition_ok c" "unmerged cs"
  shows "read_condition_parts (map piece_text (concat (map pieces_of cs))) = Inr (Some cs)"
  using assms
proof (induction cs)
  case (Cons c cs)
  have ok: "condition_ok c" using Cons.prems by simp
  have um: "unmerged cs" using Cons.prems(2) by (cases cs) auto
  have ih: "read_condition_parts (map piece_text (concat (map pieces_of cs))) = Inr (Some cs)"
    using Cons.IH Cons.prems um by simp
  have firm: "trim (piece_text a) = piece_text a" "piece_text a \<noteq> []" if "piece_ok a" for a
    using firm_trim [OF piece_firm [OF that]] piece_firm [OF that] by (auto simp: firm_def)
  obtain a ps where p: "pieces_of c = a # ps" by (cases "pieces_of c") auto
  have a: "piece_ok a" using pieces_ok [OF ok] p by simp
  show ?case
  proof (cases ps)
    case (Cons b qs)
    then obtain f z s e where e: "c = Time_rule (range_rule f z s e)" "a = Bound (js ''>='') f z s"
      "b = Bound (js ''<'') f z e" "qs = []" using two_pieces [OF ok] p by metis
    have b: "piece_ok b" using pieces_ok [OF ok] p Cons by simp
    show ?thesis using p Cons e firm [OF a] firm [OF b] pair_range [of f z s e] a b ih by simp
  next
    case Nil
    note sole = sole_piece [OF ok p [unfolded Nil]]
    show ?thesis
    proof (cases cs)
      case Nil
      then show ?thesis using p \<open>ps = []\<close> sole firm [OF a] by simp
    next
      case (Cons d ds)
      obtain b qs where q: "pieces_of d = b # qs" by (cases "pieces_of d") auto
      have d: "condition_ok d" "\<not> mergeable c d" using Cons Cons.prems by auto
      have b: "piece_ok b" using pieces_ok [OF d(1)] q by simp
      have "tryParseTimeRangePair (piece_text a) (piece_text b) = None"
        using unmerged_pieces [OF ok d p [unfolded Nil]] pair_read [OF a b] q by simp
      then show ?thesis using p \<open>ps = []\<close> sole firm [OF a] firm [OF b] ih Cons q by simp
    qed
  qed
qed simp

section \<open>Reading a group\<close>

lemma firm_join: "ws \<noteq> [] \<Longrightarrow> \<forall>w \<in> set ws. firm w \<Longrightarrow> firm (join sep ws)"
proof (induction sep ws rule: join.induct)
  case (3 sep s t ts)
  have "firm s" "firm (join sep (t # ts))" using 3 by simp_all
  then show ?case by (auto simp: firm_def)
qed auto

lemma pieces_firm: "ps \<noteq> [] \<Longrightarrow> \<forall>a \<in> set ps. piece_ok a \<Longrightarrow> firm (pieces_text ps)"
  unfolding pieces_text_def by (rule firm_join) (auto intro: piece_firm)

lemma and_operator: "js '' && '' = 32 # 38 # [38] @ [32]" "js ''&&'' = 38 # [38]"
  by (simp_all add: js_eval)

lemma pieces_split:
  assumes "ps \<noteq> []" "\<forall>a \<in> set ps. piece_ok a"
  shows "splitExpressionAtTopLevel (pieces_text ps) (js ''&&'') = map piece_text ps"
  unfolding pieces_text_def and_operator
proof (rule split_spaced)
  show "plain_operator 38" by (simp add: plain_operator_def)
  show "\<forall>w \<in> set (map piece_text ps). calm 38 w \<and> w \<noteq> []"
    using assms piece_calm [of _ 38] piece_firm by (auto simp: split_unit_def firm_def)
qed (use assms in simp)

text \<open>The combined text of a group of conditions reads as the conditions.\<close>

lemma several_read:
  assumes "\<forall>c \<in> set cs. condition_ok c" "unmerged cs" "2 \<le> length cs"
  shows "tryParseRequestConditions (pieces_text (concat (map pieces_of cs))) = Inr (Some cs)"
proof -
  let ?ps = "concat (map pieces_of cs)"
  have ok: "\<forall>a \<in> set ?ps. piece_ok a" using assms(1) pieces_ok by auto
  obtain c d ds where cs: "cs = c # d # ds" using assms(3) by (cases cs; cases "tl cs") auto
  obtain a ps where p: "pieces_of c = a # ps" by (cases "pieces_of c") auto
  obtain b qs where q: "pieces_of d = b # qs" by (cases "pieces_of d") auto
  have "?ps = a # hd (ps @ [b]) # tl (ps @ [b]) @ qs @ concat (map pieces_of ds)"
    using cs p q by (cases ps) auto
  then obtain x xs where ps: "?ps = a # x # xs" "ps = [] \<Longrightarrow> x = b" "ps \<noteq> [] \<Longrightarrow> xs \<noteq> []"
    using cs p q by (cases ps) auto
  have "\<not> (xs = [] \<and> bounds_of_range a x)"
    using unmerged_pieces [of c d a] assms cs p q ps by (cases "ps = []") auto
  moreover define u where "u = (if xs = [] then [] else js '' && '' @ pieces_text xs)"
  moreover have "pieces_text ?ps = piece_text a @ js '' && '' @ piece_text x @ u"
    unfolding ps u_def pieces_text_def by (cases xs) auto
  ultimately have "tryParseTimeCondition (pieces_text ?ps) = None"
    using joined_rule [of a x u] ok ps by auto
  moreover have "trim (pieces_text ?ps) = pieces_text ?ps"
    using firm_trim [OF pieces_firm] ok ps by auto
  moreover have "?ps \<noteq> []" using ps by simp
  ultimately show ?thesis
    using pieces_split [OF _ ok] parts_read [OF assms(1,2)] cs by (simp add: tryParseRequestConditions_def del: concat.simps)
qed

lemma night_firm: "rule_ok t \<Longrightarrow> night (Time_rule t) \<Longrightarrow> firm (night_text t)"
proof -
  assume a: "rule_ok t" "night (Time_rule t)"
  then have b: "piece_ok (Bound (js ''>='') (tr_func t) (tr_zone t) (tr_start t))"
    "piece_ok (Bound (js ''<'') (tr_func t) (tr_zone t) (tr_end t))"
    by (auto simp: rule_ok_def time_text_def)
  have "\<forall>w \<in> set [bound_text (js ''>='') (tr_func t) (tr_zone t) (tr_start t),
      bound_text (js ''<'') (tr_func t) (tr_zone t) (tr_end t)]. firm w"
    using b [THEN piece_firm] by simp
  from firm_join [OF _ this, of "js '' || ''"] show "firm (night_text t)" by (simp add: night_text_def)
qed

lemma single_read:
  assumes "condition_ok c"
  shows "tryParseRequestConditions (buildRequestConditionExpr c) = Inr (Some [c]) \<and> firm (buildRequestConditionExpr c)"
proof (cases c)
  case (Request_match r)
  have ps: "\<forall>a \<in> set (pieces_of c). piece_ok a" "pieces_of c \<noteq> []" using assms pieces_ok by auto
  have t: "buildRequestConditionExpr c = pieces_text (pieces_of c)" using condition_built [OF assms] Request_match by simp
  have "tryParseTimeCondition (piece_text (Match r)) = None" using piece_time [of "Match r"] ps Request_match by simp
  then show ?thesis
    using pieces_split [OF ps(2,1)] pieces_firm [OF ps(2,1)] firm_trim parts_read [of "[c]"] assms Request_match t
    by (simp add: tryParseRequestConditions_def pieces_text_def)
next
  case (Time_rule t)
  have r: "rule_ok t" using assms Time_rule by simp
  have "tryParseTimeCondition (buildRequestConditionExpr c) = Some t \<and> firm (buildRequestConditionExpr c)"
  proof (cases "tr_mode t = MATCH_RANGE")
    case True
    then have tt: "time_text (tr_func t) (tr_zone t) (tr_start t)" "time_text (tr_func t) (tr_zone t) (tr_end t)"
      and t: "t = range_rule (tr_func t) (tr_zone t) (tr_start t) (tr_end t)"
      using r by (cases t; auto simp: rule_ok_def time_text_def range_rule_def)+
    have "buildRequestConditionExpr c = bound_text (js ''>='') (tr_func t) (tr_zone t) (tr_start t) @
        (if overnight t then js '' || '' else js '' && '') @ bound_text (js ''<'') (tr_func t) (tr_zone t) (tr_end t)"
      using condition_built [OF assms] Time_rule True by (simp add: night_text_def pieces_text_def)
    moreover have "firm (buildRequestConditionExpr c)"
      using condition_built [OF assms] Time_rule night_firm [OF r] pieces_firm [of "pieces_of c"] pieces_ok [OF assms] by auto
    ultimately show ?thesis using range_text_rule [OF tt] t by simp
  next
    case False
    then obtain a where a: "pieces_of c = [a]" "piece_rule a = Some t" "piece_ok a"
      using r Time_rule pieces_ok [OF assms]
      by (cases t) (auto simp: rule_ok_def scalar_rule_def mode_sign_def match_defs)
    then show ?thesis
      using condition_built [OF assms] Time_rule False piece_time piece_firm by (simp add: pieces_text_def)
  qed
  then show ?thesis using Time_rule firm_trim by (simp add: tryParseRequestConditions_def)
qed

lemma conditions_read:
  assumes "\<forall>c \<in> set cs. condition_ok c" "unmerged cs" "cs \<noteq> []"
  defines "e \<equiv> combine_conditions (map buildRequestConditionExpr cs)"
  shows "tryParseRequestConditions e = Inr (Some cs)" "firm e"
proof -
  have "tryParseRequestConditions e = Inr (Some cs) \<and> firm e"
  proof (cases "2 \<le> length cs")
    case True
    have "concat (map pieces_of cs) \<noteq> []" using assms(3) by (cases cs) auto
    moreover have "\<forall>a \<in> set (concat (map pieces_of cs)). piece_ok a" using assms(1) pieces_ok by auto
    ultimately show ?thesis
      using several_read [OF assms(1,2) True] combined_text [OF assms(1) True] pieces_firm by (simp add: e_def)
  next
    case False
    then obtain c where "cs = [c]" using assms(3) by (cases cs; cases "tl cs") auto
    then show ?thesis using single_read assms by (simp add: combine_conditions_def)
  qed
  then show "tryParseRequestConditions e = Inr (Some cs)" "firm e" by auto
qed

section \<open>Factors\<close>

definition factor_text :: "jsstr \<Rightarrow> jsstr \<Rightarrow> jsstr" where
  "factor_text e m = js ''('' @ e @ js '' ? '' @ m @ js '' : 1)''"

lemma factor_rest:
  assumes "runs (Seqs [Lit (js '' ? ''), number_text 2, Lit (js '' : 1)''), At_end]) (z, cs) \<noteq> []"
  shows "\<exists>y. z = js '' ? '' @ y @ js '' : 1)'' \<and> (\<forall>c \<in> set y. number_unit c)"
proof -
  have n: "\<not> number_unit 32" by simp
  obtain x where x: "z = js '' ? '' @ x" "runs (Seqs [number_text 2, Lit (js '' : 1)''), At_end]) (x, cs) \<noteq> []"
  proof (cases "strip (js '' ? '') z")
    case (Some x)
    then have "z = js '' ? '' @ x" unfolding strip_starts by (metis append_take_drop_id option.inject option.distinct(1) starts_with_def)
    then show ?thesis using that Some assms by (simp add: runs_seq_lit)
  qed (use assms in \<open>simp add: runs_seq_lit\<close>)
  let ?r = "dropWhile number_unit x"
  have "strip (js '' : 1)'') ?r = Some []"
    using x(2) by (auto simp: js_eval runs_span runs_seq_lit runs_end split: if_splits option.splits)
  then have "?r = js '' : 1)''" unfolding strip_starts
    by (metis append_Nil2 append_take_drop_id option.inject option.distinct(1) starts_with_def)
  then have "x = takeWhile number_unit x @ js '' : 1)''" by (metis takeWhile_dropWhile_id)
  then show ?thesis using x(1) by (metis set_takeWhileD)
qed

lemma factor_unique:
  assumes "e @ js '' ? '' @ m @ js '' : 1)'' = w @ js '' ? '' @ y @ js '' : 1)''"
    and "\<forall>c \<in> set m. number_unit c" "\<forall>c \<in> set y. number_unit c"
  shows "w = e"
proof -
  have eq: "(e @ [32, 63]) @ [32] @ m = (w @ [32, 63]) @ [32] @ y"
    using assms(1) by (simp add: js_eval)
  have sp: "32 \<notin> set m" "32 \<notin> set y" using assms(2,3) by (auto simp: number_unit_def is_digit_def)
  have "takeWhile (\<lambda>c. c \<noteq> 32) (rev (u @ [32] @ v)) = rev v" if "32 \<notin> set v" for u v :: jsstr
    using that by (simp add: takeWhile_append)
  from this [OF sp(1)] this [OF sp(2)] eq have "rev m = rev y" by metis
  then show ?thesis using eq by simp
qed

lemma factor_read:
  assumes "e \<noteq> []" "numeric_text m"
  shows "match_all factor_pattern (factor_text e m) = Some (\<lambda>n. case map_of [(2, m), (1, e)] n of None \<Rightarrow> [] | Some w \<Rightarrow> w)"
proof -
  have m: "\<forall>c \<in> set m. number_unit c" "m \<noteq> []" using assms(2) numeric_units numeric_nonempty by auto
  let ?k = "Seqs [Lit (js '' ? ''), number_text 2, Lit (js '' : 1)''), At_end]"
  let ?v = "js '' ? '' @ m @ js '' : 1)''"
  have "runs (Seq (Cap 1 (Plus (Cls (\<lambda>_. True)))) ?k) (e @ ?v, []) = runs ?k (?v, [(1, e)])"
  proof (rule runs_only)
    fix w z assume "e @ ?v = w @ z" "w \<noteq> e"
    then show "runs ?k (z, [(1, w)]) = []" using factor_rest [of z "[(1, w)]"] factor_unique [of e m w] m(1) by metis
  qed (use assms in auto)
  moreover have "runs ?k (?v, [(1, e)]) = [([], [(2, m), (1, e)])]"
    using m(2) number_span [OF m(1), of "js '' : 1)''"] by (simp add: js_eval regex_simps)
  ultimately show ?thesis
    by (simp add: match_all_def factor_pattern_def factor_text_def runs_seq_lit)
qed

lemma group_built:
  assumes "group_ok g"
  shows "buildRuleGroupFactor g = factor_text (combine_conditions (map buildRequestConditionExpr (g_conditions g))) (g_multiplier g)"
proof -
  have ok: "\<forall>c \<in> set (g_conditions g). condition_ok c" using assms by (simp add: group_ok_def list_all_iff)
  have "filter (\<lambda>t. t \<noteq> []) (map buildRequestConditionExpr (g_conditions g)) = map buildRequestConditionExpr (g_conditions g)"
    using single_read ok by (auto simp: firm_def filter_id_conv)
  then show ?thesis
    using assms numeric_trim by (simp add: buildRuleGroupFactor_def Let_def group_ok_def factor_text_def)
qed

lemma group_read:
  assumes "group_ok g"
  shows "tryParseRuleGroupFactor (buildRuleGroupFactor g) = Inr (Some g)"
proof -
  have ok: "\<forall>c \<in> set (g_conditions g). condition_ok c" "unmerged (g_conditions g)" "g_conditions g \<noteq> []"
    using assms by (auto simp: group_ok_def list_all_iff)
  note r = conditions_read [OF ok]
  have "combine_conditions (map buildRequestConditionExpr (g_conditions g)) \<noteq> []" using r(2) by (simp add: firm_def)
  from factor_read [OF this, of "g_multiplier g"] show ?thesis
    using r(1) assms group_built [OF assms] by (cases g) (simp add: tryParseRuleGroupFactor_def group_ok_def)
qed

section \<open>The list of factors\<close>

lemma pieces_walk:
  "\<forall>a \<in> set ps. piece_ok a \<Longrightarrow> split_unit h \<Longrightarrow> 0 < d \<Longrightarrow> walk h (d, None) (pieces_text ps @ t) = walk h (d, None) t"
proof (induction ps rule: induct_list012)
  case (3 a b ps)
  have "walk h (d, None) (pieces_text (a # b # ps) @ t) = walk h (d, None) (piece_text a @ js '' && '' @ pieces_text (b # ps) @ t)"
    by (simp add: pieces_text_def)
  also have "\<dots> = walk h (d, None) (js '' && '' @ pieces_text (b # ps) @ t)" using 3 piece_walk by simp
  also have "\<dots> = walk h (d, None) (pieces_text (b # ps) @ t)"
    using "3.prems" by (simp add: js_eval is_quote_def bracket_depth_def)
  finally show ?case using 3 by simp
qed (simp_all add: pieces_text_def piece_walk)

lemma condition_walk:
  assumes "condition_ok c" "split_unit h" "0 < d"
  shows "walk h (d, None) (buildRequestConditionExpr c @ t) = walk h (d, None) t"
proof (cases "night c")
  case True
  then obtain r where r: "c = Time_rule r" "tr_mode r = MATCH_RANGE" using assms by (cases c) auto
  then have tt: "time_text (tr_func r) (tr_zone r) (tr_start r)" "time_text (tr_func r) (tr_zone r) (tr_end r)"
    using assms by (auto simp: rule_ok_def time_text_def)
  have "buildRequestConditionExpr c = night_text r" using condition_built [OF assms(1)] True r by simp
  then show ?thesis using bound_walk [OF tt(1) assms(2)] bound_walk [OF tt(2) assms(2)] assms(3)
    by (simp add: night_text_def) (simp add: js_eval is_quote_def bracket_depth_def)
next
  case False
  then have "buildRequestConditionExpr c = pieces_text (pieces_of c)"
    using condition_built [OF assms(1)] by (cases c) auto
  then show ?thesis using pieces_walk assms pieces_ok by simp
qed

lemma group_calm:
  assumes "group_ok g"
  shows "calm 42 (buildRuleGroupFactor g)" "buildRuleGroupFactor g \<noteq> []"
proof -
  have ok: "\<forall>c \<in> set (g_conditions g). condition_ok c" "g_conditions g \<noteq> []" and m: "numeric_text (g_multiplier g)"
    using assms by (auto simp: group_ok_def list_all_iff)
  let ?e = "combine_conditions (map buildRequestConditionExpr (g_conditions g))"
  have h: "split_unit 42" by (simp add: split_unit_def)
  have e: "walk 42 (1, None) (?e @ t) = walk 42 (1, None) t" for t
  proof (cases "2 \<le> length (g_conditions g)")
    case True
    have "\<forall>a \<in> set (concat (map pieces_of (g_conditions g))). piece_ok a" using pieces_ok ok(1) by auto
    then show ?thesis using combined_text [OF ok(1) True] pieces_walk [OF _ h] by simp
  next
    case False
    then obtain c where "g_conditions g = [c]" using ok(2) by (cases "g_conditions g"; cases "tl (g_conditions g)") auto
    then show ?thesis using condition_walk [OF _ h] ok(1) by (simp add: combine_conditions_def)
  qed
  have "walk 42 (0, None) (buildRuleGroupFactor g) = Some (0, None)"
    unfolding group_built [OF assms] factor_text_def
    using e number_walk [OF numeric_units [OF m] h]
    by (simp add: js_eval is_quote_def bracket_depth_def)
  moreover have "firm (buildRuleGroupFactor g)"
    unfolding group_built [OF assms] factor_text_def by (simp add: firm_def js_eval is_space_def)
  ultimately show "calm 42 (buildRuleGroupFactor g)" "buildRuleGroupFactor g \<noteq> []"
    using firm_trim by (auto simp: calm_def firm_def)
qed

lemma find_text_found: "\<exists>n \<le> length u. find_text part (u @ part @ v) = Some n"
proof (induction u)
  case Nil
  have "take (length part) (part @ v) = part" by simp
  then show ?case by (cases "part @ v") (auto simp: starts_with_def simp del: take_append)
next
  case (Cons c u)
  then show ?case by (auto simp: starts_with_def)
qed

lemma factors_read:
  assumes "\<forall>g \<in> set gs. group_ok g" "position \<le> length u"
  shows "\<exists>ps. read_factors (u @ join (js '' * '') (map buildRuleGroupFactor gs)) position (map buildRuleGroupFactor gs) =
    Inr (Some ps) \<and> map rule_group.truncate ps = gs"
  using assms
proof (induction gs arbitrary: position u)
  case (Cons g gs)
  let ?f = "buildRuleGroupFactor g" and ?s = "u @ join (js '' * '') (map buildRuleGroupFactor (g # gs))"
  define v where "v = (if gs = [] then [] else js '' * '' @ join (js '' * '') (map buildRuleGroupFactor gs))"
  have s: "?s = u @ ?f @ v" by (cases gs) (simp_all add: v_def)
  obtain n where n: "n \<le> length u - position" "find_text ?f (drop position ?s) = Some n"
    using find_text_found [of "drop position u" ?f v] Cons.prems(2) s by auto
  obtain ps where ps: "read_factors ?s (position + n + length ?f) (map buildRuleGroupFactor gs) = Inr (Some ps)"
    "map rule_group.truncate ps = gs"
  proof (cases gs)
    case Nil
    then show ?thesis using that by simp
  next
    case (Cons h hs)
    have "position + n + length ?f \<le> length (u @ ?f @ js '' * '')" using n(1) Cons.prems(2) by simp
    with Cons.IH [of "position + n + length ?f" "u @ ?f @ js '' * ''"] Cons.prems(1)
    have "\<exists>ps. read_factors ((u @ ?f @ js '' * '') @ join (js '' * '') (map buildRuleGroupFactor gs)) (position + n + length ?f)
        (map buildRuleGroupFactor gs) = Inr (Some ps) \<and> map rule_group.truncate ps = gs" by simp
    moreover have "(u @ ?f @ js '' * '') @ join (js '' * '') (map buildRuleGroupFactor gs) = ?s"
      unfolding s v_def using \<open>gs = h # hs\<close> by simp
    ultimately show ?thesis using that by metis
  qed
  have "rule_group.truncate (rule_group.extend g \<lparr>sourceOffset = position + n\<rparr>) = g"
    by (simp add: rule_group.defs)
  then show ?case using ps n(2) group_read Cons.prems(1) by simp
qed simp

lemma times_operator: "js '' * '' = 32 # 42 # [] @ [32]" "js ''*'' = 42 # []"
  by (simp_all add: js_eval)

lemma rules_built:
  "\<forall>g \<in> set gs. group_ok g \<Longrightarrow> buildRequestRuleExpr gs = join (js '' * '') (map buildRuleGroupFactor gs)"
  using group_calm(2) by (simp add: buildRequestRuleExpr_def o_def filter_id_conv)

lemma rules_split:
  assumes "\<forall>g \<in> set gs. group_ok g" "gs \<noteq> []"
  shows "splitExpressionAtTopLevel (buildRequestRuleExpr gs) (js ''*'') = map buildRuleGroupFactor gs"
  unfolding rules_built [OF assms(1)] times_operator
proof (rule split_spaced)
  show "plain_operator 42" by (simp add: plain_operator_def)
qed (use assms group_calm in auto)

lemma group_firm: "group_ok g \<Longrightarrow> firm (buildRuleGroupFactor g)"
  by (simp add: group_built factor_text_def firm_def js_eval is_space_def)

lemma rules_firm: "\<forall>g \<in> set gs. group_ok g \<Longrightarrow> gs \<noteq> [] \<Longrightarrow> firm (buildRequestRuleExpr gs)"
  using firm_join [of "map buildRuleGroupFactor gs"] group_firm by (simp add: rules_built)

section \<open>Guarantees\<close>

text \<open>C6: The editor of request rules reads back the rows of its readable forms.  These are, in
  groups of at least one row with a numeric multiplier: rows on the time that compare with a value
  (equal, at least, below) or a range of values of their clock, rows on a header (exists, contains,
  equals), and rows on a parameter (exists, equals), with trimmed texts that have no quote, backslash,
  bar, control character or surrogate, and without a lower bound directly before an upper bound of
  the same clock.  The text built from such groups is read as the same groups, with their
  conditions, modes, values and multipliers in order.  Rows on a parameter with the modes contains,
  greater or less are not covered: the last section shows that they are not read back.\<close>

theorem rules_round_trip:
  assumes "list_all group_ok gs"
  shows "\<exists>ps. tryParseRequestRuleExpr (buildRequestRuleExpr gs) = Inr (Some ps) \<and> map rule_group.truncate ps = gs"
proof (cases "gs = []")
  case True
  then show ?thesis by (simp add: tryParseRequestRuleExpr_def buildRequestRuleExpr_def)
next
  case False
  have ok: "\<forall>g \<in> set gs. group_ok g" using assms by (simp add: list_all_iff)
  have f: "firm (buildRequestRuleExpr gs)" by (rule rules_firm [OF ok False])
  then have "trim (buildRequestRuleExpr gs) = buildRequestRuleExpr gs" "buildRequestRuleExpr gs \<noteq> []"
    using firm_trim by (auto simp: firm_def)
  then show ?thesis
    using factors_read [OF ok, of 0 "[]"] rules_split [OF ok False] rules_built [OF ok]
    by (simp add: tryParseRequestRuleExpr_def)
qed

text \<open>A group with a condition on a header and one on a parameter.\<close>

definition sample_group :: rule_group where
  "sample_group =
     \<lparr>g_conditions =
        [Request_match \<lparr>rm_source = js ''header'', rm_path = js ''x-tier'', rm_mode = MATCH_CONTAINS, rm_value = js ''fast''\<rparr>,
         Request_match \<lparr>rm_source = js ''param'', rm_path = js ''stream'', rm_mode = MATCH_EXISTS, rm_value = []\<rparr>],
      g_multiplier = js ''2'', g_conditionText = None, g_matched = None\<rparr>"

lemma digit_numeric: "is_digit c \<Longrightarrow> numeric_text [c]"
proof -
  assume c: "is_digit c"
  have "c \<noteq> 45" "c \<noteq> 46" using c by (auto simp: is_digit_def)
  then have "runs (Seqs (NUMERIC_LITERAL_REGEX @ [At_end])) ([c], []) \<noteq> []"
    using c by (simp add: NUMERIC_LITERAL_REGEX_def Plus_def runs.simps lit_runs_def starts_with_def consumes_def)
  then show "numeric_text [c]" by (auto simp: test_all_def match_all_def split: list.splits)
qed

lemma sample_group_ok: "group_ok sample_group"
  using digit_numeric [of 50]
  by (simp add: group_ok_def sample_group_def match_ok_def plain_text_def plain_value_def plain_unit_def match_defs
      js_eval trim_def is_space_def is_digit_def)

theorem rules_round_trip_witness:
  "\<exists>ps. tryParseRequestRuleExpr (buildRequestRuleExpr [sample_group, sample_group]) = Inr (Some ps) \<and>
     map rule_group.truncate ps = [sample_group, sample_group]"
  using rules_round_trip [of "[sample_group, sample_group]"] sample_group_ok by simp

section \<open>Positions\<close>

lemma find_text_Some: "find_text part s = Some n \<Longrightarrow> starts_with (drop n s) part"
proof (induction s arbitrary: n)
  case (Cons c s)
  then show ?case by (auto split: if_splits)
qed (auto simp: starts_with_def split: if_splits)

lemma factors_placed:
  assumes "read_factors s position parts = Inr (Some ps)" "\<forall>p \<in> set parts. p \<noteq> []"
  shows "sorted_wrt (<) (map sourceOffset ps) \<and> (\<forall>p \<in> set ps. position \<le> sourceOffset p) \<and>
    list_all2 (\<lambda>part p. starts_with (drop (sourceOffset p) s) part \<and>
      tryParseRuleGroupFactor part = Inr (Some (rule_group.truncate p))) parts ps"
  using assms
proof (induction parts arbitrary: position ps)
  case (Cons part parts)
  obtain n g qs where r: "find_text part (drop position s) = Some n" "tryParseRuleGroupFactor part = Inr (Some g)"
    "read_factors s (position + n + length part) parts = Inr (Some qs)"
    "ps = rule_group.extend g \<lparr>sourceOffset = position + n\<rparr> # qs"
    using Cons.prems(1) by (auto simp: res_simps split: option.splits)
  have g: "sourceOffset (rule_group.extend g \<lparr>sourceOffset = position + n\<rparr>) = position + n"
    "rule_group.truncate (rule_group.extend g \<lparr>sourceOffset = position + n\<rparr>) = g" by (simp_all add: rule_group.defs)
  have "starts_with (drop (position + n) s) part" using find_text_Some [OF r(1)] by (simp add: add.commute)
  moreover have "0 < length part" using Cons.prems(2) by simp
  moreover have ih: "sorted_wrt (<) (map sourceOffset qs)" "\<forall>p \<in> set qs. position + n + length part \<le> sourceOffset p"
    "list_all2 (\<lambda>part p. starts_with (drop (sourceOffset p) s) part \<and>
      tryParseRuleGroupFactor part = Inr (Some (rule_group.truncate p))) parts qs"
    using Cons.IH [OF r(3)] Cons.prems(2) by simp_all
  ultimately have "\<forall>p \<in> set qs. position + n < sourceOffset p" "\<forall>p \<in> set qs. position \<le> sourceOffset p"
    by (meson add_less_same_cancel1 le_less_trans less_add_same_cancel1 less_le_trans, meson add_leE)
  then show ?case using ih(1,3) r(2) g \<open>starts_with (drop (position + n) s) part\<close> unfolding r(4) by simp
qed simp

text \<open>Every group that is read knows its place in the source: the positions increase, so that no
  two groups share one, and at the position of a group stands the factor it was read from.\<close>

theorem rule_positions:
  assumes "tryParseRequestRuleExpr source = Inr (Some ps)"
  shows "sorted_wrt (<) (map sourceOffset ps) \<and>
    (\<exists>parts. list_all2 (\<lambda>part p. starts_with (drop (sourceOffset p) (trim source)) part \<and>
      tryParseRuleGroupFactor part = Inr (Some (rule_group.truncate p))) parts ps)"
proof (cases "trim source = []")
  case True
  then show ?thesis using assms by (simp add: tryParseRequestRuleExpr_def)
next
  case False
  let ?parts = "splitExpressionAtTopLevel (trim source) (js ''*'')"
  have "\<forall>p \<in> set ?parts. p \<noteq> []"
    using split_lossless [of "js ''*''" "trim source"] by (auto simp: js_eval)
  moreover have "read_factors (trim source) 0 ?parts = Inr (Some ps)"
    using assms False by (simp add: tryParseRequestRuleExpr_def Let_def)
  ultimately show ?thesis using factors_placed by blast
qed

theorem rule_positions_witness:
  "\<exists>ps. tryParseRequestRuleExpr (buildRequestRuleExpr [sample_group, sample_group]) = Inr (Some ps) \<and>
     sorted_wrt (<) (map sourceOffset ps)"
proof -
  obtain ps where ps: "tryParseRequestRuleExpr (buildRequestRuleExpr [sample_group, sample_group]) = Inr (Some ps)"
  proof -
    have ok: "\<forall>g \<in> set [sample_group, sample_group]. group_ok g" using sample_group_ok by simp
    have f: "firm (buildRequestRuleExpr [sample_group, sample_group])" by (rule rules_firm [OF ok]) simp
    show ?thesis
      using that factors_read [OF ok, of 0 "[]"] rules_split [OF ok] rules_built [OF ok] firm_trim [OF f] f
      by (auto simp: tryParseRequestRuleExpr_def firm_def)
  qed
  then show ?thesis using rule_positions [OF ps] by blast
qed

section \<open>Rows that are not read back\<close>

text \<open>Contains and order conditions on a parameter are written with a guard, \<open>param(p) != nil\<close>, that
  the reader splits off as a condition of its own.\<close>

definition guarded_ok :: "request_match \<Rightarrow> bool" where
  "guarded_ok r \<longleftrightarrow> rm_source r = js ''param'' \<and> plain_text (rm_path r) \<and>
     (rm_mode r \<in> {MATCH_GT, MATCH_GTE, MATCH_LT, MATCH_LTE} \<and> numeric_text (rm_value r) \<or>
      rm_mode r = MATCH_CONTAINS \<and> plain_value (rm_value r))"

definition guard :: "request_match \<Rightarrow> piece" where
  "guard r = Match \<lparr>rm_source = js ''param'', rm_path = rm_path r, rm_mode = MATCH_EXISTS, rm_value = []\<rparr>"

definition guarded_text :: "request_match \<Rightarrow> jsstr" where
  "guarded_text r =
     (if rm_mode r = MATCH_CONTAINS
      then js ''has(param(\"'' @ rm_path r @ js ''\"), \"'' @ rm_value r @ js ''\")''
      else js ''param(\"'' @ rm_path r @ js ''\") '' @ order_sign (rm_mode r) @ js '' '' @ rm_value r)"

lemma guard_ok: "guarded_ok r \<Longrightarrow> piece_ok (guard r)"
  by (simp add: guard_def guarded_ok_def match_ok_def plain_value_def)

lemma guarded_built:
  assumes "guarded_ok r"
  shows "buildRequestConditionExpr (Request_match r) = piece_text (guard r) @ js '' && '' @ guarded_text r"
proof -
  have "rm_mode r \<in> set (getRequestRuleMatchOptions (js ''param''))" "rm_source r = js ''param''"
    using assms by (auto simp: guarded_ok_def getRequestRuleMatchOptions_def match_defs)
  then have n: "normalizeCondition (Some (partial_of (Request_match r))) = Request_match r"
    by (auto simp: normalizeCondition_def partial_of_def absent_condition_def some_text_def offered_mode_def)
  have p: "trim (rm_path r) = rm_path r" "rm_path r \<noteq> []" "json_string (rm_path r) = 34 # rm_path r @ [34]"
    using assms json_string_plain by (auto simp: guarded_ok_def plain_text_def plain_value_def)
  have v: "trim (rm_value r) = rm_value r"
    using assms numeric_trim by (auto simp: guarded_ok_def plain_value_def)
  have "rm_mode r = MATCH_CONTAINS \<Longrightarrow> json_string (rm_value r) = 34 # rm_value r @ [34]"
    using assms json_string_plain by (auto simp: guarded_ok_def match_defs)
  then show ?thesis
    using assms p v
    by (auto simp: buildRequestConditionExpr_def n request_match_text_def guarded_ok_def guard_def guarded_text_def
        match_defs buildExprLiteral_def js_eval)
qed

lemma guarded_unread:
  assumes "guarded_ok r"
  shows "tryParseRequestCondition (guarded_text r) = Inr None"
proof -
  have p: "plain_value (rm_path r)" "rm_path r \<noteq> []" using assms by (auto simp: guarded_ok_def plain_text_def)
  have time: "tryParseTimeCondition (guarded_text r) = None"
    using other_text_rule [of "''has''" "js ''(param(\"'' @ rm_path r @ js ''\"), \"'' @ rm_value r @ js ''\")''"]
      other_text_rule [of "''param''" "js ''(\"'' @ rm_path r @ js ''\") '' @ order_sign (rm_mode r) @ js '' '' @ rm_value r"]
    by (simp add: guarded_text_def js_eval)
  have "match_all q (guarded_text r) = None"
    if "q \<in> {header_exists_pattern, param_exists_pattern, header_contains_pattern, param_contains_pattern,
      param_order_pattern, equals_pattern}" for q
    using that assms unfolding guarded_text_def order_sign_def
    by (auto simp: guarded_ok_def match_defs header_exists_pattern_def param_exists_pattern_def header_contains_pattern_def
        param_contains_pattern_def param_order_pattern_def equals_pattern_def match_all_def regex_simps js_eval
        quoted_span [OF p(1)] p(2))
  then show ?thesis using time
    by (simp add: tryParseRequestCondition_def param_contains_def order_condition_def equals_condition_def)
qed

lemma guarded_walk:
  assumes "guarded_ok r" "split_unit h" "0 \<le> d"
  shows "walk h (d, None) (guarded_text r @ t) = walk h (d, None) t"
proof -
  have p: "\<forall>c \<in> set (rm_path r). plain_unit c" using assms(1) by (auto simp: guarded_ok_def plain_text_def plain_value_def)
  show ?thesis
  proof (cases "rm_mode r = MATCH_CONTAINS")
    case True
    then have v: "\<forall>c \<in> set (rm_value r). plain_unit c"
      using assms(1) by (auto simp: guarded_ok_def plain_value_def match_defs)
    then show ?thesis using True assms(2,3)
      by (auto simp: guarded_text_def js_eval is_quote_def bracket_depth_def split_unit_def walk_quoted_app [OF p] walk_quoted_app)
  next
    case False
    then have v: "\<forall>c \<in> set (rm_value r). number_unit c" using assms(1) numeric_units by (auto simp: guarded_ok_def)
    then show ?thesis using False assms(2,3)
      by (auto simp: guarded_text_def order_sign_def js_eval is_quote_def bracket_depth_def split_unit_def
          walk_quoted_app [OF p] number_walk)
  qed
qed

lemma guarded_firm: "guarded_ok r \<Longrightarrow> firm (guarded_text r)"
proof -
  assume r: "guarded_ok r"
  have sp: "\<not> is_space 104" "\<not> is_space 112" "\<not> is_space 41" by (simp_all add: is_space_def)
  have "rm_value r \<noteq> [] \<and> \<not> is_space (last (rm_value r))" if "rm_mode r \<noteq> MATCH_CONTAINS"
    using that r numeric_units [of "rm_value r"] numeric_nonempty [of "rm_value r"] number_unit_not_space
    by (auto simp: guarded_ok_def)
  then show "firm (guarded_text r)" using sp by (simp add: firm_def guarded_text_def js_eval)
qed

lemma guarded_conditions:
  assumes "guarded_ok r"
  shows "tryParseRequestConditions (buildRequestConditionExpr (Request_match r)) = Inr None"
proof -
  let ?x = "piece_text (guard r)" and ?y = "guarded_text r"
  have g: "piece_ok (guard r)" by (rule guard_ok [OF assms])
  have x: "firm ?x" "calm 38 ?x" "tryParseTimeCondition ?x = None"
    using piece_firm [OF g] piece_calm [OF g] piece_time [OF g] by (simp_all add: split_unit_def guard_def)
  have y: "firm ?y" "calm 38 ?y"
    using guarded_firm [OF assms] guarded_walk [OF assms, of 38 0 "[]"] firm_trim by (auto simp: calm_def split_unit_def)
  have split: "splitExpressionAtTopLevel (?x @ js '' && '' @ ?y) (js ''&&'') = [?x, ?y]"
    using split_spaced [of 38 "[?x, ?y]" "[38]"] x y unfolding and_operator by (simp add: plain_operator_def firm_def)
  have "firm (?x @ js '' && '' @ ?y)" using firm_join [of "[?x, ?y]" "js '' && ''"] x y by simp
  note whole = firm_trim [OF this]
  obtain h s where "h \<in> {''header'', ''param'', ''has''}" "?x = js h @ s"
    using match_head [of "\<lparr>rm_source = js ''param'', rm_path = rm_path r, rm_mode = MATCH_EXISTS, rm_value = []\<rparr>"] g
    unfolding guard_def piece_ok.simps piece_text.simps by blast
  then have "tryParseTimeCondition (?x @ js '' && '' @ ?y) = None" using other_text_rule by simp
  moreover have "tryParseRequestCondition ?x = Inr (Some (Request_match \<lparr>rm_source = js ''param'', rm_path = rm_path r,
      rm_mode = MATCH_EXISTS, rm_value = []\<rparr>))" using match_read g by (simp add: guard_def)
  moreover have "tryParseTimeRangePair ?x ?y = None" using x(3) by (simp add: tryParseTimeRangePair_def)
  moreover have "trim ?x = ?x" "trim ?y = ?y" "?y \<noteq> []" using x(1) y(1) firm_trim by (auto simp: firm_def)
  ultimately show ?thesis
    unfolding guarded_built [OF assms] tryParseRequestConditions_def whole split
    by (simp add: guarded_unread [OF assms])
qed

definition one_row :: "request_condition \<Rightarrow> jsstr \<Rightarrow> rule_group" where
  "one_row c m = \<lparr>g_conditions = [c], g_multiplier = m, g_conditionText = None, g_matched = None\<rparr>"

text \<open>A text in parentheses that is not split is one factor.\<close>

lemma factor_alone:
  assumes "\<And>t. walk 42 (1, None) (e @ t) = walk 42 (1, None) t" "e \<noteq> []" "numeric_text m"
  shows "tryParseRequestRuleExpr (factor_text e m) =
    res_bind (tryParseRequestConditions e) (\<lambda>cs. Inr (map_option (\<lambda>xs.
      [rule_group.extend \<lparr>g_conditions = xs, g_multiplier = m, g_conditionText = None, g_matched = None\<rparr> \<lparr>sourceOffset = 0\<rparr>]) cs))"
proof -
  let ?f = "factor_text e m"
  have f: "firm ?f" by (simp add: factor_text_def firm_def js_eval is_space_def)
  have "walk 42 (0, None) ?f = Some (0, None)"
    using assms(1) number_walk [OF numeric_units [OF assms(3)], of 42]
    by (simp add: factor_text_def js_eval is_quote_def bracket_depth_def split_unit_def)
  then have "splitExpressionAtTopLevel ?f (js ''*'') = [?f]"
    using split_spaced [of 42 "[?f]" "[]"] f firm_trim unfolding times_operator
    by (auto simp: plain_operator_def calm_def firm_def)
  moreover have "find_text ?f ?f = Some 0" using find_text_found [of "[]" ?f "[]"] by auto
  ultimately show ?thesis
    using f firm_trim [OF f] factor_read [OF assms(2,3)]
    by (cases "tryParseRequestConditions e"; cases "projr (tryParseRequestConditions e)")
      (auto simp: tryParseRequestRuleExpr_def firm_def tryParseRuleGroupFactor_def)
qed

text \<open>C35: A condition that a parameter contains a text, or is above or below a number, is never read
  back: for every path and value the reader refuses the text the editor built.\<close>

theorem guarded_rows_unreadable:
  assumes "guarded_ok r" "numeric_text m"
  shows "buildRequestRuleExpr [one_row (Request_match r) m] \<noteq> [] \<and>
    tryParseRequestRuleExpr (buildRequestRuleExpr [one_row (Request_match r) m]) = Inr None"
proof -
  let ?e = "buildRequestConditionExpr (Request_match r)"
  have e: "?e = piece_text (guard r) @ js '' && '' @ guarded_text r" by (rule guarded_built [OF assms(1)])
  have w: "walk 42 (1, None) (?e @ t) = walk 42 (1, None) t" for t
    unfolding e using piece_walk [OF guard_ok [OF assms(1)], of 42 1] guarded_walk [OF assms(1), of 42 1]
    by (simp add: split_unit_def) (simp add: js_eval is_quote_def bracket_depth_def)
  have ne: "?e \<noteq> []" unfolding e by (simp add: js_eval)
  have "buildRequestRuleExpr [one_row (Request_match r) m] = factor_text ?e m"
    using ne assms(2) numeric_trim
    by (simp add: buildRequestRuleExpr_def buildRuleGroupFactor_def one_row_def combine_conditions_def factor_text_def js_eval)
  then show ?thesis
    using factor_alone [OF w ne assms(2)] guarded_conditions [OF assms(1)] by (simp add: factor_text_def js_eval)
qed

definition sample_guarded :: request_match where
  "sample_guarded = \<lparr>rm_source = js ''param'', rm_path = js ''n'', rm_mode = MATCH_GT, rm_value = js ''5''\<rparr>"

theorem guarded_rows_unreadable_witness:
  "tryParseRequestRuleExpr (buildRequestRuleExpr [one_row (Request_match sample_guarded) (js ''2'')]) = Inr None"
proof -
  have "guarded_ok sample_guarded"
    using digit_numeric [of 53]
    by (simp add: guarded_ok_def sample_guarded_def plain_text_def plain_value_def plain_unit_def js_eval trim_def is_space_def is_digit_def)
  moreover have "numeric_text (js ''2'')" using digit_numeric [of 50] by (simp add: js_eval is_digit_def)
  ultimately show ?thesis using guarded_rows_unreadable by blast
qed

text \<open>C36: A rule whose bounds exclude each other applies to no time, but the reader takes it for an
  overnight range: reading and writing it turns the conjunction into a disjunction, and the multiplier applies to
  every time from the lower bound on and to every time before the upper bound.\<close>

theorem empty_range_rewritten:
  assumes "time_text f z s" "time_text f z e" "lt_num (string_number e) (string_number s)" "numeric_text m"
  shows "\<exists>ps. tryParseRequestRuleExpr (factor_text (bound_text (js ''>='') f z s @ js '' && '' @ bound_text (js ''<'') f z e) m) =
      Inr (Some ps) \<and>
    buildRequestRuleExpr ps = factor_text (bound_text (js ''>='') f z s @ js '' || '' @ bound_text (js ''<'') f z e) m"
proof -
  let ?e = "bound_text (js ''>='') f z s @ js '' && '' @ bound_text (js ''<'') f z e"
  let ?ps = "[Bound (js ''>='') f z s, Bound (js ''<'') f z e]"
  let ?r = "range_rule f z s e"
  have ok: "\<forall>a \<in> set ?ps. piece_ok a" using assms(1,2) by simp
  have e: "?e = pieces_text ?ps" by (simp add: pieces_text_def)
  have w: "walk 42 (1, None) (?e @ t) = walk 42 (1, None) t" for t
    unfolding e using pieces_walk [OF ok] by (simp add: split_unit_def)
  have f: "firm ?e" unfolding e by (rule pieces_firm [OF _ ok]) simp
  have r: "rule_ok ?r" "night (Time_rule ?r)"
    using assms(1-3) by (auto simp: rule_ok_def range_rule_def time_text_def overnight_def)
  have "tryParseRequestConditions ?e = Inr (Some [Time_rule ?r])"
    unfolding tryParseRequestConditions_def firm_trim [OF f] using range_text_rule [OF assms(1,2)] by simp
  then have "tryParseRequestRuleExpr (factor_text ?e m) =
      Inr (Some [rule_group.extend (one_row (Time_rule ?r) m) \<lparr>sourceOffset = 0\<rparr>])"
    using factor_alone [OF w _ assms(4)] f by (simp add: firm_def one_row_def)
  moreover have "buildTimeConditionExpr ?r = bound_text (js ''>='') f z s @ js '' || '' @ bound_text (js ''<'') f z e"
    using time_rule_built [OF r(1)] r(2) by (simp add: night_text_def range_rule_def)
  then have "buildRequestRuleExpr [rule_group.extend (one_row (Time_rule ?r) m) \<lparr>sourceOffset = 0\<rparr>] =
      factor_text (bound_text (js ''>='') f z s @ js '' || '' @ bound_text (js ''<'') f z e) m"
    using assms(4) numeric_trim
    by (simp add: buildRequestRuleExpr_def buildRuleGroupFactor_def one_row_def rule_group.defs combine_conditions_def
        buildRequestConditionExpr_def factor_text_def)
  ultimately show ?thesis by blast
qed

lemma digit_value: "k \<le> 9 \<Longrightarrow> string_number [48 + k] = Fin (of_nat k)"
proof -
  assume k: "k \<le> 9"
  have "numeral_parts [48 + k] None" using k by (simp add: numeral_parts_def digits_def is_digit_def)
  moreover have "numeral_text [48 + k] None None = [48 + k]" by (simp add: numeral_text_def)
  moreover have "to_double (of_nat k) = Fin (of_nat k)" using to_double_of_int [of "int k"] k by simp
  ultimately show "string_number [48 + k] = Fin (of_nat k)"
    using string_number_numeral [of "[48 + k]" None None] by (simp add: decimal_num_def)
qed

lemma digit_hour: "k \<le> 9 \<Longrightarrow> time_text (js ''hour'') (js ''UTC'') [48 + k]"
proof -
  assume k: "k \<le> 9"
  have "plain_text (js ''UTC'')"
    by (simp add: plain_text_def plain_value_def plain_unit_def js_eval trim_def is_space_def)
  moreover have "numeric_text [48 + k]" using k by (intro digit_numeric) (simp add: is_digit_def)
  moreover have "(of_nat k :: rat) \<le> of_nat 23" using k by (simp only: of_nat_le_iff)
  then have "le_num (Fin (of_nat k)) (Fin 23)" "le_num (Fin 0) (Fin (of_nat k))" by (auto simp: le_num_def)
  moreover have "is_integer (Fin (of_nat k))" unfolding is_integer_def num_val.simps floor_of_nat by simp
  ultimately show "time_text (js ''hour'') (js ''UTC'') [48 + k]"
    by (simp add: time_text_def TIME_FUNCS_def isTimeValueInRange_def TIME_FUNC_RANGES_def digit_value [OF k])
qed

theorem empty_range_rewritten_witness:
  "\<exists>ps. tryParseRequestRuleExpr (js ''(hour(\"UTC\") >= 9 && hour(\"UTC\") < 6 ? 2 : 1)'') = Inr (Some ps) \<and>
     buildRequestRuleExpr ps = js ''(hour(\"UTC\") >= 9 || hour(\"UTC\") < 6 ? 2 : 1)''"
proof -
  have d: "(9::nat) \<le> 9" "(6::nat) \<le> 9" "is_digit 50" by (simp_all add: is_digit_def)
  have "lt_num (string_number [48 + 6]) (string_number [48 + 9])" unfolding digit_value [OF d(1)] digit_value [OF d(2)] by simp
  from empty_range_rewritten [OF digit_hour [OF d(1)] digit_hour [OF d(2)] this digit_numeric [OF d(3)]]
  show ?thesis by (simp add: factor_text_def bound_text_def js_eval)
qed

end
