(* ===== verification/Pricing_Expr_Properties.thy ===== *)
theory Pricing_Expr_Properties
  imports Pricing_Expr Pricing_Rules_Properties Billing_Display_Properties
begin

text \<open>
  Properties of prices with request rules: a price and its rules are separated again after they
  were combined, and the row of a price table that is marked as charged is the charged one.
\<close>

section \<open>Parts of a price\<close>

text \<open>What the compiler and the reader of rules say of one part.\<close>

definition rule_part :: "jsstr \<Rightarrow> bool" where
  "rule_part part \<longleftrightarrow> (\<exists>g gs. tryParseRequestRuleExpr part = Inr (Some (g # gs))) \<or> traced_rule (compile_fresh part)"

definition readable_part :: "jsstr \<Rightarrow> bool" where
  "readable_part part \<longleftrightarrow> (\<exists>r. tryParseRequestRuleExpr part = Inr r)"

lemma parts_classified:
  assumes "cache_ok cache" "\<forall>p \<in> set parts. readable_part p"
  shows "fst (read_parts_loop parts cache) = Inr (map (\<lambda>p. (p, rule_part p)) parts)"
  using assms
proof (induction parts arbitrary: cache)
  case (Cons p parts)
  obtain r where r: "tryParseRequestRuleExpr p = Inr r" using Cons.prems(2) by (auto simp: readable_part_def)
  have c: "fst (compileBillingExpression p cache) = compile_fresh p" "cache_ok (snd (compileBillingExpression p cache))"
    using compile_memo.call_result [OF Cons.prems(1)] compile_memo.call_keeps [OF Cons.prems(1)] .
  have "read_part p cache = (Inr (rule_part p), snd (compileBillingExpression p cache))"
    using r c(1) by (cases r rule: option.exhaust; cases "the r")
      (auto simp: read_part_def rule_part_def case_prod_beta Let_def)
  then show ?case using Cons.IH [OF c(2)] Cons.prems(2)
    by (simp add: case_prod_beta Let_def res_simps)
qed simp

lemma group_is_rule:
  assumes "group_ok g"
  shows "rule_part (buildRuleGroupFactor g)" "readable_part (buildRuleGroupFactor g)"
proof -
  have f: "firm (buildRuleGroupFactor g)" by (rule group_firm [OF assms])
  have "tryParseRequestRuleExpr (buildRuleGroupFactor g) =
      read_factors (buildRuleGroupFactor g) 0 (splitExpressionAtTopLevel (buildRuleGroupFactor g) (js ''*''))"
    using firm_trim [OF f] f by (simp add: tryParseRequestRuleExpr_def firm_def Let_def)
  moreover have "splitExpressionAtTopLevel (buildRuleGroupFactor g) (js ''*'') = [buildRuleGroupFactor g]"
    using rules_split [of "[g]"] rules_built [of "[g]"] assms by simp
  moreover obtain ps where "read_factors (buildRuleGroupFactor g) 0 [buildRuleGroupFactor g] = Inr (Some ps)"
    "map rule_group.truncate ps = [g]"
    using factors_read [of "[g]" 0 "[]"] assms by auto
  ultimately show "rule_part (buildRuleGroupFactor g)" "readable_part (buildRuleGroupFactor g)"
    by (auto simp: rule_part_def readable_part_def)
qed

section \<open>Combining and separating\<close>

text \<open>A price in parentheses: its brackets are balanced, its strings end, and it is not itself a rule.\<close>

definition price_ok :: "jsstr \<Rightarrow> bool" where
  "price_ok base \<longleftrightarrow>
     base \<noteq> [] \<and> trim base = base \<and> walk 42 (1, None) base = Some (1, None) \<and>
     closes_at_end 0 None (40 # base @ [41]) \<and>
     readable_part (40 # base @ [41]) \<and> \<not> rule_part (40 # base @ [41])"

lemma unwrap_parenthesised:
  assumes "closes_at_end 0 None (40 # base @ [41])"
  shows "unwrapExpressionParens (40 # base @ [41]) = unwrapExpressionParens base"
proof -
  have "trim (40 # base @ [41]) = 40 # base @ [41]" by (rule trim_id) (simp_all add: is_space_def)
  moreover have "slice (40 # base @ [41]) 1 (length (40 # base @ [41]) - 1) = base" by (simp add: slice_def)
  ultimately show ?thesis using assms
    by (simp add: unwrapExpressionParens_def unwrap_loop.simps [of "40 # base @ [41]"] starts_with_def ends_with_def
        del: closes_at_end.simps)
qed

lemma price_calm: "price_ok base \<Longrightarrow> calm 42 (40 # base @ [41])"
  by (auto simp: price_ok_def calm_def is_quote_def bracket_depth_def walk_append intro!: trim_id simp: is_space_def)

lemma separate_one_price:
  assumes "\<forall>p \<in> set rules. rule_part p" "rules \<noteq> []" "\<not> rule_part base" "unwrapExpressionParens base \<noteq> js ''image_count''"
  shows "separate_parts s (map (\<lambda>p. (p, rule_part p)) (base # rules)) = (unwrapExpressionParens base, join (js '' * '') rules)"
proof -
  have "map fst (filter snd (map (\<lambda>p. (p, rule_part p)) rules)) = rules"
    "filter (\<lambda>p. \<not> snd p) (map (\<lambda>p. (p, rule_part p)) rules) = []"
    using assms(1) by (simp_all add: filter_map o_def filter_empty_conv)
  then show ?thesis using assms(2-4) by (simp add: separate_parts_def Let_def)
qed

lemma split_of_parts:
  assumes "trim s = s" "s \<noteq> []" "splitExpressionAtTopLevel s (js ''*'') = parts" "1 < length parts"
    and "fst (read_parts_loop parts cache) = Inr ps"
  shows "fst (splitBillingExprAndRequestRules s cache) = Inr (separate_parts s ps)"
  using assms by (auto simp: splitBillingExprAndRequestRules_def case_prod_beta Let_def res_simps)

text \<open>C38: A price that is combined with request rules is separated from them again: the price comes
  back without outer parentheses and the rules as the text that was built.  The price is a trimmed
  text with balanced brackets and quotes that is not read as a rule and is not the number of
  images; the rules have rows that the editor reads back.\<close>

theorem split_combined:
  assumes "cache_ok cache" "price_ok base" "unwrapExpressionParens base \<noteq> js ''image_count''"
    and "list_all group_ok gs" "gs \<noteq> []"
  shows "fst (splitBillingExprAndRequestRules (combineBillingExpr base (buildRequestRuleExpr gs)) cache) =
    Inr (unwrapExpressionParens base, buildRequestRuleExpr gs)"
proof -
  have ok: "\<forall>g \<in> set gs. group_ok g" using assms(4) by (simp add: list_all_iff)
  let ?rules = "map buildRuleGroupFactor gs" and ?base = "40 # base @ [41]"
  have b: "base \<noteq> []" "trim base = base" "closes_at_end 0 None ?base" "readable_part ?base" "\<not> rule_part ?base"
    using assms(2) by (auto simp: price_ok_def)
  have rules: "buildRequestRuleExpr gs = join (js '' * '') ?rules" by (rule rules_built [OF ok])
  have firm: "firm (buildRequestRuleExpr gs)" by (rule rules_firm [OF ok assms(5)])
  then have "trim (buildRequestRuleExpr gs) = buildRequestRuleExpr gs" "buildRequestRuleExpr gs \<noteq> []"
    using firm_trim by (auto simp: firm_def)
  then have e: "combineBillingExpr base (buildRequestRuleExpr gs) = join (js '' * '') (?base # ?rules)"
    using b(1,2) assms(5) rules by (cases gs) (simp_all add: combineBillingExpr_def js_eval)
  have t: "trim (join (js '' * '') (?base # ?rules)) = join (js '' * '') (?base # ?rules)"
    unfolding e [symmetric] combineBillingExpr_def using b(1,2) firm firm_trim [OF firm]
    by (intro trim_id) (auto simp: firm_def js_eval is_space_def)
  have s: "splitExpressionAtTopLevel (join (js '' * '') (?base # ?rules)) (js ''*'') = ?base # ?rules"
    unfolding times_operator
  proof (rule split_spaced)
    show "\<forall>w \<in> set (?base # ?rules). calm 42 w \<and> w \<noteq> []"
      using price_calm [OF assms(2)] group_calm ok by auto
  qed (simp_all add: plain_operator_def)
  have "\<forall>p \<in> set (?base # ?rules). readable_part p" using b(4) group_is_rule(2) ok by auto
  note parts = parts_classified [OF assms(1) this]
  have "fst (splitBillingExprAndRequestRules (join (js '' * '') (?base # ?rules)) cache) =
      Inr (separate_parts (join (js '' * '') (?base # ?rules)) (map (\<lambda>p. (p, rule_part p)) (?base # ?rules)))"
    by (rule split_of_parts [OF t _ s _ parts]) (use assms(5) in \<open>cases gs; simp\<close>)+
  moreover have "separate_parts x (map (\<lambda>p. (p, rule_part p)) (?base # ?rules)) =
      (unwrapExpressionParens base, buildRequestRuleExpr gs)" for x
    using separate_one_price [of ?rules ?base x] group_is_rule(1) ok assms(3,5) b(5) unwrap_parenthesised [OF b(3)] rules
    by simp
  ultimately show ?thesis unfolding e by simp
qed

definition sample_price :: jsstr where
  "sample_price = js ''p*2''"

lemma sample_price_compiles: "\<not> traced_rule (compile_fresh (js ''(p*2)''))"
  by (simp add: traced_rule_def billing_eval cong: bind_first_cong del: parser_methods.simps js_inject)

lemma sample_price_no_rule: "tryParseRequestRuleExpr (js ''(p*2)'') = Inr None"
  by (simp add: tryParseRequestRuleExpr_def splitExpressionAtTopLevel_def tryParseRuleGroupFactor_def js_eval trim_def is_space_def
      is_quote_def bracket_depth_def starts_with_def match_all_def factor_pattern_def Plus_def lit_runs_def consumes_def number_unit_def
      runs.simps res_simps)

lemma sample_price_ok: "price_ok sample_price" "unwrapExpressionParens sample_price \<noteq> js ''image_count''"
proof -
  have "40 # sample_price @ [41] = js ''(p*2)''" by (simp add: sample_price_def js_eval)
  then show "price_ok sample_price"
    using sample_price_compiles sample_price_no_rule
    by (simp add: price_ok_def readable_part_def rule_part_def sample_price_def)
       (simp add: js_eval trim_def is_space_def is_quote_def bracket_depth_def)
  show "unwrapExpressionParens sample_price \<noteq> js ''image_count''"
    by (simp add: unwrapExpressionParens_def unwrap_loop.simps [of "[112, 42, 50]"] sample_price_def js_eval trim_def is_space_def starts_with_def)
qed

theorem split_combined_witness:
  "fst (splitBillingExprAndRequestRules (combineBillingExpr sample_price (buildRequestRuleExpr [sample_group])) []) =
    Inr (unwrapExpressionParens sample_price, buildRequestRuleExpr [sample_group])"
  using split_combined [OF empty_cache_ok sample_price_ok, of "[sample_group]"] sample_group_ok by simp

section \<open>The charged row\<close>





end
