(* ===== verification/Pricing_Tasks_Properties.thy ===== *)
theory Pricing_Tasks_Properties
  imports Pricing_Tasks_Text Pricing_Expr_Properties
begin

text \<open>
  The task editor loses nothing: a configuration is read back from the expression it is written
  as, and a matrix survives the conversion to tiers and to text.
\<close>

section \<open>No request rules are split off\<close>

lemma config_text_ends:
  assumes "ts \<noteq> []" "conditional_tiers ts"
  shows "config_text nf ts \<noteq> []" "hd (config_text nf ts) \<in> {116, 117}" "last (config_text nf ts) = 41"
proof -
  have c: "generateTaskTierCall t nf \<noteq> []" "hd (generateTaskTierCall t nf) = 116" "last (generateTaskTierCall t nf) = 41" for t
    by (simp_all add: generateTaskTierCall_def js_eval)
  have h: "hd (generateTaskCondition cs) = 117" "generateTaskCondition cs \<noteq> []" if "cs \<noteq> []" for cs
    using that by (cases cs; cases "tl cs"; simp add: generateTaskCondition_def task_condition_text_def js_eval)+
  have "config_text nf ts \<noteq> [] \<and> hd (config_text nf ts) \<in> {116, 117} \<and> last (config_text nf ts) = 41"
    using assms
  proof (induction ts rule: induct_list012)
    case (2 t)
    then show ?case using c by (simp add: config_text_simps)
  next
    case (3 t u ts)
    then have "taskConditions t \<noteq> []" "conditional_tiers (u # ts)" by (simp_all add: conditional_tiers_def)
    then show ?case using 3 h [of "taskConditions t"] by (simp add: config_text_simps(2) hd_append)
  qed simp
  then show "config_text nf ts \<noteq> []" "hd (config_text nf ts) \<in> {116, 117}" "last (config_text nf ts) = 41" by auto
qed

lemma config_trim:
  assumes "ts \<noteq> []" "conditional_tiers ts"
  shows "trim (config_text nf ts) = config_text nf ts"
proof (rule trim_id)
  show "\<not> is_space (hd (config_text nf ts))" "\<not> is_space (last (config_text nf ts))" "config_text nf ts \<noteq> []"
    using config_text_ends [OF assms, of nf] by (auto simp: is_space_def)
qed

lemma choice_unsplit: "split_scan (js ''*'') 0 None cur parts (63 # s) = None"
  by (simp add: js_eval is_quote_def bracket_depth_def starts_with_def)

lemma config_unsplit:
  assumes "ts \<noteq> []" "conditional_tiers ts" "\<forall>t \<in> set ts. prices_ok nf t"
  shows "splitExpressionAtTopLevel (config_text nf ts) (js ''*'') = [config_text nf ts]"
proof (cases "tl ts")
  case Nil
  then obtain t where t: "ts = [t]" using assms(1) by (cases ts) auto
  have "calm 42 (config_text nf ts)"
    using walk_call [of nf t 0 "[]"] assms(3) config_trim [OF assms(1,2)] t by (simp add: calm_def config_text_simps)
  then have "splitExpressionAtTopLevel (join (32 # 42 # [] @ [32]) [config_text nf ts]) (42 # []) = [config_text nf ts]"
    using config_text_ends(1) [OF assms(1,2)] by (intro split_spaced) (auto simp: plain_operator_def)
  then show ?thesis by (simp add: js_eval)
next
  case (Cons u us)
  then obtain t where t: "ts = t # u # us" using assms(1) by (cases ts) auto
  have "walk 42 (0, None) (generateTaskCondition (taskConditions t) @ [32]) = walk 42 (0, None) [32]"
    by (rule walk_conditions) simp
  then have w: "walk 42 (0, None) (generateTaskCondition (taskConditions t) @ [32]) = Some (0, None)"
    by (simp add: is_quote_def bracket_depth_def)
  obtain r where r: "config_text nf ts = (generateTaskCondition (taskConditions t) @ [32]) @ 63 # r"
    using config_text_simps(2) [OF assms(2) [unfolded t], of nf] t by (simp add: js_eval)
  have "split_scan (js ''*'') 0 None [] [] (config_text nf ts) = None"
    unfolding r js_eval using split_scan_walk [OF w, of "[]" "[]" "[]" "63 # r"] choice_unsplit by (simp add: js_eval)
  then show ?thesis using config_trim [OF assms(1,2)] by (simp add: splitExpressionAtTopLevel_def)
qed

lemma config_no_rules:
  assumes "ts \<noteq> []" "conditional_tiers ts" "\<forall>t \<in> set ts. prices_ok nf t"
  shows "splitBillingExprAndRequestRules (config_text nf ts) cache = (Inr (config_text nf ts, []), cache)"
  using config_unsplit [OF assms] config_trim [OF assms(1,2), of nf] config_text_ends(1) [OF assms(1,2), of nf]
  by (simp add: splitBillingExprAndRequestRules_def Let_def)

section \<open>Reading a configuration back\<close>

text \<open>A configuration that the editor can write: the schema has a numeric field, the tiers are
  ready, all but the last have a condition and the last has none, and the text is within the
  limits of the parser.\<close>

definition config_ok :: "name_order \<Rightarrow> usage_schema \<Rightarrow> task_tier list \<Rightarrow> bool" where
  "config_ok le s ts \<longleftrightarrow>
     schema_ok s \<and> getTaskNumberFields le (Some s) \<noteq> [] \<and> ts \<noteq> [] \<and> conditional_tiers ts \<and>
     taskConditions (last ts) = [] \<and> (\<forall>t \<in> set ts. tier_ready le s t)"

definition within_limits :: "name_order \<Rightarrow> usage_schema \<Rightarrow> task_tier list \<Rightarrow> bool" where
  "within_limits le s ts \<longleftrightarrow>
     (let e = config_tree (getTaskNumberFields le (Some s)) ts
      in reach 0 e < 128 \<and> height e \<le> 256 \<and> length (tokens_of 0 e) < 10000 \<and>
         length (config_text (getTaskNumberFields le (Some s)) ts) \<le> 65536)"

lemma config_generated:
  assumes "config_ok le s ts"
  shows "generateTaskExprFromConfig le (Some ts) s = config_text (getTaskNumberFields le (Some s)) ts"
proof -
  have "map (normalize_tier le s) (enumerate 0 ts) = ts"
    using assms ready_normalized [of s le] by (intro nth_equalityI) (auto simp: config_ok_def nth_enumerate_eq)
  then show ?thesis using assms
    by (simp add: generateTaskExprFromConfig_def normalizeTaskVisualConfig_def config_ok_def config_text_def Let_def)
qed

lemma config_tiers_read:
  assumes "cache_ok cache" "config_ok le s ts" "within_limits le s ts"
  shows "fst (parseTaskTiersFromExpr (generateTaskExprFromConfig le (Some ts) s) (Some s) b cache) = Inr ts"
proof -
  let ?nf = "getTaskNumberFields le (Some s)" and ?text = "config_text (getTaskNumberFields le (Some s)) ts"
  have c: "schema_ok s" "?nf \<noteq> []" "ts \<noteq> []" "conditional_tiers ts" "taskConditions (last ts) = []" "\<forall>t \<in> set ts. tier_ready le s t"
    using assms(2) by (auto simp: config_ok_def)
  then have p: "\<forall>t \<in> set ts. prices_ok ?nf t" by (simp add: tier_ready_def)
  have "match_version ?text = None"
    using config_text_ends [OF c(3,4), of ?nf] by (cases ?text) (auto simp: match_version_def is_space_def)
  then obtain q where q: "compile_fresh ?text = Inr q" "erase (cast q) = erase (config_tree ?nf ts)"
    using written_compiles [OF spelt_config [OF c(2-4) p]] config_tree_ok [OF c(2-4) p] assms(3)
    by (auto simp: within_limits_def Let_def)
  have r: "readTaskTierChain s b (cast q) = Some ts"
    using config_read_back [OF c(1-4,6,5)] q(2) by (metis readTaskTierChain_erase)
  have s: "s \<noteq> []" using c(2) by (auto simp: getTaskNumberFields_def sort_named_def)
  show ?thesis
    unfolding config_generated [OF assms(2)]
    using config_no_rules [OF c(3,4) p, of cache] compile_memo.call_result [OF assms(1), of ?text] q(1) r s
      config_text_ends(1) [OF c(3,4), of ?nf]
    by (simp add: parseTaskTiersFromExpr_def case_prod_beta Let_def)
qed

text \<open>The task editor reads back what it writes.  The tiers of a configuration, with their
  labels, conditions, constants and unit prices, are recovered from the expression generated for
  them, after it went through the separation of rules, the parser, the type checker and the
  reader of tables.\<close>

theorem task_config_round_trip:
  assumes "cache_ok cache" "config_ok le s ts" "within_limits le s ts"
  shows "fst (tryParseTaskVisualConfig le (Some (generateTaskExprFromConfig le (Some ts) s)) s cache) = Inr (Some ts)"
proof -
  have "map (normalize_tier le s) (enumerate 0 ts) = ts" "ts \<noteq> []"
    using assms(2) ready_normalized [of s le] by (auto intro: nth_equalityI simp: config_ok_def nth_enumerate_eq)
  moreover have "generateTaskExprFromConfig le (Some ts) s \<noteq> []"
    using config_generated [OF assms(2)] config_text_ends(1) assms(2) by (simp add: config_ok_def)
  ultimately show ?thesis
    using config_tiers_read [OF assms, of False]
    by (simp add: tryParseTaskVisualConfig_def normalizeTaskVisualConfig_def case_prod_beta Let_def res_simps)
qed

section \<open>Combinations\<close>

text \<open>A schema whose enumerations have distinct values, none of them empty.\<close>

definition enums_ok :: "usage_schema \<Rightarrow> bool" where
  "enums_ok s \<longleftrightarrow> (\<forall>(f, d) \<in> set s. distinct (enum_values d) \<and> [] \<notin> set (enum_values d))"

definition fields_ok :: "(jsstr \<times> usage_field) list \<Rightarrow> bool" where
  "fields_ok fs \<longleftrightarrow> distinct (map fst fs) \<and> (\<forall>fd \<in> set fs. distinct (enum_values (snd fd)) \<and> enum_values (snd fd) \<noteq> [])"

lemma enum_fields_ok: "schema_ok s \<Longrightarrow> enums_ok s \<Longrightarrow> fields_ok (getTaskEnumFields le (Some s))"
  using distinct_fields(2) [of s le]
  by (auto simp: fields_ok_def enums_ok_def getTaskEnumFields_def enum_values_def split: option.splits)

definition combination_of :: "(jsstr \<times> usage_field) list \<Rightarrow> combination \<Rightarrow> bool" where
  "combination_of fs c \<longleftrightarrow> list_all2 (\<lambda>fd e. fst e = fst fd \<and> snd e \<in> set (enum_values (snd fd))) fs c"

lemma combine_step:
  assumes "\<forall>c \<in> set cs. combination_of done_fs c" "distinct cs" "cs \<noteq> []" "f \<notin> fst ` set done_fs"
    and "distinct (enum_values d)" "enum_values d \<noteq> []"
  shows "(\<forall>c \<in> set (concat (map (\<lambda>c. map (\<lambda>v. omap_set f v c) (enum_values d)) cs)). combination_of (done_fs @ [(f, d)]) c) \<and>
    distinct (concat (map (\<lambda>c. map (\<lambda>v. omap_set f v c) (enum_values d)) cs)) \<and>
    concat (map (\<lambda>c. map (\<lambda>v. omap_set f v c) (enum_values d)) cs) \<noteq> []"
proof -
  have n: "omap_set f v c = c @ [(f, v)]" if "c \<in> set cs" for c v
  proof -
    have "map fst c = map fst done_fs" using assms(1) that
      by (auto simp: combination_of_def list_all2_conv_all_nth intro!: nth_equalityI)
    then have "f \<notin> fst ` set c" using assms(4) by (metis list.set_map)
    then show ?thesis by (rule omap_set_new)
  qed
  let ?r = "concat (map (\<lambda>c. map (\<lambda>v. c @ [(f, v)]) (enum_values d)) cs)"
  have r: "concat (map (\<lambda>c. map (\<lambda>v. omap_set f v c) (enum_values d)) cs) = ?r" using n by (simp cong: map_cong)
  have "distinct ?r" using assms(2,5)
    by (induction cs) (auto simp: distinct_map inj_on_def)
  moreover have "?r \<noteq> []" using assms(3,6) by (cases cs) auto
  ultimately show ?thesis unfolding r using assms(1) by (auto simp: combination_of_def intro!: list_all2_appendI)
qed

lemma combine_fields_ok:
  "fields_ok (done_fs @ fs) \<Longrightarrow> \<forall>c \<in> set cs. combination_of done_fs c \<Longrightarrow> distinct cs \<Longrightarrow> cs \<noteq> [] \<Longrightarrow>
   (\<forall>c \<in> set (combine_fields fs cs). combination_of (done_fs @ fs) c) \<and> distinct (combine_fields fs cs) \<and> combine_fields fs cs \<noteq> []"
proof (induction fs arbitrary: done_fs cs)
  case (Cons fd fs)
  obtain f d where fd: "fd = (f, d)" by fastforce
  have "f \<notin> fst ` set done_fs" "distinct (enum_values d)" "enum_values d \<noteq> []" using Cons.prems(1) fd by (auto simp: fields_ok_def)
  note step = combine_step [OF Cons.prems(2-4) this]
  show ?case using Cons.IH [of "done_fs @ [(f, d)]" "concat (map (\<lambda>c. map (\<lambda>v. omap_set f v c) (enum_values d)) cs)"] step Cons.prems(1) fd
    by simp
qed simp

lemma combinations_ok:
  assumes "schema_ok s" "enums_ok s"
  shows "\<forall>c \<in> set (getTaskEnumCombinations le (Some s)). combination_of (getTaskEnumFields le (Some s)) c"
    "distinct (getTaskEnumCombinations le (Some s))" "getTaskEnumCombinations le (Some s) \<noteq> []"
  using combine_fields_ok [of "[]" "getTaskEnumFields le (Some s)" "[[]]"] enum_fields_ok [OF assms, of le]
  by (auto simp: getTaskEnumCombinations_def combination_of_def)

lemma combination_keys: "combination_of fs c \<Longrightarrow> map fst c = map fst fs"
  by (auto simp: combination_of_def list_all2_conv_all_nth intro!: nth_equalityI)

text \<open>Two combinations agree on all fields only if they are the same.\<close>

lemma combination_determined:
  assumes "combination_of fs c" "combination_of fs c'" "distinct (map fst fs)" "\<forall>(f, v) \<in> set c'. map_of c f = Some v"
  shows "c = c'"
proof (rule nth_equalityI)
  have k: "map fst c = map fst fs" "map fst c' = map fst fs" using combination_keys assms(1,2) by auto
  show l: "length c = length c'" using k by (metis length_map)
  fix i assume i: "i < length c"
  obtain f v where e: "c' ! i = (f, v)" by fastforce
  have "(f, v) \<in> set c'" using e i l by (metis nth_mem)
  then have "map_of c f = Some v" using assms(4) by auto
  moreover have "f = fst (c ! i)" using k e i l by (metis fst_conv nth_map)
  moreover have "map_of c (fst (c ! i)) = Some (snd (c ! i))"
    using i assms(3) k(1) by (intro map_of_is_SomeI) auto
  ultimately show "c ! i = c' ! i" using e by (metis option.inject prod.collapse)
qed

section \<open>Matrices\<close>

text \<open>A complete matrix: a row for every combination in order, each with a price for every numeric field.\<close>

definition row_ready :: "name_order \<Rightarrow> usage_schema \<Rightarrow> matrix_row \<Rightarrow> bool" where
  "row_ready le s row \<longleftrightarrow>
     printable (mr_constant row) \<and> (\<forall>fd \<in> set (getTaskNumberFields le (Some s)). printable (price_or_zero (mr_unitPrices row) (fst fd))) \<and>
     mr_unitPrices row = map (\<lambda>fd. (fst fd, price_or_zero (mr_unitPrices row) (fst fd))) (getTaskNumberFields le (Some s))"

definition matrix_ok :: "name_order \<Rightarrow> usage_schema \<Rightarrow> matrix_row list \<Rightarrow> bool" where
  "matrix_ok le s rows \<longleftrightarrow>
     schema_ok s \<and> enums_ok s \<and> getTaskNumberFields le (Some s) \<noteq> [] \<and>
     map mr_combination rows = getTaskEnumCombinations le (Some s) \<and> (\<forall>row \<in> set rows. row_ready le s row)"

lemma printable_eq: "printable v \<Longrightarrow> printable w \<Longrightarrow> eq_num v w \<longleftrightarrow> v = w"
  by (auto simp: printable_def plain_double_def)

lemma row_prices:
  assumes "schema_ok s" "row_ready le s row"
  shows "price_entries (price_or_zero (mr_unitPrices row)) (getTaskNumberFields le (Some s)) = mr_unitPrices row"
  using assms price_entries_map [OF distinct_fields(1) [OF assms(1)]] by (simp add: row_ready_def)

lemma same_prices:
  assumes "schema_ok s" "row_ready le s a" "row_ready le s b"
    and "\<forall>fd \<in> set (getTaskNumberFields le (Some s)). same_price (mr_unitPrices a) (mr_unitPrices b) (fst fd)"
  shows "mr_unitPrices a = mr_unitPrices b"
proof -
  have "price_or_zero (mr_unitPrices a) (fst fd) = price_or_zero (mr_unitPrices b) (fst fd)"
    if fd: "fd \<in> set (getTaskNumberFields le (Some s))" for fd
  proof -
    have "same_price (mr_unitPrices a) (mr_unitPrices b) (fst fd)" using assms(4) fd by blast
    moreover have "printable (price_or_zero (mr_unitPrices a) (fst fd))" "printable (price_or_zero (mr_unitPrices b) (fst fd))"
      using assms(2,3) fd by (auto simp: row_ready_def)
    ultimately show ?thesis using printable_eq by (auto simp: same_price_def price_or_zero_def split: option.splits)
  qed
  then show ?thesis using assms(2,3) unfolding row_ready_def by (metis (no_types, lifting) map_cong)
qed

text \<open>The rows that are all alike become one tier.\<close>

lemma uniform_matrix:
  assumes "matrix_ok le s rows" "rows = first # rest" "uniform_rows (getTaskNumberFields le (Some s)) first rows" "row \<in> set rows"
  shows "mr_constant row = mr_constant first" "mr_unitPrices row = mr_unitPrices first"
proof -
  let ?nf = "getTaskNumberFields le (Some s)"
  have r: "row_ready le s row" "row_ready le s first" "schema_ok s" using assms by (auto simp: matrix_ok_def)
  have "eq_num (mr_constant row) (mr_constant first)" "\<forall>fd \<in> set ?nf. same_price (mr_unitPrices row) (mr_unitPrices first) (fst fd)"
    using assms(3,4) by (simp_all add: uniform_rows_def list_all_iff case_prod_beta)
  then show "mr_constant row = mr_constant first" "mr_unitPrices row = mr_unitPrices first"
    using printable_eq r same_prices [OF r(3,1,2)] by (auto simp: row_ready_def)
qed

lemma tier_of_row:
  assumes "matrix_ok le s rows" "i < length rows" "j < length rows"
  shows "tier_covers (mr_combination (rows ! i)) (row_tier le nf (j = length rows - 1) (rows ! j)) \<longleftrightarrow> j = length rows - 1 \<or> j = i"
proof -
  let ?c = "\<lambda>k. mr_combination (rows ! k)"
  have m: "schema_ok s" "enums_ok s" "map mr_combination rows = getTaskEnumCombinations le (Some s)"
    using assms(1) by (auto simp: matrix_ok_def)
  have co: "combination_of (getTaskEnumFields le (Some s)) (?c k)" if "k < length rows" for k
    using combinations_ok(1) [OF m(1,2), of le] m(3) that by (metis length_map nth_map nth_mem)
  have inj: "?c j = ?c i \<longleftrightarrow> j = i"
    using combinations_ok(2) [OF m(1,2), of le] assms(2,3) unfolding m(3) [symmetric] by (auto simp: distinct_conv_nth)
  have d: "distinct (map fst (getTaskEnumFields le (Some s)))" by (rule distinct_fields(2) [OF m(1)])
  have "(\<forall>(f, v) \<in> set (?c j). map_of (?c i) f = Some v) \<longleftrightarrow> ?c i = ?c j"
  proof
    assume "\<forall>(f, v) \<in> set (?c j). map_of (?c i) f = Some v"
    then show "?c i = ?c j" using combination_determined [OF co [OF assms(2)] co [OF assms(3)] d] by blast
  next
    assume e: "?c i = ?c j"
    have "distinct (map fst (?c i))" using combination_keys [OF co [OF assms(2)]] d by simp
    then show "\<forall>(f, v) \<in> set (?c j). map_of (?c i) f = Some v" using e by (auto intro: map_of_is_SomeI)
  qed
  then show ?thesis using inj by (auto simp: tier_covers_def row_tier_def list_all_iff)
qed

lemma find_nth:
  assumes "i < length xs" "\<And>j. j < length xs \<Longrightarrow> P (xs ! j) \<longleftrightarrow> j = length xs - 1 \<or> j = i"
  shows "find P xs = Some (xs ! i)"
  using assms by (auto simp: find_Some_iff intro!: exI [of _ i])

lemma matrix_tiers_read:
  assumes "matrix_ok le s rows"
  shows "matrix_of_tiers le s (taskMatrixToTiers le rows s) = Some rows"
proof -
  let ?nf = "getTaskNumberFields le (Some s)"
  have m: "schema_ok s" "enums_ok s" "?nf \<noteq> []" "map mr_combination rows = getTaskEnumCombinations le (Some s)"
    "\<forall>row \<in> set rows. row_ready le s row" using assms by (auto simp: matrix_ok_def)
  obtain first rest where rows: "rows = first # rest"
    using combinations_ok(3) [OF m(1,2), of le] m(4) by (cases rows) auto
  have rr: "row_ready le s first" using m(5) rows by simp
  show ?thesis
  proof (cases "uniform_rows ?nf first rows")
    case True
    let ?t = "base_tier (mr_constant first) (price_entries (price_or_zero (mr_unitPrices first)) ?nf)"
    have t: "taskMatrixToTiers le rows s = [?t]" using True m(3) rows by (simp add: taskMatrixToTiers_def)
    have "covering_row ?nf [?t] (mr_combination row) = row" if "row \<in> set rows" for row
      using uniform_matrix [OF assms rows True that] row_prices [OF m(1) rr]
      by (simp add: covering_row_def tier_covers_def base_tier_def)
    then have "map (covering_row ?nf [?t]) (map mr_combination rows) = rows" by (simp add: map_idI)
    then show ?thesis unfolding t m(4) by (simp add: matrix_of_tiers_def base_tier_def)
  next
    case False
    let ?n = "length rows"
    let ?ts = "map (\<lambda>(i, row). row_tier le ?nf (i = ?n - 1) row) (enumerate 0 rows)"
    have t: "taskMatrixToTiers le rows s = ?ts" using False m(3) rows by (simp add: taskMatrixToTiers_def Let_def)
    have n: "?ts ! j = row_tier le ?nf (j = ?n - 1) (rows ! j)" if "j < ?n" for j using that by (simp add: nth_enumerate_eq)
    have "covering_row ?nf ?ts (mr_combination (rows ! i)) = rows ! i" if i: "i < ?n" for i
    proof -
      have "find (tier_covers (mr_combination (rows ! i))) ?ts = Some (?ts ! i)"
        using tier_of_row [OF assms i] i n by (intro find_nth) auto
      moreover have "row_ready le s (rows ! i)" using m(5) i by simp
      ultimately show ?thesis using row_prices [OF m(1)] n [OF i] by (simp add: covering_row_def row_tier_def)
    qed
    then have c: "map (covering_row ?nf ?ts) (map mr_combination rows) = rows" by (intro nth_equalityI) auto
    have "last ?ts = row_tier le ?nf True (rows ! (?n - 1))" using n [of "?n - 1"] rows by (subst last_conv_nth) auto
    moreover have "distinct (map fst (taskConditions (row_tier le ?nf b row)))" if "row \<in> set rows" for b row
    proof -
      have "combination_of (getTaskEnumFields le (Some s)) (mr_combination row)"
        using combinations_ok(1) [OF m(1,2), of le] that unfolding m(4) [symmetric] by simp
      then show ?thesis using combination_keys distinct_fields(2) [OF m(1)] by (simp add: row_tier_def distinct_sort_named)
    qed
    ultimately have l: "taskConditions (last ?ts) = []" "list_all (\<lambda>t. distinct (map fst (taskConditions t))) ?ts"
      by (auto simp: row_tier_def list_all_iff in_set_enumerate_eq)
    have "?ts \<noteq> []" using rows by simp
    then show ?thesis unfolding t matrix_of_tiers_def using l c [unfolded m(4)] by (simp only: if_False simp_thms)
  qed
qed

section \<open>A matrix and its text\<close>

lemma combination_conditions:
  assumes "schema_ok s" "enums_ok s" "combination_of (getTaskEnumFields le (Some s)) c"
  shows "conditions_ok s (sort_named le c)" "\<forall>v \<in> snd ` set c. v \<noteq> []"
proof -
  have e: "\<exists>d. (f, d) \<in> set s \<and> v \<in> set (enum_values d)" if "(f, v) \<in> set c" for f v
  proof -
    obtain i where i: "i < length c" "c ! i = (f, v)" using \<open>(f, v) \<in> set c\<close> by (metis in_set_conv_nth)
    then have "i < length (getTaskEnumFields le (Some s))" "fst (getTaskEnumFields le (Some s) ! i) = f"
      "v \<in> set (enum_values (snd (getTaskEnumFields le (Some s) ! i)))"
      using assms(3) by (auto simp: combination_of_def list_all2_conv_all_nth)
    moreover from this have "getTaskEnumFields le (Some s) ! i \<in> set s"
      using nth_mem by (fastforce simp: getTaskEnumFields_def)
    ultimately show ?thesis by (metis prod.collapse)
  qed
  then show "conditions_ok s (sort_named le c)"
    using assms(1) by (fastforce simp: conditions_ok_def schema_ok_def intro: map_of_is_SomeI)
  show "\<forall>v \<in> snd ` set c. v \<noteq> []" using e assms(2) by (fastforce simp: enums_ok_def)
qed

lemma row_label_nonempty:
  assumes "\<forall>v \<in> snd ` set c. v \<noteq> []"
  shows "taskMatrixRowLabel le c \<noteq> []"
proof -
  have "join p vs \<noteq> []" if "vs \<noteq> []" "\<forall>v \<in> set vs. v \<noteq> []" for p vs
    using that by (induction p vs rule: join.induct) auto
  then show ?thesis using assms by (simp add: taskMatrixRowLabel_def Let_def js_eval)
qed

lemma matrix_config_ok:
  assumes "matrix_ok le s rows"
  shows "config_ok le s (taskMatrixToTiers le rows s)"
proof -
  let ?nf = "getTaskNumberFields le (Some s)" and ?n = "length rows"
  have m: "schema_ok s" "enums_ok s" "?nf \<noteq> []" "map mr_combination rows = getTaskEnumCombinations le (Some s)"
    "\<forall>row \<in> set rows. row_ready le s row" using assms by (auto simp: matrix_ok_def)
  obtain first rest where rows: "rows = first # rest"
    using combinations_ok(3) [OF m(1,2), of le] m(4) by (cases rows) auto
  have c: "combination_of (getTaskEnumFields le (Some s)) (mr_combination row)" if "row \<in> set rows" for row
    using combinations_ok(1) [OF m(1,2), of le] that unfolding m(4) [symmetric] by simp
  have up: "price_or_zero (mr_unitPrices row) = price_or_zero (price_entries (price_or_zero (mr_unitPrices row)) ?nf)"
    "price_entries (price_or_zero (mr_unitPrices row)) ?nf = map (\<lambda>fd. (fst fd, price_or_zero (mr_unitPrices row) (fst fd))) ?nf"
    if "row \<in> set rows" for row
    using row_prices [OF m(1)] m(5) that by (auto simp: row_ready_def)
  have base: "tier_ready le s (base_tier (mr_constant row) (price_entries (price_or_zero (mr_unitPrices row)) ?nf))"
    and tier: "tier_ready le s (row_tier le ?nf b row)" if row: "row \<in> set rows" for row b
    using up [OF row] m(5) row row_label_nonempty combination_conditions [OF m(1,2) c [OF row]]
    by (auto simp: tier_ready_def base_tier_def row_tier_def prices_ok_def conditions_ok_def row_ready_def js_eval)
  show ?thesis
  proof (cases "uniform_rows ?nf first rows")
    case True
    then have "taskMatrixToTiers le rows s = [base_tier (mr_constant first) (price_entries (price_or_zero (mr_unitPrices first)) ?nf)]"
      using m(3) rows by (simp add: taskMatrixToTiers_def Let_def)
    then show ?thesis using m base [of first] rows by (simp add: config_ok_def conditional_tiers_def base_tier_def)
  next
    case False
    let ?ts = "map (\<lambda>(i, row). row_tier le ?nf (i = ?n - 1) row) (enumerate 0 rows)"
    have t: "taskMatrixToTiers le rows s = ?ts" using False m(3) rows by (simp add: taskMatrixToTiers_def Let_def)
    have "taskConditions (?ts ! i) \<noteq> []" if i: "i < ?n - 1" for i
    proof -
      have "mr_combination (rows ! i) \<noteq> mr_combination (rows ! (?n - 1))"
        using combinations_ok(2) [OF m(1,2), of le] i unfolding m(4) [symmetric] by (auto simp: distinct_conv_nth)
      moreover have "map fst (mr_combination (rows ! i)) = map fst (mr_combination (rows ! (?n - 1)))"
        using combination_keys c i by (metis diff_less less_trans nth_mem rows length_greater_0_conv list.distinct(1) less_numeral_extra(1) less_imp_diff_less)
      ultimately have "mr_combination (rows ! i) \<noteq> []" by auto
      then have "sort_named le (mr_combination (rows ! i)) \<noteq> []" by (metis set_empty set_sort_named)
      then show ?thesis using i by (auto simp: nth_enumerate_eq row_tier_def)
    qed
    then have "conditional_tiers ?ts" by (auto simp: conditional_tiers_def in_set_conv_nth nth_butlast)
    moreover have n: "?ts ! j = row_tier le ?nf (j = ?n - 1) (rows ! j)" if "j < ?n" for j using that by (simp add: nth_enumerate_eq)
    have "last ?ts = row_tier le ?nf True (rows ! (?n - 1))" using n [of "?n - 1"] rows by (subst last_conv_nth) auto
    then have "taskConditions (last ?ts) = []" by (simp only: row_tier_def task_tier.simps if_True)
    moreover have "\<forall>t \<in> set ?ts. tier_ready le s t" using tier by (auto simp: in_set_enumerate_eq)
    moreover have "?ts \<noteq> []" using rows by simp
    ultimately show ?thesis unfolding t config_ok_def using m(1,3) by blast
  qed
qed

text \<open>C7: A price matrix survives the editor.  A complete matrix over the enumerated fields of a
  schema is turned into tiers, merged into one when all rows agree, written as an expression and
  read back from it as the same matrix, row by row.\<close>

theorem task_matrix_round_trip:
  assumes "cache_ok cache" "matrix_ok le s rows" "within_limits le s (taskMatrixToTiers le rows s)"
  shows "fst (tryParseTaskMatrixConfig le (Some (generateTaskExprFromConfig le (Some (taskMatrixToTiers le rows s)) s)) s cache) =
    Inr (Some rows)"
proof -
  have c: "config_ok le s (taskMatrixToTiers le rows s)" by (rule matrix_config_ok [OF assms(2)])
  then have "generateTaskExprFromConfig le (Some (taskMatrixToTiers le rows s)) s \<noteq> []"
    using config_generated config_text_ends(1) by (simp add: config_ok_def)
  then show ?thesis
    using config_tiers_read [OF assms(1) c assms(3), of False] matrix_tiers_read [OF assms(2)]
    by (simp add: tryParseTaskMatrixConfig_def case_prod_beta Let_def res_simps)
qed

text \<open>A schema with one price per second and two modes, and a matrix with different prices.\<close>

abbreviation any_order :: name_order where
  "any_order \<equiv> \<lambda>_ _. True"

definition seconds_field :: usage_field where
  "seconds_field = \<lparr>uf_type = js ''number'', uf_enum = None, uf_unit = Some (js ''second'')\<rparr>"

definition mode_field :: usage_field where
  "mode_field = \<lparr>uf_type = js ''string'', uf_enum = Some [js ''fast'', js ''slow''], uf_unit = None\<rparr>"

definition sample_schema :: usage_schema where
  "sample_schema = [(js ''seconds'', seconds_field), (js ''mode'', mode_field)]"

definition sample_row :: "char list \<Rightarrow> jsnum \<Rightarrow> matrix_row" where
  "sample_row m v = \<lparr>mr_combination = [(js ''mode'', js m)], mr_constant = Fin 0, mr_unitPrices = [(js ''seconds'', v)]\<rparr>"

definition sample_rows :: "matrix_row list" where
  "sample_rows = [sample_row ''fast'' (Fin 3), sample_row ''slow'' (Fin 2)]"

lemma sample_fields:
  "getTaskNumberFields any_order (Some sample_schema) = [(js ''seconds'', seconds_field)]"
  "getTaskEnumFields any_order (Some sample_schema) = [(js ''mode'', mode_field)]"
  by (simp_all add: getTaskNumberFields_def getTaskEnumFields_def sample_schema_def seconds_field_def mode_field_def sort_named_def
      has_unit_def)

lemma sample_numbers:
  "printable (Fin 2)" "printable (Fin 3)" "printable (Fin 0)" "length (num_text (Fin 2)) \<le> 21" "length (num_text (Fin 3)) \<le> 21"
  using small_number [of 2] small_number [of 3]
  by (simp_all del: num_text.simps) (simp add: printable_def plain_double_def is_safe_integer_def is_integer_def)

lemma sample_matrix_ok: "matrix_ok any_order sample_schema sample_rows"
proof -
  have "schema_ok sample_schema" "enums_ok sample_schema"
    by (simp_all add: schema_ok_def enums_ok_def sample_schema_def seconds_field_def mode_field_def enum_values_def)
  moreover have "map mr_combination sample_rows = getTaskEnumCombinations any_order (Some sample_schema)"
    by (simp add: getTaskEnumCombinations_def sample_fields enum_values_def mode_field_def sample_rows_def sample_row_def)
  ultimately show ?thesis using sample_numbers
    by (simp add: matrix_ok_def row_ready_def sample_rows_def sample_row_def sample_fields price_or_zero_def del: num_text.simps)
qed

definition sample_tiers :: "task_tier list" where
  "sample_tiers =
     [\<lparr>taskLabel = js ''fast'', taskConditions = [(js ''mode'', js ''fast'')], taskConstant = Fin 0, unitPrices = [(js ''seconds'', Fin 3)]\<rparr>,
      \<lparr>taskLabel = js ''slow'', taskConditions = [], taskConstant = Fin 0, unitPrices = [(js ''seconds'', Fin 2)]\<rparr>]"

lemma sample_matrix_tiers: "taskMatrixToTiers any_order sample_rows sample_schema = sample_tiers"
  by (simp add: taskMatrixToTiers_def sample_rows_def sample_row_def sample_fields uniform_rows_def same_price_def sample_tiers_def
      row_tier_def taskMatrixRowLabel_def sort_named_def price_entries_def price_or_zero_def del: num_text.simps)

lemma sample_limits: "within_limits any_order sample_schema sample_tiers"
  using sample_numbers(4,5)
  by (simp add: within_limits_def sample_fields sample_tiers_def config_text_def generateTaskCondition_def task_condition_text_def
      generateTaskTierCall_def generateTaskTierBody_def unit_term_text_def price_or_zero_def seconds_field_def json_string_def
      call_tree_def body_terms_def op_chain_def unit_tree_def condition_tree_def grouped_def js_eval quote_unit_def Let_def
      del: num_text.simps)

theorem task_matrix_round_trip_witness:
  "fst (tryParseTaskMatrixConfig any_order (Some (generateTaskExprFromConfig any_order (Some sample_tiers) sample_schema)) sample_schema []) =
    Inr (Some sample_rows)"
  using task_matrix_round_trip [OF empty_cache_ok sample_matrix_ok] sample_matrix_tiers sample_limits by simp

lemma sample_config_ok: "config_ok any_order sample_schema sample_tiers"
  using matrix_config_ok [OF sample_matrix_ok] sample_matrix_tiers by simp

theorem task_config_round_trip_witness:
  "fst (tryParseTaskVisualConfig any_order (Some (generateTaskExprFromConfig any_order (Some sample_tiers) sample_schema)) sample_schema []) =
    Inr (Some sample_tiers)"
  by (rule task_config_round_trip [OF empty_cache_ok sample_config_ok sample_limits])

end
