(* ===== verification/Image_Types.thy ===== *)
theory Image_Types
  imports Js_Value Js_Format
begin

text \<open>
  The records of the image playground history
  (\<open>web/src/stores/image-playground-store.ts\<close>), their JSON form, and the strict validation
  of what is read back from local storage.  A stored text is represented by what
  \<open>JSON.parse\<close> makes of it; \<open>Date.parse\<close>, \<open>toISOString\<close> and the \<open>URL\<close> parser are the
  fields of the record \<open>browser\<close>.
\<close>

section \<open>The browser\<close>

record browser =
  date_parse :: "jsstr \<Rightarrow> int option"
  iso :: "int \<Rightarrow> jsstr"
  url_parse :: "jsstr \<Rightarrow> (jsstr \<times> jsstr) option"

section \<open>Records\<close>

record stored_image =
  resultId :: "jsstr option"
  url :: jsstr
  b64Json :: "jsstr option"
  mime :: jsval
  renderable :: "bool option"
  revisedPrompt :: "jsstr option"

record stored_reference =
  ref_id :: jsstr
  ref_name :: jsstr
  mimeType :: jsstr
  ref_size :: "jsnum option"
  dataUrl :: "jsstr option"

record generation_params =
  p_size :: jsstr
  sizeMode :: jsstr
  customWidth :: "jsnum option"
  customHeight :: "jsnum option"
  p_n :: jsnum
  negativePrompt :: jsstr
  seed :: "jsnum option"
  watermark :: bool
  promptExtend :: bool
  promptExtendMode :: jsstr
  thinkingMode :: bool

record snapshot_profile =
  maxReferenceImages :: jsnum
  supportsAutoSize :: bool
  defaultSize :: jsstr
  supportsCustomSize :: bool
  supportsNegativePrompt :: bool
  supportsSeed :: bool
  supportsWatermark :: bool
  supportsPromptExtend :: bool
  supportsPromptExtendMode :: bool
  supportsThinkingMode :: bool
  thinkingRequiresExtend :: bool
  agentRequiresNoRefs :: bool
  allowedReferenceMimeTypes :: "jsstr list"

record request_snapshot =
  snapshotVersion :: jsnum
  s_model :: jsstr
  s_group :: jsstr
  s_provider :: jsstr
  s_prompt :: jsstr
  s_params :: generation_params
  s_references :: "stored_reference list"
  s_profile :: "snapshot_profile option"

datatype run_status = Queued | Running | Complete | Failed | Outcome_unknown

record stored_run =
  r_id :: jsstr
  r_status :: run_status
  createdAt :: jsstr
  updatedAt :: jsstr
  ownerUserId :: "jsnum option"
  r_model :: jsstr
  r_group :: jsstr
  r_provider :: jsstr
  r_prompt :: jsstr
  r_size :: jsstr
  r_n :: jsnum
  referenceCount :: jsnum
  images :: "stored_image list"
  r_error :: "jsstr option"
  errorKey :: "jsstr option"
  rawErrorMessage :: "jsstr option"
  requestSnapshot :: request_snapshot
  temporaryResultUnavailable :: bool
  snapshotCorrupt :: bool
  leaseOwnerSessionId :: "jsstr option"
  leaseHeartbeatAt :: "jsnum option"

record user_history =
  runs :: "stored_run list"
  clearedAt :: "jsstr option"
  revision :: "jsnum option"

type_synonym envelope = "(jsstr \<times> user_history) list"

definition IMAGE_HISTORY_MAX_RUNS :: nat where
  "IMAGE_HISTORY_MAX_RUNS = 50"

definition SNAPSHOT_VERSION :: jsnum where
  "SNAPSHOT_VERSION = Fin 3"

definition HISTORY_STORAGE_VERSION :: jsnum where
  "HISTORY_STORAGE_VERSION = Fin 2"

definition SNAPSHOT_MAX_N :: jsnum where
  "SNAPSHOT_MAX_N = Fin 128"

definition active_status :: "run_status \<Rightarrow> bool" where
  "active_status s \<longleftrightarrow> s = Running \<or> s = Queued"

abbreviation active :: "stored_run \<Rightarrow> bool" where
  "active run \<equiv> active_status (r_status run)"

primrec status_text :: "run_status \<Rightarrow> jsstr" where
  "status_text Queued = js ''queued''"
| "status_text Running = js ''running''"
| "status_text Complete = js ''complete''"
| "status_text Failed = js ''error''"
| "status_text Outcome_unknown = js ''unknown''"

definition parse_status :: "jsval \<Rightarrow> run_status option" where
  "parse_status v =
     (if v = JUndef then Some Complete
      else find (\<lambda>s. v = JStr (status_text s)) [Queued, Running, Complete, Failed, Outcome_unknown])"

section \<open>Checks on unknown values\<close>

definition isUsableHttpUrl :: "browser \<Rightarrow> jsstr \<Rightarrow> bool" where
  "isUsableHttpUrl b raw =
     (let value = trim raw in
      value \<noteq> [] \<and>
      (case url_parse b value of
         None \<Rightarrow> False
       | Some (protocol, host) \<Rightarrow>
           (protocol = js ''http:'' \<or> protocol = js ''https:'') \<and> host \<noteq> []))"

definition isValidTimestamp :: "browser \<Rightarrow> jsval \<Rightarrow> bool" where
  "isValidTimestamp b v =
     (case v of JStr s \<Rightarrow> s \<noteq> [] \<and> date_parse b s \<noteq> None | _ \<Rightarrow> False)"

definition finite_number :: "jsval \<Rightarrow> bool" where
  "finite_number v = (case v of JNum n \<Rightarrow> is_finite n | _ \<Rightarrow> False)"

definition integer_between :: "jsval \<Rightarrow> jsnum \<Rightarrow> jsnum \<Rightarrow> bool" where
  "integer_between v lo hi =
     (case v of JNum n \<Rightarrow> is_integer n \<and> \<not> lt_num n lo \<and> \<not> lt_num hi n | _ \<Rightarrow> False)"

definition isCorruptNullableDimension :: "jsval \<Rightarrow> bool" where
  "isCorruptNullableDimension v = (v \<noteq> JNull \<and> \<not> integer_between v (Fin 1) (Fin 100000))"

definition isCorruptProfileField :: "jsstr \<Rightarrow> jsval \<Rightarrow> bool" where
  "isCorruptProfileField name v =
     (if name = js ''maxReferenceImages'' then
        (case v of JNum n \<Rightarrow> \<not> is_integer n \<or> lt_num n (Fin 0) | _ \<Rightarrow> True)
      else if name = js ''defaultSize'' then \<not> is_str v
      else if name = js ''allowedReferenceMimeTypes'' then
        (case v of JArr items \<Rightarrow> list_ex (\<lambda>item. \<not> is_str item) items | _ \<Rightarrow> True)
      else \<not> is_bool v)"

definition SNAPSHOT_PROFILE_FIELDS :: "jsstr list" where
  "SNAPSHOT_PROFILE_FIELDS = map js [''maxReferenceImages'', ''supportsAutoSize'', ''defaultSize'',
     ''supportsCustomSize'', ''supportsNegativePrompt'', ''supportsSeed'', ''supportsWatermark'',
     ''supportsPromptExtend'', ''supportsPromptExtendMode'', ''supportsThinkingMode'',
     ''thinkingRequiresExtend'', ''agentRequiresNoRefs'', ''allowedReferenceMimeTypes'']"

section \<open>Snapshots\<close>

definition validate_params :: "jsval \<Rightarrow> generation_params option" where
  "validate_params p =
     (let mode = field p ''sizeMode''; emode = field p ''promptExtendMode'' in
      if \<not> plain_object p \<or> \<not> is_str (field p ''size'') \<or>
         mode \<notin> {JStr (js ''preset''), JStr (js ''custom''), JStr (js ''auto'')} \<or>
         isCorruptNullableDimension (field p ''customWidth'') \<or>
         isCorruptNullableDimension (field p ''customHeight'') \<or>
         mode = JStr (js ''custom'') \<and>
           (field p ''customWidth'' = JNull \<or> field p ''customHeight'' = JNull) \<or>
         \<not> integer_between (field p ''n'') (Fin 1) SNAPSHOT_MAX_N \<or>
         \<not> is_str (field p ''negativePrompt'') \<or>
         field p ''seed'' \<noteq> JNull \<and>
           \<not> (case field p ''seed'' of JNum k \<Rightarrow> is_integer k | _ \<Rightarrow> False) \<or>
         \<not> is_bool (field p ''watermark'') \<or> \<not> is_bool (field p ''promptExtend'') \<or>
         emode \<notin> {JStr (js ''direct''), JStr (js ''agent'')} \<or>
         \<not> is_bool (field p ''thinkingMode'')
      then None
      else Some \<lparr>p_size = text_of (field p ''size''), sizeMode = text_of mode,
        customWidth = nullable_number (field p ''customWidth''),
        customHeight = nullable_number (field p ''customHeight''), p_n = number_of (field p ''n''),
        negativePrompt = text_of (field p ''negativePrompt''),
        seed = nullable_number (field p ''seed''), watermark = flag_of (field p ''watermark''),
        promptExtend = flag_of (field p ''promptExtend''), promptExtendMode = text_of emode,
        thinkingMode = flag_of (field p ''thinkingMode'')\<rparr>)"

definition validate_reference :: "jsval \<Rightarrow> stored_reference option" where
  "validate_reference item =
     (let size = field item ''size''; data = field item ''dataUrl'' in
      if \<not> plain_object item \<or> \<not> is_str (field item ''id'') \<or> field item ''id'' = JStr [] \<or>
         \<not> is_str (field item ''name'') \<or> \<not> is_str (field item ''mimeType'') \<or>
         size \<noteq> JUndef \<and> (\<not> finite_number size \<or> lt_num (number_of size) (Fin 0)) \<or>
         data \<noteq> JUndef \<and> \<not> is_str data
      then None
      else Some \<lparr>ref_id = text_of (field item ''id''), ref_name = text_of (field item ''name''),
        mimeType = text_of (field item ''mimeType''), ref_size = as_num size, dataUrl = as_str data\<rparr>)"

fun all_some :: "'a option list \<Rightarrow> 'a list option" where
  "all_some [] = Some []"
| "all_some (None # _) = None"
| "all_some (Some x # xs) = map_option (Cons x) (all_some xs)"

definition validate_profile :: "jsval \<Rightarrow> snapshot_profile option" where
  "validate_profile p =
     (if nullish p \<or> \<not> typeof_object p \<or> is_array p \<or>
         list_ex (\<lambda>name. jget p name = JUndef \<or> isCorruptProfileField name (jget p name))
           SNAPSHOT_PROFILE_FIELDS
      then None
      else Some \<lparr>maxReferenceImages = number_of (field p ''maxReferenceImages''),
        supportsAutoSize = flag_of (field p ''supportsAutoSize''),
        defaultSize = text_of (field p ''defaultSize''),
        supportsCustomSize = flag_of (field p ''supportsCustomSize''),
        supportsNegativePrompt = flag_of (field p ''supportsNegativePrompt''),
        supportsSeed = flag_of (field p ''supportsSeed''),
        supportsWatermark = flag_of (field p ''supportsWatermark''),
        supportsPromptExtend = flag_of (field p ''supportsPromptExtend''),
        supportsPromptExtendMode = flag_of (field p ''supportsPromptExtendMode''),
        supportsThinkingMode = flag_of (field p ''supportsThinkingMode''),
        thinkingRequiresExtend = flag_of (field p ''thinkingRequiresExtend''),
        agentRequiresNoRefs = flag_of (field p ''agentRequiresNoRefs''),
        allowedReferenceMimeTypes =
          (case field p ''allowedReferenceMimeTypes'' of JArr items \<Rightarrow> map text_of items | _ \<Rightarrow> [])\<rparr>)"

definition validateSnapshot :: "jsval \<Rightarrow> request_snapshot option" where
  "validateSnapshot s =
     (if \<not> plain_object s \<or> \<not> strict_eq (field s ''snapshotVersion'') (JNum SNAPSHOT_VERSION) \<or>
         \<not> is_str (field s ''model'') \<or> field s ''model'' = JStr [] \<or> \<not> is_str (field s ''prompt'') \<or>
         \<not> is_str (field s ''group'') \<or> \<not> is_str (field s ''provider'')
      then None
      else
        case validate_params (field s ''params'') of None \<Rightarrow> None | Some params \<Rightarrow>
        (case field s ''references'' of
           JArr items \<Rightarrow>
             (case all_some (map validate_reference items) of None \<Rightarrow> None | Some references \<Rightarrow>
              (case validate_profile (field s ''profile'') of None \<Rightarrow> None | Some profile \<Rightarrow>
                 Some \<lparr>snapshotVersion = SNAPSHOT_VERSION, s_model = text_of (field s ''model''),
                   s_group = text_of (field s ''group''), s_provider = text_of (field s ''provider''),
                   s_prompt = text_of (field s ''prompt''), s_params = params,
                   s_references = references, s_profile = Some profile\<rparr>))
         | _ \<Rightarrow> None))"

definition displaySnapshotFromRun ::
  "jsstr \<Rightarrow> jsstr \<Rightarrow> jsstr \<Rightarrow> jsstr \<Rightarrow> jsstr \<Rightarrow> jsnum \<Rightarrow> request_snapshot" where
  "displaySnapshotFromRun model grp provider prompt sz n =
     \<lparr>snapshotVersion = Fin 0, s_model = model, s_group = grp, s_provider = provider,
      s_prompt = prompt,
      s_params = \<lparr>p_size = sz, sizeMode = js ''preset'', customWidth = None, customHeight = None,
        p_n = n, negativePrompt = [], seed = None, watermark = False, promptExtend = False,
        promptExtendMode = js ''direct'', thinkingMode = False\<rparr>,
      s_references = [], s_profile = None\<rparr>"

section \<open>Runs read back from storage\<close>

definition validate_image :: "browser \<Rightarrow> jsval \<Rightarrow> stored_image option" where
  "validate_image b item =
     (let link = text_of (field item ''url'') in
      if \<not> truthy item \<or> \<not> typeof_object item \<or> \<not> isUsableHttpUrl b link then None
      else Some \<lparr>resultId = as_str (field item ''resultId''), url = link, b64Json = None,
        mime = field item ''mime'', renderable = Some True,
        revisedPrompt = as_str (field item ''revisedPrompt'')\<rparr>)"

text \<open>A run without images is kept only when it is unfinished, failed, unknown or its result
  was only ever in memory.\<close>

definition worth_keeping :: "stored_image list \<Rightarrow> run_status \<Rightarrow> bool \<Rightarrow> bool" where
  "worth_keeping imgs st temporary \<longleftrightarrow>
     \<not> (imgs = [] \<and> st \<noteq> Failed \<and> st \<noteq> Outcome_unknown \<and> st \<noteq> Running \<and> st \<noteq> Queued \<and> \<not> temporary)"

definition nonempty_text :: "jsval \<Rightarrow> jsstr option" where
  "nonempty_text v = (case v of JStr s \<Rightarrow> (if s \<noteq> [] then Some s else None) | _ \<Rightarrow> None)"

definition persisted_header_ok :: "browser \<Rightarrow> jsval \<Rightarrow> bool" where
  "persisted_header_ok b r \<longleftrightarrow>
     truthy r \<and> typeof_object r \<and> is_str (field r ''id'') \<and> field r ''id'' \<noteq> JStr [] \<and>
     is_str (field r ''model'') \<and> is_str (field r ''prompt'') \<and> is_str (field r ''group'') \<and>
     is_str (field r ''provider'') \<and> is_str (field r ''size'') \<and> finite_number (field r ''n'') \<and>
     finite_number (field r ''referenceCount'') \<and> isValidTimestamp b (field r ''createdAt'') \<and>
     (\<not> nullish (field r ''ownerUserId'') \<longrightarrow> finite_number (field r ''ownerUserId'')) \<and>
     (is_array (field r ''images'') \<or> field r ''images'' = JUndef)"

definition persisted_snapshot :: "jsval \<Rightarrow> request_snapshot \<times> bool" where
  "persisted_snapshot r =
     (let fallback = displaySnapshotFromRun (text_of (field r ''model'')) (text_of (field r ''group''))
        (text_of (field r ''provider'')) (text_of (field r ''prompt'')) (text_of (field r ''size''))
        (if integer_between (field r ''n'') (Fin 1) SNAPSHOT_MAX_N then number_of (field r ''n'') else Fin 1)
      in if field r ''snapshotCorrupt'' = JBool True then (fallback, True)
         else case validateSnapshot (field r ''requestSnapshot'') of
           None \<Rightarrow> (fallback, True)
         | Some snapshot \<Rightarrow> (snapshot, False))"

definition validatePersistedRun :: "browser \<Rightarrow> jsval \<Rightarrow> stored_run option" where
  "validatePersistedRun b r =
     (if \<not> persisted_header_ok b r then None
      else case parse_status (field r ''status'') of None \<Rightarrow> None | Some st \<Rightarrow>
        let created = text_of (field r ''createdAt'');
            imgs = (case field r ''images'' of
                      JArr items \<Rightarrow> List.map_filter (validate_image b) items | _ \<Rightarrow> []);
            temporary = (field r ''temporaryResultUnavailable'' = JBool True);
            (snapshot, corrupt) = persisted_snapshot r
        in if \<not> worth_keeping imgs st temporary then None
           else Some \<lparr>r_id = text_of (field r ''id''), r_status = st, createdAt = created,
             updatedAt = (if isValidTimestamp b (field r ''updatedAt'') then text_of (field r ''updatedAt'')
                          else created),
             ownerUserId = (if finite_number (field r ''ownerUserId'') then as_num (field r ''ownerUserId'')
                            else None),
             r_model = text_of (field r ''model''), r_group = text_of (field r ''group''),
             r_provider = text_of (field r ''provider''), r_prompt = text_of (field r ''prompt''),
             r_size = text_of (field r ''size''), r_n = number_of (field r ''n''),
             referenceCount = number_of (field r ''referenceCount''), images = imgs,
             r_error = as_str (field r ''error''), errorKey = nonempty_text (field r ''errorKey''),
             rawErrorMessage = nonempty_text (field r ''rawErrorMessage''), requestSnapshot = snapshot,
             temporaryResultUnavailable = temporary, snapshotCorrupt = corrupt,
             leaseOwnerSessionId =
               (if active_status st then nonempty_text (field r ''leaseOwnerSessionId'') else None),
             leaseHeartbeatAt =
               (if active_status st \<and> finite_number (field r ''leaseHeartbeatAt'')
                then as_num (field r ''leaseHeartbeatAt'') else None)\<rparr>)"

section \<open>Runs written to storage\<close>

definition dropB64FromImage :: "stored_image \<Rightarrow> stored_image" where
  "dropB64FromImage img = img\<lparr>b64Json := None, renderable := None\<rparr>"

definition hadBase64 :: "stored_run \<Rightarrow> bool" where
  "hadBase64 run = list_ex (\<lambda>img. b64Json img \<noteq> None \<and> b64Json img \<noteq> Some []) (images run)"

definition strip_reference :: "stored_reference \<Rightarrow> stored_reference" where
  "strip_reference ref = ref\<lparr>dataUrl := None\<rparr>"

definition toPersistedRun :: "browser \<Rightarrow> stored_run \<Rightarrow> stored_run option" where
  "toPersistedRun b run =
     (let imgs = map dropB64FromImage (filter (\<lambda>img. isUsableHttpUrl b (url img)) (images run));
          temporary = (temporaryResultUnavailable run \<or>
            r_status run = Complete \<and> imgs = [] \<and> hadBase64 run)
      in if \<not> worth_keeping imgs (r_status run) temporary then None
         else Some (run\<lparr>images := imgs, temporaryResultUnavailable := temporary,
           leaseOwnerSessionId := (if active run then leaseOwnerSessionId run else None),
           leaseHeartbeatAt := (if active run then leaseHeartbeatAt run else None),
           requestSnapshot := (requestSnapshot run)\<lparr>s_references :=
             map strip_reference (s_references (requestSnapshot run))\<rparr>\<rparr>))"

text \<open>\<open>JSON.parse(JSON.stringify(value))\<close>: undefined properties disappear, numbers that are
  not finite become \<open>null\<close> and negative zero becomes zero.\<close>

definition json_object :: "(string \<times> jsval) list \<Rightarrow> jsval" where
  "json_object fs = JObj (map (\<lambda>(k, v). (js k, v)) (filter (\<lambda>(_, v). v \<noteq> JUndef) fs))"

definition json_number :: "jsnum \<Rightarrow> jsval" where
  "json_number n = (case n of Fin x \<Rightarrow> JNum (Fin x) | NegZero \<Rightarrow> JNum (Fin 0) | _ \<Rightarrow> JNull)"

definition opt_field :: "('a \<Rightarrow> jsval) \<Rightarrow> 'a option \<Rightarrow> jsval" where
  "opt_field f v = (case v of None \<Rightarrow> JUndef | Some x \<Rightarrow> f x)"

definition null_field :: "('a \<Rightarrow> jsval) \<Rightarrow> 'a option \<Rightarrow> jsval" where
  "null_field f v = (case v of None \<Rightarrow> JNull | Some x \<Rightarrow> f x)"

definition true_field :: "bool \<Rightarrow> jsval" where
  "true_field v = (if v then JBool True else JUndef)"

definition image_json :: "stored_image \<Rightarrow> jsval" where
  "image_json i = json_object [(''resultId'', opt_field JStr (resultId i)), (''url'', JStr (url i)),
     (''b64Json'', opt_field JStr (b64Json i)), (''mime'', mime i),
     (''renderable'', opt_field JBool (renderable i)),
     (''revisedPrompt'', opt_field JStr (revisedPrompt i))]"

definition reference_json :: "stored_reference \<Rightarrow> jsval" where
  "reference_json r = json_object [(''id'', JStr (ref_id r)), (''name'', JStr (ref_name r)),
     (''mimeType'', JStr (mimeType r)), (''size'', opt_field json_number (ref_size r)),
     (''dataUrl'', opt_field JStr (dataUrl r))]"

definition params_json :: "generation_params \<Rightarrow> jsval" where
  "params_json p = json_object [(''size'', JStr (p_size p)), (''sizeMode'', JStr (sizeMode p)),
     (''customWidth'', null_field json_number (customWidth p)),
     (''customHeight'', null_field json_number (customHeight p)), (''n'', json_number (p_n p)),
     (''negativePrompt'', JStr (negativePrompt p)), (''seed'', null_field json_number (seed p)),
     (''watermark'', JBool (watermark p)), (''promptExtend'', JBool (promptExtend p)),
     (''promptExtendMode'', JStr (promptExtendMode p)), (''thinkingMode'', JBool (thinkingMode p))]"

definition profile_json :: "snapshot_profile \<Rightarrow> jsval" where
  "profile_json p = json_object [(''maxReferenceImages'', json_number (maxReferenceImages p)),
     (''supportsAutoSize'', JBool (supportsAutoSize p)), (''defaultSize'', JStr (defaultSize p)),
     (''supportsCustomSize'', JBool (supportsCustomSize p)),
     (''supportsNegativePrompt'', JBool (supportsNegativePrompt p)),
     (''supportsSeed'', JBool (supportsSeed p)), (''supportsWatermark'', JBool (supportsWatermark p)),
     (''supportsPromptExtend'', JBool (supportsPromptExtend p)),
     (''supportsPromptExtendMode'', JBool (supportsPromptExtendMode p)),
     (''supportsThinkingMode'', JBool (supportsThinkingMode p)),
     (''thinkingRequiresExtend'', JBool (thinkingRequiresExtend p)),
     (''agentRequiresNoRefs'', JBool (agentRequiresNoRefs p)),
     (''allowedReferenceMimeTypes'', JArr (map JStr (allowedReferenceMimeTypes p)))]"

definition snapshot_json :: "request_snapshot \<Rightarrow> jsval" where
  "snapshot_json s = json_object [(''snapshotVersion'', json_number (snapshotVersion s)),
     (''model'', JStr (s_model s)), (''group'', JStr (s_group s)), (''provider'', JStr (s_provider s)),
     (''prompt'', JStr (s_prompt s)), (''params'', params_json (s_params s)),
     (''references'', JArr (map reference_json (s_references s))),
     (''profile'', null_field profile_json (s_profile s))]"

definition run_json :: "stored_run \<Rightarrow> jsval" where
  "run_json r = json_object [(''id'', JStr (r_id r)), (''status'', JStr (status_text (r_status r))),
     (''createdAt'', JStr (createdAt r)), (''updatedAt'', JStr (updatedAt r)),
     (''ownerUserId'', null_field json_number (ownerUserId r)), (''model'', JStr (r_model r)),
     (''group'', JStr (r_group r)), (''provider'', JStr (r_provider r)), (''prompt'', JStr (r_prompt r)),
     (''size'', JStr (r_size r)), (''n'', json_number (r_n r)),
     (''referenceCount'', json_number (referenceCount r)), (''images'', JArr (map image_json (images r))),
     (''error'', null_field JStr (r_error r)), (''errorKey'', opt_field JStr (errorKey r)),
     (''rawErrorMessage'', opt_field JStr (rawErrorMessage r)),
     (''temporaryResultUnavailable'', true_field (temporaryResultUnavailable r)),
     (''snapshotCorrupt'', true_field (snapshotCorrupt r)),
     (''leaseOwnerSessionId'', null_field JStr (leaseOwnerSessionId r)),
     (''leaseHeartbeatAt'', opt_field json_number (leaseHeartbeatAt r)),
     (''requestSnapshot'', snapshot_json (requestSnapshot r))]"

end
