(* ===== verification/Image_Store.thy ===== *)
theory Image_Store
  imports Image_Types "HOL-Library.Multiset"
begin

text \<open>
  The image playground store (\<open>web/src/stores/image-playground-store.ts\<close> and
  \<open>web/src/features/image-playground/lib/clock.ts\<close>): merging of concurrent copies, leases,
  tombstones, persistence, and the operations of the store as functions on its state.
  Every operation receives a \<open>tick\<close>: the current time, the session of the tab and the
  identifier a new run would get.
\<close>

section \<open>Merging copies of a run\<close>

definition LEASE_EXPIRY_MS :: jsnum where
  "LEASE_EXPIRY_MS = Fin 30000"

definition runInMemoryRichness :: "stored_run \<Rightarrow> nat" where
  "runInMemoryRichness run =
     sum_list (map (\<lambda>img. (if b64Json img \<noteq> None \<and> b64Json img \<noteq> Some [] then 1 else 0) +
       (if truthy (mime img) then 1 else 0) + (if renderable img = Some True then 1 else 0)) (images run)) +
     length (filter (\<lambda>ref. dataUrl ref \<noteq> None \<and> dataUrl ref \<noteq> Some [])
       (s_references (requestSnapshot run)))"

definition mergeConcurrentRunCopies :: "stored_run \<Rightarrow> stored_run \<Rightarrow> stored_run" where
  "mergeConcurrentRunCopies previous incoming =
     (if active previous \<noteq> active incoming then (if active previous then incoming else previous)
      else
        let previous_wins =
              (str_lt (updatedAt incoming) (updatedAt previous) \<or>
               updatedAt previous = updatedAt incoming \<and>
               runInMemoryRichness incoming \<le> runInMemoryRichness previous);
            preferred = (if previous_wins then previous else incoming);
            alternate = (if previous_wins then incoming else previous)
        in if \<not> active previous then preferred
           else if leaseOwnerSessionId preferred = None \<or>
             leaseOwnerSessionId preferred \<noteq> leaseOwnerSessionId alternate then preferred
           else case leaseHeartbeatAt alternate of
             None \<Rightarrow> preferred
           | Some ah \<Rightarrow>
               (case leaseHeartbeatAt preferred of
                  Some ph \<Rightarrow> if le_num ah ph then preferred else preferred\<lparr>leaseHeartbeatAt := Some ah\<rparr>
                | None \<Rightarrow> preferred\<lparr>leaseHeartbeatAt := Some ah\<rparr>))"

fun dedup_runs :: "stored_run list \<Rightarrow> (jsstr \<times> stored_run) list \<Rightarrow> (jsstr \<times> stored_run) list" where
  "dedup_runs [] m = m"
| "dedup_runs (run # rest) m =
     dedup_runs rest (omap_set (r_id run)
       (case map_of m (r_id run) of
          Some previous \<Rightarrow> mergeConcurrentRunCopies previous run
        | None \<Rightarrow> run) m)"

definition compare_runs :: "browser \<Rightarrow> stored_run \<Rightarrow> stored_run \<Rightarrow> int" where
  "compare_runs b x y =
     (case date_parse b (updatedAt x) of None \<Rightarrow> 1 | Some xt \<Rightarrow>
      (case date_parse b (updatedAt y) of None \<Rightarrow> -1 | Some yt \<Rightarrow>
       if yt \<noteq> xt then yt - xt
       else
         (case (date_parse b (createdAt x), date_parse b (createdAt y)) of
            (Some xc, Some yc) \<Rightarrow> if yc \<noteq> xc then yc - xc else 0
          | _ \<Rightarrow> 0)))"

text \<open>\<open>Array.prototype.sort\<close> with that comparator; it is stable.  The comparator is an order on runs
  whose timestamps parse; for others the order of the result is left to the engine, and this one is
  one of the possible results.\<close>

fun insert_run :: "browser \<Rightarrow> stored_run \<Rightarrow> stored_run list \<Rightarrow> stored_run list" where
  "insert_run b x [] = [x]"
| "insert_run b x (y # ys) = (if compare_runs b x y \<le> 0 then x # y # ys else y # insert_run b x ys)"

definition sort_runs :: "browser \<Rightarrow> stored_run list \<Rightarrow> stored_run list" where
  "sort_runs b rs = foldr (insert_run b) rs []"

definition normalizeUserRuns :: "browser \<Rightarrow> stored_run list \<Rightarrow> stored_run list" where
  "normalizeUserRuns b rs = take IMAGE_HISTORY_MAX_RUNS (sort_runs b (map snd (dedup_runs rs [])))"

section \<open>Reading the envelope\<close>

definition validateUserHistory :: "browser \<Rightarrow> jsval \<Rightarrow> user_history option" where
  "validateUserHistory b payload =
     (if \<not> plain_object payload then None
      else
        let candidate = field payload ''runs''; cl = field payload ''clearedAt'';
            rev = field payload ''revision'';
            rs = (case candidate of JArr items \<Rightarrow> List.map_filter (validatePersistedRun b) items | _ \<Rightarrow> [])
        in if \<not> is_array candidate \<and> candidate \<noteq> JUndef then None
           else if cl \<noteq> JUndef \<and> \<not> isValidTimestamp b cl then None
           else if rev \<noteq> JUndef \<and> (\<not> finite_number rev \<or> lt_num (number_of rev) (Fin 0)) then None
           else Some \<lparr>runs = normalizeUserRuns b rs, clearedAt = as_str cl, revision = as_num rev\<rparr>)"

fun parse_users :: "browser \<Rightarrow> (jsstr \<times> jsval) list \<Rightarrow> envelope \<Rightarrow> envelope" where
  "parse_users b [] m = m"
| "parse_users b ((user, payload) # rest) m =
     parse_users b rest
       (case validateUserHistory b payload of None \<Rightarrow> m | Some history \<Rightarrow> omap_set user history m)"

definition parseEnvelope :: "browser \<Rightarrow> jsval \<Rightarrow> envelope" where
  "parseEnvelope b input =
     (if \<not> plain_object input \<or>
         \<not> strict_eq (field input ''version'') (JNum HISTORY_STORAGE_VERSION) \<or>
         \<not> plain_object (field input ''users'') then []
      else case field input ''users'' of JObj entries \<Rightarrow> parse_users b entries [] | _ \<Rightarrow> [])"

section \<open>Leases\<close>

definition unknown_key :: jsstr where
  "unknown_key = js ''Generation was interrupted (outcome unknown)''"

definition interrupted :: "stored_run \<Rightarrow> stored_run" where
  "interrupted run = run\<lparr>r_status := Outcome_unknown, errorKey := Some unknown_key, r_error := None,
     leaseOwnerSessionId := None, leaseHeartbeatAt := None\<rparr>"

definition reclaim_run :: "int \<Rightarrow> stored_run \<Rightarrow> stored_run" where
  "reclaim_run time run =
     (if \<not> active run then run
      else case (leaseOwnerSessionId run, leaseHeartbeatAt run) of
        (Some _, Some beat) \<Rightarrow>
          if lt_num (sub_num (num_of_int time) beat) LEASE_EXPIRY_MS then run else interrupted run
      | _ \<Rightarrow> interrupted run)"

definition reclaimExpiredLeases :: "int \<Rightarrow> envelope \<Rightarrow> envelope" where
  "reclaimExpiredLeases time e =
     map (\<lambda>(user, history). (user, history\<lparr>runs := map (reclaim_run time) (runs history)\<rparr>)) e"

section \<open>Storage\<close>

datatype stored_text = Empty_text | Broken_text | Json_text jsval

record storage =
  readable :: bool
  writable :: bool
  items :: "(jsstr \<times> stored_text) list"

definition ENVELOPE_STORAGE_KEY :: jsstr where
  "ENVELOPE_STORAGE_KEY = js ''vancine.image-playground.history.v2.envelope''"

definition legacyV1Prefix :: jsstr where
  "legacyV1Prefix = js ''vancine.image-playground.history.v1''"

definition parseUserIdFromV1Key :: "jsstr \<Rightarrow> jsnum option" where
  "parseUserIdFromV1Key remainder =
     (if \<not> starts_with remainder (js ''.user.'') then None
      else
        let value = drop 6 remainder in
        if value = [] then None
        else let parsed = string_number value in if is_integer parsed then Some parsed else None)"

definition migrate_item :: "browser \<Rightarrow> jsstr \<times> stored_text \<Rightarrow> envelope \<Rightarrow> envelope" where
  "migrate_item b item e =
     (if fst item = [] \<or> \<not> starts_with (fst item) legacyV1Prefix then e
      else
        case (parseUserIdFromV1Key (drop (length legacyV1Prefix) (fst item)), snd item) of
          (Some user, Json_text parsed) \<Rightarrow>
            if \<not> truthy parsed \<or> \<not> typeof_object parsed \<or>
               \<not> strict_eq (field parsed ''version'') (JNum (Fin 1)) then e
            else
              (case field parsed ''runs'' of
                 JArr candidates \<Rightarrow>
                   let bucket = map (\<lambda>run. run\<lparr>ownerUserId := Some user\<rparr>)
                     (List.map_filter (validatePersistedRun b) candidates)
                   in if bucket = [] then e
                      else omap_set (num_text user)
                        \<lparr>runs = normalizeUserRuns b bucket, clearedAt = None, revision = None\<rparr> e
               | _ \<Rightarrow> e)
        | _ \<Rightarrow> e)"

text \<open>The storage either works or throws at the first access (\<open>readable\<close>); one that fails in the middle of
  the migration is not modelled.\<close>

definition migrateFromV1 :: "browser \<Rightarrow> storage \<Rightarrow> envelope" where
  "migrateFromV1 b st = fold (migrate_item b) (items st) []"

definition loadEnvelope :: "browser \<Rightarrow> storage \<Rightarrow> envelope" where
  "loadEnvelope b st =
     (if \<not> readable st then []
      else case map_of (items st) ENVELOPE_STORAGE_KEY of
        None \<Rightarrow> migrateFromV1 b st
      | Some Empty_text \<Rightarrow> migrateFromV1 b st
      | Some Broken_text \<Rightarrow> []
      | Some (Json_text v) \<Rightarrow> parseEnvelope b v)"

definition history_json :: "browser \<Rightarrow> user_history \<Rightarrow> jsval" where
  "history_json b h = json_object
     [(''runs'', JArr (map run_json (List.map_filter (toPersistedRun b) (runs h)))),
      (''clearedAt'', opt_field JStr (clearedAt h)), (''revision'', opt_field json_number (revision h))]"

definition envelope_json :: "browser \<Rightarrow> envelope \<Rightarrow> jsval" where
  "envelope_json b e = json_object [(''version'', JNum HISTORY_STORAGE_VERSION),
     (''users'', JObj (map (\<lambda>(user, h). (user, history_json b h)) e))]"

definition persistEnvelope :: "browser \<Rightarrow> envelope \<Rightarrow> storage \<Rightarrow> storage" where
  "persistEnvelope b e st =
     (let serialized = Json_text (envelope_json b e) in
      if \<not> readable st \<or> map_of (items st) ENVELOPE_STORAGE_KEY = Some serialized \<or> \<not> writable st then st
      else st\<lparr>items := omap_set ENVELOPE_STORAGE_KEY serialized (items st)\<rparr>)"

section \<open>Merging envelopes\<close>

definition laterTimestamp :: "browser \<Rightarrow> jsstr option \<Rightarrow> jsstr option \<Rightarrow> jsstr option" where
  "laterTimestamp b x y =
     (if x = None \<or> x = Some [] then y
      else if y = None \<or> y = Some [] then x
      else case (date_parse b (the x), date_parse b (the y)) of
        (Some xt, Some yt) \<Rightarrow> if yt \<le> xt then x else y
      | _ \<Rightarrow> y)"

definition survives :: "browser \<Rightarrow> int \<Rightarrow> stored_run \<Rightarrow> bool" where
  "survives b cleared run \<longleftrightarrow>
     active run \<or> (case date_parse b (updatedAt run) of None \<Rightarrow> False | Some u \<Rightarrow> cleared < u)"

definition applyTombstone :: "browser \<Rightarrow> stored_run list \<Rightarrow> jsstr option \<Rightarrow> stored_run list" where
  "applyTombstone b rs cl =
     (case cl of
        None \<Rightarrow> rs
      | Some text \<Rightarrow>
          if text = [] then rs
          else case date_parse b text of None \<Rightarrow> rs | Some ms \<Rightarrow> filter (survives b ms) rs)"

definition revision_of :: "user_history option \<Rightarrow> jsnum" where
  "revision_of h =
     (case h of None \<Rightarrow> Fin 0 | Some x \<Rightarrow> (case revision x of None \<Rightarrow> Fin 0 | Some r \<Rightarrow> r))"

definition cleared_of :: "user_history option \<Rightarrow> jsstr option" where
  "cleared_of h = (case h of None \<Rightarrow> None | Some x \<Rightarrow> clearedAt x)"

definition runs_of :: "user_history option \<Rightarrow> stored_run list" where
  "runs_of h = (case h of None \<Rightarrow> [] | Some x \<Rightarrow> runs x)"

definition merge_user ::
  "browser \<Rightarrow> user_history option \<Rightarrow> user_history option \<Rightarrow> user_history" where
  "merge_user b x y =
     (let ra = revision_of x; rb = revision_of y; rev = max_num ra rb;
          cl = (if lt_num rb ra then cleared_of x
                else if lt_num ra rb then cleared_of y
                else laterTimestamp b (cleared_of x) (cleared_of y));
          combined = normalizeUserRuns b (runs_of y @ runs_of x)
      in \<lparr>runs = applyTombstone b combined cl, clearedAt = cl,
          revision = (if lt_num (Fin 0) rev then Some rev else None)\<rparr>)"

definition user_ids :: "envelope \<Rightarrow> envelope \<Rightarrow> jsstr list" where
  "user_ids local remote = fold (\<lambda>k ks. set_add ks k) (map fst local @ map fst remote) []"

definition mergeHistoryEnvelopes :: "browser \<Rightarrow> envelope \<Rightarrow> envelope \<Rightarrow> envelope" where
  "mergeHistoryEnvelopes b local remote =
     map (\<lambda>user. (user, merge_user b (map_of local user) (map_of remote user))) (user_ids local remote)"

section \<open>The store\<close>

record tick =
  t_now :: int
  t_session :: jsstr
  t_uuid :: jsstr

record image_state =
  hydrated :: bool
  contents :: envelope
  local_storage :: "storage option"

record reference_image =
  ri_id :: jsstr
  ri_name :: jsstr
  ri_mimeType :: jsstr
  ri_dataUrl :: jsstr
  ri_size :: "jsnum option"

record add_run_input =
  in_owner :: "jsnum option"
  in_model :: jsstr
  in_group :: jsstr
  in_provider :: jsstr
  in_prompt :: jsstr
  in_params :: generation_params
  in_references :: "reference_image list"
  in_profile :: "snapshot_profile option"
  in_size :: jsstr

definition userBucket :: "jsnum option \<Rightarrow> jsstr" where
  "userBucket user = (case user of None \<Rightarrow> js ''anon'' | Some n \<Rightarrow> num_text n)"

definition userHistory :: "envelope \<Rightarrow> jsnum option \<Rightarrow> user_history" where
  "userHistory e user =
     (case map_of e (userBucket user) of
        Some h \<Rightarrow> h | None \<Rightarrow> \<lparr>runs = [], clearedAt = None, revision = None\<rparr>)"

definition setUserHistory :: "envelope \<Rightarrow> jsnum option \<Rightarrow> user_history \<Rightarrow> envelope" where
  "setUserHistory e user h = omap_set (userBucket user) h e"

definition userRuns :: "envelope \<Rightarrow> jsnum option \<Rightarrow> stored_run list" where
  "userRuns e user = (case map_of e (userBucket user) of None \<Rightarrow> [] | Some h \<Rightarrow> runs h)"

definition getRuns :: "image_state \<Rightarrow> jsnum option \<Rightarrow> stored_run list" where
  "getRuns s user = userRuns (contents s) user"

definition getRun :: "image_state \<Rightarrow> jsnum option \<Rightarrow> jsstr \<Rightarrow> stored_run option" where
  "getRun s user run_id = find (\<lambda>run. r_id run = run_id) (userRuns (contents s) user)"

definition toStoredReference :: "reference_image \<Rightarrow> stored_reference" where
  "toStoredReference ref = \<lparr>ref_id = ri_id ref, ref_name = ri_name ref, mimeType = ri_mimeType ref,
     ref_size = ri_size ref, dataUrl = Some (ri_dataUrl ref)\<rparr>"

definition buildSnapshot :: "add_run_input \<Rightarrow> request_snapshot" where
  "buildSnapshot input = \<lparr>snapshotVersion = SNAPSHOT_VERSION, s_model = in_model input,
     s_group = in_group input, s_provider = in_provider input, s_prompt = in_prompt input,
     s_params = in_params input, s_references = map toStoredReference (in_references input),
     s_profile = in_profile input\<rparr>"

definition persist :: "browser \<Rightarrow> image_state \<Rightarrow> image_state" where
  "persist b s =
     (case local_storage s of
        None \<Rightarrow> s
      | Some st \<Rightarrow>
          let merged = mergeHistoryEnvelopes b (loadEnvelope b st) (contents s)
          in s\<lparr>contents := merged, local_storage := Some (persistEnvelope b merged st)\<rparr>)"

definition hydrate :: "browser \<Rightarrow> tick \<Rightarrow> image_state \<Rightarrow> image_state" where
  "hydrate b t s =
     (case local_storage s of
        None \<Rightarrow> s\<lparr>hydrated := True\<rparr>
      | Some st \<Rightarrow>
          let e = reclaimExpiredLeases (t_now t) (loadEnvelope b st)
          in s\<lparr>hydrated := True, contents := e, local_storage := Some (persistEnvelope b e st)\<rparr>)"

definition new_run :: "browser \<Rightarrow> tick \<Rightarrow> add_run_input \<Rightarrow> stored_run" where
  "new_run b t input =
     \<lparr>r_id = t_uuid t, r_status = Running, createdAt = iso b (t_now t), updatedAt = iso b (t_now t),
      ownerUserId = in_owner input, r_model = in_model input, r_group = in_group input,
      r_provider = in_provider input, r_prompt = in_prompt input, r_size = in_size input,
      r_n = p_n (in_params input), referenceCount = Fin (of_nat (length (in_references input))),
      images = [], r_error = None, errorKey = None, rawErrorMessage = None,
      requestSnapshot = buildSnapshot input, temporaryResultUnavailable = False,
      snapshotCorrupt = False, leaseOwnerSessionId = Some (t_session t),
      leaseHeartbeatAt = Some (num_of_int (t_now t))\<rparr>"

definition addRun :: "browser \<Rightarrow> tick \<Rightarrow> add_run_input \<Rightarrow> image_state \<Rightarrow> image_state" where
  "addRun b t input s =
     (let existing = userHistory (contents s) (in_owner input);
          next_runs = normalizeUserRuns b (new_run b t input # runs existing)
      in persist b (s\<lparr>contents := setUserHistory (contents s) (in_owner input)
           (existing\<lparr>runs := next_runs\<rparr>)\<rparr>))"

text \<open>The object spread \<open>{ ...run, ...patch }\<close> is the function \<open>patch\<close> on runs.\<close>

definition update_time :: "browser \<Rightarrow> tick \<Rightarrow> jsstr option \<Rightarrow> jsstr" where
  "update_time b t cl =
     (let cleared = (case cl of None \<Rightarrow> None | Some text \<Rightarrow> if text = [] then None else date_parse b text);
          stamp = iso b (t_now t)
      in case (cleared, date_parse b stamp) of
           (Some ms, Some u) \<Rightarrow> if u \<le> ms then iso b (ms + 1) else stamp
         | _ \<Rightarrow> stamp)"

definition patched_run ::
  "browser \<Rightarrow> tick \<Rightarrow> jsstr option \<Rightarrow> (stored_run \<Rightarrow> stored_run) \<Rightarrow> stored_run \<Rightarrow> stored_run" where
  "patched_run b t cl patch run =
     (let merged = (patch run)\<lparr>updatedAt := update_time b t cl\<rparr> in
      if active merged then
        (if leaseOwnerSessionId merged = None \<or> leaseOwnerSessionId merged = Some (t_session t)
         then merged\<lparr>leaseOwnerSessionId := Some (t_session t),
                leaseHeartbeatAt := Some (num_of_int (t_now t))\<rparr>
         else merged)
      else merged\<lparr>leaseOwnerSessionId := None, leaseHeartbeatAt := None\<rparr>)"

definition updateRun ::
  "browser \<Rightarrow> tick \<Rightarrow> jsnum option \<Rightarrow> jsstr \<Rightarrow> (stored_run \<Rightarrow> stored_run) \<Rightarrow> image_state \<Rightarrow> image_state" where
  "updateRun b t user run_id patch s =
     (let existing = userHistory (contents s) user;
          next_runs = map (\<lambda>run. if r_id run \<noteq> run_id then run
            else patched_run b t (clearedAt existing) patch run) (runs existing);
          changed = list_ex (\<lambda>run. r_id run = run_id) (runs existing)
      in persist b
           (if changed then
              s\<lparr>contents := setUserHistory (contents s) user (existing\<lparr>runs := next_runs\<rparr>)\<rparr>
            else s))"

definition clearUser :: "browser \<Rightarrow> tick \<Rightarrow> jsnum \<Rightarrow> image_state \<Rightarrow> image_state" where
  "clearUser b t user s =
     (let existing = userHistory (contents s) (Some user);
          kept = filter active (runs existing)
      in persist b (s\<lparr>contents := setUserHistory (contents s) (Some user)
           \<lparr>runs = kept, clearedAt = Some (iso b (t_now t)),
            revision = Some (add_num (case revision existing of None \<Rightarrow> Fin 0 | Some r \<Rightarrow> r) (Fin 1))\<rparr>\<rparr>))"

definition mergeEnvelope :: "browser \<Rightarrow> tick \<Rightarrow> jsval \<Rightarrow> image_state \<Rightarrow> image_state" where
  "mergeEnvelope b t incoming s =
     persist b (s\<lparr>contents := reclaimExpiredLeases (t_now t)
       (mergeHistoryEnvelopes b (contents s) (parseEnvelope b incoming))\<rparr>)"

definition refreshHeartbeat ::
  "browser \<Rightarrow> tick \<Rightarrow> jsnum option \<Rightarrow> jsstr \<Rightarrow> image_state \<Rightarrow> image_state" where
  "refreshHeartbeat b t user run_id s =
     (let existing = userHistory (contents s) user;
          due = (case find (\<lambda>run. r_id run = run_id) (runs existing) of
                   None \<Rightarrow> False
                 | Some target \<Rightarrow>
                     active target \<and> leaseOwnerSessionId target = Some (t_session t) \<and>
                     \<not> (case leaseHeartbeatAt target of
                           None \<Rightarrow> False
                         | Some beat \<Rightarrow> lt_num (sub_num (num_of_int (t_now t)) beat)
                             (div_num LEASE_EXPIRY_MS (Fin 2))));
          next_runs = map (\<lambda>run. if r_id run = run_id
            then run\<lparr>leaseHeartbeatAt := Some (num_of_int (t_now t))\<rparr> else run) (runs existing)
      in persist b
           (if due then
              s\<lparr>contents := setUserHistory (contents s) user (existing\<lparr>runs := next_runs\<rparr>)\<rparr>
            else s))"

definition reclaimNow :: "browser \<Rightarrow> tick \<Rightarrow> image_state \<Rightarrow> image_state" where
  "reclaimNow b t s = persist b (s\<lparr>contents := reclaimExpiredLeases (t_now t) (contents s)\<rparr>)"

text \<open>The storage event listener of \<open>attachImagePlaygroundCrossTabSync\<close>.\<close>

definition onStorage :: "browser \<Rightarrow> tick \<Rightarrow> jsstr \<Rightarrow> stored_text option \<Rightarrow> image_state \<Rightarrow> image_state" where
  "onStorage b t key new_value s =
     (if key = [] \<or> key \<noteq> ENVELOPE_STORAGE_KEY then s
      else case new_value of Some (Json_text parsed) \<Rightarrow> mergeEnvelope b t parsed s | _ \<Rightarrow> s)"

section \<open>Structural lemmas\<close>

lemma distinct_dedup_runs:
  "distinct (map fst m) \<Longrightarrow> distinct (map fst (dedup_runs rs m))"
  by (induction rs m rule: dedup_runs.induct) (auto intro: distinct_omap_set)

text \<open>Merging two copies keeps their identifier.\<close>

lemma merge_copies_id:
  "r_id p = r_id i \<Longrightarrow> r_id (mergeConcurrentRunCopies p i) = r_id p"
  by (simp add: mergeConcurrentRunCopies_def Let_def split: option.splits)

definition keyed :: "(jsstr \<times> stored_run) list \<Rightarrow> bool" where
  "keyed m \<longleftrightarrow> (\<forall>(k, run)\<in>set m. r_id run = k)"

lemma keyed_dedup_runs: "keyed m \<Longrightarrow> keyed (dedup_runs rs m)"
proof (induction rs m rule: dedup_runs.induct)
  case (2 run rest m)
  have "r_id (case map_of m (r_id run) of Some p \<Rightarrow> mergeConcurrentRunCopies p run | None \<Rightarrow> run) = r_id run"
    using 2(2) by (auto simp: keyed_def merge_copies_id dest!: map_of_SomeD split: option.splits)
  then have "keyed (omap_set (r_id run) (case map_of m (r_id run) of
      Some p \<Rightarrow> mergeConcurrentRunCopies p run | None \<Rightarrow> run) m)"
    using 2(2) omap_set_values by (fastforce simp: keyed_def)
  then show ?case using 2(1) by simp
qed simp

lemma set_insert_run [simp]: "set (insert_run b x rs) = insert x (set rs)"
  by (induction rs) auto

lemma set_sort_runs [simp]: "set (sort_runs b rs) = set rs"
  by (induction rs) (auto simp: sort_runs_def)

lemma mset_insert_run [simp]: "mset (insert_run b x rs) = add_mset x (mset rs)"
  by (induction rs) auto

lemma mset_sort_runs [simp]: "mset (sort_runs b rs) = mset rs"
  by (induction rs) (auto simp: sort_runs_def)

lemma keyed_ids: "keyed m \<Longrightarrow> map (\<lambda>p. r_id (snd p)) m = map fst m"
  by (induction m) (auto simp: keyed_def)

lemma distinct_normalize: "distinct (map r_id (normalizeUserRuns b rs))"
proof -
  let ?m = "dedup_runs rs []"
  have "keyed ?m" using keyed_dedup_runs [of "[]" rs] by (simp add: keyed_def)
  then have "map r_id (map snd ?m) = map fst ?m" using keyed_ids [of ?m] by (simp add: comp_def)
  moreover have "distinct (map fst ?m)" using distinct_dedup_runs [of "[]" rs] by simp
  ultimately have "distinct (map r_id (map snd ?m))" by (simp only:)
  moreover have "mset (map r_id (sort_runs b (map snd ?m))) = mset (map r_id (map snd ?m))"
    by (simp only: mset_map mset_sort_runs)
  ultimately have "distinct (map r_id (sort_runs b (map snd ?m)))"
    using mset_eq_imp_distinct_iff by blast
  then show ?thesis
    by (simp add: normalizeUserRuns_def take_map [symmetric])
qed

lemma length_normalize: "length (normalizeUserRuns b rs) \<le> 50"
  by (simp add: normalizeUserRuns_def IMAGE_HISTORY_MAX_RUNS_def)

section \<open>Well-formed envelopes\<close>

definition runs_ok :: "stored_run list \<Rightarrow> bool" where
  "runs_ok rs \<longleftrightarrow> distinct (map r_id rs) \<and> length rs \<le> 50"

definition envelope_ok :: "envelope \<Rightarrow> bool" where
  "envelope_ok e \<longleftrightarrow> distinct (map fst e) \<and> (\<forall>(_, h)\<in>set e. runs_ok (runs h))"

lemma runs_ok_normalize [simp]: "runs_ok (normalizeUserRuns b rs)"
  by (simp add: runs_ok_def distinct_normalize length_normalize)

lemma runs_ok_filter: "runs_ok rs \<Longrightarrow> runs_ok (filter P rs)"
  by (auto simp: runs_ok_def distinct_map_filter intro: order.trans [OF length_filter_le])

lemma runs_ok_tombstone: "runs_ok rs \<Longrightarrow> runs_ok (applyTombstone b rs cl)"
  by (auto simp: applyTombstone_def runs_ok_filter split: option.splits)

lemma runs_ok_map: "runs_ok rs \<Longrightarrow> (\<And>r. r_id (f r) = r_id r) \<Longrightarrow> runs_ok (map f rs)"
  by (simp add: runs_ok_def comp_def)

lemma envelope_ok_empty [simp]: "envelope_ok []"
  by (simp add: envelope_ok_def)

lemma envelope_ok_set: "envelope_ok e \<Longrightarrow> runs_ok (runs h) \<Longrightarrow> envelope_ok (omap_set k h e)"
  using distinct_omap_set [of e k h] omap_set_values [of _ _ k h e] by (fastforce simp: envelope_ok_def)

lemma envelope_ok_setUser:
  "envelope_ok e \<Longrightarrow> runs_ok (runs h) \<Longrightarrow> envelope_ok (setUserHistory e user h)"
  by (simp add: setUserHistory_def envelope_ok_set)

lemma userHistory_ok: "envelope_ok e \<Longrightarrow> runs_ok (runs (userHistory e user))"
  by (auto simp: userHistory_def envelope_ok_def runs_ok_def dest!: map_of_SomeD split: option.splits)

lemma user_ids_distinct: "distinct (user_ids a b)"
proof -
  have "distinct acc \<Longrightarrow> distinct (fold (\<lambda>k ks. set_add ks k) xs acc)" for xs :: "jsstr list" and acc
    by (induction xs arbitrary: acc) (auto simp: distinct_set_add)
  then show ?thesis by (simp add: user_ids_def)
qed

lemma set_user_ids: "set (user_ids a b) = fst ` set a \<union> fst ` set b"
proof -
  have "set (fold (\<lambda>k ks. set_add ks k) xs acc) = set xs \<union> set acc" for xs :: "jsstr list" and acc
    by (induction xs arbitrary: acc) auto
  then show ?thesis by (auto simp: user_ids_def)
qed

lemma envelope_ok_merge: "envelope_ok (mergeHistoryEnvelopes b x y)"
  using user_ids_distinct [of x y]
  by (auto simp: envelope_ok_def mergeHistoryEnvelopes_def merge_user_def Let_def comp_def
      intro: runs_ok_tombstone)

lemma reclaim_run_id [simp]: "r_id (reclaim_run time run) = r_id run"
  by (auto simp: reclaim_run_def interrupted_def split: option.splits)

lemma envelope_ok_reclaim: "envelope_ok e \<Longrightarrow> envelope_ok (reclaimExpiredLeases time e)"
  by (auto simp: envelope_ok_def reclaimExpiredLeases_def comp_def case_prod_beta intro!: runs_ok_map)

lemma envelope_ok_parse: "envelope_ok (parseEnvelope b v)"
proof -
  have v: "validateUserHistory b p = Some h \<Longrightarrow> runs_ok (runs h)" for b p h
    by (auto simp: validateUserHistory_def Let_def split: if_splits)
  have "envelope_ok m \<Longrightarrow> envelope_ok (parse_users b us m)" for us m
  proof (induction b us m rule: parse_users.induct)
    case (2 b user payload rest m)
    have "envelope_ok (case validateUserHistory b payload of None \<Rightarrow> m | Some h \<Rightarrow> omap_set user h m)"
      using 2(2) envelope_ok_set v by (cases "validateUserHistory b payload") auto
    then show ?case using 2(1) by simp
  qed simp
  then show ?thesis by (auto simp: parseEnvelope_def split: jsval.splits)
qed

lemma envelope_ok_migrate: "envelope_ok (migrateFromV1 b st)"
proof -
  have "envelope_ok e \<Longrightarrow> envelope_ok (migrate_item b i e)" for i e
    by (auto simp: migrate_item_def Let_def intro!: envelope_ok_set
        split: option.splits stored_text.splits jsval.splits)
  then have "envelope_ok e \<Longrightarrow> envelope_ok (fold (migrate_item b) xs e)" for xs e
    by (induction xs arbitrary: e) auto
  then show ?thesis by (simp add: migrateFromV1_def)
qed

lemma envelope_ok_load: "envelope_ok (loadEnvelope b st)"
  by (auto simp: loadEnvelope_def envelope_ok_parse envelope_ok_migrate split: option.splits stored_text.splits)

end
