(* ===== verification/Image_Properties.thy ===== *)
theory Image_Properties
  imports Image_Store
begin

text \<open>
  Properties of the image playground store: the invariant of every reachable state, what
  merging may and may not do to a run, leases, tombstones, and what reaches local storage.
\<close>

section \<open>Reachable states\<close>

text \<open>The contract of an operation of the store: it keeps the envelope well formed.\<close>

locale store_operation =
  fixes operation :: "image_state \<Rightarrow> image_state"
  assumes keeps_ok: "envelope_ok (contents s) \<Longrightarrow> envelope_ok (contents (operation s))"
begin

lemma iterate_ok: "envelope_ok (contents s) \<Longrightarrow> envelope_ok (contents ((operation ^^ n) s))"
  by (induction n) (auto intro: keeps_ok)

end

lemma persist_ok: "envelope_ok (contents s) \<Longrightarrow> envelope_ok (contents (persist b s))"
  by (auto simp: persist_def Let_def envelope_ok_merge split: option.splits)

lemma patched_run_id: "(\<And>r. r_id (patch r) = r_id r) \<Longrightarrow> r_id (patched_run b t cl patch run) = r_id run"
  by (simp add: patched_run_def Let_def)

interpretation hydrate_op: store_operation "hydrate b t" for b t
  by unfold_locales
     (auto simp: hydrate_def Let_def envelope_ok_reclaim envelope_ok_load split: option.splits)

interpretation add_op: store_operation "addRun b t input" for b t input
  by unfold_locales (auto simp: addRun_def Let_def intro!: persist_ok envelope_ok_setUser)

interpretation clear_op: store_operation "clearUser b t user" for b t user
  by unfold_locales
     (auto simp: clearUser_def Let_def intro!: persist_ok envelope_ok_setUser runs_ok_filter userHistory_ok)

interpretation merge_op: store_operation "mergeEnvelope b t incoming" for b t incoming
  by unfold_locales (auto simp: mergeEnvelope_def intro!: persist_ok envelope_ok_reclaim envelope_ok_merge)

interpretation heartbeat_op: store_operation "refreshHeartbeat b t user run_id" for b t user run_id
  by unfold_locales
     (auto simp: refreshHeartbeat_def Let_def intro!: persist_ok envelope_ok_setUser runs_ok_map userHistory_ok)

interpretation reclaim_op: store_operation "reclaimNow b t" for b t
  by unfold_locales (auto simp: reclaimNow_def intro!: persist_ok envelope_ok_reclaim)

interpretation storage_op: store_operation "onStorage b t key new_value" for b t key new_value
  by unfold_locales (auto simp: onStorage_def merge_op.keeps_ok split: option.splits stored_text.splits)

lemma updateRun_ok:
  assumes "\<And>r. r_id (patch r) = r_id r" "envelope_ok (contents s)"
  shows "envelope_ok (contents (updateRun b t user run_id patch s))"
  using assms patched_run_id [of patch]
  by (auto simp: updateRun_def Let_def intro!: persist_ok envelope_ok_setUser runs_ok_map userHistory_ok)

text \<open>Steps of a tab: the operations of its store, and writes of other tabs to the storage.\<close>

inductive store_step :: "browser \<Rightarrow> image_state \<Rightarrow> image_state \<Rightarrow> bool" for b where
  step_hydrate: "store_step b s (hydrate b t s)"
| step_add: "store_step b s (addRun b t input s)"
| step_update: "(\<And>r. r_id (patch r) = r_id r) \<Longrightarrow> store_step b s (updateRun b t user run_id patch s)"
| step_clear: "store_step b s (clearUser b t number s)"
| step_merge: "store_step b s (mergeEnvelope b t incoming s)"
| step_heartbeat: "store_step b s (refreshHeartbeat b t user run_id s)"
| step_reclaim: "store_step b s (reclaimNow b t s)"
| step_event: "store_step b s (onStorage b t key new_value s)"
| step_other_tab: "store_step b s (s\<lparr>local_storage := st\<rparr>)"

inductive store_reachable :: "browser \<Rightarrow> image_state \<Rightarrow> bool" for b where
  reach_init: "store_reachable b \<lparr>hydrated = False, contents = [], local_storage = st\<rparr>"
| reach_step: "store_reachable b s \<Longrightarrow> store_step b s s' \<Longrightarrow> store_reachable b s'"

lemma store_step_ok: "store_step b s s' \<Longrightarrow> envelope_ok (contents s) \<Longrightarrow> envelope_ok (contents s')"
  by (induction rule: store_step.induct)
     (auto intro: hydrate_op.keeps_ok add_op.keeps_ok clear_op.keeps_ok merge_op.keeps_ok
        heartbeat_op.keeps_ok reclaim_op.keeps_ok storage_op.keeps_ok updateRun_ok)

lemma reachable_ok: "store_reachable b s \<Longrightarrow> envelope_ok (contents s)"
  by (induction rule: store_reachable.induct) (auto intro: store_step_ok)

section \<open>Terminal observations\<close>

lemma merge_copies_terminal:
  "\<not> active p \<or> \<not> active i \<Longrightarrow> \<not> active (mergeConcurrentRunCopies p i)"
  by (auto simp: mergeConcurrentRunCopies_def Let_def)

lemma dedup_terminal:
  "(\<exists>r\<in>set rs. r_id r = k \<and> \<not> active r) \<or> (\<exists>r. map_of m k = Some r \<and> \<not> active r) \<Longrightarrow>
   \<exists>r. map_of (dedup_runs rs m) k = Some r \<and> \<not> active r"
proof (induction rs m rule: dedup_runs.induct)
  case (1 m)
  then show ?case by simp
next
  case (2 run rest m)
  let ?v = "case map_of m (r_id run) of Some p \<Rightarrow> mergeConcurrentRunCopies p run | None \<Rightarrow> run"
  have "(\<exists>r\<in>set rest. r_id r = k \<and> \<not> active r) \<or> (\<exists>r. map_of (omap_set (r_id run) ?v m) k = Some r \<and> \<not> active r)"
    using 2(2) merge_copies_terminal by (cases "r_id run = k") (auto split: option.splits)
  then show ?case using 2(1) by simp
qed

lemma normalize_terminal:
  assumes "r \<in> set rs" "\<not> active r" "r' \<in> set (normalizeUserRuns b rs)" "r_id r' = r_id r"
  shows "\<not> active r'"
proof -
  let ?m = "dedup_runs rs []"
  obtain q where q: "map_of ?m (r_id r) = Some q" "\<not> active q"
    using dedup_terminal [of rs "r_id r" "[]"] assms(1,2) by auto
  have "r' \<in> set (map snd ?m)"
    using assms(3) set_take_subset by (fastforce simp: normalizeUserRuns_def)
  then obtain k where k: "(k, r') \<in> set ?m" by auto
  moreover have "keyed ?m" using keyed_dedup_runs [of "[]" rs] by (simp add: keyed_def)
  ultimately have "k = r_id r" using assms(4) by (auto simp: keyed_def)
  then have "map_of ?m (r_id r) = Some r'"
    using k distinct_dedup_runs [of "[]" rs] by (simp add: map_of_is_SomeI)
  then show ?thesis using q by simp
qed

section \<open>No run is lost\<close>

lemma dedup_keys: "fst ` set (dedup_runs rs m) = r_id ` set rs \<union> fst ` set m"
  by (induction rs m rule: dedup_runs.induct) (auto simp: set_keys_omap_set)

lemma dedup_ids: "r_id ` snd ` set (dedup_runs rs []) = r_id ` set rs"
proof -
  have "keyed (dedup_runs rs [])" using keyed_dedup_runs [of "[]" rs] by (simp add: keyed_def)
  then have "r_id ` snd ` set (dedup_runs rs []) = fst ` set (dedup_runs rs [])"
    by (force simp: keyed_def image_iff)
  then show ?thesis using dedup_keys [of rs "[]"] by simp
qed

lemma normalize_keeps_all:
  assumes "card (r_id ` set rs) \<le> 50"
  shows "r_id ` set (normalizeUserRuns b rs) = r_id ` set rs"
proof -
  let ?m = "dedup_runs rs []"
  have "length ?m = card (fst ` set ?m)"
    using distinct_dedup_runs [of "[]" rs] by (metis distinct.simps(1) distinct_card length_map list.set_map list.simps(8))
  then have "length (sort_runs b (map snd ?m)) \<le> 50"
    using assms dedup_keys [of rs "[]"] by (metis Un_empty_right image_empty length_map list.set(1) mset_sort_runs size_mset)
  then have "normalizeUserRuns b rs = sort_runs b (map snd ?m)"
    by (simp add: normalizeUserRuns_def IMAGE_HISTORY_MAX_RUNS_def)
  then show ?thesis using dedup_ids [of rs] by (simp add: image_image)
qed

lemma merge_lookup:
  "map_of (mergeHistoryEnvelopes b x y) u =
     (if u \<in> fst ` set x \<union> fst ` set y then Some (merge_user b (map_of x u) (map_of y u)) else None)"
proof -
  have "map_of (map (\<lambda>u. (u, f u)) ks) u = (if u \<in> set ks then Some (f u) else None)" for f :: "jsstr \<Rightarrow> user_history" and ks
    by (induction ks) auto
  then show ?thesis by (simp add: mergeHistoryEnvelopes_def set_user_ids)
qed

section \<open>Snapshots read back\<close>

lemma field_json_object:
  "distinct (map fst fs) \<Longrightarrow>
   jget (json_object fs) (js k) = (case map_of fs k of None \<Rightarrow> JUndef | Some v \<Rightarrow> v)"
proof (induction fs)
  case Nil
  then show ?case by (simp add: json_object_def)
next
  case (Cons f fs)
  obtain k' v where f: "f = (k', v)" by force
  have "map_of (map (\<lambda>(k, v). (js k, v)) (filter (\<lambda>(_, v). v \<noteq> JUndef) fs)) (js k') = None"
    using Cons.prems f by (force simp: map_of_eq_None_iff)
  then show ?case using Cons f by (auto simp: json_object_def)
qed

lemma plain_json_object [simp]: "plain_object (json_object fs)"
  by (simp add: plain_object_def json_object_def)

definition stored_number :: "jsnum \<Rightarrow> bool" where
  "stored_number n \<longleftrightarrow> is_finite n \<and> n \<noteq> NegZero"

lemma json_stored_number: "stored_number n \<Longrightarrow> json_number n = JNum n"
  by (cases n) (auto simp: stored_number_def json_number_def)

definition params_ok :: "generation_params \<Rightarrow> bool" where
  "params_ok p \<longleftrightarrow>
     sizeMode p \<in> {js ''preset'', js ''custom'', js ''auto''} \<and>
     (\<forall>w. customWidth p = Some w \<longrightarrow> integer_between (JNum w) (Fin 1) (Fin 100000)) \<and>
     (\<forall>h. customHeight p = Some h \<longrightarrow> integer_between (JNum h) (Fin 1) (Fin 100000)) \<and>
     (sizeMode p = js ''custom'' \<longrightarrow> customWidth p \<noteq> None \<and> customHeight p \<noteq> None) \<and>
     integer_between (JNum (p_n p)) (Fin 1) SNAPSHOT_MAX_N \<and>
     (\<forall>k. seed p = Some k \<longrightarrow> is_integer k) \<and>
     promptExtendMode p \<in> {js ''direct'', js ''agent''}"

definition reference_ok :: "stored_reference \<Rightarrow> bool" where
  "reference_ok r \<longleftrightarrow> ref_id r \<noteq> [] \<and> (\<forall>n. ref_size r = Some n \<longrightarrow> \<not> lt_num n (Fin 0))"

definition profile_ok :: "snapshot_profile \<Rightarrow> bool" where
  "profile_ok p \<longleftrightarrow> is_integer (maxReferenceImages p) \<and> \<not> lt_num (maxReferenceImages p) (Fin 0)"

text \<open>The numbers of a snapshot that JSON keeps: finite ones other than negative zero.\<close>

definition params_numbers :: "generation_params \<Rightarrow> bool" where
  "params_numbers p \<longleftrightarrow> stored_number (p_n p) \<and> pred_option stored_number (customWidth p) \<and>
     pred_option stored_number (customHeight p) \<and> pred_option stored_number (seed p)"

definition snapshot_numbers :: "request_snapshot \<Rightarrow> bool" where
  "snapshot_numbers s \<longleftrightarrow> params_numbers (s_params s) \<and>
     (\<forall>r \<in> set (s_references s). pred_option stored_number (ref_size r)) \<and>
     pred_option (\<lambda>p. stored_number (maxReferenceImages p)) (s_profile s)"

lemma params_read_back:
  assumes "params_numbers p"
  shows "validate_params (params_json p) = (if params_ok p then Some p else None)"
proof -
  have f: "field (params_json p) k = (case map_of [(''size'', JStr (p_size p)), (''sizeMode'', JStr (sizeMode p)),
     (''customWidth'', null_field json_number (customWidth p)),
     (''customHeight'', null_field json_number (customHeight p)), (''n'', json_number (p_n p)),
     (''negativePrompt'', JStr (negativePrompt p)), (''seed'', null_field json_number (seed p)),
     (''watermark'', JBool (watermark p)), (''promptExtend'', JBool (promptExtend p)),
     (''promptExtendMode'', JStr (promptExtendMode p)), (''thinkingMode'', JBool (thinkingMode p))] k
     of None \<Rightarrow> JUndef | Some v \<Rightarrow> v)" for k
    unfolding params_json_def by (rule field_json_object) simp
  have "plain_object (params_json p)" by (simp add: params_json_def)
  then show ?thesis
    using assms unfolding validate_params_def f
    by (cases "customWidth p"; cases "customHeight p"; cases "seed p")
       (auto simp: params_ok_def params_numbers_def null_field_def json_stored_number text_of_def number_of_def flag_of_def
          nullable_number_def isCorruptNullableDimension_def Let_def)
qed

lemma reference_read_back:
  assumes "pred_option stored_number (ref_size r)" "dataUrl r = None"
  shows "validate_reference (reference_json r) = (if reference_ok r then Some r else None)"
proof -
  have f: "field (reference_json r) k = (case map_of [(''id'', JStr (ref_id r)), (''name'', JStr (ref_name r)),
     (''mimeType'', JStr (mimeType r)), (''size'', opt_field json_number (ref_size r)),
     (''dataUrl'', opt_field JStr (dataUrl r))] k of None \<Rightarrow> JUndef | Some v \<Rightarrow> v)" for k
    unfolding reference_json_def by (rule field_json_object) simp
  have "plain_object (reference_json r)" by (simp add: reference_json_def)
  then show ?thesis
    using assms unfolding validate_reference_def f
    by (cases "ref_size r")
       (auto simp: reference_ok_def opt_field_def json_stored_number text_of_def number_of_def Let_def
          finite_number_def stored_number_def)
qed

lemma profile_read_back:
  assumes "stored_number (maxReferenceImages p)"
  shows "validate_profile (profile_json p) = (if profile_ok p then Some p else None)"
proof -
  have f: "field (profile_json p) k = (case map_of [(''maxReferenceImages'', json_number (maxReferenceImages p)),
     (''supportsAutoSize'', JBool (supportsAutoSize p)), (''defaultSize'', JStr (defaultSize p)),
     (''supportsCustomSize'', JBool (supportsCustomSize p)),
     (''supportsNegativePrompt'', JBool (supportsNegativePrompt p)),
     (''supportsSeed'', JBool (supportsSeed p)), (''supportsWatermark'', JBool (supportsWatermark p)),
     (''supportsPromptExtend'', JBool (supportsPromptExtend p)),
     (''supportsPromptExtendMode'', JBool (supportsPromptExtendMode p)),
     (''supportsThinkingMode'', JBool (supportsThinkingMode p)),
     (''thinkingRequiresExtend'', JBool (thinkingRequiresExtend p)),
     (''agentRequiresNoRefs'', JBool (agentRequiresNoRefs p)),
     (''allowedReferenceMimeTypes'', JArr (map JStr (allowedReferenceMimeTypes p)))] k
     of None \<Rightarrow> JUndef | Some v \<Rightarrow> v)" for k
    unfolding profile_json_def by (rule field_json_object) simp
  have o: "\<not> nullish (profile_json p)" "typeof_object (profile_json p)" "\<not> is_array (profile_json p)"
    by (simp_all add: profile_json_def json_object_def nullish_def)
  have texts: "map (text_of \<circ> JStr) xs = xs" for xs
    by (induction xs) (auto simp: text_of_def)
  have flags: "flag_of (JBool x) = x" for x by (simp add: flag_of_def)
  show ?thesis
    using assms o unfolding validate_profile_def SNAPSHOT_PROFILE_FIELDS_def
    by (simp add: f profile_ok_def json_stored_number isCorruptProfileField_def text_of_def
        number_of_def flags list_ex_iff texts)
qed

definition snapshot_ok :: "request_snapshot \<Rightarrow> bool" where
  "snapshot_ok s \<longleftrightarrow> snapshotVersion s = SNAPSHOT_VERSION \<and> s_model s \<noteq> [] \<and> params_ok (s_params s) \<and>
     list_all reference_ok (s_references s) \<and> (case s_profile s of None \<Rightarrow> False | Some p \<Rightarrow> profile_ok p)"

lemma references_read_back:
  "\<forall>r \<in> set rs. pred_option stored_number (ref_size r) \<and> dataUrl r = None \<Longrightarrow>
   all_some (map validate_reference (map reference_json rs)) = (if list_all reference_ok rs then Some rs else None)"
  by (induction rs) (auto simp: reference_read_back)

lemma snapshot_read_back:
  assumes "snapshot_numbers s" "\<forall>r \<in> set (s_references s). dataUrl r = None"
  shows "validateSnapshot (snapshot_json s) = (if snapshot_ok s then Some s else None)"
proof -
  have f: "field (snapshot_json s) k = (case map_of [(''snapshotVersion'', json_number (snapshotVersion s)),
     (''model'', JStr (s_model s)), (''group'', JStr (s_group s)), (''provider'', JStr (s_provider s)),
     (''prompt'', JStr (s_prompt s)), (''params'', params_json (s_params s)),
     (''references'', JArr (map reference_json (s_references s))),
     (''profile'', null_field profile_json (s_profile s))] k of None \<Rightarrow> JUndef | Some v \<Rightarrow> v)" for k
    unfolding snapshot_json_def by (rule field_json_object) simp
  have o: "plain_object (snapshot_json s)" by (simp add: snapshot_json_def)
  have v: "strict_eq (json_number (snapshotVersion s)) (JNum SNAPSHOT_VERSION) \<longleftrightarrow> snapshotVersion s = SNAPSHOT_VERSION"
    by (cases "snapshotVersion s") (auto simp: SNAPSHOT_VERSION_def json_number_def)
  have p: "validate_params (params_json (s_params s)) = (if params_ok (s_params s) then Some (s_params s) else None)"
    using assms(1) by (intro params_read_back) (simp add: snapshot_numbers_def)
  have r: "all_some (map validate_reference (map reference_json (s_references s))) =
      (if list_all reference_ok (s_references s) then Some (s_references s) else None)"
    using assms by (intro references_read_back) (simp add: snapshot_numbers_def)
  have q: "validate_profile (null_field profile_json (s_profile s)) =
      (if (case s_profile s of None \<Rightarrow> False | Some p \<Rightarrow> profile_ok p) then s_profile s else None)"
  proof (cases "s_profile s")
    case None
    then show ?thesis by (simp add: null_field_def validate_profile_def nullish_def)
  next
    case (Some a)
    then show ?thesis using assms(1) by (simp add: snapshot_numbers_def null_field_def profile_read_back)
  qed
  show ?thesis
    unfolding validateSnapshot_def
    using o by (simp add: f v p r q snapshot_ok_def text_of_def del: map_map split: option.splits)
qed

section \<open>Runs read back\<close>

text \<open>The runs that are kept by the round trip: they have an identifier and timestamps, their numbers
  are numbers of JSON, and no optional text is empty.  Their request snapshot may be anything.\<close>

definition storable :: "browser \<Rightarrow> stored_run \<Rightarrow> bool" where
  "storable b r \<longleftrightarrow>
     r_id r \<noteq> [] \<and> isValidTimestamp b (JStr (createdAt r)) \<and> isValidTimestamp b (JStr (updatedAt r)) \<and>
     stored_number (r_n r) \<and> stored_number (referenceCount r) \<and>
     (\<forall>n. ownerUserId r = Some n \<longrightarrow> stored_number n) \<and> errorKey r \<noteq> Some [] \<and>
     rawErrorMessage r \<noteq> Some [] \<and> leaseOwnerSessionId r \<noteq> Some [] \<and>
     (\<forall>n. leaseHeartbeatAt r = Some n \<longrightarrow> stored_number n) \<and>
     snapshot_numbers (requestSnapshot r)"

text \<open>A run as it is read back: the images are marked as renderable, and a snapshot that was flagged or
  is not valid is replaced by the one that is only displayed.\<close>

definition display_snapshot :: "stored_run \<Rightarrow> request_snapshot" where
  "display_snapshot r = displaySnapshotFromRun (r_model r) (r_group r) (r_provider r) (r_prompt r) (r_size r)
     (if integer_between (JNum (r_n r)) (Fin 1) SNAPSHOT_MAX_N then r_n r else Fin 1)"

definition restored :: "stored_run \<Rightarrow> stored_run" where
  "restored r = r\<lparr>images := map (\<lambda>i. i\<lparr>renderable := Some True\<rparr>) (images r),
     requestSnapshot := (if \<not> snapshotCorrupt r \<and> snapshot_ok (requestSnapshot r) then requestSnapshot r else display_snapshot r),
     snapshotCorrupt := snapshotCorrupt r \<or> \<not> snapshot_ok (requestSnapshot r)\<rparr>"

lemma image_read_back:
  assumes "isUsableHttpUrl b (url i)" "b64Json i = None"
  shows "validate_image b (image_json i) = Some (i\<lparr>renderable := Some True\<rparr>)"
proof -
  have f: "field (image_json i) k = (case map_of [(''resultId'', opt_field JStr (resultId i)), (''url'', JStr (url i)),
     (''b64Json'', opt_field JStr (b64Json i)), (''mime'', mime i),
     (''renderable'', opt_field JBool (renderable i)),
     (''revisedPrompt'', opt_field JStr (revisedPrompt i))] k of None \<Rightarrow> JUndef | Some v \<Rightarrow> v)" for k
    unfolding image_json_def by (rule field_json_object) simp
  have o: "truthy (image_json i)" "typeof_object (image_json i)"
    by (simp_all add: image_json_def json_object_def)
  show ?thesis
    using assms o unfolding validate_image_def
    by (cases "resultId i"; cases "revisedPrompt i") (simp_all add: f opt_field_def text_of_def Let_def)
qed

lemma images_read_back:
  "\<forall>i\<in>set is. isUsableHttpUrl b (url i) \<and> b64Json i = None \<Longrightarrow>
   List.map_filter (validate_image b) (map image_json is) = map (\<lambda>i. i\<lparr>renderable := Some True\<rparr>) is"
  by (induction "is") (auto simp: image_read_back map_filter_simps)

lemma status_read_back: "parse_status (JStr (status_text s)) = Some s"
  by (cases s) (simp_all add: parse_status_def)

text \<open>The fields of a run as \<open>JSON.parse\<close> returns them.\<close>

definition run_field :: "stored_run \<Rightarrow> string \<Rightarrow> jsval" where
  "run_field r k = (case map_of [(''id'', JStr (r_id r)), (''status'', JStr (status_text (r_status r))),
     (''createdAt'', JStr (createdAt r)), (''updatedAt'', JStr (updatedAt r)),
     (''ownerUserId'', null_field json_number (ownerUserId r)), (''model'', JStr (r_model r)),
     (''group'', JStr (r_group r)), (''provider'', JStr (r_provider r)), (''prompt'', JStr (r_prompt r)),
     (''size'', JStr (r_size r)), (''n'', json_number (r_n r)),
     (''referenceCount'', json_number (referenceCount r)), (''images'', JArr (map image_json (images r))),
     (''error'', null_field JStr (r_error r)), (''errorKey'', opt_field JStr (errorKey r)),
     (''rawErrorMessage'', opt_field JStr (rawErrorMessage r)),
     (''temporaryResultUnavailable'', true_field (temporaryResultUnavailable r)),
     (''snapshotCorrupt'', true_field (snapshotCorrupt r)),
     (''leaseOwnerSessionId'', null_field JStr (leaseOwnerSessionId r)),
     (''leaseHeartbeatAt'', opt_field json_number (leaseHeartbeatAt r)),
     (''requestSnapshot'', snapshot_json (requestSnapshot r))] k of None \<Rightarrow> JUndef | Some v \<Rightarrow> v)"

lemma field_run_json: "field (run_json r) k = run_field r k"
  unfolding run_json_def run_field_def by (rule field_json_object) simp

lemma optional_read_back:
  "x \<noteq> Some [] \<Longrightarrow> nonempty_text (opt_field JStr x) = x"
  "x \<noteq> Some [] \<Longrightarrow> nonempty_text (null_field JStr x) = x"
  "as_str (null_field JStr x) = x"
  by (cases x; simp add: nonempty_text_def opt_field_def null_field_def)+

lemma number_read_back:
  assumes "\<forall>n. x = Some n \<longrightarrow> stored_number n"
  shows "(if finite_number (opt_field json_number x) then as_num (opt_field json_number x) else None) = x"
    "(if finite_number (null_field json_number x) then as_num (null_field json_number x) else None) = x"
    "\<not> nullish (null_field json_number x) \<longrightarrow> finite_number (null_field json_number x)"
  using assms by (cases x; auto simp: opt_field_def null_field_def json_stored_number finite_number_def
      stored_number_def nullish_def)+

lemma persisted_header:
  assumes "storable b p"
  shows "persisted_header_ok b (run_json p)"
proof -
  have o: "truthy (run_json p)" "typeof_object (run_json p)"
    by (simp_all add: run_json_def json_object_def)
  show ?thesis
    using assms o number_read_back(3) [of "ownerUserId p"]
    unfolding persisted_header_ok_def field_run_json
    by (simp add: run_field_def storable_def json_stored_number)
       (simp add: finite_number_def stored_number_def)
qed

lemma persisted_run_shape:
  assumes "toPersistedRun b run = Some p"
  shows "\<forall>i\<in>set (images p). isUsableHttpUrl b (url i) \<and> b64Json i = None"
    "worth_keeping (images p) (r_status p) (temporaryResultUnavailable p)"
    "\<not> active p \<longrightarrow> leaseOwnerSessionId p = None \<and> leaseHeartbeatAt p = None"
    "\<forall>r\<in>set (s_references (requestSnapshot p)). dataUrl r = None"
  using assms by (auto simp: toPersistedRun_def Let_def dropB64FromImage_def strip_reference_def split: if_splits)

lemma storable_persisted:
  assumes "storable b run" "toPersistedRun b run = Some p"
  shows "storable b p"
  using assms
  by (auto simp: storable_def toPersistedRun_def Let_def snapshot_numbers_def strip_reference_def split: if_splits)

lemma run_read_back:
  assumes "storable b run" "toPersistedRun b run = Some p"
  shows "validatePersistedRun b (run_json p) = Some (restored p)"
proof -
  note ok = storable_persisted [OF assms]
  note shape = persisted_run_shape [OF assms(2)]
  have imgs: "List.map_filter (validate_image b) (map image_json (images p)) =
      map (\<lambda>i. i\<lparr>renderable := Some True\<rparr>) (images p)"
    using images_read_back shape(1) by blast
  have "validateSnapshot (snapshot_json (requestSnapshot p)) =
      (if snapshot_ok (requestSnapshot p) then Some (requestSnapshot p) else None)"
    using ok shape(4) by (intro snapshot_read_back) (simp_all add: storable_def)
  then have snap: "persisted_snapshot (run_json p) =
      (if \<not> snapshotCorrupt p \<and> snapshot_ok (requestSnapshot p) then (requestSnapshot p, False) else (display_snapshot p, True))"
    using ok unfolding persisted_snapshot_def field_run_json
    by (simp add: run_field_def true_field_def storable_def display_snapshot_def json_stored_number text_of_def number_of_def)
  have keep: "worth_keeping (map (\<lambda>i. i\<lparr>renderable := Some True\<rparr>) (images p)) (r_status p)
      (temporaryResultUnavailable p)"
    using shape(2) by (simp add: worth_keeping_def)
  have nums: "number_of (json_number (r_n p)) = r_n p" "number_of (json_number (referenceCount p)) = referenceCount p"
    using ok by (simp_all add: storable_def json_stored_number number_of_def)
  have heart: "(if active p \<and> finite_number (opt_field json_number (leaseHeartbeatAt p))
      then as_num (opt_field json_number (leaseHeartbeatAt p)) else None) = leaseHeartbeatAt p"
    using number_read_back(1) [of "leaseHeartbeatAt p"] ok shape(3) by (auto simp: storable_def)
  have lease: "(if active p then nonempty_text (null_field JStr (leaseOwnerSessionId p)) else None) =
      leaseOwnerSessionId p"
    using ok shape(3) by (auto simp: storable_def optional_read_back)
  have owner: "(if finite_number (null_field json_number (ownerUserId p))
      then as_num (null_field json_number (ownerUserId p)) else None) = ownerUserId p"
    using number_read_back(2) [of "ownerUserId p"] ok by (simp add: storable_def)
  have temp: "(true_field (temporaryResultUnavailable p) = JBool True) = temporaryResultUnavailable p"
    by (simp add: true_field_def)
  have vals: "run_field p ''status'' = JStr (status_text (r_status p))"
      "run_field p ''ownerUserId'' = null_field json_number (ownerUserId p)"
      "run_field p ''leaseOwnerSessionId'' = null_field JStr (leaseOwnerSessionId p)"
      "run_field p ''leaseHeartbeatAt'' = opt_field json_number (leaseHeartbeatAt p)"
    by (simp_all add: run_field_def)
  show ?thesis
    using persisted_header [OF ok] ok keep
    unfolding validatePersistedRun_def field_run_json snap Let_def vals status_read_back option.case
      prod.case heart lease owner
    by (simp add: run_field_def imgs nums temp optional_read_back storable_def text_of_def restored_def)
qed

end
