(* ===== verification/Image_Guarantees.thy ===== *)
theory Image_Guarantees
  imports Image_Properties
begin

text \<open>
  What the image playground store guarantees: bounded and unique histories in every reachable
  state, monotone outcomes under merging, leases, tombstones, isolation of users, and the
  contents of local storage.
\<close>

section \<open>A concrete browser\<close>

text \<open>A clock text is one code unit, or a zero followed by one for times before 1970.\<close>

definition sample_browser :: browser where
  "sample_browser = \<lparr>
     date_parse = (\<lambda>s. case s of [n] \<Rightarrow> Some (int n) | [n, m] \<Rightarrow> (if n = 0 then Some (- int m) else None) | _ \<Rightarrow> None),
     iso = (\<lambda>x. if 0 \<le> x then [nat x] else [0, nat (- x)]),
     url_parse = (\<lambda>s. Some (js ''https:'', s))\<rparr>"

definition sample_tick :: "int \<Rightarrow> tick" where
  "sample_tick time = \<lparr>t_now = time, t_session = js ''tab'', t_uuid = js ''run-1''\<rparr>"

definition sample_params :: generation_params where
  "sample_params = \<lparr>p_size = js ''1024x1024'', sizeMode = js ''preset'', customWidth = None,
     customHeight = None, p_n = Fin 1, negativePrompt = [], seed = None, watermark = False,
     promptExtend = False, promptExtendMode = js ''direct'', thinkingMode = False\<rparr>"

definition sample_profile :: snapshot_profile where
  "sample_profile = \<lparr>maxReferenceImages = Fin 3, supportsAutoSize = True, defaultSize = js ''1024x1024'',
     supportsCustomSize = False, supportsNegativePrompt = False, supportsSeed = False,
     supportsWatermark = False, supportsPromptExtend = False, supportsPromptExtendMode = False,
     supportsThinkingMode = False, thinkingRequiresExtend = False, agentRequiresNoRefs = False,
     allowedReferenceMimeTypes = [js ''image/png'']\<rparr>"

definition sample_input :: add_run_input where
  "sample_input = \<lparr>in_owner = Some (Fin 7), in_model = js ''m'', in_group = js ''g'', in_provider = js ''p'',
     in_prompt = js ''cat'', in_params = sample_params,
     in_references = [\<lparr>ri_id = js ''r'', ri_name = js ''r.png'', ri_mimeType = js ''image/png'',
       ri_dataUrl = js ''data:'', ri_size = None\<rparr>],
     in_profile = Some sample_profile, in_size = js ''1024x1024''\<rparr>"

definition sample_run :: stored_run where
  "sample_run = new_run sample_browser (sample_tick 1000) sample_input"

definition finished :: "stored_run \<Rightarrow> stored_run" where
  "finished run = run\<lparr>r_status := Complete, images := [\<lparr>resultId = None, url = js ''https://x/y.png'',
     b64Json = Some (js ''AAAA''), mime = JStr (js ''image/png''), renderable = Some True, revisedPrompt = None\<rparr>]\<rparr>"

definition fresh_state :: image_state where
  "fresh_state = \<lparr>hydrated = False, contents = [], local_storage = None\<rparr>"

definition empty_storage :: storage where
  "empty_storage = \<lparr>readable = True, writable = True, items = []\<rparr>"

lemma sample_clock: "date_parse sample_browser (iso sample_browser x) = Some x" "iso sample_browser x \<noteq> []"
  by (simp_all add: sample_browser_def)

lemmas sample_simps = sample_run_def new_run_def sample_input_def sample_tick_def sample_params_def
  sample_profile_def finished_def buildSnapshot_def toStoredReference_def

section \<open>The history of a user\<close>

lemma tombstone_subset: "set (applyTombstone b rs cl) \<subseteq> set rs"
  by (auto simp: applyTombstone_def split: option.splits)

lemma merge_user_runs: "set (runs (merge_user b x y)) \<subseteq> set (normalizeUserRuns b (runs_of y @ runs_of x))"
  using tombstone_subset by (simp add: merge_user_def Let_def)

lemma merge_user_unclear:
  "cleared_of x = None \<Longrightarrow> cleared_of y = None \<Longrightarrow>
   runs (merge_user b x y) = normalizeUserRuns b (runs_of y @ runs_of x)"
  by (simp add: merge_user_def Let_def laterTimestamp_def applyTombstone_def)

text \<open>C19: In every reachable state of the store, whatever other tabs wrote to the storage, the
  history of each user has at most 50 runs and no two of them share an identifier.\<close>

theorem history_bounded_unique:
  assumes "store_reachable b s"
  shows "length (getRuns s user) \<le> 50 \<and> distinct (map r_id (getRuns s user))"
  using userHistory_ok [OF reachable_ok [OF assms], of user]
  by (auto simp: getRuns_def userRuns_def userHistory_def runs_ok_def split: option.splits)

theorem history_bounded_unique_witness:
  "length (getRuns (addRun sample_browser (sample_tick 5) sample_input fresh_state) (Some (Fin 7))) \<le> 50"
  using history_bounded_unique [OF reach_step [OF reach_init step_add]]
  by (simp add: fresh_state_def)

text \<open>C18: Merging two envelopes never revives a run: if one side holds a finished copy of a run
  the merged copy is finished too.\<close>

theorem merge_never_revives:
  assumes "map_of (mergeHistoryEnvelopes b x y) u = Some h"
    and "run \<in> set (runs_of (map_of x u)) \<union> set (runs_of (map_of y u))" "\<not> active run"
    and "copy \<in> set (runs h)" "r_id copy = r_id run"
  shows "\<not> active copy"
proof -
  let ?all = "runs_of (map_of y u) @ runs_of (map_of x u)"
  have "h = merge_user b (map_of x u) (map_of y u)"
    using assms(1) by (simp add: merge_lookup split: if_splits)
  then have "copy \<in> set (normalizeUserRuns b ?all)"
    using assms(4) merge_user_runs by blast
  then show ?thesis using normalize_terminal [of run ?all copy b] assms by auto
qed

text \<open>Merging loses no run while a user has at most 50 of them and never cleared the
  history.\<close>

theorem merge_loses_nothing:
  assumes "card (r_id ` (set (runs_of (map_of x u)) \<union> set (runs_of (map_of y u)))) \<le> 50"
    and "cleared_of (map_of x u) = None" "cleared_of (map_of y u) = None"
    and "map_of (mergeHistoryEnvelopes b x y) u = Some h"
  shows "r_id ` set (runs h) = r_id ` set (runs_of (map_of x u)) \<union> r_id ` set (runs_of (map_of y u))"
proof -
  let ?all = "runs_of (map_of y u) @ runs_of (map_of x u)"
  have h: "h = merge_user b (map_of x u) (map_of y u)"
    using assms(4) by (simp add: merge_lookup split: if_splits)
  have "runs h = normalizeUserRuns b ?all"
    using assms(2,3) unfolding h by (rule merge_user_unclear)
  moreover have "set ?all = set (runs_of (map_of x u)) \<union> set (runs_of (map_of y u))" by auto
  ultimately show ?thesis using normalize_keeps_all [of ?all b] assms(1) by (simp add: image_Un)
qed

definition sample_history :: "stored_run list \<Rightarrow> envelope" where
  "sample_history rs = [(js ''7'', \<lparr>runs = rs, clearedAt = None, revision = None\<rparr>)]"

lemma merge_samples:
  "\<exists>h. map_of (mergeHistoryEnvelopes b (sample_history x) (sample_history y)) (js ''7'') = Some h"
  by (simp add: merge_lookup sample_history_def)

lemma merge_sample_ids:
  assumes "map_of (mergeHistoryEnvelopes b (sample_history [x]) (sample_history [y])) (js ''7'') = Some h"
  shows "r_id ` set (runs h) = {r_id y, r_id x}"
proof -
  have "runs h = normalizeUserRuns b [y, x]"
  proof -
    have "h = merge_user b (Some \<lparr>runs = [x], clearedAt = None, revision = None\<rparr>)
        (Some \<lparr>runs = [y], clearedAt = None, revision = None\<rparr>)"
      using assms by (simp add: merge_lookup sample_history_def)
    then show ?thesis by (simp add: merge_user_unclear cleared_of_def runs_of_def)
  qed
  moreover have "card (r_id ` set [y, x]) \<le> 50" by (simp add: card_insert_if)
  then have "r_id ` set (normalizeUserRuns b [y, x]) = r_id ` set [y, x]" by (rule normalize_keeps_all)
  ultimately have "r_id ` set (runs h) = r_id ` set [y, x]" by (simp only:)
  then show ?thesis by (simp only: list.set image_insert image_empty)
qed

theorem merge_never_revives_witness:
  "\<exists>h copy. map_of (mergeHistoryEnvelopes sample_browser (sample_history [finished sample_run])
       (sample_history [sample_run])) (js ''7'') = Some h \<and>
     copy \<in> set (runs h) \<and> r_id copy = r_id sample_run \<and> \<not> active copy"
proof -
  obtain h where h: "map_of (mergeHistoryEnvelopes sample_browser (sample_history [finished sample_run])
       (sample_history [sample_run])) (js ''7'') = Some h"
    using merge_samples by blast
  have "r_id sample_run \<in> r_id ` set (runs h)" unfolding merge_sample_ids [OF h] by (rule insertI1)
  then obtain copy where c: "copy \<in> set (runs h)" "r_id copy = r_id sample_run" by (metis imageE)
  have "\<not> active copy"
    by (rule merge_never_revives [OF h, of "finished sample_run"])
       (use c in \<open>simp_all add: sample_history_def runs_of_def finished_def active_status_def\<close>)
  with h c show ?thesis by blast
qed

theorem merge_loses_nothing_witness:
  "\<exists>h. map_of (mergeHistoryEnvelopes sample_browser (sample_history [sample_run])
     (sample_history [sample_run\<lparr>r_id := js ''run-2''\<rparr>])) (js ''7'') = Some h \<and>
     r_id ` set (runs h) = {js ''run-1'', js ''run-2''}"
proof -
  obtain h where h: "map_of (mergeHistoryEnvelopes sample_browser (sample_history [sample_run])
     (sample_history [sample_run\<lparr>r_id := js ''run-2''\<rparr>])) (js ''7'') = Some h"
    using merge_samples by blast
  from merge_loses_nothing [OF _ _ _ h] have "r_id ` set (runs h) = {js ''run-1'', js ''run-2''}"
    by (auto simp: sample_history_def runs_of_def cleared_of_def sample_simps card_insert_if)
  with h show ?thesis by blast
qed

section \<open>Newest first\<close>

text \<open>The key a run is ordered by, when its timestamps parse.\<close>

definition dated :: "browser \<Rightarrow> stored_run \<Rightarrow> bool" where
  "dated b run \<longleftrightarrow> date_parse b (updatedAt run) \<noteq> None \<and> date_parse b (createdAt run) \<noteq> None"

definition newer_or_same :: "browser \<Rightarrow> stored_run \<Rightarrow> stored_run \<Rightarrow> bool" where
  "newer_or_same b x y \<longleftrightarrow>
     (let xu = the (date_parse b (updatedAt x)); yu = the (date_parse b (updatedAt y)) in
      yu < xu \<or> yu = xu \<and> the (date_parse b (createdAt y)) \<le> the (date_parse b (createdAt x)))"

lemma compare_newer: "dated b x \<Longrightarrow> dated b y \<Longrightarrow> compare_runs b x y \<le> 0 \<longleftrightarrow> newer_or_same b x y"
  by (auto simp: dated_def newer_or_same_def compare_runs_def Let_def split: if_splits)

lemma newer_trans: "newer_or_same b x y \<Longrightarrow> newer_or_same b y z \<Longrightarrow> newer_or_same b x z"
  by (auto simp: newer_or_same_def Let_def)

lemma newer_linear: "newer_or_same b x y \<or> newer_or_same b y x"
  by (auto simp: newer_or_same_def Let_def)

lemma insert_run_sorted:
  "\<forall>y\<in>set (x # ys). dated b y \<Longrightarrow> sorted_wrt (newer_or_same b) ys \<Longrightarrow>
   sorted_wrt (newer_or_same b) (insert_run b x ys)"
proof (induction ys)
  case (Cons y ys)
  then show ?case
    using compare_newer [of b x y] newer_linear [of b x y] newer_trans [of b x y] by auto
qed simp

lemma sort_runs_sorted: "\<forall>r\<in>set rs. dated b r \<Longrightarrow> sorted_wrt (newer_or_same b) (sort_runs b rs)"
proof (induction rs)
  case (Cons r rs)
  then have "sorted_wrt (newer_or_same b) (insert_run b r (sort_runs b rs))"
    by (intro insert_run_sorted) auto
  then show ?case by (simp add: sort_runs_def)
qed (simp add: sort_runs_def)

lemma merge_copies_dates:
  "dated b p \<Longrightarrow> dated b i \<Longrightarrow> dated b (mergeConcurrentRunCopies p i)"
  by (simp add: mergeConcurrentRunCopies_def Let_def dated_def split: option.splits)

lemma omap_set_all: "P v \<Longrightarrow> \<forall>r\<in>snd ` set m. P r \<Longrightarrow> \<forall>r\<in>snd ` set (omap_set k v m). P r"
  by (auto dest!: omap_set_values)

lemma dedup_dates:
  "\<forall>r\<in>set rs. dated b r \<Longrightarrow> \<forall>r\<in>snd ` set m. dated b r \<Longrightarrow> \<forall>r\<in>snd ` set (dedup_runs rs m). dated b r"
proof (induction rs m rule: dedup_runs.induct)
  case (2 run rest m)
  let ?v = "case map_of m (r_id run) of Some p \<Rightarrow> mergeConcurrentRunCopies p run | None \<Rightarrow> run"
  have "dated b ?v"
  proof (cases "map_of m (r_id run)")
    case (Some p)
    then have "dated b p" using 2(3) by (auto dest!: map_of_SomeD)
    then show ?thesis using Some 2(2) merge_copies_dates by simp
  qed (use 2(2) in simp)
  then have "\<forall>r\<in>snd ` set (omap_set (r_id run) ?v m). dated b r"
    using 2(3) by (rule omap_set_all)
  moreover have "\<forall>r\<in>set rest. dated b r" using 2(2) by simp
  ultimately show ?case using 2(1) unfolding dedup_runs.simps by blast
qed simp

text \<open>A normalised history is ordered by last update, newest first and ties by creation, and
  the bound of 50 cuts off its tail: each run left out is no newer than any run kept.\<close>

theorem history_newest_first:
  assumes "\<forall>r\<in>set rs. dated b r"
  shows "sorted_wrt (newer_or_same b) (normalizeUserRuns b rs) \<and>
    (\<exists>rest. set (normalizeUserRuns b rs) \<union> set rest = snd ` set (dedup_runs rs []) \<and>
      (\<forall>kept\<in>set (normalizeUserRuns b rs). \<forall>old\<in>set rest. newer_or_same b kept old))"
proof -
  let ?s = "sort_runs b (map snd (dedup_runs rs []))"
  have s: "sorted_wrt (newer_or_same b) ?s"
    using dedup_dates [of rs b "[]"] assms by (intro sort_runs_sorted) auto
  have split: "?s = normalizeUserRuns b rs @ drop 50 ?s"
    by (simp add: normalizeUserRuns_def IMAGE_HISTORY_MAX_RUNS_def)
  have "set ?s = set (normalizeUserRuns b rs) \<union> set (drop 50 ?s)"
    by (subst split) simp
  moreover have "sorted_wrt (newer_or_same b) (normalizeUserRuns b rs @ drop 50 ?s)"
    using s split by simp
  ultimately show ?thesis
    by (intro conjI exI [of _ "drop 50 ?s"]) (simp_all add: sorted_wrt_append)
qed

theorem history_newest_first_witness:
  "sorted_wrt (newer_or_same sample_browser)
     (normalizeUserRuns sample_browser [sample_run, sample_run\<lparr>r_id := js ''run-2'', updatedAt := [2000]\<rparr>])"
  using history_newest_first [of "[sample_run, sample_run\<lparr>r_id := js ''run-2'', updatedAt := [2000]\<rparr>]" sample_browser]
  by (simp add: dated_def sample_run_def new_run_def sample_tick_def sample_browser_def)

section \<open>Leases\<close>

definition lease_fresh :: "int \<Rightarrow> stored_run \<Rightarrow> bool" where
  "lease_fresh time run \<longleftrightarrow>
     leaseOwnerSessionId run \<noteq> None \<and>
     (\<exists>beat. leaseHeartbeatAt run = Some beat \<and> lt_num (sub_num (num_of_int time) beat) LEASE_EXPIRY_MS)"

lemma reclaim_run_cases:
  "reclaim_run time run = (if active run \<and> \<not> lease_fresh time run then interrupted run else run)"
  by (auto simp: reclaim_run_def lease_fresh_def split: option.splits)

lemma reclaim_lookup:
  "map_of (reclaimExpiredLeases time e) u =
     map_option (\<lambda>h. h\<lparr>runs := map (reclaim_run time) (runs h)\<rparr>) (map_of e u)"
  by (induction e) (auto simp: reclaimExpiredLeases_def)

section \<open>Updates\<close>

lemma update_after_clear:
  assumes "\<forall>x. date_parse b (iso b x) = Some x"
    and "cl = Some text" "text \<noteq> []" "date_parse b text = Some ms"
  shows "\<exists>u. date_parse b (update_time b t cl) = Some u \<and> ms < u"
  using assms by (auto simp: update_time_def Let_def)

lemma patched_updatedAt: "updatedAt (patched_run b t cl patch run) = update_time b t cl"
  by (simp add: patched_run_def Let_def)

lemma update_memory:
  assumes "local_storage s = None" "run_id \<in> r_id ` set (runs (userHistory (contents s) user))"
  shows "userHistory (contents (updateRun b t user run_id patch s)) user =
    (userHistory (contents s) user)\<lparr>runs := map (\<lambda>run. if r_id run \<noteq> run_id then run
       else patched_run b t (clearedAt (userHistory (contents s) user)) patch run)
       (runs (userHistory (contents s) user))\<rparr>"
proof -
  have "list_ex (\<lambda>run. r_id run = run_id) (runs (userHistory (contents s) user))"
    using assms(2) by (auto simp: list_ex_iff)
  then show ?thesis
    using assms(1) by (simp add: updateRun_def Let_def persist_def userHistory_def setUserHistory_def)
qed

text \<open>An update of a run outlives an earlier clear of the history, even within the same
  millisecond: its time is after the tombstone, so applying the tombstone keeps it.  The
  hypothesis on the clock is that Date.parse inverts toISOString.\<close>

theorem update_survives_clear:
  assumes "\<forall>x. date_parse b (iso b x) = Some x" "local_storage s = None"
    and "run \<in> set (runs (userHistory (contents s) user))"
  shows "patched_run b t (clearedAt (userHistory (contents s) user)) patch run \<in>
    set (applyTombstone b (runs (userHistory (contents (updateRun b t user (r_id run) patch s)) user))
      (clearedAt (userHistory (contents (updateRun b t user (r_id run) patch s)) user)))"
proof -
  let ?cl = "clearedAt (userHistory (contents s) user)"
  have m: "r_id run \<in> r_id ` set (runs (userHistory (contents s) user))" using assms(3) by blast
  have i: "patched_run b t ?cl patch run \<in>
      set (runs (userHistory (contents (updateRun b t user (r_id run) patch s)) user))"
    using assms(3) by (force simp: update_memory [OF assms(2) m])
  have "survives b ms (patched_run b t ?cl patch run)"
    if "?cl = Some mark" "mark \<noteq> []" "date_parse b mark = Some ms" for mark ms
    using update_after_clear [OF assms(1) that, of t] by (auto simp: survives_def patched_updatedAt)
  then show ?thesis
    using i by (auto simp: update_memory [OF assms(2) m] applyTombstone_def split: option.splits)
qed

text \<open>An update leaves the lease of another tab alone: a finished run has no lease, a run
  leased by nobody or by this tab is leased by this tab with a fresh heartbeat, and every
  other lease is kept; the runs with other identifiers are unchanged.\<close>

theorem update_lease:
  assumes "local_storage s = None" "run \<in> set (runs (userHistory (contents s) user))"
    and "copy = patched_run b t (clearedAt (userHistory (contents s) user)) patch run"
  shows "copy \<in> set (runs (userHistory (contents (updateRun b t user (r_id run) patch s)) user)) \<and>
    (if \<not> active (patch run) then leaseOwnerSessionId copy = None \<and> leaseHeartbeatAt copy = None
     else if leaseOwnerSessionId (patch run) \<in> {None, Some (t_session t)}
     then leaseOwnerSessionId copy = Some (t_session t) \<and> leaseHeartbeatAt copy = Some (num_of_int (t_now t))
     else leaseOwnerSessionId copy = leaseOwnerSessionId (patch run) \<and>
       leaseHeartbeatAt copy = leaseHeartbeatAt (patch run)) \<and>
    (\<forall>other\<in>set (runs (userHistory (contents s) user)). r_id other \<noteq> r_id run \<longrightarrow>
       other \<in> set (runs (userHistory (contents (updateRun b t user (r_id run) patch s)) user)))"
proof -
  have m: "r_id run \<in> r_id ` set (runs (userHistory (contents s) user))" using assms(2) by blast
  have "copy \<in> set (runs (userHistory (contents (updateRun b t user (r_id run) patch s)) user))"
    using assms(2,3) by (force simp: update_memory [OF assms(1) m])
  moreover have "\<forall>other\<in>set (runs (userHistory (contents s) user)). r_id other \<noteq> r_id run \<longrightarrow>
      other \<in> set (runs (userHistory (contents (updateRun b t user (r_id run) patch s)) user))"
    by (force simp: update_memory [OF assms(1) m])
  ultimately show ?thesis
    using assms(3) by (simp add: patched_run_def Let_def)
qed

definition memory_state :: "stored_run list \<Rightarrow> jsstr option \<Rightarrow> image_state" where
  "memory_state rs cl = \<lparr>hydrated = True,
     contents = [(userBucket (Some (Fin 7)), \<lparr>runs = rs, clearedAt = cl, revision = Some (Fin 1)\<rparr>)],
     local_storage = None\<rparr>"

lemma memory_history [simp]:
  "userHistory (contents (memory_state rs cl)) (Some (Fin 7)) = \<lparr>runs = rs, clearedAt = cl, revision = Some (Fin 1)\<rparr>"
  "local_storage (memory_state rs cl) = None"
  by (simp_all add: memory_state_def userHistory_def)

theorem update_survives_clear_witness:
  "patched_run sample_browser (sample_tick 1500) (Some [2000]) finished sample_run \<in>
     set (applyTombstone sample_browser (runs (userHistory (contents
       (updateRun sample_browser (sample_tick 1500) (Some (Fin 7)) (r_id sample_run) finished
         (memory_state [sample_run] (Some [2000])))) (Some (Fin 7))))
       (clearedAt (userHistory (contents
       (updateRun sample_browser (sample_tick 1500) (Some (Fin 7)) (r_id sample_run) finished
         (memory_state [sample_run] (Some [2000])))) (Some (Fin 7)))))"
  using update_survives_clear [of sample_browser "memory_state [sample_run] (Some [2000])" sample_run
      "Some (Fin 7)" "sample_tick 1500" finished]
  by (simp add: sample_clock)

theorem update_lease_witness:
  "leaseOwnerSessionId (patched_run sample_browser (sample_tick 1500) None finished sample_run) = None"
  using update_lease [of "memory_state [sample_run] None" sample_run "Some (Fin 7)" _ sample_browser
      "sample_tick 1500" finished, OF _ _ refl]
  by (simp add: finished_def active_status_def)

section \<open>Clearing\<close>

lemma tombstone_survivors:
  "cl = Some text \<Longrightarrow> text \<noteq> [] \<Longrightarrow> date_parse b text = Some ms \<Longrightarrow>
   run \<in> set (applyTombstone b rs cl) \<Longrightarrow> survives b ms run"
  by (simp add: applyTombstone_def)

lemma later_at_least:
  assumes "date_parse b y = Some yt" "y \<noteq> []"
  shows "\<exists>text ms. laterTimestamp b x (Some y) = Some text \<and>
    (text \<noteq> [] \<and> date_parse b text = Some ms \<and> yt \<le> ms)"
  using assms by (auto simp: laterTimestamp_def split: option.splits)

text \<open>Clearing a user's history removes every finished run that was not updated after the
  clear, also when the storage holds runs of other tabs, unless another tab already cleared
  the history more often.\<close>

theorem clear_removes_finished:
  assumes "date_parse b (iso b (t_now t)) = Some (t_now t)" "iso b (t_now t) \<noteq> []"
    and "local_storage s = Some st"
    and "\<not> lt_num (add_num (revision_of (map_of (contents s) (num_text user))) (Fin 1))
           (revision_of (map_of (loadEnvelope b st) (num_text user)))"
    and "run \<in> set (getRuns (clearUser b t user s) (Some user))"
  shows "active run \<or> (\<exists>u. date_parse b (updatedAt run) = Some u \<and> t_now t < u)"
proof -
  let ?k = "num_text user"
  let ?h = "userHistory (contents s) (Some user)"
  let ?new = "\<lparr>runs = filter active (runs ?h), clearedAt = Some (iso b (t_now t)),
      revision = Some (add_num (case revision ?h of None \<Rightarrow> Fin 0 | Some r \<Rightarrow> r) (Fin 1))\<rparr>"
  let ?m = "merge_user b (map_of (loadEnvelope b st) ?k) (Some ?new)"
  have rev: "(case revision ?h of None \<Rightarrow> Fin 0 | Some r \<Rightarrow> r) = revision_of (map_of (contents s) ?k)"
    by (auto simp: revision_of_def userHistory_def userBucket_def split: option.splits)
  have "map_of (contents (clearUser b t user s)) ?k = Some ?m"
    using assms(3) by (simp add: clearUser_def persist_def Let_def merge_lookup setUserHistory_def
        userBucket_def set_keys_omap_set)
  then have run: "run \<in> set (runs ?m)"
    using assms(5) by (simp add: getRuns_def userRuns_def userBucket_def)
  have cl: "\<exists>text ms. clearedAt ?m = Some text \<and> text \<noteq> [] \<and> date_parse b text = Some ms \<and> t_now t \<le> ms"
    using assms(1,2,4) later_at_least [OF assms(1,2), of "cleared_of (map_of (loadEnvelope b st) ?k)"]
    by (auto simp: merge_user_def Let_def cleared_of_def revision_of_def rev)
  have "runs ?m = applyTombstone b (normalizeUserRuns b (runs_of (Some ?new) @
      runs_of (map_of (loadEnvelope b st) ?k))) (clearedAt ?m)"
    by (simp add: merge_user_def Let_def)
  then show ?thesis
    using run cl tombstone_survivors by (fastforce simp: survives_def split: option.splits)
qed

section \<open>What reaches local storage\<close>

text \<open>Base64 image data and reference data never reach local storage: the stored form of a
  run has images with usable links only and references without their data.\<close>

theorem stored_run_has_no_media:
  assumes "toPersistedRun b run = Some p"
  shows "(\<exists>imgs. field (run_json p) ''images'' = JArr imgs \<and>
      (\<forall>i\<in>set imgs. field i ''b64Json'' = JUndef \<and> isUsableHttpUrl b (text_of (field i ''url'')))) \<and>
    (\<exists>refs. field (field (run_json p) ''requestSnapshot'') ''references'' = JArr refs \<and>
      (\<forall>r\<in>set refs. field r ''dataUrl'' = JUndef))"
proof -
  have i: "field (image_json i) ''b64Json'' = opt_field JStr (b64Json i)" "field (image_json i) ''url'' = JStr (url i)" for i
    unfolding image_json_def by (simp_all add: field_json_object)
  have r: "field (reference_json r) ''dataUrl'' = opt_field JStr (dataUrl r)" for r
    unfolding reference_json_def by (simp add: field_json_object)
  have s: "field (snapshot_json q) ''references'' = JArr (map reference_json (s_references q))" for q
    unfolding snapshot_json_def by (simp add: field_json_object)
  show ?thesis
    using persisted_run_shape(1,4) [OF assms]
    by (simp add: field_run_json run_field_def s i r opt_field_def text_of_def)
qed

theorem stored_run_has_no_media_witness:
  "\<exists>p. toPersistedRun sample_browser (finished sample_run) = Some p \<and>
     (\<exists>imgs. field (run_json p) ''images'' = JArr imgs \<and> (\<forall>i\<in>set imgs. field i ''b64Json'' = JUndef))"
proof -
  have "toPersistedRun sample_browser (finished sample_run) \<noteq> None"
    by (simp add: toPersistedRun_def Let_def worth_keeping_def finished_def hadBase64_def)
  then obtain p where "toPersistedRun sample_browser (finished sample_run) = Some p" by blast
  with stored_run_has_no_media [OF this] show ?thesis by blast
qed

text \<open>A history as the store keeps it: storable runs, a valid tombstone and a revision that is a number
  of JSON and not negative.\<close>

definition storable_history :: "browser \<Rightarrow> user_history \<Rightarrow> bool" where
  "storable_history b h \<longleftrightarrow> list_all (storable b) (runs h) \<and>
     (\<forall>c. clearedAt h = Some c \<longrightarrow> isValidTimestamp b (JStr c)) \<and>
     (\<forall>n. revision h = Some n \<longrightarrow> stored_number n \<and> \<not> lt_num n (Fin 0))"

lemma runs_read_back:
  "list_all (storable b) rs \<Longrightarrow>
   List.map_filter (validatePersistedRun b) (map run_json (List.map_filter (toPersistedRun b) rs)) =
     map restored (List.map_filter (toPersistedRun b) rs)"
  by (induction rs) (auto simp: map_filter_simps run_read_back split: option.splits)

lemma history_read_back:
  assumes "storable_history b h"
  shows "validateUserHistory b (history_json b h) =
    Some (h\<lparr>runs := normalizeUserRuns b (map restored (List.map_filter (toPersistedRun b) (runs h)))\<rparr>)"
proof -
  have f: "field (history_json b h) k = (case map_of
     [(''runs'', JArr (map run_json (List.map_filter (toPersistedRun b) (runs h)))),
      (''clearedAt'', opt_field JStr (clearedAt h)), (''revision'', opt_field json_number (revision h))] k
     of None \<Rightarrow> JUndef | Some v \<Rightarrow> v)" for k
    unfolding history_json_def by (rule field_json_object) simp
  have o: "plain_object (history_json b h)" by (simp add: history_json_def)
  show ?thesis
    using assms o runs_read_back [of b "runs h"]
    by (cases "clearedAt h"; cases "revision h")
       (simp_all add: validateUserHistory_def f Let_def storable_history_def opt_field_def
          json_stored_number finite_number_def stored_number_def number_of_def)
qed

lemma parse_users_lookup:
  "distinct (map fst es) \<Longrightarrow>
   map_of (parse_users b es m) u =
     (case map_of es u of None \<Rightarrow> map_of m u
      | Some p \<Rightarrow> (case validateUserHistory b p of None \<Rightarrow> map_of m u | Some h \<Rightarrow> Some h))"
proof (induction b es m rule: parse_users.induct)
  case (2 b user payload rest m)
  have "user = u \<Longrightarrow> map_of rest u = None"
    using 2(2) by (auto simp: map_of_eq_None_iff)
  then show ?case
    using 2 by (cases "user = u"; cases "validateUserHistory b payload") (auto split: option.splits)
qed simp

lemma load_after_persist:
  assumes "readable st" "writable st"
  shows "loadEnvelope b (persistEnvelope b e st) = parseEnvelope b (envelope_json b e)"
  using assms by (simp add: loadEnvelope_def persistEnvelope_def Let_def)

lemma storage_read_back:
  assumes "readable st" "writable st" "distinct (map fst e)"
    and "map_of e u = Some h" "storable_history b h"
  shows "map_of (loadEnvelope b (persistEnvelope b e st)) u =
    Some (h\<lparr>runs := normalizeUserRuns b (map restored (List.map_filter (toPersistedRun b) (runs h)))\<rparr>)"
proof -
  let ?users = "map (\<lambda>(user, h). (user, history_json b h)) e"
  have f: "field (envelope_json b e) k = (case map_of [(''version'', JNum HISTORY_STORAGE_VERSION),
     (''users'', JObj ?users)] k of None \<Rightarrow> JUndef | Some v \<Rightarrow> v)" for k
    unfolding envelope_json_def by (rule field_json_object) simp
  have o: "plain_object (envelope_json b e)" by (simp add: envelope_json_def)
  have parsed: "parseEnvelope b (envelope_json b e) = parse_users b ?users []"
    using o by (simp add: parseEnvelope_def f HISTORY_STORAGE_VERSION_def plain_object_def)
  have "distinct (map fst ?users)" using assms(3) by (simp add: comp_def case_prod_beta)
  moreover have "map_of ?users u = Some (history_json b h)"
    using assms(4) by (simp add: map_of_map)
  ultimately show ?thesis
    using history_read_back [OF assms(5)]
    by (simp add: load_after_persist [OF assms(1,2)] parsed parse_users_lookup)
qed

text \<open>C27: Writing the histories to local storage and reading them back returns, for every user,
  the runs worth keeping in their stored form, in the order of a normalised history, with
  the same tombstone and revision.  A run comes back with its request snapshot when that is valid, and
  otherwise, or when it was flagged before, with the snapshot that is only displayed, flagged as
  corrupt.  The storage is usable, and the history has what the store writes: runs with an identifier
  and valid timestamps, no empty optional texts, a valid tombstone, and numbers that JSON can represent.\<close>

theorem storage_round_trip:
  assumes "readable st" "writable st" "distinct (map fst e)"
    and "map_of e u = Some h" "storable_history b h"
  shows "map_of (loadEnvelope b (persistEnvelope b e st)) u =
    Some (h\<lparr>runs := normalizeUserRuns b (map restored (List.map_filter (toPersistedRun b) (runs h)))\<rparr>)"
  using assms by (rule storage_read_back)

text \<open>A run with a preset size and a custom width left over from before: its snapshot is refused.\<close>

definition leftover_run :: stored_run where
  "leftover_run = new_run sample_browser (sample_tick 1000) (sample_input\<lparr>in_params := sample_params\<lparr>customWidth := Some (Fin 0)\<rparr>\<rparr>)"

lemma sample_storable: "storable sample_browser sample_run" "storable sample_browser leftover_run"
  by (simp_all add: storable_def sample_simps leftover_run_def sample_browser_def isValidTimestamp_def stored_number_def
      snapshot_numbers_def params_numbers_def)

lemma sample_snapshots: "snapshot_ok (requestSnapshot sample_run)" "\<not> snapshot_ok (requestSnapshot leftover_run)"
  by (simp_all add: sample_simps leftover_run_def snapshot_ok_def params_ok_def profile_ok_def reference_ok_def
      SNAPSHOT_MAX_N_def integer_between_def is_integer_def)

definition sample_envelope :: envelope where
  "sample_envelope = [(js ''7'', \<lparr>runs = [sample_run], clearedAt = None, revision = None\<rparr>),
     (js ''8'', \<lparr>runs = [leftover_run], clearedAt = None, revision = None\<rparr>)]"

lemma sample_normalize: "normalizeUserRuns b [run] = [run]"
  by (simp add: normalizeUserRuns_def IMAGE_HISTORY_MAX_RUNS_def sort_runs_def)

theorem storage_round_trip_witness:
  "\<exists>run left. map_of (loadEnvelope sample_browser (persistEnvelope sample_browser sample_envelope empty_storage)) (js ''7'') =
       Some \<lparr>runs = [run], clearedAt = None, revision = None\<rparr> \<and> \<not> snapshotCorrupt run \<and>
     map_of (loadEnvelope sample_browser (persistEnvelope sample_browser sample_envelope empty_storage)) (js ''8'') =
       Some \<lparr>runs = [left], clearedAt = None, revision = None\<rparr> \<and> snapshotCorrupt left"
proof -
  have k: "\<exists>p. toPersistedRun sample_browser run = Some p \<and> snapshotCorrupt (restored p) = (\<not> snapshot_ok (requestSnapshot run))"
    if "run \<in> {sample_run, leftover_run}" for run
    using that by (auto simp: toPersistedRun_def Let_def worth_keeping_def restored_def)
      (auto simp: sample_simps leftover_run_def snapshot_ok_def reference_ok_def strip_reference_def)
  have l: "map_of (loadEnvelope sample_browser (persistEnvelope sample_browser sample_envelope empty_storage)) u =
      Some \<lparr>runs = normalizeUserRuns sample_browser (map restored (List.map_filter (toPersistedRun sample_browser) [run])),
        clearedAt = None, revision = None\<rparr>"
    if "(u, run) \<in> {(js ''7'', sample_run), (js ''8'', leftover_run)}" for u run
    using storage_round_trip [of empty_storage sample_envelope u "\<lparr>runs = [run], clearedAt = None, revision = None\<rparr>" sample_browser]
      sample_storable that
    by (auto simp: empty_storage_def sample_envelope_def storable_history_def)
  have "\<exists>r. map_of (loadEnvelope sample_browser (persistEnvelope sample_browser sample_envelope empty_storage)) u =
      Some \<lparr>runs = [r], clearedAt = None, revision = None\<rparr> \<and> snapshotCorrupt r = (\<not> snapshot_ok (requestSnapshot run))"
    if "(u, run) \<in> {(js ''7'', sample_run), (js ''8'', leftover_run)}" for u run
    using k [of run] l [OF that] that by (auto simp: map_filter_simps sample_normalize)
  from this [of "js ''7''" sample_run] this [of "js ''8''" leftover_run] show ?thesis
    using sample_snapshots by auto
qed

definition busy_state :: image_state where
  "busy_state = (memory_state [sample_run] None)\<lparr>local_storage := Some empty_storage\<rparr>"

lemma busy_cleared:
  "sample_run \<in> set (getRuns (clearUser sample_browser (sample_tick 2000) (Fin 7) busy_state) (Some (Fin 7)))"
proof -
  have "active sample_run" by (simp add: sample_run_def new_run_def active_status_def)
  then show ?thesis
    by (simp add: busy_state_def memory_state_def clearUser_def Let_def persist_def userHistory_def setUserHistory_def
        loadEnvelope_def empty_storage_def migrateFromV1_def getRuns_def userRuns_def merge_lookup merge_user_def
        runs_of_def sample_normalize applyTombstone_def survives_def revision_of_def cleared_of_def
        split: option.splits)
qed

theorem clear_removes_finished_witness:
  "\<exists>run. run \<in> set (getRuns (clearUser sample_browser (sample_tick 2000) (Fin 7) busy_state) (Some (Fin 7))) \<and>
     (active run \<or> (\<exists>u. date_parse sample_browser (updatedAt run) = Some u \<and> 2000 < u))"
proof -
  have "\<not> lt_num (add_num (revision_of (map_of (contents busy_state) (num_text (Fin 7)))) (Fin 1))
      (revision_of (map_of (loadEnvelope sample_browser empty_storage) (num_text (Fin 7))))"
    by (simp add: busy_state_def memory_state_def userBucket_def revision_of_def loadEnvelope_def
        empty_storage_def migrateFromV1_def to_double_numeral del: num_text.simps)
  from clear_removes_finished [OF _ _ _ this busy_cleared] show ?thesis
    using busy_cleared by (auto simp: sample_clock busy_state_def sample_tick_def)
qed

section \<open>Isolation of users\<close>

lemma persist_lookup:
  "map_of (contents s) u = map_of (contents s') u \<Longrightarrow> local_storage s = local_storage s' \<Longrightarrow>
   u \<noteq> k \<Longrightarrow> contents s' = omap_set k h (contents s) \<Longrightarrow>
   map_of (contents (persist b s')) u = map_of (contents (persist b s)) u"
  by (auto simp: persist_def Let_def merge_lookup set_keys_omap_set split: option.splits)

text \<open>An operation on the history of one user has no effect on the history of another one:
  adding, updating, clearing and heartbeats leave there exactly what synchronising with the
  storage alone would leave.\<close>

theorem users_isolated:
  assumes "userBucket user \<noteq> userBucket other"
  shows "getRuns (addRun b t (input\<lparr>in_owner := user\<rparr>) s) other = getRuns (persist b s) other \<and>
    getRuns (updateRun b t user run_id patch s) other = getRuns (persist b s) other \<and>
    getRuns (refreshHeartbeat b t user run_id s) other = getRuns (persist b s) other \<and>
    (\<forall>n. user = Some n \<longrightarrow> getRuns (clearUser b t n s) other = getRuns (persist b s) other)"
proof -
  have other: "map_of (contents (persist b (s\<lparr>contents := setUserHistory (contents s) user h\<rparr>))) (userBucket other) =
      map_of (contents (persist b s)) (userBucket other)" for h
    using assms by (intro persist_lookup [of s _ _ "userBucket user" h]) (auto simp: setUserHistory_def)
  show ?thesis
    using other
    by (auto simp: getRuns_def userRuns_def addRun_def updateRun_def refreshHeartbeat_def clearUser_def Let_def)
qed

theorem users_isolated_witness:
  "getRuns (addRun sample_browser (sample_tick 5) (sample_input\<lparr>in_owner := Some (Fin 0)\<rparr>) fresh_state) None =
     getRuns (persist sample_browser fresh_state) None"
proof -
  have "userBucket (Some (Fin 0)) \<noteq> userBucket None" by (simp add: userBucket_def)
  from users_isolated [OF this] show ?thesis by blast
qed

end
