(* ===== verification/Image_Leases.thy ===== *)
theory Image_Leases
  imports Image_Guarantees
begin

text \<open>
  Leases of the image playground across tabs: a tab that sends heartbeats keeps its runs, and another
  tab that loads the storage interrupts a run only after its heartbeats stopped.
\<close>

section \<open>Copies of one run\<close>

definition merge_copy :: "stored_run option \<Rightarrow> stored_run \<Rightarrow> stored_run option" where
  "merge_copy acc r = Some (case acc of None \<Rightarrow> r | Some p \<Rightarrow> mergeConcurrentRunCopies p r)"

lemma dedup_lookup:
  "map_of (dedup_runs rs m) k = foldl merge_copy (map_of m k) (filter (\<lambda>r. r_id r = k) rs)"
  by (induction rs m rule: dedup_runs.induct) (auto simp: merge_copy_def split: option.splits)

lemma filter_id: "distinct (map r_id rs) \<Longrightarrow> r \<in> set rs \<Longrightarrow> filter (\<lambda>x. r_id x = r_id r) rs = [r]"
proof (induction rs)
  case (Cons x rs)
  show ?case
  proof (cases "x = r")
    case True
    then have "r_id r \<notin> r_id ` set rs" using Cons.prems(1) by simp
    then have "filter (\<lambda>y. r_id y = r_id r) rs = []" by (intro filter_False) (metis imageI)
    then show ?thesis using True by simp
  next
    case False
    then show ?thesis using Cons by (auto simp: image_iff)
  qed
qed simp

lemma normalized_lookup:
  assumes "r \<in> set (normalizeUserRuns b rs)"
  shows "foldl merge_copy None (filter (\<lambda>x. r_id x = r_id r) rs) = Some r"
proof -
  let ?m = "dedup_runs rs []"
  have "r \<in> set (map snd ?m)" using assms set_take_subset by (fastforce simp: normalizeUserRuns_def)
  then obtain k where k: "(k, r) \<in> set ?m" by auto
  have "keyed ?m" using keyed_dedup_runs [of "[]" rs] by (simp add: keyed_def)
  then have "map_of ?m (r_id r) = Some r"
    using k distinct_dedup_runs [of "[]" rs] by (auto simp: keyed_def intro: map_of_is_SomeI)
  then show ?thesis by (simp add: dedup_lookup)
qed

lemma normalize_distinct:
  assumes "distinct (map r_id rs)" "length rs \<le> 50" "r \<in> set rs"
  shows "r \<in> set (normalizeUserRuns b rs)"
proof -
  have "card (r_id ` set rs) \<le> 50" using assms(1,2) by (metis distinct_card image_set length_map)
  then have "r_id r \<in> r_id ` set (normalizeUserRuns b rs)" using normalize_keeps_all assms(3) by blast
  then obtain q where q: "q \<in> set (normalizeUserRuns b rs)" "r_id r = r_id q" by (rule imageE)
  then show ?thesis using normalized_lookup [OF q(1)] filter_id [OF assms(1,3)] q(2) by (simp add: merge_copy_def)
qed

text \<open>When a merged copy is still leased by the owner of the local copy, its heartbeat is not older
  than the local one.\<close>

lemma merged_heartbeat:
  assumes "copy = mergeConcurrentRunCopies p i" "active copy" "leaseOwnerSessionId copy = leaseOwnerSessionId p"
    and "leaseOwnerSessionId p \<noteq> None" "leaseHeartbeatAt p = Some (num_of_int x)" "leaseHeartbeatAt copy = Some (num_of_int y)"
  shows "x \<le> y"
  using assms by (auto simp: mergeConcurrentRunCopies_def Let_def le_num_def split: if_splits option.splits)

lemma merged_local:
  assumes "distinct (map r_id xs)" "distinct (map r_id ys)" "p \<in> set xs"
    and "copy \<in> set (normalizeUserRuns b (xs @ ys))" "r_id copy = r_id p"
  shows "copy = p \<or> (\<exists>i. copy = mergeConcurrentRunCopies p i)"
proof -
  have "foldl merge_copy (Some p) (filter (\<lambda>x. r_id x = r_id p) ys) = Some copy"
    using normalized_lookup [OF assms(4)] assms(5) filter_id [OF assms(1,3)] by (simp add: merge_copy_def)
  moreover have "filter (\<lambda>x. r_id x = r_id p) ys = [] \<or> (\<exists>i. filter (\<lambda>x. r_id x = r_id p) ys = [i])"
    using filter_id [OF assms(2)] by (cases "\<exists>i \<in> set ys. r_id i = r_id p") (auto simp: filter_empty_conv, metis)
  ultimately show ?thesis by (auto simp: merge_copy_def)
qed

section \<open>Heartbeats\<close>

text \<open>Times in milliseconds, as \<open>Date.now()\<close> returns them.\<close>

definition clock_time :: "int \<Rightarrow> bool" where
  "clock_time n \<longleftrightarrow> 0 \<le> n \<and> n < 2 ^ 52"

lemma clock_difference:
  assumes "clock_time x" "clock_time y"
  shows "sub_num (num_of_int x) (num_of_int y) = num_of_int (x - y)"
proof -
  have "to_double (of_int (x - y)) = num_of_int (x - y)"
    using assms by (intro to_double_of_int) (auto simp: clock_time_def)
  then show ?thesis by (cases "y = 0") (simp_all add: sub_num_def)
qed

lemma half_expiry: "div_num LEASE_EXPIRY_MS (Fin 2) = num_of_int 15000"
  by (simp add: div_num_def LEASE_EXPIRY_MS_def is_zero_def Let_def to_double_numeral)

lemma find_id: "distinct (map r_id rs) \<Longrightarrow> r \<in> set rs \<Longrightarrow> find (\<lambda>x. r_id x = r_id r) rs = Some r"
  by (induction rs) (auto simp: image_iff)

text \<open>The local copy of a run after a heartbeat of its owner, before it is merged with the storage.\<close>

lemma heartbeat_local:
  assumes "envelope_ok (contents s)" "run \<in> set (runs (userHistory (contents s) user))" "active run"
    and "leaseOwnerSessionId run = Some (t_session t)" "leaseHeartbeatAt run = Some (num_of_int beat)"
    and "clock_time (t_now t)" "clock_time beat"
  obtains s0 p x where "refreshHeartbeat b t user (r_id run) s = persist b s0" "local_storage s0 = local_storage s"
    "envelope_ok (contents s0)" "p \<in> set (runs (userHistory (contents s0) user))" "r_id p = r_id run"
    "leaseOwnerSessionId p = Some (t_session t)" "leaseHeartbeatAt p = Some (num_of_int x)" "t_now t - 15000 < x"
proof -
  let ?h = "userHistory (contents s) user"
  let ?beat = "\<lambda>r. r\<lparr>leaseHeartbeatAt := Some (num_of_int (t_now t))\<rparr>"
  let ?rs = "map (\<lambda>r. if r_id r = r_id run then ?beat r else r) (runs ?h)"
  let ?s = "s\<lparr>contents := setUserHistory (contents s) user (?h\<lparr>runs := ?rs\<rparr>)\<rparr>"
  have ok: "runs_ok (runs ?h)" using userHistory_ok [OF assms(1)] .
  then have f: "find (\<lambda>r. r_id r = r_id run) (runs ?h) = Some run" using assms(2) by (intro find_id) (simp_all add: runs_ok_def)
  have r: "refreshHeartbeat b t user (r_id run) s = persist b (if 15000 \<le> t_now t - beat then ?s else s)"
    using assms(3-7) by (simp add: refreshHeartbeat_def f clock_difference half_expiry Let_def not_less)
  show thesis
  proof (cases "15000 \<le> t_now t - beat")
    case True
    have "?beat run \<in> set ?rs" using assms(2) by (auto intro: rev_image_eqI)
    moreover have "envelope_ok (contents ?s)"
      using assms(1) ok by (simp add: envelope_ok_setUser runs_ok_map)
    moreover have "userHistory (contents ?s) user = ?h\<lparr>runs := ?rs\<rparr>" by (simp add: userHistory_def setUserHistory_def)
    ultimately show thesis
      using that [of ?s "?beat run" "t_now t"] r True assms(4) by simp
  next
    case False
    then show thesis using that [of s run beat] r assms by simp
  qed
qed

lemma heartbeat_stored:
  assumes "envelope_ok (contents s)" "local_storage s = Some st" "run \<in> set (getRuns s user)" "active run"
    and "leaseOwnerSessionId run = Some (t_session t)" "leaseHeartbeatAt run = Some (num_of_int beat)"
    and "clock_time (t_now t)" "clock_time beat"
    and "copy \<in> set (getRuns (refreshHeartbeat b t user (r_id run) s) user)" "r_id copy = r_id run" "active copy"
    and "leaseOwnerSessionId copy = Some (t_session t)" "leaseHeartbeatAt copy = Some (num_of_int k)"
  shows "t_now t - 15000 < k"
proof -
  have run: "run \<in> set (runs (userHistory (contents s) user))"
    using assms(3) by (cases "map_of (contents s) (userBucket user)") (auto simp: getRuns_def userRuns_def userHistory_def)
  obtain s0 p x where s0: "refreshHeartbeat b t user (r_id run) s = persist b s0" "local_storage s0 = Some st"
      "envelope_ok (contents s0)" and p: "p \<in> set (runs (userHistory (contents s0) user))" "r_id p = r_id run"
      "leaseOwnerSessionId p = Some (t_session t)" "leaseHeartbeatAt p = Some (num_of_int x)" "t_now t - 15000 < x"
    using heartbeat_local [OF assms(1) run assms(4-8), of b] assms(2) by metis
  let ?u = "userBucket user" and ?l = "loadEnvelope b st"
  have ids: "distinct (map r_id (runs_of (map_of e ?u)))" if "envelope_ok e" for e
    using userHistory_ok [OF that, of user] by (auto simp: userHistory_def runs_of_def runs_ok_def split: option.splits)
  have "copy \<in> set (runs (merge_user b (map_of ?l ?u) (map_of (contents s0) ?u)))"
    using assms(9) s0(2) unfolding s0(1)
    by (auto simp: persist_def Let_def getRuns_def userRuns_def merge_lookup split: if_splits option.splits)
  then have "copy \<in> set (normalizeUserRuns b (runs_of (map_of (contents s0) ?u) @ runs_of (map_of ?l ?u)))"
    using merge_user_runs by blast
  moreover have "p \<in> set (runs_of (map_of (contents s0) ?u))"
    using p(1) by (auto simp: userHistory_def runs_of_def split: option.splits)
  ultimately have "copy = p \<or> (\<exists>i. copy = mergeConcurrentRunCopies p i)"
    using merged_local [OF ids [OF s0(3)] ids [OF envelope_ok_load]] assms(10) p(2) by metis
  then have "x \<le> k" using merged_heartbeat [of copy p] assms(11-13) p(3,4) by auto
  then show ?thesis using p(5) by simp
qed

section \<open>Another tab\<close>

lemma persisted_active:
  assumes "active run"
  obtains p where "toPersistedRun b run = Some p" "r_id (restored p) = r_id run" "r_status (restored p) = r_status run"
    "leaseOwnerSessionId (restored p) = leaseOwnerSessionId run" "leaseHeartbeatAt (restored p) = leaseHeartbeatAt run"
  using assms by (cases "toPersistedRun b run")
    (auto simp: toPersistedRun_def Let_def worth_keeping_def active_status_def restored_def split: if_splits)

lemma persisted_id: "toPersistedRun b run = Some p \<Longrightarrow> r_id (restored p) = r_id run"
  by (auto simp: toPersistedRun_def Let_def restored_def split: if_splits)

lemma persisted_ids:
  "distinct (map r_id rs) \<Longrightarrow> distinct (map r_id (map restored (List.map_filter (toPersistedRun b) rs)))"
proof (induction rs)
  case (Cons r rs)
  have "r_id ` set (map restored (List.map_filter (toPersistedRun b) rs)) \<subseteq> r_id ` set rs"
    using persisted_id by (force simp: map_filter_def)
  then show ?case
    using Cons persisted_id [of b r] by (cases "toPersistedRun b r") (auto simp: map_filter_simps)
qed (simp add: map_filter_simps)

text \<open>A leased run that is written to the storage is what another tab loads.\<close>

lemma stored_run_loaded:
  assumes "readable st" "writable st" "envelope_ok e" "map_of e u = Some h" "storable_history b h"
    and "run \<in> set (runs h)" "active run"
  obtains h' r where "map_of (loadEnvelope b (persistEnvelope b e st)) u = Some h'" "r \<in> set (runs h')" "r_id r = r_id run"
    "r_status r = r_status run" "leaseOwnerSessionId r = leaseOwnerSessionId run" "leaseHeartbeatAt r = leaseHeartbeatAt run"
proof -
  let ?rs = "map restored (List.map_filter (toPersistedRun b) (runs h))"
  obtain p where p: "toPersistedRun b run = Some p" "r_id (restored p) = r_id run" "r_status (restored p) = r_status run"
      "leaseOwnerSessionId (restored p) = leaseOwnerSessionId run" "leaseHeartbeatAt (restored p) = leaseHeartbeatAt run"
    using persisted_active [OF assms(7)] .
  have ok: "runs_ok (runs h)" using assms(3,4) by (auto simp: envelope_ok_def dest!: map_of_SomeD)
  have "restored p \<in> set ?rs" using p(1) assms(6) by (force simp: map_filter_def)
  moreover have "distinct (map r_id ?rs)" using ok by (intro persisted_ids) (simp add: runs_ok_def)
  moreover have "length ?rs \<le> 50"
    using ok by (auto simp: runs_ok_def map_filter_def intro: order.trans [OF length_filter_le])
  ultimately have "restored p \<in> set (normalizeUserRuns b ?rs)" by (intro normalize_distinct)
  moreover have "distinct (map fst e)" using assms(3) by (simp add: envelope_ok_def)
  ultimately show thesis
    using that [OF storage_read_back [OF assms(1,2) _ assms(4,5)], of "restored p"] p by simp
qed

text \<open>C20: Heartbeats keep a run of one tab alive in the others.  When the tab that owns an unfinished
  run sends a heartbeat and still owns the run afterwards, the lease in the storage is less than 15
  seconds old; a tab of another session that then loads the storage shows the run as unfinished with
  that lease until 30 seconds after the stored heartbeat, so at least for the next 15 seconds, and
  from then on as interrupted with an unknown outcome.  The store is well formed, its storage usable and the
  history of the user storable, and times are whole milliseconds.\<close>

theorem heartbeat_keeps_lease:
  assumes "envelope_ok (contents s)" "local_storage s = Some st" "readable st" "writable st"
    and "run \<in> set (getRuns s user)" "active run"
    and "leaseOwnerSessionId run = Some (t_session t)" "leaseHeartbeatAt run = Some (num_of_int beat)"
    and "after = refreshHeartbeat b t user (r_id run) s" "storable_history b (userHistory (contents after) user)"
    and "copy \<in> set (getRuns after user)" "r_id copy = r_id run" "active copy"
    and "leaseOwnerSessionId copy = Some (t_session t)" "leaseHeartbeatAt copy = Some (num_of_int k)"
    and "clock_time (t_now t)" "clock_time beat" "clock_time k"
    and "local_storage other = local_storage after" "t_session t' \<noteq> t_session t" "clock_time (t_now t')"
  shows "t_now t - 15000 < k \<and>
    (\<exists>shown \<in> set (getRuns (hydrate b t' other) user). r_id shown = r_id run \<and>
       (if t_now t' < k + 30000
        then r_status shown = r_status copy \<and> leaseOwnerSessionId shown = Some (t_session t) \<and>
          leaseHeartbeatAt shown = Some (num_of_int k)
        else r_status shown = Outcome_unknown \<and> leaseOwnerSessionId shown = None))"
proof
  show "t_now t - 15000 < k"
    using heartbeat_stored [OF assms(1,2,5-8,16,17)] assms(9,11-15) by blast
next
  let ?u = "userBucket user"
  obtain s0 where s0: "after = persist b s0" "local_storage s0 = Some st"
    using assms(2) by (auto simp: assms(9) refreshHeartbeat_def Let_def)
  have ok: "envelope_ok (contents after)" using heartbeat_op.keeps_ok [OF assms(1)] by (simp add: assms(9))
  have st: "local_storage other = Some (persistEnvelope b (contents after) st)"
    using s0 assms(19) by (simp add: persist_def Let_def)
  obtain h where h: "map_of (contents after) ?u = Some h" "copy \<in> set (runs h)" "storable_history b h"
    using assms(10,11) by (auto simp: getRuns_def userRuns_def userHistory_def split: option.splits)
  obtain h' r where r: "map_of (loadEnvelope b (persistEnvelope b (contents after) st)) ?u = Some h'" "r \<in> set (runs h')"
      "r_id r = r_id copy" "r_status r = r_status copy" "leaseOwnerSessionId r = leaseOwnerSessionId copy"
      "leaseHeartbeatAt r = leaseHeartbeatAt copy"
    using stored_run_loaded [OF assms(3,4) ok h(1,3,2) assms(13)] .
  have "reclaim_run (t_now t') r \<in> set (getRuns (hydrate b t' other) user)"
    using r(1,2) st by (simp add: hydrate_def Let_def getRuns_def userRuns_def reclaim_lookup)
  moreover have "reclaim_run (t_now t') r = (if t_now t' < k + 30000 then r else interrupted r)"
    using r(4-6) assms(13-15) clock_difference [OF assms(21,18)]
    by (simp add: reclaim_run_def LEASE_EXPIRY_MS_def)
  ultimately show "\<exists>shown \<in> set (getRuns (hydrate b t' other) user). r_id shown = r_id run \<and>
       (if t_now t' < k + 30000
        then r_status shown = r_status copy \<and> leaseOwnerSessionId shown = Some (t_session t) \<and>
          leaseHeartbeatAt shown = Some (num_of_int k)
        else r_status shown = Outcome_unknown \<and> leaseOwnerSessionId shown = None)"
    using r(3-6) assms(12,14,15) by (intro bexI [of _ "reclaim_run (t_now t') r"]) (auto simp: interrupted_def)
qed

definition other_tab :: tick where
  "other_tab = \<lparr>t_now = 20000, t_session = js ''other'', t_uuid = js ''run-2''\<rparr>"

lemma busy_heartbeat:
  "contents (refreshHeartbeat sample_browser (sample_tick 2000) (Some (Fin 7)) (r_id sample_run) busy_state) =
     [(userBucket (Some (Fin 7)), \<lparr>runs = [sample_run], clearedAt = None, revision = Some (Fin 1)\<rparr>)]"
proof -
  have "sub_num (Fin 2000) (Fin 1000) = Fin 1000" using clock_difference [of 2000 1000] by (simp add: clock_time_def)
  moreover have "leaseHeartbeatAt sample_run = Some (Fin 1000)" "t_now (sample_tick 2000) = 2000"
    by (simp_all add: sample_run_def new_run_def sample_tick_def)
  ultimately have "refreshHeartbeat sample_browser (sample_tick 2000) (Some (Fin 7)) (r_id sample_run) busy_state = persist sample_browser busy_state"
    by (simp add: refreshHeartbeat_def busy_state_def memory_state_def userHistory_def half_expiry Let_def)
  then show ?thesis
    by (simp add: busy_state_def memory_state_def persist_def Let_def loadEnvelope_def empty_storage_def migrateFromV1_def
        mergeHistoryEnvelopes_def user_ids_def set_add_def merge_user_def runs_of_def sample_normalize applyTombstone_def
        revision_of_def cleared_of_def laterTimestamp_def max_num_def is_zero_def)
qed

theorem heartbeat_keeps_lease_witness:
  "\<exists>shown \<in> set (getRuns (hydrate sample_browser other_tab
       (refreshHeartbeat sample_browser (sample_tick 2000) (Some (Fin 7)) (r_id sample_run) busy_state)) (Some (Fin 7))).
     r_status shown = Running \<and> leaseOwnerSessionId shown = Some (js ''tab'')"
proof -
  let ?a = "refreshHeartbeat sample_browser (sample_tick 2000) (Some (Fin 7)) (r_id sample_run) busy_state"
  have h: "userHistory (contents ?a) (Some (Fin 7)) = \<lparr>runs = [sample_run], clearedAt = None, revision = Some (Fin 1)\<rparr>"
    and c: "sample_run \<in> set (getRuns ?a (Some (Fin 7)))"
    by (simp_all add: busy_heartbeat userHistory_def getRuns_def userRuns_def)
  have m: "sample_run \<in> set (getRuns busy_state (Some (Fin 7)))"
    by (simp add: getRuns_def userRuns_def busy_state_def memory_state_def)
  have l: "active sample_run" "leaseOwnerSessionId sample_run = Some (t_session (sample_tick 2000))"
      "leaseHeartbeatAt sample_run = Some (num_of_int 1000)" "r_status sample_run = Running"
    by (simp_all add: sample_run_def new_run_def sample_tick_def active_status_def)
  have s: "envelope_ok (contents busy_state)" "local_storage busy_state = Some empty_storage" "readable empty_storage" "writable empty_storage"
    by (simp_all add: busy_state_def memory_state_def envelope_ok_def runs_ok_def empty_storage_def)
  have "storable_history sample_browser (userHistory (contents ?a) (Some (Fin 7)))"
    using sample_storable unfolding h by (simp add: storable_history_def stored_number_def)
  from heartbeat_keeps_lease [OF s m l(1-3) refl this c refl l(1-3) _ _ _ refl, of other_tab] show ?thesis
    using l(4) by (auto simp: other_tab_def sample_tick_def clock_time_def)
qed

end
