(* ===== verification/Image_Results.thy ===== *)
theory Image_Results
  imports Image_Types
begin

text \<open>
  Generated images (\<open>image-playground/lib/results.ts\<close>): recognising a base64 image from its
  first characters, reading the response of the server, and choosing what is shown.  The
  validation of the response by the schema library is the parameter \<open>parse_response\<close>; the
  \<open>URL\<close> parser is a field of the browser.
\<close>

section \<open>Base64\<close>

definition isAsciiWhitespace :: "code_unit \<Rightarrow> bool" where
  "isAsciiWhitespace c \<longleftrightarrow> c = 32 \<or> c = 9 \<or> c = 10 \<or> c = 13 \<or> c = 12"

definition isBase64Alphabet :: "code_unit \<Rightarrow> bool" where
  "isBase64Alphabet c \<longleftrightarrow>
     65 \<le> c \<and> c \<le> 90 \<or> 97 \<le> c \<and> c \<le> 122 \<or> 48 \<le> c \<and> c \<le> 57 \<or> c = 43 \<or> c = 47"

text \<open>The forgiving base64 decoding of the web platform, \<open>atob\<close>.\<close>

definition base64_value :: "code_unit \<Rightarrow> nat" where
  "base64_value c =
     (if 65 \<le> c \<and> c \<le> 90 then c - 65
      else if 97 \<le> c \<and> c \<le> 122 then c - 71
      else if 48 \<le> c \<and> c \<le> 57 then c + 4
      else if c = 43 then 62 else 63)"

fun sextets :: "nat list \<Rightarrow> nat list" where
  "sextets (a # b # c # d # s) =
     (a * 4 + b div 16) # (b mod 16 * 16 + c div 4) # (c mod 4 * 64 + d) # sextets s"
| "sextets [a, b, c] = [a * 4 + b div 16, b mod 16 * 16 + c div 4]"
| "sextets [a, b] = [a * 4 + b div 16]"
| "sextets [a] = []"
| "sextets [] = []"

definition strip_padding :: "jsstr \<Rightarrow> jsstr" where
  "strip_padding s =
     (if length s mod 4 \<noteq> 0 then s
      else if ends_with s [61, 61] then take (length s - 2) s
      else if ends_with s [61] then take (length s - 1) s
      else s)"

definition atob :: "jsstr \<Rightarrow> nat list option" where
  "atob raw =
     (let s = strip_padding (filter (\<lambda>c. \<not> isAsciiWhitespace c) raw)
      in if length s mod 4 = 1 \<or> \<not> list_all isBase64Alphabet s then None
         else Some (sextets (map base64_value s)))"

definition IMAGE_PREFIX_LIMIT :: nat where
  "IMAGE_PREFIX_LIMIT = 16"

definition HEADER_BYTE_LIMIT :: nat where
  "HEADER_BYTE_LIMIT = 12"

definition decodePrefixHeader :: "jsstr \<Rightarrow> nat list option" where
  "decodePrefixHeader header_text =
     (if header_text = [] then None else map_option (take HEADER_BYTE_LIMIT) (atob header_text))"

definition mimeFromHeader :: "nat list \<Rightarrow> jsstr option" where
  "mimeFromHeader bytes =
     (if 8 \<le> length bytes \<and> take 8 bytes = [137, 80, 78, 71, 13, 10, 26, 10] then Some (js ''image/png'')
      else if 3 \<le> length bytes \<and> take 3 bytes = [255, 216, 255] then Some (js ''image/jpeg'')
      else if 6 \<le> length bytes \<and> take 4 bytes = [71, 73, 70, 56] \<and> (bytes ! 4 = 55 \<or> bytes ! 4 = 57) \<and> bytes ! 5 = 97
      then Some (js ''image/gif'')
      else if 12 \<le> length bytes \<and> take 4 bytes = [82, 73, 70, 70] \<and> take 4 (drop 8 bytes) = [87, 69, 66, 80]
      then Some (js ''image/webp'')
      else None)"

text \<open>The scan of \<open>inspectBase64Image\<close>: characters of the alphabet, paddings and the header_text.\<close>

fun scan_base64 :: "jsstr \<Rightarrow> nat \<Rightarrow> nat \<Rightarrow> jsstr \<Rightarrow> (nat \<times> nat \<times> jsstr) option" where
  "scan_base64 [] alphabetCount paddingCount header_text = Some (alphabetCount, paddingCount, header_text)"
| "scan_base64 (code # rest) alphabetCount paddingCount header_text =
     (if isAsciiWhitespace code then scan_base64 rest alphabetCount paddingCount header_text
      else if code = 61 then
        (if 2 < paddingCount + 1 then None else scan_base64 rest alphabetCount (paddingCount + 1) header_text)
      else if 0 < paddingCount \<or> \<not> isBase64Alphabet code then None
      else scan_base64 rest (alphabetCount + 1) paddingCount
        (if length header_text < IMAGE_PREFIX_LIMIT then header_text @ [code] else header_text))"

definition inspectBase64Image :: "jsstr \<Rightarrow> jsstr option" where
  "inspectBase64Image raw =
     (if raw = [] then None
      else
        (case scan_base64 raw 0 0 [] of
           None \<Rightarrow> None
         | Some (alphabetCount, paddingCount, header_text) \<Rightarrow>
             if alphabetCount = 0 then None
             else if paddingCount = 0 \<and> alphabetCount mod 4 = 1 then None
             else if paddingCount \<noteq> 0 \<and> (alphabetCount + paddingCount) mod 4 \<noteq> 0 then None
             else
               (case decodePrefixHeader header_text of
                  None \<Rightarrow> None
                | Some header \<Rightarrow> mimeFromHeader header)))"

definition compactBase64ForDecode :: "jsstr \<Rightarrow> jsstr" where
  "compactBase64ForDecode raw = filter (\<lambda>c. \<not> isAsciiWhitespace c) raw"

definition decodeRenderableBase64 :: "jsstr \<Rightarrow> (nat list \<times> jsstr) option" where
  "decodeRenderableBase64 b64 =
     (case inspectBase64Image b64 of
        None \<Rightarrow> None
      | Some mime_type \<Rightarrow>
          (case atob (compactBase64ForDecode b64) of
             None \<Rightarrow> None
           | Some bytes \<Rightarrow> if bytes = [] then None else Some (bytes, mime_type)))"

section \<open>Images\<close>

record generated_image =
  g_resultId :: "jsstr option"
  g_url :: "jsstr option"
  g_b64Json :: "jsstr option"
  g_mime :: "jsstr option"
  g_renderable :: "bool option"
  g_revisedPrompt :: "jsstr option"

record parsed_image =
  pi_resultId :: jsstr
  pi_url :: "jsstr option"
  pi_b64Json :: "jsstr option"
  pi_mime :: jsstr
  pi_revisedPrompt :: "jsstr option"
  pi_renderable :: "bool option"

record response_item =
  it_url :: "jsstr option"
  it_b64_json :: "jsstr option"
  it_revised_prompt :: "jsstr option"

record generation_response =
  rs_error :: "jsstr option"
  rs_data :: "response_item list option"

text \<open>An optional string that is present and not empty.\<close>

definition present :: "jsstr option \<Rightarrow> bool" where
  "present s \<longleftrightarrow> s \<noteq> None \<and> s \<noteq> Some []"

definition trimmed_url :: "jsstr option \<Rightarrow> jsstr" where
  "trimmed_url u = (case u of None \<Rightarrow> [] | Some s \<Rightarrow> trim s)"

definition usable_url :: "browser \<Rightarrow> jsstr option \<Rightarrow> jsstr option" where
  "usable_url b u = (if isUsableHttpUrl b (trimmed_url u) then Some (trimmed_url u) else None)"

definition data_url :: "jsstr \<Rightarrow> jsstr \<Rightarrow> jsstr" where
  "data_url mime_type b64 = js ''data:'' @ mime_type @ js '';base64,'' @ b64"

definition imageSrc :: "browser \<Rightarrow> generated_image \<Rightarrow> jsstr" where
  "imageSrc b i =
     (if isUsableHttpUrl b (trimmed_url (g_url i)) then trimmed_url (g_url i)
      else if \<not> present (g_b64Json i) then []
      else
        (case inspectBase64Image (the (g_b64Json i)) of
           None \<Rightarrow> []
         | Some mime_type \<Rightarrow> data_url mime_type (the (g_b64Json i))))"

definition parsedImageSrc :: "browser \<Rightarrow> parsed_image \<Rightarrow> jsstr" where
  "parsedImageSrc b i =
     (if present (pi_url i) \<and> isUsableHttpUrl b (trimmed_url (pi_url i)) then trimmed_url (pi_url i)
      else if pi_renderable i = Some True \<and> present (pi_b64Json i) \<and> pi_mime i \<noteq> []
      then data_url (pi_mime i) (the (pi_b64Json i))
      else [])"

definition isParsedImageRenderable :: "browser \<Rightarrow> parsed_image \<Rightarrow> bool" where
  "isParsedImageRenderable b i =
     (if trimmed_url (pi_url i) \<noteq> [] then isUsableHttpUrl b (trimmed_url (pi_url i))
      else pi_renderable i = Some True \<and> present (pi_b64Json i) \<and> pi_mime i \<noteq> [])"

text \<open>\<open>flatMap\<close> with the index of each element, counted from \<open>k\<close>.\<close>

fun flat_map_from :: "nat \<Rightarrow> (nat \<Rightarrow> 'a \<Rightarrow> 'b list) \<Rightarrow> 'a list \<Rightarrow> 'b list" where
  "flat_map_from k f [] = []"
| "flat_map_from k f (x # xs) = f k x @ flat_map_from (Suc k) f xs"

definition result_name :: "nat \<Rightarrow> jsstr" where
  "result_name index = js ''result-'' @ nat_digits index"

definition usable_item :: "browser \<Rightarrow> nat \<Rightarrow> response_item \<Rightarrow> generated_image list" where
  "usable_item b index item =
     (let usableUrl = usable_url b (it_url item);
          inspected = (if present (it_b64_json item) then inspectBase64Image (the (it_b64_json item)) else None)
      in if usableUrl = None \<and> inspected = None then []
         else [\<lparr>g_resultId = Some (result_name index), g_url = usableUrl,
                g_b64Json = (if inspected \<noteq> None then it_b64_json item else None), g_mime = inspected,
                g_renderable = Some True, g_revisedPrompt = it_revised_prompt item\<rparr>])"

definition parseGeneratedImages ::
  "browser \<Rightarrow> (jsval \<Rightarrow> generation_response option) \<Rightarrow> jsval \<Rightarrow> jsstr + generated_image list" where
  "parseGeneratedImages b parse_response response =
     (case parse_response response of
        None \<Rightarrow> Inl (js ''No images were generated'')
      | Some r \<Rightarrow>
          if present (rs_error r) then Inl (the (rs_error r))
          else
            let items = (case rs_data r of None \<Rightarrow> [] | Some xs \<Rightarrow> xs);
                usable = flat_map_from 0 (usable_item b) items
            in if usable = [] then Inl (js ''No images were generated'') else Inr usable)"

definition parse_image :: "browser \<Rightarrow> nat \<Rightarrow> generated_image \<Rightarrow> parsed_image list" where
  "parse_image b index i =
     (let name = (case g_resultId i of Some r \<Rightarrow> r | None \<Rightarrow> result_name index);
          usableUrl = usable_url b (g_url i);
          make = (\<lambda>mime_type shown.
            if usableUrl = None \<and> \<not> present (g_b64Json i) then []
            else [\<lparr>pi_resultId = name, pi_url = usableUrl,
                   pi_b64Json = (if usableUrl \<noteq> None then None else g_b64Json i),
                   pi_mime = (case mime_type of Some m \<Rightarrow> m | None \<Rightarrow> js ''image/png''),
                   pi_revisedPrompt = g_revisedPrompt i, pi_renderable = shown\<rparr>])
      in if usableUrl = None \<and> present (g_b64Json i) \<and> g_mime i = None then
           (case inspectBase64Image (the (g_b64Json i)) of
              None \<Rightarrow> []
            | Some m \<Rightarrow> make (Some m) (Some True))
         else if usableUrl \<noteq> None then make (g_mime i) (Some True)
         else make (g_mime i) (g_renderable i))"

definition parseImagesOnce :: "browser \<Rightarrow> generated_image list \<Rightarrow> parsed_image list" where
  "parseImagesOnce b shown_images = flat_map_from 0 (parse_image b) shown_images"

definition hasRenderableParsedImage :: "browser \<Rightarrow> parsed_image list \<Rightarrow> bool" where
  "hasRenderableParsedImage b shown_images = list_ex (isParsedImageRenderable b) shown_images"

definition visibleParsedImages :: "browser \<Rightarrow> parsed_image list \<Rightarrow> parsed_image list" where
  "visibleParsedImages b shown_images = filter (isParsedImageRenderable b) shown_images"

definition hasTemporaryParsedImage :: "parsed_image list \<Rightarrow> bool" where
  "hasTemporaryParsedImage shown_images = list_ex (\<lambda>i. present (pi_b64Json i) \<and> \<not> present (pi_url i)) shown_images"

end
