(* ===== verification/Image_Results_Properties.thy ===== *)
theory Image_Results_Properties
  imports Image_Results
begin

text \<open>
  What the recognition of base64 images and the reading of a response promise: the first
  sixteen characters decide what a full decoding would, and whatever is read from a response
  can be shown.
\<close>

section \<open>The scan\<close>

lemma padding_not_alphabet [simp]: "\<not> isBase64Alphabet 61"
  by (simp add: isBase64Alphabet_def)

lemma alphabet_not_space: "isBase64Alphabet c \<Longrightarrow> \<not> isAsciiWhitespace c"
  by (auto simp: isBase64Alphabet_def isAsciiWhitespace_def)

lemma compact_idem [simp]: "compactBase64ForDecode (compactBase64ForDecode s) = compactBase64ForDecode s"
  by (simp add: compactBase64ForDecode_def)

lemma padding_not_space [simp]: "\<not> isAsciiWhitespace 61"
  by (simp add: isAsciiWhitespace_def)

lemma scan_padding:
  "scan_base64 s a p pre = Some (a', p', pre') \<Longrightarrow> 0 < p \<Longrightarrow>
   \<exists>k. compactBase64ForDecode s = replicate k 61 \<and> p' = p + k \<and> a' = a \<and> pre' = pre \<and> (0 < k \<longrightarrow> p' \<le> 2)"
proof (induction s a p pre rule: scan_base64.induct)
  case (2 c s a p pre)
  show ?case
  proof (cases "isAsciiWhitespace c")
    case True
    then show ?thesis using 2 by (auto simp: compactBase64ForDecode_def)
  next
    case False
    then have c: "c = 61" "\<not> 2 < p + 1" "scan_base64 s a (p + 1) pre = Some (a', p', pre')"
      using 2(4,5) by (auto split: if_splits)
    then obtain k where "compactBase64ForDecode s = replicate k 61" "p' = p + 1 + k" "a' = a" "pre' = pre" "0 < k \<longrightarrow> p' \<le> 2"
      using 2(2) [OF False c(1,2,3)] by auto
    then show ?thesis using c(1,2) False by (intro exI [of _ "Suc k"]) (auto simp: compactBase64ForDecode_def)
  qed
qed (simp add: compactBase64ForDecode_def)

lemma scan_parts:
  "scan_base64 s a 0 pre = Some (a', p', pre') \<Longrightarrow> pre = take 16 seen \<Longrightarrow> length seen = a \<Longrightarrow> list_all isBase64Alphabet seen \<Longrightarrow>
   \<exists>t. seen @ compactBase64ForDecode s = t @ replicate p' 61 \<and> list_all isBase64Alphabet t \<and> length t = a' \<and>
     pre' = take 16 t \<and> p' \<le> 2"
proof (induction s arbitrary: a pre seen)
  case (Cons c s)
  show ?case
  proof (cases "isAsciiWhitespace c")
    case True
    then show ?thesis using Cons by (auto simp: compactBase64ForDecode_def)
  next
    case space: False
    show ?thesis
    proof (cases "c = 61")
      case True
      then have "scan_base64 s a 1 pre = Some (a', p', pre')" using Cons.prems(1) space by simp
      from scan_padding [OF this] obtain k where "compactBase64ForDecode s = replicate k 61" "p' = Suc k" "a' = a" "pre' = pre"
          "0 < k \<longrightarrow> p' \<le> 2" by auto
      then show ?thesis using Cons.prems True by (intro exI [of _ seen]) (auto simp: compactBase64ForDecode_def)
    next
      case False
      then have r: "isBase64Alphabet c" "scan_base64 s (a + 1) 0 (if length pre < 16 then pre @ [c] else pre) = Some (a', p', pre')"
        using Cons.prems(1) space by (auto simp: IMAGE_PREFIX_LIMIT_def split: if_splits)
      have "(if length pre < 16 then pre @ [c] else pre) = take 16 (seen @ [c])" using Cons.prems(2) by auto
      then show ?thesis
        using Cons.IH [OF r(2), of "seen @ [c]"] Cons.prems(3,4) r(1) space by (auto simp: compactBase64ForDecode_def)
    qed
  qed
qed (auto simp: compactBase64ForDecode_def)

section \<open>Decoding\<close>

lemma sextets_take: "sextets (take (4 * n) s) = take (3 * n) (sextets s)"
proof (induction s arbitrary: n rule: sextets.induct)
  case (1 a b c d s)
  show ?case
  proof (cases n)
    case (Suc k)
    have e: "4 * n = Suc (Suc (Suc (Suc (4 * k))))" "3 * n = Suc (Suc (Suc (3 * k)))" using Suc by auto
    show ?thesis unfolding e using "1.IH" [of k] by simp
  qed simp
next
  case (2 a b c)
  have "n = 0 \<or> 3 \<le> 4 * n \<and> 2 \<le> 3 * n" by linarith
  then show ?case by auto
next
  case (3 a b)
  have "n = 0 \<or> 2 \<le> 4 * n \<and> 1 \<le> 3 * n" by linarith
  then show ?case by auto
next
  case (4 a)
  then show ?case by (cases "4 * n") auto
qed auto

lemma ends_with_in: "ends_with s p \<Longrightarrow> c \<in> set p \<Longrightarrow> c \<in> set s"
  by (metis ends_with_def in_set_dropD)

lemma strip_plain: "list_all isBase64Alphabet t \<Longrightarrow> strip_padding t = t"
  using ends_with_in [of t "[61]" 61] ends_with_in [of t "[61, 61]" 61] padding_not_alphabet
  by (cases "61 \<in> set t") (auto simp: strip_padding_def list_all_iff)

lemma strip_padded:
  assumes "list_all isBase64Alphabet t" "p \<le> 2" "(length t + p) mod 4 = 0"
  shows "strip_padding (t @ replicate p 61) = t"
proof -
  consider "p = 0" | "p = 1" | "p = 2" using assms(2) by linarith
  then show ?thesis
  proof cases
    case 1
    then show ?thesis using strip_plain [OF assms(1)] by simp
  next
    case 2
    then have t: "t \<noteq> []" using assms(3) by auto
    then have "last t \<noteq> 61" using assms(1) padding_not_alphabet by (metis last_in_set list_all_iff)
    moreover have "drop (length t - 1) t = [last t]" using t by (cases t rule: rev_cases) auto
    ultimately show ?thesis using 2 assms(3) t by (simp add: strip_padding_def ends_with_def)
  next
    case 3
    then show ?thesis using assms(3) by (simp add: strip_padding_def ends_with_def numeral_2_eq_2)
  qed
qed

text \<open>What the scan accepts decodes as a whole and in its prefix, to the same first bytes.\<close>

lemma inspected_text:
  assumes "inspectBase64Image raw = Some m"
  shows "\<exists>bytes. atob (compactBase64ForDecode raw) = Some bytes \<and> mimeFromHeader (take 12 bytes) = Some m"
proof -
  obtain a p pre header where i: "scan_base64 raw 0 0 [] = Some (a, p, pre)" "p = 0 \<Longrightarrow> a mod 4 \<noteq> 1"
      "p \<noteq> 0 \<Longrightarrow> (a + p) mod 4 = 0" "decodePrefixHeader pre = Some header" "mimeFromHeader header = Some m"
    using assms by (auto simp: inspectBase64Image_def split: if_splits option.splits)
  obtain t where t: "compactBase64ForDecode raw = t @ replicate p 61" "list_all isBase64Alphabet t" "length t = a"
      "pre = take 16 t" "p \<le> 2"
    using scan_parts [OF i(1), of "[]"] by auto
  have space: "filter (\<lambda>c. \<not> isAsciiWhitespace c) u = u" if "list_all isBase64Alphabet u" for u
    using that alphabet_not_space by (auto simp: list_all_iff filter_id_conv)
  have len: "length t mod 4 \<noteq> 1"
  proof (cases "p = 0")
    case False
    then have "(length t + p) mod 4 = 0" "p = 1 \<or> p = 2" using i(3) t by auto
    then show ?thesis by presburger
  qed (use i(2) t(3) in simp)
  have "strip_padding (compactBase64ForDecode raw) = t"
    using strip_padded [OF t(2,5)] strip_plain [OF t(2)] i(3) t(1,3) by (cases "p = 0") auto
  then have whole: "atob (compactBase64ForDecode raw) = Some (sextets (map base64_value t))"
    using len t(2) compact_idem [of raw] by (simp add: atob_def Let_def compactBase64ForDecode_def)
  have pre: "list_all isBase64Alphabet pre" "length pre mod 4 \<noteq> 1"
    using t(2,4) len by (auto simp: list_all_iff min_def dest: in_set_takeD)
  have "atob pre = Some (sextets (map base64_value pre))"
    using pre space [OF pre(1)] strip_plain [OF pre(1)] by (simp add: atob_def Let_def)
  moreover have "sextets (map base64_value pre) = take 12 (sextets (map base64_value t))"
    using sextets_take [of 4 "map base64_value t"] t(4) by (simp add: take_map)
  ultimately have "header = take 12 (sextets (map base64_value t))"
    using i(4) by (auto simp: decodePrefixHeader_def HEADER_BYTE_LIMIT_def split: if_splits)
  then show ?thesis using whole i(5) by auto
qed

section \<open>Responses\<close>

lemma usable_url_trim: "usable_url b u = Some v \<Longrightarrow> v \<noteq> [] \<and> isUsableHttpUrl b v \<and> trim v = v"
  by (auto simp: usable_url_def isUsableHttpUrl_def trimmed_url_def Let_def split: if_splits option.splits)

text \<open>An image as \<open>parseGeneratedImages\<close> makes it.\<close>

definition displayable :: "browser \<Rightarrow> generated_image \<Rightarrow> bool" where
  "displayable b i \<longleftrightarrow> g_renderable i = Some True \<and>
     ((\<exists>u. g_url i = Some u \<and> u \<noteq> [] \<and> isUsableHttpUrl b u \<and> trim u = u) \<or>
      g_url i = None \<and> (\<exists>d m. g_b64Json i = Some d \<and> d \<noteq> [] \<and> g_mime i = Some m \<and> inspectBase64Image d = Some m))"

lemma usable_item_displayable: "i \<in> set (usable_item b n item) \<Longrightarrow> displayable b i"
  by (auto simp: usable_item_def displayable_def Let_def present_def dest: usable_url_trim split: if_splits option.splits)

lemma result_name_inject [simp]: "result_name m = result_name n \<longleftrightarrow> m = n"
  by (metis append_same_eq digits_val_nat_digits result_name_def same_append_eq)

lemma usable_item_names:
  "map g_resultId (usable_item b n item) = [] \<or> map g_resultId (usable_item b n item) = [Some (result_name n)]"
  by (simp add: usable_item_def Let_def)

lemma usable_names:
  "distinct (map g_resultId (flat_map_from k (usable_item b) items)) \<and>
   (\<forall>x\<in>set (flat_map_from k (usable_item b) items). \<exists>n\<ge>k. g_resultId x = Some (result_name n))"
proof (induction items arbitrary: k)
  case (Cons item items)
  let ?rest = "flat_map_from (Suc k) (usable_item b) items"
  have rest: "distinct (map g_resultId ?rest)" "\<forall>x\<in>set ?rest. \<exists>n\<ge>Suc k. g_resultId x = Some (result_name n)"
    using Cons.IH [of "Suc k"] by auto
  have "Some (result_name k) \<notin> g_resultId ` set ?rest" using rest(2) by fastforce
  moreover have "\<forall>x\<in>set ?rest. \<exists>n\<ge>k. g_resultId x = Some (result_name n)" using rest(2) Suc_leD by blast
  ultimately show ?case
    using rest(1) usable_item_names [of b k item] by (cases "usable_item b k item") auto
qed simp

lemma usable_displayable: "i \<in> set (flat_map_from k (usable_item b) items) \<Longrightarrow> displayable b i"
  by (induction items arbitrary: k) (auto dest: usable_item_displayable)

lemma parsed_displayable:
  assumes "displayable b i"
  shows "\<exists>p. parse_image b n i = [p] \<and> isParsedImageRenderable b p \<and> parsedImageSrc b p = imageSrc b i \<and> parsedImageSrc b p \<noteq> [] \<and>
    pi_resultId p = (case g_resultId i of Some r \<Rightarrow> r | None \<Rightarrow> result_name n)"
proof -
  consider (url) u where "g_url i = Some u" "u \<noteq> []" "isUsableHttpUrl b u" "trim u = u"
    | (data) d m where "g_renderable i = Some True" "g_url i = None" "g_b64Json i = Some d" "d \<noteq> []" "g_mime i = Some m"
      "inspectBase64Image d = Some m"
    using assms by (auto simp: displayable_def)
  then show ?thesis
  proof cases
    case url
    then have "usable_url b (g_url i) = Some u" "trimmed_url (g_url i) = u" by (auto simp: usable_url_def trimmed_url_def)
    then show ?thesis
      using url by (simp add: parse_image_def Let_def isParsedImageRenderable_def parsedImageSrc_def imageSrc_def
          trimmed_url_def present_def)
  next
    case data
    have none: "usable_url b (g_url i) = None" "\<not> isUsableHttpUrl b []"
      using data(2) by (auto simp: usable_url_def trimmed_url_def isUsableHttpUrl_def)
    moreover have "m \<noteq> []" using data(6) by (auto simp: inspectBase64Image_def mimeFromHeader_def split: if_splits option.splits)
    ultimately show ?thesis
      using data by (simp add: parse_image_def Let_def isParsedImageRenderable_def parsedImageSrc_def imageSrc_def
          trimmed_url_def present_def data_url_def)
  qed
qed

lemma parsed_images:
  "(\<And>i. i \<in> set gs \<Longrightarrow> displayable b i \<and> g_resultId i \<noteq> None) \<Longrightarrow> ps = flat_map_from k (parse_image b) gs \<Longrightarrow>
   map (parsedImageSrc b) ps = map (imageSrc b) gs \<and> map pi_resultId ps = map (the \<circ> g_resultId) gs \<and>
   list_all (\<lambda>p. isParsedImageRenderable b p \<and> parsedImageSrc b p \<noteq> []) ps"
proof (induction gs arbitrary: k ps)
  case (Cons i gs)
  obtain p where p: "parse_image b k i = [p]" "isParsedImageRenderable b p" "parsedImageSrc b p = imageSrc b i"
      "parsedImageSrc b p \<noteq> []" "pi_resultId p = the (g_resultId i)"
    using parsed_displayable [of b i k] Cons.prems(1) [of i] by auto
  then show ?case using Cons.IH [OF _ refl, of "Suc k"] Cons.prems by simp
qed simp

section \<open>Properties\<close>

text \<open>C24: The recognition of a base64 image from its first sixteen characters is what a full
  decoding finds: a recognised text decodes completely, to bytes that start with the
  signature of the reported type, and a text that is not recognised is never decoded.\<close>

theorem inspection_matches_decoding:
  "case inspectBase64Image raw of
     None \<Rightarrow> decodeRenderableBase64 raw = None
   | Some m \<Rightarrow> \<exists>bytes. decodeRenderableBase64 raw = Some (bytes, m) \<and> mimeFromHeader (take 12 bytes) = Some m"
proof (cases "inspectBase64Image raw")
  case (Some m)
  obtain bytes where b: "atob (compactBase64ForDecode raw) = Some bytes" "mimeFromHeader (take 12 bytes) = Some m"
    using inspected_text [OF Some] by blast
  then have "bytes \<noteq> []" by (auto simp: mimeFromHeader_def)
  then show ?thesis using Some b by (simp add: decodeRenderableBase64_def)
qed (simp add: decodeRenderableBase64_def)

text \<open>Whatever is read from a response of the server is shown: there is at least one image,
  the identifiers are distinct, the second reading keeps every image with its identifier and
  the same source, no source is empty, and none is filtered out as not renderable.\<close>

theorem generated_images_shown:
  assumes "parseGeneratedImages b parse_response response = Inr gs"
  shows "gs \<noteq> [] \<and> distinct (map g_resultId gs) \<and>
    map pi_resultId (parseImagesOnce b gs) = map (the \<circ> g_resultId) gs \<and>
    map (parsedImageSrc b) (parseImagesOnce b gs) = map (imageSrc b) gs \<and> [] \<notin> set (map (imageSrc b) gs) \<and>
    visibleParsedImages b (parseImagesOnce b gs) = parseImagesOnce b gs"
proof -
  obtain items where gs: "gs = flat_map_from 0 (usable_item b) items" "gs \<noteq> []"
    using assms by (auto simp: parseGeneratedImages_def Let_def split: option.splits if_splits)
  have names: "distinct (map g_resultId gs)" "\<forall>x\<in>set gs. g_resultId x \<noteq> None"
    using usable_names [of 0 b items] gs(1) by auto
  then have p: "map (parsedImageSrc b) (parseImagesOnce b gs) = map (imageSrc b) gs"
      "map pi_resultId (parseImagesOnce b gs) = map (the \<circ> g_resultId) gs"
      "list_all (\<lambda>p. isParsedImageRenderable b p \<and> parsedImageSrc b p \<noteq> []) (parseImagesOnce b gs)"
    using parsed_images [of gs b "parseImagesOnce b gs" 0] usable_displayable gs(1) by (auto simp: parseImagesOnce_def)
  have "[] \<notin> set (map (parsedImageSrc b) (parseImagesOnce b gs))" using p(3) by (auto simp: list_all_iff)
  moreover have "visibleParsedImages b (parseImagesOnce b gs) = parseImagesOnce b gs"
    using p(3) by (auto simp: visibleParsedImages_def list_all_iff filter_id_conv)
  ultimately show ?thesis using gs(2) names(1) p(1,2) by auto
qed

definition offline :: browser where
  "offline = \<lparr>date_parse = (\<lambda>_. None), iso = (\<lambda>_. []), url_parse = (\<lambda>_. None)\<rparr>"

definition png_response :: "jsval \<Rightarrow> generation_response option" where
  "png_response v = Some \<lparr>rs_error = None,
     rs_data = Some [\<lparr>it_url = None, it_b64_json = Some (js ''iVBORw0KGgo=''), it_revised_prompt = None\<rparr>]\<rparr>"

lemma png_inspected: "inspectBase64Image (js ''iVBORw0KGgo='') = Some (js ''image/png'')"
  by (simp add: inspectBase64Image_def isAsciiWhitespace_def isBase64Alphabet_def IMAGE_PREFIX_LIMIT_def
      decodePrefixHeader_def atob_def strip_padding_def mimeFromHeader_def HEADER_BYTE_LIMIT_def base64_value_def js_eval)

lemma png_generated: "\<exists>gs. parseGeneratedImages offline png_response JNull = Inr gs"
  by (simp add: parseGeneratedImages_def png_response_def usable_item_def png_inspected present_def Let_def)

theorem generated_images_shown_witness:
  "\<exists>gs. parseGeneratedImages offline png_response JNull = Inr gs \<and> gs \<noteq> [] \<and>
     visibleParsedImages offline (parseImagesOnce offline gs) = parseImagesOnce offline gs"
proof -
  obtain gs where "parseGeneratedImages offline png_response JNull = Inr gs" using png_generated by blast
  with generated_images_shown [OF this] show ?thesis by blast
qed

end
