(* ===== verification/Image_Requests.thy ===== *)
theory Image_Requests
  imports Image_Types
begin

text \<open>
  The request side of the image playground: model profiles (\<open>types.ts\<close>), sizes
  (\<open>lib/size.ts\<close>), parameters (\<open>lib/params.ts\<close>), the checks of the form
  (\<open>lib/form-schema.ts\<close>), reference images (\<open>lib/reference-images.ts\<close>) and the payload
  that is sent (\<open>lib/payload.ts\<close>).  Unicode lower casing is a parameter of the functions
  that need it.
\<close>

section \<open>Profiles\<close>

record int_range =
  range_min :: jsnum
  range_max :: jsnum
  range_default :: jsnum

record aspect_ratio =
  ar_width :: jsnum
  ar_height :: jsnum

record model_profile =
  mp_sizes :: "jsstr list"
  mp_defaultSize :: jsstr
  mp_supportsAutoSize :: bool
  mp_supportsCustomSize :: bool
  mp_nRange :: int_range
  mp_maxReferenceImages :: jsnum
  mp_supportsNegativePrompt :: bool
  mp_maxNegativePromptChars :: jsnum
  mp_supportsSeed :: bool
  mp_seedRange :: "int_range option"
  mp_supportsWatermark :: bool
  mp_defaultWatermark :: "bool option"
  mp_supportsPromptExtend :: bool
  mp_defaultPromptExtend :: "bool option"
  mp_supportsPromptExtendMode :: bool
  mp_defaultPromptExtendMode :: "jsstr option"
  mp_supportsThinkingMode :: bool
  mp_defaultThinkingMode :: "bool option"
  mp_thinkingRequiresExtend :: bool
  mp_agentRequiresNoRefs :: bool
  mp_allowedReferenceMimeTypes :: "jsstr list option"
  mp_minPixels :: "jsnum option"
  mp_maxPixels :: "jsnum option"
  mp_maxPixelsWithRefs :: "jsnum option"
  mp_minAspectRatio :: "aspect_ratio option"
  mp_maxAspectRatio :: "aspect_ratio option"

text \<open>An optional number that is truthy: neither missing, nor zero, nor \<open>NaN\<close>.\<close>

definition given :: "jsnum option \<Rightarrow> jsnum option" where
  "given v = (case v of Some n \<Rightarrow> if truthy (JNum n) then Some n else None | None \<Rightarrow> None)"

section \<open>Sizes\<close>

definition MAX_SAFE_DIMENSION :: jsnum where
  "MAX_SAFE_DIMENSION = Fin 100000"

definition digit_run :: "jsstr \<Rightarrow> bool" where
  "digit_run s \<longleftrightarrow> s \<noteq> [] \<and> list_all is_digit s"

text \<open>The pattern is two runs of digits around an \<open>x\<close>.\<close>

definition parseWidthHeight :: "jsstr \<Rightarrow> (jsnum \<times> jsnum) option" where
  "parseWidthHeight size_text =
     (case index_of 120 size_text of
        None \<Rightarrow> None
      | Some separator \<Rightarrow>
          if \<not> digit_run (take separator size_text) \<or> \<not> digit_run (drop (Suc separator) size_text) then None
          else
            let width = string_number (take separator size_text);
                height = string_number (drop (Suc separator) size_text)
            in if \<not> is_integer width \<or> \<not> is_integer height \<or> le_num width (Fin 0) \<or> le_num height (Fin 0)
               then None else Some (width, height))"

definition multiplyPixels :: "jsnum \<Rightarrow> jsnum \<Rightarrow> jsnum option" where
  "multiplyPixels width height =
     (if \<not> is_integer width \<or> \<not> is_integer height \<or> le_num width (Fin 0) \<or> le_num height (Fin 0) \<or>
         lt_num MAX_SAFE_DIMENSION width \<or> lt_num MAX_SAFE_DIMENSION height then None
      else let pixels = mul_num width height in if \<not> is_safe_integer pixels then None else Some pixels)"

definition isPresetSize :: "jsstr \<Rightarrow> model_profile \<Rightarrow> bool" where
  "isPresetSize size_text profile \<longleftrightarrow> size_text \<in> set (mp_sizes profile)"

definition aspectAtLeast :: "jsnum \<Rightarrow> jsnum \<Rightarrow> aspect_ratio \<Rightarrow> bool" where
  "aspectAtLeast width height a = le_num (mul_num height (ar_width a)) (mul_num width (ar_height a))"

definition aspectAtMost :: "jsnum \<Rightarrow> jsnum \<Rightarrow> aspect_ratio \<Rightarrow> bool" where
  "aspectAtMost width height a = le_num (mul_num width (ar_height a)) (mul_num height (ar_width a))"

definition pixel_limit :: "model_profile \<Rightarrow> bool \<Rightarrow> jsnum option" where
  "pixel_limit profile hasRefs =
     (case given (mp_maxPixelsWithRefs profile) of
        Some n \<Rightarrow> if hasRefs \<and> lt_num (Fin 0) n then Some n else given (mp_maxPixels profile)
      | None \<Rightarrow> given (mp_maxPixels profile))"

definition customSizeError ::
  "jsnum option \<Rightarrow> jsnum option \<Rightarrow> model_profile \<Rightarrow> bool \<Rightarrow> jsstr option" where
  "customSizeError width height profile hasRefs =
     (case (width, height) of
        (Some w, Some h) \<Rightarrow>
          (case multiplyPixels w h of
             None \<Rightarrow> Some (js ''Enter a valid custom size'')
           | Some pixels \<Rightarrow>
               if (case given (mp_minPixels profile) of Some n \<Rightarrow> lt_num pixels n | None \<Rightarrow> False)
               then Some (js ''Custom size is below the minimum pixel count'')
               else if (case pixel_limit profile hasRefs of Some n \<Rightarrow> lt_num n pixels | None \<Rightarrow> False)
               then Some (js ''Custom size exceeds the maximum pixel count'')
               else if (case mp_minAspectRatio profile of Some a \<Rightarrow> \<not> aspectAtLeast w h a | None \<Rightarrow> False)
               then Some (js ''Custom size aspect ratio is out of range'')
               else if (case mp_maxAspectRatio profile of Some a \<Rightarrow> \<not> aspectAtMost w h a | None \<Rightarrow> False)
               then Some (js ''Custom size aspect ratio is out of range'')
               else None)
      | _ \<Rightarrow> Some (js ''Enter a valid custom size''))"

definition isCustomSizeValid ::
  "jsnum option \<Rightarrow> jsnum option \<Rightarrow> model_profile \<Rightarrow> bool \<Rightarrow> bool" where
  "isCustomSizeValid width height profile hasRefs \<longleftrightarrow> customSizeError width height profile hasRefs = None"

definition dimension_text :: "jsnum option \<Rightarrow> jsstr" where
  "dimension_text d = (case d of None \<Rightarrow> js ''null'' | Some n \<Rightarrow> num_text n)"

definition resolvedImageSize :: "generation_params \<Rightarrow> jsstr" where
  "resolvedImageSize params =
     (if sizeMode params = js ''custom''
      then dimension_text (customWidth params) @ js ''x'' @ dimension_text (customHeight params)
      else p_size params)"

section \<open>Parameters\<close>

definition paramsFromProfile :: "model_profile \<Rightarrow> generation_params" where
  "paramsFromProfile profile =
     \<lparr>p_size = mp_defaultSize profile,
      sizeMode = (if mp_supportsAutoSize profile \<and> mp_defaultSize profile = js ''Auto'' then js ''auto'' else js ''preset''),
      customWidth = None, customHeight = None,
      p_n = range_default (mp_nRange profile),
      negativePrompt = [], seed = None,
      watermark = (mp_defaultWatermark profile = Some True),
      promptExtend = (mp_defaultPromptExtend profile = Some True),
      promptExtendMode = (case mp_defaultPromptExtendMode profile of Some m \<Rightarrow> m | None \<Rightarrow> js ''direct''),
      thinkingMode = (mp_defaultThinkingMode profile = Some True)\<rparr>"

definition reset_size :: "generation_params \<Rightarrow> model_profile \<Rightarrow> generation_params \<Rightarrow> generation_params" where
  "reset_size current profile params =
     (if sizeMode current = js ''auto'' \<and> mp_supportsAutoSize profile
      then params\<lparr>sizeMode := js ''auto'', p_size := mp_defaultSize profile\<rparr>
      else if sizeMode current = js ''custom'' \<and> mp_supportsCustomSize profile
      then (if isCustomSizeValid (customWidth current) (customHeight current) profile False
            then params\<lparr>sizeMode := js ''custom'', customWidth := customWidth current, customHeight := customHeight current\<rparr>
            else params)
      else if isPresetSize (p_size current) profile
      then params\<lparr>p_size := p_size current, sizeMode := js ''preset''\<rparr>
      else params)"

definition resetParamsForProfile :: "generation_params \<Rightarrow> model_profile \<Rightarrow> generation_params" where
  "resetParamsForProfile current profile =
     (let p0 = paramsFromProfile profile;
          p1 = reset_size current profile p0;
          p2 = (if le_num (range_min (mp_nRange profile)) (p_n current) \<and> le_num (p_n current) (range_max (mp_nRange profile))
                then p1\<lparr>p_n := p_n current\<rparr> else p1);
          p3 = (if mp_supportsNegativePrompt profile then p2\<lparr>negativePrompt := negativePrompt current\<rparr> else p2);
          p4 = (if mp_supportsSeed profile then p3\<lparr>seed := seed current\<rparr> else p3);
          p5 = (if mp_supportsWatermark profile then p4\<lparr>watermark := watermark current\<rparr> else p4);
          p6 = (if mp_supportsPromptExtend profile then p5\<lparr>promptExtend := promptExtend current\<rparr> else p5);
          p7 = (if mp_supportsPromptExtendMode profile then p6\<lparr>promptExtendMode := promptExtendMode current\<rparr>
                else p6\<lparr>promptExtendMode := js ''direct''\<rparr>)
      in if mp_supportsThinkingMode profile then p7\<lparr>thinkingMode := thinkingMode current\<rparr> else p7)"

section \<open>The form\<close>

type_synonym form_issue = "string \<times> jsstr"

definition issue_if :: "bool \<Rightarrow> string \<Rightarrow> string \<Rightarrow> form_issue list" where
  "issue_if bad path message = (if bad then [(path, js message)] else [])"

definition size_issues :: "model_profile \<Rightarrow> generation_params \<Rightarrow> form_issue list" where
  "size_issues profile v =
     (if sizeMode v = js ''auto''
      then issue_if (\<not> mp_supportsAutoSize profile) ''size'' ''Auto size is not supported by this model''
      else if sizeMode v = js ''custom'' then
        (if \<not> mp_supportsCustomSize profile then [(''size'', js ''Size is not supported'')]
         else
           (case customSizeError (customWidth v) (customHeight v) profile False of
              Some message \<Rightarrow> [(''customWidth'', message), (''customHeight'', message)]
            | None \<Rightarrow> []))
      else issue_if (\<not> isPresetSize (p_size v) profile) ''size'' ''Size is not supported'')"

definition out_of :: "int_range \<Rightarrow> jsnum \<Rightarrow> bool" where
  "out_of r n \<longleftrightarrow> lt_num n (range_min r) \<or> lt_num (range_max r) n"

definition seed_out :: "model_profile \<Rightarrow> generation_params \<Rightarrow> bool" where
  "seed_out profile v \<longleftrightarrow> mp_supportsSeed profile \<and>
     (case (seed v, mp_seedRange profile) of (Some n, Some r) \<Rightarrow> out_of r n | _ \<Rightarrow> False)"

definition negative_prompt_long :: "model_profile \<Rightarrow> generation_params \<Rightarrow> bool" where
  "negative_prompt_long profile v \<longleftrightarrow> mp_supportsNegativePrompt profile \<and>
     lt_num (Fin 0) (mp_maxNegativePromptChars profile) \<and>
     lt_num (mp_maxNegativePromptChars profile) (Fin (of_nat (length (negativePrompt v))))"

definition buildImageFormSchema :: "model_profile option \<Rightarrow> jsstr \<Rightarrow> generation_params \<Rightarrow> form_issue list" where
  "buildImageFormSchema profile prompt v =
     issue_if (trim prompt = []) ''prompt'' ''Prompt is required'' @
     (case profile of
        None \<Rightarrow> [(''size'', js ''Select a model'')]
      | Some p \<Rightarrow>
          size_issues p v @
          issue_if (out_of (mp_nRange p) (p_n v)) ''n'' ''Number of images is out of range'' @
          issue_if (negative_prompt_long p v) ''negativePrompt'' ''Negative prompt is too long'' @
          issue_if (seed_out p v) ''seed'' ''Seed is out of range'' @
          issue_if (mp_thinkingRequiresExtend p \<and> thinkingMode v \<and> \<not> promptExtend v) ''thinkingMode''
            ''Enable thinking requires prompt extend'')"

section \<open>Reference images\<close>

record chosen_image =
  ri_id :: jsstr
  ri_name :: jsstr
  ri_mimeType :: jsstr
  ri_dataUrl :: jsstr
  ri_size :: "jsnum option"

record picked_file =
  file_name :: jsstr
  file_type :: jsstr
  file_size :: jsnum
  lastModified :: jsnum

definition PREVIEWABLE_REFERENCE_MIMES :: "jsstr list" where
  "PREVIEWABLE_REFERENCE_MIMES =
     map js [''image/jpeg'', ''image/jpg'', ''image/png'', ''image/webp'', ''image/gif'', ''image/bmp'']"

definition DEFAULT_REFERENCE_MIME_TYPES :: "jsstr list" where
  "DEFAULT_REFERENCE_MIME_TYPES = map js [''image/png'', ''image/jpeg'', ''image/webp'']"

definition MAX_SINGLE_REFERENCE_BYTES :: jsnum where
  "MAX_SINGLE_REFERENCE_BYTES = Fin 10485760"

definition MAX_TOTAL_REFERENCE_BYTES :: jsnum where
  "MAX_TOTAL_REFERENCE_BYTES = Fin 31457280"

definition normalizeReferenceMime :: "(jsstr \<Rightarrow> jsstr) \<Rightarrow> jsstr \<Rightarrow> jsstr" where
  "normalizeReferenceMime lower mime_type =
     (let normalized = lower (trim mime_type)
      in if normalized = js ''image/jpg'' then js ''image/jpeg'' else normalized)"

definition allowed_reference_types :: "model_profile \<Rightarrow> jsstr list" where
  "allowed_reference_types profile =
     (case mp_allowedReferenceMimeTypes profile of
        Some types \<Rightarrow> if types \<noteq> [] then types else DEFAULT_REFERENCE_MIME_TYPES
      | None \<Rightarrow> DEFAULT_REFERENCE_MIME_TYPES)"

definition isAcceptedReferenceMimeType :: "(jsstr \<Rightarrow> jsstr) \<Rightarrow> jsstr \<Rightarrow> model_profile \<Rightarrow> bool" where
  "isAcceptedReferenceMimeType lower mime_type profile =
     list_ex (\<lambda>allowed. normalizeReferenceMime lower allowed = normalizeReferenceMime lower mime_type)
       (allowed_reference_types profile)"

definition referenceFileAccept :: "model_profile \<Rightarrow> jsstr" where
  "referenceFileAccept profile =
     (let types = allowed_reference_types profile;
          extras = (if js ''image/tiff'' \<in> set types then [js ''.tif'', js ''.tiff''] else []) @
            (if js ''image/bmp'' \<in> set types then [js ''.bmp''] else [])
      in join (js '','') (types @ extras))"

definition referenceMimeErrorMessage :: "model_profile \<Rightarrow> jsstr" where
  "referenceMimeErrorMessage profile =
     (let types = allowed_reference_types profile in
      if js ''image/tiff'' \<in> set types \<or> js ''image/bmp'' \<in> set types \<or> js ''image/gif'' \<in> set types
      then js ''Reference images must be JPEG, PNG, BMP, TIFF, WebP, or GIF''
      else js ''Reference images must be PNG, JPEG, or WebP'')"

definition canPreviewReferenceMime :: "(jsstr \<Rightarrow> jsstr) \<Rightarrow> jsstr \<Rightarrow> bool" where
  "canPreviewReferenceMime lower mime_type \<longleftrightarrow> normalizeReferenceMime lower mime_type \<in> set PREVIEWABLE_REFERENCE_MIMES"

definition validateReferenceFile ::
  "(jsstr \<Rightarrow> jsstr) \<Rightarrow> picked_file \<Rightarrow> model_profile \<Rightarrow> jsnum \<Rightarrow> jsnum \<Rightarrow> jsstr option" where
  "validateReferenceFile lower f profile currentCount currentTotalBytes =
     (if le_num (mp_maxReferenceImages profile) (Fin 0) then Some (js ''This model does not support reference images'')
      else if le_num (mp_maxReferenceImages profile) currentCount then Some (js ''Too many reference images'')
      else if \<not> isAcceptedReferenceMimeType lower (file_type f) profile then Some (referenceMimeErrorMessage profile)
      else if lt_num MAX_SINGLE_REFERENCE_BYTES (file_size f) then Some (js ''Reference image exceeds the 10 MB limit'')
      else if lt_num MAX_TOTAL_REFERENCE_BYTES (add_num currentTotalBytes (file_size f))
      then Some (js ''Total reference images exceed the 30 MB limit'')
      else None)"

definition createReferenceImage :: "picked_file \<Rightarrow> jsstr \<Rightarrow> chosen_image" where
  "createReferenceImage f url_text =
     \<lparr>ri_id = file_name f @ js ''-'' @ num_text (file_size f) @ js ''-'' @ num_text (lastModified f),
      ri_name = file_name f, ri_mimeType = file_type f, ri_dataUrl = url_text, ri_size = Some (file_size f)\<rparr>"

section \<open>The payload\<close>

datatype payload_image = One_image jsstr | Many_images "jsstr list"

record generation_payload =
  pl_model :: jsstr
  pl_group :: jsstr
  pl_prompt :: jsstr
  pl_n :: jsnum
  pl_size :: "jsstr option"
  pl_response_format :: jsstr
  pl_image :: "payload_image option"
  pl_negative_prompt :: "jsstr option"
  pl_seed :: "jsnum option"
  pl_watermark :: "bool option"
  pl_prompt_extend :: "bool option"
  pl_prompt_extend_mode :: "jsstr option"
  pl_thinking_mode :: "bool option"

definition payload_images :: "model_profile \<Rightarrow> chosen_image list \<Rightarrow> payload_image option" where
  "payload_images profile references =
     (if lt_num (Fin 0) (mp_maxReferenceImages profile) \<and> references \<noteq> [] then
        (let urls = filter (\<lambda>u. u \<noteq> []) (map (\<lambda>r. trim (ri_dataUrl r)) references)
         in case urls of [] \<Rightarrow> None | [u] \<Rightarrow> Some (One_image u) | _ \<Rightarrow> Some (Many_images urls))
      else None)"

definition buildImageGenerationPayload ::
  "jsstr \<Rightarrow> jsstr \<Rightarrow> jsstr \<Rightarrow> generation_params \<Rightarrow> model_profile \<Rightarrow> chosen_image list \<Rightarrow> generation_payload" where
  "buildImageGenerationPayload model_name group_name prompt params profile references =
     \<lparr>pl_model = model_name, pl_group = group_name, pl_prompt = prompt, pl_n = p_n params,
      pl_size = (if sizeMode params \<noteq> js ''auto'' then Some (resolvedImageSize params) else None),
      pl_response_format = js ''url'',
      pl_image = payload_images profile references,
      pl_negative_prompt =
        (if mp_supportsNegativePrompt profile \<and> negativePrompt params \<noteq> [] then Some (negativePrompt params) else None),
      pl_seed = (if mp_supportsSeed profile then seed params else None),
      pl_watermark = (if mp_supportsWatermark profile then Some (watermark params) else None),
      pl_prompt_extend = (if mp_supportsPromptExtend profile then Some (promptExtend params) else None),
      pl_prompt_extend_mode = (if mp_supportsPromptExtendMode profile then Some (promptExtendMode params) else None),
      pl_thinking_mode = (if mp_supportsThinkingMode profile then Some (thinkingMode params) else None)\<rparr>"

end
