(* ===== verification/Image_Requests_Properties.thy ===== *)
theory Image_Requests_Properties
  imports Image_Requests Js_Number_Text
begin

text \<open>
  What the checks of the image form promise of the request that is sent, and that changing
  the model leaves parameters the form accepts.
\<close>

section \<open>Dimensions\<close>





section \<open>Accepted requests\<close>

lemma pixel_product:
  assumes "1 \<le> i" "i \<le> 100000" "1 \<le> j" "j \<le> 100000"
  shows "mul_num (Fin (of_int i)) (Fin (of_int j)) = Fin (of_int (i * j))"
proof -
  have "i * j \<le> 100000 * 100000" using assms by (intro mult_mono) auto
  then have "to_double (of_int (i * j)) = Fin (of_int (i * j))"
    using assms by (intro to_double_of_int) (simp add: abs_mult)
  then show ?thesis using assms by (simp add: mul_num_def is_zero_def Let_def)
qed





lemma issue_if_Nil [simp]: "issue_if bad path message = [] \<longleftrightarrow> \<not> bad"
  by (simp add: issue_if_def)





section \<open>Changing the model\<close>

text \<open>A profile whose defaults are among what it offers.\<close>

definition profile_consistent :: "model_profile \<Rightarrow> bool" where
  "profile_consistent profile \<longleftrightarrow>
     (mp_defaultSize profile \<in> set (mp_sizes profile) \<or> mp_supportsAutoSize profile \<and> mp_defaultSize profile = js ''Auto'') \<and>
     \<not> out_of (mp_nRange profile) (range_default (mp_nRange profile))"

lemma reset_fields:
  "sizeMode (resetParamsForProfile current profile) = sizeMode (reset_size current profile (paramsFromProfile profile))"
  "p_size (resetParamsForProfile current profile) = p_size (reset_size current profile (paramsFromProfile profile))"
  "customWidth (resetParamsForProfile current profile) = customWidth (reset_size current profile (paramsFromProfile profile))"
  "customHeight (resetParamsForProfile current profile) = customHeight (reset_size current profile (paramsFromProfile profile))"
  by (simp_all add: resetParamsForProfile_def Let_def)

lemma not_less_if_le: "le_num a b \<Longrightarrow> \<not> lt_num b a"
  by (cases a; cases b) (auto simp: le_num_def)

text \<open>Changing the model leaves a size and a number of images the form accepts, whatever was
  chosen before: for a profile whose own defaults are consistent, the parameters after the
  change raise no issue about the size, the custom width or height, or the number.\<close>

theorem reset_params_accepted:
  assumes "profile_consistent profile"
  shows "size_issues profile (resetParamsForProfile current profile) = [] \<and>
    \<not> out_of (mp_nRange profile) (p_n (resetParamsForProfile current profile))"
proof
  show "size_issues profile (resetParamsForProfile current profile) = []"
    using assms unfolding size_issues_def reset_fields
    by (auto simp: reset_size_def paramsFromProfile_def profile_consistent_def isCustomSizeValid_def isPresetSize_def)
  have "p_n (reset_size current profile p) = p_n p" for p by (simp add: reset_size_def)
  then show "\<not> out_of (mp_nRange profile) (p_n (resetParamsForProfile current profile))"
    using assms not_less_if_le
    by (auto simp: resetParamsForProfile_def Let_def paramsFromProfile_def profile_consistent_def out_of_def)
qed

section \<open>An example\<close>

definition sample_profile :: model_profile where
  "sample_profile =
     \<lparr>mp_sizes = [js ''1024x1024''], mp_defaultSize = js ''1024x1024'', mp_supportsAutoSize = False,
      mp_supportsCustomSize = True, mp_nRange = \<lparr>range_min = Fin 1, range_max = Fin 4, range_default = Fin 1\<rparr>,
      mp_maxReferenceImages = Fin 3, mp_supportsNegativePrompt = False, mp_maxNegativePromptChars = Fin 0,
      mp_supportsSeed = False, mp_seedRange = None, mp_supportsWatermark = False, mp_defaultWatermark = None,
      mp_supportsPromptExtend = False, mp_defaultPromptExtend = None, mp_supportsPromptExtendMode = False,
      mp_defaultPromptExtendMode = None, mp_supportsThinkingMode = False, mp_defaultThinkingMode = None,
      mp_thinkingRequiresExtend = False, mp_agentRequiresNoRefs = False, mp_allowedReferenceMimeTypes = None,
      mp_minPixels = None, mp_maxPixels = Some (Fin 4194304), mp_maxPixelsWithRefs = Some (Fin 1048576),
      mp_minAspectRatio = None, mp_maxAspectRatio = None\<rparr>"

definition sample_params :: generation_params where
  "sample_params = (paramsFromProfile sample_profile)\<lparr>sizeMode := js ''custom'',
     customWidth := Some (Fin 2000), customHeight := Some (Fin 1000)\<rparr>"

lemma sample_pixels: "multiplyPixels (Fin 2000) (Fin 1000) = Some (Fin 2000000)"
  using pixel_product [of 2000 1000]
  by (simp add: multiplyPixels_def is_integer_def is_safe_integer_def le_num_def MAX_SAFE_DIMENSION_def Let_def)

lemma sample_accepted: "buildImageFormSchema (Some sample_profile) (js ''a cat'') sample_params = []"
  by (simp add: buildImageFormSchema_def size_issues_def sample_params_def paramsFromProfile_def sample_profile_def
      customSizeError_def sample_pixels given_def pixel_limit_def out_of_def negative_prompt_long_def seed_out_def trim_eq_Nil_iff
      js_eval is_space_def del: js_inject)


lemma sample_consistent: "profile_consistent sample_profile"
  by (simp add: profile_consistent_def sample_profile_def out_of_def)

theorem reset_params_accepted_witness:
  "size_issues sample_profile (resetParamsForProfile sample_params sample_profile) = [] \<and>
   \<not> out_of (mp_nRange sample_profile) (p_n (resetParamsForProfile sample_params sample_profile))"
  using reset_params_accepted [OF sample_consistent] .

text \<open>The form never applies the pixel limit for requests with reference images: it accepts a size
  which that limit excludes.\<close>

lemma reference_limit_unchecked:
  "buildImageFormSchema (Some sample_profile) (js ''a cat'') sample_params = [] \<and>
   customSizeError (customWidth sample_params) (customHeight sample_params) sample_profile True \<noteq> None"
proof
  show "customSizeError (customWidth sample_params) (customHeight sample_params) sample_profile True \<noteq> None"
    by (simp add: sample_params_def sample_profile_def customSizeError_def sample_pixels given_def pixel_limit_def is_zero_def)
qed (rule sample_accepted)

end
