(* ===== verification/Auth_Store.thy ===== *)
theory Auth_Store
  imports Js_Value
begin

text \<open>
  The authentication store (\<open>web/src/stores/auth-store.ts\<close>), the type guards for what the
  server sends (\<open>web/src/lib/auth-session.ts\<close>), the session hint cookie
  (\<open>web/src/lib/session-hint.ts\<close>) and the events tabs exchange
  (\<open>web/src/lib/auth-session-sync.ts\<close>).  A user is kept as the object the server sent.
\<close>

section \<open>Data\<close>

record login_session =
  sid :: jsstr
  current :: bool
  login_method :: jsstr
  ip :: jsstr
  user_agent :: jsstr
  created_at :: jsnum
  last_active_at :: jsnum
  expires_at :: jsnum

record auth_bundle =
  access_token :: jsstr
  token_type :: jsstr
  access_expires_at :: jsnum
  b_user :: jsval
  b_session :: login_session
  signup_completed :: bool

datatype bootstrap_state = Idle | Checking | Checked

record auth_state =
  a_user :: "jsval option"
  accessToken :: "jsstr option"
  accessExpiresAt :: "jsnum option"
  a_session :: "login_session option"
  pendingLoginVerification :: "jsval option"
  bootstrapState :: bootstrap_state

definition initial_auth :: auth_state where
  "initial_auth = \<lparr>a_user = None, accessToken = None, accessExpiresAt = None, a_session = None,
     pendingLoginVerification = None, bootstrapState = Idle\<rparr>"

section \<open>Operations of the store\<close>

definition setBundle :: "auth_bundle \<Rightarrow> auth_state \<Rightarrow> auth_state" where
  "setBundle bundle s = s\<lparr>a_user := Some (b_user bundle), accessToken := Some (access_token bundle),
     accessExpiresAt := Some (access_expires_at bundle), a_session := Some (b_session bundle),
     pendingLoginVerification := None, bootstrapState := Checked\<rparr>"

definition user_key :: "jsval option \<Rightarrow> jsval" where
  "user_key u = (case u of None \<Rightarrow> JUndef | Some v \<Rightarrow> field v ''id'')"

definition setUser :: "jsval option \<Rightarrow> auth_state \<Rightarrow> auth_state" where
  "setUser u s = s\<lparr>a_user := u, pendingLoginVerification :=
     (if strict_eq (user_key (a_user s)) (user_key u) then pendingLoginVerification s else None)\<rparr>"

definition setPendingLoginVerification :: "jsval option \<Rightarrow> auth_state \<Rightarrow> auth_state" where
  "setPendingLoginVerification p s = s\<lparr>pendingLoginVerification := p\<rparr>"

definition setBootstrapState :: "bootstrap_state \<Rightarrow> auth_state \<Rightarrow> auth_state" where
  "setBootstrapState st s = s\<lparr>bootstrapState := st\<rparr>"

definition reset :: "bootstrap_state \<Rightarrow> auth_state \<Rightarrow> auth_state" where
  "reset st s = s\<lparr>a_user := None, accessToken := None, accessExpiresAt := None, a_session := None,
     pendingLoginVerification := None, bootstrapState := st\<rparr>"

section \<open>Type guards\<close>

definition isRecord :: "jsval \<Rightarrow> bool" where
  "isRecord v \<longleftrightarrow> truthy v \<and> typeof_object v"

definition isAuthUser :: "jsval \<Rightarrow> bool" where
  "isAuthUser v \<longleftrightarrow> isRecord v \<and>
     (case field v ''id'' of JNum n \<Rightarrow> is_integer n \<and> lt_num (Fin 0) n | _ \<Rightarrow> False) \<and>
     is_str (field v ''username'') \<and> is_num (field v ''role'')"

definition isLoginSession :: "jsval \<Rightarrow> bool" where
  "isLoginSession v \<longleftrightarrow> isRecord v \<and>
     is_str (field v ''sid'') \<and> field v ''sid'' \<noteq> JStr [] \<and> is_bool (field v ''current'') \<and>
     is_str (field v ''login_method'') \<and> is_str (field v ''ip'') \<and> is_str (field v ''user_agent'') \<and>
     is_num (field v ''created_at'') \<and> is_num (field v ''last_active_at'') \<and>
     is_num (field v ''expires_at'')"

definition hasValidTokenFields :: "jsval \<Rightarrow> bool" where
  "hasValidTokenFields v \<longleftrightarrow>
     is_str (field v ''access_token'') \<and> field v ''access_token'' \<noteq> JStr [] \<and>
     is_str (field v ''token_type'') \<and> field v ''token_type'' \<noteq> JStr [] \<and>
     (case field v ''access_expires_at'' of JNum n \<Rightarrow> is_finite n \<and> lt_num (Fin 0) n | _ \<Rightarrow> False)"

definition isAuthBundle :: "jsval \<Rightarrow> bool" where
  "isAuthBundle v \<longleftrightarrow> isRecord v \<and>
     (field v ''signup_completed'' = JUndef \<or> field v ''signup_completed'' = JBool True) \<and>
     hasValidTokenFields v \<and> isAuthUser (field v ''user'') \<and> isLoginSession (field v ''session'')"

definition isAuthTokenRotation :: "jsval \<Rightarrow> bool" where
  "isAuthTokenRotation v \<longleftrightarrow> isRecord v \<and> hasValidTokenFields v \<and>
     field v ''token_type'' = JStr (js ''Bearer'') \<and> isLoginSession (field v ''session'') \<and>
     field (field v ''session'') ''current'' = JBool True"

text \<open>Reading an object that passed its guard.\<close>

definition session_of :: "jsval \<Rightarrow> login_session" where
  "session_of v = \<lparr>sid = text_of (field v ''sid''), current = flag_of (field v ''current''),
     login_method = text_of (field v ''login_method''), ip = text_of (field v ''ip''),
     user_agent = text_of (field v ''user_agent''), created_at = number_of (field v ''created_at''),
     last_active_at = number_of (field v ''last_active_at''), expires_at = number_of (field v ''expires_at'')\<rparr>"

definition bundle_of :: "jsval \<Rightarrow> auth_bundle" where
  "bundle_of v = \<lparr>access_token = text_of (field v ''access_token''), token_type = text_of (field v ''token_type''),
     access_expires_at = number_of (field v ''access_expires_at''), b_user = field v ''user'',
     b_session = session_of (field v ''session''), signup_completed = flag_of (field v ''signup_completed'')\<rparr>"

definition parseBundle :: "jsval \<Rightarrow> auth_bundle option" where
  "parseBundle v = (if isAuthBundle v then Some (bundle_of v) else None)"

section \<open>The session hint\<close>

definition SESSION_HINT_COOKIE_NAME :: jsstr where
  "SESSION_HINT_COOKIE_NAME = js ''new_api_has_session''"

fun read_parts :: "jsstr list \<Rightarrow> jsstr \<Rightarrow> jsstr option" where
  "read_parts [] name = None"
| "read_parts (part # rest) name =
     (case index_of (of_char CHR ''='') part of
        None \<Rightarrow> read_parts rest name
      | Some separator \<Rightarrow>
          if trim (take separator part) \<noteq> name then read_parts rest name
          else Some (trim (drop (separator + 1) part)))"

definition readCookie :: "jsstr \<Rightarrow> jsstr \<Rightarrow> jsstr option" where
  "readCookie header name = read_parts (split_on (of_char CHR '';'') header) name"

text \<open>The argument is \<open>document.cookie\<close>, \<open>None\<close> when there is no document.\<close>

definition hasSessionHint :: "jsstr option \<Rightarrow> bool" where
  "hasSessionHint cookie =
     (case cookie of None \<Rightarrow> True | Some header \<Rightarrow> readCookie header SESSION_HINT_COOKIE_NAME \<noteq> None)"

section \<open>Events between tabs\<close>

datatype sync_kind = Authenticated_event | Signed_out_event

record sync_event =
  e_kind :: sync_kind
  e_sid :: jsstr
  e_source :: jsstr
  e_nonce :: jsstr
  e_timestamp :: int

primrec kind_text :: "sync_kind \<Rightarrow> jsstr" where
  "kind_text Authenticated_event = js ''authenticated''"
| "kind_text Signed_out_event = js ''signed_out''"

definition event_value :: "sync_event \<Rightarrow> jsval" where
  "event_value e = JObj [(js ''kind'', JStr (kind_text (e_kind e))), (js ''sid'', JStr (e_sid e)),
     (js ''source'', JStr (e_source e)), (js ''nonce'', JStr (e_nonce e)),
     (js ''timestamp'', JNum (num_of_int (e_timestamp e)))]"

definition isAuthSessionSyncEvent :: "jsval \<Rightarrow> bool" where
  "isAuthSessionSyncEvent v \<longleftrightarrow> truthy v \<and> typeof_object v \<and>
     (field v ''kind'' = JStr (js ''authenticated'') \<or> field v ''kind'' = JStr (js ''signed_out'')) \<and>
     is_str (field v ''sid'') \<and> field v ''sid'' \<noteq> JStr [] \<and> is_str (field v ''source'') \<and>
     is_str (field v ''nonce'') \<and> is_num (field v ''timestamp'')"

text \<open>What a listener receives of a message: its kind and session.\<close>

definition deliver :: "jsstr \<Rightarrow> int \<Rightarrow> jsval \<Rightarrow> (sync_kind \<times> jsstr) option" where
  "deliver own_source now v =
     (if isAuthSessionSyncEvent v \<and> field v ''source'' \<noteq> JStr own_source \<and>
         lt_num (abs_num (sub_num (num_of_int now) (number_of (field v ''timestamp'')))) (Fin 60000)
      then Some (if field v ''kind'' = JStr (js ''authenticated'') then Authenticated_event else Signed_out_event,
        text_of (field v ''sid''))
      else None)"

section \<open>Lemmas\<close>

lemma text_of_nonempty: "is_str v \<Longrightarrow> v \<noteq> JStr [] \<Longrightarrow> text_of v \<noteq> []"
  by (cases v) (auto simp: text_of_def)

lemma number_checked: "(case v of JNum n \<Rightarrow> P n | _ \<Rightarrow> False) \<Longrightarrow> P (number_of v)"
  by (cases v) (auto simp: number_of_def)

lemma bundle_of_valid:
  assumes "parseBundle v = Some bundle"
  shows "access_token bundle \<noteq> []" "is_finite (access_expires_at bundle)"
    "lt_num (Fin 0) (access_expires_at bundle)" "sid (b_session bundle) \<noteq> []" "isAuthUser (b_user bundle)"
proof -
  have v: "isAuthBundle v" "bundle = bundle_of v" using assms by (simp_all add: parseBundle_def split: if_splits)
  show "access_token bundle \<noteq> []" "sid (b_session bundle) \<noteq> []" "isAuthUser (b_user bundle)"
    using v by (simp_all add: isAuthBundle_def hasValidTokenFields_def isLoginSession_def bundle_of_def
        session_of_def text_of_nonempty)
  have "is_finite (number_of (field v ''access_expires_at'')) \<and> lt_num (Fin 0) (number_of (field v ''access_expires_at''))"
    using v(1) number_checked [of "\<lambda>n. is_finite n \<and> lt_num (Fin 0) n" "field v ''access_expires_at''"]
    by (simp add: isAuthBundle_def hasValidTokenFields_def)
  then show "is_finite (access_expires_at bundle)" "lt_num (Fin 0) (access_expires_at bundle)"
    using v(2) by (simp_all add: bundle_of_def)
qed

lemma read_parts_append:
  "(\<forall>p\<in>set ps. \<forall>i. index_of (of_char CHR ''='') p = Some i \<longrightarrow> trim (take i p) \<noteq> name) \<Longrightarrow>
   read_parts (ps @ qs) name = read_parts qs name"
  by (induction ps) (auto split: option.splits)

lemma published_event_accepted:
  "e_sid e \<noteq> [] \<Longrightarrow> e_source e \<noteq> own \<Longrightarrow>
   lt_num (abs_num (sub_num (num_of_int now) (num_of_int (e_timestamp e)))) (Fin 60000) \<Longrightarrow>
   deliver own now (event_value e) = Some (e_kind e, e_sid e)"
  by (cases "e_kind e") (simp_all add: deliver_def event_value_def isAuthSessionSyncEvent_def number_of_def text_of_def)

lemma own_event_ignored: "deliver own now (event_value (e\<lparr>e_source := own\<rparr>)) = None"
  by (simp add: deliver_def event_value_def)

end
