(* ===== verification/Auth_Session.thy ===== *)
theory Auth_Session
  imports Auth_Store
begin

text \<open>
  The session layer (\<open>web/src/lib/auth-session.ts\<close>): accepting and clearing a session, token
  rotation, the refresh with its bounded retries, and how a page resolves its authentication.
  A refresh is asynchronous: between its awaits other operations run.  The pending refresh is
  therefore part of the state, with the await it is suspended at, and each resumption is an
  operation of its own.
\<close>

section \<open>State\<close>

datatype refresh_failure = Superseded | Failure jsval

datatype refresh_outcome =
    Authenticated auth_bundle
  | Anonymous
  | Transient_error refresh_failure
  | Out_of_sync "jsstr option"

record http_response =
  h_status :: nat
  h_data :: jsval
  h_error :: jsval

text \<open>The awaits of a refresh: the browser lock, the response to a request sent for an expected
  session, and the delay after a refresh race.\<close>

datatype stage =
    Lock_wait
  | Response_wait nat bool "jsstr option"
  | Delay_wait nat bool nat

record refresh_task =
  refreshEpoch :: nat
  r_stage :: stage

record auth_world =
  store :: auth_state
  authEpoch :: nat
  refreshTask :: "refresh_task option"
  published :: "(sync_kind \<times> jsstr) list"

definition initial_world :: auth_world where
  "initial_world = \<lparr>store = initial_auth, authEpoch = 0, refreshTask = None, published = []\<rparr>"

abbreviation current_sid :: "auth_world \<Rightarrow> jsstr option" where
  "current_sid w \<equiv> map_option sid (a_session (store w))"

section \<open>Sessions\<close>

definition publishAuthSessionEvent :: "sync_kind \<Rightarrow> jsstr \<Rightarrow> auth_world \<Rightarrow> auth_world" where
  "publishAuthSessionEvent kind s w = (if s = [] then w else w\<lparr>published := published w @ [(kind, s)]\<rparr>)"

definition applyAuthBundle :: "auth_bundle \<Rightarrow> bool \<Rightarrow> auth_world \<Rightarrow> auth_world" where
  "applyAuthBundle bundle synchronizeTabs w =
     (let previous = current_sid w;
          w' = w\<lparr>authEpoch := authEpoch w + 1, store := setBundle bundle (store w)\<rparr>
      in if synchronizeTabs \<and> previous \<noteq> Some (sid (b_session bundle))
         then publishAuthSessionEvent Authenticated_event (sid (b_session bundle)) w' else w')"

datatype auth_error = Rotation_error jsstr | Request_failed refresh_failure | Session_expired

definition applyAuthRotation :: "jsval \<Rightarrow> auth_world \<Rightarrow> auth_error + auth_world" where
  "applyAuthRotation v w =
     (if \<not> isAuthTokenRotation v
      then Inl (Rotation_error (js ''Invalid authentication rotation response''))
      else case (a_user (store w), a_session (store w)) of
        (Some u, Some s) \<Rightarrow>
          if sid (session_of (field v ''session'')) \<noteq> sid s
          then Inl (Rotation_error (js ''Authentication rotation session mismatch''))
          else Inr (applyAuthBundle
            \<lparr>access_token = text_of (field v ''access_token''), token_type = text_of (field v ''token_type''),
             access_expires_at = number_of (field v ''access_expires_at''), b_user = u,
             b_session = session_of (field v ''session''), signup_completed = False\<rparr> False w)
      | _ \<Rightarrow> Inl (Rotation_error (js ''Authentication rotation has no active session'')))"

definition clearAuthentication :: "bool \<Rightarrow> bootstrap_state \<Rightarrow> auth_world \<Rightarrow> auth_world" where
  "clearAuthentication synchronizeTabs st w =
     (let s = current_sid w;
          w' = w\<lparr>authEpoch := authEpoch w + 1, store := reset st (store w)\<rparr>
      in case s of
           Some x \<Rightarrow> if synchronizeTabs \<and> x \<noteq> [] then publishAuthSessionEvent Signed_out_event x w' else w'
         | None \<Rightarrow> w')"

text \<open>The query client belongs to a library; clearing it is a parameter.\<close>

definition clearAuthenticatedClientState ::
  "('q \<Rightarrow> 'q) \<Rightarrow> bool \<Rightarrow> 'q \<times> auth_world \<Rightarrow> 'q \<times> auth_world" where
  "clearAuthenticatedClientState clear_queries synchronizeTabs p =
     (clear_queries (fst p), clearAuthentication synchronizeTabs Checked (snd p))"

section \<open>Refreshing\<close>

definition refreshRaceDelays :: "nat list" where
  "refreshRaceDelays = [80, 200, 500]"

datatype axios_result =
    Axios_response nat jsval
  | Axios_error "(nat \<times> jsval) option" jsval
  | Other_error jsval

fun requestRefresh :: "axios_result \<Rightarrow> http_response" where
  "requestRefresh (Axios_response st data) = \<lparr>h_status = st, h_data = data, h_error = JUndef\<rparr>"
| "requestRefresh (Other_error e) = \<lparr>h_status = 0, h_data = JUndef, h_error = e\<rparr>"
| "requestRefresh (Axios_error (Some (st, data)) e) = \<lparr>h_status = st, h_data = data, h_error = e\<rparr>"
| "requestRefresh (Axios_error None e) = \<lparr>h_status = 0, h_data = JUndef, h_error = e\<rparr>"

text \<open>The \<open>clear\<close> callback of the runtime: the reset before the retry after a mismatch keeps the
  epoch, so that the retry stays current.\<close>

definition runtime_clear :: "bool \<Rightarrow> bootstrap_state option \<Rightarrow> auth_world \<Rightarrow> auth_world" where
  "runtime_clear synchronizeTabs st w =
     (if \<not> synchronizeTabs \<and> st = Some Idle then w\<lparr>store := reset Idle (store w)\<rparr>
      else clearAuthentication synchronizeTabs (case st of None \<Rightarrow> Checked | Some x \<Rightarrow> x) w)"

definition finish :: "refresh_outcome \<Rightarrow> auth_world \<Rightarrow> auth_world \<times> refresh_outcome option" where
  "finish outcome w = (w\<lparr>refreshTask := None\<rparr>, Some outcome)"

definition run_enter :: "nat \<Rightarrow> bool \<Rightarrow> auth_world \<Rightarrow> auth_world \<times> refresh_outcome option" where
  "run_enter raceAttempt allowMismatchRetry w =
     (case refreshTask w of
        None \<Rightarrow> (w, None)
      | Some task \<Rightarrow>
          if authEpoch w \<noteq> refreshEpoch task then finish (Transient_error Superseded) w
          else (w\<lparr>refreshTask := Some (task\<lparr>r_stage :=
            Response_wait raceAttempt allowMismatchRetry (current_sid w)\<rparr>)\<rparr>, None))"

definition response_data :: "http_response \<Rightarrow> jsval" where
  "response_data r = (if isRecord (h_data r) then h_data r else JUndef)"

definition response_code :: "http_response \<Rightarrow> jsstr option" where
  "response_code r = as_str (field (response_data r) ''code'')"

definition accepted_bundle :: "http_response \<Rightarrow> auth_bundle option" where
  "accepted_bundle r =
     (if field (response_data r) ''success'' = JBool True
      then parseBundle (field (response_data r) ''data'') else None)"

definition handle_response ::
  "nat \<Rightarrow> bool \<Rightarrow> http_response \<Rightarrow> refresh_task \<Rightarrow> auth_world \<Rightarrow> auth_world \<times> refresh_outcome option" where
  "handle_response raceAttempt allowMismatchRetry r task w =
     (case accepted_bundle r of
        Some bundle \<Rightarrow> finish (Authenticated bundle) (applyAuthBundle bundle False w)
      | None \<Rightarrow>
          if h_status r = 409 \<and> response_code r = Some (js ''AUTH_REFRESH_RACE'') then
            if raceAttempt < length refreshRaceDelays then
              (w\<lparr>refreshTask := Some (task\<lparr>r_stage :=
                Delay_wait raceAttempt allowMismatchRetry (refreshRaceDelays ! raceAttempt)\<rparr>)\<rparr>, None)
            else finish (Out_of_sync (response_code r)) (runtime_clear False None w)
          else if h_status r = 409 \<and> response_code r = Some (js ''AUTH_SESSION_MISMATCH'') then
            if allowMismatchRetry then run_enter 0 False (runtime_clear False (Some Idle) w)
            else finish (Out_of_sync (response_code r)) (runtime_clear False None w)
          else if h_status r = 401 then finish Anonymous (runtime_clear True None w)
          else if h_status r = 0 \<or> 500 \<le> h_status r \<or> h_status r = 429 then
            finish (Transient_error (Failure (if nullish (h_error r) then h_data r else h_error r)))
              (w\<lparr>store := setBootstrapState Idle (store w)\<rparr>)
          else finish (Out_of_sync (Some (case response_code r of
              None \<Rightarrow> js ''AUTH_INVALID_REFRESH_RESPONSE'' | Some c \<Rightarrow> c))) (runtime_clear False None w))"

definition run_response :: "http_response \<Rightarrow> auth_world \<Rightarrow> auth_world \<times> refresh_outcome option" where
  "run_response r w =
     (case refreshTask w of
        None \<Rightarrow> (w, None)
      | Some task \<Rightarrow>
          (case r_stage task of
             Response_wait raceAttempt allowMismatchRetry _ \<Rightarrow>
               if authEpoch w \<noteq> refreshEpoch task then finish (Transient_error Superseded) w
               else handle_response raceAttempt allowMismatchRetry r task w
           | _ \<Rightarrow> (w, None)))"

definition delay_over :: "auth_world \<Rightarrow> auth_world \<times> refresh_outcome option" where
  "delay_over w =
     (case refreshTask w of
        None \<Rightarrow> (w, None)
      | Some task \<Rightarrow>
          (case r_stage task of
             Delay_wait raceAttempt allowMismatchRetry _ \<Rightarrow> run_enter (raceAttempt + 1) allowMismatchRetry w
           | _ \<Rightarrow> (w, None)))"

definition lock_granted :: "auth_world \<Rightarrow> auth_world \<times> refresh_outcome option" where
  "lock_granted w =
     (case refreshTask w of
        None \<Rightarrow> (w, None)
      | Some task \<Rightarrow> if r_stage task = Lock_wait then run_enter 0 True w else (w, None))"

text \<open>\<open>navigator.locks\<close>: absent, present, or throwing when asked.\<close>

datatype lock_manager = No_locks | Locks | Locks_throw jsval

definition performRefreshWithBrowserLock ::
  "lock_manager \<Rightarrow> auth_world \<Rightarrow> auth_world \<times> refresh_outcome option" where
  "performRefreshWithBrowserLock locks w =
     (case locks of
        No_locks \<Rightarrow> run_enter 0 True w
      | Locks \<Rightarrow> (w, None)
      | Locks_throw e \<Rightarrow>
          finish (Transient_error (Failure e)) (w\<lparr>store := setBootstrapState Idle (store w)\<rparr>))"

definition refreshAuthentication ::
  "lock_manager \<Rightarrow> auth_world \<Rightarrow> auth_world \<times> refresh_outcome option" where
  "refreshAuthentication locks w =
     (case refreshTask w of
        Some _ \<Rightarrow> (w, None)
      | None \<Rightarrow> performRefreshWithBrowserLock locks
          (w\<lparr>refreshTask := Some \<lparr>refreshEpoch = authEpoch w, r_stage = Lock_wait\<rparr>\<rparr>))"

section \<open>Resolving\<close>

definition currentValidAuthBundle :: "int \<Rightarrow> auth_state \<Rightarrow> auth_bundle option" where
  "currentValidAuthBundle now s =
     (case (a_user s, accessToken s, accessExpiresAt s, a_session s) of
        (Some u, Some token, Some expires, Some ss) \<Rightarrow>
          if token = [] \<or> \<not> truthy (JNum expires) \<or> le_num expires (num_of_int (now div 1000)) then None
          else Some \<lparr>access_token = token, token_type = js ''Bearer'', access_expires_at = expires,
            b_user = u, b_session = ss, signup_completed = False\<rparr>
      | _ \<Rightarrow> None)"

text \<open>The outcome is \<open>None\<close> when the caller waits for the pending refresh.\<close>

definition resolveAuthentication ::
  "int \<Rightarrow> lock_manager \<Rightarrow> auth_world \<Rightarrow> auth_world \<times> refresh_outcome option" where
  "resolveAuthentication now locks w =
     (case currentValidAuthBundle now (store w) of
        Some bundle \<Rightarrow> (w\<lparr>store := setBootstrapState Checked (store w)\<rparr>, Some (Authenticated bundle))
      | None \<Rightarrow>
          if bootstrapState (store w) = Checked \<and> \<not> (a_user (store w) \<noteq> None \<and> a_session (store w) \<noteq> None)
          then (w, Some Anonymous)
          else refreshAuthentication locks (w\<lparr>store := setBootstrapState Checking (store w)\<rparr>))"

definition bootstrapAuthentication ::
  "jsstr option \<Rightarrow> int \<Rightarrow> lock_manager \<Rightarrow> auth_world \<Rightarrow> auth_world \<times> refresh_outcome option" where
  "bootstrapAuthentication cookie now locks w =
     (if currentValidAuthBundle now (store w) = None \<and> \<not> hasSessionHint cookie \<and>
         a_user (store w) = None \<and> a_session (store w) = None
      then (w, Some Anonymous)
      else resolveAuthentication now locks w)"

section \<open>Request headers\<close>

definition getCommonHeaders :: "jsstr \<Rightarrow> auth_state \<Rightarrow> (jsstr \<times> jsstr) list" where
  "getCommonHeaders language_tag s =
     [(js ''Content-Type'', js ''application/json''), (js ''Accept-Language'', language_tag)] @
     (case accessToken s of
        Some token \<Rightarrow> if token = [] then [] else [(js ''Authorization'', js ''Bearer '' @ token)]
      | None \<Rightarrow> [])"

definition token_valid_after :: "int \<Rightarrow> auth_state \<Rightarrow> bool" where
  "token_valid_after time s =
     (case (accessToken s, accessExpiresAt s) of
        (Some token, Some expires) \<Rightarrow>
          token \<noteq> [] \<and> truthy (JNum expires) \<and> lt_num (num_of_int time) expires
      | _ \<Rightarrow> False)"

text \<open>\<open>getFreshAuthHeaders\<close> up to its await, and from the outcome of the refresh on.\<close>

definition getFreshAuthHeaders ::
  "jsstr \<Rightarrow> int \<Rightarrow> lock_manager \<Rightarrow> auth_world \<Rightarrow> (auth_world \<times> refresh_outcome option) + (jsstr \<times> jsstr) list" where
  "getFreshAuthHeaders language_tag now locks w =
     (if token_valid_after (now div 1000 + 60) (store w) then Inr (getCommonHeaders language_tag (store w))
      else Inl (refreshAuthentication locks w))"

definition fresh_headers_after ::
  "jsstr \<Rightarrow> int \<Rightarrow> refresh_outcome \<Rightarrow> auth_world \<Rightarrow> auth_error + (jsstr \<times> jsstr) list" where
  "fresh_headers_after language_tag now outcome w =
     (case outcome of
        Authenticated _ \<Rightarrow> Inr (getCommonHeaders language_tag (store w))
      | _ \<Rightarrow>
          if token_valid_after (now div 1000) (store w) then Inr (getCommonHeaders language_tag (store w))
          else case outcome of Transient_error e \<Rightarrow> Inl (Request_failed e) | _ \<Rightarrow> Inl Session_expired)"

section \<open>Events of other tabs\<close>

datatype page_effect = No_effect | Reload | Go_sign_in

definition sync_listener :: "sync_kind \<times> jsstr \<Rightarrow> auth_world \<Rightarrow> auth_world \<times> page_effect" where
  "sync_listener e w =
     (case fst e of
        Authenticated_event \<Rightarrow>
          if current_sid w = Some (snd e) then (w, No_effect)
          else ((if current_sid w \<noteq> None \<and> current_sid w \<noteq> Some []
                 then clearAuthentication False Checked w else w), Reload)
      | Signed_out_event \<Rightarrow>
          if current_sid w \<noteq> Some [] \<and> current_sid w = Some (snd e)
          then (clearAuthentication False Checked w, Go_sign_in) else (w, No_effect))"

section \<open>Steps\<close>

text \<open>What can happen to the session layer of a tab, in any order.\<close>

inductive auth_step :: "auth_world \<Rightarrow> auth_world \<Rightarrow> bool" where
  step_login: "parseBundle v = Some bundle \<Longrightarrow> auth_step w (applyAuthBundle bundle sync w)"
| step_rotate: "applyAuthRotation v w = Inr w' \<Longrightarrow> auth_step w w'"
| step_clear: "auth_step w (clearAuthentication sync st w)"
| step_user: "auth_step w (w\<lparr>store := setUser u (store w)\<rparr>)"
| step_pending: "auth_step w (w\<lparr>store := setPendingLoginVerification p (store w)\<rparr>)"
| step_resolve: "auth_step w (fst (resolveAuthentication now locks w))"
| step_refresh: "auth_step w (fst (refreshAuthentication locks w))"
| step_lock: "auth_step w (fst (lock_granted w))"
| step_response: "auth_step w (fst (run_response r w))"
| step_delay: "auth_step w (fst (delay_over w))"
| step_event: "auth_step w (fst (sync_listener e w))"

inductive auth_steps :: "auth_world \<Rightarrow> auth_world \<Rightarrow> bool" where
  steps_refl: "auth_steps w w"
| steps_next: "auth_steps w w' \<Longrightarrow> auth_step w' w'' \<Longrightarrow> auth_steps w w''"

abbreviation auth_reachable :: "auth_world \<Rightarrow> bool" where
  "auth_reachable w \<equiv> auth_steps initial_world w"

end
