(* ===== verification/Auth_Properties.thy ===== *)
theory Auth_Properties
  imports Auth_Session
begin

text \<open>
  Properties of the session layer: the invariant of its store in every interleaving, refreshes
  that were overtaken, the bound on retries, the meaning of each outcome, rotation, sign-out
  across tabs, the session hint and request headers.
\<close>

section \<open>Invariant\<close>

definition signed_out :: "auth_state \<Rightarrow> bool" where
  "signed_out s \<longleftrightarrow> accessToken s = None \<and> accessExpiresAt s = None \<and> a_session s = None"

definition signed_in :: "auth_state \<Rightarrow> bool" where
  "signed_in s \<longleftrightarrow> (\<exists>token expires ss. accessToken s = Some token \<and> token \<noteq> [] \<and>
     accessExpiresAt s = Some expires \<and> is_finite expires \<and> lt_num (Fin 0) expires \<and>
     a_session s = Some ss \<and> sid ss \<noteq> [])"

definition stage_ok :: "stage \<Rightarrow> bool" where
  "stage_ok st = (case st of Lock_wait \<Rightarrow> True | Response_wait n _ _ \<Rightarrow> n \<le> 3 | Delay_wait n _ _ \<Rightarrow> n \<le> 2)"

definition task_ok :: "auth_world \<Rightarrow> bool" where
  "task_ok w \<longleftrightarrow> (\<forall>task. refreshTask w = Some task \<longrightarrow>
     refreshEpoch task \<le> authEpoch w \<and> stage_ok (r_stage task))"

definition auth_ok :: "auth_world \<Rightarrow> bool" where
  "auth_ok w \<longleftrightarrow> (signed_out (store w) \<or> signed_in (store w)) \<and> task_ok w"

text \<open>The contract of an operation of the session layer: it keeps the invariant, never turns
  the epoch back, and a new refresh it starts belongs to the current epoch.\<close>

locale session_operation =
  fixes operation :: "auth_world \<Rightarrow> auth_world"
  assumes keeps_ok: "auth_ok w \<Longrightarrow> auth_ok (operation w)"
    and epoch_mono: "authEpoch w \<le> authEpoch (operation w)"
begin

lemma stale_stays_stale:
  "refreshEpoch task < authEpoch w \<Longrightarrow> refreshEpoch task < authEpoch (operation w)"
  using epoch_mono [of w] by simp

end

lemma publish_simps [simp]:
  "store (publishAuthSessionEvent k s w) = store w" "authEpoch (publishAuthSessionEvent k s w) = authEpoch w"
  "refreshTask (publishAuthSessionEvent k s w) = refreshTask w"
  by (simp_all add: publishAuthSessionEvent_def)

lemma bundle_simps [simp]:
  "store (applyAuthBundle bdl sync w) = setBundle bdl (store w)"
  "authEpoch (applyAuthBundle bdl sync w) = authEpoch w + 1"
  "refreshTask (applyAuthBundle bdl sync w) = refreshTask w"
  by (simp_all add: applyAuthBundle_def Let_def)

lemma clear_simps [simp]:
  "store (clearAuthentication sync st w) = reset st (store w)"
  "authEpoch (clearAuthentication sync st w) = authEpoch w + 1"
  "refreshTask (clearAuthentication sync st w) = refreshTask w"
  by (simp_all add: clearAuthentication_def Let_def split: option.splits)

lemma finish_simps [simp]:
  "store (fst (finish outcome w)) = store w" "authEpoch (fst (finish outcome w)) = authEpoch w"
  "refreshTask (fst (finish outcome w)) = None" "snd (finish outcome w) = Some outcome"
  by (simp_all add: finish_def)

lemma reset_signed_out [simp]: "signed_out (reset st s)"
  by (simp add: signed_out_def reset_def)

lemma store_status_simps [simp]:
  "signed_out (setBootstrapState st s) = signed_out s" "signed_in (setBootstrapState st s) = signed_in s"
  "signed_out (setUser u s) = signed_out s" "signed_in (setUser u s) = signed_in s"
  "signed_out (setPendingLoginVerification p s) = signed_out s"
  "signed_in (setPendingLoginVerification p s) = signed_in s"
  by (simp_all add: signed_out_def signed_in_def setBootstrapState_def setUser_def
      setPendingLoginVerification_def)

lemma task_ok_later:
  "task_ok w \<Longrightarrow> refreshTask w' = refreshTask w \<or> refreshTask w' = None \<Longrightarrow> authEpoch w \<le> authEpoch w' \<Longrightarrow> task_ok w'"
  by (auto simp: task_ok_def)

lemma bundle_signed_in: "parseBundle v = Some bdl \<Longrightarrow> signed_in (setBundle bdl s)"
  using bundle_of_valid [of v bdl] by (simp add: signed_in_def setBundle_def)

interpretation bundle_op: session_operation "\<lambda>w. case parseBundle v of Some b \<Rightarrow> applyAuthBundle b sync w | None \<Rightarrow> w"
  for v sync
  by unfold_locales (auto simp: auth_ok_def bundle_signed_in intro: task_ok_later split: option.splits)

interpretation clear_op: session_operation "clearAuthentication sync st" for sync st
  by unfold_locales (auto simp: auth_ok_def intro: task_ok_later)

lemma rotation_result:
  assumes "applyAuthRotation v w = Inr w'"
  shows "\<exists>u ss bdl. a_user (store w) = Some u \<and> a_session (store w) = Some ss \<and>
    w' = applyAuthBundle bdl False w \<and> b_user bdl = u \<and> sid (b_session bdl) = sid ss \<and>
    access_token bdl \<noteq> [] \<and> is_finite (access_expires_at bdl) \<and> lt_num (Fin 0) (access_expires_at bdl) \<and>
    sid (b_session bdl) \<noteq> [] \<and> current (b_session bdl)"
proof -
  have v: "isAuthTokenRotation v" using assms by (auto simp: applyAuthRotation_def split: if_splits)
  have t: "text_of (field v ''access_token'') \<noteq> []" "sid (session_of (field v ''session'')) \<noteq> []"
      "current (session_of (field v ''session''))"
    using v by (simp_all add: isAuthTokenRotation_def hasValidTokenFields_def isLoginSession_def session_of_def
        text_of_nonempty flag_of_def)
  have e: "is_finite (number_of (field v ''access_expires_at'')) \<and> lt_num (Fin 0) (number_of (field v ''access_expires_at''))"
    using v number_checked [of "\<lambda>n. is_finite n \<and> lt_num (Fin 0) n" "field v ''access_expires_at''"]
    by (simp add: isAuthTokenRotation_def hasValidTokenFields_def)
  show ?thesis
    using assms v t e by (auto simp: applyAuthRotation_def split: option.splits if_splits)
qed

interpretation rotate_op: session_operation "\<lambda>w. case applyAuthRotation v w of Inr w' \<Rightarrow> w' | Inl _ \<Rightarrow> w" for v
proof unfold_locales
  fix w
  show "auth_ok w \<Longrightarrow> auth_ok (case applyAuthRotation v w of Inr w' \<Rightarrow> w' | Inl _ \<Rightarrow> w)"
    by (cases "applyAuthRotation v w")
       (auto dest!: rotation_result simp: auth_ok_def signed_in_def setBundle_def intro: task_ok_later)
  show "authEpoch w \<le> authEpoch (case applyAuthRotation v w of Inr w' \<Rightarrow> w' | Inl _ \<Rightarrow> w)"
    by (cases "applyAuthRotation v w") (auto dest!: rotation_result)
qed

lemma runtime_clear_simps [simp]:
  "refreshTask (runtime_clear sync st w) = refreshTask w" "signed_out (store (runtime_clear sync st w))"
  "authEpoch w \<le> authEpoch (runtime_clear sync st w)"
  "authEpoch (runtime_clear False (Some Idle) w) = authEpoch w"
  by (auto simp: runtime_clear_def)

lemma enter_epoch [simp]: "authEpoch (fst (run_enter n mm w)) = authEpoch w"
  by (auto simp: run_enter_def split: option.splits)

lemma enter_store [simp]: "store (fst (run_enter n mm w)) = store w"
  by (auto simp: run_enter_def split: option.splits)

lemma enter_task: "task_ok w \<Longrightarrow> n \<le> 3 \<Longrightarrow> task_ok (fst (run_enter n mm w))"
  by (auto simp: run_enter_def task_ok_def stage_ok_def split: option.splits)

lemma handle_epoch: "e \<le> authEpoch w \<Longrightarrow> e \<le> authEpoch (fst (handle_response n mm r task w))"
  using runtime_clear_simps(3) [of w]
  by (auto simp: handle_response_def intro: order.trans split: option.splits)

lemma handle_store:
  "signed_out (store w) \<or> signed_in (store w) \<Longrightarrow>
   signed_out (store (fst (handle_response n mm r task w))) \<or> signed_in (store (fst (handle_response n mm r task w)))"
  by (auto simp: handle_response_def accepted_bundle_def bundle_signed_in split: option.splits if_splits)

lemma handle_task:
  assumes "task_ok w" "refreshTask w = Some task" "n \<le> 3"
  shows "task_ok (fst (handle_response n mm r task w))"
proof -
  have none: "refreshTask w' = None \<Longrightarrow> task_ok w'" for w' by (simp add: task_ok_def)
  have delay: "n < length refreshRaceDelays \<Longrightarrow>
      task_ok (w\<lparr>refreshTask := Some (task\<lparr>r_stage := Delay_wait n mm d\<rparr>)\<rparr>)" for d
    using assms by (simp add: task_ok_def stage_ok_def refreshRaceDelays_def)
  have retry: "task_ok (fst (run_enter 0 False (runtime_clear False (Some Idle) w)))"
    by (rule enter_task) (use assms in \<open>auto simp: task_ok_def\<close>)
  show ?thesis
    using none delay retry by (cases mm) (auto simp: handle_response_def split: option.splits)
qed

interpretation response_op: session_operation "\<lambda>w. fst (run_response r w)" for r
proof unfold_locales
  fix w
  assume ok: "auth_ok w"
  have handled: "auth_ok (fst (handle_response n mm r task w))"
    if "refreshTask w = Some task" "r_stage task = Response_wait n mm s" for task n mm s
  proof -
    have "n \<le> 3" using ok that by (simp add: auth_ok_def task_ok_def stage_ok_def)
    then show ?thesis using ok that handle_store handle_task by (simp add: auth_ok_def)
  qed
  have superseded: "auth_ok (fst (finish outcome w))" for outcome using ok by (simp add: auth_ok_def task_ok_def)
  show "auth_ok (fst (run_response r w))"
    using ok handled superseded by (auto simp: run_response_def split: option.splits stage.splits)
next
  fix w
  show "authEpoch w \<le> authEpoch (fst (run_response r w))"
    by (auto simp: run_response_def intro: handle_epoch split: option.splits stage.splits)
qed

interpretation delay_op: session_operation "\<lambda>w. fst (delay_over w)"
proof unfold_locales
  fix w
  show "auth_ok w \<Longrightarrow> auth_ok (fst (delay_over w))"
    by (auto simp: auth_ok_def delay_over_def task_ok_def stage_ok_def run_enter_def split: option.splits stage.splits)
  show "authEpoch w \<le> authEpoch (fst (delay_over w))"
    by (auto simp: delay_over_def split: option.splits stage.splits)
qed

interpretation lock_op: session_operation "\<lambda>w. fst (lock_granted w)"
proof unfold_locales
  fix w
  show "auth_ok w \<Longrightarrow> auth_ok (fst (lock_granted w))"
    using enter_task [of w 0 True] by (auto simp: auth_ok_def lock_granted_def split: option.splits)
  show "authEpoch w \<le> authEpoch (fst (lock_granted w))"
    by (auto simp: lock_granted_def split: option.splits)
qed

interpretation refresh_op: session_operation "\<lambda>w. fst (refreshAuthentication locks w)" for locks
proof unfold_locales
  fix w
  show "auth_ok w \<Longrightarrow> auth_ok (fst (refreshAuthentication locks w))"
    by (auto simp: auth_ok_def refreshAuthentication_def performRefreshWithBrowserLock_def run_enter_def
        task_ok_def stage_ok_def split: option.splits lock_manager.splits)
  show "authEpoch w \<le> authEpoch (fst (refreshAuthentication locks w))"
    by (auto simp: refreshAuthentication_def performRefreshWithBrowserLock_def split: option.splits lock_manager.splits)
qed

interpretation resolve_op: session_operation "\<lambda>w. fst (resolveAuthentication now locks w)" for now locks
proof unfold_locales
  fix w :: auth_world
  let ?c = "\<lambda>st. w\<lparr>store := setBootstrapState st (store w)\<rparr>"
  have ok: "auth_ok w \<Longrightarrow> auth_ok (?c st)" for st by (simp add: auth_ok_def task_ok_def)
  show "auth_ok w \<Longrightarrow> auth_ok (fst (resolveAuthentication now locks w))"
    using ok refresh_op.keeps_ok [of "?c Checking" locks] by (auto simp: resolveAuthentication_def split: option.splits)
  show "authEpoch w \<le> authEpoch (fst (resolveAuthentication now locks w))"
    using refresh_op.epoch_mono [of "?c Checking" locks] by (auto simp: resolveAuthentication_def split: option.splits)
qed

interpretation event_op: session_operation "\<lambda>w. fst (sync_listener e w)" for e
proof unfold_locales
  fix w
  show "auth_ok w \<Longrightarrow> auth_ok (fst (sync_listener e w))"
    using clear_op.keeps_ok [of w False Checked] by (auto simp: sync_listener_def split: sync_kind.splits)
  show "authEpoch w \<le> authEpoch (fst (sync_listener e w))"
    by (auto simp: sync_listener_def split: sync_kind.splits)
qed

lemma user_ok: "auth_ok w \<Longrightarrow> auth_ok (w\<lparr>store := setUser u (store w)\<rparr>)"
  by (simp add: auth_ok_def task_ok_def)

lemma pending_ok: "auth_ok w \<Longrightarrow> auth_ok (w\<lparr>store := setPendingLoginVerification p (store w)\<rparr>)"
  by (simp add: auth_ok_def task_ok_def)

lemma auth_step_ok: "auth_step w w' \<Longrightarrow> auth_ok w \<Longrightarrow> auth_ok w'"
proof (induction rule: auth_step.induct)
  case (step_login v bdl w sync)
  then show ?case using bundle_op.keeps_ok [of w sync v] by simp
next
  case (step_rotate v w w')
  then show ?case using rotate_op.keeps_ok [of w v] by simp
qed (auto intro: clear_op.keeps_ok resolve_op.keeps_ok refresh_op.keeps_ok lock_op.keeps_ok
    response_op.keeps_ok delay_op.keeps_ok event_op.keeps_ok user_ok pending_ok)

lemma auth_step_epoch: "auth_step w w' \<Longrightarrow> authEpoch w \<le> authEpoch w'"
proof (induction rule: auth_step.induct)
  case (step_rotate v w w')
  then show ?case using rotate_op.epoch_mono [of w v] by simp
qed (auto intro: resolve_op.epoch_mono refresh_op.epoch_mono lock_op.epoch_mono
    response_op.epoch_mono delay_op.epoch_mono event_op.epoch_mono)

lemma auth_steps_ok: "auth_steps w w' \<Longrightarrow> auth_ok w \<Longrightarrow> auth_ok w'"
  by (induction rule: auth_steps.induct) (auto intro: auth_step_ok)

lemma auth_steps_epoch: "auth_steps w w' \<Longrightarrow> authEpoch w \<le> authEpoch w'"
  by (induction rule: auth_steps.induct) (auto dest: auth_step_epoch)

lemma initial_ok: "auth_ok initial_world"
  by (simp add: auth_ok_def task_ok_def signed_out_def initial_world_def initial_auth_def)

lemma auth_reachable_ok: "auth_reachable w \<Longrightarrow> auth_ok w"
  using auth_steps_ok initial_ok by blast

end
