(* ===== verification/Auth_Guarantees.thy ===== *)
theory Auth_Guarantees
  imports Auth_Properties
begin

text \<open>
  What the session layer guarantees, with concrete sessions on which each guarantee applies.
\<close>

section \<open>A concrete session\<close>

definition sample_session :: "jsstr \<Rightarrow> jsval" where
  "sample_session s = JObj [(js ''sid'', JStr s), (js ''current'', JBool True), (js ''login_method'', JStr (js ''password'')),
     (js ''ip'', JStr (js ''::1'')), (js ''user_agent'', JStr (js ''ua'')), (js ''created_at'', JNum (Fin 1)),
     (js ''last_active_at'', JNum (Fin 1)), (js ''expires_at'', JNum (Fin 9000))]"

definition sample_user :: jsval where
  "sample_user = JObj [(js ''id'', JNum (Fin 7)), (js ''username'', JStr (js ''ada'')), (js ''role'', JNum (Fin 1))]"

definition sample_bundle :: "jsstr \<Rightarrow> jsval" where
  "sample_bundle s = JObj [(js ''access_token'', JStr (js ''tok'')), (js ''token_type'', JStr (js ''Bearer'')),
     (js ''access_expires_at'', JNum (Fin 5000)), (js ''user'', sample_user), (js ''session'', sample_session s)]"

definition sample_response :: "jsstr \<Rightarrow> http_response" where
  "sample_response s = \<lparr>h_status = 200, h_data = JObj [(js ''success'', JBool True), (js ''data'', sample_bundle s)],
     h_error = JUndef\<rparr>"

definition race_response :: http_response where
  "race_response = \<lparr>h_status = 409, h_data = JObj [(js ''code'', JStr (js ''AUTH_REFRESH_RACE''))], h_error = JUndef\<rparr>"

lemma sample_bundle_parses: "s \<noteq> [] \<Longrightarrow> parseBundle (sample_bundle s) = Some (bundle_of (sample_bundle s))"
  by (simp add: parseBundle_def isAuthBundle_def hasValidTokenFields_def isAuthUser_def isLoginSession_def isRecord_def
      sample_bundle_def sample_user_def sample_session_def is_integer_def)

lemma sample_bundle_fields:
  "sid (b_session (bundle_of (sample_bundle s))) = s" "access_token (bundle_of (sample_bundle s)) = js ''tok''"
  "access_expires_at (bundle_of (sample_bundle s)) = Fin 5000" "b_user (bundle_of (sample_bundle s)) = sample_user"
  by (simp_all add: bundle_of_def sample_bundle_def session_of_def sample_session_def text_of_def number_of_def)

definition logged_in :: "jsstr \<Rightarrow> auth_world" where
  "logged_in s = applyAuthBundle (bundle_of (sample_bundle s)) True initial_world"

lemma logged_in_reachable: "s \<noteq> [] \<Longrightarrow> auth_reachable (logged_in s)"
  using sample_bundle_parses [of s] unfolding logged_in_def
  by (blast intro: auth_steps.intros auth_step.intros)

definition refreshing :: auth_world where
  "refreshing = fst (refreshAuthentication No_locks (logged_in (js ''s1'')))"

lemma refreshing_reachable: "auth_reachable refreshing"
  unfolding refreshing_def by (rule steps_next [OF logged_in_reachable step_refresh]) simp

section \<open>The store\<close>

text \<open>C11: In every interleaving of logins, rotations, sign-outs, refresh responses and events of
  other tabs, the token, its expiry and the session are set together or not at all; when set
  the token and the session identifier are not empty and the expiry is a positive number.\<close>

theorem session_consistent:
  assumes "auth_reachable w"
  shows "signed_out (store w) \<or> signed_in (store w)"
  using auth_reachable_ok [OF assms] by (simp add: auth_ok_def)

theorem session_consistent_witness: "signed_out (store refreshing) \<or> signed_in (store refreshing)"
  by (rule session_consistent [OF refreshing_reachable])

section \<open>Overtaken refreshes\<close>

lemma stale_ignored:
  assumes "refreshTask w = Some task" "refreshEpoch task < authEpoch w"
  shows "store (fst (run_response r w)) = store w" "store (fst (delay_over w)) = store w"
    "store (fst (lock_granted w)) = store w"
    "snd (run_response r w) \<in> {None, Some (Transient_error Superseded)}"
  using assms by (auto simp: run_response_def delay_over_def lock_granted_def run_enter_def split: stage.splits)

text \<open>C13: A refresh that a login or a sign-out overtook has no effect: whatever happens before it
  resumes, its response, the end of its delay and the grant of its lock leave the store as
  it is, and it can only end as superseded.\<close>

theorem overtaken_refresh_ignored:
  assumes "auth_reachable w" "refreshTask w = Some task"
    and "w1 = applyAuthBundle b sync w \<or> w1 = clearAuthentication sync st w" "auth_steps w1 w2"
    and "refreshTask w2 = Some task2" "refreshEpoch task2 = refreshEpoch task"
  shows "store (fst (run_response r w2)) = store w2 \<and> store (fst (delay_over w2)) = store w2 \<and>
    store (fst (lock_granted w2)) = store w2 \<and> snd (run_response r w2) \<in> {None, Some (Transient_error Superseded)}"
proof -
  have "refreshEpoch task \<le> authEpoch w"
    using auth_reachable_ok [OF assms(1)] assms(2) by (simp add: auth_ok_def task_ok_def)
  also have "\<dots> < authEpoch w1" using assms(3) by auto
  also have "\<dots> \<le> authEpoch w2" using assms(4) by (rule auth_steps_epoch)
  finally show ?thesis using stale_ignored [OF assms(5)] assms(6) by simp
qed

theorem overtaken_refresh_ignored_witness:
  "store (fst (run_response (sample_response (js ''s1'')) (clearAuthentication True Checked refreshing))) =
     store (clearAuthentication True Checked refreshing)"
proof -
  obtain task where t: "refreshTask refreshing = Some task"
    by (simp add: refreshing_def logged_in_def refreshAuthentication_def performRefreshWithBrowserLock_def
        run_enter_def initial_world_def)
  then show ?thesis
    using overtaken_refresh_ignored [OF refreshing_reachable t disjI2 [OF refl] steps_refl] by simp
qed

section \<open>Bounded retries\<close>

text \<open>A refresh driven to its end without interruption: each request gets a response, each delay
  elapses.\<close>

fun drive :: "http_response list \<Rightarrow> auth_world \<Rightarrow> auth_world \<times> refresh_outcome option" where
  "drive [] w = (w, None)"
| "drive (r # rs) w =
     (case run_response r w of
        (w', Some outcome) \<Rightarrow> (w', Some outcome)
      | (w', None) \<Rightarrow>
          (case delay_over w' of
             (w'', Some outcome) \<Rightarrow> (w'', Some outcome)
           | (w'', None) \<Rightarrow> drive rs w''))"

text \<open>How many requests a refresh may still send.\<close>

definition budget :: "nat \<Rightarrow> bool \<Rightarrow> nat" where
  "budget n mm = (4 - n) + (if mm then 4 else 0)"

definition awaiting :: "nat \<Rightarrow> bool \<Rightarrow> auth_world \<Rightarrow> bool" where
  "awaiting n mm w \<longleftrightarrow> n \<le> 3 \<and> (\<exists>task s. refreshTask w = Some task \<and> refreshEpoch task = authEpoch w \<and>
     r_stage task = Response_wait n mm s)"

lemma enter_awaiting:
  "n \<le> 3 \<Longrightarrow> refreshTask w = Some task \<Longrightarrow> refreshEpoch task = authEpoch w \<Longrightarrow>
   snd (run_enter n mm w) = None \<and> awaiting n mm (fst (run_enter n mm w))"
  by (simp add: run_enter_def awaiting_def)

text \<open>A response ends the refresh or lowers its budget.\<close>

lemma response_progress:
  assumes "awaiting n mm w"
  shows "(\<exists>outcome. snd (run_response r w) = Some outcome) \<or>
    snd (run_response r w) = None \<and> snd (delay_over (fst (run_response r w))) = None \<and>
    (\<exists>n' mm'. awaiting n' mm' (fst (delay_over (fst (run_response r w)))) \<and> budget n' mm' < budget n mm)"
proof -
  obtain task s where t: "refreshTask w = Some task" "refreshEpoch task = authEpoch w"
      "r_stage task = Response_wait n mm s" and n: "n \<le> 3"
    using assms by (auto simp: awaiting_def)
  have run: "run_response r w = handle_response n mm r task w" using t by (simp add: run_response_def)
  let ?d = "w\<lparr>refreshTask := Some (task\<lparr>r_stage := Delay_wait n mm (refreshRaceDelays ! n)\<rparr>)\<rparr>"
  let ?m = "run_enter 0 False (runtime_clear False (Some Idle) w)"
  have cases: "(\<exists>outcome. snd (run_response r w) = Some outcome) \<or>
      n < 3 \<and> run_response r w = (?d, None) \<or> mm \<and> run_response r w = ?m"
    unfolding run by (auto simp: handle_response_def refreshRaceDelays_def split: option.splits)
  have delay: "delay_over ?d = run_enter (n + 1) mm ?d" by (simp add: delay_over_def)
  have entered: "snd ?m = None \<and> awaiting 0 False (fst ?m)"
    using t by (intro enter_awaiting) simp_all
  have m: "delay_over (fst ?m) = (fst ?m, None)"
    using entered by (auto simp: awaiting_def delay_over_def)
  show ?thesis
    using cases
  proof (elim disjE conjE)
    assume "n < 3" "run_response r w = (?d, None)"
    moreover have "snd (run_enter (n + 1) mm ?d) = None \<and> awaiting (n + 1) mm (fst (run_enter (n + 1) mm ?d))"
      using t \<open>n < 3\<close>
      by (intro enter_awaiting [of _ ?d "task\<lparr>r_stage := Delay_wait n mm (refreshRaceDelays ! n)\<rparr>"]) simp_all
    ultimately show ?thesis
      by (intro disjI2) (auto simp: delay budget_def intro!: exI [of _ "n + 1"] exI [of _ mm])
  next
    assume "mm" "run_response r w = ?m"
    then show ?thesis
      using entered m n by (intro disjI2) (auto simp: budget_def intro!: exI [of _ 0] exI [of _ False])
  qed blast
qed

lemma drive_ends:
  "awaiting n mm w \<Longrightarrow> budget n mm \<le> length rs \<Longrightarrow> \<exists>outcome. snd (drive rs w) = Some outcome"
proof (induction rs arbitrary: n mm w)
  case Nil
  then show ?case by (simp add: awaiting_def budget_def)
next
  case (Cons r rs)
  from response_progress [OF Cons.prems(1), of r] show ?case
  proof
    assume "\<exists>outcome. snd (run_response r w) = Some outcome"
    then show ?thesis by (cases "run_response r w") auto
  next
    assume a: "snd (run_response r w) = None \<and> snd (delay_over (fst (run_response r w))) = None \<and>
      (\<exists>n' mm'. awaiting n' mm' (fst (delay_over (fst (run_response r w)))) \<and> budget n' mm' < budget n mm)"
    then obtain n' mm' where b: "awaiting n' mm' (fst (delay_over (fst (run_response r w))))" "budget n' mm' < budget n mm"
      by blast
    have "\<exists>outcome. snd (drive rs (fst (delay_over (fst (run_response r w))))) = Some outcome"
      using Cons.IH [OF b(1)] b(2) Cons.prems(2) by simp
    then show ?thesis
      using a by (cases "run_response r w"; cases "delay_over (fst (run_response r w))") auto
  qed
qed

lemma started_awaiting:
  "refreshTask w = None \<Longrightarrow> awaiting 0 True (fst (refreshAuthentication No_locks w))"
  by (simp add: refreshAuthentication_def performRefreshWithBrowserLock_def run_enter_def awaiting_def)

text \<open>C32: A refresh always ends: without a browser lock and when nothing else happens to the session
  meanwhile, it sends at most eight requests before it has an outcome, whatever the server answers.
  (A refresh that something overtook ends at its next resumption.)\<close>

theorem refresh_ends:
  assumes "refreshTask w = None" "8 \<le> length responses"
  shows "\<exists>outcome. snd (drive responses (fst (refreshAuthentication No_locks w))) = Some outcome"
  using drive_ends [OF started_awaiting [OF assms(1)]] assms(2) by (simp add: budget_def)

theorem refresh_ends_witness:
  "\<exists>outcome. snd (drive (replicate 8 race_response)
     (fst (refreshAuthentication No_locks (logged_in (js ''s1''))))) = Some outcome"
  by (rule refresh_ends) (simp_all add: logged_in_def initial_world_def)

section \<open>Outcomes\<close>

text \<open>While the epoch stays, nothing replaces the session: its token, expiry and identity are kept
  or, after a mismatch reported by the server, reset.\<close>

definition credentials :: "auth_state \<Rightarrow> jsstr option \<times> jsnum option \<times> login_session option" where
  "credentials s = (accessToken s, accessExpiresAt s, a_session s)"

lemma credentials_simps [simp]:
  "credentials (setBootstrapState st s) = credentials s" "credentials (setUser u s) = credentials s"
  "credentials (setPendingLoginVerification p s) = credentials s"
  by (simp_all add: credentials_def setBootstrapState_def setUser_def setPendingLoginVerification_def)

lemma credentials_signed_out: "credentials s = credentials s' \<Longrightarrow> signed_out s = signed_out s'"
  by (simp add: credentials_def signed_out_def)

definition kept_session :: "auth_world \<Rightarrow> auth_world \<Rightarrow> bool" where
  "kept_session w w' \<longleftrightarrow> (authEpoch w' = authEpoch w \<longrightarrow> credentials (store w') = credentials (store w) \<or> signed_out (store w'))"

lemma handle_kept: "kept_session w (fst (handle_response n mm r task w))"
  by (auto simp: kept_session_def handle_response_def runtime_clear_def split: option.splits)

lemma refresh_kept: "credentials (store (fst (refreshAuthentication locks w))) = credentials (store w)"
  by (auto simp: refreshAuthentication_def performRefreshWithBrowserLock_def split: option.splits lock_manager.splits)

lemma resolve_kept: "credentials (store (fst (resolveAuthentication now locks w))) = credentials (store w)"
  using refresh_kept [of locks "w\<lparr>store := setBootstrapState Checking (store w)\<rparr>"]
  by (auto simp: resolveAuthentication_def split: option.splits)

lemma auth_step_kept: "auth_step w w' \<Longrightarrow> kept_session w w'"
proof (induction rule: auth_step.induct)
  case (step_rotate v w w')
  then show ?case by (auto dest!: rotation_result simp: kept_session_def)
next
  case (step_response w r)
  then show ?case
    using handle_kept by (auto simp: run_response_def kept_session_def [of w w] split: option.splits stage.splits)
      (simp add: kept_session_def)
next
  case (step_event w e)
  then show ?case by (auto simp: sync_listener_def kept_session_def split: sync_kind.splits)
qed (auto simp: kept_session_def refresh_kept resolve_kept lock_granted_def delay_over_def split: option.splits stage.splits)

lemma auth_steps_kept: "auth_steps w w' \<Longrightarrow> kept_session w w'"
proof (induction rule: auth_steps.induct)
  case (steps_next w w' w'')
  then have "authEpoch w \<le> authEpoch w'" "authEpoch w' \<le> authEpoch w''"
    using auth_steps_epoch auth_step_epoch by blast+
  then show ?case
    using steps_next(3) auth_step_kept [OF steps_next(2)] credentials_signed_out [of "store w''" "store w'"]
    by (auto simp: kept_session_def)
qed (simp add: kept_session_def)

text \<open>How a refresh started in \<open>w0\<close> ends: at once, when the lock manager throws, or when its lock is
  granted, its response arrives or its delay is over in some later state \<open>w\<close>.  Between, anything may
  have happened to the session, in any order.\<close>

inductive refresh_ended :: "lock_manager \<Rightarrow> auth_world \<Rightarrow> auth_world \<Rightarrow> refresh_outcome \<Rightarrow> auth_world \<Rightarrow> bool" where
  at_once: "refreshTask w0 = None \<Longrightarrow> refreshAuthentication locks w0 = (w', Some outcome) \<Longrightarrow>
    refresh_ended locks w0 w0 outcome w'"
| resumed: "refreshTask w0 = None \<Longrightarrow> auth_steps (fst (refreshAuthentication locks w0)) w \<Longrightarrow>
    refreshTask w = Some task \<Longrightarrow> refreshEpoch task = authEpoch w0 \<Longrightarrow>
    (w', Some outcome) \<in> {lock_granted w, run_response r w, delay_over w} \<Longrightarrow> refresh_ended locks w0 w outcome w'"

text \<open>What an outcome says: \<open>w0\<close> is the state the refresh started in, \<open>w\<close> the one before its last
  resumption and \<open>w'\<close> the one after it.\<close>

definition outcome_ok :: "auth_world \<Rightarrow> auth_world \<Rightarrow> refresh_outcome \<Rightarrow> auth_world \<Rightarrow> bool" where
  "outcome_ok w0 w outcome w' \<longleftrightarrow> refreshTask w' = None \<and>
     (case outcome of
        Authenticated b \<Rightarrow> authEpoch w = authEpoch w0 \<and> signed_in (store w') \<and>
          credentials (store w') = (Some (access_token b), Some (access_expires_at b), Some (b_session b)) \<and>
          a_user (store w') = Some (b_user b) \<and> bootstrapState (store w') = Checked
      | Transient_error Superseded \<Rightarrow> authEpoch w0 < authEpoch w \<and> store w' = store w
      | Transient_error (Failure _) \<Rightarrow> authEpoch w = authEpoch w0 \<and> bootstrapState (store w') = Idle \<and>
          (credentials (store w') = credentials (store w0) \<or> signed_out (store w'))
      | _ \<Rightarrow> authEpoch w = authEpoch w0 \<and> signed_out (store w') \<and> a_user (store w') = None \<and>
          bootstrapState (store w') = Checked)"

lemma finish_eq: "finish x w = (w', Some y) \<longleftrightarrow> x = y \<and> w' = w\<lparr>refreshTask := None\<rparr>"
  by (auto simp: finish_def)

lemma authenticated_ok:
  "authEpoch w = authEpoch w0 \<Longrightarrow> accepted_bundle r = Some b \<Longrightarrow>
   outcome_ok w0 w (Authenticated b) ((applyAuthBundle b False w)\<lparr>refreshTask := None\<rparr>)"
  using bundle_signed_in [of _ b "store w"]
  by (auto simp: outcome_ok_def accepted_bundle_def setBundle_def credentials_def split: if_splits)

lemma cleared_ok:
  "authEpoch w = authEpoch w0 \<Longrightarrow> outcome_ok w0 w Anonymous ((runtime_clear sync None w)\<lparr>refreshTask := None\<rparr>)"
  "authEpoch w = authEpoch w0 \<Longrightarrow> outcome_ok w0 w (Out_of_sync c) ((runtime_clear sync None w)\<lparr>refreshTask := None\<rparr>)"
  by (simp_all add: outcome_ok_def runtime_clear_def) (simp_all add: reset_def)

lemma transient_ok:
  "authEpoch w = authEpoch w0 \<Longrightarrow> kept_session w0 w \<Longrightarrow>
   outcome_ok w0 w (Transient_error (Failure e)) (w\<lparr>store := setBootstrapState Idle (store w), refreshTask := None\<rparr>)"
  by (simp add: outcome_ok_def kept_session_def) (simp add: setBootstrapState_def)

lemma handle_outcome:
  assumes "handle_response n mm r task w = (w', Some outcome)" "refreshTask w = Some task" "refreshEpoch task = authEpoch w"
    and "authEpoch w = authEpoch w0" "kept_session w0 w"
  shows "outcome_ok w0 w outcome w'"
proof -
  have retry: "run_enter 0 False (runtime_clear False (Some Idle) w) \<noteq> (w', Some outcome)"
    using assms(2,3) by (simp add: run_enter_def)
  show ?thesis
  proof (cases "accepted_bundle r")
    case (Some b)
    then show ?thesis using assms(1) authenticated_ok [OF assms(4)] by (auto simp: handle_response_def finish_eq)
  next
    case None
    then show ?thesis
      using assms(1) retry cleared_ok [OF assms(4)] transient_ok [OF assms(4,5)]
      by (auto simp: handle_response_def finish_eq split: if_splits)
  qed
qed

lemma superseded_ok:
  "authEpoch w0 < authEpoch w \<Longrightarrow> outcome_ok w0 w (Transient_error Superseded) (w\<lparr>refreshTask := None\<rparr>)"
  by (simp add: outcome_ok_def)

text \<open>C33: Every outcome of a refresh tells the truth about the store, with or without a browser lock and
  whatever happened to the session while the refresh was pending.  Authenticated means that
  nothing overtook the refresh and that the store holds that bundle; anonymous and out of sync mean
  that nothing overtook it and that the store is signed out; a failure means that nothing overtook it,
  that the session is the one it started with, or none after a mismatch that the server reported,
  and that the check can be repeated; superseded means that a login, rotation or sign-out overtook it,
  and its end leaves the store as it is.\<close>

theorem refresh_outcome_truthful:
  assumes "refresh_ended locks w0 w outcome w'"
  shows "outcome_ok w0 w outcome w'"
  using assms
proof cases
  case at_once
  then show ?thesis
    using transient_ok [of "w0\<lparr>refreshTask := t\<rparr>" w0 for t]
    by (auto simp: refreshAuthentication_def performRefreshWithBrowserLock_def run_enter_def finish_eq kept_session_def
        outcome_ok_def setBootstrapState_def credentials_def split: lock_manager.splits)
next
  case (resumed task r)
  let ?w1 = "fst (refreshAuthentication locks w0)"
  have e: "authEpoch ?w1 = authEpoch w0"
    by (auto simp: refreshAuthentication_def performRefreshWithBrowserLock_def split: option.splits lock_manager.splits)
  then have le: "authEpoch w0 \<le> authEpoch w" using auth_steps_epoch [OF resumed(2)] by simp
  have k: "kept_session w0 w" using auth_steps_kept [OF resumed(2)] e refresh_kept [of locks w0] by (simp add: kept_session_def)
  have enter: "outcome_ok w0 w outcome w'" if "run_enter n mm w = (w', Some outcome)" for n mm
    using that resumed(3,4) le superseded_ok [of w0 w] by (auto simp: run_enter_def finish_eq split: if_splits)
  have "outcome_ok w0 w outcome w'" if run: "run_response r w = (w', Some outcome)"
  proof (cases "authEpoch w = authEpoch w0")
    case True
    then show ?thesis
      using run resumed(3,4) handle_outcome [OF _ resumed(3) _ _ k]
      by (auto simp: run_response_def split: stage.splits)
  next
    case False
    then show ?thesis
      using run resumed(3,4) le superseded_ok [of w0 w] by (auto simp: run_response_def finish_eq split: stage.splits)
  qed
  then show ?thesis
    using resumed(3,5) enter by (auto simp: lock_granted_def delay_over_def split: stage.splits if_splits)
qed

text \<open>A refresh that waits for its lock while the user signs out.\<close>

definition lock_waiting :: auth_world where
  "lock_waiting = fst (refreshAuthentication Locks (logged_in (js ''s1'')))"

theorem refresh_outcome_truthful_witness:
  "outcome_ok (logged_in (js ''s1'')) (clearAuthentication True Checked lock_waiting) (Transient_error Superseded)
     (fst (lock_granted (clearAuthentication True Checked lock_waiting)))"
proof -
  let ?w = "clearAuthentication True Checked lock_waiting"
  have t: "refreshTask (logged_in (js ''s1'')) = None" "authEpoch (logged_in (js ''s1'')) = 1"
    by (simp_all add: logged_in_def initial_world_def)
  then have "refreshTask ?w = Some \<lparr>refreshEpoch = 1, r_stage = Lock_wait\<rparr>" "authEpoch ?w = 2"
    by (simp_all add: lock_waiting_def refreshAuthentication_def performRefreshWithBrowserLock_def)
  moreover from this have "lock_granted ?w = (fst (lock_granted ?w), Some (Transient_error Superseded))"
    by (simp add: lock_granted_def run_enter_def finish_def)
  moreover have "auth_steps (fst (refreshAuthentication Locks (logged_in (js ''s1'')))) ?w"
    unfolding lock_waiting_def by (blast intro: auth_steps.intros auth_step.intros)
  ultimately have "refresh_ended Locks (logged_in (js ''s1'')) ?w (Transient_error Superseded) (fst (lock_granted ?w))"
    using t by (intro resumed [where r = race_response]) (auto simp del: clear_simps)
  then show ?thesis by (rule refresh_outcome_truthful)
qed

section \<open>Rotation\<close>

text \<open>An accepted token rotation replaces the token and its expiry and keeps the user and the
  session; it is accepted only for the session that is active, and it overtakes a pending
  refresh.\<close>

theorem rotation_keeps_session:
  assumes "applyAuthRotation v w = Inr w'"
  shows "current_sid w' = current_sid w \<and> a_user (store w') = a_user (store w) \<and> a_user (store w) \<noteq> None \<and>
    accessToken (store w') = Some (text_of (field v ''access_token'')) \<and> signed_in (store w') \<and>
    published w' = published w \<and> authEpoch w < authEpoch w'"
proof -
  obtain u ss b where r: "a_user (store w) = Some u" "a_session (store w) = Some ss" "w' = applyAuthBundle b False w"
      "b_user b = u" "sid (b_session b) = sid ss" "access_token b \<noteq> []" "is_finite (access_expires_at b)"
      "lt_num (Fin 0) (access_expires_at b)" "sid (b_session b) \<noteq> []"
    using rotation_result [OF assms] by blast
  have "accessToken (store w') = Some (text_of (field v ''access_token''))"
    using assms by (auto simp: applyAuthRotation_def setBundle_def split: if_splits option.splits)
  then show ?thesis
    using r by (simp add: setBundle_def signed_in_def) (simp add: applyAuthBundle_def Let_def)
qed

theorem rotation_keeps_session_witness:
  "\<exists>w'. applyAuthRotation (sample_bundle (js ''s1'')) (logged_in (js ''s1'')) = Inr w' \<and>
     current_sid w' = Some (js ''s1'')"
proof -
  have g: "isAuthTokenRotation (sample_bundle (js ''s1''))"
    by (simp add: isAuthTokenRotation_def hasValidTokenFields_def isLoginSession_def isRecord_def
        sample_bundle_def sample_session_def)
  have s: "a_session (store (logged_in (js ''s1''))) = Some (b_session (bundle_of (sample_bundle (js ''s1''))))"
      "a_user (store (logged_in (js ''s1''))) = Some sample_user"
    by (simp_all add: logged_in_def setBundle_def sample_bundle_fields is_zero_def)
  have "sid (session_of (field (sample_bundle (js ''s1'')) ''session'')) = js ''s1''"
    by (simp add: sample_bundle_def session_of_def sample_session_def text_of_def)
  then obtain w' where r: "applyAuthRotation (sample_bundle (js ''s1'')) (logged_in (js ''s1'')) = Inr w'"
    using g s by (simp add: applyAuthRotation_def sample_bundle_fields)
  with rotation_keeps_session [OF r] s show ?thesis by (simp add: sample_bundle_fields)
qed

section \<open>Sign-out across tabs\<close>

text \<open>Signing out in one tab signs out every other tab of the same session that hears of it
  within a minute and sends it to the sign-in page, and hearing of it announces nothing
  further, so that tabs do not answer each other.\<close>

theorem sign_out_reaches_other_tabs:
  assumes "current_sid w1 = Some s" "current_sid w2 = Some s" "s \<noteq> []"
    and "e_source e \<noteq> own_source" "e_kind e = Signed_out_event" "e_sid e = s"
    and "lt_num (abs_num (sub_num (num_of_int now) (num_of_int (e_timestamp e)))) (Fin 60000)"
  shows "published (clearAuthentication True st w1) = published w1 @ [(e_kind e, e_sid e)] \<and>
    deliver own_source now (event_value e) = Some (e_kind e, e_sid e) \<and>
    signed_out (store (fst (sync_listener (e_kind e, e_sid e) w2))) \<and>
    snd (sync_listener (e_kind e, e_sid e) w2) = Go_sign_in \<and>
    published (fst (sync_listener (e_kind e, e_sid e) w2)) = published w2"
proof -
  have "deliver own_source now (event_value e) = Some (e_kind e, e_sid e)"
    by (rule published_event_accepted) (use assms in auto)
  moreover have "published (clearAuthentication True st w1) = published w1 @ [(e_kind e, e_sid e)]"
    using assms by (auto simp: clearAuthentication_def publishAuthSessionEvent_def Let_def)
  ultimately show ?thesis
    using assms by (auto simp: sync_listener_def) (simp_all add: clearAuthentication_def Let_def)
qed

theorem sign_out_reaches_other_tabs_witness:
  "signed_out (store (fst (sync_listener (Signed_out_event, js ''s1'') (logged_in (js ''s1'')))))"
proof -
  have s: "current_sid (logged_in (js ''s1'')) = Some (js ''s1'')"
    by (simp add: logged_in_def setBundle_def sample_bundle_fields is_zero_def)
  show ?thesis
    using sign_out_reaches_other_tabs [OF s s, of "\<lparr>e_kind = Signed_out_event, e_sid = js ''s1'', e_source = js ''a'',
        e_nonce = [], e_timestamp = 5\<rparr>" "js ''b''" 5 Checked]
    by (simp add: sub_num_def)
qed

section \<open>The session hint\<close>

text \<open>Skipping the refresh for want of a session hint records nothing: the state is unchanged,
  so that a later resolution still asks the server.\<close>

theorem hintless_bootstrap_harmless:
  assumes "currentValidAuthBundle now (store w) = None" "\<not> hasSessionHint cookie"
    and "a_user (store w) = None" "a_session (store w) = None"
    and "bootstrapState (store w) \<noteq> Checked" "refreshTask w = None"
  shows "bootstrapAuthentication cookie now locks w = (w, Some Anonymous) \<and>
    (\<exists>task. refreshTask (fst (resolveAuthentication now' No_locks w)) = Some task \<and>
      r_stage task = Response_wait 0 True None)"
proof -
  have "currentValidAuthBundle now' (store w) = None"
    using assms(3) by (simp add: currentValidAuthBundle_def)
  then show ?thesis
    using assms by (simp add: bootstrapAuthentication_def resolveAuthentication_def refreshAuthentication_def
        performRefreshWithBrowserLock_def run_enter_def setBootstrapState_def)
qed

theorem hintless_bootstrap_harmless_witness:
  "bootstrapAuthentication (Some (js ''theme'')) 0 Locks initial_world = (initial_world, Some Anonymous)"
proof -
  have "\<not> hasSessionHint (Some (js ''theme''))"
    by (simp add: hasSessionHint_def readCookie_def js_Cons)
  then show ?thesis
    using hintless_bootstrap_harmless [of 0 initial_world "Some (js ''theme'')" Locks 0]
    by (simp add: initial_world_def initial_auth_def currentValidAuthBundle_def)
qed

section \<open>Cookies\<close>

text \<open>The header a browser builds from cookies.\<close>

definition cookie_header :: "(jsstr \<times> jsstr) list \<Rightarrow> jsstr" where
  "cookie_header cs = join (js ''; '') (map (\<lambda>(n, v). n @ js ''='' @ v) cs)"

definition cookie_ok :: "jsstr \<times> jsstr \<Rightarrow> bool" where
  "cookie_ok c \<longleftrightarrow> (case c of (n, v) \<Rightarrow> n \<noteq> [] \<and> trim n = n \<and> trim v = v \<and>
     59 \<notin> set n \<and> 61 \<notin> set n \<and> 59 \<notin> set v)"

lemma index_of_app: "c \<notin> set a \<Longrightarrow> index_of c (a @ c # b) = Some (length a)"
  by (induction a) auto

lemma trim_space: "trim (32 # s) = trim s"
  by (simp add: trim_def is_space_def)

lemma read_one:
  assumes "cookie_ok (n, v)" "pre = [] \<or> pre = [32]"
  shows "read_parts ((pre @ n @ 61 # v) # rest) name = (if n = name then Some v else read_parts rest name)"
proof -
  have i: "index_of 61 (pre @ n @ 61 # v) = Some (length (pre @ n))"
    using assms index_of_app [of 61 "pre @ n" v] by (auto simp: cookie_ok_def)
  have "trim (pre @ n) = n" using assms by (auto simp: cookie_ok_def trim_space)
  then show ?thesis using i assms(1) by (simp add: cookie_ok_def)
qed

lemma read_cookie_header:
  "\<forall>c\<in>set cs. cookie_ok c \<Longrightarrow> pre = [] \<or> pre = [32] \<Longrightarrow>
   read_parts (split_on 59 (pre @ cookie_header cs)) name = map_of cs name"
proof (induction cs arbitrary: pre)
  case Nil
  then show ?case by (auto simp: cookie_header_def)
next
  case (Cons c cs)
  obtain n v where c: "c = (n, v)" by force
  let ?part = "pre @ n @ 61 # v"
  have ok: "cookie_ok (n, v)" and p: "59 \<notin> set ?part" using Cons.prems c by (auto simp: cookie_ok_def)
  have "split_on 59 (pre @ cookie_header (c # cs)) =
      ?part # (if cs = [] then [] else split_on 59 ([32] @ cookie_header cs))"
  proof (cases cs)
    case Nil
    then show ?thesis using p split_on_none [of 59 ?part] c by (simp add: cookie_header_def js_Cons)
  next
    case (Cons d ds)
    then have "pre @ cookie_header (c # cs) = ?part @ 59 # [32] @ cookie_header cs"
      using c by (simp add: cookie_header_def js_Cons)
    then show ?thesis using Cons split_on_app [OF p, of "[32] @ cookie_header cs"] by simp
  qed
  moreover have "read_parts (if cs = [] then [] else split_on 59 ([32] @ cookie_header cs)) name = map_of cs name"
    using Cons.IH [of "[32]"] Cons.prems(1) by auto
  ultimately show ?case
    using read_one [OF ok Cons.prems(2)] c by simp
qed

text \<open>Reading a cookie from the header the browser builds returns the value of the first
  cookie with that name, and nothing when there is none.\<close>

theorem cookie_round_trip:
  assumes "list_all cookie_ok cs"
  shows "readCookie (cookie_header cs) name = map_of cs name"
  using read_cookie_header [of cs "[]" name] assms by (simp add: readCookie_def list_all_iff)

theorem cookie_round_trip_witness:
  "readCookie (cookie_header [(js ''a'', js ''1''), (SESSION_HINT_COOKIE_NAME, js ''1'')]) SESSION_HINT_COOKIE_NAME =
     Some (js ''1'')"
  by (subst cookie_round_trip)
     (simp_all add: cookie_ok_def SESSION_HINT_COOKIE_NAME_def trim_def is_space_def js_Cons)

section \<open>Request headers\<close>

text \<open>Headers for a request carry the token of the store: those returned without a refresh
  have a token that is valid for more than a minute, and after a failed refresh headers are
  returned only for a token that has not expired.\<close>

theorem fresh_headers_carry_token:
  "(getFreshAuthHeaders tag now locks w = Inr headers \<longrightarrow>
     (\<exists>token. accessToken (store w) = Some token \<and> token_valid_after (now div 1000 + 60) (store w) \<and>
       map_of headers (js ''Authorization'') = Some (js ''Bearer '' @ token))) \<and>
   (fresh_headers_after tag now outcome w = Inr headers \<and> (\<forall>b. outcome \<noteq> Authenticated b) \<longrightarrow>
     (\<exists>token. accessToken (store w) = Some token \<and> token_valid_after (now div 1000) (store w) \<and>
       map_of headers (js ''Authorization'') = Some (js ''Bearer '' @ token)))"
proof -
  have "token_valid_after time (store w) \<Longrightarrow> \<exists>token. accessToken (store w) = Some token \<and>
      map_of (getCommonHeaders tag (store w)) (js ''Authorization'') = Some (js ''Bearer '' @ token)" for time
    by (auto simp: token_valid_after_def getCommonHeaders_def split: option.splits)
  then show ?thesis
    by (cases outcome) (auto simp: getFreshAuthHeaders_def fresh_headers_after_def split: if_splits)
qed

theorem fresh_headers_carry_token_witness:
  "\<exists>token. accessToken (store (logged_in (js ''s1''))) = Some token \<and>
     map_of (getCommonHeaders (js ''en'') (store (logged_in (js ''s1'')))) (js ''Authorization'') =
       Some (js ''Bearer '' @ token)"
proof -
  have "getFreshAuthHeaders (js ''en'') 0 No_locks (logged_in (js ''s1'')) =
      Inr (getCommonHeaders (js ''en'') (store (logged_in (js ''s1''))))"
    by (simp add: getFreshAuthHeaders_def token_valid_after_def logged_in_def setBundle_def sample_bundle_fields is_zero_def)
  with fresh_headers_carry_token [of "js ''en''" 0 No_locks "logged_in (js ''s1'')"
      "getCommonHeaders (js ''en'') (store (logged_in (js ''s1'')))" Anonymous]
  show ?thesis by blast
qed

end
