(* ===== verification/Video_Task.thy ===== *)
theory Video_Task
  imports Js_Value
begin

text \<open>
  Tasks of the video playground (\<open>features/video-playground\<close>): the errors of its requests
  (\<open>lib/errors.ts\<close>), API keys (\<open>lib/keys.ts\<close>), the request layer (\<open>lib/v1-client.ts\<close>), the
  models a key may use (\<open>lib/models.ts\<close>), the status of a task and the validation of its
  artifacts (\<open>lib/task.ts\<close>), the registry of the keys of running tasks
  (\<open>lib/task-key-registry.ts\<close>) and the two calls that use it, the submission and the poll of a
  task (\<open>api.ts\<close>).  The URL parser of the browser and the two schemas that read responses are
  functions of the record \<open>video_host\<close>.
\<close>

section \<open>Errors\<close>

datatype error_source = System_source jsstr | Upstream_source jsstr

record playground_error =
  pe_source :: error_source
  pe_httpStatus :: "nat option"
  pe_terminal :: bool

text \<open>What a request may throw: an error of the playground, the cancellation, or anything else.\<close>

datatype video_failure = Playground_failure playground_error | Abort_failure | Other_failure jsstr

definition RECOVERABLE_TASK_STATUS_CODES :: "nat list" where
  "RECOVERABLE_TASK_STATUS_CODES = [408, 425, 429]"

definition system_error :: "string \<Rightarrow> nat option \<Rightarrow> bool \<Rightarrow> video_failure" where
  "system_error key status ended =
     Playground_failure \<lparr>pe_source = System_source (js key), pe_httpStatus = status, pe_terminal = ended\<rparr>"

definition upstream_error :: "jsstr \<Rightarrow> nat option \<Rightarrow> video_failure" where
  "upstream_error message status =
     Playground_failure \<lparr>pe_source = Upstream_source message, pe_httpStatus = status, pe_terminal = False\<rparr>"

definition isRecoverableTaskError :: "video_failure \<Rightarrow> bool" where
  "isRecoverableTaskError e =
     (case e of
        Playground_failure p \<Rightarrow>
          if pe_terminal p then False
          else (case pe_httpStatus p of
                  None \<Rightarrow> True
                | Some status \<Rightarrow>
                    if 400 \<le> status \<and> status < 500 then status \<in> set RECOVERABLE_TASK_STATUS_CODES else True)
      | _ \<Rightarrow> True)"

definition videoPlaygroundErrorText :: "(jsstr \<Rightarrow> jsstr) \<Rightarrow> playground_error \<Rightarrow> jsstr" where
  "videoPlaygroundErrorText translate e =
     (case pe_source e of System_source key \<Rightarrow> translate key | Upstream_source message \<Rightarrow> message)"

definition trimmed_message :: "jsval \<Rightarrow> jsstr option" where
  "trimmed_message v = (case v of JStr s \<Rightarrow> if trim s \<noteq> [] then Some (trim s) else None | _ \<Rightarrow> None)"

definition extractServerErrorFromBody :: "jsval \<Rightarrow> jsstr option" where
  "extractServerErrorFromBody data =
     (if \<not> truthy data \<or> \<not> typeof_object data then None
      else
        let problem = field data ''error''
        in case trimmed_message problem of
             Some message \<Rightarrow> Some message
           | None \<Rightarrow>
               (case (if typeof_object problem \<and> truthy problem then trimmed_message (field problem ''message'') else None) of
                  Some message \<Rightarrow> Some message
                | None \<Rightarrow> trimmed_message (field data ''message'')))"

section \<open>API keys\<close>

record api_key =
  ak_id :: jsnum
  ak_name :: jsstr
  ak_key :: jsstr
  ak_status :: jsnum
  ak_created_time :: jsnum
  ak_expired_time :: jsnum
  ak_remain_quota :: jsnum
  ak_unlimited_quota :: bool

record key_option =
  ko_id :: jsnum
  ko_name :: jsstr
  ko_maskedKey :: jsstr
  ko_status :: jsnum
  ko_createdTime :: jsnum

definition isUsableVideoApiKey :: "jsnum \<Rightarrow> api_key \<Rightarrow> jsnum \<Rightarrow> bool" where
  "isUsableVideoApiKey enabled key nowSeconds =
     (if \<not> eq_num (ak_status key) enabled then False
      else if lt_num (Fin 0) (ak_expired_time key) \<and> le_num (ak_expired_time key) nowSeconds then False
      else if \<not> ak_unlimited_quota key \<and> le_num (ak_remain_quota key) (Fin 0) then False
      else True)"

definition toVideoApiKeyOption :: "api_key \<Rightarrow> key_option" where
  "toVideoApiKeyOption key = \<lparr>ko_id = ak_id key, ko_name = ak_name key, ko_maskedKey = ak_key key,
     ko_status = ak_status key, ko_createdTime = ak_created_time key\<rparr>"

text \<open>The comparison of the sort: the oldest key first, keys of the same time by their number.\<close>

definition key_before :: "key_option \<Rightarrow> key_option \<Rightarrow> bool" where
  "key_before a b =
     (if \<not> eq_num (ko_createdTime a) (ko_createdTime b)
      then lt_num (sub_num (ko_createdTime a) (ko_createdTime b)) (Fin 0)
      else lt_num (sub_num (ko_id a) (ko_id b)) (Fin 0))"

text \<open>The first element of the sorted list: the leftmost one that no other one precedes.\<close>

fun first_key :: "key_option \<Rightarrow> key_option list \<Rightarrow> key_option" where
  "first_key best [] = best"
| "first_key best (k # ks) = first_key (if key_before k best then k else best) ks"

definition pickDefaultVideoApiKey :: "key_option list \<Rightarrow> key_option option" where
  "pickDefaultVideoApiKey ks = (case ks of [] \<Rightarrow> None | k # rest \<Rightarrow> Some (first_key k rest))"

definition has_key_prefix :: "jsstr \<Rightarrow> bool" where
  "has_key_prefix s \<longleftrightarrow>
     (case s of a # b # c # _ \<Rightarrow> (a = 115 \<or> a = 83) \<and> (b = 107 \<or> b = 75) \<and> c = 45 | _ \<Rightarrow> False)"

definition bearerApiKey :: "jsstr \<Rightarrow> jsstr" where
  "bearerApiKey raw = (let trimmed = trim raw in if has_key_prefix trimmed then trimmed else js ''sk-'' @ trimmed)"

section \<open>The request layer\<close>

text \<open>What happens during a request: the outcome of the fetch, with the status and the outcome
  of reading the body, and whether the signal was aborted when each of the two was over.\<close>

record exchange =
  ex_fetch :: "video_failure + nat \<times> (video_failure + jsval)"
  ex_aborted_fetch :: bool
  ex_aborted_body :: bool

definition isAbortError :: "video_failure \<Rightarrow> bool" where
  "isAbortError e \<longleftrightarrow> e = Abort_failure"

definition request_headers :: "jsstr \<Rightarrow> jsstr option \<Rightarrow> bool \<Rightarrow> (jsstr \<times> jsstr) list" where
  "request_headers apiKey language has_body =
     [(js ''Authorization'', js ''Bearer '' @ bearerApiKey apiKey), (js ''Accept'', js ''application/json'')] @
     (case language of Some l \<Rightarrow> if l \<noteq> [] then [(js ''Accept-Language'', l)] else [] | None \<Rightarrow> []) @
     (if has_body then [(js ''Content-Type'', js ''application/json'')] else [])"

text \<open>The answer after the body was read.\<close>

definition answer_of :: "string \<Rightarrow> nat \<Rightarrow> bool \<Rightarrow> jsval \<Rightarrow> video_failure + jsval" where
  "answer_of fallback status aborted payload =
     (if aborted then Inl Abort_failure
      else if \<not> (200 \<le> status \<and> status < 300) then
        Inl (case extractServerErrorFromBody payload of
               Some message \<Rightarrow> upstream_error message (Some status)
             | None \<Rightarrow> system_error fallback (Some status) False)
      else Inr payload)"

definition requestWithApiKey :: "string \<Rightarrow> exchange \<Rightarrow> video_failure + jsval" where
  "requestWithApiKey fallback ex =
     (case ex_fetch ex of
        Inl e \<Rightarrow> Inl (if isAbortError e \<or> ex_aborted_fetch ex then Abort_failure else system_error fallback None False)
      | Inr (status, read) \<Rightarrow>
          if ex_aborted_fetch ex then Inl Abort_failure
          else
            (case read of
               Inl e \<Rightarrow>
                 if isAbortError e \<or> ex_aborted_body ex then Inl Abort_failure
                 else answer_of fallback status (ex_aborted_body ex) JUndef
             | Inr payload \<Rightarrow> answer_of fallback status (ex_aborted_body ex) payload))"

section \<open>Models\<close>

definition OPENAI_VIDEO_ENDPOINT_TYPE :: jsstr where
  "OPENAI_VIDEO_ENDPOINT_TYPE = js ''openai-video''"

definition video_model_id :: "jsval \<Rightarrow> jsstr option" where
  "video_model_id entry =
     (if \<not> truthy entry \<or> \<not> typeof_object entry then None
      else case field entry ''id'' of
        JStr name \<Rightarrow>
          if trim name = [] then None
          else (case field entry ''supported_endpoint_types'' of
                  JArr endpoints \<Rightarrow> if JStr OPENAI_VIDEO_ENDPOINT_TYPE \<in> set endpoints then Some name else None
                | _ \<Rightarrow> None)
      | _ \<Rightarrow> None)"

fun collect_models :: "jsval list \<Rightarrow> jsstr list \<Rightarrow> jsstr list" where
  "collect_models [] seen = seen"
| "collect_models (entry # entries) seen =
     (case video_model_id entry of
        None \<Rightarrow> collect_models entries seen
      | Some name \<Rightarrow> collect_models entries (set_add seen name))"

text \<open>The identifiers of the options; the label of an option is its identifier.\<close>

definition parseVideoModels :: "jsval \<Rightarrow> jsstr list" where
  "parseVideoModels payload =
     (if \<not> truthy payload \<or> \<not> typeof_object payload then []
      else case field payload ''data'' of JArr entries \<Rightarrow> collect_models entries [] | _ \<Rightarrow> [])"

section \<open>Artifacts of a task\<close>

record parsed_url =
  u_protocol :: jsstr
  u_hostname :: jsstr
  u_username :: jsstr
  u_password :: jsstr
  u_pathname :: jsstr
  u_search :: jsstr
  u_hash :: jsstr

record task_dto =
  td_task_id :: jsstr
  td_status :: jsstr
  td_fail_reason :: "jsstr option"

text \<open>\<open>new URL(text)\<close>, the schema of a status response and the schema of a submission response
  with its two optional identifiers; \<open>None\<close> is a thrown error.\<close>

record video_host =
  vh_url :: "jsstr \<Rightarrow> parsed_url option"
  vh_task_schema :: "jsval \<Rightarrow> task_dto option"
  vh_submit_schema :: "jsval \<Rightarrow> (jsstr option \<times> jsstr option) option"

definition VIDEO_TASK_SUCCESS :: jsstr where
  "VIDEO_TASK_SUCCESS = js ''SUCCESS''"

definition VIDEO_TASK_FAILURE :: jsstr where
  "VIDEO_TASK_FAILURE = js ''FAILURE''"

definition VIDEO_TASK_POLL_INTERVAL_MS :: nat where
  "VIDEO_TASK_POLL_INTERVAL_MS = 5000"

record video_task =
  vt_task_id :: jsstr
  vt_status :: jsstr
  vt_fail_reason :: "jsstr option"
  vt_content_url :: "jsstr option option"

definition parseVideoTask :: "video_host \<Rightarrow> jsval \<Rightarrow> video_task option" where
  "parseVideoTask h data =
     map_option (\<lambda>d. \<lparr>vt_task_id = td_task_id d, vt_status = td_status d,
       vt_fail_reason = (case td_fail_reason d of Some r \<Rightarrow> if trim r \<noteq> [] then Some r else None | None \<Rightarrow> None),
       vt_content_url = None\<rparr>) (vh_task_schema h data)"

definition parseVideoSubmitTaskId :: "video_host \<Rightarrow> jsval \<Rightarrow> jsstr option" where
  "parseVideoSubmitTaskId h data =
     map_option (\<lambda>(name, task_name). case task_name of Some t \<Rightarrow> t | None \<Rightarrow> (case name of Some i \<Rightarrow> i | None \<Rightarrow> []))
       (vh_submit_schema h data)"

definition artifactContractError :: video_failure where
  "artifactContractError = system_error ''Failed to load video status'' None True"

definition is_alnum :: "code_unit \<Rightarrow> bool" where
  "is_alnum c \<longleftrightarrow> is_digit c \<or> 65 \<le> c \<and> c \<le> 90 \<or> 97 \<le> c \<and> c \<le> 122"

definition artifact_key_pattern :: "jsstr \<Rightarrow> bool" where
  "artifact_key_pattern s \<longleftrightarrow>
     (case s of
        [] \<Rightarrow> False
      | c # r \<Rightarrow> is_alnum c \<and> length r \<le> 127 \<and>
          list_all (\<lambda>d. is_alnum d \<or> d = 46 \<or> d = 95 \<or> d = 126 \<or> d = 45) r)"

definition artifact_access_pattern :: "jsstr \<Rightarrow> bool" where
  "artifact_access_pattern s \<longleftrightarrow> length s = 43 \<and> list_all (\<lambda>d. is_alnum d \<or> d = 95 \<or> d = 45) s"

definition MAX_VIDEO_TASK_ARTIFACTS :: nat where
  "MAX_VIDEO_TASK_ARTIFACTS = 64"

definition LEGACY_VIDEO_ARTIFACT_KEY :: jsstr where
  "LEGACY_VIDEO_ARTIFACT_KEY = js ''video''"

definition ARTIFACT_TYPES :: "jsstr list" where
  "ARTIFACT_TYPES = map js [''image'', ''video'', ''audio'', ''file'']"

record validated_artifact =
  va_key :: jsstr
  va_type :: jsstr
  va_mimeType :: "jsstr option"
  va_contentUrl :: jsstr

definition isPlainRecord :: "jsval \<Rightarrow> bool" where
  "isPlainRecord v \<longleftrightarrow> typeof_object v \<and> v \<noteq> JNull \<and> \<not> is_array v"

definition hasControlCharacter :: "jsstr \<Rightarrow> bool" where
  "hasControlCharacter s \<longleftrightarrow> list_ex (\<lambda>c. c \<le> 31 \<or> c = 127) s"

text \<open>\<open>decodeURIComponent\<close>: an escape is a byte; a byte above 127 starts a UTF-8 sequence whose
  further bytes are escapes too.  A malformed sequence is \<open>None\<close>.\<close>

definition hex_digit :: "code_unit \<Rightarrow> nat" where
  "hex_digit c = (if is_digit c then c - 48 else if 97 \<le> c then c - 87 else c - 55)"

fun escaped_byte :: "jsstr \<Rightarrow> (nat \<times> jsstr) option" where
  "escaped_byte (p # a # b # r) =
     (if p = 37 \<and> is_hex a \<and> is_hex b then Some (16 * hex_digit a + hex_digit b, r) else None)"
| "escaped_byte _ = None"

fun continuation :: "nat \<Rightarrow> nat \<Rightarrow> jsstr \<Rightarrow> (nat \<times> jsstr) option" where
  "continuation 0 acc r = Some (acc, r)"
| "continuation (Suc n) acc r =
     (case escaped_byte r of
        None \<Rightarrow> None
      | Some (b, r') \<Rightarrow> if 128 \<le> b \<and> b < 192 then continuation n (acc * 64 + (b - 128)) r' else None)"

definition code_point_units :: "nat \<Rightarrow> jsstr" where
  "code_point_units v =
     (if v < 65536 then [v] else [55296 + (v - 65536) div 1024, 56320 + (v - 65536) mod 1024])"

definition escaped_point :: "jsstr \<Rightarrow> (nat \<times> jsstr) option" where
  "escaped_point r =
     (case escaped_byte r of
        None \<Rightarrow> None
      | Some (b, r') \<Rightarrow>
          if b < 128 then Some (b, r')
          else if 194 \<le> b \<and> b < 224 then continuation 1 (b - 192) r'
          else if 224 \<le> b \<and> b < 240 then
            (case continuation 2 (b - 224) r' of
               Some (v, r'') \<Rightarrow> if 2048 \<le> v \<and> \<not> (55296 \<le> v \<and> v < 57344) then Some (v, r'') else None
             | None \<Rightarrow> None)
          else if 240 \<le> b \<and> b < 245 then
            (case continuation 3 (b - 240) r' of
               Some (v, r'') \<Rightarrow> if 65536 \<le> v \<and> v < 1114112 then Some (v, r'') else None
             | None \<Rightarrow> None)
          else None)"

lemma escaped_byte_shorter: "escaped_byte r = Some (b, r') \<Longrightarrow> length r' < length r"
  by (induction r rule: escaped_byte.induct) (auto split: if_splits)

lemma continuation_shorter: "continuation n acc r = Some (v, r') \<Longrightarrow> length r' \<le> length r"
  by (induction n acc r rule: continuation.induct)
     (fastforce split: option.splits if_splits dest: escaped_byte_shorter)+

lemma escaped_point_shorter: "escaped_point r = Some (v, r') \<Longrightarrow> length r' < length r"
  by (auto simp: escaped_point_def split: option.splits if_splits
      dest!: escaped_byte_shorter continuation_shorter)

function decodeURIComponent :: "jsstr \<Rightarrow> jsstr option" where
  "decodeURIComponent [] = Some []"
| "decodeURIComponent (c # r) =
     (if c \<noteq> 37 then map_option ((#) c) (decodeURIComponent r)
      else case escaped_point (c # r) of
             None \<Rightarrow> None
           | Some (v, r') \<Rightarrow> map_option ((@) (code_point_units v)) (decodeURIComponent r'))"
  by pat_completeness auto
termination
  by (relation "measure length") (auto dest: escaped_point_shorter)

text \<open>The text between the first \<open>//\<close> and the next \<open>/\<close>, \<open>?\<close> or \<open>#\<close>; without \<open>//\<close> the search gives
  \<open>-1\<close> and the text starts at the second character.\<close>

fun after_slashes :: "jsstr \<Rightarrow> jsstr option" where
  "after_slashes [] = None"
| "after_slashes (c # r) = (if starts_with (c # r) [47, 47] then Some (tl r) else after_slashes r)"

definition authority :: "jsstr \<Rightarrow> jsstr" where
  "authority raw =
     takeWhile (\<lambda>c. c \<notin> {47, 63, 35}) (case after_slashes raw of Some r \<Rightarrow> r | None \<Rightarrow> drop 1 raw)"

definition has_escaped_slash :: "jsstr \<Rightarrow> bool" where
  "has_escaped_slash s \<longleftrightarrow> str_includes s [37, 50, 102] \<or> str_includes s [37, 50, 70]"

definition capability_path :: "jsstr \<Rightarrow> jsstr \<Rightarrow> jsstr" where
  "capability_path taskId artifactKey =
     js ''/v1/tasks/'' @ taskId @ js ''/artifacts/'' @ artifactKey @ js ''/content''"

definition capability_suffix :: "jsstr \<Rightarrow> jsstr \<Rightarrow> bool" where
  "capability_suffix path cap =
     (if path = cap then True
      else if \<not> ends_with path cap then False
      else
        let before = take (length path - length cap) path
        in before = [] \<or> (starts_with before [47] \<and> \<not> str_includes before (js ''/v1/tasks/'')))"

definition capability_parts :: "parsed_url \<Rightarrow> jsstr \<Rightarrow> jsstr \<Rightarrow> jsstr \<Rightarrow> bool" where
  "capability_parts parsed raw taskId artifactKey =
     (if u_protocol parsed \<noteq> js ''http:'' \<and> u_protocol parsed \<noteq> js ''https:'' then False
      else if u_hostname parsed = [] then False
      else if u_username parsed \<noteq> [] \<or> u_password parsed \<noteq> [] then False
      else if str_includes (authority raw) [64] then False
      else if u_hash parsed \<noteq> [] then False
      else if \<not> starts_with (u_search parsed) (js ''?access='') then False
      else if \<not> artifact_access_pattern (drop 8 (u_search parsed)) then False
      else if has_escaped_slash (u_pathname parsed) then False
      else case decodeURIComponent (u_pathname parsed) of
             None \<Rightarrow> False
           | Some path \<Rightarrow>
               if hasControlCharacter path \<or> str_includes path [92] then False
               else capability_suffix path (capability_path taskId artifactKey))"

definition isVideoArtifactCapabilityUrl :: "video_host \<Rightarrow> jsval \<Rightarrow> jsstr \<Rightarrow> jsstr \<Rightarrow> bool" where
  "isVideoArtifactCapabilityUrl h v taskId artifactKey =
     (case v of
        JStr raw \<Rightarrow>
          if raw = [] \<or> raw \<noteq> trim raw then False
          else if hasControlCharacter raw \<or> str_includes raw [92] \<or> str_includes raw [35] then False
          else (case vh_url h raw of None \<Rightarrow> False | Some parsed \<Rightarrow> capability_parts parsed raw taskId artifactKey)
      | _ \<Rightarrow> False)"

definition bad_mime :: "jsval \<Rightarrow> bool" where
  "bad_mime v =
     (if v = JUndef then False else case v of JStr m \<Rightarrow> 255 < length m \<or> hasControlCharacter m | _ \<Rightarrow> True)"

definition validateArtifactFields :: "video_host \<Rightarrow> jsval \<Rightarrow> jsstr \<Rightarrow> video_failure + validated_artifact" where
  "validateArtifactFields h item taskId =
     (if \<not> isPlainRecord item then Inl artifactContractError
      else case field item ''key'' of
        JStr key \<Rightarrow>
          if \<not> artifact_key_pattern key then Inl artifactContractError
          else (case field item ''type'' of
            JStr kind \<Rightarrow>
              if kind = [] \<or> kind \<notin> set ARTIFACT_TYPES then Inl artifactContractError
              else if bad_mime (field item ''mime_type'') then Inl artifactContractError
              else if \<not> isVideoArtifactCapabilityUrl h (field item ''content_url'') taskId key then Inl artifactContractError
              else Inr \<lparr>va_key = key, va_type = kind, va_mimeType = as_str (field item ''mime_type''),
                     va_contentUrl = text_of (field item ''content_url'')\<rparr>
          | _ \<Rightarrow> Inl artifactContractError)
      | _ \<Rightarrow> Inl artifactContractError)"

definition isPlayableVideoArtifact :: "validated_artifact \<Rightarrow> bool" where
  "isPlayableVideoArtifact a \<longleftrightarrow> va_type a = js ''video''"

fun scan_artifacts ::
  "video_host \<Rightarrow> jsstr \<Rightarrow> jsval list \<Rightarrow> jsstr list \<Rightarrow> jsstr option \<Rightarrow> video_failure + jsstr option" where
  "scan_artifacts h taskId [] seen videoUrl = Inr videoUrl"
| "scan_artifacts h taskId (item # items) seen videoUrl =
     res_bind (validateArtifactFields h item taskId) (\<lambda>a.
       if va_key a \<in> set seen then Inl artifactContractError
       else scan_artifacts h taskId items (va_key a # seen)
              (if videoUrl = None \<and> isPlayableVideoArtifact a then Some (va_contentUrl a) else videoUrl))"

definition bad_artifacts :: "jsval \<Rightarrow> bool" where
  "bad_artifacts v =
     (if v = JUndef then False
      else case v of JArr items \<Rightarrow> MAX_VIDEO_TASK_ARTIFACTS < length items | _ \<Rightarrow> True)"

definition pickVideoArtifactContentUrl :: "video_host \<Rightarrow> jsval \<Rightarrow> jsstr \<Rightarrow> video_failure + jsstr option" where
  "pickVideoArtifactContentUrl h data taskId =
     (if \<not> isPlainRecord data then Inl artifactContractError
      else case field data ''task_id'' of
        JStr t \<Rightarrow>
          if trim t = [] \<or> t \<noteq> taskId then Inl artifactContractError
          else if bad_artifacts (field data ''artifacts'') then Inl artifactContractError
          else
            let items = (case field data ''artifacts'' of JArr items \<Rightarrow> items | _ \<Rightarrow> []);
                legacy = field data ''legacy_content_url''
            in res_bind (scan_artifacts h taskId items [] None) (\<lambda>videoUrl.
                 if legacy = JUndef then Inr videoUrl
                 else if \<not> isVideoArtifactCapabilityUrl h legacy taskId LEGACY_VIDEO_ARTIFACT_KEY
                   then Inl artifactContractError
                 else Inr (case videoUrl of Some u \<Rightarrow> Some u | None \<Rightarrow> Some (text_of legacy)))
      | _ \<Rightarrow> Inl artifactContractError)"

definition isTerminalVideoTaskStatus :: "jsstr \<Rightarrow> bool" where
  "isTerminalVideoTaskStatus status \<longleftrightarrow> status = VIDEO_TASK_SUCCESS \<or> status = VIDEO_TASK_FAILURE"

text \<open>\<open>None\<close> is \<open>false\<close>: no further poll.\<close>

definition videoTaskPollInterval :: "jsstr option \<Rightarrow> nat option" where
  "videoTaskPollInterval status =
     (case status of
        None \<Rightarrow> None
      | Some s \<Rightarrow> if s = [] \<or> isTerminalVideoTaskStatus s then None else Some VIDEO_TASK_POLL_INTERVAL_MS)"

section \<open>The registry of keys, submission and polling\<close>

type_synonym key_registry = "(jsstr \<times> jsstr) list"

definition rememberTaskApiKey :: "jsstr \<Rightarrow> jsstr \<Rightarrow> key_registry \<Rightarrow> key_registry" where
  "rememberTaskApiKey taskId apiKey keys = omap_set taskId apiKey keys"

definition lookupTaskApiKey :: "jsstr \<Rightarrow> key_registry \<Rightarrow> jsstr option" where
  "lookupTaskApiKey taskId keys = map_of keys taskId"

definition forgetTaskApiKey :: "jsstr \<Rightarrow> key_registry \<Rightarrow> key_registry" where
  "forgetTaskApiKey taskId keys = omap_delete taskId keys"

definition clearAllTaskApiKeys :: "key_registry \<Rightarrow> key_registry" where
  "clearAllTaskApiKeys keys = []"

text \<open>The end of a submission: the answer, and whether the signal was aborted when it was
  complete.  A result binds the identifier of the task to the key.\<close>

definition postVideoGeneration ::
  "video_host \<Rightarrow> jsstr \<Rightarrow> video_failure + jsval \<Rightarrow> bool \<Rightarrow> key_registry \<Rightarrow> (video_failure + jsstr) \<times> key_registry" where
  "postVideoGeneration h apiKey answer aborted keys =
     (case answer of
        Inl e \<Rightarrow> (Inl e, keys)
      | Inr response \<Rightarrow>
          (case extractServerErrorFromBody response of
             Some message \<Rightarrow> (Inl (upstream_error message None), keys)
           | None \<Rightarrow>
               (case parseVideoSubmitTaskId h response of
                  None \<Rightarrow> (Inl (system_error ''Video generation failed'' None False), keys)
                | Some taskId \<Rightarrow>
                    if aborted then (Inl Abort_failure, keys)
                    else (Inr taskId, rememberTaskApiKey taskId apiKey keys))))"

text \<open>A poll asks for the status with the key of the task, and after a success for the artifacts.
  The three parts of \<open>getVideoTask\<close> end where it waits for an answer.\<close>

definition poll_key :: "jsstr \<Rightarrow> key_registry \<Rightarrow> video_failure + jsstr" where
  "poll_key taskId keys =
     (case lookupTaskApiKey taskId keys of
        Some k \<Rightarrow> if k = [] then Inl (system_error ''Failed to load video status'' None True) else Inr k
      | None \<Rightarrow> Inl (system_error ''Failed to load video status'' None True))"

definition drop_unless_recoverable :: "video_failure \<Rightarrow> jsstr \<Rightarrow> key_registry \<Rightarrow> key_registry" where
  "drop_unless_recoverable e taskId keys =
     (if isRecoverableTaskError e then keys else forgetTaskApiKey taskId keys)"

datatype poll_progress = Poll_failed video_failure | Poll_done video_task | Poll_artifacts video_task

definition poll_status ::
  "video_host \<Rightarrow> jsstr \<Rightarrow> video_failure + jsval \<Rightarrow> key_registry \<Rightarrow> poll_progress \<times> key_registry" where
  "poll_status h taskId answer keys =
     (case answer of
        Inl e \<Rightarrow> (Poll_failed e, drop_unless_recoverable e taskId keys)
      | Inr payload \<Rightarrow>
          (case parseVideoTask h payload of
             None \<Rightarrow> (Poll_failed (system_error ''Failed to load video status'' None True), forgetTaskApiKey taskId keys)
           | Some task \<Rightarrow>
               if vt_status task = VIDEO_TASK_FAILURE then (Poll_done task, forgetTaskApiKey taskId keys)
               else if vt_status task \<noteq> VIDEO_TASK_SUCCESS then (Poll_done task, keys)
               else (Poll_artifacts task, keys)))"

definition poll_artifacts ::
  "video_host \<Rightarrow> jsstr \<Rightarrow> video_task \<Rightarrow> video_failure + jsval \<Rightarrow> key_registry \<Rightarrow> (video_failure + video_task) \<times> key_registry" where
  "poll_artifacts h taskId task answer keys =
     (case res_bind answer (\<lambda>payload. pickVideoArtifactContentUrl h payload taskId) of
        Inl e \<Rightarrow> (Inl e, drop_unless_recoverable e taskId keys)
      | Inr contentUrl \<Rightarrow> (Inr (task\<lparr>vt_content_url := Some contentUrl\<rparr>), forgetTaskApiKey taskId keys))"

end
