(* ===== verification/Video_Queue.thy ===== *)
theory Video_Queue
  imports Video_Task
begin

text \<open>
  The queue of submissions of the video page (\<open>hooks/use-submission.ts\<close>,
  \<open>hooks/use-video-submission.ts\<close>), the polling of accepted tasks
  (\<open>hooks/use-video-task.ts\<close>), the tasks that stay visible (\<open>lib/recent-tasks.ts\<close>) and what happens
  when the page is left (\<open>index.tsx\<close>).

  A call of \<open>start\<close> runs a loop over its entries that waits for the answer of each POST; the loop
  is a \<open>runner\<close> of the state, suspended in the stages of its current entry.  The relation
  \<open>video_step\<close> interleaves the runners with each other, with the user and with the polls.
\<close>

section \<open>The state of the page\<close>

datatype submission_status = Pending | Submitting | Polling | Failed | Cancelled

record submission =
  qs_id :: jsstr
  qs_taskId :: "jsstr option"
  qs_status :: submission_status
  qs_submitError :: "playground_error option"
  qs_modelId :: jsstr
  qs_promptPreview :: jsstr
  qs_submittedAt :: int

text \<open>What the current entry of a runner waits for: the API key, the answer of the POST made with
  a key, or to be resumed with the result.\<close>

datatype post_stage = Awaiting_secret | Awaiting_answer jsstr | Settled "video_failure + jsstr"

record runner =
  rn_generation :: nat
  rn_aborted :: bool
  rn_current :: "(jsstr \<times> post_stage) option"
  rn_waiting :: "jsstr list"

record task_poll =
  pl_task :: jsstr
  pl_key :: jsstr
  pl_artifacts :: "video_task option"

text \<open>The last two fields are no part of the code: they record which task was accepted with which
  key, and for which tasks a poll came to an end.\<close>

record video_page =
  vp_tasks :: "submission list"
  vp_epoch :: nat
  vp_runners :: "runner list"
  vp_abortRef :: "nat option"
  vp_keys :: key_registry
  vp_polls :: "task_poll list"
  vp_mounted :: bool
  vp_posted :: "(jsstr \<times> jsstr) list"
  vp_ended :: "jsstr list"

definition initial_page :: video_page where
  "initial_page = \<lparr>vp_tasks = [], vp_epoch = 0, vp_runners = [], vp_abortRef = None, vp_keys = [],
     vp_polls = [], vp_mounted = True, vp_posted = [], vp_ended = []\<rparr>"

section \<open>Submissions\<close>

definition updateTask :: "jsstr \<Rightarrow> (submission \<Rightarrow> submission) \<Rightarrow> submission list \<Rightarrow> submission list" where
  "updateTask name patch tasks = map (\<lambda>t. if qs_id t = name then patch t else t) tasks"

definition unsettled :: "submission \<Rightarrow> bool" where
  "unsettled t \<longleftrightarrow> qs_status t = Pending \<or> qs_status t = Submitting"

definition isBusy :: "video_page \<Rightarrow> bool" where
  "isBusy p \<longleftrightarrow> list_ex unsettled (vp_tasks p)"

text \<open>\<open>abortRef.current?.abort()\<close>: the signal of the runner that was started last.\<close>

definition abort_runner :: "video_page \<Rightarrow> video_page" where
  "abort_runner p =
     (case vp_abortRef p of
        None \<Rightarrow> p
      | Some i \<Rightarrow> p\<lparr>vp_runners := (vp_runners p)[i := (vp_runners p ! i)\<lparr>rn_aborted := True\<rparr>]\<rparr>)"

definition cancel_unsettled :: "submission \<Rightarrow> submission" where
  "cancel_unsettled t = (if unsettled t then t\<lparr>qs_status := Cancelled\<rparr> else t)"

definition invalidate :: "video_page \<Rightarrow> video_page" where
  "invalidate p = (abort_runner p)\<lparr>vp_abortRef := None, vp_epoch := vp_epoch p + 1,
     vp_tasks := map cancel_unsettled (vp_tasks p)\<rparr>"

text \<open>The loop from one entry to the next POST: entries of a runner that was overtaken or aborted
  are cancelled.  The first entry of a runner is created as submitting.\<close>

definition live :: "runner \<Rightarrow> nat \<Rightarrow> bool" where
  "live r epoch \<longleftrightarrow> rn_generation r = epoch \<and> \<not> rn_aborted r"

fun run_entries ::
  "bool \<Rightarrow> bool \<Rightarrow> jsstr list \<Rightarrow> submission list \<Rightarrow> submission list \<times> (jsstr \<times> post_stage) option \<times> jsstr list" where
  "run_entries going first [] tasks = (tasks, None, [])"
| "run_entries going first (entry # entries) tasks =
     (if \<not> going
      then run_entries going False entries (updateTask entry (\<lambda>t. t\<lparr>qs_status := Cancelled\<rparr>) tasks)
      else (if first then tasks else updateTask entry (\<lambda>t. t\<lparr>qs_status := Submitting\<rparr>) tasks,
            Some (entry, Awaiting_secret), entries))"

definition new_submission :: "jsstr \<Rightarrow> jsstr \<Rightarrow> int \<Rightarrow> nat \<times> jsstr \<Rightarrow> submission" where
  "new_submission modelId promptPreview submittedAt indexed =
     \<lparr>qs_id = snd indexed, qs_taskId = None, qs_status = (if fst indexed = 0 then Submitting else Pending),
      qs_submitError = None, qs_modelId = modelId, qs_promptPreview = promptPreview,
      qs_submittedAt = submittedAt + int (fst indexed)\<rparr>"

text \<open>A call of \<open>start\<close>; the random identifiers of its entries are an argument.\<close>

definition start :: "jsstr list \<Rightarrow> jsstr \<Rightarrow> jsstr \<Rightarrow> int \<Rightarrow> video_page \<Rightarrow> video_page" where
  "start names modelId promptPreview now p =
     (let tasks = vp_tasks p @ map (new_submission modelId promptPreview now) (enumerate 0 names);
          q = abort_runner p;
          (tasks', current', waiting) = run_entries True True names tasks
      in q\<lparr>vp_tasks := tasks', vp_abortRef := Some (length (vp_runners q)),
           vp_runners := vp_runners q @ [\<lparr>rn_generation = vp_epoch q, rn_aborted = False,
             rn_current = current', rn_waiting = waiting\<rparr>]\<rparr>)"

text \<open>The key was loaded, or it was not.\<close>

definition secret_loaded :: "nat \<Rightarrow> video_failure + jsstr \<Rightarrow> video_page \<Rightarrow> video_page" where
  "secret_loaded i key p =
     (let r = vp_runners p ! i
      in case rn_current r of
           Some (entry, Awaiting_secret) \<Rightarrow>
             p\<lparr>vp_runners := (vp_runners p)[i := r\<lparr>rn_current := Some (entry,
                 case key of Inl e \<Rightarrow> Settled (Inl e) | Inr k \<Rightarrow> Awaiting_answer k)\<rparr>]\<rparr>
         | _ \<Rightarrow> p)"

definition submit_result :: "video_failure + jsstr \<Rightarrow> video_failure + jsstr" where
  "submit_result r =
     res_bind r (\<lambda>name. if name = [] then Inl (system_error ''Video generation failed'' None False) else Inr name)"

text \<open>The POST was answered.  The task is bound to the key when the signal is not aborted then.\<close>

definition post_answered :: "video_host \<Rightarrow> nat \<Rightarrow> exchange \<Rightarrow> video_page \<Rightarrow> video_page" where
  "post_answered h i ex p =
     (let r = vp_runners p ! i
      in case rn_current r of
           Some (entry, Awaiting_answer key) \<Rightarrow>
             (let (result, keys) =
                    postVideoGeneration h key (requestWithApiKey ''Video generation failed'' ex) (rn_aborted r) (vp_keys p)
              in p\<lparr>vp_keys := keys,
                   vp_runners := (vp_runners p)[i := r\<lparr>rn_current := Some (entry, Settled (submit_result result))\<rparr>],
                   vp_posted := (case result of Inr t \<Rightarrow> (t, key) # vp_posted p | Inl _ \<Rightarrow> vp_posted p)\<rparr>)
         | _ \<Rightarrow> p)"

definition cancelled_error :: "video_failure \<Rightarrow> bool" where
  "cancelled_error e =
     (case e of Abort_failure \<Rightarrow> True | Other_failure name \<Rightarrow> name = js ''CanceledError'' | Playground_failure _ \<Rightarrow> False)"

definition submit_error :: "video_failure \<Rightarrow> playground_error" where
  "submit_error e =
     (case e of
        Playground_failure p \<Rightarrow> p
      | _ \<Rightarrow> \<lparr>pe_source = System_source (js ''Video generation failed''), pe_httpStatus = None, pe_terminal = False\<rparr>)"

text \<open>What the loop makes of the result of a POST.\<close>

definition settle :: "bool \<Rightarrow> bool \<Rightarrow> video_failure + jsstr \<Rightarrow> submission \<Rightarrow> submission" where
  "settle overtaken aborted result t =
     (case result of
        Inr name \<Rightarrow>
          if overtaken \<or> aborted then t\<lparr>qs_status := Cancelled\<rparr>
          else if name \<noteq> [] then t\<lparr>qs_status := Polling, qs_taskId := Some name\<rparr>
          else t\<lparr>qs_status := Failed, qs_submitError := Some (submit_error (Other_failure []))\<rparr>
      | Inl e \<Rightarrow>
          if aborted \<or> cancelled_error e \<or> overtaken then t\<lparr>qs_status := Cancelled\<rparr>
          else t\<lparr>qs_status := Failed, qs_submitError := Some (submit_error e)\<rparr>)"

definition runner_resumed :: "nat \<Rightarrow> video_page \<Rightarrow> video_page" where
  "runner_resumed i p =
     (let r = vp_runners p ! i
      in case rn_current r of
           Some (entry, Settled result) \<Rightarrow>
             (let tasks = updateTask entry (settle (rn_generation r \<noteq> vp_epoch p) (rn_aborted r) result) (vp_tasks p);
                  (tasks', current', waiting) = run_entries (live r (vp_epoch p)) False (rn_waiting r) tasks
              in p\<lparr>vp_tasks := tasks',
                   vp_runners := (vp_runners p)[i := r\<lparr>rn_current := current', rn_waiting := waiting\<rparr>]\<rparr>)
         | _ \<Rightarrow> p)"

section \<open>Polls\<close>

definition VIDEO_TASK_STATUS_RETRY_COUNT :: nat where
  "VIDEO_TASK_STATUS_RETRY_COUNT = 2"

definition retry_poll :: "nat \<Rightarrow> video_failure \<Rightarrow> bool" where
  "retry_poll failureCount e \<longleftrightarrow> isRecoverableTaskError e \<and> failureCount < VIDEO_TASK_STATUS_RETRY_COUNT"

definition refetch_interval :: "video_failure option \<Rightarrow> video_task option \<Rightarrow> nat option" where
  "refetch_interval problem task =
     (if problem \<noteq> None then None else videoTaskPollInterval (map_option vt_status task))"

definition videoTaskQueryError :: "video_failure option \<Rightarrow> playground_error option" where
  "videoTaskQueryError problem =
     (case problem of
        None \<Rightarrow> None
      | Some (Playground_failure p) \<Rightarrow> Some p
      | Some _ \<Rightarrow> Some \<lparr>pe_source = System_source (js ''Failed to load video status''),
                   pe_httpStatus = None, pe_terminal = False\<rparr>)"

definition poll_started :: "jsstr \<Rightarrow> video_page \<Rightarrow> video_page" where
  "poll_started taskId p =
     (case poll_key taskId (vp_keys p) of
        Inl e \<Rightarrow> p
      | Inr key \<Rightarrow> p\<lparr>vp_polls := vp_polls p @ [\<lparr>pl_task = taskId, pl_key = key, pl_artifacts = None\<rparr>]\<rparr>)"

definition remove_at :: "nat \<Rightarrow> 'a list \<Rightarrow> 'a list" where
  "remove_at j xs = take j xs @ drop (Suc j) xs"

definition note_end :: "jsstr \<Rightarrow> key_registry \<Rightarrow> video_page \<Rightarrow> video_page" where
  "note_end t keys p = p\<lparr>vp_keys := keys, vp_ended := (if lookupTaskApiKey t keys = None then t # vp_ended p else vp_ended p)\<rparr>"

definition poll_answered :: "video_host \<Rightarrow> nat \<Rightarrow> exchange \<Rightarrow> video_page \<Rightarrow> video_page" where
  "poll_answered h j ex p =
     (let l = vp_polls p ! j; t = pl_task l; answer = requestWithApiKey ''Failed to load video status'' ex
      in case pl_artifacts l of
           None \<Rightarrow>
             (let (progress, keys) = poll_status h t answer (vp_keys p)
              in note_end t keys (p\<lparr>vp_polls := (case progress of
                   Poll_artifacts task \<Rightarrow> (vp_polls p)[j := l\<lparr>pl_artifacts := Some task\<rparr>]
                 | _ \<Rightarrow> remove_at j (vp_polls p))\<rparr>))
         | Some task \<Rightarrow>
             (let (result, keys) = poll_artifacts h t task answer (vp_keys p)
              in note_end t keys (p\<lparr>vp_polls := remove_at j (vp_polls p)\<rparr>)))"

text \<open>Leaving the page aborts the current runner and clears the registry.\<close>

definition leave_page :: "video_page \<Rightarrow> video_page" where
  "leave_page p = (abort_runner p)\<lparr>vp_abortRef := None, vp_keys := clearAllTaskApiKeys (vp_keys p), vp_mounted := False\<rparr>"

section \<open>Visible tasks\<close>

definition RECENT_TASK_WINDOW :: nat where
  "RECENT_TASK_WINDOW = 6"

definition isSubmissionUnfinished :: "submission \<Rightarrow> jsstr option \<Rightarrow> bool" where
  "isSubmissionUnfinished s upstreamStatus =
     (if qs_status s = Failed \<or> qs_status s = Cancelled then False
      else if qs_taskId s = None then True
      else case upstreamStatus of None \<Rightarrow> True | Some status \<Rightarrow> \<not> isTerminalVideoTaskStatus status)"

definition selectVisibleTasks :: "submission list \<Rightarrow> (jsstr \<Rightarrow> jsstr option) \<Rightarrow> submission list" where
  "selectVisibleTasks tasks upstream =
     map snd (filter (\<lambda>(index, s). length tasks - RECENT_TASK_WINDOW \<le> index \<or>
       isSubmissionUnfinished s (upstream (qs_id s))) (enumerate 0 tasks))"

section \<open>Steps\<close>

text \<open>The identifiers \<open>start\<close> draws are new; an answer reports the state of the signal at earlier
  moments, and a signal that was aborted stays so.\<close>

inductive video_step :: "video_host \<Rightarrow> video_page \<Rightarrow> video_page \<Rightarrow> bool" for h :: video_host where
  step_start: "vp_mounted p \<Longrightarrow> distinct names \<Longrightarrow> set names \<inter> qs_id ` set (vp_tasks p) = {} \<Longrightarrow>
     video_step h p (start names modelId promptPreview now p)"
| step_invalidate: "vp_mounted p \<Longrightarrow> video_step h p (invalidate p)"
| step_secret: "i < length (vp_runners p) \<Longrightarrow> video_step h p (secret_loaded i key p)"
| step_answer: "i < length (vp_runners p) \<Longrightarrow> (ex_aborted_fetch ex \<longrightarrow> ex_aborted_body ex) \<Longrightarrow>
     (ex_aborted_body ex \<longrightarrow> rn_aborted (vp_runners p ! i)) \<Longrightarrow> video_step h p (post_answered h i ex p)"
| step_resume: "i < length (vp_runners p) \<Longrightarrow> video_step h p (runner_resumed i p)"
| step_poll: "vp_mounted p \<Longrightarrow> x \<in> set (vp_tasks p) \<Longrightarrow> qs_taskId x = Some t \<Longrightarrow> video_step h p (poll_started t p)"
| step_status: "j < length (vp_polls p) \<Longrightarrow> video_step h p (poll_answered h j ex p)"
| step_leave: "vp_mounted p \<Longrightarrow> video_step h p (leave_page p)"

definition reachable_page :: "video_host \<Rightarrow> video_page \<Rightarrow> bool" where
  "reachable_page h p \<longleftrightarrow> (video_step h)\<^sup>*\<^sup>* initial_page p"

end
