(* ===== verification/Video_Queue_Properties.thy ===== *)
theory Video_Queue_Properties
  imports Video_Queue
begin

text \<open>
  What the video page promises about its queue: submissions that were settled never change, a
  late answer never revives a cancelled one, no submission waits for nothing, and the key of a
  task is the one it was submitted with, is kept until the task ends and is gone when the page
  is left.  The locale \<open>page_invariant\<close> carries an invariant over all interleavings.
\<close>

section \<open>Invariants of interleavings\<close>

locale page_invariant =
  fixes h :: video_host and good :: "video_page \<Rightarrow> bool"
  assumes good_initial: "good initial_page"
    and good_step: "good p \<Longrightarrow> video_step h p q \<Longrightarrow> good q"
begin

lemma good_steps: "(video_step h)\<^sup>*\<^sup>* p q \<Longrightarrow> good p \<Longrightarrow> good q"
  by (induction rule: rtranclp_induct) (auto intro: good_step)

lemma good_reachable: "reachable_page h p \<Longrightarrow> good p"
  using good_steps good_initial by (auto simp: reachable_page_def)

end

section \<open>Runners own their entries\<close>

definition entries :: "runner \<Rightarrow> jsstr list" where
  "entries r = (case rn_current r of None \<Rightarrow> [] | Some (e, _) \<Rightarrow> [e]) @ rn_waiting r"

definition owned :: "runner \<Rightarrow> nat \<Rightarrow> submission \<Rightarrow> bool" where
  "owned r epoch x \<longleftrightarrow> qs_status x \<noteq> Polling \<and> qs_status x \<noteq> Failed \<and> (live r epoch \<longrightarrow> unsettled x)"

definition runner_ok :: "submission list \<Rightarrow> nat \<Rightarrow> runner \<Rightarrow> bool" where
  "runner_ok tasks epoch r \<longleftrightarrow>
     distinct (entries r) \<and> set (entries r) \<subseteq> qs_id ` set tasks \<and> (rn_current r = None \<longrightarrow> rn_waiting r = []) \<and>
     rn_generation r \<le> epoch \<and> (\<forall>x \<in> set tasks. qs_id x \<in> set (entries r) \<longrightarrow> owned r epoch x)"

definition queue_ok :: "submission list \<Rightarrow> nat \<Rightarrow> runner list \<Rightarrow> nat option \<Rightarrow> bool" where
  "queue_ok tasks epoch rs ref \<longleftrightarrow>
     distinct (map qs_id tasks) \<and>
     (\<forall>i < length rs. runner_ok tasks epoch (rs ! i)) \<and>
     (\<forall>i < length rs. \<forall>j < length rs. i \<noteq> j \<longrightarrow> set (entries (rs ! i)) \<inter> set (entries (rs ! j)) = {}) \<and>
     (\<forall>i < length rs. ref \<noteq> Some i \<longrightarrow> rn_aborted (rs ! i)) \<and>
     (\<forall>i. ref = Some i \<longrightarrow> i < length rs) \<and>
     (\<forall>x \<in> set tasks. unsettled x \<longrightarrow> (\<exists>i < length rs. qs_id x \<in> set (entries (rs ! i)))) \<and>
     (\<forall>x \<in> set tasks. qs_taskId x \<noteq> None \<longleftrightarrow> qs_status x = Polling)"

abbreviation page_queue_ok :: "video_page \<Rightarrow> bool" where
  "page_queue_ok p \<equiv> queue_ok (vp_tasks p) (vp_epoch p) (vp_runners p) (vp_abortRef p)"

lemma entries_simps [simp]:
  "entries (r\<lparr>rn_aborted := a\<rparr>) = entries r"
  "rn_current r = Some (e, s) \<Longrightarrow> entries r = e # rn_waiting r"
  "entries (r\<lparr>rn_current := Some (e, s)\<rparr>) = e # rn_waiting r"
  "entries (r\<lparr>rn_current := None, rn_waiting := w\<rparr>) = w"
  "entries (r\<lparr>rn_current := Some (e, s), rn_waiting := w\<rparr>) = e # w"
  by (auto simp: entries_def)

lemma live_update [simp]:
  "live (r\<lparr>rn_current := c\<rparr>) = live r" "live (r\<lparr>rn_current := c, rn_waiting := w\<rparr>) = live r"
  by (auto simp: live_def fun_eq_iff)

lemma nth_update_if: "j < length xs \<Longrightarrow> xs[i := x] ! j = (if i = j then x else xs ! j)"
  by (cases "i = j") auto

lemma queue_ok_runner: "queue_ok tasks epoch rs ref \<Longrightarrow> i < length rs \<Longrightarrow> runner_ok tasks epoch (rs ! i)"
  by (simp add: queue_ok_def)

text \<open>One runner hands over some of its entries; the tasks behind them are settled.\<close>

lemma queue_ok_update:
  assumes ok: "queue_ok tasks epoch rs ref" and i: "i < length rs"
    and same: "rn_generation r = rn_generation (rs ! i)" "rn_aborted r = rn_aborted (rs ! i)"
    and ent: "distinct (entries r)" "set (entries r) \<subseteq> set (entries (rs ! i))" "rn_current r = None \<longrightarrow> rn_waiting r = []"
    and ids: "\<And>x. qs_id (f x) = qs_id x"
    and others: "\<And>x. qs_id x \<notin> set (entries (rs ! i)) \<Longrightarrow> f x = x"
    and task: "\<And>x. x \<in> set tasks \<Longrightarrow> qs_id x \<in> set (entries (rs ! i)) \<Longrightarrow> qs_taskId (f x) \<noteq> None \<longleftrightarrow> qs_status (f x) = Polling"
    and kept: "\<And>x. x \<in> set tasks \<Longrightarrow> qs_id x \<in> set (entries r) \<Longrightarrow> owned r epoch (f x)"
    and given: "\<And>x. x \<in> set tasks \<Longrightarrow> qs_id x \<in> set (entries (rs ! i)) - set (entries r) \<Longrightarrow> \<not> unsettled (f x)"
  shows "queue_ok (map f tasks) epoch (rs[i := r]) ref"
proof -
  have img: "qs_id ` set (map f tasks) = qs_id ` set tasks" using ids by (simp add: image_image)
  have other: "f x = x" if "qs_id x \<in> set (entries (rs ! j))" "j \<noteq> i" "j < length rs" for x j
    using ok that i by (intro others) (auto simp: queue_ok_def)
  have R: "runner_ok (map f tasks) epoch (rs[i := r] ! j)" if j: "j < length rs" for j
  proof (cases "j = i")
    case True
    have "set (entries r) \<subseteq> qs_id ` set tasks" "rn_generation r \<le> epoch"
      using queue_ok_runner [OF ok i] ent(2) same(1) by (auto simp: runner_ok_def)
    then show ?thesis using True j ent(1,3) kept ids img by (auto simp: runner_ok_def)
  next
    case False
    have old: "runner_ok tasks epoch (rs ! j)" using queue_ok_runner [OF ok j] .
    have "owned (rs ! j) epoch (f x)" if "x \<in> set tasks" "qs_id x \<in> set (entries (rs ! j))" for x
      using old that other [OF that(2) False j] by (auto simp: runner_ok_def)
    then show ?thesis using old False img ids by (auto simp: runner_ok_def)
  qed
  have sub: "set (entries (rs[i := r] ! j)) \<subseteq> set (entries (rs ! j))" if "j < length rs" for j
    using that ent(2) by (cases "i = j") auto
  have D: "set (entries (rs[i := r] ! j)) \<inter> set (entries (rs[i := r] ! k)) = {}"
    if jk: "j < length rs" "k < length rs" "j \<noteq> k" for j k
  proof -
    have "set (entries (rs ! j)) \<inter> set (entries (rs ! k)) = {}" using ok jk by (simp add: queue_ok_def)
    then show ?thesis using sub [OF jk(1)] sub [OF jk(2)] by blast
  qed
  have O: "\<exists>j < length rs. qs_id (f x) \<in> set (entries (rs[i := r] ! j))" if x: "x \<in> set tasks" "unsettled (f x)" for x
  proof (cases "qs_id x \<in> set (entries (rs ! i))")
    case True
    then have "qs_id x \<in> set (entries r)" using given x by blast
    then show ?thesis using i ids by (intro exI [of _ i]) simp
  next
    case False
    then have "unsettled x" using others x(2) by metis
    then obtain j where "j < length rs" "qs_id x \<in> set (entries (rs ! j))"
      using ok x(1) by (auto simp: queue_ok_def)
    then show ?thesis using False ids by (intro exI [of _ j]) (auto simp: nth_update_if)
  qed
  have T: "qs_taskId (f x) \<noteq> None \<longleftrightarrow> qs_status (f x) = Polling" if "x \<in> set tasks" for x
    using ok that task others by (cases "qs_id x \<in> set (entries (rs ! i))") (auto simp: queue_ok_def)
  have A: "rn_aborted (rs[i := r] ! j)" if "j < length rs" "ref \<noteq> Some j" for j
    using ok that same by (auto simp: queue_ok_def nth_update_if)
  show ?thesis
    using ok R D O T A ids by (simp add: queue_ok_def comp_def)
qed

section \<open>Every operation keeps the queue\<close>

lemma abort_runner_simps [simp]:
  "vp_tasks (abort_runner p) = vp_tasks p" "vp_epoch (abort_runner p) = vp_epoch p"
  "vp_keys (abort_runner p) = vp_keys p" "vp_polls (abort_runner p) = vp_polls p"
  "vp_posted (abort_runner p) = vp_posted p" "vp_ended (abort_runner p) = vp_ended p"
  "vp_mounted (abort_runner p) = vp_mounted p" "length (vp_runners (abort_runner p)) = length (vp_runners p)"
  by (auto simp: abort_runner_def split: option.splits)

lemma runner_ok_weaken:
  "runner_ok tasks epoch r \<Longrightarrow> entries r' = entries r \<Longrightarrow> rn_generation r' = rn_generation r \<Longrightarrow>
   (live r' epoch \<longrightarrow> live r epoch) \<Longrightarrow> (rn_current r' = None \<longrightarrow> rn_waiting r' = []) \<Longrightarrow> runner_ok tasks epoch r'"
  by (auto simp: runner_ok_def owned_def)

lemma abort_runner_entries [simp]:
  "i < length (vp_runners p) \<Longrightarrow> entries (vp_runners (abort_runner p) ! i) = entries (vp_runners p ! i)"
  by (auto simp: abort_runner_def nth_update_if split: option.splits)

lemma abort_runner_ok:
  assumes ok: "page_queue_ok p" and i: "i < length (vp_runners p)"
  shows "runner_ok (vp_tasks p) (vp_epoch p) (vp_runners (abort_runner p) ! i)" "rn_aborted (vp_runners (abort_runner p) ! i)"
proof -
  have r: "runner_ok (vp_tasks p) (vp_epoch p) (vp_runners p ! i)" using queue_ok_runner [OF ok i] .
  then have "runner_ok (vp_tasks p) (vp_epoch p) ((vp_runners p ! i)\<lparr>rn_aborted := True\<rparr>)"
    by (rule runner_ok_weaken) (use r in \<open>auto simp: live_def runner_ok_def\<close>)
  then show "runner_ok (vp_tasks p) (vp_epoch p) (vp_runners (abort_runner p) ! i)"
    using r i by (auto simp: abort_runner_def nth_update_if split: option.splits)
  show "rn_aborted (vp_runners (abort_runner p) ! i)"
    using ok i by (auto simp: abort_runner_def nth_update_if queue_ok_def split: option.splits)
qed

lemma abort_queue_ok:
  assumes "page_queue_ok p"
  shows "queue_ok (vp_tasks p) (vp_epoch p) (vp_runners (abort_runner p)) None"
  using assms abort_runner_ok [OF assms] by (simp add: queue_ok_def cong: conj_cong)

lemma leave_queue_ok: "page_queue_ok p \<Longrightarrow> page_queue_ok (leave_page p)"
  using abort_queue_ok [of p] by (simp add: leave_page_def)

lemma cancel_unsettled_simps [simp]:
  "qs_id (cancel_unsettled x) = qs_id x" "qs_taskId (cancel_unsettled x) = qs_taskId x"
  "\<not> unsettled (cancel_unsettled x)"
  "qs_status (cancel_unsettled x) = Polling \<longleftrightarrow> qs_status x = Polling"
  "qs_status (cancel_unsettled x) = Failed \<longleftrightarrow> qs_status x = Failed"
  by (auto simp: cancel_unsettled_def unsettled_def)

lemma invalidate_queue_ok:
  assumes ok: "page_queue_ok p"
  shows "page_queue_ok (invalidate p)"
proof -
  have old: "queue_ok (vp_tasks p) (vp_epoch p) (vp_runners (abort_runner p)) None" using abort_queue_ok [OF ok] .
  have img: "qs_id ` cancel_unsettled ` set (vp_tasks p) = qs_id ` set (vp_tasks p)" by (simp add: image_image)
  have "runner_ok (map cancel_unsettled (vp_tasks p)) (Suc (vp_epoch p)) r"
    if "runner_ok (vp_tasks p) (vp_epoch p) r" for r
    using that img by (auto simp: runner_ok_def owned_def live_def)
  moreover have "map qs_id (map cancel_unsettled (vp_tasks p)) = map qs_id (vp_tasks p)" by simp
  ultimately show ?thesis
    using old by (simp add: queue_ok_def invalidate_def comp_def)
qed

lemma new_submission_simps [simp]:
  "qs_id (new_submission m q n x) = snd x" "qs_taskId (new_submission m q n x) = None"
  "unsettled (new_submission m q n x)" "qs_status (new_submission m q n x) \<noteq> Polling"
  "qs_status (new_submission m q n x) \<noteq> Failed"
  by (auto simp: new_submission_def unsettled_def)

lemma run_entries_started:
  "run_entries True True names tasks =
     (tasks, (case names of [] \<Rightarrow> None | e # _ \<Rightarrow> Some (e, Awaiting_secret)), tl names)"
  by (cases names) auto

lemma start_fields:
  "vp_tasks (start names m q n p) = vp_tasks p @ map (new_submission m q n) (enumerate 0 names)"
  "vp_runners (start names m q n p) = vp_runners (abort_runner p) @ [\<lparr>rn_generation = vp_epoch p, rn_aborted = False,
     rn_current = (case names of [] \<Rightarrow> None | e # _ \<Rightarrow> Some (e, Awaiting_secret)), rn_waiting = tl names\<rparr>]"
  "vp_epoch (start names m q n p) = vp_epoch p" "vp_abortRef (start names m q n p) = Some (length (vp_runners p))"
  "vp_keys (start names m q n p) = vp_keys p" "vp_polls (start names m q n p) = vp_polls p"
  "vp_posted (start names m q n p) = vp_posted p" "vp_ended (start names m q n p) = vp_ended p"
  "vp_mounted (start names m q n p) = vp_mounted p"
  by (simp_all add: start_def Let_def run_entries_started split: option.splits)

lemma enumerate_names: "snd ` set (enumerate 0 names) = set names"
  by (metis list.set_map map_snd_enumerate)

lemma start_queue_ok:
  assumes ok: "page_queue_ok p" and new: "distinct names" "set names \<inter> qs_id ` set (vp_tasks p) = {}"
  shows "page_queue_ok (start names m q n p)"
proof -
  let ?news = "map (new_submission m q n) (enumerate 0 names)" and ?rs = "vp_runners (abort_runner p)"
  let ?r = "\<lparr>rn_generation = vp_epoch p, rn_aborted = False,
     rn_current = (case names of [] \<Rightarrow> None | e # _ \<Rightarrow> Some (e, Awaiting_secret)), rn_waiting = tl names\<rparr>"
  have old: "queue_ok (vp_tasks p) (vp_epoch p) ?rs None" using abort_queue_ok [OF ok] .
  have ids: "map qs_id ?news = names" by (simp add: comp_def map_snd_enumerate)
  have img: "qs_id ` set ?news = set names" using ids by (metis list.set_map)
  have ent: "entries ?r = names" by (cases names) (auto simp: entries_def)
  have mine: "x \<in> set ?news" if "x \<in> set (vp_tasks p @ ?news)" "qs_id x \<in> set names" for x
    using that new(2) by auto
  have fresh: "runner_ok (vp_tasks p @ ?news) (vp_epoch p) ?r"
    unfolding runner_ok_def ent
  proof (intro conjI ballI impI)
    show "set names \<subseteq> qs_id ` set (vp_tasks p @ ?news)" using img by (simp add: image_Un)
    show "owned ?r (vp_epoch p) x" if "x \<in> set (vp_tasks p @ ?news)" "qs_id x \<in> set names" for x
      using mine [OF that] by (auto simp: owned_def)
  qed (use new(1) in \<open>auto split: list.splits\<close>)
  have R: "runner_ok (vp_tasks p @ ?news) (vp_epoch p) r" if "runner_ok (vp_tasks p) (vp_epoch p) r" for r
  proof -
    have "set (entries r) \<inter> set names = {}" using that new(2) by (auto simp: runner_ok_def)
    then show ?thesis using that img by (auto simp: runner_ok_def)
  qed
  let ?all = "?rs @ [?r]"
  have len: "length ?all = Suc (length ?rs)" by simp
  have apart: "set (entries (?rs ! i)) \<inter> set names = {}" if "i < length ?rs" for i
  proof -
    have "set (entries (?rs ! i)) \<subseteq> qs_id ` set (vp_tasks p)"
      using queue_ok_runner [OF old that] by (auto simp: runner_ok_def)
    then show ?thesis using new(2) by blast
  qed
  have "distinct (map qs_id (vp_tasks p @ ?news))" using old new ids by (auto simp: queue_ok_def)
  moreover have "runner_ok (vp_tasks p @ ?news) (vp_epoch p) (?all ! i)" if "i < length ?all" for i
    using that fresh R queue_ok_runner [OF old] by (auto simp: nth_append less_Suc_eq)
  moreover have "set (entries (?all ! i)) \<inter> set (entries (?all ! j)) = {}"
    if "i < length ?all" "j < length ?all" "i \<noteq> j" for i j
  proof (cases "i = length ?rs \<or> j = length ?rs")
    case True
    then show ?thesis using that apart [of i] apart [of j] ent by (auto simp: nth_append less_Suc_eq)
  next
    case False
    then show ?thesis using that old by (auto simp: nth_append queue_ok_def)
  qed
  moreover have "rn_aborted (?all ! i)" if "i < length ?all" "Some (length ?rs) \<noteq> Some i" for i
    using that old by (auto simp: nth_append queue_ok_def)
  moreover have "\<exists>i < length ?all. qs_id x \<in> set (entries (?all ! i))" if x: "x \<in> set (vp_tasks p @ ?news)" "unsettled x" for x
  proof (cases "x \<in> set ?news")
    case True
    then have "qs_id x \<in> set names" using img by blast
    then show ?thesis using ent by (intro exI [of _ "length ?rs"]) (simp add: nth_append)
  next
    case False
    then obtain i where "i < length ?rs" "qs_id x \<in> set (entries (?rs ! i))"
      using x old by (auto simp: queue_ok_def)
    then show ?thesis by (intro exI [of _ i]) (simp add: nth_append)
  qed
  moreover have "qs_taskId x \<noteq> None \<longleftrightarrow> qs_status x = Polling" if "x \<in> set (vp_tasks p @ ?news)" for x
    using that old by (auto simp: queue_ok_def)
  ultimately have "queue_ok (vp_tasks p @ ?news) (vp_epoch p) ?all (Some (length ?rs))"
    unfolding queue_ok_def by (intro conjI allI ballI impI) auto
  then show ?thesis unfolding start_fields by simp
qed

text \<open>Operations that only move the stage of a runner, or change no runner at all.\<close>

lemma stage_queue_ok:
  assumes ok: "queue_ok tasks epoch rs ref" and i: "i < length rs" and c: "rn_current (rs ! i) = Some (e, s)"
  shows "queue_ok tasks epoch (rs[i := (rs ! i)\<lparr>rn_current := Some (e, s')\<rparr>]) ref"
proof -
  have r: "runner_ok tasks epoch (rs ! i)" using queue_ok_runner [OF ok i] .
  have "queue_ok (map (\<lambda>x. x) tasks) epoch (rs[i := (rs ! i)\<lparr>rn_current := Some (e, s')\<rparr>]) ref"
    by (rule queue_ok_update [OF ok i]) (use ok r c in \<open>auto simp: runner_ok_def owned_def queue_ok_def\<close>)
  then show ?thesis by simp
qed

lemma secret_queue_ok:
  "page_queue_ok p \<Longrightarrow> i < length (vp_runners p) \<Longrightarrow> page_queue_ok (secret_loaded i key p)"
  by (auto simp: secret_loaded_def Let_def stage_queue_ok split: option.splits prod.splits post_stage.splits)

lemma answer_queue_ok:
  "page_queue_ok p \<Longrightarrow> i < length (vp_runners p) \<Longrightarrow> page_queue_ok (post_answered h i ex p)"
  by (auto simp: post_answered_def Let_def stage_queue_ok split: option.splits prod.splits post_stage.splits)

lemma poll_queue_fields:
  "vp_tasks (poll_started t p) = vp_tasks p" "vp_epoch (poll_started t p) = vp_epoch p"
  "vp_runners (poll_started t p) = vp_runners p" "vp_abortRef (poll_started t p) = vp_abortRef p"
  "vp_tasks (poll_answered h j ex p) = vp_tasks p" "vp_epoch (poll_answered h j ex p) = vp_epoch p"
  "vp_runners (poll_answered h j ex p) = vp_runners p" "vp_abortRef (poll_answered h j ex p) = vp_abortRef p"
  by (auto simp: poll_started_def poll_answered_def note_end_def Let_def split: sum.splits option.splits prod.splits)

lemma run_entries_stopped:
  "run_entries False first names tasks =
     (map (\<lambda>t. if qs_id t \<in> set names then t\<lparr>qs_status := Cancelled\<rparr> else t) tasks, None, [])"
  by (induction False first names tasks rule: run_entries.induct) (auto simp: updateTask_def)

lemma settle_simps [simp]: "qs_id (settle late ab res t) = qs_id t"
  by (auto simp: settle_def split: sum.splits)

lemma settle_settled: "\<not> unsettled (settle late ab res t)"
  by (auto simp: settle_def unsettled_def split: sum.splits)

lemma settle_task:
  "qs_taskId t = None \<Longrightarrow> qs_taskId (settle late ab res t) \<noteq> None \<longleftrightarrow> qs_status (settle late ab res t) = Polling"
  by (auto simp: settle_def split: sum.splits)

text \<open>The change of the tasks when a runner is resumed, as one function on each task.\<close>

definition resumed_task :: "nat \<Rightarrow> runner \<Rightarrow> jsstr \<Rightarrow> video_failure + jsstr \<Rightarrow> submission \<Rightarrow> submission" where
  "resumed_task epoch r entry result t =
     (if qs_id t = entry then settle (rn_generation r \<noteq> epoch) (rn_aborted r) result t
      else if live r epoch
      then (case rn_waiting r of e # _ \<Rightarrow> if qs_id t = e then t\<lparr>qs_status := Submitting\<rparr> else t | [] \<Rightarrow> t)
      else if qs_id t \<in> set (rn_waiting r) then t\<lparr>qs_status := Cancelled\<rparr> else t)"

definition resumed_runner :: "nat \<Rightarrow> runner \<Rightarrow> runner" where
  "resumed_runner epoch r =
     (if live r epoch
      then r\<lparr>rn_current := (case rn_waiting r of e # _ \<Rightarrow> Some (e, Awaiting_secret) | [] \<Rightarrow> None), rn_waiting := tl (rn_waiting r)\<rparr>
      else r\<lparr>rn_current := None, rn_waiting := []\<rparr>)"

lemma resumed_page:
  assumes c: "rn_current (vp_runners p ! i) = Some (entry, Settled result)"
    and d: "entry \<notin> set (rn_waiting (vp_runners p ! i))"
  shows "runner_resumed i p =
     p\<lparr>vp_tasks := map (resumed_task (vp_epoch p) (vp_runners p ! i) entry result) (vp_tasks p),
       vp_runners := (vp_runners p)[i := resumed_runner (vp_epoch p) (vp_runners p ! i)]\<rparr>"
proof (cases "live (vp_runners p ! i) (vp_epoch p)")
  case True
  then show ?thesis
    using c d by (cases "rn_waiting (vp_runners p ! i)")
      (auto simp: runner_resumed_def Let_def resumed_task_def resumed_runner_def updateTask_def)
next
  case False
  then show ?thesis
    using c d by (auto simp: runner_resumed_def Let_def run_entries_stopped resumed_task_def resumed_runner_def updateTask_def)
qed

lemma resume_queue_ok:
  assumes ok: "page_queue_ok p" and i: "i < length (vp_runners p)"
    and c: "rn_current (vp_runners p ! i) = Some (entry, Settled result)"
  shows "page_queue_ok (runner_resumed i p)"
proof -
  let ?r = "vp_runners p ! i"
  have r: "runner_ok (vp_tasks p) (vp_epoch p) ?r" using queue_ok_runner [OF ok i] .
  have ent: "entries ?r = entry # rn_waiting ?r" using c by simp
  have d: "entry \<notin> set (rn_waiting ?r)" "distinct (rn_waiting ?r)" using r ent by (auto simp: runner_ok_def)
  have ent': "entries (resumed_runner (vp_epoch p) ?r) = (if live ?r (vp_epoch p) then rn_waiting ?r else [])"
    by (cases "rn_waiting ?r") (auto simp: resumed_runner_def entries_def)
  have none: "qs_taskId x = None" if "x \<in> set (vp_tasks p)" "qs_id x \<in> set (entries ?r)" for x
    using ok r that by (auto simp: queue_ok_def runner_ok_def owned_def)
  have "queue_ok (map (resumed_task (vp_epoch p) ?r entry result) (vp_tasks p)) (vp_epoch p)
     ((vp_runners p)[i := resumed_runner (vp_epoch p) ?r]) (vp_abortRef p)"
  proof (rule queue_ok_update [OF ok i])
    show "rn_current (resumed_runner (vp_epoch p) ?r) = None \<longrightarrow> rn_waiting (resumed_runner (vp_epoch p) ?r) = []"
      by (cases "rn_waiting ?r") (auto simp: resumed_runner_def)
    show "qs_taskId (resumed_task (vp_epoch p) ?r entry result x) \<noteq> None \<longleftrightarrow>
        qs_status (resumed_task (vp_epoch p) ?r entry result x) = Polling"
      if "x \<in> set (vp_tasks p)" "qs_id x \<in> set (entries ?r)" for x
      using none [OF that] ok that(1) settle_task
      by (auto simp: resumed_task_def queue_ok_def split: list.splits)
    show "owned (resumed_runner (vp_epoch p) ?r) (vp_epoch p) (resumed_task (vp_epoch p) ?r entry result x)"
      if "x \<in> set (vp_tasks p)" "qs_id x \<in> set (entries (resumed_runner (vp_epoch p) ?r))" for x
      using that ent ent' d r
      by (auto simp: resumed_task_def runner_ok_def owned_def unsettled_def split: list.splits if_splits)
    show "\<not> unsettled (resumed_task (vp_epoch p) ?r entry result x)"
      if "x \<in> set (vp_tasks p)" "qs_id x \<in> set (entries ?r) - set (entries (resumed_runner (vp_epoch p) ?r))" for x
      using that ent ent' d settle_settled by (auto simp: resumed_task_def unsettled_def split: if_splits)
    show "qs_id (resumed_task (vp_epoch p) ?r entry result x) = qs_id x" for x
      by (auto simp: resumed_task_def split: list.splits)
    show "resumed_task (vp_epoch p) ?r entry result x = x" if "qs_id x \<notin> set (entries ?r)" for x
      using that ent by (auto simp: resumed_task_def split: list.splits)
  qed (use d ent ent' in \<open>auto simp: resumed_runner_def split: if_splits\<close>)
  then show ?thesis using resumed_page [OF c d(1)] by simp
qed

lemma resumed_other:
  "\<not> (\<exists>entry result. rn_current (vp_runners p ! i) = Some (entry, Settled result)) \<Longrightarrow> runner_resumed i p = p"
  by (auto simp: runner_resumed_def Let_def split: option.splits prod.splits post_stage.splits)

lemma resume_queue_ok':
  "page_queue_ok p \<Longrightarrow> i < length (vp_runners p) \<Longrightarrow> page_queue_ok (runner_resumed i p)"
  using resume_queue_ok resumed_other by metis

lemmas queue_ok_intros =
  start_queue_ok invalidate_queue_ok secret_queue_ok answer_queue_ok resume_queue_ok' leave_queue_ok

lemma step_queue_ok: "page_queue_ok p \<Longrightarrow> video_step h p q \<Longrightarrow> page_queue_ok q"
  by (erule video_step.cases) (auto simp: poll_queue_fields intro: queue_ok_intros)

lemma initial_queue_ok: "page_queue_ok initial_page"
  by (simp add: initial_page_def queue_ok_def)

interpretation queue: page_invariant h page_queue_ok for h
  by (unfold_locales, rule initial_queue_ok, erule step_queue_ok, assumption)

section \<open>Settled submissions\<close>

lemma resume_keeps_settled:
  assumes ok: "page_queue_ok p" and i: "i < length (vp_runners p)" and x: "x \<in> set (vp_tasks p)" "\<not> unsettled x"
  shows "x \<in> set (vp_tasks (runner_resumed i p))"
proof (cases "\<exists>entry result. rn_current (vp_runners p ! i) = Some (entry, Settled result)")
  case True
  then obtain entry result where c: "rn_current (vp_runners p ! i) = Some (entry, Settled result)" by blast
  let ?r = "vp_runners p ! i"
  have r: "runner_ok (vp_tasks p) (vp_epoch p) ?r" using queue_ok_runner [OF ok i] .
  have ent: "entries ?r = entry # rn_waiting ?r" using c by simp
  have d: "entry \<notin> set (rn_waiting ?r)" using r ent by (auto simp: runner_ok_def)
  have own: "qs_status x = Cancelled \<and> \<not> live ?r (vp_epoch p)" if "qs_id x \<in> set (entries ?r)"
    using r that x by (cases "qs_status x") (auto simp: runner_ok_def owned_def unsettled_def)
  have same: "x\<lparr>qs_status := Cancelled\<rparr> = x" if "qs_status x = Cancelled" using that by (cases x) simp
  have "resumed_task (vp_epoch p) ?r entry result x = x"
    using own same ent by (auto simp: resumed_task_def settle_def live_def split: sum.splits list.splits)
  then have "x \<in> resumed_task (vp_epoch p) ?r entry result ` set (vp_tasks p)"
    using x(1) by (metis imageI)
  then show ?thesis using resumed_page [OF c d] by simp
next
  case False
  then show ?thesis using resumed_other [OF False] x by simp
qed

lemma cancel_unsettled_id: "\<not> unsettled x \<Longrightarrow> cancel_unsettled x = x"
  by (simp add: cancel_unsettled_def)

lemma step_keeps_settled:
  assumes step: "video_step h p q" and ok: "page_queue_ok p" and x: "x \<in> set (vp_tasks p)" "\<not> unsettled x"
  shows "x \<in> set (vp_tasks q)"
  using step
proof cases
  case step_invalidate
  then show ?thesis using x cancel_unsettled_id [OF x(2)] by (force simp: invalidate_def)
next
  case (step_resume i)
  then show ?thesis using resume_keeps_settled [OF ok _ x] by simp
next
  case (step_secret i key)
  then show ?thesis using x by (auto simp: secret_loaded_def Let_def split: option.splits prod.splits post_stage.splits)
next
  case (step_answer i ex)
  then show ?thesis using x by (auto simp: post_answered_def Let_def split: option.splits prod.splits post_stage.splits)
qed (use x in \<open>auto simp: start_fields poll_queue_fields leave_page_def\<close>)

lemma steps_keep_settled:
  "(video_step h)\<^sup>*\<^sup>* p q \<Longrightarrow> page_queue_ok p \<Longrightarrow> x \<in> set (vp_tasks p) \<Longrightarrow> \<not> unsettled x \<Longrightarrow> x \<in> set (vp_tasks q)"
proof (induction rule: rtranclp_induct)
  case (step y z)
  then show ?case using step_keeps_settled [OF step.hyps(2)] queue.good_steps [OF step.hyps(1)] by simp
qed

section \<open>Keys\<close>

definition keys_ok :: "video_page \<Rightarrow> bool" where
  "keys_ok p \<longleftrightarrow>
     set (vp_keys p) \<subseteq> set (vp_posted p) \<and>
     (\<forall>l \<in> set (vp_polls p). (pl_task l, pl_key l) \<in> set (vp_posted p)) \<and>
     (\<not> vp_mounted p \<longrightarrow> vp_keys p = [] \<and> vp_abortRef p = None)"

definition key_kept :: "video_page \<Rightarrow> jsstr \<Rightarrow> bool" where
  "key_kept p t \<longleftrightarrow> lookupTaskApiKey t (vp_keys p) \<noteq> None \<or> t \<in> set (vp_ended p)"

lemma set_omap_set: "set (omap_set k v m) \<subseteq> insert (k, v) (set m)"
  by (induction k v m rule: omap_set.induct) auto

lemma set_forget: "set (forgetTaskApiKey t keys) \<subseteq> set keys"
  by (auto simp: forgetTaskApiKey_def omap_delete_def)

lemma lookup_forget [simp]:
  "lookupTaskApiKey t (forgetTaskApiKey t' keys) = (if t = t' then None else lookupTaskApiKey t keys)"
  by (simp add: lookupTaskApiKey_def forgetTaskApiKey_def)

lemma lookup_remember [simp]:
  "lookupTaskApiKey t (rememberTaskApiKey t' k keys) = (if t = t' then Some k else lookupTaskApiKey t keys)"
  by (simp add: lookupTaskApiKey_def rememberTaskApiKey_def)

lemma post_outcome:
  "postVideoGeneration h k answer ab keys = (res, keys') \<Longrightarrow>
   (case res of Inl _ \<Rightarrow> keys' = keys | Inr t \<Rightarrow> \<not> ab \<and> keys' = rememberTaskApiKey t k keys)"
  by (auto simp: postVideoGeneration_def split: sum.splits option.splits if_splits)

lemma poll_status_keys: "poll_status h t answer keys = (res, keys') \<Longrightarrow> keys' = keys \<or> keys' = forgetTaskApiKey t keys"
  by (auto simp: poll_status_def drop_unless_recoverable_def split: sum.splits option.splits if_splits)

lemma poll_artifacts_keys:
  "poll_artifacts h t task answer keys = (res, keys') \<Longrightarrow> keys' = keys \<or> keys' = forgetTaskApiKey t keys"
  by (auto simp: poll_artifacts_def drop_unless_recoverable_def split: sum.splits if_splits)

lemma set_remove_at: "set (remove_at j xs) \<subseteq> set xs"
  by (auto simp: remove_at_def dest: in_set_takeD in_set_dropD)

text \<open>What a poll does to the page: it keeps the keys, or forgets the key of its own task.\<close>

lemma poll_answered_fields:
  assumes "poll_answered h j ex p = q" and "j < length (vp_polls p)"
  shows "vp_keys q = vp_keys p \<or> vp_keys q = forgetTaskApiKey (pl_task (vp_polls p ! j)) (vp_keys p)"
    and "vp_ended q = (if lookupTaskApiKey (pl_task (vp_polls p ! j)) (vp_keys q) = None
           then pl_task (vp_polls p ! j) # vp_ended p else vp_ended p)"
    and "vp_posted q = vp_posted p" "vp_mounted q = vp_mounted p"
    and "set (vp_polls q) \<subseteq> set (vp_polls p) \<union> {(vp_polls p ! j)\<lparr>pl_artifacts := a\<rparr> | a. True}"
proof -
  let ?t = "pl_task (vp_polls p ! j)"
  have u: "set ((vp_polls p)[j := l]) \<subseteq> set (vp_polls p) \<union> {l}" for l
    using set_update_subset_insert [of "vp_polls p" j l] by blast
  show "vp_keys q = vp_keys p \<or> vp_keys q = forgetTaskApiKey ?t (vp_keys p)"
    using assms(1)
    by (auto simp: poll_answered_def note_end_def Let_def split: option.splits prod.splits
        dest!: poll_status_keys poll_artifacts_keys)
  show "vp_ended q = (if lookupTaskApiKey ?t (vp_keys q) = None then ?t # vp_ended p else vp_ended p)"
    "vp_posted q = vp_posted p" "vp_mounted q = vp_mounted p"
    using assms(1) by (auto simp: poll_answered_def note_end_def Let_def split: option.splits prod.splits)
  show "set (vp_polls q) \<subseteq> set (vp_polls p) \<union> {(vp_polls p ! j)\<lparr>pl_artifacts := a\<rparr> | a. True}"
    using assms(1) u set_remove_at [of j "vp_polls p"]
    by (auto simp: poll_answered_def note_end_def Let_def split: option.splits prod.splits poll_progress.splits; blast)
qed

lemma poll_keys_ok:
  assumes ok: "keys_ok p" and j: "j < length (vp_polls p)"
  shows "keys_ok (poll_answered h j ex p)"
proof -
  note f = poll_answered_fields [OF refl j, where h = h and ex = ex]
  have "set (vp_keys (poll_answered h j ex p)) \<subseteq> set (vp_keys p)"
    using f(1) by (elim disjE) (simp_all add: set_forget)
  moreover have "(pl_task l, pl_key l) \<in> set (vp_posted p)" if "l \<in> set (vp_polls (poll_answered h j ex p))" for l
    using f(5) that ok nth_mem [OF j] by (auto simp: keys_ok_def)
  ultimately show ?thesis
    using ok f(3,4) by (auto simp: keys_ok_def poll_queue_fields)
qed

lemma answer_keys_ok:
  assumes ok: "keys_ok p" "page_queue_ok p" and i: "i < length (vp_runners p)"
  shows "keys_ok (post_answered h i ex p)"
proof (cases "\<exists>entry k. rn_current (vp_runners p ! i) = Some (entry, Awaiting_answer k)")
  case True
  then obtain entry k where c: "rn_current (vp_runners p ! i) = Some (entry, Awaiting_answer k)" by blast
  obtain res keys' where pg: "postVideoGeneration h k (requestWithApiKey ''Video generation failed'' ex)
      (rn_aborted (vp_runners p ! i)) (vp_keys p) = (res, keys')" by fastforce
  have left: "rn_aborted (vp_runners p ! i)" if "\<not> vp_mounted p"
    using ok i that by (auto simp: keys_ok_def queue_ok_def)
  have "set keys' \<subseteq> insert (t, k) (set (vp_keys p))" if "res = Inr t" for t
    using post_outcome [OF pg] that set_omap_set [of t k "vp_keys p"] by (simp add: rememberTaskApiKey_def)
  then show ?thesis
    using ok(1) c pg post_outcome [OF pg] left
    by (auto simp: post_answered_def keys_ok_def Let_def split: sum.splits)
next
  case False
  then have "post_answered h i ex p = p"
    by (auto simp: post_answered_def Let_def split: option.splits prod.splits post_stage.splits)
  then show ?thesis using ok(1) by simp
qed

lemma step_keys_ok:
  assumes step: "video_step h p q" and ok: "keys_ok p" "page_queue_ok p"
  shows "keys_ok q"
  using step
proof cases
  case (step_answer i ex)
  then show ?thesis using answer_keys_ok [OF ok] by simp
next
  case (step_status j ex)
  then show ?thesis using poll_keys_ok [OF ok(1)] by simp
next
  case (step_poll x t)
  then show ?thesis using ok(1)
    by (auto simp: poll_started_def poll_key_def lookupTaskApiKey_def keys_ok_def
        split: sum.splits option.splits if_splits dest!: map_of_SomeD)
next
  case (step_secret i key)
  then show ?thesis using ok(1)
    by (auto simp: secret_loaded_def keys_ok_def Let_def split: option.splits prod.splits post_stage.splits)
next
  case (step_resume i)
  then show ?thesis using ok(1)
    by (auto simp: runner_resumed_def keys_ok_def Let_def split: option.splits prod.splits post_stage.splits)
qed (use ok(1) in \<open>auto simp: keys_ok_def start_fields invalidate_def leave_page_def clearAllTaskApiKeys_def\<close>)

interpretation keys: page_invariant h "\<lambda>p. keys_ok p \<and> page_queue_ok p" for h
proof
  show "keys_ok initial_page \<and> page_queue_ok initial_page"
    using initial_queue_ok by (simp add: keys_ok_def initial_page_def)
  show "keys_ok q \<and> page_queue_ok q" if "keys_ok p \<and> page_queue_ok p" "video_step h p q" for p q
    using that step_keys_ok step_queue_ok by blast
qed

text \<open>A key that was bound is kept until a poll of its task ends.\<close>

lemma step_key_kept:
  assumes step: "video_step h p q" and "vp_mounted q" "key_kept p t"
  shows "key_kept q t"
  using step
proof cases
  case (step_answer i ex)
  then show ?thesis using assms(3)
    by (auto simp: post_answered_def key_kept_def Let_def split: option.splits prod.splits post_stage.splits sum.splits
        dest!: post_outcome)
next
  case (step_status j ex)
  note f = poll_answered_fields [OF refl step_status(2), where h = h and ex = ex]
  show ?thesis using f(1,2) assms(3) step_status(1) by (auto simp: key_kept_def split: if_splits)
next
  case (step_secret i key)
  then show ?thesis using assms(3)
    by (auto simp: secret_loaded_def key_kept_def Let_def split: option.splits prod.splits post_stage.splits)
next
  case (step_resume i)
  then show ?thesis using assms(3)
    by (auto simp: runner_resumed_def key_kept_def Let_def split: option.splits prod.splits post_stage.splits)
next
  case (step_poll x t)
  then show ?thesis using assms(3) by (auto simp: poll_started_def key_kept_def split: sum.splits)
qed (use assms in \<open>auto simp: key_kept_def start_fields invalidate_def leave_page_def\<close>)

lemma abort_runner_currents: "rn_current ` set (vp_runners (abort_runner p)) \<subseteq> rn_current ` set (vp_runners p)"
proof (cases "vp_abortRef p")
  case (Some i)
  show ?thesis
  proof (cases "i < length (vp_runners p)")
    case True
    then have "(vp_runners p ! i)\<in> set (vp_runners p)" by simp
    then have "rn_current ((vp_runners p ! i)\<lparr>rn_aborted := True\<rparr>) \<in> rn_current ` set (vp_runners p)" by simp
    then show ?thesis
      using Some set_update_subset_insert [of "vp_runners p" i "(vp_runners p ! i)\<lparr>rn_aborted := True\<rparr>"]
      by (auto simp: abort_runner_def)
  next
    case False
    then show ?thesis using Some by (simp add: abort_runner_def list_update_beyond not_less)
  qed
qed (simp add: abort_runner_def)

definition answers :: "(jsstr \<times> post_stage) option set \<Rightarrow> jsstr set" where
  "answers C = {t. \<exists>e. Some (e, Settled (Inr t)) \<in> C}"

lemma answers_mono: "C \<subseteq> D \<Longrightarrow> answers C \<subseteq> answers D"
  by (auto simp: answers_def)

lemma answers_insert:
  "answers (insert c C) = {t. \<exists>e. c = Some (e, Settled (Inr t))} \<union> answers C"
  by (auto simp: answers_def)

lemma answers_Un: "answers (C \<union> D) = answers C \<union> answers D"
  by (auto simp: answers_def)

definition answered :: "video_page \<Rightarrow> jsstr set" where
  "answered p = answers (rn_current ` set (vp_runners p))"

definition accepted :: "video_page \<Rightarrow> jsstr set" where
  "accepted p = {t. Some t \<in> qs_taskId ` set (vp_tasks p)}"

definition tasks_have_keys :: "video_page \<Rightarrow> bool" where
  "tasks_have_keys p \<longleftrightarrow> (vp_mounted p \<longrightarrow> (\<forall>t \<in> accepted p \<union> answered p. key_kept p t))"

lemma currents_update:
  "rn_current ` set ((vp_runners p)[i := r]) \<subseteq> insert (rn_current r) (rn_current ` set (vp_runners p))"
  using set_update_subset_insert [of "vp_runners p" i r] by auto

lemma answers_update:
  "answers (rn_current ` set ((vp_runners p)[i := r])) \<subseteq> {t. \<exists>e. rn_current r = Some (e, Settled (Inr t))} \<union> answered p"
  using answers_mono [OF currents_update] by (simp add: answers_insert answered_def)

lemma answers_aborted: "answers (rn_current ` set (vp_runners (abort_runner p))) \<subseteq> answered p"
  unfolding answered_def by (rule answers_mono [OF abort_runner_currents])

lemma resumed_accepted:
  assumes ok: "page_queue_ok p" and i: "i < length (vp_runners p)"
  shows "accepted (runner_resumed i p) \<subseteq> accepted p \<union> answered p" "answered (runner_resumed i p) \<subseteq> answered p"
proof -
  consider (settled) entry result where "rn_current (vp_runners p ! i) = Some (entry, Settled result)"
    | (other) "\<not> (\<exists>entry result. rn_current (vp_runners p ! i) = Some (entry, Settled result))" by blast
  then have "accepted (runner_resumed i p) \<subseteq> accepted p \<union> answered p \<and> answered (runner_resumed i p) \<subseteq> answered p"
  proof cases
    case settled
    let ?r = "vp_runners p ! i"
    have d: "entry \<notin> set (rn_waiting ?r)" using queue_ok_runner [OF ok i] settled by (auto simp: runner_ok_def)
    have mine: "Some (entry, Settled result) \<in> rn_current ` set (vp_runners p)"
      using settled i by (metis image_eqI nth_mem)
    have shape: "qs_taskId (resumed_task (vp_epoch p) ?r entry result x) = qs_taskId x \<or>
        (\<exists>t. result = Inr t \<and> qs_taskId (resumed_task (vp_epoch p) ?r entry result x) = Some t)" for x
      by (auto simp: resumed_task_def settle_def split: sum.splits list.splits)
    have "t \<in> accepted p \<union> answered p" if "t \<in> accepted (runner_resumed i p)" for t
    proof -
      from that obtain x where x: "x \<in> set (vp_tasks p)" "qs_taskId (resumed_task (vp_epoch p) ?r entry result x) = Some t"
        using resumed_page [OF settled d] by (auto simp: accepted_def)
      from shape [of x] show ?thesis
      proof
        assume "qs_taskId (resumed_task (vp_epoch p) ?r entry result x) = qs_taskId x"
        then have "Some t \<in> qs_taskId ` set (vp_tasks p)" using x by (metis imageI)
        then show ?thesis by (simp add: accepted_def)
      next
        assume "\<exists>t'. result = Inr t' \<and> qs_taskId (resumed_task (vp_epoch p) ?r entry result x) = Some t'"
        then show ?thesis using mine x(2) by (auto simp: answered_def answers_def)
      qed
    qed
    then have "accepted (runner_resumed i p) \<subseteq> accepted p \<union> answered p" by blast
    moreover have "rn_current (resumed_runner (vp_epoch p) ?r) \<noteq> Some (e, Settled (Inr t))" for e t
      by (auto simp: resumed_runner_def split: list.splits)
    then have "answered (runner_resumed i p) \<subseteq> answered p"
      using resumed_page [OF settled d] answers_update [of p i "resumed_runner (vp_epoch p) ?r"]
      by (simp add: answered_def)
    ultimately show ?thesis by blast
  next
    case other
    then show ?thesis using resumed_other [OF other] by simp
  qed
  then show "accepted (runner_resumed i p) \<subseteq> accepted p \<union> answered p" "answered (runner_resumed i p) \<subseteq> answered p" by blast+
qed

lemma answer_answered:
  assumes "i < length (vp_runners p)" and t: "t \<in> answered (post_answered h i ex p)"
  shows "t \<in> answered p \<or> key_kept (post_answered h i ex p) t"
proof (cases "\<exists>entry k. rn_current (vp_runners p ! i) = Some (entry, Awaiting_answer k)")
  case True
  then obtain entry k where c: "rn_current (vp_runners p ! i) = Some (entry, Awaiting_answer k)" by blast
  obtain res keys' where pg: "postVideoGeneration h k (requestWithApiKey ''Video generation failed'' ex)
      (rn_aborted (vp_runners p ! i)) (vp_keys p) = (res, keys')" by fastforce
  let ?r = "(vp_runners p ! i)\<lparr>rn_current := Some (entry, Settled (submit_result res))\<rparr>"
  have fields: "vp_runners (post_answered h i ex p) = (vp_runners p)[i := ?r]" "vp_keys (post_answered h i ex p) = keys'"
    using c pg by (auto simp: post_answered_def Let_def)
  have "t \<in> answered p \<or> submit_result res = Inr t"
    using t fields(1) answers_update [of p i ?r] by (auto simp: answered_def)
  moreover have "res = Inr t" if "submit_result res = Inr t"
    using that by (auto simp: submit_result_def res_bind_def split: sum.splits if_splits)
  ultimately show ?thesis using post_outcome [OF pg] fields(2) by (auto simp: key_kept_def)
next
  case False
  then have "post_answered h i ex p = p"
    by (auto simp: post_answered_def Let_def split: option.splits prod.splits post_stage.splits)
  then show ?thesis using t by simp
qed

lemma secret_answered:
  assumes "i < length (vp_runners p)"
  shows "answered (secret_loaded i key p) \<subseteq> answered p"
proof (cases "\<exists>entry. rn_current (vp_runners p ! i) = Some (entry, Awaiting_secret)")
  case True
  then obtain entry where c: "rn_current (vp_runners p ! i) = Some (entry, Awaiting_secret)" by blast
  then show ?thesis
    using answers_update [of p i "(vp_runners p ! i)\<lparr>rn_current := Some (entry,
        case key of Inl e \<Rightarrow> Settled (Inl e) | Inr k \<Rightarrow> Awaiting_answer k)\<rparr>"]
    by (auto simp: secret_loaded_def answered_def Let_def split: sum.splits)
next
  case False
  then have "secret_loaded i key p = p"
    by (auto simp: secret_loaded_def Let_def split: option.splits prod.splits post_stage.splits)
  then show ?thesis by simp
qed

lemma step_accepted:
  assumes step: "video_step h p q" and ok: "page_queue_ok p" and t: "t \<in> accepted q \<union> answered q"
  shows "t \<in> accepted p \<union> answered p \<or> key_kept q t"
  using step
proof cases
  case (step_start names modelId promptPreview now)
  have "accepted (start names modelId promptPreview now p) = accepted p"
    by (auto simp: accepted_def start_fields image_Un)
  moreover have "answered (start names modelId promptPreview now p) \<subseteq> answered p"
    using answers_aborted [of p] by (auto simp: answered_def start_fields answers_insert split: list.splits)
  ultimately show ?thesis using t step_start(1) by blast
next
  case (step_resume i)
  then show ?thesis using t resumed_accepted [OF ok] by blast
next
  case (step_answer i ex)
  moreover have "accepted (post_answered h i ex p) = accepted p"
    by (auto simp: post_answered_def accepted_def Let_def split: option.splits prod.splits post_stage.splits)
  ultimately show ?thesis using t answer_answered by blast
next
  case (step_secret i key)
  moreover have "accepted (secret_loaded i key p) = accepted p"
    by (auto simp: secret_loaded_def accepted_def Let_def split: option.splits prod.splits post_stage.splits)
  ultimately show ?thesis using t secret_answered by blast
qed (use t answers_aborted [of p] in
  \<open>auto simp: accepted_def answered_def poll_queue_fields invalidate_def leave_page_def image_image\<close>)

lemma step_tasks_have_keys:
  assumes step: "video_step h p q" and ok: "tasks_have_keys p" "page_queue_ok p"
  shows "tasks_have_keys q"
proof -
  have "vp_mounted p" if "vp_mounted q"
    using step that
    by (auto elim!: video_step.cases simp: secret_loaded_def post_answered_def runner_resumed_def poll_answered_def
        note_end_def Let_def split: option.splits prod.splits post_stage.splits)
  then show ?thesis
    using ok step_accepted [OF step ok(2)] step_key_kept [OF step] by (auto simp: tasks_have_keys_def)
qed

interpretation pollable: page_invariant h "\<lambda>p. tasks_have_keys p \<and> page_queue_ok p" for h
proof
  show "tasks_have_keys initial_page \<and> page_queue_ok initial_page"
    using initial_queue_ok by (simp add: tasks_have_keys_def accepted_def answered_def answers_def initial_page_def)
  show "tasks_have_keys q \<and> page_queue_ok q" if "tasks_have_keys p \<and> page_queue_ok p" "video_step h p q" for p q
    using that step_tasks_have_keys step_queue_ok by blast
qed

end
