(* ===== verification/Video_Guarantees.thy ===== *)
theory Video_Guarantees
  imports Video_Queue_Properties
begin

text \<open>
  What users of the video page rely on: cancellation is final, the keys of running tasks are
  bound, kept and dropped as they should be, every submission is settled, polling stops exactly
  when a task ended, unfinished tasks stay visible, and a played video is an artifact of its task.
\<close>

section \<open>A run of the page\<close>

text \<open>One submission, whose POST is answered, and the same with a cancellation before the answer.\<close>

definition sample_host :: video_host where
  "sample_host = \<lparr>vh_url = \<lambda>_. None,
     vh_task_schema = \<lambda>v. Some \<lparr>td_task_id = text_of (field v ''task_id''), td_status = text_of (field v ''status''),
       td_fail_reason = None\<rparr>,
     vh_submit_schema = \<lambda>v. Some (as_str (field v ''id''), None)\<rparr>"

definition sample_answer :: exchange where
  "sample_answer = \<lparr>ex_fetch = Inr (200, Inr (JObj [(js ''id'', JStr (js ''t1''))])),
     ex_aborted_fetch = False, ex_aborted_body = False\<rparr>"

definition sample_started :: video_page where
  "sample_started = start [js ''s1''] (js ''m'') (js ''p'') 7 initial_page"

definition sample_late :: video_page where
  "sample_late = runner_resumed 0 (post_answered sample_host 0 sample_answer (secret_loaded 0 (Inr (js ''k'')) (invalidate sample_started)))"

definition sample_posted :: video_page where
  "sample_posted = post_answered sample_host 0 sample_answer (secret_loaded 0 (Inr (js ''k'')) sample_started)"

definition sample_accepted :: video_page where
  "sample_accepted = runner_resumed 0 sample_posted"

lemmas sample_eval = sample_host_def sample_answer_def sample_started_def sample_late_def sample_posted_def
  sample_accepted_def start_def initial_page_def abort_runner_def new_submission_def invalidate_def cancel_unsettled_def
  unsettled_def secret_loaded_def post_answered_def requestWithApiKey_def answer_of_def postVideoGeneration_def
  extractServerErrorFromBody_def trimmed_message_def parseVideoSubmitTaskId_def rememberTaskApiKey_def submit_result_def
  runner_resumed_def updateTask_def settle_def live_def isAbortError_def res_bind_def isBusy_def lookupTaskApiKey_def

lemma sample_reachable:
  "reachable_page sample_host sample_started" "reachable_page sample_host sample_accepted"
  "(video_step sample_host)\<^sup>*\<^sup>* (invalidate sample_started) sample_late"
proof -
  have a: "video_step sample_host initial_page sample_started"
    unfolding sample_started_def by (rule step_start) (simp_all add: initial_page_def)
  then show "reachable_page sample_host sample_started" by (auto simp: reachable_page_def)
  have n: "length (vp_runners sample_started) = 1" "length (vp_runners (invalidate sample_started)) = 1"
    "length (vp_runners (secret_loaded 0 k sample_started)) = 1"
    "length (vp_runners (secret_loaded 0 k (invalidate sample_started))) = 1"
    "length (vp_runners sample_posted) = 1"
    "length (vp_runners (post_answered sample_host 0 sample_answer (secret_loaded 0 (Inr (js ''k'')) (invalidate sample_started)))) = 1" for k
    by (simp_all add: sample_eval js_eval split: sum.splits)
  have "video_step sample_host sample_started (secret_loaded 0 (Inr (js ''k'')) sample_started)"
    by (rule step_secret) (simp add: n)
  moreover have "video_step sample_host (secret_loaded 0 (Inr (js ''k'')) sample_started) sample_posted"
    unfolding sample_posted_def by (rule step_answer) (simp_all add: n sample_answer_def)
  moreover have "video_step sample_host sample_posted sample_accepted"
    unfolding sample_accepted_def by (rule step_resume) (simp add: n)
  ultimately show "reachable_page sample_host sample_accepted"
    using a by (auto simp: reachable_page_def intro: converse_rtranclp_into_rtranclp)
  have "video_step sample_host (invalidate sample_started) (secret_loaded 0 (Inr (js ''k'')) (invalidate sample_started))"
    by (rule step_secret) (simp add: n)
  moreover have "video_step sample_host (secret_loaded 0 (Inr (js ''k'')) (invalidate sample_started))
     (post_answered sample_host 0 sample_answer (secret_loaded 0 (Inr (js ''k'')) (invalidate sample_started)))"
    by (rule step_answer) (simp_all add: n sample_answer_def)
  moreover have "video_step sample_host
     (post_answered sample_host 0 sample_answer (secret_loaded 0 (Inr (js ''k'')) (invalidate sample_started))) sample_late"
    unfolding sample_late_def by (rule step_resume) (simp add: n)
  ultimately show "(video_step sample_host)\<^sup>*\<^sup>* (invalidate sample_started) sample_late"
    by (auto intro: converse_rtranclp_into_rtranclp)
qed

section \<open>Cancellation\<close>

text \<open>C10: Cancelling is final.  When the queue is invalidated, by the user or because another API
  key was chosen, every submission that was not settled is cancelled, every other one keeps its
  state, and no answer that arrives later, in any order, changes either of them.\<close>

theorem cancel_is_final:
  assumes "reachable_page h p" "(video_step h)\<^sup>*\<^sup>* (invalidate p) q" "x \<in> set (vp_tasks p)"
  shows "(if unsettled x then x\<lparr>qs_status := Cancelled\<rparr> else x) \<in> set (vp_tasks q)"
proof -
  have ok: "page_queue_ok (invalidate p)" using queue.good_reachable [OF assms(1)] by (rule invalidate_queue_ok)
  have "cancel_unsettled x \<in> set (vp_tasks (invalidate p))" using assms(3) by (simp add: invalidate_def)
  then have "cancel_unsettled x \<in> set (vp_tasks q)" by (rule steps_keep_settled [OF assms(2) ok]) simp
  then show ?thesis by (simp add: cancel_unsettled_def)
qed

theorem cancel_is_final_witness:
  "(let x = hd (vp_tasks sample_started) in unsettled x \<and> x\<lparr>qs_status := Cancelled\<rparr> \<in> set (vp_tasks sample_late))"
proof -
  have x: "hd (vp_tasks sample_started) \<in> set (vp_tasks sample_started)" "unsettled (hd (vp_tasks sample_started))"
    by (simp_all add: sample_eval)
  then show ?thesis using cancel_is_final [OF sample_reachable(1,3) x(1)] by (simp add: Let_def)
qed

section \<open>Keys of running tasks\<close>

text \<open>C12: The keys of running tasks are never mixed up and never outlive the page.  Every key in
  the registry, and every key a poll in flight uses, is the one its task was submitted with, and
  once the page was left the registry is empty, also when answers still arrive.\<close>

theorem task_keys_bound:
  assumes "reachable_page h p"
  shows "set (vp_keys p) \<subseteq> set (vp_posted p) \<and>
    (\<lambda>l. (pl_task l, pl_key l)) ` set (vp_polls p) \<subseteq> set (vp_posted p) \<and>
    (vp_mounted p \<or> vp_keys p = [])"
  using keys.good_reachable [OF assms] by (auto simp: keys_ok_def)

theorem task_keys_bound_witness:
  "vp_keys sample_accepted = [(js ''t1'', js ''k'')] \<and> (js ''t1'', js ''k'') \<in> set (vp_posted sample_accepted)"
proof -
  have "vp_keys sample_accepted = [(js ''t1'', js ''k'')]" by (simp add: sample_eval js_eval)
  then show ?thesis using task_keys_bound [OF sample_reachable(2)] by auto
qed

text \<open>An accepted task can be polled until it ends.  While the page is open, every submission
  that carries the identifier of a task has the key of this task in the registry, unless a poll of
  the task has ended it.\<close>

theorem accepted_task_pollable:
  assumes "reachable_page h p" "vp_mounted p" "x \<in> set (vp_tasks p)" "qs_taskId x = Some t"
  shows "qs_status x = Polling \<and> ((\<exists>k. lookupTaskApiKey t (vp_keys p) = Some k) \<or> t \<in> set (vp_ended p))"
proof -
  have "t \<in> accepted p" using assms(3,4) by (force simp: accepted_def image_iff)
  then have "key_kept p t" using pollable.good_reachable [OF assms(1)] assms(2) by (auto simp: tasks_have_keys_def)
  moreover have "qs_status x = Polling"
    using queue.good_reachable [OF assms(1)] assms(3,4) by (auto simp: queue_ok_def)
  ultimately show ?thesis by (auto simp: key_kept_def)
qed

theorem accepted_task_pollable_witness:
  "vp_mounted sample_accepted \<and> qs_taskId (hd (vp_tasks sample_accepted)) = Some (js ''t1'') \<and>
   qs_status (hd (vp_tasks sample_accepted)) = Polling"
proof -
  have x: "vp_mounted sample_accepted" "hd (vp_tasks sample_accepted) \<in> set (vp_tasks sample_accepted)"
    "qs_taskId (hd (vp_tasks sample_accepted)) = Some (js ''t1'')"
    by (simp_all add: sample_eval js_eval)
  then show ?thesis using accepted_task_pollable [OF sample_reachable(2) x] by simp
qed

section \<open>Every submission is settled\<close>

text \<open>The answers a runner still waits for.\<close>

definition runner_work :: "runner \<Rightarrow> nat" where
  "runner_work r =
     (case rn_current r of
        None \<Rightarrow> 0
      | Some (_, Awaiting_secret) \<Rightarrow> 3
      | Some (_, Awaiting_answer _) \<Rightarrow> 2
      | Some (_, Settled _) \<Rightarrow> 1) + 3 * length (rn_waiting r)"

definition work :: "video_page \<Rightarrow> nat" where
  "work p = sum_list (map runner_work (vp_runners p))"

lemma work_update:
  assumes "i < length rs" "runner_work r < runner_work (rs ! i)"
  shows "sum_list (map runner_work (rs[i := r])) < sum_list (map runner_work rs)"
proof -
  have "runner_work (rs ! i) \<le> sum_list (map runner_work rs)"
    using assms(1) by (intro member_le_sum_list) auto
  then show ?thesis using assms by (simp add: map_update sum_list_update)
qed

lemma secret_work:
  "i < length (vp_runners p) \<Longrightarrow> rn_current (vp_runners p ! i) = Some (e, Awaiting_secret) \<Longrightarrow> work (secret_loaded i key p) < work p"
  by (auto simp: secret_loaded_def work_def Let_def runner_work_def intro!: work_update split: sum.splits)

lemma answer_work:
  "i < length (vp_runners p) \<Longrightarrow> rn_current (vp_runners p ! i) = Some (e, Awaiting_answer k) \<Longrightarrow> work (post_answered h i ex p) < work p"
  by (auto simp: post_answered_def work_def Let_def runner_work_def intro!: work_update split: prod.splits)

lemma resume_work:
  assumes ok: "page_queue_ok p" and i: "i < length (vp_runners p)" and c: "rn_current (vp_runners p ! i) = Some (e, Settled result)"
  shows "work (runner_resumed i p) < work p"
proof -
  have d: "e \<notin> set (rn_waiting (vp_runners p ! i))" using queue_ok_runner [OF ok i] c by (auto simp: runner_ok_def)
  have "runner_work (resumed_runner (vp_epoch p) (vp_runners p ! i)) < runner_work (vp_runners p ! i)"
    using c by (cases "rn_waiting (vp_runners p ! i)") (auto simp: resumed_runner_def runner_work_def)
  then show ?thesis using resumed_page [OF c d] i by (simp add: work_def work_update)
qed

text \<open>C39: No submission waits for nothing.  While a submission is unsettled, some runner waits for
  an answer, and each answer a runner gets (the key, the response of the POST, the result) leaves
  strictly fewer answers to wait for; after finitely many of them the page is not busy.\<close>

theorem submissions_settle:
  assumes "reachable_page h p"
  shows "(isBusy p \<longrightarrow> 0 < work p) \<and>
    (\<forall>i < length (vp_runners p). case rn_current (vp_runners p ! i) of
        None \<Rightarrow> runner_work (vp_runners p ! i) = 0
      | Some (_, Awaiting_secret) \<Rightarrow> (\<forall>key. work (secret_loaded i key p) < work p)
      | Some (_, Awaiting_answer _) \<Rightarrow> (\<forall>ex. work (post_answered h i ex p) < work p)
      | Some (_, Settled _) \<Rightarrow> work (runner_resumed i p) < work p)"
proof (intro conjI impI allI)
  have ok: "page_queue_ok p" using queue.good_reachable [OF assms] .
  show "0 < work p" if "isBusy p"
  proof -
    from that obtain x where x: "x \<in> set (vp_tasks p)" "unsettled x" by (auto simp: isBusy_def list_ex_iff)
    then obtain i where i: "i < length (vp_runners p)" "qs_id x \<in> set (entries (vp_runners p ! i))"
      using ok by (auto simp: queue_ok_def)
    have "0 < runner_work (vp_runners p ! i)"
      using i(2) by (auto simp: entries_def runner_work_def split: option.splits prod.splits post_stage.splits)
    also have "\<dots> \<le> work p" unfolding work_def using i(1) by (intro member_le_sum_list) auto
    finally show ?thesis .
  qed
  fix i assume i: "i < length (vp_runners p)"
  show "case rn_current (vp_runners p ! i) of
        None \<Rightarrow> runner_work (vp_runners p ! i) = 0
      | Some (_, Awaiting_secret) \<Rightarrow> (\<forall>key. work (secret_loaded i key p) < work p)
      | Some (_, Awaiting_answer _) \<Rightarrow> (\<forall>ex. work (post_answered h i ex p) < work p)
      | Some (_, Settled _) \<Rightarrow> work (runner_resumed i p) < work p"
    using queue_ok_runner [OF ok i] secret_work [OF i] answer_work [OF i] resume_work [OF ok i]
    by (auto simp: runner_ok_def runner_work_def split: option.splits prod.splits post_stage.splits)
qed

theorem submissions_settle_witness:
  "isBusy sample_started \<and> 0 < work sample_started"
proof -
  have "isBusy sample_started" by (simp add: sample_eval)
  then show ?thesis using submissions_settle [OF sample_reachable(1)] by simp
qed

section \<open>The end of polling\<close>

text \<open>A key is dropped exactly when nothing asks with it again.  After the answer to a status
  request, or to a request for the artifacts of a task that succeeded, the key of the task is gone
  if and only if the query is neither repeated nor polled again because of this result.\<close>

theorem key_dropped_when_ended:
  assumes "lookupTaskApiKey t keys = Some k" "0 < VIDEO_TASK_STATUS_RETRY_COUNT - n" "vt_status task = VIDEO_TASK_SUCCESS"
  shows "(case poll_status h t answer keys of
      (Poll_failed e, keys') \<Rightarrow> (lookupTaskApiKey t keys' = None \<longleftrightarrow> \<not> retry_poll n e)
    | (Poll_done task, keys') \<Rightarrow>
        (lookupTaskApiKey t keys' = None \<longleftrightarrow> isTerminalVideoTaskStatus (vt_status task)) \<and>
        (isTerminalVideoTaskStatus (vt_status task) \<longrightarrow> refetch_interval None (Some task) = None)
    | (Poll_artifacts task, keys') \<Rightarrow> keys' = keys) \<and>
   (case poll_artifacts h t task answer keys of
      (Inl e, keys') \<Rightarrow> (lookupTaskApiKey t keys' = None \<longleftrightarrow> \<not> retry_poll n e)
    | (Inr result, keys') \<Rightarrow> lookupTaskApiKey t keys' = None \<and> refetch_interval None (Some result) = None)"
proof
  have r: "retry_poll n e \<longleftrightarrow> isRecoverableTaskError e" for e
    using assms(2) by (auto simp: retry_poll_def)
  have t: "\<not> isRecoverableTaskError (system_error key status True)" for key status
    by (simp add: isRecoverableTaskError_def system_error_def)
  show "case poll_status h t answer keys of
      (Poll_failed e, keys') \<Rightarrow> (lookupTaskApiKey t keys' = None \<longleftrightarrow> \<not> retry_poll n e)
    | (Poll_done task, keys') \<Rightarrow>
        (lookupTaskApiKey t keys' = None \<longleftrightarrow> isTerminalVideoTaskStatus (vt_status task)) \<and>
        (isTerminalVideoTaskStatus (vt_status task) \<longrightarrow> refetch_interval None (Some task) = None)
    | (Poll_artifacts task, keys') \<Rightarrow> keys' = keys"
    using assms(1) r t
    by (auto simp: poll_status_def drop_unless_recoverable_def refetch_interval_def videoTaskPollInterval_def
        isTerminalVideoTaskStatus_def split: sum.splits option.splits)
  show "case poll_artifacts h t task answer keys of
      (Inl e, keys') \<Rightarrow> (lookupTaskApiKey t keys' = None \<longleftrightarrow> \<not> retry_poll n e)
    | (Inr result, keys') \<Rightarrow> lookupTaskApiKey t keys' = None \<and> refetch_interval None (Some result) = None"
    using assms(1,3) r
    by (auto simp: poll_artifacts_def drop_unless_recoverable_def refetch_interval_def videoTaskPollInterval_def
        isTerminalVideoTaskStatus_def split: sum.splits)
qed

theorem key_dropped_when_ended_witness:
  "lookupTaskApiKey (js ''t1'') (snd (poll_status sample_host (js ''t1'')
     (Inl (system_error ''x'' (Some 404) False)) [(js ''t1'', js ''k'')])) = None \<and>
   \<not> retry_poll 0 (system_error ''x'' (Some 404) False)"
proof -
  let ?e = "system_error ''x'' (Some 404) False" and ?task = "\<lparr>vt_task_id = js ''t1'', vt_status = VIDEO_TASK_SUCCESS,
     vt_fail_reason = None, vt_content_url = None\<rparr>"
  have p: "fst (poll_status sample_host (js ''t1'') (Inl ?e) [(js ''t1'', js ''k'')]) = Poll_failed ?e"
    by (simp add: poll_status_def)
  have "\<not> retry_poll 0 ?e"
    by (simp add: retry_poll_def isRecoverableTaskError_def system_error_def RECOVERABLE_TASK_STATUS_CODES_def)
  then show ?thesis
    using key_dropped_when_ended [where t = "js ''t1''" and k = "js ''k''" and keys = "[(js ''t1'', js ''k'')]" and n = 0
        and task = ?task and h = sample_host and answer = "Inl ?e"] p
    by (auto simp: lookupTaskApiKey_def VIDEO_TASK_STATUS_RETRY_COUNT_def split: prod.splits)
qed

section \<open>Played videos\<close>

lemma last_segment:
  assumes "xs @ [c] @ ys = xs' @ [c] @ ys'" "c \<notin> set ys" "c \<notin> set ys'"
  shows "ys = ys' \<and> xs = xs'"
proof -
  have "rev ys @ c # rev xs = rev ys' @ c # rev xs'" using assms(1) by (metis append.assoc append_Cons append_Nil rev_append rev_singleton_conv rev.simps(2))
  then have "takeWhile (\<lambda>d. d \<noteq> c) (rev ys @ c # rev xs) = takeWhile (\<lambda>d. d \<noteq> c) (rev ys' @ c # rev xs')" by simp
  moreover have "takeWhile (\<lambda>d. d \<noteq> c) (rev zs @ c # ws) = rev zs" if "c \<notin> set zs" for zs ws
    using that by (auto simp: takeWhile_append)
  ultimately have "ys = ys'" using assms(2,3) by simp
  then show ?thesis using assms(1) by simp
qed

lemma capability_suffix_base: "capability_suffix path cap \<Longrightarrow> \<exists>base. path = base @ cap"
  by (auto simp: capability_suffix_def Let_def ends_with_def split: if_splits) (metis append_take_drop_id)

lemma capability_url_parts:
  assumes "isVideoArtifactCapabilityUrl h v t k"
  obtains raw parsed path base where "v = JStr raw" "vh_url h raw = Some parsed"
    "decodeURIComponent (u_pathname parsed) = Some path" "path = base @ capability_path t k"
  using assms
  by (auto simp: isVideoArtifactCapabilityUrl_def capability_parts_def split: jsval.splits if_splits option.splits
      dest!: capability_suffix_base)

lemma key_pattern_no_slash: "artifact_key_pattern k \<Longrightarrow> 47 \<notin> set k"
  by (auto simp: artifact_key_pattern_def is_alnum_def is_digit_def list_all_iff split: list.splits)

lemma capability_path_unique:
  assumes "base @ capability_path t k = base' @ capability_path t' k'"
    and "47 \<notin> set t" "47 \<notin> set t'" "47 \<notin> set k" "47 \<notin> set k'"
  shows "t = t' \<and> k = k'"
proof -
  have form: "base @ capability_path t k = ((base @ js ''/v1/tasks'') @ [47] @ t @ js ''/artifacts'') @ [47] @ (k @ js ''/content'')"
    for base t k by (simp add: capability_path_def js_eval)
  have "(base @ js ''/v1/tasks'') @ [47] @ t @ js ''/artifacts'' @ [47] @ k @ js ''/content'' =
        (base' @ js ''/v1/tasks'') @ [47] @ t' @ js ''/artifacts'' @ [47] @ k' @ js ''/content''"
    using assms(1) form by simp
  then have "((base @ js ''/v1/tasks'') @ [47] @ t @ js ''/artifacts'') @ [47] @ k =
        ((base' @ js ''/v1/tasks'') @ [47] @ t' @ js ''/artifacts'') @ [47] @ k'"
    by (metis append.assoc append_same_eq)
  then have k: "k = k'" and rest: "(base @ js ''/v1/tasks'') @ [47] @ t @ js ''/artifacts'' = (base' @ js ''/v1/tasks'') @ [47] @ t' @ js ''/artifacts''"
    using last_segment [OF _ assms(4,5)] by blast+
  then have "(base @ js ''/v1/tasks'') @ [47] @ t = (base' @ js ''/v1/tasks'') @ [47] @ t'"
    by (metis append.assoc append_same_eq)
  then show ?thesis using last_segment [OF _ assms(2,3)] k by blast
qed

lemma capability_url_unique:
  assumes "isVideoArtifactCapabilityUrl h v t k" "isVideoArtifactCapabilityUrl h v t' k'"
    and "47 \<notin> set t" "47 \<notin> set t'" "artifact_key_pattern k" "artifact_key_pattern k'"
  shows "t = t' \<and> k = k'"
proof -
  obtain raw parsed path base where a: "v = JStr raw" "vh_url h raw = Some parsed"
    "decodeURIComponent (u_pathname parsed) = Some path" "path = base @ capability_path t k"
    using assms(1) by (rule capability_url_parts)
  obtain raw' parsed' path' base' where b: "v = JStr raw'" "vh_url h raw' = Some parsed'"
    "decodeURIComponent (u_pathname parsed') = Some path'" "path' = base' @ capability_path t' k'"
    using assms(2) by (rule capability_url_parts)
  show ?thesis
    using capability_path_unique [of base t k base' t' k'] a b assms(3-6) key_pattern_no_slash by auto
qed

lemma capability_url_text: "isVideoArtifactCapabilityUrl h v t k \<Longrightarrow> v = JStr (text_of v)"
  by (auto simp: isVideoArtifactCapabilityUrl_def text_of_def split: jsval.splits)

lemma validated_artifact:
  "validateArtifactFields h item t = Inr a \<Longrightarrow>
   artifact_key_pattern (va_key a) \<and> field item ''key'' = JStr (va_key a) \<and> field item ''type'' = JStr (va_type a) \<and>
   field item ''content_url'' = JStr (va_contentUrl a) \<and> isVideoArtifactCapabilityUrl h (field item ''content_url'') t (va_key a)"
  by (auto simp: validateArtifactFields_def split: jsval.splits if_splits dest: capability_url_text)

definition video_item :: "video_host \<Rightarrow> jsstr \<Rightarrow> jsstr \<Rightarrow> jsval \<Rightarrow> bool" where
  "video_item h t link item \<longleftrightarrow>
     field item ''type'' = JStr (js ''video'') \<and> field item ''content_url'' = JStr link \<and>
     (\<exists>k. field item ''key'' = JStr k \<and> artifact_key_pattern k \<and> isVideoArtifactCapabilityUrl h (JStr link) t k)"

lemma scan_artifacts_result:
  "scan_artifacts h t items seen v = Inr res \<Longrightarrow>
   res = v \<or> (\<exists>link. res = Some link \<and> (\<exists>item \<in> set items. video_item h t link item))"
proof (induction h t items seen v rule: scan_artifacts.induct)
  case (2 h t item items seen v)
  from "2.prems" obtain a where a: "validateArtifactFields h item t = Inr a" "va_key a \<notin> set seen"
    "scan_artifacts h t items (va_key a # seen) (if v = None \<and> isPlayableVideoArtifact a then Some (va_contentUrl a) else v) = Inr res"
    by (auto simp: res_bind_def split: sum.splits if_splits)
  have "video_item h t (va_contentUrl a) item" if "isPlayableVideoArtifact a"
    using validated_artifact [OF a(1)] that by (auto simp: video_item_def isPlayableVideoArtifact_def)
  then show ?case using "2.IH" [OF a(2,3)] by (auto split: if_splits)
qed simp

lemma picked_video:
  assumes "pickVideoArtifactContentUrl h data t = Inr (Some link)"
  shows "(\<exists>items. field data ''artifacts'' = JArr items \<and> (\<exists>item \<in> set items. video_item h t link item)) \<or>
    field data ''legacy_content_url'' = JStr link \<and> isVideoArtifactCapabilityUrl h (JStr link) t LEGACY_VIDEO_ARTIFACT_KEY"
proof -
  let ?items = "case field data ''artifacts'' of JArr items \<Rightarrow> items | _ \<Rightarrow> []" and ?legacy = "field data ''legacy_content_url''"
  from assms obtain v where v: "scan_artifacts h t ?items [] None = Inr v"
    and link: "v = Some link \<or> (v = None \<and> ?legacy \<noteq> JUndef \<and> link = text_of ?legacy \<and>
       isVideoArtifactCapabilityUrl h ?legacy t LEGACY_VIDEO_ARTIFACT_KEY)"
    by (auto simp: pickVideoArtifactContentUrl_def Let_def res_bind_def split: jsval.splits sum.splits if_splits option.splits)
  from link show ?thesis
  proof
    assume "v = Some link"
    then have "\<exists>item \<in> set ?items. video_item h t link item" using scan_artifacts_result [OF v] by auto
    then show ?thesis by (cases "field data ''artifacts''") auto
  next
    assume "v = None \<and> ?legacy \<noteq> JUndef \<and> link = text_of ?legacy \<and> isVideoArtifactCapabilityUrl h ?legacy t LEGACY_VIDEO_ARTIFACT_KEY"
    then show ?thesis by (cases ?legacy) (auto simp: text_of_def isVideoArtifactCapabilityUrl_def)
  qed
qed

lemma legacy_key: "artifact_key_pattern LEGACY_VIDEO_ARTIFACT_KEY"
  by (simp add: LEGACY_VIDEO_ARTIFACT_KEY_def artifact_key_pattern_def js_eval is_alnum_def is_digit_def)

lemma picked_link:
  "pickVideoArtifactContentUrl h data t = Inr (Some link) \<Longrightarrow>
   \<exists>k. artifact_key_pattern k \<and> isVideoArtifactCapabilityUrl h (JStr link) t k"
  using picked_video legacy_key by (fastforce simp: video_item_def)

text \<open>C14: A played video belongs to its task.  The link that is played is the content link of an
  artifact that the response declares to be a video, or the link of the older format, and it was
  checked against the identifier of this task; no response for another task can make the page play
  the same link.\<close>

theorem played_video_of_task:
  assumes "pickVideoArtifactContentUrl h data t = Inr (Some link)" "47 \<notin> set t"
  shows "((\<exists>items. field data ''artifacts'' = JArr items \<and> (\<exists>item \<in> set items. video_item h t link item)) \<or>
      field data ''legacy_content_url'' = JStr link) \<and>
    (\<forall>data' t'. pickVideoArtifactContentUrl h data' t' = Inr (Some link) \<longrightarrow> 47 \<notin> set t' \<longrightarrow> t' = t)"
proof (intro conjI allI impI)
  show "(\<exists>items. field data ''artifacts'' = JArr items \<and> (\<exists>item \<in> set items. video_item h t link item)) \<or>
      field data ''legacy_content_url'' = JStr link"
    using picked_video [OF assms(1)] by blast
  show "t' = t" if "pickVideoArtifactContentUrl h data' t' = Inr (Some link)" "47 \<notin> set t'" for data' t'
    using picked_link [OF that(1)] picked_link [OF assms(1)] capability_url_unique that(2) assms(2) by metis
qed

text \<open>A host whose parser reads one link, and a response with this link.\<close>

definition sample_link :: jsstr where
  "sample_link = js ''https://m/v1/tasks/t1/artifacts/a/content?access=AAAAAAAAAAAAAAAAAAAAAAAAAAAAAAAAAAAAAAAAAAA''"

definition link_host :: video_host where
  "link_host = sample_host\<lparr>vh_url := \<lambda>raw. if raw = sample_link then Some \<lparr>u_protocol = js ''https:'', u_hostname = js ''m'',
     u_username = [], u_password = [], u_pathname = js ''/v1/tasks/t1/artifacts/a/content'',
     u_search = js ''?access=AAAAAAAAAAAAAAAAAAAAAAAAAAAAAAAAAAAAAAAAAAA'', u_hash = []\<rparr> else None\<rparr>"

definition link_response :: jsval where
  "link_response = JObj [(js ''task_id'', JStr (js ''t1'')), (js ''artifacts'', JArr [JObj [(js ''key'', JStr (js ''a'')),
     (js ''type'', JStr (js ''video'')), (js ''content_url'', JStr sample_link)]])]"

lemma sample_link_checked: "isVideoArtifactCapabilityUrl link_host (JStr sample_link) (js ''t1'') (js ''a'')"
proof -
  have t: "trim sample_link = sample_link" by (simp add: sample_link_def trim_def js_eval is_space_def)
  have c: "\<not> hasControlCharacter sample_link" "\<not> str_includes sample_link [92]" "\<not> str_includes sample_link [35]"
    by (simp_all add: sample_link_def hasControlCharacter_def js_eval starts_with_def)
  have a: "authority sample_link = js ''m''"
    by (simp add: authority_def sample_link_def js_eval starts_with_def)
  have d: "decodeURIComponent (js ''/v1/tasks/t1/artifacts/a/content'') = Some (capability_path (js ''t1'') (js ''a''))"
    by (simp add: js_eval capability_path_def)
  let ?u = "\<lparr>u_protocol = js ''https:'', u_hostname = js ''m'', u_username = [], u_password = [],
     u_pathname = js ''/v1/tasks/t1/artifacts/a/content'', u_search = js ''?access=AAAAAAAAAAAAAAAAAAAAAAAAAAAAAAAAAAAAAAAAAAA'', u_hash = []\<rparr>"
  have p: "artifact_access_pattern (drop 8 (js ''?access=AAAAAAAAAAAAAAAAAAAAAAAAAAAAAAAAAAAAAAAAAAA''))" "starts_with (js ''?access=AAAAAAAAAAAAAAAAAAAAAAAAAAAAAAAAAAAAAAAAAAA'') (js ''?access='')"
    by (simp_all add: artifact_access_pattern_def js_eval is_alnum_def is_digit_def starts_with_def)
  have m: "\<not> str_includes (js ''m'') [64]" by (simp add: js_eval starts_with_def)
  have e: "\<not> has_escaped_slash (js ''/v1/tasks/t1/artifacts/a/content'')"
    by (simp add: has_escaped_slash_def js_eval starts_with_def)
  have s: "\<not> hasControlCharacter (capability_path (js ''t1'') (js ''a''))" "\<not> str_includes (capability_path (js ''t1'') (js ''a'')) [92]"
    by (simp_all add: hasControlCharacter_def capability_path_def js_eval starts_with_def)
  have "capability_parts ?u sample_link (js ''t1'') (js ''a'')"
    using a d p e s m by (simp add: capability_parts_def capability_suffix_def)
  moreover have "vh_url link_host sample_link = Some ?u" "sample_link \<noteq> []"
    by (simp_all add: link_host_def sample_link_def)
  ultimately show ?thesis using t c by (simp add: isVideoArtifactCapabilityUrl_def)
qed

theorem played_video_of_task_witness:
  "pickVideoArtifactContentUrl link_host link_response (js ''t1'') = Inr (Some sample_link) \<and>
   (\<exists>item. video_item link_host (js ''t1'') sample_link item)"
proof -
  have k: "artifact_key_pattern (js ''a'')" "trim (js ''t1'') = js ''t1''" "47 \<notin> set (js ''t1'')"
    by (simp_all add: artifact_key_pattern_def is_alnum_def trim_def is_space_def js_eval)
  have "validateArtifactFields link_host (JObj [(js ''key'', JStr (js ''a'')), (js ''type'', JStr (js ''video'')),
      (js ''content_url'', JStr sample_link)]) (js ''t1'') =
    Inr \<lparr>va_key = js ''a'', va_type = js ''video'', va_mimeType = None, va_contentUrl = sample_link\<rparr>"
    using sample_link_checked k(1)
    by (simp add: validateArtifactFields_def isPlainRecord_def ARTIFACT_TYPES_def bad_mime_def text_of_def)
  then have pick: "pickVideoArtifactContentUrl link_host link_response (js ''t1'') = Inr (Some sample_link)"
    using k(2) by (simp add: pickVideoArtifactContentUrl_def link_response_def isPlainRecord_def Let_def res_bind_def
        bad_artifacts_def MAX_VIDEO_TASK_ARTIFACTS_def isPlayableVideoArtifact_def)
  moreover have "\<exists>item. video_item link_host (js ''t1'') sample_link item"
    using played_video_of_task [OF pick k(3)] by (auto simp: link_response_def)
  ultimately show ?thesis ..
qed

section \<open>Visible tasks\<close>

lemma filter_enumerate_suffix:
  "map snd (filter (\<lambda>(i, x). n \<le> i \<or> P x) (enumerate m xs)) = filter P (take (n - m) xs) @ drop (n - m) xs"
proof (induction xs arbitrary: m)
  case (Cons x xs)
  show ?case
  proof (cases "n \<le> m")
    case True
    then have "filter (\<lambda>(i, x). n \<le> i \<or> P x) (enumerate k ys) = enumerate k ys" if "m \<le> k" for k and ys :: "'a list"
      using that by (intro filter_True) (auto simp: in_set_enumerate_eq)
    then show ?thesis using True by simp
  next
    case False
    then obtain d where d: "n - m = Suc d" "n - Suc m = d" by (metis Suc_diff_Suc not_le)
    then show ?thesis using Cons.IH [of "Suc m"] False by simp
  qed
qed simp

text \<open>The studio shows the last six submissions and, before them, every earlier one that is not
  finished, in the order of submission.\<close>

theorem visible_tasks:
  "selectVisibleTasks tasks upstream =
     filter (\<lambda>s. isSubmissionUnfinished s (upstream (qs_id s))) (take (length tasks - 6) tasks) @ drop (length tasks - 6) tasks"
  unfolding selectVisibleTasks_def RECENT_TASK_WINDOW_def
  by (subst filter_enumerate_suffix) simp

end
