(* ===== verification/Video_Requests.thy ===== *)
theory Video_Requests
  imports Billing_Visual Video_Task
begin

text \<open>
  Requests of the video page: the capabilities of models (\<open>lib/model-capabilities.ts\<close>), the values
  the composer starts with (\<open>lib/composer-schema.ts\<close>), the intake of reference images
  (\<open>lib/reference-images.ts\<close>) and the bodies that are sent (\<open>lib/video-request.ts\<close>).
\<close>

section \<open>Capabilities\<close>

datatype wire_contract = Alibaba_wan3 | Hailuo_h3 | Doubao_seedance

record model_capability =
  mc_modelId :: jsstr
  mc_known :: bool
  mc_wire :: "wire_contract option"
  mc_durations :: "jsnum list"
  mc_resolutions :: "jsstr list"
  mc_resolutionLabels :: "(jsstr \<times> jsstr) list"
  mc_maxReferenceImages :: nat
  mc_rejectedWithImages :: "jsstr list"
  mc_requestBodyLimitBytes :: nat

definition REFERENCE_IMAGE_MIME_TYPES :: "jsstr list" where
  "REFERENCE_IMAGE_MIME_TYPES = map js [''image/jpeg'', ''image/png'', ''image/webp'']"

definition MAX_REFERENCE_IMAGE_BYTES :: nat where
  "MAX_REFERENCE_IMAGE_BYTES = 10 * 1024 * 1024"

definition DEFAULT_VIDEO_DURATION_SECONDS :: jsnum where
  "DEFAULT_VIDEO_DURATION_SECONDS = Fin 5"

definition MB :: nat where
  "MB = 1024 * 1024"

definition DOCUMENTED_REQUEST_BODY_LIMIT_BYTES :: nat where
  "DOCUMENTED_REQUEST_BODY_LIMIT_BYTES = 64 * MB"

definition PLATFORM_REQUEST_BODY_LIMIT_BYTES :: nat where
  "PLATFORM_REQUEST_BODY_LIMIT_BYTES = 128 * MB"

definition everySecondFrom :: "nat \<Rightarrow> nat \<Rightarrow> jsnum list" where
  "everySecondFrom first final = map (\<lambda>n. Fin (of_nat n)) [first..<Suc final]"

definition WAN3_VIDEO :: model_capability where
  "WAN3_VIDEO = \<lparr>mc_modelId = js ''wan3.0-video'', mc_known = True, mc_wire = Some Alibaba_wan3,
     mc_durations = everySecondFrom 2 30, mc_resolutions = map js [''480P'', ''720P'', ''1080P''],
     mc_resolutionLabels = [], mc_maxReferenceImages = 10, mc_rejectedWithImages = [],
     mc_requestBodyLimitBytes = PLATFORM_REQUEST_BODY_LIMIT_BYTES\<rparr>"

definition WAN3_VIDEO_PRIME :: model_capability where
  "WAN3_VIDEO_PRIME = WAN3_VIDEO\<lparr>mc_modelId := js ''wan3.0-video-prime''\<rparr>"

definition MINIMAX_H3 :: model_capability where
  "MINIMAX_H3 = \<lparr>mc_modelId = js ''MiniMax-H3'', mc_known = True, mc_wire = Some Hailuo_h3,
     mc_durations = everySecondFrom 4 15, mc_resolutions = map js [''768P'', ''2K''],
     mc_resolutionLabels = [], mc_maxReferenceImages = 5, mc_rejectedWithImages = [],
     mc_requestBodyLimitBytes = DOCUMENTED_REQUEST_BODY_LIMIT_BYTES\<rparr>"

definition SEEDANCE_2_0 :: model_capability where
  "SEEDANCE_2_0 = \<lparr>mc_modelId = js ''Doubao-Seedance-2.0'', mc_known = True, mc_wire = Some Doubao_seedance,
     mc_durations = everySecondFrom 4 15, mc_resolutions = map js [''480p'', ''720p'', ''1080p'', ''4k''],
     mc_resolutionLabels = [(js ''4k'', js ''4K'')], mc_maxReferenceImages = 9, mc_rejectedWithImages = [js ''1080p''],
     mc_requestBodyLimitBytes = DOCUMENTED_REQUEST_BODY_LIMIT_BYTES\<rparr>"

definition SEEDANCE_2_5 :: model_capability where
  "SEEDANCE_2_5 = \<lparr>mc_modelId = js ''Doubao-Seedance-2.5'', mc_known = True, mc_wire = Some Doubao_seedance,
     mc_durations = everySecondFrom 4 30, mc_resolutions = map js [''480p'', ''720p'', ''1080p''],
     mc_resolutionLabels = [], mc_maxReferenceImages = 30, mc_rejectedWithImages = [],
     mc_requestBodyLimitBytes = DOCUMENTED_REQUEST_BODY_LIMIT_BYTES\<rparr>"

definition CAPABILITY_REGISTRY :: "model_capability list" where
  "CAPABILITY_REGISTRY = [WAN3_VIDEO, WAN3_VIDEO_PRIME, MINIMAX_H3, SEEDANCE_2_0, SEEDANCE_2_5]"

definition UNKNOWN_VIDEO_MODEL_CAPABILITY :: "jsstr \<Rightarrow> model_capability" where
  "UNKNOWN_VIDEO_MODEL_CAPABILITY modelId = \<lparr>mc_modelId = modelId, mc_known = False, mc_wire = None,
     mc_durations = [], mc_resolutions = [], mc_resolutionLabels = [], mc_maxReferenceImages = 0,
     mc_rejectedWithImages = [], mc_requestBodyLimitBytes = DOCUMENTED_REQUEST_BODY_LIMIT_BYTES\<rparr>"

definition resolveVideoModelCapability :: "jsstr \<Rightarrow> model_capability" where
  "resolveVideoModelCapability modelId =
     (case find (\<lambda>entry. mc_modelId entry = modelId) CAPABILITY_REGISTRY of
        Some c \<Rightarrow> c
      | None \<Rightarrow> UNKNOWN_VIDEO_MODEL_CAPABILITY modelId)"

definition availableResolutions :: "model_capability \<Rightarrow> nat \<Rightarrow> jsstr list" where
  "availableResolutions c referenceImageCount =
     (if referenceImageCount = 0 then mc_resolutions c
      else filter (\<lambda>r. r \<notin> set (mc_rejectedWithImages c)) (mc_resolutions c))"

definition highestAvailableResolution :: "model_capability \<Rightarrow> nat \<Rightarrow> jsstr option" where
  "highestAvailableResolution c referenceImageCount =
     (case availableResolutions c referenceImageCount of [] \<Rightarrow> None | rs \<Rightarrow> Some (last rs))"

definition includes_num :: "jsnum list \<Rightarrow> jsnum \<Rightarrow> bool" where
  "includes_num ns n \<longleftrightarrow> list_ex (\<lambda>m. eq_num m n \<or> (m = NaN \<and> n = NaN)) ns"

definition defaultDurationSeconds :: "model_capability \<Rightarrow> jsnum option" where
  "defaultDurationSeconds c =
     (if \<not> includes_num (mc_durations c) DEFAULT_VIDEO_DURATION_SECONDS then None else Some DEFAULT_VIDEO_DURATION_SECONDS)"

definition resolutionLabel :: "model_capability \<Rightarrow> jsstr \<Rightarrow> jsstr" where
  "resolutionLabel c resolution = (case map_of (mc_resolutionLabels c) resolution of Some l \<Rightarrow> l | None \<Rightarrow> resolution)"

section \<open>The composer\<close>

definition PROVIDER_DEFAULT :: jsstr where
  "PROVIDER_DEFAULT = js ''default''"

text \<open>A duration is a number, or \<open>None\<close> for the default of the provider.\<close>

record composer_values =
  cv_prompt :: jsstr
  cv_duration :: "jsnum option"
  cv_resolution :: jsstr

definition defaultComposerValues :: "model_capability \<Rightarrow> composer_values" where
  "defaultComposerValues c =
     (if \<not> mc_known c then \<lparr>cv_prompt = [], cv_duration = None, cv_resolution = PROVIDER_DEFAULT\<rparr>
      else \<lparr>cv_prompt = [], cv_duration = defaultDurationSeconds c,
         cv_resolution = (case highestAvailableResolution c 0 of Some r \<Rightarrow> r | None \<Rightarrow> PROVIDER_DEFAULT)\<rparr>)"

section \<open>Resources\<close>

datatype media_source = Url_source jsstr | Base64_source jsstr | Asset_source jsstr

record video_image =
  vi_id :: jsstr
  vi_source :: media_source
  vi_name :: jsstr
  vi_mimeType :: jsstr
  vi_byteSize :: "jsnum option"
  vi_width :: "jsnum option"
  vi_height :: "jsnum option"

text \<open>A picked, dropped or pasted file, with the data URL its bytes read as, if they can be read.\<close>

record local_file =
  lf_name :: jsstr
  lf_type :: jsstr
  lf_size :: nat
  lf_data :: "jsstr option"

datatype intake_rejection =
    Model_accepts_no_images | Too_many_images nat | Not_an_image | Unsupported_format | Image_too_large | Unreadable_image

definition isAcceptedImageMimeType :: "jsstr \<Rightarrow> bool" where
  "isAcceptedImageMimeType m \<longleftrightarrow> m \<in> set REFERENCE_IMAGE_MIME_TYPES"

definition readFileAsDataUrl :: "local_file \<Rightarrow> jsstr option" where
  "readFileAsDataUrl file = (case lf_data file of Some d \<Rightarrow> if d = [] then None else Some d | None \<Rightarrow> None)"

definition intake_file :: "jsstr \<times> local_file \<Rightarrow> intake_rejection + video_image" where
  "intake_file nf =
     (let file = snd nf
      in if \<not> starts_with (lf_type file) (js ''image/'') then Inl Not_an_image
         else if \<not> isAcceptedImageMimeType (lf_type file) then Inl Unsupported_format
         else if MAX_REFERENCE_IMAGE_BYTES < lf_size file then Inl Image_too_large
         else case readFileAsDataUrl file of
                None \<Rightarrow> Inl Unreadable_image
              | Some d \<Rightarrow> Inr \<lparr>vi_id = fst nf, vi_source = Base64_source d,
                  vi_name = (if trim (lf_name file) \<noteq> [] then trim (lf_name file) else lf_type file),
                  vi_mimeType = lf_type file, vi_byteSize = Some (Fin (of_nat (lf_size file))),
                  vi_width = None, vi_height = None\<rparr>)"

fun intake_files :: "(jsstr \<times> local_file) list \<Rightarrow> intake_rejection + video_image list" where
  "intake_files [] = Inr []"
| "intake_files (f # fs) = res_bind (intake_file f) (\<lambda>i. res_bind (intake_files fs) (\<lambda>is. Inr (i # is)))"

text \<open>The identifiers of the new images are drawn at random and are given with the files.\<close>

definition intakeReferenceImageFiles ::
  "model_capability \<Rightarrow> nat \<Rightarrow> (jsstr \<times> local_file) list \<Rightarrow> intake_rejection + video_image list" where
  "intakeReferenceImageFiles c currentCount files =
     (if files = [] then Inr []
      else if mc_maxReferenceImages c = 0 then Inl Model_accepts_no_images
      else
        let remaining = int (mc_maxReferenceImages c) - int currentCount
        in if remaining \<le> 0 \<or> remaining < int (length files) then Inl (Too_many_images (mc_maxReferenceImages c))
           else intake_files files)"

text \<open>What a drop or the clipboard carries: the list of files, and the items, whose file is \<open>None\<close>
  for an item that is no file.\<close>

record data_transfer =
  dt_files :: "local_file list"
  dt_items :: "local_file option list"

definition filesFromDataTransfer :: "data_transfer option \<Rightarrow> local_file list" where
  "filesFromDataTransfer t =
     (case t of None \<Rightarrow> [] | Some d \<Rightarrow> if dt_files d \<noteq> [] then dt_files d else List.map_filter id (dt_items d))"

definition dataTransferHasImage :: "data_transfer option \<Rightarrow> bool" where
  "dataTransferHasImage t \<longleftrightarrow> list_ex (\<lambda>file. starts_with (lf_type file) (js ''image/'')) (filesFromDataTransfer t)"

section \<open>Bodies\<close>

text \<open>\<open>JSON.stringify\<close>: properties that are undefined are left out.\<close>

fun stringify :: "jsval \<Rightarrow> jsstr" where
  "stringify JUndef = js ''null''"
| "stringify JNull = js ''null''"
| "stringify (JBool b) = (if b then js ''true'' else js ''false'')"
| "stringify (JNum n) = (if is_finite n then num_text n else js ''null'')"
| "stringify (JStr s) = json_string s"
| "stringify (JArr vs) = [91] @ join [44] (map stringify vs) @ [93]"
| "stringify (JObj fs) = [123] @ join [44] (map (\<lambda>(k, v). json_string k @ [58] @ stringify v) (filter (\<lambda>(k, v). v \<noteq> JUndef) fs)) @ [125]"

text \<open>The length in UTF-8; a surrogate without its partner is encoded as the replacement character.\<close>

fun utf8_length :: "jsstr \<Rightarrow> nat" where
  "utf8_length [] = 0"
| "utf8_length (c # r) =
     (if c < 128 then 1 + utf8_length r
      else if c < 2048 then 2 + utf8_length r
      else case r of
             d # r' \<Rightarrow>
               if 55296 \<le> c \<and> c < 56320 \<and> 56320 \<le> d \<and> d < 57344 then 4 + utf8_length r' else 3 + utf8_length r
           | [] \<Rightarrow> 3)"

record request_input =
  ri_capability :: model_capability
  ri_prompt :: jsstr
  ri_duration :: "jsnum option"
  ri_resolution :: jsstr
  ri_images :: "video_image list"

text \<open>A rejection that is shown, with the limit its text mentions, or an error of the page itself.\<close>

datatype request_failure = Rejected jsstr "nat option" | Page_error jsstr

definition REQUEST_BODY_TOO_LARGE_KEY :: jsstr where
  "REQUEST_BODY_TOO_LARGE_KEY = js ''videoPlayground.request.bodyTooLarge''"

definition IMAGES_NOT_ACCEPTED_KEY :: jsstr where
  "IMAGES_NOT_ACCEPTED_KEY = js ''videoPlayground.reference.modelDoesNotAcceptImages''"

definition TOO_MANY_IMAGES_KEY :: jsstr where
  "TOO_MANY_IMAGES_KEY = js ''videoPlayground.reference.tooManyImages''"

definition image_link :: "video_image \<Rightarrow> jsstr" where
  "image_link i = (case vi_source i of Base64_source d \<Rightarrow> d | Url_source u \<Rightarrow> u | Asset_source a \<Rightarrow> [])"

definition referenceImageContent :: "jsstr list \<Rightarrow> jsval" where
  "referenceImageContent links = JArr (map (\<lambda>u. JObj [(js ''type'', JStr (js ''image_url'')),
     (js ''role'', JStr (js ''reference_image'')), (js ''image_url'', JObj [(js ''url'', JStr u)])]) links)"

definition content_field :: "jsstr list \<Rightarrow> (jsstr \<times> jsval) list" where
  "content_field links = (if links = [] then [] else [(js ''content'', referenceImageContent links)])"

fun buildProviderBody :: "wire_contract \<Rightarrow> jsstr \<Rightarrow> jsstr \<Rightarrow> jsnum \<Rightarrow> jsstr \<Rightarrow> jsstr list \<Rightarrow> jsval" where
  "buildProviderBody Alibaba_wan3 modelId prompt duration resolution links =
     JObj ([(js ''model'', JStr modelId), (js ''prompt'', JStr prompt), (js ''duration'', JNum duration), (js ''size'', JStr resolution)] @
       (if links = [] then []
        else [(js ''metadata'', JObj [(js ''input'', JObj [(js ''media'', JArr (map (\<lambda>u.
               JObj [(js ''type'', JStr (js ''reference_image'')), (js ''url'', JStr u)]) links))])])]))"
| "buildProviderBody Hailuo_h3 modelId prompt duration resolution links =
     JObj [(js ''model'', JStr modelId), (js ''prompt'', JStr prompt), (js ''duration'', JNum duration),
       (js ''metadata'', JObj ((js ''resolution'', JStr resolution) # content_field links))]"
| "buildProviderBody Doubao_seedance modelId prompt duration resolution links =
     JObj [(js ''model'', JStr modelId), (js ''prompt'', JStr prompt), (js ''seconds'', JStr (num_text duration)),
       (js ''metadata'', JObj ((js ''resolution'', JStr resolution) # content_field links))]"

definition legalDuration :: "model_capability \<Rightarrow> jsnum option \<Rightarrow> request_failure + jsnum" where
  "legalDuration c value =
     (case value of
        Some n \<Rightarrow> if includes_num (mc_durations c) n then Inr n
                  else Inl (Page_error (js ''Duration '' @ num_text n @ js '' is not legal for '' @ mc_modelId c))
      | None \<Rightarrow> Inl (Page_error (js ''Duration '' @ PROVIDER_DEFAULT @ js '' is not legal for '' @ mc_modelId c)))"

definition legalResolution :: "model_capability \<Rightarrow> jsstr \<Rightarrow> nat \<Rightarrow> request_failure + jsstr" where
  "legalResolution c value referenceImageCount =
     (if value \<noteq> PROVIDER_DEFAULT \<and> value \<in> set (availableResolutions c referenceImageCount) then Inr value
      else Inl (Page_error (js ''Resolution '' @ value @ js '' is not legal for '' @ mc_modelId c @ js '' with '' @
        nat_digits referenceImageCount @ js '' reference images'')))"

definition buildVideoGenerationRequest :: "request_input \<Rightarrow> request_failure + jsval" where
  "buildVideoGenerationRequest input =
     (let c = ri_capability input; prompt = trim (ri_prompt input); count = length (ri_images input)
      in if prompt = [] then Inl (Rejected (js ''Prompt is required'') None)
         else case (if mc_known c then mc_wire c else None) of
           None \<Rightarrow>
             if 0 < count then Inl (Rejected IMAGES_NOT_ACCEPTED_KEY None)
             else Inr (JObj [(js ''model'', JStr (mc_modelId c)), (js ''prompt'', JStr prompt)])
         | Some wire \<Rightarrow>
             if mc_maxReferenceImages c < count then Inl (Rejected TOO_MANY_IMAGES_KEY (Some (mc_maxReferenceImages c)))
             else
               res_bind (legalDuration c (ri_duration input)) (\<lambda>duration.
               res_bind (legalResolution c (ri_resolution input) count) (\<lambda>resolution.
                 let body = buildProviderBody wire (mc_modelId c) prompt duration resolution (map image_link (ri_images input))
                 in if mc_requestBodyLimitBytes c < utf8_length (stringify body) then Inl (Rejected REQUEST_BODY_TOO_LARGE_KEY None)
                    else Inr body)))"

end
