(* ===== verification/Video_Capabilities.thy ===== *)
theory Video_Capabilities
  imports Video_Requests
begin

text \<open>
  The dedicated composer of the video playground: creation modes (\<open>lib/mode.ts\<close>), what a mode
  makes of the attached resources (\<open>lib/contract.ts\<close>), the profiles of two models and what they
  allow for a composition (\<open>lib/capabilities.ts\<close>), and the count of changed parameters
  (\<open>lib/parameter-state.ts\<close>).  Of a profile the fields that some function reads are modelled; the
  records of evidence and the links to documentation are data that no code reads.
\<close>

section \<open>Modes and resources\<close>

datatype creation_mode = TextToVideo | FirstFrame | FirstAndLastFrame | ReferenceGeneration | VideoEdit | VideoExtend

definition CREATION_MODES :: "creation_mode list" where
  "CREATION_MODES = [TextToVideo, FirstFrame, FirstAndLastFrame, ReferenceGeneration, VideoEdit, VideoExtend]"

definition GENERIC_CREATION_MODES :: "creation_mode list" where
  "GENERIC_CREATION_MODES = [TextToVideo, FirstFrame]"

record video_sound =
  vs_id :: jsstr
  vs_source :: media_source
  vs_name :: jsstr
  vs_mimeType :: jsstr
  vs_byteSize :: "jsnum option"
  vs_durationSeconds :: "jsnum option"

record video_clip =
  vc_id :: jsstr
  vc_source :: media_source
  vc_name :: jsstr
  vc_mimeType :: jsstr
  vc_byteSize :: "jsnum option"
  vc_durationSeconds :: "jsnum option"

record composition_state =
  cs_images :: "video_image list"
  cs_videos :: "video_clip list"
  cs_audios :: "video_sound list"

section \<open>Profiles\<close>

record image_budget =
  ib_multimodalMax :: nat
  ib_perItemMaxBytes :: nat
  ib_aspectRange :: "jsnum \<times> jsnum"
  ib_sideRange :: "jsnum \<times> jsnum"
  ib_supportedFormats :: "jsstr list"

text \<open>A bound on a duration; \<open>None\<close> is \<open>'unknown'\<close>.\<close>

type_synonym duration_bound = "jsnum option"

record video_budget =
  vb_maxCount :: nat
  vb_perItemMinSeconds :: duration_bound
  vb_perItemMaxSeconds :: duration_bound
  vb_totalMaxSeconds :: duration_bound
  vb_perItemMaxBytes :: nat
  vb_supportedFormats :: "jsstr list"

record audio_budget =
  ab_maxCount :: nat
  ab_perItemMinSeconds :: duration_bound
  ab_perItemMaxSeconds :: duration_bound
  ab_totalMaxSeconds :: duration_bound
  ab_perItemMaxBytes :: nat
  ab_supportedFormats :: "jsstr list"
  ab_audioOnlyAllowed :: bool

record resource_counts =
  rc_images :: nat
  rc_videos :: nat
  rc_audios :: nat

record resolution_rule =
  rr_resolution :: jsstr
  rr_when :: "resource_counts \<Rightarrow> bool"
  rr_allow :: bool

record video_profile =
  pf_publicModelId :: jsstr
  pf_generationModes :: "jsstr list"
  pf_referenceImage :: image_budget
  pf_referenceVideo :: video_budget
  pf_referenceAudio :: audio_budget
  pf_resolutions :: "jsstr list"
  pf_resolutionRestrictions :: "resolution_rule list"
  pf_minSeconds :: jsnum
  pf_maxSeconds :: jsnum
  pf_ratios :: "jsstr list"
  pf_generateAudio :: bool
  pf_watermark :: bool
  pf_returnLastFrame :: bool
  pf_requestBodyLimitBytes :: nat

definition REQUEST_BODY_LIMIT_BYTES :: nat where
  "REQUEST_BODY_LIMIT_BYTES = 64 * MB"

definition COMBINED_REFERENCE_MODES :: "jsstr list" where
  "COMBINED_REFERENCE_MODES = map js [''textToVideo'', ''firstFrame'', ''firstAndLastFrame'', ''multimodalReference'',
     ''videoEdit'', ''videoExtend'', ''audioVideoCoGen'']"

definition BASE_RATIOS :: "jsstr list" where
  "BASE_RATIOS = map js [''16:9'', ''4:3'', ''1:1'', ''3:4'', ''9:16'', ''21:9'', ''adaptive'']"

definition IMAGE_MIME_TYPES :: "jsstr list" where
  "IMAGE_MIME_TYPES = map js [''image/jpeg'', ''image/jpg'', ''image/png'', ''image/webp'', ''image/bmp'', ''image/tiff'',
     ''image/gif'', ''image/heic'', ''image/heif'']"

definition VIDEO_MIME_TYPES :: "jsstr list" where
  "VIDEO_MIME_TYPES = map js [''video/mp4'', ''video/quicktime'']"

definition AUDIO_MIME_TYPES :: "jsstr list" where
  "AUDIO_MIME_TYPES = map js [''audio/wav'', ''audio/x-wav'', ''audio/mpeg'', ''audio/mp3'']"

definition image_budget_of :: "nat \<Rightarrow> image_budget" where
  "image_budget_of count = \<lparr>ib_multimodalMax = count, ib_perItemMaxBytes = 30 * MB,
     ib_aspectRange = (to_double (4 / 10), Fin (25 / 10)), ib_sideRange = (Fin 300, Fin 6000), ib_supportedFormats = IMAGE_MIME_TYPES\<rparr>"

definition video_budget_2_0 :: video_budget where
  "video_budget_2_0 = \<lparr>vb_maxCount = 3, vb_perItemMinSeconds = Some (Fin 2), vb_perItemMaxSeconds = Some (Fin 15),
     vb_totalMaxSeconds = Some (Fin 15), vb_perItemMaxBytes = 200 * MB, vb_supportedFormats = VIDEO_MIME_TYPES\<rparr>"

definition audio_budget_2_0 :: audio_budget where
  "audio_budget_2_0 = \<lparr>ab_maxCount = 3, ab_perItemMinSeconds = Some (Fin 2), ab_perItemMaxSeconds = Some (Fin 15),
     ab_totalMaxSeconds = Some (Fin 15), ab_perItemMaxBytes = 15 * MB, ab_supportedFormats = AUDIO_MIME_TYPES,
     ab_audioOnlyAllowed = False\<rparr>"

definition video_budget_2_5 :: video_budget where
  "video_budget_2_5 = \<lparr>vb_maxCount = 10, vb_perItemMinSeconds = None, vb_perItemMaxSeconds = None,
     vb_totalMaxSeconds = None, vb_perItemMaxBytes = 200 * MB, vb_supportedFormats = VIDEO_MIME_TYPES\<rparr>"

definition audio_budget_2_5 :: audio_budget where
  "audio_budget_2_5 = \<lparr>ab_maxCount = 10, ab_perItemMinSeconds = Some (Fin 2), ab_perItemMaxSeconds = Some (Fin 30),
     ab_totalMaxSeconds = Some (Fin 30), ab_perItemMaxBytes = 15 * MB, ab_supportedFormats = AUDIO_MIME_TYPES,
     ab_audioOnlyAllowed = True\<rparr>"

definition SEEDANCE_2_0_profile :: video_profile where
  "SEEDANCE_2_0_profile = \<lparr>pf_publicModelId = js ''Doubao-Seedance-2.0'', pf_generationModes = COMBINED_REFERENCE_MODES,
     pf_referenceImage = image_budget_of 9, pf_referenceVideo = video_budget_2_0, pf_referenceAudio = audio_budget_2_0,
     pf_resolutions = map js [''480p'', ''720p'', ''1080p'', ''4k''],
     pf_resolutionRestrictions = [\<lparr>rr_resolution = js ''1080p'', rr_when = \<lambda>c. 0 < rc_images c, rr_allow = False\<rparr>],
     pf_minSeconds = Fin 4, pf_maxSeconds = Fin 15, pf_ratios = BASE_RATIOS, pf_generateAudio = True,
     pf_watermark = False, pf_returnLastFrame = False, pf_requestBodyLimitBytes = REQUEST_BODY_LIMIT_BYTES\<rparr>"

definition SEEDANCE_2_5_profile :: video_profile where
  "SEEDANCE_2_5_profile = \<lparr>pf_publicModelId = js ''Doubao-Seedance-2.5'', pf_generationModes = COMBINED_REFERENCE_MODES,
     pf_referenceImage = image_budget_of 30, pf_referenceVideo = video_budget_2_5, pf_referenceAudio = audio_budget_2_5,
     pf_resolutions = map js [''480p'', ''720p''], pf_resolutionRestrictions = [],
     pf_minSeconds = Fin 4, pf_maxSeconds = Fin 30, pf_ratios = BASE_RATIOS, pf_generateAudio = True,
     pf_watermark = False, pf_returnLastFrame = False, pf_requestBodyLimitBytes = REQUEST_BODY_LIMIT_BYTES\<rparr>"

definition PROFILE_REGISTRY :: "(jsstr \<times> video_profile) list" where
  "PROFILE_REGISTRY = [(js ''Doubao-Seedance-2.0'', SEEDANCE_2_0_profile), (js ''Doubao-Seedance-2.5'', SEEDANCE_2_5_profile)]"

text \<open>The lookup in the object is modelled for its own properties; the names of the members that every
  object inherits, such as \<open>constructor\<close>, are not names of models.\<close>

definition getVideoModelCapability :: "jsstr \<Rightarrow> video_profile option" where
  "getVideoModelCapability publicModelId = map_of PROFILE_REGISTRY publicModelId"

record generic_profile =
  gp_publicModelId :: jsstr
  gp_generationModes :: "creation_mode list"
  gp_maxCount :: nat
  gp_supportedFormats :: "jsstr list"
  gp_requestBodyLimitBytes :: nat

datatype resolved_profile = Dedicated video_profile | Generic generic_profile

definition resolve_profile :: "jsstr \<Rightarrow> resolved_profile option" where
  "resolve_profile publicModelId =
     (if trim publicModelId = [] then None
      else case getVideoModelCapability publicModelId of
             Some p \<Rightarrow> Some (Dedicated p)
           | None \<Rightarrow> Some (Generic \<lparr>gp_publicModelId = publicModelId, gp_generationModes = GENERIC_CREATION_MODES,
               gp_maxCount = 1, gp_supportedFormats = IMAGE_MIME_TYPES, gp_requestBodyLimitBytes = REQUEST_BODY_LIMIT_BYTES\<rparr>))"

section \<open>The contract of the modes\<close>

definition isModeSupportedFor :: "creation_mode \<Rightarrow> video_profile \<Rightarrow> bool" where
  "isModeSupportedFor mode p =
     (case mode of
        VideoEdit \<Rightarrow> js ''videoEdit'' \<in> set (pf_generationModes p)
      | VideoExtend \<Rightarrow> js ''videoExtend'' \<in> set (pf_generationModes p)
      | _ \<Rightarrow> True)"

definition reason :: "string \<Rightarrow> jsstr" where
  "reason key = js ''videoPlayground.preflight.'' @ js key"

definition extraNonImageReason :: "resource_counts \<Rightarrow> jsstr \<Rightarrow> jsstr option" where
  "extraNonImageReason c key = (if 0 < rc_videos c \<or> 0 < rc_audios c then Some key else None)"

text \<open>Why a composition is not legal in a mode; \<open>None\<close> when it is.\<close>

definition isCompositionLegal :: "creation_mode \<Rightarrow> resource_counts \<Rightarrow> jsstr option" where
  "isCompositionLegal mode c =
     (case mode of
        TextToVideo \<Rightarrow>
          if 0 < rc_images c \<or> 0 < rc_videos c \<or> 0 < rc_audios c then Some (reason ''textToVideoForbidsReferences'') else None
      | FirstFrame \<Rightarrow>
          if rc_images c \<noteq> 1 then Some (reason ''firstFrameRequiresOneImage'')
          else extraNonImageReason c (reason ''firstFrameForbidsExtraResources'')
      | FirstAndLastFrame \<Rightarrow>
          if rc_images c \<noteq> 2 then Some (reason ''firstAndLastFrameRequiresTwoImages'')
          else extraNonImageReason c (reason ''firstAndLastFrameForbidsExtraResources'')
      | ReferenceGeneration \<Rightarrow>
          if rc_images c = 0 \<and> rc_videos c = 0 \<and> rc_audios c = 0 then Some (reason ''referenceGenerationRequiresResource'') else None
      | _ \<Rightarrow> if rc_videos c < 1 then Some (reason ''editRequiresVideo'') else None)"

datatype content_item = Image_item jsstr video_image | Video_item video_clip | Audio_item video_sound

definition referenceContent :: "composition_state \<Rightarrow> content_item list" where
  "referenceContent c = map (Image_item (js ''reference_image'')) (cs_images c) @ map Video_item (cs_videos c) @ map Audio_item (cs_audios c)"

definition resolveContent :: "creation_mode \<Rightarrow> composition_state \<Rightarrow> content_item list" where
  "resolveContent mode c =
     (case mode of
        TextToVideo \<Rightarrow> []
      | FirstFrame \<Rightarrow> (case cs_images c of i # _ \<Rightarrow> [Image_item (js ''first_frame'') i] | [] \<Rightarrow> [])
      | FirstAndLastFrame \<Rightarrow>
          (case cs_images c of
             i # j # _ \<Rightarrow> [Image_item (js ''first_frame'') i, Image_item (js ''last_frame'') j]
           | [i] \<Rightarrow> [Image_item (js ''first_frame'') i]
           | [] \<Rightarrow> [])
      | _ \<Rightarrow> referenceContent c)"

definition supportedModesFor :: "video_profile \<Rightarrow> creation_mode list" where
  "supportedModesFor p = filter (\<lambda>mode. isModeSupportedFor mode p) CREATION_MODES"

section \<open>Compositions\<close>

datatype composition_kind =
    TextOnly | FirstFrame_kind | FirstAndLastFrame_kind | ImageReference | VideoReference | ImageAndAudio
  | ImageAndVideo | VideoAndAudio | ImageVideoAndAudio | AudioOnly

definition classifyComposition :: "resource_counts \<Rightarrow> composition_kind" where
  "classifyComposition c =
     (let images = rc_images c; videos = rc_videos c; audios = rc_audios c
      in if images = 0 \<and> videos = 0 \<and> audios = 0 then TextOnly
         else if images = 1 \<and> videos = 0 \<and> audios = 0 then FirstFrame_kind
         else if images = 2 \<and> videos = 0 \<and> audios = 0 then FirstAndLastFrame_kind
         else if 1 \<le> images \<and> videos = 0 \<and> audios = 0 then ImageReference
         else if images = 0 \<and> 1 \<le> videos \<and> audios = 0 then VideoReference
         else if 1 \<le> images \<and> videos = 0 \<and> 1 \<le> audios then ImageAndAudio
         else if 1 \<le> images \<and> 1 \<le> videos \<and> audios = 0 then ImageAndVideo
         else if images = 0 \<and> 1 \<le> videos \<and> 1 \<le> audios then VideoAndAudio
         else if 1 \<le> images \<and> 1 \<le> videos \<and> 1 \<le> audios then ImageVideoAndAudio
         else AudioOnly)"

record resolved_capability =
  rv_composition :: composition_kind
  rv_resolutions :: "jsstr list"
  rv_minSeconds :: jsnum
  rv_maxSeconds :: jsnum
  rv_illegalReason :: "jsstr option"

definition too_many :: "string \<Rightarrow> nat \<Rightarrow> jsstr" where
  "too_many what limit = js ''Too many reference '' @ js what @ js '' for this model (max '' @ nat_digits limit @ js '').''"

definition illegal_reason :: "video_profile \<Rightarrow> creation_mode \<Rightarrow> resource_counts \<Rightarrow> jsstr option" where
  "illegal_reason p mode c =
     (case isCompositionLegal mode c of
        Some r \<Rightarrow> Some r
      | None \<Rightarrow>
          if ib_multimodalMax (pf_referenceImage p) < rc_images c then Some (too_many ''images'' (ib_multimodalMax (pf_referenceImage p)))
          else if vb_maxCount (pf_referenceVideo p) < rc_videos c then Some (too_many ''videos'' (vb_maxCount (pf_referenceVideo p)))
          else if ab_maxCount (pf_referenceAudio p) < rc_audios c then Some (too_many ''audio tracks'' (ab_maxCount (pf_referenceAudio p)))
          else if classifyComposition c = AudioOnly \<and> \<not> ab_audioOnlyAllowed (pf_referenceAudio p)
          then Some (js ''This model does not accept audio-only references. Add at least one image or video.'')
          else None)"

definition resolveVideoCapabilities :: "video_profile \<Rightarrow> creation_mode \<Rightarrow> resource_counts \<Rightarrow> resolved_capability" where
  "resolveVideoCapabilities p mode c =
     \<lparr>rv_composition = classifyComposition c,
      rv_resolutions = filter (\<lambda>r. list_all (\<lambda>rule. rr_resolution rule \<noteq> r \<or> \<not> rr_when rule c \<or> rr_allow rule)
        (pf_resolutionRestrictions p)) (pf_resolutions p),
      rv_minSeconds = pf_minSeconds p, rv_maxSeconds = pf_maxSeconds p, rv_illegalReason = illegal_reason p mode c\<rparr>"

section \<open>Parameters\<close>

record parameter_state =
  ps_intelligent :: bool
  ps_generateAudio :: bool
  ps_seed :: jsstr
  ps_watermark :: bool
  ps_returnLastFrame :: bool

definition countActiveParameters :: "video_profile \<Rightarrow> parameter_state \<Rightarrow> nat" where
  "countActiveParameters p s =
     (if ps_watermark s \<noteq> pf_watermark p then 1 else 0) + (if ps_returnLastFrame s \<noteq> pf_returnLastFrame p then 1 else 0) +
     (if trim (ps_seed s) \<noteq> [] then 1 else 0) + (if ps_intelligent s then 1 else 0) +
     (if ps_generateAudio s \<noteq> pf_generateAudio p then 1 else 0)"

end
