(* ===== verification/Video_Preflight.thy ===== *)
theory Video_Preflight
  imports Video_Capabilities "HOL-Library.Word"
begin

unbundle bit_operations_syntax

text \<open>
  The checks before a request of the dedicated or the generic composer is sent
  (\<open>lib/preflight.ts\<close>), the bodies that are built (\<open>lib/request-serializer.ts\<close>) and the decision
  to send (\<open>hooks/use-submit-video-request.ts\<close>, \<open>hooks/use-submit-generic-video-request.ts\<close>).
  The URL parser and the lower casing of the browser are fields of a record; the parser gives the
  members of a \<open>URL\<close> that the code reads, or \<open>None\<close> when the constructor throws.
\<close>

record url_parts =
  ur_protocol :: jsstr
  ur_username :: jsstr
  ur_password :: jsstr
  ur_hostname :: jsstr
  ur_pathname :: jsstr

record web_host =
  wh_lower :: "jsstr \<Rightarrow> jsstr"
  wh_url :: "jsstr \<Rightarrow> url_parts option"

section \<open>Addresses\<close>

definition asset_unit :: "code_unit \<Rightarrow> bool" where
  "asset_unit c \<longleftrightarrow> is_digit c \<or> 65 \<le> c \<and> c \<le> 90 \<or> 97 \<le> c \<and> c \<le> 122"

definition CONSERVATIVE_ASSET_ID_RE :: "jsstr \<Rightarrow> bool" where
  "CONSERVATIVE_ASSET_ID_RE s =
     (case s of
        [] \<Rightarrow> False
      | c # r \<Rightarrow> asset_unit c \<and> length r \<le> 127 \<and> list_all (\<lambda>d. asset_unit d \<or> d = 46 \<or> d = 95 \<or> d = 45) r)"

definition isCanonicalAssetUrl :: "jsstr \<Rightarrow> bool" where
  "isCanonicalAssetUrl url =
     (if \<not> starts_with url (js ''asset://'') then False
      else
        let assetId = drop 8 url
        in if str_includes assetId [47] \<or> str_includes assetId [92] \<or> str_includes assetId [46, 46] then False
           else CONSERVATIVE_ASSET_ID_RE assetId)"

text \<open>\<open>parts[i] ?? 0\<close>\<close>

definition part_at :: "jsnum list \<Rightarrow> nat \<Rightarrow> jsnum" where
  "part_at parts i = (if i < length parts then parts ! i else Fin 0)"

definition isPrivateIPv4 :: "jsnum list \<Rightarrow> bool" where
  "isPrivateIPv4 parts =
     (let a = part_at parts 0; b = part_at parts 1
      in eq_num a (Fin 10) \<or> eq_num a (Fin 127) \<or> eq_num a (Fin 172) \<and> le_num (Fin 16) b \<and> le_num b (Fin 31) \<or>
         eq_num a (Fin 192) \<and> eq_num b (Fin 168) \<or> eq_num a (Fin 169) \<and> eq_num b (Fin 254) \<or> eq_num a (Fin 0) \<or>
         le_num (Fin 224) a)"

text \<open>Four runs of digits between points, each of a permitted length.\<close>

definition dotted_quad :: "(nat \<Rightarrow> bool) \<Rightarrow> jsstr \<Rightarrow> bool" where
  "dotted_quad len s \<longleftrightarrow>
     (let ps = split_on 46 s in length ps = 4 \<and> list_all (\<lambda>p. p \<noteq> [] \<and> len (length p) \<and> list_all is_digit p) ps)"

definition quad_numbers :: "jsstr \<Rightarrow> jsnum list" where
  "quad_numbers s = map string_number (split_on 46 s)"

text \<open>The prefix \<open>::ffff:\<close> in either case, and what follows it.\<close>

definition after_mapped_prefix :: "jsstr \<Rightarrow> jsstr option" where
  "after_mapped_prefix s =
     (if 7 \<le> length s \<and> take 2 s = [58, 58] \<and> list_all (\<lambda>c. c = 102 \<or> c = 70) (take 4 (drop 2 s)) \<and> s ! 6 = 58
      then Some (drop 7 s) else None)"

definition hex_group :: "jsstr \<Rightarrow> bool" where
  "hex_group g \<longleftrightarrow> 1 \<le> length g \<and> length g \<le> 4 \<and> list_all is_hex g"

text \<open>\<open>Number.parseInt(g, 16)\<close> of a group of digits.\<close>

definition hex_value :: "jsstr \<Rightarrow> nat" where
  "hex_value g = (case radix_val 16 0 g of Some n \<Rightarrow> n | None \<Rightarrow> 0)"

definition octets_of :: "nat \<Rightarrow> nat \<Rightarrow> jsnum list" where
  "octets_of high low = map (\<lambda>n. Fin (of_nat n)) [drop_bit 8 high AND 255, high AND 255, drop_bit 8 low AND 255, low AND 255]"

definition ipv4FromMappedIPv6 :: "jsstr \<Rightarrow> jsnum list option" where
  "ipv4FromMappedIPv6 hostname =
     (case after_mapped_prefix hostname of
        None \<Rightarrow> None
      | Some rest \<Rightarrow>
          if dotted_quad (\<lambda>n. n \<le> 3) rest then Some (quad_numbers rest)
          else case split_on 58 rest of
                 [g, g'] \<Rightarrow> if hex_group g \<and> hex_group g' then Some (octets_of (hex_value g) (hex_value g')) else None
               | _ \<Rightarrow> None)"

definition strip_brackets :: "jsstr \<Rightarrow> jsstr" where
  "strip_brackets s =
     (let t = (case s of c # r \<Rightarrow> if c = 91 then r else s | [] \<Rightarrow> [])
      in if t \<noteq> [] \<and> last t = 93 then butlast t else t)"

definition isPrivateOrLoopback :: "web_host \<Rightarrow> jsstr \<Rightarrow> bool" where
  "isPrivateOrLoopback h hostname =
     (let lower = strip_brackets (wh_lower h hostname)
      in if lower = js ''localhost'' then True
         else if lower = js ''ip6-localhost'' \<or> lower = js ''ip6-loopback'' then True
         else if dotted_quad (\<lambda>n. True) lower then isPrivateIPv4 (quad_numbers lower)
         else if \<not> str_includes lower [58] then False
         else if lower = js ''::1'' \<or> lower = js ''::'' then True
         else if list_ex (\<lambda>p. starts_with lower (js p)) [''fe8'', ''fe9'', ''fea'', ''feb''] then True
         else if starts_with lower (js ''fc'') \<or> starts_with lower (js ''fd'') then True
         else if list_ex (\<lambda>p. starts_with lower (js p)) [''fec'', ''fed'', ''fee'', ''fef''] then True
         else if starts_with lower (js ''ff'') then True
         else case ipv4FromMappedIPv6 lower of Some mapped \<Rightarrow> isPrivateIPv4 mapped | None \<Rightarrow> False)"

section \<open>Links\<close>

datatype media_kind = Image_kind | Video_kind | Audio_kind

fun kind_name :: "media_kind \<Rightarrow> jsstr" where
  "kind_name Image_kind = js ''image''"
| "kind_name Video_kind = js ''video''"
| "kind_name Audio_kind = js ''audio''"

fun mime_endings :: "media_kind \<Rightarrow> (string \<times> string) list" where
  "mime_endings Image_kind = [(''.png'', ''image/png''), (''.jpg'', ''image/jpeg''), (''.jpeg'', ''image/jpeg''), (''.webp'', ''image/webp''),
     (''.bmp'', ''image/bmp''), (''.tif'', ''image/tiff''), (''.tiff'', ''image/tiff''), (''.gif'', ''image/gif''),
     (''.heic'', ''image/heic''), (''.heif'', ''image/heif'')]"
| "mime_endings Video_kind = [(''.mp4'', ''video/mp4''), (''.mov'', ''video/quicktime'')]"
| "mime_endings Audio_kind = [(''.wav'', ''audio/wav''), (''.mp3'', ''audio/mpeg'')]"

definition mediaMimeFromHttpsUrl :: "web_host \<Rightarrow> jsstr \<Rightarrow> media_kind \<Rightarrow> jsstr option" where
  "mediaMimeFromHttpsUrl h url kind =
     (case wh_url h url of
        None \<Rightarrow> None
      | Some u \<Rightarrow>
          let pathname = wh_lower h (ur_pathname u)
          in map_option (\<lambda>e. js (snd e)) (find (\<lambda>e. ends_with pathname (js (fst e))) (mime_endings kind)))"

definition SAFE_REMOTE_PROTOCOLS :: "jsstr list" where
  "SAFE_REMOTE_PROTOCOLS = [js ''https:'']"

definition safeRemoteUrl :: "web_host \<Rightarrow> jsstr \<Rightarrow> bool" where
  "safeRemoteUrl h url =
     (let trimmed = trim url
      in if trimmed = [] then False
         else if starts_with trimmed (js ''asset://'') then isCanonicalAssetUrl trimmed
         else case wh_url h trimmed of
                None \<Rightarrow> False
              | Some q \<Rightarrow>
                  if ur_protocol q \<notin> set SAFE_REMOTE_PROTOCOLS then False
                  else if ur_username q \<noteq> [] \<or> ur_password q \<noteq> [] then False
                  else if isPrivateOrLoopback h (ur_hostname q) then False
                  else True)"

definition safeHttpsMediaUrl :: "web_host \<Rightarrow> jsstr \<Rightarrow> bool" where
  "safeHttpsMediaUrl h url =
     (let trimmed = trim url
      in if trimmed = [] \<or> starts_with trimmed (js ''asset://'') then False else safeRemoteUrl h trimmed)"

section \<open>Data URLs\<close>

definition mime_unit :: "code_unit \<Rightarrow> bool" where
  "mime_unit c \<longleftrightarrow> asset_unit c \<or> c = 47 \<or> c = 43 \<or> c = 46 \<or> c = 58 \<or> c = 45"

definition base64_unit :: "code_unit \<Rightarrow> bool" where
  "base64_unit c \<longleftrightarrow> asset_unit c \<or> c = 43 \<or> c = 47"

text \<open>The pattern of the header, with its two groups.  No character of the first group is a
  semicolon, so the group ends at the first one.\<close>

definition DATA_URL_HEADER_RE :: "jsstr \<Rightarrow> (jsstr \<times> jsstr) option" where
  "DATA_URL_HEADER_RE s =
     (if \<not> starts_with s (js ''data:'') then None
      else
        let t = drop 5 s; m = takeWhile mime_unit t; r = dropWhile mime_unit t
        in if m = [] \<or> \<not> starts_with r (js '';base64,'') then None
           else let p = drop 8 r in if p \<noteq> [] \<and> list_all (\<lambda>c. base64_unit c \<or> c = 61) p then Some (m, p) else None)"

record parsed_data_url =
  pd_mime :: jsstr
  pd_decodedBytes :: int

definition parseBase64DataUrl :: "web_host \<Rightarrow> jsstr \<Rightarrow> parsed_data_url option" where
  "parseBase64DataUrl h dataUrl =
     (case DATA_URL_HEADER_RE dataUrl of
        None \<Rightarrow> None
      | Some (m, payload) \<Rightarrow>
          let padding = length (takeWhile (\<lambda>c. c = 61) (rev payload));
              b = take (length payload - padding) payload
          in if 2 < padding then None
             else if b = [] then None
             else if \<not> list_all base64_unit b then None
             else if length payload mod 4 = 1 then None
             else if 0 < padding \<and> length payload mod 4 \<noteq> 0 then None
             else Some \<lparr>pd_mime = wh_lower h m, pd_decodedBytes = int (length payload * 3 div 4) - int padding\<rparr>)"

definition base64DecodedByteLength :: "web_host \<Rightarrow> jsstr \<Rightarrow> int option" where
  "base64DecodedByteLength h dataUrl = map_option pd_decodedBytes (parseBase64DataUrl h dataUrl)"

definition isValidBase64DataUrl :: "web_host \<Rightarrow> jsstr \<Rightarrow> media_kind \<Rightarrow> bool" where
  "isValidBase64DataUrl h dataUrl kind =
     (if kind = Video_kind then False
      else case parseBase64DataUrl h dataUrl of
             None \<Rightarrow> False
           | Some q \<Rightarrow>
               if kind = Image_kind \<and> \<not> starts_with (pd_mime q) (js ''image/'') then False
               else if kind = Audio_kind \<and> \<not> starts_with (pd_mime q) (js ''audio/'') then False
               else True)"

section \<open>One resource\<close>

text \<open>A check fails with a reason and perhaps a detail.\<close>

type_synonym preflight = "(jsstr \<times> jsstr option) + unit"

definition fail :: "string \<Rightarrow> jsstr \<Rightarrow> preflight" where
  "fail key info = Inl (reason key, Some info)"

fun supportedFormatsFor :: "video_profile \<Rightarrow> media_kind \<Rightarrow> jsstr list" where
  "supportedFormatsFor p Image_kind = ib_supportedFormats (pf_referenceImage p)"
| "supportedFormatsFor p Audio_kind = ab_supportedFormats (pf_referenceAudio p)"
| "supportedFormatsFor p Video_kind = vb_supportedFormats (pf_referenceVideo p)"

definition resource_name :: "media_kind \<Rightarrow> jsstr \<Rightarrow> jsstr" where
  "resource_name kind name = kind_name kind @ js ''#'' @ name"

definition exceeds :: "jsstr \<Rightarrow> nat \<Rightarrow> jsstr" where
  "exceeds amount limit = amount @ js '' > '' @ nat_digits limit"

text \<open>The first part of \<open>checkOne\<close>: where the resource comes from.\<close>

definition check_source :: "web_host \<Rightarrow> video_profile \<Rightarrow> media_kind \<Rightarrow> jsstr \<Rightarrow> media_source \<Rightarrow> preflight" where
  "check_source h p kind name source =
     (case source of
        Url_source url \<Rightarrow>
          if \<not> safeRemoteUrl h url then fail ''unsafeUrl'' (resource_name kind name)
          else case mediaMimeFromHttpsUrl h url kind of
                 None \<Rightarrow> fail ''unsupportedFormat'' (resource_name kind name)
               | Some m \<Rightarrow>
                   if m \<notin> set (supportedFormatsFor p kind) then fail ''unsupportedFormat'' (resource_name kind name) else Inr ()
      | Base64_source dataUrl \<Rightarrow>
          if \<not> isValidBase64DataUrl h dataUrl kind then fail ''unsafeUrl'' (resource_name kind name)
          else (case parseBase64DataUrl h dataUrl of
                 None \<Rightarrow> fail ''unsupportedFormat'' (resource_name kind name)
               | Some q \<Rightarrow>
                   let n = pd_decodedBytes q;
                       ib = ib_perItemMaxBytes (pf_referenceImage p);
                       ab = ab_perItemMaxBytes (pf_referenceAudio p)
                   in if pd_mime q \<notin> set (supportedFormatsFor p kind) then fail ''unsupportedFormat'' (resource_name kind name)
                      else if kind = Image_kind \<and> int ib < n then fail ''imageSizeTooLarge'' (exceeds (num_text (Fin (of_int n))) ib)
                      else if kind = Audio_kind \<and> int ab < n then fail ''audioSizeTooLarge'' (exceeds (num_text (Fin (of_int n))) ab)
                      else Inr ())
      | Asset_source assetId \<Rightarrow>
          if kind \<noteq> Video_kind then fail ''unsafeUrl'' (resource_name kind name @ js '' asset:// only allowed for video'')
          else if \<not> isCanonicalAssetUrl (js ''asset://'' @ assetId) then fail ''unsafeUrl'' (resource_name kind name)
          else Inr ())"

fun is_base64 :: "media_source \<Rightarrow> bool" where
  "is_base64 (Base64_source d) = True"
| "is_base64 _ = False"

definition over :: "nat \<Rightarrow> jsnum option \<Rightarrow> bool" where
  "over limit n0 \<longleftrightarrow> (case n0 of Some n \<Rightarrow> lt_num (Fin (of_nat limit)) n | None \<Rightarrow> False)"

definition size_text :: "jsnum option \<Rightarrow> jsstr" where
  "size_text n0 = (case n0 of Some n \<Rightarrow> num_text n | None \<Rightarrow> [])"

definition outside :: "jsnum \<times> jsnum \<Rightarrow> jsnum \<Rightarrow> bool" where
  "outside bounds n \<longleftrightarrow> lt_num n (fst bounds) \<or> lt_num (snd bounds) n"

text \<open>The second part: the budgets of an image, of an audio track and of a video.\<close>

definition check_image :: "video_profile \<Rightarrow> video_image \<Rightarrow> preflight" where
  "check_image p i =
     (let budget = pf_referenceImage p
      in if \<not> is_base64 (vi_source i) \<and> over (ib_perItemMaxBytes budget) (vi_byteSize i)
         then fail ''imageSizeTooLarge'' (exceeds (size_text (vi_byteSize i)) (ib_perItemMaxBytes budget))
         else if is_base64 (vi_source i) \<and> (vi_width i = None \<or> vi_height i = None)
         then fail ''imageDimensionsUnknown'' (resource_name Image_kind (vi_id i))
         else case (vi_width i, vi_height i) of
           (Some w, Some e) \<Rightarrow>
             if outside (ib_sideRange budget) w \<or> outside (ib_sideRange budget) e
             then fail ''imageDimensionsOutOfRange'' (num_text w @ js ''x'' @ num_text e)
             else if outside (ib_aspectRange budget) (div_num w e) then fail ''imageAspectOutOfRange'' (num_text (div_num w e))
             else Inr ()
         | _ \<Rightarrow> Inr ())"

definition duration_outside :: "duration_bound \<Rightarrow> duration_bound \<Rightarrow> jsnum option \<Rightarrow> bool" where
  "duration_outside minSeconds maxSeconds duration =
     (case (duration, minSeconds, maxSeconds) of
        (Some d, Some lo, Some hi) \<Rightarrow> outside (lo, hi) d
      | _ \<Rightarrow> False)"

definition check_audio :: "video_profile \<Rightarrow> video_sound \<Rightarrow> preflight" where
  "check_audio p a =
     (let budget = pf_referenceAudio p
      in if \<not> is_base64 (vs_source a) \<and> over (ab_perItemMaxBytes budget) (vs_byteSize a)
         then fail ''audioSizeTooLarge'' (exceeds (size_text (vs_byteSize a)) (ab_perItemMaxBytes budget))
         else if is_base64 (vs_source a) \<and> vs_durationSeconds a = None
         then fail ''audioDurationUnknown'' (resource_name Audio_kind (vs_id a))
         else if duration_outside (ab_perItemMinSeconds budget) (ab_perItemMaxSeconds budget) (vs_durationSeconds a)
         then fail ''audioDurationOutOfRange'' (size_text (vs_durationSeconds a) @ js ''s'')
         else Inr ())"

definition check_video :: "video_profile \<Rightarrow> video_clip \<Rightarrow> preflight" where
  "check_video p v =
     (let budget = pf_referenceVideo p
      in if over (vb_perItemMaxBytes budget) (vc_byteSize v)
         then fail ''videoSizeTooLarge'' (exceeds (size_text (vc_byteSize v)) (vb_perItemMaxBytes budget))
         else if duration_outside (vb_perItemMinSeconds budget) (vb_perItemMaxSeconds budget) (vc_durationSeconds v)
         then fail ''videoDurationOutOfRange'' (size_text (vc_durationSeconds v) @ js ''s'')
         else Inr ())"

fun checkOne :: "web_host \<Rightarrow> video_profile \<Rightarrow> content_item \<Rightarrow> preflight" where
  "checkOne h p (Image_item role i) = res_bind (check_source h p Image_kind (vi_id i) (vi_source i)) (\<lambda>_. check_image p i)"
| "checkOne h p (Audio_item a) = res_bind (check_source h p Audio_kind (vs_id a) (vs_source a)) (\<lambda>_. check_audio p a)"
| "checkOne h p (Video_item v) = res_bind (check_source h p Video_kind (vc_id v) (vc_source v)) (\<lambda>_. check_video p v)"

section \<open>All resources\<close>

fun check_each :: "web_host \<Rightarrow> video_profile \<Rightarrow> content_item list \<Rightarrow> preflight" where
  "check_each h p [] = Inr ()"
| "check_each h p (x # xs) = res_bind (checkOne h p x) (\<lambda>_. check_each h p xs)"

definition total_seconds :: "jsnum list \<Rightarrow> jsnum" where
  "total_seconds ds = foldl add_num (Fin 0) ds"

text \<open>The total is checked when every duration and the bound are known.\<close>

definition check_total :: "string \<Rightarrow> duration_bound \<Rightarrow> jsnum option list \<Rightarrow> preflight" where
  "check_total key limit durations =
     (let known = List.map_filter id durations
      in if length known = length durations \<and> 0 < length durations
         then (case limit of
                 Some m \<Rightarrow>
                   if lt_num m (total_seconds known)
                   then fail key (num_text (total_seconds known) @ js ''s > '' @ num_text m @ js ''s'')
                   else Inr ()
               | None \<Rightarrow> Inr ())
         else Inr ())"

definition counts_of :: "composition_state \<Rightarrow> resource_counts" where
  "counts_of c = \<lparr>rc_images = length (cs_images c), rc_videos = length (cs_videos c), rc_audios = length (cs_audios c)\<rparr>"

definition preflightResources :: "web_host \<Rightarrow> video_profile \<Rightarrow> creation_mode \<Rightarrow> composition_state \<Rightarrow> preflight" where
  "preflightResources h p mode c =
     (case isCompositionLegal mode (counts_of c) of
        Some r \<Rightarrow> Inl (r, None)
      | None \<Rightarrow>
          if ib_multimodalMax (pf_referenceImage p) < length (cs_images c) then Inl (reason ''tooManyImages'', None)
          else if vb_maxCount (pf_referenceVideo p) < length (cs_videos c) then Inl (reason ''tooManyVideos'', None)
          else if ab_maxCount (pf_referenceAudio p) < length (cs_audios c) then Inl (reason ''tooManyAudios'', None)
          else
            res_bind (check_each h p (map (Image_item (js ''image'')) (cs_images c))) (\<lambda>_.
            res_bind (check_each h p (map Video_item (cs_videos c))) (\<lambda>_.
            res_bind (check_each h p (map Audio_item (cs_audios c))) (\<lambda>_.
            res_bind (check_total ''totalVideoDurationExceeded'' (vb_totalMaxSeconds (pf_referenceVideo p))
              (map vc_durationSeconds (cs_videos c))) (\<lambda>_.
            check_total ''totalAudioDurationExceeded'' (ab_totalMaxSeconds (pf_referenceAudio p))
              (map vs_durationSeconds (cs_audios c)))))))"

definition preflightGenericResources :: "web_host \<Rightarrow> generic_profile \<Rightarrow> creation_mode \<Rightarrow> composition_state \<Rightarrow> preflight" where
  "preflightGenericResources h g mode c =
     (if mode \<notin> set (gp_generationModes g) then Inl (reason ''genericModeUnsupported'', None)
      else if cs_videos c \<noteq> [] then Inl (reason ''genericForbidsReferenceVideo'', None)
      else if cs_audios c \<noteq> [] then Inl (reason ''genericForbidsReferenceAudio'', None)
      else if gp_maxCount g < length (cs_images c) then Inl (reason ''genericAllowsOneReferenceImage'', None)
      else case isCompositionLegal mode (counts_of c) of
        Some r \<Rightarrow> Inl (r, None)
      | None \<Rightarrow>
          (case cs_images c of
             [] \<Rightarrow> Inr ()
           | i # _ \<Rightarrow>
               (case vi_source i of
                  Url_source u \<Rightarrow>
                    if \<not> safeHttpsMediaUrl h u then fail ''unsafeUrl'' (resource_name Image_kind (vi_id i))
                    else (case mediaMimeFromHttpsUrl h u Image_kind of
                            None \<Rightarrow> fail ''unsupportedFormat'' (resource_name Image_kind (vi_id i))
                          | Some m \<Rightarrow>
                              if m \<notin> set (gp_supportedFormats g) then fail ''unsupportedFormat'' (resource_name Image_kind (vi_id i))
                              else Inr ())
                | _ \<Rightarrow> fail ''genericRequiresHttpsImageUrl'' (resource_name Image_kind (vi_id i)))))"

text \<open>The bytes are counted by \<open>TextEncoder\<close>; the count for a browser that lacks it is not modelled.\<close>

definition preflightRequestBodySize :: "jsval \<Rightarrow> nat \<Rightarrow> preflight" where
  "preflightRequestBodySize sent limit =
     (let jsonBytes = utf8_length (stringify sent)
      in if limit < jsonBytes then fail ''bodyTooLarge'' (exceeds (nat_digits jsonBytes) limit) else Inr ())"

section \<open>Bodies\<close>

record dedicated_input =
  di_prompt :: jsstr
  di_mode :: creation_mode
  di_resources :: composition_state
  di_intelligent :: bool
  di_durationSeconds :: jsnum
  di_ratio :: jsstr
  di_resolution :: jsstr
  di_generateAudio :: bool
  di_seed :: "jsnum option"
  di_watermark :: bool
  di_returnLastFrame :: bool

text \<open>\<open>VideoRequestError\<close> with its reason, or an error of another class.\<close>

datatype serializer_error = Request_error jsstr | Other_error

text \<open>\<open>Math.round\<close>: a half rounds up, and a negative number that rounds to zero keeps its sign.\<close>

fun math_round :: "jsnum \<Rightarrow> jsnum" where
  "math_round (Fin x) = (let r = \<lfloor>x + 1 / 2\<rfloor> in if r = 0 \<and> x < 0 then NegZero else Fin (of_int r))"
| "math_round n = n"

definition clampInt :: "jsnum \<Rightarrow> jsnum \<Rightarrow> jsnum \<Rightarrow> jsnum" where
  "clampInt value lo hi =
     (if \<not> is_finite value then lo else if lt_num value lo then lo else if lt_num hi value then hi else math_round value)"

definition audio_link :: "video_sound \<Rightarrow> jsstr" where
  "audio_link a = (case vs_source a of Base64_source d \<Rightarrow> d | Url_source u \<Rightarrow> u | Asset_source x \<Rightarrow> [])"

definition video_link :: "video_clip \<Rightarrow> jsstr" where
  "video_link v = (case vc_source v of Asset_source a \<Rightarrow> js ''asset://'' @ a | Url_source u \<Rightarrow> u | Base64_source d \<Rightarrow> [])"

definition content_entry :: "string \<Rightarrow> jsstr \<Rightarrow> jsstr \<Rightarrow> jsval" where
  "content_entry what link role =
     JObj [(js ''type'', JStr (js what)), (js what, JObj [(js ''url'', JStr link)]), (js ''role'', JStr role)]"

fun content_value :: "content_item \<Rightarrow> jsval" where
  "content_value (Image_item role i) = content_entry ''image_url'' (image_link i) role"
| "content_value (Video_item v) = content_entry ''video_url'' (video_link v) (js ''reference_video'')"
| "content_value (Audio_item a) = content_entry ''audio_url'' (audio_link a) (js ''reference_audio'')"

definition buildContent :: "creation_mode \<Rightarrow> composition_state \<Rightarrow> jsval list" where
  "buildContent mode c = map content_value (resolveContent mode c)"

definition dedicated_body :: "jsstr \<Rightarrow> dedicated_input \<Rightarrow> jsnum option \<Rightarrow> jsstr \<Rightarrow> jsval" where
  "dedicated_body model input duration resolution =
     (let content = buildContent (di_mode input) (di_resources input)
      in JObj ([(js ''model'', JStr model), (js ''prompt'', JStr (trim (di_prompt input)))] @
           (case duration of Some d \<Rightarrow> [(js ''duration'', JNum d)] | None \<Rightarrow> []) @
           [(js ''metadata'', JObj ([(js ''ratio'', JStr (di_ratio input)), (js ''resolution'', JStr resolution),
              (js ''generate_audio'', JBool (di_generateAudio input)), (js ''watermark'', JBool (di_watermark input)),
              (js ''return_last_frame'', JBool (di_returnLastFrame input))] @
              (case duration of Some d \<Rightarrow> [(js ''duration'', JNum d)] | None \<Rightarrow> []) @
              (case di_seed input of Some s \<Rightarrow> [(js ''seed'', JNum s)] | None \<Rightarrow> []) @
              (if content \<noteq> [] then [(js ''content'', JArr content)] else [])))]))"

definition build_dedicated_request :: "jsstr \<Rightarrow> dedicated_input \<Rightarrow> serializer_error + jsval" where
  "build_dedicated_request model input =
     (case getVideoModelCapability model of
        None \<Rightarrow> Inl Other_error
      | Some p \<Rightarrow>
          let resolved = resolveVideoCapabilities p (di_mode input) (counts_of (di_resources input));
              allowed = rv_resolutions resolved
          in if rv_illegalReason resolved \<noteq> None then Inl (Request_error (js ''videoPlayground.error.compositionIllegal''))
             else if di_resolution input \<notin> set allowed \<and> allowed = []
             then Inl (Request_error (js ''videoPlayground.error.noResolutionAvailable''))
             else
               Inr (dedicated_body model input
                 (if di_intelligent input then None
                  else Some (clampInt (di_durationSeconds input) (rv_minSeconds resolved) (rv_maxSeconds resolved)))
                 (if di_resolution input \<in> set allowed then di_resolution input else hd allowed)))"

definition buildGenericVideoGenerationRequest ::
  "web_host \<Rightarrow> jsstr \<Rightarrow> jsstr \<Rightarrow> creation_mode \<Rightarrow> composition_state \<Rightarrow> serializer_error + jsval" where
  "buildGenericVideoGenerationRequest h model prompt mode c =
     (case resolve_profile model of
        Some (Generic g) \<Rightarrow>
          (case preflightGenericResources h g mode c of
             Inl (r, info) \<Rightarrow> Inl (Request_error r)
           | Inr _ \<Rightarrow>
               if trim prompt = [] then Inl (Request_error (js ''Prompt is required''))
               else Inr (JObj ([(js ''model'', JStr model), (js ''prompt'', JStr (trim prompt))] @
                 (case cs_images c of
                    i # _ \<Rightarrow> (case vi_source i of Url_source u \<Rightarrow> [(js ''image'', JStr u)] | _ \<Rightarrow> [])
                  | [] \<Rightarrow> []))))
      | _ \<Rightarrow> Inl (Request_error (js ''videoPlayground.error.unknownVideoModel'')))"

section \<open>Sending\<close>

text \<open>What a composer hands to the queue of the page.\<close>

record submit_payload =
  sp_sent :: jsval
  sp_modelId :: jsstr
  sp_promptPreview :: jsstr
  sp_batchSize :: nat

fun error_reason :: "serializer_error \<Rightarrow> jsstr \<times> jsstr option" where
  "error_reason (Request_error key) = (key, None)"
| "error_reason Other_error = (js ''videoPlayground.error.compositionIllegal'', None)"

definition submit_dedicated ::
  "web_host \<Rightarrow> video_profile \<Rightarrow> jsstr \<Rightarrow> nat \<Rightarrow> dedicated_input \<Rightarrow> (jsstr \<times> jsstr option) + submit_payload" where
  "submit_dedicated h p modelId batchSize input =
     (case preflightResources h p (di_mode input) (di_resources input) of
        Inl e \<Rightarrow> Inl e
      | Inr _ \<Rightarrow>
          (case build_dedicated_request modelId input of
             Inl e \<Rightarrow> Inl (error_reason e)
           | Inr sent \<Rightarrow>
               (case preflightRequestBodySize sent (pf_requestBodyLimitBytes p) of
                  Inl e \<Rightarrow> Inl e
                | Inr _ \<Rightarrow> Inr \<lparr>sp_sent = sent, sp_modelId = modelId, sp_promptPreview = di_prompt input, sp_batchSize = batchSize\<rparr>)))"

definition submit_generic ::
  "web_host \<Rightarrow> generic_profile \<Rightarrow> jsstr \<Rightarrow> nat \<Rightarrow> jsstr \<Rightarrow> creation_mode \<Rightarrow> composition_state \<Rightarrow>
     (jsstr \<times> jsstr option) + submit_payload" where
  "submit_generic h g modelId batchSize prompt mode c =
     (case buildGenericVideoGenerationRequest h modelId prompt mode c of
        Inl e \<Rightarrow> Inl (error_reason e)
      | Inr sent \<Rightarrow>
          (case preflightRequestBodySize sent (gp_requestBodyLimitBytes g) of
             Inl e \<Rightarrow> Inl e
           | Inr _ \<Rightarrow> Inr \<lparr>sp_sent = sent, sp_modelId = modelId, sp_promptPreview = prompt, sp_batchSize = batchSize\<rparr>))"

end
