(* ===== verification/Video_Networks.thy ===== *)
theory Video_Networks
  imports Video_Preflight Js_Number_Text
begin

unbundle bit_operations_syntax

text \<open>
  The networks that are not public.  The check of \<open>preflight.ts\<close> reads an address as a text, in
  several notations; here the same address is a word of 32 bits and a network is a prefix of bits.
\<close>

section \<open>Networks\<close>

type_synonym ipv4 = "32 word"

text \<open>The networks by their first address and the number of leading bits that belong to the prefix.\<close>

definition NON_PUBLIC_NETWORKS :: "(ipv4 \<times> nat) list" where
  "NON_PUBLIC_NETWORKS = [(0x0A000000, 8), (0x7F000000, 8), (0xAC100000, 12), (0xC0A80000, 16), (0xA9FE0000, 16),
     (0x00000000, 8), (0xE0000000, 3)]"

definition in_network :: "ipv4 \<Rightarrow> ipv4 \<times> nat \<Rightarrow> bool" where
  "in_network a net \<longleftrightarrow> drop_bit (32 - snd net) a = drop_bit (32 - snd net) (fst net)"

definition non_public :: "ipv4 \<Rightarrow> bool" where
  "non_public a \<longleftrightarrow> list_ex (in_network a) NON_PUBLIC_NETWORKS"

definition octets :: "ipv4 \<Rightarrow> nat list" where
  "octets a = [unat a div 2 ^ 24, unat a div 2 ^ 16 mod 256, unat a div 2 ^ 8 mod 256, unat a mod 256]"

lemma in_network_div: "in_network a (b, n) \<longleftrightarrow> unat a div 2 ^ (32 - n) = unat b div 2 ^ (32 - n)"
proof -
  have "drop_bit k a = drop_bit k b \<longleftrightarrow> unat (drop_bit k a) = unat (drop_bit k b)" for k
    by (rule word_eq_iff_unsigned)
  then show ?thesis by (simp only: in_network_def fst_conv snd_conv unat_drop_bit_eq) (simp only: drop_bit_eq_div)
qed

lemma non_public_halves:
  assumes "m = unat a div 2 ^ 16"
  shows "non_public a \<longleftrightarrow> m div 256 = 10 \<or> m div 256 = 127 \<or> m div 16 = 2753 \<or> m = 49320 \<or> m = 43518 \<or> m div 256 = 0 \<or> m div 8192 = 7"
proof -
  have "unat a div 2 ^ 24 = m div 256" "unat a div 2 ^ 20 = m div 16" "unat a div 2 ^ 29 = m div 8192"
    by (simp_all add: assms div_mult2_eq [symmetric])
  then show ?thesis
    using assms by (simp add: non_public_def NON_PUBLIC_NETWORKS_def in_network_div)
qed

lemma halves_prefixes:
  fixes m q r :: nat
  assumes "m < 65536" "q = m div 256" "r = m mod 256"
  shows "m div 16 = 2753 \<longleftrightarrow> q = 172 \<and> 16 \<le> r \<and> r \<le> 31" "m = 49320 \<longleftrightarrow> q = 192 \<and> r = 168"
    "m = 43518 \<longleftrightarrow> q = 169 \<and> r = 254" "m div 8192 = 7 \<longleftrightarrow> 224 \<le> q"
proof -
  have parts: "m = 256 * q + r" "r < 256" by (simp_all add: assms)
  have "m div 16 = 2753 \<longleftrightarrow> 44048 \<le> m \<and> m < 44064" by linarith
  moreover have "44048 \<le> m \<and> m < 44064 \<longleftrightarrow> q = 172 \<and> 16 \<le> r \<and> r \<le> 31"
  proof (cases "q = 172")
    case False
    then show ?thesis using parts by linarith
  qed (use parts in auto)
  ultimately show "m div 16 = 2753 \<longleftrightarrow> q = 172 \<and> 16 \<le> r \<and> r \<le> 31" by (rule trans)
  have "m = k \<longleftrightarrow> q = k div 256 \<and> r = k mod 256" for k unfolding assms(2,3) by (metis div_mult_mod_eq)
  from this [of 49320] this [of 43518] show "m = 49320 \<longleftrightarrow> q = 192 \<and> r = 168" "m = 43518 \<longleftrightarrow> q = 169 \<and> r = 254" by simp_all
  have "m div 8192 = 7 \<longleftrightarrow> 57344 \<le> m" using assms(1) by linarith
  moreover have "57344 \<le> m \<longleftrightarrow> 224 \<le> q" using parts by auto
  ultimately show "m div 8192 = 7 \<longleftrightarrow> 224 \<le> q" by (rule trans)
qed

lemma private_octets: "isPrivateIPv4 (map (\<lambda>n. Fin (of_nat n)) (octets a)) \<longleftrightarrow> non_public a"
proof -
  define m where "m = unat a div 2 ^ 16"
  have "unat a < 2 ^ 32" using unsigned_less [of a] by simp
  then have m: "m < 65536" by (simp add: m_def less_mult_imp_div_less)
  have top: "unat a div 2 ^ 24 = m div 256" by (simp add: m_def div_mult2_eq [symmetric])
  have eqs: "m div 16 = 2753 \<longleftrightarrow> m div 256 = 172 \<and> 16 \<le> m mod 256 \<and> m mod 256 \<le> 31"
      "m = 49320 \<longleftrightarrow> m div 256 = 192 \<and> m mod 256 = 168" "m = 43518 \<longleftrightarrow> m div 256 = 169 \<and> m mod 256 = 254"
      "m div 8192 = 7 \<longleftrightarrow> 224 \<le> m div 256"
    using halves_prefixes [OF m refl refl] by simp_all
  have "isPrivateIPv4 (map (\<lambda>n. Fin (of_nat n)) (octets a)) \<longleftrightarrow> m div 256 = 10 \<or> m div 256 = 127 \<or>
      m div 256 = 172 \<and> 16 \<le> m mod 256 \<and> m mod 256 \<le> 31 \<or> m div 256 = 192 \<and> m mod 256 = 168 \<or>
      m div 256 = 169 \<and> m mod 256 = 254 \<or> m div 256 = 0 \<or> 224 \<le> m div 256"
    unfolding isPrivateIPv4_def octets_def part_at_def top m_def [symmetric]
    by (simp add: le_num_def order_le_less)
  then show ?thesis unfolding non_public_halves [OF m_def] eqs by blast
qed

section \<open>Notations\<close>

definition dotted :: "ipv4 \<Rightarrow> jsstr" where
  "dotted a = join [46] (map nat_digits (octets a))"

text \<open>The ways an address is written as a host: four decimal numbers, or an IPv6 address that maps
  it, with the four numbers or with two groups of hexadecimal digits.\<close>

definition names_address :: "jsstr \<Rightarrow> ipv4 \<Rightarrow> bool" where
  "names_address s a \<longleftrightarrow> s = dotted a \<or> s = js ''[::ffff:'' @ dotted a @ [93] \<or>
     (\<exists>g g'. hex_group g \<and> hex_group g' \<and> unat a = hex_value g * 65536 + hex_value g' \<and> s = js ''[::ffff:'' @ g @ [58] @ g' @ [93])"

definition ascii_lower :: "code_unit \<Rightarrow> code_unit" where
  "ascii_lower c = (if 65 \<le> c \<and> c \<le> 90 then c + 32 else c)"

text \<open>Lower casing changes the letters of ASCII as usual.\<close>

definition lowers_ascii :: "web_host \<Rightarrow> bool" where
  "lowers_ascii h \<longleftrightarrow> (\<forall>s. list_all (\<lambda>c. c < 128) s \<longrightarrow> wh_lower h s = map ascii_lower s)"

lemma octets_small: "n \<in> set (octets a) \<Longrightarrow> n < 256"
proof -
  have "unat a < 2 ^ 32" using unsigned_less [of a] by simp
  then have "unat a div 2 ^ 24 < 256" by (simp add: less_mult_imp_div_less)
  then show "n \<in> set (octets a) \<Longrightarrow> n < 256" by (auto simp: octets_def)
qed

lemma small_digits: "n < 256 \<Longrightarrow> length (nat_digits n) \<le> 3"
  using length_nat_digits [of 0 n] length_nat_digits [of 1 n] length_nat_digits [of 2 n] nat_digits.simps [of 0]
  by (cases "n = 0"; cases "n < 10"; cases "n < 100") simp_all

lemma length_octets [simp]: "length (octets a) = 4"
  by (simp add: octets_def)

lemma octet_number: "n < 256 \<Longrightarrow> string_number (nat_digits n) = Fin (of_nat n)"
proof -
  assume "n < 256"
  then have "to_double (of_int (int n)) = Fin (of_int (int n))" by (intro to_double_of_int) simp
  then show ?thesis
    using string_number_numeral [of "nat_digits n" None None]
    by (simp add: numeral_parts_def digits_def numeral_text_def decimal_num_def)
qed

lemma digit_range: "c \<in> set (nat_digits n) \<Longrightarrow> 48 \<le> c \<and> c \<le> 57"
  using nat_digits_digits by (auto simp: is_digit_def)

lemma dotted_parts: "split_on 46 (dotted a) = map nat_digits (octets a)"
proof -
  have "46 \<notin> set (nat_digits n)" for n using digit_range by fastforce
  then show ?thesis by (simp add: dotted_def octets_def split_on_app split_on_none)
qed

lemma dotted_is_quad: "(\<And>n. n \<le> 3 \<Longrightarrow> len n) \<Longrightarrow> dotted_quad len (dotted a)"
  using octets_small [of _ a] small_digits
  by (simp add: dotted_quad_def dotted_parts list.pred_map list_all_iff Let_def nat_digits_digits)

lemma dotted_numbers: "quad_numbers (dotted a) = map (\<lambda>n. Fin (of_nat n)) (octets a)"
  using octets_small [of _ a] octet_number by (simp add: quad_numbers_def dotted_parts)

lemma dotted_units: "c \<in> set (dotted a) \<Longrightarrow> 46 \<le> c \<and> c \<le> 57"
  by (auto simp: dotted_def octets_def dest!: digit_range)

lemma dotted_ends: "dotted a \<noteq> []" "hd (dotted a) \<noteq> 91" "last (dotted a) \<noteq> 93"
proof -
  show ne: "dotted a \<noteq> []" by (simp add: dotted_def octets_def)
  show "hd (dotted a) \<noteq> 91" "last (dotted a) \<noteq> 93"
    using dotted_units [OF hd_in_set [OF ne]] dotted_units [OF last_in_set [OF ne]] by auto
qed

lemma quad_units:
  assumes "dotted_quad len s" "c \<in> set s"
  shows "is_digit c \<or> c = 46"
proof -
  have "c \<in> \<Union> (set ` set ps) \<union> {46}" if "c \<in> set (join [46] ps)" for ps
    using that by (induction "[46 :: nat]" ps rule: join.induct) auto
  from this [of "split_on 46 s"] assms show ?thesis
    unfolding join_split_on by (auto simp: dotted_quad_def Let_def list_all_iff)
qed

lemma and_255: "(n :: nat) AND 255 = n mod 256"
  using take_bit_eq_mask [of 8 n] by (simp add: take_bit_eq_mod mask_eq_exp_minus_1)

lemma mapped_octets:
  assumes "unat a = hi * 65536 + lo" "lo < 65536" "hi < 65536"
  shows "octets_of hi lo = map (\<lambda>n. Fin (of_nat n)) (octets a)"
proof -
  have "unat a div 65536 = hi" using assms by simp
  then have "unat a div 2 ^ 24 = hi div 256" "unat a div 2 ^ 16 mod 256 = hi mod 256"
    by (simp_all add: div_mult2_eq [of _ 65536 256, simplified])
  moreover have low: "(hi * 65536 + lo) div 256 = hi * 256 + lo div 256" "lo div 256 < 256"
    using assms(2) div_mult_self3 [of 256 "hi * 256" lo] by (simp_all add: less_mult_imp_div_less ac_simps)
  moreover have "unat a div 2 ^ 8 mod 256 = lo div 256" "unat a mod 256 = lo mod 256"
    unfolding assms(1) using low mod_mult_self3 [of "hi * 256" 256 lo] by (simp_all add: mult.commute)
  ultimately show ?thesis
    using assms by (simp add: octets_of_def octets_def and_255 drop_bit_eq_div less_mult_imp_div_less)
qed

section \<open>The check\<close>

lemma hex_units: "hex_group g \<Longrightarrow> c \<in> set g \<Longrightarrow> 48 \<le> c \<and> c \<le> 102 \<and> c \<noteq> 58 \<and> c \<noteq> 46"
  by (auto simp: hex_group_def list_all_iff is_hex_def is_digit_def)

lemma hex_lower_digit: "is_hex c \<Longrightarrow> radix_digit 16 (ascii_lower c) = radix_digit 16 c \<and> is_hex (ascii_lower c)"
  by (auto simp: is_hex_def is_digit_def ascii_lower_def)

lemma hex_lower:
  assumes "hex_group g"
  shows "hex_group (map ascii_lower g)" "hex_value (map ascii_lower g) = hex_value g"
proof -
  have "list_all is_hex g \<Longrightarrow> radix_val 16 n (map ascii_lower g) = radix_val 16 n g" for n
    by (induction g arbitrary: n) (simp_all add: hex_lower_digit del: radix_digit.simps split: option.split)
  then show "hex_value (map ascii_lower g) = hex_value g" using assms by (simp add: hex_value_def hex_group_def)
  show "hex_group (map ascii_lower g)"
    using assms hex_lower_digit by (simp add: hex_group_def list_all_iff del: radix_digit.simps)
qed

lemma hex_digit: "is_hex c \<Longrightarrow> \<exists>d. radix_digit 16 c = Some d \<and> d < 16"
  by (auto simp: is_hex_def is_digit_def Let_def)

lemma radix_val_bound: "list_all is_hex g \<Longrightarrow> \<exists>v. radix_val 16 n g = Some v \<and> v < (n + 1) * 16 ^ length g"
proof (induction g arbitrary: n)
  case (Cons c g)
  then obtain d where d: "radix_digit 16 c = Some d" "d < 16" using hex_digit by (auto simp del: radix_digit.simps)
  obtain v where v: "radix_val 16 (16 * n + d) g = Some v" "v < (16 * n + d + 1) * 16 ^ length g"
    using Cons.IH [of "16 * n + d"] Cons.prems by auto
  have "(16 * n + d + 1) * 16 ^ length g \<le> (n + 1) * 16 * 16 ^ length g"
    using d(2) by (intro mult_right_mono) auto
  then have "v < (n + 1) * 16 ^ length (c # g)" using v(2) by (simp only: length_Cons power_Suc mult.assoc)
  then show ?case using d(1) v(1) by (simp del: radix_digit.simps)
qed simp

lemma hex_value_bound: "hex_group g \<Longrightarrow> hex_value g < 65536"
proof -
  assume g: "hex_group g"
  then obtain v where v: "radix_val 16 0 g = Some v" "v < 16 ^ length g"
    using radix_val_bound [of g 0] by (auto simp: hex_group_def)
  have "(16::nat) ^ length g \<le> 16 ^ 4" using g by (intro power_increasing) (auto simp: hex_group_def)
  then show ?thesis using v by (simp add: hex_value_def)
qed

lemma mapped_prefix:
  "after_mapped_prefix (js ''::ffff:'' @ r) = Some r"
  by (simp add: after_mapped_prefix_def js_eval)

lemma mapped_check:
  assumes "strip_brackets (wh_lower h s) = js ''::ffff:'' @ r" "ipv4FromMappedIPv6 (js ''::ffff:'' @ r) = Some ns"
  shows "isPrivateOrLoopback h s \<longleftrightarrow> isPrivateIPv4 ns"
proof -
  let ?t = "js ''::ffff:'' @ r"
  have "\<not> dotted_quad (\<lambda>n. True) ?t"
    using quad_units [of "\<lambda>n. True" ?t 58] by (auto simp: js_eval is_digit_def)
  moreover have "str_includes ?t [58]" by (simp add: js_eval starts_with_def)
  ultimately show ?thesis
    unfolding isPrivateOrLoopback_def assms(1) Let_def using assms(2)
    by (simp add: js_eval starts_with_def)
qed

lemma bracketed: "strip_brackets (91 # s @ [93]) = s"
  by (simp add: strip_brackets_def Let_def)

lemma lowered:
  assumes "lowers_ascii h" "list_all (\<lambda>c. c < 128) s"
  shows "wh_lower h s = map ascii_lower s"
  using assms by (simp add: lowers_ascii_def)

lemma dotted_lower: "map ascii_lower (dotted a) = dotted a"
  using dotted_units [of _ a] by (intro map_idI) (fastforce simp: ascii_lower_def)

lemma dotted_checked:
  assumes "lowers_ascii h"
  shows "isPrivateOrLoopback h (dotted a) \<longleftrightarrow> non_public a"
proof -
  have "wh_lower h (dotted a) = dotted a"
    using lowered [OF assms, of "dotted a"] dotted_units [of _ a] dotted_lower by (fastforce simp: list_all_iff)
  moreover have "strip_brackets (dotted a) = dotted a"
    using dotted_ends [of a] by (cases "dotted a") (simp_all add: strip_brackets_def)
  moreover have "dotted a \<noteq> js ''localhost''" "dotted a \<noteq> js ''ip6-localhost''" "dotted a \<noteq> js ''ip6-loopback''"
    using dotted_units [OF hd_in_set [OF dotted_ends(1)], of a] by (auto simp: js_eval)
  ultimately show ?thesis
    using dotted_is_quad [of "\<lambda>n. True" a] private_octets [of a]
    by (simp add: isPrivateOrLoopback_def dotted_numbers)
qed

lemma mapped_dotted_checked:
  assumes "lowers_ascii h"
  shows "isPrivateOrLoopback h (js ''[::ffff:'' @ dotted a @ [93]) \<longleftrightarrow> non_public a"
proof -
  have "list_all (\<lambda>c. c < 128) (js ''[::ffff:'' @ dotted a @ [93])"
    using dotted_units [of _ a] by (fastforce simp: list_all_iff js_eval)
  then have "strip_brackets (wh_lower h (js ''[::ffff:'' @ dotted a @ [93])) = js ''::ffff:'' @ dotted a"
    using lowered [OF assms] bracketed [of "js ''::ffff:'' @ dotted a"] by (simp add: dotted_lower js_eval ascii_lower_def)
  moreover have "ipv4FromMappedIPv6 (js ''::ffff:'' @ dotted a) = Some (map (\<lambda>n. Fin (of_nat n)) (octets a))"
    using dotted_is_quad [of "\<lambda>n. n \<le> 3" a] by (simp add: ipv4FromMappedIPv6_def mapped_prefix dotted_numbers)
  ultimately show ?thesis using mapped_check private_octets by simp
qed

lemma mapped_hex_checked:
  assumes "lowers_ascii h" "hex_group g" "hex_group g'" "unat a = hex_value g * 65536 + hex_value g'"
  shows "isPrivateOrLoopback h (js ''[::ffff:'' @ g @ [58] @ g' @ [93]) \<longleftrightarrow> non_public a"
proof -
  let ?g = "map ascii_lower g" and ?g' = "map ascii_lower g'"
  have "list_all (\<lambda>c. c < 128) (js ''[::ffff:'' @ g @ [58] @ g' @ [93])"
    using hex_units [OF assms(2)] hex_units [OF assms(3)] by (fastforce simp: list_all_iff js_eval)
  then have s: "strip_brackets (wh_lower h (js ''[::ffff:'' @ g @ [58] @ g' @ [93])) = js ''::ffff:'' @ ?g @ 58 # ?g'"
    using lowered [OF assms(1)] bracketed [of "js ''::ffff:'' @ ?g @ 58 # ?g'"] by (simp add: js_eval ascii_lower_def)
  note lower = hex_lower [OF assms(2)] hex_lower [OF assms(3)]
  have "\<not> dotted_quad (\<lambda>n. n \<le> 3) (?g @ 58 # ?g')"
    using quad_units [of "\<lambda>n. n \<le> 3" "?g @ 58 # ?g'" 58] by (auto simp: is_digit_def)
  moreover have "split_on 58 (?g @ 58 # ?g') = [?g, ?g']"
    using hex_units [OF lower(1)] hex_units [OF lower(3)] split_on_app [of 58 ?g ?g'] split_on_none [of 58 ?g'] by metis
  ultimately have "ipv4FromMappedIPv6 (js ''::ffff:'' @ ?g @ 58 # ?g') = Some (map (\<lambda>n. Fin (of_nat n)) (octets a))"
    using lower mapped_octets [OF assms(4) hex_value_bound [OF assms(3)] hex_value_bound [OF assms(2)]]
    by (simp add: ipv4FromMappedIPv6_def mapped_prefix)
  then show ?thesis using mapped_check [OF s] private_octets by simp
qed

text \<open>C15: A link that names an address of the fourth version of the protocol is safe exactly when the
  address is public, in each notation the parser of links gives: an address is refused when its
  bits lie in one of seven networks (10/8, 127/8, 172.16/12, 192.168/16, 169.254/16, 0/8 and
  224/3), whether it is written as four numbers, or inside an IPv6 address as four numbers or as
  two groups of hexadecimal digits, in either case.\<close>

theorem links_to_private_networks_refused:
  assumes "lowers_ascii h" "wh_url h (trim url) = Some u" "ur_protocol u = js ''https:''" "ur_username u = []" "ur_password u = []"
    "names_address (ur_hostname u) a" "trim url \<noteq> []" "\<not> starts_with (trim url) (js ''asset://'')"
  shows "safeRemoteUrl h url \<longleftrightarrow> \<not> non_public a"
proof -
  have "isPrivateOrLoopback h (ur_hostname u) \<longleftrightarrow> non_public a"
    using assms(6) unfolding names_address_def
    by (elim disjE exE conjE)
       (simp_all only: dotted_checked [OF assms(1)] mapped_dotted_checked [OF assms(1)] mapped_hex_checked [OF assms(1), of _ _ a])
  then show ?thesis using assms by (simp add: safeRemoteUrl_def SAFE_REMOTE_PROTOCOLS_def Let_def)
qed

definition sample_host :: web_host where
  "sample_host = \<lparr>wh_lower = map ascii_lower, wh_url = (\<lambda>s. Some \<lparr>ur_protocol = js ''https:'', ur_username = [], ur_password = [],
     ur_hostname = js ''[::ffff:7f00:1]'', ur_pathname = js ''/a.mp4''\<rparr>)\<rparr>"

theorem links_to_private_networks_refused_witness:
  "safeRemoteUrl sample_host (js ''https://[::ffff:7f00:1]/a.mp4'') \<longleftrightarrow> \<not> non_public 0x7F000001"
proof -
  have "names_address (js ''[::ffff:7f00:1]'') 0x7F000001"
    unfolding names_address_def
    by (intro disjI2 exI [of _ "js ''7f00''"] exI [of _ "js ''1''"])
       (simp add: hex_group_def hex_value_def is_hex_def is_digit_def js_eval)
  moreover have "trim (js ''https://[::ffff:7f00:1]/a.mp4'') = js ''https://[::ffff:7f00:1]/a.mp4''"
    by (simp add: trim_def is_space_def js_eval)
  moreover have "lowers_ascii sample_host" by (simp add: lowers_ascii_def sample_host_def)
  ultimately show ?thesis
    using links_to_private_networks_refused [of sample_host "js ''https://[::ffff:7f00:1]/a.mp4''" _ "0x7F000001"]
    by (simp add: sample_host_def starts_with_def js_eval)
qed

text \<open>The name of the own machine is recognised, but not with the point at its end that the parser keeps.\<close>

lemma localhost_with_point:
  "isPrivateOrLoopback sample_host (js ''localhost'')" "\<not> isPrivateOrLoopback sample_host (js ''localhost.'')"
  by (simp_all add: isPrivateOrLoopback_def sample_host_def ascii_lower_def strip_brackets_def dotted_quad_def starts_with_def js_eval)

end
