(* ===== verification/Video_Requests_Properties.thy ===== *)
theory Video_Requests_Properties
  imports Video_Requests Js_Number_Text
begin

text \<open>
  What a request of the video page promises: what was chosen is sent, completely and in order, in
  the places where the provider of the model reads it, within the limits of the model; and the
  values the composer offers never lead to an error of the page.
\<close>

section \<open>The places of a body\<close>

text \<open>Where the providers read the reference images, the duration and the resolution.\<close>

definition links_at :: "(jsval \<Rightarrow> jsval) \<Rightarrow> jsval \<Rightarrow> jsstr list" where
  "links_at link v = (case v of JArr items \<Rightarrow> map (\<lambda>item. text_of (link item)) items | _ \<Rightarrow> [])"

fun sent_images :: "wire_contract \<Rightarrow> jsval \<Rightarrow> jsstr list" where
  "sent_images Alibaba_wan3 sent = links_at (\<lambda>i. field i ''url'') (field (field (field sent ''metadata'') ''input'') ''media'')"
| "sent_images Hailuo_h3 sent = links_at (\<lambda>i. field (field i ''image_url'') ''url'') (field (field sent ''metadata'') ''content'')"
| "sent_images Doubao_seedance sent = links_at (\<lambda>i. field (field i ''image_url'') ''url'') (field (field sent ''metadata'') ''content'')"

fun sent_duration :: "wire_contract \<Rightarrow> jsval \<Rightarrow> jsval" where
  "sent_duration Doubao_seedance sent = field sent ''seconds''"
| "sent_duration _ sent = field sent ''duration''"

fun duration_form :: "wire_contract \<Rightarrow> jsnum \<Rightarrow> jsval" where
  "duration_form Doubao_seedance d = JStr (num_text d)"
| "duration_form _ d = JNum d"

fun sent_resolution :: "wire_contract \<Rightarrow> jsval \<Rightarrow> jsval" where
  "sent_resolution Alibaba_wan3 sent = field sent ''size''"
| "sent_resolution _ sent = field (field sent ''metadata'') ''resolution''"

lemma text_of_JStr [simp]: "text_of (JStr s) = s"
  by (simp add: text_of_def)

lemma provider_body:
  assumes "sent = buildProviderBody w m p d r links"
  shows "field sent ''model'' = JStr m" "field sent ''prompt'' = JStr p" "sent_images w sent = links"
    "sent_duration w sent = duration_form w d" "sent_resolution w sent = JStr r"
  unfolding assms
  by (cases w; simp add: links_at_def content_field_def referenceImageContent_def comp_def)+

section \<open>Requests that are sent\<close>

lemma registry_known: "c \<in> set CAPABILITY_REGISTRY \<Longrightarrow> mc_known c \<and> mc_wire c \<noteq> None"
  by (auto simp: CAPABILITY_REGISTRY_def WAN3_VIDEO_PRIME_def WAN3_VIDEO_def MINIMAX_H3_def SEEDANCE_2_0_def SEEDANCE_2_5_def)

lemma resolved_capability:
  "resolveVideoModelCapability m = c \<Longrightarrow>
   mc_modelId c = m \<and> (c \<in> set CAPABILITY_REGISTRY \<or> c = UNKNOWN_VIDEO_MODEL_CAPABILITY m)"
  by (auto simp: resolveVideoModelCapability_def find_Some_iff UNKNOWN_VIDEO_MODEL_CAPABILITY_def in_set_conv_nth
      split: option.splits)

lemma resolved_wire:
  assumes "resolveVideoModelCapability m = c"
  shows "(if mc_known c then mc_wire c else None) = mc_wire c"
proof -
  have "mc_wire (UNKNOWN_VIDEO_MODEL_CAPABILITY m) = None" by (simp add: UNKNOWN_VIDEO_MODEL_CAPABILITY_def)
  then show ?thesis using resolved_capability [OF assms] registry_known by (metis (full_types))
qed

text \<open>C40: A request says what was chosen.  The body of a request that is sent names the model and
  the trimmed prompt.  For a model with a known contract it carries every reference image, in
  order, and the chosen duration and resolution in the places its provider reads; the number of
  images, the duration and the resolution (which depends on whether images are attached) are legal
  for the model, and the text that is sent is within its limit.  For any other model it carries the
  two texts and nothing else.\<close>

theorem sent_request_legal:
  assumes "buildVideoGenerationRequest input = Inr sent" "ri_capability input = resolveVideoModelCapability m"
  shows "field sent ''model'' = JStr m \<and> field sent ''prompt'' = JStr (trim (ri_prompt input)) \<and> trim (ri_prompt input) \<noteq> [] \<and>
    (case mc_wire (resolveVideoModelCapability m) of
       None \<Rightarrow> ri_images input = [] \<and> sent = JObj [(js ''model'', JStr m), (js ''prompt'', JStr (trim (ri_prompt input)))]
     | Some w \<Rightarrow>
         length (ri_images input) \<le> mc_maxReferenceImages (resolveVideoModelCapability m) \<and>
         sent_images w sent = map image_link (ri_images input) \<and>
         (\<exists>d. ri_duration input = Some d \<and> includes_num (mc_durations (resolveVideoModelCapability m)) d \<and>
              sent_duration w sent = duration_form w d) \<and>
         ri_resolution input \<in> set (availableResolutions (resolveVideoModelCapability m) (length (ri_images input))) \<and>
         sent_resolution w sent = JStr (ri_resolution input) \<and>
         utf8_length (stringify sent) \<le> mc_requestBodyLimitBytes (resolveVideoModelCapability m))"
proof (cases "mc_wire (resolveVideoModelCapability m)")
  case None
  then show ?thesis
    using assms resolved_wire [OF refl, of m] resolved_capability [OF refl, of m]
    by (auto simp: buildVideoGenerationRequest_def Let_def split: if_splits)
next
  case (Some w)
  let ?c = "resolveVideoModelCapability m"
  from assms Some resolved_wire [OF refl, of m] obtain d r where
    parts: "trim (ri_prompt input) \<noteq> []" "length (ri_images input) \<le> mc_maxReferenceImages ?c"
      "legalDuration ?c (ri_duration input) = Inr d" "legalResolution ?c (ri_resolution input) (length (ri_images input)) = Inr r"
      "sent = buildProviderBody w (mc_modelId ?c) (trim (ri_prompt input)) d r (map image_link (ri_images input))"
      "utf8_length (stringify sent) \<le> mc_requestBodyLimitBytes ?c"
    by (auto simp: buildVideoGenerationRequest_def Let_def res_bind_def split: if_splits sum.splits)
  have "ri_duration input = Some d \<and> includes_num (mc_durations ?c) d"
    using parts(3) by (auto simp: legalDuration_def split: option.splits if_splits)
  moreover have "ri_resolution input = r \<and> r \<in> set (availableResolutions ?c (length (ri_images input)))"
    using parts(4) by (auto simp: legalResolution_def split: if_splits)
  ultimately show ?thesis
    using parts Some resolved_capability [OF refl, of m] provider_body [OF parts(5)] by simp
qed

text \<open>A short request for a model with one image.\<close>

definition sample_image :: video_image where
  "sample_image = \<lparr>vi_id = js ''i'', vi_source = Base64_source (js ''data:image/png;base64,AAAA''), vi_name = js ''i'',
     vi_mimeType = js ''image/png'', vi_byteSize = Some (Fin 3), vi_width = None, vi_height = None\<rparr>"

definition sample_request :: request_input where
  "sample_request = \<lparr>ri_capability = resolveVideoModelCapability (js ''MiniMax-H3''), ri_prompt = js '' a '',
     ri_duration = Some (Fin 5), ri_resolution = js ''2K'', ri_images = [sample_image]\<rparr>"

lemma sample_model: "resolveVideoModelCapability (js ''MiniMax-H3'') = MINIMAX_H3"
  by (simp add: resolveVideoModelCapability_def CAPABILITY_REGISTRY_def WAN3_VIDEO_PRIME_def WAN3_VIDEO_def MINIMAX_H3_def)

lemma utf8_length_le: "utf8_length s \<le> 3 * length s"
proof (induction s rule: utf8_length.induct)
  case (2 c r)
  show ?case unfolding utf8_length.simps(2) [of c r]
    using 2 by (cases r) (auto simp del: utf8_length.simps(2))
qed simp

lemma five_text_short: "length (num_text (Fin 5)) \<le> 21"
proof -
  have d: "to_double (of_int 5) = Fin (of_int 5)" by (intro to_double_of_int) simp
  have p: "point (of_int 5 :: rat) \<le> 20" using point_le [of "of_int 5" 1] by simp
  have "length (num_text (Fin (of_int 5))) \<le> 21"
    using whole_shortest [OF d refl _ p] by (auto simp: positive_text_def Let_def case_prod_beta)
  then show ?thesis by (simp del: num_text.simps)
qed

lemma sample_sent: "buildVideoGenerationRequest sample_request =
    Inr (buildProviderBody Hailuo_h3 (js ''MiniMax-H3'') (js ''a'') (Fin 5) (js ''2K'') [js ''data:image/png;base64,AAAA''])"
proof -
  have t: "trim (js '' a '') = js ''a''" by (simp add: trim_def is_space_def js_eval)
  have d: "legalDuration MINIMAX_H3 (Some (Fin 5)) = Inr (Fin 5)"
    by (simp add: legalDuration_def MINIMAX_H3_def includes_num_def everySecondFrom_def upt_rec del: num_text.simps)
  have r: "legalResolution MINIMAX_H3 (js ''2K'') 1 = Inr (js ''2K'')"
    by (simp add: legalResolution_def MINIMAX_H3_def availableResolutions_def PROVIDER_DEFAULT_def)
  let ?text = "stringify (buildProviderBody Hailuo_h3 (js ''MiniMax-H3'') (js ''a'') (Fin 5) (js ''2K'')
      [js ''data:image/png;base64,AAAA''])"
  have "length ?text \<le> 1000"
    using five_text_short
    by (simp add: content_field_def referenceImageContent_def json_string_def quote_unit_def js_eval del: num_text.simps)
  then have "utf8_length ?text \<le> 67108864"
    using utf8_length_le [of ?text] by linarith
  then show ?thesis
    using t d r
    by (simp add: buildVideoGenerationRequest_def sample_request_def sample_model sample_image_def Let_def res_bind_def image_link_def
        MINIMAX_H3_def DOCUMENTED_REQUEST_BODY_LIMIT_BYTES_def MB_def del: num_text.simps stringify.simps buildProviderBody.simps)
qed

theorem sent_request_legal_witness:
  "\<exists>sent. buildVideoGenerationRequest sample_request = Inr sent \<and>
     sent_images Hailuo_h3 sent = [js ''data:image/png;base64,AAAA''] \<and> sent_resolution Hailuo_h3 sent = JStr (js ''2K'')"
proof -
  have c: "ri_capability sample_request = resolveVideoModelCapability (js ''MiniMax-H3'')"
    and i: "map image_link (ri_images sample_request) = [js ''data:image/png;base64,AAAA'']" "ri_resolution sample_request = js ''2K''"
    by (simp_all add: sample_request_def sample_image_def image_link_def)
  have w: "mc_wire (resolveVideoModelCapability (js ''MiniMax-H3'')) = Some Hailuo_h3" by (simp add: sample_model MINIMAX_H3_def)
  show ?thesis using sample_sent sent_request_legal [OF sample_sent c] w i by auto
qed

section \<open>Choices of the composer\<close>

definition composed :: "jsstr \<Rightarrow> jsstr \<Rightarrow> video_image list \<Rightarrow> request_input" where
  "composed m prompt images =
     (let c = resolveVideoModelCapability m
      in \<lparr>ri_capability = c, ri_prompt = prompt, ri_duration = cv_duration (defaultComposerValues c),
          ri_resolution = (case highestAvailableResolution c (length images) of Some r \<Rightarrow> r | None \<Rightarrow> PROVIDER_DEFAULT),
          ri_images = images\<rparr>)"

lemma everySecond_includes: "first \<le> n \<Longrightarrow> n \<le> final \<Longrightarrow> includes_num (everySecondFrom first final) (Fin (of_nat n))"
  by (auto simp: includes_num_def everySecondFrom_def list_ex_iff intro!: bexI [of _ n])

lemma five_seconds: "c \<in> set CAPABILITY_REGISTRY \<Longrightarrow> includes_num (mc_durations c) (Fin 5)"
  using everySecond_includes [of 2 5 30] everySecond_includes [of 4 5 15] everySecond_includes [of 4 5 30]
  by (auto simp: CAPABILITY_REGISTRY_def WAN3_VIDEO_PRIME_def WAN3_VIDEO_def MINIMAX_H3_def SEEDANCE_2_0_def SEEDANCE_2_5_def)

lemma some_resolution:
  assumes "c \<in> set CAPABILITY_REGISTRY"
  shows "availableResolutions c n \<noteq> [] \<and> PROVIDER_DEFAULT \<notin> set (availableResolutions c n)"
  using assms by (auto simp: CAPABILITY_REGISTRY_def WAN3_VIDEO_PRIME_def WAN3_VIDEO_def MINIMAX_H3_def SEEDANCE_2_0_def
      SEEDANCE_2_5_def availableResolutions_def PROVIDER_DEFAULT_def)

lemma highest_legal:
  assumes "c \<in> set CAPABILITY_REGISTRY" "highestAvailableResolution c n = Some r"
  shows "legalResolution c r n = Inr r"
proof -
  have "r \<in> set (availableResolutions c n)" using assms(2)
    by (auto simp: highestAvailableResolution_def split: list.splits)
  then show ?thesis using some_resolution [OF assms(1), of n] by (auto simp: legalResolution_def)
qed

text \<open>The choices of the composer are legal.  For every model, with as many reference images as
  it takes, the duration the composer starts with and the highest resolution it converges to when
  images are attached never raise an error of the page: with a prompt the request is sent, unless
  its text is too large.\<close>

theorem composer_choices_legal:
  assumes "trim prompt \<noteq> []" "length images \<le> mc_maxReferenceImages (resolveVideoModelCapability m)"
  shows "(\<exists>sent. buildVideoGenerationRequest (composed m prompt images) = Inr sent) \<or>
    buildVideoGenerationRequest (composed m prompt images) = Inl (Rejected REQUEST_BODY_TOO_LARGE_KEY None)"
proof -
  let ?c = "resolveVideoModelCapability m"
  consider (known) "?c \<in> set CAPABILITY_REGISTRY" | (unknown) "?c = UNKNOWN_VIDEO_MODEL_CAPABILITY m"
    using resolved_capability [OF refl, of m] by blast
  then show ?thesis
  proof cases
    case known
    then obtain w where w: "mc_known ?c" "mc_wire ?c = Some w" using registry_known by blast
    have d: "legalDuration ?c (cv_duration (defaultComposerValues ?c)) = Inr (Fin 5)"
      using five_seconds [OF known] w
      by (simp add: defaultComposerValues_def defaultDurationSeconds_def DEFAULT_VIDEO_DURATION_SECONDS_def legalDuration_def)
    obtain r where r: "highestAvailableResolution ?c (length images) = Some r"
      using some_resolution [OF known, of "length images"]
      by (cases "availableResolutions ?c (length images)") (simp_all add: highestAvailableResolution_def)
    show ?thesis
      using assms w d r highest_legal [OF known r]
      by (simp add: composed_def buildVideoGenerationRequest_def Let_def res_bind_def)
  next
    case unknown
    then show ?thesis using assms
      by (simp add: composed_def buildVideoGenerationRequest_def Let_def UNKNOWN_VIDEO_MODEL_CAPABILITY_def)
  qed
qed

theorem composer_choices_legal_witness:
  "trim (js ''a'') \<noteq> [] \<and>
   ((\<exists>sent. buildVideoGenerationRequest (composed (js ''MiniMax-H3'') (js ''a'') [sample_image]) = Inr sent) \<or>
    buildVideoGenerationRequest (composed (js ''MiniMax-H3'') (js ''a'') [sample_image]) = Inl (Rejected REQUEST_BODY_TOO_LARGE_KEY None))"
proof -
  have t: "trim (js ''a'') \<noteq> []" by (simp add: trim_def is_space_def js_eval)
  show ?thesis using composer_choices_legal [OF t, of "[sample_image]" "js ''MiniMax-H3''"] t
    by (simp add: sample_model MINIMAX_H3_def)
qed

section \<open>Intake of images\<close>

lemma intake_files_shape:
  "intake_files fs = Inr imgs \<Longrightarrow>
   length imgs = length fs \<and> map vi_id imgs = map fst fs \<and>
   list_all (\<lambda>i. vi_mimeType i \<in> set REFERENCE_IMAGE_MIME_TYPES \<and>
     (\<exists>n \<le> MAX_REFERENCE_IMAGE_BYTES. vi_byteSize i = Some (Fin (of_nat n))) \<and> (\<exists>d. vi_source i = Base64_source d \<and> d \<noteq> [])) imgs"
proof (induction fs arbitrary: imgs)
  case (Cons f fs)
  then obtain i rest where i: "intake_file f = Inr i" "intake_files fs = Inr rest" "imgs = i # rest"
    by (auto simp: res_bind_def split: sum.splits)
  have "vi_id i = fst f \<and> vi_mimeType i \<in> set REFERENCE_IMAGE_MIME_TYPES \<and>
     (\<exists>n \<le> MAX_REFERENCE_IMAGE_BYTES. vi_byteSize i = Some (Fin (of_nat n))) \<and> (\<exists>d. vi_source i = Base64_source d \<and> d \<noteq> [])"
    using i(1) by (auto simp: intake_file_def Let_def isAcceptedImageMimeType_def readFileAsDataUrl_def not_less
        split: if_splits option.splits)
  then show ?case using Cons.IH [OF i(2)] i(3) by simp
qed simp

lemma intake_bounded:
  assumes "intakeReferenceImageFiles c n files = Inr imgs" "n \<le> mc_maxReferenceImages c"
  shows "length imgs = length files \<and> n + length imgs \<le> mc_maxReferenceImages c"
  using assms intake_files_shape [of files imgs] by (auto simp: intakeReferenceImageFiles_def Let_def split: if_splits)

end
