(* ===== verification/Video_Preflight_Properties.thy ===== *)
theory Video_Preflight_Properties
  imports Video_Preflight Video_Requests_Properties Image_Results_Properties
begin

unbundle bit_operations_syntax

text \<open>
  What the checks of the composers promise: the size of a data URL is the size of what it decodes
  to, an address is refused exactly when it lies in one of the networks that are not public, in
  every notation, and a request that passes carries every attached resource, in order, each of them
  within the budgets of the model.
\<close>

section \<open>Data URLs\<close>

lemma base64_unit_alphabet: "base64_unit c \<longleftrightarrow> isBase64Alphabet c"
  by (auto simp: base64_unit_def isBase64Alphabet_def asset_unit_def is_digit_def)

lemma length_sextets: "length (sextets s) = length s * 3 div 4"
  by (induction s rule: sextets.induct) auto

lemma header_of_data_url:
  assumes "m \<noteq> []" "list_all mime_unit m"
  shows "DATA_URL_HEADER_RE (data_url m p) = (if p \<noteq> [] \<and> list_all (\<lambda>c. base64_unit c \<or> c = 61) p then Some (m, p) else None)"
proof -
  have "\<not> mime_unit 59" by (simp add: mime_unit_def asset_unit_def is_digit_def)
  then have "takeWhile mime_unit (m @ js '';base64,'' @ p) = m" "dropWhile mime_unit (m @ js '';base64,'' @ p) = js '';base64,'' @ p"
    using assms(2) by (simp_all add: list_all_iff js_eval takeWhile_append2 dropWhile_append2)
  then show ?thesis
    using assms(1) by (simp add: DATA_URL_HEADER_RE_def data_url_def starts_with_def Let_def js_eval)
qed

lemma stripped_text:
  "\<exists>j\<le>2. p = strip_padding p @ replicate j 61 \<and> (0 < j \<longrightarrow> length p mod 4 = 0)"
proof -
  have cut: "p = take (length p - length e) p @ e" if "ends_with p e" for e
    using that by (metis append_take_drop_id ends_with_def)
  show ?thesis
  proof (cases "strip_padding p = p")
    case False
    then have four: "length p mod 4 = 0" by (auto simp: strip_padding_def split: if_splits)
    show ?thesis
    proof (cases "ends_with p [61, 61]")
      case True
      then show ?thesis using cut [of "[61, 61]"] four by (intro exI [of _ 2]) (simp add: strip_padding_def numeral_2_eq_2)
    next
      case one: False
      then have "ends_with p [61]" using False four by (auto simp: strip_padding_def split: if_splits)
      then show ?thesis using cut [of "[61]"] four one by (intro exI [of _ 1]) (simp add: strip_padding_def)
    qed
  qed (intro exI [of _ 0], simp)
qed

text \<open>A payload is a text that does not end in padding, and padding.\<close>

definition unpadded :: "jsstr \<Rightarrow> bool" where
  "unpadded s \<longleftrightarrow> s = [] \<or> last s \<noteq> 61"

lemma trailing_padding:
  assumes "unpadded s"
  shows "takeWhile (\<lambda>c. c = 61) (rev (s @ replicate j 61)) = replicate j 61"
proof -
  have "takeWhile (\<lambda>c. c = 61) (rev s) = []"
    using assms by (cases s rule: rev_cases) (auto simp: unpadded_def)
  moreover have "takeWhile (\<lambda>c. c = 61) (replicate j 61 @ r) = replicate j 61 @ takeWhile (\<lambda>c. c = 61) r" for r :: jsstr
    by (rule takeWhile_append2) simp
  ultimately show ?thesis by simp
qed

lemma padded_text: obtains s j where "p = s @ replicate j 61" "unpadded s"
proof -
  let ?t = "takeWhile (\<lambda>c. c = 61) (rev p)" and ?d = "dropWhile (\<lambda>c. c = 61) (rev p)"
  have "p = rev ?d @ rev ?t" by (metis rev_append rev_rev_ident takeWhile_dropWhile_id)
  moreover have "?t = replicate (length ?t) 61"
    by (metis (mono_tags, lifting) replicate_length_same set_takeWhileD)
  moreover have "unpadded (rev ?d)"
    using hd_dropWhile [of "\<lambda>c. c = 61" "rev p"] by (auto simp: unpadded_def last_rev)
  ultimately show thesis using that by (metis rev_replicate)
qed

lemma alphabet_unpadded: "list_all isBase64Alphabet s \<Longrightarrow> unpadded s"
  using padding_not_alphabet by (cases s rule: rev_cases) (auto simp: unpadded_def)

lemma padded_unique:
  assumes "s @ replicate j 61 = t @ replicate k 61" "unpadded s" "unpadded t"
  shows "s = t \<and> j = k"
proof -
  have "replicate j 61 = (replicate k 61 :: jsstr)"
    using trailing_padding [OF assms(2), of j] trailing_padding [OF assms(3), of k] assms(1) by simp
  then show ?thesis using assms(1) by (metis append_same_eq length_replicate)
qed

definition payload_ok :: "jsstr \<Rightarrow> nat \<Rightarrow> bool" where
  "payload_ok s j \<longleftrightarrow> j \<le> 2 \<and> s \<noteq> [] \<and> list_all isBase64Alphabet s \<and> (length s + j) mod 4 \<noteq> 1 \<and>
     (0 < j \<longrightarrow> (length s + j) mod 4 = 0)"

lemma payload_length:
  fixes n j :: nat
  assumes "j \<le> 2" "(n + j) mod 4 \<noteq> 1" "0 < j \<Longrightarrow> (n + j) mod 4 = 0"
  shows "n mod 4 \<noteq> 1" "int ((n + j) * 3 div 4) - int j = int (n * 3 div 4)"
proof -
  have j: "j = 0 \<or> j = 1 \<and> n mod 4 = 3 \<or> j = 2 \<and> n mod 4 = 2" using assms by presburger
  then show "n mod 4 \<noteq> 1" using assms(2) by auto
  define q where "q = n div 4"
  have "n = 4 * q + n mod 4" by (simp add: q_def)
  then have "j = 0 \<or> j = 1 \<and> n = 4 * q + 3 \<or> j = 2 \<and> n = 4 * q + 2" using j by auto
  then show "int ((n + j) * 3 div 4) - int j = int (n * 3 div 4)" by (elim disjE conjE) simp_all
qed

lemma decoded_payload:
  assumes "payload_ok s j"
  shows "atob (s @ replicate j 61) = Some (sextets (map base64_value s))"
proof -
  have "filter (\<lambda>c. \<not> isAsciiWhitespace c) (s @ replicate j 61) = s @ replicate j 61"
    using assms alphabet_not_space by (auto simp: payload_ok_def list_all_iff filter_id_conv)
  moreover have "strip_padding (s @ replicate j 61) = s"
    using assms strip_padded [of s j] strip_plain [of s] by (cases "j = 0") (auto simp: payload_ok_def)
  moreover have "length s mod 4 \<noteq> 1" using assms payload_length(1) [of j "length s"] by (simp add: payload_ok_def)
  ultimately show ?thesis using assms by (simp add: atob_def payload_ok_def)
qed

lemma accepted_payload:
  assumes "atob p = Some bytes" "p \<noteq> []" "\<not> list_ex isAsciiWhitespace p"
  shows "\<exists>s j. p = s @ replicate j 61 \<and> payload_ok s j"
proof -
  have "filter (\<lambda>c. \<not> isAsciiWhitespace c) p = p" using assms(3) by (simp add: filter_id_conv list_ex_iff)
  then have s: "length (strip_padding p) mod 4 \<noteq> 1" "list_all isBase64Alphabet (strip_padding p)"
    using assms(1) by (auto simp: atob_def Let_def split: if_splits)
  obtain j where "j \<le> 2 \<and> p = strip_padding p @ replicate j 61 \<and> (0 < j \<longrightarrow> length p mod 4 = 0)"
    using stripped_text [of p] by (elim exE)
  then have j: "j \<le> 2" "p = strip_padding p @ replicate j 61" "0 < j \<Longrightarrow> length p mod 4 = 0" by (elim conjE, assumption | simp)+
  have "length p = length (strip_padding p @ replicate j 61)" using j(2) by (rule arg_cong)
  then have len: "length p = length (strip_padding p) + j" by simp
  have "strip_padding p \<noteq> []"
  proof
    assume "strip_padding p = []"
    then have "length p = j" "0 < j" using len assms(2) by auto
    then show False using j(1,3) by auto
  qed
  moreover have "length p mod 4 \<noteq> 1" using s(1) len j(3) by (cases "j = 0") auto
  ultimately have "payload_ok (strip_padding p) j" using s(2) j(1,3) len by (simp add: payload_ok_def)
  then show ?thesis using j(2) by (intro exI conjI)
qed

lemma parsed_payload:
  assumes "m \<noteq> []" "list_all mime_unit m" "unpadded s"
  shows "parseBase64DataUrl h (data_url m (s @ replicate j 61)) =
    (if payload_ok s j then Some \<lparr>pd_mime = wh_lower h m, pd_decodedBytes = int (length s * 3 div 4)\<rparr> else None)"
proof (cases "s @ replicate j 61 \<noteq> [] \<and> list_all (\<lambda>c. base64_unit c \<or> c = 61) (s @ replicate j 61)")
  case True
  have k: "length (takeWhile (\<lambda>c. c = 61) (rev (s @ replicate j 61))) = j"
    using trailing_padding [OF assms(3), of j] by simp
  have alpha: "list_all base64_unit s \<longleftrightarrow> list_all isBase64Alphabet s" by (simp add: list_all_iff base64_unit_alphabet)
  show ?thesis
  proof (cases "payload_ok s j")
    case ok: True
    then have "int ((length s + j) * 3 div 4) - int j = int (length s * 3 div 4)"
      using payload_length(2) [of j "length s"] by (simp add: payload_ok_def)
    then show ?thesis
      unfolding parseBase64DataUrl_def header_of_data_url [OF assms(1,2)] if_P [OF True] option.case prod.case k Let_def
      using ok alpha by (auto simp: payload_ok_def)
  next
    case False
    then show ?thesis
      unfolding parseBase64DataUrl_def header_of_data_url [OF assms(1,2)] if_P [OF True] option.case prod.case k Let_def
      using alpha by (auto simp: payload_ok_def)
  qed
next
  case False
  then have "\<not> payload_ok s j" by (auto simp: payload_ok_def list_all_iff base64_unit_alphabet)
  then show ?thesis using False by (auto simp: parseBase64DataUrl_def header_of_data_url [OF assms(1,2)])
qed

text \<open>C25: The size of a data URL is computed from the length of its text; it is the size of what the
  text decodes to.  The parser accepts a payload exactly when it is not empty, has no white space
  and decodes, and then reports the number of bytes of the decoding.\<close>

theorem data_url_size:
  assumes "m \<noteq> []" "list_all mime_unit m"
  shows "parseBase64DataUrl h (data_url m p) =
    (if p = [] \<or> list_ex isAsciiWhitespace p then None
     else map_option (\<lambda>bytes. \<lparr>pd_mime = wh_lower h m, pd_decodedBytes = int (length bytes)\<rparr>) (atob p))"
proof -
  obtain s j where p: "p = s @ replicate j 61" "unpadded s" by (rule padded_text)
  show ?thesis
  proof (cases "payload_ok s j")
    case True
    then have "p \<noteq> []" "\<not> list_ex isAsciiWhitespace p"
      using alphabet_not_space p(1) by (auto simp: payload_ok_def list_all_iff list_ex_iff)
    then show ?thesis
      using True parsed_payload [OF assms p(2), of h j] decoded_payload [OF True] p(1) by (simp add: length_sextets)
  next
    case False
    have "atob p = None" if plain: "p \<noteq> []" "\<not> list_ex isAsciiWhitespace p"
    proof (rule ccontr)
      assume "atob p \<noteq> None"
      then obtain t k where t: "p = t @ replicate k 61 \<and> payload_ok t k" using accepted_payload [OF _ plain] by auto
      moreover have "unpadded t" using t by (intro alphabet_unpadded) (simp add: payload_ok_def)
      ultimately show False using False p padded_unique by metis
    qed
    then show ?thesis using False parsed_payload [OF assms p(2), of h j] p(1) by auto
  qed
qed

lemma header_text: "DATA_URL_HEADER_RE s = Some (m, p) \<Longrightarrow> s = data_url m p \<and> m \<noteq> [] \<and> list_all mime_unit m"
proof -
  assume h: "DATA_URL_HEADER_RE s = Some (m, p)"
  define r where "r = dropWhile mime_unit (drop 5 s)"
  have parts: "starts_with s (js ''data:'')" "m = takeWhile mime_unit (drop 5 s)" "m \<noteq> []" "starts_with r (js '';base64,'')" "p = drop 8 r"
    using h by (auto simp: DATA_URL_HEADER_RE_def Let_def r_def split: if_splits)
  have cut: "x = js y @ drop (length y) x" if "starts_with x (js y)" for x y
    using that by (metis append_take_drop_id length_js starts_with_def)
  have "s = js ''data:'' @ drop 5 s" using cut [OF parts(1)] by (simp add: eval_nat_numeral)
  also have "drop 5 s = m @ r" by (simp add: parts(2) r_def)
  also have "r = js '';base64,'' @ p" using cut [OF parts(4)] parts(5) by (simp add: eval_nat_numeral)
  finally show ?thesis using parts by (auto simp: data_url_def list_all_iff dest: set_takeWhileD)
qed

section \<open>One resource\<close>

text \<open>What a source must be: a public link, data that decode to at most so many bytes, in one of
  the formats of the model, or, for a video, an entry of the library of the provider.\<close>

definition source_ok :: "web_host \<Rightarrow> media_kind \<Rightarrow> nat \<Rightarrow> jsstr list \<Rightarrow> media_source \<Rightarrow> bool" where
  "source_ok h kind limit formats source =
     (case source of
        Url_source u \<Rightarrow> safeRemoteUrl h u \<and> (\<exists>m\<in>set formats. mediaMimeFromHttpsUrl h u kind = Some m)
      | Base64_source d \<Rightarrow> kind \<noteq> Video_kind \<and>
          (\<exists>m pl bytes. d = data_url m pl \<and> atob pl = Some bytes \<and> length bytes \<le> limit \<and> wh_lower h m \<in> set formats)
      | Asset_source a \<Rightarrow> kind = Video_kind \<and> isCanonicalAssetUrl (js ''asset://'' @ a))"

lemma parsed_data:
  assumes "parseBase64DataUrl h d = Some q"
  shows "\<exists>m pl bytes. d = data_url m pl \<and> atob pl = Some bytes \<and> pd_decodedBytes q = int (length bytes) \<and> pd_mime q = wh_lower h m"
proof -
  obtain m pl where "DATA_URL_HEADER_RE d = Some (m, pl)"
    using assms by (cases "DATA_URL_HEADER_RE d") (auto simp: parseBase64DataUrl_def)
  then have d: "d = data_url m pl" "m \<noteq> []" "list_all mime_unit m" using header_text by auto
  obtain s j where p: "pl = s @ replicate j 61" "unpadded s" by (rule padded_text)
  have "payload_ok s j \<and> q = \<lparr>pd_mime = wh_lower h m, pd_decodedBytes = int (length s * 3 div 4)\<rparr>"
    using assms parsed_payload [OF d(2,3) p(2), of h j] d(1) p(1) by (auto split: if_splits)
  then have "d = data_url m pl \<and> atob pl = Some (sextets (map base64_value s)) \<and>
      pd_decodedBytes q = int (length (sextets (map base64_value s))) \<and> pd_mime q = wh_lower h m"
    using d(1) p(1) decoded_payload [of s j] by (simp add: length_sextets)
  then show ?thesis by (intro exI)
qed

fun size_limit :: "video_profile \<Rightarrow> media_kind \<Rightarrow> nat" where
  "size_limit p Image_kind = ib_perItemMaxBytes (pf_referenceImage p)"
| "size_limit p Audio_kind = ab_perItemMaxBytes (pf_referenceAudio p)"
| "size_limit p Video_kind = vb_perItemMaxBytes (pf_referenceVideo p)"

lemma checked_source:
  assumes "check_source h p kind name source = Inr ()"
  shows "source_ok h kind (size_limit p kind) (supportedFormatsFor p kind) source"
proof (cases source)
  case (Base64_source d)
  then have k: "kind \<noteq> Video_kind" using assms by (auto simp: check_source_def fail_def isValidBase64DataUrl_def)
  obtain q where q: "parseBase64DataUrl h d = Some q" "pd_mime q \<in> set (supportedFormatsFor p kind)"
      "pd_decodedBytes q \<le> int (size_limit p kind)"
    using assms k Base64_source
    by (cases kind) (auto simp: check_source_def fail_def Let_def split: if_splits option.splits)
  obtain m pl bytes where "d = data_url m pl" "atob pl = Some bytes" "length bytes \<le> size_limit p kind"
      "wh_lower h m \<in> set (supportedFormatsFor p kind)"
    using parsed_data [OF q(1)] q(2,3) by auto
  then have "\<exists>m pl bytes. d = data_url m pl \<and> atob pl = Some bytes \<and> length bytes \<le> size_limit p kind \<and>
      wh_lower h m \<in> set (supportedFormatsFor p kind)" by (intro exI conjI)
  then show ?thesis using k Base64_source by (simp add: source_ok_def)
qed (use assms in \<open>auto simp: check_source_def source_ok_def fail_def split: if_splits option.splits\<close>)

text \<open>What is known of an image, an audio track or a video is within the budgets of the model.\<close>

definition image_ok :: "web_host \<Rightarrow> video_profile \<Rightarrow> video_image \<Rightarrow> bool" where
  "image_ok h p i \<longleftrightarrow>
     source_ok h Image_kind (size_limit p Image_kind) (supportedFormatsFor p Image_kind) (vi_source i) \<and>
     (is_base64 (vi_source i) \<longrightarrow> vi_width i \<noteq> None \<and> vi_height i \<noteq> None) \<and>
     (\<forall>w e. vi_width i = Some w \<and> vi_height i = Some e \<longrightarrow>
        \<not> outside (ib_sideRange (pf_referenceImage p)) w \<and> \<not> outside (ib_sideRange (pf_referenceImage p)) e \<and>
        \<not> outside (ib_aspectRange (pf_referenceImage p)) (div_num w e))"

definition video_ok :: "web_host \<Rightarrow> video_profile \<Rightarrow> video_clip \<Rightarrow> bool" where
  "video_ok h p v \<longleftrightarrow>
     source_ok h Video_kind (size_limit p Video_kind) (supportedFormatsFor p Video_kind) (vc_source v) \<and>
     \<not> duration_outside (vb_perItemMinSeconds (pf_referenceVideo p)) (vb_perItemMaxSeconds (pf_referenceVideo p)) (vc_durationSeconds v)"

definition audio_ok :: "web_host \<Rightarrow> video_profile \<Rightarrow> video_sound \<Rightarrow> bool" where
  "audio_ok h p a \<longleftrightarrow>
     source_ok h Audio_kind (size_limit p Audio_kind) (supportedFormatsFor p Audio_kind) (vs_source a) \<and>
     (is_base64 (vs_source a) \<longrightarrow> vs_durationSeconds a \<noteq> None) \<and>
     \<not> duration_outside (ab_perItemMinSeconds (pf_referenceAudio p)) (ab_perItemMaxSeconds (pf_referenceAudio p)) (vs_durationSeconds a)"

lemma fail_not_Inr [simp]: "fail key info \<noteq> Inr u"
  by (simp add: fail_def)

lemma checked_each: "check_each h p xs = Inr () \<longleftrightarrow> (\<forall>x\<in>set xs. checkOne h p x = Inr ())"
  by (induction xs) (auto simp: res_bind_eq_Inr)

lemma checked_image: "checkOne h p (Image_item role i) = Inr () \<Longrightarrow> image_ok h p i"
  using checked_source [of h p Image_kind "vi_id i" "vi_source i"]
  by (auto simp: res_bind_eq_Inr check_image_def image_ok_def Let_def split: if_splits option.splits)

lemma checked_video: "checkOne h p (Video_item v) = Inr () \<Longrightarrow> video_ok h p v"
  using checked_source [of h p Video_kind "vc_id v" "vc_source v"]
  by (auto simp: res_bind_eq_Inr check_video_def video_ok_def Let_def split: if_splits)

lemma checked_audio: "checkOne h p (Audio_item a) = Inr () \<Longrightarrow> audio_ok h p a"
  using checked_source [of h p Audio_kind "vs_id a" "vs_source a"]
  by (auto simp: res_bind_eq_Inr check_audio_def audio_ok_def Let_def split: if_splits)

text \<open>The total of the durations, when all of them and the bound are known.\<close>

definition total_ok :: "duration_bound \<Rightarrow> jsnum option list \<Rightarrow> bool" where
  "total_ok limit durations \<longleftrightarrow>
     (\<forall>ds m. durations = map Some ds \<and> ds \<noteq> [] \<and> limit = Some m \<longrightarrow> \<not> lt_num m (total_seconds ds))"

lemma checked_total: "check_total key limit durations = Inr () \<Longrightarrow> total_ok limit durations"
proof -
  have "List.map_filter id (map Some ds) = ds" for ds :: "jsnum list" by (induction ds) (simp_all add: List.map_filter_simps)
  then show "check_total key limit durations = Inr () \<Longrightarrow> total_ok limit durations"
    by (auto simp: check_total_def total_ok_def Let_def split: if_splits)
qed

definition resources_ok :: "web_host \<Rightarrow> video_profile \<Rightarrow> composition_state \<Rightarrow> bool" where
  "resources_ok h p c \<longleftrightarrow>
     length (cs_images c) \<le> ib_multimodalMax (pf_referenceImage p) \<and> length (cs_videos c) \<le> vb_maxCount (pf_referenceVideo p) \<and>
     length (cs_audios c) \<le> ab_maxCount (pf_referenceAudio p) \<and>
     list_all (image_ok h p) (cs_images c) \<and> list_all (video_ok h p) (cs_videos c) \<and> list_all (audio_ok h p) (cs_audios c) \<and>
     total_ok (vb_totalMaxSeconds (pf_referenceVideo p)) (map vc_durationSeconds (cs_videos c)) \<and>
     total_ok (ab_totalMaxSeconds (pf_referenceAudio p)) (map vs_durationSeconds (cs_audios c))"

lemma checked_resources:
  assumes "preflightResources h p mode c = Inr ()"
  shows "isCompositionLegal mode (counts_of c) = None \<and> resources_ok h p c"
  using assms checked_image checked_video checked_audio checked_total
  by (auto simp: preflightResources_def resources_ok_def res_bind_eq_Inr checked_each list_all_iff
      simp del: checkOne.simps split: option.splits if_splits)

section \<open>Requests of the dedicated composer\<close>

text \<open>The resources of a body: the link and the role of each item.\<close>

definition item_link :: "jsval \<Rightarrow> jsstr \<times> jsstr" where
  "item_link v = (text_of (jget (jget v (text_of (field v ''type''))) (js ''url'')), text_of (field v ''role''))"

definition sent_items :: "jsval \<Rightarrow> (jsstr \<times> jsstr) list" where
  "sent_items sent = (case field (field sent ''metadata'') ''content'' of JArr items \<Rightarrow> map item_link items | _ \<Rightarrow> [])"

fun image_roles :: "creation_mode \<Rightarrow> nat \<Rightarrow> jsstr list" where
  "image_roles FirstFrame n = [js ''first_frame'']"
| "image_roles FirstAndLastFrame n = [js ''first_frame'', js ''last_frame'']"
| "image_roles _ n = replicate n (js ''reference_image'')"

text \<open>All attached resources with their roles: the images, the videos, the audio tracks.\<close>

definition attached_items :: "creation_mode \<Rightarrow> composition_state \<Rightarrow> (jsstr \<times> jsstr) list" where
  "attached_items mode c =
     zip (map image_link (cs_images c)) (image_roles mode (length (cs_images c))) @
     map (\<lambda>v. (video_link v, js ''reference_video'')) (cs_videos c) @
     map (\<lambda>a. (audio_link a, js ''reference_audio'')) (cs_audios c)"

lemma item_link_entry: "what \<noteq> ''type'' \<Longrightarrow> what \<noteq> ''role'' \<Longrightarrow> item_link (content_entry what u r) = (u, r)"
  by (simp add: item_link_def content_entry_def)

lemma item_link_value:
  "item_link (content_value (Image_item r i)) = (image_link i, r)"
  "item_link (content_value (Video_item v)) = (video_link v, js ''reference_video'')"
  "item_link (content_value (Audio_item a)) = (audio_link a, js ''reference_audio'')"
  by (simp_all add: item_link_entry)

lemma nothing_dropped:
  assumes "isCompositionLegal mode (counts_of c) = None"
  shows "map item_link (buildContent mode c) = attached_items mode c"
proof (cases mode)
  case FirstFrame
  then obtain i where "cs_images c = [i]" "cs_videos c = []" "cs_audios c = []"
    using assms by (auto simp: isCompositionLegal_def extraNonImageReason_def counts_of_def length_Suc_conv split: if_splits)
  then show ?thesis using FirstFrame by (simp add: buildContent_def resolveContent_def attached_items_def item_link_value del: content_value.simps)
next
  case FirstAndLastFrame
  then obtain i j where "cs_images c = [i, j]" "cs_videos c = []" "cs_audios c = []"
    using assms by (auto simp: isCompositionLegal_def extraNonImageReason_def counts_of_def length_Suc_conv numeral_2_eq_2 split: if_splits)
  then show ?thesis
    using FirstAndLastFrame by (simp add: buildContent_def resolveContent_def attached_items_def item_link_value del: content_value.simps)
next
  case TextToVideo
  then show ?thesis
    using assms by (auto simp: isCompositionLegal_def counts_of_def buildContent_def resolveContent_def attached_items_def split: if_splits)
qed (simp_all add: buildContent_def resolveContent_def referenceContent_def attached_items_def item_link_value
      zip_replicate2 comp_def del: content_value.simps)

text \<open>Whole seconds between the bounds of the model.\<close>

definition legal_seconds :: "video_profile \<Rightarrow> jsnum \<Rightarrow> bool" where
  "legal_seconds p d \<longleftrightarrow> is_integer d \<and> le_num (pf_minSeconds p) d \<and> le_num d (pf_maxSeconds p)"

lemma clamped:
  assumes "lo \<le> hi" "0 < lo"
  shows "\<exists>k. clampInt x (Fin (of_int lo)) (Fin (of_int hi)) = Fin (of_int k) \<and> lo \<le> k \<and> k \<le> hi"
proof (cases "is_finite x \<and> \<not> lt_num x (Fin (of_int lo)) \<and> \<not> lt_num (Fin (of_int hi)) x")
  case True
  then obtain y where y: "x = Fin y" "of_int lo \<le> y" "y \<le> of_int hi" using assms(2) by (cases x) auto
  then have "lo \<le> \<lfloor>y + 1 / 2\<rfloor>" "\<lfloor>y + 1 / 2\<rfloor> \<le> hi" by linarith+
  then show ?thesis using y True assms by (intro exI [of _ "\<lfloor>y + 1 / 2\<rfloor>"]) (auto simp: clampInt_def Let_def)
next
  case False
  then show ?thesis using assms by (cases "is_finite x \<and> \<not> lt_num x (Fin (of_int lo))") (auto simp: clampInt_def)
qed

lemma clamped_seconds:
  assumes "getVideoModelCapability m = Some p"
  shows "legal_seconds p (clampInt x (pf_minSeconds p) (pf_maxSeconds p))"
proof -
  obtain hi where "pf_minSeconds p = Fin (of_int 4)" "pf_maxSeconds p = Fin (of_int hi)" "4 \<le> hi"
    using assms by (auto simp: getVideoModelCapability_def PROFILE_REGISTRY_def SEEDANCE_2_0_profile_def SEEDANCE_2_5_profile_def split: if_splits)
  then show ?thesis using clamped [of 4 hi x] by (auto simp: legal_seconds_def is_integer_def le_num_def)
qed

lemma dedicated_fields:
  assumes "sent = dedicated_body m input duration resolution"
  shows "field sent ''model'' = JStr m" "field sent ''prompt'' = JStr (trim (di_prompt input))"
    "field sent ''duration'' = (case duration of Some d \<Rightarrow> JNum d | None \<Rightarrow> JUndef)"
    "field (field sent ''metadata'') ''duration'' = (case duration of Some d \<Rightarrow> JNum d | None \<Rightarrow> JUndef)"
    "field (field sent ''metadata'') ''resolution'' = JStr resolution"
    "sent_items sent = map item_link (buildContent (di_mode input) (di_resources input))"
  unfolding assms
  by (cases duration; cases "di_seed input"; simp add: dedicated_body_def sent_items_def Let_def)+

lemma built_request:
  assumes "build_dedicated_request m input = Inr sent" "getVideoModelCapability m = Some p"
  obtains duration resolution where "sent = dedicated_body m input duration resolution"
    "duration = (if di_intelligent input then None else Some (clampInt (di_durationSeconds input) (pf_minSeconds p) (pf_maxSeconds p)))"
    "resolution \<in> set (rv_resolutions (resolveVideoCapabilities p (di_mode input) (counts_of (di_resources input))))"
    "illegal_reason p (di_mode input) (counts_of (di_resources input)) = None"
proof -
  let ?r = "resolveVideoCapabilities p (di_mode input) (counts_of (di_resources input))"
  have parts: "rv_illegalReason ?r = None" "\<not> (di_resolution input \<notin> set (rv_resolutions ?r) \<and> rv_resolutions ?r = [])"
      "sent = dedicated_body m input
         (if di_intelligent input then None else Some (clampInt (di_durationSeconds input) (rv_minSeconds ?r) (rv_maxSeconds ?r)))
         (if di_resolution input \<in> set (rv_resolutions ?r) then di_resolution input else hd (rv_resolutions ?r))"
    using assms by (auto simp: build_dedicated_request_def Let_def split: if_splits)
  have res: "(if di_resolution input \<in> set (rv_resolutions ?r) then di_resolution input else hd (rv_resolutions ?r)) \<in> set (rv_resolutions ?r)"
    using parts(2) by auto
  show thesis
    by (rule that [OF parts(3) _ res]) (use parts(1) in \<open>simp_all add: resolveVideoCapabilities_def\<close>)
qed

text \<open>C16: A request of the dedicated composer that is sent is complete and legal.  Its body names
  the model and carries every attached resource, in order and in its role, so no resource is
  dropped; every resource is public or decodes within the limit of its kind, and what is known of
  its dimensions and durations, alone and in total, is within the budgets of the model; an audio
  track alone is only sent to a model that takes it.  A fixed duration is a whole number of seconds
  between the bounds of the model and stands in both places, an intelligent one in neither; the
  resolution is one the model has for these resources; and the text that is sent is within the limit.\<close>

theorem dedicated_request_complete:
  assumes "submit_dedicated h p m n input = Inr payload" "getVideoModelCapability m = Some p"
  shows "field (sp_sent payload) ''model'' = JStr m \<and>
    sent_items (sp_sent payload) = attached_items (di_mode input) (di_resources input) \<and>
    resources_ok h p (di_resources input) \<and>
    (classifyComposition (counts_of (di_resources input)) = AudioOnly \<longrightarrow> ab_audioOnlyAllowed (pf_referenceAudio p)) \<and>
    (if di_intelligent input
     then field (sp_sent payload) ''duration'' = JUndef \<and> field (field (sp_sent payload) ''metadata'') ''duration'' = JUndef
     else \<exists>d. legal_seconds p d \<and> field (sp_sent payload) ''duration'' = JNum d \<and>
            field (field (sp_sent payload) ''metadata'') ''duration'' = JNum d) \<and>
    (\<exists>r\<in>set (rv_resolutions (resolveVideoCapabilities p (di_mode input) (counts_of (di_resources input)))).
       field (field (sp_sent payload) ''metadata'') ''resolution'' = JStr r) \<and>
    utf8_length (stringify (sp_sent payload)) \<le> pf_requestBodyLimitBytes p"
proof -
  let ?sent = "sp_sent payload"
  have parts: "preflightResources h p (di_mode input) (di_resources input) = Inr ()" "build_dedicated_request m input = Inr ?sent"
      "utf8_length (stringify ?sent) \<le> pf_requestBodyLimitBytes p"
    using assms(1)
    by (auto simp: submit_dedicated_def preflightRequestBodySize_def Let_def split: sum.splits if_splits)
  note ok = checked_resources [OF parts(1)]
  obtain duration resolution where sent: "?sent = dedicated_body m input duration resolution"
      "duration = (if di_intelligent input then None else Some (clampInt (di_durationSeconds input) (pf_minSeconds p) (pf_maxSeconds p)))"
      "resolution \<in> set (rv_resolutions (resolveVideoCapabilities p (di_mode input) (counts_of (di_resources input))))"
      "illegal_reason p (di_mode input) (counts_of (di_resources input)) = None"
    using built_request [OF parts(2) assms(2)] .
  have "classifyComposition (counts_of (di_resources input)) = AudioOnly \<longrightarrow> ab_audioOnlyAllowed (pf_referenceAudio p)"
    using sent(4) by (auto simp: illegal_reason_def split: option.splits if_splits)
  then show ?thesis
    using dedicated_fields [OF sent(1)] ok parts(3) sent(2,3) nothing_dropped clamped_seconds [OF assms(2)]
    by (cases "di_intelligent input") auto
qed

text \<open>A request with one frame.\<close>

definition public_host :: web_host where
  "public_host = \<lparr>wh_lower = id, wh_url = (\<lambda>s. Some \<lparr>ur_protocol = js ''https:'', ur_username = [], ur_password = [],
     ur_hostname = js ''a.org'', ur_pathname = js ''/a.png''\<rparr>)\<rparr>"

definition frame_image :: video_image where
  "frame_image = \<lparr>vi_id = js ''i'', vi_source = Url_source (js ''https://a.org/a.png''), vi_name = js ''i'',
     vi_mimeType = js ''image/png'', vi_byteSize = None, vi_width = None, vi_height = None\<rparr>"

definition frame_resources :: composition_state where
  "frame_resources = \<lparr>cs_images = [frame_image], cs_videos = [], cs_audios = []\<rparr>"

definition frame_input :: dedicated_input where
  "frame_input = \<lparr>di_prompt = js ''p'', di_mode = FirstFrame, di_resources = frame_resources, di_intelligent = True,
     di_durationSeconds = Fin 5, di_ratio = js ''1:1'', di_resolution = js ''1080p'', di_generateAudio = True, di_seed = None,
     di_watermark = False, di_returnLastFrame = False\<rparr>"

lemma frame_link:
  "safeRemoteUrl public_host (js ''https://a.org/a.png'')" "safeHttpsMediaUrl public_host (js ''https://a.org/a.png'')"
  "mediaMimeFromHttpsUrl public_host (js ''https://a.org/a.png'') Image_kind = Some (js ''image/png'')"
proof -
  have t: "trim (js ''https://a.org/a.png'') = js ''https://a.org/a.png''" by (simp add: trim_def is_space_def js_eval)
  have a: "\<not> starts_with (js ''https://a.org/a.png'') (js ''asset://'')" by (simp add: starts_with_def js_eval)
  have "\<not> isPrivateOrLoopback public_host (js ''a.org'')"
    by (simp add: isPrivateOrLoopback_def public_host_def strip_brackets_def dotted_quad_def starts_with_def js_eval)
  then show r: "safeRemoteUrl public_host (js ''https://a.org/a.png'')"
    using t a by (simp add: safeRemoteUrl_def SAFE_REMOTE_PROTOCOLS_def public_host_def)
  show "safeHttpsMediaUrl public_host (js ''https://a.org/a.png'')" using r t a by (simp add: safeHttpsMediaUrl_def)
  show "mediaMimeFromHttpsUrl public_host (js ''https://a.org/a.png'') Image_kind = Some (js ''image/png'')"
    by (simp add: mediaMimeFromHttpsUrl_def public_host_def ends_with_def js_eval)
qed

lemma frame_checked: "preflightResources public_host SEEDANCE_2_0_profile FirstFrame frame_resources = Inr ()"
proof -
  have "check_source public_host SEEDANCE_2_0_profile Image_kind (js ''i'') (Url_source (js ''https://a.org/a.png'')) = Inr ()"
    using frame_link by (simp add: check_source_def SEEDANCE_2_0_profile_def image_budget_of_def IMAGE_MIME_TYPES_def)
  then show ?thesis
    by (simp add: preflightResources_def frame_resources_def frame_image_def counts_of_def isCompositionLegal_def extraNonImageReason_def
        check_image_def over_def check_total_def SEEDANCE_2_0_profile_def image_budget_of_def)
qed

lemma frame_sent: "submit_dedicated public_host SEEDANCE_2_0_profile (js ''Doubao-Seedance-2.0'') 1 frame_input =
    Inr \<lparr>sp_sent = dedicated_body (js ''Doubao-Seedance-2.0'') frame_input None (js ''480p''), sp_modelId = js ''Doubao-Seedance-2.0'',
      sp_promptPreview = js ''p'', sp_batchSize = 1\<rparr>"
proof -
  let ?sent = "dedicated_body (js ''Doubao-Seedance-2.0'') frame_input None (js ''480p'')"
  have model: "getVideoModelCapability (js ''Doubao-Seedance-2.0'') = Some SEEDANCE_2_0_profile"
    by (simp add: getVideoModelCapability_def PROFILE_REGISTRY_def)
  have "build_dedicated_request (js ''Doubao-Seedance-2.0'') frame_input = Inr ?sent"
    by (simp add: build_dedicated_request_def model resolveVideoCapabilities_def illegal_reason_def isCompositionLegal_def
        extraNonImageReason_def classifyComposition_def counts_of_def frame_input_def frame_resources_def
        SEEDANCE_2_0_profile_def image_budget_of_def)
  moreover have "length (stringify ?sent) \<le> 1000"
    by (simp add: dedicated_body_def frame_input_def frame_resources_def frame_image_def buildContent_def resolveContent_def
        content_entry_def image_link_def trim_def is_space_def json_string_def quote_unit_def js_eval)
  then have "utf8_length (stringify ?sent) \<le> 64 * MB" using utf8_length_le [of "stringify ?sent"] by (simp add: MB_def)
  then have "preflightRequestBodySize ?sent (pf_requestBodyLimitBytes SEEDANCE_2_0_profile) = Inr ()"
    by (simp add: preflightRequestBodySize_def SEEDANCE_2_0_profile_def REQUEST_BODY_LIMIT_BYTES_def)
  ultimately show ?thesis
    using frame_checked by (simp add: submit_dedicated_def) (simp add: frame_input_def)
qed

theorem dedicated_request_complete_witness:
  "\<exists>payload. submit_dedicated public_host SEEDANCE_2_0_profile (js ''Doubao-Seedance-2.0'') 1 frame_input = Inr payload \<and>
     sent_items (sp_sent payload) = [(js ''https://a.org/a.png'', js ''first_frame'')] \<and>
     resources_ok public_host SEEDANCE_2_0_profile frame_resources"
proof -
  have model: "getVideoModelCapability (js ''Doubao-Seedance-2.0'') = Some SEEDANCE_2_0_profile"
    by (simp add: getVideoModelCapability_def PROFILE_REGISTRY_def)
  have "attached_items (di_mode frame_input) (di_resources frame_input) = [(js ''https://a.org/a.png'', js ''first_frame'')]"
      "di_resources frame_input = frame_resources"
    by (simp_all add: attached_items_def frame_input_def frame_resources_def frame_image_def image_link_def)
  then show ?thesis using frame_sent dedicated_request_complete [OF frame_sent model] by auto
qed

text \<open>The data of a picture.\<close>

theorem data_url_size_witness:
  "parseBase64DataUrl public_host (data_url (js ''image/png'') (js ''AAA='')) = Some \<lparr>pd_mime = js ''image/png'', pd_decodedBytes = 2\<rparr>"
proof -
  have "list_all mime_unit (js ''image/png'')" by (simp add: mime_unit_def asset_unit_def is_digit_def js_eval)
  moreover have "\<not> list_ex isAsciiWhitespace (js ''AAA='')" by (simp add: isAsciiWhitespace_def js_eval)
  moreover have "atob (js ''AAA='') = Some [0, 0]"
    by (simp add: atob_def strip_padding_def ends_with_def isAsciiWhitespace_def isBase64Alphabet_def base64_value_def js_eval)
  ultimately show ?thesis
    using data_url_size [of "js ''image/png''" public_host "js ''AAA=''"] by (simp add: public_host_def)
qed

section \<open>Requests of the generic composer\<close>

text \<open>A request to a model without a profile says only what is known to be understood: the
  model, the trimmed prompt and, in the mode that starts from an image, the one image that is
  attached, which is a public link over HTTPS.  Nothing that is attached is dropped.\<close>

theorem generic_request_minimal:
  assumes "submit_generic h g m n prompt mode c = Inr payload"
  shows "cs_videos c = [] \<and> cs_audios c = [] \<and> trim prompt \<noteq> [] \<and> trim m \<noteq> [] \<and> getVideoModelCapability m = None \<and>
    (mode = TextToVideo \<and> cs_images c = [] \<and>
       sp_sent payload = JObj [(js ''model'', JStr m), (js ''prompt'', JStr (trim prompt))] \<or>
     mode = FirstFrame \<and>
       (\<exists>i u. cs_images c = [i] \<and> vi_source i = Url_source u \<and> safeHttpsMediaUrl h u \<and>
         sp_sent payload = JObj [(js ''model'', JStr m), (js ''prompt'', JStr (trim prompt)), (js ''image'', JStr u)])) \<and>
    utf8_length (stringify (sp_sent payload)) \<le> gp_requestBodyLimitBytes g"
proof -
  have sent: "buildGenericVideoGenerationRequest h m prompt mode c = Inr (sp_sent payload)"
      "utf8_length (stringify (sp_sent payload)) \<le> gp_requestBodyLimitBytes g"
    using assms by (auto simp: submit_generic_def preflightRequestBodySize_def Let_def split: sum.splits if_splits)
  obtain q where q: "resolve_profile m = Some (Generic q)" "preflightGenericResources h q mode c = Inr ()" "trim prompt \<noteq> []"
      "sp_sent payload = JObj ([(js ''model'', JStr m), (js ''prompt'', JStr (trim prompt))] @
         (case cs_images c of i # _ \<Rightarrow> (case vi_source i of Url_source u \<Rightarrow> [(js ''image'', JStr u)] | _ \<Rightarrow> []) | [] \<Rightarrow> []))"
    using sent(1) by (auto simp: buildGenericVideoGenerationRequest_def split: option.splits resolved_profile.splits sum.splits if_splits)
  have profile: "trim m \<noteq> []" "getVideoModelCapability m = None" "gp_generationModes q = [TextToVideo, FirstFrame]"
    using q(1) by (auto simp: resolve_profile_def GENERIC_CREATION_MODES_def split: if_splits option.splits)
  have pre: "mode = TextToVideo \<or> mode = FirstFrame" "cs_videos c = []" "cs_audios c = []"
      "isCompositionLegal mode (counts_of c) = None"
    using q(2) profile(3) by (auto simp: preflightGenericResources_def split: if_splits option.splits)
  from pre(1) show ?thesis
  proof
    assume mode: "mode = TextToVideo"
    then have "cs_images c = []" using pre(4) by (simp add: isCompositionLegal_def counts_of_def split: if_splits)
    then show ?thesis using mode pre profile q(3,4) sent(2) by simp
  next
    assume mode: "mode = FirstFrame"
    then obtain i where i: "cs_images c = [i]"
      using pre(4) by (auto simp: isCompositionLegal_def counts_of_def length_Suc_conv split: if_splits)
    then obtain u where "vi_source i = Url_source u" "safeHttpsMediaUrl h u"
      using q(2) by (auto simp: preflightGenericResources_def split: if_splits option.splits media_source.splits)
    then show ?thesis using mode i pre profile q(3,4) sent(2) by simp
  qed
qed

lemma frame_generic_sent: "submit_generic public_host \<lparr>gp_publicModelId = js ''v'', gp_generationModes = GENERIC_CREATION_MODES, gp_maxCount = 1,
      gp_supportedFormats = IMAGE_MIME_TYPES, gp_requestBodyLimitBytes = REQUEST_BODY_LIMIT_BYTES\<rparr> (js ''v'') 1 (js ''p'') FirstFrame frame_resources =
    Inr \<lparr>sp_sent = JObj [(js ''model'', JStr (js ''v'')), (js ''prompt'', JStr (js ''p'')), (js ''image'', JStr (js ''https://a.org/a.png''))],
      sp_modelId = js ''v'', sp_promptPreview = js ''p'', sp_batchSize = 1\<rparr>"
proof -
  let ?sent = "JObj [(js ''model'', JStr (js ''v'')), (js ''prompt'', JStr (js ''p'')), (js ''image'', JStr (js ''https://a.org/a.png''))]"
  have t: "trim (js ''v'') = js ''v''" "trim (js ''p'') = js ''p''" by (simp_all add: trim_def is_space_def js_eval)
  have "getVideoModelCapability (js ''v'') = None" by (simp add: getVideoModelCapability_def PROFILE_REGISTRY_def)
  then have "buildGenericVideoGenerationRequest public_host (js ''v'') (js ''p'') FirstFrame frame_resources = Inr ?sent"
    using t frame_link
    by (simp add: buildGenericVideoGenerationRequest_def resolve_profile_def preflightGenericResources_def GENERIC_CREATION_MODES_def
        frame_resources_def frame_image_def counts_of_def isCompositionLegal_def extraNonImageReason_def IMAGE_MIME_TYPES_def)
  moreover have "length (stringify ?sent) \<le> 1000" by (simp add: json_string_def quote_unit_def js_eval)
  then have "utf8_length (stringify ?sent) \<le> 64 * MB" using utf8_length_le [of "stringify ?sent"] by (simp add: MB_def)
  ultimately show ?thesis
    by (simp add: submit_generic_def preflightRequestBodySize_def REQUEST_BODY_LIMIT_BYTES_def del: stringify.simps)
qed

theorem generic_request_minimal_witness:
  "safeHttpsMediaUrl public_host (js ''https://a.org/a.png'') \<and> cs_videos frame_resources = [] \<and> trim (js ''p'') \<noteq> []"
  using generic_request_minimal [OF frame_generic_sent] by (auto simp: frame_resources_def frame_image_def)

end
