(* ===== verification/Json_Print.thy ===== *)
theory Json_Print
  imports Json_Text Billing_Spelling
begin

text \<open>
  \<open>JSON.stringify\<close> with an indentation of two, and its inverse: what it prints of a value without
  numbers is read back by \<open>JSON.parse\<close>, less the properties that are undefined.
\<close>

section \<open>Printing\<close>

text \<open>\<open>JSON.stringify(v, null, 2)\<close> at a depth of indentation.\<close>

definition new_line :: "nat \<Rightarrow> jsstr" where
  "new_line depth = 10 # replicate (2 * depth) 32"

fun pretty :: "nat \<Rightarrow> jsval \<Rightarrow> jsstr" where
  "pretty depth JUndef = js ''null''"
| "pretty depth JNull = js ''null''"
| "pretty depth (JBool b) = (if b then js ''true'' else js ''false'')"
| "pretty depth (JNum n) = (if is_finite n then num_text n else js ''null'')"
| "pretty depth (JStr s) = json_string s"
| "pretty depth (JArr vs) =
     (if vs = [] then [91, 93]
      else [91] @ new_line (Suc depth) @ join ([44] @ new_line (Suc depth)) (map (pretty (Suc depth)) vs) @ new_line depth @ [93])"
| "pretty depth (JObj fs) =
     (let shown = map (\<lambda>(k, v). json_string k @ [58, 32] @ pretty (Suc depth) v) (filter (\<lambda>(k, v). v \<noteq> JUndef) fs)
      in if shown = [] then [123, 125]
         else [123] @ new_line (Suc depth) @ join ([44] @ new_line (Suc depth)) shown @ new_line depth @ [125])"

section \<open>Strings are read back\<close>

lemma escape_read:
  assumes "c < 65536"
  shows "json_chars acc (unicode_escape c @ r) = json_chars (acc @ [c]) r"
proof -
  obtain h where "unicode_escape c = 92 # 117 # h" "list_all is_hex h" "length h = 4" "hex_val 0 h = c"
    using assms by (rule unicode_escape_digits)
  then show ?thesis by simp
qed

lemma unit_read: "\<not> (55296 \<le> c \<and> c \<le> 57343) \<Longrightarrow> json_chars acc (quote_unit c @ r) = json_chars (acc @ [c]) r"
  using escape_read [of c] by (auto simp: quote_unit_def json_escape_def)

lemma json_units_read: "json_chars acc (quote_units s @ r) = json_chars (acc @ s) r"
proof (induction s arbitrary: acc rule: quote_units.induct)
  case (2 c d s)
  consider (pair) "55296 \<le> c \<and> c \<le> 56319 \<and> 56320 \<le> d \<and> d \<le> 57343"
    | (lone) "55296 \<le> c \<and> c \<le> 57343" "\<not> (55296 \<le> c \<and> c \<le> 56319 \<and> 56320 \<le> d \<and> d \<le> 57343)"
    | (plain) "\<not> (55296 \<le> c \<and> c \<le> 57343)" by blast
  then show ?case
  proof cases
    case pair
    then show ?thesis using 2(1) [OF pair, of "acc @ [c, d]"] by simp
  next
    case lone
    then have "quote_units (c # d # s) = unicode_escape c @ quote_units (d # s)" "c < 65536" by auto
    then show ?thesis using 2(2) [OF lone(2,1), of "acc @ [c]"] escape_read [of c acc] by simp
  next
    case plain
    then have "quote_units (c # d # s) = quote_unit c @ quote_units (d # s)" by auto
    then show ?thesis using 2(3) [of "acc @ [c]"] plain unit_read [OF plain, of acc] by auto
  qed
next
  case (3 c)
  then show ?case using escape_read [of c acc] unit_read [of c acc] by (cases "55296 \<le> c \<and> c \<le> 57343") auto
qed simp

lemma json_string_read: "json_chars [] (quote_units s @ 34 # r) = Some (s, r)"
  by (simp add: json_units_read)

section \<open>Values are read back\<close>

text \<open>What a printed value says: without the properties that are undefined.\<close>

fun stored :: "jsval \<Rightarrow> jsval" where
  "stored (JArr vs) = JArr (map stored vs)"
| "stored (JObj fs) = JObj (map (\<lambda>(k, v). (k, stored v)) (filter (\<lambda>(k, v). v \<noteq> JUndef) fs))"
| "stored v = v"

fun textual :: "jsval \<Rightarrow> bool" where
  "textual JUndef = False"
| "textual (JNum n) = False"
| "textual (JArr vs) = list_all textual vs"
| "textual (JObj fs) = (distinct (map fst fs) \<and> list_all (\<lambda>(k, v). v = JUndef \<or> textual v) fs)"
| "textual v = True"

lemma run_spaces: "list_all json_space u \<Longrightarrow> json_run st m (u @ s) = json_run st m s"
  by (induction u) auto

lemma new_line_space [simp]: "list_all json_space (new_line d)"
  by (simp add: new_line_def json_space_def list_all_iff)

lemma run_new_line [simp]: "json_run st m (new_line d @ s) = json_run st m s"
  by (rule run_spaces) simp

lemma pretty_head: "textual v \<Longrightarrow> \<exists>c s. pretty d v = c # s \<and> c \<noteq> 93 \<and> \<not> json_space c"
  by (cases v) (auto simp: json_string_def js_eval Let_def json_space_def)

lemma first_as_value: "textual v \<Longrightarrow> json_run st Want_first (pretty d v @ r) = json_run st Want_value (pretty d v @ r)"
  using pretty_head [of v d] by (auto simp: json_step_def)

text \<open>The elements of an array and the properties of an object, given that each of them is read back.\<close>

definition reads_back :: "nat \<Rightarrow> jsval \<Rightarrow> bool" where
  "reads_back d v \<longleftrightarrow> (\<forall>st r. json_run st Want_value (pretty d v @ r) = json_run st (Have (stored v)) r)"

lemma elements_read:
  "vs \<noteq> [] \<Longrightarrow> \<forall>v\<in>set vs. reads_back d v \<Longrightarrow>
   json_run (In_array acc # st) Want_value (join ([44] @ new_line d) (map (pretty d) vs) @ new_line e @ 93 # r) =
   json_run st (Have (JArr (acc @ map stored vs))) r"
proof (induction vs arbitrary: acc)
  case (Cons v vs)
  have v: "json_run st' Want_value (pretty d v @ s) = json_run st' (Have (stored v)) s" for st' s
    using Cons.prems(2) by (simp add: reads_back_def)
  show ?case
  proof (cases vs)
    case Nil
    then show ?thesis by (simp add: v json_step_def json_after_def json_space_def)
  next
    case (Cons w ws)
    then have "json_run (In_array (acc @ [stored v]) # st) Want_value (join ([44] @ new_line d) (map (pretty d) vs) @ new_line e @ 93 # r) =
        json_run st (Have (JArr (acc @ [stored v] @ map stored vs))) r"
      using Cons.IH [of "acc @ [stored v]"] Cons.prems by simp
    then show ?thesis using Cons by (simp add: v json_step_def json_after_def json_space_def)
  qed
qed simp

definition property_text :: "nat \<Rightarrow> jsstr \<times> jsval \<Rightarrow> jsstr" where
  "property_text d f = json_string (fst f) @ [58, 32] @ pretty d (snd f)"

lemma property_read:
  assumes "reads_back d v"
  shows "json_run st (Want_key fs first) (property_text d (k, v) @ r) = json_run (In_object fs k # st) (Have (stored v)) r"
proof -
  have "json_key fs st (quote_units k @ 34 # 58 # 32 # pretty d v @ r) = Some (In_object fs k # st, Want_value, 32 # pretty d v @ r)"
    by (simp add: json_key_def json_string_read json_space_def)
  moreover have "json_run (In_object fs k # st) Want_value (32 # pretty d v @ r) = json_run (In_object fs k # st) (Have (stored v)) r"
    using assms by (simp add: reads_back_def json_space_def)
  ultimately show ?thesis
    by (simp add: property_text_def json_string_def json_step_def json_space_def)
qed

lemma properties_read:
  "fs \<noteq> [] \<Longrightarrow> \<forall>f\<in>set fs. reads_back d (snd f) \<Longrightarrow> distinct (map fst (acc @ fs)) \<Longrightarrow>
   json_run st (Want_key acc first) (join ([44] @ new_line d) (map (property_text d) fs) @ new_line e @ 125 # r) =
   json_run st (Have (JObj (acc @ map (\<lambda>(k, v). (k, stored v)) fs))) r"
proof (induction fs arbitrary: acc first)
  case (Cons f fs)
  obtain k v where f: "f = (k, v)" by (cases f)
  have v: "json_run st' (Want_key acc' b) (property_text d (k, v) @ s) = json_run (In_object acc' k # st') (Have (stored v)) s" for st' acc' b s
    using Cons.prems(2) f by (intro property_read) simp
  have new: "omap_set k (stored v) acc = acc @ [(k, stored v)]"
    using Cons.prems(3) f by (intro omap_set_new) auto
  show ?case
  proof (cases fs)
    case Nil
    then show ?thesis using f new by (simp add: v json_step_def json_after_def json_space_def)
  next
    case (Cons g gs)
    then have "json_run st (Want_key (acc @ [(k, stored v)]) False) (join ([44] @ new_line d) (map (property_text d) fs) @ new_line e @ 125 # r) =
        json_run st (Have (JObj ((acc @ [(k, stored v)]) @ map (\<lambda>(k, v). (k, stored v)) fs))) r"
      using Cons.IH [of "acc @ [(k, stored v)]" False] Cons.prems f by simp
    then show ?thesis using Cons f new by (simp add: v json_step_def json_after_def json_space_def)
  qed
qed simp

lemma value_read: "textual v \<Longrightarrow> reads_back d v"
proof (induction d v rule: pretty.induct)
  case (6 d vs)
  then have "\<forall>v\<in>set vs. reads_back (Suc d) v" by (cases "vs = []") (auto simp: list_all_iff)
  then show ?case
  proof (cases vs)
    case (Cons w ws)
    have "json_run (In_array [] # st) Want_first (join ([44] @ new_line (Suc d)) (map (pretty (Suc d)) vs) @ s) =
        json_run (In_array [] # st) Want_value (join ([44] @ new_line (Suc d)) (map (pretty (Suc d)) vs) @ s)" for st s
      using first_as_value [of w] 6(2) Cons by (cases ws) simp_all
    then show ?thesis
      using elements_read [of vs "Suc d" "[]"] \<open>\<forall>v\<in>set vs. reads_back (Suc d) v\<close> Cons
      by (simp add: reads_back_def json_step_def json_begin_def json_space_def)
  qed (simp add: reads_back_def json_step_def json_begin_def json_space_def)
next
  case (7 d fs)
  let ?fs = "filter (\<lambda>(k, v). v \<noteq> JUndef) fs"
  have texts: "map (\<lambda>(k, v). json_string k @ [58, 32] @ pretty (Suc d) v) ?fs = map (property_text (Suc d)) ?fs"
    by (auto simp: property_text_def)
  have each: "\<forall>f\<in>set ?fs. reads_back (Suc d) (snd f)" using 7 by (auto simp: list_all_iff)
  have "distinct (map fst ?fs)" using 7(2) by (simp add: distinct_map_filter)
  then show ?case
  proof (cases "?fs = []")
    case True
    then show ?thesis
      unfolding reads_back_def pretty.simps texts by (simp add: json_step_def json_begin_def json_space_def)
  next
    case False
    then show ?thesis
      using properties_read [OF False each, of "[]"] \<open>distinct (map fst ?fs)\<close>
      unfolding reads_back_def pretty.simps texts by (simp add: json_step_def json_begin_def json_space_def Let_def)
  qed
qed (auto simp: reads_back_def json_step_def json_begin_def json_space_def json_word_def starts_with_def js_eval json_string_def json_string_read)

lemma json_parse_pretty: "textual v \<Longrightarrow> json_parse (pretty 0 v) = Some (stored v)"
  using value_read [of v 0] by (simp add: reads_back_def json_parse_def) (metis append_Nil2 json_run.simps(1) case_prod_conv json_mode.case(4) list.case(1))

end
