(* ===== verification/Channel_Routes.thy ===== *)
theory Channel_Routes
  imports Json_Print
begin

text \<open>
  Routes of a custom channel (\<open>features/channels/lib/advanced-custom.ts\<close>): templates, the defaults of
  converters, normalisation, validation, the replacement of routes and the text form.  A
  configuration is read from JSON without a check of its types, so that it is a value of unknown
  type here; calling \<open>trim\<close> on something that is no string throws.  The URL parser is a parameter:
  it gives the protocol and the host, or \<open>None\<close> when the constructor throws.
\<close>

text \<open>An operation throws, or reports what is wrong with a route.\<close>

datatype route_issue = Type_error | Issue "nat option" jsstr

type_synonym url_reader = "jsstr \<Rightarrow> (jsstr \<times> jsstr) option"

section \<open>Converters and paths\<close>

definition ADVANCED_CUSTOM_MODEL_LIST_PATH :: jsstr where
  "ADVANCED_CUSTOM_MODEL_LIST_PATH = js ''/v1/models''"

definition ADVANCED_CUSTOM_BALANCE_PATH :: jsstr where
  "ADVANCED_CUSTOM_BALANCE_PATH = js ''/v1/dashboard/billing/credit_grants''"

text \<open>The values of the options; their labels are texts for the user.\<close>

definition ADVANCED_CUSTOM_CONVERTER_OPTIONS :: "jsstr list" where
  "ADVANCED_CUSTOM_CONVERTER_OPTIONS = map js [''none'', ''anthropic_messages_to_openai_chat_completions'',
     ''openai_chat_completions_to_anthropic_messages'', ''openai_chat_completions_to_openai_responses'',
     ''openai_responses_to_openai_chat_completions'', ''openai_responses_to_gemini_generate_content'',
     ''gemini_generate_content_to_openai_chat_completions'', ''openai_chat_completions_to_gemini_generate_content'']"

text \<open>The incoming paths with their labels.\<close>

definition ADVANCED_CUSTOM_INCOMING_PATH_OPTIONS :: "(jsstr \<times> jsstr) list" where
  "ADVANCED_CUSTOM_INCOMING_PATH_OPTIONS = map (\<lambda>(v, l). (js v, js l))
     [(''/v1/chat/completions'', ''OpenAI Chat''), (''/v1/responses'', ''OpenAI Responses''),
      (''/v1/responses/compact'', ''OpenAI Responses Compact''), (''/v1/alpha/search'', ''Codex Alpha Search''),
      (''/v1/embeddings'', ''OpenAI Embeddings''), (''/v1/images/generations'', ''OpenAI Image Generations''),
      (''/v1/images/edits'', ''OpenAI Image Edits''), (''/v1/completions'', ''OpenAI Completions''),
      (''/v1/audio/speech'', ''OpenAI Audio Speech''), (''/v1/audio/transcriptions'', ''OpenAI Audio Transcriptions''),
      (''/v1/audio/translations'', ''OpenAI Audio Translations''), (''/v1/rerank'', ''Rerank''), (''/v1/realtime'', ''OpenAI Realtime''),
      (''/v1/messages'', ''Claude Messages''), (''/v1beta/models/{model}:generateContent'', ''Gemini Generate Content''),
      (''/v1beta/models/{model}:embedContent'', ''Gemini Embed Content''),
      (''/v1beta/models/{model}:batchEmbedContents'', ''Gemini Batch Embed Contents'')]"

definition ADVANCED_CUSTOM_ROUTE_SUMMARY_LABELS :: "(jsstr \<times> jsstr) list" where
  "ADVANCED_CUSTOM_ROUTE_SUMMARY_LABELS = [(js ''/v1/chat/completions'', js ''OpenAI Chat''),
     (ADVANCED_CUSTOM_MODEL_LIST_PATH, js ''OpenAI Models''), (ADVANCED_CUSTOM_BALANCE_PATH, js ''Balance Query'')]"

definition isConverterPathAllowed :: "jsstr \<Rightarrow> jsstr \<Rightarrow> bool" where
  "isConverterPathAllowed incomingPath converter =
     (if converter = js ''none'' then True
      else if incomingPath = js ''/v1/alpha/search'' then False
      else if converter = js ''anthropic_messages_to_openai_chat_completions'' then incomingPath = js ''/v1/messages''
      else if converter \<in> {js ''openai_chat_completions_to_anthropic_messages'', js ''openai_chat_completions_to_openai_responses'',
                js ''openai_chat_completions_to_gemini_generate_content''} then incomingPath = js ''/v1/chat/completions''
      else if converter = js ''openai_responses_to_openai_chat_completions'' then incomingPath = js ''/v1/responses''
      else if converter = js ''openai_responses_to_gemini_generate_content'' then incomingPath = js ''/v1/responses''
      else str_includes incomingPath (js '':generateContent'') \<or> str_includes incomingPath (js '':streamGenerateContent''))"

definition getAdvancedCustomIncomingPathOptions :: "jsstr \<Rightarrow> (jsstr \<times> jsstr) list" where
  "getAdvancedCustomIncomingPathOptions converter =
     filter (\<lambda>option. isConverterPathAllowed (fst option) converter) ADVANCED_CUSTOM_INCOMING_PATH_OPTIONS"

definition getDefaultAdvancedCustomIncomingPath :: "jsstr \<Rightarrow> jsstr" where
  "getDefaultAdvancedCustomIncomingPath converter =
     (case getAdvancedCustomIncomingPathOptions converter of (v, _) # _ \<Rightarrow> v | [] \<Rightarrow> js ''/v1/chat/completions'')"

definition getAdvancedCustomConverterOptions :: "jsstr \<Rightarrow> jsstr list" where
  "getAdvancedCustomConverterOptions incomingPath =
     filter (\<lambda>option. option = js ''none'' \<or> isConverterPathAllowed (trim incomingPath) option) ADVANCED_CUSTOM_CONVERTER_OPTIONS"

definition isAdvancedCustomPassThroughAllowed :: "jsstr \<Rightarrow> bool" where
  "isAdvancedCustomPassThroughAllowed converter \<longleftrightarrow> converter = js ''none''"

definition getAdvancedCustomIncomingPathLabel :: "jsstr \<Rightarrow> jsstr" where
  "getAdvancedCustomIncomingPathLabel v =
     (case find (\<lambda>option. fst option = v) ADVANCED_CUSTOM_INCOMING_PATH_OPTIONS of Some option \<Rightarrow> snd option | None \<Rightarrow> v)"

section \<open>Authentication and templates\<close>

definition auth_value :: "string \<Rightarrow> string \<Rightarrow> string \<Rightarrow> jsval" where
  "auth_value k n c = JObj [(js ''type'', JStr (js k)), (js ''name'', JStr (js n)), (js ''value'', JStr (js c))]"

definition bearerHeaderAuth :: jsval where
  "bearerHeaderAuth = auth_value ''header'' ''Authorization'' ''Bearer {api_key}''"

definition apiKeyHeaderAuth :: jsval where
  "apiKeyHeaderAuth = auth_value ''header'' ''x-api-key'' ''{api_key}''"

definition geminiQueryAuth :: jsval where
  "geminiQueryAuth = auth_value ''query'' ''key'' ''{api_key}''"

definition native_route :: "jsval \<Rightarrow> string \<Rightarrow> jsval" where
  "native_route auth path = JObj [(js ''incoming_path'', JStr (js path)), (js ''upstream_path'', JStr (js path)),
     (js ''converter'', JStr (js ''none'')), (js ''auth'', auth)]"

definition createOpenAINativeRoutes :: "jsval list" where
  "createOpenAINativeRoutes = map (native_route bearerHeaderAuth) [''/v1/chat/completions'', ''/v1/completions'', ''/v1/responses'',
     ''/v1/responses/compact'', ''/v1/embeddings'', ''/v1/images/generations'', ''/v1/images/edits'', ''/v1/audio/speech'',
     ''/v1/audio/transcriptions'', ''/v1/audio/translations'', ''/v1/realtime'']"

definition createClaudeNativeRoutes :: "jsval list" where
  "createClaudeNativeRoutes = [native_route apiKeyHeaderAuth ''/v1/messages'']"

definition createGeminiNativeRoutes :: "jsval list" where
  "createGeminiNativeRoutes = map (native_route geminiQueryAuth) [''/v1beta/models/{model}:generateContent'',
     ''/v1beta/models/{model}:embedContent'', ''/v1beta/models/{model}:batchEmbedContents'']"

definition createGatewayNativeRoutes :: "jsval list" where
  "createGatewayNativeRoutes = map (native_route bearerHeaderAuth) [''/v1/alpha/search'', ''/v1/rerank'']"

definition config_of :: "jsval list \<Rightarrow> jsval" where
  "config_of routes = JObj [(js ''advanced_routes'', JArr routes)]"

definition ADVANCED_CUSTOM_TEMPLATE_OPTIONS :: "(jsstr \<times> jsval) list" where
  "ADVANCED_CUSTOM_TEMPLATE_OPTIONS =
     [(js ''all_protocols'', config_of (createOpenAINativeRoutes @ createClaudeNativeRoutes @ createGeminiNativeRoutes @ createGatewayNativeRoutes)),
      (js ''openai_only'', config_of createOpenAINativeRoutes), (js ''claude_only'', config_of createClaudeNativeRoutes),
      (js ''gemini_only'', config_of createGeminiNativeRoutes)]"

definition getAdvancedCustomTemplateConfig :: "jsstr \<Rightarrow> jsval" where
  "getAdvancedCustomTemplateConfig templateKey =
     (case find (\<lambda>option. fst option = templateKey) ADVANCED_CUSTOM_TEMPLATE_OPTIONS of
        Some option \<Rightarrow> snd option
      | None \<Rightarrow> snd (hd ADVANCED_CUSTOM_TEMPLATE_OPTIONS))"

definition getAdvancedCustomNativeAuth :: "jsstr \<Rightarrow> jsval" where
  "getAdvancedCustomNativeAuth incomingPath =
     (if incomingPath = js ''/v1/messages'' then apiKeyHeaderAuth
      else if list_ex (\<lambda>p. str_includes incomingPath (js p)) ['':generateContent'', '':streamGenerateContent'', '':embedContent'', '':batchEmbedContents'']
      then geminiQueryAuth
      else bearerHeaderAuth)"

definition getAdvancedCustomConverterDefaults :: "jsstr \<Rightarrow> jsstr \<Rightarrow> jsstr \<times> jsval" where
  "getAdvancedCustomConverterDefaults converter incomingPath =
     (let path = (if trim incomingPath \<noteq> [] then trim incomingPath else getDefaultAdvancedCustomIncomingPath converter)
      in if converter = js ''none'' then (path, getAdvancedCustomNativeAuth path)
         else if converter \<in> {js ''anthropic_messages_to_openai_chat_completions'', js ''gemini_generate_content_to_openai_chat_completions'',
                   js ''openai_responses_to_openai_chat_completions''} then (js ''/v1/chat/completions'', bearerHeaderAuth)
         else if converter = js ''openai_chat_completions_to_openai_responses'' then (js ''/v1/responses'', bearerHeaderAuth)
         else if converter = js ''openai_chat_completions_to_anthropic_messages'' then (js ''/v1/messages'', apiKeyHeaderAuth)
         else if converter \<in> {js ''openai_chat_completions_to_gemini_generate_content'', js ''openai_responses_to_gemini_generate_content''}
         then (js ''/v1beta/models/{model}:generateContent'', geminiQueryAuth)
         else (if path \<noteq> [] then path else js ''/v1/chat/completions'', getAdvancedCustomNativeAuth path))"

definition getAdvancedCustomUpstreamPathPlaceholder :: "jsstr \<Rightarrow> jsstr \<Rightarrow> jsstr" where
  "getAdvancedCustomUpstreamPathPlaceholder converter incomingPath = fst (getAdvancedCustomConverterDefaults converter incomingPath)"

definition createAdvancedCustomRoute :: jsval where
  "createAdvancedCustomRoute = JObj [(js ''incoming_path'', JStr (js ''/v1/chat/completions'')),
     (js ''upstream_path'', JStr (js ''/v1/chat/completions'')), (js ''converter'', JStr (js ''none''))]"

definition createAdvancedCustomConfig :: jsval where
  "createAdvancedCustomConfig = config_of [createAdvancedCustomRoute]"

definition createAdvancedCustomManagementRoute :: "jsstr \<Rightarrow> jsval" where
  "createAdvancedCustomManagementRoute path = JObj [(js ''incoming_path'', JStr path), (js ''upstream_path'', JStr path),
     (js ''converter'', JStr (js ''none'')), (js ''models'', JArr [])]"

definition getAdvancedCustomAuthMode :: "jsval \<Rightarrow> jsval" where
  "getAdvancedCustomAuthMode route =
     (let kind = field (field route ''auth'') ''type'' in if truthy kind then kind else JStr (js ''default''))"

definition or_text :: "jsval \<Rightarrow> string \<Rightarrow> jsval" where
  "or_text v s = (if truthy v then v else JStr (js s))"

definition buildAdvancedCustomAuth :: "jsstr \<Rightarrow> jsval \<Rightarrow> jsval" where
  "buildAdvancedCustomAuth mode previousAuth =
     (if mode = js ''default'' then JUndef
      else if mode = js ''none'' then JObj [(js ''type'', JStr (js ''none''))]
      else if mode = js ''header'' then
        JObj [(js ''type'', JStr (js ''header'')), (js ''name'', or_text (field previousAuth ''name'') ''Authorization''),
          (js ''value'', or_text (field previousAuth ''value'') ''Bearer {api_key}'')]
      else
        JObj [(js ''type'', JStr (js ''query'')), (js ''name'', or_text (field previousAuth ''name'') ''api_key''),
          (js ''value'', or_text (field previousAuth ''value'') ''{api_key}'')])"

section \<open>Normalisation\<close>

text \<open>\<open>v.trim()\<close>, and \<open>v?.trim() || ''\<close>.\<close>

fun trim_call :: "jsval \<Rightarrow> route_issue + jsstr" where
  "trim_call (JStr s) = Inr (trim s)"
| "trim_call _ = Inl Type_error"

definition optional_trim :: "jsval \<Rightarrow> route_issue + jsstr" where
  "optional_trim v = (if nullish v then Inr [] else trim_call v)"

fun map_result :: "('a \<Rightarrow> 'e + 'b) \<Rightarrow> 'a list \<Rightarrow> 'e + 'b list" where
  "map_result f [] = Inr []"
| "map_result f (x # xs) = res_bind (f x) (\<lambda>y. res_bind (map_result f xs) (\<lambda>ys. Inr (y # ys)))"

definition getAdvancedCustomRouteUpstreamPath :: "jsval \<Rightarrow> route_issue + jsstr" where
  "getAdvancedCustomRouteUpstreamPath route = trim_call (or_text (field route ''upstream_path'') '''')"

definition normalizeAdvancedCustomRouteModels :: "jsval \<Rightarrow> route_issue + jsstr list" where
  "normalizeAdvancedCustomRouteModels models =
     (case models of
        JArr ms \<Rightarrow> res_bind (map_result trim_call ms) (\<lambda>ts. Inr (filter (\<lambda>t. t \<noteq> []) ts))
      | _ \<Rightarrow> Inr [])"

definition normalized_auth :: "jsval \<Rightarrow> jsval" where
  "normalized_auth auth = JObj [(js ''type'', field auth ''type''), (js ''name'', or_text (field auth ''name'') ''''),
     (js ''value'', or_text (field auth ''value'') '''')]"

definition normalizeAdvancedCustomRoute :: "jsval \<Rightarrow> route_issue + jsval" where
  "normalizeAdvancedCustomRoute route =
     (if nullish route then Inl Type_error
      else
        res_bind (getAdvancedCustomRouteUpstreamPath route) (\<lambda>upstream.
        res_bind (normalizeAdvancedCustomRouteModels (field route ''models'')) (\<lambda>models.
          Inr (JObj ([(js ''incoming_path'', or_text (field route ''incoming_path'') ''''), (js ''upstream_path'', JStr upstream),
                  (js ''converter'', or_text (field route ''converter'') ''none'')] @
            (if models \<noteq> [] then [(js ''models'', JArr (map JStr models))] else []) @
            (if field route ''pass_through_body_enabled'' = JBool True then [(js ''pass_through_body_enabled'', JBool True)] else []) @
            (if truthy (field route ''auth'') then [(js ''auth'', normalized_auth (field route ''auth''))] else []))))))"

text \<open>The routes of the normalised configuration.\<close>

definition normal_routes :: "jsval \<Rightarrow> route_issue + jsval list" where
  "normal_routes config =
     (case field config ''advanced_routes'' of JArr routes \<Rightarrow> map_result normalizeAdvancedCustomRoute routes | _ \<Rightarrow> Inr [])"

definition normalizeAdvancedCustomConfig :: "jsval \<Rightarrow> route_issue + jsval" where
  "normalizeAdvancedCustomConfig config = res_bind (normal_routes config) (\<lambda>routes. Inr (config_of routes))"

definition parseAdvancedCustomRouteModels :: "jsstr \<Rightarrow> jsstr list" where
  "parseAdvancedCustomRouteModels v = foldl set_add [] (filter (\<lambda>m. m \<noteq> []) (map trim (split_on 44 v)))"

section \<open>Replacement of routes\<close>

definition isAdvancedCustomManagementPath :: "jsstr \<Rightarrow> bool" where
  "isAdvancedCustomManagementPath path \<longleftrightarrow> path = ADVANCED_CUSTOM_MODEL_LIST_PATH \<or> path = ADVANCED_CUSTOM_BALANCE_PATH"

definition route_path :: "jsval \<Rightarrow> route_issue + jsstr" where
  "route_path route = optional_trim (field route ''incoming_path'')"

text \<open>The index of the first route with a path; the paths before it are trimmed too.\<close>

fun find_path :: "jsstr \<Rightarrow> jsval list \<Rightarrow> nat \<Rightarrow> route_issue + nat option" where
  "find_path path [] i = Inr None"
| "find_path path (r # rs) i = res_bind (route_path r) (\<lambda>q. if q = path then Inr (Some i) else find_path path rs (Suc i))"

definition getAdvancedCustomManagementRoute :: "jsval \<Rightarrow> jsstr \<Rightarrow> route_issue + jsval option" where
  "getAdvancedCustomManagementRoute config path =
     res_bind (normal_routes config) (\<lambda>routes.
     res_bind (find_path path routes 0) (\<lambda>index. Inr (map_option (\<lambda>i. routes ! i) index)))"

definition management_route :: "jsstr \<Rightarrow> jsval \<Rightarrow> jsval" where
  "management_route path route = JObj [(js ''incoming_path'', JStr path), (js ''upstream_path'', or_text (field route ''upstream_path'') ''''),
     (js ''converter'', JStr (js ''none'')), (js ''models'', JArr []), (js ''auth'', field route ''auth'')]"

definition replaceAdvancedCustomManagementRoute :: "jsval \<Rightarrow> jsstr \<Rightarrow> jsval option \<Rightarrow> route_issue + jsval" where
  "replaceAdvancedCustomManagementRoute config path route =
     res_bind (normal_routes config) (\<lambda>routes.
     res_bind (find_path path routes 0) (\<lambda>index.
       Inr (config_of
         (case route of
            None \<Rightarrow> (case index of Some i \<Rightarrow> take i routes @ drop (Suc i) routes | None \<Rightarrow> routes)
          | Some r \<Rightarrow>
              (case index of Some i \<Rightarrow> routes[i := management_route path r] | None \<Rightarrow> routes @ [management_route path r])))))"

text \<open>The management routes before the first other route, and those after it.\<close>

fun split_management :: "jsval list \<Rightarrow> route_issue + (jsval list \<times> jsval list)" where
  "split_management [] = Inr ([], [])"
| "split_management (r # rs) =
     res_bind (route_path r) (\<lambda>q.
     res_bind (split_management rs) (\<lambda>(before, after).
       if isAdvancedCustomManagementPath q then Inr (r # before, after) else Inr ([], before @ after)))"

definition replaceAdvancedCustomForwardingRoutes :: "jsval \<Rightarrow> jsval list \<Rightarrow> route_issue + jsval" where
  "replaceAdvancedCustomForwardingRoutes config forwardingRoutes =
     res_bind (normal_routes config) (\<lambda>routes.
     res_bind (split_management routes) (\<lambda>(before, after). Inr (config_of (before @ forwardingRoutes @ after))))"

section \<open>Validation\<close>

definition isFullHttpURLOrAbsolutePath :: "url_reader \<Rightarrow> jsstr \<Rightarrow> bool" where
  "isFullHttpURLOrAbsolutePath url v =
     (if starts_with v (js ''/'') then \<not> starts_with v (js ''//'')
      else case url v of None \<Rightarrow> False | Some (protocol, hst) \<Rightarrow> hst \<noteq> [] \<and> (protocol = js ''http:'' \<or> protocol = js ''https:''))"

definition isAdvancedCustomConverter :: "jsstr \<Rightarrow> bool" where
  "isAdvancedCustomConverter v \<longleftrightarrow> v \<in> set ADVANCED_CUSTOM_CONVERTER_OPTIONS"

definition validateRouteAuth :: "jsval \<Rightarrow> route_issue + jsstr option" where
  "validateRouteAuth auth =
     (if \<not> truthy auth then Inr None
      else if field auth ''type'' = JStr (js ''none'') then Inr None
      else if field auth ''type'' \<noteq> JStr (js ''header'') \<and> field auth ''type'' \<noteq> JStr (js ''query'') then Inr (Some (js ''Auth type is invalid''))
      else
        res_bind (optional_trim (field auth ''name'')) (\<lambda>n.
          if n = [] then Inr (Some (js ''Auth name is required''))
          else
            res_bind (optional_trim (field auth ''value'')) (\<lambda>c.
              Inr (if c = [] then Some (js ''Auth value is required'') else None))))"

definition is_regex_rule :: "jsstr \<Rightarrow> bool" where
  "is_regex_rule modelRule \<longleftrightarrow> starts_with modelRule (js ''re:'')"

definition getAdvancedCustomRegexModelPattern :: "jsstr \<Rightarrow> jsstr" where
  "getAdvancedCustomRegexModelPattern modelRule = drop 3 modelRule"

text \<open>What is known of a path: the route without model rules, and the rules with their routes.\<close>

record path_rules =
  pr_catchAll :: "nat option"
  pr_models :: "(jsstr \<times> nat) list"

record route_scan =
  sc_paths :: "(jsstr \<times> path_rules) list"
  sc_modelList :: "nat option"
  sc_balance :: "nat option"

text \<open>The loop over the rules of a route.\<close>

fun check_models :: "nat \<Rightarrow> jsstr list \<Rightarrow> jsstr list \<Rightarrow> path_rules \<Rightarrow> route_issue + path_rules" where
  "check_models index seen [] st = Inr st"
| "check_models index seen (m # ms) st =
     (if is_regex_rule m \<and> getAdvancedCustomRegexModelPattern m = [] then Inl (Issue (Some index) (js ''Model regex cannot be empty''))
      else if m \<in> set seen then Inl (Issue (Some index) (js ''Duplicate model in route models''))
      else if map_of (pr_models st) m \<noteq> None then Inl (Issue (Some index) (js ''Route models must be unique for the same incoming path''))
      else check_models index (m # seen) ms (st\<lparr>pr_models := omap_set m index (pr_models st)\<rparr>))"

definition validateAdvancedCustomRouteModels ::
  "nat \<Rightarrow> jsstr \<Rightarrow> jsstr list \<Rightarrow> (jsstr \<times> path_rules) list \<Rightarrow> route_issue + (jsstr \<times> path_rules) list" where
  "validateAdvancedCustomRouteModels index incomingPath models paths =
     (let st = (case map_of paths incomingPath of Some s \<Rightarrow> s | None \<Rightarrow> \<lparr>pr_catchAll = None, pr_models = []\<rparr>)
      in if models = [] then
           (if pr_catchAll st \<noteq> None
            then Inl (Issue (Some index) (js ''Only one catch-all route is allowed for the same incoming path''))
            else Inr (omap_set incomingPath (st\<lparr>pr_catchAll := Some index\<rparr>) paths))
         else if pr_catchAll st \<noteq> None
         then Inl (Issue (Some index) (js ''Catch-all route must be last for the same incoming path''))
         else res_bind (check_models index [] models st) (\<lambda>st'. Inr (omap_set incomingPath st' paths)))"

definition management_label :: "jsstr \<Rightarrow> jsstr" where
  "management_label path = (if path = ADVANCED_CUSTOM_MODEL_LIST_PATH then js ''OpenAI Models'' else js ''Balance Query'')"

text \<open>The checks of a management route.\<close>

definition check_management :: "nat \<Rightarrow> jsstr \<Rightarrow> jsstr \<Rightarrow> jsval \<Rightarrow> jsstr list \<Rightarrow> bool \<Rightarrow> route_scan \<Rightarrow> route_issue + route_scan" where
  "check_management index path upstream converter models pass scan =
     (let listed = (path = ADVANCED_CUSTOM_MODEL_LIST_PATH); label = management_label path
      in if (if listed then sc_modelList scan else sc_balance scan) \<noteq> None
         then Inl (Issue (Some index) (js ''Only one '' @ label @ js '' route is allowed''))
         else if models \<noteq> [] then Inl (Issue (Some index) (label @ js '' route does not support client model rules''))
         else if converter \<noteq> JStr (js ''none'') then Inl (Issue (Some index) (label @ js '' route must use native forwarding''))
         else if str_includes upstream (js ''{model}'') then Inl (Issue (Some index) (label @ js '' upstream path must not contain {model}''))
         else if pass then Inl (Issue (Some index) (label @ js '' route does not support pass-through''))
         else Inr (if listed then scan\<lparr>sc_modelList := Some index\<rparr> else scan\<lparr>sc_balance := Some index\<rparr>))"

definition check_route :: "url_reader \<Rightarrow> nat \<Rightarrow> jsval \<Rightarrow> route_scan \<Rightarrow> route_issue + route_scan" where
  "check_route url index route scan =
     res_bind (route_path route) (\<lambda>path.
     res_bind (getAdvancedCustomRouteUpstreamPath route) (\<lambda>upstream.
     res_bind (normalizeAdvancedCustomRouteModels (field route ''models'')) (\<lambda>models.
       let converter = or_text (field route ''converter'') ''none'';
           pass = truthy (field route ''pass_through_body_enabled'')
       in if path = [] then Inl (Issue (Some index) (js ''Incoming path is required''))
          else if \<not> starts_with path (js ''/'') then Inl (Issue (Some index) (js ''Incoming path must start with /''))
          else if str_includes path (js ''?'') then Inl (Issue (Some index) (js ''Incoming path must not include query''))
          else
            res_bind (if isAdvancedCustomManagementPath path then check_management index path upstream converter models pass scan else Inr scan)
              (\<lambda>scan'.
            res_bind (validateAdvancedCustomRouteModels index path models (sc_paths scan')) (\<lambda>paths.
              if upstream = [] then Inl (Issue (Some index) (js ''Upstream path is required''))
              else if \<not> isFullHttpURLOrAbsolutePath url upstream
              then Inl (Issue (Some index) (js ''Upstream path must be a full URL or a path starting with /''))
              else case converter of
                JStr conv \<Rightarrow>
                  if \<not> isAdvancedCustomConverter conv then Inl (Issue (Some index) (js ''Converter is not registered''))
                  else if \<not> isConverterPathAllowed path conv then Inl (Issue (Some index) (js ''Converter does not match incoming path''))
                  else if pass \<and> \<not> isAdvancedCustomPassThroughAllowed conv
                  then Inl (Issue (Some index) (js ''Pass-through requires native forwarding''))
                  else
                    res_bind (validateRouteAuth (field route ''auth'')) (\<lambda>problem.
                      case problem of Some e \<Rightarrow> Inl (Issue (Some index) e) | None \<Rightarrow> Inr (scan'\<lparr>sc_paths := paths\<rparr>))
              | _ \<Rightarrow> Inl (Issue (Some index) (js ''Converter is not registered'')))))))"

fun check_routes :: "url_reader \<Rightarrow> nat \<Rightarrow> jsval list \<Rightarrow> route_scan \<Rightarrow> route_issue + route_scan" where
  "check_routes url index [] scan = Inr scan"
| "check_routes url index (r # rs) scan = res_bind (check_route url index r scan) (check_routes url (Suc index) rs)"

text \<open>\<open>Inr ()\<close> when the configuration is accepted, the error otherwise.\<close>

definition validateAdvancedCustomConfig :: "url_reader \<Rightarrow> jsval \<Rightarrow> route_issue + unit" where
  "validateAdvancedCustomConfig url config =
     (if \<not> truthy config then Inl (Issue None (js ''Advanced custom configuration is required''))
      else
        res_bind (normal_routes config) (\<lambda>routes.
          if routes = [] then Inl (Issue None (js ''Advanced custom configuration requires at least one route''))
          else res_bind (check_routes url 0 routes \<lparr>sc_paths = [], sc_modelList = None, sc_balance = None\<rparr>) (\<lambda>_. Inr ())))"

section \<open>Texts\<close>

definition stringifyAdvancedCustomConfig :: "jsval \<Rightarrow> route_issue + jsstr" where
  "stringifyAdvancedCustomConfig config = res_bind (normalizeAdvancedCustomConfig config) (\<lambda>c. Inr (pretty 0 c))"

definition parseAdvancedCustomConfig :: "jsstr option \<Rightarrow> jsval option" where
  "parseAdvancedCustomConfig v =
     (case v of
        None \<Rightarrow> None
      | Some s \<Rightarrow>
          if trim s = [] then None
          else case json_parse s of
                 None \<Rightarrow> None
               | Some q \<Rightarrow>
                   if \<not> plain_object q then None
                   else case normalizeAdvancedCustomConfig q of Inl _ \<Rightarrow> None | Inr c \<Rightarrow> Some c)"

section \<open>Summaries\<close>

definition hasValidAdvancedCustomModelListRoute :: "url_reader \<Rightarrow> jsval \<Rightarrow> route_issue + bool" where
  "hasValidAdvancedCustomModelListRoute url config =
     (if \<not> truthy config then Inr False
      else
        case validateAdvancedCustomConfig url config of
          Inl Type_error \<Rightarrow> Inl Type_error
        | Inl (Issue i t) \<Rightarrow> Inr False
        | Inr _ \<Rightarrow>
            res_bind (normal_routes config) (\<lambda>routes.
            res_bind (find_path ADVANCED_CUSTOM_MODEL_LIST_PATH routes 0) (\<lambda>index. Inr (index \<noteq> None))))"

definition advancedCustomConfigUsesRelativeUpstreamPath :: "jsval \<Rightarrow> route_issue + bool" where
  "advancedCustomConfigUsesRelativeUpstreamPath config =
     (if \<not> truthy config then Inr False
      else
        res_bind (normal_routes config) (\<lambda>routes.
        res_bind (map_result getAdvancedCustomRouteUpstreamPath routes) (\<lambda>paths. Inr (list_ex (\<lambda>p. starts_with p (js ''/'')) paths))))"

definition getAdvancedCustomRouteSummaryLabel :: "jsval \<Rightarrow> route_issue + jsstr option" where
  "getAdvancedCustomRouteSummaryLabel route =
     res_bind (route_path route) (\<lambda>path.
       Inr (if path = [] then None
            else Some (case map_of ADVANCED_CUSTOM_ROUTE_SUMMARY_LABELS path of
                         Some l \<Rightarrow> l
                       | None \<Rightarrow> getAdvancedCustomIncomingPathLabel path)))"

definition getAdvancedCustomStats :: "url_reader \<Rightarrow> jsstr option \<Rightarrow> route_issue + (nat \<times> bool \<times> jsstr list)" where
  "getAdvancedCustomStats url v =
     (case parseAdvancedCustomConfig v of
        None \<Rightarrow> Inr (0, False, [])
      | Some config \<Rightarrow>
          res_bind (normal_routes config) (\<lambda>routes.
          res_bind (map_result getAdvancedCustomRouteSummaryLabel routes) (\<lambda>labels.
            case validateAdvancedCustomConfig url (config_of routes) of
              Inl Type_error \<Rightarrow> Inl Type_error
            | Inl (Issue i t) \<Rightarrow> Inr (length routes, False, foldl set_add [] (List.map_filter id labels))
            | Inr _ \<Rightarrow> Inr (length routes, True, foldl set_add [] (List.map_filter id labels)))))"

end
