(* ===== verification/Channel_Routes_Properties.thy ===== *)
theory Channel_Routes_Properties
  imports Channel_Routes
begin

text \<open>
  What the routes of a custom channel promise: the scan that validates them accepts exactly the
  lists of sound routes whose model rules exclude each other, and a configuration is read back
  from the text it is stored as.
\<close>

section \<open>What a valid list of routes is\<close>

text \<open>A route by itself, with its path and its model rules.\<close>

definition route_sound :: "url_reader \<Rightarrow> jsval \<Rightarrow> jsstr \<Rightarrow> jsstr list \<Rightarrow> bool" where
  "route_sound url r path models \<longleftrightarrow>
     route_path r = Inr path \<and> path \<noteq> [] \<and> starts_with path (js ''/'') \<and> \<not> str_includes path (js ''?'') \<and>
     normalizeAdvancedCustomRouteModels (field r ''models'') = Inr models \<and> distinct models \<and> js ''re:'' \<notin> set models \<and>
     (\<exists>upstream conv. getAdvancedCustomRouteUpstreamPath r = Inr upstream \<and> upstream \<noteq> [] \<and> isFullHttpURLOrAbsolutePath url upstream \<and>
        or_text (field r ''converter'') ''none'' = JStr conv \<and> isAdvancedCustomConverter conv \<and> isConverterPathAllowed path conv \<and>
        (truthy (field r ''pass_through_body_enabled'') \<longrightarrow> conv = js ''none'') \<and>
        (isAdvancedCustomManagementPath path \<longrightarrow>
           models = [] \<and> conv = js ''none'' \<and> \<not> str_includes upstream (js ''{model}'') \<and> \<not> truthy (field r ''pass_through_body_enabled''))) \<and>
     validateRouteAuth (field r ''auth'') = Inr None"

text \<open>A list of paths with their rules: of two routes with one path, the earlier has rules, and they
  have no rule in common.\<close>

definition rules_exclusive :: "(jsstr \<times> jsstr list) list \<Rightarrow> bool" where
  "rules_exclusive ps \<longleftrightarrow>
     (\<forall>i j. i < j \<and> j < length ps \<and> fst (ps ! i) = fst (ps ! j) \<longrightarrow> snd (ps ! i) \<noteq> [] \<and> set (snd (ps ! i)) \<inter> set (snd (ps ! j)) = {})"

definition fits_after :: "(jsstr \<times> jsstr list) list \<Rightarrow> jsstr \<times> jsstr list \<Rightarrow> bool" where
  "fits_after past q \<longleftrightarrow> (\<forall>x\<in>set past. fst x = fst q \<longrightarrow> snd x \<noteq> [] \<and> set (snd x) \<inter> set (snd q) = {})"

fun fitting :: "(jsstr \<times> jsstr list) list \<Rightarrow> (jsstr \<times> jsstr list) list \<Rightarrow> bool" where
  "fitting past [] = True"
| "fitting past (q # qs) = (fits_after past q \<and> fitting (past @ [q]) qs)"

lemma fitting_iff: "fitting past qs \<longleftrightarrow> (\<forall>j < length qs. fits_after (past @ take j qs) (qs ! j))"
proof (induction qs arbitrary: past)
  case (Cons q qs)
  show ?case unfolding fitting.simps Cons.IH by (auto simp: less_Suc_eq_0_disj nth_Cons split: nat.splits)
qed simp

lemma exclusive_fitting: "rules_exclusive qs \<longleftrightarrow> fitting [] qs"
proof -
  have "fits_after (take j qs) (qs ! j) \<longleftrightarrow>
      (\<forall>i < j. fst (qs ! i) = fst (qs ! j) \<longrightarrow> snd (qs ! i) \<noteq> [] \<and> set (snd (qs ! i)) \<inter> set (snd (qs ! j)) = {})"
    if "j < length qs" for j
    using that by (simp add: fits_after_def all_set_conv_all_nth min_absorb2)
  then show ?thesis by (auto simp: rules_exclusive_def fitting_iff)
qed

section \<open>The scan\<close>

definition rules_at :: "route_scan \<Rightarrow> jsstr \<Rightarrow> path_rules" where
  "rules_at scan p = (case map_of (sc_paths scan) p of Some s \<Rightarrow> s | None \<Rightarrow> \<lparr>pr_catchAll = None, pr_models = []\<rparr>)"

definition known :: "path_rules \<Rightarrow> jsstr set" where
  "known st = fst ` set (pr_models st)"

lemma known_simps [simp]:
  "map_of (pr_models st) m = None \<longleftrightarrow> m \<notin> known st" "known (st\<lparr>pr_models := omap_set m i ms\<rparr>) = insert m (fst ` set ms)"
  "known (st\<lparr>pr_catchAll := c\<rparr>) = known st" "fst ` set (pr_models st) = known st"
  by (simp_all add: known_def map_of_eq_None_iff set_keys_omap_set)

text \<open>The state of the scan says which paths and rules it has seen.\<close>

definition scan_ok :: "route_scan \<Rightarrow> (jsstr \<times> jsstr list) list \<Rightarrow> bool" where
  "scan_ok scan past \<longleftrightarrow>
     (\<forall>p. (pr_catchAll (rules_at scan p) \<noteq> None \<longleftrightarrow> (p, []) \<in> set past) \<and>
          known (rules_at scan p) = \<Union> (set ` {m. (p, m) \<in> set past})) \<and>
     (sc_modelList scan \<noteq> None \<longleftrightarrow> (ADVANCED_CUSTOM_MODEL_LIST_PATH, []) \<in> set past) \<and>
     (sc_balance scan \<noteq> None \<longleftrightarrow> (ADVANCED_CUSTOM_BALANCE_PATH, []) \<in> set past) \<and>
     (\<forall>(p, m) \<in> set past. isAdvancedCustomManagementPath p \<longrightarrow> m = [])"

lemma empty_regex: "is_regex_rule m \<and> getAdvancedCustomRegexModelPattern m = [] \<longleftrightarrow> m = js ''re:''"
proof -
  have "length m \<le> 3 \<Longrightarrow> take 3 m = m" by simp
  then show ?thesis
    by (auto simp: is_regex_rule_def getAdvancedCustomRegexModelPattern_def starts_with_def)
qed

lemma models_checked:
  "check_models i seen ms st = Inr st' \<Longrightarrow>
   distinct ms \<and> js ''re:'' \<notin> set ms \<and> set ms \<inter> set seen = {} \<and> set ms \<inter> known st = {} \<and>
   pr_catchAll st' = pr_catchAll st \<and> known st' = known st \<union> set ms"
  by (induction i seen ms st rule: check_models.induct) (auto simp: empty_regex split: if_splits)

lemma models_accepted:
  "distinct ms \<Longrightarrow> js ''re:'' \<notin> set ms \<Longrightarrow> set ms \<inter> set seen = {} \<Longrightarrow> set ms \<inter> known st = {} \<Longrightarrow>
   \<exists>st'. check_models i seen ms st = Inr st'"
proof (induction i seen ms st rule: check_models.induct)
  case (2 i seen m ms st)
  let ?st = "st\<lparr>pr_models := omap_set m i (pr_models st)\<rparr>"
  have c: "\<not> (is_regex_rule m \<and> getAdvancedCustomRegexModelPattern m = [])" "m \<notin> set seen" "\<not> map_of (pr_models st) m \<noteq> None"
    using 2 by (auto simp: empty_regex)
  moreover have "\<exists>st'. check_models i (m # seen) ms ?st = Inr st'"
    using 2(2-5) by (intro 2(1) [OF c]) auto
  ultimately show ?case by auto
qed simp

lemma rules_at_set [simp]:
  "rules_at (scan\<lparr>sc_paths := omap_set p s (sc_paths scan)\<rparr>) q = (if q = p then s else rules_at scan q)"
  by (simp add: rules_at_def)

lemma rules_at_indices [simp]:
  "rules_at (scan\<lparr>sc_modelList := x\<rparr>) q = rules_at scan q" "rules_at (scan\<lparr>sc_balance := x\<rparr>) q = rules_at scan q"
  by (simp_all add: rules_at_def)

lemma paths_checked:
  assumes "validateAdvancedCustomRouteModels i p ms (sc_paths scan) = Inr paths"
  shows "\<exists>s. paths = omap_set p s (sc_paths scan) \<and> pr_catchAll (rules_at scan p) = None \<and>
    pr_catchAll s = (if ms = [] then Some i else None) \<and>
    known s = known (rules_at scan p) \<union> set ms \<and>
    distinct ms \<and> js ''re:'' \<notin> set ms \<and> set ms \<inter> known (rules_at scan p) = {}"
proof (cases "ms = []")
  case True
  then show ?thesis
    using assms by (auto simp: validateAdvancedCustomRouteModels_def rules_at_def [symmetric] Let_def split: if_splits)
next
  case False
  then obtain s where "check_models i [] ms (rules_at scan p) = Inr s" "paths = omap_set p s (sc_paths scan)"
      "pr_catchAll (rules_at scan p) = None"
    using assms by (auto simp: validateAdvancedCustomRouteModels_def rules_at_def [symmetric] Let_def res_bind_eq_Inr split: if_splits)
  then show ?thesis using models_checked [of i "[]" ms "rules_at scan p" s] False by auto
qed

lemma paths_accepted:
  assumes "pr_catchAll (rules_at scan p) = None" "distinct ms" "js ''re:'' \<notin> set ms" "set ms \<inter> known (rules_at scan p) = {}"
  shows "\<exists>paths. validateAdvancedCustomRouteModels i p ms (sc_paths scan) = Inr paths"
  using assms models_accepted [of ms "[]" "rules_at scan p" i]
  by (auto simp: validateAdvancedCustomRouteModels_def rules_at_def [symmetric] Let_def res_bind_eq_Inr)

text \<open>A path fits when neither a catch-all route nor a common rule was seen.\<close>

lemma fits_rules:
  assumes "scan_ok scan past"
  shows "fits_after past (p, ms) \<longleftrightarrow>
    pr_catchAll (rules_at scan p) = None \<and> set ms \<inter> known (rules_at scan p) = {}"
proof -
  have "pr_catchAll (rules_at scan p) = None \<longleftrightarrow> (p, []) \<notin> set past"
      "known (rules_at scan p) = \<Union> (set ` {m. (p, m) \<in> set past})"
    using assms unfolding scan_ok_def by blast+
  then show ?thesis by (fastforce simp: fits_after_def)
qed

lemma scan_extended:
  assumes "scan_ok scan past" "rules_at scan' = (rules_at scan)(p := s)" "pr_catchAll s \<noteq> None \<longleftrightarrow> ms = []"
    "pr_catchAll (rules_at scan p) = None"
    "known s = known (rules_at scan p) \<union> set ms"
    "sc_modelList scan' \<noteq> None \<longleftrightarrow> sc_modelList scan \<noteq> None \<or> p = ADVANCED_CUSTOM_MODEL_LIST_PATH"
    "sc_balance scan' \<noteq> None \<longleftrightarrow> sc_balance scan \<noteq> None \<or> p = ADVANCED_CUSTOM_BALANCE_PATH"
    "isAdvancedCustomManagementPath p \<Longrightarrow> ms = []"
  shows "scan_ok scan' (past @ [(p, ms)])"
proof -
  have rules: "pr_catchAll (rules_at scan q) \<noteq> None \<longleftrightarrow> (q, []) \<in> set past"
      "known (rules_at scan q) = \<Union> (set ` {m. (q, m) \<in> set past})" for q
    using assms(1) unfolding scan_ok_def by blast+
  have "pr_catchAll (rules_at scan' q) \<noteq> None \<longleftrightarrow> (q, []) \<in> set (past @ [(p, ms)])" for q
    using rules(1) [of q] assms(2-4) by auto
  moreover have "known (rules_at scan' q) = \<Union> (set ` {m. (q, m) \<in> set (past @ [(p, ms)])})" for q
    using rules(2) [of q] assms(2,5) by auto
  moreover have "sc_modelList scan' \<noteq> None \<longleftrightarrow> (ADVANCED_CUSTOM_MODEL_LIST_PATH, []) \<in> set (past @ [(p, ms)])"
      "sc_balance scan' \<noteq> None \<longleftrightarrow> (ADVANCED_CUSTOM_BALANCE_PATH, []) \<in> set (past @ [(p, ms)])"
    using assms(1,6,7,8) by (auto simp: scan_ok_def isAdvancedCustomManagementPath_def)
  moreover have "\<forall>(q, m) \<in> set (past @ [(p, ms)]). isAdvancedCustomManagementPath q \<longrightarrow> m = []"
    using assms(1,8) by (auto simp: scan_ok_def)
  ultimately show ?thesis unfolding scan_ok_def by blast
qed

lemma management_checked:
  "check_management i p up conv ms pass scan = Inr scan' \<longleftrightarrow>
     (if p = ADVANCED_CUSTOM_MODEL_LIST_PATH then sc_modelList scan else sc_balance scan) = None \<and> ms = [] \<and>
     conv = JStr (js ''none'') \<and> \<not> str_includes up (js ''{model}'') \<and> \<not> pass \<and>
     scan' = (if p = ADVANCED_CUSTOM_MODEL_LIST_PATH then scan\<lparr>sc_modelList := Some i\<rparr> else scan\<lparr>sc_balance := Some i\<rparr>)"
  by (auto simp: check_management_def Let_def)

text \<open>A step of the scan, with the checks that do not depend on the state gathered in \<open>route_sound\<close>.\<close>

definition state_free :: "url_reader \<Rightarrow> jsval \<Rightarrow> jsstr \<Rightarrow> jsstr \<Rightarrow> jsstr list \<Rightarrow> jsstr \<Rightarrow> bool" where
  "state_free url r p up ms conv \<longleftrightarrow>
     route_path r = Inr p \<and> getAdvancedCustomRouteUpstreamPath r = Inr up \<and>
     normalizeAdvancedCustomRouteModels (field r ''models'') = Inr ms \<and>
     p \<noteq> [] \<and> starts_with p (js ''/'') \<and> \<not> str_includes p (js ''?'') \<and> up \<noteq> [] \<and> isFullHttpURLOrAbsolutePath url up \<and>
     or_text (field r ''converter'') ''none'' = JStr conv \<and> isAdvancedCustomConverter conv \<and> isConverterPathAllowed p conv \<and>
     (truthy (field r ''pass_through_body_enabled'') \<longrightarrow> conv = js ''none'') \<and> validateRouteAuth (field r ''auth'') = Inr None"

lemma route_checked:
  assumes "check_route url i r scan = Inr scan''"
  obtains p up ms conv scan' paths where "state_free url r p up ms conv"
    "(if isAdvancedCustomManagementPath p
      then check_management i p up (JStr conv) ms (truthy (field r ''pass_through_body_enabled'')) scan else Inr scan) = Inr scan'"
    "validateAdvancedCustomRouteModels i p ms (sc_paths scan') = Inr paths" "scan'' = scan'\<lparr>sc_paths := paths\<rparr>"
proof -
  let ?conv = "or_text (field r ''converter'') ''none''" and ?pass = "truthy (field r ''pass_through_body_enabled'')"
  obtain p up ms where facts: "route_path r = Inr p" "getAdvancedCustomRouteUpstreamPath r = Inr up"
      "normalizeAdvancedCustomRouteModels (field r ''models'') = Inr ms"
    using assms unfolding check_route_def res_bind_eq_Inr by blast
  have p: "p \<noteq> []" "starts_with p (js ''/'')" "\<not> str_includes p (js ''?'')"
    using assms facts by (auto simp: check_route_def Let_def split: if_splits)
  obtain scan' paths where st: "(if isAdvancedCustomManagementPath p then check_management i p up ?conv ms ?pass scan else Inr scan) = Inr scan'"
      "validateAdvancedCustomRouteModels i p ms (sc_paths scan') = Inr paths"
    using assms facts p unfolding check_route_def Let_def by (simp add: res_bind_eq_Inr) blast
  obtain conv where conv: "?conv = JStr conv"
    using assms facts p st by (cases ?conv) (auto simp: check_route_def Let_def split: if_splits)
  have "state_free url r p up ms conv \<and> scan'' = scan'\<lparr>sc_paths := paths\<rparr>"
    using assms facts p st conv
    by (auto simp: state_free_def check_route_def Let_def res_bind_eq_Inr isAdvancedCustomPassThroughAllowed_def split: if_splits option.splits)
  then show thesis using that [OF _ st(1) [unfolded conv] st(2)] by simp
qed

lemma route_accepted:
  assumes "state_free url r p up ms conv"
    "(if isAdvancedCustomManagementPath p
      then check_management i p up (JStr conv) ms (truthy (field r ''pass_through_body_enabled'')) scan else Inr scan) = Inr scan'"
    "validateAdvancedCustomRouteModels i p ms (sc_paths scan') = Inr paths"
  shows "check_route url i r scan = Inr (scan'\<lparr>sc_paths := paths\<rparr>)"
  using assms by (auto simp: state_free_def check_route_def Let_def isAdvancedCustomPassThroughAllowed_def split: if_splits)

lemma scan_paths_rules: "rules_at (scan\<lparr>sc_paths := omap_set p s (sc_paths scan)\<rparr>) = (rules_at scan)(p := s)"
  by (simp add: fun_eq_iff)

lemma sound_iff:
  "route_sound url r p ms \<longleftrightarrow>
     (\<exists>up conv. state_free url r p up ms conv \<and> distinct ms \<and> js ''re:'' \<notin> set ms \<and>
        (isAdvancedCustomManagementPath p \<longrightarrow>
           ms = [] \<and> conv = js ''none'' \<and> \<not> str_includes up (js ''{model}'') \<and> \<not> truthy (field r ''pass_through_body_enabled'')))"
  by (auto simp: route_sound_def state_free_def)

text \<open>The entry for management routes is free exactly when the path was not seen.\<close>

lemma management_free:
  assumes "scan_ok scan past" "isAdvancedCustomManagementPath p" "fits_after past (p, ms)"
  shows "(if p = ADVANCED_CUSTOM_MODEL_LIST_PATH then sc_modelList scan else sc_balance scan) = None"
proof -
  have "(p, []) \<notin> set past" using assms(3) by (auto simp: fits_after_def)
  then show ?thesis using assms(1,2) by (auto simp: scan_ok_def isAdvancedCustomManagementPath_def)
qed

lemma scan_step_sound:
  assumes "scan_ok scan past" "check_route url i r scan = Inr scan''"
  obtains p ms where "route_sound url r p ms" "fits_after past (p, ms)" "scan_ok scan'' (past @ [(p, ms)])"
proof -
  obtain p up ms conv scan' paths where r: "state_free url r p up ms conv"
      "(if isAdvancedCustomManagementPath p
        then check_management i p up (JStr conv) ms (truthy (field r ''pass_through_body_enabled'')) scan else Inr scan) = Inr scan'"
      "validateAdvancedCustomRouteModels i p ms (sc_paths scan') = Inr paths" "scan'' = scan'\<lparr>sc_paths := paths\<rparr>"
    using assms(2) by (rule route_checked)
  have scan': "rules_at scan' = rules_at scan" "sc_modelList scan' \<noteq> None \<longleftrightarrow> sc_modelList scan \<noteq> None \<or> p = ADVANCED_CUSTOM_MODEL_LIST_PATH"
      "sc_balance scan' \<noteq> None \<longleftrightarrow> sc_balance scan \<noteq> None \<or> p = ADVANCED_CUSTOM_BALANCE_PATH"
    using r(2)
    by (auto simp: management_checked isAdvancedCustomManagementPath_def fun_eq_iff ADVANCED_CUSTOM_MODEL_LIST_PATH_def
        ADVANCED_CUSTOM_BALANCE_PATH_def split: if_splits)
  obtain s where s: "paths = omap_set p s (sc_paths scan')" "pr_catchAll (rules_at scan p) = None"
      "pr_catchAll s = (if ms = [] then Some i else None)" "known s = known (rules_at scan p) \<union> set ms" "distinct ms" "js ''re:'' \<notin> set ms"
      "set ms \<inter> known (rules_at scan p) = {}"
    using paths_checked [OF r(3)] scan'(1) by auto
  have management: "isAdvancedCustomManagementPath p \<Longrightarrow> ms = [] \<and> conv = js ''none'' \<and> \<not> str_includes up (js ''{model}'') \<and>
      \<not> truthy (field r ''pass_through_body_enabled'')" using r(2) by (simp add: management_checked)
  have "rules_at scan'' = (rules_at scan)(p := s)" using r(4) s(1) scan'(1) by (simp add: scan_paths_rules)
  moreover have "sc_modelList scan'' = sc_modelList scan'" "sc_balance scan'' = sc_balance scan'" using r(4) by simp_all
  ultimately have "scan_ok scan'' (past @ [(p, ms)])"
    using scan'(2,3) s(2-4) management by (intro scan_extended [OF assms(1)]) auto
  moreover have "route_sound url r p ms" using r(1) s(5,6) management by (auto simp: sound_iff)
  moreover have "fits_after past (p, ms)" using fits_rules [OF assms(1)] s(2,7) by simp
  ultimately show thesis using that by blast
qed

lemma scan_step_complete:
  assumes "scan_ok scan past" "route_sound url r p ms" "fits_after past (p, ms)"
  shows "\<exists>scan'. check_route url i r scan = Inr scan'"
proof -
  obtain up conv where r: "state_free url r p up ms conv" "distinct ms" "js ''re:'' \<notin> set ms"
      "isAdvancedCustomManagementPath p \<longrightarrow>
         ms = [] \<and> conv = js ''none'' \<and> \<not> str_includes up (js ''{model}'') \<and> \<not> truthy (field r ''pass_through_body_enabled'')"
    using assms(2) by (auto simp: sound_iff)
  obtain scan' where scan': "(if isAdvancedCustomManagementPath p
        then check_management i p up (JStr conv) ms (truthy (field r ''pass_through_body_enabled'')) scan else Inr scan) = Inr scan'"
      "rules_at scan' = rules_at scan"
    using r(4) management_free [OF assms(1) _ assms(3)] by (cases "isAdvancedCustomManagementPath p") (auto simp: management_checked fun_eq_iff)
  obtain paths where "validateAdvancedCustomRouteModels i p ms (sc_paths scan') = Inr paths"
    using paths_accepted [of scan' p ms i] r(2,3) fits_rules [OF assms(1)] assms(3) scan'(2) by auto
  then show ?thesis using route_accepted [OF r(1) scan'(1)] by blast
qed

lemma sound_unique: "route_sound url r p ms \<Longrightarrow> route_sound url r p' ms' \<Longrightarrow> p = p' \<and> ms = ms'"
  by (auto simp: route_sound_def)

lemma routes_checked:
  "scan_ok scan past \<Longrightarrow>
   (\<exists>scan'. check_routes url i rs scan = Inr scan') \<longleftrightarrow> (\<exists>qs. list_all2 (\<lambda>r (p, ms). route_sound url r p ms) rs qs \<and> fitting past qs)"
proof (induction rs arbitrary: i scan past)
  case (Cons r rs)
  show ?case
  proof
    assume "\<exists>scan'. check_routes url i (r # rs) scan = Inr scan'"
    then obtain scan1 scan2 where step: "check_route url i r scan = Inr scan1" "check_routes url (Suc i) rs scan1 = Inr scan2"
      by (auto simp: res_bind_eq_Inr)
    obtain p ms where q: "route_sound url r p ms" "fits_after past (p, ms)" "scan_ok scan1 (past @ [(p, ms)])"
      using Cons.prems step(1) by (rule scan_step_sound)
    obtain qs where "list_all2 (\<lambda>r (p, ms). route_sound url r p ms) rs qs" "fitting (past @ [(p, ms)]) qs"
      using Cons.IH [OF q(3), of "Suc i"] step(2) by auto
    then show "\<exists>qs. list_all2 (\<lambda>r (p, ms). route_sound url r p ms) (r # rs) qs \<and> fitting past qs"
      using q by (intro exI [of _ "(p, ms) # qs"]) simp
  next
    assume "\<exists>qs. list_all2 (\<lambda>r (p, ms). route_sound url r p ms) (r # rs) qs \<and> fitting past qs"
    then obtain p ms qs where q: "route_sound url r p ms" "fits_after past (p, ms)" "list_all2 (\<lambda>r (p, ms). route_sound url r p ms) rs qs"
        "fitting (past @ [(p, ms)]) qs"
      by (auto simp: list_all2_Cons1)
    obtain scan1 where step: "check_route url i r scan = Inr scan1" using scan_step_complete [OF Cons.prems q(1,2)] by blast
    have "scan_ok scan1 (past @ [(p, ms)])"
      using scan_step_sound [OF Cons.prems step] sound_unique [OF q(1)] by metis
    then obtain scan2 where "check_routes url (Suc i) rs scan1 = Inr scan2" using Cons.IH [of scan1 _ "Suc i"] q(3,4) by blast
    then show "\<exists>scan'. check_routes url i (r # rs) scan = Inr scan'" using step by simp
  qed
qed simp

text \<open>C17: The validation of a custom channel accepts exactly the sound configurations.  The scan goes
  through the routes once, with a table of the paths and rules it has seen; it accepts when every
  route is sound by itself (its paths, converter, pass-through and authentication fit) and the rules
  exclude each other: of two routes with one path the earlier has model rules, so that the route for
  all models is unique and last, and no rule occurs in both.\<close>

theorem validation_exact:
  assumes "truthy config" "normal_routes config = Inr routes"
  shows "validateAdvancedCustomConfig url config = Inr () \<longleftrightarrow>
    routes \<noteq> [] \<and> (\<exists>qs. list_all2 (\<lambda>r (p, ms). route_sound url r p ms) routes qs \<and> rules_exclusive qs)"
proof -
  let ?scan = "\<lparr>sc_paths = [], sc_modelList = None, sc_balance = None\<rparr>"
  have "scan_ok ?scan []" by (simp add: scan_ok_def rules_at_def known_def)
  then have "(\<exists>scan'. check_routes url 0 routes ?scan = Inr scan') \<longleftrightarrow>
      (\<exists>qs. list_all2 (\<lambda>r (p, ms). route_sound url r p ms) routes qs \<and> rules_exclusive qs)"
    unfolding exclusive_fitting by (rule routes_checked)
  then show ?thesis using assms by (auto simp: validateAdvancedCustomConfig_def res_bind_eq_Inr)
qed

section \<open>Texts\<close>

text \<open>The declared types, which no code checks for a configuration that was read from a text.\<close>

definition optional_text :: "jsval \<Rightarrow> bool" where
  "optional_text v \<longleftrightarrow> v = JUndef \<or> v = JNull \<or> is_str v"

definition typed_route :: "jsval \<Rightarrow> bool" where
  "typed_route r \<longleftrightarrow> optional_text (field r ''incoming_path'') \<and> optional_text (field r ''converter'') \<and>
     (truthy (field r ''auth'') \<longrightarrow> optional_text (field (field r ''auth'') ''type'') \<and> optional_text (field (field r ''auth'') ''name'') \<and>
        optional_text (field (field r ''auth'') ''value''))"

definition typed_config :: "jsval \<Rightarrow> bool" where
  "typed_config c \<longleftrightarrow> (case field c ''advanced_routes'' of JArr rs \<Rightarrow> list_all typed_route rs | _ \<Rightarrow> True)"

lemma or_text_typed: "optional_text v \<Longrightarrow> \<exists>s. or_text v d = JStr s \<and> or_text (JStr s) d = JStr s"
  by (cases v) (auto simp: optional_text_def or_text_def)

lemma map_result_Inr: "map_result f xs = Inr ys \<longleftrightarrow> list_all2 (\<lambda>x y. f x = Inr y) xs ys"
  by (induction xs arbitrary: ys) (auto simp: res_bind_eq_Inr list_all2_Cons1)

lemma models_normal:
  assumes "normalizeAdvancedCustomRouteModels v = Inr ms"
  shows "normalizeAdvancedCustomRouteModels (JArr (map JStr ms)) = Inr ms"
proof -
  have good: "m \<noteq> [] \<and> trim m = m" if "m \<in> set ms" for m
  proof -
    obtain xs ts where x: "v = JArr xs" "list_all2 (\<lambda>x t. trim_call x = Inr t) xs ts" "ms = filter (\<lambda>t. t \<noteq> []) ts"
      using assms \<open>m \<in> set ms\<close>
      by (auto simp: normalizeAdvancedCustomRouteModels_def res_bind_eq_Inr map_result_Inr split: jsval.splits)
    obtain x where "trim_call x = Inr m" using x(2,3) \<open>m \<in> set ms\<close> by (auto simp: list_all2_conv_all_nth in_set_conv_nth)
    then show ?thesis using x(3) \<open>m \<in> set ms\<close> by (cases x) auto
  qed
  then have "map_result trim_call (map JStr ms) = Inr ms" by (simp add: map_result_Inr list_all2_conv_all_nth)
  moreover have "filter (\<lambda>t. t \<noteq> []) ms = ms" using good by (simp add: filter_id_conv)
  ultimately show ?thesis by (simp add: normalizeAdvancedCustomRouteModels_def)
qed

lemma auth_normal:
  assumes "optional_text (field a ''type'')" "optional_text (field a ''name'')" "optional_text (field a ''value'')"
  shows "textual (normalized_auth a)" "normalized_auth (stored (normalized_auth a)) = normalized_auth a" "truthy (stored (normalized_auth a))"
proof -
  obtain n c where t: "or_text (field a ''name'') '''' = JStr n" "or_text (field a ''value'') '''' = JStr c"
    using or_text_typed assms(2,3) by blast
  show "textual (normalized_auth a)"
    using assms(1) t by (auto simp: normalized_auth_def optional_text_def is_str_iff)
  show "normalized_auth (stored (normalized_auth a)) = normalized_auth a"
    using assms(1) t by (auto simp: normalized_auth_def optional_text_def is_str_iff) (simp_all add: or_text_def)
  show "truthy (stored (normalized_auth a))" by (simp add: normalized_auth_def)
qed

lemma route_normal:
  assumes "normalizeAdvancedCustomRoute route = Inr r" "typed_route route"
  shows "textual r" "normalizeAdvancedCustomRoute (stored r) = Inr r"
proof -
  let ?pass = "field route ''pass_through_body_enabled'' = JBool True" and ?auth = "field route ''auth''"
  have typed: "optional_text (field route ''incoming_path'')" "optional_text (field route ''converter'')"
    using assms(2) by (simp_all add: typed_route_def)
  obtain i where i: "or_text (field route ''incoming_path'') '''' = JStr i" "or_text (JStr i) '''' = JStr i"
    using or_text_typed [OF typed(1), of "''''"] by blast
  obtain c where c: "or_text (field route ''converter'') ''none'' = JStr c" "or_text (JStr c) ''none'' = JStr c"
    using or_text_typed [OF typed(2), of "''none''"] by blast
  note t = i c
  obtain up ms where n: "getAdvancedCustomRouteUpstreamPath route = Inr up"
      "normalizeAdvancedCustomRouteModels (field route ''models'') = Inr ms"
    using assms(1) by (auto simp: normalizeAdvancedCustomRoute_def res_bind_eq_Inr split: if_splits)
  have r: "r = JObj ([(js ''incoming_path'', JStr i), (js ''upstream_path'', JStr up), (js ''converter'', JStr c)] @
      (if ms \<noteq> [] then [(js ''models'', JArr (map JStr ms))] else []) @
      (if ?pass then [(js ''pass_through_body_enabled'', JBool True)] else []) @
      (if truthy ?auth then [(js ''auth'', normalized_auth ?auth)] else []))"
    using assms(1) n t by (auto simp: normalizeAdvancedCustomRoute_def split: if_splits)
  have up: "trim_call (or_text (JStr up) '''') = Inr up"
    using n(1) by (cases "or_text (field route ''upstream_path'') ''''") (auto simp: getAdvancedCustomRouteUpstreamPath_def or_text_def)
  have typed_auth: "truthy ?auth \<Longrightarrow> optional_text (field ?auth ''type'')" "truthy ?auth \<Longrightarrow> optional_text (field ?auth ''name'')"
      "truthy ?auth \<Longrightarrow> optional_text (field ?auth ''value'')"
    using assms(2) by (simp_all add: typed_route_def)
  have auth1: "textual (normalized_auth ?auth)" if "truthy ?auth"
    by (rule auth_normal(1)) (rule typed_auth [OF that])+
  have auth2: "normalized_auth (stored (normalized_auth ?auth)) = normalized_auth ?auth" if "truthy ?auth"
    by (rule auth_normal(2)) (rule typed_auth [OF that])+
  have auth3: "truthy (stored (normalized_auth ?auth))" "normalized_auth ?auth \<noteq> JUndef" by (simp_all add: normalized_auth_def)
  note auth = auth1 auth2 auth3
  have ms: "normalizeAdvancedCustomRouteModels (JArr (map (stored \<circ> JStr) ms)) = Inr ms" "normalizeAdvancedCustomRouteModels JUndef = Inr []"
    using models_normal [OF n(2)] by (simp_all add: comp_def normalizeAdvancedCustomRouteModels_def)
  show "textual r" unfolding r using auth(1) by (auto simp: list_all_iff)
  show "normalizeAdvancedCustomRoute (stored r) = Inr r"
    unfolding r using up auth ms t
    by (cases "ms = []"; cases ?pass; cases "truthy ?auth")
       (simp_all add: normalizeAdvancedCustomRoute_def getAdvancedCustomRouteUpstreamPath_def nullish_def)
qed

text \<open>C26: What an editor stores can be opened again.  The text of a configuration of the declared
  types is read back, by the JSON reader and a second normalisation, as the normalised
  configuration, whatever characters its paths, models and credentials consist of.\<close>

theorem stored_routes_read_back:
  assumes "typed_config config" "stringifyAdvancedCustomConfig config = Inr stored_text"
  shows "\<exists>c. normalizeAdvancedCustomConfig config = Inr c \<and> parseAdvancedCustomConfig (Some stored_text) = Some c"
proof -
  obtain rs where n: "normal_routes config = Inr rs" "stored_text = pretty 0 (config_of rs)"
    using assms(2) by (auto simp: stringifyAdvancedCustomConfig_def normalizeAdvancedCustomConfig_def res_bind_eq_Inr)
  have each: "textual r \<and> normalizeAdvancedCustomRoute (stored r) = Inr r" if "r \<in> set rs" for r
  proof -
    obtain routes where "field config ''advanced_routes'' = JArr routes" "list_all2 (\<lambda>x y. normalizeAdvancedCustomRoute x = Inr y) routes rs"
      using n(1) \<open>r \<in> set rs\<close> by (cases "field config ''advanced_routes''") (auto simp: normal_routes_def map_result_Inr)
    moreover obtain k where k: "k < length rs" "r = rs ! k" using \<open>r \<in> set rs\<close> by (auto simp: in_set_conv_nth)
    ultimately have "routes ! k \<in> set routes" "normalizeAdvancedCustomRoute (routes ! k) = Inr r"
      by (auto simp: list_all2_conv_all_nth)
    then show ?thesis
      using \<open>field config ''advanced_routes'' = JArr routes\<close> assms(1) route_normal [of "routes ! k" r]
      by (simp add: typed_config_def list_all_iff)
  qed
  have "textual (config_of rs)" using each by (simp add: config_of_def list_all_iff)
  then have "json_parse stored_text = Some (stored (config_of rs))" unfolding n(2) by (rule json_parse_pretty)
  then have parsed: "json_parse stored_text = Some (config_of (map stored rs))" by (simp add: config_of_def)
  have "map_result normalizeAdvancedCustomRoute (map stored rs) = Inr rs" using each by (simp add: map_result_Inr list_all2_conv_all_nth)
  then have again: "normalizeAdvancedCustomConfig (config_of (map stored rs)) = Inr (config_of rs)"
    by (simp add: normalizeAdvancedCustomConfig_def normal_routes_def config_of_def)
  have "\<not> is_space 123" "123 \<in> set stored_text" using n(2) by (simp_all add: config_of_def is_space_def Let_def)
  then have "trim stored_text \<noteq> []" by (auto simp: trim_eq_Nil_iff)
  moreover have "plain_object (config_of (map stored rs))" by (simp add: plain_object_def config_of_def)
  ultimately show ?thesis
    using parsed again n(1) by (simp add: parseAdvancedCustomConfig_def normalizeAdvancedCustomConfig_def)
qed

section \<open>Templates and offers\<close>

text \<open>A configuration from a template, and one with a single offered route.\<close>

definition offered_route :: "jsstr \<Rightarrow> jsstr \<Rightarrow> jsval" where
  "offered_route converter path =
     (let d = getAdvancedCustomConverterDefaults converter path
      in JObj [(js ''incoming_path'', JStr path), (js ''upstream_path'', JStr (fst d)), (js ''converter'', JStr converter), (js ''auth'', snd d)])"

lemmas path_defs = ADVANCED_CUSTOM_MODEL_LIST_PATH_def ADVANCED_CUSTOM_BALANCE_PATH_def isAdvancedCustomManagementPath_def


definition plain_path :: "jsstr \<Rightarrow> bool" where
  "plain_path p \<longleftrightarrow> trim p = p \<and> starts_with p (js ''/'') \<and> \<not> starts_with p (js ''//'')"

definition native_auths :: "jsval list" where
  "native_auths = [bearerHeaderAuth, apiKeyHeaderAuth, geminiQueryAuth]"

lemma native_auths_ok:
  assumes "a \<in> set native_auths"
  shows "truthy a" "normalized_auth a = a" "validateRouteAuth a = Inr None" "a \<noteq> JUndef"
proof -
  have "trim (js ''Authorization'') \<noteq> []" "trim (js ''Bearer {api_key}'') \<noteq> []" "trim (js ''x-api-key'') \<noteq> []" "trim (js ''{api_key}'') \<noteq> []"
      "trim (js ''key'') \<noteq> []"
    by (simp_all add: trim_eq_Nil_iff is_space_def js_eval)
  then show "validateRouteAuth a = Inr None"
    using assms by (auto simp: native_auths_def bearerHeaderAuth_def apiKeyHeaderAuth_def geminiQueryAuth_def auth_value_def
        validateRouteAuth_def optional_trim_def nullish_def)
  show "truthy a" "normalized_auth a = a" "a \<noteq> JUndef"
    using assms by (auto simp: native_auths_def bearerHeaderAuth_def apiKeyHeaderAuth_def geminiQueryAuth_def auth_value_def
        normalized_auth_def or_text_def)
qed

lemma plain_route_valid:
  assumes "plain_path p" "\<not> str_includes p (js ''?'')" "\<not> isAdvancedCustomManagementPath p" "plain_path u" "a \<in> set native_auths"
    "isAdvancedCustomConverter conv" "isConverterPathAllowed p conv"
    and r: "r = JObj [(js ''incoming_path'', JStr p), (js ''upstream_path'', JStr u), (js ''converter'', JStr conv), (js ''auth'', a)]"
  shows "normalizeAdvancedCustomRoute r = Inr r" "route_sound url r p []"
proof -
  have ne: "p \<noteq> []" "u \<noteq> []" using assms(1,4) by (auto simp: plain_path_def starts_with_def)
  have conv: "conv \<noteq> []" using assms(6) by (auto simp: isAdvancedCustomConverter_def ADVANCED_CUSTOM_CONVERTER_OPTIONS_def)
  note auth = native_auths_ok [OF assms(5)]
  show "normalizeAdvancedCustomRoute r = Inr r"
    using assms(1,4) ne conv auth
    by (simp add: r normalizeAdvancedCustomRoute_def nullish_def getAdvancedCustomRouteUpstreamPath_def normalizeAdvancedCustomRouteModels_def
        or_text_def plain_path_def)
  have full: "isFullHttpURLOrAbsolutePath url u" using assms(4) by (simp add: plain_path_def isFullHttpURLOrAbsolutePath_def)
  show "route_sound url r p []"
    using assms ne conv auth full
    by (simp add: route_sound_def r route_path_def optional_trim_def nullish_def getAdvancedCustomRouteUpstreamPath_def
        normalizeAdvancedCustomRouteModels_def or_text_def plain_path_def)
qed

lemma single_route_valid:
  assumes "normalizeAdvancedCustomRoute r = Inr r" "route_sound url r p []"
  shows "validateAdvancedCustomConfig url (config_of [r]) = Inr ()"
proof -
  have routes: "normal_routes (config_of [r]) = Inr [r]" using assms(1) by (simp add: normal_routes_def config_of_def)
  let ?scan = "\<lparr>sc_paths = [], sc_modelList = None, sc_balance = None\<rparr>"
  have "\<exists>scan'. check_routes url 0 [r] ?scan = Inr scan'"
    using routes_checked [of ?scan "[]" url 0 "[r]"] assms(2)
    by (auto simp: scan_ok_def rules_at_def known_def fits_after_def list_all2_Cons1 intro!: exI [of _ "[(p, [])]"])
  then show ?thesis using routes by (auto simp: validateAdvancedCustomConfig_def config_of_def)
qed

lemma path_options_plain:
  "(p, l) \<in> set ADVANCED_CUSTOM_INCOMING_PATH_OPTIONS \<Longrightarrow>
   plain_path p \<and> \<not> str_includes p (js ''?'') \<and> \<not> isAdvancedCustomManagementPath p"
  unfolding ADVANCED_CUSTOM_INCOMING_PATH_OPTIONS_def
  by (auto simp: plain_path_def path_defs trim_def is_space_def starts_with_def js_eval)

lemma converter_defaults:
  assumes "plain_path path" "converter \<in> set ADVANCED_CUSTOM_CONVERTER_OPTIONS"
  shows "plain_path (fst (getAdvancedCustomConverterDefaults converter path))"
    "snd (getAdvancedCustomConverterDefaults converter path) \<in> set native_auths"
proof -
  have "trim path \<noteq> []" using assms(1) by (auto simp: plain_path_def starts_with_def)
  moreover have "plain_path (js ''/v1/chat/completions'')" "plain_path (js ''/v1/responses'')" "plain_path (js ''/v1/messages'')"
      "plain_path (js ''/v1beta/models/{model}:generateContent'')"
    by (simp_all add: plain_path_def trim_def is_space_def starts_with_def js_eval)
  ultimately show "plain_path (fst (getAdvancedCustomConverterDefaults converter path))"
      "snd (getAdvancedCustomConverterDefaults converter path) \<in> set native_auths"
    using assms
    by (auto simp: getAdvancedCustomConverterDefaults_def ADVANCED_CUSTOM_CONVERTER_OPTIONS_def Let_def native_auths_def plain_path_def
        getAdvancedCustomNativeAuth_def)
qed

text \<open>Every choice of converter and path that the editor offers, with the defaults it fills in, is
  accepted.\<close>

theorem offered_routes_valid:
  assumes "converter \<in> set ADVANCED_CUSTOM_CONVERTER_OPTIONS" "(path, l) \<in> set (getAdvancedCustomIncomingPathOptions converter)"
  shows "validateAdvancedCustomConfig url (config_of [offered_route converter path]) = Inr ()"
proof -
  have path: "plain_path path" "\<not> str_includes path (js ''?'')" "\<not> isAdvancedCustomManagementPath path" "isConverterPathAllowed path converter"
    using assms(2) path_options_plain by (auto simp: getAdvancedCustomIncomingPathOptions_def)
  have r: "offered_route converter path = JObj [(js ''incoming_path'', JStr path),
      (js ''upstream_path'', JStr (fst (getAdvancedCustomConverterDefaults converter path))), (js ''converter'', JStr converter),
      (js ''auth'', snd (getAdvancedCustomConverterDefaults converter path))]" by (simp add: offered_route_def Let_def)
  have "isAdvancedCustomConverter converter" using assms(1) by (simp add: isAdvancedCustomConverter_def)
  from plain_route_valid [OF path(1-3) converter_defaults [OF path(1) assms(1)] this path(4) r] show ?thesis
    by (rule single_route_valid)
qed

section \<open>Applications\<close>

definition sample_routes :: jsval where
  "sample_routes = config_of [offered_route (js ''none'') (js ''/v1/messages'')]"

lemma sample_route:
  "normalizeAdvancedCustomRoute (offered_route (js ''none'') (js ''/v1/messages'')) = Inr (offered_route (js ''none'') (js ''/v1/messages''))"
proof -
  have p: "plain_path (js ''/v1/messages'')" by (simp add: plain_path_def trim_def is_space_def starts_with_def js_eval)
  have c: "js ''none'' \<in> set ADVANCED_CUSTOM_CONVERTER_OPTIONS" by (simp add: ADVANCED_CUSTOM_CONVERTER_OPTIONS_def)
  show ?thesis
    by (rule plain_route_valid(1) [OF p _ _ converter_defaults [OF p c]])
       (use c in \<open>simp_all add: isAdvancedCustomConverter_def isConverterPathAllowed_def offered_route_def Let_def path_defs starts_with_def js_eval\<close>)
qed

lemma sample_routes_normal: "normal_routes sample_routes = Inr [offered_route (js ''none'') (js ''/v1/messages'')]"
  using sample_route by (simp add: sample_routes_def config_of_def normal_routes_def)

theorem validation_exact_witness:
  "\<exists>qs. list_all2 (\<lambda>r (p, ms). route_sound (\<lambda>_. None) r p ms) [offered_route (js ''none'') (js ''/v1/messages'')] qs \<and> rules_exclusive qs"
proof -
  have "validateAdvancedCustomConfig (\<lambda>_. None) sample_routes = Inr ()"
    unfolding sample_routes_def
    by (rule offered_routes_valid [of _ _ "js ''Claude Messages''"])
       (simp_all add: ADVANCED_CUSTOM_CONVERTER_OPTIONS_def getAdvancedCustomIncomingPathOptions_def ADVANCED_CUSTOM_INCOMING_PATH_OPTIONS_def
        isConverterPathAllowed_def)
  moreover have "truthy sample_routes" by (simp add: sample_routes_def config_of_def)
  ultimately show ?thesis using validation_exact [OF _ sample_routes_normal] by blast
qed

theorem stored_routes_read_back_witness:
  "parseAdvancedCustomConfig (Some (pretty 0 sample_routes)) = Some sample_routes"
proof -
  have n: "normalizeAdvancedCustomConfig sample_routes = Inr sample_routes"
    using sample_routes_normal by (simp add: normalizeAdvancedCustomConfig_def sample_routes_def)
  have "typed_config sample_routes"
    by (simp add: sample_routes_def config_of_def typed_config_def typed_route_def offered_route_def Let_def optional_text_def
        getAdvancedCustomConverterDefaults_def getAdvancedCustomNativeAuth_def bearerHeaderAuth_def apiKeyHeaderAuth_def geminiQueryAuth_def auth_value_def)
  then show ?thesis
    using stored_routes_read_back [of sample_routes "pretty 0 sample_routes"] n by (simp add: stringifyAdvancedCustomConfig_def)
qed

end
