(* ===== verification/Pricing_Tiers.thy ===== *)
theory Pricing_Tiers
  imports Pricing_Expr
begin

text \<open>
  The tier editor, \<open>features/pricing/lib/tier-expr.ts\<close>: tiers of token prices with conditions, the
  expression that is written for them, the patterns that read such an expression, and the
  estimator, which evaluates an expression on numbers of tokens that the user enters.
\<close>

section \<open>Tiers\<close>

definition CACHE_MODE_TIMED :: jsstr where
  "CACHE_MODE_TIMED = js ''timed''"

definition CACHE_MODE_GENERIC :: jsstr where
  "CACHE_MODE_GENERIC = js ''generic''"

datatype bound = Number_bound jsnum | Text_bound jsstr

record tier_condition =
  ti_var :: jsstr
  ti_op :: jsstr
  ti_value :: bound

text \<open>The unit costs beside those of input and output are kept by the name of their property.\<close>

record editor_tier =
  vt_billing_unit :: "jsstr option"
  vt_fixed_price :: "jsstr option"
  vt_label :: jsstr
  vt_conditions :: "tier_condition list"
  vt_input_unit_cost :: jsnum
  vt_output_unit_cost :: jsnum
  vt_cache_mode :: jsstr
  vt_costs :: "(jsstr \<times> jsnum) list"

record partial_tier =
  pt_billing_unit :: "jsstr option"
  pt_fixed_price :: "jsstr option"
  pt_label :: "jsstr option"
  pt_conditions :: "tier_condition list option"
  pt_input_unit_cost :: "jsnum option"
  pt_output_unit_cost :: "jsnum option"
  pt_cache_mode :: "jsstr option"
  pt_costs :: "(jsstr \<times> jsnum) list"

record visual_config =
  vc_tiers :: "editor_tier list"

definition as_partial :: "editor_tier \<Rightarrow> partial_tier" where
  "as_partial t =
     \<lparr>pt_billing_unit = vt_billing_unit t, pt_fixed_price = vt_fixed_price t, pt_label = Some (vt_label t),
      pt_conditions = Some (vt_conditions t), pt_input_unit_cost = Some (vt_input_unit_cost t),
      pt_output_unit_cost = Some (vt_output_unit_cost t), pt_cache_mode = Some (vt_cache_mode t), pt_costs = vt_costs t\<rparr>"

text \<open>\<open>Number(value) || 0\<close>\<close>

definition number_or_zero :: "jsnum \<Rightarrow> jsnum" where
  "number_or_zero n = (if n = NaN \<or> is_zero n then Fin 0 else n)"

definition unit_cost :: "(jsstr \<times> jsnum) list \<Rightarrow> jsstr \<Rightarrow> jsnum" where
  "unit_cost costs f = (case map_of costs f of None \<Rightarrow> NaN | Some n \<Rightarrow> n)"

definition getTierCacheMode :: "partial_tier \<Rightarrow> jsstr" where
  "getTierCacheMode t =
     (if pt_cache_mode t = Some CACHE_MODE_TIMED then CACHE_MODE_TIMED
      else if pt_cache_mode t = Some CACHE_MODE_GENERIC then CACHE_MODE_GENERIC
      else if lt_num (Fin 0) (unit_cost (pt_costs t) (js ''cache_create_1h_unit_cost'')) then CACHE_MODE_TIMED
      else CACHE_MODE_GENERIC)"

definition normalized_costs :: "jsstr list" where
  "normalized_costs =
     [js ''cache_read_unit_cost'', js ''cache_create_unit_cost'', js ''cache_create_1h_unit_cost'', js ''image_unit_cost'',
      js ''image_output_unit_cost'', js ''audio_input_unit_cost'', js ''audio_output_unit_cost'']"

text \<open>The properties before the spread of the tier are defaults: a property that the tier has
  replaces them.  Those after it are always set.\<close>

definition normalizeVisualTier :: "partial_tier \<Rightarrow> editor_tier" where
  "normalizeVisualTier t =
     \<lparr>vt_billing_unit = pt_billing_unit t, vt_fixed_price = pt_fixed_price t,
      vt_label = (case pt_label t of None \<Rightarrow> [] | Some l \<Rightarrow> l),
      vt_conditions = (case pt_conditions t of None \<Rightarrow> [] | Some cs \<Rightarrow> cs),
      vt_input_unit_cost = (case pt_input_unit_cost t of None \<Rightarrow> Fin 0 | Some n \<Rightarrow> n),
      vt_output_unit_cost = (case pt_output_unit_cost t of None \<Rightarrow> Fin 0 | Some n \<Rightarrow> n),
      vt_cache_mode = (case pt_cache_mode t of None \<Rightarrow> getTierCacheMode t | Some m \<Rightarrow> m),
      vt_costs = foldl (\<lambda>m f. omap_set f (number_or_zero (unit_cost (pt_costs t) f)) m) (pt_costs t) normalized_costs\<rparr>"

definition createDefaultVisualConfig :: visual_config where
  "createDefaultVisualConfig =
     \<lparr>vc_tiers = [normalizeVisualTier
        \<lparr>pt_billing_unit = None, pt_fixed_price = None, pt_label = Some (js ''base''), pt_conditions = Some [],
         pt_input_unit_cost = Some (Fin 0), pt_output_unit_cost = Some (Fin 0), pt_cache_mode = Some CACHE_MODE_GENERIC,
         pt_costs = []\<rparr>]\<rparr>"

definition normalizeVisualConfig :: "visual_config option \<Rightarrow> visual_config" where
  "normalizeVisualConfig config =
     (case config of
        None \<Rightarrow> createDefaultVisualConfig
      | Some c \<Rightarrow>
          if vc_tiers c = [] then createDefaultVisualConfig
          else c\<lparr>vc_tiers := map (\<lambda>t. normalizeVisualTier (as_partial t)) (vc_tiers c)\<rparr>)"

section \<open>Writing\<close>

fun bound_value_text :: "bound \<Rightarrow> jsstr" where
  "bound_value_text (Number_bound n) = num_text n"
| "bound_value_text (Text_bound s) = s"

definition buildConditionStr :: "tier_condition list \<Rightarrow> jsstr" where
  "buildConditionStr conds =
     join (js '' && '')
       (map (\<lambda>c. ti_var c @ js '' '' @ ti_op c @ js '' '' @ bound_value_text (ti_value c))
         (filter (\<lambda>c. ti_var c \<noteq> [] \<and> ti_op c \<noteq> [] \<and> ti_value c \<noteq> Text_bound []) conds))"

definition cost_part :: "editor_tier \<Rightarrow> jsstr \<times> jsstr \<Rightarrow> jsstr list" where
  "cost_part t cv =
     (let v = number_or_zero (unit_cost (vt_costs t) (fst cv))
      in if v \<noteq> Fin 0 then [snd cv @ js '' * '' @ num_text v] else [])"

definition buildTierBodyExpr :: "editor_tier \<Rightarrow> jsstr" where
  "buildTierBodyExpr t =
     (if vt_billing_unit t = Some (js ''request'')
      then js ''fixed('' @ (case vt_fixed_price t of None \<Rightarrow> [] | Some p \<Rightarrow> p) @ js '')''
      else join (js '' + '')
        ([js ''p * '' @ num_text (number_or_zero (vt_input_unit_cost t)),
          js ''c * '' @ num_text (number_or_zero (vt_output_unit_cost t))] @
         concat (map (cost_part t) BILLING_CACHE_VAR_MAP)))"

definition tier_call_text :: "jsstr \<Rightarrow> editor_tier \<Rightarrow> jsstr" where
  "tier_call_text fallback t =
     js ''tier(\"'' @ (if vt_label t = [] then fallback else vt_label t) @ js ''\", '' @ buildTierBodyExpr t @ js '')''"

text \<open>The parts of the loop, from the index \<open>i\<close> on.\<close>

fun tier_parts :: "nat \<Rightarrow> editor_tier list \<Rightarrow> jsstr list" where
  "tier_parts i [] = []"
| "tier_parts i (t # ts) =
     (let body = tier_call_text (js ''tier_'' @ num_text (Fin (of_nat (i + 1)))) t; cond = buildConditionStr (vt_conditions t)
      in (if ts \<noteq> [] \<and> cond \<noteq> [] then cond @ js '' ? '' @ body else body) # tier_parts (i + 1) ts)"

definition generateExprFromVisualConfig :: "visual_config option \<Rightarrow> jsstr" where
  "generateExprFromVisualConfig config =
     (case map_option vc_tiers config of
        None \<Rightarrow> js ''p * 0 + c * 0''
      | Some [] \<Rightarrow> js ''p * 0 + c * 0''
      | Some [t] \<Rightarrow>
          (let body = tier_call_text (js ''default'') t; cond = buildConditionStr (vt_conditions t)
           in if cond \<noteq> [] then cond @ js '' ? '' @ body @ js '' : p * 0 + c * 0'' else body)
      | Some ts \<Rightarrow> join (js '' : '') (tier_parts 0 ts))"

section \<open>Reading\<close>

text \<open>The patterns, with the numbers of their groups.\<close>

abbreviation spaces :: rexp where
  "spaces \<equiv> Star (Cls is_space)"

definition bound_unit :: "code_unit \<Rightarrow> bool" where
  "bound_unit c \<longleftrightarrow> is_digit c \<or> c \<in> {46, 101, 69, 43}"

definition price_pattern :: "nat \<Rightarrow> jsstr \<Rightarrow> rexp list" where
  "price_pattern n v = [Lit v, spaces, Lit (js ''*''), spaces, Cap n (Plus (Cls number_unit))]"

definition plus_pattern :: "nat \<Rightarrow> jsstr \<Rightarrow> rexp list" where
  "plus_pattern n v = [spaces, Lit (js ''+''), spaces] @ price_pattern n v"

fun optional_patterns :: "nat \<Rightarrow> jsstr list \<Rightarrow> rexp list" where
  "optional_patterns n [] = []"
| "optional_patterns n (v # vs) = Opt (Seqs (plus_pattern n v)) # optional_patterns (n + 1) vs"

definition tier_pattern :: "nat \<Rightarrow> rexp list" where
  "tier_pattern n =
     [Lit (js ''tier(\"''), Cap n (Star (Cls (\<lambda>c. c \<noteq> 34))), Lit (js ''\",''), spaces] @
     price_pattern (n + 1) (js ''p'') @ plus_pattern (n + 2) (js ''c'') @
     optional_patterns (n + 3) (map snd BILLING_CACHE_VAR_MAP) @ [Lit (js '')'')]"

definition variable_pattern :: rexp where
  "variable_pattern = Alts [Lit (js ''p''), Lit (js ''c''), Lit (js ''len'')]"

definition operator_pattern :: rexp where
  "operator_pattern = Alts [Lit (js ''<''), Lit (js ''<=''), Lit (js ''>''), Lit (js ''>='')]"

definition comparison_pattern :: rexp where
  "comparison_pattern = Seqs [variable_pattern, spaces, operator_pattern, spaces, Plus (Cls bound_unit)]"

definition condGroup :: rexp where
  "condGroup = Cap 1 (Seqs [comparison_pattern, Star (Seqs [spaces, Lit (js ''&&''), spaces, comparison_pattern])])"

definition tierRe :: rexp where
  "tierRe = Seqs (Opt (Seqs [condGroup, spaces, Lit (js ''?''), spaces]) # tier_pattern 2)"

definition conditionRe :: "rexp list" where
  "conditionRe = [Cap 1 variable_pattern, spaces, Cap 2 operator_pattern, spaces, Cap 3 (Plus (Cls bound_unit))]"

text \<open>\<open>re.exec(s)\<close>: the first way to match at the first position where there is one, with the text
  after it.\<close>

fun exec_from :: "rexp \<Rightarrow> jsstr \<Rightarrow> rstep option" where
  "exec_from r [] = (case runs r ([], []) of [] \<Rightarrow> None | st # _ \<Rightarrow> Some st)"
| "exec_from r (c # s) = (case runs r (c # s, []) of [] \<Rightarrow> exec_from r s | st # _ \<Rightarrow> Some st)"

text \<open>The loop over all matches.  A match of \<open>tierRe\<close> is never empty, so that the guard always holds.\<close>

function all_matches :: "rexp \<Rightarrow> jsstr \<Rightarrow> (nat \<times> jsstr) list list" where
  "all_matches r s =
     (case exec_from r s of
        None \<Rightarrow> []
      | Some (rest, groups) \<Rightarrow> if length rest < length s then groups # all_matches r rest else [])"
  by pat_completeness auto
termination
  by (relation "measure (\<lambda>(r, s). length s)") auto

definition group_text :: "(nat \<times> jsstr) list \<Rightarrow> nat \<Rightarrow> jsstr" where
  "group_text groups n = (case map_of groups n of None \<Rightarrow> [] | Some w \<Rightarrow> w)"

text \<open>\<open>s.split(/\s*&&\s*/)\<close> with its pieces trimmed.\<close>

fun split_and :: "jsstr \<Rightarrow> jsstr \<Rightarrow> jsstr list" where
  "split_and acc [] = [trim acc]"
| "split_and acc [c] = [trim (acc @ [c])]"
| "split_and acc (c # d # s) = (if c = 38 \<and> d = 38 then trim acc # split_and [] s else split_and (acc @ [c]) (d # s))"

definition read_condition :: "jsstr \<Rightarrow> tier_condition list" where
  "read_condition cp =
     (case match_all conditionRe cp of
        None \<Rightarrow> []
      | Some g \<Rightarrow> [\<lparr>ti_var = g 1, ti_op = g 2, ti_value = Number_bound (string_number (g 3))\<rparr>])"

definition read_conditions :: "jsstr \<Rightarrow> tier_condition list" where
  "read_conditions condStr = (if condStr = [] then [] else concat (map read_condition (split_and [] condStr)))"

text \<open>The properties that are set from the optional groups, the first of which is \<open>n\<close>.\<close>

fun read_costs :: "(nat \<times> jsstr) list \<Rightarrow> nat \<Rightarrow> jsstr list \<Rightarrow> (jsstr \<times> jsnum) list" where
  "read_costs groups n [] = []"
| "read_costs groups n (f # fs) =
     (case map_of groups n of None \<Rightarrow> [] | Some w \<Rightarrow> [(f, string_number w)]) @ read_costs groups (n + 1) fs"

text \<open>The tier of a match whose label is the group \<open>n\<close>.\<close>

definition matched_tier :: "tier_condition list \<Rightarrow> nat \<Rightarrow> (nat \<times> jsstr) list \<Rightarrow> editor_tier" where
  "matched_tier conds n groups =
     normalizeVisualTier
       \<lparr>pt_billing_unit = None, pt_fixed_price = None, pt_label = Some (group_text groups n), pt_conditions = Some conds,
        pt_input_unit_cost = Some (string_number (group_text groups (n + 1))),
        pt_output_unit_cost = Some (string_number (group_text groups (n + 2))), pt_cache_mode = None,
        pt_costs = read_costs groups (n + 3) (map fst BILLING_CACHE_VAR_MAP)\<rparr>"

text \<open>\<open>/^v\d+:([\s\S]*)$/\<close>\<close>

definition version_body :: "jsstr \<Rightarrow> jsstr" where
  "version_body s =
     (case s of
        c # r \<Rightarrow>
          if c = 118 \<and> takeWhile is_digit r \<noteq> [] \<and> starts_with (dropWhile is_digit r) (js '':'')
          then tl (dropWhile is_digit r) else s
      | [] \<Rightarrow> s)"

definition without_spaces :: "jsstr \<Rightarrow> jsstr" where
  "without_spaces s = filter (\<lambda>c. \<not> is_space c) s"

definition tryParseVisualConfig :: "jsstr option \<Rightarrow> visual_config option" where
  "tryParseVisualConfig exprStr =
     (case exprStr of
        None \<Rightarrow> None
      | Some e \<Rightarrow>
          if e = [] then None
          else
            let body = version_body e in
            case runs (Seqs (tier_pattern 1 @ [At_end])) (body, []) of
              (_, groups) # _ \<Rightarrow> Some (normalizeVisualConfig (Some \<lparr>vc_tiers = [matched_tier [] 1 groups]\<rparr>))
            | [] \<Rightarrow>
                let tiers = map (\<lambda>g. matched_tier (read_conditions (group_text g 1)) 2 g) (all_matches tierRe body) in
                if tiers = [] then None
                else
                  let cfg = normalizeVisualConfig (Some \<lparr>vc_tiers = tiers\<rparr>) in
                  if without_spaces (generateExprFromVisualConfig (Some cfg)) \<noteq> without_spaces body then None
                  else Some cfg)"

section \<open>The estimator\<close>

record extra_tokens =
  cacheReadTokens :: jsnum
  cacheCreateTokens :: jsnum
  cacheCreate1hTokens :: jsnum
  imageTokens :: jsnum
  imageCacheTokens :: jsnum
  imageOutputTokens :: jsnum
  audioInputTokens :: jsnum
  audioOutputTokens :: jsnum

definition ESTIMATOR_VARS :: "(jsstr \<times> (extra_tokens \<Rightarrow> jsnum)) list" where
  "ESTIMATOR_VARS =
     [(js ''cr'', cacheReadTokens), (js ''cc'', cacheCreateTokens), (js ''cc1h'', cacheCreate1hTokens), (js ''img'', imageTokens),
      (js ''img_cr'', imageCacheTokens), (js ''img_o'', imageOutputTokens), (js ''ai'', audioInputTokens), (js ''ao'', audioOutputTokens)]"

definition buildEstimatorTokens :: "jsnum \<Rightarrow> jsnum \<Rightarrow> extra_tokens \<Rightarrow> (jsstr \<times> jsval) list" where
  "buildEstimatorTokens promptTokens completionTokens extra =
     [(js ''p'', JNum promptTokens), (js ''c'', JNum completionTokens),
      (js ''len'', JNum (foldl add_num promptTokens
         [cacheReadTokens extra, imageCacheTokens extra, imageTokens extra, audioInputTokens extra, cacheCreateTokens extra,
          cacheCreate1hTokens extra]))] @
     map (\<lambda>(v, sel). (v, JNum (sel extra))) ESTIMATOR_VARS"

record eval_result =
  er_cost :: jsnum
  er_matchedTier :: jsstr
  er_error :: "jsstr option"
  er_billingUnit :: "billing_unit option"

text \<open>\<open>{ ...xs, ...ys }\<close>\<close>

definition spread :: "(jsstr \<times> jsval) list \<Rightarrow> (jsstr \<times> jsval) list \<Rightarrow> (jsstr \<times> jsval) list" where
  "spread xs ys = foldl (\<lambda>m (k, v). omap_set k v m) xs ys"

definition estimator_context ::
  "jsnum \<Rightarrow> jsnum \<Rightarrow> extra_tokens \<Rightarrow> simulation_context option \<Rightarrow> simulation_context" where
  "estimator_context promptTokens completionTokens extra context =
     (let base = (case context of None \<Rightarrow> empty_context | Some c \<Rightarrow> c)
      in base\<lparr>tokens := Some (spread (buildEstimatorTokens promptTokens completionTokens extra)
           (case tokens base of None \<Rightarrow> [] | Some ts \<Rightarrow> ts))\<rparr>)"

definition evalExprLocally ::
  "platform \<Rightarrow> jsstr \<Rightarrow> jsnum \<Rightarrow> jsnum \<Rightarrow> extra_tokens \<Rightarrow> simulation_context option \<Rightarrow> compile_cache \<Rightarrow>
   eval_result \<times> compile_cache" where
  "evalExprLocally h exprStr promptTokens completionTokens extra context cache =
     (if trim exprStr = [] then (\<lparr>er_cost = Fin 0, er_matchedTier = [], er_error = None, er_billingUnit = None\<rparr>, cache)
      else
        let (result, cache') =
          evaluateBillingExpression h exprStr (estimator_context promptTokens completionTokens extra context) cache
        in (case result of
              Inl failure \<Rightarrow>
                \<lparr>er_cost = Fin 0, er_matchedTier = [], er_error = Some (detail (fdiagnostic failure)), er_billingUnit = None\<rparr>
            | Inr r \<Rightarrow>
                \<lparr>er_cost = cost r, er_matchedTier = etier r, er_error = None,
                 er_billingUnit = (if eunit r = Unit_request then Some Unit_request else None)\<rparr>, cache'))"

definition exprUsesExtraVars :: "jsstr \<Rightarrow> compile_cache \<Rightarrow> bool \<times> compile_cache" where
  "exprUsesExtraVars exprStr cache =
     (if exprStr = [] then (False, cache)
      else
        let (r, cache') = compileBillingExpression exprStr cache
        in (case r of Inl _ \<Rightarrow> False | Inr c \<Rightarrow> list_ex (\<lambda>(v, _). v \<in> set (cvariables c)) ESTIMATOR_VARS, cache'))"

end
