(* ===== verification/Pricing_Tiers_Text.thy ===== *)
theory Pricing_Tiers_Text
  imports Pricing_Tiers Billing_Written Pricing_Rules_Text
begin

text \<open>
  The expression that the tier editor writes, as a tree: the written text has the lexemes of the
  tree, the tree is well typed, and the table that is read from it has the tiers of the editor.
\<close>

section \<open>Readers of token tables do not depend on positions\<close>

lemma literal_zero_erase [simp]: "literal_zero (erase e) = literal_zero e"
  by (cases e) (auto simp: literal_zero_def)

lemma is_image_count_erase [simp]: "is_image_count (erase e) = is_image_count e"
  by (cases e) (auto simp: is_image_count_def)

lemma token_condition_erase [simp]: "token_condition_of (erase e) = token_condition_of e"
proof (cases e)
  case (Binary p x y s t)
  then show ?thesis by (cases x; cases y) (auto simp: token_condition_of_def)
qed (auto simp: token_condition_of_def)

lemma tokenConditions_erase [simp]: "tokenConditions (erase e) = tokenConditions e"
  by (simp add: tokenConditions_def flattenBinary_erase o_def)

lemma text_remainder_erase [simp]: "text_remainder (erase e) = text_remainder e"
proof (cases e)
  case (Binary p x y s t)
  then show ?thesis by (cases x; cases y) (auto simp: text_remainder_def)
qed (auto simp: text_remainder_def)

lemma priced_variable_erase [simp]: "priced_variable (erase e) = priced_variable e"
proof (cases e)
  case (Call n as s t)
  then show ?thesis by (cases as rule: remdups_adj.cases; cases "tl (tl as)") (auto simp: priced_variable_def)
qed (auto simp: priced_variable_def)

lemma price_term_erase [simp]: "price_term (erase e) = price_term e"
  by (cases e) (auto simp: price_term_def cong: option.case_cong)

lemma collect_prices_erase: "collect_prices (map erase ts) acc = collect_prices ts acc"
  by (induction ts acc rule: collect_prices.induct) (auto split: option.splits)

lemma fixed_literal_erase [simp]: "fixed_literal (erase e) = fixed_literal e"
proof (cases e)
  case (Call n as s t)
  show ?thesis
  proof (cases as)
    case (Cons a bs)
    then show ?thesis using Call by (cases a) (auto simp: fixed_literal_def)
  qed (simp add: Call fixed_literal_def)
qed (auto simp: fixed_literal_def)

lemma tokenTier_erase [simp]: "tokenTier (erase e) conds = tokenTier e conds"
proof (cases e)
  case (Call n as s t)
  show ?thesis
  proof (cases as)
    case (Cons a bs)
    show ?thesis
    proof (cases a)
      case (Literal l i u v)
      then show ?thesis using Call Cons
        by (cases l; cases bs) (simp_all add: tokenTier_def flattenBinary_erase collect_prices_erase cong: option.case_cong)
    qed (simp_all add: Call Cons tokenTier_def)
  qed (simp add: Call tokenTier_def)
qed (simp_all add: tokenTier_def)

lemma audio_input_erase [simp]: "audio_input (erase e) = audio_input e"
proof (cases e)
  case (Binary p x y s t)
  then show ?thesis by (cases x; cases y) (auto simp: audio_input_def)
qed (auto simp: audio_input_def)

lemma audio_tiers_erase [simp]: "audio_tiers (erase e) = audio_tiers e"
proof (cases e)
  case (Conditional c x y s t)
  have "List.map_filter audio_input [erase l, erase r] = List.map_filter audio_input [l, r]" for l r
    by (simp add: List.map_filter_def)
  then show ?thesis using Conditional by (cases c) (simp_all add: audio_tiers_def del: map_filter_simps)
qed (simp_all add: audio_tiers_def)

lemma token_chain_erase [simp]: "token_chain (erase e) = token_chain e"
proof (induction e)
  case (Conditional c x y s t)
  then show ?case by (simp cong: option.case_cong)
next
  case (Call n as s t)
  show ?case using tokenTier_erase [of "Call n as s t" "[]"] by simp
qed (simp_all add: tokenTier_def)

lemma readTokenTierChain_erase [simp]: "readTokenTierChain (erase e) = readTokenTierChain e"
proof (induction e)
  case (Binary p x y s t)
  then show ?case using token_chain_erase [of "Binary p x y s t"] by simp
next
  case (Conditional c x y s t)
  show ?case using token_chain_erase [of "Conditional c x y s t"] audio_tiers_erase [of "Conditional c x y s t"]
    by (simp del: token_chain.simps split: option.split)
next
  case (Call n as s t)
  show ?case using token_chain_erase [of "Call n as s t"] audio_tiers_erase [of "Call n as s t"]
    by (simp del: token_chain.simps split: option.split)
next
  case (Unary p x s t)
  show ?case using token_chain_erase [of "Unary p x s t"] audio_tiers_erase [of "Unary p x s t"]
    by (simp del: token_chain.simps split: option.split)
qed (simp_all add: audio_tiers_def tokenTier_def)

section \<open>Trees\<close>

text \<open>The prices of a tier that are written: input, output and the others that are not zero.\<close>

definition unit_prices :: "editor_tier \<Rightarrow> (jsstr \<times> jsnum) list" where
  "unit_prices t =
     (js ''p'', number_or_zero (vt_input_unit_cost t)) # (js ''c'', number_or_zero (vt_output_unit_cost t)) #
     filter (\<lambda>(v, x). x \<noteq> Fin 0) (map (\<lambda>cv. (snd cv, number_or_zero (unit_cost (vt_costs t) (fst cv)))) BILLING_CACHE_VAR_MAP)"

lemma prices_nonempty [simp]: "unit_prices t \<noteq> []"
  by (simp add: unit_prices_def)

definition bound_number :: "bound \<Rightarrow> jsnum" where
  "bound_number b = (case b of Number_bound n \<Rightarrow> n | Text_bound s \<Rightarrow> string_number s)"

definition price_tree :: "jsstr \<times> jsnum \<Rightarrow> expr" where
  "price_tree vx = binary ''*'' (Variable (fst vx) 0 0) (number_lit (snd vx))"

definition comparison_tree :: "tier_condition \<Rightarrow> expr" where
  "comparison_tree c = Binary (ti_op c) (Variable (ti_var c) 0 0) (number_lit (bound_number (ti_value c))) 0 0"

definition tier_tree :: "editor_tier \<Rightarrow> expr" where
  "tier_tree t = Call (js ''tier'') [string_lit (vt_label t), op_chain ''+'' (map price_tree (unit_prices t))] 0 0"

fun tiers_tree :: "editor_tier list \<Rightarrow> expr" where
  "tiers_tree [] = undefined"
| "tiers_tree [t] = tier_tree t"
| "tiers_tree (t # u # ts) =
     Conditional (op_chain ''&&'' (map comparison_tree (vt_conditions t))) (tier_tree t) (tiers_tree (u # ts)) 0 0"

text \<open>Tiers that can be written: token prices, a label that needs no escapes, numbers that have a
  text, and conditions in all tiers but the last.\<close>

definition bound_condition_ok :: "tier_condition \<Rightarrow> bool" where
  "bound_condition_ok c \<longleftrightarrow> ti_var c \<in> {js ''p'', js ''c'', js ''len''} \<and> ti_op c \<in> set ordering_operators \<and>
     (\<exists>n. ti_value c = Number_bound n \<and> printable n)"

definition tier_ok :: "editor_tier \<Rightarrow> bool" where
  "tier_ok t \<longleftrightarrow> vt_billing_unit t \<noteq> Some (js ''request'') \<and> vt_label t \<noteq> [] \<and> (\<forall>c \<in> set (vt_label t). plain_unit c) \<and>
     (\<forall>vx \<in> set (unit_prices t). printable (snd vx)) \<and> list_all bound_condition_ok (vt_conditions t)"

definition tiers_ok :: "editor_tier list \<Rightarrow> bool" where
  "tiers_ok ts \<longleftrightarrow> ts \<noteq> [] \<and> list_all tier_ok ts \<and> (\<forall>t \<in> set (butlast ts). vt_conditions t \<noteq> []) \<and> vt_conditions (last ts) = []"

lemma tiers_ok_simps:
  "tiers_ok [t] \<longleftrightarrow> tier_ok t \<and> vt_conditions t = []"
  "tiers_ok (t # u # ts) \<longleftrightarrow> tier_ok t \<and> vt_conditions t \<noteq> [] \<and> tiers_ok (u # ts)"
  by (auto simp: tiers_ok_def)

section \<open>The text\<close>

abbreviation cost_text :: "jsstr \<times> jsnum \<Rightarrow> jsstr" where
  "cost_text vx \<equiv> fst vx @ js '' * '' @ num_text (snd vx)"

abbreviation comparison_text :: "tier_condition \<Rightarrow> jsstr" where
  "comparison_text c \<equiv> ti_var c @ js '' '' @ ti_op c @ js '' '' @ num_text (bound_number (ti_value c))"

lemma tier_body_text:
  "vt_billing_unit t \<noteq> Some (js ''request'') \<Longrightarrow> buildTierBodyExpr t = join (js '' + '') (map cost_text (unit_prices t))"
proof -
  have "concat (map (cost_part t) cvs) =
      map cost_text (filter (\<lambda>(v, x). x \<noteq> Fin 0) (map (\<lambda>cv. (snd cv, number_or_zero (unit_cost (vt_costs t) (fst cv)))) cvs))" for cvs
    by (induction cvs) (simp_all add: cost_part_def Let_def)
  then show "vt_billing_unit t \<noteq> Some (js ''request'') \<Longrightarrow> ?thesis" by (simp add: buildTierBodyExpr_def unit_prices_def js_eval)
qed

lemma conditions_text: "list_all bound_condition_ok cs \<Longrightarrow> buildConditionStr cs = join (js '' && '') (map comparison_text cs)"
proof -
  assume ok: "list_all bound_condition_ok cs"
  then have "filter (\<lambda>c. ti_var c \<noteq> [] \<and> ti_op c \<noteq> [] \<and> ti_value c \<noteq> Text_bound []) cs = cs"
    by (auto simp: list_all_iff bound_condition_ok_def ordering_operators_def js_eval intro!: filter_True)
  moreover have "map (\<lambda>c. ti_var c @ js '' '' @ ti_op c @ js '' '' @ bound_value_text (ti_value c)) cs = map comparison_text cs"
    using ok by (auto simp: list_all_iff bound_condition_ok_def bound_number_def)
  ultimately show ?thesis unfolding buildConditionStr_def by (simp only:)
qed

lemma conditions_text_Nil: "list_all bound_condition_ok cs \<Longrightarrow> buildConditionStr cs = [] \<longleftrightarrow> cs = []"
  by (cases cs; cases "tl cs") (auto simp: conditions_text js_eval)

abbreviation call_text :: "editor_tier \<Rightarrow> jsstr" where
  "call_text \<equiv> tier_call_text []"

fun tiers_text :: "editor_tier list \<Rightarrow> jsstr" where
  "tiers_text [] = []"
| "tiers_text [t] = call_text t"
| "tiers_text (t # u # ts) = buildConditionStr (vt_conditions t) @ js '' ? '' @ call_text t @ js '' : '' @ tiers_text (u # ts)"

lemma parts_text: "tiers_ok ts \<Longrightarrow> join (js '' : '') (tier_parts i ts) = tiers_text ts"
proof (induction ts arbitrary: i rule: induct_list012)
  case (2 t)
  then show ?case by (simp add: tiers_ok_simps tier_ok_def tier_call_text_def)
next
  case (3 t u ts)
  then have t: "tier_ok t" "vt_conditions t \<noteq> []" "tiers_ok (u # ts)" by (simp_all add: tiers_ok_simps)
  have "tier_parts i (t # u # ts) = (buildConditionStr (vt_conditions t) @ js '' ? '' @ call_text t) # tier_parts (i + 1) (u # ts)"
    using t(1,2) conditions_text_Nil [of "vt_conditions t"]
    by (subst tier_parts.simps(2)) (simp add: tier_ok_def tier_call_text_def Let_def del: tier_parts.simps)
  moreover have "\<exists>x xs. tier_parts (i + 1) (u # ts) = x # xs" by (subst tier_parts.simps(2)) (simp add: Let_def del: tier_parts.simps)
  ultimately show ?case using 3(2) [OF t(3), of "i + 1"] by (auto simp del: tier_parts.simps)
qed (simp add: tiers_ok_def)

lemma generated_text: "tiers_ok ts \<Longrightarrow> generateExprFromVisualConfig (Some \<lparr>vc_tiers = ts\<rparr>) = tiers_text ts"
proof (cases ts rule: remdups_adj.cases)
  case (2 t)
  assume "tiers_ok ts"
  then show ?thesis using 2 by (simp add: generateExprFromVisualConfig_def tiers_ok_simps tier_ok_def tier_call_text_def buildConditionStr_def)
next
  case (3 t u us)
  assume "tiers_ok ts"
  then show ?thesis using 3 parts_text [of ts 0] by (simp add: generateExprFromVisualConfig_def del: tier_parts.simps)
qed (simp add: tiers_ok_def)

lemma spelt_variable: "v \<in> set BILLING_VARIABLES \<Longrightarrow> spelt True v [name v]"
  by (rule spelt_name) (auto simp: BILLING_VARIABLES_def TOKEN_VARIABLES_def js_eval is_alpha_us_def is_word_def is_digit_def)

lemma cache_names:
  "map snd BILLING_CACHE_VAR_MAP =
     [js ''cr'', js ''cc'', js ''img_cr'', js ''cc1h'', js ''img'', js ''img_o'', js ''ai'', js ''ao'']"
  by (simp add: BILLING_CACHE_VAR_MAP_def BILLING_EXTRA_VARS_def BILLING_VARS_def extra_var_def)

lemma price_names: "vx \<in> set (unit_prices t) \<Longrightarrow> fst vx \<in> set (js ''p'' # js ''c'' # map snd BILLING_CACHE_VAR_MAP)"
  by (auto simp: unit_prices_def intro: rev_image_eqI)

lemma priced_variables:
  assumes "vx \<in> set (unit_prices t)"
  shows "fst vx \<in> set BILLING_VARIABLES" "fst vx \<noteq> js ''len''" "fst vx \<noteq> js ''image_count''"
  using price_names [OF assms] unfolding cache_names by (auto simp: BILLING_VARIABLES_def TOKEN_VARIABLES_def)

lemma distinct_filtered: "distinct (map f xs) \<Longrightarrow> distinct (map f (filter P xs))"
  by (induction xs) auto

lemma prices_distinct: "distinct (map fst (unit_prices t))"
proof -
  let ?ps = "map (\<lambda>cv. (snd cv, number_or_zero (unit_cost (vt_costs t) (fst cv)))) BILLING_CACHE_VAR_MAP"
  have m: "map fst ?ps = map snd BILLING_CACHE_VAR_MAP" by simp
  then have "distinct (map fst ?ps)" unfolding cache_names by simp
  then have "distinct (map fst (filter (\<lambda>(v, x). x \<noteq> Fin 0) ?ps))" by (rule distinct_filtered)
  moreover have "fst ` set (filter (\<lambda>(v, x). x \<noteq> Fin 0) ?ps) \<subseteq> set (map snd BILLING_CACHE_VAR_MAP)" by force
  moreover have "js ''p'' \<notin> set (map snd BILLING_CACHE_VAR_MAP)" "js ''c'' \<notin> set (map snd BILLING_CACHE_VAR_MAP)"
    unfolding cache_names by simp_all
  ultimately show ?thesis unfolding unit_prices_def list.map distinct.simps by auto
qed

text \<open>The trees of prices and comparisons.\<close>

lemma price_tree_ok:
  assumes "vx \<in> set (unit_prices t)" "printable (snd vx)"
  shows "writable (price_tree vx)" "typed (price_tree vx) TNumber" "calls_of (price_tree vx) = {}"
    "flattenBinary (js ''+'') (price_tree vx) = [price_tree vx]" "price_term (price_tree vx) = Some vx"
    "bare_until 6 (price_tree vx)" "spelt True (cost_text vx) (tokens_of 0 (price_tree vx))"
proof -
  note v = priced_variables [OF assms(1)]
  show "writable (price_tree vx)" using v assms(2) by (simp add: price_tree_def)
  show "typed (price_tree vx) TNumber"
    by (auto simp: price_tree_def binary_type_def logical_operators_def comparison_operators_def fits_def)
  show "calls_of (price_tree vx) = {}" "flattenBinary (js ''+'') (price_tree vx) = [price_tree vx]"
    by (simp_all add: price_tree_def)
  show "price_term (price_tree vx) = Some vx"
    using v plain_double_nonneg assms(2) by (simp add: price_tree_def price_term_def nonnegativePriceLiteral_def priced_variable_def printable_def)
  show "bare_until 6 (price_tree vx)" by (simp add: bare_until_def price_tree_def grouped_def)
  have "spelt False [42] [symbol [42]]" by (rule spelt_bracket) simp
  from spelt_infix [OF spelt_variable [OF v(1)] this spelt_number [OF assms(2)]]
  show "spelt True (cost_text vx) (tokens_of 0 (price_tree vx))" by (simp add: price_tree_def grouped_def js_eval)
qed

lemma spelt_operator:
  assumes "p \<in> set two_char_operators \<or> (\<exists>c \<in> set one_char_operators. p = [c])" "spelt b u ts" "spelt c v us"
  shows "spelt c (u @ 32 # p @ 32 # v) (ts @ symbol p # us)"
proof -
  have "spells (p @ 32 # v @ rest) (symbol p # us @ ws)" if "spells (v @ rest) (us @ ws)" for rest ws
    using spells_step [of "[]" p "32 # v @ rest"] lexed_operator [OF assms(1)] spells_space [OF that] by simp
  then have "spelt c (p @ 32 # v) (symbol p # us)" using assms(3) by (auto simp: spelt_def)
  then show ?thesis by (intro spelt_append [OF assms(2) spelt_spaced]) simp_all
qed

lemma operator_facts:
  assumes "q \<in> set ordering_operators"
  shows "map_of PRECEDENCE q = Some 4" "precedence q = 4" "q \<in> set comparison_operators" "q \<notin> set logical_operators"
    "q \<noteq> js ''&&''" "q \<in> set two_char_operators \<or> (\<exists>c \<in> set one_char_operators. q = [c])"
proof -
  show p: "map_of PRECEDENCE q = Some 4" using assms by (auto simp: ordering_operators_def PRECEDENCE_def)
  then show "precedence q = 4" by (simp add: precedence_def)
  show "q \<in> set comparison_operators" "q \<notin> set logical_operators" "q \<noteq> js ''&&''"
    using assms by (auto simp: ordering_operators_def comparison_operators_def logical_operators_def)
  show "q \<in> set two_char_operators \<or> (\<exists>c \<in> set one_char_operators. q = [c])"
    using assms by (auto simp: ordering_operators_def two_char_operators_def one_char_operators_def js_eval)
qed

definition table_condition :: "tier_condition \<Rightarrow> token_condition" where
  "table_condition c = \<lparr>tc_var = ti_var c, tc_op = ti_op c, tc_value = bound_number (ti_value c)\<rparr>"

lemma comparison_tree_ok:
  assumes "bound_condition_ok c"
  shows "writable (comparison_tree c)" "typed (comparison_tree c) TBoolean" "calls_of (comparison_tree c) = {}"
    "flattenBinary (js ''&&'') (comparison_tree c) = [comparison_tree c]"
    "token_condition_of (comparison_tree c) = Some (table_condition c)"
    "bare_until 3 (comparison_tree c)" "spelt True (comparison_text c) (tokens_of 0 (comparison_tree c))"
proof -
  obtain n where c: "ti_var c \<in> {js ''p'', js ''c'', js ''len''}" "ti_op c \<in> set ordering_operators"
      "bound_number (ti_value c) = n" "printable n"
    using assms by (auto simp: bound_condition_ok_def bound_number_def)
  note o = operator_facts [OF c(2)]
  have v: "ti_var c \<in> set BILLING_VARIABLES" using c(1) by (auto simp: BILLING_VARIABLES_def TOKEN_VARIABLES_def)
  show "writable (comparison_tree c)" using v c(3,4) o(1) by (simp add: comparison_tree_def)
  show "typed (comparison_tree c) TBoolean" using o(3,4) by (auto simp: comparison_tree_def binary_type_def)
  show "calls_of (comparison_tree c) = {}" by (simp add: comparison_tree_def)
  show "flattenBinary (js ''&&'') (comparison_tree c) = [comparison_tree c]" using o(5) by (simp add: comparison_tree_def)
  show "token_condition_of (comparison_tree c) = Some (table_condition c)"
    using c plain_double_nonneg [of n] by (auto simp: comparison_tree_def token_condition_of_def table_condition_def printable_def)
  show "bare_until 3 (comparison_tree c)" using o(2) by (simp add: bare_until_def comparison_tree_def grouped_def)
  from spelt_operator [OF o(6) spelt_variable [OF v] spelt_number [OF c(4)]] c(3) o(2)
  show "spelt True (comparison_text c) (tokens_of 0 (comparison_tree c))" by (simp add: comparison_tree_def grouped_def js_eval)
qed

text \<open>Chains of spelt pieces.\<close>

lemma spelt_chain:
  assumes "spelt False (js p) [symbol (js p)]" "xs \<noteq> []" "map_of PRECEDENCE (js p) = Some k" "m \<le> k"
    and "\<forall>x \<in> set xs. bare_until (Suc k) (g x) \<and> spelt True (f x) (tokens_of 0 (g x))"
  shows "spelt True (join (32 # js p @ [32]) (map f xs)) (tokens_of m (op_chain p (map g xs)))"
proof -
  have "spelt True (join (32 # js p @ [32]) (map f xs))
      (tokens_of 0 (g (hd xs)) @ concat (map (\<lambda>x. symbol (js p) # tokens_of 0 (g x)) (tl xs)))"
    using spelt_join [OF assms(1,2), of f "\<lambda>x. tokens_of 0 (g x)"] assms(5) by blast
  moreover have "tokens_of m (op_chain p (map g xs)) =
      tokens_of 0 (hd (map g xs)) @ concat (map (\<lambda>x. symbol (js p) # tokens_of 0 x) (tl (map g xs)))"
    using assms by (intro chain_tokens) auto
  ultimately show ?thesis using assms(2) by (simp add: hd_map map_tl [symmetric] o_def)
qed

lemma spelt_tier_call:
  assumes "tier_ok t"
  shows "spelt False (call_text t) (tokens_of 0 (tier_tree t))"
proof -
  let ?body = "join (js '' + '') (map cost_text (unit_prices t))"
  let ?ts = "tokens_of 0 (op_chain ''+'' (map price_tree (unit_prices t)))"
  have t: "vt_billing_unit t \<noteq> Some (js ''request'')" "vt_label t \<noteq> []" "\<forall>c \<in> set (vt_label t). plain_unit c"
      "\<forall>vx \<in> set (unit_prices t). printable (snd vx)"
    using assms by (simp_all add: tier_ok_def)
  have ne: "unit_prices t \<noteq> []" by simp
  have "spelt False (js ''+'') [symbol (js ''+'')]" using spelt_bracket [of 43] by (simp add: js_eval)
  then have "spelt True (join (32 # js ''+'' @ [32]) (map cost_text (unit_prices t))) ?ts"
    by (rule spelt_chain [OF _ ne, of _ 5]) (use price_tree_ok(6,7) t(4) in auto)
  then have b: "spelt True ?body ?ts" by (simp add: js_eval)
  have n: "spelt True (js ''tier'') [name (js ''tier'')]" by (rule spelt_name) (simp_all add: js_eval is_alpha_us_def is_word_def)
  have l: "spelt False (34 # vt_label t @ [34]) [quoted (json_string (vt_label t)) (vt_label t)]"
    using spelt_string [of "vt_label t"] quote_units_plain [OF t(3)] by (simp add: json_string_def)
  have "spelt False (?body @ [41]) (?ts @ [symbol [41]])" by (rule spelt_append [OF b spelt_bracket]) simp_all
  then have "spelt False ([44] @ 32 # ?body @ [41]) ([symbol [44]] @ ?ts @ [symbol [41]])"
    by (intro spelt_append [OF spelt_bracket] spelt_spaced) simp_all
  from spelt_append [OF l this]
  have "spelt False ([40] @ (34 # vt_label t @ [34]) @ [44] @ 32 # ?body @ [41])
      ([symbol [40]] @ [quoted (json_string (vt_label t)) (vt_label t)] @ [symbol [44]] @ ?ts @ [symbol [41]])"
    by (intro spelt_append [OF spelt_bracket]) simp_all
  from spelt_append [OF n this] show ?thesis
    using t(2) tier_body_text [OF t(1)] by (simp add: tier_call_text_def tier_tree_def js_eval)
qed

lemma spelt_tier_conditions:
  assumes "cs \<noteq> []" "list_all bound_condition_ok cs"
  shows "spelt True (buildConditionStr cs) (tokens_of 1 (op_chain ''&&'' (map comparison_tree cs)))"
proof -
  have "spelt False (js ''&&'') [symbol (js ''&&'')]" by (rule spelt_pair) (simp add: two_char_operators_def)
  then have "spelt True (join (32 # js ''&&'' @ [32]) (map comparison_text cs)) (tokens_of 1 (op_chain ''&&'' (map comparison_tree cs)))"
    by (rule spelt_chain [OF _ assms(1), of _ 2])
       (use comparison_tree_ok(6,7) assms(2) in \<open>auto simp: list_all_iff numeral_3_eq_3 [symmetric]\<close>)
  then show ?thesis by (simp add: conditions_text [OF assms(2)] js_eval)
qed

lemma spelt_tiers: "tiers_ok ts \<Longrightarrow> spelt False (tiers_text ts) (tokens_of 0 (tiers_tree ts))"
proof (induction ts rule: induct_list012)
  case (2 t)
  then show ?case using spelt_tier_call by (simp add: tiers_ok_simps)
next
  case (3 t u ts)
  then have t: "tier_ok t" "vt_conditions t \<noteq> []" "tiers_ok (u # ts)" "list_all bound_condition_ok (vt_conditions t)"
    by (simp_all add: tiers_ok_simps tier_ok_def)
  have q: "spelt False [63] [symbol [63]]" and s: "spelt False [58] [symbol [58]]" by (rule spelt_bracket, simp)+
  have "spelt False (call_text t @ 32 # [58] @ 32 # tiers_text (u # ts))
      (tokens_of 0 (tier_tree t) @ symbol [58] # tokens_of 0 (tiers_tree (u # ts)))"
    by (rule spelt_infix [OF spelt_tier_call [OF t(1)] s 3(2) [OF t(3)]])
  from spelt_infix [OF spelt_tier_conditions [OF t(2,4)] q this] show ?case by (simp add: grouped_def js_eval)
qed (simp add: tiers_ok_def)

section \<open>The tree is well formed\<close>

lemma tier_tree_ok:
  assumes "tier_ok t"
  shows "writable (tier_tree t)" "typed (tier_tree t) TNumber" "calls_of (tier_tree t) = {js ''tier''}"
proof -
  have b: "map price_tree (unit_prices t) \<noteq> []" by simp
  have p: "\<forall>vx \<in> set (unit_prices t). printable (snd vx)" using assms by (simp add: tier_ok_def)
  have "writable (op_chain ''+'' (map price_tree (unit_prices t)))"
    using chain_writable [OF b] price_tree_ok(1) p by auto
  then show "writable (tier_tree t)" by (simp add: tier_tree_def BILLING_FUNCTIONS_def)
  have "typed (op_chain ''+'' (map price_tree (unit_prices t))) TNumber"
    by (rule chain_typed [OF b])
       (use price_tree_ok(2) p in \<open>auto simp: binary_type_def logical_operators_def comparison_operators_def fits_def\<close>)
  then show "typed (tier_tree t) TNumber"
    by (auto simp: tier_tree_def call_type_def fits_def TIME_FUNCTIONS_def intro!: exI [of _ "[TString, TNumber]"])
  show "calls_of (tier_tree t) = {js ''tier''}"
    using price_tree_ok(3) p by (auto simp: tier_tree_def chain_calls [OF b])
qed

lemma comparisons_ok:
  assumes "cs \<noteq> []" "list_all bound_condition_ok cs"
  shows "writable (op_chain ''&&'' (map comparison_tree cs))" "typed (op_chain ''&&'' (map comparison_tree cs)) TBoolean"
    "calls_of (op_chain ''&&'' (map comparison_tree cs)) = {}"
    "tokenConditions (op_chain ''&&'' (map comparison_tree cs)) = Some (map table_condition cs)"
proof -
  have b: "map comparison_tree cs \<noteq> []" using assms(1) by simp
  have ok: "\<forall>c \<in> set cs. bound_condition_ok c" using assms(2) by (simp add: list_all_iff)
  show "writable (op_chain ''&&'' (map comparison_tree cs))" using chain_writable [OF b] comparison_tree_ok(1) ok by auto
  show "typed (op_chain ''&&'' (map comparison_tree cs)) TBoolean"
    by (rule chain_typed [OF b]) (use comparison_tree_ok(2) ok in \<open>auto simp: binary_type_def logical_operators_def fits_def\<close>)
  show "calls_of (op_chain ''&&'' (map comparison_tree cs)) = {}" using comparison_tree_ok(3) ok by (auto simp: chain_calls [OF b])
  have "flattenBinary (js ''&&'') (op_chain ''&&'' (map comparison_tree cs)) = map comparison_tree cs"
    using chain_flatten [OF b, of "''&&''"] comparison_tree_ok(4) ok by auto
  moreover have "those (map token_condition_of (map comparison_tree cs)) = Some (map table_condition cs)"
    using ok by (induction cs) (simp_all add: comparison_tree_ok(5))
  ultimately show "tokenConditions (op_chain ''&&'' (map comparison_tree cs)) = Some (map table_condition cs)"
    by (simp add: tokenConditions_def)
qed

lemma tiers_tree_ok:
  "tiers_ok ts \<Longrightarrow> writable (tiers_tree ts) \<and> typed (tiers_tree ts) TNumber \<and> js ''fixed'' \<notin> calls_of (tiers_tree ts)"
proof (induction ts rule: induct_list012)
  case (2 t)
  then show ?case using tier_tree_ok by (simp add: tiers_ok_simps)
next
  case (3 t u ts)
  then have t: "tier_ok t" "vt_conditions t \<noteq> []" "tiers_ok (u # ts)" "list_all bound_condition_ok (vt_conditions t)"
    by (simp_all add: tiers_ok_simps tier_ok_def)
  show ?case using 3(2) [OF t(3)] comparisons_ok [OF t(2,4)] tier_tree_ok [OF t(1)]
    by (auto simp: fits_def intro!: exI [of _ TBoolean])
qed (simp add: tiers_ok_def)

section \<open>The table of the tree\<close>

definition table_row :: "editor_tier \<Rightarrow> token_tier" where
  "table_row t = plain_tier\<lparr>label := vt_label t, conditions := map table_condition (vt_conditions t), prices := unit_prices t\<rparr>"

lemma prices_collected:
  "\<forall>vx \<in> set ps. price_term (price_tree vx) = Some vx \<Longrightarrow> distinct (map fst (acc @ ps)) \<Longrightarrow>
   collect_prices (map price_tree ps) acc = Some (acc @ ps)"
proof (induction ps arbitrary: acc)
  case (Cons vx ps)
  then show ?case by (cases vx) auto
qed simp

lemma tier_row:
  assumes "tier_ok t"
  shows "tokenTier (tier_tree t) (map table_condition (vt_conditions t)) = Some (table_row t)"
proof -
  let ?xs = "map price_tree (unit_prices t)"
  have p: "\<forall>vx \<in> set (unit_prices t). printable (snd vx)" using assms by (simp add: tier_ok_def)
  have "flattenBinary (js ''+'') (op_chain ''+'' ?xs) = ?xs"
    by (rule chain_flatten) (use price_tree_ok(4) p in auto)
  moreover have "collect_prices ?xs [] = Some (unit_prices t)"
    using prices_collected [of "unit_prices t" "[]"] price_tree_ok(5) p prices_distinct by auto
  moreover have "fixed_literal (op_chain ''+'' ?xs) = None"
  proof (cases "unit_prices t" rule: rev_cases)
    case (snoc ys y)
    then show ?thesis by (cases "ys = []") (simp_all add: fixed_literal_def price_tree_def)
  qed simp
  ultimately show ?thesis by (cases "unit_prices t") (simp_all add: tokenTier_def tier_tree_def table_row_def)
qed

lemma tiers_table: "tiers_ok ts \<Longrightarrow> token_chain (tiers_tree ts) = Some (map table_row ts)"
proof (induction ts rule: induct_list012)
  case (2 t)
  then show ?case using tier_row [of t] by (simp add: tiers_ok_simps tier_tree_def)
next
  case (3 t u ts)
  then have t: "tier_ok t" "vt_conditions t \<noteq> []" "tiers_ok (u # ts)" "list_all bound_condition_ok (vt_conditions t)"
    by (simp_all add: tiers_ok_simps tier_ok_def)
  then show ?case using 3(2) comparisons_ok(4) [OF t(2,4)] tier_row [OF t(1)] by simp
qed (simp add: tiers_ok_def)

end
