(* ===== verification/Pricing_Tiers_Reading.thy ===== *)
theory Pricing_Tiers_Reading
  imports Pricing_Tiers_Text
begin

text \<open>
  The patterns of the tier editor on the texts that it writes: the first way to match takes the
  pieces of the text one after the other, so that every group has its piece.
\<close>

section \<open>The first way to match\<close>

definition first_run :: "rexp \<Rightarrow> rstep \<Rightarrow> rstep option" where
  "first_run r st = (case runs r st of [] \<Rightarrow> None | x # _ \<Rightarrow> Some x)"

lemma first_run_None: "first_run r st = None \<longleftrightarrow> runs r st = []"
  by (auto simp: first_run_def split: list.splits)

lemma first_seq: "first_run r st = Some st1 \<Longrightarrow> first_run q st1 = Some x \<Longrightarrow> first_run (Seq r q) st = Some x"
  by (auto simp: first_run_def runs.simps split: list.splits)

lemma first_seqs: "rs \<noteq> [] \<Longrightarrow> first_run r st = Some st1 \<Longrightarrow> first_run (Seqs rs) st1 = Some x \<Longrightarrow> first_run (Seqs (r # rs)) st = Some x"
  by (cases rs) (auto intro: first_seq)

lemma first_lit: "first_run (Lit w) (w @ s, cs) = Some (s, cs)"
  by (simp add: first_run_def runs.simps)

lemma first_star_class:
  assumes "\<forall>c \<in> set u. p c" "v = [] \<or> \<not> p (hd v)"
  shows "first_run (Star (Cls p)) (u @ v, cs) = Some (v, cs)"
proof -
  have "takeWhile p (u @ v) = u" using assms by (cases v) (auto simp: takeWhile_append)
  then show ?thesis
    by (cases u rule: rev_cases) (simp_all add: first_run_def star_class [unfolded fst_conv snd_conv])
qed

lemma first_spaces: "v = [] \<or> \<not> is_space (hd v) \<Longrightarrow> first_run spaces (v, cs) = Some (v, cs)"
  "v = [] \<or> \<not> is_space (hd v) \<Longrightarrow> first_run spaces (32 # v, cs) = Some (v, cs)"
  using first_star_class [of "[]" is_space v cs] first_star_class [of "[32]" is_space v cs] by (simp_all add: is_space_def)

lemma first_cap:
  assumes "first_run r (u @ v, cs) = Some (v, cs')"
  shows "first_run (Cap n r) (u @ v, cs) = Some (v, (n, u) # cs')"
  using assms by (auto simp: first_run_def runs.simps split: list.splits)

lemma first_plus:
  assumes "u \<noteq> []" "\<forall>c \<in> set u. p c" "v = [] \<or> \<not> p (hd v)"
  shows "first_run (Plus (Cls p)) (u @ v, cs) = Some (v, cs)"
proof -
  obtain c w where u: "u = c # w" using assms(1) by (cases u) auto
  have "first_run (Cls p) (u @ v, cs) = Some (w @ v, cs)" using assms(2) u by (simp add: first_run_def runs.simps)
  then show ?thesis unfolding Plus_def using first_star_class [of w p v cs] assms(2,3) u by (auto intro: first_seq)
qed

text \<open>Patterns whose matches are never empty.\<close>

primrec consuming :: "rexp \<Rightarrow> bool" where
  "consuming (Cls p) = True"
| "consuming (Lit w) = (w \<noteq> [])"
| "consuming (Seq r q) = (consuming r \<or> consuming q)"
| "consuming (Alt r q) = (consuming r \<and> consuming q)"
| "consuming (Opt r) = False"
| "consuming (Star r) = False"
| "consuming (Cap n r) = consuming r"
| "consuming (Ref n) = False"
| "consuming At_end = False"

lemma runs_length: "st' \<in> set (runs r st) \<Longrightarrow> length (fst st') \<le> length (fst st)"
  using runs_consumed [of st' r st] by (auto simp: consumed_def)

lemma runs_consume: "consuming r \<Longrightarrow> st' \<in> set (runs r st) \<Longrightarrow> consumes st st'"
proof (induction r arbitrary: st st')
  case (Cls p)
  then show ?case by (cases "fst st") (auto simp: runs.simps consumes_def split: if_splits)
next
  case (Lit w)
  then have "fst st = w @ fst st'" by (auto simp: runs.simps lit_runs_def starts_with_def split: if_splits) (metis append_take_drop_id)
  then show ?case using Lit.prems(1) by (simp add: consumes_def)
next
  case (Seq r q)
  then obtain s where s: "s \<in> set (runs r st)" "st' \<in> set (runs q s)" by (auto simp: runs.simps)
  from Seq.prems(1) have "consumes st s \<or> consumes s st'" using Seq.IH(1) [OF _ s(1)] Seq.IH(2) [OF _ s(2)] by auto
  then show ?case using runs_length [OF s(1)] runs_length [OF s(2)] by (auto simp: consumes_def)
next
  case (Alt r q)
  then consider "st' \<in> set (runs r st)" | "st' \<in> set (runs q st)" by (auto simp: runs.simps)
  then show ?case
  proof cases
    case 1
    then show ?thesis using Alt.IH(1) [OF _ 1] Alt.prems(1) by simp
  next
    case 2
    then show ?thesis using Alt.IH(2) [OF _ 2] Alt.prems(1) by simp
  qed
next
  case (Cap n r)
  then obtain s where s: "s \<in> set (runs r st)" "fst st' = fst s" by (auto simp: runs.simps)
  then show ?case using Cap.IH [OF _ s(1)] Cap.prems(1) by (simp add: consumes_def)
qed auto

lemma first_opt: "consuming r \<Longrightarrow> first_run r st = Some x \<Longrightarrow> first_run (Opt r) st = Some x"
  using runs_consume [of r x st] by (auto simp: first_run_def runs.simps split: list.splits)

lemma first_opt_none: "runs r st = [] \<Longrightarrow> first_run (Opt r) st = Some st"
  by (simp add: first_run_def runs.simps)

lemma star_fuel: "length (fst st) \<le> n \<Longrightarrow> star_runs n f st = star_runs (length (fst st)) f st"
proof (induction "length (fst st)" arbitrary: st n rule: less_induct)
  case less
  show ?case
  proof (cases n)
    case (Suc m)
    show ?thesis
    proof (cases "length (fst st)")
      case 0
      then show ?thesis using Suc by (simp add: consumes_def)
    next
      case (Suc k)
      have "star_runs m f x = star_runs k f x" if "x \<in> set (filter (consumes st) (f st))" for x
      proof -
        have x: "length (fst x) < length (fst st)" using that by (simp add: consumes_def)
        then show ?thesis using less(1) [OF x, of m] less(1) [OF x, of k] less(2) Suc \<open>n = Suc m\<close> by simp
      qed
      then have "map (star_runs m f) (filter (consumes st) (f st)) = map (star_runs k f) (filter (consumes st) (f st))" by simp
      then show ?thesis unfolding \<open>n = Suc m\<close> Suc star_runs.simps by (simp only:)
    qed
  qed (use less in simp)
qed

lemma star_unfold:
  assumes "consuming r"
  shows "runs (Star r) st = concat (map (runs (Star r)) (runs r st)) @ [st]"
proof (cases "length (fst st)")
  case 0
  then have "runs r st = []" using runs_consume [OF assms, of _ st] by (cases "runs r st") (auto simp: consumes_def)
  then show ?thesis using 0 by (simp add: runs.simps)
next
  case (Suc k)
  have f: "filter (consumes st) (runs r st) = runs r st" using runs_consume [OF assms] by (auto intro: filter_True)
  have "star_runs k (runs r) x = star_runs (length (fst x)) (runs r) x" if "x \<in> set (runs r st)" for x
    using runs_consume [OF assms that] Suc by (intro star_fuel) (simp add: consumes_def)
  then have "map (star_runs k (runs r)) (runs r st) = map (runs (Star r)) (runs r st)" by (simp add: runs.simps)
  moreover have "runs (Star r) st = concat (map (star_runs k (runs r)) (filter (consumes st) (runs r st))) @ [st]"
    using Suc by (simp add: runs.simps)
  ultimately show ?thesis unfolding f by (simp only:)
qed

lemma first_star:
  "consuming r \<Longrightarrow> first_run r st = Some st1 \<Longrightarrow> first_run (Star r) st1 = Some x \<Longrightarrow> first_run (Star r) st = Some x"
  by (auto simp: first_run_def star_unfold [of r st] split: list.splits)

lemma first_star_none: "consuming r \<Longrightarrow> runs r st = [] \<Longrightarrow> first_run (Star r) st = Some st"
  by (simp add: first_run_def star_unfold [of r st])

lemma runs_spaces:
  assumes "fails is_space k"
  shows "runs (Seq spaces k) (s, cs) = runs k (dropWhile is_space s, cs)"
proof -
  let ?f = "\<lambda>u. runs k (drop (length u) s, cs)"
  have "?f u = []" if u: "u \<in> set (prefixes (takeWhile is_space s))" "u \<noteq> takeWhile is_space s" for u
  proof -
    obtain z where z: "takeWhile is_space s = u @ z" "z \<noteq> []" using u by (auto simp: prefix_def)
    then obtain d z' where d: "z = d # z'" by (cases z) auto
    have "is_space d" using z d by (metis in_set_conv_decomp set_takeWhileD)
    moreover have "drop (length u) s = d # (z' @ dropWhile is_space s)"
      using z d by (metis append_Cons append_assoc append_eq_conv_conj takeWhile_dropWhile_id)
    ultimately show ?thesis using assms by (simp add: fails_def)
  qed
  then have "concat (map ?f (rev (prefixes (takeWhile is_space s)))) = ?f (takeWhile is_space s)" by (rule concat_longest)
  then show ?thesis by (simp add: runs.simps(3) star_class o_def dropWhile_eq_drop)
qed

lemma concat_nested: "concat (map f (concat (map g xs))) = concat (map (\<lambda>x. concat (map f (g x))) xs)"
  by (induction xs) simp_all

lemma runs_seqs_append: "xs \<noteq> [] \<Longrightarrow> ys \<noteq> [] \<Longrightarrow> runs (Seqs (xs @ ys)) st = concat (map (runs (Seqs ys)) (runs (Seqs xs) st))"
proof (induction xs arbitrary: st rule: Seqs.induct)
  case (2 r)
  then show ?case by (cases ys) (simp_all add: runs.simps)
next
  case (3 r q rs)
  have "runs (Seqs ((q # rs) @ ys)) = (\<lambda>s. concat (map (runs (Seqs ys)) (runs (Seqs (q # rs)) s)))"
    using 3 by (intro ext) auto
  then show ?case by (simp add: runs.simps concat_nested)
qed simp

lemma first_seqs_append:
  "xs \<noteq> [] \<Longrightarrow> ys \<noteq> [] \<Longrightarrow> first_run (Seqs xs) st = Some st1 \<Longrightarrow> first_run (Seqs ys) st1 = Some x \<Longrightarrow> first_run (Seqs (xs @ ys)) st = Some x"
  by (auto simp: first_run_def runs_seqs_append split: list.splits)

section \<open>Prices\<close>

lemma numeral_units: "numeral_parts ip fp \<Longrightarrow> \<forall>c \<in> set (numeral_text ip fp e). number_unit c"
  using nat_digits_digits
  by (auto simp: numeral_parts_def numeral_text_def digits_def list_all_iff number_unit_def int_text_parts split: option.splits)

lemma number_text_units:
  assumes "printable v"
  shows "num_text v \<noteq> []" "\<forall>c \<in> set (num_text v). number_unit c" "\<not> is_space (hd (num_text v))" "string_number (num_text v) = v"
proof -
  have v: "plain_double v" using assms by (simp add: printable_def)
  show u: "num_text v \<noteq> []" "\<forall>c \<in> set (num_text v). number_unit c"
    using num_text_shown [OF v] numeral_units number_text_head [OF v] by (metis, metis)
  then show "\<not> is_space (hd (num_text v))" using number_unit_not_space by simp
  show "string_number (num_text v) = v" using num_text_reads_back [OF v] by simp
qed

lemma not_numeric [simp]: "\<not> number_unit 32" "\<not> number_unit 41" "\<not> bound_unit 32" "\<not> is_space 42" "\<not> is_space 43" "\<not> is_space 41"
  "is_space 32" "\<not> is_space 38" "\<not> is_space 63" "\<not> is_space 58"
  by (simp_all add: number_unit_def bound_unit_def is_digit_def is_space_def)

text \<open>A variable of a price: a word.\<close>

definition word_name :: "jsstr \<Rightarrow> bool" where
  "word_name v \<longleftrightarrow> v \<noteq> [] \<and> list_all is_word v"

lemma word_not_space: "is_word c \<Longrightarrow> \<not> is_space c"
  by (auto simp: is_word_def is_alpha_us_def is_digit_def is_space_def)

lemma word_name_head: "word_name v \<Longrightarrow> v \<noteq> [] \<and> \<not> is_space (hd v)"
  by (cases v) (auto simp: word_name_def word_not_space)

lemma first_price:
  assumes "printable x" "s = [] \<or> \<not> number_unit (hd s)"
  shows "first_run (Seqs (price_pattern n v)) (v @ js '' * '' @ num_text x @ s, cs) = Some (s, (n, num_text x) # cs)"
proof -
  note u = number_text_units [OF assms(1)]
  have num: "first_run (Cap n (Plus (Cls number_unit))) (num_text x @ s, cs) = Some (s, (n, num_text x) # cs)"
    by (intro first_cap first_plus u(1,2) assms(2))
  have sp: "first_run spaces (32 # num_text x @ s, cs) = Some (num_text x @ s, cs)" using u(1,3) by (intro first_spaces(2)) simp
  have st: "first_run (Lit (js ''*'')) (42 # 32 # num_text x @ s, cs) = Some (32 # num_text x @ s, cs)"
    using first_lit [of "js ''*''" "32 # num_text x @ s"] by (simp add: js_eval)
  have sp1: "first_run spaces (32 # 42 # 32 # num_text x @ s, cs) = Some (42 # 32 # num_text x @ s, cs)" by (intro first_spaces(2)) simp
  have "first_run (Lit v) (v @ 32 # 42 # 32 # num_text x @ s, cs) = Some (32 # 42 # 32 # num_text x @ s, cs)" by (rule first_lit)
  from first_seq [OF this first_seq [OF sp1 first_seq [OF st first_seq [OF sp num]]]] show ?thesis
    by (simp add: price_pattern_def js_eval)
qed

lemma first_plus_price:
  assumes "printable x" "s = [] \<or> \<not> number_unit (hd s)" "word_name v"
  shows "first_run (Seqs (plus_pattern n v)) (js '' + '' @ v @ js '' * '' @ num_text x @ s, cs) = Some (s, (n, num_text x) # cs)"
proof -
  let ?r = "v @ js '' * '' @ num_text x @ s"
  have sp: "first_run spaces (32 # ?r, cs) = Some (?r, cs)" using word_name_head [OF assms(3)] by (intro first_spaces(2)) simp
  have p: "first_run (Lit (js ''+'')) (43 # 32 # ?r, cs) = Some (32 # ?r, cs)"
    using first_lit [of "js ''+''" "32 # ?r"] by (simp add: js_eval)
  have sp1: "first_run spaces (32 # 43 # 32 # ?r, cs) = Some (43 # 32 # ?r, cs)" by (intro first_spaces(2)) simp
  have q: "Seqs (plus_pattern n v) = Seq spaces (Seq (Lit (js ''+'')) (Seq spaces (Seqs (price_pattern n v))))"
    by (simp add: plus_pattern_def price_pattern_def)
  from first_seq [OF sp1 first_seq [OF p first_seq [OF sp first_price [OF assms(1,2)]]]] show ?thesis
    unfolding q by (simp add: js_eval)
qed

lemma consuming_price: "word_name v \<Longrightarrow> consuming (Seqs (plus_pattern n v))"
  by (simp add: plus_pattern_def price_pattern_def js_eval)

text \<open>A price for another variable, or the end of the call, does not match.\<close>

lemma other_price:
  assumes "word_name v" "word_name w" "v \<noteq> w"
  shows "runs (Seqs (plus_pattern n v)) (js '' + '' @ w @ js '' * '' @ s, cs) = []"
proof -
  obtain a u where v: "v = a # u" "is_word a" using assms(1) by (cases v) (auto simp: word_name_def)
  obtain b t where w: "w = b # t" "is_word b" using assms(2) by (cases w) (auto simp: word_name_def)
  let ?k = "Seq spaces (Seq (Lit (js ''*'')) (Seq spaces (Cap n (Plus (Cls number_unit)))))"
  have q: "Seqs (plus_pattern n v) = Seq spaces (Seq (Lit (js ''+'')) (Seq spaces (Seq (Lit v) ?k)))"
    by (simp add: plus_pattern_def price_pattern_def)
  have f: "fails is_space (Seq (Lit v) k)" "fails is_space (Seq (Lit [43]) k)" "fails is_space (Seq (Lit [42]) k)" for k
    using v word_not_space by auto
  have "runs (Seqs (plus_pattern n v)) (js '' + '' @ w @ js '' * '' @ s, cs) = runs (Seq (Lit v) ?k) (w @ js '' * '' @ s, cs)"
    unfolding q using w word_not_space by (simp add: runs_spaces f runs_seq_lit js_eval)
  also have "\<dots> = []"
  proof (cases "strip v (w @ js '' * '' @ s)")
    case (Some r)
    then have e: "w @ js '' * '' @ s = v @ r" by (metis append_take_drop_id option.distinct(1) option.inject starts_with_def strip_starts)
    have "\<exists>c r'. r = c # r' \<and> is_word c"
    proof -
      from e consider us where "w = v @ us" "us @ js '' * '' @ s = r" | us where "w @ us = v" "js '' * '' @ s = us @ r"
        by (auto simp: append_eq_append_conv2)
      then show ?thesis
      proof cases
        case 1
        then have "us \<noteq> []" using assms(3) by auto
        then show ?thesis using 1 assms(2) by (cases us) (auto simp: word_name_def)
      next
        case 2
        then have "us \<noteq> []" using assms(3) by auto
        then have "hd us = 32" using 2(2) by (cases us) (auto simp: js_eval)
        moreover have "is_word (hd us)" using 2(1) assms(1) \<open>us \<noteq> []\<close> by (cases us) (auto simp: word_name_def)
        ultimately show ?thesis by (simp add: is_word_def is_alpha_us_def is_digit_def)
      qed
    qed
    then obtain c r' where c: "r = c # r'" "is_word c" by blast
    then have "c \<noteq> 42" by (auto simp: is_word_def is_alpha_us_def is_digit_def)
    then show ?thesis using Some c word_not_space by (simp add: runs_seq_lit runs_spaces f js_eval)
  qed (simp add: runs_seq_lit)
  finally show ?thesis .
qed

lemma no_price: "runs (Seqs (plus_pattern n v)) (41 # s, cs) = []"
proof -
  have "fails is_space (Seq (Lit (js ''+'')) k)" for k by (simp add: js_eval)
  then show ?thesis by (simp add: plus_pattern_def price_pattern_def runs_spaces runs_seq_lit js_eval)
qed

fun costs_text :: "(jsstr \<times> jsnum) list \<Rightarrow> jsstr" where
  "costs_text [] = []"
| "costs_text ((v, x) # vxs) = (if x = Fin 0 then [] else js '' + '' @ v @ js '' * '' @ num_text x) @ costs_text vxs"

text \<open>The groups of the optional patterns, the first of which is \<open>n\<close>; the latest group comes first.\<close>

fun cost_groups :: "nat \<Rightarrow> (jsstr \<times> jsnum) list \<Rightarrow> (nat \<times> jsstr) list" where
  "cost_groups n [] = []"
| "cost_groups n ((v, x) # vxs) = cost_groups (n + 1) vxs @ (if x = Fin 0 then [] else [(n, num_text x)])"

definition costs_ok :: "(jsstr \<times> jsnum) list \<Rightarrow> bool" where
  "costs_ok vxs \<longleftrightarrow> distinct (map fst vxs) \<and> (\<forall>(v, x) \<in> set vxs. word_name v \<and> (x \<noteq> Fin 0 \<longrightarrow> printable x))"

lemma costs_text_cases:
  "costs_text vxs = [] \<or> (\<exists>w \<in> fst ` set vxs. \<exists>r. costs_text vxs = js '' + '' @ w @ js '' * '' @ r)"
  by (induction vxs rule: costs_text.induct) auto

lemma costs_text_head: "\<not> number_unit (hd (costs_text vxs @ 41 # s))"
  using costs_text_cases [of vxs] by (auto simp: js_eval)

lemma absent_cost:
  assumes "costs_ok ((v, x) # vxs)"
  shows "runs (Seqs (plus_pattern n v)) (costs_text vxs @ 41 # s, cs) = []"
  using costs_text_cases [of vxs]
proof
  assume "\<exists>w \<in> fst ` set vxs. \<exists>r. costs_text vxs = js '' + '' @ w @ js '' * '' @ r"
  then obtain w r where w: "w \<in> fst ` set vxs" "costs_text vxs = js '' + '' @ w @ js '' * '' @ r" by blast
  then have "word_name v" "word_name w" "v \<noteq> w" using assms by (auto simp: costs_ok_def)
  from other_price [OF this, of n "r @ 41 # s" cs] show ?thesis using w(2) by simp
qed (simp add: no_price)

lemma first_optional:
  "costs_ok vxs \<Longrightarrow> first_run (Seqs (optional_patterns n (map fst vxs) @ [Lit (js '')'')])) (costs_text vxs @ 41 # s, cs) =
     Some (s, cost_groups n vxs @ cs)"
proof (induction vxs arbitrary: n cs rule: costs_text.induct)
  case 1
  then show ?case using first_lit [of "js '')''" s cs] by (simp add: js_eval)
next
  case (2 v x vxs)
  have ok: "costs_ok vxs" "word_name v" "x \<noteq> Fin 0 \<Longrightarrow> printable x" using 2(2) by (auto simp: costs_ok_def)
  let ?g = "if x = Fin 0 then [] else [(n, num_text x)]"
  have "first_run (Opt (Seqs (plus_pattern n v))) (costs_text ((v, x) # vxs) @ 41 # s, cs) = Some (costs_text vxs @ 41 # s, ?g @ cs)"
  proof (cases "x = Fin 0")
    case True
    then show ?thesis using first_opt_none [OF absent_cost [OF 2(2)]] by simp
  next
    case False
    have "costs_text vxs @ 41 # s = [] \<or> \<not> number_unit (hd (costs_text vxs @ 41 # s))" using costs_text_head by blast
    from first_opt [OF consuming_price [OF ok(2)] first_plus_price [OF ok(3) [OF False] this ok(2)]] show ?thesis using False by simp
  qed
  from first_seqs [OF _ this 2(1) [OF ok(1), of "n + 1"]] show ?case by simp
qed

section \<open>Tiers\<close>

abbreviation extra_costs :: "editor_tier \<Rightarrow> (jsstr \<times> jsnum) list" where
  "extra_costs t \<equiv> map (\<lambda>cv. (snd cv, number_or_zero (unit_cost (vt_costs t) (fst cv)))) BILLING_CACHE_VAR_MAP"

lemma extra_costs_ok:
  assumes "tier_ok t"
  shows "costs_ok (extra_costs t)"
proof -
  have m: "map fst (extra_costs t) = map snd BILLING_CACHE_VAR_MAP" by simp
  have d: "distinct (map snd BILLING_CACHE_VAR_MAP)" "list_all word_name (map snd BILLING_CACHE_VAR_MAP)"
    unfolding cache_names by (simp, simp add: word_name_def js_eval is_word_def is_alpha_us_def is_digit_def)
  have "printable x" if "(v, x) \<in> set (extra_costs t)" "x \<noteq> Fin 0" for v x
    using assms that by (auto simp: tier_ok_def unit_prices_def)
  moreover have "word_name v" if "(v, x) \<in> set (extra_costs t)" for v x
    using d(2) that unfolding list_all_iff by auto
  ultimately show ?thesis using d(1) unfolding costs_ok_def m by blast
qed

lemma joined_costs: "join (js '' + '') (u # map cost_text (filter (\<lambda>(v, x). x \<noteq> Fin 0) vxs)) = u @ costs_text vxs"
proof (induction vxs arbitrary: u rule: costs_text.induct)
  case (2 v x vxs)
  have "join sep (a # b # xs) = a @ sep @ join sep (b # xs)" for sep a b and xs :: "jsstr list" by simp
  then show ?case using 2 [of u] 2 [of "v @ js '' * '' @ num_text x"] by (cases "x = Fin 0") (simp_all del: join.simps(3))
qed simp

lemma written_body:
  assumes "tier_ok t"
  shows "buildTierBodyExpr t = js ''p'' @ js '' * '' @ num_text (number_or_zero (vt_input_unit_cost t)) @ js '' + '' @ js ''c'' @ js '' * '' @
    num_text (number_or_zero (vt_output_unit_cost t)) @ costs_text (extra_costs t)"
proof -
  have "buildTierBodyExpr t = join (js '' + '') (map cost_text (unit_prices t))" using assms by (intro tier_body_text) (simp add: tier_ok_def)
  also have "\<dots> = cost_text (js ''p'', number_or_zero (vt_input_unit_cost t)) @ js '' + '' @
      join (js '' + '') (cost_text (js ''c'', number_or_zero (vt_output_unit_cost t)) # map cost_text (filter (\<lambda>(v, x). x \<noteq> Fin 0) (extra_costs t)))"
    by (simp add: unit_prices_def)
  finally show ?thesis unfolding joined_costs by simp
qed

definition tier_groups :: "nat \<Rightarrow> editor_tier \<Rightarrow> (nat \<times> jsstr) list" where
  "tier_groups n t = cost_groups (n + 3) (extra_costs t) @
     [(n + 2, num_text (number_or_zero (vt_output_unit_cost t))), (n + 1, num_text (number_or_zero (vt_input_unit_cost t))), (n, vt_label t)]"

lemma first_tier_call:
  assumes "tier_ok t"
  shows "first_run (Seqs (tier_pattern n)) (call_text t @ s, cs) = Some (s, tier_groups n t @ cs)"
proof -
  let ?i = "number_or_zero (vt_input_unit_cost t)" and ?o = "number_or_zero (vt_output_unit_cost t)"
  have p: "printable ?i" "printable ?o" using assms by (auto simp: tier_ok_def unit_prices_def)
  have l: "\<forall>c \<in> set (vt_label t). c \<noteq> 34" "vt_label t \<noteq> []" using assms by (auto simp: tier_ok_def plain_unit_def)
  define r3 where "r3 = costs_text (extra_costs t) @ 41 # s"
  define r2 where "r2 = js '' + '' @ js ''c'' @ js '' * '' @ num_text ?o @ r3"
  define r1 where "r1 = js ''p'' @ js '' * '' @ num_text ?i @ r2"
  have written: "call_text t @ s = js ''tier(\"'' @ vt_label t @ js ''\",'' @ 32 # r1"
    using l(2) by (simp add: tier_call_text_def written_body [OF assms] r1_def r2_def r3_def js_eval)
  have h: "\<not> number_unit (hd r2)" "\<not> number_unit (hd r3)" "\<not> is_space (hd r1)" "r1 \<noteq> []"
    unfolding r3_def using costs_text_head by (simp_all add: r2_def r1_def js_eval is_space_def)
  have w: "word_name (js ''c'')" by (simp add: word_name_def js_eval is_word_def is_alpha_us_def)
  let ?c1 = "(n, vt_label t) # cs" and ?c2 = "(n + 1, num_text ?i) # (n, vt_label t) # cs"
  let ?c3 = "(n + 2, num_text ?o) # (n + 1, num_text ?i) # (n, vt_label t) # cs"
  have a5: "first_run (Seqs (optional_patterns (n + 3) (map snd BILLING_CACHE_VAR_MAP) @ [Lit (js '')'')])) (r3, ?c3) =
      Some (s, cost_groups (n + 3) (extra_costs t) @ ?c3)"
    unfolding r3_def using first_optional [OF extra_costs_ok [OF assms], of "n + 3" s ?c3] by (simp add: o_def)
  have a4: "first_run (Seqs (plus_pattern (n + 2) (js ''c''))) (r2, ?c2) = Some (r3, ?c3)"
    unfolding r2_def by (rule first_plus_price [OF p(2) _ w]) (use h(2) in blast)
  have a3: "first_run (Seqs (price_pattern (n + 1) (js ''p''))) (r1, ?c1) = Some (r2, ?c2)"
    unfolding r1_def by (rule first_price [OF p(1)]) (use h(1) in blast)
  have a2: "first_run spaces (32 # r1, ?c1) = Some (r1, ?c1)" using h(3) by (intro first_spaces(2)) blast
  have a1: "first_run (Lit (js ''\",'')) (js ''\",'' @ 32 # r1, ?c1) = Some (32 # r1, ?c1)" by (rule first_lit)
  have a0: "first_run (Cap n (Star (Cls (\<lambda>c. c \<noteq> 34)))) (vt_label t @ js ''\",'' @ 32 # r1, cs) = Some (js ''\",'' @ 32 # r1, ?c1)"
    by (rule first_cap, rule first_star_class) (use l(1) in \<open>simp_all add: js_eval\<close>)
  have b: "first_run (Seqs (price_pattern (n + 1) (js ''p'') @ plus_pattern (n + 2) (js ''c'') @
      optional_patterns (n + 3) (map snd BILLING_CACHE_VAR_MAP) @ [Lit (js '')'')])) (r1, ?c1) = Some (s, tier_groups n t @ cs)"
    using first_seqs_append [OF _ _ a3 first_seqs_append [OF _ _ a4 a5]] by (simp add: price_pattern_def plus_pattern_def tier_groups_def)
  have "first_run (Lit (js ''tier(\"'')) (call_text t @ s, cs) = Some (vt_label t @ js ''\",'' @ 32 # r1, cs)"
    unfolding written by (rule first_lit)
  from first_seqs [OF _ this first_seqs [OF _ a0 first_seqs [OF _ a1 first_seqs [OF _ a2 b]]]] show ?thesis
    by (simp add: tier_pattern_def price_pattern_def)
qed

section \<open>Conditions\<close>

text \<open>The patterns of conditions have no minus sign: bounds below a millionth are not read.\<close>

definition readable_condition :: "tier_condition \<Rightarrow> bool" where
  "readable_condition c \<longleftrightarrow> bound_condition_ok c \<and> list_all bound_unit (num_text (bound_number (ti_value c)))"

lemma first_variable:
  assumes "v \<in> {js ''p'', js ''c'', js ''len''}"
  shows "first_run variable_pattern (v @ s, cs) = Some (s, cs)"
  using assms by (auto simp: variable_pattern_def first_run_def runs.simps lit_runs_def starts_with_def js_eval)

lemma first_operator:
  assumes "q \<in> set ordering_operators" "\<And>t cs. runs k (61 # t, cs) = []"
  shows "first_run k (32 # r, cs) = Some x \<Longrightarrow> first_run (Seq operator_pattern k) (q @ 32 # r, cs) = Some x"
    "first_run k (32 # r, (n, q) # cs) = Some x \<Longrightarrow> first_run (Seq (Cap n operator_pattern) k) (q @ 32 # r, cs) = Some x"
  using assms
  by (auto simp: ordering_operators_def operator_pattern_def first_run_def runs_seq_alt runs_seq_lit runs_seq_cap_alt runs_seq_cap_lit js_eval
      split: list.splits)

text \<open>The bound after an operator, with or without a group.\<close>

lemma bound_after_equals: "runs (Seq spaces (Plus (Cls bound_unit))) (61 # t, cs) = []"
  "runs (Seq spaces (Seq (Cap n (Plus (Cls bound_unit))) k)) (61 # t, cs) = []"
proof -
  have b: "\<not> bound_unit c" if "is_space c" for c using that by (auto simp: bound_unit_def is_space_def is_digit_def)
  then have "fails is_space (Plus (Cls bound_unit))" "fails is_space (Seq (Cap n (Plus (Cls bound_unit))) k)"
    by (auto simp: fails_def Plus_def runs.simps)
  then show "runs (Seq spaces (Plus (Cls bound_unit))) (61 # t, cs) = []"
    "runs (Seq spaces (Seq (Cap n (Plus (Cls bound_unit))) k)) (61 # t, cs) = []"
    by (simp_all add: runs_spaces) (simp_all add: Plus_def runs.simps is_space_def bound_unit_def is_digit_def)
qed

lemma readable_parts:
  assumes "readable_condition c"
  obtains v where "ti_var c \<in> {js ''p'', js ''c'', js ''len''}" "ti_op c \<in> set ordering_operators" "ti_value c = Number_bound v"
    "printable v" "bound_number (ti_value c) = v" "\<forall>x \<in> set (num_text v). bound_unit x"
  using assms by (auto simp: readable_condition_def bound_condition_ok_def bound_number_def list_all_iff)

lemma operator_head: "q \<in> set ordering_operators \<Longrightarrow> q \<noteq> [] \<and> \<not> is_space (hd q)"
  by (auto simp: ordering_operators_def js_eval is_space_def)

lemma first_comparison:
  assumes "readable_condition c" "s = [] \<or> \<not> bound_unit (hd s)"
  shows "first_run comparison_pattern (comparison_text c @ s, cs) = Some (s, cs)"
proof -
  obtain v where c: "ti_var c \<in> {js ''p'', js ''c'', js ''len''}" "ti_op c \<in> set ordering_operators"
      "printable v" "bound_number (ti_value c) = v" "\<forall>x \<in> set (num_text v). bound_unit x"
    using readable_parts [OF assms(1)] by metis
  note u = number_text_units [OF c(3)]
  have n: "first_run (Seq spaces (Plus (Cls bound_unit))) (32 # num_text v @ s, cs) = Some (s, cs)"
    by (rule first_seq [OF first_spaces(2) first_plus [OF u(1) c(5) assms(2)]]) (use u(1,3) in simp)
  have o: "first_run (Seq operator_pattern (Seq spaces (Plus (Cls bound_unit)))) (ti_op c @ 32 # num_text v @ s, cs) = Some (s, cs)"
    by (rule first_operator(1) [OF c(2) bound_after_equals(1) n])
  have sp: "first_run spaces (32 # ti_op c @ 32 # num_text v @ s, cs) = Some (ti_op c @ 32 # num_text v @ s, cs)"
    using operator_head [OF c(2)] by (intro first_spaces(2)) simp
  from first_seq [OF first_variable [OF c(1)] first_seq [OF sp o]] show ?thesis
    by (simp add: comparison_pattern_def c(4) js_eval)
qed

lemma comparison_head: "readable_condition c \<Longrightarrow> comparison_text c \<noteq> [] \<and> \<not> is_space (hd (comparison_text c)) \<and> hd (comparison_text c) \<in> {112, 99, 108}"
  by (elim readable_parts) (auto simp: js_eval is_space_def)

definition and_pattern :: rexp where
  "and_pattern = Seqs [spaces, Lit (js ''&&''), spaces, comparison_pattern]"

lemma consuming_and: "consuming and_pattern"
  by (simp add: and_pattern_def js_eval)

lemma first_and:
  assumes "readable_condition c" "s = [] \<or> \<not> bound_unit (hd s)"
  shows "first_run and_pattern (js '' && '' @ comparison_text c @ s, cs) = Some (s, cs)"
proof -
  let ?r = "comparison_text c @ s"
  have sp: "first_run spaces (32 # ?r, cs) = Some (?r, cs)"
    using comparison_head [OF assms(1)] by (intro first_spaces(2) disjI2) (metis hd_append2)
  have a: "first_run (Lit (js ''&&'')) (38 # 38 # 32 # ?r, cs) = Some (32 # ?r, cs)" using first_lit [of "js ''&&''" "32 # ?r" cs] by (simp add: js_eval)
  have sp1: "first_run spaces (32 # 38 # 38 # 32 # ?r, cs) = Some (38 # 38 # 32 # ?r, cs)" by (intro first_spaces(2)) simp
  from first_seq [OF sp1 first_seq [OF a first_seq [OF sp first_comparison [OF assms]]]] show ?thesis
    by (simp add: and_pattern_def js_eval)
qed

lemma no_and: "runs and_pattern (32 # 63 # s, cs) = []"
proof -
  have "fails is_space (Seq (Lit [38, 38]) k)" for k by simp
  then show ?thesis by (simp add: and_pattern_def runs_spaces runs_seq_lit js_eval)
qed

lemma first_ands:
  "\<forall>c \<in> set xs. readable_condition c \<Longrightarrow>
   first_run (Star and_pattern) (concat (map (\<lambda>c. js '' && '' @ comparison_text c) xs) @ 32 # 63 # s, cs) = Some (32 # 63 # s, cs)"
proof (induction xs)
  case Nil
  then show ?case using first_star_none [OF consuming_and no_and] by simp
next
  case (Cons c xs)
  let ?r = "concat (map (\<lambda>c. js '' && '' @ comparison_text c) xs) @ 32 # 63 # s"
  have "hd ?r = 32" by (cases xs) (auto simp: js_eval)
  then have "first_run and_pattern (js '' && '' @ comparison_text c @ ?r, cs) = Some (?r, cs)"
    using Cons.prems by (intro first_and) simp_all
  from first_star [OF consuming_and this] show ?case using Cons by simp
qed

lemma joined_list: "join sep (map f (x # xs)) = f x @ concat (map (\<lambda>y. sep @ f y) xs)"
  by (induction xs arbitrary: x) auto

lemma first_conditions:
  assumes "\<forall>c \<in> set xs. readable_condition c" "xs \<noteq> []"
  shows "first_run condGroup (join (js '' && '') (map comparison_text xs) @ 32 # 63 # s, cs) =
    Some (32 # 63 # s, (1, join (js '' && '') (map comparison_text xs)) # cs)"
proof -
  obtain c ys where x: "xs = c # ys" using assms(2) by (cases xs) auto
  let ?r = "concat (map (\<lambda>c. js '' && '' @ comparison_text c) ys) @ 32 # 63 # s"
  have "hd ?r = 32" by (cases ys) (auto simp: js_eval)
  then have "first_run comparison_pattern (comparison_text c @ ?r, cs) = Some (?r, cs)"
    using assms(1) x by (intro first_comparison) simp_all
  from first_seq [OF this first_ands] have
    "first_run (Seq comparison_pattern (Star and_pattern)) (join (js '' && '') (map comparison_text xs) @ 32 # 63 # s, cs) = Some (32 # 63 # s, cs)"
    using assms(1) unfolding x joined_list by simp
  from first_cap [OF this] show ?thesis by (simp add: condGroup_def and_pattern_def)
qed

section \<open>All tiers\<close>

definition readable_tiers :: "editor_tier list \<Rightarrow> bool" where
  "readable_tiers ts \<longleftrightarrow> tiers_ok ts \<and> (\<forall>t \<in> set ts. list_all readable_condition (vt_conditions t))"

lemma readable_tiers_simps:
  "readable_tiers [t] \<longleftrightarrow> tier_ok t \<and> vt_conditions t = []"
  "readable_tiers (t # u # ts) \<longleftrightarrow>
     tier_ok t \<and> vt_conditions t \<noteq> [] \<and> list_all readable_condition (vt_conditions t) \<and> readable_tiers (u # ts)"
  by (auto simp: readable_tiers_def tiers_ok_simps)

lemma no_condition:
  assumes "s = [] \<or> hd s \<notin> {112, 99, 108}"
  shows "runs (Seqs [condGroup, spaces, Lit (js ''?''), spaces]) (s, cs) = []"
proof -
  have "runs variable_pattern (s, cs) = []"
    using assms by (cases s) (auto simp: variable_pattern_def runs.simps lit_runs_def starts_with_def js_eval)
  then show ?thesis by (simp add: condGroup_def comparison_pattern_def runs.simps)
qed

lemma no_tier: "c \<noteq> 116 \<Longrightarrow> runs (Seqs (tier_pattern n @ xs)) (c # s, cs) = []"
  by (simp add: tier_pattern_def runs_seq_lit price_pattern_def js_eval)

lemma tierRe_Seq: "tierRe = Seq (Opt (Seqs [condGroup, spaces, Lit (js ''?''), spaces])) (Seqs (tier_pattern 2))"
  by (simp add: tierRe_def tier_pattern_def price_pattern_def)

lemma tierRe_skips: "c \<in> {32, 58} \<Longrightarrow> runs tierRe (c # s, []) = []"
  using no_condition [of "c # s" "[]"] no_tier [of c 2 "[]" s "[]"] by (auto simp: tierRe_Seq runs.simps(3,5))

lemma tierRe_ends: "runs tierRe ([], []) = []"
  using no_condition [of "[]" "[]"]
  by (simp add: tierRe_Seq runs.simps(3,5)) (simp add: tier_pattern_def price_pattern_def runs_seq_lit js_eval)

lemma call_text_head: "\<exists>r. call_text t = 116 # r"
  by (simp add: tier_call_text_def js_eval)

lemma first_last_tier:
  assumes "tier_ok t"
  shows "first_run tierRe (call_text t @ s, []) = Some (s, tier_groups 2 t)"
proof -
  have "runs (Seqs [condGroup, spaces, Lit (js ''?''), spaces]) (call_text t @ s, []) = []"
    using call_text_head [of t] by (intro no_condition) auto
  from first_seq [OF first_opt_none [OF this] first_tier_call [OF assms]] show ?thesis by (simp add: tierRe_Seq)
qed

lemma first_conditional_tier:
  assumes "tier_ok t" "\<forall>c \<in> set (vt_conditions t). readable_condition c" "vt_conditions t \<noteq> []"
  shows "first_run tierRe (buildConditionStr (vt_conditions t) @ js '' ? '' @ call_text t @ s, []) =
    Some (s, tier_groups 2 t @ [(1, buildConditionStr (vt_conditions t))])"
proof -
  let ?c = "buildConditionStr (vt_conditions t)" and ?r = "call_text t @ s"
  have c: "?c = join (js '' && '') (map comparison_text (vt_conditions t))"
    using assms(2) by (intro conditions_text) (simp add: list_all_iff readable_condition_def)
  have g: "first_run condGroup (?c @ 32 # 63 # 32 # ?r, []) = Some (32 # 63 # 32 # ?r, [(1, ?c)])"
    unfolding c by (rule first_conditions [OF assms(2,3)])
  have sp: "first_run spaces (32 # 63 # 32 # ?r, [(1, ?c)]) = Some (63 # 32 # ?r, [(1, ?c)])" by (intro first_spaces(2)) simp
  have q: "first_run (Lit (js ''?'')) (63 # 32 # ?r, [(1, ?c)]) = Some (32 # ?r, [(1, ?c)])"
    using first_lit [of "js ''?''" "32 # ?r"] by (simp add: js_eval)
  have sp1: "first_run spaces (32 # ?r, [(1, ?c)]) = Some (?r, [(1, ?c)])"
    using call_text_head [of t] by (intro first_spaces(2)) (auto simp: is_space_def)
  have "first_run (Seqs [condGroup, spaces, Lit (js ''?''), spaces]) (?c @ 32 # 63 # 32 # ?r, []) = Some (?r, [(1, ?c)])"
    using first_seq [OF g first_seq [OF sp first_seq [OF q sp1]]] by simp
  moreover have "consuming (Seqs [condGroup, spaces, Lit (js ''?''), spaces])" by (simp add: js_eval)
  ultimately have "first_run (Opt (Seqs [condGroup, spaces, Lit (js ''?''), spaces])) (?c @ 32 # 63 # 32 # ?r, []) = Some (?r, [(1, ?c)])"
    by (rule first_opt [rotated])
  from first_seq [OF this first_tier_call [OF assms(1)]] show ?thesis by (simp add: tierRe_Seq js_eval)
qed

lemma exec_first: "s \<noteq> [] \<Longrightarrow> first_run r (s, []) = Some x \<Longrightarrow> exec_from r s = Some x"
  by (cases s) (auto simp: first_run_def split: list.splits)

lemma exec_skip: "runs r (c # s, []) = [] \<Longrightarrow> exec_from r (c # s) = exec_from r s"
  by simp

text \<open>The groups of the matches, tier by tier.\<close>

definition match_groups :: "editor_tier \<Rightarrow> (nat \<times> jsstr) list" where
  "match_groups t = tier_groups 2 t @ (if vt_conditions t = [] then [] else [(1, buildConditionStr (vt_conditions t))])"

text \<open>A match of a consuming pattern leaves less than there was, so that the loop over matches goes on.\<close>

lemma exec_shorter: "consuming r \<Longrightarrow> exec_from r s = Some (rest, g) \<Longrightarrow> length rest < length s"
proof (induction r s rule: exec_from.induct)
  case (1 r)
  then show ?case using runs_consume [of r "(rest, g)" "([], [])"] by (auto simp: consumes_def split: list.splits)
next
  case (2 r c s)
  show ?case
  proof (cases "runs r (c # s, [])")
    case Nil
    then show ?thesis using 2 by simp
  next
    case (Cons x xs)
    then show ?thesis using 2(2,3) runs_consume [of r x "(c # s, [])"] by (auto simp: consumes_def)
  qed
qed

lemma matches_unfold:
  "consuming r \<Longrightarrow> all_matches r s = (case exec_from r s of None \<Rightarrow> [] | Some (rest, g) \<Rightarrow> g # all_matches r rest)"
  using exec_shorter [of r s] by (subst all_matches.simps) (auto split: option.splits)

lemma consuming_tierRe: "consuming tierRe"
  by (simp add: tierRe_Seq tier_pattern_def price_pattern_def js_eval)

lemma matches_skip: "consuming r \<Longrightarrow> runs r (c # s, []) = [] \<Longrightarrow> all_matches r (c # s) = all_matches r s"
  by (simp add: matches_unfold [of r "c # s"] matches_unfold [of r s] del: all_matches.simps)

lemma tiers_matched: "readable_tiers ts \<Longrightarrow> all_matches tierRe (tiers_text ts) = map match_groups ts"
proof (induction ts rule: induct_list012)
  case (2 t)
  then have t: "tier_ok t" "vt_conditions t = []" by (simp_all add: readable_tiers_simps)
  have "exec_from tierRe (call_text t) = Some ([], tier_groups 2 t)"
    using exec_first [OF _ first_last_tier [OF t(1), of "[]"]] call_text_head [of t] by auto
  moreover have "all_matches tierRe [] = []" by (simp add: tierRe_ends)
  ultimately show ?case using t(2) by (simp add: matches_unfold [OF consuming_tierRe, of "call_text t"] match_groups_def del: all_matches.simps)
next
  case (3 t u ts)
  then have t: "tier_ok t" "\<forall>c \<in> set (vt_conditions t). readable_condition c" "vt_conditions t \<noteq> []" "readable_tiers (u # ts)"
    by (simp_all add: readable_tiers_simps list_all_iff)
  let ?r = "js '' : '' @ tiers_text (u # ts)"
  have "exec_from tierRe (tiers_text (t # u # ts)) = Some (?r, match_groups t)"
    using exec_first [OF _ first_conditional_tier [OF t(1-3), of ?r]] t(3) by (simp add: match_groups_def js_eval)
  moreover have "all_matches tierRe ?r = all_matches tierRe (tiers_text (u # ts))"
    by (simp add: js_eval matches_skip consuming_tierRe tierRe_skips del: all_matches.simps)
  ultimately show ?case using 3(2) [OF t(4)] by (simp add: matches_unfold [OF consuming_tierRe, of "tiers_text (t # u # ts)"] del: all_matches.simps tiers_text.simps)
qed (simp add: readable_tiers_def tiers_ok_def)

section \<open>What the groups say\<close>

lemma split_pieces:
  "38 \<notin> set u \<Longrightarrow> split_and acc u = [trim (acc @ u)]"
  "38 \<notin> set u \<Longrightarrow> split_and acc (u @ 38 # 38 # s) = trim (acc @ u) # split_and [] s"
proof -
  show "38 \<notin> set u \<Longrightarrow> split_and acc u = [trim (acc @ u)]"
    by (induction acc u rule: split_and.induct) auto
  show "38 \<notin> set u \<Longrightarrow> split_and acc (u @ 38 # 38 # s) = trim (acc @ u) # split_and [] s"
  proof (induction u arbitrary: acc)
    case (Cons c u)
    then obtain d r where "u @ 38 # 38 # s = d # r" "c \<noteq> 38" by (cases "u @ 38 # 38 # s") auto
    then show ?case using Cons by simp
  qed simp
qed

lemma trim_padded:
  assumes "firm x" "list_all is_space a" "list_all is_space b"
  shows "trim (a @ x @ b) = x"
proof -
  have "dropWhile is_space (a @ x @ b) = x @ b" using assms(1,2) by (cases x) (auto simp: firm_def list_all_iff dropWhile_append2)
  moreover have "dropWhile is_space (rev b @ rev x) = rev x"
  proof -
    have "\<forall>c \<in> set (rev b). is_space c" using assms(3) by (simp add: list_all_iff)
    then have "dropWhile is_space (rev b @ rev x) = dropWhile is_space (rev x)" by (simp add: dropWhile_append2 del: set_rev)
    then show ?thesis using assms(1) by (cases x rule: rev_cases) (auto simp: firm_def)
  qed
  ultimately show ?thesis by (simp add: trim_def)
qed

lemma comparison_units:
  assumes "readable_condition c"
  shows "38 \<notin> set (comparison_text c)" "firm (comparison_text c)"
proof -
  obtain v where c: "ti_var c \<in> {js ''p'', js ''c'', js ''len''}" "ti_op c \<in> set ordering_operators"
      "printable v" "bound_number (ti_value c) = v"
    using readable_parts [OF assms] by metis
  note u = number_text_units [OF c(3)]
  have "\<not> number_unit 38" by (simp add: number_unit_def is_digit_def)
  then have n: "38 \<notin> set (num_text v)" using u(2) by blast
  show "38 \<notin> set (comparison_text c)" using c(1,2) n unfolding c(4) by (auto simp: ordering_operators_def js_eval)
  have "\<not> is_space (last (num_text v))" using u(1,2) number_unit_not_space by simp
  then show "firm (comparison_text c)" using comparison_head [OF assms] u(1) unfolding c(4) by (simp add: firm_def js_eval)
qed

lemma split_joined:
  "\<forall>c \<in> set (c # xs). readable_condition c \<Longrightarrow> list_all is_space acc \<Longrightarrow>
   split_and acc (join (js '' && '') (map comparison_text (c # xs))) = map comparison_text (c # xs)"
proof (induction xs arbitrary: c acc)
  case Nil
  then show ?case using comparison_units [of c] trim_padded [of "comparison_text c" acc "[]"] split_pieces(1) [of "comparison_text c" acc]
    by simp
next
  case (Cons d xs)
  have c: "38 \<notin> set (comparison_text c @ [32])" "firm (comparison_text c)" using Cons.prems(1) comparison_units [of c] by simp_all
  let ?r = "join (js '' && '') (map comparison_text (d # xs))"
  have "?r \<noteq> []" using Cons.prems(1) comparison_head [of d] by (cases xs) simp_all
  then obtain y r where y: "?r = y # r" by (cases ?r) auto
  have "join (js '' && '') (map comparison_text (c # d # xs)) = (comparison_text c @ [32]) @ 38 # 38 # 32 # ?r" by (simp add: js_eval)
  then have "split_and acc (join (js '' && '') (map comparison_text (c # d # xs))) = trim (acc @ comparison_text c @ [32]) # split_and [] (32 # ?r)"
    using split_pieces(2) [OF c(1), of acc "32 # ?r"] by (simp only: append_assoc)
  also have "split_and [] (32 # ?r) = split_and [32] ?r" unfolding y by simp
  also have "\<dots> = map comparison_text (d # xs)" using Cons.IH [of d "[32]"] Cons.prems(1) by simp
  also have "trim (acc @ comparison_text c @ [32]) = comparison_text c" using trim_padded [OF c(2) Cons.prems(2), of "[32]"] by simp
  finally show ?case by simp
qed

lemma condition_read:
  assumes "readable_condition c"
  shows "read_condition (comparison_text c) = [c]"
proof -
  obtain v where c: "ti_var c \<in> {js ''p'', js ''c'', js ''len''}" "ti_op c \<in> set ordering_operators" "ti_value c = Number_bound v"
      "printable v" "bound_number (ti_value c) = v" "\<forall>x \<in> set (num_text v). bound_unit x"
    using readable_parts [OF assms] by metis
  note u = number_text_units [OF c(4)]
  let ?g1 = "[(1, ti_var c)]" and ?g2 = "[(2, ti_op c), (1, ti_var c)]" and ?g3 = "[(3, num_text v), (2, ti_op c), (1, ti_var c)]"
  have e: "first_run At_end ([], ?g3) = Some ([], ?g3)" by (simp add: first_run_def runs.simps)
  have "first_run (Plus (Cls bound_unit)) (num_text v @ [], ?g2) = Some ([], ?g2)" by (intro first_plus u(1) c(6)) simp
  from first_cap [OF this] have b: "first_run (Cap 3 (Plus (Cls bound_unit))) (num_text v, ?g2) = Some ([], ?g3)" by simp
  have sp: "first_run spaces (32 # num_text v, ?g2) = Some (num_text v, ?g2)" using u(1,3) by (intro first_spaces(2)) simp
  have "first_run (Seq spaces (Seq (Cap 3 (Plus (Cls bound_unit))) At_end)) (32 # num_text v, (2, ti_op c) # ?g1) = Some ([], ?g3)"
    using first_seq [OF sp first_seq [OF b e]] by simp
  from first_operator(2) [OF c(2) bound_after_equals(2) this]
  have o: "first_run (Seq (Cap 2 operator_pattern) (Seq spaces (Seq (Cap 3 (Plus (Cls bound_unit))) At_end))) (ti_op c @ 32 # num_text v, ?g1) = Some ([], ?g3)" .
  have sp1: "first_run spaces (32 # ti_op c @ 32 # num_text v, ?g1) = Some (ti_op c @ 32 # num_text v, ?g1)"
    using operator_head [OF c(2)] by (intro first_spaces(2)) simp
  have "first_run (Cap 1 variable_pattern) (ti_var c @ 32 # ti_op c @ 32 # num_text v, []) = Some (32 # ti_op c @ 32 # num_text v, ?g1)"
    by (intro first_cap first_variable c(1))
  from first_seq [OF this first_seq [OF sp1 o]]
  have "first_run (Seqs (conditionRe @ [At_end])) (comparison_text c, []) = Some ([], ?g3)"
    unfolding c(5) by (simp add: conditionRe_def js_eval)
  then show ?thesis using u(4) c(3) by (auto simp: read_condition_def match_all_def first_run_def split: list.splits)
qed

lemma tier_conditions_read:
  assumes "\<forall>c \<in> set xs. readable_condition c"
  shows "read_conditions (buildConditionStr xs) = xs"
proof (cases xs)
  case Nil
  then show ?thesis by (simp add: buildConditionStr_def read_conditions_def)
next
  case (Cons c ys)
  have ok: "list_all bound_condition_ok xs" using assms by (simp add: list_all_iff readable_condition_def)
  have "split_and [] (buildConditionStr xs) = map comparison_text xs"
    unfolding conditions_text [OF ok] unfolding Cons using split_joined [of c ys "[]"] assms Cons by simp
  moreover have "concat (map read_condition (map comparison_text zs)) = zs" if "\<forall>c \<in> set zs. readable_condition c" for zs
    using that by (induction zs) (simp_all add: condition_read)
  note this [OF assms]
  moreover have "buildConditionStr xs \<noteq> []" using Cons conditions_text_Nil [OF ok] by simp
  ultimately show ?thesis unfolding read_conditions_def by (simp only: if_False)
qed

lemma cost_groups_keys: "k < n \<Longrightarrow> map_of (cost_groups n vxs @ g) k = map_of g k"
proof -
  have "k < n \<Longrightarrow> map_of (cost_groups n vxs) k = None"
    by (induction n vxs rule: cost_groups.induct) auto
  then show "k < n \<Longrightarrow> ?thesis" by (simp add: map_add_def)
qed

lemma costs_read:
  assumes "\<forall>k \<ge> n. map_of g k = None" "\<forall>(v, x) \<in> set (map snd fvxs). x \<noteq> Fin 0 \<longrightarrow> printable x"
  shows "read_costs (cost_groups n (map snd fvxs) @ g) n (map fst fvxs) = concat (map (\<lambda>(f, v, x). if x = Fin 0 then [] else [(f, x)]) fvxs)"
  using assms
proof (induction fvxs arbitrary: n g)
  case (Cons fvx fvxs)
  obtain f v x where f: "fvx = (f, v, x)" by (cases fvx)
  let ?h = "if x = Fin 0 then [] else [(n, num_text x)]"
  have "map_of (cost_groups (n + 1) (map snd fvxs) @ ?h @ g) n = map_of (?h @ g) n" by (rule cost_groups_keys) simp
  moreover have "read_costs (cost_groups (n + 1) (map snd fvxs) @ ?h @ g) (n + 1) (map fst fvxs) =
      concat (map (\<lambda>(f, v, x). if x = Fin 0 then [] else [(f, x)]) fvxs)"
    using Cons.prems by (intro Cons.IH) auto
  moreover have "x \<noteq> Fin 0 \<Longrightarrow> string_number (num_text x) = x" using Cons.prems(2) f number_text_units(4) by auto
  ultimately show ?case using Cons.prems(1) f by auto
qed simp

lemma number_or_zero_idem [simp]: "number_or_zero (number_or_zero x) = number_or_zero x"
  by (simp add: number_or_zero_def is_zero_def)

lemma folded_costs: "map_of (foldl (\<lambda>m f. omap_set f (h f) m) m fs) k = (if k \<in> set fs then Some (h k) else map_of m k)"
  by (induction fs arbitrary: m) auto

text \<open>Normalisation keeps the prices.\<close>

lemma normal_costs: "number_or_zero (unit_cost (vt_costs (normalizeVisualTier p)) f) = number_or_zero (unit_cost (pt_costs p) f)"
  by (simp add: normalizeVisualTier_def unit_cost_def [of "foldl _ _ _"] folded_costs) (simp add: unit_cost_def)

lemma normal_prices: "unit_prices (normalizeVisualTier (as_partial t)) = unit_prices t"
  by (simp add: unit_prices_def normal_costs) (simp add: normalizeVisualTier_def as_partial_def)

lemma cache_fields: "distinct (map fst BILLING_CACHE_VAR_MAP)"
  by (simp add: BILLING_CACHE_VAR_MAP_def BILLING_EXTRA_VARS_def BILLING_VARS_def extra_var_def)

lemma listed_costs:
  "distinct (map fst ms) \<Longrightarrow> m \<in> set ms \<Longrightarrow>
   number_or_zero (unit_cost (concat (map (\<lambda>m. if number_or_zero (h m) = Fin 0 then [] else [(fst m, number_or_zero (h m))]) ms)) (fst m)) =
   number_or_zero (h m)"
proof (induction ms)
  case (Cons a ms)
  have other: "map_of (concat (map (\<lambda>m. if number_or_zero (h m) = Fin 0 then [] else [(fst m, number_or_zero (h m))]) ms)) k = None"
    if "k \<notin> fst ` set ms" for k
    using that by (induction ms) auto
  show ?case
  proof (cases "m = a")
    case True
    then show ?thesis using other [of "fst a"] Cons.prems(1) by (auto simp: unit_cost_def number_or_zero_def)
  next
    case False
    then have "m \<in> set ms" "fst m \<noteq> fst a" using Cons.prems by (auto simp: image_iff)
    then show ?thesis using Cons by (simp add: unit_cost_def)
  qed
qed simp

definition same_tier :: "editor_tier \<Rightarrow> editor_tier \<Rightarrow> bool" where
  "same_tier t u \<longleftrightarrow> vt_billing_unit u = None \<and> vt_label u = vt_label t \<and> vt_conditions u = vt_conditions t \<and> unit_prices u = unit_prices t"

lemma same_tier_normal: "same_tier t u \<Longrightarrow> same_tier t (normalizeVisualTier (as_partial u))"
  using normal_prices [of u] by (simp add: same_tier_def) (simp add: normalizeVisualTier_def as_partial_def)

lemma tier_read_back:
  assumes "tier_ok t" "\<forall>k \<ge> n. map_of g k = None"
  shows "same_tier t (matched_tier (vt_conditions t) n (tier_groups n t @ g))"
proof -
  let ?i = "number_or_zero (vt_input_unit_cost t)" and ?o = "number_or_zero (vt_output_unit_cost t)"
  let ?h = "\<lambda>cv. unit_cost (vt_costs t) (fst cv)"
  let ?g = "[(n + 2, num_text ?o), (n + 1, num_text ?i), (n, vt_label t)] @ g" and ?G = "tier_groups n t @ g"
  let ?fs = "map (\<lambda>cv. (fst cv, snd cv, number_or_zero (?h cv))) BILLING_CACHE_VAR_MAP"
  let ?u = "matched_tier (vt_conditions t) n ?G"
  have p: "printable ?i" "printable ?o" using assms(1) by (auto simp: tier_ok_def unit_prices_def)
  have G: "?G = cost_groups (n + 3) (map snd ?fs) @ ?g" by (simp add: tier_groups_def o_def)
  have k: "map_of ?G k = map_of ?g k" if "k < n + 3" for k unfolding G by (rule cost_groups_keys [OF that])
  have "group_text ?G n = vt_label t" "group_text ?G (n + 1) = num_text ?i" "group_text ?G (n + 2) = num_text ?o"
    using k [of n] k [of "n + 1"] k [of "n + 2"] by (simp_all add: group_text_def)
  moreover have "read_costs ?G (n + 3) (map fst ?fs) = concat (map (\<lambda>(f, v, x). if x = Fin 0 then [] else [(f, x)]) ?fs)"
    unfolding G by (rule costs_read) (use assms extra_costs_ok [OF assms(1)] in \<open>auto simp: costs_ok_def\<close>)
  then have c: "read_costs ?G (n + 3) (map fst BILLING_CACHE_VAR_MAP) =
      concat (map (\<lambda>m. if number_or_zero (?h m) = Fin 0 then [] else [(fst m, number_or_zero (?h m))]) BILLING_CACHE_VAR_MAP)"
    by (simp add: o_def)
  ultimately have f: "vt_label ?u = vt_label t" "vt_conditions ?u = vt_conditions t" "vt_billing_unit ?u = None"
      "vt_input_unit_cost ?u = ?i" "vt_output_unit_cost ?u = ?o"
    using number_text_units(4) [OF p(1)] number_text_units(4) [OF p(2)] by (simp_all add: matched_tier_def normalizeVisualTier_def)
  have "number_or_zero (unit_cost (vt_costs ?u) (fst m)) = number_or_zero (?h m)" if "m \<in> set BILLING_CACHE_VAR_MAP" for m
    using listed_costs [OF cache_fields that, of ?h] by (simp add: matched_tier_def normal_costs c)
  then have e: "extra_costs ?u = extra_costs t" by simp
  have "unit_prices ?u = unit_prices t" unfolding unit_prices_def e f(4,5) number_or_zero_idem ..
  then show ?thesis using f by (simp add: same_tier_def)
qed

lemma same_tier_ok: "same_tier t u \<Longrightarrow> tier_ok t \<Longrightarrow> tier_ok u \<and> call_text u = call_text t"
  by (auto simp: same_tier_def tier_ok_def tier_call_text_def tier_body_text)

lemma same_tiers_text:
  "list_all2 same_tier ts us \<Longrightarrow> tiers_ok ts \<Longrightarrow> tiers_ok us \<and> tiers_text us = tiers_text ts"
proof (induction ts arbitrary: us rule: induct_list012)
  case (2 t)
  then obtain u where "us = [u]" "same_tier t u" by (auto simp: list_all2_Cons1)
  then show ?case using 2(2) same_tier_ok [of t u] by (simp add: tiers_ok_simps) (simp add: same_tier_def)
next
  case (3 t t' ts)
  then obtain u u' vs where u: "us = u # u' # vs" "same_tier t u" "list_all2 same_tier (t' # ts) (u' # vs)"
    by (auto simp: list_all2_Cons1)
  moreover have "vt_conditions u = vt_conditions t" using u(2) by (simp add: same_tier_def)
  ultimately show ?case using 3(2) [OF u(3)] 3(4) same_tier_ok [OF u(2)] by (simp add: tiers_ok_simps)
qed (simp add: tiers_ok_def)

lemma match_read_back:
  assumes "tier_ok t" "\<forall>c \<in> set (vt_conditions t). readable_condition c"
  shows "same_tier t (matched_tier (read_conditions (group_text (match_groups t) 1)) 2 (match_groups t))"
proof -
  let ?g = "if vt_conditions t = [] then [] else [(1 :: nat, buildConditionStr (vt_conditions t))]"
  have "map_of (match_groups t) 1 = map_of ?g 1"
    unfolding match_groups_def tier_groups_def append_assoc by (subst cost_groups_keys) simp_all
  then have "group_text (match_groups t) 1 = (if vt_conditions t = [] then [] else buildConditionStr (vt_conditions t))"
    by (simp add: group_text_def)
  then have "read_conditions (group_text (match_groups t) 1) = vt_conditions t"
    using tier_conditions_read [OF assms(2)] by (cases "vt_conditions t = []") (simp_all add: read_conditions_def split: if_splits)
  then show ?thesis using tier_read_back [OF assms(1), of 2 ?g] by (simp add: match_groups_def)
qed

end
