(* ===== verification/Pricing_Tiers_Properties.thy ===== *)
theory Pricing_Tiers_Properties
  imports Pricing_Tiers_Reading Billing_Display_Properties
begin

text \<open>
  What the tier editor promises: the expression that it writes compiles and is charged tier by
  tier as configured, and reading the expression gives the tiers back.
\<close>

section \<open>Sizes\<close>

lemma chain_reach:
  assumes "xs \<noteq> []" "map_of PRECEDENCE (js p) = Some k" "\<forall>x \<in> set xs. \<forall>m \<le> Suc k. reach m x \<le> b"
  shows "m \<le> k \<Longrightarrow> reach m (op_chain p xs) \<le> Suc b"
  using assms(1)
proof (induction xs arbitrary: m rule: op_chain_induct)
  case (single x)
  then show ?case using assms(3) by (metis le_SucI op_chain_simps(1))
next
  case (snoc ys y)
  have "precedence (js p) = k" using assms(2) by (simp add: precedence_def)
  moreover have "reach (Suc k) y \<le> b" using snoc(2) assms(3) by simp
  ultimately show ?case using snoc by simp
qed

lemma chain_height:
  assumes "xs \<noteq> []" "\<forall>x \<in> set xs. height x \<le> b"
  shows "height (op_chain p xs) \<le> length xs + b"
  using assms(1)
proof (induction xs rule: op_chain_induct)
  case (snoc ys y)
  then show ?case using assms(2) [THEN bspec, of y] by simp
qed (use assms(2) in auto)

lemma chain_length:
  assumes "xs \<noteq> []" "map_of PRECEDENCE (js p) = Some k" "\<forall>x \<in> set xs. bare_until (Suc k) x \<and> length (tokens_of 0 x) \<le> b" "m \<le> k"
  shows "length (tokens_of m (op_chain p xs)) \<le> length xs * Suc b"
proof -
  have "length (tokens_of m (op_chain p xs)) = length (tokens_of 0 (hd xs) @ concat (map (\<lambda>x. symbol (js p) # tokens_of 0 x) (tl xs)))"
    using chain_tokens [OF assms(1,2) _ assms(4)] assms(3) by simp
  also have "\<dots> \<le> b + length (tl xs) * Suc b"
  proof -
    have "length (concat (map (\<lambda>x. symbol (js p) # tokens_of 0 x) ys)) \<le> length ys * Suc b" if "set ys \<subseteq> set xs" for ys
      using that assms(3) by (induction ys) fastforce+
    moreover have "length (tokens_of 0 (hd xs)) \<le> b" "set (tl xs) \<subseteq> set xs" using assms(1,3) by (simp, cases xs) auto
    ultimately show ?thesis unfolding length_append by (meson add_mono)
  qed
  also have "\<dots> \<le> length xs * Suc b" using assms(1) by (cases xs) simp_all
  finally show ?thesis .
qed

lemma prices_length: "length (unit_prices t) \<le> 10"
proof -
  have "length BILLING_CACHE_VAR_MAP = 8" using arg_cong [OF cache_names, of length] by simp
  then have "length (filter P (map f BILLING_CACHE_VAR_MAP)) \<le> 8" for P and f :: "jsstr \<times> jsstr \<Rightarrow> jsstr \<times> jsnum"
    using length_filter_le [of P "map f BILLING_CACHE_VAR_MAP"] by simp
  then show ?thesis by (simp add: unit_prices_def)
qed

lemma tier_sizes:
  assumes "tier_ok t"
  shows "reach 0 (tier_tree t) \<le> 3" "height (tier_tree t) \<le> 12" "length (tokens_of 0 (tier_tree t)) \<le> 45"
proof -
  let ?xs = "map price_tree (unit_prices t)"
  have p: "\<forall>vx \<in> set (unit_prices t). printable (snd vx)" using assms by (simp add: tier_ok_def)
  have ne: "?xs \<noteq> []" by simp
  have "reach 0 (op_chain ''+'' ?xs) \<le> Suc 1"
    by (rule chain_reach [OF ne, of _ 5]) (auto simp: price_tree_def)
  then show "reach 0 (tier_tree t) \<le> 3" by (simp add: tier_tree_def)
  have "height (op_chain ''+'' ?xs) \<le> length ?xs + 1" by (rule chain_height [OF ne]) (auto simp: price_tree_def)
  then show "height (tier_tree t) \<le> 12" using prices_length [of t] by (simp add: tier_tree_def)
  have "length (tokens_of 0 (op_chain ''+'' ?xs)) \<le> length ?xs * Suc 3"
    by (rule chain_length [OF ne, of _ 5]) (use price_tree_ok(6) p in \<open>auto simp: price_tree_def grouped_def\<close>)
  then show "length (tokens_of 0 (tier_tree t)) \<le> 45" using prices_length [of t] by (simp add: tier_tree_def)
qed

lemma condition_sizes:
  assumes "cs \<noteq> []" "list_all bound_condition_ok cs" "length cs \<le> 10"
  shows "reach 1 (op_chain ''&&'' (map comparison_tree cs)) \<le> 2" "height (op_chain ''&&'' (map comparison_tree cs)) \<le> 11"
    "length (tokens_of 1 (op_chain ''&&'' (map comparison_tree cs))) \<le> 40"
proof -
  let ?xs = "map comparison_tree cs"
  have ok: "\<forall>c \<in> set cs. bound_condition_ok c" using assms(2) by (simp add: list_all_iff)
  have o: "precedence (ti_op c) = 4" if "c \<in> set cs" for c using that ok operator_facts(2) by (auto simp: bound_condition_ok_def)
  have ne: "?xs \<noteq> []" using assms(1) by simp
  have "reach 1 (op_chain ''&&'' ?xs) \<le> Suc 1"
    by (rule chain_reach [OF ne, of _ 2]) (use o in \<open>auto simp: comparison_tree_def\<close>)
  then show "reach 1 (op_chain ''&&'' ?xs) \<le> 2" by simp
  have "height (op_chain ''&&'' ?xs) \<le> length ?xs + 1" by (rule chain_height [OF ne]) (auto simp: comparison_tree_def)
  then show "height (op_chain ''&&'' ?xs) \<le> 11" using assms(3) by simp
  have "length (tokens_of 1 (op_chain ''&&'' ?xs)) \<le> length ?xs * Suc 3"
    by (rule chain_length [OF ne, of _ 2])
       (use comparison_tree_ok(6) ok o in \<open>auto simp: comparison_tree_def grouped_def numeral_3_eq_3 [symmetric]\<close>)
  then show "length (tokens_of 1 (op_chain ''&&'' ?xs)) \<le> 40" using assms(3) by simp
qed

lemma tiers_sizes:
  assumes "\<forall>t \<in> set ts. length (vt_conditions t) \<le> 10"
  shows "tiers_ok ts \<Longrightarrow> reach 0 (tiers_tree ts) \<le> length ts + 3 \<and> height (tiers_tree ts) \<le> length ts + 12 \<and>
    length (tokens_of 0 (tiers_tree ts)) \<le> length ts * 87"
  using assms
proof (induction ts rule: induct_list012)
  case (2 t)
  then show ?case using tier_sizes [of t] by (simp add: tiers_ok_simps)
next
  case (3 t u ts)
  then have t: "tier_ok t" "vt_conditions t \<noteq> []" "tiers_ok (u # ts)" "list_all bound_condition_ok (vt_conditions t)"
      "length (vt_conditions t) \<le> 10"
    by (simp_all add: tiers_ok_simps tier_ok_def)
  have ih: "reach 0 (tiers_tree (u # ts)) \<le> length (u # ts) + 3" "height (tiers_tree (u # ts)) \<le> length (u # ts) + 12"
      "length (tokens_of 0 (tiers_tree (u # ts))) \<le> length (u # ts) * 87"
    using 3(2) [OF t(3)] 3(4) by auto
  show ?case using ih condition_sizes [OF t(2,4,5)] tier_sizes [OF t(1)] by (simp add: grouped_def)
qed (simp add: tiers_ok_def)

section \<open>Compiling\<close>

text \<open>What the limits of the parser allow for certain: a hundred tiers with ten conditions each.\<close>

definition limits_ok :: "editor_tier list \<Rightarrow> bool" where
  "limits_ok ts \<longleftrightarrow> length ts \<le> 100 \<and> (\<forall>t \<in> set ts. length (vt_conditions t) \<le> 10) \<and>
     length (generateExprFromVisualConfig (Some \<lparr>vc_tiers = ts\<rparr>)) \<le> 65536"

lemma tiers_text_head: "tiers_ok ts \<Longrightarrow> tiers_text ts \<noteq> [] \<and> hd (tiers_text ts) \<in> {116, 112, 99, 108}"
proof (cases ts rule: remdups_adj.cases)
  case (2 t)
  then show ?thesis by (simp add: tier_call_text_def js_eval)
next
  case (3 t u us)
  assume "tiers_ok ts"
  then have t: "vt_conditions t \<noteq> []" "list_all bound_condition_ok (vt_conditions t)" using 3 by (simp_all add: tiers_ok_simps tier_ok_def)
  then obtain c cs where c: "vt_conditions t = c # cs" "ti_var c \<in> {js ''p'', js ''c'', js ''len''}"
    by (cases "vt_conditions t") (auto simp: bound_condition_ok_def)
  then show ?thesis using 3 conditions_text [OF t(2)] by (cases cs) (auto simp: js_eval)
qed (simp add: tiers_ok_def)

lemma not_audio: "tiers_ok ts \<Longrightarrow> readTokenTierChain (tiers_tree ts) = token_chain (tiers_tree ts)"
proof (cases ts rule: remdups_adj.cases)
  case (2 t)
  then show ?thesis by (simp add: tier_tree_def audio_tiers_def)
next
  case (3 t u us)
  assume "tiers_ok ts"
  then have t: "vt_conditions t \<noteq> []" "list_all bound_condition_ok (vt_conditions t)" using 3 by (simp_all add: tiers_ok_simps tier_ok_def)
  let ?c = "op_chain ''&&'' (map comparison_tree (vt_conditions t))"
  have "\<exists>p x y. ?c = Binary p x y 0 0 \<and> p \<noteq> js ''||''"
  proof (cases "vt_conditions t" rule: rev_cases)
    case (snoc cs c)
    then have "ti_op c \<noteq> js ''||''" using t(2) by (auto simp: bound_condition_ok_def ordering_operators_def)
    then show ?thesis using snoc by (cases "cs = []") (auto simp: comparison_tree_def)
  qed (use t(1) in simp)
  then show ?thesis using 3 by (auto simp: audio_tiers_def simp del: token_chain.simps)
qed (simp add: tiers_ok_def)

lemma editor_compiles:
  assumes "tiers_ok ts" "limits_ok ts"
  obtains c where "compile_fresh (generateExprFromVisualConfig (Some \<lparr>vc_tiers = ts\<rparr>)) = Inr c" "erase (cast c) = erase (tiers_tree ts)"
proof -
  let ?s = "tiers_text ts"
  have l: "\<forall>t \<in> set ts. length (vt_conditions t) \<le> 10" "length ts \<le> 100" "length ?s \<le> 65536"
    using assms(2) by (auto simp: limits_ok_def generated_text [OF assms(1)])
  note z = tiers_sizes [OF l(1) assms(1)] and w = tiers_tree_ok [OF assms(1)]
  have "match_version ?s = None"
    using tiers_text_head [OF assms(1)] by (cases ?s) (auto simp: match_version_def is_space_def)
  moreover have "reach 0 (tiers_tree ts) < 128" "height (tiers_tree ts) \<le> 256" "length (tokens_of 0 (tiers_tree ts)) < 10000"
    using z l(2) by linarith+
  ultimately show thesis
    using written_compiles [OF spelt_tiers [OF assms(1)]] w l(3) that by (auto simp: generated_text [OF assms(1)])
qed

text \<open>The expression that the editor writes for tiers compiles, and the price table that is read
  from it has these tiers: the same labels, conditions and prices, in the same order.\<close>

theorem editor_tiers_shown:
  assumes "tiers_ok ts" "limits_ok ts"
  shows "\<exists>c. compile_fresh (generateExprFromVisualConfig (Some \<lparr>vc_tiers = ts\<rparr>)) = Inr c \<and>
    readTokenTierChain (cast c) = Some (map table_row ts)"
proof -
  obtain c where c: "compile_fresh (generateExprFromVisualConfig (Some \<lparr>vc_tiers = ts\<rparr>)) = Inr c" "erase (cast c) = erase (tiers_tree ts)"
    using editor_compiles [OF assms] .
  have "readTokenTierChain (cast c) = readTokenTierChain (erase (tiers_tree ts))" using c(2) readTokenTierChain_erase by metis
  then show ?thesis using c(1) tiers_table [OF assms(1)] not_audio [OF assms(1)] by simp
qed

section \<open>Evaluating\<close>

text \<open>Evaluation forwards: from the results of the parts to the result of the whole.\<close>

definition sound_value :: "rvalue \<Rightarrow> bool" where
  "sound_value v \<longleftrightarrow> (case fst v of JNum n \<Rightarrow> is_finite n \<and> (snd v \<longrightarrow> is_safe_integer n) | _ \<Rightarrow> True)"

lemma evaluate_step:
  "evaluate_node env (evaluate_at env n) e st = Inr (v, st') \<Longrightarrow> sound_value v \<Longrightarrow> evaluate_at env (Suc n) e st = Inr (v, st')"
  by (cases "fst v") (auto simp: sound_value_def check_number_def bind_run_def res_bind_def ret_def)

definition reading :: "simulation_context \<Rightarrow> jsstr \<Rightarrow> jsnum" where
  "reading sc v = (case token_reading sc v of None \<Rightarrow> NaN | Some n \<Rightarrow> n)"

text \<open>All quantities are given, as finite numbers that are not negative.\<close>

definition quantities_ok :: "simulation_context \<Rightarrow> bool" where
  "quantities_ok sc \<longleftrightarrow> (\<forall>v \<in> set (js ''p'' # js ''c'' # js ''len'' # map snd BILLING_CACHE_VAR_MAP). \<exists>x \<ge> 0. token_reading sc v = Some (Fin x))"

lemma eval_variable:
  assumes "token_reading (ctx env) v = Some (Fin x)" "0 \<le> x" "v \<noteq> js ''image_count''"
  shows "evaluate_at env (Suc n) (Variable v s t) st = Inr ((JNum (Fin x), False), st)"
proof (rule evaluate_step)
  show "evaluate_node env (evaluate_at env n) (Variable v s t) st = Inr ((JNum (Fin x), False), st)"
    using assms by (auto simp: evaluate_node_def run_variable_def token_reading_def ret_def split: option.splits jsval.splits)
qed (simp add: sound_value_def)

lemma eval_number:
  assumes "printable x"
  shows "evaluate_at env (Suc n) (Literal (LNum x) (Some (list_all is_digit (num_text x))) s t) st =
    Inr ((JNum x, list_all is_digit (num_text x)), st)"
  by (rule evaluate_step) (use assms plain_double_finite in \<open>simp_all add: evaluate_node_def sound_value_def ret_def printable_def\<close>)

lemma eval_string: "evaluate_at env (Suc n) (Literal (LStr x) i s t) st = Inr ((JStr x, i = Some True), st)"
  by (rule evaluate_step) (simp_all add: evaluate_node_def sound_value_def ret_def)

lemma eval_arithmetic:
  assumes "evaluate_at env n l st = Inr ((JNum x, i), st)" "evaluate_at env n r st = Inr ((JNum y, j), st)"
    and "q \<in> {js ''+'', js ''*''}" "z = (if q = js ''+'' then add_num x y else mul_num x y)" "is_finite z" "\<not> (i \<and> j)"
  shows "evaluate_at env (Suc n) (Binary q l r s t) st = Inr ((JNum z, False), st)"
proof (rule evaluate_step)
  show "evaluate_node env (evaluate_at env n) (Binary q l r s t) st = Inr ((JNum z, False), st)"
    using assms by (auto simp: evaluate_node_def run_binary_def bind_run_def res_bind_def run_operator_def order_value_def
        arithmetic_def ret_def Let_def simp del: evaluate_at.simps)
qed (use assms(5) in \<open>simp add: sound_value_def\<close>)

lemma eval_comparison:
  assumes "evaluate_at env n l st = Inr ((JNum x, i), st)" "evaluate_at env n r st = Inr ((JNum y, j), st)"
    and "q \<in> set ordering_operators"
  shows "evaluate_at env (Suc n) (Binary q l r s t) st = Inr ((JBool (order_value q (JNum x) (JNum y) = Some True), False), st)"
proof (rule evaluate_step)
  show "evaluate_node env (evaluate_at env n) (Binary q l r s t) st = Inr ((JBool (order_value q (JNum x) (JNum y) = Some True), False), st)"
    using assms by (auto simp: evaluate_node_def run_binary_def bind_run_def res_bind_def run_operator_def order_value_def
        ordering_operators_def ret_def Let_def simp del: evaluate_at.simps)
qed (simp add: sound_value_def)

lemma eval_and:
  assumes "evaluate_at env n l st = Inr ((JBool a, i), st)" "evaluate_at env n r st = Inr ((JBool b, j), st)"
  shows "evaluate_at env (Suc n) (Binary (js ''&&'') l r s t) st = Inr ((JBool (a \<and> b), False), st)"
proof (rule evaluate_step)
  show "evaluate_node env (evaluate_at env n) (Binary (js ''&&'') l r s t) st = Inr ((JBool (a \<and> b), False), st)"
    using assms by (auto simp: evaluate_node_def run_binary_def run_boolean_def bind_run_def res_bind_def ret_def simp del: evaluate_at.simps)
qed (simp add: sound_value_def)

lemma eval_tier:
  assumes "evaluate_at env n a st = Inr ((JStr w, i), st)" "evaluate_at env n b st = Inr ((JNum x, j), st)" "is_finite x"
  shows "evaluate_at env (Suc n) (Call (js ''tier'') [a, b] s t) st = Inr ((JNum x, False), st\<lparr>matchedTier := w\<rparr>)"
proof (rule evaluate_step)
  show "evaluate_node env (evaluate_at env n) (Call (js ''tier'') [a, b] s t) st = Inr ((JNum x, False), st\<lparr>matchedTier := w\<rparr>)"
    using assms by (simp add: evaluate_node_def run_call_def Let_def with_arg_def run_string_def run_numeric_def bind_run_def res_bind_def ret_def
        del: evaluate_at.simps)
qed (use assms(3) in \<open>simp add: sound_value_def\<close>)

lemma eval_choice:
  assumes "evaluate_at env n c st = Inr ((JBool b, i), st)"
    and "\<And>st'. pricing_kept st st' \<Longrightarrow> \<exists>st''. evaluate_at env n (if b then x else y) st' = Inr ((JNum v, False), st'') \<and> P st''" "is_finite v"
  shows "\<exists>st''. evaluate_at env (Suc n) (Conditional c x y s t) st = Inr ((JNum v, False), st'') \<and> P st''"
proof -
  have "\<exists>st'. mark_rule env (Conditional c x y s t) b st = Inr ((), st') \<and> pricing_kept st st'"
    by (auto simp: mark_rule_def pricing_kept_def split: option.splits)
  then obtain st' where m: "mark_rule env (Conditional c x y s t) b st = Inr ((), st')" "pricing_kept st st'" by blast
  obtain st'' where r: "evaluate_at env n (if b then x else y) st' = Inr ((JNum v, False), st'')" "P st''" using assms(2) [OF m(2)] by blast
  have "evaluate_node env (evaluate_at env n) (Conditional c x y s t) st = Inr ((JNum v, False), st'')"
    using assms(1) m(1) r(1) by (simp add: evaluate_node_def run_boolean_def bind_run_def res_bind_def ret_def del: evaluate_at.simps)
  then show ?thesis using r(2) evaluate_step [of env n "Conditional c x y s t" st "(JNum v, False)"] assms(3) by (auto simp: sound_value_def)
qed

text \<open>What a tier costs: the products of quantities and prices, added from left to right.\<close>

definition amount :: "simulation_context \<Rightarrow> jsstr \<times> jsnum \<Rightarrow> jsnum" where
  "amount sc vx = mul_num (reading sc (fst vx)) (snd vx)"

definition price_sum :: "simulation_context \<Rightarrow> (jsstr \<times> jsnum) list \<Rightarrow> jsnum" where
  "price_sum sc ps = foldl add_num (amount sc (hd ps)) (map (amount sc) (tl ps))"

definition tier_price :: "simulation_context \<Rightarrow> editor_tier \<Rightarrow> jsnum" where
  "tier_price sc t = price_sum sc (unit_prices t)"

definition condition_selected :: "simulation_context \<Rightarrow> tier_condition \<Rightarrow> bool" where
  "condition_selected sc c \<longleftrightarrow> order_value (ti_op c) (JNum (reading sc (ti_var c))) (JNum (bound_number (ti_value c))) = Some True"

definition tier_selected :: "simulation_context \<Rightarrow> editor_tier \<Rightarrow> bool" where
  "tier_selected sc t = list_all (condition_selected sc) (vt_conditions t)"

lemma price_sum_simps:
  "price_sum sc [x] = amount sc x" "ys \<noteq> [] \<Longrightarrow> price_sum sc (ys @ [y]) = add_num (price_sum sc ys) (amount sc y)"
  by (cases ys; simp add: price_sum_def)+

lemma add_finite: "is_finite (add_num a b) \<Longrightarrow> is_finite a \<and> is_finite b"
  by (cases a; cases b) (auto split: if_splits)

lemma quantity_reading:
  assumes "quantities_ok sc" "v \<in> set (js ''p'' # js ''c'' # js ''len'' # map snd BILLING_CACHE_VAR_MAP)"
  obtains x where "0 \<le> x" "token_reading sc v = Some (Fin x)" "reading sc v = Fin x"
  using assms unfolding quantities_ok_def reading_def by fastforce

lemma eval_price:
  assumes "erase e = price_tree vx" "vx \<in> set (unit_prices t)" "printable (snd vx)" "quantities_ok (ctx env)" "is_finite (amount (ctx env) vx)"
  shows "evaluate_at env (Suc (Suc n)) e st = Inr ((JNum (amount (ctx env) vx), False), st)"
proof -
  obtain s u s1 u1 s2 u2 where e: "e = Binary (js ''*'') (Variable (fst vx) s1 u1)
      (Literal (LNum (snd vx)) (Some (list_all is_digit (num_text (snd vx)))) s2 u2) s u"
    using assms(1) by (cases e) (auto simp: price_tree_def elim!: erase.elims)
  have "fst vx \<in> set (js ''p'' # js ''c'' # js ''len'' # map snd BILLING_CACHE_VAR_MAP)" using price_names [OF assms(2)] by auto
  then obtain x where x: "0 \<le> x" "token_reading (ctx env) (fst vx) = Some (Fin x)" "reading (ctx env) (fst vx) = Fin x"
    using quantity_reading [OF assms(4)] by blast
  show ?thesis
    unfolding e by (rule eval_arithmetic [OF eval_variable [OF x(2,1)] eval_number [OF assms(3)]])
      (use priced_variables(3) [OF assms(2)] x(3) assms(5) in \<open>simp_all add: amount_def\<close>)
qed

lemma eval_sum:
  assumes "set ps \<subseteq> set (unit_prices t)" "\<forall>vx \<in> set ps. printable (snd vx)" "quantities_ok (ctx env)"
  shows "ps \<noteq> [] \<Longrightarrow> erase e = op_chain ''+'' (map price_tree ps) \<Longrightarrow> is_finite (price_sum (ctx env) ps) \<Longrightarrow> length ps < n \<Longrightarrow>
    evaluate_at env (Suc n) e st = Inr ((JNum (price_sum (ctx env) ps), False), st)"
  using assms(1,2)
proof (induction ps arbitrary: e n rule: rev_induct)
  case (snoc y ys)
  obtain m where m: "n = Suc m" using snoc.prems(4) by (cases n) auto
  have y: "y \<in> set (unit_prices t)" "printable (snd y)" using snoc.prems(5,6) by auto
  show ?case
  proof (cases "ys = []")
    case True
    then show ?thesis using eval_price [OF _ y assms(3), of e m st] snoc.prems(2,3) m by (simp add: price_sum_simps)
  next
    case False
    then obtain l r s u where e: "e = Binary (js ''+'') l r s u" "erase l = op_chain ''+'' (map price_tree ys)" "erase r = price_tree y"
      using snoc.prems(2) by (cases e) auto
    have f: "is_finite (price_sum (ctx env) ys)" "is_finite (amount (ctx env) y)"
      using snoc.prems(3) add_finite price_sum_simps(2) [OF False] by metis+
    obtain k where k: "m = Suc k" using snoc.prems(4) m False by (cases m; cases ys) auto
    have "evaluate_at env n l st = Inr ((JNum (price_sum (ctx env) ys), False), st)"
      using snoc.IH [OF False e(2) f(1), of m] snoc.prems(4-6) m by auto
    moreover have "evaluate_at env n r st = Inr ((JNum (amount (ctx env) y), False), st)"
      unfolding m k by (rule eval_price [OF e(3) y assms(3) f(2)])
    ultimately show ?thesis unfolding e(1)
      using eval_arithmetic [of env n l st _ False r _ False "js ''+''" _ s u] snoc.prems(3) by (simp add: price_sum_simps(2) [OF False] del: evaluate_at.simps)
  qed
qed simp

lemma eval_condition:
  assumes "erase e = comparison_tree c" "bound_condition_ok c" "quantities_ok (ctx env)"
  shows "evaluate_at env (Suc (Suc n)) e st = Inr ((JBool (condition_selected (ctx env) c), False), st)"
proof -
  obtain v where c: "ti_var c \<in> {js ''p'', js ''c'', js ''len''}" "ti_op c \<in> set ordering_operators"
      "bound_number (ti_value c) = v" "printable v"
    using assms(2) by (auto simp: bound_condition_ok_def bound_number_def)
  obtain s u s1 u1 s2 u2 where e: "e = Binary (ti_op c) (Variable (ti_var c) s1 u1)
      (Literal (LNum v) (Some (list_all is_digit (num_text v))) s2 u2) s u"
    using assms(1) c(3) by (cases e) (auto simp: comparison_tree_def elim!: erase.elims)
  have "ti_var c \<in> set (js ''p'' # js ''c'' # js ''len'' # map snd BILLING_CACHE_VAR_MAP)" using c(1) by auto
  then obtain x where x: "0 \<le> x" "token_reading (ctx env) (ti_var c) = Some (Fin x)" "reading (ctx env) (ti_var c) = Fin x"
    using quantity_reading [OF assms(3)] by blast
  have "ti_var c \<noteq> js ''image_count''" using c(1) by auto
  from eval_comparison [OF eval_variable [OF x(2,1) this] eval_number [OF c(4)] c(2)] show ?thesis
    unfolding e condition_selected_def x(3) c(3) .
qed

lemma eval_conditions:
  assumes "quantities_ok (ctx env)"
  shows "cs \<noteq> [] \<Longrightarrow> list_all bound_condition_ok cs \<Longrightarrow> erase e = op_chain ''&&'' (map comparison_tree cs) \<Longrightarrow> length cs < n \<Longrightarrow>
    evaluate_at env (Suc n) e st = Inr ((JBool (list_all (condition_selected (ctx env)) cs), False), st)"
proof (induction cs arbitrary: e n rule: rev_induct)
  case (snoc c cs)
  obtain m where m: "n = Suc m" using snoc.prems(4) by (cases n) auto
  have c: "bound_condition_ok c" using snoc.prems(2) by simp
  show ?case
  proof (cases "cs = []")
    case True
    then show ?thesis using eval_condition [OF _ c assms, of e m st] snoc.prems(3) m by simp
  next
    case False
    then obtain l r s u where e: "e = Binary (js ''&&'') l r s u" "erase l = op_chain ''&&'' (map comparison_tree cs)"
        "erase r = comparison_tree c"
      using snoc.prems(3) by (cases e) auto
    obtain k where k: "m = Suc k" using snoc.prems(4) m False by (cases m; cases cs) auto
    have "evaluate_at env n l st = Inr ((JBool (list_all (condition_selected (ctx env)) cs), False), st)"
      using snoc.IH [OF False _ e(2), of m] snoc.prems(2,4) m by auto
    moreover have "evaluate_at env n r st = Inr ((JBool (condition_selected (ctx env) c), False), st)"
      unfolding m k by (rule eval_condition [OF e(3) c assms])
    ultimately show ?thesis unfolding e(1) using eval_and [of env n l st _ False r _ False s u] by (simp del: evaluate_at.simps)
  qed
qed simp

lemma chain_erase: "xs \<noteq> [] \<Longrightarrow> erase (op_chain p xs) = op_chain p (map erase xs)"
  by (induction xs rule: op_chain_induct) auto

lemma tree_erase [simp]: "erase (price_tree vx) = price_tree vx" "erase (comparison_tree c) = comparison_tree c"
  by (simp_all add: price_tree_def comparison_tree_def)

lemma eval_tier_tree:
  assumes "tier_ok t" "erase e = erase (tier_tree t)" "quantities_ok (ctx env)" "is_finite (tier_price (ctx env) t)" "11 < n"
  shows "evaluate_at env (Suc n) e st = Inr ((JNum (tier_price (ctx env) t), False), st\<lparr>matchedTier := vt_label t\<rparr>)"
proof -
  obtain a b s u where e: "e = Call (js ''tier'') [a, b] s u" "erase a = string_lit (vt_label t)"
      "erase b = op_chain ''+'' (map price_tree (unit_prices t))"
    using assms(2) by (cases e) (auto simp: tier_tree_def chain_erase o_def)
  obtain s1 u1 where a: "a = Literal (LStr (vt_label t)) None s1 u1" using e(2) by (cases a) auto
  obtain m where m: "n = Suc m" "10 < m" using assms(5) by (cases n) auto
  have "evaluate_at env n b st = Inr ((JNum (price_sum (ctx env) (unit_prices t)), False), st)"
    unfolding m(1) using assms(1,3,4) prices_length [of t] m(2)
    by (intro eval_sum [where t = t] e(3)) (simp_all add: tier_ok_def tier_price_def)
  moreover have "evaluate_at env n a st = Inr ((JStr (vt_label t), False), st)" unfolding a m(1) using eval_string by simp
  ultimately show ?thesis unfolding e(1) tier_price_def using eval_tier assms(4) unfolding tier_price_def by blast
qed

text \<open>The state after a tier was charged.\<close>

definition tier_matched :: "editor_tier \<Rightarrow> rstate \<Rightarrow> rstate \<Rightarrow> bool" where
  "tier_matched t st st' \<longleftrightarrow> matchedTier st' = vt_label t \<and> billingUnit st' = billingUnit st \<and> fixedPrice st' = fixedPrice st"

lemma eval_tiers:
  assumes "quantities_ok (ctx env)" "is_finite (tier_price (ctx env) t)"
  shows "tiers_ok ts \<Longrightarrow> \<forall>t \<in> set ts. length (vt_conditions t) \<le> 10 \<Longrightarrow> erase e = erase (tiers_tree ts) \<Longrightarrow>
    find (tier_selected (ctx env)) ts = Some t \<Longrightarrow> length ts + 12 < n \<Longrightarrow>
    \<exists>st'. evaluate_at env n e st = Inr ((JNum (tier_price (ctx env) t), False), st') \<and> tier_matched t st st'"
proof (induction ts arbitrary: e n st rule: induct_list012)
  case (2 u)
  then have "tier_ok u" "u = t" by (auto simp: tiers_ok_simps split: if_splits)
  moreover obtain m where "n = Suc m" "11 < m" using 2 by (cases n) auto
  ultimately show ?case using eval_tier_tree [of u e env m st] 2(3) assms by (simp add: tier_matched_def del: evaluate_at.simps)
next
  case (3 u w ts)
  have u: "tier_ok u" "vt_conditions u \<noteq> []" "tiers_ok (w # ts)" "list_all bound_condition_ok (vt_conditions u)" "length (vt_conditions u) \<le> 10"
    using 3(3,4) by (simp_all add: tiers_ok_simps tier_ok_def)
  obtain c x y s v where e: "e = Conditional c x y s v" "erase c = erase (op_chain ''&&'' (map comparison_tree (vt_conditions u)))"
      "erase x = erase (tier_tree u)" "erase y = erase (tiers_tree (w # ts))"
    using 3(5) by (cases e) auto
  obtain m where m: "n = Suc (Suc m)" "11 < m" "length (w # ts) + 12 < Suc m" using 3(7) by (cases n; cases "n - 1") auto
  have "erase c = op_chain ''&&'' (map comparison_tree (vt_conditions u))"
    using e(2) u(2) by (simp add: chain_erase o_def)
  then have c: "evaluate_at env (Suc m) c st = Inr ((JBool (tier_selected (ctx env) u), False), st)"
    using eval_conditions [OF assms(1) u(2,4)] u(5) m(2) by (simp add: tier_selected_def del: evaluate_at.simps)
  have "\<exists>st''. evaluate_at env (Suc m) (if tier_selected (ctx env) u then x else y) st' = Inr ((JNum (tier_price (ctx env) t), False), st'') \<and>
      tier_matched t st st''" if k: "pricing_kept st st'" for st'
  proof (cases "tier_selected (ctx env) u")
    case True
    then have "u = t" using 3(6) by simp
    then show ?thesis using eval_tier_tree [OF u(1) e(3) assms(1), of m st'] m(2) assms(2) True k
      by (simp add: tier_matched_def pricing_kept_def del: evaluate_at.simps)
  next
    case False
    then show ?thesis using 3(2) [OF u(3) _ e(4), of "Suc m" st'] 3(4,6) m(3) k
      by (auto simp: tier_matched_def pricing_kept_def simp del: evaluate_at.simps)
  qed
  from eval_choice [OF c this assms(2)] show ?case unfolding e(1) m(1) .
qed (simp add: tiers_ok_def)

lemma selection_total: "tiers_ok ts \<Longrightarrow> \<exists>t. find (tier_selected sc) ts = Some t"
  by (induction ts rule: induct_list012) (auto simp: tiers_ok_simps tier_selected_def tiers_ok_def)

lemma amount_nonneg:
  assumes "quantities_ok sc" "vx \<in> set (unit_prices t)" "printable (snd vx)" "is_finite (amount sc vx)"
  shows "\<exists>z \<ge> 0. amount sc vx = Fin z"
proof -
  have "fst vx \<in> set (js ''p'' # js ''c'' # js ''len'' # map snd BILLING_CACHE_VAR_MAP)" using price_names [OF assms(2)] by auto
  then obtain x where x: "0 \<le> x" "reading sc (fst vx) = Fin x" using quantity_reading [OF assms(1)] by blast
  obtain y where y: "0 \<le> y" "snd vx = Fin y" using assms(3) by (auto simp: printable_def plain_double_def)
  have "0 \<le> x * y" using x(1) y(1) by simp
  from to_double_nonneg [OF this] to_double_not_NegZero [OF this] show ?thesis
    using x y assms(4) by (cases "to_double (x * y)") (auto simp: amount_def mul_num_def Let_def is_zero_def signed_zero_def not_less split: if_splits)
qed

lemma sum_nonneg:
  assumes "quantities_ok sc" "set ps \<subseteq> set (unit_prices t)" "\<forall>vx \<in> set ps. printable (snd vx)"
  shows "ps \<noteq> [] \<Longrightarrow> is_finite (price_sum sc ps) \<Longrightarrow> \<exists>z \<ge> 0. price_sum sc ps = Fin z"
  using assms(2,3)
proof (induction ps rule: rev_induct)
  case (snoc y ys)
  show ?case
  proof (cases "ys = []")
    case True
    then show ?thesis using amount_nonneg [OF assms(1), of y t] snoc.prems by (simp add: price_sum_simps)
  next
    case False
    then have f: "is_finite (price_sum sc ys)" "is_finite (amount sc y)"
      using snoc.prems(2) add_finite price_sum_simps(2) [OF False] by metis+
    obtain a b where a: "0 \<le> a" "price_sum sc ys = Fin a" and b: "0 \<le> b" "amount sc y = Fin b"
      using snoc.IH [OF False f(1)] amount_nonneg [OF assms(1) _ _ f(2), of t] snoc.prems(3,4) by auto
    have "0 \<le> a + b" using a(1) b(1) by simp
    from to_double_nonneg [OF this] to_double_not_NegZero [OF this] show ?thesis
      using a b snoc.prems(2) price_sum_simps(2) [OF False] by (cases "to_double (a + b)") (auto simp: not_less)
  qed
qed simp

section \<open>The estimate\<close>

definition counts_ok :: "jsnum \<Rightarrow> jsnum \<Rightarrow> extra_tokens \<Rightarrow> bool" where
  "counts_ok p c extra \<longleftrightarrow> (\<forall>vn \<in> set (buildEstimatorTokens p c extra). \<exists>x \<ge> 0. snd vn = JNum (Fin x))"

text \<open>A context that leaves the quantities to the estimator and has no request.\<close>

definition plain_context :: "simulation_context option \<Rightarrow> bool" where
  "plain_context context \<longleftrightarrow> (case context of None \<Rightarrow> True | Some c \<Rightarrow> tokens c = None \<and> request c = None)"

lemma estimator_quantities:
  assumes "plain_context context" "counts_ok p c extra"
  shows "tokens (estimator_context p c extra context) = Some (buildEstimatorTokens p c extra)"
    "request (estimator_context p c extra context) = None" "quantities_ok (estimator_context p c extra context)"
proof -
  let ?sc = "estimator_context p c extra context" and ?ts = "buildEstimatorTokens p c extra"
  show t: "tokens ?sc = Some ?ts" "request ?sc = None"
    using assms(1) by (auto simp: estimator_context_def plain_context_def spread_def empty_context_def Let_def split: option.splits)
  have "map fst ?ts = [js ''p'', js ''c'', js ''len'', js ''cr'', js ''cc'', js ''cc1h'', js ''img'', js ''img_cr'', js ''img_o'', js ''ai'', js ''ao'']"
    by (simp add: buildEstimatorTokens_def ESTIMATOR_VARS_def)
  then have "set (js ''p'' # js ''c'' # js ''len'' # map snd BILLING_CACHE_VAR_MAP) \<subseteq> set (map fst ?ts)"
    unfolding cache_names by simp
  then have "set (js ''p'' # js ''c'' # js ''len'' # map snd BILLING_CACHE_VAR_MAP) \<subseteq> fst ` set ?ts" by (simp only: set_map)
  moreover have "\<exists>x \<ge> 0. token_reading ?sc v = Some (Fin x)" if v: "v \<in> fst ` set ?ts" for v
  proof -
    obtain n where n: "map_of ?ts v = Some n" using v map_of_eq_None_iff [of ?ts v] by blast
    then have "(v, n) \<in> set ?ts" by (rule map_of_SomeD)
    then obtain x where "0 \<le> x" "n = JNum (Fin x)" using assms(2) unfolding counts_ok_def by fastforce
    then show ?thesis using n t(1) by (simp add: token_reading_def)
  qed
  ultimately show "quantities_ok ?sc" unfolding quantities_ok_def by blast
qed

lemma counts_checked: "\<forall>vn \<in> set ts. \<exists>x \<ge> 0. snd vn = JNum (Fin x) \<Longrightarrow> fold_res check_token ts () = Inr ()"
proof (induction ts)
  case (Cons vn ts)
  then have "check_token () vn = Inr ()" by (auto simp: check_token_def)
  then show ?case using Cons by (simp add: res_bind_def)
qed simp

lemma estimate_reads_context:
  assumes "tiers_ok ts" "limits_ok ts" "cache_ok cache" "plain_context context" "counts_ok p c extra"
    and "find (tier_selected (estimator_context p c extra context)) ts = Some t"
    and "is_finite (tier_price (estimator_context p c extra context) t)"
  shows "fst (evalExprLocally h (generateExprFromVisualConfig (Some \<lparr>vc_tiers = ts\<rparr>)) p c extra context cache) =
    \<lparr>er_cost = tier_price (estimator_context p c extra context) t, er_matchedTier = vt_label t, er_error = None, er_billingUnit = None\<rparr>"
proof -
  let ?sc = "estimator_context p c extra context" and ?s = "generateExprFromVisualConfig (Some \<lparr>vc_tiers = ts\<rparr>)"
  note q = estimator_quantities [OF assms(4,5)]
  obtain d where d: "compile_fresh ?s = Inr d" "erase (cast d) = erase (tiers_tree ts)" using editor_compiles [OF assms(1,2)] .
  have "fold_res check_token (buildEstimatorTokens p c extra) () = Inr ()"
    using counts_checked assms(5) by (simp add: counts_ok_def)
  moreover obtain env st where n: "new_runtime h d ?sc = Inr (env, st)" "ctx env = ?sc" "billingUnit st = Unit_token" "fixedPrice st = None"
    using q(2) by (auto simp: new_runtime_def context_headers_def res_bind_def)
  moreover have l: "\<forall>t \<in> set ts. length (vt_conditions t) \<le> 10" "length ts + 12 < 256" using assms(2) by (auto simp: limits_ok_def)
  then obtain st' where "evaluate_at env 256 (cast d) st = Inr ((JNum (tier_price ?sc t), False), st')" "tier_matched t st st'"
    using eval_tiers [of env t ts "cast d" 256 st] assms(1,6,7) q(3) n(2) d(2) by (auto simp del: evaluate_at.simps)
  moreover have "\<exists>z \<ge> 0. tier_price ?sc t = Fin z"
  proof -
    have "t \<in> set ts" using assms(6) by (simp add: find_Some_iff) (metis nth_mem)
    then have "\<forall>vx \<in> set (unit_prices t). printable (snd vx)" using assms(1) by (auto simp: tiers_ok_def tier_ok_def list_all_iff)
    then show ?thesis using sum_nonneg [OF q(3) _ _ prices_nonempty] assms(7) unfolding tier_price_def by blast
  qed
  ultimately have "\<exists>r. run_program h d ?sc = Inr r \<and> cost r = tier_price ?sc t \<and> etier r = vt_label t \<and> eunit r = Unit_token"
    using q(1) by (auto simp: run_program_def res_bind_def evaluate_def program_result_def tier_matched_def simp del: evaluate_at.simps)
  then obtain r where r: "run_program h d ?sc = Inr r" "cost r = tier_price ?sc t" "etier r = vt_label t" "eunit r = Unit_token" by blast
  have "trim ?s \<noteq> []"
    using tiers_text_head [OF assms(1)] generated_text [OF assms(1)]
    by (cases "tiers_text ts") (auto simp: trim_def is_space_def dropWhile_eq_Nil_conv)
  then show ?thesis
    using r d(1) compile_step [OF assms(3), of ?s]
    by (simp add: evalExprLocally_def evaluateBillingExpression_def evaluate_compiled_def Let_def case_prod_beta)
qed

text \<open>The quantities of a request as the documentation has them
  (\<open>web/src/features/pricing/lib/billing-expression/README.md\<close>): every count under its name, and the
  length as the prompt with the tokens read from and written to the cache.\<close>

definition documented_count :: "jsnum \<Rightarrow> jsnum \<Rightarrow> extra_tokens \<Rightarrow> jsstr \<Rightarrow> jsnum" where
  "documented_count p c extra v =
     (if v = js ''p'' then p else if v = js ''c'' then c
      else if v = js ''len'' then foldl add_num p [cacheReadTokens extra, cacheCreateTokens extra, cacheCreate1hTokens extra]
      else if v = js ''cr'' then cacheReadTokens extra else if v = js ''cc'' then cacheCreateTokens extra
      else if v = js ''cc1h'' then cacheCreate1hTokens extra else if v = js ''img'' then imageTokens extra
      else if v = js ''img_cr'' then imageCacheTokens extra else if v = js ''img_o'' then imageOutputTokens extra
      else if v = js ''ai'' then audioInputTokens extra else if v = js ''ao'' then audioOutputTokens extra else NaN)"

text \<open>Conditions and prices of a tier over given quantities.\<close>

definition meets :: "(jsstr \<Rightarrow> jsnum) \<Rightarrow> tier_condition \<Rightarrow> bool" where
  "meets count c \<longleftrightarrow>
     (let x = count (ti_var c); y = bound_number (ti_value c) in
      if ti_op c = js ''<'' then lt_num x y else if ti_op c = js ''<='' then le_num x y
      else if ti_op c = js ''>'' then lt_num y x else le_num y x)"

definition applies :: "(jsstr \<Rightarrow> jsnum) \<Rightarrow> editor_tier \<Rightarrow> bool" where
  "applies count t \<longleftrightarrow> (\<forall>c \<in> set (vt_conditions t). meets count c)"

definition charge :: "(jsstr \<Rightarrow> jsnum) \<Rightarrow> editor_tier \<Rightarrow> jsnum" where
  "charge count t = (let parts = map (\<lambda>(v, x). mul_num (count v) x) (unit_prices t) in foldl add_num (hd parts) (tl parts))"

text \<open>The estimator also counts images and audio in the length; it has the documented length when the
  request has neither.\<close>

definition no_media :: "extra_tokens \<Rightarrow> bool" where
  "no_media extra \<longleftrightarrow> imageTokens extra = Fin 0 \<and> imageCacheTokens extra = Fin 0 \<and> audioInputTokens extra = Fin 0"

definition asks_length :: "editor_tier list \<Rightarrow> bool" where
  "asks_length ts \<longleftrightarrow> (\<exists>t \<in> set ts. \<exists>c \<in> set (vt_conditions t). ti_var c = js ''len'')"

lemma add_num_0: "0 \<le> x \<Longrightarrow> add_num (to_double x) (Fin 0) = to_double x"
  using to_double_not_NegZero [of x] by (cases "to_double x") (auto simp: to_double_idem)

lemma estimator_reading:
  assumes "plain_context context" "counts_ok p c extra" "v \<noteq> js ''len'' \<or> no_media extra"
    and "v \<in> set (js ''p'' # js ''c'' # js ''len'' # map snd BILLING_CACHE_VAR_MAP)"
  shows "reading (estimator_context p c extra context) v = documented_count p c extra v"
proof -
  have "v \<in> set [js ''p'', js ''c'', js ''len'', js ''cr'', js ''cc'', js ''cc1h'', js ''img'', js ''img_cr'', js ''img_o'', js ''ai'', js ''ao'']"
    using assms(4) unfolding cache_names by auto
  moreover obtain x y where "0 \<le> x" "p = Fin x" "0 \<le> y" "cacheReadTokens extra = Fin y"
    using assms(2) by (auto simp: counts_ok_def buildEstimatorTokens_def ESTIMATOR_VARS_def)
  ultimately show ?thesis
    using assms(3) estimator_quantities(1) [OF assms(1,2)] add_num_0 [of "x + y"]
    by (auto simp: reading_def token_reading_def buildEstimatorTokens_def ESTIMATOR_VARS_def documented_count_def no_media_def)
qed

lemma estimator_applies:
  assumes "plain_context context" "counts_ok p c extra" "asks_length ts \<longrightarrow> no_media extra" "tiers_ok ts" "t \<in> set ts"
  shows "tier_selected (estimator_context p c extra context) t = applies (documented_count p c extra) t"
proof -
  have "condition_selected (estimator_context p c extra context) cd = meets (documented_count p c extra) cd"
    if cd: "cd \<in> set (vt_conditions t)" for cd
  proof -
    have "bound_condition_ok cd" using assms(4,5) cd by (auto simp: tiers_ok_def tier_ok_def list_all_iff)
    then have ok: "ti_var cd \<in> {js ''p'', js ''c'', js ''len''}" "ti_op cd \<in> set ordering_operators" by (auto simp: bound_condition_ok_def)
    have "ti_var cd \<noteq> js ''len'' \<or> no_media extra" using assms(3,5) cd by (auto simp: asks_length_def)
    moreover have "ti_var cd \<in> set (js ''p'' # js ''c'' # js ''len'' # map snd BILLING_CACHE_VAR_MAP)" using ok(1) by auto
    ultimately have "reading (estimator_context p c extra context) (ti_var cd) = documented_count p c extra (ti_var cd)"
      by (rule estimator_reading [OF assms(1,2)])
    then show ?thesis using ok(2) by (auto simp: condition_selected_def meets_def order_value_def ordering_operators_def Let_def)
  qed
  then show ?thesis by (auto simp: tier_selected_def applies_def list_all_iff)
qed

lemma estimator_charge:
  assumes "plain_context context" "counts_ok p c extra"
  shows "tier_price (estimator_context p c extra context) t = charge (documented_count p c extra) t"
proof -
  let ?sc = "estimator_context p c extra context"
  have "amount ?sc vx = (case vx of (v, x) \<Rightarrow> mul_num (documented_count p c extra v) x)" if vx: "vx \<in> set (unit_prices t)" for vx
    using estimator_reading [OF assms, of "fst vx"] price_names [OF vx] priced_variables(2) [OF vx]
    by (simp add: amount_def case_prod_beta)
  then have "map (amount ?sc) (unit_prices t) = map (\<lambda>(v, x). mul_num (documented_count p c extra v) x) (unit_prices t)" by simp
  moreover have "price_sum ?sc ps = foldl add_num (hd (map (amount ?sc) ps)) (tl (map (amount ?sc) ps))" if "ps \<noteq> []" for ps
    using that by (simp add: price_sum_def hd_map map_tl)
  ultimately show ?thesis using prices_nonempty unfolding tier_price_def charge_def Let_def by metis
qed

text \<open>C8: The estimator agrees with the tiers of the editor.  For tiers priced by tokens, with plain
  labels, conditions on all but the last of them and printable bounds and prices, at most 100
  tiers of at most ten conditions and an expression within the length limit, it reports for the
  expression that is written for them no error, the first tier whose conditions hold for the
  quantities, and as the cost the sum of quantity times price over the prices of that tier, whenever
  this sum is finite.  The quantities are finite counts that are not negative, without a context that
  overrides them and without a request; the length is the documented one, so that tiers with a
  condition on it are covered for requests without image and audio tokens.\<close>

theorem estimate_charges_tier:
  assumes "tiers_ok ts" "limits_ok ts" "cache_ok cache" "plain_context context" "counts_ok p c extra"
    and "asks_length ts \<Longrightarrow> no_media extra"
    and "find (applies (documented_count p c extra)) ts = Some t"
    and "is_finite (charge (documented_count p c extra) t)"
  shows "fst (evalExprLocally h (generateExprFromVisualConfig (Some \<lparr>vc_tiers = ts\<rparr>)) p c extra context cache) =
    \<lparr>er_cost = charge (documented_count p c extra) t, er_matchedTier = vt_label t, er_error = None, er_billingUnit = None\<rparr>"
proof -
  have "find (tier_selected (estimator_context p c extra context)) ts = find (applies (documented_count p c extra)) ts"
    using estimator_applies [OF assms(4,5) _ assms(1)] assms(6) by (intro find_cong) auto
  then show ?thesis
    using estimate_reads_context [OF assms(1-5)] assms(7,8) unfolding estimator_charge [OF assms(4,5)] by simp
qed

definition token_tier_of :: "char list \<Rightarrow> tier_condition list \<Rightarrow> jsnum \<Rightarrow> editor_tier" where
  "token_tier_of l cs x = \<lparr>vt_billing_unit = None, vt_fixed_price = None, vt_label = js l, vt_conditions = cs,
     vt_input_unit_cost = x, vt_output_unit_cost = Fin 3, vt_cache_mode = CACHE_MODE_GENERIC, vt_costs = []\<rparr>"

definition two_tiers :: "editor_tier list" where
  "two_tiers = [token_tier_of ''a'' [\<lparr>ti_var = js ''p'', ti_op = js ''<'', ti_value = Number_bound (Fin 9)\<rparr>] (Fin 2), token_tier_of ''b'' [] (Fin 4)]"

definition no_extra :: extra_tokens where
  "no_extra = \<lparr>cacheReadTokens = Fin 0, cacheCreateTokens = Fin 0, cacheCreate1hTokens = Fin 0, imageTokens = Fin 0,
     imageCacheTokens = Fin 0, imageOutputTokens = Fin 0, audioInputTokens = Fin 0, audioOutputTokens = Fin 0\<rparr>"

lemma small_printable: "printable (Fin 2)" "printable (Fin 3)" "printable (Fin 4)" "printable (Fin 9)"
  and small_texts: "length (num_text (Fin 2)) \<le> 21" "length (num_text (Fin 3)) \<le> 21" "length (num_text (Fin 4)) \<le> 21" "length (num_text (Fin 9)) \<le> 21"
  using small_number [of 2] small_number [of 3] small_number [of 4] small_number [of 9] by (simp_all del: num_text.simps)

lemma token_tier_prices: "unit_prices (token_tier_of l cs (Fin (numeral k))) = [(js ''p'', Fin (numeral k)), (js ''c'', Fin 3)]"
  by (simp add: unit_prices_def token_tier_of_def number_or_zero_def unit_cost_def is_zero_def)

lemma bound_ok: "bound_condition_ok \<lparr>ti_var = js ''p'', ti_op = js ''<'', ti_value = Number_bound (Fin 9)\<rparr>"
  using small_printable by (simp add: bound_condition_ok_def ordering_operators_def)

lemma token_tier_of_ok:
  assumes "printable (Fin (numeral k))" "list_all bound_condition_ok cs" "l \<noteq> []" "\<forall>c \<in> set (js l). plain_unit c"
  shows "tier_ok (token_tier_of l cs (Fin (numeral k)))"
  unfolding tier_ok_def token_tier_prices using assms small_printable by (simp add: token_tier_of_def js_def)

lemma token_tier_text:
  "l \<noteq> [] \<Longrightarrow> call_text (token_tier_of l cs (Fin (numeral k))) =
     js ''tier(\"'' @ js l @ js ''\", '' @ (js ''p'' @ js '' * '' @ num_text (Fin (numeral k))) @ js '' + '' @ (js ''c'' @ js '' * '' @ num_text (Fin 3)) @ js '')''"
proof -
  assume l: "l \<noteq> []"
  have "vt_billing_unit (token_tier_of l cs (Fin (numeral k))) \<noteq> Some (js ''request'')" "vt_label (token_tier_of l cs (Fin (numeral k))) = js l"
    by (simp_all add: token_tier_of_def)
  moreover have "js l \<noteq> []" using l by (simp add: js_def)
  ultimately show ?thesis unfolding tier_call_text_def by (simp add: tier_body_text token_tier_prices del: num_text.simps)
qed

lemma two_tiers_ok: "tiers_ok two_tiers"
proof -
  have "tier_ok (token_tier_of ''a'' [\<lparr>ti_var = js ''p'', ti_op = js ''<'', ti_value = Number_bound (Fin 9)\<rparr>] (Fin 2))"
    "tier_ok (token_tier_of ''b'' [] (Fin 4))"
    using small_printable bound_ok by (auto intro!: token_tier_of_ok simp: plain_unit_def js_eval)
  then show ?thesis by (simp add: two_tiers_def tiers_ok_def) (simp add: token_tier_of_def)
qed

lemma two_tiers_limits: "limits_ok two_tiers"
proof -
  have "buildConditionStr [\<lparr>ti_var = js ''p'', ti_op = js ''<'', ti_value = Number_bound (Fin 9)\<rparr>] = js ''p'' @ js '' '' @ js ''<'' @ js '' '' @ num_text (Fin 9)"
    using conditions_text [of "[_]"] bound_ok by (simp add: bound_number_def del: num_text.simps)
  moreover have "vt_conditions (token_tier_of l cs x) = cs" for l cs x by (simp add: token_tier_of_def)
  ultimately have "length (tiers_text two_tiers) \<le> 65536"
    using small_texts by (simp add: two_tiers_def token_tier_text js_def del: num_text.simps)
  then show ?thesis unfolding limits_ok_def generated_text [OF two_tiers_ok] by (simp add: two_tiers_def token_tier_of_def)
qed

lemma few_counts: "counts_ok (Fin 5) (Fin 7) no_extra"
  by (simp add: counts_ok_def buildEstimatorTokens_def ESTIMATOR_VARS_def no_extra_def to_double_numeral)

lemma few_tier:
  "find (applies (documented_count (Fin 5) (Fin 7) no_extra)) two_tiers =
     Some (token_tier_of ''a'' [\<lparr>ti_var = js ''p'', ti_op = js ''<'', ti_value = Number_bound (Fin 9)\<rparr>] (Fin 2))"
  by (simp add: two_tiers_def applies_def meets_def documented_count_def bound_number_def token_tier_of_def)

lemma few_price: "charge (documented_count (Fin 5) (Fin 7) no_extra) (token_tier_of l cs (Fin 2)) = Fin 31"
  by (simp add: charge_def token_tier_prices documented_count_def mul_num_def is_zero_def to_double_numeral)

theorem estimate_charges_tier_witness:
  "fst (evalExprLocally plain_host (generateExprFromVisualConfig (Some \<lparr>vc_tiers = two_tiers\<rparr>)) (Fin 5) (Fin 7) no_extra None []) =
     \<lparr>er_cost = Fin 31, er_matchedTier = js ''a'', er_error = None, er_billingUnit = None\<rparr>"
  using estimate_charges_tier [OF two_tiers_ok two_tiers_limits empty_cache_ok _ few_counts _ few_tier, of None plain_host] few_price
  by (simp add: plain_context_def no_media_def no_extra_def token_tier_of_def)

section \<open>Reading back\<close>

lemma version_absent: "tiers_ok ts \<Longrightarrow> version_body (tiers_text ts) = tiers_text ts"
  using tiers_text_head [of ts] by (cases "tiers_text ts") (auto simp: version_body_def)

lemma single_tier_read:
  assumes "tier_ok t" "vt_conditions t = []"
  shows "\<exists>cfg. tryParseVisualConfig (Some (call_text t)) = Some cfg \<and> list_all2 same_tier [t] (vc_tiers cfg)"
proof -
  have e: "first_run (Seqs [At_end]) ([], tier_groups 1 t) = Some ([], tier_groups 1 t)" by (simp add: first_run_def runs.simps)
  have "first_run (Seqs (tier_pattern 1)) (call_text t, []) = Some ([], tier_groups 1 t)" using first_tier_call [OF assms(1), of 1 "[]" "[]"] by simp
  from first_seqs_append [OF _ _ this e] have "first_run (Seqs (tier_pattern 1 @ [At_end])) (call_text t, []) = Some ([], tier_groups 1 t)"
    by (simp add: tier_pattern_def)
  then obtain xs where r: "runs (Seqs (tier_pattern 1 @ [At_end])) (call_text t, []) = ([], tier_groups 1 t) # xs"
    by (auto simp: first_run_def split: list.splits)
  have "same_tier t (normalizeVisualTier (as_partial (matched_tier [] 1 (tier_groups 1 t))))"
    using tier_read_back [OF assms(1), of 1 "[]"] assms(2) by (intro same_tier_normal) simp
  moreover have "version_body (call_text t) = call_text t" "call_text t \<noteq> []"
    using call_text_head [of t] by (auto simp: version_body_def)
  ultimately show ?thesis using r by (simp add: tryParseVisualConfig_def normalizeVisualConfig_def)
qed

lemma matches_read:
  assumes "version_body s = s" "s = x # r" "x \<noteq> 116" "map (\<lambda>g. matched_tier (read_conditions (group_text g 1)) 2 g) (all_matches tierRe s) = us"
    "us \<noteq> []" "generateExprFromVisualConfig (Some \<lparr>vc_tiers = map (\<lambda>t. normalizeVisualTier (as_partial t)) us\<rparr>) = s"
  shows "tryParseVisualConfig (Some s) = Some \<lparr>vc_tiers = map (\<lambda>t. normalizeVisualTier (as_partial t)) us\<rparr>"
proof -
  have "s \<noteq> []" "runs (Seqs (tier_pattern 1 @ [At_end])) (s, []) = []" using no_tier [OF assms(3)] assms(2) by simp_all
  moreover have "normalizeVisualConfig (Some \<lparr>vc_tiers = us\<rparr>) = \<lparr>vc_tiers = map (\<lambda>t. normalizeVisualTier (as_partial t)) us\<rparr>"
    using assms(5) by (simp add: normalizeVisualConfig_def)
  ultimately show ?thesis
    unfolding tryParseVisualConfig_def option.case assms(1) Let_def assms(4) using assms(5,6) by simp
qed

lemma several_tiers_read:
  assumes "readable_tiers (t # u # ts)"
  shows "\<exists>cfg. tryParseVisualConfig (Some (tiers_text (t # u # ts))) = Some cfg \<and> list_all2 same_tier (t # u # ts) (vc_tiers cfg)"
proof -
  let ?ts = "t # u # ts" and ?s = "tiers_text (t # u # ts)"
  have ok: "tiers_ok ?ts" using assms by (simp add: readable_tiers_def)
  have c: "list_all readable_condition (vt_conditions t)" "vt_conditions t \<noteq> []" using assms by (simp_all add: readable_tiers_simps)
  then obtain d ds where d: "vt_conditions t = d # ds" "readable_condition d" by (cases "vt_conditions t") auto
  have k: "list_all bound_condition_ok (vt_conditions t)" using c(1) by (auto simp: list_all_iff readable_condition_def)
  have n: "buildConditionStr (vt_conditions t) \<noteq> []" using conditions_text_Nil [OF k] c(2) by simp
  have "\<exists>r. join (js '' && '') (map comparison_text (d # ds)) = comparison_text d @ r"
    by (cases ds) (simp_all only: list.map join.simps append_Nil2 append_same_eq append_assoc, blast+)
  then obtain r where "buildConditionStr (vt_conditions t) = comparison_text d @ r" using conditions_text [OF k] unfolding d(1) by auto
  then have "hd (buildConditionStr (vt_conditions t)) \<in> {112, 99, 108}" using comparison_head [OF d(2)] by (metis hd_append2)
  with n obtain x r where x: "?s = x # r" "x \<noteq> 116" by (cases "buildConditionStr (vt_conditions t)") auto
  let ?us = "map (\<lambda>g. matched_tier (read_conditions (group_text g 1)) 2 g) (all_matches tierRe ?s)"
  have us: "?us = map (\<lambda>t. matched_tier (read_conditions (group_text (match_groups t) 1)) 2 (match_groups t)) ?ts"
    unfolding tiers_matched [OF assms] by simp
  have "\<forall>t \<in> set ?ts. tier_ok t \<and> (\<forall>c \<in> set (vt_conditions t). readable_condition c)"
    using assms by (auto simp: readable_tiers_def tiers_ok_def list_all_iff)
  then have same: "list_all2 same_tier ?ts (map (\<lambda>t. normalizeVisualTier (as_partial t)) ?us)"
    unfolding us map_map list.rel_map(2) list_all2_same o_apply by (blast intro: same_tier_normal match_read_back)
  let ?cfg = "\<lparr>vc_tiers = map (\<lambda>t. normalizeVisualTier (as_partial t)) ?us\<rparr>"
  have "generateExprFromVisualConfig (Some ?cfg) = ?s" 
    by (rule trans [OF generated_text [OF conjunct1] conjunct2]) (rule same_tiers_text [OF same ok])+
  moreover have "?us \<noteq> []" unfolding us by simp
  ultimately have "tryParseVisualConfig (Some ?s) = Some ?cfg" by (intro matches_read [OF version_absent [OF ok] x refl])
  then show ?thesis using same by simp
qed

text \<open>C9: What the tier editor writes it reads back: for tiers priced by tokens with plain labels that
  all have conditions but for the last, with bounds whose text is digits, exponents and points, the expression is
  recognised, and the tiers that are read have the labels, conditions and prices of those
  that were written, in their order.\<close>

theorem tiers_read_back:
  assumes "readable_tiers ts"
  shows "\<exists>cfg. tryParseVisualConfig (Some (generateExprFromVisualConfig (Some \<lparr>vc_tiers = ts\<rparr>))) = Some cfg \<and>
    list_all2 same_tier ts (vc_tiers cfg)"
proof -
  have ok: "tiers_ok ts" using assms by (simp add: readable_tiers_def)
  show ?thesis
  proof (cases ts rule: remdups_adj.cases)
    case 1
    then show ?thesis using ok by (simp add: tiers_ok_def)
  next
    case (2 t)
    then show ?thesis using single_tier_read [of t] assms generated_text [OF ok] by (simp add: readable_tiers_simps)
  next
    case (3 t u us)
    then show ?thesis using several_tiers_read [of t u us] assms generated_text [OF ok] by simp
  qed
qed

lemma two_tiers_readable: "readable_tiers two_tiers"
proof -
  have "point (9 :: rat) \<le> 20" using point_le [of 9 1] by simp
  then have "digits (num_text (Fin 9))" by (intro whole_text_digits [where i = 9] to_double_numeral) simp_all
  then have "list_all bound_unit (num_text (Fin 9))" by (simp add: digits_def list_all_iff bound_unit_def del: num_text.simps)
  then have "readable_condition \<lparr>ti_var = js ''p'', ti_op = js ''<'', ti_value = Number_bound (Fin 9)\<rparr>"
    using bound_ok by (simp add: readable_condition_def bound_number_def del: num_text.simps)
  then show ?thesis using two_tiers_ok by (simp add: readable_tiers_def two_tiers_def) (simp add: token_tier_of_def)
qed

theorem tiers_read_back_witness:
  "\<exists>cfg. tryParseVisualConfig (Some (generateExprFromVisualConfig (Some \<lparr>vc_tiers = two_tiers\<rparr>))) = Some cfg \<and>
    list_all2 same_tier two_tiers (vc_tiers cfg)"
  using tiers_read_back [OF two_tiers_readable] .

end
