(* ===== verification/Spec2Isabelle.thy ===== *)
theory Spec2Isabelle
  imports
    Billing_Visual_Properties
    Billing_Conditions_Properties
    Billing_Written
    Pricing_Tasks_Properties
    Image_Leases
    Image_Results_Properties
    Image_Requests_Properties
    Auth_Guarantees
    Video_Guarantees
    Video_Networks
    Video_Preflight_Properties
    Channel_Routes_Properties
    Pricing_Tiers_Properties
begin

text \<open>
  A verification development for the web client of the Vancine platform, a gateway for AI models.
  The client is written in TypeScript under \<open>web/src\<close>; all file names below are relative to it.

  \<^bold>\<open>The program.\<close>  The client has six parts whose logic is more than rendering:

  \<^item> The billing expression language (\<open>features/pricing/lib/billing-expression\<close>).  A price is a
    program such as \<open>p < 1000 ? tier("short", p * 2) : tier("long", p * 3)\<close>.  \<open>types.ts\<close> has the
    syntax tree and its traversal, \<open>parser.ts\<close> the lexer, the parser, the static checks and the
    compiler with its cache, \<open>runtime.ts\<close> the evaluator that simulates the charge of a request,
    \<open>display.ts\<close> the price tables that are read from a tree, and \<open>visual.ts\<close> the visual editor,
    which reads a document from a tree and writes it back by patching the source;
    \<open>condition-display.ts\<close> puts conditions into words, and \<open>structure.ts\<close> splits a source at
    top-level operators.
  \<^item> The price editors around the language (\<open>features/pricing/lib\<close>).  \<open>billing-expr.ts\<close> reads and
    writes the request rules a price is multiplied with, by regular expressions, separates them
    from the price and maps tables to rows; \<open>breakdown-tier-match.ts\<close> marks the row that was
    charged; \<open>plugin-pricing.ts\<close> keeps prices of plugins; \<open>task-expr.ts\<close> is the editor for
    prices of tasks, as tiers or as a matrix over the fields of a usage schema; \<open>tier-expr.ts\<close> is
    the editor for tiers of token prices, with an estimator of costs.
  \<^item> The image playground.  \<open>stores/image-playground-store.ts\<close> keeps the history of every user in
    memory and in local storage, shared by several tabs through storage events, leases and
    tombstones; \<open>features/image-playground/lib\<close> checks a request against the profile of its
    model, builds the payload and reads the images of the response.
  \<^item> Authentication.  \<open>stores/auth-store.ts\<close> holds the session, \<open>lib/auth-session.ts\<close> accepts,
    rotates, refreshes and clears it while requests are under way, \<open>lib/auth-session-sync.ts\<close>
    tells other tabs, and \<open>lib/session-hint.ts\<close> reads the hint cookie.
  \<^item> The video playground (\<open>features/video-playground\<close>).  \<open>lib/model-capabilities.ts\<close> has the
    capabilities of the models and \<open>lib/video-request.ts\<close> the bodies of the wire contracts;
    \<open>hooks/use-submission.ts\<close> is a queue of submissions whose loops wait for answers while the user
    cancels, switches keys or leaves; \<open>api.ts\<close> and \<open>lib/task.ts\<close> submit a task, remember the key it
    was submitted with, poll it and check the artifacts of a finished task.  A second composer has
    creation modes (\<open>lib/mode.ts\<close>, \<open>lib/contract.ts\<close>), profiles with budgets
    (\<open>lib/capabilities.ts\<close>), checks of the attached resources (\<open>lib/preflight.ts\<close>) and its own
    bodies (\<open>lib/request-serializer.ts\<close>).
  \<^item> Custom channels (\<open>features/channels/lib/advanced-custom.ts\<close>): the routes of a channel, each with
    an incoming path, rules for models, a converter, an upstream path and authentication, which an
    administrator edits and which are stored as a text.

  \<^bold>\<open>JavaScript.\<close>  \<open>Js_Base\<close> has strings as lists of code units, the error results
  and the collections \<open>js_eval\<close> and \<open>res_simps\<close>; \<open>Js_Number\<close> the binary64 numbers with rounding,
  negative zero, infinities and \<open>NaN\<close>; \<open>Js_Format\<close> printing and reading of numbers;
  \<open>Js_Number_Text\<close> the proof that a printed number reads back, in every layout of the printer;
  \<open>Js_Regexp\<close> regular expressions with the backtracking order of their groups; \<open>Json_Text\<close>
  \<open>JSON.stringify\<close> and \<open>JSON.parse\<close> on strings; \<open>Js_Date\<close> the UTC calendar; \<open>Js_Value\<close> values of unknown type and insertion-ordered maps.
  A thrown error is \<open>Inl\<close>, a result \<open>Inr\<close>.  What the browser provides (time zones, URL parsing,
  date parsing, lower casing, the clock) is a record of functions the model takes as an argument.

  \<^bold>\<open>Billing expressions.\<close>
  \<^item> \<open>Billing_Types\<close>: vocabulary, \<open>expr\<close>, diagnostics; the explicit-stack traversal is the
    recursive post-order fold.
  \<^item> \<open>Billing_Lexer\<close>, \<open>Billing_Parser\<close>: \<open>lex_next\<close>, \<open>pstate\<close> and the methods of the parser.  The
    methods call each other, so they carry fuel; the locales \<open>parser_contract\<close> and
    \<open>parser_budget\<close>, interpreted on the methods, show that spans nest and that fuel of three units
    per character and two more is enough, so that it is never the reason for a result.
  \<^item> \<open>Billing_Compile\<close>: the type checker and its declarative rules \<open>typed\<close>, the shape of fixed
    prices, request rules, and the cache as an interpretation of the locale \<open>memo_table\<close>.
  \<^item> \<open>Billing_Runtime\<close>, \<open>Billing_Evaluation\<close>: the evaluator on the state \<open>rstate\<close>, with the 256
    levels of depth the code allows as its recursion bound; the locale \<open>evaluation_effects\<close>
    gives the effects and errors of runs, for the growth of the state, for missing context and
    for expressions that leave the price alone.
  \<^item> \<open>Billing_Properties\<close>: what parsing, compilation and evaluation promise, on every branch.
  \<^item> \<open>Billing_Display\<close>, \<open>Billing_Tables\<close>, \<open>Billing_Task_Tables\<close>, \<open>Billing_Display_Properties\<close>: the
    readers of tables and, through the locales \<open>condition_reader\<close>, \<open>sum_reader\<close> and \<open>tier_chain\<close>,
    interpreted for token and for task tables, the refinement: the table selects the tier
    the evaluation charges.
  \<^item> \<open>Billing_Visual\<close>, \<open>Billing_Visual_Lossless\<close>, \<open>Billing_Visual_Edits\<close>,
    \<open>Billing_Visual_Properties\<close>: the editor; unedited documents are lossless, and edits are local.
  \<^item> \<open>Billing_Conditions\<close>, \<open>Billing_Conditions_Properties\<close>: the texts that describe conditions; the
    range in a text is exactly the set of values the evaluator accepts.
  \<^item> \<open>Billing_Grammar\<close>, \<open>Billing_Spelling\<close>, \<open>Billing_Print\<close>, \<open>Billing_Written\<close>: a declarative
    grammar by precedence levels that the parser implements, the lexing of spelt tokens, a
    reference printer whose texts the parser reads back, and the calculus by which the texts
    that editors generate are shown to compile to the tree they mean.

  \<^bold>\<open>Price editors.\<close>
  \<^item> \<open>Pricing_Structure\<close>: splitting at top-level operators and removal of parentheses.
  \<^item> \<open>Pricing_Rules\<close>, \<open>Pricing_Rules_Text\<close>, \<open>Pricing_Rules_Properties\<close>: request conditions, their
    readers and builders; which rules are read back, with their positions, and which are not.
  \<^item> \<open>Pricing_Expr\<close>, \<open>Pricing_Expr_Properties\<close>: the registry of variables, rows of tables, the
    separation of a price from its rules, and the row that is marked as charged.
  \<^item> \<open>Pricing_Tasks\<close>, \<open>Pricing_Tasks_Text\<close>, \<open>Pricing_Tasks_Properties\<close>: fields and combinations of
    a usage schema, tiers, matrices, generation and previews; tiers and matrices are read
    back from the expressions that are generated for them.  The order of \<open>localeCompare\<close> is
    a parameter.
  \<^item> \<open>Pricing_Tiers\<close>, \<open>Pricing_Tiers_Text\<close>, \<open>Pricing_Tiers_Reading\<close>, \<open>Pricing_Tiers_Properties\<close>:
    the tier editor; what it writes compiles to a tree whose table has the tiers, the
    estimator reports the tier and the exact cost for the documented quantities, and the editor's
    patterns read the tiers back.

  \<^bold>\<open>Image playground.\<close>
  \<^item> \<open>Image_Types\<close>, \<open>Image_Store\<close>: the records, their JSON form and validation, merging, leases,
    persistence and the operations on \<open>image_state\<close>.
  \<^item> \<open>Image_Properties\<close>, \<open>Image_Guarantees\<close>: the locale \<open>store_operation\<close>, interpreted on every
    operation, the step relation \<open>store_step\<close> with its reachable states, and what users rely on.
    \<open>Image_Leases\<close>: two tabs that share a storage; heartbeats keep a run alive in the other tab.
  \<^item> \<open>Image_Requests\<close>, \<open>Image_Requests_Properties\<close>: sizes, parameters, the form and the payload;
    accepted requests are in bounds and a change of model leaves an acceptable form.
  \<^item> \<open>Image_Results\<close>, \<open>Image_Results_Properties\<close>: base64 recognition and the images of a response.

  \<^bold>\<open>Authentication.\<close>
  \<^item> \<open>Auth_Store\<close>, \<open>Auth_Session\<close>: the store, the guards, and the session layer, in which a
    refresh is a suspended task of the state, resumed by the responses of the environment; the
    step relation \<open>auth_step\<close> interleaves it with every other operation.
  \<^item> \<open>Auth_Properties\<close>, \<open>Auth_Guarantees\<close>: the locale \<open>session_operation\<close>, interpreted on every
    operation, gives the invariant of every interleaving; then refreshes that were overtaken,
    the bound on retries, what each outcome says of the store in every interleaving, rotation,
    sign-out across tabs and request headers.

  \<^bold>\<open>Video playground.\<close>
  \<^item> \<open>Video_Task\<close>: errors, keys, the request layer, models, artifacts and their capability links, the
    registry of keys, submission and polling; \<open>decodeURIComponent\<close> is modelled, the URL parser and
    the two response schemas are functions of \<open>video_host\<close>.
  \<^item> \<open>Video_Queue\<close>: the page as a record with its submissions, the suspended loops (\<open>runner\<close>), the
    polls in flight and the registry; \<open>video_step\<close> interleaves them.
  \<^item> \<open>Video_Queue_Properties\<close>, \<open>Video_Guarantees\<close>: the locale \<open>page_invariant\<close>, interpreted for the
    ownership of entries, for the keys and for the tasks that can be polled; then cancellation,
    keys, progress, the end of polling and the videos that are played.
  \<^item> \<open>Video_Requests\<close>, \<open>Video_Requests_Properties\<close>: capabilities, the values the composer offers, the
    intake of images and the bodies; requests carry what was chosen, within the limits.
  \<^item> \<open>Video_Capabilities\<close>, \<open>Video_Preflight\<close>: modes, profiles, the checks of links, data URLs, sizes
    and durations, the bodies of the second composer and the decision to send;
    \<open>Video_Networks\<close>: addresses as words of 32 bits and networks as prefixes, with which the check
    of hosts agrees in every notation; \<open>Video_Preflight_Properties\<close>: the size of a data URL is that
    of its decoding, and a request that is sent carries every resource, each within its budget.

  \<^bold>\<open>Custom channels.\<close>
  \<^item> \<open>Channel_Routes\<close>: templates, defaults, normalisation, validation with its table of paths, the
    replacement of routes, texts and summaries, on values of unknown type.
  \<^item> \<open>Json_Print\<close>, \<open>Channel_Routes_Properties\<close>: printing with an indentation and its inverse; the
    validation accepts exactly the sound lists of routes, what is stored is read back, and the
    choices the editor offers are accepted.

  \<^bold>\<open>Identity of objects.\<close>  The code compares syntax nodes and runs by reference.  Two nodes of a
  parsed tree with the same position are the same node, which is proved, so the model compares
  nodes by value.  Runs are compared by identifier, as in the code.

  \<^bold>\<open>Not modelled.\<close>  React components, routes, translations and styling, which render; the
  generated route table; calls of the REST interface; the schema library, whose validation of a
  response is a parameter; the remaining features (other channel forms, dashboards, settings)
  and, within pricing, the formatting of dynamic prices.  The server in Go is a different program.
\<close>

end
